(* ===== verification/Prelude.thy ===== *)
theory Prelude
  imports Main "HOL-Library.Word" "HOL-Library.AList"
begin

text \<open>
  The shared vocabulary of the development: the fixed-width types of the Go sources, Go maps
  as association lists, byte strings in big-endian order, and the generic lemmas that the
  component theories use through \<open>simp\<close> and the named collections below.
\<close>

unbundle bit_operations_syntax

named_theorems go_simps \<open>rewrite rules for the model's Go primitives\<close>
named_theorems err_simps \<open>unfoldings of fallible operations\<close>

subsection \<open>Types\<close>

type_synonym u8 = "8 word"
type_synonym u32 = "32 word"
type_synonym u64 = "64 word"
type_synonym byte = "8 word"
type_synonym bytes = "byte list"
type_synonym address = "160 word"
type_synonym hash = "256 word"

text \<open>
  A Go \<^verbatim>\<open>*big.Int\<close> is an unbounded integer or nil; its methods \<open>Uint64\<close>, \<open>Sign\<close> and
  \<open>BitLen\<close> are written out here.  \<open>Uint64\<close> returns the low 64 bits.
\<close>

type_synonym bigint = "int option"

definition big_Uint64 :: "int \<Rightarrow> u64" where
  "big_Uint64 i = word_of_int (\<bar>i\<bar>)"

fun nat_BitLen :: "nat \<Rightarrow> nat" where
  "nat_BitLen n = (if n = 0 then 0 else Suc (nat_BitLen (n div 2)))"

declare nat_BitLen.simps [simp del]

definition big_BitLen :: "int \<Rightarrow> nat" where
  "big_BitLen i = nat_BitLen (nat \<bar>i\<bar>)"

definition MaxUint64 :: u64 where
  "MaxUint64 = - 1"

lemma big_Uint64_uint [simp]: "big_Uint64 (uint (x :: u64)) = x"
  by (simp add: big_Uint64_def)

lemma big_Uint64_0 [simp]: "big_Uint64 0 = 0"
  by (simp add: big_Uint64_def)

subsection \<open>Go maps\<close>

text \<open>
  A Go map is an association list with distinct keys.  Iteration order is unspecified in Go,
  so the list order stands for one possible order: a statement about every such list is a
  statement about every iteration order.
\<close>

type_synonym ('k, 'v) gomap = "('k \<times> 'v) list"

definition gm_ok :: "('k, 'v) gomap \<Rightarrow> bool" where
  "gm_ok m \<longleftrightarrow> distinct (map fst m)"

definition gm_get :: "('k, 'v) gomap \<Rightarrow> 'k \<Rightarrow> 'v option" where
  "gm_get m k = map_of m k"

definition gm_set :: "('k, 'v) gomap \<Rightarrow> 'k \<Rightarrow> 'v \<Rightarrow> ('k, 'v) gomap" where
  "gm_set m k v = AList.update k v m"

definition gm_del :: "('k, 'v) gomap \<Rightarrow> 'k \<Rightarrow> ('k, 'v) gomap" where
  "gm_del m k = filter (\<lambda>e. fst e \<noteq> k) m"

definition gm_keys :: "('k, 'v) gomap \<Rightarrow> 'k list" where
  "gm_keys m = map fst m"

text \<open>The contract every client of a Go map relies on.\<close>

locale go_map =
  fixes ok :: "'m \<Rightarrow> bool"
    and empty :: "'m"
    and get :: "'m \<Rightarrow> 'k \<Rightarrow> 'v option"
    and put :: "'m \<Rightarrow> 'k \<Rightarrow> 'v \<Rightarrow> 'm"
    and del :: "'m \<Rightarrow> 'k \<Rightarrow> 'm"
    and size_of :: "'m \<Rightarrow> nat"
  assumes ok_empty: "ok empty"
    and ok_put: "ok m \<Longrightarrow> ok (put m k v)"
    and ok_del: "ok m \<Longrightarrow> ok (del m k)"
    and get_empty: "get empty = Map.empty"
    and get_put: "get (put m k v) = (get m)(k \<mapsto> v)"
    and get_del: "get (del m k) = (get m)(k := None)"
    and finite_dom: "finite (dom (get m))"
    and size_dom: "ok m \<Longrightarrow> size_of m = card (dom (get m))"
begin

lemma del_put: "get (del (put m k v) k) = get (del m k)"
  by (simp add: get_put get_del)

lemma size_put_new: "ok m \<Longrightarrow> get m k = None \<Longrightarrow> size_of (put m k v) = Suc (size_of m)"
  by (simp add: size_dom ok_put get_put finite_dom domIff)

lemma size_put_old: "ok m \<Longrightarrow> get m k = Some w \<Longrightarrow> size_of (put m k v) = size_of m"
  by (simp add: size_dom ok_put get_put insert_absorb domI)

lemma size_del_in: "ok m \<Longrightarrow> get m k = Some w \<Longrightarrow> Suc (size_of (del m k)) = size_of m"
  using card.remove [OF finite_dom, of k m] by (simp add: size_dom ok_del get_del domI)

lemma size_del_out: "ok m \<Longrightarrow> get m k = None \<Longrightarrow> size_of (del m k) = size_of m"
  by (simp add: size_dom ok_del get_del domIff)

lemma size_del_le: "ok m \<Longrightarrow> size_of (del m k) \<le> size_of m"
  by (cases "get m k") (use size_del_in [of m k] size_del_out [of m k] in force)+

end

lemma gm_ok_simps [simp]:
  "gm_ok []" "gm_ok ((k, v) # m) \<longleftrightarrow> k \<notin> fst ` set m \<and> gm_ok m"
  by (auto simp: gm_ok_def)

lemma gm_ok_set [simp]: "gm_ok m \<Longrightarrow> gm_ok (gm_set m k v)"
  by (simp add: gm_ok_def gm_set_def distinct_update)

lemma gm_ok_filter [simp]: "gm_ok m \<Longrightarrow> gm_ok (filter P m)"
  by (simp add: gm_ok_def distinct_map_filter)

lemma gm_ok_del [simp]: "gm_ok m \<Longrightarrow> gm_ok (gm_del m k)"
  by (simp add: gm_del_def)

lemma gm_get_Nil [simp]: "gm_get [] k = None"
  by (simp add: gm_get_def)

lemma gm_get_Cons [simp]: "gm_get ((k, v) # m) k' = (if k' = k then Some v else gm_get m k')"
  by (simp add: gm_get_def)

lemma gm_get_set [simp]: "gm_get (gm_set m k v) k' = (if k' = k then Some v else gm_get m k')"
  by (simp add: gm_get_def gm_set_def update_conv)

lemma gm_get_del [simp]: "gm_get (gm_del m k) k' = (if k' = k then None else gm_get m k')"
  by (induction m) (auto simp: gm_get_def gm_del_def)

lemma gm_get_set_iff: "gm_ok m \<Longrightarrow> gm_get m k = Some v \<longleftrightarrow> (k, v) \<in> set m"
  by (simp add: gm_ok_def gm_get_def map_of_eq_Some_iff)

lemma gm_get_None_iff: "gm_get m k = None \<longleftrightarrow> k \<notin> fst ` set m"
  by (simp add: gm_get_def map_of_eq_None_iff)

lemma gm_get_in: "gm_get m k = Some v \<Longrightarrow> (k, v) \<in> set m"
  by (simp add: gm_get_def map_of_SomeD)

lemma gm_get_filter:
  "gm_ok m \<Longrightarrow> gm_get (filter P m) k = (case gm_get m k of None \<Rightarrow> None | Some v \<Rightarrow> if P (k, v) then Some v else None)"
proof (induction m)
  case Nil
  then show ?case by simp
next
  case (Cons e m)
  obtain k' v' where e: "e = (k', v')" by (cases e)
  have "gm_get m k' = None" using Cons.prems by (simp add: e gm_get_None_iff)
  then have "gm_get (filter P m) k' = None" by (auto simp: gm_get_None_iff)
  then show ?case using Cons by (simp add: e)
qed

lemma gm_dom: "dom (gm_get m) = set (map fst m)"
  unfolding gm_get_def [abs_def] by (simp add: dom_map_of_conv_image_fst)

lemma gm_len_card: "gm_ok m \<Longrightarrow> length m = card (dom (gm_get m))"
  unfolding gm_dom gm_ok_def using distinct_card [of "map fst m"] by simp

interpretation gm: go_map gm_ok "[]" gm_get gm_set gm_del length
  by unfold_locales (simp_all add: gm_len_card gm_dom fun_eq_iff)

lemma gm_ok_snoc: "gm_ok m \<Longrightarrow> gm_get m k = None \<Longrightarrow> gm_set m k v = m @ [(k, v)]"
  by (induction m) (auto simp: gm_set_def gm_get_None_iff)

lemma set_gm_set: "set (gm_set m k v) \<subseteq> insert (k, v) (set m)"
  by (induction m) (auto simp: gm_set_def)

lemma set_gm_del: "set (gm_del m k) = {e \<in> set m. fst e \<noteq> k}"
  by (auto simp: gm_del_def)

subsection \<open>Errors\<close>

text \<open>A Go \<^verbatim>\<open>(T, error)\<close> result is a sum: \<open>Inl\<close> carries the error.\<close>

type_synonym ('e, 'a) result = "'e + 'a"

definition rbind :: "('e, 'a) result \<Rightarrow> ('a \<Rightarrow> ('e, 'b) result) \<Rightarrow> ('e, 'b) result" where
  "rbind r f = (case r of Inl e \<Rightarrow> Inl e | Inr x \<Rightarrow> f x)"

lemma rbind_simps [simp]: "rbind (Inl e) f = Inl e" "rbind (Inr x) f = f x"
  by (simp_all add: rbind_def)

lemma rbind_Inr_iff: "rbind r f = Inr y \<longleftrightarrow> (\<exists>x. r = Inr x \<and> f x = Inr y)"
  by (cases r) auto

lemma rbind_cong [fundef_cong]:
  "r = r' \<Longrightarrow> (\<And>x. r' = Inr x \<Longrightarrow> f x = f' x) \<Longrightarrow> rbind r f = rbind r' f'"
  by (cases r') auto

subsection \<open>Big-endian byte strings\<close>

text \<open>\<open>be_bytes n x\<close> is the low \<open>n\<close> bytes of \<open>x\<close>, most significant first.\<close>

primrec be_bytes :: "nat \<Rightarrow> nat \<Rightarrow> bytes" where
  "be_bytes 0 x = []"
| "be_bytes (Suc n) x = be_bytes n (x div 256) @ [of_nat (x mod 256)]"

definition be_nat :: "bytes \<Rightarrow> nat" where
  "be_nat bs = foldl (\<lambda>acc b. acc * 256 + unat b) 0 bs"

lemma length_be_bytes [simp]: "length (be_bytes n x) = n"
  by (induction n arbitrary: x) simp_all

lemma be_nat_Nil [simp]: "be_nat [] = 0"
  by (simp add: be_nat_def)

lemma be_nat_snoc [simp]: "be_nat (bs @ [b]) = be_nat bs * 256 + unat b"
  by (simp add: be_nat_def)

lemma be_nat_single [simp]: "be_nat [b] = unat b"
  using be_nat_snoc [of "[]" b] by simp

lemma unat_lt2p: "unat (x :: 'a :: len word) < 2 ^ LENGTH('a)"
  by (rule unsigned_less)

lemma unat_byte_less [simp]: "unat (b :: byte) < 256"
  using unat_lt2p [of b] by simp

lemma unat_of_nat_byte: "unat (of_nat (x mod 256) :: byte) = x mod 256"
  by (simp add: unat_of_nat)

lemma be_nat_be_bytes [simp]: "be_nat (be_bytes n x) = x mod 256 ^ n"
proof (induction n arbitrary: x)
  case 0
  then show ?case by simp
next
  case (Suc n)
  have "x mod 256 ^ Suc n = (x div 256) mod 256 ^ n * 256 + x mod 256"
    using mod_mult2_eq [of x 256 "256 ^ n"] by (simp add: mult.commute)
  then show ?case by (simp add: Suc unat_of_nat_byte)
qed

lemma be_nat_bound: "be_nat bs < 256 ^ length bs"
proof (induction bs rule: rev_induct)
  case Nil
  then show ?case by simp
next
  case (snoc b bs)
  have "unat b < 256" by simp
  moreover from snoc have "be_nat bs + 1 \<le> 256 ^ length bs" by simp
  then have "(be_nat bs + 1) * 256 \<le> 256 ^ length bs * 256" by (rule mult_le_mono1)
  then have "be_nat bs * 256 + 256 \<le> 256 ^ length (bs @ [b])" by simp
  ultimately show ?case unfolding be_nat_snoc by linarith
qed

lemma be_bytes_be_nat [simp]: "be_bytes (length bs) (be_nat bs) = bs"
proof (induction bs rule: rev_induct)
  case Nil
  then show ?case by simp
next
  case (snoc b bs)
  have b: "unat b < 256" using unat_lt2p [of b] by simp
  have "(be_nat bs * 256 + unat b) div 256 = be_nat bs" "(be_nat bs * 256 + unat b) mod 256 = unat b"
    using b by simp_all
  with snoc show ?case by (simp only: length_append_singleton be_bytes.simps be_nat_snoc) simp
qed

lemma be_nat_append: "be_nat (xs @ ys) = be_nat xs * 256 ^ length ys + be_nat ys"
proof (induction ys rule: rev_induct)
  case Nil
  then show ?case by simp
next
  case (snoc y ys)
  have "be_nat (xs @ ys @ [y]) = be_nat (xs @ ys) * 256 + unat y"
    using be_nat_snoc [of "xs @ ys" y] by simp
  also have "\<dots> = be_nat xs * 256 ^ length ys * 256 + (be_nat ys * 256 + unat y)"
    unfolding snoc by (simp only: add_mult_distrib add.assoc)
  also have "\<dots> = be_nat xs * 256 ^ length (ys @ [y]) + be_nat (ys @ [y])"
    by (simp add: mult.assoc mult.commute)
  finally show ?case .
qed

lemma be_nat_Cons: "be_nat (b # bs) = unat b * 256 ^ length bs + be_nat bs"
  using be_nat_append [of "[b]" bs] by simp

lemma be_bytes_inj:
  assumes "be_bytes n x = be_bytes n y" "x < 256 ^ n" "y < 256 ^ n"
  shows "x = y"
  using assms by (metis be_nat_be_bytes mod_less)

definition address_bytes :: "address \<Rightarrow> bytes" where
  "address_bytes a = be_bytes 20 (unat a)"

definition hash_bytes :: "hash \<Rightarrow> bytes" where
  "hash_bytes h = be_bytes 32 (unat h)"

text \<open>\<^verbatim>\<open>common.BytesToAddress\<close> and \<^verbatim>\<open>common.BytesToHash\<close> keep the last 20 or 32 bytes and pad
  shorter inputs with zeros on the left.\<close>

definition BytesToAddress :: "bytes \<Rightarrow> address" where
  "BytesToAddress bs = of_nat (be_nat bs)"

definition BytesToHash :: "bytes \<Rightarrow> hash" where
  "BytesToHash bs = of_nat (be_nat bs)"

lemma length_address_bytes [simp]: "length (address_bytes a) = 20"
  by (simp add: address_bytes_def)

lemma length_hash_bytes [simp]: "length (hash_bytes a) = 32"
  by (simp add: hash_bytes_def)

lemma BytesToAddress_bytes [simp]: "BytesToAddress (address_bytes a) = a"
proof -
  have "unat a < 256 ^ 20" using unat_lt2p [of a] by simp
  then show ?thesis by (simp add: BytesToAddress_def address_bytes_def)
qed

lemma BytesToHash_bytes [simp]: "BytesToHash (hash_bytes a) = a"
proof -
  have "unat a < 256 ^ 32" using unat_lt2p [of a] by simp
  then show ?thesis by (simp add: BytesToHash_def hash_bytes_def)
qed

subsection \<open>Words\<close>

lemma unat_add_no_overflow:
  "unat (a :: u64) + unat b < 2 ^ 64 \<Longrightarrow> unat (a + b) = unat a + unat b"
  by (simp add: unat_word_ariths)

lemma unat_sub_no_underflow: "b \<le> (a :: u64) \<Longrightarrow> unat (a - b) = unat a - unat b"
  by (simp add: unat_sub)

lemma unat_u64_bound [simp]: "unat (a :: u64) < 18446744073709551616"
  using unat_lt2p [of a] by simp

lemma unat_MaxUint64 [simp]: "unat MaxUint64 = 18446744073709551615"
  unfolding MaxUint64_def by (simp add: unsigned_minus_1_eq_mask mask_eq_exp_minus_1)

lemma u64_le_Max [simp]: "(a :: u64) \<le> MaxUint64"
  by (simp add: MaxUint64_def)

lemma unat_of_nat_u64 [simp]: "a < 2 ^ 64 \<Longrightarrow> unat (of_nat a :: u64) = a"
  by (simp add: unat_of_nat)

lemma unat_of_nat_add_u64: "a + b < 2 ^ 64 \<Longrightarrow> unat (of_nat a + of_nat b :: u64) = a + b"
  by (simp only: of_nat_add [symmetric] unat_of_nat_u64)

lemma unat_Suc_of_nat_u64: "Suc a < 2 ^ 64 \<Longrightarrow> unat (1 + of_nat a :: u64) = Suc a"
  using unat_of_nat_add_u64 [of 1 a] by simp

lemma of_nat_eq_1_u64: "a < 2 ^ 64 \<Longrightarrow> (of_nat a :: u64) = 1 \<longleftrightarrow> a = 1"
  by (metis of_nat_1 unat_1 unat_of_nat_u64)

end
