(* ===== verification/Rlp.thy ===== *)
theory Rlp
  imports Prelude
begin

text \<open>
  Package \<^verbatim>\<open>rlp\<close>: the encoder buffer of \<^verbatim>\<open>rlp/encode.go\<close> (string data and list headers kept apart
  and merged at the end), the writers of the Go kinds that appear in headers and transactions,
  and the raw splitter of \<^verbatim>\<open>rlp/raw.go\<close>.  The encoder buffer is proved to implement the
  recursive reference encoding, and the splitter to be a left and right inverse of it.
\<close>

subsection \<open>Integers and heads (\<^verbatim>\<open>rlp/encode.go\<close>)\<close>

definition to_byte :: "u64 \<Rightarrow> byte" where
  "to_byte x = ucast x"

definition putint :: "u64 \<Rightarrow> bytes" where
  "putint i =
    (if i < 0x100 then [to_byte i]
     else if i < 0x10000 then [to_byte (drop_bit 8 i), to_byte i]
     else if i < 0x1000000 then [to_byte (drop_bit 16 i), to_byte (drop_bit 8 i), to_byte i]
     else if i < 0x100000000 then
       [to_byte (drop_bit 24 i), to_byte (drop_bit 16 i), to_byte (drop_bit 8 i), to_byte i]
     else if i < 0x10000000000 then
       [to_byte (drop_bit 32 i), to_byte (drop_bit 24 i), to_byte (drop_bit 16 i),
        to_byte (drop_bit 8 i), to_byte i]
     else if i < 0x1000000000000 then
       [to_byte (drop_bit 40 i), to_byte (drop_bit 32 i), to_byte (drop_bit 24 i),
        to_byte (drop_bit 16 i), to_byte (drop_bit 8 i), to_byte i]
     else if i < 0x100000000000000 then
       [to_byte (drop_bit 48 i), to_byte (drop_bit 40 i), to_byte (drop_bit 32 i),
        to_byte (drop_bit 24 i), to_byte (drop_bit 16 i), to_byte (drop_bit 8 i), to_byte i]
     else
       [to_byte (drop_bit 56 i), to_byte (drop_bit 48 i), to_byte (drop_bit 40 i),
        to_byte (drop_bit 32 i), to_byte (drop_bit 24 i), to_byte (drop_bit 16 i),
        to_byte (drop_bit 8 i), to_byte i])"

lemma unat_drop_bit: "unat (drop_bit n (x :: u64)) = unat x div 2 ^ n"
  unfolding unat_drop_bit_eq by (rule drop_bit_eq_div)

lemma drop_8_less: "drop_bit 8 (i :: u64) \<noteq> 0 \<Longrightarrow> unat (drop_bit 8 i) < unat i"
proof -
  assume "drop_bit 8 i \<noteq> 0"
  then have "unat (drop_bit 8 i) \<noteq> 0" by (simp add: unat_eq_0)
  then have "unat i > 0" unfolding unat_drop_bit by (metis div_0 gr0I)
  then show ?thesis by (simp add: unat_drop_bit)
qed

function intsize :: "u64 \<Rightarrow> nat" where
  "intsize i = (let i' = drop_bit 8 i in if i' = 0 then 1 else Suc (intsize i'))"
  by pat_completeness auto
termination
  by (relation "measure unat") (auto simp: drop_8_less)

declare intsize.simps [simp del]

definition headsize :: "u64 \<Rightarrow> nat" where
  "headsize sz = (if sz < 56 then 1 else 1 + intsize sz)"

definition puthead :: "byte \<Rightarrow> byte \<Rightarrow> u64 \<Rightarrow> bytes" where
  "puthead smalltag largetag sz =
    (if sz < 56 then [smalltag + to_byte sz]
     else (let s = putint sz in (largetag + of_nat (length s)) # s))"

subsection \<open>The encoder buffer\<close>

record listhead =
  lh_offset :: int
  lh_size :: int

record encbuf =
  eb_str :: bytes
  eb_lheads :: "listhead list"
  eb_lhsize :: int

definition eb_reset :: encbuf where
  "eb_reset = \<lparr>eb_str = [], eb_lheads = [], eb_lhsize = 0\<rparr>"

definition eb_append :: "bytes \<Rightarrow> encbuf \<Rightarrow> encbuf" where
  "eb_append b w = w\<lparr>eb_str := eb_str w @ b\<rparr>"

definition encodeStringHeader :: "nat \<Rightarrow> encbuf \<Rightarrow> encbuf" where
  "encodeStringHeader sz w =
    (if sz < 56 then eb_append [0x80 + of_nat sz] w
     else (let s = putint (of_nat sz) in eb_append ((0xB7 + of_nat (length s)) # s) w))"

definition encodeString :: "bytes \<Rightarrow> encbuf \<Rightarrow> encbuf" where
  "encodeString b w =
    (if length b = 1 \<and> b ! 0 \<le> 0x7F then eb_append [b ! 0] w
     else eb_append b (encodeStringHeader (length b) w))"

definition encodeUint :: "u64 \<Rightarrow> encbuf \<Rightarrow> encbuf" where
  "encodeUint i w =
    (if i = 0 then eb_append [0x80] w
     else if i < 128 then eb_append [to_byte i] w
     else (let s = putint i in eb_append ((0x80 + of_nat (length s)) # s) w))"

definition eb_size :: "encbuf \<Rightarrow> int" where
  "eb_size w = int (length (eb_str w)) + eb_lhsize w"

definition eb_list :: "encbuf \<Rightarrow> nat \<times> encbuf" where
  "eb_list w =
    (let w' = w\<lparr>eb_lheads := eb_lheads w @
                 [\<lparr>lh_offset = int (length (eb_str w)), lh_size = eb_lhsize w\<rparr>]\<rparr>
     in (length (eb_lheads w') - 1, w'))"

definition eb_listEnd :: "nat \<Rightarrow> encbuf \<Rightarrow> encbuf" where
  "eb_listEnd index w =
    (let lh = eb_lheads w ! index;
         sz = eb_size w - lh_offset lh - lh_size lh
     in w\<lparr>eb_lheads := (eb_lheads w)[index := lh\<lparr>lh_size := sz\<rparr>],
          eb_lhsize := (if sz < 56 then eb_lhsize w + 1
                        else eb_lhsize w + 1 + int (intsize (word_of_int sz)))\<rparr>)"

definition listhead_encode :: "listhead \<Rightarrow> bytes" where
  "listhead_encode h = puthead 0xC0 0xF7 (word_of_int (lh_size h))"

fun toBytes_loop :: "bytes \<Rightarrow> listhead list \<Rightarrow> nat \<Rightarrow> bytes" where
  "toBytes_loop str [] strpos = drop strpos str"
| "toBytes_loop str (h # hs) strpos =
     (let n = nat (lh_offset h) - strpos
      in take n (drop strpos str) @ listhead_encode h @ toBytes_loop str hs (strpos + n))"

text \<open>The output slice is allocated with \<open>eb_size\<close> bytes, so the pieces are cut or zero-padded
  to that length; the refinement theorem shows that neither happens.\<close>

definition toBytes :: "encbuf \<Rightarrow> bytes" where
  "toBytes w =
    (let n = nat (eb_size w); out = toBytes_loop (eb_str w) (eb_lheads w) 0
     in take n out @ replicate (n - length out) 0)"

subsection \<open>Writers\<close>

text \<open>
  The Go values the reflective writer dispatches on.  A struct carries its mandatory fields and
  its trailing \<^verbatim>\<open>rlp:"optional"\<close> fields with their \<open>IsZero\<close> flag.
\<close>

datatype rval =
    VUint u64
  | VBool bool
  | VBig bigint
  | VBytes bytes
  | VByteArray bytes
  | VSlice "rval list"
  | VNilPtr bool \<comment> \<open>nil pointer; True when the nil kind is List\<close>
  | VStruct "rval list" "(bool \<times> rval) list"

datatype rlp_error =
    ErrUnexpectedEOF | ErrCanonSize | ErrValueTooLarge | ErrExpectedString | ErrExpectedList
  | ErrCanonInt | errUintOverflow | ErrNegativeBigInt

definition writeBigInt :: "int \<Rightarrow> encbuf \<Rightarrow> (rlp_error, encbuf) result" where
  "writeBigInt i w =
    (if i < 0 then Inl ErrNegativeBigInt
     else if big_BitLen i \<le> 64 then Inr (encodeUint (big_Uint64 i) w)
     else (let len = (big_BitLen i + 7) div 8
           in Inr (eb_append (be_bytes len (nat i)) (encodeStringHeader len w))))"

definition writeByteArray :: "bytes \<Rightarrow> encbuf \<Rightarrow> encbuf" where
  "writeByteArray b w =
    (if length b = 0 then eb_append [0x80] w
     else if length b = 1 then
       (if b ! 0 \<le> 0x7f then eb_append [b ! 0] w else eb_append [0x81, b ! 0] w)
     else eb_append b (encodeStringHeader (length b) w))"

text \<open>\<open>lastField\<close>: trailing optional fields that are zero are not written.\<close>

definition drop_zero_tail :: "(bool \<times> rval) list \<Rightarrow> rval list" where
  "drop_zero_tail fs = map snd (rev (dropWhile fst (rev fs)))"

lemma size_list_rev: "size_list f (rev xs) = size_list f xs"
  by (induction xs) (simp_all add: size_list_append)

lemma size_list_dropWhile: "size_list f (dropWhile P xs) \<le> size_list f xs"
  by (induction xs) auto

lemma size_drop_tail: "size_list size (drop_zero_tail fs) \<le> size_list (size_prod (\<lambda>_. 0) size) fs"
proof -
  have "size_list size (map snd xs) \<le> size_list (size_prod (\<lambda>_. 0) size) xs" for xs :: "(bool \<times> rval) list"
    by (induction xs) (auto simp del: size_list_map)
  then show ?thesis
    using le_trans size_list_dropWhile [of "size_prod (\<lambda>_. 0) size" fst "rev fs"]
    by (fastforce simp: drop_zero_tail_def size_list_rev rev_map [symmetric] simp del: size_list_map)
qed

function (sequential) rlp_write :: "rval \<Rightarrow> encbuf \<Rightarrow> (rlp_error, encbuf) result"
  and rlp_write_all :: "rval list \<Rightarrow> encbuf \<Rightarrow> (rlp_error, encbuf) result" where
  "rlp_write (VUint i) w = Inr (encodeUint i w)"
| "rlp_write (VBool b) w = Inr (eb_append [if b then 0x01 else 0x80] w)"
| "rlp_write (VBig None) w = Inr (eb_append [0x80] w)"
| "rlp_write (VBig (Some i)) w = writeBigInt i w"
| "rlp_write (VBytes b) w = Inr (encodeString b w)"
| "rlp_write (VByteArray b) w = Inr (writeByteArray b w)"
| "rlp_write (VSlice vs) w =
     (if vs = [] then Inr (eb_append [0xC0] w)
      else (let (idx, w1) = eb_list w
            in rbind (rlp_write_all vs w1) (\<lambda>w2. Inr (eb_listEnd idx w2))))"
| "rlp_write (VNilPtr isList) w = Inr (eb_append [if isList then 0xC0 else 0x80] w)"
| "rlp_write (VStruct fs opts) w =
     (let (idx, w1) = eb_list w
      in rbind (rlp_write_all (fs @ drop_zero_tail opts) w1) (\<lambda>w2. Inr (eb_listEnd idx w2)))"
| "rlp_write_all [] w = Inr w"
| "rlp_write_all (v # vs) w = rbind (rlp_write v w) (\<lambda>w'. rlp_write_all vs w')"
  by pat_completeness auto
termination
  by (relation "measure (\<lambda>x. case x of Inl (v, w) \<Rightarrow> size v | Inr (vs, w) \<Rightarrow> size_list size vs)")
     (auto simp: size_list_append intro: le_less_trans add_le_less_mono size_drop_tail)

definition EncodeToBytes :: "rval \<Rightarrow> (rlp_error, bytes) result" where
  "EncodeToBytes v = rbind (rlp_write v eb_reset) (\<lambda>w. Inr (toBytes w))"

subsection \<open>Splitting raw values (\<^verbatim>\<open>rlp/raw.go\<close>)\<close>

datatype Kind = KByte | KString | KList

definition IntSize :: "u64 \<Rightarrow> nat" where
  "IntSize x = (if x < 0x80 then 1 else 1 + intsize x)"

definition ListSize :: "u64 \<Rightarrow> u64" where
  "ListSize contentSize = of_nat (headsize contentSize) + contentSize"

definition readSize_val :: "bytes \<Rightarrow> byte \<Rightarrow> u64" where
  "readSize_val b slen =
    (let v = (\<lambda>i. ucast (b ! i) :: u64)
     in if slen = 1 then v 0
        else if slen = 2 then push_bit 8 (v 0) OR v 1
        else if slen = 3 then push_bit 16 (v 0) OR push_bit 8 (v 1) OR v 2
        else if slen = 4 then push_bit 24 (v 0) OR push_bit 16 (v 1) OR push_bit 8 (v 2) OR v 3
        else if slen = 5 then
          push_bit 32 (v 0) OR push_bit 24 (v 1) OR push_bit 16 (v 2) OR push_bit 8 (v 3) OR v 4
        else if slen = 6 then
          push_bit 40 (v 0) OR push_bit 32 (v 1) OR push_bit 24 (v 2) OR push_bit 16 (v 3)
          OR push_bit 8 (v 4) OR v 5
        else if slen = 7 then
          push_bit 48 (v 0) OR push_bit 40 (v 1) OR push_bit 32 (v 2) OR push_bit 24 (v 3)
          OR push_bit 16 (v 4) OR push_bit 8 (v 5) OR v 6
        else if slen = 8 then
          push_bit 56 (v 0) OR push_bit 48 (v 1) OR push_bit 40 (v 2) OR push_bit 32 (v 3)
          OR push_bit 24 (v 4) OR push_bit 16 (v 5) OR push_bit 8 (v 6) OR v 7
        else 0)"

definition readSize :: "bytes \<Rightarrow> byte \<Rightarrow> (rlp_error, u64) result" where
  "readSize b slen =
    (if unat slen > length b then Inl ErrUnexpectedEOF
     else (let s = readSize_val b slen
           in if s < 56 \<or> b ! 0 = 0 then Inl ErrCanonSize else Inr s))"

definition readKind :: "bytes \<Rightarrow> (rlp_error, Kind \<times> u64 \<times> u64) result" where
  "readKind buf =
    (if buf = [] then Inl ErrUnexpectedEOF
     else (let b = buf ! 0
       in rbind
         (if b < 0x80 then Inr (KByte, 0, 1)
          else if b < 0xB8 then
            (let contentsize = ucast (b - 0x80) :: u64
             in if contentsize = 1 \<and> length buf > 1 \<and> buf ! 1 < 128 then Inl ErrCanonSize
                else Inr (KString, 1, contentsize))
          else if b < 0xC0 then
            rbind (readSize (drop 1 buf) (b - 0xB7)) (\<lambda>cs. Inr (KString, ucast (b - 0xB7) + 1, cs))
          else if b < 0xF8 then Inr (KList, 1, ucast (b - 0xC0))
          else
            rbind (readSize (drop 1 buf) (b - 0xF7)) (\<lambda>cs. Inr (KList, ucast (b - 0xF7) + 1, cs)))
         (\<lambda>(k, tagsize, contentsize).
            if contentsize > of_nat (length buf) - tagsize then Inl ErrValueTooLarge
            else Inr (k, tagsize, contentsize))))"

definition Split :: "bytes \<Rightarrow> (rlp_error, Kind \<times> bytes \<times> bytes) result" where
  "Split b =
    rbind (readKind b) (\<lambda>(k, ts, cs).
      Inr (k, take (unat cs) (drop (unat ts) b), drop (unat (ts + cs)) b))"

definition SplitString :: "bytes \<Rightarrow> (rlp_error, bytes \<times> bytes) result" where
  "SplitString b =
    rbind (Split b) (\<lambda>(k, content, rest).
      if k = KList then Inl ErrExpectedString else Inr (content, rest))"

definition SplitList :: "bytes \<Rightarrow> (rlp_error, bytes \<times> bytes) result" where
  "SplitList b =
    rbind (Split b) (\<lambda>(k, content, rest).
      if k \<noteq> KList then Inl ErrExpectedList else Inr (content, rest))"

definition SplitUint64 :: "bytes \<Rightarrow> (rlp_error, u64 \<times> bytes) result" where
  "SplitUint64 b =
    rbind (SplitString b) (\<lambda>(content, rest).
      if length content = 0 then Inr (0, rest)
      else if length content = 1 then
        (if content ! 0 = 0 then Inl ErrCanonInt else Inr (ucast (content ! 0), rest))
      else if length content > 8 then Inl errUintOverflow
      else (case readSize content (of_nat (length content)) of
              Inl _ \<Rightarrow> Inl ErrCanonInt
            | Inr x \<Rightarrow> Inr (x, rest)))"

text \<open>Every iteration of \<^verbatim>\<open>CountValues\<close> consumes at least one byte of the slice; the fuel is the
  number of bytes, and \<open>CountValues_total\<close> shows it is never exhausted.\<close>

fun CountValues_loop :: "nat \<Rightarrow> nat \<Rightarrow> bytes \<Rightarrow> (rlp_error, nat) result option" where
  "CountValues_loop fuel i b =
     (if b = [] then Some (Inr i)
      else (case fuel of 0 \<Rightarrow> None
            | Suc f \<Rightarrow> (case readKind b of
                Inl e \<Rightarrow> Some (Inl e)
              | Inr (k, tagsize, sz) \<Rightarrow> CountValues_loop f (Suc i) (drop (unat (tagsize + sz)) b))))"

definition CountValues :: "bytes \<Rightarrow> (rlp_error, nat) result option" where
  "CountValues b = CountValues_loop (length b) 0 b"

definition AppendUint64 :: "bytes \<Rightarrow> u64 \<Rightarrow> bytes" where
  "AppendUint64 b i =
    (if i = 0 then b @ [0x80]
     else if i < 128 then b @ [to_byte i]
     else if i < 0x100 then b @ [0x81, to_byte i]
     else if i < 0x10000 then b @ [0x82, to_byte (drop_bit 8 i), to_byte i]
     else if i < 0x1000000 then
       b @ [0x83, to_byte (drop_bit 16 i), to_byte (drop_bit 8 i), to_byte i]
     else if i < 0x100000000 then
       b @ [0x84, to_byte (drop_bit 24 i), to_byte (drop_bit 16 i), to_byte (drop_bit 8 i), to_byte i]
     else if i < 0x10000000000 then
       b @ [0x85, to_byte (drop_bit 32 i), to_byte (drop_bit 24 i), to_byte (drop_bit 16 i),
            to_byte (drop_bit 8 i), to_byte i]
     else if i < 0x1000000000000 then
       b @ [0x86, to_byte (drop_bit 40 i), to_byte (drop_bit 32 i), to_byte (drop_bit 24 i),
            to_byte (drop_bit 16 i), to_byte (drop_bit 8 i), to_byte i]
     else if i < 0x100000000000000 then
       b @ [0x87, to_byte (drop_bit 48 i), to_byte (drop_bit 40 i), to_byte (drop_bit 32 i),
            to_byte (drop_bit 24 i), to_byte (drop_bit 16 i), to_byte (drop_bit 8 i), to_byte i]
     else
       b @ [0x88, to_byte (drop_bit 56 i), to_byte (drop_bit 48 i), to_byte (drop_bit 40 i),
            to_byte (drop_bit 32 i), to_byte (drop_bit 24 i), to_byte (drop_bit 16 i),
            to_byte (drop_bit 8 i), to_byte i])"

subsection \<open>The reference encoding\<close>

fun min_be :: "nat \<Rightarrow> bytes" where
  "min_be n = (if n = 0 then [] else min_be (n div 256) @ [of_nat (n mod 256)])"

declare min_be.simps [simp del]

definition rlp_head :: "byte \<Rightarrow> byte \<Rightarrow> nat \<Rightarrow> bytes" where
  "rlp_head small large n =
    (if n < 56 then [small + of_nat n] else (large + of_nat (length (min_be n))) # min_be n)"

definition rlp_str :: "bytes \<Rightarrow> bytes" where
  "rlp_str b = (if length b = 1 \<and> b ! 0 \<le> 0x7F then b else rlp_head 0x80 0xB7 (length b) @ b)"

definition rlp_lst :: "bytes \<Rightarrow> bytes" where
  "rlp_lst c = rlp_head 0xC0 0xF7 (length c) @ c"

function (sequential) rlp_ref :: "rval \<Rightarrow> (rlp_error, bytes) result"
  and rlp_ref_all :: "rval list \<Rightarrow> (rlp_error, bytes) result" where
  "rlp_ref (VUint i) = Inr (rlp_str (min_be (unat i)))"
| "rlp_ref (VBool b) = Inr (rlp_str (if b then [1] else []))"
| "rlp_ref (VBig None) = Inr (rlp_str [])"
| "rlp_ref (VBig (Some i)) = (if i < 0 then Inl ErrNegativeBigInt else Inr (rlp_str (min_be (nat i))))"
| "rlp_ref (VBytes b) = Inr (rlp_str b)"
| "rlp_ref (VByteArray b) = Inr (rlp_str b)"
| "rlp_ref (VSlice vs) = rbind (rlp_ref_all vs) (\<lambda>c. Inr (rlp_lst c))"
| "rlp_ref (VNilPtr isList) = Inr (if isList then rlp_lst [] else rlp_str [])"
| "rlp_ref (VStruct fs opts) = rbind (rlp_ref_all (fs @ drop_zero_tail opts)) (\<lambda>c. Inr (rlp_lst c))"
| "rlp_ref_all [] = Inr []"
| "rlp_ref_all (v # vs) = rbind (rlp_ref v) (\<lambda>x. rbind (rlp_ref_all vs) (\<lambda>y. Inr (x @ y)))"
  by pat_completeness auto
termination
  by (relation "measure (\<lambda>x. case x of Inl v \<Rightarrow> size v | Inr vs \<Rightarrow> size_list size vs)")
     (auto simp: size_list_append intro: le_less_trans add_le_less_mono size_drop_tail)

subsection \<open>Integers in minimal big-endian form\<close>

lemma to_byte_unat: "to_byte i = of_nat (unat i)"
  by (simp add: to_byte_def)

lemma to_byte_drop: "to_byte (drop_bit n i) = of_nat (unat i div 2 ^ n)"
  by (simp add: to_byte_unat unat_drop_bit)

lemma min_be_0 [simp]: "min_be 0 = []"
  by (simp add: min_be.simps)

lemma min_be_small: "0 < n \<Longrightarrow> n < 256 \<Longrightarrow> min_be n = [of_nat n]"
  by (simp add: min_be.simps [of n])

lemma min_be_be_bytes: "256 ^ k \<le> n \<Longrightarrow> n < 256 ^ Suc k \<Longrightarrow> min_be n = be_bytes (Suc k) n"
proof (induction k arbitrary: n)
  case 0
  then show ?case by (simp add: min_be_small)
next
  case (Suc k)
  then have "256 ^ k \<le> n div 256" "n div 256 < 256 ^ Suc k" "n \<noteq> 0"
    by (auto simp: less_mult_imp_div_less mult.commute less_eq_div_iff_mult_less_eq)
  with Suc.IH show ?case by (simp add: min_be.simps [of n])
qed

lemma be_nat_min_be [simp]: "be_nat (min_be n) = n"
proof (induction n rule: min_be.induct)
  case (1 n)
  then show ?case by (cases "n = 0") (simp_all add: min_be.simps [of n] unat_of_nat_byte)
qed

lemma of_nat_byte_mod: "(of_nat (n mod 256) :: byte) = of_nat n"
  by (simp add: word_of_nat_eq_iff take_bit_eq_mod)

subsection \<open>The encoder buffer implements the reference encoding\<close>

lemma u64_less_unat: "(i :: u64) < numeral n \<longleftrightarrow> unat i < unat (numeral n :: u64)"
  by (rule word_less_nat_alt)

lemma ucast_drop: "(ucast (drop_bit n (i :: u64)) :: byte) = of_nat (unat i div 2 ^ n)"
  using to_byte_drop [of n i] by (simp add: to_byte_def)

lemma putint_be_bytes: "putint i = be_bytes (length (putint i)) (unat i)"
  by (simp add: putint_def to_byte_def ucast_drop of_nat_byte_mod div_mult2_eq [symmetric])

lemma putint_length_cases:
  "i \<noteq> 0 \<Longrightarrow> \<exists>k. length (putint i) = Suc k \<and> 256 ^ k \<le> unat i \<and> unat i < 256 ^ Suc k"
proof -
  assume "i \<noteq> 0"
  then have "0 < unat i" by (simp add: unat_gt_0)
  then consider "unat i < 0x100" | "0x100 \<le> unat i" "unat i < 0x10000"
    | "0x10000 \<le> unat i" "unat i < 0x1000000" | "0x1000000 \<le> unat i" "unat i < 0x100000000"
    | "0x100000000 \<le> unat i" "unat i < 0x10000000000"
    | "0x10000000000 \<le> unat i" "unat i < 0x1000000000000"
    | "0x1000000000000 \<le> unat i" "unat i < 0x100000000000000"
    | "0x100000000000000 \<le> unat i" by linarith
  then show ?thesis
  proof cases
    case 1 then show ?thesis using \<open>0 < unat i\<close> by (intro exI [of _ 0]) (simp add: putint_def u64_less_unat)
  next
    case 2 then show ?thesis by (intro exI [of _ 1]) (simp add: putint_def u64_less_unat)
  next
    case 3 then show ?thesis by (intro exI [of _ 2]) (simp add: putint_def u64_less_unat)
  next
    case 4 then show ?thesis by (intro exI [of _ 3]) (simp add: putint_def u64_less_unat)
  next
    case 5 then show ?thesis by (intro exI [of _ 4]) (simp add: putint_def u64_less_unat)
  next
    case 6 then show ?thesis by (intro exI [of _ 5]) (simp add: putint_def u64_less_unat)
  next
    case 7 then show ?thesis by (intro exI [of _ 6]) (simp add: putint_def u64_less_unat)
  next
    case 8 then show ?thesis using unat_u64_bound [of i] by (intro exI [of _ 7]) (simp add: putint_def u64_less_unat)
  qed
qed

lemma putint_min_be: "i \<noteq> 0 \<Longrightarrow> putint i = min_be (unat i)"
  using putint_length_cases [of i] putint_be_bytes [of i] min_be_be_bytes by metis

lemma putint_of_nat: "0 < n \<Longrightarrow> n < 2 ^ 64 \<Longrightarrow> putint (of_nat n) = min_be n"
  using putint_min_be [of "of_nat n"] by (simp add: unat_of_nat word_of_nat_eq_0_iff nat_dvd_not_less)

lemma intsize_min_be: "i \<noteq> 0 \<Longrightarrow> intsize i = length (min_be (unat i))"
proof (induction i rule: intsize.induct)
  case (1 i)
  then have "0 < unat i" by (simp add: unat_gt_0)
  show ?case
  proof (cases "drop_bit 8 i = 0")
    case True
    then have "unat i div 256 = 0" using unat_drop_bit [of 8 i] by simp
    with True \<open>0 < unat i\<close> show ?thesis by (simp add: intsize.simps [of i] min_be.simps [of "unat i"])
  next
    case False
    with 1 have "intsize (drop_bit 8 i) = length (min_be (unat i div 256))"
      by (simp add: unat_drop_bit)
    with False \<open>0 < unat i\<close> show ?thesis by (simp add: intsize.simps [of i] min_be.simps [of "unat i"])
  qed
qed

lemma length_min_be_le: "n < 256 ^ k \<Longrightarrow> length (min_be n) \<le> k"
proof (induction k arbitrary: n)
  case (Suc k)
  then have "n div 256 < 256 ^ k" by (simp add: less_mult_imp_div_less mult.commute)
  with Suc show ?case by (cases "n = 0") (simp_all add: min_be.simps [of n])
qed simp

lemma encodeUint_str: "encodeUint i w = eb_append (rlp_str (min_be (unat i))) w"
proof -
  consider "i = 0" | "i \<noteq> 0" "i < 128" | "i \<noteq> 0" "\<not> i < 128" by blast
  then show ?thesis
  proof cases
    case 1 then show ?thesis by (simp add: encodeUint_def rlp_str_def rlp_head_def)
  next
    case 2
    then have "0 < unat i" "unat i < 128" by (simp_all add: unat_gt_0 u64_less_unat)
    then show ?thesis using 2
      by (simp add: encodeUint_def rlp_str_def min_be_small to_byte_unat word_le_nat_alt unsigned_ucast_eq take_bit_nat_eq_self)
  next
    case 3
    then have u: "128 \<le> unat i" by (simp add: u64_less_unat)
    have "length (min_be (unat i)) \<le> 8" by (rule length_min_be_le) (simp add: )
    moreover have "\<not> (length (min_be (unat i)) = 1 \<and> min_be (unat i) ! 0 \<le> 0x7F)"
    proof
      assume *: "length (min_be (unat i)) = 1 \<and> min_be (unat i) ! 0 \<le> 0x7F"
      then obtain b where "min_be (unat i) = [b]" by (auto simp: length_Suc_conv)
      then show False using * u be_nat_min_be [of "unat i"] by (simp add: word_le_nat_alt)
    qed
    ultimately show ?thesis using 3
      by (auto simp: encodeUint_def rlp_str_def rlp_head_def putint_min_be Let_def)
  qed
qed
lemma encodeStringHeader_head:
  "n < 2 ^ 64 \<Longrightarrow> encodeStringHeader n w = eb_append (rlp_head 0x80 0xB7 n) w"
  by (simp add: encodeStringHeader_def rlp_head_def putint_of_nat Let_def)

lemma eb_append_append [simp]: "eb_append b (eb_append a w) = eb_append (a @ b) w"
  by (simp add: eb_append_def)

lemma encodeString_str: "length b < 2 ^ 64 \<Longrightarrow> encodeString b w = eb_append (rlp_str b) w"
  by (auto simp: encodeString_def rlp_str_def encodeStringHeader_head length_Suc_conv)

lemma writeByteArray_str: "length b < 2 ^ 64 \<Longrightarrow> writeByteArray b w = eb_append (rlp_str b) w"
  by (auto simp: writeByteArray_def rlp_str_def encodeStringHeader_head rlp_head_def length_Suc_conv)

lemma nat_BitLen_bounds: "0 < n \<Longrightarrow> 2 ^ (nat_BitLen n - 1) \<le> n \<and> n < 2 ^ nat_BitLen n"
proof (induction n rule: nat_BitLen.induct)
  case (1 n)
  show ?case
  proof (cases "n = 1")
    case False
    with 1 have "0 < n div 2" by auto
    with 1 have IH: "2 ^ (nat_BitLen (n div 2) - 1) \<le> n div 2 \<and> n div 2 < 2 ^ nat_BitLen (n div 2)" by auto
    obtain m where m: "nat_BitLen (n div 2) = Suc m"
      using \<open>0 < n div 2\<close> by (simp add: nat_BitLen.simps [of "n div 2"])
    with IH have "2 ^ m \<le> n div 2" "n div 2 < 2 * 2 ^ m" by simp_all
    then have "2 * 2 ^ m \<le> n" "n < 2 * (2 * 2 ^ m)" by linarith+
    with m 1 show ?thesis by (simp add: nat_BitLen.simps [of n])
  qed (simp add: nat_BitLen.simps)
qed

lemma nat_BitLen_le: "nat_BitLen n \<le> k \<longleftrightarrow> n < 2 ^ k"
proof
  assume "nat_BitLen n \<le> k"
  then have "(2 :: nat) ^ nat_BitLen n \<le> 2 ^ k" by (simp add: power_increasing)
  then show "n < 2 ^ k" using nat_BitLen_bounds [of n] by (cases "n = 0") (auto simp del: power_increasing_iff)
next
  assume *: "n < 2 ^ k"
  show "nat_BitLen n \<le> k"
  proof (cases "n = 0")
    case False
    then have "(2 :: nat) ^ (nat_BitLen n - 1) < 2 ^ k" using nat_BitLen_bounds [of n] * by linarith
    then have "nat_BitLen n - 1 < k" by simp
    then show ?thesis by linarith
  qed (simp add: nat_BitLen.simps)
qed

lemma div8_bounds: "(l + 7) div 8 = Suc k \<Longrightarrow> 8 * k \<le> l - 1 \<and> l \<le> 8 * Suc k" for l k :: nat
proof -
  assume "(l + 7) div 8 = Suc k"
  moreover have "8 * ((l + 7) div 8) \<le> l + 7" "l + 7 < 8 * ((l + 7) div 8) + 8" by linarith+
  ultimately have "8 * Suc k \<le> l + 7" "l + 7 < 8 * Suc k + 8" by simp_all
  then show ?thesis by auto
qed

lemma writeBigInt_str:
  assumes "0 \<le> i" "length (min_be (nat i)) < 2 ^ 64"
  shows "writeBigInt i w = Inr (eb_append (rlp_str (min_be (nat i))) w)"
proof (cases "big_BitLen i \<le> 64")
  case True
  with assms have "nat i < 2 ^ 64" by (simp add: big_BitLen_def nat_BitLen_le)
  then have "unat (big_Uint64 i) = nat i"
    using assms by (simp add: big_Uint64_def unat_eq_nat_uint uint_word_of_int nat_less_iff)
  with True assms show ?thesis by (simp add: writeBigInt_def encodeUint_str)
next
  case False
  let ?n = "nat i" and ?L = "big_BitLen i"
  have n: "2 ^ 64 \<le> ?n" using False assms by (simp add: big_BitLen_def nat_BitLen_le)
  define k where "k = (?L + 7) div 8 - 1"
  have L: "64 < ?L" using False by simp
  then have k: "(?L + 7) div 8 = Suc k" unfolding k_def by simp
  have bnd: "2 ^ (?L - 1) \<le> ?n" "?n < 2 ^ ?L"
    using nat_BitLen_bounds [of ?n] n assms by (simp_all add: big_BitLen_def)
  have "8 * k \<le> ?L - 1" "?L \<le> 8 * Suc k" using div8_bounds [OF k] by simp_all
  then have "(2 :: nat) ^ (8 * k) \<le> 2 ^ (?L - 1)" "(2 :: nat) ^ ?L \<le> 2 ^ (8 * Suc k)"
    by (simp_all add: power_increasing)
  with bnd have "2 ^ (8 * k) \<le> ?n" "?n < 2 ^ (8 * Suc k)" by linarith+
  then have "256 ^ k \<le> ?n" "?n < 256 ^ Suc k" by (simp_all only: power_mult) simp_all
  then have m: "min_be ?n = be_bytes (Suc k) ?n" by (rule min_be_be_bytes)
  have "k \<noteq> 0" using L k by linarith
  then show ?thesis using False assms m k
    by (simp add: writeBigInt_def rlp_str_def encodeStringHeader_head Let_def)
qed

text \<open>\<open>Writes w w' bs\<close>: going from \<open>w\<close> to \<open>w'\<close> appended string data and list heads that render as \<open>bs\<close>,
  whatever is written afterwards.\<close>

definition heads_from :: "nat \<Rightarrow> listhead list \<Rightarrow> bool" where
  "heads_from n hs \<longleftrightarrow> (hs = [] \<or> int n \<le> lh_offset (hd hs))"

definition Writes :: "encbuf \<Rightarrow> encbuf \<Rightarrow> bytes \<Rightarrow> bool" where
  "Writes w w' bs \<longleftrightarrow> (\<exists>s hs.
     eb_str w' = eb_str w @ s \<and> eb_lheads w' = eb_lheads w @ hs \<and>
     eb_lhsize w' = eb_lhsize w + int (length bs) - int (length s) \<and>
     heads_from (length (eb_str w)) hs \<and>
     (\<forall>q hs2. heads_from (length (eb_str w')) hs2 \<longrightarrow>
        toBytes_loop (eb_str w' @ q) (hs @ hs2) (length (eb_str w)) =
        bs @ toBytes_loop (eb_str w' @ q) hs2 (length (eb_str w'))))"

lemma Writes_append: "Writes w (eb_append b w) b"
proof -
  have "toBytes_loop ((p @ b) @ q) hs2 (length p) = b @ toBytes_loop ((p @ b) @ q) hs2 (length (p @ b))"
    if "heads_from (length (p @ b)) hs2" for p q hs2
  proof (cases hs2)
    case (Cons h t)
    with that have h: "length p + length b \<le> nat (lh_offset h)" by (simp add: heads_from_def)
    then obtain d where "nat (lh_offset h) = length p + length b + d" using le_Suc_ex by blast
    with Cons show ?thesis by (simp add: Let_def add.assoc)
  qed simp
  then show ?thesis unfolding Writes_def
    by (intro exI [of _ b] exI [of _ "[]"]) (simp add: eb_append_def heads_from_def)
qed

lemma Writes_refl: "Writes w w []"
  unfolding Writes_def by (intro exI [of _ "[]"]) (simp add: heads_from_def)

lemma Writes_trans:
  assumes "Writes w w1 b1" "Writes w1 w2 b2"
  shows "Writes w w2 (b1 @ b2)"
proof -
  from assms(1) obtain s1 h1 where 1: "eb_str w1 = eb_str w @ s1" "eb_lheads w1 = eb_lheads w @ h1"
    "eb_lhsize w1 = eb_lhsize w + int (length b1) - int (length s1)" "heads_from (length (eb_str w)) h1"
    and r1: "\<And>q hs2. heads_from (length (eb_str w1)) hs2 \<Longrightarrow>
        toBytes_loop (eb_str w1 @ q) (h1 @ hs2) (length (eb_str w)) =
        b1 @ toBytes_loop (eb_str w1 @ q) hs2 (length (eb_str w1))"
    unfolding Writes_def by blast
  from assms(2) obtain s2 h2 where 2: "eb_str w2 = eb_str w1 @ s2" "eb_lheads w2 = eb_lheads w1 @ h2"
    "eb_lhsize w2 = eb_lhsize w1 + int (length b2) - int (length s2)" "heads_from (length (eb_str w1)) h2"
    and r2: "\<And>q hs2. heads_from (length (eb_str w2)) hs2 \<Longrightarrow>
        toBytes_loop (eb_str w2 @ q) (h2 @ hs2) (length (eb_str w1)) =
        b2 @ toBytes_loop (eb_str w2 @ q) hs2 (length (eb_str w2))"
    unfolding Writes_def by blast
  have hf: "heads_from (length (eb_str w1)) (h2 @ hs2)" if "heads_from (length (eb_str w2)) hs2" for hs2
    using that 2 by (cases h2) (auto simp: heads_from_def)
  have "toBytes_loop (eb_str w2 @ q) ((h1 @ h2) @ hs2) (length (eb_str w)) =
        (b1 @ b2) @ toBytes_loop (eb_str w2 @ q) hs2 (length (eb_str w2))"
    if "heads_from (length (eb_str w2)) hs2" for q hs2
    using r1 [OF hf [OF that], of "s2 @ q"] r2 [OF that, of q] 2(1) by simp
  moreover have "heads_from (length (eb_str w)) (h1 @ h2)"
    using 1 2 by (cases h1) (auto simp: heads_from_def)
  ultimately show ?thesis unfolding Writes_def using 1 2
    by (intro exI [of _ "s1 @ s2"] exI [of _ "h1 @ h2"]) simp
qed

lemma listhead_encode_head:
  "n < 2 ^ 64 \<Longrightarrow> lh_size h = int n \<Longrightarrow> listhead_encode h = rlp_head 0xC0 0xF7 n"
  by (simp add: listhead_encode_def puthead_def rlp_head_def putint_of_nat Let_def
      word_less_nat_alt unat_of_nat to_byte_unat)

lemma length_rlp_head: "n < 2 ^ 64 \<Longrightarrow> int (length (rlp_head a b n)) =
   (if int n < 56 then 1 else 1 + int (intsize (word_of_int (int n))))"
  by (simp add: rlp_head_def intsize_min_be unat_of_nat word_of_nat_eq_0_iff nat_dvd_not_less)

lemma Writes_list:
  assumes "Writes (snd (eb_list w)) w2 bs" "length bs < 2 ^ 64"
  shows "Writes w (eb_listEnd (fst (eb_list w)) w2) (rlp_lst bs)"
proof -
  let ?h = "\<lparr>lh_offset = int (length (eb_str w)), lh_size = eb_lhsize w\<rparr>"
  let ?h' = "\<lparr>lh_offset = int (length (eb_str w)), lh_size = int (length bs)\<rparr>"
  from assms(1) obtain s hs where 1: "eb_str w2 = eb_str w @ s" "eb_lheads w2 = eb_lheads w @ ?h # hs"
    "eb_lhsize w2 = eb_lhsize w + int (length bs) - int (length s)" "heads_from (length (eb_str w)) hs"
    and r: "\<And>q hs2. heads_from (length (eb_str w2)) hs2 \<Longrightarrow>
        toBytes_loop (eb_str w2 @ q) (hs @ hs2) (length (eb_str w)) =
        bs @ toBytes_loop (eb_str w2 @ q) hs2 (length (eb_str w2))"
    unfolding Writes_def by (fastforce simp: eb_list_def Let_def)
  have w3: "eb_listEnd (fst (eb_list w)) w2 =
     w2\<lparr>eb_lheads := eb_lheads w @ ?h' # hs,
        eb_lhsize := eb_lhsize w2 + int (length (rlp_head 0xC0 0xF7 (length bs)))\<rparr>"
    using assms(2) 1 by (simp add: eb_listEnd_def eb_list_def Let_def eb_size_def length_rlp_head)
  have "toBytes_loop (eb_str w2 @ q) ((?h' # hs) @ hs2) (length (eb_str w)) =
     rlp_lst bs @ toBytes_loop (eb_str w2 @ q) hs2 (length (eb_str w2))"
    if "heads_from (length (eb_str w2)) hs2" for q hs2
    using r [OF that, of q] assms(2) by (simp add: rlp_lst_def listhead_encode_head Let_def)
  then show ?thesis unfolding Writes_def w3 using 1
    by (intro exI [of _ s] exI [of _ "?h' # hs"]) (simp add: heads_from_def rlp_lst_def)
qed

lemma toBytes_Writes: "Writes eb_reset w bs \<Longrightarrow> toBytes w = bs"
proof -
  assume "Writes eb_reset w bs"
  then obtain s hs where 1: "eb_str w = s" "eb_lheads w = hs" "eb_lhsize w = int (length bs) - int (length s)"
    and r: "\<And>q hs2. heads_from (length (eb_str w)) hs2 \<Longrightarrow>
        toBytes_loop (eb_str w @ q) (hs @ hs2) 0 = bs @ toBytes_loop (eb_str w @ q) hs2 (length (eb_str w))"
    unfolding Writes_def eb_reset_def by fastforce
  have "toBytes_loop s hs 0 = bs"
    using r [of "[]" "[]"] 1 by (simp add: heads_from_def)
  with 1 show ?thesis by (simp add: toBytes_def eb_size_def)
qed

lemma rlp_write_Writes:
  "rlp_ref v = Inr bs \<Longrightarrow> length bs < 2 ^ 64 \<Longrightarrow> \<exists>w'. rlp_write v w = Inr w' \<and> Writes w w' bs"
  "rlp_ref_all vs = Inr bs \<Longrightarrow> length bs < 2 ^ 64 \<Longrightarrow> \<exists>w'. rlp_write_all vs w = Inr w' \<and> Writes w w' bs"
proof (induction v and vs arbitrary: bs w and bs w rule: rlp_ref_rlp_ref_all.induct)
  case (7 vs)
  then obtain c where c: "rlp_ref_all vs = Inr c" "bs = rlp_lst c" by (auto simp: rbind_Inr_iff)
  then have "length c < 2 ^ 64" using 7 by (simp add: rlp_lst_def)
  then obtain w' where "rlp_write_all vs (snd (eb_list w)) = Inr w'" "Writes (snd (eb_list w)) w' c"
    using 7 c by blast
  then show ?case using c \<open>length c < 2 ^ 64\<close> Writes_append [of w "[0xC0]"]
    by (auto simp: split_beta rlp_lst_def rlp_head_def dest: Writes_list)
next
  case (9 fs opts)
  then obtain c where c: "rlp_ref_all (fs @ drop_zero_tail opts) = Inr c" "bs = rlp_lst c" by (auto simp: rbind_Inr_iff)
  then have "length c < 2 ^ 64" using 9 by (simp add: rlp_lst_def)
  then obtain w' where "rlp_write_all (fs @ drop_zero_tail opts) (snd (eb_list w)) = Inr w'"
      "Writes (snd (eb_list w)) w' c"
    using 9 c by blast
  then show ?case using c \<open>length c < 2 ^ 64\<close> by (auto simp: split_beta dest: Writes_list)
next
  case (11 v vs)
  then obtain x y where xy: "rlp_ref v = Inr x" "rlp_ref_all vs = Inr y" "bs = x @ y"
    by (auto simp: rbind_Inr_iff)
  with 11 obtain w1 where "rlp_write v w = Inr w1" "Writes w w1 x" by fastforce
  moreover from xy 11 obtain w2 where "rlp_write_all vs w1 = Inr w2" "Writes w1 w2 y" by fastforce
  ultimately show ?case using xy Writes_trans by fastforce
qed (auto simp: encodeUint_str Writes_append Writes_refl writeBigInt_str encodeString_str writeByteArray_str
      rlp_str_def rlp_head_def rlp_lst_def split: if_splits)

subsection \<open>Splitting inverts the reference encoding\<close>

definition be_or :: "bytes \<Rightarrow> u64" where
  "be_or bs = foldl (\<lambda>acc b. push_bit 8 acc OR ucast b) 0 bs"

lemma push_bit_8_or: "push_bit 8 (x :: u64) OR ucast (b :: byte) = x * 256 + ucast b"
proof -
  have b8: "bit (ucast b :: u64) n \<Longrightarrow> n < 8" for n
    using bit_imp_le_length [of b n] by (simp add: bit_ucast_iff)
  have "push_bit 8 x + ucast b = push_bit 8 x OR ucast b"
    by (intro disjunctive_add) (metis b8 bit_push_bit_iff not_le)
  then show ?thesis by (simp add: push_bit_eq_mult)
qed

lemma be_or_nat: "be_or bs = of_nat (be_nat bs)"
proof (induction bs rule: rev_induct)
  case (snoc b bs)
  have "be_or (bs @ [b]) = push_bit 8 (be_or bs) OR ucast b" by (simp add: be_or_def)
  also have "\<dots> = of_nat (be_nat bs * 256 + unat b)"
    unfolding push_bit_8_or snoc by simp
  finally show ?case by simp
qed (simp add: be_or_def)

lemma slen_eq: "slen = of_nat n \<Longrightarrow> n < 256 \<Longrightarrow> unat (slen :: byte) = n"
  by (simp add: unat_of_nat)

lemma readSize_val_list:
  "readSize_val (b0 # r) 1 = be_or [b0]"
  "readSize_val (b0 # b1 # r) 2 = be_or [b0, b1]"
  "readSize_val (b0 # b1 # b2 # r) 3 = be_or [b0, b1, b2]"
  "readSize_val (b0 # b1 # b2 # b3 # r) 4 = be_or [b0, b1, b2, b3]"
  "readSize_val (b0 # b1 # b2 # b3 # b4 # r) 5 = be_or [b0, b1, b2, b3, b4]"
  "readSize_val (b0 # b1 # b2 # b3 # b4 # b5 # r) 6 = be_or [b0, b1, b2, b3, b4, b5]"
  "readSize_val (b0 # b1 # b2 # b3 # b4 # b5 # b6 # r) 7 = be_or [b0, b1, b2, b3, b4, b5, b6]"
  "readSize_val (b0 # b1 # b2 # b3 # b4 # b5 # b6 # b7 # r) 8 = be_or [b0, b1, b2, b3, b4, b5, b6, b7]"
  by (simp_all add: readSize_val_def be_or_def push_bit_or or.assoc)

lemma list_split8:
  "Suc n \<le> length b \<Longrightarrow> \<exists>x r. b = x # r \<and> n \<le> length r"
  by (cases b) auto

lemma readSize_val_be:
  assumes "1 \<le> n" "n \<le> 8" "n \<le> length b"
  shows "readSize_val b (of_nat n) = of_nat (be_nat (take n b))"
proof -
  consider "n = 1" | "n = 2" | "n = 3" | "n = 4" | "n = 5" | "n = 6" | "n = 7" | "n = 8"
    using assms by linarith
  then show ?thesis unfolding be_or_nat [symmetric]
    by cases (insert assms(3), auto dest!: list_split8 simp: readSize_val_list eval_nat_numeral)
qed

lemma min_be_head: "0 < n \<Longrightarrow> min_be n \<noteq> [] \<and> min_be n ! 0 \<noteq> 0"
proof (induction n rule: min_be.induct)
  case (1 n)
  show ?case
  proof (cases "n < 256")
    case True
    with 1 have "unat (of_nat n :: byte) \<noteq> 0" by (simp add: unat_of_nat)
    then have "(of_nat n :: byte) \<noteq> 0" by (metis unat_0)
    with True 1 show ?thesis by (simp add: min_be_small)
  next
    case False
    with 1 have "min_be (n div 256) \<noteq> [] \<and> min_be (n div 256) ! 0 \<noteq> 0" by simp
    with 1 show ?thesis by (simp add: min_be.simps [of n] nth_append)
  qed
qed

lemma readSize_min_be:
  assumes "56 \<le> n" "n < 2 ^ 64"
  shows "readSize (min_be n @ r) (of_nat (length (min_be n))) = Inr (of_nat n)"
proof -
  have l8: "length (min_be n) \<le> 8" by (rule length_min_be_le) (use assms in simp)
  have hd: "min_be n \<noteq> []" "min_be n ! 0 \<noteq> 0" using min_be_head [of n] assms by simp_all
  then have "1 \<le> length (min_be n)" by (simp add: Suc_le_eq)
  then have "readSize_val (min_be n @ r) (of_nat (length (min_be n))) = of_nat n"
    using readSize_val_be [of "length (min_be n)" "min_be n @ r"] l8 by simp
  with l8 hd assms show ?thesis
    by (simp add: readSize_def unat_of_nat nth_append word_less_nat_alt)
qed

lemma tag_arith:
  assumes "n < 56"
  shows "unat (0x80 + of_nat n :: byte) = 128 + n" "unat (0xC0 + of_nat n :: byte) = 192 + n"
    "unat (0xB7 + of_nat n :: byte) = 183 + n" "n \<le> 8 \<Longrightarrow> unat (0xF7 + of_nat n :: byte) = 247 + n"
  using assms by (simp_all add: unat_word_ariths unat_of_nat)

lemma ucast_of_nat_small: "n < 56 \<Longrightarrow> (ucast (of_nat n :: byte) :: u64) = of_nat n"
  by (simp add: unsigned_of_nat take_bit_nat_eq_self)

lemma of_nat_sub_u64: "m \<le> n \<Longrightarrow> (of_nat n :: u64) - of_nat m = of_nat (n - m)"
  by simp

lemma readKind_short_str:
  assumes "length b < 56" "\<not> (length b = 1 \<and> b ! 0 \<le> 0x7F)" "length (b @ r) < 2 ^ 63"
  shows "readKind ((0x80 + of_nat (length b)) # b @ r) = Inr (KString, 1, of_nat (length b))"
proof -
  have "\<not> (length b = 1 \<and> (b @ r) ! 0 < 128)"
  proof
    assume *: "length b = 1 \<and> (b @ r) ! 0 < 128"
    then have "b ! 0 < 128" by (cases b) auto
    then have "b ! 0 \<le> 0x7F" by (simp add: word_less_nat_alt word_le_nat_alt)
    with * assms show False by simp
  qed
  moreover have "(of_nat (length b) :: u64) = 1 \<longleftrightarrow> length b = 1"
    using assms by (intro of_nat_eq_1_u64) simp
  ultimately show ?thesis using assms tag_arith [of "length b"]
    by (simp add: readKind_def Let_def word_less_nat_alt ucast_of_nat_small unat_of_nat_add_u64)
qed

lemma readKind_long_str:
  assumes "56 \<le> length b" "length (b @ r) < 2 ^ 63"
  shows "readKind ((0xB7 + of_nat (length (min_be (length b)))) # min_be (length b) @ b @ r) =
     Inr (KString, of_nat (length (min_be (length b))) + 1, of_nat (length b))"
proof -
  let ?m = "min_be (length b)"
  have l8: "length ?m \<le> 8" by (rule length_min_be_le) (use assms in simp)
  have "0 < length ?m" using min_be_head [of "length b"] assms by fastforce
  then show ?thesis using assms l8 tag_arith [of "length ?m"] readSize_min_be [of "length b" "b @ r"]
    by (simp add: readKind_def Let_def word_less_nat_alt ucast_of_nat_small unat_of_nat_add_u64)
qed

lemma readKind_short_list:
  assumes "length c < 56" "length (c @ r) < 2 ^ 63"
  shows "readKind ((0xC0 + of_nat (length c)) # c @ r) = Inr (KList, 1, of_nat (length c))"
  using assms tag_arith [of "length c"]
  by (simp add: readKind_def Let_def word_less_nat_alt ucast_of_nat_small unat_of_nat_add_u64)

lemma readKind_long_list:
  assumes "56 \<le> length b" "length (b @ r) < 2 ^ 63"
  shows "readKind ((0xF7 + of_nat (length (min_be (length b)))) # min_be (length b) @ b @ r) =
     Inr (KList, of_nat (length (min_be (length b))) + 1, of_nat (length b))"
proof -
  let ?m = "min_be (length b)"
  have l8: "length ?m \<le> 8" by (rule length_min_be_le) (use assms in simp)
  have "0 < length ?m" using min_be_head [of "length b"] assms by fastforce
  then show ?thesis using assms l8 tag_arith [of "length ?m"] readSize_min_be [of "length b" "b @ r"]
    by (simp add: readKind_def Let_def word_less_nat_alt ucast_of_nat_small unat_of_nat_add_u64)
qed

definition str_kind :: "bytes \<Rightarrow> Kind" where
  "str_kind b = (if length b = 1 \<and> b ! 0 \<le> 0x7F then KByte else KString)"

lemma Split_str:
  assumes "length (b @ r) < 2 ^ 63"
  shows "Split (rlp_str b @ r) = Inr (str_kind b, b, r)"
proof -
  have l8: "length (min_be (length b)) \<le> 8" by (rule length_min_be_le) (use assms in simp)
  consider "length b = 1 \<and> b ! 0 \<le> 0x7F" | "\<not> (length b = 1 \<and> b ! 0 \<le> 0x7F)" "length b < 56"
    | "56 \<le> length b" by linarith
  then show ?thesis
  proof cases
    case 1
    then have "b ! 0 < 0x80" by (simp add: word_less_nat_alt word_le_nat_alt)
    moreover from 1 obtain x where "b = [x]" by (auto simp: length_Suc_conv)
    ultimately show ?thesis using 1 assms
      by (simp add: Split_def rlp_str_def readKind_def str_kind_def Let_def word_less_nat_alt unat_Suc_of_nat_u64)
  next
    case 2
    then have e: "rlp_str b @ r = (0x80 + of_nat (length b)) # b @ r" by (auto simp: rlp_str_def rlp_head_def)
    have k: "str_kind b = KString" using 2(1) by (auto simp: str_kind_def)
    have "unat (1 + of_nat (length b) :: u64) = Suc (length b)" using 2 by (simp add: unat_word_ariths unat_of_nat)
    with 2 assms readKind_short_str [of b r] k show ?thesis
      unfolding e Split_def by (simp add: unat_of_nat)
  next
    case 3
    let ?m = "min_be (length b)"
    have e: "rlp_str b @ r = (0xB7 + of_nat (length ?m)) # ?m @ b @ r" using 3 by (simp add: rlp_str_def rlp_head_def)
    have k: "str_kind b = KString" using 3 by (auto simp: str_kind_def)
    have "unat (of_nat (length ?m) + 1 + of_nat (length b) :: u64) = Suc (length ?m) + length b"
      using unat_of_nat_add_u64 [of "Suc (length ?m)" "length b"] assms l8 by (simp add: ac_simps)
    moreover have "unat (of_nat (length ?m) + 1 :: u64) = Suc (length ?m)"
      using l8 unat_of_nat_add_u64 [of "length ?m" 1] by simp
    ultimately show ?thesis using 3 assms readKind_long_str [of b r] k
      unfolding e Split_def by simp
  qed
qed

lemma Split_lst:
  assumes "length (b @ r) < 2 ^ 63"
  shows "Split (rlp_lst b @ r) = Inr (KList, b, r)"
proof (cases "length b < 56")
  case True
  then have e: "rlp_lst b @ r = (0xC0 + of_nat (length b)) # b @ r" by (simp add: rlp_lst_def rlp_head_def)
  have "unat (1 + of_nat (length b) :: u64) = Suc (length b)" using True by (simp add: unat_word_ariths unat_of_nat)
  with True assms readKind_short_list [of b r] show ?thesis
    unfolding e Split_def by (simp add: unat_of_nat)
next
  case False
  let ?m = "min_be (length b)"
  have l8: "length ?m \<le> 8" by (rule length_min_be_le) (use assms in simp)
  have e: "rlp_lst b @ r = (0xF7 + of_nat (length ?m)) # ?m @ b @ r" using False by (simp add: rlp_lst_def rlp_head_def)
  have "unat (of_nat (length ?m) + 1 + of_nat (length b) :: u64) = Suc (length ?m) + length b"
    using unat_of_nat_add_u64 [of "Suc (length ?m)" "length b"] assms l8 by (simp add: ac_simps)
  moreover have "unat (of_nat (length ?m) + 1 :: u64) = Suc (length ?m)"
    using l8 unat_of_nat_add_u64 [of "length ?m" 1] by simp
  ultimately show ?thesis using False assms readKind_long_list [of b r]
    unfolding e Split_def by simp
qed

lemma SplitUint64_encode:
  assumes "length r < 2 ^ 62"
  shows "SplitUint64 (rlp_str (min_be (unat i)) @ r) = Inr (i, r)"
proof -
  let ?m = "min_be (unat i)"
  have l8: "length ?m \<le> 8" by (rule length_min_be_le) simp
  have "Split (rlp_str ?m @ r) = Inr (str_kind ?m, ?m, r)" using assms l8 by (intro Split_str) simp
  then have S: "SplitString (rlp_str ?m @ r) = Inr (?m, r)"
    by (simp add: SplitString_def str_kind_def)
  have i: "of_nat (be_nat ?m) = i" by simp
  consider "length ?m = 0" | "length ?m = 1" | "2 \<le> length ?m" by linarith
  then show ?thesis
  proof cases
    case 1 then show ?thesis using S i by (simp add: SplitUint64_def)
  next
    case 2
    then obtain x where x: "?m = [x]" by (auto simp: length_Suc_conv)
    then have "unat i \<noteq> 0" by (metis list.simps(3) min_be_0)
    then have "x \<noteq> 0" using min_be_head [of "unat i"] x by simp
    then show ?thesis using S x i by (simp add: SplitUint64_def)
  next
    case 3
    have "256 \<le> unat i" using length_min_be_le [of "unat i" 1] 3 by (cases "256 \<le> unat i") auto
    then have "readSize ?m (of_nat (length ?m)) = Inr i"
      using readSize_min_be [of "unat i" "[]"] by simp
    then show ?thesis using S 3 l8 by (auto simp: SplitUint64_def)
  qed
qed

lemma AppendUint64_str: "AppendUint64 b i = b @ rlp_str (min_be (unat i))"
proof -
  have "eb_append (rlp_str (min_be (unat i))) \<lparr>eb_str = b, eb_lheads = [], eb_lhsize = 0\<rparr> =
        encodeUint i \<lparr>eb_str = b, eb_lheads = [], eb_lhsize = 0\<rparr>"
    by (simp add: encodeUint_str)
  then have "b @ rlp_str (min_be (unat i)) = eb_str (encodeUint i \<lparr>eb_str = b, eb_lheads = [], eb_lhsize = 0\<rparr>)"
    by (metis eb_append_def encbuf.select_convs(1) encbuf.simps(7) encbuf.update_convs(1))
  then show ?thesis
    by (simp add: AppendUint64_def encodeUint_def eb_append_def putint_def)
qed

subsection \<open>Failures, canonicity and counting\<close>

definition same_status :: "('e, 'a) result \<Rightarrow> ('e, 'b) result \<Rightarrow> bool" where
  "same_status x y \<longleftrightarrow> (case x of Inl e \<Rightarrow> y = Inl e | Inr _ \<Rightarrow> (\<exists>b. y = Inr b))"

lemma same_status_simps [simp]:
  "same_status (Inl e) y \<longleftrightarrow> y = Inl e" "same_status (Inr a) y \<longleftrightarrow> (\<exists>b. y = Inr b)"
  by (simp_all add: same_status_def)

lemma same_status_rbind:
  assumes "same_status x y" "\<And>a b. x = Inr a \<Longrightarrow> y = Inr b \<Longrightarrow> same_status (f a) (g b)"
  shows "same_status (rbind x f) (rbind y g)"
  using assms by (cases x) auto

lemma rlp_write_status:
  "same_status (rlp_ref v) (rlp_write v w)"
  "same_status (rlp_ref_all vs) (rlp_write_all vs w)"
proof (induction v and vs arbitrary: w and w rule: rlp_ref_rlp_ref_all.induct)
  case (7 vs)
  then show ?case by (auto simp: split_beta intro!: same_status_rbind)
next
  case (9 fs opts)
  then show ?case by (auto simp: split_beta intro!: same_status_rbind)
next
  case (11 v vs)
  show ?case
  proof (cases "rlp_ref v")
    case (Inl e)
    with 11(1) [of w] show ?thesis by simp
  next
    case (Inr x)
    with 11(1) [of w] obtain w' where "rlp_write v w = Inr w'" by auto
    with Inr 11(2) [OF Inr, of w'] show ?thesis by (cases "rlp_ref_all vs") auto
  qed
qed (auto simp: writeBigInt_def Let_def)

lemma readKind_cases:
  assumes "readKind buf = Inr (k, ts, cs)"
  shows "(k = KByte \<and> buf ! 0 < 0x80 \<and> ts = 0 \<and> cs = 1 \<or>
     k = KString \<and> \<not> buf ! 0 < 0x80 \<and> buf ! 0 < 0xB8 \<and> ts = 1 \<and> cs = ucast (buf ! 0 - 0x80) \<and>
       \<not> (cs = 1 \<and> length buf > 1 \<and> buf ! 1 < 128) \<or>
     k = KString \<and> \<not> buf ! 0 < 0xB8 \<and> buf ! 0 < 0xC0 \<and> ts = ucast (buf ! 0 - 0xB7) + 1 \<and>
       readSize (drop 1 buf) (buf ! 0 - 0xB7) = Inr cs \<or>
     k = KList \<and> \<not> buf ! 0 < 0xC0 \<and> buf ! 0 < 0xF8 \<and> ts = 1 \<and> cs = ucast (buf ! 0 - 0xC0) \<or>
     k = KList \<and> \<not> buf ! 0 < 0xF8 \<and> ts = ucast (buf ! 0 - 0xF7) + 1 \<and>
       readSize (drop 1 buf) (buf ! 0 - 0xF7) = Inr cs) \<and>
     buf \<noteq> [] \<and> \<not> of_nat (length buf) - ts < cs"
  using assms unfolding readKind_def Let_def
  by (auto simp: rbind_Inr_iff split: if_splits)

lemma readSize_canonical:
  assumes "readSize b slen = Inr s" "1 \<le> unat slen" "unat slen \<le> 8"
  shows "take (unat slen) b = min_be (unat s)" "56 \<le> unat s" "unat slen \<le> length b"
proof -
  have len: "unat slen \<le> length b" and nz: "b ! 0 \<noteq> 0" and v: "readSize_val b slen = s" and "56 \<le> s"
    using assms(1) by (auto simp: readSize_def Let_def split: if_splits)
  then show "56 \<le> unat s" "unat slen \<le> length b" by (simp_all add: word_le_nat_alt)
  let ?t = "take (unat slen) b"
  have lt: "length ?t = unat slen" using len by simp
  have "be_nat ?t < 256 ^ 8"
    using be_nat_bound [of ?t] lt assms(3) power_increasing [of "unat slen" 8 "256 :: nat"] by simp
  moreover have "s = of_nat (be_nat ?t)"
    using readSize_val_be [OF assms(2,3) len] v by simp
  ultimately have s: "unat s = be_nat ?t" by simp
  obtain k where k: "unat slen = Suc k" using assms(2) by (cases "unat slen") auto
  obtain x xs where xs: "?t = x # xs" "length xs = k" using lt k by (metis length_Suc_conv)
  then have "x \<noteq> 0" using nz k by (cases b) auto
  then have "1 \<le> unat x" by (simp add: Suc_le_eq unat_gt_0)
  then have "1 * 256 ^ k \<le> unat x * 256 ^ k" by (rule mult_le_mono1)
  then have "256 ^ k \<le> be_nat ?t" unfolding xs be_nat_Cons xs(2) by linarith
  moreover have "be_nat ?t < 256 ^ Suc k" using be_nat_bound [of ?t] lt k by simp
  ultimately show "?t = min_be (unat s)"
    unfolding s using min_be_be_bytes [of k "be_nat ?t"] be_bytes_be_nat [of ?t] lt k by simp
qed

lemma tag_sub: "\<not> b < numeral n \<Longrightarrow> unat (b - numeral n :: byte) = unat b - unat (numeral n :: byte)"
  by (simp add: unat_sub not_less)

lemma long_size:
  assumes "readSize (drop 1 buf) (buf ! 0 - tag) = Inr cs" "buf \<noteq> []" "length buf < 2 ^ 63"
    "unat (buf ! 0 - tag) = m" "1 \<le> m" "m \<le> 8"
    "\<not> of_nat (length buf) - (ucast (buf ! 0 - tag) + 1) < (cs :: u64)"
  shows "\<exists>c r. buf = (buf ! 0) # min_be (length c) @ c @ r \<and> 56 \<le> length c \<and> length (min_be (length c)) = m \<and>
     c = take (unat cs) (drop (Suc m) buf) \<and> r = drop (Suc m + unat cs) buf \<and>
     unat (ucast (buf ! 0 - tag) + 1 :: u64) = Suc m \<and> unat (ucast (buf ! 0 - tag) + 1 + cs) = Suc m + unat cs"
proof -
  note c = readSize_canonical [OF assms(1)] 
  have t: "take m (drop 1 buf) = min_be (unat cs)" "56 \<le> unat cs" "m \<le> length (drop 1 buf)"
    using c assms by simp_all
  have u: "unat (ucast (buf ! 0 - tag) + 1 :: u64) = Suc m"
    using assms by (simp add: unat_word_ariths unsigned_ucast_eq take_bit_nat_eq_self)
  moreover have le: "ucast (buf ! 0 - tag) + 1 \<le> (of_nat (length buf) :: u64)"
    using t assms u by (simp add: word_le_nat_alt)
  ultimately have "unat (of_nat (length buf) - (ucast (buf ! 0 - tag) + 1) :: u64) = length buf - Suc m"
    using assms by (simp add: unat_sub)
  then have cs: "unat cs \<le> length buf - Suc m" using assms by (simp add: word_less_nat_alt)
  have u2: "unat (ucast (buf ! 0 - tag) + 1 + cs) = Suc m + unat cs"
    using u cs assms t by (subst unat_add_no_overflow) auto
  define c' where "c' = take (unat cs) (drop (Suc m) buf)"
  have lc: "length c' = unat cs" using cs by (simp add: c'_def)
  have "buf = (buf ! 0) # drop 1 buf" using assms by (cases buf) auto
  also have "drop 1 buf = take m (drop 1 buf) @ drop m (drop 1 buf)" by (rule append_take_drop_id [symmetric])
  also have "drop m (drop 1 buf) = c' @ drop (Suc m + unat cs) buf"
    unfolding c'_def by (simp add: add.commute) (metis append_take_drop_id drop_drop add.commute add_Suc)
  finally have "buf = (buf ! 0) # min_be (length c') @ c' @ drop (Suc m + unat cs) buf"
    using t lc by simp
  moreover have "length (min_be (length c')) = m" using t lc by (metis length_take min_absorb2)
  ultimately show ?thesis
    by (intro exI [of _ c'] exI [of _ "drop (Suc m + unat cs) buf"]) (use t lc u u2 c'_def in simp)
qed

lemma byte_sub_add: "unat (b - t :: byte) = m \<Longrightarrow> b = t + of_nat m"
  by (auto simp: algebra_simps)

lemma byte_ucast_u64: "unat (b :: byte) = n \<Longrightarrow> (ucast b :: u64) = of_nat n"
  by auto

lemma short_size:
  assumes "\<not> of_nat (length buf) - 1 < (of_nat n :: u64)" "buf \<noteq> []" "length buf < 2 ^ 63" "n < 56"
    "c = take (unat (of_nat n :: u64)) (drop (unat (1 :: u64)) buf)" "r = drop (unat (1 + of_nat n :: u64)) buf"
  shows "buf = buf ! 0 # c @ r \<and> length c = n"
proof -
  obtain b rest where buf: "buf = b # rest" using assms(2) by (cases buf) auto
  have "unat (of_nat (length buf) - 1 :: u64) = length rest" using assms(3) buf by simp
  then have "n \<le> length rest" using assms by (simp add: word_less_nat_alt)
  moreover have "unat (1 + of_nat n :: u64) = Suc n" using assms by (simp add: unat_Suc_of_nat_u64)
  ultimately show ?thesis using assms buf by simp
qed

lemma Split_canonical_raw:
  assumes "Split buf = Inr (k, c, r)" "length buf < 2 ^ 63"
  shows "buf = (if k = KList then rlp_lst c else rlp_str c) @ r"
proof -
  from assms obtain ts cs where K: "readKind buf = Inr (k, ts, cs)"
    and c: "c = take (unat cs) (drop (unat ts) buf)" and r: "r = drop (unat (ts + cs)) buf"
    by (auto simp: Split_def rbind_Inr_iff)
  let ?b = "buf ! 0"
  from readKind_cases [OF K] have nb: "buf \<noteq> []" and fits: "\<not> of_nat (length buf) - ts < cs" by simp_all
  then obtain rest where buf: "buf = ?b # rest" by (cases buf) auto
  from readKind_cases [OF K] consider
      (byte) "k = KByte" "?b < 0x80" "ts = 0" "cs = 1"
    | (short) "k = KString" "\<not> ?b < 0x80" "?b < 0xB8" "ts = 1" "cs = ucast (?b - 0x80)"
        "\<not> (cs = 1 \<and> length buf > 1 \<and> buf ! 1 < 128)"
    | (long) "k = KString" "\<not> ?b < 0xB8" "?b < 0xC0" "ts = ucast (?b - 0xB7) + 1"
        "readSize (drop 1 buf) (?b - 0xB7) = Inr cs"
    | (slist) "k = KList" "\<not> ?b < 0xC0" "?b < 0xF8" "ts = 1" "cs = ucast (?b - 0xC0)"
    | (llist) "k = KList" "\<not> ?b < 0xF8" "ts = ucast (?b - 0xF7) + 1"
        "readSize (drop 1 buf) (?b - 0xF7) = Inr cs"
    by blast
  then show ?thesis
  proof cases
    case byte
    have "c = take 1 buf" "r = drop 1 buf" using c r byte by simp_all
    then obtain x where "c = [x]" "buf = x # r" "?b = x" using buf by (metis One_nat_def take0 take_Suc_Cons append_take_drop_id append_Cons append_Nil)
    then show ?thesis using byte by (simp add: rlp_str_def word_less_nat_alt word_le_nat_alt)
  next
    case long
    obtain m where m: "unat (?b - 0xB7) = m" "1 \<le> m" "m \<le> 8"
      using long by (simp add: word_less_nat_alt unat_sub word_le_nat_alt)
    from long_size [OF long(5) nb assms(2) m] fits long obtain
      "buf = ?b # min_be (length c) @ c @ r" "56 \<le> length c" "length (min_be (length c)) = m"
      using c r by auto
    moreover have "?b = 0xB7 + of_nat m" using m byte_sub_add by metis
    ultimately show ?thesis using long by (simp add: rlp_str_def rlp_head_def)
  next
    case llist
    obtain m where m: "unat (?b - 0xF7) = m" "1 \<le> m" "m \<le> 8"
    proof -
      have "unat (?b - 0xF7) = unat ?b - 247" "248 \<le> unat ?b"
        using llist by (simp_all add: word_less_nat_alt unat_sub word_le_nat_alt)
      moreover have "unat ?b < 256" by (rule unat_byte_less)
      ultimately have "1 \<le> unat (?b - 0xF7)" "unat (?b - 0xF7) \<le> 8" by linarith+
      then show ?thesis using that by blast
    qed
    from long_size [OF llist(4) nb assms(2) m] fits llist obtain
      "buf = ?b # min_be (length c) @ c @ r" "56 \<le> length c" "length (min_be (length c)) = m"
      using c r by auto
    moreover have "?b = 0xF7 + of_nat m" using m byte_sub_add by metis
    ultimately show ?thesis using llist by (simp add: rlp_lst_def rlp_head_def)
  next
    case short
    have "unat (?b - 0x80) < 56" using short by (simp add: word_less_nat_alt unat_sub word_le_nat_alt)
    then obtain n where n: "unat (?b - 0x80) = n" "n < 56" by simp
    have cs: "cs = of_nat n" using short n byte_ucast_u64 by metis
    have "buf = ?b # c @ r \<and> length c = n"
      using short_size [of buf n c r] fits nb assms(2) c r n(2) unfolding short(4) cs by blast
    then obtain "buf = ?b # c @ r" "length c = n" by blast
    moreover have "?b = 0x80 + of_nat n" using n byte_sub_add by metis
    moreover have "\<not> (length c = 1 \<and> c ! 0 \<le> 0x7F)"
    proof
      assume *: "length c = 1 \<and> c ! 0 \<le> 0x7F"
      then have "c ! 0 < 128" by (simp add: word_less_nat_alt word_le_nat_alt)
      moreover obtain x where "c = [x]" using * by (auto simp: length_Suc_conv)
      moreover from this have "buf ! 1 = x" "1 < length buf" using \<open>buf = ?b # c @ r\<close> by (metis One_nat_def append_Cons nth_Cons_0 nth_Cons_Suc, metis append_Cons length_Cons One_nat_def zero_less_Suc Suc_less_eq)
      ultimately show False using short(6) cs * \<open>length c = n\<close> by auto
    qed
    ultimately show ?thesis using short n by (auto simp: rlp_str_def rlp_head_def)
  next
    case slist
    have "unat (?b - 0xC0) < 56" using slist by (simp add: word_less_nat_alt unat_sub word_le_nat_alt)
    then obtain n where n: "unat (?b - 0xC0) = n" "n < 56" by simp
    have cs: "cs = of_nat n" using slist n byte_ucast_u64 by metis
    have "buf = ?b # c @ r \<and> length c = n"
      using short_size [of buf n c r] fits nb assms(2) c r n(2) unfolding slist(4) cs by blast
    then obtain "buf = ?b # c @ r" "length c = n" by blast
    moreover have "?b = 0xC0 + of_nat n" using n byte_sub_add by metis
    ultimately show ?thesis using slist n by (simp add: rlp_lst_def rlp_head_def)
  qed
qed

lemma rlp_ref_splits:
  "rlp_ref v = Inr x \<Longrightarrow> length (x @ y) < 2 ^ 63 \<Longrightarrow> \<exists>k c. Split (x @ y) = Inr (k, c, y)"
proof -
  assume v: "rlp_ref v = Inr x" and l: "length (x @ y) < 2 ^ 63"
  have "(\<exists>b. x = rlp_str b) \<or> (\<exists>b. x = rlp_lst b)"
    using v by (cases v rule: rlp_ref.cases) (auto simp: rbind_Inr_iff split: if_splits)
  then show ?thesis
  proof (elim disjE exE)
    fix b assume b: "x = rlp_str b"
    then have "length (b @ y) < 2 ^ 63" using l by (auto simp: rlp_str_def split: if_splits)
    with b Split_str show ?thesis by blast
  next
    fix b assume b: "x = rlp_lst b"
    then have "length (b @ y) < 2 ^ 63" using l by (auto simp: rlp_lst_def)
    with b Split_lst show ?thesis by blast
  qed
qed

lemma readKind_progress:
  assumes "readKind b = Inr (k, ts, cs)" "length b < 2 ^ 63"
  shows "length (drop (unat (ts + cs)) b) < length b"
proof -
  have "Split b = Inr (k, take (unat cs) (drop (unat ts) b), drop (unat (ts + cs)) b)"
    using assms by (simp add: Split_def)
  from Split_canonical_raw [OF this assms(2)]
  have eq: "b = (if k = KList then rlp_lst (take (unat cs) (drop (unat ts) b))
      else rlp_str (take (unat cs) (drop (unat ts) b))) @ drop (unat (ts + cs)) b" .
  have "rlp_lst x \<noteq> []" "rlp_str x \<noteq> []" for x
    by (auto simp: rlp_lst_def rlp_str_def rlp_head_def)
  moreover have "length y < length b" if "b = x @ y" "x \<noteq> []" for x y using that by auto
  from this [OF eq] show ?thesis using calculation by simp
qed

lemma CountValues_loop_total: "length b \<le> fuel \<Longrightarrow> length b < 2 ^ 63 \<Longrightarrow> CountValues_loop fuel i b \<noteq> None"
proof (induction fuel arbitrary: i b)
  case (Suc fuel)
  show ?case
  proof (cases "readKind b")
    case (Inr x)
    obtain k ts cs where x: "x = (k, ts, cs)" by (cases x)
    with Inr Suc.prems have "length (drop (unat (ts + cs)) b) < length b" using readKind_progress by blast
    then have "CountValues_loop fuel (Suc i) (drop (unat (ts + cs)) b) \<noteq> None"
      using Suc.prems by (intro Suc.IH) linarith+
    with Inr x show ?thesis by (simp del: CountValues_loop.simps add: CountValues_loop.simps [of "Suc fuel"])
  qed simp
qed simp

lemma readKind_Split: "Split b = Inr (k, c, r) \<Longrightarrow> \<exists>ts cs. readKind b = Inr (k, ts, cs) \<and> r = drop (unat (ts + cs)) b"
  by (auto simp: Split_def rbind_Inr_iff)

lemma CountValues_loop_encode:
  "rlp_ref_all vs = Inr bs \<Longrightarrow> length bs < 2 ^ 63 \<Longrightarrow> length bs \<le> fuel \<Longrightarrow>
   CountValues_loop fuel i bs = Some (Inr (i + length vs))"
proof (induction vs arbitrary: bs fuel i)
  case (Cons v vs)
  then obtain x y where xy: "rlp_ref v = Inr x" "rlp_ref_all vs = Inr y" "bs = x @ y" by (auto simp: rbind_Inr_iff)
  obtain k c where S: "Split (x @ y) = Inr (k, c, y)"
    using rlp_ref_splits [OF xy(1)] xy(3) Cons.prems(2) by blast
  then obtain ts cs where K: "readKind bs = Inr (k, ts, cs)" "y = drop (unat (ts + cs)) bs"
    using readKind_Split xy(3) by blast
  with readKind_progress [OF K(1) Cons.prems(2)] have "length y < length bs" by simp
  then obtain f where f: "fuel = Suc f" "length y \<le> f" using Cons.prems by (cases fuel) auto
  have "CountValues_loop f (Suc i) y = Some (Inr (Suc i + length vs))"
    using Cons.IH [OF xy(2) _ f(2)] \<open>length y < length bs\<close> Cons.prems by simp
  moreover have "bs \<noteq> []" using \<open>length y < length bs\<close> by auto
  ultimately show ?case using K f
    by (simp del: CountValues_loop.simps add: CountValues_loop.simps [of "Suc f"])
qed simp

subsection \<open>Properties\<close>

lemma EncodeToBytes_ok: "rlp_ref v = Inr bs \<Longrightarrow> length bs < 2 ^ 64 \<Longrightarrow> EncodeToBytes v = Inr bs"
  using rlp_write_Writes(1) [of v bs eb_reset] by (auto simp: EncodeToBytes_def toBytes_Writes)

lemma EncodeToBytes_err: "rlp_ref v = Inl e \<Longrightarrow> EncodeToBytes v = Inl e"
  using rlp_write_status(1) [of v eb_reset] by (simp add: EncodeToBytes_def)

text \<open>C34. The encoder buffer implements RLP: for every value whose encoding fits the address space,
  \<^verbatim>\<open>EncodeToBytes\<close> (writers over \<open>encbuf\<close>, list headers patched by \<^verbatim>\<open>listEnd\<close> and merged by
  \<^verbatim>\<open>toBytes\<close>) returns exactly the recursive reference encoding, and fails exactly when a
  negative integer occurs.\<close>

theorem EncodeToBytes_refines:
  assumes "\<And>bs. rlp_ref v = Inr bs \<Longrightarrow> length bs < 2 ^ 64"
  shows "EncodeToBytes v = rlp_ref v"
  using assms by (cases "rlp_ref v") (simp_all add: EncodeToBytes_ok EncodeToBytes_err)

theorem EncodeToBytes_refines_witness:
  "EncodeToBytes (VStruct [VUint 1024, VBytes [1, 2, 3], VSlice [VBool True]] [(True, VBig None)])
   = Inr [0xC9, 0x82, 4, 0, 0x83, 1, 2, 3, 0xC1, 1]"
proof -
  have r: "rlp_ref (VStruct [VUint 1024, VBytes [1, 2, 3], VSlice [VBool True]] [(True, VBig None)])
      = Inr [0xC9, 0x82, 4, 0, 0x83, 1, 2, 3, 0xC1, 1]"
    by (simp add: drop_zero_tail_def rlp_lst_def rlp_str_def rlp_head_def min_be.simps)
  show ?thesis
    using EncodeToBytes_refines [of "VStruct [VUint 1024, VBytes [1, 2, 3], VSlice [VBool True]] [(True, VBig None)]"]
    unfolding r by simp
qed

text \<open>The raw splitter accepts canonical encodings only: whenever \<^verbatim>\<open>Split\<close> succeeds, the consumed
  prefix is the encoding the encoder produces for the returned content, so no two byte
  strings decode to the same value.\<close>

theorem Split_canonical:
  assumes "Split buf = Inr (k, c, r)" and "length buf < 2 ^ 63"
  shows "if k = KList then buf = puthead 0xC0 0xF7 (of_nat (length c)) @ c @ r
         else EncodeToBytes (VBytes c) = Inr (rlp_str c) \<and> buf = rlp_str c @ r"
proof -
  note eq = Split_canonical_raw [OF assms]
  have "length c \<le> length buf" 
    using arg_cong [OF eq, of length] by (auto simp: rlp_lst_def rlp_str_def split: if_splits)
  then have lc: "length c < 2 ^ 63" "length (rlp_str c) < 2 ^ 64" if "k \<noteq> KList"
    using assms(2) eq that arg_cong [OF eq, of length] by auto
  have "puthead 0xC0 0xF7 (of_nat (length c)) @ c = rlp_lst c"
    using listhead_encode_head [of "length c" "\<lparr>lh_offset = 0, lh_size = int (length c)\<rparr>"]
      \<open>length c \<le> length buf\<close> assms(2) by (simp add: listhead_encode_def rlp_lst_def)
  then show ?thesis using eq lc EncodeToBytes_ok [of "VBytes c"] by (auto simp flip: append_assoc)
qed

theorem Split_canonical_witness:
  "EncodeToBytes (VBytes [1, 2]) = Inr (rlp_str [1, 2]) \<and> [0x82, 1, 2, 9] = rlp_str [1, 2] @ [9]"
  using Split_canonical [of "[0x82, 1, 2, 9]" KString "[1, 2]" "[9]"]
  by (simp add: Split_def readKind_def Let_def)

text \<open>Integers round-trip: \<^verbatim>\<open>SplitUint64\<close> reads back exactly what \<^verbatim>\<open>AppendUint64\<close> appended, for
  every 64-bit value and every following data.\<close>

theorem SplitUint64_AppendUint64:
  assumes "length r < 2 ^ 62"
  shows "SplitUint64 (AppendUint64 [] i @ r) = Inr (i, r)"
  using SplitUint64_encode [OF assms] by (simp add: AppendUint64_str)

theorem SplitUint64_AppendUint64_witness:
  "SplitUint64 (AppendUint64 [] 70000 @ [7]) = Inr (70000, [7])"
  by (rule SplitUint64_AppendUint64) simp

text \<open>\<^verbatim>\<open>CountValues\<close> terminates on every input and counts the values: on the concatenated
  encodings of a list of values it returns the length of that list.\<close>

theorem CountValues_correct:
  assumes "length b < 2 ^ 63"
  shows "CountValues b \<noteq> None \<and> (\<forall>vs. rlp_ref_all vs = Inr b \<longrightarrow> CountValues b = Some (Inr (length vs)))"
  using assms CountValues_loop_total [of b "length b" 0] CountValues_loop_encode [of _ b "length b" 0]
  by (auto simp: CountValues_def)

theorem CountValues_correct_witness:
  "CountValues [1, 0xC1, 5, 0x80] = Some (Inr 3)"
proof -
  have "rlp_ref_all [VUint 1, VSlice [VUint 5], VBytes []] = Inr [1, 0xC1, 5, 0x80]"
    by (simp add: rlp_lst_def rlp_str_def rlp_head_def min_be.simps)
  then show ?thesis using CountValues_correct [of "[1, 0xC1, 5, 0x80]"] by fastforce
qed

end
