(* ===== verification/Params.thy ===== *)
theory Params
  imports Prelude
begin

text \<open>
  Package \<^verbatim>\<open>params\<close>: the chain configuration, the fork predicates, the fork-order and
  compatibility checks of \<^verbatim>\<open>params/config.go\<close>, and the protocol constants that the other
  components use.
\<close>

subsection \<open>Chain configuration\<close>

record CongressConfig =
  Period :: u64
  Epoch :: u64
  EnableDevVerification :: bool

record ChainConfig =
  ChainID :: bigint
  HomesteadBlock :: bigint
  DAOForkBlock :: bigint
  DAOForkSupport :: bool
  EIP150Block :: bigint
  EIP150Hash :: hash
  EIP155Block :: bigint
  EIP158Block :: bigint
  ByzantiumBlock :: bigint
  ConstantinopleBlock :: bigint
  PetersburgBlock :: bigint
  IstanbulBlock :: bigint
  MuirGlacierBlock :: bigint
  BerlinBlock :: bigint
  LondonBlock :: bigint
  ArrowGlacierBlock :: bigint
  RedCoastBlock :: bigint
  SophonBlock :: bigint
  TerminalTotalDifficulty :: bigint
  Congress :: "CongressConfig option"

definition MainnetChainConfig :: ChainConfig where
  "MainnetChainConfig =
    \<lparr>ChainID = Some 2691, HomesteadBlock = Some 0, DAOForkBlock = None, DAOForkSupport = True,
     EIP150Block = Some 0, EIP150Hash = 0, EIP155Block = Some 0, EIP158Block = Some 0,
     ByzantiumBlock = Some 0, ConstantinopleBlock = Some 0, PetersburgBlock = Some 0,
     IstanbulBlock = Some 0, MuirGlacierBlock = None, BerlinBlock = Some 8577000,
     LondonBlock = Some 8577000, ArrowGlacierBlock = None, RedCoastBlock = Some 6618800,
     SophonBlock = Some 8577000, TerminalTotalDifficulty = None,
     Congress = Some \<lparr>Period = 1, Epoch = 50, EnableDevVerification = True\<rparr>\<rparr>"

subsection \<open>Fork predicates\<close>

definition isForked :: "bigint \<Rightarrow> bigint \<Rightarrow> bool" where
  "isForked s head = (case (s, head) of (Some s', Some h) \<Rightarrow> s' \<le> h | _ \<Rightarrow> False)"

definition configNumEqual :: "bigint \<Rightarrow> bigint \<Rightarrow> bool" where
  "configNumEqual x y =
    (case x of None \<Rightarrow> y = None
     | Some x' \<Rightarrow> (case y of None \<Rightarrow> x = None | Some y' \<Rightarrow> x' = y'))"

definition isForkIncompatible :: "bigint \<Rightarrow> bigint \<Rightarrow> bigint \<Rightarrow> bool" where
  "isForkIncompatible s1 s2 head \<longleftrightarrow>
     (isForked s1 head \<or> isForked s2 head) \<and> \<not> configNumEqual s1 s2"

definition IsHomestead :: "ChainConfig \<Rightarrow> bigint \<Rightarrow> bool" where
  "IsHomestead c num = isForked (HomesteadBlock c) num"

definition IsDAOFork :: "ChainConfig \<Rightarrow> bigint \<Rightarrow> bool" where
  "IsDAOFork c num = isForked (DAOForkBlock c) num"

definition IsEIP150 :: "ChainConfig \<Rightarrow> bigint \<Rightarrow> bool" where
  "IsEIP150 c num = isForked (EIP150Block c) num"

definition IsEIP155 :: "ChainConfig \<Rightarrow> bigint \<Rightarrow> bool" where
  "IsEIP155 c num = isForked (EIP155Block c) num"

definition IsEIP158 :: "ChainConfig \<Rightarrow> bigint \<Rightarrow> bool" where
  "IsEIP158 c num = isForked (EIP158Block c) num"

definition IsByzantium :: "ChainConfig \<Rightarrow> bigint \<Rightarrow> bool" where
  "IsByzantium c num = isForked (ByzantiumBlock c) num"

definition IsConstantinople :: "ChainConfig \<Rightarrow> bigint \<Rightarrow> bool" where
  "IsConstantinople c num = isForked (ConstantinopleBlock c) num"

definition IsMuirGlacier :: "ChainConfig \<Rightarrow> bigint \<Rightarrow> bool" where
  "IsMuirGlacier c num = isForked (MuirGlacierBlock c) num"

definition IsPetersburg :: "ChainConfig \<Rightarrow> bigint \<Rightarrow> bool" where
  "IsPetersburg c num \<longleftrightarrow>
     isForked (PetersburgBlock c) num \<or>
     PetersburgBlock c = None \<and> isForked (ConstantinopleBlock c) num"

definition IsIstanbul :: "ChainConfig \<Rightarrow> bigint \<Rightarrow> bool" where
  "IsIstanbul c num = isForked (IstanbulBlock c) num"

definition IsBerlin :: "ChainConfig \<Rightarrow> bigint \<Rightarrow> bool" where
  "IsBerlin c num = isForked (BerlinBlock c) num"

definition IsLondon :: "ChainConfig \<Rightarrow> bigint \<Rightarrow> bool" where
  "IsLondon c num = isForked (LondonBlock c) num"

definition IsArrowGlacier :: "ChainConfig \<Rightarrow> bigint \<Rightarrow> bool" where
  "IsArrowGlacier c num = isForked (ArrowGlacierBlock c) num"

definition IsTerminalPoWBlock :: "ChainConfig \<Rightarrow> int \<Rightarrow> int \<Rightarrow> bool" where
  "IsTerminalPoWBlock c parentTotalDiff totalDiff =
    (case TerminalTotalDifficulty c of None \<Rightarrow> False
     | Some ttd \<Rightarrow> parentTotalDiff < ttd \<and> totalDiff \<ge> ttd)"

definition IsRedCoast :: "ChainConfig \<Rightarrow> bigint \<Rightarrow> bool" where
  "IsRedCoast c num = isForked (RedCoastBlock c) num"

definition IsSophon :: "ChainConfig \<Rightarrow> bigint \<Rightarrow> bool" where
  "IsSophon c num = isForked (SophonBlock c) num"

record Rules =
  r_ChainID :: int
  r_IsHomestead :: bool
  r_IsEIP150 :: bool
  r_IsEIP155 :: bool
  r_IsEIP158 :: bool
  r_IsByzantium :: bool
  r_IsConstantinople :: bool
  r_IsPetersburg :: bool
  r_IsIstanbul :: bool
  r_IsBerlin :: bool
  r_IsLondon :: bool

definition config_Rules :: "ChainConfig \<Rightarrow> bigint \<Rightarrow> Rules" where
  "config_Rules c num =
    \<lparr>r_ChainID = (case ChainID c of None \<Rightarrow> 0 | Some i \<Rightarrow> i),
     r_IsHomestead = IsHomestead c num, r_IsEIP150 = IsEIP150 c num, r_IsEIP155 = IsEIP155 c num,
     r_IsEIP158 = IsEIP158 c num, r_IsByzantium = IsByzantium c num,
     r_IsConstantinople = IsConstantinople c num, r_IsPetersburg = IsPetersburg c num,
     r_IsIstanbul = IsIstanbul c num, r_IsBerlin = IsBerlin c num, r_IsLondon = IsLondon c num\<rparr>"

subsection \<open>Fork order\<close>

record fork =
  f_name :: string
  f_block :: bigint
  f_optional :: bool
  f_minValue :: bigint

datatype fork_error =
    ForkNotEnabled string string int
  | ForkOrder string int string int
  | ForkBelowMin string int int

definition mkfork :: "string \<Rightarrow> bigint \<Rightarrow> bool \<Rightarrow> bigint \<Rightarrow> fork" where
  "mkfork n b opt m = \<lparr>f_name = n, f_block = b, f_optional = opt, f_minValue = m\<rparr>"

text \<open>The two loops of \<^verbatim>\<open>CheckConfigForkOrder\<close> differ in the comparison (\<open>>\<close> against \<open>>=\<close>) and in the
  minimum check; \<open>strict\<close> selects the second.  \<open>lastFork.name != ""\<close> is a present \<open>lastFork\<close>.\<close>

fun fork_order_loop :: "bool \<Rightarrow> fork option \<Rightarrow> fork list \<Rightarrow> (fork_error, unit) result" where
  "fork_order_loop strict lastFork [] = Inr ()"
| "fork_order_loop strict lastFork (cur # rest) =
     rbind
       (case (strict, f_block cur, f_minValue cur) of
          (True, Some b, Some m) \<Rightarrow> if b < m then Inl (ForkBelowMin (f_name cur) b m) else Inr ()
        | _ \<Rightarrow> Inr ())
       (\<lambda>_. rbind
         (case lastFork of None \<Rightarrow> Inr ()
          | Some l \<Rightarrow>
              (case (f_block l, f_block cur) of
                 (None, Some b) \<Rightarrow> Inl (ForkNotEnabled (f_name l) (f_name cur) b)
               | (Some a, Some b) \<Rightarrow>
                   if (if strict then a \<ge> b else a > b)
                   then Inl (ForkOrder (f_name l) a (f_name cur) b) else Inr ()
               | _ \<Rightarrow> Inr ()))
         (\<lambda>_. fork_order_loop strict
                (if \<not> f_optional cur \<or> f_block cur \<noteq> None then Some cur else lastFork) rest))"

definition eth_forks :: "ChainConfig \<Rightarrow> fork list" where
  "eth_forks c =
        [mkfork ''homesteadBlock'' (HomesteadBlock c) False None,
         mkfork ''daoForkBlock'' (DAOForkBlock c) True None,
         mkfork ''eip150Block'' (EIP150Block c) False None,
         mkfork ''eip155Block'' (EIP155Block c) False None,
         mkfork ''eip158Block'' (EIP158Block c) False None,
         mkfork ''byzantiumBlock'' (ByzantiumBlock c) False None,
         mkfork ''constantinopleBlock'' (ConstantinopleBlock c) False None,
         mkfork ''petersburgBlock'' (PetersburgBlock c) False None,
         mkfork ''istanbulBlock'' (IstanbulBlock c) False None,
         mkfork ''muirGlacierBlock'' (MuirGlacierBlock c) True None,
         mkfork ''berlinBlock'' (BerlinBlock c) False None,
         mkfork ''londonBlock'' (LondonBlock c) False None]"

definition congress_forks :: "ChainConfig \<Rightarrow> fork list" where
  "congress_forks c =
        [mkfork ''redCoastBlock'' (RedCoastBlock c) False (Some 2),
         mkfork ''sophonBlock'' (SophonBlock c) False None]"

definition CheckConfigForkOrder :: "ChainConfig \<Rightarrow> (fork_error, unit) result" where
  "CheckConfigForkOrder c =
    rbind (fork_order_loop False None (eth_forks c))
      (\<lambda>_. fork_order_loop True None (congress_forks c))"

subsection \<open>Compatibility of a stored and a new configuration\<close>

record ConfigCompatError =
  What :: string
  StoredConfig :: bigint
  NewConfig :: bigint
  RewindTo :: u64

definition newCompatError :: "string \<Rightarrow> bigint \<Rightarrow> bigint \<Rightarrow> ConfigCompatError" where
  "newCompatError what storedblock newblock =
    (let rew = (case storedblock of None \<Rightarrow> newblock
                | Some s \<Rightarrow> (case newblock of None \<Rightarrow> storedblock
                             | Some n \<Rightarrow> if s < n then storedblock else newblock))
     in \<lparr>What = what, StoredConfig = storedblock, NewConfig = newblock,
         RewindTo = (case rew of Some r \<Rightarrow> if r > 0 then big_Uint64 r - 1 else 0 | None \<Rightarrow> 0)\<rparr>)"

definition checkCompatible :: "ChainConfig \<Rightarrow> ChainConfig \<Rightarrow> bigint \<Rightarrow> ConfigCompatError option" where
  "checkCompatible c newcfg head =
    (if isForkIncompatible (HomesteadBlock c) (HomesteadBlock newcfg) head
     then Some (newCompatError ''Homestead fork block'' (HomesteadBlock c) (HomesteadBlock newcfg))
     else if isForkIncompatible (DAOForkBlock c) (DAOForkBlock newcfg) head
     then Some (newCompatError ''DAO fork block'' (DAOForkBlock c) (DAOForkBlock newcfg))
     else if IsDAOFork c head \<and> DAOForkSupport c \<noteq> DAOForkSupport newcfg
     then Some (newCompatError ''DAO fork support flag'' (DAOForkBlock c) (DAOForkBlock newcfg))
     else if isForkIncompatible (EIP150Block c) (EIP150Block newcfg) head
     then Some (newCompatError ''EIP150 fork block'' (EIP150Block c) (EIP150Block newcfg))
     else if isForkIncompatible (EIP155Block c) (EIP155Block newcfg) head
     then Some (newCompatError ''EIP155 fork block'' (EIP155Block c) (EIP155Block newcfg))
     else if isForkIncompatible (EIP158Block c) (EIP158Block newcfg) head
     then Some (newCompatError ''EIP158 fork block'' (EIP158Block c) (EIP158Block newcfg))
     else if IsEIP158 c head \<and> \<not> configNumEqual (ChainID c) (ChainID newcfg)
     then Some (newCompatError ''EIP158 chain ID'' (EIP158Block c) (EIP158Block newcfg))
     else if isForkIncompatible (ByzantiumBlock c) (ByzantiumBlock newcfg) head
     then Some (newCompatError ''Byzantium fork block'' (ByzantiumBlock c) (ByzantiumBlock newcfg))
     else if isForkIncompatible (ConstantinopleBlock c) (ConstantinopleBlock newcfg) head
     then Some (newCompatError ''Constantinople fork block'' (ConstantinopleBlock c) (ConstantinopleBlock newcfg))
     else if isForkIncompatible (PetersburgBlock c) (PetersburgBlock newcfg) head
          \<and> isForkIncompatible (ConstantinopleBlock c) (PetersburgBlock newcfg) head
     then Some (newCompatError ''Petersburg fork block'' (PetersburgBlock c) (PetersburgBlock newcfg))
     else if isForkIncompatible (IstanbulBlock c) (IstanbulBlock newcfg) head
     then Some (newCompatError ''Istanbul fork block'' (IstanbulBlock c) (IstanbulBlock newcfg))
     else if isForkIncompatible (MuirGlacierBlock c) (MuirGlacierBlock newcfg) head
     then Some (newCompatError ''Muir Glacier fork block'' (MuirGlacierBlock c) (MuirGlacierBlock newcfg))
     else if isForkIncompatible (BerlinBlock c) (BerlinBlock newcfg) head
     then Some (newCompatError ''Berlin fork block'' (BerlinBlock c) (BerlinBlock newcfg))
     else if isForkIncompatible (LondonBlock c) (LondonBlock newcfg) head
     then Some (newCompatError ''London fork block'' (LondonBlock c) (LondonBlock newcfg))
     else if isForkIncompatible (RedCoastBlock c) (RedCoastBlock newcfg) head
     then Some (newCompatError ''RedCoast fork block'' (RedCoastBlock c) (RedCoastBlock newcfg))
     else if isForkIncompatible (ArrowGlacierBlock c) (ArrowGlacierBlock newcfg) head
     then Some (newCompatError ''Arrow Glacier fork block'' (ArrowGlacierBlock c) (ArrowGlacierBlock newcfg))
     else None)"

text \<open>A reported conflict lies at or below the head: the chain is rewound strictly below the head
  unless the head is already the genesis block.\<close>

lemma forked_head_nonneg: "isForked s (Some h) \<longleftrightarrow> (\<exists>b. s = Some b \<and> b \<le> h)"
  by (cases s) (auto simp: isForked_def)

definition rewind_of :: "int \<Rightarrow> u64" where
  "rewind_of r = (if r > 0 then big_Uint64 r - 1 else 0)"

lemma RewindTo_newCompatError:
  "RewindTo (newCompatError w (Some a) (Some b)) = rewind_of (min a b)"
  "RewindTo (newCompatError w (Some a) None) = rewind_of a"
  "RewindTo (newCompatError w None (Some a)) = rewind_of a"
  by (simp_all add: newCompatError_def rewind_of_def Let_def min_def)

lemma rewind_of_less:
  assumes "r \<le> uint h"
  shows "rewind_of r < h \<or> rewind_of r = 0"
proof (cases "r > 0")
  case True
  have "r < 2 ^ 64" using assms uint_lt2p [of h] by simp
  then have u: "uint (big_Uint64 r) = r"
    using True by (simp add: big_Uint64_def uint_word_of_int)
  then have "uint (big_Uint64 r - 1) = r - 1"
    using True by (simp add: uint_sub_lem [THEN iffD1])
  then have "uint (rewind_of r) < uint h" using True assms by (simp add: rewind_of_def)
  then show ?thesis by (simp add: word_less_def)
qed (simp add: rewind_of_def)

lemma newCompatError_RewindTo:
  assumes "isForked s1 (Some (uint h)) \<or> isForked s2 (Some (uint h))"
  shows "RewindTo (newCompatError w s1 s2) < h \<or> RewindTo (newCompatError w s1 s2) = 0"
  using assms
  by (cases s1; cases s2)
    (auto simp: isForked_def RewindTo_newCompatError intro!: rewind_of_less)

lemma ite_SomeE:
  "(if P then Some x else y) = Some e \<Longrightarrow> (P \<Longrightarrow> e = x \<Longrightarrow> Q) \<Longrightarrow> (\<not> P \<Longrightarrow> y = Some e \<Longrightarrow> Q) \<Longrightarrow> Q"
  by (auto split: if_splits)

lemma incompat_RewindTo:
  "isForkIncompatible s1 s2 (Some (uint h)) \<Longrightarrow> e = newCompatError w s1 s2 \<Longrightarrow>
   RewindTo e < h \<or> RewindTo e = 0"
  using newCompatError_RewindTo by (auto simp: isForkIncompatible_def)

lemma dao_RewindTo:
  "IsDAOFork c (Some (uint h)) \<Longrightarrow> e = newCompatError w (DAOForkBlock c) s2 \<Longrightarrow>
   RewindTo e < h \<or> RewindTo e = 0"
  using newCompatError_RewindTo by (auto simp: IsDAOFork_def)

lemma eip158_RewindTo:
  "IsEIP158 c (Some (uint h)) \<Longrightarrow> e = newCompatError w (EIP158Block c) s2 \<Longrightarrow>
   RewindTo e < h \<or> RewindTo e = 0"
  using newCompatError_RewindTo by (auto simp: IsEIP158_def)

lemma checkCompatible_RewindTo:
  assumes "checkCompatible c n (Some (uint h)) = Some e"
  shows "RewindTo e < h \<or> RewindTo e = 0"
  using assms unfolding checkCompatible_def
  by (elim ite_SomeE)
    (erule (1) incompat_RewindTo
     | (erule conjE, (erule (1) incompat_RewindTo | erule (1) dao_RewindTo | erule (1) eip158_RewindTo))
     | simp)+

function CheckCompatible_loop ::
  "ChainConfig \<Rightarrow> ChainConfig \<Rightarrow> ConfigCompatError option \<Rightarrow> u64 \<Rightarrow> ConfigCompatError option" where
  "CheckCompatible_loop c newcfg lasterr bhead =
    (case checkCompatible c newcfg (Some (uint bhead)) of
       None \<Rightarrow> lasterr
     | Some err \<Rightarrow>
         if (case lasterr of None \<Rightarrow> False | Some l \<Rightarrow> RewindTo err = RewindTo l) then lasterr
         else CheckCompatible_loop c newcfg (Some err) (RewindTo err))"
  by pat_completeness auto
termination
proof (relation "measure (\<lambda>(c, n, l, h).
    2 * unat h + (if (case l of None \<Rightarrow> False | Some e \<Rightarrow> RewindTo e = h) then 0 else 1))", goal_cases)
  case (2 c newcfg lasterr bhead err)
  then have "RewindTo err < bhead \<or> RewindTo err = 0" using checkCompatible_RewindTo by blast
  then show ?case
    using 2 by (auto simp: word_less_nat_alt unat_gt_0 split: option.splits if_splits)
qed simp

declare CheckCompatible_loop.simps [simp del]

definition CheckCompatible :: "ChainConfig \<Rightarrow> ChainConfig \<Rightarrow> u64 \<Rightarrow> ConfigCompatError option" where
  "CheckCompatible c newcfg height = CheckCompatible_loop c newcfg None height"


lemma CheckCompatible_loop_sound:
  assumes "CheckCompatible_loop c n l h = Some e" "l = None \<or> (\<exists>l'. l = Some l' \<and> RewindTo l' = h)"
  shows "(RewindTo e < h \<or> RewindTo e = 0 \<or> l = Some e) \<and>
    (checkCompatible c n (Some (uint (RewindTo e))) = None \<or> RewindTo e = 0)"
  using assms
proof (induction c n l h rule: CheckCompatible_loop.induct)
  case (1 c n l h)
  show ?case
  proof (cases "checkCompatible c n (Some (uint h))")
    case None
    then have "l = Some e" using "1.prems" by (simp add: CheckCompatible_loop.simps)
    then show ?thesis using None "1.prems" by auto
  next
    case (Some err)
    then have r: "RewindTo err < h \<or> RewindTo err = 0" by (rule checkCompatible_RewindTo)
    show ?thesis
    proof (cases "\<exists>l'. l = Some l' \<and> RewindTo err = RewindTo l'")
      case True
      then have "l = Some e" "RewindTo err = RewindTo e"
        using Some "1.prems"(1) by (auto simp: CheckCompatible_loop.simps)
      then show ?thesis using r "1.prems"(2) by auto
    next
      case False
      then have f: "\<not> (case l of None \<Rightarrow> False | Some l \<Rightarrow> RewindTo err = RewindTo l)"
        by (cases l) auto
      have "CheckCompatible_loop c n (Some err) (RewindTo err) = Some e"
        using Some f "1.prems"(1) by (subst (asm) CheckCompatible_loop.simps) (simp split: if_splits)
      from "1.IH" [OF Some f this] r show ?thesis by fastforce
    qed
  qed
qed

lemma CheckCompatible_loop_None:
  "CheckCompatible_loop c n l h = None \<longleftrightarrow> l = None \<and> checkCompatible c n (Some (uint h)) = None"
proof (induction c n l h rule: CheckCompatible_loop.induct)
  case (1 c n l h)
  then show ?case
    by (subst CheckCompatible_loop.simps) (auto split: option.splits)
qed

lemma CheckCompatible_loop_reports:
  "CheckCompatible_loop c n l h = Some e \<Longrightarrow> l = Some e \<or> (\<exists>h' \<le> h. checkCompatible c n (Some (uint h')) = Some e)"
proof (induction c n l h rule: CheckCompatible_loop.induct)
  case (1 c n l h)
  show ?case
  proof (cases "checkCompatible c n (Some (uint h))")
    case None
    then show ?thesis using "1.prems" by (simp add: CheckCompatible_loop.simps)
  next
    case (Some err)
    show ?thesis
    proof (cases "case l of None \<Rightarrow> False | Some l \<Rightarrow> RewindTo err = RewindTo l")
      case True
      then show ?thesis using Some "1.prems" by (subst (asm) CheckCompatible_loop.simps) simp
    next
      case False
      with Some "1.prems" have "CheckCompatible_loop c n (Some err) (RewindTo err) = Some e"
        by (subst (asm) CheckCompatible_loop.simps) simp
      from "1.IH" [OF Some False this]
      have "err = e \<or> (\<exists>h'\<le>RewindTo err. checkCompatible c n (Some (uint h')) = Some e)" by simp
      moreover have "RewindTo err \<le> h" using checkCompatible_RewindTo [OF Some] by auto
      ultimately show ?thesis using Some by (metis order.trans order.refl)
    qed
  qed
qed

text \<open>\<^verbatim>\<open>CheckCompatible\<close> always returns; it reports nothing exactly when the two configurations agree at
  the given height, and when it reports a conflict, rewinding the chain to \<^verbatim>\<open>RewindTo\<close> goes below the
  height and leaves a head at which the configurations agree, unless the rewind reaches genesis.\<close>

theorem CheckCompatible_rewind:
  "case CheckCompatible c newcfg height of
     None \<Rightarrow> checkCompatible c newcfg (Some (uint height)) = None
   | Some e \<Rightarrow> checkCompatible c newcfg (Some (uint height)) \<noteq> None \<and>
       (\<exists>h. h \<le> height \<and> checkCompatible c newcfg (Some (uint h)) = Some e) \<and>
       (RewindTo e = 0 \<or>
        RewindTo e < height \<and> checkCompatible c newcfg (Some (uint (RewindTo e))) = None)"
proof (cases "CheckCompatible c newcfg height")
  case None
  then have "checkCompatible c newcfg (Some (uint height)) = None"
    by (simp add: CheckCompatible_def CheckCompatible_loop_None)
  then show ?thesis using None by simp
next
  case (Some e)
  then have l: "CheckCompatible_loop c newcfg None height = Some e" by (simp add: CheckCompatible_def)
  then have "checkCompatible c newcfg (Some (uint height)) \<noteq> None"
    using CheckCompatible_loop_None [of c newcfg None height] by force
  then show ?thesis
    using Some CheckCompatible_loop_sound [OF l] CheckCompatible_loop_reports [OF l] by auto
qed

subsection \<open>Fork order\<close>

lemma isForked_le: "isForked (Some b) h \<Longrightarrow> a \<le> b \<Longrightarrow> isForked (Some a) h"
  by (auto simp: isForked_def split: option.splits)

lemma isForked_Some: "isForked b h \<Longrightarrow> \<exists>x. b = Some x"
  by (cases b) (auto simp: isForked_def)

text \<open>What the loop promises: a fork that is active at a height has every earlier mandatory fork active.\<close>

lemma fork_order_loop_last:
  "fork_order_loop st (Some l) fs = Inr () \<Longrightarrow> f \<in> set fs \<Longrightarrow> isForked (f_block f) num \<Longrightarrow>
   isForked (f_block l) num"
proof (induction fs arbitrary: l)
  case (Cons g fs)
  let ?next = "if \<not> f_optional g \<or> f_block g \<noteq> None then g else l"
  have rest: "fork_order_loop st (Some ?next) fs = Inr ()"
    using Cons.prems(1) by (auto simp: rbind_Inr_iff split: if_splits)
  have step: "isForked (f_block l) num" if act: "isForked (f_block g) num"
  proof -
    obtain b where b: "f_block g = Some b" using isForked_Some [OF act] by blast
    with Cons.prems(1) obtain a where "f_block l = Some a" "a \<le> b"
      by (cases "f_block l") (auto simp: rbind_Inr_iff split: if_splits)
    then show ?thesis using act b isForked_le by metis
  qed
  from Cons.prems(2) consider "f = g" | "f \<in> set fs" by auto
  then show ?case
  proof cases
    case 2
    from Cons.IH [OF rest 2 Cons.prems(3)] show ?thesis using step by (auto split: if_splits)
  qed (use step Cons.prems in blast)
qed simp

lemma fork_order_loop_tail:
  "fork_order_loop st l (g # fs) = Inr () \<Longrightarrow>
   \<exists>l'. fork_order_loop st l' fs = Inr () \<and> (\<not> f_optional g \<longrightarrow> l' = Some g)"
  by (auto simp: rbind_Inr_iff split: if_splits)

lemma fork_order_loop_mono:
  "fork_order_loop st l fs = Inr () \<Longrightarrow> i < j \<Longrightarrow> j < length fs \<Longrightarrow> \<not> f_optional (fs ! i) \<Longrightarrow>
   isForked (f_block (fs ! j)) num \<Longrightarrow> isForked (f_block (fs ! i)) num"
proof (induction fs arbitrary: l i j)
  case (Cons g fs)
  obtain l' where l': "fork_order_loop st l' fs = Inr ()" "\<not> f_optional g \<longrightarrow> l' = Some g"
    using fork_order_loop_tail [OF Cons.prems(1)] by blast
  obtain j' where j: "j = Suc j'" "j' < length fs" using Cons.prems by (cases j) auto
  show ?case
  proof (cases i)
    case 0
    then show ?thesis
      using fork_order_loop_last [of st g fs "fs ! j'"] l' j Cons.prems by simp
  next
    case (Suc i')
    then show ?thesis using Cons.IH [OF l'(1), of i' j'] Cons.prems j by simp
  qed
qed simp

lemma config_forks_mono:
  assumes "CheckConfigForkOrder c = Inr ()"
  shows "IsLondon c num \<Longrightarrow> IsBerlin c num" "IsBerlin c num \<Longrightarrow> IsIstanbul c num"
    "IsIstanbul c num \<Longrightarrow> isForked (PetersburgBlock c) num"
    "isForked (PetersburgBlock c) num \<Longrightarrow> IsConstantinople c num"
    "IsConstantinople c num \<Longrightarrow> IsByzantium c num" "IsByzantium c num \<Longrightarrow> IsEIP158 c num"
    "IsEIP158 c num \<Longrightarrow> IsEIP155 c num" "IsEIP155 c num \<Longrightarrow> IsEIP150 c num"
    "IsEIP150 c num \<Longrightarrow> IsHomestead c num" "IsSophon c num \<Longrightarrow> IsRedCoast c num"
proof -
  have o1: "fork_order_loop False None (eth_forks c) = Inr ()"
    and o2: "fork_order_loop True None (congress_forks c) = Inr ()"
    using assms by (auto simp: CheckConfigForkOrder_def rbind_Inr_iff)
  note m = fork_order_loop_mono [OF o1, where num = num]
  show "IsLondon c num \<Longrightarrow> IsBerlin c num" "IsBerlin c num \<Longrightarrow> IsIstanbul c num"
    "IsIstanbul c num \<Longrightarrow> isForked (PetersburgBlock c) num"
    "isForked (PetersburgBlock c) num \<Longrightarrow> IsConstantinople c num"
    "IsConstantinople c num \<Longrightarrow> IsByzantium c num" "IsByzantium c num \<Longrightarrow> IsEIP158 c num"
    "IsEIP158 c num \<Longrightarrow> IsEIP155 c num" "IsEIP155 c num \<Longrightarrow> IsEIP150 c num"
    "IsEIP150 c num \<Longrightarrow> IsHomestead c num"
    using m [of 10 11] m [of 8 10] m [of 7 8] m [of 6 7] m [of 5 6] m [of 4 5] m [of 3 4] m [of 2 3] m [of 0 2]
    by (simp_all add: eth_forks_def mkfork_def IsLondon_def IsBerlin_def IsIstanbul_def IsConstantinople_def
        IsByzantium_def IsEIP158_def IsEIP155_def IsEIP150_def IsHomestead_def)
  show "IsSophon c num \<Longrightarrow> IsRedCoast c num"
    using fork_order_loop_mono [OF o2, of 0 1 num] by (simp add: congress_forks_def mkfork_def IsSophon_def IsRedCoast_def)
qed

text \<open>A configuration that passes \<^verbatim>\<open>CheckConfigForkOrder\<close> activates its forks in order: at every block
  number the rule set of a later fork contains the rule sets of all earlier ones, and Sophon
  implies RedCoast, which is never scheduled before block 2.\<close>

theorem CheckConfigForkOrder_rules:
  assumes "CheckConfigForkOrder c = Inr ()"
  shows "(r_IsLondon (config_Rules c num) \<longrightarrow> r_IsBerlin (config_Rules c num)) \<and>
    (r_IsBerlin (config_Rules c num) \<longrightarrow> r_IsIstanbul (config_Rules c num)) \<and>
    (r_IsIstanbul (config_Rules c num) \<longrightarrow> r_IsPetersburg (config_Rules c num)) \<and>
    (r_IsPetersburg (config_Rules c num) \<longrightarrow> r_IsConstantinople (config_Rules c num)) \<and>
    (r_IsConstantinople (config_Rules c num) \<longrightarrow> r_IsByzantium (config_Rules c num)) \<and>
    (r_IsByzantium (config_Rules c num) \<longrightarrow> r_IsEIP158 (config_Rules c num)) \<and>
    (r_IsEIP158 (config_Rules c num) \<longrightarrow> r_IsEIP155 (config_Rules c num)) \<and>
    (r_IsEIP155 (config_Rules c num) \<longrightarrow> r_IsEIP150 (config_Rules c num)) \<and>
    (r_IsEIP150 (config_Rules c num) \<longrightarrow> r_IsHomestead (config_Rules c num)) \<and>
    (IsSophon c num \<longrightarrow> IsRedCoast c num) \<and>
    (IsRedCoast c num \<longrightarrow> (\<exists>n b. num = Some n \<and> RedCoastBlock c = Some b \<and> 2 \<le> b \<and> b \<le> n))"
proof -
  have "fork_order_loop True None (congress_forks c) = Inr ()"
    using assms by (auto simp: CheckConfigForkOrder_def rbind_Inr_iff)
  then have rc: "IsRedCoast c num \<Longrightarrow> \<exists>n b. num = Some n \<and> RedCoastBlock c = Some b \<and> 2 \<le> b \<and> b \<le> n"
    by (cases "RedCoastBlock c"; cases num)
      (auto simp: rbind_Inr_iff congress_forks_def mkfork_def IsRedCoast_def isForked_def split: if_splits)
  have pb: "IsPetersburg c num \<Longrightarrow> IsConstantinople c num"
    "IsIstanbul c num \<Longrightarrow> IsPetersburg c num"
    using config_forks_mono(3,4) [OF assms] by (auto simp: IsPetersburg_def IsConstantinople_def)
  show ?thesis
    unfolding config_Rules_def Rules.simps
    using config_forks_mono [OF assms, of num] pb rc by blast
qed

theorem CheckConfigForkOrder_rules_witness:
  "CheckConfigForkOrder MainnetChainConfig = Inr () \<and>
   r_IsLondon (config_Rules MainnetChainConfig (Some 9000000)) \<and>
   r_IsBerlin (config_Rules MainnetChainConfig (Some 9000000))"
proof -
  have ok: "CheckConfigForkOrder MainnetChainConfig = Inr ()" by code_simp
  have "r_IsLondon (config_Rules MainnetChainConfig (Some 9000000))"
    by (simp add: config_Rules_def IsLondon_def isForked_def MainnetChainConfig_def)
  with ok CheckConfigForkOrder_rules [OF ok, of "Some 9000000"] show ?thesis by simp
qed

text \<open>\<^verbatim>\<open>checkCompatible\<close> compares every fork except Sophon: rescheduling Sophon, even into the past,
  is never reported.\<close>

theorem checkCompatible_ignores_Sophon:
  "checkCompatible (c\<lparr>SophonBlock := s\<rparr>) (newcfg\<lparr>SophonBlock := s'\<rparr>) head = checkCompatible c newcfg head"
  unfolding checkCompatible_def IsDAOFork_def IsEIP158_def by (simp cong: if_cong split del: if_split)

end
