(* ===== verification/Header.thy ===== *)
theory Header
  imports Rlp
begin

text \<open>
  Block headers (\<^verbatim>\<open>core/types/block.go\<close>): the header record, its RLP form, its hash, the sanity
  check and the copy made for every consumer.  The hash function is a parameter: the code links
  \<^verbatim>\<open>golang.org/x/crypto/sha3\<close>.
\<close>

subsection \<open>Header record\<close>

type_synonym bloom = "2048 word"
type_synonym keccak = "bytes \<Rightarrow> hash"

record Header =
  h_ParentHash :: hash
  h_UncleHash :: hash
  h_Coinbase :: address
  h_Root :: hash
  h_TxHash :: hash
  h_ReceiptHash :: hash
  h_Bloom :: bloom
  h_Difficulty :: bigint
  h_Number :: bigint
  h_GasLimit :: u64
  h_GasUsed :: u64
  h_Time :: u64
  h_Extra :: bytes
  h_MixDigest :: hash
  h_Nonce :: u64
  h_BaseFee :: bigint

text \<open>A \<^verbatim>\<open>BlockNonce\<close> is the eight bytes of \<open>h_Nonce\<close>; \<^verbatim>\<open>EncodeNonce\<close> and its \<^verbatim>\<open>Uint64\<close> convert.\<close>

definition EncodeNonce :: "u64 \<Rightarrow> bytes" where
  "EncodeNonce i = be_bytes 8 (unat i)"

definition BlockNonce_Uint64 :: "bytes \<Rightarrow> u64" where
  "BlockNonce_Uint64 n = of_nat (be_nat n)"

definition bloom_bytes :: "bloom \<Rightarrow> bytes" where
  "bloom_bytes b = be_bytes 256 (unat b)"

definition header_rval :: "Header \<Rightarrow> rval" where
  "header_rval h = VStruct
    [VByteArray (hash_bytes (h_ParentHash h)), VByteArray (hash_bytes (h_UncleHash h)),
     VByteArray (address_bytes (h_Coinbase h)), VByteArray (hash_bytes (h_Root h)),
     VByteArray (hash_bytes (h_TxHash h)), VByteArray (hash_bytes (h_ReceiptHash h)),
     VByteArray (bloom_bytes (h_Bloom h)), VBig (h_Difficulty h), VBig (h_Number h),
     VUint (h_GasLimit h), VUint (h_GasUsed h), VUint (h_Time h), VBytes (h_Extra h),
     VByteArray (hash_bytes (h_MixDigest h)), VByteArray (EncodeNonce (h_Nonce h))]
    [(h_BaseFee h = None, VBig (h_BaseFee h))]"

text \<open>\<^verbatim>\<open>rlpHash\<close> discards the error of \<^verbatim>\<open>rlp.Encode\<close>, which then has written nothing to the hasher.\<close>

definition rlpHash :: "keccak \<Rightarrow> rval \<Rightarrow> hash" where
  "rlpHash kec v = (case EncodeToBytes v of Inl _ \<Rightarrow> kec [] | Inr bs \<Rightarrow> kec bs)"

definition header_Hash :: "keccak \<Rightarrow> Header \<Rightarrow> hash" where
  "header_Hash kec h = rlpHash kec (header_rval h)"

definition EmptyRootHash :: hash where
  "EmptyRootHash = 0x56e81f171bcc55a6ff8345e692c0f86e5b48e01b996cadc001622fb5e363b421"

definition EmptyUncleHash :: "keccak \<Rightarrow> hash" where
  "EmptyUncleHash kec = rlpHash kec (VSlice [])"

definition CalcUncleHash :: "keccak \<Rightarrow> Header list \<Rightarrow> hash" where
  "CalcUncleHash kec uncles =
    (if uncles = [] then EmptyUncleHash kec else rlpHash kec (VSlice (map header_rval uncles)))"

datatype sanity_error =
    TooLargeNumber nat | TooLargeDifficulty nat | TooLargeExtra nat | TooLargeBaseFee nat

definition big_IsUint64 :: "int \<Rightarrow> bool" where
  "big_IsUint64 i \<longleftrightarrow> 0 \<le> i \<and> i < 2 ^ 64"

definition SanityCheck :: "Header \<Rightarrow> (sanity_error, unit) result" where
  "SanityCheck h =
    rbind (case h_Number h of None \<Rightarrow> Inr ()
           | Some n \<Rightarrow> if \<not> big_IsUint64 n then Inl (TooLargeNumber (big_BitLen n)) else Inr ())
    (\<lambda>_. rbind (case h_Difficulty h of None \<Rightarrow> Inr ()
           | Some d \<Rightarrow> if big_BitLen d > 80 then Inl (TooLargeDifficulty (big_BitLen d)) else Inr ())
    (\<lambda>_. rbind (if length (h_Extra h) > 100 * 1024 then Inl (TooLargeExtra (length (h_Extra h))) else Inr ())
    (\<lambda>_. case h_BaseFee h of None \<Rightarrow> Inr ()
           | Some b \<Rightarrow> if big_BitLen b > 256 then Inl (TooLargeBaseFee (big_BitLen b)) else Inr ())))"

definition EmptyBody :: "keccak \<Rightarrow> Header \<Rightarrow> bool" where
  "EmptyBody kec h \<longleftrightarrow> h_TxHash h = EmptyRootHash \<and> h_UncleHash h = EmptyUncleHash kec"

definition EmptyReceipts :: "Header \<Rightarrow> bool" where
  "EmptyReceipts h \<longleftrightarrow> h_ReceiptHash h = EmptyRootHash"

definition big_or_0 :: "bigint \<Rightarrow> bigint" where
  "big_or_0 b = (case b of None \<Rightarrow> Some 0 | Some i \<Rightarrow> Some i)"

definition CopyHeader :: "Header \<Rightarrow> Header" where
  "CopyHeader h = h\<lparr>h_Difficulty := big_or_0 (h_Difficulty h), h_Number := big_or_0 (h_Number h)\<rparr>"

text \<open>The zero value \<^verbatim>\<open>Header{}\<close>.\<close>

definition header0 :: Header where
  "header0 = \<lparr>h_ParentHash = 0, h_UncleHash = 0, h_Coinbase = 0, h_Root = 0, h_TxHash = 0,
     h_ReceiptHash = 0, h_Bloom = 0, h_Difficulty = None, h_Number = None, h_GasLimit = 0,
     h_GasUsed = 0, h_Time = 0, h_Extra = [], h_MixDigest = 0, h_Nonce = 0, h_BaseFee = None\<rparr>"

lemma header0_Difficulty: "h_Difficulty header0 = None"
  by (simp add: header0_def)

subsection \<open>Sequences of RLP strings decode uniquely\<close>

lemma length_rlp_str:
  assumes "length b < 2 ^ 64"
  shows "length (rlp_str b) \<le> length b + 9"
  using assms length_min_be_le [of "length b" 8] by (simp add: rlp_str_def rlp_head_def)

lemma length_rlp_strs:
  "(\<And>x. x \<in> set xs \<Longrightarrow> length x \<le> K) \<Longrightarrow> K < 2 ^ 64 \<Longrightarrow>
   length (concat (map rlp_str xs)) \<le> length xs * (K + 9)"
proof (induction xs)
  case (Cons x xs)
  then have "length (rlp_str x) \<le> K + 9" using length_rlp_str [of x] by fastforce
  with Cons show ?case by simp
qed simp

lemma rlp_str_not_Nil [simp]: "rlp_str b \<noteq> []"
  by (auto simp: rlp_str_def rlp_head_def)

lemma length_rlp_str_ge: "length b \<le> length (rlp_str b)"
  by (simp add: rlp_str_def)

lemma rlp_str_prefix_free:
  assumes "rlp_str b @ r = rlp_str b' @ r'" "length (rlp_str b @ r) < 2 ^ 63"
  shows "b = b' \<and> r = r'"
proof -
  have "length (b @ r) < 2 ^ 63" "length (b' @ r') < 2 ^ 63"
    using assms(2) arg_cong [OF assms(1), of length] length_rlp_str_ge [of b] length_rlp_str_ge [of b']
    unfolding length_append by linarith+
  from this [THEN Split_str] show ?thesis unfolding assms(1) by (simp only: sum.inject prod.inject)
qed

lemma rlp_lst_prefix_free:
  assumes "rlp_lst b @ r = rlp_lst b' @ r'" "length (rlp_lst b @ r) < 2 ^ 63"
  shows "b = b' \<and> r = r'"
proof -
  have "length (b @ r) < 2 ^ 63" "length (b' @ r') < 2 ^ 63"
    using assms(2) arg_cong [OF assms(1), of length] unfolding rlp_lst_def length_append by linarith+
  from this [THEN Split_lst] show ?thesis unfolding assms(1) by (simp only: sum.inject prod.inject)
qed

lemma rlp_strs_inj:
  "concat (map rlp_str xs) = concat (map rlp_str ys) \<Longrightarrow> length (concat (map rlp_str xs)) < 2 ^ 63 \<Longrightarrow>
   xs = ys"
proof (induction xs arbitrary: ys)
  case Nil
  then show ?case by (cases ys) auto
next
  case (Cons x xs)
  then obtain y ys' where ys: "ys = y # ys'" by (cases ys) auto
  have "x = y \<and> concat (map rlp_str xs) = concat (map rlp_str ys')"
    using Cons.prems ys by (intro rlp_str_prefix_free) simp_all
  with Cons ys show ?case by simp
qed

lemma min_be_inj [simp]: "min_be a = min_be b \<longleftrightarrow> a = b"
  by (metis be_nat_min_be)

lemma min_be_Nil [simp]: "min_be n = [] \<longleftrightarrow> n = 0" "[] = min_be n \<longleftrightarrow> n = 0"
  using min_be_inj [of n 0] by auto

lemma hash_bytes_inj [simp]: "hash_bytes a = hash_bytes b \<longleftrightarrow> a = b"
  by (metis BytesToHash_bytes)

lemma address_bytes_inj [simp]: "address_bytes a = address_bytes b \<longleftrightarrow> a = b"
  by (metis BytesToAddress_bytes)

lemma length_bloom_bytes [simp]: "length (bloom_bytes b) = 256"
  by (simp add: bloom_bytes_def)

lemma bloom_bytes_inj [simp]: "bloom_bytes a = bloom_bytes b \<longleftrightarrow> a = b"
proof
  assume "bloom_bytes a = bloom_bytes b"
  moreover have "unat x < 256 ^ 256" for x :: bloom
    using unat_lt2p [of x] power_mult [of "2 :: nat" 8 256] by simp
  ultimately have "unat a = unat b" unfolding bloom_bytes_def by (metis be_bytes_inj)
  then show "a = b" by (simp add: word_unat_eq_iff)
qed simp

lemma EncodeNonce_roundtrip [simp]: "BlockNonce_Uint64 (EncodeNonce i) = i"
proof -
  have "unat i < 256 ^ 8" using unat_lt2p [of i] by simp
  then show ?thesis by (simp add: EncodeNonce_def BlockNonce_Uint64_def)
qed

lemma length_EncodeNonce [simp]: "length (EncodeNonce i) = 8"
  by (simp add: EncodeNonce_def)

lemma EncodeNonce_inj [simp]: "EncodeNonce a = EncodeNonce b \<longleftrightarrow> a = b"
  by (metis EncodeNonce_roundtrip)

subsection \<open>Header encoding\<close>

definition big_payload :: "bigint \<Rightarrow> bytes" where
  "big_payload b = (case b of None \<Rightarrow> [] | Some i \<Rightarrow> min_be (nat i))"

definition big_nonneg :: "bigint \<Rightarrow> bool" where
  "big_nonneg b \<longleftrightarrow> (case b of None \<Rightarrow> True | Some i \<Rightarrow> 0 \<le> i)"

text \<open>The payloads of the fields that the seal hash and the block hash share.\<close>

definition sig_payloads :: "Header \<Rightarrow> bytes \<Rightarrow> bytes list" where
  "sig_payloads h extra =
    [hash_bytes (h_ParentHash h), hash_bytes (h_UncleHash h), address_bytes (h_Coinbase h),
     hash_bytes (h_Root h), hash_bytes (h_TxHash h), hash_bytes (h_ReceiptHash h),
     bloom_bytes (h_Bloom h), big_payload (h_Difficulty h), big_payload (h_Number h),
     min_be (unat (h_GasLimit h)), min_be (unat (h_GasUsed h)), min_be (unat (h_Time h)), extra,
     hash_bytes (h_MixDigest h), EncodeNonce (h_Nonce h)]"

definition header_payloads :: "Header \<Rightarrow> bytes list" where
  "header_payloads h = sig_payloads h (h_Extra h) @
     (case h_BaseFee h of None \<Rightarrow> [] | Some b \<Rightarrow> [min_be (nat b)])"

definition header_nonneg :: "Header \<Rightarrow> bool" where
  "header_nonneg h \<longleftrightarrow> big_nonneg (h_Difficulty h) \<and> big_nonneg (h_Number h) \<and> big_nonneg (h_BaseFee h)"

lemma rlp_ref_big: "big_nonneg b \<Longrightarrow> rlp_ref (VBig b) = Inr (rlp_str (big_payload b))"
  by (cases b) (auto simp: big_nonneg_def big_payload_def)

lemma rlp_ref_header:
  assumes "header_nonneg h"
  shows "rlp_ref (header_rval h) = Inr (rlp_lst (concat (map rlp_str (header_payloads h))))"
proof -
  have "rlp_ref (VBig (h_Difficulty h)) = Inr (rlp_str (big_payload (h_Difficulty h)))"
    "rlp_ref (VBig (h_Number h)) = Inr (rlp_str (big_payload (h_Number h)))"
    "rlp_ref (VBig (h_BaseFee h)) = Inr (rlp_str (big_payload (h_BaseFee h)))"
    using assms by (simp_all add: header_nonneg_def rlp_ref_big)
  then show ?thesis
    unfolding header_rval_def header_payloads_def sig_payloads_def
    by (cases "h_BaseFee h") (simp_all add: drop_zero_tail_def big_payload_def)
qed

lemma big_payload_inj:
  "big_nonneg a \<Longrightarrow> big_nonneg b \<Longrightarrow> big_payload a = big_payload b \<longleftrightarrow> big_or_0 a = big_or_0 b"
  by (cases a; cases b) (auto simp: big_payload_def big_or_0_def big_nonneg_def)

lemma SanityCheck_bounds:
  assumes "SanityCheck h = Inr ()"
  shows "length (h_Extra h) \<le> 102400"
    "\<And>d. h_Difficulty h = Some d \<Longrightarrow> \<bar>d\<bar> < 2 ^ 80"
    "\<And>n. h_Number h = Some n \<Longrightarrow> 0 \<le> n \<and> n < 2 ^ 64"
    "\<And>b. h_BaseFee h = Some b \<Longrightarrow> \<bar>b\<bar> < 2 ^ 256"
proof -
  note s = assms [unfolded SanityCheck_def rbind_Inr_iff]
  have abs_nat: "nat_BitLen (nat \<bar>i\<bar>) \<le> k \<Longrightarrow> \<bar>i\<bar> < 2 ^ k" for i :: int and k
    by (simp add: nat_BitLen_le nat_less_iff)
  show "length (h_Extra h) \<le> 102400" using s by (auto split: if_splits)
  show "\<bar>d\<bar> < 2 ^ 80" if "h_Difficulty h = Some d" for d
    using s that abs_nat [of d 80] by (auto simp: big_BitLen_def split: if_splits)
  show "0 \<le> n \<and> n < 2 ^ 64" if "h_Number h = Some n" for n
    using s that by (auto simp: big_IsUint64_def split: if_splits)
  show "\<bar>b\<bar> < 2 ^ 256" if "h_BaseFee h = Some b" for b
    using s that abs_nat [of b 256] by (auto simp: big_BitLen_def split: if_splits)
qed

lemma length_big_payload: "(\<And>i. b = Some i \<Longrightarrow> \<bar>i\<bar> < 256 ^ k) \<Longrightarrow> length (big_payload b) \<le> k"
proof (cases b)
  case (Some i)
  assume "\<And>i. b = Some i \<Longrightarrow> \<bar>i\<bar> < 256 ^ k"
  then have "nat i < 256 ^ k" using Some by (simp add: nat_less_iff)
  then show ?thesis using Some by (simp add: big_payload_def length_min_be_le)
qed (simp add: big_payload_def)

lemma length_min_be_u64: "length (min_be (unat (x :: u64))) \<le> 8"
  by (rule length_min_be_le) (use unat_lt2p [of x] in simp)

lemma sig_payloads_length:
  assumes "SanityCheck h = Inr ()" "length extra \<le> 102400" "p \<in> set (sig_payloads h extra)"
  shows "length p \<le> 102400"
proof -
  have "length (big_payload (h_Difficulty h)) \<le> 10" "length (big_payload (h_Number h)) \<le> 8"
    using SanityCheck_bounds(2,3) [OF assms(1)] by (intro length_big_payload; force)+
  then show ?thesis
    using assms(2,3) length_min_be_u64 [of "h_GasLimit h"] length_min_be_u64 [of "h_GasUsed h"]
      length_min_be_u64 [of "h_Time h"] by (auto simp: sig_payloads_def)
qed

lemma header_payloads_length:
  assumes "SanityCheck h = Inr ()" "p \<in> set (header_payloads h)"
  shows "length p \<le> 102400"
proof -
  have "length (big_payload (h_BaseFee h)) \<le> 32"
    using SanityCheck_bounds(4) [OF assms(1)] by (intro length_big_payload) force
  then show ?thesis
    using assms sig_payloads_length [OF assms(1) SanityCheck_bounds(1) [OF assms(1)], of p]
    by (auto simp: header_payloads_def big_payload_def split: option.splits)
qed

lemma rlp_lst_length: "length c < 2 ^ 64 \<Longrightarrow> length (rlp_lst c) \<le> length c + 9"
  using length_min_be_le [of "length c" 8] by (simp add: rlp_lst_def rlp_head_def)

lemma header_strs_length:
  assumes "SanityCheck h = Inr ()"
  shows "length (concat (map rlp_str (header_payloads h))) \<le> 1638544"
proof -
  have "length (header_payloads h) \<le> 16"
    by (simp add: header_payloads_def sig_payloads_def split: option.splits)
  then have "length (header_payloads h) * (102400 + 9) \<le> 16 * (102400 + 9)" by (rule mult_le_mono1)
  then show ?thesis
    using length_rlp_strs [of "header_payloads h" 102400] header_payloads_length [OF assms] by fastforce
qed

lemma EncodeToBytes_header:
  assumes "SanityCheck h = Inr ()" "header_nonneg h"
  shows "EncodeToBytes (header_rval h) = Inr (rlp_lst (concat (map rlp_str (header_payloads h))))"
  using header_strs_length [OF assms(1)] rlp_lst_length [of "concat (map rlp_str (header_payloads h))"]
  by (intro EncodeToBytes_ok rlp_ref_header assms(2)) simp

lemma sig_payloads_inj:
  assumes "header_nonneg h" "header_nonneg h'" "sig_payloads h x = sig_payloads h' x'"
  shows "x = x' \<and> CopyHeader h = (CopyHeader h')\<lparr>h_Extra := h_Extra h, h_BaseFee := h_BaseFee h\<rparr>"
  using assms unfolding sig_payloads_def header_nonneg_def CopyHeader_def
  by (cases h; cases h') (simp add: big_payload_inj word_unat_eq_iff)

text \<open>Block hashes bind the whole header: two headers that pass \<^verbatim>\<open>SanityCheck\<close> (with non-negative
  big integers, as decoded headers have) and have the same RLP encoding are the same header, up to
  the nil difficulty or number that \<^verbatim>\<open>CopyHeader\<close> normalises to zero; a missing base fee is
  told apart from a zero one.\<close>

theorem header_encoding_injective:
  assumes "SanityCheck h = Inr ()" "SanityCheck h' = Inr ()" "header_nonneg h" "header_nonneg h'"
    and "EncodeToBytes (header_rval h) = EncodeToBytes (header_rval h')"
  shows "CopyHeader h = CopyHeader h'"
proof -
  let ?c = "\<lambda>h. concat (map rlp_str (header_payloads h))"
  have "rlp_lst (?c h) @ [] = rlp_lst (?c h') @ []"
    using assms by (simp add: EncodeToBytes_header)
  moreover have "length (rlp_lst (?c h) @ []) < 2 ^ 63"
    using header_strs_length [OF assms(1)] rlp_lst_length [of "?c h"] by simp
  ultimately have "?c h = ?c h'" using rlp_lst_prefix_free by blast
  then have eq: "header_payloads h = header_payloads h'"
    using header_strs_length [OF assms(1)] by (intro rlp_strs_inj) simp_all
  have "length (sig_payloads h x) = length (sig_payloads h' x')" for x x' by (simp add: sig_payloads_def)
  then have s: "sig_payloads h (h_Extra h) = sig_payloads h' (h_Extra h')"
    and b: "h_BaseFee h = h_BaseFee h'"
    using eq assms(3,4)
    by (auto simp: header_payloads_def header_nonneg_def big_nonneg_def split: option.splits)
  show ?thesis using sig_payloads_inj [OF assms(3,4) s] b by (simp add: CopyHeader_def)
qed

theorem header_encoding_injective_witness:
  "CopyHeader (header0\<lparr>h_Number := Some 7, h_BaseFee := Some 0\<rparr>) =
   CopyHeader (header0\<lparr>h_Number := Some 7, h_Difficulty := Some 0, h_BaseFee := Some 0\<rparr>)"
proof (rule header_encoding_injective)
  show s: "SanityCheck (header0\<lparr>h_Number := Some 7, h_BaseFee := Some 0\<rparr>) = Inr ()"
    "SanityCheck (header0\<lparr>h_Number := Some 7, h_Difficulty := Some 0, h_BaseFee := Some 0\<rparr>) = Inr ()"
    by (simp_all add: SanityCheck_def header0_def big_IsUint64_def big_BitLen_def nat_BitLen.simps)
  show n: "header_nonneg (header0\<lparr>h_Number := Some 7, h_BaseFee := Some 0\<rparr>)"
    "header_nonneg (header0\<lparr>h_Number := Some 7, h_Difficulty := Some 0, h_BaseFee := Some 0\<rparr>)"
    by (simp_all add: header_nonneg_def header0_def big_nonneg_def)
  show "EncodeToBytes (header_rval (header0\<lparr>h_Number := Some 7, h_BaseFee := Some 0\<rparr>)) =
    EncodeToBytes (header_rval (header0\<lparr>h_Number := Some 7, h_Difficulty := Some 0, h_BaseFee := Some 0\<rparr>))"
    using s n header0_Difficulty by (simp add: EncodeToBytes_header header_payloads_def sig_payloads_def big_payload_def)
qed

end
