(* ===== verification/Fee_Market.thy ===== *)
theory Fee_Market
  imports Header Params
begin

text \<open>
  Package \<^verbatim>\<open>consensus/misc\<close>: the gas limit bound (\<^verbatim>\<open>gaslimit.go\<close>), the base fee of the fee market
  with the chain's floor (\<^verbatim>\<open>eip1559.go\<close>), the fork hash check (\<^verbatim>\<open>forks.go\<close>) and the DAO extra-data
  rule (\<^verbatim>\<open>dao.go\<close>).
\<close>

subsection \<open>Definitions\<close>

definition GasLimitBoundDivisor :: u64 where "GasLimitBoundDivisor = 1024"
definition MinGasLimit :: u64 where "MinGasLimit = 5000"
definition ElasticityMultiplier :: u64 where "ElasticityMultiplier = 4"
definition BaseFeeChangeDenominator :: int where "BaseFeeChangeDenominator = 4"
definition InitialBaseFee :: int where "InitialBaseFee = 1000000000"
definition MinimumBaseFee :: int where "MinimumBaseFee = 1000000000"

text \<open>\<open>MiscPanic\<close> is the run-time panic of \<^verbatim>\<open>big.Int.Div\<close> on a zero divisor and of a nil dereference.\<close>

datatype misc_error =
    InvalidGasLimit u64 u64 u64
  | GasLimitBelowMin u64
  | MissingBaseFee
  | InvalidBaseFee int int bigint u64
  | ForkHashMismatch hash hash
  | ErrBadProDAOExtra
  | ErrBadNoDAOExtra
  | MiscPanic

text \<open>The subtraction is on \<^verbatim>\<open>int64\<close>; the sign test reads the top bit.\<close>

definition VerifyGaslimit :: "u64 \<Rightarrow> u64 \<Rightarrow> (misc_error, unit) result" where
  "VerifyGaslimit parentGasLimit headerGasLimit =
    (let d = parentGasLimit - headerGasLimit;
         diff = (if d <s 0 then - d else d);
         limit = parentGasLimit div GasLimitBoundDivisor
     in if diff \<ge> limit then Inl (InvalidGasLimit headerGasLimit parentGasLimit (limit - 1))
        else if headerGasLimit < MinGasLimit then Inl (GasLimitBelowMin MinGasLimit)
        else Inr ())"

definition big_Div :: "int \<Rightarrow> int \<Rightarrow> (misc_error, int) result" where
  "big_Div x y = (if y = 0 then Inl MiscPanic
     else Inr (if y > 0 then x div y else - (x div (- y))))"

definition CalcBaseFee :: "ChainConfig \<Rightarrow> Header \<Rightarrow> (misc_error, int) result" where
  "CalcBaseFee config parent =
    (if \<not> IsLondon config (h_Number parent) then Inr 0
     else (case h_BaseFee parent of
         None \<Rightarrow> Inr InitialBaseFee
       | Some parentBaseFee \<Rightarrow>
           (let parentGasTarget = h_GasLimit parent div ElasticityMultiplier
            in if h_GasUsed parent = parentGasTarget then Inr parentBaseFee
               else if h_GasUsed parent > parentGasTarget then
                 (let gasUsedDelta = uint (h_GasUsed parent - parentGasTarget);
                      x = parentBaseFee * gasUsedDelta
                  in rbind (big_Div x (uint parentGasTarget)) (\<lambda>y.
                     rbind (big_Div y BaseFeeChangeDenominator) (\<lambda>delta.
                     Inr (parentBaseFee + (if delta = 0 then 1 else delta)))))
               else
                 (let gasUsedDelta = uint (parentGasTarget - h_GasUsed parent);
                      x = parentBaseFee * gasUsedDelta
                  in rbind (big_Div x (uint parentGasTarget)) (\<lambda>y.
                     rbind (big_Div y BaseFeeChangeDenominator) (\<lambda>delta.
                     (let res = parentBaseFee - delta
                      in Inr (if res < MinimumBaseFee then MinimumBaseFee else res))))))))"

definition VerifyEip1559Header :: "ChainConfig \<Rightarrow> Header \<Rightarrow> Header \<Rightarrow> (misc_error, unit) result" where
  "VerifyEip1559Header config parent header =
    rbind (VerifyGaslimit (h_GasLimit parent) (h_GasLimit header)) (\<lambda>_.
      (case h_BaseFee header of
         None \<Rightarrow> Inl MissingBaseFee
       | Some fee \<Rightarrow> rbind (CalcBaseFee config parent) (\<lambda>expectedBaseFee.
           if fee \<noteq> expectedBaseFee
           then Inl (InvalidBaseFee expectedBaseFee fee (h_BaseFee parent) (h_GasUsed parent))
           else Inr ())))"

definition VerifyForkHashes ::
  "keccak \<Rightarrow> ChainConfig \<Rightarrow> Header \<Rightarrow> bool \<Rightarrow> (misc_error, unit) result" where
  "VerifyForkHashes kec config header uncle =
    (if uncle then Inr ()
     else (case EIP150Block config of
         None \<Rightarrow> Inr ()
       | Some b \<Rightarrow>
           (case h_Number header of
              None \<Rightarrow> Inl MiscPanic
            | Some n \<Rightarrow>
                if b = n \<and> EIP150Hash config \<noteq> 0 \<and> EIP150Hash config \<noteq> header_Hash kec header
                then Inl (ForkHashMismatch (header_Hash kec header) (EIP150Hash config))
                else Inr ())))"

definition DAOForkExtraRange :: int where "DAOForkExtraRange = 10"

definition DAOForkBlockExtra :: bytes where
  "DAOForkBlockExtra = [0x64, 0x61, 0x6f, 0x2d, 0x68, 0x61, 0x72, 0x64, 0x2d, 0x66, 0x6f, 0x72, 0x6b]"

definition VerifyDAOHeaderExtraData :: "ChainConfig \<Rightarrow> Header \<Rightarrow> (misc_error, unit) result" where
  "VerifyDAOHeaderExtraData config header =
    (case DAOForkBlock config of
       None \<Rightarrow> Inr ()
     | Some f \<Rightarrow>
         (case h_Number header of
            None \<Rightarrow> Inl MiscPanic
          | Some n \<Rightarrow>
              if n < f \<or> n \<ge> f + DAOForkExtraRange then Inr ()
              else if DAOForkSupport config then
                (if h_Extra header \<noteq> DAOForkBlockExtra then Inl ErrBadProDAOExtra else Inr ())
              else
                (if h_Extra header = DAOForkBlockExtra then Inl ErrBadNoDAOExtra else Inr ())))"

lemmas fee_consts = GasLimitBoundDivisor_def MinGasLimit_def ElasticityMultiplier_def
  BaseFeeChangeDenominator_def InitialBaseFee_def MinimumBaseFee_def


subsection \<open>The gas limit bound\<close>

lemma bit_63_u64: "bit (d :: u64) 63 \<longleftrightarrow> 2 ^ 63 \<le> unat d"
proof -
  have "unat d < 2 * 2 ^ 63" using unat_lt2p [of d] by simp
  then have "unat d div 2 ^ 63 = (if 2 ^ 63 \<le> unat d then 1 else 0)"
    by (auto simp: div_nat_eqI)
  then have "bit (unat d) 63 \<longleftrightarrow> 2 ^ 63 \<le> unat d" by (simp add: bit_iff_odd)
  then show ?thesis by (simp add: bit_unsigned_iff)
qed

lemma sless_0_u64: "(d :: u64) <s 0 \<longleftrightarrow> 2 ^ 63 \<le> unat d"
  using bit_last_iff [of d] bit_63_u64 [of d] by (simp add: word_sless_alt)

lemma nat_abs_diff:
  "y \<le> x \<Longrightarrow> nat \<bar>int x - int y\<bar> = x - y" "y \<le> x \<Longrightarrow> nat \<bar>int y - int x\<bar> = x - y"
  by auto

lemma abs_diff_u64:
  assumes "unat (a :: u64) < 2 ^ 63" "unat b < 2 ^ 63"
  shows "unat (if a - b <s 0 then - (a - b) else a - b) = nat \<bar>int (unat a) - int (unat b)\<bar>"
proof (cases "b \<le> a")
  case True
  then have "unat (a - b) = unat a - unat b" by (rule unat_sub)
  moreover from this have "\<not> a - b <s 0" using assms by (simp add: sless_0_u64)
  ultimately show ?thesis using True by (simp only: word_le_nat_alt nat_abs_diff(1) if_False)
next
  case False
  then have lt: "unat a < unat b" by (simp add: word_le_nat_alt)
  then have ba: "unat (b - a) = unat b - unat a" by (intro unat_sub) (simp add: word_le_nat_alt)
  have "unat (a - b) = 2 ^ 64 - (unat b - unat a)"
    using lt assms by (simp add: unat_sub_if' )
  with assms lt have "a - b <s 0" by (simp add: sless_0_u64)
  then show ?thesis using ba lt by (simp only: nat_abs_diff(2) [OF less_imp_le] if_True minus_diff_eq)
qed

text \<open>\<^verbatim>\<open>VerifyGaslimit\<close> accepts exactly the gas limits that move by less than 1/1024 of the parent's
  and stay at 5000 or above; the signed subtraction of the code computes the distance correctly
  because both limits are at most \<open>2^63 - 1\<close>.\<close>

theorem VerifyGaslimit_iff:
  assumes "unat parentGasLimit < 2 ^ 63" "unat headerGasLimit < 2 ^ 63"
  shows "VerifyGaslimit parentGasLimit headerGasLimit = Inr () \<longleftrightarrow>
    \<bar>int (unat parentGasLimit) - int (unat headerGasLimit)\<bar> < int (unat parentGasLimit div 1024) \<and>
    5000 \<le> unat headerGasLimit"
proof -
  have "unat (parentGasLimit div 1024) = unat parentGasLimit div 1024" by (simp add: unat_div)
  then show ?thesis
    using abs_diff_u64 [OF assms]
    by (auto simp: VerifyGaslimit_def Let_def fee_consts word_less_nat_alt word_le_nat_alt
        split: if_splits)
qed

theorem VerifyGaslimit_iff_witness:
  "VerifyGaslimit 30000000 30029295 = Inr () \<and> VerifyGaslimit 30000000 30029296 \<noteq> Inr ()"
  using VerifyGaslimit_iff [of 30000000 30029295] VerifyGaslimit_iff [of 30000000 30029296] by simp

subsection \<open>The base fee\<close>

lemma uint_div_4: "uint ((x :: u64) div 4) = uint x div 4"
  by (simp add: uint_div)

lemma big_Div_pos: "0 < y \<Longrightarrow> big_Div x y = Inr (x div y)"
  by (simp add: big_Div_def)

lemma CalcBaseFee_London:
  assumes "IsLondon config (h_Number parent)" "h_BaseFee parent = Some b"
    and t: "t = uint (h_GasLimit parent) div 4" "0 < t" and u: "u = uint (h_GasUsed parent)"
  shows "CalcBaseFee config parent = Inr
    (if u = t then b
     else if u > t then (let d = b * (u - t) div t div 4 in b + (if d = 0 then 1 else d))
     else max MinimumBaseFee (b - b * (t - u) div t div 4))"
proof -
  let ?t = "h_GasLimit parent div 4"
  have t': "uint ?t = t" using t by (simp add: uint_div_4)
  have cmp: "(h_GasUsed parent = ?t) = (u = t)" "(?t < h_GasUsed parent) = (t < u)"
    using t' u by (auto simp: word_less_def word_uint_eq_iff)
  have sub: "t \<le> u \<Longrightarrow> uint (h_GasUsed parent - ?t) = u - t" "u \<le> t \<Longrightarrow> uint (?t - h_GasUsed parent) = t - u"
    using t' u by (simp_all add: uint_sub_lem [THEN iffD1])
  show ?thesis
    using assms(1,2) t(2) sub
    by (auto simp: CalcBaseFee_def ElasticityMultiplier_def BaseFeeChangeDenominator_def Let_def cmp t'
        big_Div_pos max_def)
qed

lemma base_fee_delta_bounds:
  assumes "0 \<le> (b :: int)" "0 < t" "0 \<le> d" "d \<le> k * t"
  shows "0 \<le> b * d div t div 4" "b * d div t div 4 \<le> b * k div 4"
proof -
  show "0 \<le> b * d div t div 4" using assms by (simp add: pos_imp_zdiv_nonneg_iff)
  have "b * d \<le> b * (k * t)" using assms by (simp add: mult_left_mono)
  then have "b * d div t \<le> b * k" using assms(2) zdiv_mono1 [of "b * d" "b * k * t" t] by (simp add: mult.assoc)
  then show "b * d div t div 4 \<le> b * k div 4" by (simp add: zdiv_mono1)
qed

text \<open>C33. The base fee follows the parent's gas use: at the target (a quarter of the limit) it stays, above
  the target it strictly rises, at most doubling plus one when the parent used no more than its limit,
  and below the target it falls by at most a quarter, but not under the floor of 1 gwei, to which a lower
  fee is raised; a fee at or above the floor stays there on every branch, so the floor is an invariant of
  the chain once reached.  The parent is a London block with a base fee, a gas limit of at least 5000 and a
  gas use within the limit.  The repository's test \<^verbatim>\<open>TestCalcBaseFee\<close> disagrees with the code: for a limit of
  20 million it takes a use of 10 million as the target and expects a fee of 0 for a use of 9, 10 and 11
  million, where the code, whose target is 5 million, raises the fee.\<close>

theorem CalcBaseFee_dynamics:
  assumes "IsLondon config (h_Number parent)" "h_BaseFee parent = Some b" "0 \<le> b"
    and "MinGasLimit \<le> h_GasLimit parent" "h_GasUsed parent \<le> h_GasLimit parent"
  shows "\<exists>r. CalcBaseFee config parent = Inr r \<and>
    (h_GasUsed parent = h_GasLimit parent div 4 \<longrightarrow> r = b) \<and>
    (h_GasUsed parent > h_GasLimit parent div 4 \<longrightarrow> b < r \<and> r \<le> 2 * b + 1) \<and>
    (h_GasUsed parent < h_GasLimit parent div 4 \<longrightarrow>
       MinimumBaseFee \<le> r \<and> (r = MinimumBaseFee \<or> r \<le> b) \<and> b - b div 4 \<le> r) \<and>
    (MinimumBaseFee \<le> b \<longrightarrow> MinimumBaseFee \<le> r)"
proof -
  define t where "t = uint (h_GasLimit parent) div 4"
  define u where "u = uint (h_GasUsed parent)"
  have lim: "5000 \<le> uint (h_GasLimit parent)" "u \<le> uint (h_GasLimit parent)"
    using assms(4,5) by (simp_all add: MinGasLimit_def word_le_def u_def)
  then have t0: "1250 \<le> t" "u \<le> 4 * t + 3" by (simp_all add: t_def)
  have cmp: "(h_GasUsed parent = h_GasLimit parent div 4) = (u = t)"
    "(h_GasUsed parent > h_GasLimit parent div 4) = (u > t)"
    "(h_GasUsed parent < h_GasLimit parent div 4) = (u < t)"
    using uint_div_4 [of "h_GasLimit parent"] by (auto simp: t_def u_def word_less_def word_uint_eq_iff)
  have eq: "CalcBaseFee config parent = Inr
    (if u = t then b
     else if u > t then (let d = b * (u - t) div t div 4 in b + (if d = 0 then 1 else d))
     else max MinimumBaseFee (b - b * (t - u) div t div 4))"
    using CalcBaseFee_London [OF assms(1,2) t_def _ u_def] t0 by simp
  consider "u = t" | "u > t" | "u < t" by linarith
  then show ?thesis
  proof cases
    case 1
    then show ?thesis using eq cmp by simp
  next
    case 2
    have "0 \<le> b * (u - t) div t div 4" "b * (u - t) div t div 4 \<le> b"
      using base_fee_delta_bounds [of b t "u - t" 4] assms(3) t0 2 by auto
    then show ?thesis using 2 eq cmp assms(3) by (simp add: Let_def)
  next
    case 3
    have "0 \<le> u" by (simp add: u_def)
    then have "0 \<le> b * (t - u) div t div 4" "b * (t - u) div t div 4 \<le> b div 4"
      using base_fee_delta_bounds [of b t "t - u" 1] assms(3) t0 3 by auto
    then show ?thesis using 3 eq cmp by (auto simp: max_def)
  qed
qed

theorem CalcBaseFee_dynamics_witness:
  "\<exists>r. CalcBaseFee MainnetChainConfig (header0\<lparr>h_Number := Some 9000000, h_BaseFee := Some 2000000000,
      h_GasLimit := 20000000000, h_GasUsed := 20000000000\<rparr>) = Inr r \<and> 2000000000 < r \<and> r \<le> 4000000001"
  using CalcBaseFee_dynamics [of MainnetChainConfig "header0\<lparr>h_Number := Some 9000000,
      h_BaseFee := Some 2000000000, h_GasLimit := 20000000000, h_GasUsed := 20000000000\<rparr>" 2000000000]
  by (auto simp: IsLondon_def isForked_def MainnetChainConfig_def MinGasLimit_def)

text \<open>The floor does not hold at the start of the fee market: the first London block must carry base fee
  zero, and while its successors use more than the target the fee only climbs from there by the
  increase branch, which does not apply \<^verbatim>\<open>MinimumBaseFee\<close>.\<close>

theorem CalcBaseFee_below_floor:
  assumes "\<not> IsLondon config (h_Number p0)" "IsLondon config (h_Number p1)"
    and "VerifyEip1559Header config p0 p1 = Inr ()" "h_GasUsed p1 > h_GasLimit p1 div 4"
    and "VerifyEip1559Header config p1 p2 = Inr ()"
  shows "h_BaseFee p1 = Some 0 \<and> h_BaseFee p2 = Some 1"
proof -
  have "CalcBaseFee config p0 = Inr 0" using assms(1) by (simp add: CalcBaseFee_def)
  with assms(3) have b1: "h_BaseFee p1 = Some 0"
    by (auto simp: VerifyEip1559Header_def rbind_Inr_iff split: option.splits if_splits)
  have "MinGasLimit \<le> h_GasLimit p1"
    using assms(3) by (auto simp: VerifyEip1559Header_def VerifyGaslimit_def rbind_Inr_iff Let_def split: if_splits)
  then have "5000 \<le> uint (h_GasLimit p1)" by (simp add: MinGasLimit_def word_le_def)
  then have "CalcBaseFee config p1 = Inr 1"
    using CalcBaseFee_London [OF assms(2) b1 refl _ refl] assms(4) uint_div_4 [of "h_GasLimit p1"]
    by (simp add: word_less_def)
  with assms(5) b1 show ?thesis
    by (auto simp: VerifyEip1559Header_def rbind_Inr_iff split: option.splits if_splits)
qed

theorem CalcBaseFee_below_floor_witness:
  "h_BaseFee (header0\<lparr>h_Number := Some 8577001, h_GasLimit := 6000, h_BaseFee := Some 1\<rparr>) = Some 1 \<and>
   VerifyEip1559Header MainnetChainConfig
     (header0\<lparr>h_Number := Some 8577000, h_GasLimit := 6000, h_GasUsed := 6000, h_BaseFee := Some 0\<rparr>)
     (header0\<lparr>h_Number := Some 8577001, h_GasLimit := 6000, h_BaseFee := Some 1\<rparr>) = Inr ()"
proof -
  let ?p0 = "header0\<lparr>h_Number := Some 8576999, h_GasLimit := 6000\<rparr>"
  let ?p1 = "header0\<lparr>h_Number := Some 8577000, h_GasLimit := 6000, h_GasUsed := 6000, h_BaseFee := Some 0\<rparr>"
  let ?p2 = "header0\<lparr>h_Number := Some 8577001, h_GasLimit := 6000, h_BaseFee := Some 1\<rparr>"
  have v: "VerifyEip1559Header MainnetChainConfig ?p0 ?p1 = Inr ()"
    "VerifyEip1559Header MainnetChainConfig ?p1 ?p2 = Inr ()"
    by (simp_all add: VerifyEip1559Header_def VerifyGaslimit_def CalcBaseFee_def IsLondon_def isForked_def
        MainnetChainConfig_def fee_consts big_Div_def Let_def)
  have l: "\<not> IsLondon MainnetChainConfig (h_Number ?p0)" "IsLondon MainnetChainConfig (h_Number ?p1)"
    by (simp_all add: IsLondon_def isForked_def MainnetChainConfig_def)
  have "h_GasUsed ?p1 > h_GasLimit ?p1 div 4" by simp
  from CalcBaseFee_below_floor [OF l v(1) this v(2)] v(2) show ?thesis by blast
qed

end
