(* ===== verification/Congress_Base.thy ===== *)
theory Congress_Base
  imports Fee_Market
begin

text \<open>
  What the parts of the Congress engine share (\<^verbatim>\<open>consensus/congress/congress.go\<close>): its errors and
  constants, the signature environment, the seal hash and the recovery of a header's signer.

  The cryptographic primitives are parameters collected in a record: \<open>c_keccak\<close> for
  \<^verbatim>\<open>sha3.NewLegacyKeccak256\<close>, \<open>c_Ecrecover\<close> for \<^verbatim>\<open>crypto.Ecrecover\<close> (message hash and signature to
  an uncompressed public key, or failure), and \<open>c_sigcache\<close> for the content of the signature cache
  at the time of the call.
\<close>

subsection \<open>Errors and constants\<close>

datatype congress_error =
    errUnknownBlock
  | errMissingVanity
  | errMissingSignature
  | errExtraValidators
  | errInvalidExtraValidators
  | errInvalidMixDigest
  | errInvalidUncleHash
  | errInvalidDifficulty
  | errWrongDifficulty
  | ErrInvalidTimestamp
  | errInvalidVotingChain
  | errUnauthorizedValidator
  | errRecentlySigned
  | errInvalidValidatorsLength
  | errInvalidCoinbase
  | errInvalidSysGovCount
  | ErrFutureBlock
  | ErrUnknownAncestor
  | InvalidGasLimitCap u64
  | InvalidGasUsed u64 u64
  | InvalidBaseFeeBeforeFork int
  | MiscError misc_error
  | CryptoError
  | OtherError string
  | Panic

definition checkpointInterval :: u64 where "checkpointInterval = 1024"
definition maxValidators :: nat where "maxValidators = 10000"
definition epochLength :: u64 where "epochLength = 30000"
definition extraVanity :: nat where "extraVanity = 32"
definition extraSeal :: nat where "extraSeal = 65"
definition AddressLength :: nat where "AddressLength = 20"
definition diffInTurn :: int where "diffInTurn = 2"
definition diffNoTurn :: int where "diffNoTurn = 1"

lemmas congress_consts = checkpointInterval_def maxValidators_def epochLength_def extraVanity_def
  extraSeal_def AddressLength_def diffInTurn_def diffNoTurn_def

record crypto =
  c_keccak :: keccak
  c_Ecrecover :: "bytes \<Rightarrow> bytes \<Rightarrow> bytes option"
  c_sigcache :: "hash \<Rightarrow> address option"

text \<open>A concrete environment for examples: a toy hash, and a recovery that reads the signer's key
  from the signature.\<close>

definition demo_crypto :: crypto where
  "demo_crypto = \<lparr>c_keccak = (\<lambda>bs. of_nat (be_nat bs)), c_Ecrecover = (\<lambda>_ sig. Some (4 # sig)),
     c_sigcache = (\<lambda>_. None)\<rparr>"

subsection \<open>The seal hash\<close>

definition sig_rval :: "Header \<Rightarrow> bytes \<Rightarrow> rval" where
  "sig_rval header extra = VSlice
    [VByteArray (hash_bytes (h_ParentHash header)), VByteArray (hash_bytes (h_UncleHash header)),
     VByteArray (address_bytes (h_Coinbase header)), VByteArray (hash_bytes (h_Root header)),
     VByteArray (hash_bytes (h_TxHash header)), VByteArray (hash_bytes (h_ReceiptHash header)),
     VByteArray (bloom_bytes (h_Bloom header)), VBig (h_Difficulty header), VBig (h_Number header),
     VUint (h_GasLimit header), VUint (h_GasUsed header), VUint (h_Time header), VBytes extra,
     VByteArray (hash_bytes (h_MixDigest header)), VByteArray (EncodeNonce (h_Nonce header))]"

text \<open>The slice expression panics when the extra-data is shorter than a signature, and so does the
  function when the encoder fails.\<close>

definition encodeSigHeader :: "Header \<Rightarrow> (congress_error, bytes) result" where
  "encodeSigHeader header =
    (if length (h_Extra header) < extraSeal then Inl Panic
     else (case EncodeToBytes
             (sig_rval header (take (length (h_Extra header) - extraSeal) (h_Extra header))) of
             Inl _ \<Rightarrow> Inl Panic
           | Inr bs \<Rightarrow> Inr bs))"

definition CongressRLP :: "Header \<Rightarrow> (congress_error, bytes) result" where
  "CongressRLP header = encodeSigHeader header"

definition SealHash :: "keccak \<Rightarrow> Header \<Rightarrow> (congress_error, hash) result" where
  "SealHash kec header = rbind (encodeSigHeader header) (\<lambda>bs. Inr (kec bs))"

definition ecrecover :: "crypto \<Rightarrow> Header \<Rightarrow> (congress_error, address) result" where
  "ecrecover cr header =
    (case c_sigcache cr (header_Hash (c_keccak cr) header) of
       Some a \<Rightarrow> Inr a
     | None \<Rightarrow>
         if length (h_Extra header) < extraSeal then Inl errMissingSignature
         else (let signature = drop (length (h_Extra header) - extraSeal) (h_Extra header)
               in rbind (SealHash (c_keccak cr) header) (\<lambda>sh.
                  case c_Ecrecover cr (hash_bytes sh) signature of
                    None \<Rightarrow> Inl CryptoError
                  | Some pubkey \<Rightarrow>
                      Inr (BytesToAddress (drop 12 (hash_bytes (c_keccak cr (drop 1 pubkey))))))))"

subsection \<open>What the seal covers\<close>

lemma rlp_ref_sig:
  assumes "big_nonneg (h_Difficulty h)" "big_nonneg (h_Number h)"
  shows "rlp_ref (sig_rval h x) = Inr (rlp_lst (concat (map rlp_str (sig_payloads h x))))"
  using rlp_ref_big [OF assms(1)] rlp_ref_big [OF assms(2)]
  by (simp add: sig_rval_def sig_payloads_def)

lemma EncodeToBytes_sig:
  assumes "SanityCheck h = Inr ()" "big_nonneg (h_Difficulty h)" "big_nonneg (h_Number h)"
    and "length x \<le> 102400"
  shows "EncodeToBytes (sig_rval h x) = Inr (rlp_lst (concat (map rlp_str (sig_payloads h x))))"
    and "length (concat (map rlp_str (sig_payloads h x))) \<le> 1536135"
proof -
  have "length (concat (map rlp_str (sig_payloads h x))) \<le> length (sig_payloads h x) * (102400 + 9)"
    using sig_payloads_length [OF assms(1,4)] by (intro length_rlp_strs) simp_all
  then show l: "length (concat (map rlp_str (sig_payloads h x))) \<le> 1536135" by (simp add: sig_payloads_def)
  show "EncodeToBytes (sig_rval h x) = Inr (rlp_lst (concat (map rlp_str (sig_payloads h x))))"
    using l rlp_lst_length [of "concat (map rlp_str (sig_payloads h x))"]
    by (intro EncodeToBytes_ok rlp_ref_sig assms(2,3)) simp
qed

definition seal_part :: "Header \<Rightarrow> bytes" where
  "seal_part h = take (length (h_Extra h) - extraSeal) (h_Extra h)"

lemma encodeSigHeader_eq:
  assumes "SanityCheck h = Inr ()" "header_nonneg h" "extraSeal \<le> length (h_Extra h)"
  shows "encodeSigHeader h = Inr (rlp_lst (concat (map rlp_str (sig_payloads h (seal_part h)))))"
proof -
  have "length (seal_part h) \<le> 102400" using SanityCheck_bounds(1) [OF assms(1)] by (simp add: seal_part_def)
  then show ?thesis
    using assms EncodeToBytes_sig(1) [of h "seal_part h"]
    by (simp add: encodeSigHeader_def seal_part_def header_nonneg_def)
qed

text \<open>C40. The signed bytes determine every header field except the signature and the base fee: two sane
  headers with the same \<^verbatim>\<open>CongressRLP\<close> agree on all fields (nil big integers read as zero) and on
  the extra-data in front of the signature.\<close>

theorem CongressRLP_binding:
  assumes "SanityCheck h = Inr ()" "header_nonneg h" "SanityCheck h' = Inr ()" "header_nonneg h'"
    and "CongressRLP h = Inr bs" "CongressRLP h' = Inr bs"
  shows "CopyHeader h = (CopyHeader h')\<lparr>h_Extra := h_Extra h, h_BaseFee := h_BaseFee h\<rparr> \<and>
    take (length (h_Extra h) - extraSeal) (h_Extra h) = take (length (h_Extra h') - extraSeal) (h_Extra h')"
proof -
  let ?c = "\<lambda>h. concat (map rlp_str (sig_payloads h (seal_part h)))"
  have x: "extraSeal \<le> length (h_Extra h)" "extraSeal \<le> length (h_Extra h')"
    using assms(5,6) by (auto simp: CongressRLP_def encodeSigHeader_def split: if_splits)
  have "length (seal_part h) \<le> 102400" using SanityCheck_bounds(1) [OF assms(1)] by (simp add: seal_part_def)
  then have l: "length (?c h) \<le> 1536135"
    using EncodeToBytes_sig(2) [of h "seal_part h"] assms(1,2) by (simp add: header_nonneg_def)
  have "rlp_lst (?c h) @ [] = rlp_lst (?c h') @ []"
    using assms x by (simp add: CongressRLP_def encodeSigHeader_eq)
  moreover have "length (rlp_lst (?c h) @ []) < 2 ^ 63" using l rlp_lst_length [of "?c h"] by simp
  ultimately have "?c h = ?c h'" using rlp_lst_prefix_free by blast
  then have "sig_payloads h (seal_part h) = sig_payloads h' (seal_part h')"
    using l by (intro rlp_strs_inj) simp_all
  from sig_payloads_inj [OF assms(2,4) this] show ?thesis by (simp add: seal_part_def)
qed

theorem CongressRLP_binding_witness:
  "let h = header0\<lparr>h_Number := Some 1, h_Extra := replicate 97 0\<rparr>;
       h' = header0\<lparr>h_Number := Some 1, h_Difficulty := Some 0, h_Extra := replicate 32 0 @ replicate 65 1, h_BaseFee := Some 5\<rparr>
   in CongressRLP h = CongressRLP h' \<and>
      CopyHeader h = (CopyHeader h')\<lparr>h_Extra := h_Extra h, h_BaseFee := h_BaseFee h\<rparr>"
proof -
  define h where "h = header0\<lparr>h_Number := Some 1, h_Extra := replicate 97 0\<rparr>"
  define h' where "h' = header0\<lparr>h_Number := Some 1, h_Difficulty := Some 0,
    h_Extra := replicate 32 0 @ replicate 65 1, h_BaseFee := Some 5\<rparr>"
  have s: "SanityCheck h = Inr ()" "SanityCheck h' = Inr ()"
    by (simp_all add: SanityCheck_def h_def h'_def header0_def big_IsUint64_def big_BitLen_def nat_BitLen.simps)
  have n: "header_nonneg h" "header_nonneg h'"
    by (simp_all add: header_nonneg_def h_def h'_def header0_def big_nonneg_def)
  have x: "extraSeal \<le> length (h_Extra h)" "extraSeal \<le> length (h_Extra h')"
    by (simp_all add: h_def h'_def extraSeal_def)
  have "sig_payloads h (seal_part h) = sig_payloads h' (seal_part h')"
    by (simp add: sig_payloads_def seal_part_def h_def h'_def header0_Difficulty big_payload_def extraSeal_def)
  then have eq: "CongressRLP h' = CongressRLP h"
    using s n x by (simp add: CongressRLP_def encodeSigHeader_eq)
  obtain bs where bs: "CongressRLP h = Inr bs" using s n x by (simp add: CongressRLP_def encodeSigHeader_eq)
  from CongressRLP_binding [OF s(1) n(1) s(2) n(2) bs] bs eq show ?thesis
    by (simp add: h_def h'_def Let_def)
qed

text \<open>The base fee is not signed: changing it leaves \<^verbatim>\<open>SealHash\<close> and the recovered signer (on a
  signature cache miss) unchanged, although the block hash changes.\<close>

theorem SealHash_ignores_BaseFee:
  assumes "c_sigcache cr = (\<lambda>_. None)"
  shows "SealHash kec (h\<lparr>h_BaseFee := b\<rparr>) = SealHash kec h \<and>
    ecrecover cr (h\<lparr>h_BaseFee := b\<rparr>) = ecrecover cr h"
  using assms by (simp add: SealHash_def encodeSigHeader_def sig_rval_def ecrecover_def)

theorem SealHash_ignores_BaseFee_witness:
  "ecrecover demo_crypto (header0\<lparr>h_Extra := replicate 97 0, h_BaseFee := Some 7\<rparr>) =
   ecrecover demo_crypto (header0\<lparr>h_Extra := replicate 97 0\<rparr>)"
  using SealHash_ignores_BaseFee [where cr = demo_crypto and h = "header0\<lparr>h_Extra := replicate 97 0\<rparr>" and b = "Some 7"]
  by (simp add: demo_crypto_def)

end
