(* ===== verification/Header_Chain.thy ===== *)
theory Header_Chain
  imports Fee_Market
begin

text \<open>
  The header database (\<^verbatim>\<open>core/rawdb/accessors_chain.go\<close>) and the read side of
  \<^verbatim>\<open>core/headerchain.go\<close>, together with the interface \<^verbatim>\<open>consensus.ChainHeaderReader\<close> through
  which the consensus engine sees them.  Keys of the key-value store are modelled by their
  components; the freezer and the LRU caches, which hold copies of the same records, are left out.
\<close>

subsection \<open>State\<close>

record chain_db =
  db_headers :: "(u64 \<times> hash, Header) gomap"
  db_numbers :: "(hash, u64) gomap"
  db_canonical :: "(u64, hash) gomap"
  db_td :: "(u64 \<times> hash, int) gomap"
  db_headHeader :: hash

text \<open>\<^verbatim>\<open>header.Number.Uint64()\<close>: the nil dereference is \<open>None\<close>.\<close>

definition header_number :: "Header \<Rightarrow> u64 option" where
  "header_number h = map_option big_Uint64 (h_Number h)"

definition empty_db :: chain_db where
  "empty_db = \<lparr>db_headers = [], db_numbers = [], db_canonical = [], db_td = [], db_headHeader = 0\<rparr>"

subsection \<open>Accessors\<close>

definition ReadCanonicalHash :: "chain_db \<Rightarrow> u64 \<Rightarrow> hash" where
  "ReadCanonicalHash db number = (case gm_get (db_canonical db) number of None \<Rightarrow> 0 | Some h \<Rightarrow> h)"

definition WriteCanonicalHash :: "chain_db \<Rightarrow> hash \<Rightarrow> u64 \<Rightarrow> chain_db" where
  "WriteCanonicalHash db hash number = db\<lparr>db_canonical := gm_set (db_canonical db) number hash\<rparr>"

definition DeleteCanonicalHash :: "chain_db \<Rightarrow> u64 \<Rightarrow> chain_db" where
  "DeleteCanonicalHash db number = db\<lparr>db_canonical := gm_del (db_canonical db) number\<rparr>"

definition ReadHeaderNumber :: "chain_db \<Rightarrow> hash \<Rightarrow> u64 option" where
  "ReadHeaderNumber db hash = gm_get (db_numbers db) hash"

definition WriteHeaderNumber :: "chain_db \<Rightarrow> hash \<Rightarrow> u64 \<Rightarrow> chain_db" where
  "WriteHeaderNumber db hash number = db\<lparr>db_numbers := gm_set (db_numbers db) hash number\<rparr>"

definition WriteHeadHeaderHash :: "chain_db \<Rightarrow> hash \<Rightarrow> chain_db" where
  "WriteHeadHeaderHash db hash = db\<lparr>db_headHeader := hash\<rparr>"

definition ReadTd :: "chain_db \<Rightarrow> hash \<Rightarrow> u64 \<Rightarrow> int option" where
  "ReadTd db hash number = gm_get (db_td db) (number, hash)"

definition WriteTd :: "chain_db \<Rightarrow> hash \<Rightarrow> u64 \<Rightarrow> int \<Rightarrow> chain_db" where
  "WriteTd db hash number td = db\<lparr>db_td := gm_set (db_td db) (number, hash) td\<rparr>"

text \<open>The record is stored RLP-encoded; decoding turns a nil difficulty into zero, as \<^verbatim>\<open>CopyHeader\<close> does.\<close>

definition ReadHeader :: "chain_db \<Rightarrow> hash \<Rightarrow> u64 \<Rightarrow> Header option" where
  "ReadHeader db hash number = map_option CopyHeader (gm_get (db_headers db) (number, hash))"

definition HasHeader :: "chain_db \<Rightarrow> hash \<Rightarrow> u64 \<Rightarrow> bool" where
  "HasHeader db hash number \<longleftrightarrow> gm_get (db_headers db) (number, hash) \<noteq> None"

definition WriteHeader :: "keccak \<Rightarrow> chain_db \<Rightarrow> Header \<Rightarrow> chain_db option" where
  "WriteHeader kec db header =
    (case header_number header of
       None \<Rightarrow> None
     | Some number \<Rightarrow>
         (let hash = header_Hash kec header; db1 = WriteHeaderNumber db hash number
          in Some (db1\<lparr>db_headers := gm_set (db_headers db1) (number, hash) header\<rparr>)))"

definition deleteHeaderWithoutNumber :: "chain_db \<Rightarrow> hash \<Rightarrow> u64 \<Rightarrow> chain_db" where
  "deleteHeaderWithoutNumber db hash number = db\<lparr>db_headers := gm_del (db_headers db) (number, hash)\<rparr>"

definition DeleteHeader :: "chain_db \<Rightarrow> hash \<Rightarrow> u64 \<Rightarrow> chain_db" where
  "DeleteHeader db hash number =
    (let db1 = deleteHeaderWithoutNumber db hash number
     in db1\<lparr>db_numbers := gm_del (db_numbers db1) hash\<rparr>)"

subsection \<open>The header chain's queries\<close>

definition hc_GetBlockNumber :: "chain_db \<Rightarrow> hash \<Rightarrow> u64 option" where
  "hc_GetBlockNumber db hash = ReadHeaderNumber db hash"

definition hc_GetTd :: "chain_db \<Rightarrow> hash \<Rightarrow> u64 \<Rightarrow> int option" where
  "hc_GetTd db hash number = ReadTd db hash number"

definition hc_GetHeader :: "chain_db \<Rightarrow> hash \<Rightarrow> u64 \<Rightarrow> Header option" where
  "hc_GetHeader db hash number = ReadHeader db hash number"

definition hc_GetHeaderByHash :: "chain_db \<Rightarrow> hash \<Rightarrow> Header option" where
  "hc_GetHeaderByHash db hash =
    (case hc_GetBlockNumber db hash of None \<Rightarrow> None | Some n \<Rightarrow> hc_GetHeader db hash n)"

definition hc_GetHeaderByNumber :: "chain_db \<Rightarrow> u64 \<Rightarrow> Header option" where
  "hc_GetHeaderByNumber db number =
    (let hash = ReadCanonicalHash db number
     in if hash = 0 then None else hc_GetHeader db hash number)"

definition hc_GetCanonicalHash :: "chain_db \<Rightarrow> u64 \<Rightarrow> hash" where
  "hc_GetCanonicalHash db number = ReadCanonicalHash db number"

text \<open>The loop of \<^verbatim>\<open>GetAncestor\<close>; it returns the hash, the number and the remaining budget.  The second
  read of the canonical hash guards against a concurrent reorganisation and repeats the first here.\<close>

function GetAncestor_loop :: "chain_db \<Rightarrow> hash \<Rightarrow> u64 \<Rightarrow> u64 \<Rightarrow> u64 \<Rightarrow> hash \<times> u64 \<times> u64" where
  "GetAncestor_loop db hash number ancestor maxNonCanonical =
    (if ancestor = 0 then (hash, number, maxNonCanonical)
     else if ReadCanonicalHash db number = hash
     then (ReadCanonicalHash db (number - ancestor), number - ancestor, maxNonCanonical)
     else if maxNonCanonical = 0 then (0, 0, maxNonCanonical)
     else (case hc_GetHeader db hash number of
         None \<Rightarrow> (0, 0, maxNonCanonical - 1)
       | Some header \<Rightarrow>
           GetAncestor_loop db (h_ParentHash header) (number - 1) (ancestor - 1) (maxNonCanonical - 1)))"
  by pat_completeness auto
termination
proof (relation "measure (\<lambda>(db, hash, number, ancestor, m). unat ancestor)", goal_cases)
  case (2 db hash number ancestor m header)
  then show ?case using unat_minus_one [of ancestor] by (simp add: unat_gt_0)
qed simp

declare GetAncestor_loop.simps [simp del]

definition GetAncestor :: "chain_db \<Rightarrow> hash \<Rightarrow> u64 \<Rightarrow> u64 \<Rightarrow> u64 \<Rightarrow> hash \<times> u64 \<times> u64" where
  "GetAncestor db hash number ancestor maxNonCanonical =
    (if ancestor > number then (0, 0, maxNonCanonical)
     else if ancestor = 1 then
       (case hc_GetHeader db hash number of
          Some header \<Rightarrow> (h_ParentHash header, number - 1, maxNonCanonical)
        | None \<Rightarrow> (0, 0, maxNonCanonical))
     else GetAncestor_loop db hash number ancestor maxNonCanonical)"

subsection \<open>The interface the engine uses\<close>

record chain =
  ch_Config :: ChainConfig
  ch_GetHeader :: "hash \<Rightarrow> u64 \<Rightarrow> Header option"
  ch_GetHeaderByNumber :: "u64 \<Rightarrow> Header option"

definition hc_chain :: "ChainConfig \<Rightarrow> chain_db \<Rightarrow> chain" where
  "hc_chain config db = \<lparr>ch_Config = config, ch_GetHeader = hc_GetHeader db,
     ch_GetHeaderByNumber = hc_GetHeaderByNumber db\<rparr>"

text \<open>What a client of \<^verbatim>\<open>ChainHeaderReader\<close> relies on: a header read by number carries that number, its
  extra-data has a length a Go slice can have, and the genesis header is always there.\<close>

locale header_reader =
  fixes ok :: "'db \<Rightarrow> bool"
    and view :: "'db \<Rightarrow> chain"
  assumes get_number: "ok db \<Longrightarrow> ch_GetHeader (view db) x n = Some h \<Longrightarrow> header_number h = Some n"
    and get_extra: "ok db \<Longrightarrow> ch_GetHeader (view db) x n = Some h \<Longrightarrow> length (h_Extra h) < 2 ^ 63"
    and by_number: "ok db \<Longrightarrow> ch_GetHeaderByNumber (view db) n = Some h \<Longrightarrow> header_number h = Some n"
    and by_number_extra: "ok db \<Longrightarrow> ch_GetHeaderByNumber (view db) n = Some h \<Longrightarrow> length (h_Extra h) < 2 ^ 63"
    and genesis: "ok db \<Longrightarrow> \<exists>g. ch_GetHeaderByNumber (view db) 0 = Some g"

subsection \<open>The database invariant\<close>

text \<open>Headers are stored under their own number and hash; the canonical index points to stored headers and
  holds block zero.  A linked database moreover has its canonical index connected by parent hashes, and
  only block zero names the zero hash as parent.\<close>

definition header_fits :: "keccak \<Rightarrow> (u64 \<times> hash) \<times> Header \<Rightarrow> bool" where
  "header_fits kec e = (case e of ((number, hash), h) \<Rightarrow>
     header_number h = Some number \<and> header_Hash kec h = hash \<and> length (h_Extra h) < 2 ^ 63)"

definition db_ok :: "keccak \<Rightarrow> chain_db \<Rightarrow> bool" where
  "db_ok kec db \<longleftrightarrow>
    gm_ok (db_headers db) \<and> gm_ok (db_canonical db) \<and> (\<forall>e \<in> set (db_headers db). header_fits kec e) \<and>
    (\<forall>(n, x) \<in> set (db_canonical db). x \<noteq> 0 \<and> gm_get (db_headers db) (n, x) \<noteq> None) \<and>
    gm_get (db_canonical db) 0 \<noteq> None"

definition canon_linked :: "chain_db \<Rightarrow> bool" where
  "canon_linked db \<longleftrightarrow>
    (\<forall>n x h. n \<noteq> 0 \<longrightarrow> gm_get (db_canonical db) n = Some x \<longrightarrow> gm_get (db_headers db) (n, x) = Some h \<longrightarrow>
       gm_get (db_canonical db) (n - 1) = Some (h_ParentHash h)) \<and>
    (\<forall>n x h. n \<noteq> 0 \<longrightarrow> gm_get (db_headers db) (n, x) = Some h \<longrightarrow> h_ParentHash h \<noteq> 0)"

lemma header_number_CopyHeader: "header_number h = Some n \<Longrightarrow> header_number (CopyHeader h) = Some n"
  by (auto simp: header_number_def CopyHeader_def big_or_0_def)

lemma CopyHeader_sel [simp]:
  "h_Extra (CopyHeader h) = h_Extra h" "h_ParentHash (CopyHeader h) = h_ParentHash h"
  "h_Coinbase (CopyHeader h) = h_Coinbase h" "h_BaseFee (CopyHeader h) = h_BaseFee h"
  by (simp_all add: CopyHeader_def)

lemma hc_GetHeader_Some:
  assumes "db_ok kec db" "hc_GetHeader db x n = Some h"
  shows "header_number h = Some n" "length (h_Extra h) < 2 ^ 63"
proof -
  from assms(2) obtain h' where h': "gm_get (db_headers db) (n, x) = Some h'" "h = CopyHeader h'"
    by (auto simp: hc_GetHeader_def ReadHeader_def)
  then have "((n, x), h') \<in> set (db_headers db)" by (simp add: gm_get_in)
  then have "header_fits kec ((n, x), h')" using assms(1) by (simp add: db_ok_def)
  then show "header_number h = Some n" "length (h_Extra h) < 2 ^ 63"
    by (simp_all add: header_fits_def h'(2) header_number_CopyHeader)
qed

interpretation hc: header_reader "db_ok kec" "hc_chain config"
proof unfold_locales
  fix db x n h
  assume ok: "db_ok kec db"
  show "ch_GetHeader (hc_chain config db) x n = Some h \<Longrightarrow> header_number h = Some n"
    "ch_GetHeader (hc_chain config db) x n = Some h \<Longrightarrow> length (h_Extra h) < 2 ^ 63"
    using hc_GetHeader_Some [OF ok] by (simp_all add: hc_chain_def)
  show "ch_GetHeaderByNumber (hc_chain config db) n = Some h \<Longrightarrow> header_number h = Some n"
    "ch_GetHeaderByNumber (hc_chain config db) n = Some h \<Longrightarrow> length (h_Extra h) < 2 ^ 63"
    using hc_GetHeader_Some [OF ok]
    by (auto simp: hc_chain_def hc_GetHeaderByNumber_def Let_def split: if_splits)
  obtain x where "gm_get (db_canonical db) 0 = Some x" using ok by (auto simp: db_ok_def)
  moreover from this have "(0, x) \<in> set (db_canonical db)" by (rule gm_get_in)
  ultimately show "\<exists>g. ch_GetHeaderByNumber (hc_chain config db) 0 = Some g"
    using ok by (fastforce simp: db_ok_def hc_chain_def hc_GetHeaderByNumber_def ReadCanonicalHash_def
        hc_GetHeader_def ReadHeader_def Let_def)
qed


subsection \<open>Reading what was written\<close>

lemma WriteHeader_ok:
  assumes "db_ok kec db" "WriteHeader kec db h = Some db'" "length (h_Extra h) < 2 ^ 63"
  shows "db_ok kec db'"
proof -
  obtain n where n: "header_number h = Some n"
    "db' = db\<lparr>db_numbers := gm_set (db_numbers db) (header_Hash kec h) n,
             db_headers := gm_set (db_headers db) (n, header_Hash kec h) h\<rparr>"
    using assms(2) by (auto simp: WriteHeader_def WriteHeaderNumber_def Let_def split: option.splits)
  have "header_fits kec ((n, header_Hash kec h), h)" using n assms(3) by (simp add: header_fits_def)
  then have "\<forall>e \<in> set (db_headers db'). header_fits kec e"
    using assms(1) n set_gm_set [of "db_headers db" "(n, header_Hash kec h)" h] by (auto simp: db_ok_def)
  moreover have "\<forall>(m, x) \<in> set (db_canonical db). x \<noteq> 0 \<and> gm_get (db_headers db') (m, x) \<noteq> None"
    using assms(1) n(2) by (auto simp: db_ok_def)
  ultimately show ?thesis using assms(1) n(2) by (auto simp: db_ok_def)
qed

text \<open>A header written to the database is read back, by number and hash and by hash alone, as its normalised
  copy; every other header keeps its value, and the database invariant is kept.\<close>

theorem WriteHeader_read:
  assumes "db_ok kec db" "WriteHeader kec db h = Some db'" "length (h_Extra h) < 2 ^ 63"
  shows "\<exists>n. header_number h = Some n \<and> db_ok kec db' \<and>
    hc_GetHeader db' (header_Hash kec h) n = Some (CopyHeader h) \<and>
    hc_GetHeaderByHash db' (header_Hash kec h) = Some (CopyHeader h) \<and>
    (\<forall>x m. (m, x) \<noteq> (n, header_Hash kec h) \<longrightarrow> hc_GetHeader db' x m = hc_GetHeader db x m)"
proof -
  obtain n where n: "header_number h = Some n"
    "db' = db\<lparr>db_numbers := gm_set (db_numbers db) (header_Hash kec h) n,
             db_headers := gm_set (db_headers db) (n, header_Hash kec h) h\<rparr>"
    using assms(2) by (auto simp: WriteHeader_def WriteHeaderNumber_def Let_def split: option.splits)
  then show ?thesis
    using WriteHeader_ok [OF assms]
    by (auto simp: hc_GetHeader_def ReadHeader_def hc_GetHeaderByHash_def hc_GetBlockNumber_def ReadHeaderNumber_def)
qed

text \<open>A database with a genesis header only.\<close>

definition genesis_db :: "keccak \<Rightarrow> Header \<Rightarrow> chain_db" where
  "genesis_db kec g = empty_db\<lparr>db_headers := [((0, header_Hash kec g), g)],
     db_numbers := [(header_Hash kec g, 0)], db_canonical := [(0, header_Hash kec g)]\<rparr>"

definition demo_genesis :: Header where
  "demo_genesis = header0\<lparr>h_Number := Some 0, h_Difficulty := Some 1, h_GasLimit := 6000,
     h_Extra := replicate 32 0 @ concat (map address_bytes [3, 1, 2]) @ replicate 65 0\<rparr>"

definition demo_kec :: keccak where
  "demo_kec bs = of_nat (Suc (length bs))"

lemma demo_hash_nonzero:
  assumes "SanityCheck h = Inr ()" "header_nonneg h"
  shows "header_Hash demo_kec h \<noteq> 0"
proof -
  let ?c = "concat (map rlp_str (header_payloads h))"
  have "header_Hash demo_kec h = of_nat (Suc (length (rlp_lst ?c)))"
    using EncodeToBytes_header [OF assms] by (simp add: header_Hash_def rlpHash_def demo_kec_def)
  moreover have "unat (of_nat (Suc (length (rlp_lst ?c))) :: hash) = Suc (length (rlp_lst ?c))"
    unfolding unat_of_nat using header_strs_length [OF assms(1)] rlp_lst_length [of ?c] by (intro mod_less) simp
  ultimately show ?thesis by (metis Suc_neq_Zero unat_0)
qed

lemma demo_genesis_nonzero: "header_Hash demo_kec demo_genesis \<noteq> 0"
  by (rule demo_hash_nonzero)
    (simp_all add: SanityCheck_def demo_genesis_def header0_def big_IsUint64_def big_BitLen_def nat_BitLen.simps
      header_nonneg_def big_nonneg_def)

lemma demo_db_ok: "db_ok demo_kec (genesis_db demo_kec demo_genesis)"
proof -
  have "length (h_Extra demo_genesis) < 2 ^ 63" by (simp add: demo_genesis_def)
  moreover have "header_number demo_genesis = Some 0" by (simp add: header_number_def demo_genesis_def)
  ultimately show ?thesis
    using demo_genesis_nonzero by (simp add: db_ok_def genesis_db_def empty_db_def header_fits_def)
qed

subsection \<open>Ancestors\<close>

text \<open>The specification: following parent hashes one block at a time.\<close>

fun nth_ancestor :: "chain_db \<Rightarrow> hash \<Rightarrow> u64 \<Rightarrow> nat \<Rightarrow> (hash \<times> u64) option" where
  "nth_ancestor db hash number 0 = Some (hash, number)"
| "nth_ancestor db hash number (Suc k) =
     (case hc_GetHeader db hash number of
        None \<Rightarrow> None
      | Some h \<Rightarrow> nth_ancestor db (h_ParentHash h) (number - 1) k)"

lemma canonical_ancestor:
  assumes "db_ok kec db" "canon_linked db"
  shows "gm_get (db_canonical db) number = Some hash \<Longrightarrow> k \<le> unat number \<Longrightarrow>
    nth_ancestor db hash number k = Some (ReadCanonicalHash db (number - of_nat k), number - of_nat k)"
proof (induction k arbitrary: hash number)
  case 0
  then show ?case by (simp add: ReadCanonicalHash_def)
next
  case (Suc k)
  have "(number, hash) \<in> set (db_canonical db)" using Suc.prems(1) by (rule gm_get_in)
  then obtain h where h: "gm_get (db_headers db) (number, hash) = Some h"
    using assms(1) by (fastforce simp: db_ok_def)
  have n0: "number \<noteq> 0" using Suc.prems(2) by auto
  then have "gm_get (db_canonical db) (number - 1) = Some (h_ParentHash h)"
    using assms(2) Suc.prems(1) h by (auto simp: canon_linked_def)
  moreover have "k \<le> unat (number - 1)" using Suc.prems(2) unat_minus_one [OF n0] by simp
  ultimately have "nth_ancestor db (h_ParentHash h) (number - 1) k =
      Some (ReadCanonicalHash db (number - 1 - of_nat k), number - 1 - of_nat k)" by (rule Suc.IH)
  then show ?case using h by (simp add: hc_GetHeader_def ReadHeader_def algebra_simps)
qed

lemma GetAncestor_loop_sound:
  assumes "db_ok kec db" "canon_linked db"
  shows "ancestor \<le> number \<Longrightarrow> hash \<noteq> 0 \<Longrightarrow> GetAncestor_loop db hash number ancestor m = (x, n, m') \<Longrightarrow>
    (x, n) = (0, 0) \<or> nth_ancestor db hash number (unat ancestor) = Some (x, n)"
proof (induction "unat ancestor" arbitrary: hash number ancestor m)
  case 0
  then have "ancestor = 0" by (simp add: unat_eq_zero)
  then show ?case using 0 by (simp add: GetAncestor_loop.simps)
next
  case (Suc k)
  then have a0: "ancestor \<noteq> 0" by auto
  then have ak: "k = unat (ancestor - 1)" using Suc.hyps(2) unat_minus_one [OF a0] by simp
  have le: "unat ancestor \<le> unat number" using Suc.prems(1) by (simp add: word_le_nat_alt)
  consider (canon) "ReadCanonicalHash db number = hash" | (out) "ReadCanonicalHash db number \<noteq> hash" "m = 0"
    | (missing) "ReadCanonicalHash db number \<noteq> hash" "m \<noteq> 0" "hc_GetHeader db hash number = None"
    | (parent) h where "ReadCanonicalHash db number \<noteq> hash" "m \<noteq> 0" "hc_GetHeader db hash number = Some h"
    by (cases "hc_GetHeader db hash number") auto
  then show ?case
  proof cases
    case canon
    then have "gm_get (db_canonical db) number = Some hash"
      using Suc.prems(2) by (auto simp: ReadCanonicalHash_def split: option.splits)
    then have "nth_ancestor db hash number (unat ancestor) =
        Some (ReadCanonicalHash db (number - ancestor), number - ancestor)"
      using canonical_ancestor [OF assms _ le] by simp
    then show ?thesis using Suc.prems(3) a0 canon by (auto simp: GetAncestor_loop.simps)
  next
    case (parent h)
    have n0: "number \<noteq> 0" using le a0 Suc.hyps(2) by auto
    have l: "GetAncestor_loop db (h_ParentHash h) (number - 1) (ancestor - 1) (m - 1) = (x, n, m')"
      using Suc.prems(3) a0 parent by (simp add: GetAncestor_loop.simps [of db hash])
    obtain h' where "gm_get (db_headers db) (number, hash) = Some h'" "h_ParentHash h = h_ParentHash h'"
      using parent(3) by (auto simp: hc_GetHeader_def ReadHeader_def)
    then have "h_ParentHash h \<noteq> 0" using assms(2) n0 unfolding canon_linked_def by metis
    moreover have "ancestor - 1 \<le> number - 1"
      using le unat_minus_one [OF a0] unat_minus_one [OF n0] by (simp add: word_le_nat_alt)
    ultimately show ?thesis
      using Suc.hyps(1) [OF ak _ _ l] parent(3) Suc.hyps(2) [symmetric] ak by simp
  qed (use Suc.prems(3) a0 in \<open>simp_all add: GetAncestor_loop.simps [of db hash]\<close>)
qed

text \<open>\<^verbatim>\<open>GetAncestor\<close> terminates and is sound: whatever shortcut it takes through the canonical index, the block
  it returns is the one reached by following parent hashes, or it reports failure as the zero hash.\<close>

theorem GetAncestor_sound:
  assumes "db_ok kec db" "canon_linked db" "hash \<noteq> 0"
    and "GetAncestor db hash number ancestor m = (x, n, m')"
  shows "(x, n) = (0, 0) \<or> nth_ancestor db hash number (unat ancestor) = Some (x, n)"
  using assms(4) GetAncestor_loop_sound [OF assms(1,2) _ assms(3), of ancestor number m x n m']
  by (auto simp: GetAncestor_def not_less split: if_splits option.splits)

definition demo_child :: Header where
  "demo_child = header0\<lparr>h_Number := Some 1, h_ParentHash := header_Hash demo_kec demo_genesis\<rparr>"

theorem GetAncestor_sound_witness:
  "\<exists>db. WriteHeader demo_kec (genesis_db demo_kec demo_genesis) demo_child = Some db \<and>
     GetAncestor db (header_Hash demo_kec demo_child) 1 1 0 = (header_Hash demo_kec demo_genesis, 0, 0) \<and>
     nth_ancestor db (header_Hash demo_kec demo_child) 1 1 = Some (header_Hash demo_kec demo_genesis, 0)"
proof -
  let ?g = "header_Hash demo_kec demo_genesis" and ?c = "header_Hash demo_kec demo_child"
  have num: "header_number demo_child = Some 1" by (simp add: header_number_def demo_child_def big_Uint64_def)
  obtain db where w: "WriteHeader demo_kec (genesis_db demo_kec demo_genesis) demo_child = Some db"
    using num by (simp add: WriteHeader_def Let_def)
  then have db: "db_headers db = [((0, ?g), demo_genesis), ((1, ?c), demo_child)]" "db_canonical db = [(0, ?g)]"
    using num by (auto simp: WriteHeader_def WriteHeaderNumber_def genesis_db_def gm_set_def Let_def)
  have ok: "db_ok demo_kec db" by (rule WriteHeader_ok [OF demo_db_ok w]) (simp add: demo_child_def header0_def)
  have linked: "canon_linked db"
    using demo_genesis_nonzero by (auto simp: canon_linked_def db demo_child_def split: if_splits)
  have nz: "?c \<noteq> 0"
    by (rule demo_hash_nonzero)
      (simp_all add: SanityCheck_def demo_child_def header0_def big_IsUint64_def header_nonneg_def big_nonneg_def)
  have g: "GetAncestor db ?c 1 1 0 = (?g, 0, 0)"
    by (simp add: GetAncestor_def hc_GetHeader_def ReadHeader_def db) (simp add: demo_child_def)
  from GetAncestor_sound [OF ok linked nz g] w g demo_genesis_nonzero show ?thesis by auto
qed

theorem WriteHeader_read_witness:
  "\<exists>db'. WriteHeader demo_kec (genesis_db demo_kec demo_genesis) (header0\<lparr>h_Number := Some 1\<rparr>) = Some db' \<and>
     db_ok demo_kec db' \<and>
     hc_GetHeaderByHash db' (header_Hash demo_kec (header0\<lparr>h_Number := Some 1\<rparr>)) =
       Some (CopyHeader (header0\<lparr>h_Number := Some 1\<rparr>))"
proof -
  obtain db' where w: "WriteHeader demo_kec (genesis_db demo_kec demo_genesis) (header0\<lparr>h_Number := Some 1\<rparr>) = Some db'"
    by (simp add: WriteHeader_def header_number_def Let_def)
  have "length (h_Extra (header0\<lparr>h_Number := Some 1\<rparr>)) < 2 ^ 63" by (simp add: header0_def)
  from WriteHeader_read [OF demo_db_ok w this] w show ?thesis by blast
qed

end
