(* ===== verification/Snapshot.thy ===== *)
theory Snapshot
  imports Congress_Base Header_Chain
begin

text \<open>
  The authorisation snapshot (\<^verbatim>\<open>consensus/congress/snapshot.go\<close>): the validator set and the recent
  signers, the application of headers with the clean-up at epoch blocks, the ordered validator list
  and the in-turn rule.  Both Go maps are association lists; statements hold for every iteration
  order.
\<close>

subsection \<open>State\<close>

record Snapshot =
  snap_config :: CongressConfig
  snap_Number :: u64
  snap_Hash :: hash
  snap_Validators :: "(address, unit) gomap"
  snap_Recents :: "(u64, address) gomap"

definition add_validators :: "address list \<Rightarrow> (address, unit) gomap" where
  "add_validators vs = foldl (\<lambda>m v. gm_set m v ()) [] vs"

definition newSnapshot :: "CongressConfig \<Rightarrow> u64 \<Rightarrow> hash \<Rightarrow> address list \<Rightarrow> Snapshot" where
  "newSnapshot config number hash validators =
    \<lparr>snap_config = config, snap_Number = number, snap_Hash = hash,
     snap_Validators = add_validators validators, snap_Recents = []\<rparr>"

definition snap_copy :: "Snapshot \<Rightarrow> Snapshot" where
  "snap_copy s =
    \<lparr>snap_config = snap_config s, snap_Number = snap_Number s, snap_Hash = snap_Hash s,
     snap_Validators = foldl (\<lambda>m e. gm_set m (fst e) ()) [] (snap_Validators s),
     snap_Recents = foldl (\<lambda>m e. gm_set m (fst e) (snd e)) [] (snap_Recents s)\<rparr>"

subsection \<open>Clean-up of the recent signers at an epoch block\<close>

text \<open>The loop that deletes entries at or below \<open>number - newLimit\<close>.\<close>

definition clear_old :: "u64 \<Rightarrow> u64 \<Rightarrow> (u64, address) gomap \<Rightarrow> (u64, address) gomap" where
  "clear_old number newLimit recents =
    filter (\<lambda>(blockNum, _). \<not> (number \<ge> newLimit \<and> blockNum \<le> number - newLimit)) recents"

fun oldest_from :: "u64 \<Rightarrow> (u64, address) gomap \<Rightarrow> u64" where
  "oldest_from oldest [] = oldest"
| "oldest_from oldest ((blockNum, v) # es) = oldest_from (if blockNum < oldest then blockNum else oldest) es"

definition oldest_block :: "(u64, address) gomap \<Rightarrow> u64" where
  "oldest_block recents = oldest_from MaxUint64 recents"

lemma oldest_from_in: "oldest_from x es \<in> insert x (fst ` set es)"
  by (induction x es rule: oldest_from.induct) (auto split: if_splits)

lemma oldest_from_le: "oldest_from x es \<le> x \<and> (\<forall>e \<in> set es. oldest_from x es \<le> fst e)"
  by (induction x es rule: oldest_from.induct) (auto split: if_splits)

lemma oldest_block_in: "recents \<noteq> [] \<Longrightarrow> oldest_block recents \<in> fst ` set recents"
proof -
  assume "recents \<noteq> []"
  then obtain e where e: "e \<in> set recents" by (cases recents) auto
  then have "oldest_block recents \<le> fst e" using oldest_from_le by (auto simp: oldest_block_def)
  then have "oldest_block recents = MaxUint64 \<Longrightarrow> fst e = MaxUint64"
    using u64_le_Max [of "fst e"] by (simp add: order_antisym)
  then show ?thesis
    using oldest_from_in [of MaxUint64 recents] e by (force simp: oldest_block_def)
qed

text \<open>Deleting the oldest entry while more than \<open>target\<close> entries remain.  The expansion branch runs the loop
  while \<open>len >= newValidatorCount\<close>, where the count is positive because the set grows, so its target
  is the count minus one.\<close>

function clear_oldest :: "nat \<Rightarrow> (u64, address) gomap \<Rightarrow> (u64, address) gomap" where
  "clear_oldest target recents =
    (if length recents > target then clear_oldest target (gm_del recents (oldest_block recents))
     else recents)"
  by pat_completeness auto
termination
proof (relation "measure (\<lambda>(_, m). length m)", goal_cases)
  case (2 target recents)
  then have "oldest_block recents \<in> fst ` set recents" by (intro oldest_block_in) auto
  then have "length (gm_del recents (oldest_block recents)) < length recents"
    by (auto simp: gm_del_def intro!: length_filter_less)
  then show ?case by simp
qed simp

declare clear_oldest.simps [simp del]

definition cleanup_expand :: "u64 \<Rightarrow> nat \<Rightarrow> (u64, address) gomap \<Rightarrow> (u64, address) gomap" where
  "cleanup_expand number newCount recents =
    (let newLimit = of_nat (newCount div 2 + 1);
         recents1 = clear_old number newLimit recents
     in if length recents1 \<ge> newCount then clear_oldest (newCount - 1) recents1 else recents1)"

definition cleanup_reduce :: "u64 \<Rightarrow> nat \<Rightarrow> nat \<Rightarrow> (u64, address) gomap \<Rightarrow> (u64, address) gomap" where
  "cleanup_reduce number oldCount newCount recents =
    (let newLimit = of_nat (newCount div 2 + 1);
         oldLimit = of_nat (oldCount div 2 + 1);
         entriesToClear = oldCount div 2 - newCount div 2;
         recents1 = foldl (\<lambda>m i. gm_del m (number - oldLimit - of_nat i)) recents [0..<entriesToClear]
     in clear_old number newLimit recents1)"

definition cleanup_same ::
  "u64 \<Rightarrow> (address, unit) gomap \<Rightarrow> (address, unit) gomap \<Rightarrow> (u64, address) gomap \<Rightarrow> (u64, address) gomap" where
  "cleanup_same number oldValidators newValidators recents =
    (let newLimit = of_nat (length newValidators div 2 + 1);
         validatorsChanged = (\<exists>v \<in> set (gm_keys newValidators). gm_get oldValidators v = None);
         recents1 = (if validatorsChanged
                     then filter (\<lambda>(_, recentValidator). gm_get newValidators recentValidator \<noteq> None) recents
                     else recents)
     in clear_old number newLimit recents1)"

definition epoch_cleanup ::
  "u64 \<Rightarrow> (address, unit) gomap \<Rightarrow> (address, unit) gomap \<Rightarrow> (u64, address) gomap \<Rightarrow> (u64, address) gomap" where
  "epoch_cleanup number oldValidators newValidators recents =
    (let oldCount = length oldValidators; newCount = length newValidators;
         recents1 = (if newCount > oldCount then cleanup_expand number newCount recents
                     else if newCount < oldCount then cleanup_reduce number oldCount newCount recents
                     else cleanup_same number oldValidators newValidators recents)
     in if length recents1 \<ge> newCount then clear_oldest ((newCount * 2) div 3) recents1 else recents1)"

subsection \<open>Applying headers\<close>

text \<open>The validator list of a checkpoint header.  Go truncates the division towards zero and \<^verbatim>\<open>make\<close> panics on
  a negative length, that is when the extra-data is at least one address too short.\<close>

definition extra_validators :: "bytes \<Rightarrow> (congress_error, address list) result" where
  "extra_validators extra =
    (if length extra + AddressLength \<le> extraVanity + extraSeal then Inl Panic
     else Inr (map (\<lambda>i. BytesToAddress (take AddressLength (drop (extraVanity + i * AddressLength) extra)))
                 [0..<(length extra - extraVanity - extraSeal) div AddressLength]))"

definition recents_limit :: "(address, unit) gomap \<Rightarrow> u64" where
  "recents_limit validators = of_nat (length validators div 2 + 1)"

definition prune_recents :: "u64 \<Rightarrow> (address, unit) gomap \<Rightarrow> (u64, address) gomap \<Rightarrow> (u64, address) gomap" where
  "prune_recents number validators recents =
    (let limit = recents_limit validators
     in if number \<ge> limit then gm_del recents (number - limit) else recents)"

definition apply_header :: "crypto \<Rightarrow> Snapshot \<Rightarrow> Header \<Rightarrow> (congress_error, Snapshot) result" where
  "apply_header cr snap header =
    (case h_Number header of
       None \<Rightarrow> Inl Panic
     | Some n \<Rightarrow>
         (let number = big_Uint64 n;
              recents = prune_recents number (snap_Validators snap) (snap_Recents snap)
          in rbind (ecrecover cr header) (\<lambda>validator.
             if gm_get (snap_Validators snap) validator = None then Inl errUnauthorizedValidator
             else if validator \<in> snd ` set recents then Inl errRecentlySigned
             else
               (let recents1 = gm_set recents number validator;
                    snap1 = snap\<lparr>snap_Recents := recents1\<rparr>
                in if number > 0 \<and> Epoch (snap_config snap) = 0 then Inl Panic
                   else if number > 0 \<and> number mod Epoch (snap_config snap) = 0 then
                     rbind (extra_validators (h_Extra header)) (\<lambda>validators.
                       (let newValidators = add_validators validators
                        in Inr (snap1\<lparr>snap_Recents :=
                               epoch_cleanup number (snap_Validators snap) newValidators recents1,
                             snap_Validators := newValidators\<rparr>)))
                   else Inr snap1))))"

fun apply_headers :: "crypto \<Rightarrow> Snapshot \<Rightarrow> Header list \<Rightarrow> (congress_error, Snapshot) result" where
  "apply_headers cr snap [] = Inr snap"
| "apply_headers cr snap (header # headers) =
     rbind (apply_header cr snap header) (\<lambda>snap'. apply_headers cr snap' headers)"


fun contiguous :: "Header list \<Rightarrow> (congress_error, unit) result" where
  "contiguous (h1 # h2 # hs) =
     (case (header_number h1, header_number h2) of
        (Some n1, Some n2) \<Rightarrow> if n2 \<noteq> n1 + 1 then Inl errInvalidVotingChain else contiguous (h2 # hs)
      | _ \<Rightarrow> Inl Panic)"
| "contiguous hs = Inr ()"

definition snap_apply :: "crypto \<Rightarrow> Snapshot \<Rightarrow> Header list \<Rightarrow> (congress_error, Snapshot) result" where
  "snap_apply cr s headers =
    (if headers = [] then Inr s
     else rbind (contiguous headers) (\<lambda>_.
       (case header_number (hd headers) of
          None \<Rightarrow> Inl Panic
        | Some n \<Rightarrow>
            if n \<noteq> snap_Number s + 1 then Inl errInvalidVotingChain
            else rbind (apply_headers cr (snap_copy s) headers) (\<lambda>snap.
              Inr (snap\<lparr>snap_Number := snap_Number snap + of_nat (length headers),
                        snap_Hash := header_Hash (c_keccak cr) (last headers)\<rparr>)))))"

subsection \<open>Validator order and turns\<close>

text \<open>\<^verbatim>\<open>bytes.Compare\<close> on equal-length byte strings, and the sort of the map's keys by it.\<close>

fun bytes_less :: "bytes \<Rightarrow> bytes \<Rightarrow> bool" where
  "bytes_less (x # xs) (y # ys) = (x < y \<or> x = y \<and> bytes_less xs ys)"
| "bytes_less [] ys = (ys \<noteq> [])"
| "bytes_less xs [] = False"

fun insert_asc :: "address \<Rightarrow> address list \<Rightarrow> address list" where
  "insert_asc x [] = [x]"
| "insert_asc x (y # ys) =
     (if bytes_less (address_bytes y) (address_bytes x) then y # insert_asc x ys else x # y # ys)"

definition validators :: "Snapshot \<Rightarrow> address list" where
  "validators s = foldr insert_asc (gm_keys (snap_Validators s)) []"

fun offset_of :: "address list \<Rightarrow> address \<Rightarrow> nat" where
  "offset_of [] validator = 0"
| "offset_of (v # vs) validator = (if v \<noteq> validator then Suc (offset_of vs validator) else 0)"

text \<open>The remainder panics when the set is empty: \<open>None\<close>.\<close>

definition inturn :: "Snapshot \<Rightarrow> u64 \<Rightarrow> address \<Rightarrow> bool option" where
  "inturn s number validator =
    (let vs = validators s; offset = offset_of vs validator
     in if length vs = 0 then None
        else Some (number mod of_nat (length vs) = of_nat offset))"


subsection \<open>Copies\<close>

lemma foldl_gm_set_copy:
  "gm_ok (acc @ m) \<Longrightarrow> foldl (\<lambda>m e. gm_set m (fst e) (snd e)) acc m = acc @ m"
proof (induction m arbitrary: acc)
  case (Cons e m)
  have "gm_get acc (fst e) = None" "gm_ok acc"
    using Cons.prems by (auto simp: gm_ok_def gm_get_None_iff)
  then have "gm_set acc (fst e) (snd e) = acc @ [e]" using gm_ok_snoc by fastforce
  with Cons show ?case by simp
qed simp

lemma snap_copy_id:
  assumes "gm_ok (snap_Validators s)" "gm_ok (snap_Recents s)"
  shows "snap_copy s = s"
proof -
  have "(\<lambda>m e. gm_set m (fst e) ()) = (\<lambda>m (e :: address \<times> unit). gm_set m (fst e) (snd e))"
    by (intro ext) simp
  then show ?thesis
    using foldl_gm_set_copy [of "[]" "snap_Validators s"] foldl_gm_set_copy [of "[]" "snap_Recents s"] assms
    by (simp add: snap_copy_def)
qed

lemma gm_ok_add_validators [simp]: "gm_ok (add_validators vs)"
proof -
  have "gm_ok m \<Longrightarrow> gm_ok (foldl (\<lambda>m v. gm_set m v ()) m vs)" for m
    by (induction vs arbitrary: m) simp_all
  then show ?thesis by (simp add: add_validators_def)
qed

lemma gm_get_add_validators: "gm_get (add_validators vs) v = (if v \<in> set vs then Some () else None)"
proof -
  have "gm_get (foldl (\<lambda>m v. gm_set m v ()) m vs) v = (if v \<in> set vs then Some () else gm_get m v)" for m
    by (induction vs arbitrary: m) auto
  then show ?thesis by (simp add: add_validators_def)
qed

lemma keys_add_validators: "set (gm_keys (add_validators vs)) = set vs"
proof -
  have "v \<notin> set (gm_keys (add_validators vs)) \<longleftrightarrow> v \<notin> set vs" for v
    using gm_get_None_iff [of "add_validators vs" v] unfolding gm_get_add_validators by (simp add: gm_keys_def split: if_splits)
  then show ?thesis by blast
qed

lemma length_add_validators: "length (add_validators vs) = card (set vs)"
proof -
  have "distinct (gm_keys (add_validators vs))"
    using gm_ok_add_validators [of vs] by (simp add: gm_ok_def gm_keys_def)
  from distinct_card [OF this] show ?thesis by (simp add: keys_add_validators) (simp add: gm_keys_def)
qed

lemma length_add_validators_le: "length (add_validators vs) \<le> length vs"
  by (simp add: length_add_validators card_length)

subsection \<open>Clean-up only removes entries\<close>

definition sub_map :: "('k, 'v) gomap \<Rightarrow> ('k, 'v) gomap \<Rightarrow> bool" where
  "sub_map m' m \<longleftrightarrow> (\<exists>P. m' = filter P m)"

lemma sub_map_refl [simp]: "sub_map m m"
  unfolding sub_map_def by (rule exI [of _ "\<lambda>_. True"]) simp

lemma sub_map_filter [simp]: "sub_map (filter P m) m"
  unfolding sub_map_def by blast

lemma sub_map_del [simp]: "sub_map (gm_del m k) m"
  by (simp add: gm_del_def)

lemma sub_map_trans: "sub_map a b \<Longrightarrow> sub_map b c \<Longrightarrow> sub_map a c"
  unfolding sub_map_def by (auto simp: filter_filter)

lemma sub_map_ok: "sub_map a b \<Longrightarrow> gm_ok b \<Longrightarrow> gm_ok a"
  by (auto simp: sub_map_def)

lemma sub_map_distinct: "sub_map a b \<Longrightarrow> distinct (map snd b) \<Longrightarrow> distinct (map snd a)"
  by (auto simp: sub_map_def distinct_map_filter)

lemma sub_map_set: "sub_map a b \<Longrightarrow> set a \<subseteq> set b"
  by (auto simp: sub_map_def)

lemma sub_map_length: "sub_map a b \<Longrightarrow> length a \<le> length b"
  by (auto simp: sub_map_def)

lemma sub_map_clear_old: "sub_map (clear_old n l m) m"
  by (simp add: clear_old_def)

lemma sub_map_clear_oldest: "sub_map (clear_oldest t m) m"
proof (induction t m rule: clear_oldest.induct)
  case (1 t m)
  then show ?case by (subst clear_oldest.simps) (auto intro: sub_map_trans)
qed

lemma length_clear_oldest: "length (clear_oldest t m) \<le> t"
proof (induction t m rule: clear_oldest.induct)
  case (1 t m)
  then show ?case by (subst clear_oldest.simps) simp
qed

lemma sub_map_foldl_del: "sub_map (foldl (\<lambda>m i. gm_del m (f i)) m is) m"
  by (induction "is" arbitrary: m) (auto intro: sub_map_trans [OF _ sub_map_del])

lemma sub_map_prune: "sub_map (prune_recents n v m) m"
  by (simp add: prune_recents_def Let_def)

lemmas sub_map_intros = sub_map_refl sub_map_filter sub_map_del sub_map_clear_old sub_map_clear_oldest
  sub_map_foldl_del sub_map_prune

subsection \<open>The window of recent signers\<close>

text \<open>No signer appears twice, and every entry lies within the last \<open>n/2 + 1\<close> blocks.\<close>

definition in_window :: "u64 \<Rightarrow> nat \<Rightarrow> (u64, address) gomap \<Rightarrow> bool" where
  "in_window number n R \<longleftrightarrow>
     (\<forall>k \<in> fst ` set R. unat k \<le> unat number \<and> unat number < unat k + (n div 2 + 1))"

definition recents_ok :: "u64 \<Rightarrow> nat \<Rightarrow> (u64, address) gomap \<Rightarrow> bool" where
  "recents_ok number n R \<longleftrightarrow> gm_ok R \<and> distinct (map snd R) \<and> in_window number n R"

definition snap_ok :: "Snapshot \<Rightarrow> bool" where
  "snap_ok s \<longleftrightarrow> gm_ok (snap_Validators s) \<and> length (snap_Validators s) < 2 ^ 63 \<and>
     recents_ok (snap_Number s) (length (snap_Validators s)) (snap_Recents s)"

lemma in_window_sub: "sub_map a b \<Longrightarrow> in_window n l b \<Longrightarrow> in_window n l a"
  using sub_map_set by (fastforce simp: in_window_def)

lemma recents_ok_sub: "sub_map a b \<Longrightarrow> recents_ok n l b \<Longrightarrow> recents_ok n l a"
  by (simp add: recents_ok_def sub_map_ok sub_map_distinct in_window_sub)

lemma unat_limit: "n < 2 ^ 63 \<Longrightarrow> unat (of_nat (n div 2 + 1) :: u64) = n div 2 + 1"
  by (rule unat_of_nat_u64) simp

lemma clear_old_window:
  assumes "\<forall>k \<in> fst ` set R. unat k \<le> unat number" "n < 2 ^ 63"
  shows "in_window number n (clear_old number (of_nat (n div 2 + 1)) R)"
proof -
  let ?l = "of_nat (n div 2 + 1) :: u64"
  note ul = unat_limit [OF assms(2)]
  have "unat number < unat k + (n div 2 + 1)"
    if "\<not> (number \<ge> ?l \<and> k \<le> number - ?l)" for k
  proof (cases "?l \<le> number")
    case True
    then have "unat (number - ?l) = unat number - (n div 2 + 1)" using unat_sub [OF True] ul by simp
    moreover have "n div 2 + 1 \<le> unat number" using True ul by (simp only: word_le_nat_alt)
    moreover have "unat (number - ?l) < unat k" using that True by (simp add: word_le_nat_alt)
    ultimately show ?thesis by linarith
  next
    case False
    then have "unat number < n div 2 + 1" using ul by (simp only: word_le_nat_alt)
    then show ?thesis by linarith
  qed
  then show ?thesis using assms(1) by (auto simp: in_window_def clear_old_def)
qed

lemma epoch_cleanup_sub: "sub_map (epoch_cleanup number oldV newV R) R"
  unfolding epoch_cleanup_def cleanup_expand_def cleanup_reduce_def cleanup_same_def Let_def
  by (auto intro: sub_map_intros intro!: sub_map_trans [OF sub_map_clear_oldest] sub_map_trans [OF sub_map_clear_old])

lemma epoch_cleanup_window:
  assumes "\<forall>k \<in> fst ` set R. unat k \<le> unat number" "length newV < 2 ^ 63"
  shows "in_window number (length newV) (epoch_cleanup number oldV newV R)"
proof -
  have w: "in_window number (length newV) (clear_old number (of_nat (length newV div 2 + 1)) R')"
    if "sub_map R' R" for R'
    using assms sub_map_set [OF that] by (intro clear_old_window) auto
  have e: "in_window number (length newV) (cleanup_expand number (length newV) R)"
    unfolding cleanup_expand_def Let_def
    using w [of R] in_window_sub [OF sub_map_clear_oldest] by simp
  have r: "in_window number (length newV) (cleanup_reduce number (length oldV) (length newV) R)"
    unfolding cleanup_reduce_def Let_def by (intro w sub_map_foldl_del)
  have s: "in_window number (length newV) (cleanup_same number oldV newV R)"
    unfolding cleanup_same_def Let_def by (intro w) simp
  show ?thesis
    unfolding epoch_cleanup_def Let_def using e r s in_window_sub [OF sub_map_clear_oldest] by simp
qed

lemma epoch_cleanup_room:
  "length (epoch_cleanup number oldV newV R) < length newV \<or>
   newV = [] \<and> epoch_cleanup number oldV newV R = []"
proof -
  define R1 where "R1 = (if length newV > length oldV then cleanup_expand number (length newV) R
                     else if length newV < length oldV then cleanup_reduce number (length oldV) (length newV) R
                     else cleanup_same number oldV newV R)"
  have "epoch_cleanup number oldV newV R =
      (if length R1 \<ge> length newV then clear_oldest ((length newV * 2) div 3) R1 else R1)"
    by (simp add: epoch_cleanup_def R1_def Let_def)
  moreover have "length (clear_oldest ((length newV * 2) div 3) R1) \<le> (length newV * 2) div 3"
    by (rule length_clear_oldest)
  moreover have "newV \<noteq> [] \<Longrightarrow> (length newV * 2) div 3 < length newV" by (cases newV) auto
  ultimately show ?thesis by (cases "newV = []") (auto simp: not_le)
qed


subsection \<open>One header\<close>

lemma add_validators_bound: "length vs < 2 ^ 63 \<Longrightarrow> length (add_validators vs) < 2 ^ 63"
  using length_add_validators_le [of vs] by simp

lemma extra_validators_length:
  "extra_validators x = Inr vs \<Longrightarrow> length vs \<le> length x"
  using div_le_dividend [of "length x - 97" 20]
  by (auto simp: extra_validators_def congress_consts split: if_splits)

lemma prune_window:
  assumes "in_window N (length V) R" "unat N + 1 < 2 ^ 64" "length V < 2 ^ 63" "gm_ok R"
    and k: "k \<in> fst ` set (prune_recents (N + 1) V R)"
  shows "unat k \<le> unat N \<and> unat N + 1 < unat k + (length V div 2 + 1)"
proof -
  let ?l = "of_nat (length V div 2 + 1) :: u64"
  have N1: "unat (N + 1) = unat N + 1" using assms(2) unat_add_no_overflow [of N 1] by simp
  note ul = unat_limit [OF assms(3)]
  have kR: "k \<in> fst ` set R" using k sub_map_set [OF sub_map_prune] by fastforce
  then have w: "unat k \<le> unat N" "unat N < unat k + (length V div 2 + 1)"
    using assms(1) by (auto simp: in_window_def)
  show ?thesis
  proof (cases "?l \<le> N + 1")
    case True
    then have "k \<noteq> N + 1 - ?l" using k by (auto simp: prune_recents_def recents_limit_def gm_del_def)
    moreover have "unat (N + 1 - ?l) = unat N + 1 - (length V div 2 + 1)" using unat_sub [OF True] ul N1 by simp
    moreover have "length V div 2 + 1 \<le> unat N + 1" using True ul N1 by (simp only: word_le_nat_alt)
    ultimately have "unat k \<noteq> unat N + 1 - (length V div 2 + 1)" by (metis word_unat_eq_iff)
    with w \<open>length V div 2 + 1 \<le> unat N + 1\<close> show ?thesis by linarith
  next
    case False
    then have "unat N + 1 < length V div 2 + 1" using ul N1 by (simp only: word_le_nat_alt)
    then show ?thesis using w by linarith
  qed
qed

lemma prune_keys_fresh:
  assumes "in_window N (length V) R" "unat N + 1 < 2 ^ 64" "length V < 2 ^ 63" "gm_ok R"
  shows "gm_get (prune_recents (N + 1) V R) (N + 1) = None"
proof (rule ccontr)
  assume "gm_get (prune_recents (N + 1) V R) (N + 1) \<noteq> None"
  then have "N + 1 \<in> fst ` set (prune_recents (N + 1) V R)" by (simp add: gm_get_None_iff)
  from prune_window [OF assms this] have "unat (N + 1) \<le> unat N" by simp
  then show False using assms(2) unat_add_no_overflow [of N 1] by simp
qed

lemma recents_step:
  assumes "recents_ok N (length V) R" "unat N + 1 < 2 ^ 64" "length V < 2 ^ 63"
    and "v \<notin> snd ` set (prune_recents (N + 1) V R)"
  defines "R' \<equiv> gm_set (prune_recents (N + 1) V R) (N + 1) v"
  shows "recents_ok (N + 1) (length V) R'" "R' = prune_recents (N + 1) V R @ [(N + 1, v)]"
proof -
  let ?P = "prune_recents (N + 1) V R"
  have R: "gm_ok R" "distinct (map snd R)" "in_window N (length V) R" using assms(1) by (auto simp: recents_ok_def)
  have okP: "gm_ok ?P" "distinct (map snd ?P)" using R sub_map_ok sub_map_distinct sub_map_prune by blast+
  show R': "R' = ?P @ [(N + 1, v)]"
    unfolding R'_def by (intro gm_ok_snoc okP prune_keys_fresh R assms)
  have N1: "unat (N + 1) = unat N + 1" using assms(2) unat_add_no_overflow [of N 1] by simp
  have "in_window (N + 1) (length V) R'"
  proof -
    have "unat k \<le> unat (N + 1) \<and> unat (N + 1) < unat k + (length V div 2 + 1)" if "k \<in> fst ` set R'" for k
    proof -
      have "k \<in> fst ` set ?P \<or> k = N + 1" using that unfolding R' by auto
      then show ?thesis using prune_window [OF R(3) assms(2,3) R(1), of k] N1 by (elim disjE) simp_all
    qed
    then show ?thesis by (simp add: in_window_def)
  qed
  moreover have "gm_ok R'" using okP by (simp add: R'_def)
  moreover have "distinct (map snd R')" using okP assms(4) by (auto simp: R')
  ultimately show "recents_ok (N + 1) (length V) R'" by (simp add: recents_ok_def)
qed

lemma apply_header_cases:
  assumes "apply_header cr s h = Inr s'" "header_number h = Some number"
  obtains (plain) v where "ecrecover cr h = Inr v" "gm_get (snap_Validators s) v \<noteq> None"
      "v \<notin> snd ` set (prune_recents number (snap_Validators s) (snap_Recents s))"
      "number = 0 \<or> number mod Epoch (snap_config s) \<noteq> 0"
      "s' = s\<lparr>snap_Recents := gm_set (prune_recents number (snap_Validators s) (snap_Recents s)) number v\<rparr>"
  | (epoch) v vs where "ecrecover cr h = Inr v" "gm_get (snap_Validators s) v \<noteq> None"
      "v \<notin> snd ` set (prune_recents number (snap_Validators s) (snap_Recents s))"
      "number > 0" "number mod Epoch (snap_config s) = 0" "extra_validators (h_Extra h) = Inr vs"
      "s' = s\<lparr>snap_Recents := epoch_cleanup number (snap_Validators s) (add_validators vs)
                (gm_set (prune_recents number (snap_Validators s) (snap_Recents s)) number v),
             snap_Validators := add_validators vs\<rparr>"
proof -
  from assms(2) obtain n where n: "h_Number h = Some n" "number = big_Uint64 n"
    by (auto simp: header_number_def)
  show ?thesis
    using assms(1) n that
    by (auto simp: apply_header_def Let_def rbind_Inr_iff word_neq_0_conv [symmetric] split: if_splits)
qed

lemma apply_header_fixed:
  "apply_header cr s h = Inr s' \<Longrightarrow>
   snap_Number s' = snap_Number s \<and> snap_Hash s' = snap_Hash s \<and> snap_config s' = snap_config s"
  by (auto simp: apply_header_def Let_def rbind_Inr_iff split: if_splits option.splits)

text \<open>The invariant of a snapshot that stands at block \<open>N\<close>.\<close>

lemma apply_header_ok:
  assumes "gm_ok (snap_Validators s)" "length (snap_Validators s) < 2 ^ 63"
    and "recents_ok N (length (snap_Validators s)) (snap_Recents s)"
    and "unat N + 1 < 2 ^ 64" "header_number h = Some (N + 1)" "length (h_Extra h) < 2 ^ 63"
    and "apply_header cr s h = Inr s'"
  shows "gm_ok (snap_Validators s')" "length (snap_Validators s') < 2 ^ 63"
    "recents_ok (N + 1) (length (snap_Validators s')) (snap_Recents s')"
proof -
  have "gm_ok (snap_Validators s') \<and> length (snap_Validators s') < 2 ^ 63 \<and>
    recents_ok (N + 1) (length (snap_Validators s')) (snap_Recents s')"
    using assms(7,5)
  proof (cases rule: apply_header_cases)
    case (plain v)
    then show ?thesis using assms recents_step(1) [OF assms(3,4,2) plain(3)] by simp
  next
    case (epoch v vs)
    let ?R = "gm_set (prune_recents (N + 1) (snap_Validators s) (snap_Recents s)) (N + 1) v"
    note r = recents_step(1) [OF assms(3,4,2) epoch(3)]
    have len: "length (add_validators vs) < 2 ^ 63"
      using extra_validators_length [OF epoch(6)] length_add_validators_le [of vs] assms(6) by linarith
    have "\<forall>k \<in> fst ` set ?R. unat k \<le> unat (N + 1)" using r by (auto simp: recents_ok_def in_window_def)
    from epoch_cleanup_window [OF this len] r len epoch(7) show ?thesis
      by (auto simp: recents_ok_def intro: sub_map_ok [OF epoch_cleanup_sub] sub_map_distinct [OF epoch_cleanup_sub])
  qed
  then show "gm_ok (snap_Validators s')" "length (snap_Validators s') < 2 ^ 63"
    "recents_ok (N + 1) (length (snap_Validators s')) (snap_Recents s')" by auto
qed


subsection \<open>Header batches\<close>

text \<open>Headers numbered consecutively after block \<open>N\<close>.\<close>

fun chain_from :: "u64 \<Rightarrow> Header list \<Rightarrow> bool" where
  "chain_from N [] = True"
| "chain_from N (h # hs) \<longleftrightarrow> header_number h = Some (N + 1) \<and> chain_from (N + 1) hs"

lemma contiguous_chain:
  "header_number h = Some (N + 1) \<Longrightarrow> contiguous (h # hs) = Inr () \<longleftrightarrow> chain_from N (h # hs)"
proof (induction hs arbitrary: h N)
  case (Cons g hs)
  show ?case
  proof (cases "header_number g")
    case (Some m)
    then show ?thesis using Cons.IH [of g "N + 1"] Cons.prems by auto
  qed (use Cons.prems in simp)
qed simp

lemma snap_apply_Inr:
  "snap_apply cr s hs = Inr t \<longleftrightarrow>
   (if hs = [] then t = s
    else chain_from (snap_Number s) hs \<and> (\<exists>u. apply_headers cr (snap_copy s) hs = Inr u \<and>
      t = u\<lparr>snap_Number := snap_Number u + of_nat (length hs), snap_Hash := header_Hash (c_keccak cr) (last hs)\<rparr>))"
proof (cases hs)
  case (Cons h hs')
  have "contiguous hs = Inr () \<and> header_number h = Some (snap_Number s + 1) \<longleftrightarrow> chain_from (snap_Number s) hs"
    using contiguous_chain [of h "snap_Number s" hs'] Cons by auto
  then show ?thesis
    using Cons by (auto simp: snap_apply_def rbind_Inr_iff split: option.splits if_splits)
qed (auto simp: snap_apply_def)

lemma chain_from_append:
  "chain_from N (xs @ ys) \<longleftrightarrow> chain_from N xs \<and> chain_from (N + of_nat (length xs)) ys"
  by (induction xs arbitrary: N) (auto simp: add.assoc)

lemma apply_headers_append:
  "apply_headers cr s (xs @ ys) = rbind (apply_headers cr s xs) (\<lambda>u. apply_headers cr u ys)"
proof (induction xs arbitrary: s)
  case (Cons x xs)
  then show ?case by (cases "apply_header cr s x") simp_all
qed simp

lemma apply_headers_ok:
  assumes "gm_ok (snap_Validators s)" "length (snap_Validators s) < 2 ^ 63"
    and "recents_ok N (length (snap_Validators s)) (snap_Recents s)"
    and "unat N + length hs < 2 ^ 64" "chain_from N hs" "\<forall>h \<in> set hs. length (h_Extra h) < 2 ^ 63"
    and "apply_headers cr s hs = Inr t"
  shows "gm_ok (snap_Validators t) \<and> length (snap_Validators t) < 2 ^ 63 \<and>
    recents_ok (N + of_nat (length hs)) (length (snap_Validators t)) (snap_Recents t) \<and>
    snap_Number t = snap_Number s \<and> snap_config t = snap_config s"
  using assms
proof (induction hs arbitrary: s N)
  case (Cons h hs)
  from Cons.prems(7) obtain u where u: "apply_header cr s h = Inr u" "apply_headers cr u hs = Inr t"
    by (auto simp: rbind_Inr_iff)
  have N1: "unat (N + 1) = unat N + 1" using Cons.prems(4) unat_add_no_overflow [of N 1] by simp
  have n: "unat N + 1 < 2 ^ 64" "header_number h = Some (N + 1)" "length (h_Extra h) < 2 ^ 63"
    using Cons.prems by simp_all
  note ok = apply_header_ok [OF Cons.prems(1-3) n u(1)]
  have "unat (N + 1) + length hs < 2 ^ 64" "chain_from (N + 1) hs" "\<forall>h \<in> set hs. length (h_Extra h) < 2 ^ 63"
    using Cons.prems N1 by simp_all
  from Cons.IH [OF ok this u(2)] apply_header_fixed [OF u(1)] show ?case by (simp add: add.assoc)
qed simp

lemma snap_ok_apply:
  assumes "snap_ok s" "unat (snap_Number s) + length hs < 2 ^ 64"
    and "\<forall>h \<in> set hs. length (h_Extra h) < 2 ^ 63" "snap_apply cr s hs = Inr t"
  shows "snap_ok t \<and> snap_Number t = snap_Number s + of_nat (length hs) \<and> snap_config t = snap_config s"
proof (cases "hs = []")
  case False
  have c: "snap_copy s = s" using assms(1) by (intro snap_copy_id) (auto simp: snap_ok_def recents_ok_def)
  from assms(4) False obtain u where u: "chain_from (snap_Number s) hs" "apply_headers cr s hs = Inr u"
    "t = u\<lparr>snap_Number := snap_Number u + of_nat (length hs), snap_Hash := header_Hash (c_keccak cr) (last hs)\<rparr>"
    unfolding snap_apply_Inr c by auto
  from assms(1) have s: "gm_ok (snap_Validators s)" "length (snap_Validators s) < 2 ^ 63"
    "recents_ok (snap_Number s) (length (snap_Validators s)) (snap_Recents s)" by (auto simp: snap_ok_def)
  from apply_headers_ok [OF s assms(2) u(1) assms(3) u(2)] u(3) show ?thesis by (simp add: snap_ok_def)
qed (use assms in \<open>simp add: snap_apply_def\<close>)

lemma apply_header_irrelevant:
  "apply_header cr (s\<lparr>snap_Number := n, snap_Hash := x\<rparr>) h =
   rbind (apply_header cr s h) (\<lambda>u. Inr (u\<lparr>snap_Number := n, snap_Hash := x\<rparr>))"
  by (auto simp: apply_header_def Let_def rbind_def split: option.splits sum.splits)

lemma apply_headers_irrelevant:
  "apply_headers cr (s\<lparr>snap_Number := n, snap_Hash := x\<rparr>) hs =
   rbind (apply_headers cr s hs) (\<lambda>u. Inr (u\<lparr>snap_Number := n, snap_Hash := x\<rparr>))"
proof (induction hs arbitrary: s)
  case (Cons h hs)
  then show ?case by (cases "apply_header cr s h") (simp_all add: apply_header_irrelevant)
qed simp

subsection \<open>Reachable snapshots\<close>

text \<open>The snapshots a node can hold: a fresh one at a trusted block, or the result of applying a batch of
  headers that the 64-bit block counter can number.\<close>

inductive reachable :: "crypto \<Rightarrow> Snapshot \<Rightarrow> bool" for cr where
  start: "length vs < 2 ^ 63 \<Longrightarrow> reachable cr (newSnapshot cfg number x vs)"
| advance: "reachable cr s \<Longrightarrow> snap_apply cr s hs = Inr t \<Longrightarrow> unat (snap_Number s) + length hs < 2 ^ 64 \<Longrightarrow>
    \<forall>h \<in> set hs. length (h_Extra h) < 2 ^ 63 \<Longrightarrow> reachable cr t"

lemma reachable_ok: "reachable cr s \<Longrightarrow> snap_ok s"
proof (induction rule: reachable.induct)
  case (start vs cfg number x)
  then show ?case
    using add_validators_bound [of vs] by (simp add: snap_ok_def newSnapshot_def recents_ok_def in_window_def)
next
  case (advance s hs t)
  then show ?case using snap_ok_apply by blast
qed

text \<open>The recent signers of a reachable snapshot never hold a validator twice, lie in the last
  \<open>n/2 + 1\<close> blocks, and hence number at most \<open>n/2 + 1\<close>.\<close>

lemma card_window:
  assumes "gm_ok R" "\<forall>k \<in> fst ` set R. unat k \<le> (b :: nat) \<and> b < unat k + m"
  shows "length R \<le> m"
proof -
  have "length R = card (fst ` set R)"
    using assms(1) distinct_card [of "map fst R"] by (simp add: gm_ok_def)
  also have "\<dots> = card (unat ` fst ` set R)" by (intro card_image [symmetric] inj_onI) (simp add: word_unat_eq_iff)
  also have "\<dots> \<le> card {b + 1 - m..b}"
    using assms(2) by (intro card_mono) fastforce+
  also have "\<dots> \<le> m" by simp
  finally show ?thesis .
qed

lemma pruned_length:
  assumes "snap_ok s" "unat (snap_Number s) + 1 < 2 ^ 64"
  shows "length (prune_recents (snap_Number s + 1) (snap_Validators s) (snap_Recents s))
    \<le> length (snap_Validators s) div 2"
proof -
  have R: "gm_ok (snap_Recents s)" "in_window (snap_Number s) (length (snap_Validators s)) (snap_Recents s)"
    "length (snap_Validators s) < 2 ^ 63"
    using assms(1) by (auto simp: snap_ok_def recents_ok_def)
  show ?thesis
    using prune_window [OF R(2) assms(2) R(3) R(1)] sub_map_ok [OF sub_map_prune R(1)]
    by (intro card_window [where b = "unat (snap_Number s)"]) (auto simp: less_eq_Suc_le)
qed


text \<open>C7. In every reachable snapshot the recent signers are pairwise different, their blocks lie within the
  last \<open>n/2 + 1\<close> blocks (for \<open>n\<close> validators), and there are at most that many of them; the validator
  map has no duplicates.\<close>

theorem reachable_recents:
  assumes "reachable cr s"
  shows "distinct (map fst (snap_Validators s)) \<and> distinct (map snd (snap_Recents s)) \<and>
    length (snap_Recents s) \<le> length (snap_Validators s) div 2 + 1 \<and>
    (\<forall>(block, v) \<in> set (snap_Recents s). unat block \<le> unat (snap_Number s) \<and>
       unat (snap_Number s) < unat block + (length (snap_Validators s) div 2 + 1))"
proof -
  from reachable_ok [OF assms] have s: "snap_ok s" .
  then have w: "gm_ok (snap_Recents s)"
    "\<forall>k \<in> fst ` set (snap_Recents s). unat k \<le> unat (snap_Number s) \<and>
       unat (snap_Number s) < unat k + (length (snap_Validators s) div 2 + 1)"
    by (auto simp: snap_ok_def recents_ok_def in_window_def)
  from card_window [OF this] have "length (snap_Recents s) \<le> length (snap_Validators s) div 2 + 1" .
  with s w(2) show ?thesis by (auto simp: snap_ok_def recents_ok_def gm_ok_def)
qed

definition demo_config :: CongressConfig where
  "demo_config = \<lparr>Period = 1, Epoch = 50, EnableDevVerification = False\<rparr>"

definition demo_snapshot :: Snapshot where
  "demo_snapshot = newSnapshot demo_config 7 0 [3, 1, 2]"

lemma demo_reachable: "reachable cr demo_snapshot"
  unfolding demo_snapshot_def by (rule reachable.start) simp

theorem reachable_recents_witness:
  "distinct (map fst (snap_Validators demo_snapshot)) \<and> length (snap_Validators demo_snapshot) = 3"
  using reachable_recents [OF demo_reachable]
  by (simp add: demo_snapshot_def newSnapshot_def length_add_validators)

subsection \<open>Progress\<close>

lemma eligible_card:
  assumes "gm_ok V"
  shows "length V - length P \<le> card {v. gm_get V v \<noteq> None \<and> v \<notin> snd ` set P}"
proof -
  have e: "dom (gm_get V) - snd ` set P = {v. gm_get V v \<noteq> None \<and> v \<notin> snd ` set P}" by auto
  have "length V = card (dom (gm_get V))" using assms by (rule gm_len_card)
  moreover have "card (snd ` set P) \<le> length P"
    using card_length [of "map snd P"] by simp
  moreover have "card (dom (gm_get V)) - card (snd ` set P) \<le> card (dom (gm_get V) - snd ` set P)"
    by (rule diff_card_le_card_Diff) simp
  ultimately show ?thesis unfolding e [symmetric] by linarith
qed

lemma apply_header_accepts:
  assumes "gm_get (snap_Validators s) v \<noteq> None" "header_number h = Some n" "ecrecover cr h = Inr v"
    and "v \<notin> snd ` set (prune_recents n (snap_Validators s) (snap_Recents s))"
    and "extra_validators (h_Extra h) \<noteq> Inl Panic" "Epoch (snap_config s) \<noteq> 0"
  shows "\<exists>u. apply_header cr s h = Inr u"
proof -
  obtain vs where "extra_validators (h_Extra h) = Inr vs"
    using assms(5) by (auto simp: extra_validators_def split: if_splits)
  then show ?thesis using assms by (auto simp: apply_header_def header_number_def Let_def)
qed

text \<open>C3. The validator set can always make progress: at a reachable snapshot with \<open>n > 0\<close> validators, at least
  \<open>n - n/2\<close> of them may sign the next block, that is, every header of that number they sign is applied
  (an epoch header provided its validator list is well-formed).\<close>

theorem reachable_can_advance:
  assumes "reachable cr s" "unat (snap_Number s) + 1 < 2 ^ 64" "Epoch (snap_config s) \<noteq> 0"
  shows "length (snap_Validators s) - length (snap_Validators s) div 2 \<le>
    card {v. gm_get (snap_Validators s) v \<noteq> None \<and>
      (\<forall>h. header_number h = Some (snap_Number s + 1) \<and> ecrecover cr h = Inr v \<and>
         extra_validators (h_Extra h) \<noteq> Inl Panic \<longrightarrow> (\<exists>t. snap_apply cr s [h] = Inr t))}"
    (is "_ \<le> card ?E")
proof -
  let ?V = "snap_Validators s" and ?N = "snap_Number s + 1"
  let ?P = "prune_recents ?N ?V (snap_Recents s)"
  have s: "snap_ok s" using reachable_ok [OF assms(1)] .
  then have c: "snap_copy s = s" by (intro snap_copy_id) (auto simp: snap_ok_def recents_ok_def)
  have "{v. gm_get ?V v \<noteq> None \<and> v \<notin> snd ` set ?P} \<subseteq> ?E"
  proof
    fix v
    assume "v \<in> {v. gm_get ?V v \<noteq> None \<and> v \<notin> snd ` set ?P}"
    then have v: "gm_get ?V v \<noteq> None" "v \<notin> snd ` set ?P" by auto
    have "\<exists>t. snap_apply cr s [h] = Inr t"
      if "header_number h = Some ?N" "ecrecover cr h = Inr v" "extra_validators (h_Extra h) \<noteq> Inl Panic" for h
      using apply_header_accepts [OF v(1) that(1,2) v(2) that(3) assms(3)] that(1) by (auto simp: snap_apply_Inr c)
    then show "v \<in> ?E" using v(1) by blast
  qed
  moreover have "finite ?E" by (rule finite_subset [OF _ gm.finite_dom [of ?V]]) auto
  moreover have "gm_ok ?V" using s by (simp add: snap_ok_def)
  ultimately have "length ?V - length ?P \<le> card ?E"
    using eligible_card [of ?V ?P] card_mono [of ?E] by (meson le_trans)
  then show ?thesis using pruned_length [OF s assms(2)] by linarith
qed

theorem reachable_can_advance_witness:
  "2 \<le> card {v. gm_get (snap_Validators demo_snapshot) v \<noteq> None \<and>
      (\<forall>h. header_number h = Some 8 \<and> ecrecover demo_crypto h = Inr v \<and>
         extra_validators (h_Extra h) \<noteq> Inl Panic \<longrightarrow> (\<exists>t. snap_apply demo_crypto demo_snapshot [h] = Inr t))}"
proof -
  have d: "length (snap_Validators demo_snapshot) = 3" "snap_Number demo_snapshot = 7"
    "Epoch (snap_config demo_snapshot) = 50"
    by (simp_all add: demo_snapshot_def newSnapshot_def length_add_validators demo_config_def)
  show ?thesis using reachable_can_advance [OF demo_reachable, of demo_crypto] unfolding d by simp
qed


subsection \<open>Batches\<close>

lemma snap_apply_Nil [simp]: "snap_apply cr s [] = Inr s"
  by (simp add: snap_apply_def)

definition stamp :: "crypto \<Rightarrow> u64 \<Rightarrow> Header list \<Rightarrow> Snapshot \<Rightarrow> Snapshot" where
  "stamp cr n hs u = u\<lparr>snap_Number := n + of_nat (length hs), snap_Hash := header_Hash (c_keccak cr) (last hs)\<rparr>"

lemma snap_apply_stamp:
  assumes "snap_ok s" "unat (snap_Number s) + length hs < 2 ^ 64" "\<forall>h \<in> set hs. length (h_Extra h) < 2 ^ 63"
    and "hs \<noteq> []"
  shows "snap_apply cr s hs = Inr t \<longleftrightarrow> chain_from (snap_Number s) hs \<and>
    (\<exists>u. apply_headers cr s hs = Inr u \<and> t = stamp cr (snap_Number s) hs u)"
proof -
  have c: "snap_copy s = s" using assms(1) by (intro snap_copy_id) (auto simp: snap_ok_def recents_ok_def)
  have "snap_Number u = snap_Number s" if "apply_headers cr s hs = Inr u" "chain_from (snap_Number s) hs" for u
    using apply_headers_ok [OF _ _ _ _ that(2) _ that(1)] assms(1-3) by (simp add: snap_ok_def)
  then show ?thesis using assms(4) by (auto simp: snap_apply_Inr c stamp_def)
qed

lemma apply_headers_stamp:
  "apply_headers cr (stamp cr n xs w) ys = rbind (apply_headers cr w ys) (\<lambda>v. Inr (stamp cr n xs v))"
  unfolding stamp_def by (rule apply_headers_irrelevant)

lemma stamp_stamp:
  "ys \<noteq> [] \<Longrightarrow> stamp cr (n + of_nat (length xs)) ys (stamp cr n xs v) = stamp cr n (xs @ ys) v"
  by (simp add: stamp_def add.assoc)

text \<open>The snapshot does not depend on how headers are batched: applying a list in one call gives a result
  exactly when applying a prefix and then the rest does, and it is the same snapshot.  The engine relies on
  this when it continues from whichever cached or stored snapshot it finds.\<close>

theorem snap_apply_append:
  assumes "reachable cr s" "unat (snap_Number s) + length (xs @ ys) < 2 ^ 64"
    and "\<forall>h \<in> set (xs @ ys). length (h_Extra h) < 2 ^ 63"
  shows "snap_apply cr s (xs @ ys) = Inr t \<longleftrightarrow>
    (\<exists>u. snap_apply cr s xs = Inr u \<and> snap_apply cr u ys = Inr t)"
proof (cases "xs = [] \<or> ys = []")
  case True
  then show ?thesis by (elim disjE) simp_all
next
  case False
  let ?N = "snap_Number s" and ?M = "snap_Number s + of_nat (length xs)"
  have s: "snap_ok s" using reachable_ok [OF assms(1)] .
  have all: "snap_apply cr s (xs @ ys) = Inr t \<longleftrightarrow> chain_from ?N (xs @ ys) \<and>
      (\<exists>w v. apply_headers cr s xs = Inr w \<and> apply_headers cr w ys = Inr v \<and> t = stamp cr ?N (xs @ ys) v)"
    using False snap_apply_stamp [OF s assms(2,3)] by (auto simp: apply_headers_append rbind_Inr_iff)
  have first: "snap_apply cr s xs = Inr u \<longleftrightarrow>
      chain_from ?N xs \<and> (\<exists>w. apply_headers cr s xs = Inr w \<and> u = stamp cr ?N xs w)" for u
    using False snap_apply_stamp [OF s, of xs cr u] assms(2,3) by auto
  have second: "snap_apply cr u ys = Inr t \<longleftrightarrow> chain_from ?M ys \<and>
      (\<exists>v. apply_headers cr w ys = Inr v \<and> t = stamp cr ?N (xs @ ys) v)"
    if "snap_apply cr s xs = Inr u" "u = stamp cr ?N xs w" for u w
  proof -
    have u: "snap_ok u" "snap_Number u = ?M" using snap_ok_apply [OF s _ _ that(1)] assms(2,3) by simp_all
    have "unat ?M = unat ?N + length xs" using unat_add_no_overflow [of ?N "of_nat (length xs)"] assms(2)
      by (simp add: unat_of_nat_u64)
    then show ?thesis
      using snap_apply_stamp [OF u(1), of ys cr t] False assms(2,3) that(2) u(2)
      by (auto simp: apply_headers_stamp stamp_stamp rbind_Inr_iff)
  qed
  show ?thesis
    unfolding all chain_from_append using first second by blast
qed


text \<open>A header signed, under the example environment, by the address that the signature's last byte spells.\<close>

definition demo_header :: "int \<Rightarrow> byte \<Rightarrow> Header" where
  "demo_header n v = header0\<lparr>h_Number := Some n, h_Extra := replicate 96 0 @ [v]\<rparr>"

lemma be_nat_replicate_0 [simp]: "be_nat (replicate k 0) = 0"
  by (induction k) (simp_all add: be_nat_Cons)

lemma be_nat_zeros: "be_nat (replicate k 0 @ bs) = be_nat bs"
  by (simp add: be_nat_append)

lemma demo_ecrecover_extra:
  assumes "SanityCheck h = Inr ()" "header_nonneg h" "h_Extra h = replicate 96 0 @ [v]"
  shows "ecrecover demo_crypto h = Inr (ucast v)"
proof -
  have l: "length (h_Extra h) = 97" using assms(3) by simp
  with assms obtain bs where sh: "encodeSigHeader h = Inr bs" by (simp add: encodeSigHeader_eq extraSeal_def)
  have sig: "drop 32 (h_Extra h) = replicate 64 0 @ [v]" using assms(3) by simp
  have low: "be_nat (drop 12 (hash_bytes (of_nat (unat v)))) = unat v"
  proof -
    have "hash_bytes (of_nat (unat v)) = be_bytes 32 (unat v)"
    proof -
      have "unat (of_nat (unat v) :: hash) = unat v"         unfolding unat_of_nat by (rule mod_less) (rule less_trans [OF unat_byte_less], simp)
      then show ?thesis by (simp only: hash_bytes_def)
    qed
    moreover have "be_bytes 32 (unat v) = replicate 31 0 @ [v]"
    proof -
      have "be_bytes (length (replicate 31 0 @ [v])) (be_nat (replicate 31 0 @ [v])) = replicate 31 0 @ [v]"
        by (rule be_bytes_be_nat)
      then show ?thesis by (simp add: be_nat_zeros)
    qed
    ultimately have "drop 12 (hash_bytes (of_nat (unat v))) = replicate 19 0 @ [v]" by simp
    then show ?thesis by (simp only: be_nat_zeros be_nat_single)
  qed
  show ?thesis
    using l sh sig low
    by (simp add: ecrecover_def demo_crypto_def SealHash_def extraSeal_def be_nat_zeros BytesToAddress_def)
qed

lemma demo_ecrecover: "0 \<le> n \<Longrightarrow> n < 2 ^ 64 \<Longrightarrow> ecrecover demo_crypto (demo_header n v) = Inr (ucast v)"
  by (rule demo_ecrecover_extra)
    (simp_all add: SanityCheck_def demo_header_def header0_def big_IsUint64_def header_nonneg_def big_nonneg_def)

lemma demo_apply:
  "snap_apply demo_crypto demo_snapshot [demo_header 8 1, demo_header 9 2] =
   Inr (demo_snapshot\<lparr>snap_Number := 9, snap_Hash := header_Hash (c_keccak demo_crypto) (demo_header 9 2),
     snap_Recents := [(8, 1), (9, 2)]\<rparr>)"
proof -
  have num: "h_Number (demo_header n v) = Some n" for n v by (simp add: demo_header_def)
  have v: "snap_Validators demo_snapshot = [(3, ()), (1, ()), (2, ())]" "snap_Recents demo_snapshot = []"
    "snap_Number demo_snapshot = 7" "Epoch (snap_config demo_snapshot) = 50"
    by (simp_all add: demo_snapshot_def newSnapshot_def add_validators_def gm_set_def demo_config_def)
  have c: "snap_copy demo_snapshot = demo_snapshot"
    using reachable_ok [OF demo_reachable]
    by (intro snap_copy_id) (auto simp: snap_ok_def recents_ok_def)
  have a1: "apply_header demo_crypto demo_snapshot (demo_header 8 1) = Inr (demo_snapshot\<lparr>snap_Recents := [(8, 1)]\<rparr>)"
    using demo_ecrecover [of 8 1]
    by (simp add: apply_header_def num v big_Uint64_def prune_recents_def recents_limit_def gm_del_def gm_set_def)
  have a2: "apply_header demo_crypto (demo_snapshot\<lparr>snap_Recents := [(8, 1)]\<rparr>) (demo_header 9 2) =
      Inr (demo_snapshot\<lparr>snap_Recents := [(8, 1), (9, 2)]\<rparr>)"
    using demo_ecrecover [of 9 2]
    by (simp add: apply_header_def num v big_Uint64_def prune_recents_def recents_limit_def gm_del_def gm_set_def)
  show ?thesis
    by (simp add: snap_apply_def c header_number_def num v big_Uint64_def a1 a2)
qed

theorem snap_apply_append_witness:
  "(\<exists>t. snap_apply demo_crypto demo_snapshot ([demo_header 8 1] @ [demo_header 9 2]) = Inr t) \<and>
   (\<exists>u t. snap_apply demo_crypto demo_snapshot [demo_header 8 1] = Inr u \<and>
          snap_apply demo_crypto u [demo_header 9 2] = Inr t)"
proof -
  obtain t where t: "snap_apply demo_crypto demo_snapshot ([demo_header 8 1] @ [demo_header 9 2]) = Inr t"
    using demo_apply by simp
  moreover have "\<exists>u. snap_apply demo_crypto demo_snapshot [demo_header 8 1] = Inr u \<and>
      snap_apply demo_crypto u [demo_header 9 2] = Inr t"
    using t snap_apply_append [OF demo_reachable, of "[demo_header 8 1]" "[demo_header 9 2]" demo_crypto t]
    by (simp add: demo_snapshot_def newSnapshot_def demo_header_def)
  ultimately show ?thesis by blast
qed


subsection \<open>Spacing of signatures\<close>

definition no_epoch :: "CongressConfig \<Rightarrow> Header list \<Rightarrow> bool" where
  "no_epoch cfg hs \<longleftrightarrow> (\<forall>h \<in> set hs. \<forall>n. header_number h = Some n \<longrightarrow> n mod Epoch cfg \<noteq> 0)"

lemma prune_keeps:
  assumes "(k, v) \<in> set R" "unat N + 1 < 2 ^ 64" "length V < 2 ^ 63"
    and "unat N + 1 < unat k + (length V div 2 + 1)"
  shows "(k, v) \<in> set (prune_recents (N + 1) V R)"
proof -
  let ?l = "of_nat (length V div 2 + 1) :: u64"
  have N1: "unat (N + 1) = unat N + 1" using assms(2) unat_add_no_overflow [of N 1] by simp
  note ul = unat_limit [OF assms(3)]
  have "k \<noteq> N + 1 - ?l" if l: "?l \<le> N + 1"
  proof -
    have "unat (N + 1 - ?l) = unat N + 1 - (length V div 2 + 1)" using unat_sub [OF l] ul N1 by simp
    moreover have "length V div 2 + 1 \<le> unat N + 1" using l ul N1 by (simp only: word_le_nat_alt)
    ultimately show ?thesis using assms(4) by auto
  qed
  then show ?thesis
    using assms(1) unfolding prune_recents_def recents_limit_def Let_def by (simp add: set_gm_del)
qed

lemma plain_step:
  assumes "apply_header cr s h = Inr s'" "header_number h = Some (N + 1)" "(N + 1) mod Epoch (snap_config s) \<noteq> 0"
    and "recents_ok N (length (snap_Validators s)) (snap_Recents s)" "unat N + 1 < 2 ^ 64"
    and "length (snap_Validators s) < 2 ^ 63"
  obtains v where "ecrecover cr h = Inr v" "snap_Validators s' = snap_Validators s" "snap_config s' = snap_config s"
    "v \<notin> snd ` set (prune_recents (N + 1) (snap_Validators s) (snap_Recents s))"
    "snap_Recents s' = prune_recents (N + 1) (snap_Validators s) (snap_Recents s) @ [(N + 1, v)]"
  using assms(1,2)
proof (cases rule: apply_header_cases)
  case (plain v)
  show ?thesis
    by (rule that [of v]) (use plain recents_step(2) [OF assms(4,5,6) plain(3)] in simp_all)
qed (use assms(3) in simp)

lemma recent_signer_blocked:
  assumes "apply_headers cr s hs = Inr t" "chain_from N hs" "no_epoch (snap_config s) hs"
    and "gm_ok (snap_Validators s)" "recents_ok N (length (snap_Validators s)) (snap_Recents s)"
    and "unat N + length hs < 2 ^ 64" "length (snap_Validators s) < 2 ^ 63"
    and "(k, v) \<in> set (snap_Recents s)" "j < length hs"
    and "unat N + 1 + j < unat k + (length (snap_Validators s) div 2 + 1)"
  shows "ecrecover cr (hs ! j) \<noteq> Inr v"
  using assms
proof (induction hs arbitrary: s N j)
  case (Cons h hs)
  from Cons.prems(1) obtain u where u: "apply_header cr s h = Inr u" "apply_headers cr u hs = Inr t"
    by (auto simp: rbind_Inr_iff)
  have n: "header_number h = Some (N + 1)" "(N + 1) mod Epoch (snap_config s) \<noteq> 0" "unat N + 1 < 2 ^ 64"
    using Cons.prems by (auto simp: no_epoch_def)
  obtain w where w: "ecrecover cr h = Inr w" "snap_Validators u = snap_Validators s" "snap_config u = snap_config s"
    "w \<notin> snd ` set (prune_recents (N + 1) (snap_Validators s) (snap_Recents s))"
    "snap_Recents u = prune_recents (N + 1) (snap_Validators s) (snap_Recents s) @ [(N + 1, w)]"
    using plain_step [OF u(1) n(1,2) Cons.prems(5) n(3) Cons.prems(7)] by blast
  have kept: "(k, v) \<in> set (prune_recents (N + 1) (snap_Validators s) (snap_Recents s))"
    using Cons.prems(10) by (intro prune_keeps Cons.prems n) simp
  then have "w \<noteq> v" using w(4) by force
  show ?case
  proof (cases j)
    case 0
    then show ?thesis using w(1) \<open>w \<noteq> v\<close> by simp
  next
    case (Suc j')
    have N1: "unat (N + 1) = unat N + 1" using n(3) unat_add_no_overflow [of N 1] by simp
    have "recents_ok (N + 1) (length (snap_Validators u)) (snap_Recents u)"
      using recents_step [OF Cons.prems(5) n(3) Cons.prems(7) w(4)] w by simp
    then show ?thesis
      using Cons.IH [OF u(2), of "N + 1" j'] Cons.prems kept w Suc N1 by (simp add: no_epoch_def)
  qed
qed simp

lemma no_epoch_validators:
  "apply_headers cr s hs = Inr t \<Longrightarrow> no_epoch (snap_config s) hs \<Longrightarrow> \<forall>h \<in> set hs. header_number h \<noteq> None \<Longrightarrow>
   snap_Validators t = snap_Validators s"
proof (induction hs arbitrary: s)
  case (Cons h hs)
  from Cons.prems(1) obtain u where u: "apply_header cr s h = Inr u" "apply_headers cr u hs = Inr t"
    by (auto simp: rbind_Inr_iff)
  obtain n where n: "header_number h = Some n" using Cons.prems(3) by auto
  then have "n mod Epoch (snap_config s) \<noteq> 0" using Cons.prems(2) by (simp add: no_epoch_def)
  with u(1) n have "snap_Validators u = snap_Validators s" by (cases rule: apply_header_cases) simp_all
  moreover have "snap_config u = snap_config s" using apply_header_fixed [OF u(1)] by simp
  ultimately show ?case using Cons.IH [OF u(2)] Cons.prems by (simp add: no_epoch_def)
qed simp

lemma chain_from_numbers: "chain_from N hs \<Longrightarrow> \<forall>h \<in> set hs. header_number h \<noteq> None"
  by (induction hs arbitrary: N) auto

text \<open>C4. No validator signs too often: in a header sequence accepted between two epoch blocks, two headers at
  most \<open>n/2\<close> blocks apart have different signers, so any \<open>n/2 + 1\<close> consecutive blocks come from
  \<open>n/2 + 1\<close> different validators.\<close>

theorem signers_spaced:
  assumes "reachable cr s" "unat (snap_Number s) + length hs < 2 ^ 64" "\<forall>h \<in> set hs. length (h_Extra h) < 2 ^ 63"
    and "snap_apply cr s hs = Inr t" "no_epoch (snap_config s) hs"
    and "i < j" "j < length hs" "j - i \<le> length (snap_Validators s) div 2"
  shows "ecrecover cr (hs ! i) \<noteq> ecrecover cr (hs ! j)"
proof -
  let ?N = "snap_Number s" and ?xs = "take i hs" and ?ys = "drop (Suc i) hs" and ?M = "snap_Number s + of_nat i"
  have s: "snap_ok s" using reachable_ok [OF assms(1)] .
  have hs: "?xs @ hs ! i # ?ys = hs" using assms(6,7) by (simp add: id_take_nth_drop [symmetric])
  have li: "length ?xs = i" using assms(6,7) by simp
  obtain w where c: "chain_from ?N hs" and w: "apply_headers cr s hs = Inr w"
    using snap_apply_stamp [OF s assms(2,3)] assms(4,7) by fastforce
  obtain u u' where u: "apply_headers cr s ?xs = Inr u" "apply_header cr u (hs ! i) = Inr u'"
      "apply_headers cr u' ?ys = Inr w"
  proof -
    have "apply_headers cr s (?xs @ hs ! i # ?ys) = Inr w" using w by (simp only: hs)
    then show ?thesis using that unfolding apply_headers_append by (auto simp: rbind_Inr_iff)
  qed
  have ch: "chain_from ?N ?xs" "header_number (hs ! i) = Some (?M + 1)" "chain_from (?M + 1) ?ys"
    using c chain_from_append [of ?N ?xs "hs ! i # ?ys"] unfolding hs li by simp_all
  have ne: "no_epoch (snap_config s) ?xs" "no_epoch (snap_config s) ?ys" "(?M + 1) mod Epoch (snap_config s) \<noteq> 0"
    using assms(5) ch(2) nth_mem [of i hs] assms(6,7) unfolding no_epoch_def
    by (meson in_set_takeD in_set_dropD less_trans)+
  have M: "unat ?M = unat ?N + i" using unat_add_no_overflow [of ?N "of_nat i"] assms(2,6,7)
    by (simp add: unat_of_nat_u64)
  then have M1: "unat (?M + 1) = unat ?N + i + 1" using unat_add_no_overflow [of ?M 1] assms(2,6,7) by simp
  have V: "snap_Validators u = snap_Validators s"
    using no_epoch_validators [OF u(1) ne(1) chain_from_numbers [OF ch(1)]] .
  have ok: "gm_ok (snap_Validators u)" "length (snap_Validators u) < 2 ^ 63"
    "recents_ok ?M (length (snap_Validators u)) (snap_Recents u)" "snap_config u = snap_config s"
    using apply_headers_ok [of s ?N ?xs cr u] s u(1) ch(1) assms(2,3,6,7) li
    by (auto simp: snap_ok_def dest: in_set_takeD)
  have m: "unat ?M + 1 < 2 ^ 64" using M assms(2,6,7) by simp
  obtain v where v: "ecrecover cr (hs ! i) = Inr v" "snap_Validators u' = snap_Validators u"
      "snap_config u' = snap_config u"
      "v \<notin> snd ` set (prune_recents (?M + 1) (snap_Validators u) (snap_Recents u))"
      "snap_Recents u' = prune_recents (?M + 1) (snap_Validators u) (snap_Recents u) @ [(?M + 1, v)]"
    using plain_step [OF u(2) ch(2) _ ok(3) m ok(2)] ne(3) ok(4) by auto
  have "recents_ok (?M + 1) (length (snap_Validators u')) (snap_Recents u')"
    using recents_step [OF ok(3) m ok(2) v(4)] v by simp
  from recent_signer_blocked [OF u(3) ch(3), of "?M + 1" v "j - i - 1"] this
  have "ecrecover cr (?ys ! (j - i - 1)) \<noteq> Inr v"
    using ne ok v V M1 assms by simp
  then show ?thesis using v(1) assms(6,7) by simp
qed

theorem signers_spaced_witness:
  "ecrecover demo_crypto ([demo_header 8 1, demo_header 9 2] ! 0) \<noteq>
   ecrecover demo_crypto ([demo_header 8 1, demo_header 9 2] ! 1)"
proof (rule signers_spaced [OF demo_reachable])
  show "snap_apply demo_crypto demo_snapshot [demo_header 8 1, demo_header 9 2] = Inr
    (demo_snapshot\<lparr>snap_Number := 9, snap_Hash := header_Hash (c_keccak demo_crypto) (demo_header 9 2),
     snap_Recents := [(8, 1), (9, 2)]\<rparr>)" by (rule demo_apply)
  show "no_epoch (snap_config demo_snapshot) [demo_header 8 1, demo_header 9 2]"
    by (simp add: no_epoch_def header_number_def demo_header_def big_Uint64_def demo_snapshot_def
        newSnapshot_def demo_config_def)
qed (simp_all add: demo_snapshot_def newSnapshot_def length_add_validators demo_header_def)


subsection \<open>Turns\<close>

lemma bytes_less_be_nat: "length xs = length ys \<Longrightarrow> bytes_less xs ys \<longleftrightarrow> be_nat xs < be_nat ys"
proof (induction xs ys rule: bytes_less.induct)
  case (1 x xs y ys)
  let ?B = "256 ^ length ys :: nat"
  have b: "be_nat xs < ?B" "be_nat ys < ?B" using be_nat_bound [of xs] be_nat_bound [of ys] 1(2) by simp_all
  have "unat x * ?B + be_nat xs < unat y * ?B + be_nat ys \<longleftrightarrow>
      unat x < unat y \<or> unat x = unat y \<and> be_nat xs < be_nat ys"
  proof (cases "unat x" "unat y" rule: linorder_cases)
    case less
    then have "(unat x + 1) * ?B \<le> unat y * ?B" by (intro mult_le_mono1) simp
    then show ?thesis using less b by (simp add: algebra_simps)
  next
    case greater
    then have "(unat y + 1) * ?B \<le> unat x * ?B" by (intro mult_le_mono1) simp
    then show ?thesis using greater b by (simp add: algebra_simps)
  qed simp
  then show ?case using 1 by (auto simp: be_nat_Cons word_less_nat_alt word_unat_eq_iff)
qed auto

lemma bytes_less_address: "bytes_less (address_bytes a) (address_bytes b) \<longleftrightarrow> a < b"
proof -
  have "unat x < 256 ^ 20" for x :: address using unat_lt2p [of x] by simp
  then show ?thesis
    by (simp add: bytes_less_be_nat address_bytes_def word_less_nat_alt)
qed

lemma insert_asc_insort: "insert_asc x ys = insort x ys"
  by (induction ys) (auto simp: bytes_less_address not_less)

lemma validators_sort: "validators s = sort (gm_keys (snap_Validators s))"
proof -
  have "insert_asc = insort" by (intro ext insert_asc_insort)
  then show ?thesis by (simp add: validators_def sort_key_def)
qed

lemma offset_of_nth: "distinct vs \<Longrightarrow> i < length vs \<Longrightarrow> offset_of vs (vs ! i) = i"
proof (induction vs arbitrary: i)
  case (Cons v vs)
  then show ?case by (cases i) auto
qed simp

lemma offset_of_out: "v \<notin> set vs \<Longrightarrow> offset_of vs v = length vs"
  by (induction vs) auto

lemma offset_of_in: "v \<in> set vs \<Longrightarrow> offset_of vs v < length vs \<and> vs ! offset_of vs v = v"
  by (induction vs) auto

lemma validators_props:
  assumes "gm_ok (snap_Validators s)"
  shows "sorted_wrt (<) (validators s)" "set (validators s) = dom (gm_get (snap_Validators s))"
    "length (validators s) = length (snap_Validators s)"
  using assms
  by (simp_all add: validators_sort gm_keys_def gm_ok_def gm_dom strict_sorted_iff)

lemma inturn_eq:
  assumes "snap_ok s" "validators s \<noteq> []"
  shows "inturn s number v = Some (v = validators s ! (unat number mod length (validators s)))"
proof -
  let ?vs = "validators s" and ?i = "unat number mod length (validators s)"
  have ok: "gm_ok (snap_Validators s)" "length (snap_Validators s) < 2 ^ 63" using assms by (auto simp: snap_ok_def)
  note p = validators_props [OF ok(1)]
  have d: "distinct ?vs" using p(1) by (simp add: strict_sorted_iff)
  have i: "?i < length ?vs" using assms(2) by simp
  have len: "unat (of_nat (length ?vs) :: u64) = length ?vs" using ok p(3) by (simp add: unat_of_nat_u64)
  have le: "offset_of ?vs v \<le> length ?vs" using offset_of_in [of v ?vs] offset_of_out [of v ?vs] by fastforce
  then have o: "unat (of_nat (offset_of ?vs v) :: u64) = offset_of ?vs v"
    using ok p(3) by (simp add: unat_of_nat_u64)
  have "(number mod of_nat (length ?vs) = of_nat (offset_of ?vs v)) = (?i = offset_of ?vs v)"
    unfolding word_unat_eq_iff unat_mod len o ..
  also have "\<dots> = (v = ?vs ! ?i)"
    using offset_of_nth [OF d i] offset_of_in [of v ?vs] offset_of_out [of v ?vs] i nth_mem [OF i] by force
  finally show ?thesis using assms(2) by (simp add: inturn_def Let_def)
qed

text \<open>The validator list is strictly ascending in byte order, independent of map iteration order, and holds
  exactly the authorised validators; for every block exactly one validator is in turn, the one at
  position \<open>number mod n\<close>, and an unauthorised address never is.  With no validators the remainder panics.\<close>

theorem inturn_unique:
  assumes "snap_ok s"
  shows "sorted_wrt (\<lambda>a b. bytes_less (address_bytes a) (address_bytes b)) (validators s) \<and>
    set (validators s) = {v. gm_get (snap_Validators s) v \<noteq> None} \<and>
    (if snap_Validators s = [] then \<forall>v. inturn s number v = None
     else \<forall>v. inturn s number v =
       Some (v = validators s ! (unat number mod length (snap_Validators s))))"
proof -
  have ok: "gm_ok (snap_Validators s)" using assms by (auto simp: snap_ok_def)
  note p = validators_props [OF ok]
  have "validators s = [] \<longleftrightarrow> snap_Validators s = []" using p(3) by (metis length_0_conv)
  then show ?thesis
    using p inturn_eq [OF assms] by (auto simp: bytes_less_address inturn_def Let_def)
qed

theorem inturn_unique_witness:
  "validators demo_snapshot = [1, 2, 3] \<and> inturn demo_snapshot 7 2 = Some True \<and> inturn demo_snapshot 7 9 = Some False"
proof -
  have v: "validators demo_snapshot = [1, 2, 3]"
    by (simp add: validators_sort demo_snapshot_def newSnapshot_def add_validators_def gm_set_def gm_keys_def
        sort_key_def word_le_nat_alt)
  have l: "snap_Validators demo_snapshot = [(3, ()), (1, ()), (2, ())]"
    by (simp add: demo_snapshot_def newSnapshot_def add_validators_def gm_set_def)
  have n: "unat (7 :: u64) mod 3 = 1" by simp
  show ?thesis
    using inturn_unique [OF reachable_ok [OF demo_reachable], of 7] v unfolding l by (simp add: n)
qed

subsection \<open>Checkpoint headers\<close>

lemma concat_take_drop:
  "i < length xs \<Longrightarrow> \<forall>x \<in> set xs. length x = k \<Longrightarrow> take k (drop (i * k) (concat xs @ r)) = xs ! i"
proof (induction xs arbitrary: i)
  case (Cons x xs)
  then show ?case by (cases i) simp_all
qed simp

lemma extra_validators_encode:
  assumes "length vanity = extraVanity" "length seal = extraSeal"
  shows "extra_validators (vanity @ concat (map address_bytes vs) @ seal) = Inr vs"
proof -
  define x where "x = vanity @ concat (map address_bytes vs) @ seal"
  have "length (concat (map address_bytes vs)) = length vs * 20" by (induction vs) simp_all
  then have lx: "length x = length vs * 20 + 97" using assms by (simp add: congress_consts x_def)
  then have c: "\<not> length x + 20 \<le> 32 + 65" "(length x - 32 - 65) div 20 = length vs" by simp_all
  have t: "take 20 (drop (32 + i * 20) x) = address_bytes (vs ! i)" if "i < length vs" for i
  proof -
    have "drop (32 + i * 20) x = drop (i * 20) (concat (map address_bytes vs) @ seal)"
      using assms by (simp add: congress_consts x_def)
    then show ?thesis using concat_take_drop [of i "map address_bytes vs" 20 seal] that by simp
  qed
  have m: "map (\<lambda>i. BytesToAddress (take 20 (drop (32 + i * 20) x))) [0..<length vs] = vs"
    by (rule nth_equalityI) (simp_all only: length_map length_upt nth_map nth_upt minus_nat.diff_0 add_0 t
        BytesToAddress_bytes)
  have "extra_validators x = Inr (map (\<lambda>i. BytesToAddress (take 20 (drop (32 + i * 20) x))) [0..<length vs])"
    unfolding extra_validators_def congress_consts c(2) by (rule if_not_P [OF c(1)])
  then have "extra_validators x = Inr vs" unfolding m .
  then show ?thesis unfolding x_def .
qed

text \<open>The checkpoint format round-trips: the validator list written between the 32-byte vanity and the
  65-byte seal is read back exactly.\<close>

theorem extra_validators_roundtrip:
  assumes "length vanity = extraVanity" "length seal = extraSeal"
  shows "extra_validators (vanity @ concat (map address_bytes vs) @ seal) = Inr vs"
  using assms by (rule extra_validators_encode)

theorem extra_validators_roundtrip_witness:
  "extra_validators (replicate 32 7 @ concat (map address_bytes [5, 6]) @ replicate 65 0) = Inr [5, 6]"
  by (rule extra_validators_roundtrip) (simp_all add: congress_consts)

end
