(* ===== verification/Congress_Engine.thy ===== *)
theory Congress_Engine
  imports Snapshot
begin

text \<open>
  The Congress engine's header path (\<^verbatim>\<open>consensus/congress/congress.go\<close>): retrieving the snapshot of a
  block from the memory cache, the database or by applying gathered headers, verifying headers and
  seals, preparing a header and deciding whether to seal.

  The wall clock is the parameter \<open>now\<close>, the contract call behind \<^verbatim>\<open>getTopValidators\<close> the parameter
  \<open>vmTop\<close>.  The snapshot cache and the snapshot database are maps; an entry that the ARC cache evicts
  is an entry the map does not have, and the statements hold for every content of the cache.
\<close>

subsection \<open>Engine state\<close>

record congress =
  cg_chainConfig :: ChainConfig
  cg_config :: CongressConfig
  cg_db :: "(hash, Snapshot) gomap"
  cg_putOK :: "hash \<Rightarrow> bool"
  cg_recents :: "(hash, Snapshot) gomap"
  cg_validator :: address
  cg_fakeDiff :: bool

text \<open>\<open>cg_putOK\<close> says whether the database accepts a write.  A configuration without a Congress section is a
  nil dereference, \<open>None\<close>.\<close>

definition congress_New :: "ChainConfig \<Rightarrow> (hash, Snapshot) gomap \<Rightarrow> (hash \<Rightarrow> bool) \<Rightarrow> congress option" where
  "congress_New chainConfig db putOK =
    map_option (\<lambda>conf.
      \<lparr>cg_chainConfig = chainConfig,
       cg_config = (if Epoch conf = 0 then conf\<lparr>Epoch := epochLength\<rparr> else conf),
       cg_db = db, cg_putOK = putOK, cg_recents = [], cg_validator = 0, cg_fakeDiff = False\<rparr>)
      (Congress chainConfig)"

definition Authorize :: "address \<Rightarrow> congress \<Rightarrow> congress" where
  "Authorize validator c = c\<lparr>cg_validator := validator\<rparr>"

definition Author :: "Header \<Rightarrow> address" where
  "Author header = h_Coinbase header"

type_synonym 'a engine_result = "((congress_error, 'a) result \<times> congress) option"

subsection \<open>Retrieving a snapshot\<close>

definition FullImmutabilityThreshold :: nat where
  "FullImmutabilityThreshold = 90000"

definition loadSnapshot :: "congress \<Rightarrow> hash \<Rightarrow> Snapshot option" where
  "loadSnapshot c hash = map_option (\<lambda>s. s\<lparr>snap_config := cg_config c\<rparr>) (gm_get (cg_db c) hash)"

definition snap_store :: "congress \<Rightarrow> Snapshot \<Rightarrow> (congress_error, congress) result" where
  "snap_store c s =
    (if cg_putOK c (snap_Hash s) then Inr (c\<lparr>cg_db := gm_set (cg_db c) (snap_Hash s) s\<rparr>)
     else Inl (OtherError ''database''))"

text \<open>The branch that trusts a checkpoint header.  \<open>None\<close> means that the loop goes on.\<close>

definition checkpoint_snapshot ::
  "congress \<Rightarrow> chain \<Rightarrow> crypto \<Rightarrow> u64 \<Rightarrow> Header list \<Rightarrow> ((congress_error, Snapshot) result \<times> congress) option" where
  "checkpoint_snapshot c ch cr number headers =
    (if number \<noteq> 0 \<and> Epoch (cg_config c) = 0 then Some (Inl Panic, c)
     else if number = 0 \<or> (number mod Epoch (cg_config c) = 0 \<and>
         (length headers > FullImmutabilityThreshold \<or> ch_GetHeaderByNumber ch (number - 1) = None))
     then (case ch_GetHeaderByNumber ch number of
         None \<Rightarrow> None
       | Some checkpoint \<Rightarrow>
           (case extra_validators (h_Extra checkpoint) of
              Inl e \<Rightarrow> Some (Inl e, c)
            | Inr vs \<Rightarrow>
                (let snap = newSnapshot (cg_config c) number (header_Hash (c_keccak cr) checkpoint) vs
                 in case snap_store c snap of
                      Inl e \<Rightarrow> Some (Inl e, c)
                    | Inr c' \<Rightarrow> Some (Inr snap, c'))))
     else None)"

definition gather_header ::
  "chain \<Rightarrow> crypto \<Rightarrow> u64 \<Rightarrow> hash \<Rightarrow> Header list \<Rightarrow> (congress_error, Header \<times> Header list) result" where
  "gather_header ch cr number hash parents =
    (if parents \<noteq> [] then
       (let header = last parents
        in if header_Hash (c_keccak cr) header \<noteq> hash then Inl ErrUnknownAncestor
           else (case header_number header of
               None \<Rightarrow> Inl Panic
             | Some n \<Rightarrow> if n \<noteq> number then Inl ErrUnknownAncestor else Inr (header, butlast parents)))
     else (case ch_GetHeader ch hash number of
         None \<Rightarrow> Inl ErrUnknownAncestor
       | Some header \<Rightarrow> Inr (header, parents)))"

text \<open>The search loop; a search that never ends is \<open>None\<close>.\<close>

partial_function (option) snapshot_loop ::
  "congress \<Rightarrow> chain \<Rightarrow> crypto \<Rightarrow> u64 \<Rightarrow> hash \<Rightarrow> Header list \<Rightarrow> Header list \<Rightarrow> (Snapshot \<times> Header list) engine_result" where
  "snapshot_loop c ch cr number hash parents headers =
    (case gm_get (cg_recents c) hash of
       Some s \<Rightarrow> Some (Inr (s, headers), c)
     | None \<Rightarrow>
         (case (if number mod checkpointInterval = 0 then loadSnapshot c hash else None) of
            Some s \<Rightarrow> Some (Inr (s, headers), c)
          | None \<Rightarrow>
              (case checkpoint_snapshot c ch cr number headers of
                 Some (r, c') \<Rightarrow> Some (rbind r (\<lambda>s. Inr (s, headers)), c')
               | None \<Rightarrow>
                   (case gather_header ch cr number hash parents of
                      Inl e \<Rightarrow> Some (Inl e, c)
                    | Inr (header, parents') \<Rightarrow>
                        snapshot_loop c ch cr (number - 1) (h_ParentHash header) parents' (headers @ [header])))))"

definition congress_snapshot ::
  "congress \<Rightarrow> chain \<Rightarrow> crypto \<Rightarrow> u64 \<Rightarrow> hash \<Rightarrow> Header list \<Rightarrow> Snapshot engine_result" where
  "congress_snapshot c ch cr number hash parents =
    (case snapshot_loop c ch cr number hash parents [] of
       None \<Rightarrow> None
     | Some (Inl e, c1) \<Rightarrow> Some (Inl e, c1)
     | Some (Inr (snap, headers), c1) \<Rightarrow>
         (case snap_apply cr snap (rev headers) of
            Inl e \<Rightarrow> Some (Inl e, c1)
          | Inr snap' \<Rightarrow>
              (let c2 = c1\<lparr>cg_recents := gm_set (cg_recents c1) (snap_Hash snap') snap'\<rparr>
               in if snap_Number snap' mod checkpointInterval = 0 \<and> length headers > 0 then
                    (case snap_store c2 snap' of
                       Inl e \<Rightarrow> Some (Inl e, c2)
                     | Inr c3 \<Rightarrow> Some (Inr snap', c3))
                  else Some (Inr snap', c2))))"

subsection \<open>Verifying a seal\<close>

definition recently_signed :: "Snapshot \<Rightarrow> u64 \<Rightarrow> address \<Rightarrow> bool" where
  "recently_signed snap number signer \<longleftrightarrow>
    (\<exists>(seen, recent) \<in> set (snap_Recents snap).
       recent = signer \<and> seen > number - recents_limit (snap_Validators snap))"

text \<open>The part of \<^verbatim>\<open>verifySeal\<close> after the snapshot is known.\<close>

definition seal_check :: "bool \<Rightarrow> crypto \<Rightarrow> Snapshot \<Rightarrow> u64 \<Rightarrow> Header \<Rightarrow> (congress_error, unit) result" where
  "seal_check fakeDiff cr snap number header =
    rbind (ecrecover cr header) (\<lambda>signer.
      if signer \<noteq> h_Coinbase header then Inl errInvalidCoinbase
      else if gm_get (snap_Validators snap) signer = None then Inl errUnauthorizedValidator
      else if recently_signed snap number signer then Inl errRecentlySigned
      else if fakeDiff then Inr ()
      else (case (inturn snap number signer, h_Difficulty header) of
          (Some turn, Some d) \<Rightarrow>
            if turn \<and> d \<noteq> diffInTurn then Inl errWrongDifficulty
            else if \<not> turn \<and> d \<noteq> diffNoTurn then Inl errWrongDifficulty
            else Inr ()
        | _ \<Rightarrow> Inl Panic))"

definition verifySeal :: "congress \<Rightarrow> chain \<Rightarrow> crypto \<Rightarrow> Header \<Rightarrow> Header list \<Rightarrow> unit engine_result" where
  "verifySeal c ch cr header parents =
    (case header_number header of
       None \<Rightarrow> Some (Inl Panic, c)
     | Some number \<Rightarrow>
         if number = 0 then Some (Inl errUnknownBlock, c)
         else (case congress_snapshot c ch cr (number - 1) (h_ParentHash header) parents of
             None \<Rightarrow> None
           | Some (Inl e, c') \<Rightarrow> Some (Inl e, c')
           | Some (Inr snap, c') \<Rightarrow> Some (seal_check (cg_fakeDiff c) cr snap number header, c')))"

definition VerifySeal :: "congress \<Rightarrow> chain \<Rightarrow> crypto \<Rightarrow> Header \<Rightarrow> unit engine_result" where
  "VerifySeal c ch cr header = verifySeal c ch cr header []"

definition VerifyUncles :: "Header list \<Rightarrow> (congress_error, unit) result" where
  "VerifyUncles uncles = (if uncles \<noteq> [] then Inl (OtherError ''uncles not allowed'') else Inr ())"

subsection \<open>Verifying a header\<close>

definition lift_misc :: "(misc_error, 'a) result \<Rightarrow> (congress_error, 'a) result" where
  "lift_misc r = (case r of Inl e \<Rightarrow> Inl (MiscError e) | Inr x \<Rightarrow> Inr x)"

text \<open>The checks that read the parent; the seal is verified afterwards.\<close>

definition parent_checks ::
  "congress \<Rightarrow> ChainConfig \<Rightarrow> crypto \<Rightarrow> Header \<Rightarrow> u64 \<Rightarrow> Header option \<Rightarrow> (congress_error, unit) result" where
  "parent_checks c config cr header number parent =
    (case parent of
       None \<Rightarrow> Inl ErrUnknownAncestor
     | Some p \<Rightarrow>
         (case header_number p of
            None \<Rightarrow> Inl Panic
          | Some pn \<Rightarrow>
              if pn \<noteq> number - 1 \<or> header_Hash (c_keccak cr) p \<noteq> h_ParentHash header then Inl ErrUnknownAncestor
              else if h_Time p + Period (cg_config c) > h_Time header then Inl ErrInvalidTimestamp
              else if h_GasUsed header > h_GasLimit header
              then Inl (InvalidGasUsed (h_GasUsed header) (h_GasLimit header))
              else if \<not> IsLondon config (h_Number header) then
                (case h_BaseFee header of
                   Some b \<Rightarrow> Inl (InvalidBaseFeeBeforeFork b)
                 | None \<Rightarrow> lift_misc (VerifyGaslimit (h_GasLimit p) (h_GasLimit header)))
              else lift_misc (VerifyEip1559Header config p header)))"

definition verifyCascadingFields ::
  "congress \<Rightarrow> chain \<Rightarrow> crypto \<Rightarrow> Header \<Rightarrow> Header list \<Rightarrow> unit engine_result" where
  "verifyCascadingFields c ch cr header parents =
    (case header_number header of
       None \<Rightarrow> Some (Inl Panic, c)
     | Some number \<Rightarrow>
         if number = 0 then Some (Inr (), c)
         else
           (let parent = (if parents \<noteq> [] then Some (last parents)
                          else ch_GetHeader ch (h_ParentHash header) (number - 1))
            in case parent_checks c (ch_Config ch) cr header number parent of
                 Inl e \<Rightarrow> Some (Inl e, c)
               | Inr _ \<Rightarrow> verifySeal c ch cr header parents))"

text \<open>The checks that need no other header.\<close>

definition header_checks ::
  "congress \<Rightarrow> ChainConfig \<Rightarrow> crypto \<Rightarrow> u64 \<Rightarrow> Header \<Rightarrow> u64 \<Rightarrow> (congress_error, unit) result" where
  "header_checks c config cr now header number =
    (if h_Time header > now then Inl ErrFutureBlock
     else if length (h_Extra header) < extraVanity then Inl errMissingVanity
     else if length (h_Extra header) < extraVanity + extraSeal then Inl errMissingSignature
     else if Epoch (cg_config c) = 0 then Inl Panic
     else
       (let isEpoch = (number mod Epoch (cg_config c) = 0);
            validatorsBytes = length (h_Extra header) - extraVanity - extraSeal
        in if \<not> isEpoch \<and> validatorsBytes \<noteq> 0 then Inl errExtraValidators
           else if isEpoch \<and> validatorsBytes mod AddressLength \<noteq> 0 then Inl errExtraValidators
           else if h_MixDigest header \<noteq> 0 then Inl errInvalidMixDigest
           else if h_UncleHash header \<noteq> CalcUncleHash (c_keccak cr) [] then Inl errInvalidUncleHash
           else if number > 0 \<and> h_Difficulty header = None then Inl errInvalidDifficulty
           else if h_GasLimit header > 0x7fffffffffffffff then Inl (InvalidGasLimitCap (h_GasLimit header))
           else lift_misc (VerifyForkHashes (c_keccak cr) config header False)))"

definition verifyHeader ::
  "congress \<Rightarrow> chain \<Rightarrow> crypto \<Rightarrow> u64 \<Rightarrow> Header \<Rightarrow> Header list \<Rightarrow> unit engine_result" where
  "verifyHeader c ch cr now header parents =
    (case header_number header of
       None \<Rightarrow> Some (Inl errUnknownBlock, c)
     | Some number \<Rightarrow>
         (case header_checks c (ch_Config ch) cr now header number of
            Inl e \<Rightarrow> Some (Inl e, c)
          | Inr _ \<Rightarrow> verifyCascadingFields c ch cr header parents))"

definition VerifyHeader :: "congress \<Rightarrow> chain \<Rightarrow> crypto \<Rightarrow> u64 \<Rightarrow> Header \<Rightarrow> unit engine_result" where
  "VerifyHeader c ch cr now header = verifyHeader c ch cr now header []"

text \<open>The worker of \<^verbatim>\<open>VerifyHeaders\<close>: one result per header, each verified with its predecessors as parents.\<close>

fun VerifyHeaders_loop ::
  "congress \<Rightarrow> chain \<Rightarrow> crypto \<Rightarrow> u64 \<Rightarrow> Header list \<Rightarrow> Header list \<Rightarrow>
   ((congress_error, unit) result list \<times> congress) option" where
  "VerifyHeaders_loop c ch cr now prior [] = Some ([], c)"
| "VerifyHeaders_loop c ch cr now prior (header # headers) =
     (case verifyHeader c ch cr now header prior of
        None \<Rightarrow> None
      | Some (r, c') \<Rightarrow>
          (case VerifyHeaders_loop c' ch cr now (prior @ [header]) headers of
             None \<Rightarrow> None
           | Some (rs, c'') \<Rightarrow> Some (r # rs, c'')))"

definition VerifyHeaders ::
  "congress \<Rightarrow> chain \<Rightarrow> crypto \<Rightarrow> u64 \<Rightarrow> Header list \<Rightarrow> ((congress_error, unit) result list \<times> congress) option" where
  "VerifyHeaders c ch cr now headers = VerifyHeaders_loop c ch cr now [] headers"


subsection \<open>Preparing a header\<close>

text \<open>\<^verbatim>\<open>inturn\<close> panics on an empty validator set.\<close>

definition calcDifficulty :: "Snapshot \<Rightarrow> address \<Rightarrow> (congress_error, int) result" where
  "calcDifficulty snap validator =
    (case inturn snap (snap_Number snap + 1) validator of
       None \<Rightarrow> Inl Panic
     | Some turn \<Rightarrow> Inr (if turn then diffInTurn else diffNoTurn))"

definition CalcDifficulty :: "congress \<Rightarrow> chain \<Rightarrow> crypto \<Rightarrow> Header \<Rightarrow> bigint engine_result" where
  "CalcDifficulty c ch cr parent =
    (case header_number parent of
       None \<Rightarrow> Some (Inl Panic, c)
     | Some n \<Rightarrow>
         (case congress_snapshot c ch cr n (header_Hash (c_keccak cr) parent) [] of
            None \<Rightarrow> None
          | Some (Inl _, c') \<Rightarrow> Some (Inr None, c')
          | Some (Inr snap, c') \<Rightarrow> Some (rbind (calcDifficulty snap (cg_validator c)) (\<lambda>d. Inr (Some d)), c')))"

text \<open>\<open>vmTop parent header\<close> is the outcome of the contract call on the parent's state.\<close>

definition getTopValidators ::
  "chain \<Rightarrow> (Header \<Rightarrow> Header \<Rightarrow> (congress_error, address list) result) \<Rightarrow> Header \<Rightarrow>
   (congress_error, address list) result" where
  "getTopValidators ch vmTop header =
    (case header_number header of
       None \<Rightarrow> Inl Panic
     | Some n \<Rightarrow>
         (case ch_GetHeader ch (h_ParentHash header) (n - 1) of
            None \<Rightarrow> Inl ErrUnknownAncestor
          | Some parent \<Rightarrow> rbind (vmTop parent header) (\<lambda>vs. Inr (foldr insert_asc vs []))))"

definition pad_vanity :: "bytes \<Rightarrow> bytes" where
  "pad_vanity extra =
    take extraVanity (if length extra < extraVanity then extra @ replicate (extraVanity - length extra) 0 else extra)"

text \<open>The extra-data up to the seal: the vanity, and at an epoch block the next validators.\<close>

definition prepare_extra ::
  "congress \<Rightarrow> chain \<Rightarrow> (Header \<Rightarrow> Header \<Rightarrow> (congress_error, address list) result) \<Rightarrow> Header \<Rightarrow> u64 \<Rightarrow>
   (congress_error, bytes) result" where
  "prepare_extra c ch vmTop header number =
    (let header1 = header\<lparr>h_Extra := pad_vanity (h_Extra header)\<rparr>
     in if Epoch (cg_config c) = 0 then Inl Panic
        else if number mod Epoch (cg_config c) = 0
        then rbind (getTopValidators ch vmTop header1)
               (\<lambda>vs. Inr (h_Extra header1 @ concat (map address_bytes vs)))
        else Inr (h_Extra header1))"

definition prepare_header ::
  "congress \<Rightarrow> chain \<Rightarrow> u64 \<Rightarrow> (Header \<Rightarrow> Header \<Rightarrow> (congress_error, address list) result) \<Rightarrow> Snapshot \<Rightarrow>
   Header \<Rightarrow> u64 \<Rightarrow> (congress_error, Header) result" where
  "prepare_header c ch now vmTop snap header number =
    rbind (calcDifficulty snap (cg_validator c)) (\<lambda>diff.
      let header1 = header\<lparr>h_Difficulty := Some diff\<rparr>
      in rbind (prepare_extra c ch vmTop header1 number) (\<lambda>extra.
         case ch_GetHeader ch (h_ParentHash header) (number - 1) of
           None \<Rightarrow> Inl ErrUnknownAncestor
         | Some parent \<Rightarrow>
             (let t = h_Time parent + Period (cg_config c)
              in Inr (header1\<lparr>h_Extra := extra @ replicate extraSeal 0, h_MixDigest := 0,
                    h_Time := (if t < now then now else t)\<rparr>))))"

definition Prepare ::
  "congress \<Rightarrow> chain \<Rightarrow> crypto \<Rightarrow> u64 \<Rightarrow> (Header \<Rightarrow> Header \<Rightarrow> (congress_error, address list) result) \<Rightarrow>
   Header \<Rightarrow> Header engine_result" where
  "Prepare c ch cr now vmTop header =
    (let header1 = header\<lparr>h_Coinbase := cg_validator c, h_Nonce := 0\<rparr>
     in case header_number header1 of
          None \<Rightarrow> Some (Inl Panic, c)
        | Some number \<Rightarrow>
            (case congress_snapshot c ch cr (number - 1) (h_ParentHash header1) [] of
               None \<Rightarrow> None
             | Some (Inl e, c') \<Rightarrow> Some (Inl e, c')
             | Some (Inr snap, c') \<Rightarrow> Some (prepare_header c ch now vmTop snap header1 number, c')))"

subsection \<open>Deciding to seal\<close>

fun oldest_validator :: "u64 \<Rightarrow> address \<Rightarrow> (u64, address) gomap \<Rightarrow> address" where
  "oldest_validator oldestSeen oldestValidator [] = oldestValidator"
| "oldest_validator oldestSeen oldestValidator ((seen, v) # es) =
     (if seen < oldestSeen then oldest_validator seen v es
      else oldest_validator oldestSeen oldestValidator es)"

text \<open>What the loop over the recent signers does at the first entry of the sealing validator.\<close>

definition seal_entry :: "Snapshot \<Rightarrow> u64 \<Rightarrow> address \<Rightarrow> u64 \<Rightarrow> (congress_error, bool) result" where
  "seal_entry snap number val seen =
    (let limit = recents_limit (snap_Validators snap);
         recentCount = length (snap_Recents snap);
         validatorCount = length (snap_Validators snap);
         isOldest = (val = oldest_validator MaxUint64 0 (snap_Recents snap))
     in if number \<ge> limit \<and> seen \<le> number - limit then Inr True
        else if recentCount \<ge> (validatorCount * 3) div 4 \<and> isOldest then Inr True
        else if recentCount \<ge> validatorCount then
          (case inturn snap number val of
             None \<Rightarrow> Inl Panic
           | Some True \<Rightarrow> Inr True
           | Some False \<Rightarrow> Inr isOldest)
        else Inr False)"

fun seal_loop :: "Snapshot \<Rightarrow> u64 \<Rightarrow> address \<Rightarrow> (u64, address) gomap \<Rightarrow> (congress_error, bool) result" where
  "seal_loop snap number val [] = Inr True"
| "seal_loop snap number val ((seen, recent) # es) =
     (if recent = val then seal_entry snap number val seen else seal_loop snap number val es)"

text \<open>The outcome of \<^verbatim>\<open>Seal\<close>: a sealed header to be published (after a delay), or a wait.  \<open>signFn\<close> is the
  wallet; \<^verbatim>\<open>copy\<close> writes at most \<^verbatim>\<open>extraSeal\<close> bytes of the signature over the end of the extra-data.\<close>

definition put_seal :: "bytes \<Rightarrow> bytes \<Rightarrow> bytes" where
  "put_seal extra sighash =
    (let n = length extra - extraSeal; s = take extraSeal sighash
     in take n extra @ s @ drop (n + length s) extra)"

definition seal_header ::
  "(address \<Rightarrow> bytes \<Rightarrow> bytes option) \<Rightarrow> address \<Rightarrow> Header \<Rightarrow> (congress_error, Header) result" where
  "seal_header signFn val header =
    rbind (CongressRLP header) (\<lambda>msg.
      case signFn val msg of
        None \<Rightarrow> Inl CryptoError
      | Some sighash \<Rightarrow> Inr (header\<lparr>h_Extra := put_seal (h_Extra header) sighash\<rparr>))"

definition Seal ::
  "congress \<Rightarrow> chain \<Rightarrow> crypto \<Rightarrow> (address \<Rightarrow> bytes \<Rightarrow> bytes option) \<Rightarrow> Header \<Rightarrow> nat \<Rightarrow> Header option engine_result" where
  "Seal c ch cr signFn header txCount =
    (case header_number header of
       None \<Rightarrow> Some (Inl Panic, c)
     | Some number \<Rightarrow>
         if number = 0 then Some (Inl errUnknownBlock, c)
         else if Period (cg_config c) = 0 \<and> txCount = 0 then Some (Inr None, c)
         else (case congress_snapshot c ch cr (number - 1) (h_ParentHash header) [] of
             None \<Rightarrow> None
           | Some (Inl e, c') \<Rightarrow> Some (Inl e, c')
           | Some (Inr snap, c') \<Rightarrow>
               (if gm_get (snap_Validators snap) (cg_validator c) = None
                then Some (Inl errUnauthorizedValidator, c')
                else Some (rbind (seal_loop snap number (cg_validator c) (snap_Recents snap)) (\<lambda>go.
                       if \<not> go then Inr None
                       else if h_Difficulty header = None then Inl Panic
                       else rbind (seal_header signFn (cg_validator c) header) (\<lambda>h. Inr (Some h))), c'))))"

subsection \<open>Punishing a missed turn\<close>

text \<open>The validator that \<^verbatim>\<open>tryPunishValidator\<close> reports to the punish contract, if any.\<close>

definition punish_target :: "Snapshot \<Rightarrow> u64 \<Rightarrow> (congress_error, address option) result" where
  "punish_target snap number =
    (let vs = validators snap
     in if length vs = 0 then Inl Panic
        else (let v = vs ! (unat (number mod of_nat (length vs)))
              in Inr (if v \<in> snd ` set (snap_Recents snap) then None else Some v)))"

definition tryPunishValidator ::
  "congress \<Rightarrow> chain \<Rightarrow> crypto \<Rightarrow> (address \<Rightarrow> 's \<Rightarrow> (congress_error, 's) result) \<Rightarrow> Header \<Rightarrow> 's \<Rightarrow> 's engine_result" where
  "tryPunishValidator c ch cr vmPunish header state =
    (case header_number header of
       None \<Rightarrow> Some (Inl Panic, c)
     | Some number \<Rightarrow>
         (case congress_snapshot c ch cr (number - 1) (h_ParentHash header) [] of
            None \<Rightarrow> None
          | Some (Inl e, c') \<Rightarrow> Some (Inl e, c')
          | Some (Inr snap, c') \<Rightarrow>
              Some (rbind (punish_target snap number) (\<lambda>v.
                case v of None \<Rightarrow> Inr state | Some a \<Rightarrow> vmPunish a state), c')))"


subsection \<open>Every snapshot the engine holds is reachable\<close>

definition snap_good :: "crypto \<Rightarrow> congress \<Rightarrow> Snapshot \<Rightarrow> bool" where
  "snap_good cr c s \<longleftrightarrow> reachable cr s \<and> snap_config s = cg_config c"

definition all_good :: "crypto \<Rightarrow> congress \<Rightarrow> (hash, Snapshot) gomap \<Rightarrow> bool" where
  "all_good cr c m \<longleftrightarrow> (\<forall>x s. (x, s) \<in> set m \<longrightarrow> snap_good cr c s)"

definition engine_ok :: "crypto \<Rightarrow> congress \<Rightarrow> bool" where
  "engine_ok cr c \<longleftrightarrow> all_good cr c (cg_recents c) \<and> all_good cr c (cg_db c)"

definition small_extra :: "Header list \<Rightarrow> bool" where
  "small_extra hs \<longleftrightarrow> (\<forall>h \<in> set hs. length (h_Extra h) < 2 ^ 63)"

lemma snap_good_cache [simp]:
  "snap_good cr (c\<lparr>cg_recents := r\<rparr>) s = snap_good cr c s" "snap_good cr (c\<lparr>cg_db := d\<rparr>) s = snap_good cr c s"
  by (simp_all add: snap_good_def)

lemma all_good_cache [simp]:
  "all_good cr (c\<lparr>cg_recents := r\<rparr>) m = all_good cr c m" "all_good cr (c\<lparr>cg_db := d\<rparr>) m = all_good cr c m"
  by (simp_all add: all_good_def)

lemma all_good_set: "all_good cr c m \<Longrightarrow> snap_good cr c s \<Longrightarrow> all_good cr c (gm_set m k s)"
  using set_gm_set [of m k s] by (auto simp: all_good_def)

lemma all_good_get: "all_good cr c m \<Longrightarrow> gm_get m x = Some s \<Longrightarrow> snap_good cr c s"
  using gm_get_in [of m x s] by (auto simp: all_good_def)

lemma engine_ok_recents: "engine_ok cr c \<Longrightarrow> snap_good cr c s \<Longrightarrow> engine_ok cr (c\<lparr>cg_recents := gm_set (cg_recents c) k s\<rparr>)"
  by (simp add: engine_ok_def all_good_set)

lemma engine_ok_store:
  "engine_ok cr c \<Longrightarrow> snap_good cr c s \<Longrightarrow> snap_store c s = Inr c' \<Longrightarrow>
   engine_ok cr c' \<and> cg_config c' = cg_config c \<and> cg_recents c' = cg_recents c"
  by (auto simp: engine_ok_def snap_store_def all_good_set split: if_splits)

lemma engine_ok_cached: "engine_ok cr c \<Longrightarrow> gm_get (cg_recents c) x = Some s \<Longrightarrow> snap_good cr c s"
  by (auto simp: engine_ok_def all_good_get)

lemma engine_ok_loaded: "engine_ok cr c \<Longrightarrow> loadSnapshot c x = Some s \<Longrightarrow> snap_good cr c s"
proof -
  assume "engine_ok cr c" "loadSnapshot c x = Some s"
  then obtain t where t: "snap_good cr c t" "s = t\<lparr>snap_config := cg_config c\<rparr>"
    by (auto simp: engine_ok_def loadSnapshot_def dest: all_good_get)
  then have "s = t" by (simp add: snap_good_def)
  with t(1) show ?thesis by simp
qed

text \<open>The promise of a finished search that has gathered headers below block number \<open>M\<close>.\<close>

definition found_ok :: "crypto \<Rightarrow> congress \<Rightarrow> nat \<Rightarrow> (congress_error, Snapshot \<times> Header list) result \<times> congress \<Rightarrow> bool" where
  "found_ok cr c M y \<longleftrightarrow> engine_ok cr (snd y) \<and> cg_config (snd y) = cg_config c \<and>
    (case fst y of Inl _ \<Rightarrow> True
     | Inr (s, hs) \<Rightarrow> snap_good cr c s \<and> small_extra hs \<and> (\<exists>n. chain_from n (rev hs) \<and> unat n + length hs \<le> M))"

context header_reader
begin

lemma checkpoint_good:
  assumes "ok db" "engine_ok cr c" "checkpoint_snapshot c (view db) cr number hs = Some (r, c')"
  shows "engine_ok cr c' \<and> cg_config c' = cg_config c \<and> (\<forall>s. r = Inr s \<longrightarrow> snap_good cr c s)"
proof -
  have good: "snap_good cr c (newSnapshot (cg_config c) number x vs)"
    if "ch_GetHeaderByNumber (view db) number = Some h" "extra_validators (h_Extra h) = Inr vs" for h vs x
    using by_number_extra [OF assms(1) that(1)] extra_validators_length [OF that(2)]
    by (auto simp: snap_good_def newSnapshot_def intro: reachable.start [unfolded newSnapshot_def])
  consider (err) e where "r = Inl e" "c' = c"
    | (new) h vs where "ch_GetHeaderByNumber (view db) number = Some h" "extra_validators (h_Extra h) = Inr vs"
        "r = Inr (newSnapshot (cg_config c) number (header_Hash (c_keccak cr) h) vs)"
        "snap_store c (newSnapshot (cg_config c) number (header_Hash (c_keccak cr) h) vs) = Inr c'"
    using assms(3) by (auto simp: checkpoint_snapshot_def Let_def split: if_splits option.splits sum.splits)
  then show ?thesis
  proof cases
    case (new h vs)
    then show ?thesis using engine_ok_store [OF assms(2) good [OF new(1,2)] new(4)] good [OF new(1,2)] by simp
  qed (use assms(2) in simp)
qed

lemma gather_number:
  assumes "ok db" "small_extra parents" "gather_header (view db) cr number x parents = Inr (h, ps)"
  shows "header_number h = Some number \<and> length (h_Extra h) < 2 ^ 63 \<and> small_extra ps"
proof (cases "parents = []")
  case True
  then show ?thesis
    using assms get_number [OF assms(1)] get_extra [OF assms(1)]
    by (auto simp: gather_header_def small_extra_def split: option.splits)
next
  case False
  then show ?thesis
    using assms(2,3) last_in_set [OF False]
    by (auto simp: gather_header_def small_extra_def Let_def split: option.splits if_splits dest: in_set_butlastD)
qed

lemma no_gather_at_genesis:
  assumes "ok db" "checkpoint_snapshot c (view db) cr number hs = None"
  shows "number \<noteq> 0"
  using assms genesis [OF assms(1)]
  by (auto simp: checkpoint_snapshot_def Let_def split: option.splits sum.splits)

lemma snapshot_loop_found:
  assumes "ok db"
  shows "snapshot_loop c (view db) cr number x parents headers = Some y \<Longrightarrow> engine_ok cr c \<Longrightarrow>
    chain_from number (rev headers) \<Longrightarrow> small_extra headers \<Longrightarrow> small_extra parents \<Longrightarrow>
    unat number + length headers \<le> M \<Longrightarrow> found_ok cr c M y"
proof (induction "unat number" arbitrary: number x parents headers rule: less_induct)
  case less
  consider (cached) s where "gm_get (cg_recents c) x = Some s" "y = (Inr (s, headers), c)"
    | (loaded) s where "loadSnapshot c x = Some s" "y = (Inr (s, headers), c)"
    | (trusted) r c' where "checkpoint_snapshot c (view db) cr number headers = Some (r, c')"
        "y = (rbind r (\<lambda>s. Inr (s, headers)), c')"
    | (failed) e where "y = (Inl e, c)"
    | (gather) h ps where "checkpoint_snapshot c (view db) cr number headers = None"
        "gather_header (view db) cr number x parents = Inr (h, ps)"
        "snapshot_loop c (view db) cr (number - 1) (h_ParentHash h) ps (headers @ [h]) = Some y"
    using less.prems(1) by (subst (asm) snapshot_loop.simps) (auto split: option.splits if_splits sum.splits)
  then show ?case
  proof cases
    case (cached s)
    then show ?thesis using less.prems engine_ok_cached by (auto simp: found_ok_def)
  next
    case (loaded s)
    then show ?thesis using less.prems engine_ok_loaded by (auto simp: found_ok_def)
  next
    case (trusted r c')
    then show ?thesis
      using checkpoint_good [OF assms less.prems(2) trusted(1)] less.prems by (cases r) (auto simp: found_ok_def)
  next
    case (failed e)
    then show ?thesis using less.prems(2) by (simp add: found_ok_def)
  next
    case (gather h ps)
    have n0: "number \<noteq> 0" using no_gather_at_genesis [OF assms gather(1)] .
    note um = unat_minus_one [OF n0]
    have "0 < unat number" using n0 by (simp add: unat_gt_0)
    note g = gather_number [OF assms less.prems(5) gather(2)]
    show ?thesis
      by (rule less.hyps [OF _ gather(3)])
        (use less.prems g um \<open>0 < unat number\<close> in \<open>simp_all add: small_extra_def\<close>)
  qed
qed

lemma snapshot_loop_terminates:
  assumes "ok db"
  shows "\<exists>y. snapshot_loop c (view db) cr number x parents headers = Some y"
proof (induction "unat number" arbitrary: number x parents headers rule: less_induct)
  case less
  show ?case
  proof (cases "checkpoint_snapshot c (view db) cr number headers")
    case None
    then have n0: "number \<noteq> 0" by (rule no_gather_at_genesis [OF assms])
    then have "unat (number - 1) < unat number" using unat_minus_one [OF n0] by (simp add: unat_gt_0)
    from less.hyps [OF this] show ?thesis
      by (subst snapshot_loop.simps) (auto simp: None split: option.split sum.split)
  next
    case (Some a)
    then show ?thesis by (subst snapshot_loop.simps) (auto split: option.split prod.split)
  qed
qed

end


lemma found_applied:
  assumes "found_ok cr c M (Inr (s, hs), c1)" "snap_apply cr s (rev hs) = Inr t" "M < 2 ^ 64"
  shows "snap_good cr c t"
proof (cases "hs = []")
  case False
  from assms(1) obtain n where f: "snap_good cr c s" "small_extra hs" "chain_from n (rev hs)" "unat n + length hs \<le> M"
    by (auto simp: found_ok_def)
  have "chain_from (snap_Number s) (rev hs)" using assms(2) False by (auto simp: snap_apply_Inr)
  with f(3) False have "n = snap_Number s" by (cases "rev hs") auto
  moreover have r: "reachable cr s" "snap_config s = cg_config c" using f(1) by (auto simp: snap_good_def)
  ultimately have b: "unat (snap_Number s) + length (rev hs) < 2 ^ 64" using f(4) assms(3) by simp
  have "\<forall>h \<in> set (rev hs). length (h_Extra h) < 2 ^ 63" using f(2) by (simp add: small_extra_def)
  from reachable.advance [OF r(1) assms(2) b this] snap_ok_apply [OF reachable_ok [OF r(1)] b this assms(2)] r(2)
  show ?thesis by (simp add: snap_good_def)
qed (use assms in \<open>auto simp: found_ok_def\<close>)

context header_reader
begin

lemma congress_snapshot_sound:
  assumes "ok db" "engine_ok cr c" "small_extra parents"
  shows "\<exists>r c'. congress_snapshot c (view db) cr number x parents = Some (r, c') \<and> engine_ok cr c' \<and>
    cg_config c' = cg_config c \<and> (\<forall>s. r = Inr s \<longrightarrow> snap_good cr c s)"
proof -
  obtain y where y: "snapshot_loop c (view db) cr number x parents [] = Some y"
    using snapshot_loop_terminates [OF assms(1)] by blast
  have f: "found_ok cr c (unat number) y"
    using snapshot_loop_found [OF assms(1) y assms(2)] assms(3) by (simp add: small_extra_def)
  obtain r c1 where rc: "y = (r, c1)" by (cases y)
  have c1: "engine_ok cr c1" "cg_config c1 = cg_config c" using f rc by (auto simp: found_ok_def)
  then have sg: "snap_good cr c1 s = snap_good cr c s" for s by (simp add: snap_good_def)
  show ?thesis
  proof (cases r)
    case (Inl e)
    then show ?thesis using c1 y rc by (simp add: congress_snapshot_def)
  next
    case (Inr a)
    obtain s hs where a: "a = (s, hs)" by (cases a)
    show ?thesis
    proof (cases "snap_apply cr s (rev hs)")
      case Inl_apply: (Inl e)
      then show ?thesis using c1 y rc Inr a by (simp add: congress_snapshot_def)
    next
      case Inr_apply: (Inr t)
      have t: "snap_good cr c t"
        using found_applied [OF _ Inr_apply, of c "unat number" c1] f rc Inr a unat_lt2p [of number] by simp
      define c2 where "c2 = c1\<lparr>cg_recents := gm_set (cg_recents c1) (snap_Hash t) t\<rparr>"
      have c2: "engine_ok cr c2" "cg_config c2 = cg_config c"
        using engine_ok_recents [OF c1(1)] t sg c1(2) by (simp_all add: c2_def)
      have t2: "snap_good cr c2 t" using t c2(2) by (simp add: snap_good_def)
      have eq: "congress_snapshot c (view db) cr number x parents =
          (if snap_Number t mod checkpointInterval = 0 \<and> length hs > 0 then
             (case snap_store c2 t of Inl e \<Rightarrow> Some (Inl e, c2) | Inr c3 \<Rightarrow> Some (Inr t, c3))
           else Some (Inr t, c2))"
        by (simp add: congress_snapshot_def y rc Inr a Inr_apply Let_def c2_def cong: sum.case_cong)
      show ?thesis
        unfolding eq using c2 t engine_ok_store [OF c2(1) t2] by (auto split: sum.splits)
    qed
  qed
qed

end

text \<open>C6. Retrieving a snapshot always ends and only yields snapshots that follow from a trusted one by applying
  headers: on a header database that satisfies its invariant and with caches that hold reachable
  snapshots, \<^verbatim>\<open>snapshot\<close> returns, keeps the caches in that state, and a returned snapshot is reachable.\<close>

theorem engine_snapshot_reachable:
  assumes "db_ok kec db" "engine_ok cr c" "\<forall>h \<in> set parents. length (h_Extra h) < 2 ^ 63"
  shows "\<exists>r c'. congress_snapshot c (hc_chain config db) cr number hash parents = Some (r, c') \<and>
    engine_ok cr c' \<and> cg_config c' = cg_config c \<and>
    (\<forall>s. r = Inr s \<longrightarrow> reachable cr s \<and> snap_config s = cg_config c)"
  using hc.congress_snapshot_sound [OF assms(1,2), of parents config number hash] assms(3)
  by (auto simp: small_extra_def snap_good_def)

lemma New_engine_ok: "congress_New cfg [] putOK = Some c \<Longrightarrow> engine_ok cr c"
  by (auto simp: congress_New_def engine_ok_def all_good_def)

theorem engine_snapshot_reachable_witness:
  "\<exists>c r c'. congress_New MainnetChainConfig [] (\<lambda>_. True) = Some c \<and>
     congress_snapshot c (hc_chain MainnetChainConfig (genesis_db demo_kec demo_genesis)) demo_crypto 0 0 [] =
       Some (r, c') \<and> engine_ok demo_crypto c'"
proof -
  obtain c where c: "congress_New MainnetChainConfig [] (\<lambda>_. True) = Some c"
    by (simp add: congress_New_def MainnetChainConfig_def)
  from engine_snapshot_reachable [OF demo_db_ok New_engine_ok [OF c], of "[]"] c show ?thesis by fastforce
qed

subsection \<open>What an accepted seal guarantees\<close>

lemma recents_limit_unat: "snap_ok s \<Longrightarrow> unat (recents_limit (snap_Validators s)) = length (snap_Validators s) div 2 + 1"
  unfolding recents_limit_def by (rule unat_limit) (simp add: snap_ok_def)

text \<open>From block \<open>limit\<close> on, the recency test of \<^verbatim>\<open>verifySeal\<close> agrees with the pruning done by \<^verbatim>\<open>apply\<close>.\<close>

lemma recently_signed_prune:
  assumes "snap_ok s" "unat (snap_Number s) + 1 < 2 ^ 64" "recents_limit (snap_Validators s) \<le> snap_Number s + 1"
  shows "recently_signed s (snap_Number s + 1) v \<longleftrightarrow>
    v \<in> snd ` set (prune_recents (snap_Number s + 1) (snap_Validators s) (snap_Recents s))"
proof -
  let ?N = "snap_Number s + 1" and ?l = "recents_limit (snap_Validators s)"
  have N1: "unat ?N = unat (snap_Number s) + 1" using assms(2) unat_add_no_overflow [of "snap_Number s" 1] by simp
  have d: "unat (?N - ?l) = unat ?N - unat ?l" using unat_sub [OF assms(3)] .
  have "?N - ?l < k \<longleftrightarrow> k \<noteq> ?N - ?l" if "(k, v) \<in> set (snap_Recents s)" for k v
  proof -
    have "unat (snap_Number s) < unat k + unat ?l"
      using assms(1) that recents_limit_unat [OF assms(1)]
      by (fastforce simp: snap_ok_def recents_ok_def in_window_def)
    then have "unat (?N - ?l) \<le> unat k" using d N1 by linarith
    then show ?thesis by (auto simp: word_le_nat_alt [symmetric])
  qed
  then have "recently_signed s ?N v \<longleftrightarrow> (\<exists>k. (k, v) \<in> set (snap_Recents s) \<and> k \<noteq> ?N - ?l)"
    by (auto simp: recently_signed_def)
  also have "\<dots> \<longleftrightarrow> v \<in> snd ` set (gm_del (snap_Recents s) (?N - ?l))" by (force simp: set_gm_del)
  finally show ?thesis using assms(3) by (simp add: prune_recents_def Let_def)
qed

lemma header_checks_extra:
  "header_checks c cfg cr now h n = Inr () \<Longrightarrow> extra_validators (h_Extra h) \<noteq> Inl e \<and> Epoch (cg_config c) \<noteq> 0"
  by (auto simp: header_checks_def extra_validators_def congress_consts Let_def split: if_splits)

lemma seal_check_Inr:
  "seal_check fd cr s n h = Inr () \<Longrightarrow> ecrecover cr h = Inr (h_Coinbase h) \<and>
     gm_get (snap_Validators s) (h_Coinbase h) \<noteq> None \<and> \<not> recently_signed s n (h_Coinbase h) \<and>
     (\<not> fd \<longrightarrow> (\<exists>t. inturn s n (h_Coinbase h) = Some t \<and> h_Difficulty h = Some (if t then diffInTurn else diffNoTurn)))"
  by (auto simp: seal_check_def rbind_Inr_iff split: if_splits option.splits)


lemma VerifyEip1559_gaslimit:
  "VerifyEip1559Header cfg p h = Inr () \<Longrightarrow> VerifyGaslimit (h_GasLimit p) (h_GasLimit h) = Inr ()"
  by (auto simp: VerifyEip1559Header_def rbind_Inr_iff)

lemma lift_misc_Inr [simp]: "lift_misc r = Inr x \<longleftrightarrow> r = Inr x"
  by (cases r) (auto simp: lift_misc_def)

lemma parent_checks_Inr:
  assumes "parent_checks c cfg cr h n parent = Inr ()"
  shows "\<exists>p. parent = Some p \<and> header_number p = Some (n - 1) \<and> header_Hash (c_keccak cr) p = h_ParentHash h \<and>
    h_Time p + Period (cg_config c) \<le> h_Time h \<and> h_GasUsed h \<le> h_GasLimit h \<and>
    VerifyGaslimit (h_GasLimit p) (h_GasLimit h) = Inr () \<and>
    (if IsLondon cfg (h_Number h) then VerifyEip1559Header cfg p h = Inr () else h_BaseFee h = None)"
  using assms
  by (auto simp: parent_checks_def not_less dest: VerifyEip1559_gaslimit split: option.splits if_splits)

text \<open>C1. What it takes for a header to be accepted: whenever \<^verbatim>\<open>verifyHeader\<close> accepts a non-genesis header, it
  is not from the future, its parent is the named one and at least a period older, its gas limit moved
  within bounds, and the snapshot that the engine retrieves for the number and the hash of the parent is
  reachable and authorises the recovered signer, who is the coinbase, has not signed recently by this
  snapshot and set the difficulty of its turn. The header database and the engine's caches satisfy their
  invariants, the headers given along have an Extra shorter than 2^63 bytes, and the engine does not run
  with the test option that skips the difficulty check.\<close>

theorem verifyHeader_sound:
  assumes "db_ok kec db" "engine_ok cr c" "\<not> cg_fakeDiff c" "\<forall>p \<in> set parents. length (h_Extra p) < 2 ^ 63"
    and "verifyHeader c (hc_chain config db) cr now h parents = Some (Inr (), c')"
    and "header_number h = Some n" "n \<noteq> 0"
  shows "\<exists>p s t. header_number p = Some (n - 1) \<and> header_Hash (c_keccak cr) p = h_ParentHash h \<and>
    h_Time p + Period (cg_config c) \<le> h_Time h \<and> h_Time h \<le> now \<and> h_GasUsed h \<le> h_GasLimit h \<and>
    VerifyGaslimit (h_GasLimit p) (h_GasLimit h) = Inr () \<and>
    congress_snapshot c (hc_chain config db) cr (n - 1) (h_ParentHash h) parents = Some (Inr s, c') \<and>
    reachable cr s \<and> ecrecover cr h = Inr (h_Coinbase h) \<and> gm_get (snap_Validators s) (h_Coinbase h) \<noteq> None \<and>
    \<not> recently_signed s n (h_Coinbase h) \<and> inturn s n (h_Coinbase h) = Some t \<and>
    h_Difficulty h = Some (if t then diffInTurn else diffNoTurn)"
proof -
  let ?ch = "hc_chain config db"
  let ?p = "if parents \<noteq> [] then Some (last parents) else ch_GetHeader ?ch (h_ParentHash h) (n - 1)"
  have hc: "header_checks c (ch_Config ?ch) cr now h n = Inr ()"
    and casc: "verifyCascadingFields c ?ch cr h parents = Some (Inr (), c')"
    using assms(5,6) by (auto simp: verifyHeader_def split: sum.splits)
  then have now: "h_Time h \<le> now" by (auto simp: header_checks_def split: if_splits)
  have pc: "parent_checks c (ch_Config ?ch) cr h n ?p = Inr ()" and vs: "verifySeal c ?ch cr h parents = Some (Inr (), c')"
    using casc assms(6,7) by (auto simp: verifyCascadingFields_def Let_def split: sum.splits if_splits)
  obtain s where s: "congress_snapshot c ?ch cr (n - 1) (h_ParentHash h) parents = Some (Inr s, c')"
    and sc: "seal_check (cg_fakeDiff c) cr s n h = Inr ()"
    using vs assms(6,7) by (auto simp: verifySeal_def split: option.splits sum.splits)
  have "reachable cr s"
    using hc.congress_snapshot_sound [OF assms(1,2), of parents config "n - 1" "h_ParentHash h"] s assms(4)
    by (auto simp: small_extra_def snap_good_def)
  with s parent_checks_Inr [OF pc] now seal_check_Inr [OF sc] assms(3) show ?thesis by blast
qed

text \<open>C5. A header that passes the engine's checks extends the snapshot: from block \<open>n/2 + 1\<close> on, if a header
  passes the stand-alone checks and the seal check against the snapshot of its parent, the snapshot of
  the header itself exists, so an accepted block never blocks its successors.\<close>

theorem verified_header_applies:
  assumes "reachable cr s" "unat (snap_Number s) + 1 < 2 ^ 64" "snap_config s = cg_config c"
    and "header_number h = Some (snap_Number s + 1)" "recents_limit (snap_Validators s) \<le> snap_Number s + 1"
    and "header_checks c cfg cr now h (snap_Number s + 1) = Inr ()"
    and "seal_check fd cr s (snap_Number s + 1) h = Inr ()"
  shows "\<exists>t. snap_apply cr s [h] = Inr t"
proof -
  let ?V = "snap_Validators s" and ?N = "snap_Number s + 1"
  have ok: "snap_ok s" using reachable_ok [OF assms(1)] .
  have c: "snap_copy s = s" using ok by (intro snap_copy_id) (auto simp: snap_ok_def recents_ok_def)
  note sc = seal_check_Inr [OF assms(7)]
  have nr: "h_Coinbase h \<notin> snd ` set (prune_recents ?N ?V (snap_Recents s))"
    using sc recently_signed_prune [OF ok assms(2,5)] by blast
  have "\<exists>u. apply_header cr s h = Inr u"
    using sc nr header_checks_extra [OF assms(6)] assms(3,4) by (intro apply_header_accepts) auto
  then show ?thesis using assms(4) by (auto simp: snap_apply_Inr c)
qed

text \<open>The recency test of \<^verbatim>\<open>verifySeal\<close> wraps around in the first \<open>n/2\<close> blocks: there it accepts every
  signer, and a block can pass the seal check whose application to the snapshot then fails.\<close>

theorem early_recency_wraps:
  assumes "number < recents_limit (snap_Validators s)" "snap_ok s" "unat (snap_Number s) < unat number"
  shows "\<not> recently_signed s number v"
proof
  assume "recently_signed s number v"
  then obtain k where k: "(k, v) \<in> set (snap_Recents s)" "k > number - recents_limit (snap_Validators s)"
    by (auto simp: recently_signed_def)
  let ?l = "recents_limit (snap_Validators s)"
  have "unat k \<le> unat (snap_Number s)" using assms(2) k(1) by (force simp: snap_ok_def recents_ok_def in_window_def)
  then have "k < number" using assms(3) by (simp add: word_less_nat_alt)
  have "unat number < unat ?l" using assms(1) by (simp add: word_less_nat_alt)
  moreover have "unat ?l < 2 ^ 63" using recents_limit_unat [OF assms(2)] assms(2) by (auto simp: snap_ok_def)
  ultimately have "unat (number - ?l) = 2 ^ 64 - (unat ?l - unat number)" by (simp add: unat_sub_if')
  then have "unat number \<le> unat (number - ?l)" using \<open>unat number < unat ?l\<close> \<open>unat ?l < 2 ^ 63\<close> by simp
  then show False using k(2) \<open>k < number\<close> by (simp add: word_less_nat_alt)
qed


subsection \<open>Examples\<close>

definition demo_block :: "int \<Rightarrow> byte \<Rightarrow> int \<Rightarrow> u64 \<Rightarrow> Header" where
  "demo_block n v d t = header0\<lparr>h_Number := Some n, h_Coinbase := ucast v, h_Difficulty := Some d,
     h_ParentHash := header_Hash (c_keccak demo_crypto) demo_genesis,
     h_UncleHash := CalcUncleHash (c_keccak demo_crypto) [], h_GasLimit := 6000, h_Time := t,
     h_Extra := replicate 96 0 @ [v]\<rparr>"

definition demo_engine :: congress where
  "demo_engine = \<lparr>cg_chainConfig = MainnetChainConfig, cg_config = demo_config, cg_db = [], cg_putOK = (\<lambda>_. True),
     cg_recents = [], cg_validator = 2, cg_fakeDiff = False\<rparr>"

lemma demo_engine_ok: "engine_ok cr demo_engine"
  by (simp add: engine_ok_def all_good_def demo_engine_def)

lemma demo_block_sel:
  "header_number (demo_block n v d t) = Some (big_Uint64 n)" "h_Coinbase (demo_block n v d t) = ucast v"
  "h_Difficulty (demo_block n v d t) = Some d" "h_GasLimit (demo_block n v d t) = 6000"
  "h_Extra (demo_block n v d t) = replicate 96 0 @ [v]" "h_Time (demo_block n v d t) = t"
  "h_Number (demo_block n v d t) = Some n" "h_GasUsed (demo_block n v d t) = 0" "h_BaseFee (demo_block n v d t) = None"
  "h_MixDigest (demo_block n v d t) = 0" "h_UncleHash (demo_block n v d t) = CalcUncleHash (c_keccak demo_crypto) []"
  "h_ParentHash (demo_block n v d t) = header_Hash (c_keccak demo_crypto) demo_genesis"
  by (simp_all add: demo_block_def header_number_def header0_def)

lemma demo_block_ecrecover:
  "0 \<le> n \<Longrightarrow> n < 2 ^ 64 \<Longrightarrow> 0 \<le> d \<Longrightarrow> d \<le> 2 \<Longrightarrow> ecrecover demo_crypto (demo_block n v d t) = Inr (ucast v)"
proof (rule demo_ecrecover_extra)
  assume n: "0 \<le> n" "n < 2 ^ 64" and d: "0 \<le> d" "d \<le> 2"
  have "nat \<bar>d\<bar> < 2 ^ 80" using d by (simp add: nat_less_iff)
  then show "SanityCheck (demo_block n v d t) = Inr ()"
    using n by (simp add: SanityCheck_def demo_block_sel big_IsUint64_def big_BitLen_def nat_BitLen_le not_less)
  show "header_nonneg (demo_block n v d t)"
    using n d by (simp add: header_nonneg_def demo_block_sel big_nonneg_def)
qed (simp add: demo_block_sel)

lemma demo_block_checks:
  assumes "0 < n" "n < 2 ^ 64" "t \<le> now" "Epoch (cg_config c) \<noteq> 0" "big_Uint64 n mod Epoch (cg_config c) \<noteq> 0"
  shows "header_checks c MainnetChainConfig demo_crypto now (demo_block n v d t) (big_Uint64 n) = Inr ()"
  using assms
  by (simp add: header_checks_def demo_block_sel congress_consts VerifyForkHashes_def MainnetChainConfig_def
      Let_def not_less word_less_nat_alt [of "0x7fffffffffffffff"])

theorem verified_header_applies_witness:
  "\<exists>t. snap_apply demo_crypto demo_snapshot [demo_block 8 1 1 5] = Inr t"
proof -
  have s: "snap_Number demo_snapshot + 1 = 8" "snap_config demo_snapshot = cg_config demo_engine"
    "snap_Validators demo_snapshot = [(3, ()), (1, ()), (2, ())]" "snap_Recents demo_snapshot = []"
    "snap_Number demo_snapshot = 7"
    by (simp_all add: demo_snapshot_def newSnapshot_def demo_engine_def add_validators_def gm_set_def)
  have v: "validators demo_snapshot = [1, 2, 3]"
    by (simp add: validators_sort s gm_keys_def sort_key_def word_le_nat_alt)
  have n: "big_Uint64 8 = 8" by (simp add: big_Uint64_def)
  have hc: "header_checks demo_engine MainnetChainConfig demo_crypto 5 (demo_block 8 1 1 5) 8 = Inr ()"
    using demo_block_checks [of 8 5 5 demo_engine 1 1]
    by (simp add: n demo_engine_def demo_config_def)
  have sc: "seal_check False demo_crypto demo_snapshot 8 (demo_block 8 1 1 5) = Inr ()"
    using demo_block_ecrecover [of 8 1 1 5]
    by (simp add: seal_check_def demo_block_sel s recently_signed_def inturn_def v congress_consts Let_def)
  have "recents_limit (snap_Validators demo_snapshot) \<le> snap_Number demo_snapshot + 1"
    by (simp add: s recents_limit_def word_le_nat_alt)
  moreover have "header_number (demo_block 8 1 1 5) = Some (snap_Number demo_snapshot + 1)"
    by (simp add: demo_block_sel s n)
  moreover have "unat (snap_Number demo_snapshot) + 1 < 2 ^ 64" by (simp add: s)
  ultimately show ?thesis
    using verified_header_applies [OF demo_reachable _ s(2)] hc sc unfolding s(1) by blast
qed


lemma demo_snapshot_at_genesis:
  "\<exists>x c'. congress_snapshot demo_engine (hc_chain MainnetChainConfig (genesis_db demo_kec demo_genesis)) demo_crypto
     0 hash parents = Some (Inr (newSnapshot demo_config 0 x [3, 1, 2]), c')"
proof -
  let ?db = "genesis_db demo_kec demo_genesis"
  let ?ch = "hc_chain MainnetChainConfig ?db"
  have gh: "ch_GetHeaderByNumber ?ch 0 = Some (CopyHeader demo_genesis)"
    using demo_genesis_nonzero
    by (simp add: hc_chain_def hc_GetHeaderByNumber_def ReadCanonicalHash_def genesis_db_def hc_GetHeader_def
        ReadHeader_def Let_def)
  have "h_Extra demo_genesis = replicate 32 0 @ concat (map address_bytes [3, 1, 2]) @ replicate 65 0"
    by (simp add: demo_genesis_def)
  then have ev: "extra_validators (h_Extra (CopyHeader demo_genesis)) = Inr [3, 1, 2]"
    using extra_validators_encode [of "replicate 32 0" "replicate 65 0" "[3, 1, 2]"] by (simp add: congress_consts)
  define x where "x = header_Hash (c_keccak demo_crypto) (CopyHeader demo_genesis)"
  have cp: "\<exists>c'. checkpoint_snapshot demo_engine ?ch demo_crypto 0 [] = Some (Inr (newSnapshot demo_config 0 x [3, 1, 2]), c')"
    unfolding checkpoint_snapshot_def gh using ev
    by (simp add: snap_store_def demo_engine_def x_def Let_def)
  then have "\<exists>c'. snapshot_loop demo_engine ?ch demo_crypto 0 hash parents [] =
      Some (Inr (newSnapshot demo_config 0 x [3, 1, 2], []), c')"
    by (subst snapshot_loop.simps) (auto simp: loadSnapshot_def demo_engine_def)
  then show ?thesis by (auto simp: congress_snapshot_def Let_def newSnapshot_def)
qed

lemma demo_verifyHeader:
  "\<exists>c'. verifyHeader demo_engine (hc_chain MainnetChainConfig (genesis_db demo_kec demo_genesis)) demo_crypto 5
     (demo_block 1 2 2 3) [demo_genesis] = Some (Inr (), c')"
proof -
  let ?db = "genesis_db demo_kec demo_genesis" and ?b = "demo_block 1 2 2 3"
  let ?ch = "hc_chain MainnetChainConfig ?db"
  have n: "big_Uint64 1 = 1" by (simp add: big_Uint64_def)
  have hc: "header_checks demo_engine MainnetChainConfig demo_crypto 5 ?b 1 = Inr ()"
    using demo_block_checks [of 1 3 5 demo_engine 2 2] by (simp add: n demo_engine_def demo_config_def word_le_nat_alt)
  have g: "header_number demo_genesis = Some 0" "h_Time demo_genesis = 0" "h_GasLimit demo_genesis = 6000"
    by (simp_all add: header_number_def demo_genesis_def header0_def)
  have pc: "parent_checks demo_engine MainnetChainConfig demo_crypto ?b 1 (Some demo_genesis) = Inr ()"
    by (simp add: parent_checks_def g demo_block_sel n VerifyGaslimit_def fee_consts demo_engine_def demo_config_def
        IsLondon_def isForked_def MainnetChainConfig_def lift_misc_def word_less_nat_alt word_le_nat_alt Let_def)
  obtain x c' where sn: "congress_snapshot demo_engine ?ch demo_crypto 0 (h_ParentHash ?b) [demo_genesis] =
      Some (Inr (newSnapshot demo_config 0 x [3, 1, 2]), c')" using demo_snapshot_at_genesis by blast
  define s where "s = newSnapshot demo_config 0 x [3, 1, 2]"
  have s: "snap_Validators s = [(3, ()), (1, ()), (2, ())]" "snap_Recents s = []"
    by (simp_all add: s_def newSnapshot_def add_validators_def gm_set_def)
  have v: "validators s = [1, 2, 3]"
    by (simp add: validators_sort s gm_keys_def sort_key_def word_le_nat_alt)
  have sc: "seal_check False demo_crypto s 1 ?b = Inr ()"
    using demo_block_ecrecover [of 1 2 2 3]
    by (simp add: seal_check_def demo_block_sel s recently_signed_def inturn_def v congress_consts Let_def)
  have "verifySeal demo_engine ?ch demo_crypto ?b [demo_genesis] = Some (Inr (), c')"
    using sn sc by (simp add: verifySeal_def demo_block_sel n s_def demo_engine_def)
  then show ?thesis
    using hc pc by (simp add: verifyHeader_def verifyCascadingFields_def demo_block_sel n hc_chain_def)
qed

theorem verifyHeader_sound_witness:
  "\<exists>p s c'. header_number p = Some 0 \<and> reachable demo_crypto s \<and>
     congress_snapshot demo_engine (hc_chain MainnetChainConfig (genesis_db demo_kec demo_genesis)) demo_crypto 0
       (h_ParentHash (demo_block 1 2 2 3)) [demo_genesis] = Some (Inr s, c') \<and>
     ecrecover demo_crypto (demo_block 1 2 2 3) = Inr 2 \<and> gm_get (snap_Validators s) 2 \<noteq> None \<and>
     inturn s 1 2 = Some True"
proof -
  obtain c' where v: "verifyHeader demo_engine (hc_chain MainnetChainConfig (genesis_db demo_kec demo_genesis))
      demo_crypto 5 (demo_block 1 2 2 3) [demo_genesis] = Some (Inr (), c')" using demo_verifyHeader by blast
  have "length (h_Extra demo_genesis) < 2 ^ 63" "\<not> cg_fakeDiff demo_engine"
    by (simp_all add: demo_genesis_def demo_engine_def)
  moreover have "header_number (demo_block 1 2 2 3) = Some 1" by (simp add: demo_block_sel big_Uint64_def)
  ultimately obtain p s t where r: "header_number p = Some (1 - 1)"
      "congress_snapshot demo_engine (hc_chain MainnetChainConfig (genesis_db demo_kec demo_genesis)) demo_crypto
        (1 - 1) (h_ParentHash (demo_block 1 2 2 3)) [demo_genesis] = Some (Inr s, c')" "reachable demo_crypto s"
      "ecrecover demo_crypto (demo_block 1 2 2 3) = Inr (h_Coinbase (demo_block 1 2 2 3))"
      "gm_get (snap_Validators s) (h_Coinbase (demo_block 1 2 2 3)) \<noteq> None"
      "inturn s 1 (h_Coinbase (demo_block 1 2 2 3)) = Some t"
      "h_Difficulty (demo_block 1 2 2 3) = Some (if t then diffInTurn else diffNoTurn)"
    using verifyHeader_sound [OF demo_db_ok demo_engine_ok _ _ v, of 1] by auto
  from r(7) have "t" by (simp add: demo_block_sel congress_consts split: if_splits)
  with r(1-6) show ?thesis by (auto simp: demo_block_sel)
qed

text \<open>Five validators at genesis, after block 1 signed by validator 2.\<close>

definition early_snapshot :: Snapshot where
  "early_snapshot = (newSnapshot demo_config 0 0 [1, 2, 3, 4, 5])\<lparr>snap_Number := 1,
     snap_Hash := header_Hash (c_keccak demo_crypto) (demo_header 1 2), snap_Recents := [(1, 2)]\<rparr>"

lemma early_reachable: "reachable demo_crypto early_snapshot"
proof (rule reachable.advance [of _ "newSnapshot demo_config 0 0 [1, 2, 3, 4, 5]" "[demo_header 1 2]"])
  let ?s = "newSnapshot demo_config 0 0 [1, 2, 3, 4, 5]"
  show r: "reachable demo_crypto ?s" by (rule reachable.start) simp
  have c: "snap_copy ?s = ?s"
    using reachable_ok [OF r] by (intro snap_copy_id) (auto simp: snap_ok_def recents_ok_def)
  have n: "header_number (demo_header 1 2) = Some 1" "h_Number (demo_header 1 2) = Some 1"
    by (simp_all add: header_number_def demo_header_def big_Uint64_def)
  show "snap_apply demo_crypto ?s [demo_header 1 2] = Inr early_snapshot"
    using demo_ecrecover [of 1 2] unfolding snap_apply_def c
    by (simp add: n newSnapshot_def early_snapshot_def apply_header_def big_Uint64_def
        prune_recents_def recents_limit_def add_validators_def gm_set_def gm_del_def demo_config_def Let_def)
qed (simp_all add: newSnapshot_def demo_header_def)

theorem early_recency_wraps_witness:
  "\<not> recently_signed early_snapshot 2 2 \<and>
   seal_check False demo_crypto early_snapshot 2 (demo_block 2 2 1 9) = Inr () \<and>
   snap_apply demo_crypto early_snapshot [demo_block 2 2 1 9] = Inl errRecentlySigned"
proof -
  have s: "snap_Validators early_snapshot = [(1, ()), (2, ()), (3, ()), (4, ()), (5, ())]"
    "snap_Recents early_snapshot = [(1, 2)]" "snap_Number early_snapshot = 1"
    by (simp_all add: early_snapshot_def newSnapshot_def add_validators_def gm_set_def)
  have nr: "\<not> recently_signed early_snapshot 2 2"
    by (rule early_recency_wraps) (simp_all add: s recents_limit_def reachable_ok [OF early_reachable] word_less_nat_alt)
  have v: "validators early_snapshot = [1, 2, 3, 4, 5]"
    by (simp add: validators_sort s gm_keys_def sort_key_def word_le_nat_alt)
  have e: "ecrecover demo_crypto (demo_block 2 2 1 9) = Inr 2" using demo_block_ecrecover [of 2 1 2 9] by simp
  have c: "snap_copy early_snapshot = early_snapshot"
    using reachable_ok [OF early_reachable] by (intro snap_copy_id) (auto simp: snap_ok_def recents_ok_def)
  have "seal_check False demo_crypto early_snapshot 2 (demo_block 2 2 1 9) = Inr ()"
    using nr e by (simp add: seal_check_def demo_block_sel s inturn_def v congress_consts Let_def)
  moreover have "snap_apply demo_crypto early_snapshot [demo_block 2 2 1 9] = Inl errRecentlySigned"
    using e by (simp add: snap_apply_def c demo_block_sel s apply_header_def big_Uint64_def prune_recents_def
        recents_limit_def Let_def)
  ultimately show ?thesis using nr by blast
qed


subsection \<open>A prepared header verifies\<close>

lemma length_pad_vanity [simp]: "length (pad_vanity x) = extraVanity"
  by (simp add: pad_vanity_def)

lemma put_seal_replace:
  "length sig = extraSeal \<Longrightarrow> put_seal (e @ replicate extraSeal 0) sig = e @ sig"
  by (simp add: put_seal_def Let_def)

lemma prepare_header_Inr:
  assumes "prepare_header c ch now vmTop s h n = Inr h'"
  obtains d e p where "calcDifficulty s (cg_validator c) = Inr d"
    "prepare_extra c ch vmTop (h\<lparr>h_Difficulty := Some d\<rparr>) n = Inr e"
    "ch_GetHeader ch (h_ParentHash h) (n - 1) = Some p"
    "h' = h\<lparr>h_Difficulty := Some d, h_Extra := e @ replicate extraSeal 0, h_MixDigest := 0,
           h_Time := max (h_Time p + Period (cg_config c)) now\<rparr>"
proof -
  let ?b = "\<lambda>d e. case ch_GetHeader ch (h_ParentHash h) (n - 1) of None \<Rightarrow> Inl ErrUnknownAncestor
      | Some parent \<Rightarrow> Inr (h\<lparr>h_Difficulty := Some d, h_Extra := e @ replicate extraSeal 0, h_MixDigest := 0,
          h_Time := (if h_Time parent + Period (cg_config c) < now then now else h_Time parent + Period (cg_config c))\<rparr>)"
  obtain d e where d: "calcDifficulty s (cg_validator c) = Inr d"
    "prepare_extra c ch vmTop (h\<lparr>h_Difficulty := Some d\<rparr>) n = Inr e" "?b d e = Inr h'"
    using assms unfolding prepare_header_def rbind_Inr_iff Let_def by blast
  have mx: "(if t < now then now else t) = max t now" for t by (auto simp: max_def)
  show ?thesis
  proof (cases "ch_GetHeader ch (h_ParentHash h) (n - 1)")
    case (Some p)
    then show ?thesis using d(3) that [OF d(1,2)] unfolding mx by simp
  qed (use d(3) in simp)
qed

lemma calcDifficulty_Inr:
  "calcDifficulty s v = Inr d \<Longrightarrow> \<exists>t. inturn s (snap_Number s + 1) v = Some t \<and> d = (if t then diffInTurn else diffNoTurn)"
  by (cases "inturn s (snap_Number s + 1) v") (auto simp: calcDifficulty_def)

lemma seal_checkI:
  assumes "ecrecover cr h = Inr (h_Coinbase h)" "gm_get (snap_Validators s) (h_Coinbase h) \<noteq> None"
    "\<not> recently_signed s n (h_Coinbase h)" "inturn s n (h_Coinbase h) = Some t"
    "h_Difficulty h = Some (if t then diffInTurn else diffNoTurn)"
  shows "seal_check fd cr s n h = Inr ()"
  using assms by (auto simp: seal_check_def)

text \<open>C8. A block that an authorised validator outside the recency window prepares and seals verifies: suppose the
  snapshot of the parent lists the preparing validator and, by the recency test of \<^verbatim>\<open>verifySeal\<close>, it has
  not signed recently (a validator that \<^verbatim>\<open>Seal\<close> lets through with its emergency override although it
  signed recently is thus not covered; its block is rejected). Then the header from \<^verbatim>\<open>Prepare\<close>, with its
  last 65 bytes replaced by a signature that recovers to the preparing validator, passes the seal check
  of every node that holds this snapshot, keeps the minimum period, and carries in its extra-data
  exactly the sorted validators that the contract returns at an epoch block and none otherwise.\<close>

theorem Prepare_verifies:
  assumes "Prepare c ch cr now vmTop h = Some (Inr h', c')" "header_number h = Some n"
    and "congress_snapshot c ch cr (n - 1) (h_ParentHash h) [] = Some (Inr s, c')" "snap_Number s + 1 = n"
    and "length sig = extraSeal" "h'' = h'\<lparr>h_Extra := put_seal (h_Extra h') sig\<rparr>"
    and "ecrecover cr h'' = Inr (cg_validator c)" "gm_get (snap_Validators s) (cg_validator c) \<noteq> None"
    and "\<not> recently_signed s n (cg_validator c)"
  shows "seal_check fd cr s n h'' = Inr () \<and>
    (\<exists>p. ch_GetHeader ch (h_ParentHash h) (n - 1) = Some p \<and> h_Time p + Period (cg_config c) \<le> h_Time h'' \<and>
       (if n mod Epoch (cg_config c) = 0
        then \<exists>vs. vmTop p (h'\<lparr>h_Extra := pad_vanity (h_Extra h), h_MixDigest := h_MixDigest h, h_Time := h_Time h\<rparr>) = Inr vs \<and>
               extra_validators (h_Extra h'') = Inr (sort vs)
        else length (h_Extra h'') = extraVanity + extraSeal))"
proof -
  let ?h = "h\<lparr>h_Coinbase := cg_validator c, h_Nonce := 0\<rparr>"
  have "header_number ?h = Some n" using assms(2) by (simp add: header_number_def)
  then have ph: "prepare_header c ch now vmTop s ?h n = Inr h'"
    using assms(1,3) by (simp add: Prepare_def Let_def)
  then obtain d e p where d: "calcDifficulty s (cg_validator c) = Inr d"
    "prepare_extra c ch vmTop (?h\<lparr>h_Difficulty := Some d\<rparr>) n = Inr e"
    "ch_GetHeader ch (h_ParentHash h) (n - 1) = Some p"
    and h': "h' = ?h\<lparr>h_Difficulty := Some d, h_Extra := e @ replicate extraSeal 0, h_MixDigest := 0,
           h_Time := max (h_Time p + Period (cg_config c)) now\<rparr>"
    by (elim prepare_header_Inr) simp
  have x: "h_Extra h'' = e @ sig" using assms(5,6) h' by (simp add: put_seal_replace)
  have sel: "h_Coinbase h'' = cg_validator c" "h_Difficulty h'' = Some d"
    "h_Time h'' = max (h_Time p + Period (cg_config c)) now" using assms(6) h' by simp_all
  have "seal_check fd cr s n h'' = Inr ()"
    using calcDifficulty_Inr [OF d(1)] assms(4,7-9) sel by (auto intro!: seal_checkI)
  moreover have "if n mod Epoch (cg_config c) = 0
      then \<exists>vs. vmTop p (?h\<lparr>h_Difficulty := Some d, h_Extra := pad_vanity (h_Extra h)\<rparr>) = Inr vs \<and> extra_validators (h_Extra h'') = Inr (sort vs)
      else length (h_Extra h'') = extraVanity + extraSeal"
  proof -
    have hn: "header_number (?h\<lparr>h_Difficulty := Some d, h_Extra := x\<rparr>) = Some n" for x using assms(2) by (simp add: header_number_def)
    have ins: "foldr insert_asc vs [] = sort vs" for vs
    proof -
      have "insert_asc = insort" by (intro ext insert_asc_insort)
      then show ?thesis by (simp add: sort_key_def)
    qed
    show ?thesis
      using d(2,3) assms(5) hn
      by (auto simp: prepare_extra_def Let_def getTopValidators_def x ins rbind_Inr_iff extra_validators_encode
          split: if_splits)
  qed
  moreover have "h'\<lparr>h_Extra := pad_vanity (h_Extra h), h_MixDigest := h_MixDigest h, h_Time := h_Time h\<rparr> =
      ?h\<lparr>h_Difficulty := Some d, h_Extra := pad_vanity (h_Extra h)\<rparr>"
    by (simp add: h')
  ultimately show ?thesis using d(3) sel(3) by auto
qed


definition demo_unsealed :: Header where
  "demo_unsealed = header0\<lparr>h_Number := Some 1, h_ParentHash := header_Hash demo_kec demo_genesis\<rparr>"

theorem Prepare_verifies_witness:
  "\<exists>h' c' s. Prepare demo_engine (hc_chain MainnetChainConfig (genesis_db demo_kec demo_genesis)) demo_crypto 9
      (\<lambda>_ _. Inl Panic) demo_unsealed = Some (Inr h', c') \<and>
    seal_check False demo_crypto s 1 (h'\<lparr>h_Extra := put_seal (h_Extra h') (replicate 64 0 @ [2])\<rparr>) = Inr ()"
proof -
  let ?ch = "hc_chain MainnetChainConfig (genesis_db demo_kec demo_genesis)"
  obtain x c' where sn: "congress_snapshot demo_engine ?ch demo_crypto 0 (h_ParentHash demo_unsealed) [] =
      Some (Inr (newSnapshot demo_config 0 x [3, 1, 2]), c')" using demo_snapshot_at_genesis by blast
  define s where "s = newSnapshot demo_config 0 x [3, 1, 2]"
  have s: "snap_Validators s = [(3, ()), (1, ()), (2, ())]" "snap_Recents s = []" "snap_Number s = 0"
    by (simp_all add: s_def newSnapshot_def add_validators_def gm_set_def)
  have v: "validators s = [1, 2, 3]" by (simp add: validators_sort s gm_keys_def sort_key_def word_le_nat_alt)
  have n: "header_number demo_unsealed = Some 1" "h_Extra demo_unsealed = []"
    by (simp_all add: header_number_def demo_unsealed_def big_Uint64_def header0_def)
  have nu: "header_number (demo_unsealed\<lparr>h_Coinbase := v, h_Nonce := 0\<rparr>) = Some 1" for v
    using n(1) by (simp add: header_number_def)
  have g: "ch_GetHeader ?ch (h_ParentHash demo_unsealed) 0 = Some (CopyHeader demo_genesis)"
    by (simp add: hc_chain_def hc_GetHeader_def ReadHeader_def demo_unsealed_def genesis_db_def)
  have d: "calcDifficulty s 2 = Inr 2" by (simp add: calcDifficulty_def inturn_def v s congress_consts Let_def)
  let ?u = "demo_unsealed\<lparr>h_Coinbase := 2, h_Nonce := 0\<rparr>"
  define h' where "h' = ?u\<lparr>h_Difficulty := Some 2, h_Extra := replicate 32 0 @ replicate extraSeal 0,
    h_MixDigest := 0, h_Time := 9\<rparr>"
  have "cg_validator demo_engine = 2" by (simp add: demo_engine_def)
  have "h_Time demo_genesis = 0" by (simp add: demo_genesis_def header0_def)
  then have "h_Time (CopyHeader demo_genesis) + Period (cg_config demo_engine) < 9"
    by (simp add: CopyHeader_def demo_engine_def demo_config_def word_less_nat_alt)
  then have "prepare_header demo_engine ?ch 9 (\<lambda>_ _. Inl Panic) s ?u 1 = Inr h'"
    using d g n(2) by (simp add: prepare_header_def prepare_extra_def demo_engine_def demo_config_def pad_vanity_def
        extraVanity_def h'_def Let_def)
  then have pr: "Prepare demo_engine ?ch demo_crypto 9 (\<lambda>_ _. Inl Panic) demo_unsealed = Some (Inr h', c')"
    unfolding Prepare_def Let_def using sn nu \<open>cg_validator demo_engine = 2\<close> by (simp add: s_def)
  define h'' where "h'' = h'\<lparr>h_Extra := put_seal (h_Extra h') (replicate 64 0 @ [2])\<rparr>"
  have x: "h_Extra h'' = replicate 96 0 @ [2]"
    by (simp add: h''_def h'_def put_seal_def extraSeal_def Let_def flip: replicate_add append_assoc)
  have "ecrecover demo_crypto h'' = Inr (ucast (2 :: byte))"
    by (rule demo_ecrecover_extra)
      (simp_all add: x SanityCheck_def header_nonneg_def big_nonneg_def, simp_all add: h''_def h'_def demo_unsealed_def
        header0_def big_IsUint64_def big_BitLen_def nat_BitLen.simps)
  then have er: "ecrecover demo_crypto h'' = Inr (cg_validator demo_engine)" by (simp add: demo_engine_def)
  have auth: "gm_get (snap_Validators s) (cg_validator demo_engine) \<noteq> None" "\<not> recently_signed s 1 (cg_validator demo_engine)"
    "snap_Number s + 1 = 1" by (simp_all add: s demo_engine_def recently_signed_def)
  have sn1: "congress_snapshot demo_engine ?ch demo_crypto (1 - 1) (h_ParentHash demo_unsealed) [] = Some (Inr s, c')"
    using sn by (simp add: s_def)
  have "seal_check False demo_crypto s 1 h'' = Inr ()"
    using Prepare_verifies [OF pr n(1) sn1 auth(3) _ h''_def er auth(1,2), of False] by (simp add: extraSeal_def)
  with pr show ?thesis unfolding h''_def by blast
qed

subsection \<open>Sealing\<close>

text \<open>Without an emergency a validator only seals blocks that verify: when fewer than three quarters of the
  validators are recent signers and the recency window is full, \<^verbatim>\<open>Seal\<close> goes ahead exactly if the
  seal check will not reject the validator as a recent signer.\<close>

theorem Seal_agrees_with_verify:
  assumes "reachable cr s" "length (snap_Recents s) < (length (snap_Validators s) * 3) div 4"
    and "recents_limit (snap_Validators s) \<le> number"
  shows "seal_loop s number val (snap_Recents s) = Inr (\<not> recently_signed s number val)"
proof -
  have d: "distinct (map snd (snap_Recents s))"
    using reachable_ok [OF assms(1)] by (simp add: snap_ok_def recents_ok_def)
  have entry: "seal_entry s number val seen = Inr (\<not> seen > number - recents_limit (snap_Validators s))" for seen
    using assms(2,3) by (auto simp: seal_entry_def Let_def not_less)
  have "seal_loop s number val es =
      Inr (\<not> (\<exists>(seen, recent) \<in> set es. recent = val \<and> seen > number - recents_limit (snap_Validators s)))"
    if "distinct (map snd es)" for es
    using that
  proof (induction es)
    case (Cons e es)
    obtain k v where e: "e = (k, v)" by (cases e)
    show ?case
    proof (cases "v = val")
      case True
      then have "\<forall>k'. (k', val) \<notin> set es" using Cons.prems e by force
      then show ?thesis using True e entry by auto
    qed (use Cons e in auto)
  qed simp
  from this [OF d] show ?thesis by (simp add: recently_signed_def)
qed

lemma distinct_example: "length (snap_Recents demo_snapshot) < (length (snap_Validators demo_snapshot) * 3) div 4"
  by (simp add: demo_snapshot_def newSnapshot_def length_add_validators)

theorem Seal_agrees_with_verify_witness:
  "seal_loop demo_snapshot 8 2 (snap_Recents demo_snapshot) = Inr (\<not> recently_signed demo_snapshot 8 2)"
  by (rule Seal_agrees_with_verify [OF demo_reachable distinct_example])
    (simp add: demo_snapshot_def newSnapshot_def recents_limit_def length_add_validators word_le_nat_alt)

text \<open>Two validators; validator 1 signed block 11 and validator 2 block 12.\<close>

definition tight_snapshot :: Snapshot where
  "tight_snapshot = (newSnapshot demo_config 10 0 [1, 2])\<lparr>snap_Number := 12,
     snap_Hash := header_Hash (c_keccak demo_crypto) (demo_header 12 2), snap_Recents := [(11, 1), (12, 2)]\<rparr>"

lemma tight_reachable: "reachable demo_crypto tight_snapshot"
proof (rule reachable.advance [of _ "newSnapshot demo_config 10 0 [1, 2]" "[demo_header 11 1, demo_header 12 2]"])
  let ?s = "newSnapshot demo_config 10 0 [1, 2]"
  show r: "reachable demo_crypto ?s" by (rule reachable.start) simp
  have c: "snap_copy ?s = ?s"
    using reachable_ok [OF r] by (intro snap_copy_id) (auto simp: snap_ok_def recents_ok_def)
  have n: "h_Number (demo_header n v) = Some n" for n v by (simp add: demo_header_def)
  have a1: "apply_header demo_crypto ?s (demo_header 11 1) = Inr (?s\<lparr>snap_Recents := [(11, 1)]\<rparr>)"
    using demo_ecrecover [of 11 1]
    by (simp add: apply_header_def n newSnapshot_def big_Uint64_def prune_recents_def recents_limit_def
        add_validators_def gm_set_def gm_del_def demo_config_def Let_def)
  have a2: "apply_header demo_crypto (?s\<lparr>snap_Recents := [(11, 1)]\<rparr>) (demo_header 12 2) =
      Inr (?s\<lparr>snap_Recents := [(11, 1), (12, 2)]\<rparr>)"
    using demo_ecrecover [of 12 2]
    by (simp add: apply_header_def n newSnapshot_def big_Uint64_def prune_recents_def recents_limit_def
        add_validators_def gm_set_def gm_del_def demo_config_def Let_def)
  have "snap_Number ?s = 10" by (simp add: newSnapshot_def)
  then show "snap_apply demo_crypto ?s [demo_header 11 1, demo_header 12 2] = Inr tight_snapshot"
    by (simp add: snap_apply_def c header_number_def n big_Uint64_def a1 a2 tight_snapshot_def)
qed (simp_all add: newSnapshot_def demo_header_def)

text \<open>The emergency override of \<^verbatim>\<open>Seal\<close> is not matched by verification: with every validator among the
  recent signers, the in-turn validator seals a block that every node then rejects as recently signed.\<close>

theorem Seal_override_rejected:
  "reachable demo_crypto tight_snapshot \<and>
   seal_loop tight_snapshot 13 2 (snap_Recents tight_snapshot) = Inr True \<and>
   seal_check False demo_crypto tight_snapshot 13 (demo_block 13 2 2 9) = Inl errRecentlySigned"
proof -
  have s: "snap_Validators tight_snapshot = [(1, ()), (2, ())]" "snap_Recents tight_snapshot = [(11, 1), (12, 2)]"
    by (simp_all add: tight_snapshot_def newSnapshot_def add_validators_def gm_set_def)
  have v: "validators tight_snapshot = [1, 2]" by (simp add: validators_sort s gm_keys_def sort_key_def word_le_nat_alt)
  have "seal_loop tight_snapshot 13 2 (snap_Recents tight_snapshot) = Inr True"
    by (simp add: s seal_entry_def recents_limit_def inturn_def v MaxUint64_def word_less_nat_alt word_le_nat_alt Let_def)
  moreover have "seal_check False demo_crypto tight_snapshot 13 (demo_block 13 2 2 9) = Inl errRecentlySigned"
    using demo_block_ecrecover [of 13 2 2 9]
    by (simp add: seal_check_def demo_block_sel s recently_signed_def recents_limit_def word_less_nat_alt)
  ultimately show ?thesis using tight_reachable by blast
qed

subsection \<open>Punishment\<close>

text \<open>Only the validator whose turn was missed is punished: the target of \<^verbatim>\<open>tryPunishValidator\<close> is the
  authorised in-turn validator of the block, and it is spared exactly when it is a recent signer.\<close>

theorem punish_target_inturn:
  assumes "reachable cr s" "snap_Validators s \<noteq> []"
  shows "\<exists>v. inturn s number v = Some True \<and> gm_get (snap_Validators s) v \<noteq> None \<and>
    punish_target s number = Inr (if v \<in> snd ` set (snap_Recents s) then None else Some v)"
proof -
  have ok: "snap_ok s" using reachable_ok [OF assms(1)] .
  then have g: "gm_ok (snap_Validators s)" "length (snap_Validators s) < 2 ^ 63" by (auto simp: snap_ok_def)
  note p = validators_props [OF g(1)]
  have ne: "validators s \<noteq> []" using p(3) assms(2) by (metis length_0_conv)
  let ?v = "validators s ! (unat number mod length (validators s))"
  have "unat (number mod of_nat (length (validators s))) = unat number mod length (validators s)"
    using g p(3) by (simp add: unat_mod unat_of_nat_u64)
  then have "punish_target s number = Inr (if ?v \<in> snd ` set (snap_Recents s) then None else Some ?v)"
    using ne by (simp add: punish_target_def Let_def)
  moreover have "inturn s number ?v = Some True" using inturn_eq [OF ok ne] by simp
  moreover have "?v \<in> dom (gm_get (snap_Validators s))" unfolding p(2) [symmetric] by (rule nth_mem) (use ne in simp)
  ultimately show ?thesis by blast
qed

theorem punish_target_inturn_witness:
  "\<exists>v. inturn demo_snapshot 8 v = Some True \<and> punish_target demo_snapshot 8 =
     Inr (if v \<in> snd ` set (snap_Recents demo_snapshot) then None else Some v)"
  using punish_target_inturn [OF demo_reachable, of 8]
  by (auto simp: demo_snapshot_def newSnapshot_def add_validators_def gm_set_def)

end
