(* ===== verification/Access_List.thy ===== *)
theory Access_List
  imports Prelude
begin

text \<open>
  The per-transaction access list of EIP-2929 (\<^verbatim>\<open>core/state/access_list.go\<close>): a map from addresses to an
  index into a slice of slot sets, \<^verbatim>\<open>-1\<close> standing for an address without slots.  The abstract value of an
  access list says which addresses are warm and, for each, which of its slots.
\<close>

subsection \<open>Operations\<close>

record accessList =
  al_addresses :: "(address, int) gomap"
  al_slots :: "(hash, unit) gomap list"

definition ContainsAddress :: "accessList \<Rightarrow> address \<Rightarrow> bool" where
  "ContainsAddress al a \<longleftrightarrow> gm_get (al_addresses al) a \<noteq> None"

text \<open>An index outside the slice is a Go panic, \<open>None\<close>.\<close>

definition slots_at :: "accessList \<Rightarrow> int \<Rightarrow> (hash, unit) gomap option" where
  "slots_at al i = (if 0 \<le> i \<and> nat i < length (al_slots al) then Some (al_slots al ! nat i) else None)"

definition al_Contains :: "accessList \<Rightarrow> address \<Rightarrow> hash \<Rightarrow> (bool \<times> bool) option" where
  "al_Contains al a slot =
    (case gm_get (al_addresses al) a of
       None \<Rightarrow> Some (False, False)
     | Some idx \<Rightarrow>
         if idx = -1 then Some (True, False)
         else map_option (\<lambda>m. (True, gm_get m slot \<noteq> None)) (slots_at al idx))"

definition newAccessList :: accessList where
  "newAccessList = \<lparr>al_addresses = [], al_slots = []\<rparr>"

definition al_Copy :: "accessList \<Rightarrow> accessList" where
  "al_Copy a =
    \<lparr>al_addresses = fold (\<lambda>(k, v) m. gm_set m k v) (al_addresses a) [],
     al_slots = map (\<lambda>m. fold (\<lambda>(k, _) n. gm_set n k ()) m []) (al_slots a)\<rparr>"

definition AddAddress :: "address \<Rightarrow> accessList \<Rightarrow> accessList \<times> bool" where
  "AddAddress a al =
    (if gm_get (al_addresses al) a \<noteq> None then (al, False)
     else (al\<lparr>al_addresses := gm_set (al_addresses al) a (-1)\<rparr>, True))"

text \<open>The results are: address added, slot added.\<close>

definition AddSlot :: "address \<Rightarrow> hash \<Rightarrow> accessList \<Rightarrow> (accessList \<times> bool \<times> bool) option" where
  "AddSlot a slot al =
    (let idx = gm_get (al_addresses al) a
     in if idx = None \<or> idx = Some (-1) then
          Some (\<lparr>al_addresses = gm_set (al_addresses al) a (int (length (al_slots al))),
                 al_slots = al_slots al @ [gm_set [] slot ()]\<rparr>, idx = None, True)
        else
          map_option (\<lambda>m.
            if gm_get m slot = None
            then (al\<lparr>al_slots := (al_slots al)[nat (the idx) := gm_set m slot ()]\<rparr>, False, True)
            else (al, False, False)) (slots_at al (the idx)))"

definition DeleteSlot :: "address \<Rightarrow> hash \<Rightarrow> accessList \<Rightarrow> accessList option" where
  "DeleteSlot a slot al =
    (case gm_get (al_addresses al) a of
       None \<Rightarrow> None
     | Some idx \<Rightarrow>
         map_option (\<lambda>m.
           let m' = gm_del m slot; slots = (al_slots al)[nat idx := m']
           in if length m' = 0
              then \<lparr>al_addresses = gm_set (al_addresses al) a (-1), al_slots = take (nat idx) slots\<rparr>
              else al\<lparr>al_slots := slots\<rparr>) (slots_at al idx))"

definition DeleteAddress :: "address \<Rightarrow> accessList \<Rightarrow> accessList" where
  "DeleteAddress a al = al\<lparr>al_addresses := gm_del (al_addresses al) a\<rparr>"

subsection \<open>The contract of an access list\<close>

text \<open>
  \<open>warm\<close> is the abstract value.  The deletions are only called by the journal, in the reverse order of
  the additions; \<open>undo_slot\<close> and \<open>undo_addr\<close> are what the journal relies on.
\<close>

locale access_set =
  fixes ok :: "'l \<Rightarrow> bool"
    and warm :: "'l \<Rightarrow> address \<Rightarrow> hash set option"
    and empty :: 'l
    and add_addr :: "address \<Rightarrow> 'l \<Rightarrow> 'l \<times> bool"
    and add_slot :: "address \<Rightarrow> hash \<Rightarrow> 'l \<Rightarrow> ('l \<times> bool \<times> bool) option"
    and del_slot :: "address \<Rightarrow> hash \<Rightarrow> 'l \<Rightarrow> 'l option"
    and del_addr :: "address \<Rightarrow> 'l \<Rightarrow> 'l"
  assumes ok_empty: "ok empty" "warm empty = Map.empty"
    and addr_law: "ok l \<Longrightarrow> add_addr a l = (l', c) \<Longrightarrow>
      ok l' \<and> c = (warm l a = None) \<and> warm l' = (warm l)(a := Some (case warm l a of None \<Rightarrow> {} | Some S \<Rightarrow> S))"
    and slot_law: "ok l \<Longrightarrow> \<exists>l' ca cs. add_slot a k l = Some (l', ca, cs) \<and> ok l' \<and> ca = (warm l a = None) \<and>
      cs = (k \<notin> (case warm l a of None \<Rightarrow> {} | Some S \<Rightarrow> S)) \<and>
      warm l' = (warm l)(a := Some (insert k (case warm l a of None \<Rightarrow> {} | Some S \<Rightarrow> S)))"
    and undo_addr: "ok l \<Longrightarrow> add_addr a l = (l', True) \<Longrightarrow> del_addr a l' = l"
    and addr_same: "add_addr a l = (l', False) \<Longrightarrow> l' = l"
    and undo_slot: "ok l \<Longrightarrow> add_slot a k l = Some (l', ca, True) \<Longrightarrow>
      del_slot a k l' = Some (if ca then fst (add_addr a l) else l)"
    and slot_same: "add_slot a k l = Some (l', ca, False) \<Longrightarrow> l' = l \<and> \<not> ca"
begin

text \<open>Undoing what \<open>add_slot\<close> reported, slot first, gives back the list.\<close>

lemma undo_both:
  assumes "ok l" "add_slot a k l = Some (l', ca, cs)"
  shows "\<exists>m. (if cs then del_slot a k l' else Some l') = Some m \<and> (if ca then del_addr a m else m) = l"
proof (cases cs)
  case True
  obtain m c where m: "add_addr a l = (m, c)" by (cases "add_addr a l")
  have "ca = (warm l a = None)" using slot_law [OF assms(1), of a k] assms(2) by auto
  then have "c = ca" using addr_law [OF assms(1) m] by simp
  then show ?thesis using undo_slot [OF assms(1)] assms(2) True m undo_addr [OF assms(1)] by (cases ca) auto
next
  case False
  then show ?thesis using slot_same [of a k l l' ca] assms(2) by auto
qed

lemma warm_mono:
  assumes "ok l" "add_slot a k l = Some (l', ca, cs)" "warm l b = Some S"
  shows "\<exists>S'. warm l' b = Some S' \<and> S \<subseteq> S'"
  using slot_law [OF assms(1), of a k] assms(2,3) by auto

end

subsection \<open>The model meets the contract\<close>

definition al_ok :: "accessList \<Rightarrow> bool" where
  "al_ok al \<longleftrightarrow> gm_ok (al_addresses al) \<and>
    (\<forall>a i. gm_get (al_addresses al) a = Some i \<longrightarrow> i = -1 \<or> (0 \<le> i \<and> nat i < length (al_slots al))) \<and>
    (\<forall>a b i. gm_get (al_addresses al) a = Some i \<and> gm_get (al_addresses al) b = Some i \<longrightarrow> i = -1 \<or> a = b) \<and>
    (\<forall>m \<in> set (al_slots al). gm_ok m \<and> m \<noteq> [])"

definition al_warm :: "accessList \<Rightarrow> address \<Rightarrow> hash set option" where
  "al_warm al a = map_option (\<lambda>i. if i = -1 then {} else dom (gm_get (al_slots al ! nat i))) (gm_get (al_addresses al) a)"

lemma al_ok_range: "al_ok al \<Longrightarrow> gm_get (al_addresses al) a = Some i \<Longrightarrow> i = -1 \<or> (0 \<le> i \<and> nat i < length (al_slots al))"
  unfolding al_ok_def by blast

lemma al_ok_inj:
  "al_ok al \<Longrightarrow> gm_get (al_addresses al) a = Some i \<Longrightarrow> gm_get (al_addresses al) b = Some i \<Longrightarrow> i = -1 \<or> a = b"
  unfolding al_ok_def by blast

text \<open>Giving an address no slots, or slots of its own, keeps the invariant.\<close>

lemma al_ok_set_address:
  assumes "al_ok al" "i = -1 \<or> i = int (length (al_slots al))"
    and "\<forall>m \<in> set ms. gm_ok m \<and> m \<noteq> []" "i = -1 \<or> ms \<noteq> []"
  shows "al_ok \<lparr>al_addresses = gm_set (al_addresses al) a i, al_slots = al_slots al @ ms\<rparr>"
proof -
  let ?g = "gm_get (gm_set (al_addresses al) a i)"
  have "j = -1 \<or> (0 \<le> j \<and> nat j < length (al_slots al @ ms))" if "?g b = Some j" for b j
    using that al_ok_range [OF assms(1), of b j] assms(2,4) by (cases "b = a") (auto simp: length_greater_0_conv)
  moreover have "j = -1 \<or> b = d" if "?g b = Some j" "?g d = Some j" for b d j
    using that al_ok_inj [OF assms(1), of b j d] al_ok_range [OF assms(1), of b j] al_ok_range [OF assms(1), of d j] assms(2)
    by (cases "b = a"; cases "d = a") auto
  ultimately show ?thesis using assms(1,3) unfolding al_ok_def by (auto simp del: gm_get_set)
qed

lemma gm_set_same: "gm_get m k = Some v \<Longrightarrow> gm_set m k v = m"
  by (induction m) (auto simp: gm_set_def split: if_splits)

lemma gm_set_twice: "gm_set (gm_set m k v) k w = gm_set m k w"
  by (induction m) (auto simp: gm_set_def)

lemma gm_del_fresh: "gm_get m k = None \<Longrightarrow> gm_del m k = m"
  by (force simp: gm_get_None_iff gm_del_def filter_id_conv)

lemma gm_del_set_fresh:
  assumes "gm_get m k = None"
  shows "gm_del (gm_set m k v) k = m"
proof -
  have "gm_set m k v = m @ [(k, v)]"
    using assms by (induction m) (auto simp: gm_set_def split: if_splits)
  then show ?thesis using gm_del_fresh [OF assms] by (simp add: gm_del_def)
qed

lemma AddAddress_law:
  assumes "al_ok al" "AddAddress a al = (l', c)"
  shows "al_ok l' \<and> c = (al_warm al a = None) \<and>
    al_warm l' = (al_warm al)(a := Some (case al_warm al a of None \<Rightarrow> {} | Some S \<Rightarrow> S))"
proof (cases "gm_get (al_addresses al) a")
  case None
  then have l: "l' = al\<lparr>al_addresses := gm_set (al_addresses al) a (-1)\<rparr>" "c"
    using assms(2) by (auto simp: AddAddress_def)
  have "al_ok l'" using al_ok_set_address [OF assms(1), of "-1" "[]" a] by (cases al) (simp add: l)
  then show ?thesis using None l by (auto simp: al_warm_def fun_eq_iff intro!: option.map_cong0)
next
  case (Some i)
  then show ?thesis using assms by (auto simp: AddAddress_def al_warm_def fun_eq_iff)
qed

lemma AddSlot_new:
  assumes "al_ok al" "gm_get (al_addresses al) a = None \<or> gm_get (al_addresses al) a = Some (-1)"
  shows "\<exists>l'. AddSlot a k al = Some (l', gm_get (al_addresses al) a = None, True) \<and> al_ok l' \<and>
    al_warm l' = (al_warm al)(a := Some {k}) \<and>
    DeleteSlot a k l' = Some (al\<lparr>al_addresses := gm_set (al_addresses al) a (-1)\<rparr>)"
proof -
  let ?n = "length (al_slots al)"
  let ?l = "\<lparr>al_addresses = gm_set (al_addresses al) a (int ?n), al_slots = al_slots al @ [gm_set [] k ()]\<rparr>"
  have bound: "gm_get (al_addresses al) b = Some i \<Longrightarrow> i = -1 \<or> (0 \<le> i \<and> nat i < ?n)" for b i
    using assms(1) by (simp add: al_ok_def)
  have add: "AddSlot a k al = Some (?l, gm_get (al_addresses al) a = None, True)"
    using assms(2) by (simp add: AddSlot_def Let_def)
  have ok: "al_ok ?l" by (rule al_ok_set_address [OF assms(1)]) (simp_all add: gm_set_def)
  have "al_warm ?l b = ((al_warm al)(a := Some {k})) b" for b
  proof (cases "b = a")
    case False
    then show ?thesis using bound [of b] by (cases "gm_get (al_addresses al) b") (auto simp: al_warm_def nth_append)
  qed (simp add: al_warm_def gm_dom, simp add: gm_set_def)
  then have "al_warm ?l = (al_warm al)(a := Some {k})" by (rule ext)
  moreover have "DeleteSlot a k ?l = Some (al\<lparr>al_addresses := gm_set (al_addresses al) a (-1)\<rparr>)"
    by (simp add: DeleteSlot_def slots_at_def gm_set_twice) (simp add: gm_set_def gm_del_def)
  ultimately show ?thesis using add ok by blast
qed

lemma AddSlot_old:
  assumes "al_ok al" "gm_get (al_addresses al) a = Some i" "i \<noteq> -1"
  shows "\<exists>l' cs. AddSlot a k al = Some (l', False, cs) \<and> al_ok l' \<and> cs = (k \<notin> the (al_warm al a)) \<and>
    al_warm l' = (al_warm al)(a := Some (insert k (the (al_warm al a)))) \<and>
    (if cs then DeleteSlot a k l' = Some al else l' = al)"
proof -
  let ?m = "al_slots al ! nat i"
  have i: "0 \<le> i" "nat i < length (al_slots al)" using assms by (auto simp: al_ok_def)
  have inj: "gm_get (al_addresses al) b = Some i \<Longrightarrow> b = a" for b
    using al_ok_inj [OF assms(1) _ assms(2)] assms(3) by blast
  have m: "gm_ok ?m" "?m \<noteq> []" using assms(1) i(2) by (auto simp: al_ok_def)
  have w: "al_warm al a = Some (dom (gm_get ?m))" using assms by (simp add: al_warm_def)
  show ?thesis
  proof (cases "gm_get ?m k")
    case (Some u)
    then have "AddSlot a k al = Some (al, False, False)" using assms i by (simp add: AddSlot_def slots_at_def)
    moreover have "(al_warm al)(a := Some (insert k (the (al_warm al a)))) = al_warm al"
      using Some w by (auto simp: fun_eq_iff insert_absorb domI)
    ultimately show ?thesis using Some w assms(1) by (auto simp: domI)
  next
    case None
    let ?m' = "gm_set ?m k ()"
    let ?l = "al\<lparr>al_slots := (al_slots al)[nat i := ?m']\<rparr>"
    have ne: "?m' \<noteq> []" by (cases ?m) (auto simp: gm_set_def)
    have add: "AddSlot a k al = Some (?l, False, True)" using assms i None by (simp add: AddSlot_def slots_at_def)
    have ok: "al_ok ?l"
      using assms(1) m ne by (auto simp: al_ok_def dest!: set_update_subset_insert [THEN subsetD])
    have "al_warm ?l b = ((al_warm al)(a := Some (insert k (the (al_warm al a))))) b" for b
    proof (cases "b = a")
      case True
      then show ?thesis using assms i by (auto simp: al_warm_def)
    next
      case False
      have "j = -1 \<or> nat j \<noteq> nat i" if "gm_get (al_addresses al) b = Some j" for j
        using that inj [of b] False i(1) al_ok_range [OF assms(1) that] by (auto simp: eq_nat_nat_iff)
      then show ?thesis using False by (cases "gm_get (al_addresses al) b") (auto simp: al_warm_def)
    qed
    then have warm: "al_warm ?l = (al_warm al)(a := Some (insert k (the (al_warm al a))))" by (rule ext)
    have "DeleteSlot a k ?l = Some al"
      using assms i m(2) gm_del_set_fresh [OF None] by (simp add: DeleteSlot_def slots_at_def Let_def)
    with add ok warm show ?thesis using None w by (auto simp: domIff)
  qed
qed

lemma AddSlot_cases:
  assumes "al_ok al"
  shows "\<exists>l' ca cs. AddSlot a k al = Some (l', ca, cs) \<and> al_ok l' \<and> ca = (al_warm al a = None) \<and>
    cs = (k \<notin> (case al_warm al a of None \<Rightarrow> {} | Some S \<Rightarrow> S)) \<and>
    al_warm l' = (al_warm al)(a := Some (insert k (case al_warm al a of None \<Rightarrow> {} | Some S \<Rightarrow> S))) \<and>
    (if cs then DeleteSlot a k l' = Some (if ca then fst (AddAddress a al) else al) else l' = al \<and> \<not> ca)"
proof (cases "gm_get (al_addresses al) a")
  case None
  then show ?thesis using AddSlot_new [OF assms, of a k] by (auto simp: al_warm_def AddAddress_def)
next
  case (Some i)
  show ?thesis
  proof (cases "i = -1")
    case True
    have "al\<lparr>al_addresses := gm_set (al_addresses al) a (-1)\<rparr> = al" using Some True by (simp add: gm_set_same)
    then show ?thesis using AddSlot_new [OF assms, of a k] Some True by (auto simp: al_warm_def)
  next
    case False
    have w: "al_warm al a = Some (the (al_warm al a))" using Some by (simp add: al_warm_def)
    obtain l' cs where l: "AddSlot a k al = Some (l', False, cs)" "al_ok l'" "cs = (k \<notin> the (al_warm al a))"
      "al_warm l' = (al_warm al)(a := Some (insert k (the (al_warm al a))))"
      "if cs then DeleteSlot a k l' = Some al else l' = al"
      using AddSlot_old [OF assms Some False, of k] by blast
    show ?thesis
      by (rule exI [of _ l'], rule exI [of _ False], rule exI [of _ cs], subst (1 2 3) w) (use l in simp)
  qed
qed

interpretation al: access_set al_ok al_warm newAccessList AddAddress AddSlot DeleteSlot DeleteAddress
proof unfold_locales
  show "al_ok newAccessList" "al_warm newAccessList = Map.empty"
    by (simp_all add: newAccessList_def al_ok_def al_warm_def fun_eq_iff)
next
  fix l a l' c
  assume "al_ok l" "AddAddress a l = (l', c)"
  then show "al_ok l' \<and> c = (al_warm l a = None) \<and>
    al_warm l' = (al_warm l)(a := Some (case al_warm l a of None \<Rightarrow> {} | Some S \<Rightarrow> S))" by (rule AddAddress_law)
next
  fix l a k
  assume "al_ok l"
  then show "\<exists>l' ca cs. AddSlot a k l = Some (l', ca, cs) \<and> al_ok l' \<and> ca = (al_warm l a = None) \<and>
      cs = (k \<notin> (case al_warm l a of None \<Rightarrow> {} | Some S \<Rightarrow> S)) \<and>
      al_warm l' = (al_warm l)(a := Some (insert k (case al_warm l a of None \<Rightarrow> {} | Some S \<Rightarrow> S)))"
    using AddSlot_cases by blast
next
  fix l a l'
  assume "AddAddress a l = (l', True)"
  then show "DeleteAddress a l' = l"
    by (auto simp: AddAddress_def DeleteAddress_def gm_del_set_fresh split: if_splits)
next
  fix a l l'
  assume "AddAddress a l = (l', False)"
  then show "l' = l" by (auto simp: AddAddress_def split: if_splits)
next
  fix l a k l' ca
  assume "al_ok l" "AddSlot a k l = Some (l', ca, True)"
  then show "DeleteSlot a k l' = Some (if ca then fst (AddAddress a l) else l)"
    using AddSlot_cases [of l a k] by auto
next
  fix a k l l' ca
  assume "AddSlot a k l = Some (l', ca, False)"
  then show "l' = l \<and> \<not> ca" by (auto simp: AddSlot_def Let_def split: if_splits)
qed

subsection \<open>Queries\<close>

lemma al_Contains_warm:
  assumes "al_ok al"
  shows "al_Contains al a k = Some (case al_warm al a of None \<Rightarrow> (False, False) | Some S \<Rightarrow> (True, k \<in> S))"
proof (cases "gm_get (al_addresses al) a")
  case (Some i)
  have "i = -1 \<or> (0 \<le> i \<and> nat i < length (al_slots al))" using assms Some by (auto simp: al_ok_def)
  then show ?thesis using Some by (auto simp: al_Contains_def al_warm_def slots_at_def domIff)
qed (simp add: al_Contains_def al_warm_def)

text \<open>The access list implements a set of warm addresses and slots: after an address and a slot have been
  added, a lookup never panics and reports a pair as present exactly if it was present before or is the
  added one, so that an access is charged as cold at most once per transaction.\<close>

theorem AddSlot_Contains:
  assumes "al_ok al"
  shows "\<exists>l' ca cs. AddSlot a k al = Some (l', ca, cs) \<and> al_ok l' \<and>
    (\<forall>b j. \<exists>p q. al_Contains al b j = Some (p, q) \<and>
       al_Contains l' b j = Some (p \<or> b = a, q \<or> (b = a \<and> j = k)))"
proof -
  obtain l' ca cs where l: "AddSlot a k al = Some (l', ca, cs)" "al_ok l'"
    "al_warm l' = (al_warm al)(a := Some (insert k (case al_warm al a of None \<Rightarrow> {} | Some S \<Rightarrow> S)))"
    using al.slot_law [OF assms, of a k] by blast
  have "\<exists>p q. al_Contains al b j = Some (p, q) \<and> al_Contains l' b j = Some (p \<or> b = a, q \<or> (b = a \<and> j = k))" for b j
    unfolding al_Contains_warm [OF assms] al_Contains_warm [OF l(2)] l(3) by (auto split: option.split)
  with l(1,2) show ?thesis by blast
qed

theorem AddSlot_Contains_witness:
  "\<exists>l' ca cs. AddSlot 7 9 newAccessList = Some (l', ca, cs) \<and> al_Contains newAccessList 7 9 = Some (False, False) \<and>
    al_Contains l' 7 9 = Some (True, True)"
proof -
  have n: "al_Contains newAccessList 7 9 = Some (False, False)" by (simp add: al_Contains_def newAccessList_def)
  obtain l' ca cs where l: "AddSlot 7 9 newAccessList = Some (l', ca, cs)"
    and c: "\<forall>b j. \<exists>p q. al_Contains newAccessList b j = Some (p, q) \<and>
       al_Contains l' b j = Some (p \<or> b = 7, q \<or> (b = 7 \<and> j = 9))"
    using AddSlot_Contains [OF al.ok_empty(1), of 7 9] by blast
  from c [rule_format, of 7 9] n have "al_Contains l' 7 9 = Some (True, True)" by simp
  with l n show ?thesis by blast
qed

lemma fold_gm_set_id:
  "gm_ok (n @ m) \<Longrightarrow> fold (\<lambda>(k, v) m. gm_set m k v) m n = n @ m"
proof (induction m arbitrary: n)
  case (Cons e m)
  obtain k v where e: "e = (k, v)" by (cases e)
  have "gm_ok n" "gm_get n k = None" using Cons.prems by (auto simp: e gm_ok_def gm_get_None_iff)
  then have "gm_set n k v = n @ [(k, v)]" by (rule gm_ok_snoc)
  then show ?case using Cons.IH [of "n @ [(k, v)]"] Cons.prems by (simp add: e)
qed simp

lemma al_Copy_id:
  assumes "al_ok al"
  shows "al_Copy al = al"
proof -
  have "fold (\<lambda>(k, _) n. gm_set n k ()) m [] = m" if "m \<in> set (al_slots al)" for m
    using fold_gm_set_id [of "[]" m] assms that by (simp add: al_ok_def case_prod_beta')
  then have "map (\<lambda>m. fold (\<lambda>(k, _) n. gm_set n k ()) m []) (al_slots al) = al_slots al" by (simp add: map_idI)
  then show ?thesis using fold_gm_set_id [of "[]" "al_addresses al"] assms by (simp add: al_Copy_def al_ok_def)
qed

end
