(* ===== verification/State_DB.thy ===== *)
theory State_DB
  imports Header Access_List
begin

text \<open>
  The account state that transactions modify (\<^verbatim>\<open>core/state/statedb.go\<close>, \<^verbatim>\<open>state_object.go\<close>, \<^verbatim>\<open>journal.go\<close>):
  state objects that cache an account and its storage, the journal of undoable changes, snapshots of
  the journal and their reverts, and the end of a transaction.

  The Go code keeps pointers to state objects in a map and changes them in place; an object is reachable
  through that map or, once replaced, only through the journal entry that replaced it, so objects are
  values here and every change writes the object back under its address.  Reads load accounts, code and
  slots into caches, so getters return a new state as well.

  The trie, the code store and the flat snapshot are Go interfaces (\<^verbatim>\<open>state.Trie\<close>, \<^verbatim>\<open>state.Database\<close>,
  \<^verbatim>\<open>snapshot.Snapshot\<close>); what the state reads through them is the parameter \<open>backend\<close> and the layer
  \<open>sdb_snap\<close>.  The trie prefetcher and the metrics do not change results and are left out.  A nil
  dereference or an explicit panic is \<open>None\<close>.
\<close>

subsection \<open>Data\<close>

record StateAccount =
  sa_Nonce :: u64
  sa_Balance :: int
  sa_Root :: hash
  sa_CodeHash :: bytes

text \<open>A storage trie as its readers see it: the encoded value of a slot, empty when absent, \<open>None\<close> on a
  missing node.\<close>

type_synonym strie = "hash \<Rightarrow> bytes option"

definition empty_trie :: strie where
  "empty_trie = (\<lambda>_. Some [])"

text \<open>The outcome of reading and decoding an account.\<close>

datatype account_read = ReadErr | Absent | BadAccount | Found StateAccount

record backend =
  be_keccak :: keccak
  be_TryGet :: "address \<Rightarrow> account_read"
  be_OpenStorageTrie :: "hash \<Rightarrow> hash \<Rightarrow> strie option"
  be_ContractCode :: "hash \<Rightarrow> hash \<Rightarrow> bytes option"

record slim_account =
  sl_Nonce :: u64
  sl_Balance :: int
  sl_Root :: bytes
  sl_CodeHash :: bytes

text \<open>The flat snapshot: account and slot by hash.  The outer \<open>None\<close> is a read error.\<close>

record snap_layer =
  sn_Account :: "hash \<Rightarrow> slim_account option option"
  sn_Storage :: "hash \<Rightarrow> hash \<Rightarrow> bytes option"

datatype state_error = ErrAccount address | ErrTrie | ErrSlot hash | ErrCode hash

record stateObject =
  so_address :: address
  so_data :: StateAccount
  so_dbErr :: "state_error option"
  so_trie :: "strie option"
  so_code :: "bytes option"
  so_originStorage :: "(hash, hash) gomap"
  so_pendingStorage :: "(hash, hash) gomap"
  so_dirtyStorage :: "(hash, hash) gomap"
  so_dirtyCode :: bool
  so_suicided :: bool
  so_deleted :: bool

record Log =
  lg_Address :: address
  lg_Topics :: "hash list"
  lg_Data :: bytes
  lg_BlockNumber :: u64
  lg_TxHash :: hash
  lg_TxIndex :: u64
  lg_BlockHash :: hash
  lg_Index :: u64
  lg_Removed :: bool

datatype journalEntry =
  createObjectChange address
| resetObjectChange stateObject bool
| suicideChange address bool int
| balanceChange address int
| nonceChange address u64
| storageChange address hash hash
| codeChange address "bytes option" bytes
| refundChange u64
| addLogChange hash
| addPreimageChange hash
| touchChange address
| accessListAddAccountChange address
| accessListAddSlotChange address hash
| eraseChange address "bytes option" bytes hash

record StateDB =
  sdb_snap :: "snap_layer option"
  sdb_snapDestructs :: "(hash, unit) gomap"
  sdb_snapAccounts :: "(hash, bytes) gomap"
  sdb_snapStorage :: "(hash, (hash, bytes) gomap) gomap"
  sdb_stateObjects :: "(address, stateObject) gomap"
  sdb_stateObjectsPending :: "(address, unit) gomap"
  sdb_stateObjectsDirty :: "(address, unit) gomap"
  sdb_stateObjectsDestruct :: "(address, unit) gomap option"
  sdb_dbErr :: "state_error option"
  sdb_refund :: u64
  sdb_thash :: hash
  sdb_txIndex :: int
  sdb_logs :: "(hash, Log list) gomap"
  sdb_logSize :: u64
  sdb_preimages :: "(hash, bytes) gomap"
  sdb_accessList :: accessList
  sdb_entries :: "journalEntry list"
  sdb_dirties :: "(address, int) gomap"
  sdb_validRevisions :: "(int \<times> nat) list"
  sdb_nextRevisionId :: int

text \<open>\<^verbatim>\<open>New\<close> over an opened trie; the map \<^verbatim>\<open>stateObjectsDestruct\<close> stays nil.\<close>

definition state_New :: "snap_layer option \<Rightarrow> StateDB" where
  "state_New snap =
    \<lparr>sdb_snap = snap, sdb_snapDestructs = [], sdb_snapAccounts = [], sdb_snapStorage = [],
     sdb_stateObjects = [], sdb_stateObjectsPending = [], sdb_stateObjectsDirty = [],
     sdb_stateObjectsDestruct = None, sdb_dbErr = None, sdb_refund = 0, sdb_thash = 0, sdb_txIndex = 0,
     sdb_logs = [], sdb_logSize = 0, sdb_preimages = [], sdb_accessList = newAccessList,
     sdb_entries = [], sdb_dirties = [], sdb_validRevisions = [], sdb_nextRevisionId = 0\<rparr>"

subsection \<open>Journal\<close>

fun dirtied :: "journalEntry \<Rightarrow> address option" where
  "dirtied (createObjectChange a) = Some a"
| "dirtied (suicideChange a _ _) = Some a"
| "dirtied (balanceChange a _) = Some a"
| "dirtied (nonceChange a _) = Some a"
| "dirtied (storageChange a _ _) = Some a"
| "dirtied (codeChange a _ _) = Some a"
| "dirtied (touchChange a) = Some a"
| "dirtied (eraseChange a _ _ _) = Some a"
| "dirtied _ = None"

text \<open>A missing map entry reads as zero.\<close>

definition dirty_count :: "(address, int) gomap \<Rightarrow> address \<Rightarrow> int" where
  "dirty_count d a = (case gm_get d a of None \<Rightarrow> 0 | Some n \<Rightarrow> n)"

definition journal_dirty :: "address \<Rightarrow> StateDB \<Rightarrow> StateDB" where
  "journal_dirty a s = s\<lparr>sdb_dirties := gm_set (sdb_dirties s) a (dirty_count (sdb_dirties s) a + 1)\<rparr>"

definition journal_append :: "journalEntry \<Rightarrow> StateDB \<Rightarrow> StateDB" where
  "journal_append e s =
    (let s' = s\<lparr>sdb_entries := sdb_entries s @ [e]\<rparr>
     in case dirtied e of None \<Rightarrow> s' | Some a \<Rightarrow> journal_dirty a s')"

definition journal_undirty :: "journalEntry \<Rightarrow> StateDB \<Rightarrow> StateDB" where
  "journal_undirty e s =
    (case dirtied e of
       None \<Rightarrow> s
     | Some a \<Rightarrow>
         (let n = dirty_count (sdb_dirties s) a - 1
          in if n = 0 then s\<lparr>sdb_dirties := gm_del (sdb_dirties s) a\<rparr>
             else s\<lparr>sdb_dirties := gm_set (sdb_dirties s) a n\<rparr>))"

subsection \<open>State objects\<close>

definition emptyCodeHash :: "backend \<Rightarrow> bytes" where
  "emptyCodeHash be = hash_bytes (be_keccak be [])"

definition so_addrHash :: "backend \<Rightarrow> stateObject \<Rightarrow> hash" where
  "so_addrHash be ob = be_keccak be (address_bytes (so_address ob))"

definition so_empty :: "backend \<Rightarrow> stateObject \<Rightarrow> bool" where
  "so_empty be ob \<longleftrightarrow>
    sa_Nonce (so_data ob) = 0 \<and> sa_Balance (so_data ob) = 0 \<and> sa_CodeHash (so_data ob) = emptyCodeHash be"

text \<open>The account passed to \<^verbatim>\<open>newObject\<close> may have a nil balance and a nil code hash.\<close>

definition newObject :: "backend \<Rightarrow> address \<Rightarrow> u64 \<Rightarrow> bigint \<Rightarrow> hash \<Rightarrow> bytes option \<Rightarrow> stateObject" where
  "newObject be a nonce balance root codeHash =
    \<lparr>so_address = a,
     so_data = \<lparr>sa_Nonce = nonce,
       sa_Balance = (case balance of None \<Rightarrow> 0 | Some b \<Rightarrow> b),
       sa_Root = (if root = 0 then EmptyRootHash else root),
       sa_CodeHash = (case codeHash of None \<Rightarrow> emptyCodeHash be | Some h \<Rightarrow> h)\<rparr>,
     so_dbErr = None, so_trie = None, so_code = None,
     so_originStorage = [], so_pendingStorage = [], so_dirtyStorage = [],
     so_dirtyCode = False, so_suicided = False, so_deleted = False\<rparr>"

definition so_setError :: "state_error \<Rightarrow> stateObject \<Rightarrow> stateObject" where
  "so_setError e ob = (if so_dbErr ob = None then ob\<lparr>so_dbErr := Some e\<rparr> else ob)"

definition getTrie :: "backend \<Rightarrow> stateObject \<Rightarrow> strie \<times> stateObject" where
  "getTrie be ob =
    (case so_trie ob of
       Some tr \<Rightarrow> (tr, ob)
     | None \<Rightarrow>
         (case be_OpenStorageTrie be (so_addrHash be ob) (sa_Root (so_data ob)) of
            Some tr \<Rightarrow> (tr, ob\<lparr>so_trie := Some tr\<rparr>)
          | None \<Rightarrow> (empty_trie, so_setError ErrTrie (ob\<lparr>so_trie := Some empty_trie\<rparr>))))"

text \<open>Reading the encoded value of a slot from the snapshot layer, or from the trie when there is no layer
  or it fails.\<close>

definition read_slot :: "backend \<Rightarrow> StateDB \<Rightarrow> hash \<Rightarrow> stateObject \<Rightarrow> bytes option \<times> stateObject" where
  "read_slot be s k ob =
    (case (case sdb_snap s of
             None \<Rightarrow> None
           | Some sn \<Rightarrow> sn_Storage sn (so_addrHash be ob) (be_keccak be (hash_bytes k))) of
       Some enc \<Rightarrow> (Some enc, ob)
     | None \<Rightarrow> (let (tr, ob') = getTrie be ob in (tr k, ob')))"

definition so_GetCommittedState :: "backend \<Rightarrow> StateDB \<Rightarrow> hash \<Rightarrow> stateObject \<Rightarrow> hash \<times> stateObject" where
  "so_GetCommittedState be s k ob =
    (case gm_get (so_pendingStorage ob) k of
       Some v \<Rightarrow> (v, ob)
     | None \<Rightarrow>
         (case gm_get (so_originStorage ob) k of
            Some v \<Rightarrow> (v, ob)
          | None \<Rightarrow>
              if sdb_snap s \<noteq> None \<and> gm_get (sdb_snapDestructs s) (so_addrHash be ob) \<noteq> None then (0, ob)
              else
                (case read_slot be s k ob of
                   (None, ob') \<Rightarrow> (0, so_setError (ErrSlot k) ob')
                 | (Some enc, ob') \<Rightarrow>
                     (let (value, ob'') =
                        (if enc = [] then (0, ob')
                         else (case Split enc of
                                 Inl _ \<Rightarrow> (0, so_setError (ErrSlot k) ob')
                               | Inr (_, content, _) \<Rightarrow> (BytesToHash content, ob')))
                      in (value, ob''\<lparr>so_originStorage := gm_set (so_originStorage ob'') k value\<rparr>)))))"

definition so_GetState :: "backend \<Rightarrow> StateDB \<Rightarrow> hash \<Rightarrow> stateObject \<Rightarrow> hash \<times> stateObject" where
  "so_GetState be s k ob =
    (case gm_get (so_dirtyStorage ob) k of
       Some v \<Rightarrow> (v, ob)
     | None \<Rightarrow> so_GetCommittedState be s k ob)"

definition so_Code :: "backend \<Rightarrow> stateObject \<Rightarrow> bytes option \<times> stateObject" where
  "so_Code be ob =
    (case so_code ob of
       Some c \<Rightarrow> (Some c, ob)
     | None \<Rightarrow>
         if sa_CodeHash (so_data ob) = emptyCodeHash be then (None, ob)
         else (let h = BytesToHash (sa_CodeHash (so_data ob))
               in case be_ContractCode be (so_addrHash be ob) h of
                    None \<Rightarrow> (None, so_setError (ErrCode h) ob)
                  | Some code \<Rightarrow> (Some code, ob\<lparr>so_code := Some code\<rparr>)))"

definition so_setBalance :: "int \<Rightarrow> stateObject \<Rightarrow> stateObject" where
  "so_setBalance b ob = ob\<lparr>so_data := (so_data ob)\<lparr>sa_Balance := b\<rparr>\<rparr>"

definition so_setNonce :: "u64 \<Rightarrow> stateObject \<Rightarrow> stateObject" where
  "so_setNonce n ob = ob\<lparr>so_data := (so_data ob)\<lparr>sa_Nonce := n\<rparr>\<rparr>"

definition so_setCode :: "hash \<Rightarrow> bytes option \<Rightarrow> stateObject \<Rightarrow> stateObject" where
  "so_setCode h code ob =
    ob\<lparr>so_code := code, so_data := (so_data ob)\<lparr>sa_CodeHash := hash_bytes h\<rparr>, so_dirtyCode := True\<rparr>"

definition so_setState :: "hash \<Rightarrow> hash \<Rightarrow> stateObject \<Rightarrow> stateObject" where
  "so_setState k v ob = ob\<lparr>so_dirtyStorage := gm_set (so_dirtyStorage ob) k v\<rparr>"

definition so_finalise :: "stateObject \<Rightarrow> stateObject" where
  "so_finalise ob =
    ob\<lparr>so_pendingStorage := fold (\<lambda>(k, v) m. gm_set m k v) (so_dirtyStorage ob) (so_pendingStorage ob),
      so_dirtyStorage := []\<rparr>"

definition so_revertErase :: "backend \<Rightarrow> hash \<Rightarrow> bytes option \<Rightarrow> hash \<Rightarrow> stateObject \<Rightarrow> stateObject" where
  "so_revertErase be codeHash code root ob =
    (snd (getTrie be (ob\<lparr>so_code := code,
       so_data := (so_data ob)\<lparr>sa_CodeHash := hash_bytes codeHash, sa_Root := root\<rparr>\<rparr>)))\<lparr>so_dirtyCode := True\<rparr>"

definition so_deepCopy :: "backend \<Rightarrow> stateObject \<Rightarrow> stateObject" where
  "so_deepCopy be ob =
    (newObject be (so_address ob) (sa_Nonce (so_data ob)) (Some (sa_Balance (so_data ob))) (sa_Root (so_data ob))
       (Some (sa_CodeHash (so_data ob))))
    \<lparr>so_trie := so_trie ob, so_code := so_code ob,
     so_dirtyStorage := fold (\<lambda>(k, v) m. gm_set m k v) (so_dirtyStorage ob) [],
     so_originStorage := fold (\<lambda>(k, v) m. gm_set m k v) (so_originStorage ob) [],
     so_pendingStorage := fold (\<lambda>(k, v) m. gm_set m k v) (so_pendingStorage ob) [],
     so_suicided := so_suicided ob, so_dirtyCode := so_dirtyCode ob, so_deleted := so_deleted ob\<rparr>"

subsection \<open>Finding and creating objects\<close>

definition sdb_setError :: "state_error \<Rightarrow> StateDB \<Rightarrow> StateDB" where
  "sdb_setError e s = (if sdb_dbErr s = None then s\<lparr>sdb_dbErr := Some e\<rparr> else s)"

definition setStateObject :: "stateObject \<Rightarrow> StateDB \<Rightarrow> StateDB" where
  "setStateObject ob s = s\<lparr>sdb_stateObjects := gm_set (sdb_stateObjects s) (so_address ob) ob\<rparr>"

definition slim_data :: "backend \<Rightarrow> slim_account \<Rightarrow> StateAccount" where
  "slim_data be acc =
    \<lparr>sa_Nonce = sl_Nonce acc, sa_Balance = sl_Balance acc,
     sa_Root = (if BytesToHash (sl_Root acc) = 0 then EmptyRootHash else BytesToHash (sl_Root acc)),
     sa_CodeHash = (if sl_CodeHash acc = [] then emptyCodeHash be else sl_CodeHash acc)\<rparr>"

definition load_account :: "backend \<Rightarrow> StateDB \<Rightarrow> address \<Rightarrow> account_read" where
  "load_account be s a =
    (case (case sdb_snap s of None \<Rightarrow> None | Some sn \<Rightarrow> sn_Account sn (be_keccak be (address_bytes a))) of
       Some None \<Rightarrow> Absent
     | Some (Some acc) \<Rightarrow> Found (slim_data be acc)
     | None \<Rightarrow> be_TryGet be a)"

definition getDeletedStateObject :: "backend \<Rightarrow> address \<Rightarrow> StateDB \<Rightarrow> stateObject option \<times> StateDB" where
  "getDeletedStateObject be a s =
    (case gm_get (sdb_stateObjects s) a of
       Some obj \<Rightarrow> (Some obj, s)
     | None \<Rightarrow>
         (case load_account be s a of
            ReadErr \<Rightarrow> (None, sdb_setError (ErrAccount a) s)
          | Absent \<Rightarrow> (None, s)
          | BadAccount \<Rightarrow> (None, s)
          | Found d \<Rightarrow>
              (let obj = newObject be a (sa_Nonce d) (Some (sa_Balance d)) (sa_Root d) (Some (sa_CodeHash d))
               in (Some obj, setStateObject obj s))))"

definition getStateObject :: "backend \<Rightarrow> address \<Rightarrow> StateDB \<Rightarrow> stateObject option \<times> StateDB" where
  "getStateObject be a s =
    (case getDeletedStateObject be a s of
       (Some obj, s') \<Rightarrow> (if so_deleted obj then None else Some obj, s')
     | (None, s') \<Rightarrow> (None, s'))"

text \<open>The second component is the object that was replaced, if it was not deleted.\<close>

definition createObject :: "backend \<Rightarrow> address \<Rightarrow> StateDB \<Rightarrow> (stateObject \<times> stateObject option) \<times> StateDB" where
  "createObject be a s =
    (case getDeletedStateObject be a s of
       (None, s1) \<Rightarrow>
         (let newobj = newObject be a 0 None 0 None
          in ((newobj, None), setStateObject newobj (journal_append (createObjectChange a) s1)))
     | (Some prev, s1) \<Rightarrow>
         (let h = so_addrHash be prev;
              prevdestruct = (sdb_snap s1 \<noteq> None \<and> gm_get (sdb_snapDestructs s1) h \<noteq> None);
              s2 = (if sdb_snap s1 \<noteq> None \<and> \<not> prevdestruct
                    then s1\<lparr>sdb_snapDestructs := gm_set (sdb_snapDestructs s1) h ()\<rparr> else s1);
              newobj = newObject be a 0 None 0 None
          in ((newobj, if so_deleted prev then None else Some prev),
              setStateObject newobj (journal_append (resetObjectChange prev prevdestruct) s2))))"

definition GetOrNewStateObject :: "backend \<Rightarrow> address \<Rightarrow> StateDB \<Rightarrow> stateObject \<times> StateDB" where
  "GetOrNewStateObject be a s =
    (case getStateObject be a s of
       (Some obj, s') \<Rightarrow> (obj, s')
     | (None, s') \<Rightarrow> (let ((newobj, _), s'') = createObject be a s' in (newobj, s'')))"

definition CreateAccount :: "backend \<Rightarrow> address \<Rightarrow> StateDB \<Rightarrow> StateDB" where
  "CreateAccount be a s =
    (case createObject be a s of
       ((newObj, None), s') \<Rightarrow> s'
     | ((newObj, Some prev), s') \<Rightarrow> setStateObject (so_setBalance (sa_Balance (so_data prev)) newObj) s')"

subsection \<open>Getters\<close>

definition Exist :: "backend \<Rightarrow> address \<Rightarrow> StateDB \<Rightarrow> bool \<times> StateDB" where
  "Exist be a s = (let (obj, s') = getStateObject be a s in (obj \<noteq> None, s'))"

definition Empty :: "backend \<Rightarrow> address \<Rightarrow> StateDB \<Rightarrow> bool \<times> StateDB" where
  "Empty be a s = (let (obj, s') = getStateObject be a s in (case obj of None \<Rightarrow> True | Some ob \<Rightarrow> so_empty be ob, s'))"

definition GetBalance :: "backend \<Rightarrow> address \<Rightarrow> StateDB \<Rightarrow> int \<times> StateDB" where
  "GetBalance be a s =
    (let (obj, s') = getStateObject be a s in (case obj of None \<Rightarrow> 0 | Some ob \<Rightarrow> sa_Balance (so_data ob), s'))"

definition GetNonce :: "backend \<Rightarrow> address \<Rightarrow> StateDB \<Rightarrow> u64 \<times> StateDB" where
  "GetNonce be a s =
    (let (obj, s') = getStateObject be a s in (case obj of None \<Rightarrow> 0 | Some ob \<Rightarrow> sa_Nonce (so_data ob), s'))"

definition GetCode :: "backend \<Rightarrow> address \<Rightarrow> StateDB \<Rightarrow> bytes option \<times> StateDB" where
  "GetCode be a s =
    (case getStateObject be a s of
       (None, s') \<Rightarrow> (None, s')
     | (Some ob, s') \<Rightarrow> (let (c, ob') = so_Code be ob in (c, setStateObject ob' s')))"

definition GetCodeHash :: "backend \<Rightarrow> address \<Rightarrow> StateDB \<Rightarrow> hash \<times> StateDB" where
  "GetCodeHash be a s =
    (let (obj, s') = getStateObject be a s
     in (case obj of None \<Rightarrow> 0 | Some ob \<Rightarrow> BytesToHash (sa_CodeHash (so_data ob)), s'))"

definition GetState :: "backend \<Rightarrow> address \<Rightarrow> hash \<Rightarrow> StateDB \<Rightarrow> hash \<times> StateDB" where
  "GetState be a k s =
    (case getStateObject be a s of
       (None, s') \<Rightarrow> (0, s')
     | (Some ob, s') \<Rightarrow> (let (v, ob') = so_GetState be s' k ob in (v, setStateObject ob' s')))"

definition GetCommittedState :: "backend \<Rightarrow> address \<Rightarrow> hash \<Rightarrow> StateDB \<Rightarrow> hash \<times> StateDB" where
  "GetCommittedState be a k s =
    (case getStateObject be a s of
       (None, s') \<Rightarrow> (0, s')
     | (Some ob, s') \<Rightarrow> (let (v, ob') = so_GetCommittedState be s' k ob in (v, setStateObject ob' s')))"

definition HasSuicided :: "backend \<Rightarrow> address \<Rightarrow> StateDB \<Rightarrow> bool \<times> StateDB" where
  "HasSuicided be a s =
    (let (obj, s') = getStateObject be a s in (case obj of None \<Rightarrow> False | Some ob \<Rightarrow> so_suicided ob, s'))"

subsection \<open>Setters\<close>

definition ripemd :: address where
  "ripemd = 3"

definition so_touch :: "stateObject \<Rightarrow> StateDB \<Rightarrow> StateDB" where
  "so_touch ob s =
    (let s' = journal_append (touchChange (so_address ob)) s
     in if so_address ob = ripemd then journal_dirty (so_address ob) s' else s')"

definition so_SetBalance :: "int \<Rightarrow> stateObject \<Rightarrow> StateDB \<Rightarrow> StateDB" where
  "so_SetBalance amount ob s =
    setStateObject (so_setBalance amount ob) (journal_append (balanceChange (so_address ob) (sa_Balance (so_data ob))) s)"

definition AddBalance :: "backend \<Rightarrow> address \<Rightarrow> int \<Rightarrow> StateDB \<Rightarrow> StateDB" where
  "AddBalance be a amount s =
    (let (ob, s') = GetOrNewStateObject be a s
     in if amount = 0 then (if so_empty be ob then so_touch ob s' else s')
        else so_SetBalance (sa_Balance (so_data ob) + amount) ob s')"

definition SubBalance :: "backend \<Rightarrow> address \<Rightarrow> int \<Rightarrow> StateDB \<Rightarrow> StateDB" where
  "SubBalance be a amount s =
    (let (ob, s') = GetOrNewStateObject be a s
     in if amount = 0 then (if so_empty be ob then so_touch ob s' else s')
        else so_SetBalance (sa_Balance (so_data ob) - amount) ob s')"

definition SetBalance :: "backend \<Rightarrow> address \<Rightarrow> int \<Rightarrow> StateDB \<Rightarrow> StateDB" where
  "SetBalance be a amount s = (let (ob, s') = GetOrNewStateObject be a s in so_SetBalance amount ob s')"

definition SetNonce :: "backend \<Rightarrow> address \<Rightarrow> u64 \<Rightarrow> StateDB \<Rightarrow> StateDB" where
  "SetNonce be a nonce s =
    (let (ob, s') = GetOrNewStateObject be a s
     in setStateObject (so_setNonce nonce ob) (journal_append (nonceChange (so_address ob) (sa_Nonce (so_data ob))) s'))"

definition so_SetCode :: "backend \<Rightarrow> hash \<Rightarrow> bytes option \<Rightarrow> stateObject \<Rightarrow> StateDB \<Rightarrow> StateDB" where
  "so_SetCode be h code ob s =
    (let (prevcode, ob') = so_Code be ob
     in setStateObject (so_setCode h code ob')
          (journal_append (codeChange (so_address ob') prevcode (sa_CodeHash (so_data ob'))) s))"

definition SetCode :: "backend \<Rightarrow> address \<Rightarrow> bytes option \<Rightarrow> StateDB \<Rightarrow> StateDB" where
  "SetCode be a code s =
    (let (ob, s') = GetOrNewStateObject be a s
     in so_SetCode be (be_keccak be (case code of None \<Rightarrow> [] | Some c \<Rightarrow> c)) code ob s')"

definition so_SetState :: "backend \<Rightarrow> hash \<Rightarrow> hash \<Rightarrow> stateObject \<Rightarrow> StateDB \<Rightarrow> StateDB" where
  "so_SetState be k v ob s =
    (let (prev, ob') = so_GetState be s k ob
     in if prev = v then setStateObject ob' s
        else setStateObject (so_setState k v ob') (journal_append (storageChange (so_address ob') k prev) s))"

definition SetState :: "backend \<Rightarrow> address \<Rightarrow> hash \<Rightarrow> hash \<Rightarrow> StateDB \<Rightarrow> StateDB" where
  "SetState be a k v s = (let (ob, s') = GetOrNewStateObject be a s in so_SetState be k v ob s')"

text \<open>Writing to a nil map panics.  The loop keeps the object's pointer; looking it up again finds the same object.\<close>

fun set_slots :: "backend \<Rightarrow> address \<Rightarrow> (hash, hash) gomap \<Rightarrow> StateDB \<Rightarrow> StateDB" where
  "set_slots be a [] s = s"
| "set_slots be a ((k, v) # kvs) s = set_slots be a kvs (SetState be a k v s)"

definition SetStorage :: "backend \<Rightarrow> address \<Rightarrow> (hash, hash) gomap \<Rightarrow> StateDB \<Rightarrow> StateDB option" where
  "SetStorage be a storage s =
    (case sdb_stateObjectsDestruct s of
       None \<Rightarrow> None
     | Some d \<Rightarrow>
         (let s1 = s\<lparr>sdb_stateObjectsDestruct := Some (gm_set d a ())\<rparr>;
              (_, s2) = GetOrNewStateObject be a s1
          in Some (set_slots be a storage s2)))"

definition Suicide :: "backend \<Rightarrow> address \<Rightarrow> StateDB \<Rightarrow> bool \<times> StateDB" where
  "Suicide be a s =
    (case getStateObject be a s of
       (None, s') \<Rightarrow> (False, s')
     | (Some ob, s') \<Rightarrow>
         (True, setStateObject (so_setBalance 0 (ob\<lparr>so_suicided := True\<rparr>))
            (journal_append (suicideChange a (so_suicided ob) (sa_Balance (so_data ob))) s')))"

definition so_erase :: "backend \<Rightarrow> stateObject \<Rightarrow> StateDB \<Rightarrow> StateDB" where
  "so_erase be ob s =
    (let (prevcode, ob') = so_Code be ob
     in setStateObject (ob'\<lparr>so_code := Some [],
            so_data := (so_data ob')\<lparr>sa_CodeHash := emptyCodeHash be, sa_Root := EmptyRootHash\<rparr>,
            so_trie := None, so_dirtyCode := True\<rparr>)
          (journal_append (eraseChange (so_address ob') prevcode (sa_CodeHash (so_data ob')) (sa_Root (so_data ob'))) s))"

definition Erase :: "backend \<Rightarrow> address \<Rightarrow> StateDB \<Rightarrow> bool \<times> StateDB" where
  "Erase be a s =
    (case getStateObject be a s of
       (None, s') \<Rightarrow> (False, s')
     | (Some ob, s') \<Rightarrow> (True, so_erase be ob s'))"

definition AddRefund :: "u64 \<Rightarrow> StateDB \<Rightarrow> StateDB" where
  "AddRefund gas s = (let s' = journal_append (refundChange (sdb_refund s)) s in s'\<lparr>sdb_refund := sdb_refund s + gas\<rparr>)"

definition SubRefund :: "u64 \<Rightarrow> StateDB \<Rightarrow> StateDB option" where
  "SubRefund gas s =
    (let s' = journal_append (refundChange (sdb_refund s)) s
     in if gas > sdb_refund s then None else Some (s'\<lparr>sdb_refund := sdb_refund s - gas\<rparr>))"

definition logs_of :: "StateDB \<Rightarrow> hash \<Rightarrow> Log list" where
  "logs_of s h = (case gm_get (sdb_logs s) h of None \<Rightarrow> [] | Some ls \<Rightarrow> ls)"

definition AddLog :: "Log \<Rightarrow> StateDB \<Rightarrow> StateDB" where
  "AddLog log s =
    (let s' = journal_append (addLogChange (sdb_thash s)) s;
         log' = log\<lparr>lg_TxHash := sdb_thash s, lg_TxIndex := word_of_int (sdb_txIndex s), lg_Index := sdb_logSize s\<rparr>
     in s'\<lparr>sdb_logs := gm_set (sdb_logs s) (sdb_thash s) (logs_of s (sdb_thash s) @ [log']),
           sdb_logSize := sdb_logSize s + 1\<rparr>)"

text \<open>\<^verbatim>\<open>GetLogs\<close> writes the block hash into the stored logs.\<close>

definition GetLogs :: "hash \<Rightarrow> hash \<Rightarrow> StateDB \<Rightarrow> Log list \<times> StateDB" where
  "GetLogs h blockHash s =
    (case gm_get (sdb_logs s) h of
       None \<Rightarrow> ([], s)
     | Some ls \<Rightarrow>
         (let ls' = map (\<lambda>l. l\<lparr>lg_BlockHash := blockHash\<rparr>) ls in (ls', s\<lparr>sdb_logs := gm_set (sdb_logs s) h ls'\<rparr>)))"

definition AddPreimage :: "hash \<Rightarrow> bytes \<Rightarrow> StateDB \<Rightarrow> StateDB" where
  "AddPreimage h preimage s =
    (if gm_get (sdb_preimages s) h \<noteq> None then s
     else (journal_append (addPreimageChange h) s)\<lparr>sdb_preimages := gm_set (sdb_preimages s) h preimage\<rparr>)"

definition AddAddressToAccessList :: "address \<Rightarrow> StateDB \<Rightarrow> StateDB" where
  "AddAddressToAccessList a s =
    (let (al, changed) = AddAddress a (sdb_accessList s); s' = s\<lparr>sdb_accessList := al\<rparr>
     in if changed then journal_append (accessListAddAccountChange a) s' else s')"

definition AddSlotToAccessList :: "address \<Rightarrow> hash \<Rightarrow> StateDB \<Rightarrow> StateDB option" where
  "AddSlotToAccessList a slot s =
    (case AddSlot a slot (sdb_accessList s) of
       None \<Rightarrow> None
     | Some (al, addrMod, slotMod) \<Rightarrow>
         (let s1 = s\<lparr>sdb_accessList := al\<rparr>;
              s2 = (if addrMod then journal_append (accessListAddAccountChange a) s1 else s1)
          in Some (if slotMod then journal_append (accessListAddSlotChange a slot) s2 else s2)))"

fun add_slots :: "address \<Rightarrow> hash list \<Rightarrow> StateDB \<Rightarrow> StateDB option" where
  "add_slots a [] s = Some s"
| "add_slots a (k # ks) s = (case AddSlotToAccessList a k s of None \<Rightarrow> None | Some s' \<Rightarrow> add_slots a ks s')"

fun add_tuples :: "(address \<times> hash list) list \<Rightarrow> StateDB \<Rightarrow> StateDB option" where
  "add_tuples [] s = Some s"
| "add_tuples ((a, ks) # els) s =
     (case add_slots a ks (AddAddressToAccessList a s) of None \<Rightarrow> None | Some s' \<Rightarrow> add_tuples els s')"

definition PrepareAccessList ::
  "address \<Rightarrow> address option \<Rightarrow> address list \<Rightarrow> (address \<times> hash list) list \<Rightarrow> StateDB \<Rightarrow> StateDB option" where
  "PrepareAccessList sender dst precompiles list s =
    (let s1 = AddAddressToAccessList sender s;
         s2 = (case dst of None \<Rightarrow> s1 | Some d \<Rightarrow> AddAddressToAccessList d s1);
         s3 = fold AddAddressToAccessList precompiles s2
     in add_tuples list s3)"

definition AddressInAccessList :: "address \<Rightarrow> StateDB \<Rightarrow> bool" where
  "AddressInAccessList a s = ContainsAddress (sdb_accessList s) a"

definition SlotInAccessList :: "address \<Rightarrow> hash \<Rightarrow> StateDB \<Rightarrow> (bool \<times> bool) option" where
  "SlotInAccessList a slot s = al_Contains (sdb_accessList s) a slot"

subsection \<open>Reverting\<close>

text \<open>The revert method of each journal entry.\<close>

definition modify_object :: "backend \<Rightarrow> address \<Rightarrow> (stateObject \<Rightarrow> stateObject) \<Rightarrow> StateDB \<Rightarrow> StateDB option" where
  "modify_object be a f s =
    (case getStateObject be a s of (None, s') \<Rightarrow> None | (Some ob, s') \<Rightarrow> Some (setStateObject (f ob) s'))"

fun revert_entry :: "backend \<Rightarrow> journalEntry \<Rightarrow> StateDB \<Rightarrow> StateDB option" where
  "revert_entry be (createObjectChange a) s =
     Some (s\<lparr>sdb_stateObjects := gm_del (sdb_stateObjects s) a,
             sdb_stateObjectsDirty := gm_del (sdb_stateObjectsDirty s) a\<rparr>)"
| "revert_entry be (resetObjectChange prev prevdestruct) s =
     (let s' = setStateObject prev s
      in Some (if \<not> prevdestruct \<and> sdb_snap s' \<noteq> None
               then s'\<lparr>sdb_snapDestructs := gm_del (sdb_snapDestructs s') (so_addrHash be prev)\<rparr> else s'))"
| "revert_entry be (suicideChange a prev prevbalance) s =
     (case getStateObject be a s of
        (None, s') \<Rightarrow> Some s'
      | (Some ob, s') \<Rightarrow> Some (setStateObject (so_setBalance prevbalance (ob\<lparr>so_suicided := prev\<rparr>)) s'))"
| "revert_entry be (balanceChange a prev) s = modify_object be a (so_setBalance prev) s"
| "revert_entry be (nonceChange a prev) s = modify_object be a (so_setNonce prev) s"
| "revert_entry be (storageChange a k prevalue) s = modify_object be a (so_setState k prevalue) s"
| "revert_entry be (codeChange a prevcode prevhash) s =
     modify_object be a (so_setCode (BytesToHash prevhash) prevcode) s"
| "revert_entry be (refundChange prev) s = Some (s\<lparr>sdb_refund := prev\<rparr>)"
| "revert_entry be (addLogChange txhash) s =
     (let logs = logs_of s txhash
      in if logs = [] then None
         else Some (s\<lparr>sdb_logs := (if length logs = 1 then gm_del (sdb_logs s) txhash
                                    else gm_set (sdb_logs s) txhash (butlast logs)),
                      sdb_logSize := sdb_logSize s - 1\<rparr>))"
| "revert_entry be (addPreimageChange h) s = Some (s\<lparr>sdb_preimages := gm_del (sdb_preimages s) h\<rparr>)"
| "revert_entry be (touchChange a) s = Some s"
| "revert_entry be (accessListAddAccountChange a) s =
     Some (s\<lparr>sdb_accessList := DeleteAddress a (sdb_accessList s)\<rparr>)"
| "revert_entry be (accessListAddSlotChange a slot) s =
     map_option (\<lambda>al. s\<lparr>sdb_accessList := al\<rparr>) (DeleteSlot a slot (sdb_accessList s))"
| "revert_entry be (eraseChange a prevcode prevhash prevroot) s =
     modify_object be a (so_revertErase be (BytesToHash prevhash) prevcode prevroot) s"

text \<open>The loop of \<^verbatim>\<open>journal.revert\<close> over the entries from the last one down.\<close>

fun undo_entries :: "backend \<Rightarrow> journalEntry list \<Rightarrow> StateDB \<Rightarrow> StateDB option" where
  "undo_entries be [] s = Some s"
| "undo_entries be (e # es) s =
     (case revert_entry be e s of None \<Rightarrow> None | Some s' \<Rightarrow> undo_entries be es (journal_undirty e s'))"

definition journal_revert :: "backend \<Rightarrow> nat \<Rightarrow> StateDB \<Rightarrow> StateDB option" where
  "journal_revert be snapshot s =
    map_option (\<lambda>s'. s'\<lparr>sdb_entries := take snapshot (sdb_entries s')\<rparr>)
      (undo_entries be (rev (drop snapshot (sdb_entries s))) s)"

definition state_Snapshot :: "StateDB \<Rightarrow> int \<times> StateDB" where
  "state_Snapshot s =
    (let i = sdb_nextRevisionId s
     in (i, s\<lparr>sdb_nextRevisionId := i + 1,
              sdb_validRevisions := sdb_validRevisions s @ [(i, length (sdb_entries s))]\<rparr>))"

text \<open>\<^verbatim>\<open>sort.Search\<close>: binary search for the first index at which a monotone predicate holds.\<close>

function sort_Search :: "(nat \<Rightarrow> bool) \<Rightarrow> nat \<Rightarrow> nat \<Rightarrow> nat" where
  "sort_Search f i j =
    (if i < j then (let h = (i + j) div 2 in if \<not> f h then sort_Search f (h + 1) j else sort_Search f i h) else i)"
  by auto
termination
  by (relation "measure (\<lambda>(f, i, j). j - i)") auto

definition RevertToSnapshot :: "backend \<Rightarrow> int \<Rightarrow> StateDB \<Rightarrow> StateDB option" where
  "RevertToSnapshot be revid s =
    (let revs = sdb_validRevisions s;
         idx = sort_Search (\<lambda>i. fst (revs ! i) \<ge> revid) 0 (length revs)
     in if idx = length revs \<or> fst (revs ! idx) \<noteq> revid then None
        else map_option (\<lambda>s'. s'\<lparr>sdb_validRevisions := take idx (sdb_validRevisions s')\<rparr>)
               (journal_revert be (snd (revs ! idx)) s))"

subsection \<open>The end of a transaction\<close>

definition clearJournalAndRefund :: "StateDB \<Rightarrow> StateDB" where
  "clearJournalAndRefund s =
    (let s' = (if sdb_entries s \<noteq> [] then s\<lparr>sdb_entries := [], sdb_dirties := [], sdb_refund := 0\<rparr> else s)
     in s'\<lparr>sdb_validRevisions := []\<rparr>)"

text \<open>The body of the loop of \<^verbatim>\<open>Finalise\<close> for one address of the journal's dirty set.\<close>

definition finalise_one :: "backend \<Rightarrow> bool \<Rightarrow> address \<Rightarrow> StateDB \<Rightarrow> StateDB" where
  "finalise_one be deleteEmpty a s =
    (case gm_get (sdb_stateObjects s) a of
       None \<Rightarrow> s
     | Some obj \<Rightarrow>
         (let s1 =
            (if so_suicided obj \<or> (deleteEmpty \<and> so_empty be obj) then
               (let h = so_addrHash be obj;
                    s0 = setStateObject (obj\<lparr>so_deleted := True\<rparr>) s
                in if sdb_snap s \<noteq> None
                   then s0\<lparr>sdb_snapDestructs := gm_set (sdb_snapDestructs s) h (),
                           sdb_snapAccounts := gm_del (sdb_snapAccounts s) h,
                           sdb_snapStorage := gm_del (sdb_snapStorage s) h\<rparr>
                   else s0)
             else setStateObject (so_finalise obj) s)
          in s1\<lparr>sdb_stateObjectsPending := gm_set (sdb_stateObjectsPending s1) a (),
                sdb_stateObjectsDirty := gm_set (sdb_stateObjectsDirty s1) a ()\<rparr>))"

definition Finalise :: "backend \<Rightarrow> bool \<Rightarrow> StateDB \<Rightarrow> StateDB" where
  "Finalise be deleteEmpty s = clearJournalAndRefund (fold (finalise_one be deleteEmpty) (gm_keys (sdb_dirties s)) s)"

definition state_Prepare :: "hash \<Rightarrow> int \<Rightarrow> StateDB \<Rightarrow> StateDB" where
  "state_Prepare thash ti s = s\<lparr>sdb_thash := thash, sdb_txIndex := ti, sdb_accessList := newAccessList\<rparr>"

subsection \<open>Transfers (\<^verbatim>\<open>core/evm.go\<close>)\<close>

definition CanTransfer :: "backend \<Rightarrow> address \<Rightarrow> int \<Rightarrow> StateDB \<Rightarrow> bool \<times> StateDB" where
  "CanTransfer be a amount s = (let (b, s') = GetBalance be a s in (b \<ge> amount, s'))"

definition Transfer :: "backend \<Rightarrow> address \<Rightarrow> address \<Rightarrow> int \<Rightarrow> StateDB \<Rightarrow> StateDB" where
  "Transfer be sender recipient amount s = AddBalance be recipient amount (SubBalance be sender amount s)"

end
