(* ===== verification/State_Journal.thy ===== *)
theory State_Journal
  imports State_DB
begin

text \<open>
  What the journal promises: a revert restores everything a contract can observe.  The observable part of a
  state is its accounts as the getters see them, together with the refund counter, logs, preimages, access
  list and bookkeeping sets; caches, errors and the journal itself are not observable.
\<close>

subsection \<open>The observable state\<close>

definition peek :: "backend \<Rightarrow> StateDB \<Rightarrow> address \<Rightarrow> stateObject option" where
  "peek be s a = fst (getDeletedStateObject be a s)"

definition obj_view ::
  "backend \<Rightarrow> StateDB \<Rightarrow> stateObject \<Rightarrow>
   address \<times> StateAccount \<times> bytes option \<times> (hash \<Rightarrow> hash) \<times> (hash \<Rightarrow> hash) \<times> bool \<times> bool" where
  "obj_view be s ob =
    (so_address ob, so_data ob, fst (so_Code be ob), (\<lambda>k. fst (so_GetCommittedState be s k ob)),
     (\<lambda>k. fst (so_GetState be s k ob)), so_suicided ob, so_deleted ob)"

definition acct where
  "acct be s a = map_option (obj_view be s) (peek be s a)"

definition rest where
  "rest s = (sdb_snap s, gm_get (sdb_snapDestructs s), (sdb_refund s, sdb_thash s, sdb_txIndex s),
     (logs_of s, sdb_logSize s), gm_get (sdb_preimages s), sdb_accessList s,
     gm_get (sdb_stateObjectsDirty s), gm_get (sdb_stateObjectsPending s))"

definition same :: "backend \<Rightarrow> StateDB \<Rightarrow> StateDB \<Rightarrow> bool" where
  "same be s t \<longleftrightarrow> rest s = rest t \<and> acct be s = acct be t"

definition obj_ok :: "address \<Rightarrow> stateObject \<Rightarrow> bool" where
  "obj_ok a ob \<longleftrightarrow> so_address ob = a \<and> length (sa_CodeHash (so_data ob)) = 32"

text \<open>The invariant of a state.  Distinct addresses are taken to have distinct hashes.\<close>

definition state_inv :: "backend \<Rightarrow> StateDB \<Rightarrow> bool" where
  "state_inv be s \<longleftrightarrow>
    (\<forall>a ob. gm_get (sdb_stateObjects s) a = Some ob \<longrightarrow> obj_ok a ob) \<and>
    (\<forall>a d. load_account be s a = Found d \<longrightarrow> length (sa_CodeHash d) = 32) \<and>
    (\<forall>a. gm_get (sdb_stateObjectsDirty s) a \<noteq> None \<longrightarrow> gm_get (sdb_stateObjects s) a \<noteq> None) \<and>
    al_ok (sdb_accessList s) \<and> inj (\<lambda>a. be_keccak be (address_bytes a))"

lemma committed_cong:
  assumes "sdb_snap s = sdb_snap t" "gm_get (sdb_snapDestructs s) = gm_get (sdb_snapDestructs t)"
  shows "so_GetCommittedState be s k ob = so_GetCommittedState be t k ob"
    and "so_GetState be s k ob = so_GetState be t k ob" and "obj_view be s ob = obj_view be t ob"
proof -
  show c: "so_GetCommittedState be s k ob = so_GetCommittedState be t k ob" for k
    unfolding so_GetCommittedState_def read_slot_def assms ..
  show g: "so_GetState be s k ob = so_GetState be t k ob" for k unfolding so_GetState_def c ..
  show "obj_view be s ob = obj_view be t ob" by (simp add: obj_view_def c g)
qed

lemma load_cong: "sdb_snap s = sdb_snap t \<Longrightarrow> load_account be s a = load_account be t a"
  by (simp add: load_account_def)

lemma peek_eq:
  "peek be s a = (case gm_get (sdb_stateObjects s) a of
      Some ob \<Rightarrow> Some ob
    | None \<Rightarrow> (case load_account be s a of
         Found d \<Rightarrow> Some (newObject be a (sa_Nonce d) (Some (sa_Balance d)) (sa_Root d) (Some (sa_CodeHash d)))
       | _ \<Rightarrow> None))"
  by (simp add: peek_def getDeletedStateObject_def Let_def split: option.split account_read.split)

lemma acct_cong:
  assumes "sdb_snap s = sdb_snap t" "gm_get (sdb_snapDestructs s) = gm_get (sdb_snapDestructs t)"
    "gm_get (sdb_stateObjects s) = gm_get (sdb_stateObjects t)"
  shows "acct be s = acct be t"
proof
  fix a
  have "peek be s a = peek be t a" unfolding peek_eq assms(3) load_cong [OF assms(1)] ..
  moreover have "obj_view be s = obj_view be t" using committed_cong(3) [OF assms(1,2)] by (rule ext)
  ultimately show "acct be s a = acct be t a" by (simp add: acct_def)
qed

lemma acct_update [simp]:
  "acct be (s\<lparr>sdb_entries := x1\<rparr>) = acct be s" "acct be (s\<lparr>sdb_dirties := x2\<rparr>) = acct be s"
  "acct be (s\<lparr>sdb_dbErr := x3\<rparr>) = acct be s" "acct be (s\<lparr>sdb_refund := x4\<rparr>) = acct be s"
  "acct be (s\<lparr>sdb_logs := x5\<rparr>) = acct be s" "acct be (s\<lparr>sdb_logSize := x6\<rparr>) = acct be s"
  "acct be (s\<lparr>sdb_preimages := x7\<rparr>) = acct be s" "acct be (s\<lparr>sdb_accessList := x8\<rparr>) = acct be s"
  "acct be (s\<lparr>sdb_validRevisions := x9\<rparr>) = acct be s" "acct be (s\<lparr>sdb_nextRevisionId := x10\<rparr>) = acct be s"
  "acct be (s\<lparr>sdb_stateObjectsDirty := x11\<rparr>) = acct be s"
  by (rule acct_cong; simp)+

lemma rest_update [simp]:
  "rest (s\<lparr>sdb_entries := x1\<rparr>) = rest s" "rest (s\<lparr>sdb_dirties := x2\<rparr>) = rest s"
  "rest (s\<lparr>sdb_dbErr := x3\<rparr>) = rest s" "rest (s\<lparr>sdb_stateObjects := x4\<rparr>) = rest s"
  "rest (s\<lparr>sdb_validRevisions := x9\<rparr>) = rest s" "rest (s\<lparr>sdb_nextRevisionId := x10\<rparr>) = rest s"
  by (simp_all add: rest_def logs_of_def fun_eq_iff)

lemma state_inv_update [simp]:
  "state_inv be (s\<lparr>sdb_entries := x1\<rparr>) = state_inv be s" "state_inv be (s\<lparr>sdb_dirties := x2\<rparr>) = state_inv be s"
  "state_inv be (s\<lparr>sdb_dbErr := x3\<rparr>) = state_inv be s" "state_inv be (s\<lparr>sdb_refund := x4\<rparr>) = state_inv be s"
  "state_inv be (s\<lparr>sdb_logs := x5\<rparr>) = state_inv be s" "state_inv be (s\<lparr>sdb_logSize := x6\<rparr>) = state_inv be s"
  "state_inv be (s\<lparr>sdb_preimages := x7\<rparr>) = state_inv be s"
  "state_inv be (s\<lparr>sdb_validRevisions := x9\<rparr>) = state_inv be s" "state_inv be (s\<lparr>sdb_nextRevisionId := x10\<rparr>) = state_inv be s"
  "state_inv be (s\<lparr>sdb_snapDestructs := x11\<rparr>) = state_inv be s"
  by (simp_all add: state_inv_def load_account_def)

lemma rest_snap:
  "rest s = rest t \<Longrightarrow> sdb_snap s = sdb_snap t" "rest s = rest t \<Longrightarrow> gm_get (sdb_snapDestructs s) = gm_get (sdb_snapDestructs t)"
  by (simp_all add: rest_def)

lemma rest_view: "rest s = rest t \<Longrightarrow> obj_view be s = obj_view be t"
  using committed_cong(3) [of s t be] rest_snap by blast

lemma same_refl [simp]: "same be s s"
  by (simp add: same_def)

lemma same_trans: "same be s t \<Longrightarrow> same be t u \<Longrightarrow> same be s u"
  by (simp add: same_def)

lemma journal_append_fields [simp]:
  "acct be (journal_append e s) = acct be s" "rest (journal_append e s) = rest s"
  "state_inv be (journal_append e s) = state_inv be s"
  "sdb_entries (journal_append e s) = sdb_entries s @ [e]"
  "sdb_validRevisions (journal_append e s) = sdb_validRevisions s"
  "sdb_nextRevisionId (journal_append e s) = sdb_nextRevisionId s"
  "sdb_stateObjects (journal_append e s) = sdb_stateObjects s"
  "sdb_accessList (journal_append e s) = sdb_accessList s"
  by (simp_all add: journal_append_def journal_dirty_def Let_def split: option.split)

lemma journal_dirty_fields [simp]:
  "acct be (journal_dirty a s) = acct be s" "rest (journal_dirty a s) = rest s"
  "state_inv be (journal_dirty a s) = state_inv be s" "sdb_entries (journal_dirty a s) = sdb_entries s"
  "sdb_validRevisions (journal_dirty a s) = sdb_validRevisions s"
  "sdb_nextRevisionId (journal_dirty a s) = sdb_nextRevisionId s"
  by (simp_all add: journal_dirty_def)

lemma journal_undirty_fields [simp]:
  "acct be (journal_undirty e s) = acct be s" "rest (journal_undirty e s) = rest s"
  "state_inv be (journal_undirty e s) = state_inv be s"
  by (simp_all add: journal_undirty_def Let_def split: option.split)

lemma setStateObject_fields [simp]:
  "rest (setStateObject ob s) = rest s" "sdb_entries (setStateObject ob s) = sdb_entries s"
  "sdb_validRevisions (setStateObject ob s) = sdb_validRevisions s"
  "sdb_nextRevisionId (setStateObject ob s) = sdb_nextRevisionId s"
  "sdb_snap (setStateObject ob s) = sdb_snap s" "sdb_snapDestructs (setStateObject ob s) = sdb_snapDestructs s"
  by (simp_all add: setStateObject_def)

lemma acct_setStateObject [simp]:
  "acct be (setStateObject ob s) = (acct be s)(so_address ob := Some (obj_view be s ob))"
proof
  fix a
  have v: "obj_view be (setStateObject ob s) = obj_view be s" by (rule rest_view) simp
  show "acct be (setStateObject ob s) a = ((acct be s)(so_address ob := Some (obj_view be s ob))) a"
    unfolding acct_def v peek_eq load_cong [of "setStateObject ob s" s, simplified] by (simp add: setStateObject_def)
qed

lemma state_inv_setStateObject: "state_inv be s \<Longrightarrow> obj_ok (so_address ob) ob \<Longrightarrow> state_inv be (setStateObject ob s)"
  by (simp add: state_inv_def setStateObject_def load_account_def)

lemma newObject_sel [simp]:
  "so_address (newObject be a n b r h) = a" "so_deleted (newObject be a n b r h) = False"
  "sa_CodeHash (so_data (newObject be a n b r h)) = (case h of None \<Rightarrow> emptyCodeHash be | Some x \<Rightarrow> x)"
  by (simp_all add: newObject_def)

lemma peek_ok: "state_inv be s \<Longrightarrow> peek be s a = Some ob \<Longrightarrow> obj_ok a ob"
  by (auto simp: peek_eq state_inv_def obj_ok_def split: option.splits account_read.splits)

text \<open>Looking up an object only fills the cache.\<close>

lemma getDeletedStateObject_same:
  assumes "state_inv be s" "getDeletedStateObject be a s = (r, s')"
  shows "r = peek be s a \<and> same be s' s \<and> state_inv be s' \<and> gm_get (sdb_stateObjects s') a = r \<and>
    sdb_entries s' = sdb_entries s \<and> sdb_validRevisions s' = sdb_validRevisions s \<and>
    sdb_nextRevisionId s' = sdb_nextRevisionId s"
proof -
  have r: "r = peek be s a" using assms(2) by (simp add: peek_def)
  consider (cached) "s' = s" "gm_get (sdb_stateObjects s) a = r"
    | (err) "s' = sdb_setError (ErrAccount a) s" "r = None" "gm_get (sdb_stateObjects s) a = None"
    | (loaded) ob where "r = Some ob" "so_address ob = a" "s' = setStateObject ob s"
    using assms(2)
    by (cases "gm_get (sdb_stateObjects s) a"; cases "load_account be s a")
      (force simp: getDeletedStateObject_def Let_def)+
  then show ?thesis
  proof cases
    case (loaded ob)
    have ok: "obj_ok a ob" using peek_ok [OF assms(1)] r loaded(1) by simp
    have "acct be s a = Some (obj_view be s ob)" using r [symmetric] loaded(1) by (simp add: acct_def)
    then have "acct be s' = acct be s" using loaded by (auto simp: fun_eq_iff)
    then show ?thesis
      using loaded r ok state_inv_setStateObject [OF assms(1)] by (simp add: same_def) (simp add: setStateObject_def)
  qed (use r assms(1) in \<open>auto simp: sdb_setError_def same_def\<close>)
qed

lemma getStateObject_same:
  assumes "state_inv be s" "getStateObject be a s = (r, s')"
  shows "r = (case peek be s a of None \<Rightarrow> None | Some ob \<Rightarrow> if so_deleted ob then None else Some ob) \<and>
    same be s' s \<and> state_inv be s' \<and> gm_get (sdb_stateObjects s') a = peek be s a \<and>
    sdb_entries s' = sdb_entries s \<and> sdb_validRevisions s' = sdb_validRevisions s \<and>
    sdb_nextRevisionId s' = sdb_nextRevisionId s"
proof -
  obtain r' where g: "getDeletedStateObject be a s = (r', s')"
    using assms(2) by (auto simp: getStateObject_def split: prod.splits option.splits)
  then show ?thesis
    using getDeletedStateObject_same [OF assms(1) g] assms(2) by (auto simp: getStateObject_def split: option.splits)
qed

subsection \<open>Steps that can be undone\<close>

text \<open>Undoing \<open>es\<close> takes every state that looks like \<open>s'\<close> to one that looks like \<open>s\<close>.\<close>

definition undoes :: "backend \<Rightarrow> StateDB \<Rightarrow> journalEntry list \<Rightarrow> StateDB \<Rightarrow> bool" where
  "undoes be s' es s \<longleftrightarrow> (\<forall>t. state_inv be t \<and> same be t s' \<longrightarrow>
     (\<exists>u. undo_entries be (rev es) t = Some u \<and> state_inv be u \<and> same be u s))"

definition steps :: "backend \<Rightarrow> StateDB \<Rightarrow> StateDB \<Rightarrow> bool" where
  "steps be s s' \<longleftrightarrow> state_inv be s' \<and> sdb_validRevisions s' = sdb_validRevisions s \<and>
     sdb_nextRevisionId s' = sdb_nextRevisionId s \<and>
     (\<exists>es. sdb_entries s' = sdb_entries s @ es \<and> undoes be s' es s)"

lemma undo_entries_append:
  "undo_entries be (xs @ ys) s = (case undo_entries be xs s of None \<Rightarrow> None | Some s' \<Rightarrow> undo_entries be ys s')"
  by (induction xs arbitrary: s) (auto split: option.split)

lemma undoes_trans:
  assumes "undoes be s2 es2 s1" "undoes be s1 es1 s"
  shows "undoes be s2 (es1 @ es2) s"
  unfolding undoes_def
proof (intro allI impI, elim conjE)
  fix t
  assume "state_inv be t" "same be t s2"
  then obtain v where v: "undo_entries be (rev es2) t = Some v" "state_inv be v" "same be v s1"
    using assms(1) by (auto simp: undoes_def)
  then obtain u where "undo_entries be (rev es1) v = Some u" "state_inv be u" "same be u s"
    using assms(2) by (auto simp: undoes_def)
  with v show "\<exists>u. undo_entries be (rev (es1 @ es2)) t = Some u \<and> state_inv be u \<and> same be u s"
    by (auto simp: undo_entries_append)
qed

lemma undoes_Nil: "same be s' s \<Longrightarrow> undoes be s' [] s"
  by (auto simp: undoes_def intro: same_trans)

lemma steps_trans: "steps be s s1 \<Longrightarrow> steps be s1 s2 \<Longrightarrow> steps be s s2"
  unfolding steps_def using undoes_trans by (metis append.assoc)

lemma steps_same:
  "state_inv be s' \<Longrightarrow> same be s' s \<Longrightarrow> sdb_entries s' = sdb_entries s \<Longrightarrow>
   sdb_validRevisions s' = sdb_validRevisions s \<Longrightarrow> sdb_nextRevisionId s' = sdb_nextRevisionId s \<Longrightarrow> steps be s s'"
  using undoes_Nil by (auto simp: steps_def)

lemma steps_refl: "state_inv be s \<Longrightarrow> steps be s s"
  by (rule steps_same) simp_all

lemma steps_one:
  assumes "state_inv be s'" "sdb_entries s' = sdb_entries s @ [e]" "sdb_validRevisions s' = sdb_validRevisions s"
    "sdb_nextRevisionId s' = sdb_nextRevisionId s"
    and "\<And>t. state_inv be t \<Longrightarrow> same be t s' \<Longrightarrow> \<exists>u. revert_entry be e t = Some u \<and> state_inv be u \<and> same be u s"
  shows "steps be s s'"
proof -
  have "undoes be s' [e] s"
    unfolding undoes_def using assms(5) by (fastforce simp: same_def)
  then show ?thesis using assms by (auto simp: steps_def)
qed

lemma getStateObject_live:
  assumes "state_inv be t" "acct be t a = Some (obj_view be t f)" "\<not> so_deleted f"
  shows "\<exists>ob t'. getStateObject be a t = (Some ob, t') \<and> obj_view be t ob = obj_view be t f \<and> obj_ok a ob \<and>
    state_inv be t' \<and> same be t' t"
proof -
  obtain ob where ob: "peek be t a = Some ob" "obj_view be t ob = obj_view be t f"
    using assms(2) by (auto simp: acct_def)
  then have "\<not> so_deleted ob" using assms(3) by (simp add: obj_view_def)
  obtain r t' where g: "getStateObject be a t = (r, t')" by (cases "getStateObject be a t")
  show ?thesis
    using getStateObject_same [OF assms(1) g] g ob \<open>\<not> so_deleted ob\<close> peek_ok [OF assms(1) ob(1)] by auto
qed

text \<open>A journalled change of one live object, undone by \<open>g\<close>.\<close>

lemma steps_object:
  assumes "state_inv be s" "acct be s a = Some (obj_view be s ob)" "obj_ok a f" "\<not> so_deleted f"
    and e: "\<And>t x t'. getStateObject be a t = (Some x, t') \<Longrightarrow> revert_entry be e t = Some (setStateObject (g x) t')"
    and g: "\<And>x. obj_view be s x = obj_view be s f \<Longrightarrow> obj_ok a x \<Longrightarrow> obj_view be s (g x) = obj_view be s ob \<and> obj_ok a (g x)"
  shows "steps be s (setStateObject f (journal_append e s))" (is "steps be s ?s'")
proof (rule steps_one)
  have f: "so_address f = a" using assms(3) by (simp add: obj_ok_def)
  show "state_inv be ?s'" using state_inv_setStateObject [of be "journal_append e s" f] assms(1,3) f by simp
  fix t
  assume t: "state_inv be t" "same be t ?s'"
  have r: "rest t = rest s" using t(2) by (simp add: same_def)
  have v: "obj_view be t = obj_view be s" "obj_view be (journal_append e s) = obj_view be s"
    by (rule rest_view, simp add: r)+
  have at: "acct be t = (acct be s)(a := Some (obj_view be s f))" using t(2) f v(2) by (simp add: same_def)
  then have "acct be t a = Some (obj_view be t f)" using v by simp
  from getStateObject_live [OF t(1) this assms(4)] obtain x t'
    where x: "getStateObject be a t = (Some x, t')" "obj_view be s x = obj_view be s f" "obj_ok a x"
      "state_inv be t'" "same be t' t" using v by auto
  note gx = g [OF x(2,3)]
  have "so_address (g x) = a" using gx by (simp add: obj_ok_def)
  moreover have "obj_view be t' = obj_view be s" by (rule rest_view) (use x(5) r in \<open>simp add: same_def\<close>)
  moreover have "(acct be s)(a := acct be s a) = acct be s" by simp
  ultimately have "same be (setStateObject (g x) t') s"
    using x(5) r at gx assms(2) by (simp add: same_def)
  moreover have "state_inv be (setStateObject (g x) t')"
    using state_inv_setStateObject [OF x(4)] gx \<open>so_address (g x) = a\<close> by simp
  ultimately show "\<exists>u. revert_entry be e t = Some u \<and> state_inv be u \<and> same be u s"
    by (simp add: e [OF x(1)])
qed simp_all


subsection \<open>Caching does not change what an object shows\<close>

definition decode_slot :: "bytes option \<Rightarrow> hash" where
  "decode_slot r =
    (case r of
       None \<Rightarrow> 0
     | Some enc \<Rightarrow> if enc = [] then 0 else (case Split enc of Inl _ \<Rightarrow> 0 | Inr (_, content, _) \<Rightarrow> BytesToHash content))"

lemma so_setError_sel [simp]:
  "so_address (so_setError e ob) = so_address ob" "so_data (so_setError e ob) = so_data ob"
  "so_trie (so_setError e ob) = so_trie ob" "so_code (so_setError e ob) = so_code ob"
  "so_originStorage (so_setError e ob) = so_originStorage ob" "so_pendingStorage (so_setError e ob) = so_pendingStorage ob"
  "so_dirtyStorage (so_setError e ob) = so_dirtyStorage ob" "so_suicided (so_setError e ob) = so_suicided ob"
  "so_deleted (so_setError e ob) = so_deleted ob"
  by (simp_all add: so_setError_def)

lemma getTrie_sel:
  assumes "getTrie be ob = (tr, ob')"
  shows "so_address ob' = so_address ob" "so_data ob' = so_data ob" "so_trie ob' = Some tr" "so_code ob' = so_code ob"
    "so_originStorage ob' = so_originStorage ob" "so_pendingStorage ob' = so_pendingStorage ob"
    "so_dirtyStorage ob' = so_dirtyStorage ob" "so_suicided ob' = so_suicided ob" "so_deleted ob' = so_deleted ob"
  using assms by (auto simp: getTrie_def split: option.splits)

lemma getTrie_fst:
  "fst (getTrie be ob) = (case so_trie ob of Some tr \<Rightarrow> tr | None \<Rightarrow>
     (case be_OpenStorageTrie be (so_addrHash be ob) (sa_Root (so_data ob)) of Some tr \<Rightarrow> tr | None \<Rightarrow> empty_trie))"
  by (simp add: getTrie_def split: option.split)

lemma read_slot_fst:
  "fst (read_slot be s k ob) =
    (case (case sdb_snap s of None \<Rightarrow> None | Some sn \<Rightarrow> sn_Storage sn (so_addrHash be ob) (be_keccak be (hash_bytes k))) of
       Some enc \<Rightarrow> Some enc | None \<Rightarrow> fst (getTrie be ob) k)"
  by (simp add: read_slot_def split: option.split prod.split)

lemma committed_fst:
  "fst (so_GetCommittedState be s k ob) =
    (case gm_get (so_pendingStorage ob) k of Some v \<Rightarrow> v | None \<Rightarrow>
      (case gm_get (so_originStorage ob) k of Some v \<Rightarrow> v | None \<Rightarrow>
        if sdb_snap s \<noteq> None \<and> gm_get (sdb_snapDestructs s) (so_addrHash be ob) \<noteq> None then 0
        else decode_slot (fst (read_slot be s k ob))))"
  by (auto simp: so_GetCommittedState_def decode_slot_def Let_def split: option.split prod.split sum.split)

lemma state_fst:
  "fst (so_GetState be s k ob) =
    (case gm_get (so_dirtyStorage ob) k of Some v \<Rightarrow> v | None \<Rightarrow> fst (so_GetCommittedState be s k ob))"
  by (simp add: so_GetState_def split: option.split)

text \<open>What a read of a slot may change: the error, the opened trie, and the slot's cache entry.\<close>

definition cached_from :: "backend \<Rightarrow> StateDB \<Rightarrow> stateObject \<Rightarrow> stateObject \<Rightarrow> bool" where
  "cached_from be s ob ob' \<longleftrightarrow>
    so_address ob' = so_address ob \<and> so_data ob' = so_data ob \<and> fst (getTrie be ob') = fst (getTrie be ob) \<and>
    so_code ob' = so_code ob \<and> so_pendingStorage ob' = so_pendingStorage ob \<and> so_dirtyStorage ob' = so_dirtyStorage ob \<and>
    so_suicided ob' = so_suicided ob \<and> so_deleted ob' = so_deleted ob \<and>
    (so_originStorage ob' = so_originStorage ob \<or>
     (\<exists>k. gm_get (so_pendingStorage ob) k = None \<and>
        so_originStorage ob' = gm_set (so_originStorage ob) k (fst (so_GetCommittedState be s k ob))))"

lemma cached_from_view:
  assumes "cached_from be s ob ob'"
  shows "obj_view be s ob' = obj_view be s ob"
proof -
  note c = assms [unfolded cached_from_def]
  have h: "so_addrHash be ob' = so_addrHash be ob" using c by (simp add: so_addrHash_def)
  have e: "fst (getTrie be ob') = fst (getTrie be ob)" "so_pendingStorage ob' = so_pendingStorage ob"
    "so_dirtyStorage ob' = so_dirtyStorage ob" "so_code ob' = so_code ob" "so_data ob' = so_data ob" using c by simp_all
  have r: "fst (read_slot be s k ob') = fst (read_slot be s k ob)" for k
    unfolding read_slot_fst h e(1) ..
  have cm: "fst (so_GetCommittedState be s k ob') = fst (so_GetCommittedState be s k ob)" for k
  proof -
    consider "so_originStorage ob' = so_originStorage ob"
      | k' where "gm_get (so_pendingStorage ob) k' = None"
        "so_originStorage ob' = gm_set (so_originStorage ob) k' (fst (so_GetCommittedState be s k' ob))"
      using c by blast
    then show ?thesis
    proof cases
      case 1
      then show ?thesis by (simp add: committed_fst r h e cong: option.case_cong)
    next
      case 2
      show ?thesis
      proof (cases "k = k'")
        case True
        then show ?thesis using c 2 by (subst committed_fst) simp
      next
        case False
        then have "gm_get (so_originStorage ob') k = gm_get (so_originStorage ob) k" using 2 by simp
        then show ?thesis by (simp add: committed_fst r h e cong: option.case_cong)
      qed
    qed
  qed
  have "fst (so_Code be ob') = fst (so_Code be ob)" using c h by (auto simp: so_Code_def Let_def split: option.split)
  moreover have "fst (so_GetState be s k ob') = fst (so_GetState be s k ob)" for k
    unfolding state_fst cm e ..
  ultimately show ?thesis using c by (simp add: obj_view_def cm)
qed

lemma committed_cached:
  assumes "so_GetCommittedState be s k ob = (v, ob')"
  shows "cached_from be s ob ob'"
proof -
  have rs: "so_address y = so_address ob \<and> so_data y = so_data ob \<and> fst (getTrie be y) = fst (getTrie be ob) \<and>
      so_code y = so_code ob \<and> so_pendingStorage y = so_pendingStorage ob \<and> so_dirtyStorage y = so_dirtyStorage ob \<and>
      so_suicided y = so_suicided ob \<and> so_deleted y = so_deleted ob \<and> so_originStorage y = so_originStorage ob"
    if "read_slot be s k ob = (x, y)" for x y
  proof -
    obtain tr o1 where g: "getTrie be ob = (tr, o1)" by (cases "getTrie be ob")
    have "y = ob \<or> y = o1" using that g by (auto simp: read_slot_def split: option.splits)
    moreover have "fst (getTrie be o1) = fst (getTrie be ob)" using getTrie_sel(3) [OF g] g by (simp add: getTrie_fst [of be o1])
    ultimately show ?thesis using getTrie_sel [OF g] by auto
  qed
  have sE: "fst (getTrie be (so_setError e y)) = fst (getTrie be y)" for e y
    by (simp add: getTrie_fst so_addrHash_def cong: option.case_cong)
  have sO: "fst (getTrie be (y\<lparr>so_originStorage := m\<rparr>)) = fst (getTrie be y)" for m y
    by (simp add: getTrie_fst so_addrHash_def cong: option.case_cong)
  have v: "fst (so_GetCommittedState be s k ob) = v" using assms by simp
  have "ob' = ob \<or> (\<exists>x y e. read_slot be s k ob = (x, y) \<and> ob' = so_setError e y) \<or>
      gm_get (so_pendingStorage ob) k = None \<and>
      (\<exists>x y. read_slot be s k ob = (x, y) \<and> (ob' = y\<lparr>so_originStorage := gm_set (so_originStorage y) k v\<rparr> \<or>
         (\<exists>e. ob' = (so_setError e y)\<lparr>so_originStorage := gm_set (so_originStorage y) k v\<rparr>)))"
    using assms by (auto simp: so_GetCommittedState_def Let_def split: option.splits if_splits prod.splits sum.splits)
  then show ?thesis
  proof (elim disjE conjE exE)
    fix x y e
    assume r: "read_slot be s k ob = (x, y)" and "ob' = so_setError e y"
    then show ?thesis using rs [OF r] by (simp add: cached_from_def sE)
  next
    fix x y
    assume r: "read_slot be s k ob = (x, y)" and "ob' = y\<lparr>so_originStorage := gm_set (so_originStorage y) k v\<rparr>"
      "gm_get (so_pendingStorage ob) k = None"
    then show ?thesis using rs [OF r] v by (auto simp: cached_from_def sO)
  next
    fix x y e
    assume r: "read_slot be s k ob = (x, y)"
      and "ob' = (so_setError e y)\<lparr>so_originStorage := gm_set (so_originStorage y) k v\<rparr>"
      "gm_get (so_pendingStorage ob) k = None"
    then show ?thesis using rs [OF r] v by (auto simp: cached_from_def sE sO)
  qed (simp add: cached_from_def)
qed

lemma getstate_cached: "so_GetState be s k ob = (v, ob') \<Longrightarrow> cached_from be s ob ob'"
  by (auto simp: so_GetState_def cached_from_def split: option.splits dest!: committed_cached)

lemma code_view:
  assumes "so_Code be ob = (c, ob')"
  shows "obj_view be s ob' = obj_view be s ob" "so_address ob' = so_address ob" "so_data ob' = so_data ob"
    "so_deleted ob' = so_deleted ob" "c = fst (so_Code be ob)"
proof -
  have "ob' = ob \<or> (\<exists>e. ob' = so_setError e ob) \<or> (\<exists>x. ob' = ob\<lparr>so_code := Some x\<rparr> \<and> fst (so_Code be ob) = Some x)"
    using assms by (auto simp: so_Code_def Let_def split: option.splits if_splits)
  moreover have "cached_from be s ob (so_setError e ob)" for e
    by (simp add: cached_from_def getTrie_fst so_addrHash_def cong: option.case_cong)
  moreover have "obj_view be s (ob\<lparr>so_code := Some x\<rparr>) = obj_view be s ob" if "fst (so_Code be ob) = Some x" for x
  proof -
    have c: "fst (so_GetCommittedState be s k (ob\<lparr>so_code := Some x\<rparr>)) = fst (so_GetCommittedState be s k ob)" for k
      by (simp add: committed_fst read_slot_fst getTrie_fst so_addrHash_def cong: option.case_cong)
    have "fst (so_Code be (ob\<lparr>so_code := Some x\<rparr>)) = Some x" by (simp add: so_Code_def)
    then show ?thesis using that by (simp add: obj_view_def c state_fst cong: option.case_cong)
  qed
  ultimately show "obj_view be s ob' = obj_view be s ob" "so_address ob' = so_address ob" "so_data ob' = so_data ob"
    "so_deleted ob' = so_deleted ob" "c = fst (so_Code be ob)" using cached_from_view assms by auto
qed


subsection \<open>Every operation is undoable\<close>

text \<open>What a modification does to the view of an object.\<close>

lemma view_setBalance:
  "obj_view be s (so_setBalance b ob) =
    (case obj_view be s ob of (a, d, c, cm, st, su, de) \<Rightarrow> (a, d\<lparr>sa_Balance := b\<rparr>, c, cm, st, su, de))"
  by (simp add: obj_view_def so_setBalance_def committed_fst state_fst read_slot_fst getTrie_fst so_addrHash_def so_Code_def
      Let_def cong: option.case_cong if_cong split: option.split)

lemma view_setNonce:
  "obj_view be s (so_setNonce n ob) =
    (case obj_view be s ob of (a, d, c, cm, st, su, de) \<Rightarrow> (a, d\<lparr>sa_Nonce := n\<rparr>, c, cm, st, su, de))"
  by (simp add: obj_view_def so_setNonce_def committed_fst state_fst read_slot_fst getTrie_fst so_addrHash_def so_Code_def
      Let_def cong: option.case_cong if_cong split: option.split)

lemma view_setState:
  "obj_view be s (so_setState k v ob) =
    (case obj_view be s ob of (a, d, c, cm, st, su, de) \<Rightarrow> (a, d, c, cm, st(k := v), su, de))"
  by (simp add: obj_view_def so_setState_def committed_fst state_fst read_slot_fst getTrie_fst so_addrHash_def so_Code_def
      Let_def fun_eq_iff cong: option.case_cong if_cong split: option.split)

definition load_code :: "backend \<Rightarrow> address \<Rightarrow> bytes \<Rightarrow> bytes option" where
  "load_code be a h =
    (if h = emptyCodeHash be then None else be_ContractCode be (be_keccak be (address_bytes a)) (BytesToHash h))"

lemma code_fst: "fst (so_Code be ob) =
   (case so_code ob of Some c \<Rightarrow> Some c | None \<Rightarrow> load_code be (so_address ob) (sa_CodeHash (so_data ob)))"
  by (simp add: so_Code_def load_code_def so_addrHash_def Let_def split: option.split)

lemma view_setCode:
  "obj_view be s (so_setCode h code ob) =
    (case obj_view be s ob of (a, d, c, cm, st, su, de) \<Rightarrow>
       (a, d\<lparr>sa_CodeHash := hash_bytes h\<rparr>, case code of Some x \<Rightarrow> Some x | None \<Rightarrow> load_code be a (hash_bytes h),
        cm, st, su, de))"
  by (simp add: obj_view_def so_setCode_def committed_fst state_fst read_slot_fst getTrie_fst so_addrHash_def code_fst
      cong: option.case_cong if_cong)

lemma view_suicide:
  "obj_view be s (ob\<lparr>so_suicided := x\<rparr>) =
    (case obj_view be s ob of (a, d, c, cm, st, su, de) \<Rightarrow> (a, d, c, cm, st, x, de))"
  by (simp add: obj_view_def committed_fst state_fst read_slot_fst getTrie_fst so_addrHash_def code_fst
      cong: option.case_cong if_cong)

lemma obj_ok_set [simp]:
  "obj_ok a (so_setBalance b ob) = obj_ok a ob" "obj_ok a (so_setNonce n ob) = obj_ok a ob"
  "obj_ok a (so_setState k v ob) = obj_ok a ob" "obj_ok a (so_setCode h c ob) = (so_address ob = a)"
  "obj_ok a (ob\<lparr>so_suicided := x\<rparr>) = obj_ok a ob"
  "so_deleted (so_setBalance b ob) = so_deleted ob" "so_deleted (so_setNonce n ob) = so_deleted ob"
  "so_deleted (so_setState k v ob) = so_deleted ob" "so_deleted (so_setCode h c ob) = so_deleted ob"
  by (simp_all add: obj_ok_def so_setBalance_def so_setNonce_def so_setState_def so_setCode_def)

lemma hash_bytes_BytesToHash: "length bs = 32 \<Longrightarrow> hash_bytes (BytesToHash bs) = bs"
proof -
  assume l: "length bs = 32"
  have "be_nat bs < 256 ^ 32" using be_nat_bound [of bs] l by simp
  then have "unat (of_nat (be_nat bs) :: hash) = be_nat bs" by (simp add: unat_of_nat)
  then show ?thesis using be_bytes_be_nat [of bs] l by (simp add: hash_bytes_def BytesToHash_def)
qed

text \<open>The views of other accounts do not depend on whether this one is marked as destructed.\<close>

lemma acct_destruct:
  assumes "state_inv be s" "sdb_snap t = sdb_snap s" "gm_get (sdb_stateObjects t) b = gm_get (sdb_stateObjects s) b"
    and "\<And>h. h \<noteq> be_keccak be (address_bytes a) \<Longrightarrow> gm_get (sdb_snapDestructs t) h = gm_get (sdb_snapDestructs s) h" "b \<noteq> a"
  shows "acct be t b = acct be s b"
proof -
  have p: "peek be t b = peek be s b" unfolding peek_eq assms(3) load_cong [OF assms(2)] ..
  have "obj_view be t ob = obj_view be s ob" if "peek be s b = Some ob" for ob
  proof -
    have "so_address ob = b" using peek_ok [OF assms(1) that] by (simp add: obj_ok_def)
    moreover have "inj (\<lambda>a. be_keccak be (address_bytes a))" using assms(1) by (simp add: state_inv_def)
    ultimately have "so_addrHash be ob \<noteq> be_keccak be (address_bytes a)"
      using assms(5) by (auto simp: so_addrHash_def dest: injD)
    then have "gm_get (sdb_snapDestructs t) (so_addrHash be ob) = gm_get (sdb_snapDestructs s) (so_addrHash be ob)"
      by (rule assms(4))
    then have "fst (so_GetCommittedState be t k ob) = fst (so_GetCommittedState be s k ob)" for k
      using assms(2) by (simp add: committed_fst read_slot_fst cong: option.case_cong)
    then show ?thesis by (simp add: obj_view_def state_fst cong: option.case_cong)
  qed
  then show ?thesis by (cases "peek be s b") (simp_all add: acct_def p)
qed

lemma steps_create:
  assumes s: "state_inv be s" and pk: "peek be s a = None" "gm_get (sdb_stateObjects s) a = None" and f: "obj_ok a f"
  shows "steps be s (setStateObject f (journal_append (createObjectChange a) s))" (is "steps be s ?s'")
proof (rule steps_one)
  have fa: "so_address f = a" using f by (simp add: obj_ok_def)
  show "state_inv be ?s'"
    using state_inv_setStateObject [of be "journal_append (createObjectChange a) s" f] s f fa by simp
  fix t
  assume t: "state_inv be t" "same be t ?s'"
  let ?u = "t\<lparr>sdb_stateObjects := gm_del (sdb_stateObjects t) a, sdb_stateObjectsDirty := gm_del (sdb_stateObjectsDirty t) a\<rparr>"
  have r: "rest t = rest s" and ac: "acct be t = (acct be s)(a := Some (obj_view be (journal_append (createObjectChange a) s) f))"
    using t(2) fa by (simp_all add: same_def)
  have d: "gm_get (sdb_stateObjectsDirty s) a = None" using s pk(2) unfolding state_inv_def by blast
  have ru: "rest ?u = rest s"
    using r d by (auto simp: rest_def logs_of_def [abs_def] fun_eq_iff)
  have "acct be ?u b = acct be s b" for b
  proof (cases "b = a")
    case True
    have "load_account be ?u a = load_account be s a" by (rule load_cong) (use rest_snap(1) [OF ru] in simp)
    then have "peek be ?u a = None" using pk by (simp add: peek_eq split: account_read.splits)
    then show ?thesis unfolding True acct_def using pk(1) by simp
  next
    case False
    have "acct be ?u b = acct be t b" by (rule acct_destruct [OF t(1)]) (use False in simp_all)
    then show ?thesis using False ac by simp
  qed
  then have "same be ?u s" using ru by (simp add: same_def fun_eq_iff)
  moreover have "state_inv be ?u" using t(1) by (simp add: state_inv_def load_account_def)
  ultimately show "\<exists>u. revert_entry be (createObjectChange a) t = Some u \<and> state_inv be u \<and> same be u s" by simp
qed simp_all

lemma unit_option_neq [simp]: "x \<noteq> Some () \<longleftrightarrow> x = None"
  by (cases x) auto

lemma steps_reset:
  assumes s: "state_inv be s" and pk: "gm_get (sdb_stateObjects s) a = Some prev" and f: "obj_ok a f"
    and pd: "pd = (sdb_snap s \<noteq> None \<and> gm_get (sdb_snapDestructs s) (so_addrHash be prev) \<noteq> None)"
    and s2: "s2 = (if sdb_snap s \<noteq> None \<and> \<not> pd
        then s\<lparr>sdb_snapDestructs := gm_set (sdb_snapDestructs s) (so_addrHash be prev) ()\<rparr> else s)"
  shows "steps be s (setStateObject f (journal_append (resetObjectChange prev pd) s2))" (is "steps be s ?s'")
proof (rule steps_one)
  let ?h = "be_keccak be (address_bytes a)"
  have fa: "so_address f = a" using f by (simp add: obj_ok_def)
  have pa: "so_address prev = a" "obj_ok a prev" using s pk by (auto simp: state_inv_def obj_ok_def)
  then have h: "so_addrHash be prev = ?h" by (simp add: so_addrHash_def)
  have i2: "state_inv be s2" using s s2 by simp
  show "state_inv be ?s'"
    using state_inv_setStateObject [of be "journal_append (resetObjectChange prev pd) s2" f] i2 f fa by simp
  show "sdb_entries ?s' = sdb_entries s @ [resetObjectChange prev pd]"
    "sdb_validRevisions ?s' = sdb_validRevisions s" "sdb_nextRevisionId ?s' = sdb_nextRevisionId s"
    by (simp_all add: s2)
  fix t
  assume t: "state_inv be t" "same be t ?s'"
  have r: "rest t = rest s2" and ac: "b \<noteq> a \<Longrightarrow> acct be t b = acct be s2 b" for b
    using t(2) fa by (simp_all add: same_def)
  let ?t' = "setStateObject prev t"
  let ?u = "if \<not> pd \<and> sdb_snap ?t' \<noteq> None
      then ?t'\<lparr>sdb_snapDestructs := gm_del (sdb_snapDestructs ?t') (so_addrHash be prev)\<rparr> else ?t'"
  have sn: "sdb_snap t = sdb_snap s" using rest_snap(1) [OF r] by (simp add: s2)
  have dt: "gm_get (sdb_snapDestructs t) = gm_get (sdb_snapDestructs s2)" by (rule rest_snap(2) [OF r])
  have du: "gm_get (sdb_snapDestructs ?u) = gm_get (sdb_snapDestructs s)"
    using sn dt pd by (auto simp: s2 fun_eq_iff)
  have ru: "rest ?u = rest s"
    using r du by (auto simp: rest_def logs_of_def [abs_def] fun_eq_iff s2 setStateObject_def split: if_splits)
  have vu: "obj_view be ?u = obj_view be s" by (rule rest_view [OF ru])
  have "acct be ?u b = acct be s b" for b
  proof (cases "b = a")
    case True
    have "peek be ?u a = Some prev" "peek be s a = Some prev"
      using pa pk by (auto simp: peek_eq setStateObject_def)
    then show ?thesis using True vu by (simp add: acct_def)
  next
    case False
    have "acct be ?u b = acct be t b"
      by (rule acct_destruct [OF t(1)]) (use False pa h in \<open>auto simp: setStateObject_def split: if_splits\<close>)
    moreover have "acct be s2 b = acct be s b"
      by (rule acct_destruct [OF s]) (use False h in \<open>auto simp: s2 split: if_splits\<close>)
    ultimately show ?thesis using False ac by simp
  qed
  then have "same be ?u s" using ru by (simp add: same_def fun_eq_iff)
  moreover have "state_inv be ?u" using state_inv_setStateObject [OF t(1), of prev] pa by simp
  ultimately show "\<exists>u. revert_entry be (resetObjectChange prev pd) t = Some u \<and> state_inv be u \<and> same be u s"
    by (simp add: Let_def)
qed


lemma setStateObject_twice: "so_address f = so_address g \<Longrightarrow> setStateObject f (setStateObject g s) = setStateObject f s"
  by (simp add: setStateObject_def gm_set_twice)

lemma newObject_ok [simp]: "obj_ok a (newObject be a n b r None)"
  by (simp add: obj_ok_def emptyCodeHash_def)

text \<open>An object that is in the map and not deleted.\<close>

definition live :: "backend \<Rightarrow> address \<Rightarrow> stateObject \<Rightarrow> StateDB \<Rightarrow> bool" where
  "live be a ob s \<longleftrightarrow> gm_get (sdb_stateObjects s) a = Some ob \<and> \<not> so_deleted ob \<and> obj_ok a ob"

lemma live_acct: "live be a ob s \<Longrightarrow> acct be s a = Some (obj_view be s ob)"
  by (simp add: live_def acct_def peek_eq)

lemma live_set: "obj_ok a f \<Longrightarrow> \<not> so_deleted f \<Longrightarrow> live be a f (setStateObject f s)"
  by (auto simp: live_def setStateObject_def obj_ok_def)

lemma getDeleted_steps:
  assumes "state_inv be s" "getDeletedStateObject be a s = (r, s')"
  shows "steps be s s'" "state_inv be s'" "gm_get (sdb_stateObjects s') a = r" "peek be s' a = r"
proof -
  note g = getDeletedStateObject_same [OF assms]
  show "steps be s s'" by (rule steps_same) (use g in simp_all)
  show i: "state_inv be s'" "gm_get (sdb_stateObjects s') a = r" using g by simp_all
  have "acct be s' a = acct be s a" using g by (simp add: same_def)
  moreover have "r = peek be s a" using g by simp
  ultimately show "peek be s' a = r" using i(2) by (cases r) (auto simp: acct_def peek_eq [of be s' a] split: option.splits)
qed

lemma createObject_steps:
  assumes "state_inv be s" "createObject be a s = ((nb, p), s')" "obj_ok a f"
  shows "steps be s (setStateObject f s')"
proof -
  obtain r s1 where g: "getDeletedStateObject be a s = (r, s1)" by (cases "getDeletedStateObject be a s")
  note d = getDeleted_steps [OF assms(1) g]
  have fa: "so_address f = a" using assms(3) by (simp add: obj_ok_def)
  have "steps be s1 (setStateObject f s')"
  proof (cases r)
    case None
    have "setStateObject f s' = setStateObject f (journal_append (createObjectChange a) s1)"
      using assms(2) g None fa by (auto simp: createObject_def Let_def setStateObject_twice)
    then show ?thesis using steps_create [OF d(2) _ _ assms(3)] d(3,4) None by simp
  next
    case (Some prev)
    show ?thesis
      using assms(2) g Some fa steps_reset [OF d(2) d(3) [unfolded Some] assms(3) refl refl]
      by (auto simp: createObject_def Let_def setStateObject_twice)
  qed
  then show ?thesis using steps_trans [OF d(1)] by blast
qed

lemma createObject_new:
  "createObject be a s = ((nb, p), s') \<Longrightarrow> nb = newObject be a 0 None 0 None \<and> (\<exists>s2. s' = setStateObject nb s2)"
  by (auto simp: createObject_def Let_def split: prod.splits option.splits)

lemma GetOrNew_steps:
  assumes "state_inv be s" "GetOrNewStateObject be a s = (ob, s')"
  shows "steps be s s'" "live be a ob s'" "state_inv be s'"
proof -
  obtain r s1 where g: "getStateObject be a s = (r, s1)" by (cases "getStateObject be a s")
  note d = getStateObject_same [OF assms(1) g]
  have st: "steps be s s1" by (rule steps_same) (use d in simp_all)
  have "steps be s s' \<and> live be a ob s'"
  proof (cases r)
    case (Some x)
    then have "ob = x" "s' = s1" using assms(2) g by (simp_all add: GetOrNewStateObject_def)
    moreover have "peek be s a = Some x" "\<not> so_deleted x" using d Some by (auto split: option.splits if_splits)
    ultimately show ?thesis using st d peek_ok [OF assms(1)] by (auto simp: live_def)
  next
    case None
    obtain nb p s2 where c: "createObject be a s1 = ((nb, p), s2)" by (cases "createObject be a s1") auto
    have e: "ob = nb" "s' = s2" using assms(2) g None c by (auto simp: GetOrNewStateObject_def)
    obtain s3 where n: "nb = newObject be a 0 None 0 None" "s2 = setStateObject nb s3" using createObject_new [OF c] by blast
    have "setStateObject nb s2 = s2" by (simp add: n(2) setStateObject_twice)
    then have "steps be s1 s2" using createObject_steps [OF _ c, of nb] d n(1) by simp
    then show ?thesis using steps_trans [OF st] e n live_set [of a nb be s3] by simp
  qed
  then show "steps be s s'" "live be a ob s'" by simp_all
  then show "state_inv be s'" by (simp add: steps_def)
qed

lemma getStateObject_steps:
  assumes "state_inv be s" "getStateObject be a s = (r, s')"
  shows "steps be s s'" "\<And>ob. r = Some ob \<Longrightarrow> live be a ob s'" "state_inv be s'"
proof -
  note d = getStateObject_same [OF assms]
  show "steps be s s'" by (rule steps_same) (use d in simp_all)
  show "live be a ob s'" if "r = Some ob" for ob
    using d that peek_ok [OF assms(1)] by (auto simp: live_def split: option.splits if_splits)
  show "state_inv be s'" using d by simp
qed

text \<open>Writing back an object with the same view.\<close>

lemma set_same_steps:
  assumes "state_inv be s" "live be a ob s" "obj_view be s ob' = obj_view be s ob" "so_data ob' = so_data ob"
  shows "steps be s (setStateObject ob' s)" "live be a ob' (setStateObject ob' s)" "state_inv be (setStateObject ob' s)"
proof -
  have a: "so_address ob' = a" "so_deleted ob' = so_deleted ob" "obj_ok a ob'"
    using assms(2-4) by (auto simp: obj_view_def live_def obj_ok_def)
  show i: "state_inv be (setStateObject ob' s)" using state_inv_setStateObject [OF assms(1)] a by simp
  have "same be (setStateObject ob' s) s"
    using a live_acct [OF assms(2)] assms(3) by (auto simp: same_def fun_eq_iff)
  then show "steps be s (setStateObject ob' s)" by (rule steps_same [OF i]) simp_all
  show "live be a ob' (setStateObject ob' s)" using live_set a assms(2) by (auto simp: live_def)
qed

lemma steps_inv: "steps be s s' \<Longrightarrow> state_inv be s'"
  by (simp add: steps_def)


text \<open>Setting back what a setter has changed.\<close>

lemma view_setBalance_back:
  "obj_view be s x = obj_view be s (so_setBalance b ob) \<Longrightarrow>
   obj_view be s (so_setBalance (sa_Balance (so_data ob)) x) = obj_view be s ob"
  unfolding view_setBalance by (simp add: obj_view_def [of be s ob])

lemma view_setNonce_back:
  "obj_view be s x = obj_view be s (so_setNonce n ob) \<Longrightarrow>
   obj_view be s (so_setNonce (sa_Nonce (so_data ob)) x) = obj_view be s ob"
  unfolding view_setNonce by (simp add: obj_view_def [of be s ob])

lemma view_setState_back:
  "obj_view be s x = obj_view be s (so_setState k v ob) \<Longrightarrow>
   obj_view be s (so_setState k (fst (so_GetState be s k ob)) x) = obj_view be s ob"
  unfolding view_setState by (simp add: obj_view_def [of be s ob] fun_eq_iff)

lemma view_setCode_back:
  assumes "length (sa_CodeHash (so_data ob)) = 32" "obj_view be s x = obj_view be s (so_setCode h code ob)"
  shows "obj_view be s (so_setCode (BytesToHash (sa_CodeHash (so_data ob))) (fst (so_Code be ob)) x) = obj_view be s ob"
proof -
  have "(case fst (so_Code be ob) of Some c \<Rightarrow> Some c | None \<Rightarrow> load_code be (so_address ob) (sa_CodeHash (so_data ob))) =
      fst (so_Code be ob)" by (simp add: code_fst split: option.split)
  then show ?thesis
    using assms(2) unfolding view_setCode hash_bytes_BytesToHash [OF assms(1)] by (simp add: obj_view_def [of be s ob])
qed

lemma view_suicide_back:
  "obj_view be s x = obj_view be s (so_setBalance 0 (ob\<lparr>so_suicided := True\<rparr>)) \<Longrightarrow>
   obj_view be s (so_setBalance (sa_Balance (so_data ob)) (x\<lparr>so_suicided := so_suicided ob\<rparr>)) = obj_view be s ob"
  unfolding view_setBalance view_suicide by (simp add: obj_view_def [of be s ob])

lemma live_address: "live be a ob s \<Longrightarrow> so_address ob = a \<and> length (sa_CodeHash (so_data ob)) = 32"
  by (simp add: live_def obj_ok_def)

text \<open>The journalled setters of a live object.\<close>

lemma so_SetBalance_steps:
  assumes "state_inv be s" "live be a ob s"
  shows "steps be s (so_SetBalance b ob s)"
  using live_address [OF assms(2)] unfolding so_SetBalance_def
  by (intro steps_object [OF assms(1) live_acct [OF assms(2)], where g = "so_setBalance (sa_Balance (so_data ob))"])
    (use assms(2) in \<open>auto simp: live_def modify_object_def dest: view_setBalance_back\<close>)

lemma so_SetNonce_steps:
  assumes "state_inv be s" "live be a ob s"
  shows "steps be s (setStateObject (so_setNonce n ob) (journal_append (nonceChange (so_address ob) (sa_Nonce (so_data ob))) s))"
  using live_address [OF assms(2)]
  by (intro steps_object [OF assms(1) live_acct [OF assms(2)], where g = "so_setNonce (sa_Nonce (so_data ob))"])
    (use assms(2) in \<open>auto simp: live_def modify_object_def dest: view_setNonce_back\<close>)

lemma so_setState_steps:
  assumes "state_inv be s" "live be a ob s" "prev = fst (so_GetState be s k ob)"
  shows "steps be s (setStateObject (so_setState k v ob) (journal_append (storageChange (so_address ob) k prev) s))"
  using live_address [OF assms(2)]
  by (intro steps_object [OF assms(1) live_acct [OF assms(2)], where g = "so_setState k prev"])
    (use assms(2) in \<open>auto simp: live_def modify_object_def assms(3) dest: view_setState_back\<close>)

lemma so_setCode_steps:
  assumes "state_inv be s" "live be a ob s"
  shows "steps be s (setStateObject (so_setCode h code ob)
    (journal_append (codeChange (so_address ob) (fst (so_Code be ob)) (sa_CodeHash (so_data ob))) s))"
  using live_address [OF assms(2)]
  by (intro steps_object [OF assms(1) live_acct [OF assms(2)],
        where g = "so_setCode (BytesToHash (sa_CodeHash (so_data ob))) (fst (so_Code be ob))"])
    (use assms(2) in \<open>auto simp: live_def modify_object_def obj_ok_def so_setCode_def dest: view_setCode_back [unfolded so_setCode_def]\<close>)

lemma touch_steps:
  assumes "state_inv be s"
  shows "steps be s (so_touch ob s)"
proof (rule steps_one [where e = "touchChange (so_address ob)"])
  fix t
  assume "state_inv be t" "same be t (so_touch ob s)"
  then show "\<exists>u. revert_entry be (touchChange (so_address ob)) t = Some u \<and> state_inv be u \<and> same be u s"
    by (auto simp: so_touch_def same_def Let_def split: if_splits)
qed (use assms in \<open>auto simp: so_touch_def Let_def\<close>)

lemma AddBalance_steps: "state_inv be s \<Longrightarrow> steps be s (AddBalance be a x s)"
  unfolding AddBalance_def
  using GetOrNew_steps [of be s a] so_SetBalance_steps touch_steps
  by (auto split: prod.split intro: steps_trans)

lemma SubBalance_steps: "state_inv be s \<Longrightarrow> steps be s (SubBalance be a x s)"
  unfolding SubBalance_def
  using GetOrNew_steps [of be s a] so_SetBalance_steps touch_steps
  by (auto split: prod.split intro: steps_trans)

lemma SetBalance_steps: "state_inv be s \<Longrightarrow> steps be s (SetBalance be a x s)"
  unfolding SetBalance_def
  using GetOrNew_steps [of be s a] so_SetBalance_steps by (auto split: prod.split intro: steps_trans)

lemma SetNonce_steps: "state_inv be s \<Longrightarrow> steps be s (SetNonce be a n s)"
  unfolding SetNonce_def
  using GetOrNew_steps [of be s a] so_SetNonce_steps by (auto split: prod.split intro: steps_trans)

lemma so_SetCode_steps:
  assumes "state_inv be s" "live be a ob s"
  shows "steps be s (so_SetCode be h code ob s)"
proof -
  obtain c ob' where c: "so_Code be ob = (c, ob')" by (cases "so_Code be ob")
  note v = code_view(1) [OF c, of s] code_view(2-5) [OF c]
  note st = set_same_steps [OF assms v(1) v(3)]
  have fc: "fst (so_Code be ob') = c" using v(1,5) by (simp add: obj_view_def)
  let ?j = "journal_append (codeChange (so_address ob') c (sa_CodeHash (so_data ob')))"
  have "setStateObject (so_setCode h code ob') (?j (setStateObject ob' s)) = so_SetCode be h code ob s"
    using c by (simp add: so_SetCode_def setStateObject_def journal_append_def journal_dirty_def so_setCode_def
        gm_set_twice Let_def)
  then show ?thesis
    using steps_trans [OF st(1) so_setCode_steps [OF st(3,2), of h code]] fc by simp
qed

lemma SetCode_steps: "state_inv be s \<Longrightarrow> steps be s (SetCode be a code s)"
  unfolding SetCode_def
  using GetOrNew_steps [of be s a] so_SetCode_steps by (auto split: prod.split intro: steps_trans)

lemma so_SetState_steps:
  assumes "state_inv be s" "live be a ob s"
  shows "steps be s (so_SetState be k v ob s)"
proof -
  obtain prev ob' where c: "so_GetState be s k ob = (prev, ob')" by (cases "so_GetState be s k ob")
  note ca = getstate_cached [OF c]
  have w: "obj_view be s ob' = obj_view be s ob" "so_data ob' = so_data ob"
    using cached_from_view [OF ca] ca by (auto simp: cached_from_def)
  note st = set_same_steps [OF assms w]
  have pv: "prev = fst (so_GetState be (setStateObject ob' s) k ob')"
    using w(1) c committed_cong(2) [of "setStateObject ob' s" s be k ob'] by (auto simp: obj_view_def fun_eq_iff)
  let ?j = "journal_append (storageChange (so_address ob') k prev)"
  have "setStateObject (so_setState k v ob') (?j (setStateObject ob' s)) = setStateObject (so_setState k v ob') (?j s)"
    by (simp add: setStateObject_def journal_append_def journal_dirty_def so_setState_def gm_set_twice Let_def)
  then show ?thesis
    using st(1) steps_trans [OF st(1) so_setState_steps [OF st(3,2) pv, of v]] c by (simp add: so_SetState_def)
qed

lemma SetState_steps: "state_inv be s \<Longrightarrow> steps be s (SetState be a k v s)"
  unfolding SetState_def
  using GetOrNew_steps [of be s a] so_SetState_steps by (auto split: prod.split intro: steps_trans)

lemma CreateAccount_steps:
  assumes "state_inv be s"
  shows "steps be s (CreateAccount be a s)"
proof -
  obtain nb p s' where c: "createObject be a s = ((nb, p), s')" by (cases "createObject be a s") auto
  obtain s2 where n: "nb = newObject be a 0 None 0 None" "s' = setStateObject nb s2" using createObject_new [OF c] by blast
  have "setStateObject nb s' = s'" by (simp add: n(2) setStateObject_twice)
  then show ?thesis
    using createObject_steps [OF assms c, of nb] n(1) createObject_steps [OF assms c] c
    by (auto simp: CreateAccount_def split: option.split)
qed


lemma Suicide_steps:
  assumes "state_inv be s"
  shows "steps be s (snd (Suicide be a s))"
proof -
  obtain r s' where g: "getStateObject be a s = (r, s')" by (cases "getStateObject be a s")
  note d = getStateObject_steps [OF assms g]
  show ?thesis
  proof (cases r)
    case (Some ob)
    note l = d(2) [OF Some]
    have "steps be s' (setStateObject (so_setBalance 0 (ob\<lparr>so_suicided := True\<rparr>))
            (journal_append (suicideChange a (so_suicided ob) (sa_Balance (so_data ob))) s'))"
      by (intro steps_object [OF d(3) live_acct [OF l], where g = "\<lambda>x. so_setBalance (sa_Balance (so_data ob)) (x\<lparr>so_suicided := so_suicided ob\<rparr>)"])
        (use l in \<open>auto simp: live_def dest: view_suicide_back\<close>)
    then show ?thesis using steps_trans [OF d(1)] g Some by (simp add: Suicide_def)
  qed (use d g in \<open>simp add: Suicide_def\<close>)
qed

text \<open>The changes outside the accounts.\<close>

lemma AddRefund_steps: "state_inv be s \<Longrightarrow> steps be s (AddRefund gas s)"
  by (rule steps_one [where e = "refundChange (sdb_refund s)"])
    (auto simp: AddRefund_def same_def rest_def Let_def logs_of_def [abs_def] journal_append_def)

lemma SubRefund_steps: "state_inv be s \<Longrightarrow> SubRefund gas s = Some s' \<Longrightarrow> steps be s s'"
  by (rule steps_one [where e = "refundChange (sdb_refund s)"])
    (auto simp: SubRefund_def same_def rest_def Let_def logs_of_def [abs_def] journal_append_def split: if_splits)

lemma AddPreimage_steps: "state_inv be s \<Longrightarrow> steps be s (AddPreimage h p s)"
proof (cases "gm_get (sdb_preimages s) h")
  case None
  assume i: "state_inv be s"
  show ?thesis
  proof (rule steps_one [where e = "addPreimageChange h"])
    fix t
    assume t: "state_inv be t" "same be t (AddPreimage h p s)"
    then have "same be (t\<lparr>sdb_preimages := gm_del (sdb_preimages t) h\<rparr>) s"
      using None by (auto simp: AddPreimage_def same_def rest_def logs_of_def [abs_def] journal_append_def fun_eq_iff)
    with t(1) show "\<exists>u. revert_entry be (addPreimageChange h) t = Some u \<and> state_inv be u \<and> same be u s" by simp
  qed (use i None in \<open>simp_all add: AddPreimage_def\<close>)
qed (simp add: AddPreimage_def steps_refl)

lemma AddLog_steps:
  assumes "state_inv be s"
  shows "steps be s (AddLog log s)"
proof (rule steps_one [where e = "addLogChange (sdb_thash s)"])
  fix t
  assume t: "state_inv be t" "same be t (AddLog log s)"
  let ?h = "sdb_thash s"
  obtain x where x: "logs_of t = (logs_of s)(?h := logs_of s ?h @ [x])" "sdb_logSize t = sdb_logSize s + 1"
    using t(2) by (auto simp: AddLog_def same_def rest_def Let_def journal_append_def logs_of_def [abs_def] fun_eq_iff split: if_splits)
  let ?u = "t\<lparr>sdb_logs := (if length (logs_of t ?h) = 1 then gm_del (sdb_logs t) ?h
      else gm_set (sdb_logs t) ?h (butlast (logs_of t ?h))), sdb_logSize := sdb_logSize t - 1\<rparr>"
  have one: "length ls = 1 \<Longrightarrow> butlast ls = []" for ls :: "Log list" by (cases ls) auto
  have "logs_of ?u k = ((logs_of t)(?h := butlast (logs_of t ?h))) k" for k
    using one [of "logs_of t ?h"] by (cases "length (logs_of t ?h) = 1") (simp_all add: logs_of_def)
  then have "logs_of ?u k = logs_of s k" for k by (simp add: x(1))
  then have "same be ?u s"
    using t(2) x(2) by (auto simp: AddLog_def same_def rest_def Let_def journal_append_def fun_eq_iff)
  moreover have "revert_entry be (addLogChange ?h) t = Some ?u" using x(1) by (simp add: Let_def)
  ultimately show "\<exists>u. revert_entry be (addLogChange ?h) t = Some u \<and> state_inv be u \<and> same be u s" using t(1) by simp
qed (use assms in \<open>simp_all add: AddLog_def Let_def\<close>)

lemma state_inv_accessList: "state_inv be s \<Longrightarrow> al_ok l \<Longrightarrow> state_inv be (s\<lparr>sdb_accessList := l\<rparr>)"
  by (simp add: state_inv_def load_account_def)

lemma rest_accessList:
  "rest (s\<lparr>sdb_accessList := l\<rparr>) = (case rest s of (a, b, c, d, e, _, f) \<Rightarrow> (a, b, c, d, e, l, f))"
  by (simp add: rest_def logs_of_def [abs_def])

lemma al_get: "rest t = rest s \<Longrightarrow> sdb_accessList t = sdb_accessList s"
  by (simp add: rest_def)

text \<open>An access-list change with the entries \<open>es\<close>, undone by the deletions of the contract.\<close>

lemma AddAddress_steps:
  assumes "state_inv be s"
  shows "steps be s (AddAddressToAccessList a s)"
proof -
  obtain l c where a: "AddAddress a (sdb_accessList s) = (l, c)" by (cases "AddAddress a (sdb_accessList s)")
  have ok: "al_ok (sdb_accessList s)" using assms by (simp add: state_inv_def)
  have okl: "al_ok l" using al.addr_law [OF ok a] by simp
  show ?thesis
  proof (cases c)
    case False
    then have "l = sdb_accessList s" using al.addr_same a by simp
    then show ?thesis using a False assms by (simp add: AddAddressToAccessList_def steps_refl)
  next
    case True
    let ?s' = "journal_append (accessListAddAccountChange a) (s\<lparr>sdb_accessList := l\<rparr>)"
    have "steps be s ?s'"
    proof (rule steps_one [where e = "accessListAddAccountChange a"])
      fix t
      assume t: "state_inv be t" "same be t ?s'"
      have r: "rest t = rest (s\<lparr>sdb_accessList := l\<rparr>)" "acct be t = acct be s" using t(2) by (simp_all add: same_def)
      have "sdb_accessList t = l" using al_get [OF r(1)] by simp
      then have "DeleteAddress a (sdb_accessList t) = sdb_accessList s" using al.undo_addr [OF ok] a True by simp
      then have "same be (t\<lparr>sdb_accessList := DeleteAddress a (sdb_accessList t)\<rparr>) s"
        using r by (simp add: same_def rest_accessList) (simp add: rest_def)
      moreover have "state_inv be (t\<lparr>sdb_accessList := DeleteAddress a (sdb_accessList t)\<rparr>)"
        using state_inv_accessList [OF t(1) ok] \<open>DeleteAddress a (sdb_accessList t) = sdb_accessList s\<close> by simp
      ultimately show "\<exists>u. revert_entry be (accessListAddAccountChange a) t = Some u \<and> state_inv be u \<and> same be u s" by simp
    qed (use assms okl in \<open>simp_all add: state_inv_accessList\<close>)
    then show ?thesis using a True by (simp add: AddAddressToAccessList_def)
  qed
qed


lemma AddSlot_steps:
  assumes "state_inv be s"
  shows "\<exists>s'. AddSlotToAccessList a k s = Some s' \<and> steps be s s'"
proof -
  let ?l = "sdb_accessList s"
  have ok: "al_ok ?l" using assms by (simp add: state_inv_def)
  obtain l' ca cs where a: "AddSlot a k ?l = Some (l', ca, cs)" "al_ok l'" using al.slot_law [OF ok, of a k] by blast
  obtain m where m: "(if cs then DeleteSlot a k l' else Some l') = Some m" "(if ca then DeleteAddress a m else m) = ?l"
    using al.undo_both [OF ok a(1)] by blast
  define es where "es = (if ca then [accessListAddAccountChange a] else []) @ (if cs then [accessListAddSlotChange a k] else [])"
  obtain s' where s': "AddSlotToAccessList a k s = Some s'" "sdb_entries s' = sdb_entries s @ es"
    "rest s' = rest (s\<lparr>sdb_accessList := l'\<rparr>)" "acct be s' = acct be s" "state_inv be s'"
    "sdb_validRevisions s' = sdb_validRevisions s" "sdb_nextRevisionId s' = sdb_nextRevisionId s"
    using a assms by (auto simp: AddSlotToAccessList_def es_def Let_def state_inv_accessList)
  have "undoes be s' es s"
    unfolding undoes_def
  proof (intro allI impI, elim conjE)
    fix t
    assume t: "state_inv be t" "same be t s'"
    have r: "rest t = rest (s\<lparr>sdb_accessList := l'\<rparr>)" "acct be t = acct be s" using t(2) s' by (simp_all add: same_def)
    have "sdb_accessList t = l'" using al_get [OF r(1)] by simp
    then have "undo_entries be (rev es) t = Some (t\<lparr>sdb_accessList := ?l\<rparr>)"
      using m by (cases ca; cases cs) (auto simp: es_def journal_undirty_def)
    moreover have "same be (t\<lparr>sdb_accessList := ?l\<rparr>) s"
      using r by (simp add: same_def rest_accessList) (simp add: rest_def)
    ultimately show "\<exists>u. undo_entries be (rev es) t = Some u \<and> state_inv be u \<and> same be u s"
      using state_inv_accessList [OF t(1) ok] by simp
  qed
  then show ?thesis using s' by (auto simp: steps_def)
qed

text \<open>The getters that fill a cache.\<close>

lemma GetCode_steps:
  assumes "state_inv be s"
  shows "steps be s (snd (GetCode be a s))"
proof -
  obtain r s' where g: "getStateObject be a s = (r, s')" by (cases "getStateObject be a s")
  note d = getStateObject_steps [OF assms g]
  show ?thesis
  proof (cases r)
    case (Some ob)
    obtain c ob' where c: "so_Code be ob = (c, ob')" by (cases "so_Code be ob")
    show ?thesis
      using steps_trans [OF d(1) set_same_steps(1) [OF d(3) d(2) [OF Some] code_view(1) [OF c] code_view(3) [OF c]]] g Some c
      by (simp add: GetCode_def)
  qed (use d g in \<open>simp add: GetCode_def\<close>)
qed

lemma GetState_steps:
  assumes "state_inv be s"
  shows "steps be s (snd (GetState be a k s))"
proof -
  obtain r s' where g: "getStateObject be a s = (r, s')" by (cases "getStateObject be a s")
  note d = getStateObject_steps [OF assms g]
  show ?thesis
  proof (cases r)
    case (Some ob)
    obtain v ob' where c: "so_GetState be s' k ob = (v, ob')" by (cases "so_GetState be s' k ob")
    note w = getstate_cached [OF c]
    have "so_data ob' = so_data ob" using w by (simp add: cached_from_def)
    then show ?thesis
      using steps_trans [OF d(1) set_same_steps(1) [OF d(3) d(2) [OF Some] cached_from_view [OF w]]] g Some c
      by (simp add: GetState_def)
  qed (use d g in \<open>simp add: GetState_def\<close>)
qed

lemma GetCommittedState_steps:
  assumes "state_inv be s"
  shows "steps be s (snd (GetCommittedState be a k s))"
proof -
  obtain r s' where g: "getStateObject be a s = (r, s')" by (cases "getStateObject be a s")
  note d = getStateObject_steps [OF assms g]
  show ?thesis
  proof (cases r)
    case (Some ob)
    obtain v ob' where c: "so_GetCommittedState be s' k ob = (v, ob')" by (cases "so_GetCommittedState be s' k ob")
    note w = committed_cached [OF c]
    have "so_data ob' = so_data ob" using w by (simp add: cached_from_def)
    then show ?thesis
      using steps_trans [OF d(1) set_same_steps(1) [OF d(3) d(2) [OF Some] cached_from_view [OF w]]] g Some c
      by (simp add: GetCommittedState_def)
  qed (use d g in \<open>simp add: GetCommittedState_def\<close>)
qed

subsection \<open>What the getters return\<close>

text \<open>The getters read the observable state only.\<close>

definition seen :: "backend \<Rightarrow> StateDB \<Rightarrow> address \<Rightarrow>
    (StateAccount \<times> bytes option \<times> (hash \<Rightarrow> hash) \<times> (hash \<Rightarrow> hash) \<times> bool) option" where
  "seen be s a =
    (case acct be s a of None \<Rightarrow> None | Some (_, d, c, cm, st, su, de) \<Rightarrow> if de then None else Some (d, c, cm, st, su))"

lemma getStateObject_seen:
  assumes "state_inv be s" "getStateObject be a s = (r, s')"
  shows "seen be s a = map_option (\<lambda>ob. (so_data ob, fst (so_Code be ob), \<lambda>k. fst (so_GetCommittedState be s' k ob),
    \<lambda>k. fst (so_GetState be s' k ob), so_suicided ob)) r"
proof -
  note d = getStateObject_same [OF assms]
  have "rest s' = rest s" using d by (simp add: same_def)
  note snap = rest_snap [OF this]
  show ?thesis
  proof (cases "peek be s a")
    case (Some ob)
    then show ?thesis using d committed_cong [OF snap, of be] by (simp add: seen_def acct_def obj_view_def)
  qed (use d in \<open>simp add: seen_def acct_def\<close>)
qed

lemma getters_seen:
  assumes "state_inv be s"
  shows "fst (GetBalance be a s) = (case seen be s a of Some (d, _) \<Rightarrow> sa_Balance d | None \<Rightarrow> 0)"
    "fst (GetNonce be a s) = (case seen be s a of Some (d, _) \<Rightarrow> sa_Nonce d | None \<Rightarrow> 0)"
    "fst (GetCode be a s) = (case seen be s a of Some (_, c, _) \<Rightarrow> c | None \<Rightarrow> None)"
    "fst (GetCodeHash be a s) = (case seen be s a of Some (d, _) \<Rightarrow> BytesToHash (sa_CodeHash d) | None \<Rightarrow> 0)"
    "fst (GetState be a k s) = (case seen be s a of Some (_, _, _, st, _) \<Rightarrow> st k | None \<Rightarrow> 0)"
    "fst (GetCommittedState be a k s) = (case seen be s a of Some (_, _, cm, _) \<Rightarrow> cm k | None \<Rightarrow> 0)"
    "fst (HasSuicided be a s) = (case seen be s a of Some (_, _, _, _, su) \<Rightarrow> su | None \<Rightarrow> False)"
    "fst (Exist be a s) = (seen be s a \<noteq> None)"
    "fst (Empty be a s) = (case seen be s a of
       Some (d, _) \<Rightarrow> sa_Nonce d = 0 \<and> sa_Balance d = 0 \<and> sa_CodeHash d = emptyCodeHash be | None \<Rightarrow> True)"
proof -
  obtain r s' where g: "getStateObject be a s = (r, s')" by (cases "getStateObject be a s")
  note s = getStateObject_seen [OF assms g]
  show "fst (GetBalance be a s) = (case seen be s a of Some (d, _) \<Rightarrow> sa_Balance d | None \<Rightarrow> 0)"
    "fst (GetNonce be a s) = (case seen be s a of Some (d, _) \<Rightarrow> sa_Nonce d | None \<Rightarrow> 0)"
    "fst (GetCode be a s) = (case seen be s a of Some (_, c, _) \<Rightarrow> c | None \<Rightarrow> None)"
    "fst (GetCodeHash be a s) = (case seen be s a of Some (d, _) \<Rightarrow> BytesToHash (sa_CodeHash d) | None \<Rightarrow> 0)"
    "fst (GetState be a k s) = (case seen be s a of Some (_, _, _, st, _) \<Rightarrow> st k | None \<Rightarrow> 0)"
    "fst (GetCommittedState be a k s) = (case seen be s a of Some (_, _, cm, _) \<Rightarrow> cm k | None \<Rightarrow> 0)"
    "fst (HasSuicided be a s) = (case seen be s a of Some (_, _, _, _, su) \<Rightarrow> su | None \<Rightarrow> False)"
    "fst (Exist be a s) = (seen be s a \<noteq> None)"
    "fst (Empty be a s) = (case seen be s a of
       Some (d, _) \<Rightarrow> sa_Nonce d = 0 \<and> sa_Balance d = 0 \<and> sa_CodeHash d = emptyCodeHash be | None \<Rightarrow> True)"
    by (cases r; simp add: s g GetBalance_def GetNonce_def GetCode_def GetCodeHash_def GetState_def GetCommittedState_def
          HasSuicided_def Exist_def Empty_def so_empty_def split: prod.split)+
qed

lemma same_seen: "same be s t \<Longrightarrow> seen be s = seen be t"
  by (simp add: same_def seen_def [abs_def])

lemmas seen_simps = seen_def acct_def obj_view_def


subsection \<open>Sequences of operations\<close>

text \<open>The operations that the EVM performs on the state within a transaction.  \<^verbatim>\<open>Erase\<close> and \<^verbatim>\<open>SetStorage\<close> are left out on purpose: they are modelled in
  \<open>State_Effects\<close>, where the revert of an erasure is shown to lose storage and \<^verbatim>\<open>SetStorage\<close> to panic.\<close>

datatype state_op =
  OpAddBalance address int | OpSubBalance address int | OpSetBalance address int | OpSetNonce address u64
| OpSetCode address "bytes option" | OpSetState address hash hash | OpCreateAccount address | OpSuicide address
| OpAddRefund u64 | OpSubRefund u64 | OpAddLog Log | OpAddPreimage hash bytes
| OpAddAddress address | OpAddSlot address hash
| OpGetState address hash | OpGetCommittedState address hash | OpGetCode address | OpGetObject address
| OpSnapshot | OpRevertToSnapshot int

fun exec_op :: "backend \<Rightarrow> state_op \<Rightarrow> StateDB \<Rightarrow> StateDB option" where
  "exec_op be (OpAddBalance a x) s = Some (AddBalance be a x s)"
| "exec_op be (OpSubBalance a x) s = Some (SubBalance be a x s)"
| "exec_op be (OpSetBalance a x) s = Some (SetBalance be a x s)"
| "exec_op be (OpSetNonce a n) s = Some (SetNonce be a n s)"
| "exec_op be (OpSetCode a c) s = Some (SetCode be a c s)"
| "exec_op be (OpSetState a k v) s = Some (SetState be a k v s)"
| "exec_op be (OpCreateAccount a) s = Some (CreateAccount be a s)"
| "exec_op be (OpSuicide a) s = Some (snd (Suicide be a s))"
| "exec_op be (OpAddRefund g) s = Some (AddRefund g s)"
| "exec_op be (OpSubRefund g) s = SubRefund g s"
| "exec_op be (OpAddLog l) s = Some (AddLog l s)"
| "exec_op be (OpAddPreimage h p) s = Some (AddPreimage h p s)"
| "exec_op be (OpAddAddress a) s = Some (AddAddressToAccessList a s)"
| "exec_op be (OpAddSlot a k) s = AddSlotToAccessList a k s"
| "exec_op be (OpGetState a k) s = Some (snd (GetState be a k s))"
| "exec_op be (OpGetCommittedState a k) s = Some (snd (GetCommittedState be a k s))"
| "exec_op be (OpGetCode a) s = Some (snd (GetCode be a s))"
| "exec_op be (OpGetObject a) s = Some (snd (getStateObject be a s))"
| "exec_op be OpSnapshot s = Some (snd (state_Snapshot s))"
| "exec_op be (OpRevertToSnapshot i) s = RevertToSnapshot be i s"

fun run_ops :: "backend \<Rightarrow> state_op list \<Rightarrow> StateDB \<Rightarrow> StateDB option" where
  "run_ops be [] s = Some s"
| "run_ops be (op # ops) s = (case exec_op be op s of None \<Rightarrow> None | Some s' \<Rightarrow> run_ops be ops s')"

text \<open>Every operation except taking and reverting a snapshot is an undoable step.\<close>

definition is_step :: "state_op \<Rightarrow> bool" where
  "is_step op \<longleftrightarrow> op \<noteq> OpSnapshot \<and> (\<forall>i. op \<noteq> OpRevertToSnapshot i)"

lemma exec_op_steps:
  assumes "state_inv be s" "exec_op be op s = Some s'" "is_step op"
  shows "steps be s s'"
proof (cases op)
  case (OpAddSlot a k)
  then show ?thesis using assms AddSlot_steps [OF assms(1), of a k] by auto
next
  case (OpGetObject a)
  then show ?thesis using assms getStateObject_steps(1) [OF assms(1), of a] by (cases "getStateObject be a s") auto
qed (use assms in \<open>auto simp: is_step_def AddBalance_steps SubBalance_steps SetBalance_steps SetNonce_steps SetCode_steps
    SetState_steps CreateAccount_steps Suicide_steps AddRefund_steps SubRefund_steps AddLog_steps AddPreimage_steps
    AddAddress_steps GetState_steps GetCommittedState_steps GetCode_steps\<close>)

subsection \<open>Snapshots\<close>

text \<open>
  The stack of valid revisions, newest first, with the state each one was taken in: undoing the journal
  down to a revision's index leads back to its state, and from there the older revisions are intact.
\<close>

fun hist :: "backend \<Rightarrow> (int \<Rightarrow> StateDB) \<Rightarrow> StateDB \<Rightarrow> journalEntry list \<Rightarrow> (int \<times> nat) list \<Rightarrow> bool" where
  "hist be G s es [] \<longleftrightarrow> True"
| "hist be G s es ((i, j) # rs) \<longleftrightarrow>
     j \<le> length es \<and> undoes be s (drop j es) (G i) \<and> hist be G (G i) (take j es) rs"

definition revs_ok :: "StateDB \<Rightarrow> bool" where
  "revs_ok s \<longleftrightarrow> sorted_wrt (<) (map fst (sdb_validRevisions s)) \<and>
     (\<forall>r \<in> set (sdb_validRevisions s). fst r < sdb_nextRevisionId s)"

definition history :: "backend \<Rightarrow> (int \<Rightarrow> StateDB) \<Rightarrow> StateDB \<Rightarrow> bool" where
  "history be G s \<longleftrightarrow> state_inv be s \<and> revs_ok s \<and> hist be G s (sdb_entries s) (rev (sdb_validRevisions s))"

lemma hist_cong: "\<forall>r \<in> set rs. G' (fst r) = G (fst r) \<Longrightarrow> hist be G' s es rs = hist be G s es rs"
  by (induction rs arbitrary: s es) auto

lemma hist_step:
  assumes "hist be G s es rs" "undoes be s' ds s"
  shows "hist be G s' (es @ ds) rs"
proof (cases rs)
  case (Cons r rs')
  obtain i j where r: "r = (i, j)" by (cases r)
  then show ?thesis using assms Cons undoes_trans by (auto simp: drop_append take_append)
qed simp

lemma history_step: "history be G s \<Longrightarrow> steps be s s' \<Longrightarrow> history be G s'"
  by (auto simp: history_def steps_def revs_ok_def dest: hist_step)

lemma history_Snapshot:
  assumes "history be G s"
  shows "history be (G(sdb_nextRevisionId s := s)) (snd (state_Snapshot s))"
proof -
  let ?i = "sdb_nextRevisionId s"
  have r: "revs_ok s" "state_inv be s" "hist be G s (sdb_entries s) (rev (sdb_validRevisions s))"
    using assms by (auto simp: history_def)
  have "hist be (G(?i := s)) s (sdb_entries s) (rev (sdb_validRevisions s))"
    using r(3) hist_cong [of "rev (sdb_validRevisions s)" "G(?i := s)" G] r(1) by (fastforce simp: revs_ok_def)
  moreover have "same be (snd (state_Snapshot s)) s" by (simp add: state_Snapshot_def same_def Let_def)
  ultimately show ?thesis
    using r(1,2) undoes_Nil by (auto simp: history_def revs_ok_def state_Snapshot_def Let_def sorted_wrt_append)
qed

text \<open>The binary search finds a revision that is there.\<close>

declare sort_Search.simps [simp del]

lemma sort_Search_correct:
  assumes "i \<le> j" "\<And>k k'. k \<le> k' \<Longrightarrow> k' < n \<Longrightarrow> f k \<Longrightarrow> f k'" "j \<le> n" "\<forall>k < i. \<not> f k" "j < n \<longrightarrow> f j"
  shows "sort_Search f i j \<le> n \<and> (\<forall>k < sort_Search f i j. \<not> f k) \<and> (sort_Search f i j < n \<longrightarrow> f (sort_Search f i j))"
  using assms
proof (induction f i j rule: sort_Search.induct)
  case (1 f i j)
  show ?case
  proof (cases "i < j")
    case False
    then have "sort_Search f i j = i" by (simp add: sort_Search.simps)
    then show ?thesis using 1(3-7) False by auto
  next
    case True
    define h where "h = (i + j) div 2"
    have h: "i \<le> h" "h < j" using True by (auto simp: h_def)
    show ?thesis
    proof (cases "f h")
      case True
      have "sort_Search f i j = sort_Search f i h" using \<open>i < j\<close> True by (simp add: sort_Search.simps [of f i j] h_def)
      then show ?thesis
        by (simp only:) (intro 1(2) [OF \<open>i < j\<close> h_def _ _ 1(4) _ 1(6)], use h True 1(5) in simp_all)
    next
      case False
      have e: "sort_Search f i j = sort_Search f (h + 1) j" using \<open>i < j\<close> False by (simp add: sort_Search.simps [of f i j] h_def)
      have "\<not> f k" if "k < h + 1" for k
      proof
        assume "f k"
        moreover have "k \<le> h" "h < n" using that h 1(5) by simp_all
        ultimately show False using 1(4) [of k h] False by simp
      qed
      then show ?thesis unfolding e by (intro 1(1) [OF \<open>i < j\<close> h_def False _ 1(4,5) _ 1(7)]) (use h in simp_all)
    qed
  qed
qed

lemma revision_found:
  fixes rs :: "(int \<times> nat) list"
  assumes "sorted_wrt (<) (map fst rs)" "p < length rs" "fst (rs ! p) = i"
  shows "sort_Search (\<lambda>k. fst (rs ! k) \<ge> i) 0 (length rs) = p"
proof -
  let ?f = "\<lambda>k. fst (rs ! k) \<ge> i"
  have mono: "a < b \<Longrightarrow> b < length rs \<Longrightarrow> fst (rs ! a) < fst (rs ! b)" for a b
    using assms(1) sorted_wrt_nth_less [of "(<)" "map fst rs" a b] by simp
  have up: "?f a \<Longrightarrow> ?f b" if "a \<le> b" "b < length rs" for a b
    using mono [of a b] that by (cases "a = b") auto
  have s: "sort_Search ?f 0 (length rs) \<le> length rs" "\<forall>k < sort_Search ?f 0 (length rs). \<not> ?f k"
    "sort_Search ?f 0 (length rs) < length rs \<longrightarrow> ?f (sort_Search ?f 0 (length rs))"
    using sort_Search_correct [of 0 "length rs" "length rs" ?f] up by simp_all
  show ?thesis
  proof (rule linorder_cases [of "sort_Search ?f 0 (length rs)" p])
    assume l: "sort_Search ?f 0 (length rs) < p"
    then show ?thesis using mono [OF l assms(2)] s(3) assms(2,3) by auto
  qed (use s(2) assms in auto)
qed


lemma hist_nth:
  assumes "hist be G s es (post @ (i, j) # pre)"
  shows "j \<le> length es \<and> undoes be s (drop j es) (G i) \<and> hist be G (G i) (take j es) pre"
  using assms
proof (induction post arbitrary: s es)
  case (Cons r post)
  obtain i' j' where r: "r = (i', j')" by (cases r)
  have h: "j' \<le> length es" "undoes be s (drop j' es) (G i')" "hist be G (G i') (take j' es) (post @ (i, j) # pre)"
    using Cons.prems by (auto simp: r)
  have ih: "j \<le> j'" "undoes be (G i') (drop j (take j' es)) (G i)" "hist be G (G i) (take j es) pre"
    using Cons.IH [OF h(3)] h(1) by (auto simp: min_absorb1 min_absorb2)
  have "drop j es = drop j (take j' es) @ drop j' es"
    using ih(1) h(1) by (metis append_take_drop_id drop_append diff_is_0_eq' drop0 length_take min.absorb2)
  then show ?case using undoes_trans [OF h(2) ih(2)] ih h(1) by simp
qed simp

lemma hist_same: "hist be G t es rs \<Longrightarrow> same be s t \<Longrightarrow> hist be G s es rs"
  using hist_step [OF _ undoes_Nil, of be G t es rs s] by simp

text \<open>Undoing leaves the journal and the revisions alone.\<close>

lemma getStateObject_journal:
  assumes "getStateObject be a s = (r, s')"
  shows "sdb_entries s' = sdb_entries s \<and> sdb_validRevisions s' = sdb_validRevisions s \<and>
    sdb_nextRevisionId s' = sdb_nextRevisionId s"
  using assms
  by (auto simp: getStateObject_def getDeletedStateObject_def sdb_setError_def Let_def
      split: option.splits account_read.splits if_splits)

lemma revert_entry_journal:
  assumes "revert_entry be e s = Some s'"
  shows "sdb_entries s' = sdb_entries s \<and> sdb_validRevisions s' = sdb_validRevisions s \<and>
    sdb_nextRevisionId s' = sdb_nextRevisionId s"
  using assms
  by (cases e) (auto simp: modify_object_def Let_def split: prod.splits option.splits if_splits dest: getStateObject_journal)

lemma undo_entries_journal:
  "undo_entries be es s = Some s' \<Longrightarrow> sdb_entries s' = sdb_entries s \<and> sdb_validRevisions s' = sdb_validRevisions s \<and>
    sdb_nextRevisionId s' = sdb_nextRevisionId s"
proof (induction es arbitrary: s)
  case (Cons e es)
  then obtain t where t: "revert_entry be e s = Some t" "undo_entries be es (journal_undirty e t) = Some s'"
    by (auto split: option.splits)
  have "sdb_entries (journal_undirty e t) = sdb_entries t \<and> sdb_validRevisions (journal_undirty e t) = sdb_validRevisions t \<and>
    sdb_nextRevisionId (journal_undirty e t) = sdb_nextRevisionId t"
    by (simp add: journal_undirty_def Let_def split: option.split)
  then show ?case using revert_entry_journal [OF t(1)] Cons.IH [OF t(2)] by simp
qed simp

lemma history_Revert:
  assumes "history be G s" "(i, j) \<in> set (sdb_validRevisions s)"
  shows "\<exists>s'. RevertToSnapshot be i s = Some s' \<and> same be s' (G i) \<and> history be G s' \<and>
    sdb_nextRevisionId s' = sdb_nextRevisionId s"
proof -
  let ?rs = "sdb_validRevisions s"
  have h: "state_inv be s" "revs_ok s" "hist be G s (sdb_entries s) (rev ?rs)" using assms(1) by (auto simp: history_def)
  obtain p where p: "p < length ?rs" "?rs ! p = (i, j)" using assms(2) by (auto simp: in_set_conv_nth)
  have f: "sort_Search (\<lambda>k. fst (?rs ! k) \<ge> i) 0 (length ?rs) = p"
    by (rule revision_found) (use h(2) p in \<open>simp_all add: revs_ok_def\<close>)
  have "rev ?rs = rev (drop (Suc p) ?rs) @ (i, j) # rev (take p ?rs)"
    using id_take_nth_drop [OF p(1)] p(2) by (metis append_Cons append_assoc rev.simps(2) rev_append append_Nil)
  note hn = hist_nth [OF h(3) [unfolded this]]
  obtain u where u: "undo_entries be (rev (drop j (sdb_entries s))) s = Some u" "state_inv be u" "same be u (G i)"
    using hn h(1) by (auto simp: undoes_def)
  note uj = undo_entries_journal [OF u(1)]
  let ?s' = "u\<lparr>sdb_entries := take j (sdb_entries s), sdb_validRevisions := take p ?rs\<rparr>"
  have r: "RevertToSnapshot be i s = Some ?s'"
    using p f u(1) uj by (simp add: RevertToSnapshot_def journal_revert_def Let_def)
  have sm: "same be ?s' (G i)" using u(3) by (simp add: same_def)
  have "revs_ok ?s'"
    using h(2) uj by (auto simp: revs_ok_def take_map [symmetric] sorted_wrt_take dest: in_set_takeD)
  then have "history be G ?s'" using u(2) hist_same [OF _ sm] hn by (simp add: history_def)
  then show ?thesis using r sm uj by auto
qed

lemma exec_op_history:
  assumes "history be G s" "exec_op be op s = Some s'"
  shows "\<exists>G'. history be G' s' \<and> (\<forall>i < sdb_nextRevisionId s. G' i = G i) \<and> sdb_nextRevisionId s \<le> sdb_nextRevisionId s'"
proof -
  have inv: "state_inv be s" using assms(1) by (simp add: history_def)
  consider "is_step op" | "op = OpSnapshot" | i where "op = OpRevertToSnapshot i" by (auto simp: is_step_def)
  then show ?thesis
  proof cases
    case 1
    from exec_op_steps [OF inv assms(2) 1] history_step [OF assms(1)] show ?thesis by (auto simp: steps_def)
  next
    case 2
    then show ?thesis using assms(2) history_Snapshot [OF assms(1)]
      by (intro exI [of _ "G(sdb_nextRevisionId s := s)"]) (auto simp: state_Snapshot_def Let_def)
  next
    case 3
    have "\<exists>j. (i, j) \<in> set (sdb_validRevisions s)"
    proof -
      let ?x = "sort_Search (\<lambda>k. fst (sdb_validRevisions s ! k) \<ge> i) 0 (length (sdb_validRevisions s))"
      have r: "?x \<noteq> length (sdb_validRevisions s)" "fst (sdb_validRevisions s ! ?x) = i"
        using assms(2) 3 by (auto simp: RevertToSnapshot_def Let_def split: if_splits)
      have mono: "fst (sdb_validRevisions s ! a) \<le> fst (sdb_validRevisions s ! b)"
        if "a \<le> b" "b < length (sdb_validRevisions s)" for a b
        using assms(1) that sorted_wrt_nth_less [of "(<)" "map fst (sdb_validRevisions s)" a b]
        by (cases "a = b") (auto simp: history_def revs_ok_def)
      have "?x \<le> length (sdb_validRevisions s)"
        using sort_Search_correct [of 0 "length (sdb_validRevisions s)" "length (sdb_validRevisions s)"
            "\<lambda>k. fst (sdb_validRevisions s ! k) \<ge> i"] mono by (auto intro: order_trans)
      then show ?thesis using r nth_mem [of ?x "sdb_validRevisions s"] by (metis le_neq_implies_less prod.collapse)
    qed
    then show ?thesis using history_Revert [OF assms(1)] assms(2) 3 by fastforce
  qed
qed

lemma run_ops_history:
  "history be G s \<Longrightarrow> run_ops be ops s = Some s' \<Longrightarrow>
   \<exists>G'. history be G' s' \<and> (\<forall>i < sdb_nextRevisionId s. G' i = G i)"
proof (induction ops arbitrary: s G)
  case (Cons op ops)
  then obtain t where t: "exec_op be op s = Some t" "run_ops be ops t = Some s'" by (auto split: option.splits)
  obtain G1 where g: "history be G1 t" "\<forall>i < sdb_nextRevisionId s. G1 i = G i" "sdb_nextRevisionId s \<le> sdb_nextRevisionId t"
    using exec_op_history [OF Cons.prems(1) t(1)] by blast
  obtain G2 where "history be G2 s'" "\<forall>i < sdb_nextRevisionId t. G2 i = G1 i" using Cons.IH [OF g(1) t(2)] by blast
  then show ?case using g by (intro exI [of _ G2]) auto
qed auto


subsection \<open>The revert theorem\<close>

lemma same_observe:
  assumes "same be s t" "state_inv be s" "state_inv be t"
  shows "fst (GetBalance be a s) = fst (GetBalance be a t)" "fst (GetNonce be a s) = fst (GetNonce be a t)"
    "fst (GetCode be a s) = fst (GetCode be a t)" "fst (GetCodeHash be a s) = fst (GetCodeHash be a t)"
    "fst (GetState be a k s) = fst (GetState be a k t)" "fst (GetCommittedState be a k s) = fst (GetCommittedState be a k t)"
    "fst (HasSuicided be a s) = fst (HasSuicided be a t)" "fst (Exist be a s) = fst (Exist be a t)"
    "sdb_refund s = sdb_refund t" "logs_of s h = logs_of t h" "sdb_logSize s = sdb_logSize t"
    "gm_get (sdb_preimages s) h = gm_get (sdb_preimages t) h" "sdb_accessList s = sdb_accessList t"
  using assms(1) getters_seen [OF assms(2)] getters_seen [OF assms(3)]
  by (simp_all add: same_seen [OF assms(1)]) (auto simp: same_def rest_def)

text \<open>C2. Reverting a snapshot restores the state under the operations that \<open>state_op\<close> lists.  They are
  \<^verbatim>\<open>AddBalance\<close>, \<^verbatim>\<open>SubBalance\<close>, \<^verbatim>\<open>SetBalance\<close>, \<^verbatim>\<open>SetNonce\<close>, \<^verbatim>\<open>SetCode\<close>, \<^verbatim>\<open>SetState\<close>, \<^verbatim>\<open>CreateAccount\<close>,
  \<^verbatim>\<open>Suicide\<close>, \<^verbatim>\<open>AddRefund\<close>, \<^verbatim>\<open>SubRefund\<close>, \<^verbatim>\<open>AddLog\<close>, \<^verbatim>\<open>AddPreimage\<close>, the two additions to the access list,
  the reads that load accounts and slots, \<^verbatim>\<open>Snapshot\<close> and \<^verbatim>\<open>RevertToSnapshot\<close>.  Not among them are \<^verbatim>\<open>Erase\<close>,
  which writes a journal entry but whose revert can lose the storage of the account, and \<^verbatim>\<open>SetStorage\<close>, which always
  panics.  Start from a state that satisfies the invariant of the database and has no valid snapshot, run any
  sequence of these operations, take a snapshot, and run another such sequence, nested snapshots and reverts
  included, after which the snapshot is still valid.  Then \<^verbatim>\<open>RevertToSnapshot\<close> does not panic and every getter (balance, nonce, code, storage, committed storage,
  self-destruct flag, existence), the refund counter, the logs, the preimages and the access list are as
  they were.\<close>

theorem RevertToSnapshot_restores:
  assumes "state_inv be s0" "sdb_validRevisions s0 = []" "run_ops be before s0 = Some s"
    and "state_Snapshot s = (i, s1)" "run_ops be ops s1 = Some s2" "(i, j) \<in> set (sdb_validRevisions s2)"
  shows "\<exists>s3. RevertToSnapshot be i s2 = Some s3 \<and>
    (\<forall>a k. fst (GetBalance be a s3) = fst (GetBalance be a s) \<and> fst (GetNonce be a s3) = fst (GetNonce be a s) \<and>
       fst (GetCode be a s3) = fst (GetCode be a s) \<and> fst (GetCodeHash be a s3) = fst (GetCodeHash be a s) \<and>
       fst (GetState be a k s3) = fst (GetState be a k s) \<and>
       fst (GetCommittedState be a k s3) = fst (GetCommittedState be a k s) \<and>
       fst (HasSuicided be a s3) = fst (HasSuicided be a s) \<and> fst (Exist be a s3) = fst (Exist be a s)) \<and>
    sdb_refund s3 = sdb_refund s \<and> (\<forall>h. logs_of s3 h = logs_of s h) \<and> sdb_logSize s3 = sdb_logSize s \<and>
    (\<forall>h. gm_get (sdb_preimages s3) h = gm_get (sdb_preimages s) h) \<and> sdb_accessList s3 = sdb_accessList s"
proof -
  have "history be G s0" for G using assms(1,2) by (simp add: history_def revs_ok_def)
  then obtain G where g: "history be G s" using run_ops_history [OF _ assms(3)] by blast
  have i: "i = sdb_nextRevisionId s" "s1 = snd (state_Snapshot s)" using assms(4) by (auto simp: state_Snapshot_def Let_def)
  obtain G2 where g2: "history be G2 s2" "G2 i = s"
    using run_ops_history [OF history_Snapshot [OF g, folded i(2)] assms(5)] assms(4) i
    by (auto simp: state_Snapshot_def Let_def)
  obtain s3 where s3: "RevertToSnapshot be i s2 = Some s3" "same be s3 s" "history be G2 s3"
    using history_Revert [OF g2(1) assms(6)] g2(2) by blast
  have inv: "state_inv be s3" "state_inv be s" using s3(3) g by (simp_all add: history_def)
  show ?thesis using s3(1) same_observe [OF s3(2) inv] by blast
qed

text \<open>A backend with one contract account, for the examples.\<close>

definition demo_be :: backend where
  "demo_be =
    \<lparr>be_keccak = BytesToHash,
     be_TryGet = (\<lambda>a. if a = 7 then Found \<lparr>sa_Nonce = 1, sa_Balance = 100, sa_Root = 5, sa_CodeHash = hash_bytes 6\<rparr> else Absent),
     be_OpenStorageTrie = (\<lambda>_ root. if root = 5 then Some (\<lambda>k. Some (if k = 1 then [9] else []))
        else if root = EmptyRootHash then Some empty_trie else None),
     be_ContractCode = (\<lambda>_ _. Some [1, 2, 3])\<rparr>"

lemma demo_be_inj: "inj (\<lambda>a. be_keccak demo_be (address_bytes a))"
proof (rule injI)
  fix a b
  assume e: "be_keccak demo_be (address_bytes a) = be_keccak demo_be (address_bytes b)"
  have "be_nat (address_bytes x) < 2 ^ 256" for x
    using be_nat_bound [of "address_bytes x"] by (simp add: less_trans [OF _ power_strict_increasing [of 20 32 "256 :: nat"]])
  then have "unat (of_nat (be_nat (address_bytes x)) :: hash) = be_nat (address_bytes x)" for x
    by (simp add: unat_of_nat)
  then have "be_nat (address_bytes a) = be_nat (address_bytes b)"
    using e unfolding demo_be_def BytesToHash_def by (metis backend.select_convs(1))
  then show "a = b" by (metis BytesToAddress_bytes BytesToAddress_def)
qed

lemma state_New_inv:
  assumes "inj (\<lambda>a. be_keccak be (address_bytes a))" "\<forall>a d. load_account be (state_New snap) a = Found d \<longrightarrow> length (sa_CodeHash d) = 32"
  shows "state_inv be (state_New snap)" "sdb_validRevisions (state_New snap) = []"
  using assms al.ok_empty(1) by (simp_all add: state_inv_def) (simp_all add: state_New_def)

lemma demo_inv: "state_inv demo_be (state_New None)"
  by (rule state_New_inv(1) [OF demo_be_inj]) (simp add: load_account_def state_New_def demo_be_def split: if_splits)

theorem RevertToSnapshot_restores_witness:
  "\<exists>s2 s3. run_ops demo_be [OpAddBalance 8 5, OpSnapshot, OpSuicide 7, OpRevertToSnapshot 1, OpSetState 7 1 4]
      (snd (state_Snapshot (state_New None))) = Some s2 \<and> RevertToSnapshot demo_be 0 s2 = Some s3 \<and>
    fst (GetBalance demo_be 8 s3) = 0 \<and> fst (GetState demo_be 7 1 s3) = 9"
proof -
  let ?s = "state_New None :: StateDB"
  let ?ops = "[OpAddBalance 8 5, OpSnapshot, OpSuicide 7, OpRevertToSnapshot 1, OpSetState 7 1 4]"
  have "case run_ops demo_be ?ops (snd (state_Snapshot ?s)) of
      None \<Rightarrow> False | Some s2 \<Rightarrow> list_ex (\<lambda>r. fst r = 0) (sdb_validRevisions s2)" by code_simp
  then obtain s2 j where s2: "run_ops demo_be ?ops (snd (state_Snapshot ?s)) = Some s2" "(0, j) \<in> set (sdb_validRevisions s2)"
    by (auto simp: list_ex_iff split: option.splits)
  have sn: "state_Snapshot ?s = (0, snd (state_Snapshot ?s))" by (simp add: state_Snapshot_def state_New_def)
  have b: "fst (GetBalance demo_be 8 ?s) = 0" "fst (GetState demo_be 7 1 ?s) = 9" by code_simp+
  have e: "run_ops demo_be [] ?s = Some ?s" "sdb_validRevisions ?s = []" by (simp_all add: state_New_def)
  show ?thesis
    using RevertToSnapshot_restores [OF demo_inv e(2,1) sn s2] s2(1) b by metis
qed

end
