(* ===== verification/State_Effects.thy ===== *)
theory State_Effects
  imports State_Journal
begin

text \<open>
  What the operations on the state do: transfers conserve money, the end of a transaction deletes dead
  accounts and makes storage writes permanent, and two operations of this repository that do not keep
  their promises, \<^verbatim>\<open>Erase\<close> and \<^verbatim>\<open>SetStorage\<close>.
\<close>

subsection \<open>Balances\<close>

lemma createObject_acct:
  assumes "state_inv be s" "createObject be a s = ((nb, p), s')" "b \<noteq> a"
  shows "acct be s' b = acct be s b"
proof -
  obtain r s1 where g: "getDeletedStateObject be a s = (r, s1)" by (cases "getDeletedStateObject be a s")
  note d = getDeletedStateObject_same [OF assms(1) g]
  have nb: "so_address nb = a" using createObject_new [OF assms(2)] by simp
  show ?thesis
  proof (cases r)
    case None
    then have "s' = setStateObject nb (journal_append (createObjectChange a) s1)"
      using assms(2) g by (auto simp: createObject_def Let_def)
    then show ?thesis using assms(3) nb d by (simp add: same_def)
  next
    case (Some prev)
    have "so_address prev = a" using d Some peek_ok [OF assms(1)] by (auto simp: obj_ok_def)
    then have h: "so_addrHash be prev = be_keccak be (address_bytes a)" by (simp add: so_addrHash_def)
    have "acct be (s1\<lparr>sdb_snapDestructs := gm_set (sdb_snapDestructs s1) (so_addrHash be prev) ()\<rparr>) b = acct be s1 b"
      by (rule acct_destruct) (use d assms(3) h in auto)
    then show ?thesis using assms(2,3) g Some nb d by (auto simp: createObject_def Let_def same_def split: if_splits)
  qed
qed

definition bal :: "backend \<Rightarrow> StateDB \<Rightarrow> address \<Rightarrow> int" where
  "bal be s a = fst (GetBalance be a s)"

lemma bal_seen: "state_inv be s \<Longrightarrow> bal be s a = (case seen be s a of Some (d, _) \<Rightarrow> sa_Balance d | None \<Rightarrow> 0)"
  by (simp add: bal_def getters_seen)

lemma GetOrNew_bal:
  assumes "state_inv be s" "GetOrNewStateObject be a s = (ob, s')"
  shows "bal be s' b = bal be s b" "bal be s a = sa_Balance (so_data ob)"
proof -
  obtain r s1 where g: "getStateObject be a s = (r, s1)" by (cases "getStateObject be a s")
  note d = getStateObject_same [OF assms(1) g]
  note sn = getStateObject_seen [OF assms(1) g]
  have i: "state_inv be s1" "state_inv be s'" using d GetOrNew_steps(3) [OF assms] by simp_all
  have "(bal be s' b = bal be s b) \<and> bal be s a = sa_Balance (so_data ob)"
  proof (cases r)
    case (Some x)
    then have "ob = x" "s' = s1" using assms(2) g by (simp_all add: GetOrNewStateObject_def)
    moreover have "seen be s1 = seen be s" using d same_seen by blast
    ultimately show ?thesis using Some sn assms(1) i by (simp add: bal_seen)
  next
    case None
    obtain nb p s2 where c: "createObject be a s1 = ((nb, p), s2)" by (cases "createObject be a s1") auto
    have e: "ob = nb" "s' = s2" using assms(2) g None c by (auto simp: GetOrNewStateObject_def)
    have n: "nb = newObject be a 0 None 0 None" using createObject_new [OF c] by simp
    then have nb: "sa_Balance (so_data nb) = 0" by (simp add: newObject_def)
    have sa: "seen be s a = None" using sn None by simp
    have "bal be s' b = bal be s b"
    proof (cases "b = a")
      case True
      have "seen be s' a = Some (so_data nb, fst (so_Code be nb), \<lambda>k. fst (so_GetCommittedState be s' k nb),
          \<lambda>k. fst (so_GetState be s' k nb), so_suicided nb)"
        using live_acct [OF GetOrNew_steps(2) [OF assms]] n e by (simp add: seen_def obj_view_def)
      then show ?thesis using True sa nb assms(1) i by (simp add: bal_seen)
    next
      case False
      have "acct be s' b = acct be s b" using createObject_acct [OF i(1) c False] d e by (simp add: same_def)
      then show ?thesis using assms(1) i by (simp add: bal_seen seen_def)
    qed
    then show ?thesis using sa nb e assms(1) by (simp add: bal_seen)
  qed
  then show "bal be s' b = bal be s b" "bal be s a = sa_Balance (so_data ob)" by simp_all
qed

lemma so_SetBalance_bal:
  assumes "state_inv be s" "live be a ob s"
  shows "bal be (so_SetBalance x ob s) b = (if b = a then x else bal be s b)"
proof -
  have i: "state_inv be (so_SetBalance x ob s)" using so_SetBalance_steps [OF assms] by (simp add: steps_def)
  have a: "so_address ob = a" "\<not> so_deleted ob" using assms(2) by (auto simp: live_def obj_ok_def)
  let ?s = "journal_append (balanceChange (so_address ob) (sa_Balance (so_data ob))) s"
  have "acct be (so_SetBalance x ob s) = (acct be s)(a := Some (obj_view be ?s (so_setBalance x ob)))"
    using a by (simp add: so_SetBalance_def) (simp add: so_setBalance_def)
  then have "seen be (so_SetBalance x ob s) b = (if b = a then Some (so_data (so_setBalance x ob), snd (the (seen be (so_SetBalance x ob s) a))) else seen be s b)"
    using a by (auto simp: seen_def obj_view_def)
  then show ?thesis using assms(1) i by (auto simp: bal_seen) (simp add: so_setBalance_def)
qed

lemma AddBalance_bal:
  assumes "state_inv be s"
  shows "bal be (AddBalance be a x s) b = (if b = a then bal be s a + x else bal be s b)"
proof -
  obtain ob s' where g: "GetOrNewStateObject be a s = (ob, s')" by (cases "GetOrNewStateObject be a s")
  note n = GetOrNew_steps [OF assms g] and m = GetOrNew_bal [OF assms g]
  have t: "bal be (so_touch ob s') c = bal be s' c" for c
    using touch_steps [OF n(3), of ob] n(3) by (simp add: steps_def bal_seen) (simp add: so_touch_def seen_def Let_def)
  show ?thesis
    using g m t so_SetBalance_bal [OF n(3,2)] by (simp add: AddBalance_def)
qed

lemma SubBalance_bal:
  assumes "state_inv be s"
  shows "bal be (SubBalance be a x s) b = (if b = a then bal be s a - x else bal be s b)"
proof -
  have "SubBalance be a x s = AddBalance be a (- x) s" by (auto simp: SubBalance_def AddBalance_def split: prod.split)
  then show ?thesis using AddBalance_bal [OF assms] by simp
qed

text \<open>A transfer moves exactly the amount: the sender loses it, the recipient gains it, no other balance
  changes, and when \<^verbatim>\<open>CanTransfer\<close> allowed a non-negative amount no balance becomes negative.\<close>

theorem Transfer_correct:
  assumes "state_inv be s" "0 \<le> amount" "fst (CanTransfer be a amount s)"
    and "\<forall>c. 0 \<le> fst (GetBalance be c s)"
  shows "fst (GetBalance be c (Transfer be a b amount s)) =
      fst (GetBalance be c s) - (if c = a then amount else 0) + (if c = b then amount else 0) \<and>
    0 \<le> fst (GetBalance be c (Transfer be a b amount s))"
proof -
  have i: "state_inv be (SubBalance be a amount s)" using SubBalance_steps [OF assms(1)] by (simp add: steps_def)
  have "amount \<le> bal be s a" using assms(3) by (simp add: CanTransfer_def bal_def case_prod_beta)
  moreover have "\<forall>c. 0 \<le> bal be s c" using assms(4) by (simp add: bal_def)
  ultimately show ?thesis
    unfolding bal_def [symmetric] Transfer_def AddBalance_bal [OF i] SubBalance_bal [OF assms(1)] using assms(2) by auto
qed

theorem Transfer_correct_witness:
  "fst (GetBalance demo_be 7 (Transfer demo_be 7 8 30 (state_New None))) = 70 \<and>
   fst (GetBalance demo_be 8 (Transfer demo_be 7 8 30 (state_New None))) = 30"
proof -
  have b: "fst (GetBalance demo_be c (state_New None)) = (if c = 7 then 100 else 0)" for c
    unfolding getters_seen(1) [OF demo_inv] seen_def acct_def peek_eq
    by (simp add: load_account_def state_New_def demo_be_def obj_view_def newObject_def)
  have "fst (CanTransfer demo_be 7 30 (state_New None))"
    using b [of 7] by (simp add: CanTransfer_def case_prod_beta)
  from Transfer_correct [OF demo_inv _ this, of 7 8] Transfer_correct [OF demo_inv _ this, of 8 8] show ?thesis
    by (simp add: b)
qed


subsection \<open>The end of a transaction\<close>

lemma fold_gm_get:
  "gm_ok m \<Longrightarrow> gm_get (fold (\<lambda>(k, v) m. gm_set m k v) m n) k = (case gm_get m k of Some v \<Rightarrow> Some v | None \<Rightarrow> gm_get n k)"
proof (induction m arbitrary: n)
  case (Cons e m)
  obtain x y where e: "e = (x, y)" by (cases e)
  then have "gm_get m x = None" using Cons.prems by (simp add: gm_get_None_iff)
  then show ?case using Cons by (auto simp: e split: option.split)
qed simp

lemma so_finalise_sel [simp]:
  "so_address (so_finalise ob) = so_address ob" "so_data (so_finalise ob) = so_data ob" "so_trie (so_finalise ob) = so_trie ob"
  "so_code (so_finalise ob) = so_code ob" "so_originStorage (so_finalise ob) = so_originStorage ob"
  "so_pendingStorage (so_finalise ob) = fold (\<lambda>(k, v) m. gm_set m k v) (so_dirtyStorage ob) (so_pendingStorage ob)"
  "so_dirtyStorage (so_finalise ob) = []" "so_suicided (so_finalise ob) = so_suicided ob" "so_deleted (so_finalise ob) = so_deleted ob"
  by (simp_all add: so_finalise_def)

lemma view_finalise:
  assumes "gm_ok (so_dirtyStorage ob)"
  shows "obj_view be s (so_finalise ob) =
    (case obj_view be s ob of (a, d, c, cm, st, su, de) \<Rightarrow> (a, d, c, st, st, su, de))"
proof -
  have h: "so_addrHash be (so_finalise ob) = so_addrHash be ob" by (simp add: so_addrHash_def)
  have r: "fst (read_slot be s k (so_finalise ob)) = fst (read_slot be s k ob)" for k
    unfolding read_slot_fst getTrie_fst h so_finalise_sel ..
  have c: "fst (so_GetCommittedState be s k (so_finalise ob)) = fst (so_GetState be s k ob)" for k
    unfolding state_fst committed_fst r h
    using fold_gm_get [OF assms, of "so_pendingStorage ob" k] by (auto split: option.split)
  have "fst (so_GetState be s k (so_finalise ob)) = fst (so_GetState be s k ob)" for k
    by (subst state_fst) (simp add: c)
  moreover have "fst (so_Code be (so_finalise ob)) = fst (so_Code be ob)"
    unfolding code_fst so_finalise_sel ..
  ultimately show ?thesis by (simp add: obj_view_def c)
qed

lemma finalise_one_inv:
  assumes "state_inv be s"
  shows "state_inv be (finalise_one be de a s)"
proof (cases "gm_get (sdb_stateObjects s) a")
  case (Some ob)
  then have "obj_ok a ob" using assms by (simp add: state_inv_def)
  then have k: "obj_ok a (ob\<lparr>so_deleted := True\<rparr>)" "obj_ok a (so_finalise ob)" by (simp_all add: obj_ok_def)
  have "state_inv be (t\<lparr>sdb_stateObjectsPending := p, sdb_stateObjectsDirty := gm_set (sdb_stateObjectsDirty t) a ()\<rparr>)"
    if "state_inv be t" "gm_get (sdb_stateObjects t) a \<noteq> None" for t p
    using that by (auto simp: state_inv_def load_account_def)
  moreover have "gm_get (sdb_stateObjects (setStateObject x s)) a \<noteq> None" "state_inv be (setStateObject x s)"
    if "obj_ok a x" for x
    using that state_inv_setStateObject [OF assms, of x] by (auto simp: setStateObject_def obj_ok_def)
  moreover have "state_inv be (t\<lparr>sdb_snapDestructs := x, sdb_snapAccounts := y, sdb_snapStorage := z\<rparr>) = state_inv be t" for t x y z
    by (simp add: state_inv_def load_account_def)
  ultimately show ?thesis using Some k by (simp add: finalise_one_def Let_def)
qed (use assms in \<open>simp add: finalise_one_def\<close>)

lemma acct_pending [simp]:
  "acct be (s\<lparr>sdb_stateObjectsPending := x\<rparr>) = acct be s" "acct be (s\<lparr>sdb_snapAccounts := y\<rparr>) = acct be s"
  "acct be (s\<lparr>sdb_snapStorage := z\<rparr>) = acct be s"
  by (rule acct_cong; simp)+

lemma finalise_one_other:
  assumes "state_inv be s" "b \<noteq> a"
  shows "acct be (finalise_one be de b s) a = acct be s a"
    "gm_get (sdb_stateObjects (finalise_one be de b s)) a = gm_get (sdb_stateObjects s) a"
proof -
  have ad: "so_address ob = b" if "gm_get (sdb_stateObjects s) b = Some ob" for ob
    using assms(1) that by (auto simp: state_inv_def obj_ok_def)
  show o: "gm_get (sdb_stateObjects (finalise_one be de b s)) a = gm_get (sdb_stateObjects s) a"
    using assms(2) ad by (auto simp: finalise_one_def setStateObject_def Let_def split: option.split)
  show "acct be (finalise_one be de b s) a = acct be s a"
    by (rule acct_destruct [OF assms(1) _ o, of b])
      (use assms(2) ad in \<open>auto simp: finalise_one_def Let_def so_addrHash_def setStateObject_def split: option.splits if_splits\<close>)
qed

lemma finalise_fold_other:
  "state_inv be s \<Longrightarrow> a \<notin> set bs \<Longrightarrow>
   state_inv be (fold (finalise_one be de) bs s) \<and> acct be (fold (finalise_one be de) bs s) a = acct be s a \<and>
   gm_get (sdb_stateObjects (fold (finalise_one be de) bs s)) a = gm_get (sdb_stateObjects s) a"
  by (induction bs arbitrary: s) (auto simp: finalise_one_inv finalise_one_other)

lemma finalise_one_self:
  assumes "state_inv be s" "gm_get (sdb_stateObjects s) a = Some ob" "gm_ok (so_dirtyStorage ob)" "\<not> so_deleted ob"
  shows "seen be (finalise_one be de a s) a =
    (if so_suicided ob \<or> (de \<and> so_empty be ob) then None
     else map_option (\<lambda>(d, c, cm, st, su). (d, c, st, st, su)) (seen be s a))"
proof -
  have a: "so_address ob = a" using assms(1,2) by (auto simp: state_inv_def obj_ok_def)
  show ?thesis
  proof (cases "so_suicided ob \<or> (de \<and> so_empty be ob)")
    case True
    then have "gm_get (sdb_stateObjects (finalise_one be de a s)) a = Some (ob\<lparr>so_deleted := True\<rparr>)"
      using assms(2) a by (auto simp: finalise_one_def setStateObject_def Let_def)
    then show ?thesis using True by (auto simp: seen_def acct_def peek_eq obj_view_def)
  next
    case False
    let ?s = "finalise_one be de a s"
    have o: "gm_get (sdb_stateObjects ?s) a = Some (so_finalise ob)"
      using assms(2) a False by (auto simp: finalise_one_def setStateObject_def Let_def)
    have v: "obj_view be ?s = obj_view be s"
      by (rule ext, rule committed_cong(3)) (use assms(2) False in \<open>auto simp: finalise_one_def Let_def\<close>)
    show ?thesis
      using False assms(2,4) unfolding seen_def acct_def peek_eq o v 
      by (simp add: view_finalise [OF assms(3)]) (simp add: obj_view_def)
  qed
qed

text \<open>C30. \<^verbatim>\<open>Finalise\<close> ends a transaction: an account it touched is gone if it self-destructed or is empty and empty
  accounts are to be deleted; otherwise its balance, nonce and storage are unchanged and its storage writes have
  become the committed values.  No snapshot of the transaction can be reverted any more.\<close>

theorem Finalise_correct:
  assumes "state_inv be s" "gm_ok (sdb_dirties s)" "gm_get (sdb_dirties s) a \<noteq> None"
    and "gm_get (sdb_stateObjects s) a = Some ob" "gm_ok (so_dirtyStorage ob)" "\<not> so_deleted ob"
  shows "(if so_suicided ob \<or> (de \<and> so_empty be ob) then \<not> fst (Exist be a (Finalise be de s))
      else fst (Exist be a (Finalise be de s)) \<and>
        fst (GetBalance be a (Finalise be de s)) = fst (GetBalance be a s) \<and>
        fst (GetNonce be a (Finalise be de s)) = fst (GetNonce be a s) \<and>
        fst (GetState be a k (Finalise be de s)) = fst (GetState be a k s) \<and>
        fst (GetCommittedState be a k (Finalise be de s)) = fst (GetState be a k s)) \<and>
    RevertToSnapshot be i (Finalise be de s) = None"
proof -
  have "a \<in> set (gm_keys (sdb_dirties s))" using assms(3) by (simp add: gm_keys_def gm_get_None_iff)
  then obtain xs ys where k: "gm_keys (sdb_dirties s) = xs @ a # ys" by (meson split_list)
  have d: "a \<notin> set xs" "a \<notin> set ys" using assms(2) k by (simp_all add: gm_ok_def gm_keys_def [symmetric])
  let ?f = "finalise_one be de" and ?s' = "Finalise be de s"
  let ?x = "fold ?f xs s"
  note x = finalise_fold_other [OF assms(1) d(1), of de]
  have inv1: "state_inv be (?f a ?x)" using x finalise_one_inv by blast
  note y = finalise_fold_other [OF inv1 d(2), of de]
  have s': "?s' = clearJournalAndRefund (fold ?f ys (?f a ?x))" by (simp add: Finalise_def k)
  have inv: "state_inv be ?s'" and ac: "acct be ?s' a = acct be (?f a ?x) a"
    using y by (simp_all add: s' clearJournalAndRefund_def Let_def)
  have "seen be ?s' a = (if so_suicided ob \<or> (de \<and> so_empty be ob) then None
     else map_option (\<lambda>(d, c, cm, st, su). (d, c, st, st, su)) (seen be s a))"
    using finalise_one_self [of be ?x a ob de] x assms(4-6) ac by (simp add: seen_def)
  moreover have "seen be s a \<noteq> None" using assms(4,6) by (simp add: seen_def acct_def peek_eq obj_view_def)
  moreover have "RevertToSnapshot be i ?s' = None"
    by (simp add: s' RevertToSnapshot_def clearJournalAndRefund_def Let_def sort_Search.simps)
  ultimately show ?thesis
    unfolding getters_seen [OF inv] getters_seen [OF assms(1)] by (auto split: option.splits)
qed

theorem Finalise_correct_witness:
  "fst (GetCommittedState demo_be 7 1 (Finalise demo_be True (SetState demo_be 7 1 4 (state_New None)))) = 4"
proof -
  let ?s = "SetState demo_be 7 1 4 (state_New None)"
  have i: "state_inv demo_be ?s" using SetState_steps [OF demo_inv] by (simp add: steps_def)
  have c: "gm_ok (sdb_dirties ?s)" "gm_get (sdb_dirties ?s) 7 \<noteq> None"
    "case gm_get (sdb_stateObjects ?s) 7 of None \<Rightarrow> False | Some ob \<Rightarrow>
       gm_ok (so_dirtyStorage ob) \<and> \<not> so_deleted ob \<and> \<not> so_suicided ob \<and> \<not> so_empty demo_be ob"
    "fst (GetState demo_be 7 1 ?s) = 4" by code_simp+
  then obtain ob where "gm_get (sdb_stateObjects ?s) 7 = Some ob" "gm_ok (so_dirtyStorage ob)" "\<not> so_deleted ob"
    "\<not> so_suicided ob" "\<not> so_empty demo_be ob" by (auto split: option.splits)
  with Finalise_correct [OF i c(1,2), of ob True 1] c(4) show ?thesis by simp
qed


subsection \<open>Erasing an account\<close>

lemma Erase_view:
  assumes "state_inv be s" "getStateObject be a s = (Some ob, s1)"
  shows "\<exists>ob' s2. snd (Erase be a s) = setStateObject ob' s2 \<and> so_address ob' = a \<and> \<not> so_deleted ob' \<and>
    so_originStorage ob' = so_originStorage ob \<and> so_pendingStorage ob' = so_pendingStorage ob \<and>
    so_dirtyStorage ob' = so_dirtyStorage ob \<and> so_trie ob' = None \<and> sa_Root (so_data ob') = EmptyRootHash \<and>
    sdb_snap s2 = sdb_snap s \<and> gm_get (sdb_snapDestructs s2) = gm_get (sdb_snapDestructs s) \<and>
    state_inv be (snd (Erase be a s))"
proof -
  note d = getStateObject_same [OF assms] and l = getStateObject_steps(2,3) [OF assms]
  obtain c o1 where c: "so_Code be ob = (c, o1)" by (cases "so_Code be ob")
  let ?o = "o1\<lparr>so_code := Some [], so_data := (so_data o1)\<lparr>sa_CodeHash := emptyCodeHash be, sa_Root := EmptyRootHash\<rparr>,
      so_trie := None, so_dirtyCode := True\<rparr>"
  let ?s = "journal_append (eraseChange (so_address o1) c (sa_CodeHash (so_data o1)) (sa_Root (so_data o1))) s1"
  have o1: "so_originStorage o1 = so_originStorage ob" "so_pendingStorage o1 = so_pendingStorage ob"
    "so_dirtyStorage o1 = so_dirtyStorage ob"
    using c by (auto simp: so_Code_def Let_def split: option.splits if_splits)
  have a: "so_address o1 = a" "so_deleted o1 = so_deleted ob" "\<not> so_deleted ob"
    using code_view [OF c] l(1) [OF refl] by (auto simp: live_def obj_ok_def)
  have e: "snd (Erase be a s) = setStateObject ?o ?s" using assms(2) c by (simp add: Erase_def so_erase_def)
  have "state_inv be (setStateObject ?o ?s)"
    by (rule state_inv_setStateObject) (use l(2) a in \<open>simp_all add: obj_ok_def emptyCodeHash_def\<close>)
  moreover have "rest ?s = rest s" using d by (simp add: same_def)
  then have "sdb_snap ?s = sdb_snap s" "gm_get (sdb_snapDestructs ?s) = gm_get (sdb_snapDestructs s)"
    by (rule rest_snap)+
  ultimately show ?thesis using e a o1 by (intro exI [of _ ?o] exI [of _ ?s]) simp
qed

lemma GetState_set:
  assumes "state_inv be (setStateObject ob s)" "so_address ob = a" "\<not> so_deleted ob"
  shows "fst (GetState be a k (setStateObject ob s)) = fst (so_GetState be s k ob)"
  using assms(2,3) by (simp add: getters_seen(5) [OF assms(1)] seen_def obj_view_def)

lemma GetState_found:
  assumes "state_inv be s" "getStateObject be a s = (Some ob, s1)"
  shows "fst (GetState be a k s) = fst (so_GetState be s k ob)"
proof -
  note d = getStateObject_same [OF assms]
  have "rest s1 = rest s" using d by (simp add: same_def)
  from committed_cong(2) [OF rest_snap [OF this]] show ?thesis
    using getStateObject_seen [OF assms] by (simp add: getters_seen(5) [OF assms(1)])
qed

text \<open>\<^verbatim>\<open>Erase\<close>, the governance action that is documented to set the storage root to empty, gives different
  results on nodes with and without a flat snapshot: with one, every slot the snapshot holds keeps its value,
  because the account is not marked as destructed; without one, a slot that is not cached reads as zero.\<close>

theorem Erase_storage:
  assumes "state_inv be s" "getStateObject be a s = (Some ob, s1)"
  shows "(\<forall>sn. sdb_snap s = Some sn \<and> sn_Storage sn (be_keccak be (address_bytes a)) (be_keccak be (hash_bytes k)) \<noteq> None \<longrightarrow>
       fst (GetState be a k (snd (Erase be a s))) = fst (GetState be a k s)) \<and>
    (sdb_snap s = None \<and> gm_get (so_dirtyStorage ob) k = None \<and> gm_get (so_pendingStorage ob) k = None \<and>
     gm_get (so_originStorage ob) k = None \<and>
     be_OpenStorageTrie be (be_keccak be (address_bytes a)) EmptyRootHash = Some empty_trie \<longrightarrow>
       fst (GetState be a k (snd (Erase be a s))) = 0)"
proof -
  obtain ob' s2 where e: "snd (Erase be a s) = setStateObject ob' s2" "so_address ob' = a" "\<not> so_deleted ob'"
    "so_originStorage ob' = so_originStorage ob" "so_pendingStorage ob' = so_pendingStorage ob"
    "so_dirtyStorage ob' = so_dirtyStorage ob" "so_trie ob' = None" "sa_Root (so_data ob') = EmptyRootHash"
    and sn: "sdb_snap s2 = sdb_snap s" "gm_get (sdb_snapDestructs s2) = gm_get (sdb_snapDestructs s)"
    and inv: "state_inv be (snd (Erase be a s))"
    using Erase_view [OF assms] by blast
  have g: "fst (GetState be a k (snd (Erase be a s))) = fst (so_GetState be s k ob')"
    using GetState_set [OF inv [unfolded e(1)] e(2,3), of k] committed_cong(2) [OF sn] by (simp add: e(1))
  have "so_address ob = a" using getStateObject_steps(2) [OF assms refl] by (simp add: live_def obj_ok_def)
  then have h: "so_addrHash be ob' = be_keccak be (address_bytes a)" "so_addrHash be ob = be_keccak be (address_bytes a)"
    using e(2) by (simp_all add: so_addrHash_def)
  show ?thesis
    unfolding g GetState_found [OF assms]
    using e h by (auto simp: state_fst committed_fst read_slot_fst getTrie_fst decode_slot_def empty_trie_def split: option.split)
qed

definition demo_layer :: snap_layer where
  "demo_layer =
    \<lparr>sn_Account = (\<lambda>h. Some (if h = 7 then Some \<lparr>sl_Nonce = 1, sl_Balance = 100, sl_Root = [5], sl_CodeHash = hash_bytes 6\<rparr> else None)),
     sn_Storage = (\<lambda>h k. Some (if h = 7 \<and> k = 1 then [9] else []))\<rparr>"

lemma demo_layer_inv: "state_inv demo_be (state_New (Some demo_layer))"
  by (rule state_New_inv(1) [OF demo_be_inj])
    (auto simp: load_account_def state_New_def demo_layer_def slim_data_def emptyCodeHash_def split: if_splits)

text \<open>The same account on two nodes: the slot reads as 9 on both, and after \<^verbatim>\<open>Erase\<close> as 9 on one and 0 on the other.\<close>

theorem Erase_storage_witness:
  "fst (GetState demo_be 7 1 (state_New None)) = 9 \<and> fst (GetState demo_be 7 1 (state_New (Some demo_layer))) = 9 \<and>
   fst (GetState demo_be 7 1 (snd (Erase demo_be 7 (state_New (Some demo_layer))))) = 9 \<and>
   fst (GetState demo_be 7 1 (snd (Erase demo_be 7 (state_New None)))) = 0"
proof -
  let ?s = "state_New None" and ?t = "state_New (Some demo_layer)"
  have v: "fst (GetState demo_be 7 1 ?s) = 9" "fst (GetState demo_be 7 1 ?t) = 9" by code_simp+
  have c: "case getStateObject demo_be 7 ?s of (None, _) \<Rightarrow> False | (Some ob, _) \<Rightarrow>
      gm_get (so_dirtyStorage ob) 1 = None \<and> gm_get (so_pendingStorage ob) 1 = None \<and> gm_get (so_originStorage ob) 1 = None"
    "case getStateObject demo_be 7 ?t of (None, _) \<Rightarrow> False | (Some ob, _) \<Rightarrow> True" by code_simp+
  obtain ob s1 where s: "getStateObject demo_be 7 ?s = (Some ob, s1)" "gm_get (so_dirtyStorage ob) 1 = None"
    "gm_get (so_pendingStorage ob) 1 = None" "gm_get (so_originStorage ob) 1 = None"
    using c(1) by (auto split: prod.splits option.splits)
  obtain ob2 t1 where t: "getStateObject demo_be 7 ?t = (Some ob2, t1)" using c(2) by (auto split: prod.splits option.splits)
  have "be_OpenStorageTrie demo_be x EmptyRootHash = Some empty_trie" for x
    by (simp add: demo_be_def EmptyRootHash_def)
  then show ?thesis
    using Erase_storage [OF demo_inv s(1), of 1] Erase_storage [OF demo_layer_inv t, of 1] s v
    by (simp add: state_New_def demo_layer_def)
qed

text \<open>A reverted \<^verbatim>\<open>Erase\<close> does not always restore the storage: when a slot was read between the erasure and the
  revert, \<^verbatim>\<open>revertErase\<close> keeps the empty trie that the read opened, and the old slots then read as zero.\<close>

theorem reverted_Erase_loses_storage:
  "fst (GetState demo_be 7 1 (state_New None)) = 9 \<and>
   map_option (\<lambda>s. fst (GetState demo_be 7 1 s))
     (RevertToSnapshot demo_be 0 (snd (Erase demo_be 7 (snd (state_Snapshot (state_New None)))))) = Some 9 \<and>
   map_option (\<lambda>s. fst (GetState demo_be 7 1 s))
     (RevertToSnapshot demo_be 0 (snd (GetState demo_be 7 2 (snd (Erase demo_be 7 (snd (state_Snapshot (state_New None)))))))) = Some 0"
  by code_simp

subsection \<open>Replacing the storage of an account\<close>

text \<open>No operation initialises the map of destructed objects.\<close>

lemma destruct_simps [simp]:
  "sdb_stateObjectsDestruct (journal_append e s) = sdb_stateObjectsDestruct s"
  "sdb_stateObjectsDestruct (journal_dirty a s) = sdb_stateObjectsDestruct s"
  "sdb_stateObjectsDestruct (journal_undirty e s) = sdb_stateObjectsDestruct s"
  "sdb_stateObjectsDestruct (setStateObject ob s) = sdb_stateObjectsDestruct s"
  "sdb_stateObjectsDestruct (sdb_setError er s) = sdb_stateObjectsDestruct s"
  by (simp_all add: journal_append_def journal_dirty_def journal_undirty_def setStateObject_def sdb_setError_def Let_def
      split: option.split)

lemma destruct_get:
  "sdb_stateObjectsDestruct (snd (getDeletedStateObject be a s)) = sdb_stateObjectsDestruct s"
  by (simp add: getDeletedStateObject_def Let_def split: option.split account_read.split)

lemma destruct_get_state: "sdb_stateObjectsDestruct (snd (getStateObject be a s)) = sdb_stateObjectsDestruct s"
  using destruct_get [of be a s] by (auto simp: getStateObject_def split: prod.splits option.splits)

lemma destruct_create: "sdb_stateObjectsDestruct (snd (createObject be a s)) = sdb_stateObjectsDestruct s"
  using destruct_get [of be a s] by (auto simp: createObject_def Let_def split: prod.splits option.splits)

lemma destruct_GetOrNew: "sdb_stateObjectsDestruct (snd (GetOrNewStateObject be a s)) = sdb_stateObjectsDestruct s"
proof -
  obtain r s1 where g: "getStateObject be a s = (r, s1)" by (cases "getStateObject be a s")
  obtain x p s2 where c: "createObject be a s1 = ((x, p), s2)" by (cases "createObject be a s1") auto
  show ?thesis
    using destruct_get_state [of be a s] destruct_create [of be a s1] g c
    by (simp add: GetOrNewStateObject_def split: option.split)
qed

lemma destruct_setters [simp]:
  "sdb_stateObjectsDestruct (AddBalance be a x s) = sdb_stateObjectsDestruct s"
  "sdb_stateObjectsDestruct (SubBalance be a x s) = sdb_stateObjectsDestruct s"
  "sdb_stateObjectsDestruct (SetBalance be a x s) = sdb_stateObjectsDestruct s"
  "sdb_stateObjectsDestruct (SetNonce be a n s) = sdb_stateObjectsDestruct s"
  "sdb_stateObjectsDestruct (SetCode be a c s) = sdb_stateObjectsDestruct s"
  "sdb_stateObjectsDestruct (SetState be a k v s) = sdb_stateObjectsDestruct s"
  using destruct_GetOrNew [of be a s]
  by (auto simp: AddBalance_def SubBalance_def SetBalance_def SetNonce_def SetCode_def SetState_def so_touch_def
      so_SetBalance_def so_SetCode_def so_SetState_def Let_def split: prod.splits)

lemma destruct_getters [simp]:
  "sdb_stateObjectsDestruct (snd (GetCode be a s)) = sdb_stateObjectsDestruct s"
  "sdb_stateObjectsDestruct (snd (GetState be a k s)) = sdb_stateObjectsDestruct s"
  "sdb_stateObjectsDestruct (snd (GetCommittedState be a k s)) = sdb_stateObjectsDestruct s"
  "sdb_stateObjectsDestruct (snd (Suicide be a s)) = sdb_stateObjectsDestruct s"
  using destruct_get_state [of be a s]
  by (auto simp: GetCode_def GetState_def GetCommittedState_def Suicide_def Let_def split: prod.splits option.splits)

lemma destruct_CreateAccount [simp]: "sdb_stateObjectsDestruct (CreateAccount be a s) = sdb_stateObjectsDestruct s"
  using destruct_create [of be a s] by (auto simp: CreateAccount_def split: prod.splits option.splits)

lemma destruct_revert: "revert_entry be e s = Some s' \<Longrightarrow> sdb_stateObjectsDestruct s' = sdb_stateObjectsDestruct s"
proof -
  have g: "getStateObject be a t = (r, u) \<Longrightarrow> sdb_stateObjectsDestruct u = sdb_stateObjectsDestruct t" for a t r u
    using destruct_get_state [of be a t] by simp
  show "revert_entry be e s = Some s' \<Longrightarrow> sdb_stateObjectsDestruct s' = sdb_stateObjectsDestruct s"
    by (cases e) (auto simp: modify_object_def Let_def split: prod.splits option.splits if_splits dest: g)
qed

lemma destruct_undo: "undo_entries be es s = Some s' \<Longrightarrow> sdb_stateObjectsDestruct s' = sdb_stateObjectsDestruct s"
proof (induction es arbitrary: s)
  case (Cons e es)
  then obtain t where t: "revert_entry be e s = Some t" "undo_entries be es (journal_undirty e t) = Some s'"
    by (auto split: option.splits)
  then show ?case using Cons.IH [OF t(2)] destruct_revert [OF t(1)] by simp
qed simp

lemma destruct_exec_op: "exec_op be op s = Some s' \<Longrightarrow> sdb_stateObjectsDestruct s' = sdb_stateObjectsDestruct s"
  by (cases op)
    (auto simp: AddRefund_def SubRefund_def AddLog_def AddPreimage_def AddAddressToAccessList_def AddSlotToAccessList_def
      state_Snapshot_def RevertToSnapshot_def journal_revert_def destruct_get_state Let_def
      split: if_splits option.splits prod.splits dest: destruct_undo)

text \<open>\<^verbatim>\<open>SetStorage\<close> panics on every state that the package can produce: it writes to the map
  \<^verbatim>\<open>stateObjectsDestruct\<close>, which no constructor allocates.\<close>

theorem SetStorage_panics:
  assumes "run_ops be ops (state_New snap) = Some s"
  shows "SetStorage be a storage s = None"
proof -
  have "run_ops be ops t = Some s \<Longrightarrow> sdb_stateObjectsDestruct s = sdb_stateObjectsDestruct t" for t
    by (induction ops arbitrary: t) (auto split: option.splits dest: destruct_exec_op)
  from this [OF assms] have "sdb_stateObjectsDestruct s = None" by (simp add: state_New_def)
  then show ?thesis by (simp add: SetStorage_def)
qed

theorem SetStorage_panics_witness:
  "SetStorage demo_be 7 [(1, 2)] (AddBalance demo_be 8 5 (state_New None)) = None"
  by (rule SetStorage_panics [of _ "[OpAddBalance 8 5]" None]) simp

end
