(* ===== verification/Evm.thy ===== *)
theory Evm
  imports Header_Chain State_Effects
begin

text \<open>
  Call frames of the EVM (\<^verbatim>\<open>core/vm/evm.go\<close>, \<^verbatim>\<open>core/vm/contract.go\<close>) and the block context
  (\<^verbatim>\<open>core/evm.go\<close>).

  The interpreter loop \<^verbatim>\<open>EVMInterpreter.Run\<close>, which calls back into the frames, and the precompiled contracts are
  the fields of \<open>evm_env\<close>; theory \<open>Vm_Interpreter\<close> gives the node's interpreter as \<open>interpreter_env\<close>.  A run returns the output, an error, the gas that the contract has left and the state; \<open>None\<close> is a
  panic.  Everything around a run is modelled: the guards, the snapshot, the transfer, the revert and the gas.
  The tracer, the cache of jump destinations and the abort flag are left out.  Every block context of the node has
  \<^verbatim>\<open>core.CanTransfer\<close> and \<^verbatim>\<open>core.Transfer\<close> in its first two fields, so the model calls them directly.
\<close>

subsection \<open>Messages\<close>

record Message =
  msg_to :: "address option"
  msg_from :: address
  msg_nonce :: u64
  msg_amount :: int
  msg_gasLimit :: u64
  msg_gasPrice :: int
  msg_gasFeeCap :: int
  msg_gasTipCap :: int
  msg_data :: bytes
  msg_accessList :: "(address \<times> hash list) list"
  msg_isFake :: bool

definition NewMessage ::
  "address \<Rightarrow> address option \<Rightarrow> u64 \<Rightarrow> int \<Rightarrow> u64 \<Rightarrow> int \<Rightarrow> int \<Rightarrow> int \<Rightarrow> bytes \<Rightarrow> (address \<times> hash list) list \<Rightarrow> bool \<Rightarrow> Message" where
  "NewMessage from to nonce amount gasLimit gasPrice gasFeeCap gasTipCap data accessList isFake =
    \<lparr>msg_to = to, msg_from = from, msg_nonce = nonce, msg_amount = amount, msg_gasLimit = gasLimit,
     msg_gasPrice = gasPrice, msg_gasFeeCap = gasFeeCap, msg_gasTipCap = gasTipCap, msg_data = data,
     msg_accessList = accessList, msg_isFake = isFake\<rparr>"

subsection \<open>Errors and constants\<close>

datatype vm_error =
  ErrOutOfGas | ErrCodeStoreOutOfGas | ErrDepth | ErrInsufficientBalance | ErrContractAddressCollision
| ErrExecutionReverted | ErrMaxCodeSizeExceeded | ErrInvalidJump | ErrWriteProtection | ErrReturnDataOutOfBounds
| ErrGasUintOverflow | ErrInvalidCode | ErrUnauthorizedDeveloper | ErrNonceUintOverflow
| ErrAddressDenied | ErrStackUnderflow int int | ErrStackOverflow int int | ErrInvalidOpCode byte | PrecompileError string

definition CallCreateDepth :: nat where "CallCreateDepth = 1024"
definition MaxCodeSize :: nat where "MaxCodeSize = 24576"
definition CreateDataGas :: u64 where "CreateDataGas = 200"

definition CheckNone :: int where "CheckNone = 0"
definition CheckFrom :: int where "CheckFrom = 1"
definition CheckTo :: int where "CheckTo = 2"
definition CheckBothInAny :: int where "CheckBothInAny = 3"

lemmas check_consts = CheckNone_def CheckFrom_def CheckTo_def CheckBothInAny_def

subsection \<open>Contexts\<close>

record EvmExtraValidator =
  ev_IsAddressDenied :: "address \<Rightarrow> int \<Rightarrow> bool"
  ev_IsLogDenied :: "Log option \<Rightarrow> bool option"

record BlockContext =
  bc_GetHash :: "u64 \<Rightarrow> hash option"
  bc_CanCreate :: "(address \<Rightarrow> bigint \<Rightarrow> StateDB \<Rightarrow> bool \<times> StateDB) option"
  bc_ExtraValidator :: "EvmExtraValidator option"
  bc_Coinbase :: address
  bc_GasLimit :: u64
  bc_BlockNumber :: int
  bc_Time :: int
  bc_Difficulty :: int
  bc_BaseFee :: bigint

record EVM =
  evm_Context :: BlockContext
  evm_Origin :: address
  evm_GasPrice :: int
  evm_depth :: nat
  evm_chainConfig :: ChainConfig
  evm_chainRules :: Rules
  evm_NoRecursion :: bool
  evm_NoBaseFee :: bool

definition NewEVM :: "BlockContext \<Rightarrow> address \<Rightarrow> int \<Rightarrow> ChainConfig \<Rightarrow> bool \<Rightarrow> bool \<Rightarrow> EVM" where
  "NewEVM blockCtx origin gasPrice chainConfig noRecursion noBaseFee =
    \<lparr>evm_Context = blockCtx, evm_Origin = origin, evm_GasPrice = gasPrice, evm_depth = 0,
     evm_chainConfig = chainConfig, evm_chainRules = config_Rules chainConfig (Some (bc_BlockNumber blockCtx)),
     evm_NoRecursion = noRecursion, evm_NoBaseFee = noBaseFee\<rparr>"

text \<open>The loop of \<^verbatim>\<open>GetHashFn\<close>, started with the cache that holds only the parent's hash.  The cache changes the
  number of lookups and not the result.\<close>

partial_function (option) GetHash_loop :: "chain \<Rightarrow> u64 \<Rightarrow> hash \<Rightarrow> u64 \<Rightarrow> hash option" where
  "GetHash_loop ch n lastKnownHash lastKnownNumber =
    (case ch_GetHeader ch lastKnownHash lastKnownNumber of
       None \<Rightarrow> Some 0
     | Some header \<Rightarrow>
         (case header_number header of
            None \<Rightarrow> None
          | Some number \<Rightarrow>
              if n = number - 1 then Some (h_ParentHash header)
              else GetHash_loop ch n (h_ParentHash header) (number - 1)))"

declare GetHash_loop.simps [code]

definition GetHashFn :: "chain \<Rightarrow> Header \<Rightarrow> u64 \<Rightarrow> u64 \<Rightarrow> hash option" where
  "GetHashFn ch ref refNumber n =
    (if refNumber - n - 1 < 1 then Some (h_ParentHash ref) else GetHash_loop ch n (h_ParentHash ref) (refNumber - 1))"

text \<open>A header without number or difficulty panics.\<close>

definition NewEVMBlockContext ::
  "chain \<Rightarrow> (address \<Rightarrow> bigint \<Rightarrow> StateDB \<Rightarrow> bool \<times> StateDB) option \<Rightarrow> Header \<Rightarrow> address \<Rightarrow> BlockContext option" where
  "NewEVMBlockContext ch canCreate header beneficiary =
    (case (h_Number header, h_Difficulty header) of
       (Some number, Some difficulty) \<Rightarrow>
         Some \<lparr>bc_GetHash = GetHashFn ch header (big_Uint64 number), bc_CanCreate = canCreate, bc_ExtraValidator = None,
           bc_Coinbase = beneficiary, bc_GasLimit = h_GasLimit header, bc_BlockNumber = number,
           bc_Time = uint (h_Time header), bc_Difficulty = difficulty, bc_BaseFee = h_BaseFee header\<rparr>
     | _ \<Rightarrow> None)"

subsection \<open>Contracts\<close>

record Contract =
  ct_CallerAddress :: address
  ct_self :: address
  ct_Code :: bytes
  ct_CodeHash :: hash
  ct_CodeAddr :: "address option"
  ct_Gas :: u64
  ct_value :: bigint

datatype ContractRef = AccountRef address | ContractCaller Contract

fun ref_Address :: "ContractRef \<Rightarrow> address" where
  "ref_Address (AccountRef a) = a"
| "ref_Address (ContractCaller c) = ct_self c"

definition NewContract :: "ContractRef \<Rightarrow> address \<Rightarrow> bigint \<Rightarrow> u64 \<Rightarrow> Contract" where
  "NewContract caller object value gas =
    \<lparr>ct_CallerAddress = ref_Address caller, ct_self = object, ct_Code = [], ct_CodeHash = 0, ct_CodeAddr = None,
     ct_Gas = gas, ct_value = value\<rparr>"

text \<open>The type assertion \<^verbatim>\<open>c.caller.(*Contract)\<close> panics on an account reference.\<close>

fun AsDelegate :: "ContractRef \<Rightarrow> Contract \<Rightarrow> Contract option" where
  "AsDelegate (AccountRef a) c = None"
| "AsDelegate (ContractCaller parent) c =
    Some (c\<lparr>ct_CallerAddress := ct_CallerAddress parent, ct_value := ct_value parent\<rparr>)"

definition UseGas :: "u64 \<Rightarrow> Contract \<Rightarrow> bool \<times> Contract" where
  "UseGas gas c = (if ct_Gas c < gas then (False, c) else (True, c\<lparr>ct_Gas := ct_Gas c - gas\<rparr>))"

definition SetCallCode :: "address \<Rightarrow> hash \<Rightarrow> bytes \<Rightarrow> Contract \<Rightarrow> Contract" where
  "SetCallCode a h code c = c\<lparr>ct_Code := code, ct_CodeHash := h, ct_CodeAddr := Some a\<rparr>"

subsection \<open>Precompiled contracts and the interpreter\<close>

record PrecompiledContract =
  pc_RequiredGas :: "bytes \<Rightarrow> u64"
  pc_Run :: "bytes \<Rightarrow> bytes \<times> vm_error option"

type_synonym run_result = "bytes \<times> vm_error option \<times> u64 \<times> StateDB"
type_synonym call_result = "bytes \<times> u64 \<times> vm_error option \<times> StateDB"

record evm_env =
  ee_Run :: "EVM \<Rightarrow> Contract \<Rightarrow> bytes \<Rightarrow> bool \<Rightarrow> StateDB \<Rightarrow> run_result option"
  ee_Homestead :: "(address, PrecompiledContract) gomap"
  ee_Byzantium :: "(address, PrecompiledContract) gomap"
  ee_Istanbul :: "(address, PrecompiledContract) gomap"
  ee_Berlin :: "(address, PrecompiledContract) gomap"

definition active_table :: "evm_env \<Rightarrow> Rules \<Rightarrow> (address, PrecompiledContract) gomap" where
  "active_table env rules =
    (if r_IsBerlin rules then ee_Berlin env
     else if r_IsIstanbul rules then ee_Istanbul env
     else if r_IsByzantium rules then ee_Byzantium env
     else ee_Homestead env)"

definition precompile :: "evm_env \<Rightarrow> EVM \<Rightarrow> address \<Rightarrow> PrecompiledContract option" where
  "precompile env evm a = gm_get (active_table env (evm_chainRules evm)) a"

definition ActivePrecompiles :: "evm_env \<Rightarrow> Rules \<Rightarrow> address list" where
  "ActivePrecompiles env rules = gm_keys (active_table env rules)"

definition RunPrecompiledContract :: "PrecompiledContract \<Rightarrow> bytes \<Rightarrow> u64 \<Rightarrow> bytes \<times> u64 \<times> vm_error option" where
  "RunPrecompiledContract p input suppliedGas =
    (let gasCost = pc_RequiredGas p input
     in if suppliedGas < gasCost then ([], 0, Some ErrOutOfGas)
        else (let (output, err) = pc_Run p input in (output, suppliedGas - gasCost, err)))"

subsection \<open>Call frames\<close>

definition addresses_denied :: "EVM \<Rightarrow> address \<Rightarrow> address \<Rightarrow> bool" where
  "addresses_denied evm caller a =
    (case bc_ExtraValidator (evm_Context evm) of
       None \<Rightarrow> False
     | Some v \<Rightarrow> ev_IsAddressDenied v caller CheckFrom \<or> ev_IsAddressDenied v a CheckTo)"

text \<open>The code of an account loaded into a contract; the end of every frame.\<close>

definition code_bytes :: "bytes option \<Rightarrow> bytes" where
  "code_bytes c = (case c of None \<Rightarrow> [] | Some bs \<Rightarrow> bs)"

definition run_code ::
  "backend \<Rightarrow> evm_env \<Rightarrow> EVM \<Rightarrow> address \<Rightarrow> Contract \<Rightarrow> bytes \<Rightarrow> bool \<Rightarrow> StateDB \<Rightarrow> run_result option" where
  "run_code be env evm a contract input readOnly s =
    (let (h, s1) = GetCodeHash be a s; (code, s2) = GetCode be a s1
     in ee_Run env evm (SetCallCode a h (code_bytes code) contract) input readOnly s2)"

definition run_precompile :: "PrecompiledContract \<Rightarrow> bytes \<Rightarrow> u64 \<Rightarrow> StateDB \<Rightarrow> run_result" where
  "run_precompile p input gas s = (let (ret, left, err) = RunPrecompiledContract p input gas in (ret, err, left, s))"

definition end_frame :: "backend \<Rightarrow> int \<Rightarrow> run_result option \<Rightarrow> call_result option" where
  "end_frame be snapshot r =
    (case r of
       None \<Rightarrow> None
     | Some (ret, err, gas, s) \<Rightarrow>
         (case err of
            None \<Rightarrow> Some (ret, gas, None, s)
          | Some e \<Rightarrow>
              (case RevertToSnapshot be snapshot s of
                 None \<Rightarrow> None
               | Some s' \<Rightarrow> Some (ret, if e = ErrExecutionReverted then gas else 0, Some e, s'))))"

definition evm_Call ::
  "backend \<Rightarrow> evm_env \<Rightarrow> EVM \<Rightarrow> ContractRef \<Rightarrow> address \<Rightarrow> bytes \<Rightarrow> u64 \<Rightarrow> int \<Rightarrow> StateDB \<Rightarrow> call_result option" where
  "evm_Call be env evm caller a input gas value s =
    (if evm_NoRecursion evm \<and> evm_depth evm > 0 then Some ([], gas, None, s)
     else if evm_depth evm > CallCreateDepth then Some ([], gas, Some ErrDepth, s)
     else if evm_depth evm > 0 \<and> addresses_denied evm (ref_Address caller) a then Some ([], gas, Some ErrAddressDenied, s)
     else
       (let (ok, s0) = (if value \<noteq> 0 then CanTransfer be (ref_Address caller) value s else (True, s))
        in if \<not> ok then Some ([], gas, Some ErrInsufficientBalance, s0)
           else
             (let (snapshot, s1) = state_Snapshot s0; p = precompile env evm a; (exists, s2) = Exist be a s1
              in if \<not> exists \<and> p = None \<and> r_IsEIP158 (evm_chainRules evm) \<and> value = 0 then Some ([], gas, None, s2)
                 else
                   (let s3 = (if exists then s2 else CreateAccount be a s2);
                        s4 = Transfer be (ref_Address caller) a value s3
                    in end_frame be snapshot
                         (case p of
                            Some pc \<Rightarrow> Some (run_precompile pc input gas s4)
                          | None \<Rightarrow>
                              (let (code, s5) = GetCode be a s4
                               in if code_bytes code = [] then Some ([], None, gas, s5)
                                  else
                                    (let (h, s6) = GetCodeHash be a s5
                                     in ee_Run env evm (SetCallCode a h (code_bytes code) (NewContract caller a (Some value) gas))
                                          input False s6)))))))"

definition evm_CallCode ::
  "backend \<Rightarrow> evm_env \<Rightarrow> EVM \<Rightarrow> ContractRef \<Rightarrow> address \<Rightarrow> bytes \<Rightarrow> u64 \<Rightarrow> int \<Rightarrow> StateDB \<Rightarrow> call_result option" where
  "evm_CallCode be env evm caller a input gas value s =
    (if evm_NoRecursion evm \<and> evm_depth evm > 0 then Some ([], gas, None, s)
     else if evm_depth evm > CallCreateDepth then Some ([], gas, Some ErrDepth, s)
     else if addresses_denied evm (ref_Address caller) a then Some ([], gas, Some ErrAddressDenied, s)
     else
       (let (ok, s0) = CanTransfer be (ref_Address caller) value s
        in if \<not> ok then Some ([], gas, Some ErrInsufficientBalance, s0)
           else
             (let (snapshot, s1) = state_Snapshot s0
              in end_frame be snapshot
                   (case precompile env evm a of
                      Some pc \<Rightarrow> Some (run_precompile pc input gas s1)
                    | None \<Rightarrow> run_code be env evm a (NewContract caller (ref_Address caller) (Some value) gas) input False s1))))"

definition evm_DelegateCall ::
  "backend \<Rightarrow> evm_env \<Rightarrow> EVM \<Rightarrow> ContractRef \<Rightarrow> address \<Rightarrow> bytes \<Rightarrow> u64 \<Rightarrow> StateDB \<Rightarrow> call_result option" where
  "evm_DelegateCall be env evm caller a input gas s =
    (if evm_NoRecursion evm \<and> evm_depth evm > 0 then Some ([], gas, None, s)
     else if evm_depth evm > CallCreateDepth then Some ([], gas, Some ErrDepth, s)
     else if addresses_denied evm (ref_Address caller) a then Some ([], gas, Some ErrAddressDenied, s)
     else
       (let (snapshot, s1) = state_Snapshot s
        in end_frame be snapshot
             (case precompile env evm a of
                Some pc \<Rightarrow> Some (run_precompile pc input gas s1)
              | None \<Rightarrow>
                  (case AsDelegate caller (NewContract caller (ref_Address caller) None gas) of
                     None \<Rightarrow> None
                   | Some contract \<Rightarrow> run_code be env evm a contract input False s1))))"

definition evm_StaticCall ::
  "backend \<Rightarrow> evm_env \<Rightarrow> EVM \<Rightarrow> ContractRef \<Rightarrow> address \<Rightarrow> bytes \<Rightarrow> u64 \<Rightarrow> StateDB \<Rightarrow> call_result option" where
  "evm_StaticCall be env evm caller a input gas s =
    (if evm_NoRecursion evm \<and> evm_depth evm > 0 then Some ([], gas, None, s)
     else if evm_depth evm > CallCreateDepth then Some ([], gas, Some ErrDepth, s)
     else if addresses_denied evm (ref_Address caller) a then Some ([], gas, Some ErrAddressDenied, s)
     else
       (let (snapshot, s1) = state_Snapshot s; s2 = AddBalance be a 0 s1
        in end_frame be snapshot
             (case precompile env evm a of
                Some pc \<Rightarrow> Some (run_precompile pc input gas s2)
              | None \<Rightarrow> run_code be env evm a (NewContract caller a (Some 0) gas) input True s2)))"

subsection \<open>Contract creation\<close>

definition CreateAddress :: "backend \<Rightarrow> address \<Rightarrow> u64 \<Rightarrow> address" where
  "CreateAddress be b nonce =
    (case EncodeToBytes (VSlice [VByteArray (address_bytes b), VUint nonce]) of
       Inl e \<Rightarrow> BytesToAddress (drop 12 (hash_bytes (be_keccak be [])))
     | Inr data \<Rightarrow> BytesToAddress (drop 12 (hash_bytes (be_keccak be data))))"

definition CreateAddress2 :: "backend \<Rightarrow> address \<Rightarrow> bytes \<Rightarrow> bytes \<Rightarrow> address" where
  "CreateAddress2 be b salt inithash =
    BytesToAddress (drop 12 (hash_bytes (be_keccak be (0xff # address_bytes b @ salt @ inithash))))"

text \<open>The checks on the code that the constructor returned, and the payment for storing it.\<close>

definition check_code :: "EVM \<Rightarrow> bytes \<Rightarrow> vm_error option \<Rightarrow> vm_error option" where
  "check_code evm ret err =
    (let err1 = (if err = None \<and> r_IsEIP158 (evm_chainRules evm) \<and> length ret > MaxCodeSize
                 then Some ErrMaxCodeSizeExceeded else err)
     in if err1 = None \<and> ret \<noteq> [] \<and> hd ret = 0xEF \<and> r_IsLondon (evm_chainRules evm) then Some ErrInvalidCode else err1)"

definition store_code ::
  "backend \<Rightarrow> address \<Rightarrow> bytes \<Rightarrow> vm_error option \<Rightarrow> u64 \<Rightarrow> StateDB \<Rightarrow> vm_error option \<times> u64 \<times> StateDB" where
  "store_code be a ret err gas s =
    (if err = None then
       (let createDataGas = of_nat (length ret) * CreateDataGas
        in if gas < createDataGas then (Some ErrCodeStoreOutOfGas, gas, s)
           else (None, gas - createDataGas, SetCode be a (Some ret) s))
     else (err, gas, s))"

definition end_create ::
  "backend \<Rightarrow> EVM \<Rightarrow> int \<Rightarrow> address \<Rightarrow> run_result option \<Rightarrow> (bytes \<times> address \<times> u64 \<times> vm_error option \<times> StateDB) option" where
  "end_create be evm snapshot a r =
    (case r of
       None \<Rightarrow> None
     | Some (ret, err, gas, s) \<Rightarrow>
         (let (err', gas', s') = store_code be a ret (check_code evm ret err) gas s
          in case err' of
               None \<Rightarrow> Some (ret, a, gas', None, s')
             | Some e \<Rightarrow>
                 if r_IsHomestead (evm_chainRules evm) \<or> e \<noteq> ErrCodeStoreOutOfGas then
                   (case RevertToSnapshot be snapshot s' of
                      None \<Rightarrow> None
                    | Some s'' \<Rightarrow> Some (ret, a, if e = ErrExecutionReverted then gas' else 0, Some e, s''))
                 else Some (ret, a, gas', Some e, s')))"

definition may_create :: "EVM \<Rightarrow> address \<Rightarrow> StateDB \<Rightarrow> bool \<times> StateDB" where
  "may_create evm caller s =
    (case bc_CanCreate (evm_Context evm) of
       None \<Rightarrow> (True, s)
     | Some f \<Rightarrow> f caller (Some (bc_BlockNumber (evm_Context evm))) s)"

text \<open>The account of the new contract, from the collision check to the transfer.\<close>

definition open_account ::
  "backend \<Rightarrow> EVM \<Rightarrow> address \<Rightarrow> int \<Rightarrow> address \<Rightarrow> StateDB \<Rightarrow> StateDB" where
  "open_account be evm caller value a s =
    (let s1 = CreateAccount be a s; s2 = (if r_IsEIP158 (evm_chainRules evm) then SetNonce be a 1 s1 else s1)
     in Transfer be caller a value s2)"

text \<open>The sender's nonce, the access list and the collision check, before the snapshot.\<close>

definition claim_address :: "backend \<Rightarrow> EVM \<Rightarrow> address \<Rightarrow> u64 \<Rightarrow> address \<Rightarrow> StateDB \<Rightarrow> bool \<times> StateDB" where
  "claim_address be evm caller nonce a s =
    (let s4 = SetNonce be caller (nonce + 1) s;
         s5 = (if r_IsBerlin (evm_chainRules evm) then AddAddressToAccessList a s4 else s4);
         (contractHash, s6) = GetCodeHash be a s5; (n, s7) = GetNonce be a s6
     in (n = 0 \<and> (contractHash = 0 \<or> contractHash = be_keccak be []), s7))"

definition evm_create ::
  "backend \<Rightarrow> evm_env \<Rightarrow> EVM \<Rightarrow> ContractRef \<Rightarrow> bytes \<Rightarrow> hash \<Rightarrow> u64 \<Rightarrow> int \<Rightarrow> address \<Rightarrow> StateDB \<Rightarrow>
   (bytes \<times> address \<times> u64 \<times> vm_error option \<times> StateDB) option" where
  "evm_create be env evm caller code codeHash gas value a s =
    (if evm_depth evm > CallCreateDepth then Some ([], 0, gas, Some ErrDepth, s)
     else
       (let (allowed, s1) = may_create evm (ref_Address caller) s
        in if \<not> allowed then Some ([], 0, gas, Some ErrUnauthorizedDeveloper, s1)
           else
             (let (ok, s2) = CanTransfer be (ref_Address caller) value s1
              in if \<not> ok then Some ([], 0, gas, Some ErrInsufficientBalance, s2)
                 else
                   (let (nonce, s3) = GetNonce be (ref_Address caller) s2
                    in if nonce + 1 < nonce then Some ([], 0, gas, Some ErrNonceUintOverflow, s3)
                       else
                         (let (free, s7) = claim_address be evm (ref_Address caller) nonce a s3
                          in if \<not> free then Some ([], 0, 0, Some ErrContractAddressCollision, s7)
                             else
                               (let (snapshot, s8) = state_Snapshot s7;
                                    s9 = open_account be evm (ref_Address caller) value a s8;
                                    contract = (NewContract caller a (Some value) gas)
                                      \<lparr>ct_Code := code, ct_CodeHash := codeHash, ct_CodeAddr := Some a\<rparr>
                                in if evm_NoRecursion evm \<and> evm_depth evm > 0 then Some ([], a, gas, None, s9)
                                   else end_create be evm snapshot a (ee_Run env evm contract [] False s9)))))))"

definition evm_Create ::
  "backend \<Rightarrow> evm_env \<Rightarrow> EVM \<Rightarrow> ContractRef \<Rightarrow> bytes \<Rightarrow> u64 \<Rightarrow> int \<Rightarrow> StateDB \<Rightarrow>
   (bytes \<times> address \<times> u64 \<times> vm_error option \<times> StateDB) option" where
  "evm_Create be env evm caller code gas value s =
    (let (nonce, s1) = GetNonce be (ref_Address caller) s
     in evm_create be env evm caller code 0 gas value (CreateAddress be (ref_Address caller) nonce) s1)"

definition evm_Create2 ::
  "backend \<Rightarrow> evm_env \<Rightarrow> EVM \<Rightarrow> ContractRef \<Rightarrow> bytes \<Rightarrow> u64 \<Rightarrow> int \<Rightarrow> bytes \<Rightarrow> StateDB \<Rightarrow>
   (bytes \<times> address \<times> u64 \<times> vm_error option \<times> StateDB) option" where
  "evm_Create2 be env evm caller code gas endowment salt s =
    (let h = be_keccak be code
     in evm_create be env evm caller code h gas endowment (CreateAddress2 be (ref_Address caller) salt (hash_bytes h)) s)"

end
