(* ===== verification/Evm_Frames.thy ===== *)
theory Evm_Frames
  imports Evm
begin

text \<open>
  Correctness of the call frames of \<open>Evm\<close>: a failed frame leaves no trace in the state, gas never grows, and a
  frame is itself a sequence of state operations, so that the requirement on the interpreter carries over from the
  inner frames to the outer ones.
\<close>

subsection \<open>Nonces and balances\<close>

text \<open>Nonce and balance of an account; an account that does not exist has neither.\<close>

definition ledger :: "backend \<Rightarrow> StateDB \<Rightarrow> address \<Rightarrow> u64 \<times> int" where
  "ledger be s a = (fst (GetNonce be a s), fst (GetBalance be a s))"

lemma ledger_seen:
  "state_inv be s \<Longrightarrow> ledger be s a = (case seen be s a of Some (d, _) \<Rightarrow> (sa_Nonce d, sa_Balance d) | None \<Rightarrow> (0, 0))"
  by (simp add: ledger_def getters_seen split: option.split)

lemma ledger_cong: "state_inv be s \<Longrightarrow> state_inv be t \<Longrightarrow> acct be s a = acct be t a \<Longrightarrow> ledger be s a = ledger be t a"
  by (simp add: ledger_seen seen_def)

lemma ledger_same: "state_inv be s \<Longrightarrow> state_inv be t \<Longrightarrow> same be s t \<Longrightarrow> ledger be s a = ledger be t a"
  using same_seen by (simp add: ledger_seen)

lemma ledger_object:
  assumes "state_inv be s" "acct be s a = Some (obj_view be t ob)" "\<not> so_deleted ob"
  shows "ledger be s a = (sa_Nonce (so_data ob), sa_Balance (so_data ob))"
  using assms by (simp add: ledger_seen seen_def obj_view_def)

lemma GetOrNew_ledger:
  assumes "state_inv be s" "GetOrNewStateObject be a s = (ob, s')"
  shows "ledger be s' b = ledger be s b" "ledger be s a = (sa_Nonce (so_data ob), sa_Balance (so_data ob))"
proof -
  note n = GetOrNew_steps [OF assms]
  have obj: "ledger be s' a = (sa_Nonce (so_data ob), sa_Balance (so_data ob))"
    using ledger_object [OF n(3) live_acct [OF n(2)]] n(2) by (simp add: live_def)
  obtain r s1 where g: "getStateObject be a s = (r, s1)" by fastforce
  note d = getStateObject_same [OF assms(1) g]
  have "ledger be s' b = ledger be s b" for b
  proof (cases r)
    case (Some x)
    then have "s' = s1" using assms(2) g by (simp add: GetOrNewStateObject_def)
    then show ?thesis using d ledger_same [OF _ assms(1), of s1 b] by blast
  next
    case None
    obtain nb p s2 where c: "createObject be a s1 = ((nb, p), s2)" by (cases "createObject be a s1") auto
    have e: "ob = nb" "s' = s2" using assms(2) g None c by (auto simp: GetOrNewStateObject_def)
    show ?thesis
    proof (cases "b = a")
      case True
      have "ob = newObject be a 0 None 0 None" using createObject_new [OF c] e by simp
      then show ?thesis
        using True obj getStateObject_seen [OF assms(1) g] None assms(1) by (simp add: newObject_def ledger_seen)
    next
      case False
      have "acct be s' b = acct be s b" using createObject_acct [OF _ c False] d e by (simp add: same_def)
      then show ?thesis using ledger_cong n(3) assms(1) by blast
    qed
  qed
  then show "ledger be s' b = ledger be s b" "ledger be s a = (sa_Nonce (so_data ob), sa_Balance (so_data ob))"
    using obj by simp_all
qed

lemma ledger_put:
  assumes "state_inv be (setStateObject f t)" "state_inv be s" "acct be t = acct be s" "so_address f = a" "\<not> so_deleted f"
  shows "ledger be (setStateObject f t) b = (if b = a then (sa_Nonce (so_data f), sa_Balance (so_data f)) else ledger be s b)"
proof (cases "b = a")
  case True
  have "acct be (setStateObject f t) a = Some (obj_view be t f)" using assms(4,5) by simp
  then show ?thesis using ledger_object [OF assms(1) _ assms(5)] True by simp
next
  case False
  have "acct be (setStateObject f t) b = acct be s b" using assms(3,4,5) False by simp
  then show ?thesis using ledger_cong [OF assms(1,2)] False by simp
qed

lemma SetNonce_ledger:
  assumes "state_inv be s"
  shows "ledger be (SetNonce be a n s) b = (if b = a then (n, snd (ledger be s a)) else ledger be s b)"
proof -
  obtain ob s' where g: "GetOrNewStateObject be a s = (ob, s')" by fastforce
  note m = GetOrNew_steps [OF assms g] and l = GetOrNew_ledger [OF assms g]
  have i: "state_inv be (SetNonce be a n s)" using SetNonce_steps [OF assms] by (simp add: steps_def)
  have ob: "so_address (so_setNonce n ob) = a" "\<not> so_deleted (so_setNonce n ob)"
    "sa_Nonce (so_data (so_setNonce n ob)) = n" "sa_Balance (so_data (so_setNonce n ob)) = sa_Balance (so_data ob)"
    using m(2) by (auto simp: live_def obj_ok_def so_setNonce_def)
  have e: "SetNonce be a n s =
      setStateObject (so_setNonce n ob) (journal_append (nonceChange (so_address ob) (sa_Nonce (so_data ob))) s')"
    by (simp add: SetNonce_def g)
  show ?thesis
    using ledger_put [OF i [unfolded e] m(3) _ ob(1,2), of b] ob(3,4) l unfolding e by simp
qed

lemma so_SetBalance_ledger:
  assumes "state_inv be s" "live be a ob s"
  shows "ledger be (so_SetBalance x ob s) b = (if b = a then (sa_Nonce (so_data ob), x) else ledger be s b)"
proof -
  have i: "state_inv be (so_SetBalance x ob s)" using so_SetBalance_steps [OF assms] by (simp add: steps_def)
  have ob: "so_address (so_setBalance x ob) = a" "\<not> so_deleted (so_setBalance x ob)"
    "sa_Nonce (so_data (so_setBalance x ob)) = sa_Nonce (so_data ob)" "sa_Balance (so_data (so_setBalance x ob)) = x"
    using assms(2) by (auto simp: live_def obj_ok_def so_setBalance_def)
  show ?thesis
    using ledger_put [OF i [unfolded so_SetBalance_def] assms(1) _ ob(1,2), of b] ob(3,4) unfolding so_SetBalance_def by simp
qed

lemma AddBalance_ledger:
  assumes "state_inv be s"
  shows "ledger be (AddBalance be a x s) b =
    (if b = a then (fst (ledger be s a), snd (ledger be s a) + x) else ledger be s b)"
proof -
  obtain ob s' where g: "GetOrNewStateObject be a s = (ob, s')" by fastforce
  note n = GetOrNew_steps [OF assms g] and m = GetOrNew_ledger [OF assms g]
  have t: "ledger be (so_touch ob s') c = ledger be s' c" for c
    using touch_steps [OF n(3), of ob] n(3) by (simp add: steps_def ledger_seen) (simp add: so_touch_def seen_def Let_def)
  show ?thesis
    using g m t so_SetBalance_ledger [OF n(3,2)] by (simp add: AddBalance_def)
qed

lemma SubBalance_ledger:
  assumes "state_inv be s"
  shows "ledger be (SubBalance be a x s) b =
    (if b = a then (fst (ledger be s a), snd (ledger be s a) - x) else ledger be s b)"
proof -
  have "SubBalance be a x s = AddBalance be a (- x) s" by (auto simp: SubBalance_def AddBalance_def split: prod.split)
  then show ?thesis using AddBalance_ledger [OF assms] by simp
qed

lemma SetBalance_ledger:
  assumes "state_inv be s"
  shows "ledger be (SetBalance be a x s) b = (if b = a then (fst (ledger be s a), x) else ledger be s b)"
proof -
  obtain ob s' where g: "GetOrNewStateObject be a s = (ob, s')" by fastforce
  note n = GetOrNew_steps [OF assms g] and m = GetOrNew_ledger [OF assms g]
  show ?thesis using g m so_SetBalance_ledger [OF n(3,2)] by (simp add: SetBalance_def)
qed

lemma AddAddress_ledger:
  assumes "state_inv be s"
  shows "ledger be (AddAddressToAccessList a s) b = ledger be s b"
proof -
  have "acct be (AddAddressToAccessList a s) b = acct be s b"
    by (auto simp: AddAddressToAccessList_def Let_def split: prod.split)
  moreover have "state_inv be (AddAddressToAccessList a s)" using AddAddress_steps [OF assms, of a] by (simp add: steps_def)
  ultimately show ?thesis using ledger_cong assms by blast
qed

lemma AddSlot_ledger:
  assumes "state_inv be s" "AddSlotToAccessList a k s = Some s'"
  shows "ledger be s' b = ledger be s b"
proof -
  have "acct be s' b = acct be s b"
    using assms(2) by (auto simp: AddSlotToAccessList_def Let_def split: prod.splits option.splits if_splits)
  moreover have "state_inv be s'" using exec_op_steps [OF assms(1), of "OpAddSlot a k"] assms(2) by (simp add: steps_def is_step_def)
  ultimately show ?thesis using ledger_cong assms(1) by blast
qed

lemma load_ledger:
  assumes "state_inv be s"
  shows "ledger be (snd (getStateObject be a s)) b = ledger be s b"
proof -
  have "same be (snd (getStateObject be a s)) s" "state_inv be (snd (getStateObject be a s))"
    using getStateObject_same [OF assms, of a "fst (getStateObject be a s)" "snd (getStateObject be a s)"] by simp_all
  then show ?thesis using ledger_same assms by blast
qed


subsection \<open>What a frame does to the state\<close>

text \<open>A state inside a transaction: every valid revision can be reverted to.\<close>

definition in_tx :: "backend \<Rightarrow> StateDB \<Rightarrow> bool" where
  "in_tx be s \<longleftrightarrow> (\<exists>G. history be G s)"

text \<open>State operations lead from one state to another and keep the revisions that were valid.\<close>

definition ops_to :: "backend \<Rightarrow> StateDB \<Rightarrow> StateDB \<Rightarrow> bool" where
  "ops_to be s s' \<longleftrightarrow>
    (\<exists>ops. run_ops be ops s = Some s') \<and> set (sdb_validRevisions s) \<subseteq> set (sdb_validRevisions s')"

text \<open>Nothing that the EVM can read differs.\<close>

definition same_view :: "backend \<Rightarrow> StateDB \<Rightarrow> StateDB \<Rightarrow> bool" where
  "same_view be s t \<longleftrightarrow>
    (\<forall>a k. fst (GetBalance be a s) = fst (GetBalance be a t) \<and> fst (GetNonce be a s) = fst (GetNonce be a t) \<and>
       fst (GetCode be a s) = fst (GetCode be a t) \<and> fst (GetCodeHash be a s) = fst (GetCodeHash be a t) \<and>
       fst (GetState be a k s) = fst (GetState be a k t) \<and>
       fst (GetCommittedState be a k s) = fst (GetCommittedState be a k t) \<and>
       fst (HasSuicided be a s) = fst (HasSuicided be a t) \<and> fst (Exist be a s) = fst (Exist be a t)) \<and>
    sdb_refund s = sdb_refund t \<and> (\<forall>h. logs_of s h = logs_of t h) \<and> sdb_logSize s = sdb_logSize t \<and>
    (\<forall>h. gm_get (sdb_preimages s) h = gm_get (sdb_preimages t) h) \<and> sdb_accessList s = sdb_accessList t"

lemma same_view_refl [simp]: "same_view be s s"
  by (simp add: same_view_def)

lemma same_view_trans: "same_view be s t \<Longrightarrow> same_view be t u \<Longrightarrow> same_view be s u"
  unfolding same_view_def by simp

lemma same_same_view: "same be s t \<Longrightarrow> state_inv be s \<Longrightarrow> state_inv be t \<Longrightarrow> same_view be s t"
  unfolding same_view_def by (intro conjI allI) (rule same_observe; assumption)+

lemma in_tx_inv: "in_tx be s \<Longrightarrow> state_inv be s" "in_tx be s \<Longrightarrow> revs_ok s"
  by (auto simp: in_tx_def history_def)

lemma run_ops_append: "run_ops be (xs @ ys) s = Option.bind (run_ops be xs s) (run_ops be ys)"
  by (induction xs arbitrary: s) (auto split: option.split)

lemma run_ops_in_tx: "in_tx be s \<Longrightarrow> run_ops be ops s = Some s' \<Longrightarrow> in_tx be s'"
  unfolding in_tx_def using run_ops_history by blast

lemma ops_to_in_tx: "ops_to be s s' \<Longrightarrow> in_tx be s \<Longrightarrow> in_tx be s'"
  by (auto simp: ops_to_def run_ops_in_tx)

lemma ops_to_refl [simp]: "ops_to be s s"
  unfolding ops_to_def by (auto intro: exI [of _ "[]"])

lemma ops_to_trans [trans]: "ops_to be s t \<Longrightarrow> ops_to be t u \<Longrightarrow> ops_to be s u"
proof (clarsimp simp: ops_to_def)
  fix xs ys
  assume "run_ops be xs s = Some t" "run_ops be ys t = Some u"
  then have "run_ops be (xs @ ys) s = Some u" by (simp add: run_ops_append)
  moreover assume "set (sdb_validRevisions s) \<subseteq> set (sdb_validRevisions t)" "set (sdb_validRevisions t) \<subseteq> set (sdb_validRevisions u)"
  ultimately show "(\<exists>ops. run_ops be ops s = Some u) \<and> set (sdb_validRevisions s) \<subseteq> set (sdb_validRevisions u)" by blast
qed

lemma step_ops_to:
  assumes "in_tx be s" "exec_op be op s = Some s'" "is_step op"
  shows "ops_to be s s'"
  using exec_op_steps [OF in_tx_inv(1) [OF assms(1)] assms(2,3)] assms(2)
  unfolding ops_to_def by (auto simp: steps_def intro!: exI [of _ "[op]"])

lemma Snapshot_ops_to: "ops_to be s (snd (state_Snapshot s))"
  unfolding ops_to_def by (auto simp: state_Snapshot_def Let_def intro!: exI [of _ "[OpSnapshot]"])

text \<open>The getters load objects and change nothing else.\<close>

lemma getter_states:
  "snd (GetBalance be a s) = snd (getStateObject be a s)" "snd (GetNonce be a s) = snd (getStateObject be a s)"
  "snd (GetCodeHash be a s) = snd (getStateObject be a s)" "snd (Exist be a s) = snd (getStateObject be a s)"
  "snd (CanTransfer be a x s) = snd (getStateObject be a s)"
  by (auto simp: GetBalance_def GetNonce_def GetCodeHash_def Exist_def CanTransfer_def split: prod.split)

lemma load_ops_to:
  assumes "in_tx be s"
  shows "ops_to be s (snd (getStateObject be a s))" "same_view be (snd (getStateObject be a s)) s"
proof -
  show "ops_to be s (snd (getStateObject be a s))"
    using step_ops_to [OF assms, of "OpGetObject a"] by (simp add: is_step_def)
  note i = in_tx_inv(1) [OF assms]
  show "same_view be (snd (getStateObject be a s)) s"
    using getStateObject_same [OF i, of a "fst (getStateObject be a s)" "snd (getStateObject be a s)"] i same_same_view by simp
qed

text \<open>A step without a journal entry changes nothing that can be read.\<close>

lemma steps_quiet: "steps be s s' \<Longrightarrow> sdb_entries s' = sdb_entries s \<Longrightarrow> same be s' s"
  by (force simp: steps_def undoes_def)

lemma GetState_reads:
  assumes "in_tx be s"
  shows "ops_to be s (snd (GetState be a k s))" "same_view be (snd (GetState be a k s)) s"
proof -
  note i = in_tx_inv(1) [OF assms]
  show "ops_to be s (snd (GetState be a k s))"
    using step_ops_to [OF assms, of "OpGetState a k"] by (simp add: is_step_def)
  have "sdb_entries (snd (GetState be a k s)) = sdb_entries s"
    using getStateObject_journal [of be a s] by (simp add: GetState_def setStateObject_def split: prod.split option.split)
  then show "same_view be (snd (GetState be a k s)) s"
    using same_same_view steps_quiet GetState_steps [OF i] i steps_inv by blast
qed

lemma frame_steps:
  assumes "in_tx be s"
  shows "ops_to be s (AddBalance be a x s)" "ops_to be s (SubBalance be a x s)" "ops_to be s (SetNonce be a n s)"
    "ops_to be s (CreateAccount be a s)" "ops_to be s (snd (GetCode be a s))" "ops_to be s (SetCode be a c s)"
    "ops_to be s (AddAddressToAccessList a s)"
  using step_ops_to [OF assms, of "OpAddBalance a x"] step_ops_to [OF assms, of "OpSubBalance a x"]
    step_ops_to [OF assms, of "OpSetNonce a n"] step_ops_to [OF assms, of "OpCreateAccount a"]
    step_ops_to [OF assms, of "OpGetCode a"] step_ops_to [OF assms, of "OpSetCode a c"]
    step_ops_to [OF assms, of "OpAddAddress a"]
  by (simp_all add: is_step_def)

lemma Transfer_ops_to: "in_tx be s \<Longrightarrow> ops_to be s (Transfer be a b x s)"
  unfolding Transfer_def by (meson frame_steps(1,2) ops_to_in_tx ops_to_trans)

text \<open>Reverting to a snapshot taken in \<open>s\<close> leads back to what \<open>s\<close> looked like.\<close>

lemma Revert_revisions:
  assumes "revs_ok s" "RevertToSnapshot be i s = Some s'"
    and r: "r \<in> set (sdb_validRevisions s)" "fst r < i" and "(i, j) \<in> set (sdb_validRevisions s)"
  shows "r \<in> set (sdb_validRevisions s')"
proof -
  let ?rs = "sdb_validRevisions s"
  obtain p q where p: "p < length ?rs" "?rs ! p = (i, j)" and q: "q < length ?rs" "?rs ! q = r"
    using assms(3,5) by (metis in_set_conv_nth)
  have sorted: "sorted_wrt (<) (map fst ?rs)" using assms(1) by (simp add: revs_ok_def)
  then have "sort_Search (\<lambda>k. fst (?rs ! k) \<ge> i) 0 (length ?rs) = p" using p by (intro revision_found) simp_all
  then have "sdb_validRevisions s' = take p ?rs"
    using assms(2) p by (auto simp: RevertToSnapshot_def journal_revert_def Let_def dest!: undo_entries_journal)
  moreover have "q < p"
  proof (rule ccontr)
    assume "\<not> q < p"
    then have "i \<le> fst r"
      using sorted_wrt_nth_less [OF sorted, of p q] p q by (cases "p = q") auto
    then show False using r(2) by simp
  qed
  ultimately show ?thesis using q by (metis in_set_conv_nth length_take min_less_iff_conj nth_take)
qed

lemma revert_frame:
  assumes s: "in_tx be s" and sn: "state_Snapshot s = (i, s1)" and ops: "ops_to be s1 s2"
  shows "\<exists>s3. RevertToSnapshot be i s2 = Some s3 \<and> ops_to be s s3 \<and> same_view be s3 s"
proof -
  obtain G where G: "history be G s" using s by (auto simp: in_tx_def)
  have i: "i = sdb_nextRevisionId s" "s1 = snd (state_Snapshot s)" using sn by (auto simp: state_Snapshot_def Let_def)
  have rev1: "sdb_validRevisions s1 = sdb_validRevisions s @ [(i, length (sdb_entries s))]"
    using sn by (auto simp: state_Snapshot_def Let_def)
  then have mem: "(i, length (sdb_entries s)) \<in> set (sdb_validRevisions s2)" using ops by (auto simp: ops_to_def)
  obtain ops' where o1: "run_ops be ops' s1 = Some s2" using ops by (auto simp: ops_to_def)
  obtain G2 where G2: "history be G2 s2" "G2 i = s"
    using run_ops_history [OF history_Snapshot [OF G, folded i(2)] o1] sn i by (auto simp: state_Snapshot_def Let_def)
  obtain s3 where s3: "RevertToSnapshot be i s2 = Some s3" "same be s3 s" "history be G2 s3"
    using history_Revert [OF G2(1) mem] G2(2) by blast
  have "run_ops be (OpSnapshot # ops' @ [OpRevertToSnapshot i]) s = Some s3"
    using i(2) o1 s3(1) by (simp add: run_ops_append)
  moreover have "set (sdb_validRevisions s) \<subseteq> set (sdb_validRevisions s3)"
  proof
    fix r
    assume "r \<in> set (sdb_validRevisions s)"
    then have "r \<in> set (sdb_validRevisions s2)" "fst r < i"
      using ops rev1 in_tx_inv(2) [OF s] i(1) by (auto simp: ops_to_def revs_ok_def)
    moreover have "revs_ok s2" using G2(1) by (simp add: history_def)
    ultimately show "r \<in> set (sdb_validRevisions s3)" using Revert_revisions s3(1) mem by blast
  qed
  ultimately have "ops_to be s s3" unfolding ops_to_def by blast
  moreover have "same_view be s3 s"
    using same_same_view [OF s3(2)] s3(3) in_tx_inv(1) [OF s] by (simp add: history_def)
  ultimately show ?thesis using s3(1) by blast
qed

subsection \<open>Calls\<close>

text \<open>What the frames rely on in the interpreter (\<open>Vm_Runs\<close> proves it of the interpreter of the node): a run that
  returns acts on the state through its operations, does not revert below the snapshots that were there, and does
  not return more gas than the contract had.  The EVM that a run gets is the same at every depth.\<close>

definition interp_ok :: "backend \<Rightarrow> evm_env \<Rightarrow> EVM \<Rightarrow> bool" where
  "interp_ok be env evm \<longleftrightarrow>
    (\<forall>n c input readOnly s ret err gas s'. in_tx be s \<longrightarrow>
       ee_Run env (evm\<lparr>evm_depth := n\<rparr>) c input readOnly s = Some (ret, err, gas, s') \<longrightarrow> ops_to be s s' \<and> gas \<le> ct_Gas c)"

lemma interp_okD:
  "interp_ok be env evm \<Longrightarrow> in_tx be s \<Longrightarrow> ee_Run env evm c input readOnly s = Some (ret, err, gas, s') \<Longrightarrow> ops_to be s s' \<and> gas \<le> ct_Gas c"
proof -
  assume a: "interp_ok be env evm" "in_tx be s" "ee_Run env evm c input readOnly s = Some (ret, err, gas, s')"
  have "evm\<lparr>evm_depth := evm_depth evm\<rparr> = evm" by simp
  with a show ?thesis unfolding interp_ok_def by metis
qed

text \<open>A run with this input and gas panics, started from a state that is reached from \<open>s\<close>.\<close>

definition run_panics :: "backend \<Rightarrow> evm_env \<Rightarrow> EVM \<Rightarrow> bytes \<Rightarrow> u64 \<Rightarrow> StateDB \<Rightarrow> bool" where
  "run_panics be env evm input gas s \<longleftrightarrow>
    (\<exists>c readOnly t. ops_to be s t \<and> ct_Gas c = gas \<and> ee_Run env evm c input readOnly t = None)"

text \<open>A run or a frame that panics does so because the interpreter does.\<close>

definition run_spec :: "bool \<Rightarrow> backend \<Rightarrow> u64 \<Rightarrow> StateDB \<Rightarrow> run_result option \<Rightarrow> bool" where
  "run_spec panics be gas s r \<longleftrightarrow>
    (r = None \<longrightarrow> panics) \<and> (\<forall>ret err left s'. r = Some (ret, err, left, s') \<longrightarrow> ops_to be s s' \<and> left \<le> gas)"

definition frame_spec :: "bool \<Rightarrow> backend \<Rightarrow> u64 \<Rightarrow> StateDB \<Rightarrow> call_result option \<Rightarrow> bool" where
  "frame_spec panics be gas s r \<longleftrightarrow>
    (r = None \<longrightarrow> panics) \<and>
    (\<forall>ret left err s'. r = Some (ret, left, err, s') \<longrightarrow> ops_to be s s' \<and> left \<le> gas \<and>
      (\<forall>e. err = Some e \<longrightarrow> same_view be s' s \<and>
        (e \<notin> {ErrExecutionReverted, ErrDepth, ErrAddressDenied, ErrInsufficientBalance} \<longrightarrow> left = 0)))"

lemma run_panics_trans: "ops_to be s t \<Longrightarrow> run_panics be env evm input gas t \<Longrightarrow> run_panics be env evm input gas s"
  unfolding run_panics_def using ops_to_trans by blast

lemma run_spec_trans:
  "ops_to be s t \<Longrightarrow> run_spec (run_panics be env evm input gas t) be gas t r \<Longrightarrow> run_spec (run_panics be env evm input gas s) be gas s r"
  unfolding run_spec_def using ops_to_trans run_panics_trans by blast

lemma frame_spec_early:
  "ops_to be s t \<Longrightarrow> frame_spec p be gas s (Some (ret, gas, None, t))"
  "ops_to be s t \<Longrightarrow> same_view be t s \<Longrightarrow> e \<in> {ErrDepth, ErrAddressDenied, ErrInsufficientBalance} \<Longrightarrow>
   frame_spec p be gas s (Some (ret, gas, Some e, t))"
  by (auto simp: frame_spec_def)

lemma frame_spec_load:
  assumes "ops_to be s t" "same_view be t s" "frame_spec (run_panics be env evm input gas t) be gas t r"
  shows "frame_spec (run_panics be env evm input gas s) be gas s r"
  using assms(3) run_panics_trans [OF assms(1)] ops_to_trans [OF assms(1)] same_view_trans [OF _ assms(2)]
  by (simp add: frame_spec_def)

lemma end_frame_spec:
  assumes s: "in_tx be s" and sn: "state_Snapshot s = (i, s1)" and r: "run_spec (run_panics be env evm input gas s1) be gas s1 r"
  shows "frame_spec (run_panics be env evm input gas s) be gas s (end_frame be i r)"
proof (cases r)
  case None
  have "ops_to be s s1" using Snapshot_ops_to [of be s] sn by simp
  then show ?thesis using None r run_panics_trans by (auto simp: run_spec_def frame_spec_def end_frame_def)
next
  case (Some t)
  then obtain ret err left s2 where x: "r = Some (ret, err, left, s2)" "ops_to be s1 s2" "left \<le> gas"
    using r by (cases t) (auto simp: run_spec_def)
  show ?thesis
  proof (cases err)
    case None
    have "ops_to be s s2" using Snapshot_ops_to [of be s] sn x(2) ops_to_trans by (metis snd_conv)
    then show ?thesis using None x by (simp add: end_frame_def frame_spec_def)
  next
    case (Some e)
    from revert_frame [OF s sn x(2)] obtain s3 where "RevertToSnapshot be i s2 = Some s3" "ops_to be s s3" "same_view be s3 s"
      by blast
    then show ?thesis using Some x by (auto simp: end_frame_def frame_spec_def)
  qed
qed

lemma run_precompile_spec: "run_spec p' be gas s (Some (run_precompile p input gas s))"
proof -
  have "run_precompile p input gas s =
      (if gas < pc_RequiredGas p input then ([], Some ErrOutOfGas, 0, s)
       else (fst (pc_Run p input), snd (pc_Run p input), gas - pc_RequiredGas p input, s))"
    by (simp add: run_precompile_def RunPrecompiledContract_def Let_def split: prod.split)
  then show ?thesis by (simp add: run_spec_def word_sub_le not_less)
qed

lemma interp_run_spec:
  assumes "interp_ok be env evm" "in_tx be s"
  shows "run_spec (run_panics be env evm input (ct_Gas c) s) be (ct_Gas c) s (ee_Run env evm c input readOnly s)"
  using interp_okD [OF assms] ops_to_refl [of be s] unfolding run_spec_def run_panics_def by blast

lemma contract_gas [simp]:
  "ct_Gas (NewContract caller a v gas) = gas" "ct_Gas (SetCallCode a h code c) = ct_Gas c"
  by (simp_all add: NewContract_def SetCallCode_def)

lemma run_code_spec:
  assumes "interp_ok be env evm" "in_tx be s" "ct_Gas c = gas"
  shows "run_spec (run_panics be env evm input gas s) be gas s (run_code be env evm a c input readOnly s)"
proof -
  obtain h s1 code s2 where x: "GetCodeHash be a s = (h, s1)" "GetCode be a s1 = (code, s2)"
    by (metis prod.exhaust)
  have o1: "ops_to be s s1" using load_ops_to(1) [OF assms(2), of a] getter_states(3) [of be a s] x(1) by simp
  have i1: "in_tx be s1" using ops_to_in_tx [OF o1 assms(2)] .
  have o2: "ops_to be s1 s2" using frame_steps(5) [OF i1, of a] x(2) by simp
  show ?thesis
    unfolding run_code_def x(1) x(2) Let_def prod.case
    using run_spec_trans [OF ops_to_trans [OF o1 o2]]
      interp_run_spec [OF assms(1) ops_to_in_tx [OF o2 i1], where c = "SetCallCode a h (code_bytes code) c"] assms(3) by (simp add: x)
qed

lemma Snapshot_in_tx: "in_tx be s \<Longrightarrow> state_Snapshot s = (i, s1) \<Longrightarrow> in_tx be s1"
  using ops_to_in_tx [OF Snapshot_ops_to] by (metis snd_conv)

lemma CallCode_spec:
  assumes "interp_ok be env evm" "in_tx be s"
  shows "frame_spec (run_panics be env evm input gas s) be gas s (evm_CallCode be env evm caller a input gas v s)"
proof -
  obtain ok s0 where c: "CanTransfer be (ref_Address caller) v s = (ok, s0)" by fastforce
  have ol: "ops_to be s s0" "same_view be s0 s"
    using load_ops_to [OF assms(2), of "ref_Address caller"] getter_states(5) [of be "ref_Address caller" v s] c by simp_all
  have i0: "in_tx be s0" using ops_to_in_tx [OF ol(1) assms(2)] .
  obtain sn s1 where sn: "state_Snapshot s0 = (sn, s1)" by fastforce
  note i1 = Snapshot_in_tx [OF i0 sn]
  have "frame_spec (run_panics be env evm input gas s0) be gas s0 (end_frame be sn
      (case precompile env evm a of
         Some pc \<Rightarrow> Some (run_precompile pc input gas s1)
       | None \<Rightarrow> run_code be env evm a (NewContract caller (ref_Address caller) (Some v) gas) input False s1))"
    by (rule end_frame_spec [OF i0 sn])
      (auto simp: run_precompile_spec run_code_spec [OF assms(1) i1] split: option.split)
  then show ?thesis
    using frame_spec_load [OF ol] frame_spec_early ol by (simp add: evm_CallCode_def c sn)
qed

lemma DelegateCall_spec:
  assumes "interp_ok be env evm" "in_tx be s"
  shows "frame_spec (run_panics be env evm input gas s) be gas s (evm_DelegateCall be env evm (ContractCaller parent) a input gas s)"
proof -
  obtain sn s1 where sn: "state_Snapshot s = (sn, s1)" by fastforce
  note i1 = Snapshot_in_tx [OF assms(2) sn]
  have "frame_spec (run_panics be env evm input gas s) be gas s (end_frame be sn
      (case precompile env evm a of
         Some pc \<Rightarrow> Some (run_precompile pc input gas s1)
       | None \<Rightarrow>
           (case AsDelegate (ContractCaller parent) (NewContract (ContractCaller parent) (ref_Address (ContractCaller parent)) None gas) of
              None \<Rightarrow> None | Some contract \<Rightarrow> run_code be env evm a contract input False s1)))"
    by (rule end_frame_spec [OF assms(2) sn])
      (auto simp: run_precompile_spec run_code_spec [OF assms(1) i1] split: option.split)
  then show ?thesis
    using frame_spec_early by (simp add: evm_DelegateCall_def sn)
qed

lemma StaticCall_spec:
  assumes "interp_ok be env evm" "in_tx be s"
  shows "frame_spec (run_panics be env evm input gas s) be gas s (evm_StaticCall be env evm caller a input gas s)"
proof -
  obtain sn s1 where sn: "state_Snapshot s = (sn, s1)" by fastforce
  note i1 = Snapshot_in_tx [OF assms(2) sn]
  let ?s2 = "AddBalance be a 0 s1"
  have o2: "ops_to be s1 ?s2" using frame_steps(1) [OF i1] .
  note i2 = ops_to_in_tx [OF o2 i1]
  have "frame_spec (run_panics be env evm input gas s) be gas s (end_frame be sn
      (case precompile env evm a of
         Some pc \<Rightarrow> Some (run_precompile pc input gas ?s2)
       | None \<Rightarrow> run_code be env evm a (NewContract caller a (Some 0) gas) input True ?s2))"
    by (rule end_frame_spec [OF assms(2) sn], rule run_spec_trans [OF o2])
      (auto simp: run_precompile_spec run_code_spec [OF assms(1) i2] split: option.split)
  then show ?thesis
    using frame_spec_early by (simp add: evm_StaticCall_def sn Let_def)
qed

lemma Call_spec:
  assumes "interp_ok be env evm" "in_tx be s"
  shows "frame_spec (run_panics be env evm input gas s) be gas s (evm_Call be env evm caller a input gas v s)"
proof -
  obtain ok s0 where c: "(if v \<noteq> 0 then CanTransfer be (ref_Address caller) v s else (True, s)) = (ok, s0)" by fastforce
  have ol: "ops_to be s s0" "same_view be s0 s"
    using load_ops_to [OF assms(2), of "ref_Address caller"] getter_states(5) [of be "ref_Address caller" v s] c
    by (auto split: if_splits)
  have i0: "in_tx be s0" using ops_to_in_tx [OF ol(1) assms(2)] .
  obtain sn s1 where sn: "state_Snapshot s0 = (sn, s1)" by fastforce
  note i1 = Snapshot_in_tx [OF i0 sn]
  obtain ex s2 where ex: "Exist be a s1 = (ex, s2)" by fastforce
  have o2: "ops_to be s1 s2" using load_ops_to(1) [OF i1, of a] getter_states(4) [of be a s1] ex by simp
  note i2 = ops_to_in_tx [OF o2 i1]
  let ?s3 = "if ex then s2 else CreateAccount be a s2"
  have o3: "ops_to be s2 ?s3" using frame_steps(4) [OF i2, of a] by simp
  note i3 = ops_to_in_tx [OF o3 i2]
  let ?s4 = "Transfer be (ref_Address caller) a v ?s3"
  have o4: "ops_to be ?s3 ?s4" using Transfer_ops_to [OF i3] .
  note i4 = ops_to_in_tx [OF o4 i3]
  obtain code s5 where code: "GetCode be a ?s4 = (code, s5)" by fastforce
  have o5: "ops_to be ?s4 s5" using frame_steps(5) [OF i4, of a] code by simp
  note i5 = ops_to_in_tx [OF o5 i4]
  obtain h s6 where h: "GetCodeHash be a s5 = (h, s6)" by fastforce
  have o6: "ops_to be s5 s6" using load_ops_to(1) [OF i5, of a] getter_states(3) [of be a s5] h by simp
  let ?c = "SetCallCode a h (code_bytes code) (NewContract caller a (Some v) gas)"
  have run: "run_spec (run_panics be env evm input gas s5) be gas s5 (ee_Run env evm ?c input False s6)"
    using run_spec_trans [OF o6] interp_run_spec [OF assms(1) ops_to_in_tx [OF o6 i5], where c = ?c] by simp
  define r where "r = (case precompile env evm a of
      Some pc \<Rightarrow> Some (run_precompile pc input gas ?s4)
    | None \<Rightarrow> if code_bytes code = [] then Some ([], None, gas, s5) else ee_Run env evm ?c input False s6)"
  have "run_spec (run_panics be env evm input gas ?s4) be gas ?s4 r"
    using run_precompile_spec run_spec_trans [OF o5 run] o5 by (auto simp: run_spec_def r_def split: option.split)
  then have frame: "frame_spec (run_panics be env evm input gas s0) be gas s0 (end_frame be sn r)"
    by (intro end_frame_spec [OF i0 sn] run_spec_trans [OF ops_to_trans [OF ops_to_trans [OF o2 o3] o4]])
  have quiet: "frame_spec (run_panics be env evm input gas s0) be gas s0 (Some ([], gas, None, s2))"
    using frame_spec_early(1) ops_to_trans [OF Snapshot_ops_to [of be s0] o2 [folded snd_conv [of sn s1, folded sn]]] by blast
  show ?thesis
    using frame_spec_load [OF ol frame] frame_spec_load [OF ol quiet] frame_spec_early ol
    unfolding evm_Call_def Let_def c prod.case sn ex code h r_def [symmetric] by auto
qed



text \<open>An interpreter that writes slot 1 of the contract and reverts when it has input.\<close>

definition demo_run :: "EVM \<Rightarrow> Contract \<Rightarrow> bytes \<Rightarrow> bool \<Rightarrow> StateDB \<Rightarrow> run_result option" where
  "demo_run evm c input readOnly s =
    Some ([], if input = [] then None else Some ErrExecutionReverted, ct_Gas c, SetState demo_be (ct_self c) 1 4 s)"

definition demo_env :: evm_env where
  "demo_env = \<lparr>ee_Run = demo_run, ee_Homestead = [], ee_Byzantium = [], ee_Istanbul = [], ee_Berlin = []\<rparr>"

definition demo_evm :: EVM where
  "demo_evm = NewEVM \<lparr>bc_GetHash = (\<lambda>_. None), bc_CanCreate = None, bc_ExtraValidator = None, bc_Coinbase = 3,
      bc_GasLimit = 8000000, bc_BlockNumber = 20000000, bc_Time = 9, bc_Difficulty = 2, bc_BaseFee = Some 1\<rparr>
    8 1 MainnetChainConfig False False"

lemma demo_interp_ok: "interp_ok demo_be demo_env evm"
  unfolding interp_ok_def
proof (intro allI impI)
  fix n input readOnly s ret err gas s' and c :: Contract
  assume "in_tx demo_be s"
  then have "ops_to demo_be s (SetState demo_be (ct_self c) 1 4 s)"
    using step_ops_to [of demo_be s "OpSetState (ct_self c) 1 4"] by (simp add: is_step_def)
  moreover assume "ee_Run demo_env (evm\<lparr>evm_depth := n\<rparr>) c input readOnly s = Some (ret, err, gas, s')"
  ultimately show "ops_to demo_be s s' \<and> gas \<le> ct_Gas c"
    by (auto simp: demo_env_def demo_run_def)
qed

lemma demo_no_panic: "\<not> run_panics demo_be demo_env evm input gas s"
  by (simp add: run_panics_def demo_env_def demo_run_def)

lemma demo_in_tx: "in_tx demo_be (state_New None)"
  unfolding in_tx_def using demo_inv state_New_inv(2) [OF demo_be_inj, of None]
  by (auto simp: history_def revs_ok_def load_account_def state_New_def demo_be_def split: if_splits)


subsection \<open>Creation\<close>

text \<open>The developer check reads the state only.\<close>

definition create_reads :: "backend \<Rightarrow> EVM \<Rightarrow> bool" where
  "create_reads be evm \<longleftrightarrow>
    (\<forall>a s. in_tx be s \<longrightarrow> ops_to be s (snd (may_create evm a s)) \<and> same_view be (snd (may_create evm a s)) s)"

definition create_spec ::
  "bool \<Rightarrow> backend \<Rightarrow> EVM \<Rightarrow> address \<Rightarrow> u64 \<Rightarrow> StateDB \<Rightarrow> (bytes \<times> address \<times> u64 \<times> vm_error option \<times> StateDB) option \<Rightarrow> bool" where
  "create_spec panics be evm caller gas s r \<longleftrightarrow>
    (r = None \<longrightarrow> panics) \<and>
    (\<forall>ret addr left err s'. r = Some (ret, addr, left, err, s') \<longrightarrow> ops_to be s s' \<and> left \<le> gas \<and>
      (\<forall>e. err = Some e \<longrightarrow> r_IsHomestead (evm_chainRules evm) \<longrightarrow>
        (\<forall>b. fst (GetBalance be b s') = fst (GetBalance be b s) \<and>
          (fst (GetNonce be b s') = fst (GetNonce be b s) \<or>
           b = caller \<and> fst (GetNonce be b s') = fst (GetNonce be b s) + 1))))"

lemma view_ledger: "same_view be s t \<Longrightarrow> ledger be s a = ledger be t a"
  by (simp add: same_view_def ledger_def)

lemma claim_address_spec:
  assumes "in_tx be s" "claim_address be evm caller nonce a s = (free, s')"
  shows "ops_to be s s'" "ledger be s' b = (if b = caller then (nonce + 1, snd (ledger be s b)) else ledger be s b)"
proof -
  let ?s4 = "SetNonce be caller (nonce + 1) s"
  let ?s5 = "if r_IsBerlin (evm_chainRules evm) then AddAddressToAccessList a ?s4 else ?s4"
  let ?s6 = "snd (getStateObject be a ?s5)"
  have s': "s' = snd (getStateObject be a ?s6)"
    using assms(2) getter_states(2) [of be a ?s6] getter_states(3) [of be a ?s5]
    by (simp add: claim_address_def Let_def case_prod_beta)
  have o4: "ops_to be s ?s4" using frame_steps(3) [OF assms(1)] .
  note i4 = ops_to_in_tx [OF o4 assms(1)]
  have o5: "ops_to be ?s4 ?s5" using frame_steps(7) [OF i4, of a] by simp
  note i5 = ops_to_in_tx [OF o5 i4]
  note o6 = load_ops_to(1) [OF i5, of a]
  note i6 = ops_to_in_tx [OF o6 i5]
  show "ops_to be s s'" unfolding s'
    using ops_to_trans [OF ops_to_trans [OF ops_to_trans [OF o4 o5] o6] load_ops_to(1) [OF i6, of a]] .
  show "ledger be s' b = (if b = caller then (nonce + 1, snd (ledger be s b)) else ledger be s b)"
    unfolding s' load_ledger [OF in_tx_inv(1) [OF i6]] load_ledger [OF in_tx_inv(1) [OF i5]]
    using AddAddress_ledger [OF in_tx_inv(1) [OF i4], of a b] SetNonce_ledger [OF in_tx_inv(1) [OF assms(1)], of caller "nonce + 1" b]
    by (cases "b = caller") simp_all
qed

lemma open_account_ops_to:
  assumes "in_tx be s"
  shows "ops_to be s (open_account be evm caller v a s)"
proof -
  let ?s1 = "CreateAccount be a s"
  let ?s2 = "if r_IsEIP158 (evm_chainRules evm) then SetNonce be a 1 ?s1 else ?s1"
  have o1: "ops_to be s ?s1" using frame_steps(4) [OF assms] .
  note i1 = ops_to_in_tx [OF o1 assms]
  have o2: "ops_to be ?s1 ?s2" using frame_steps(3) [OF i1] by simp
  note i2 = ops_to_in_tx [OF o2 i1]
  show ?thesis unfolding open_account_def Let_def
    using ops_to_trans [OF ops_to_trans [OF o1 o2] Transfer_ops_to [OF i2]] .
qed

lemma store_code_spec:
  assumes "in_tx be s" "store_code be a ret err gas s = (err', gas', s')"
  shows "ops_to be s s'" "gas' \<le> gas"
  using assms frame_steps(6) [OF assms(1), of a "Some ret"]
  by (auto simp: store_code_def Let_def word_sub_le not_less split: if_splits)

lemma end_create_spec:
  assumes s: "in_tx be s" and sn: "state_Snapshot s = (i, s1)" and r: "run_spec (run_panics be env evm input gas s1) be gas s1 r"
  shows "end_create be evm i a r = None \<and> run_panics be env evm input gas s \<or>
    (\<exists>ret left err s'. end_create be evm i a r = Some (ret, a, left, err, s') \<and> ops_to be s s' \<and> left \<le> gas \<and>
      (\<forall>e. err = Some e \<longrightarrow> r_IsHomestead (evm_chainRules evm) \<longrightarrow> same_view be s' s))"
proof (cases r)
  case None
  have "ops_to be s s1" using Snapshot_ops_to [of be s] sn by simp
  then show ?thesis using None r run_panics_trans by (auto simp: run_spec_def end_create_def)
next
  case (Some t)
  then obtain ret err left s2 where x: "r = Some (ret, err, left, s2)" "ops_to be s1 s2" "left \<le> gas"
    using r by (cases t) (auto simp: run_spec_def)
  have i1: "in_tx be s1" using Snapshot_in_tx [OF s sn] .
  obtain err' left' s3 where c: "store_code be a ret (check_code evm ret err) left s2 = (err', left', s3)"
    by (metis prod.exhaust)
  note st = store_code_spec [OF ops_to_in_tx [OF x(2) i1] c]
  have o3: "ops_to be s1 s3" using ops_to_trans [OF x(2) st(1)] .
  have os: "ops_to be s s3" using ops_to_trans [OF Snapshot_ops_to [of be s] o3 [folded snd_conv [of i s1, folded sn]]] .
  have l: "left' \<le> gas" using st(2) x(3) by (rule order_trans)
  from revert_frame [OF s sn o3] obtain s4 where "RevertToSnapshot be i s3 = Some s4" "ops_to be s s4" "same_view be s4 s" by blast
  then show ?thesis using os l by (cases err') (auto simp: end_create_def x(1) c)
qed

lemma create_spec_ok:
  assumes ok: "interp_ok be env evm" and s: "in_tx be s" and cr: "create_reads be evm"
  shows "create_spec (run_panics be env evm [] gas s) be evm (ref_Address caller) gas s (evm_create be env evm caller code h gas v a s)"
proof -
  let ?c = "ref_Address caller"
  obtain allowed s1 where m: "may_create evm ?c s = (allowed, s1)" by fastforce
  have o1: "ops_to be s s1" "same_view be s1 s" using cr s m unfolding create_reads_def by (metis snd_conv)+
  note i1 = ops_to_in_tx [OF o1(1) s]
  obtain can s2 where t: "CanTransfer be ?c v s1 = (can, s2)" by fastforce
  have o2: "ops_to be s1 s2" "same_view be s2 s1"
    using load_ops_to [OF i1, of ?c] getter_states(5) [of be ?c v s1] t by simp_all
  note i2 = ops_to_in_tx [OF o2(1) i1]
  obtain nonce s3 where n: "GetNonce be ?c s2 = (nonce, s3)" by fastforce
  have o3: "ops_to be s2 s3" "same_view be s3 s2"
    using load_ops_to [OF i2, of ?c] getter_states(2) [of be ?c s2] n by simp_all
  note i3 = ops_to_in_tx [OF o3(1) i2]
  have os: "ops_to be s s2" "ops_to be s s3" "same_view be s2 s" "same_view be s3 s"
    using ops_to_trans [OF o1(1) o2(1)] ops_to_trans [OF _ o3(1)] same_view_trans [OF o2(2) o1(2)]
      same_view_trans [OF o3(2)] by blast+
  have nn: "nonce = fst (GetNonce be ?c s)" using n os(3) by (metis fst_conv same_view_def)
  obtain free s7 where cl: "claim_address be evm ?c nonce a s3 = (free, s7)" by fastforce
  note c = claim_address_spec [OF i3 cl]
  note i7 = ops_to_in_tx [OF c(1) i3]
  have o7: "ops_to be s s7" using ops_to_trans [OF os(2) c(1)] .
  have led: "fst (GetBalance be b s7) = fst (GetBalance be b s) \<and>
      (fst (GetNonce be b s7) = fst (GetNonce be b s) \<or> b = ?c \<and> fst (GetNonce be b s7) = fst (GetNonce be b s) + 1)" for b
    using c(2) [of b] view_ledger [OF os(4), of b] nn by (auto simp: ledger_def split: if_splits)
  obtain sn s8 where sn: "state_Snapshot s7 = (sn, s8)" by fastforce
  note i8 = Snapshot_in_tx [OF i7 sn]
  let ?s9 = "open_account be evm ?c v a s8"
  have o9: "ops_to be s8 ?s9" using open_account_ops_to [OF i8] .
  have o79: "ops_to be s ?s9"
    using ops_to_trans [OF o7 ops_to_trans [OF Snapshot_ops_to [of be s7] o9 [folded snd_conv [of sn s8, folded sn]]]] sn by simp
  let ?k = "(NewContract caller a (Some v) gas)\<lparr>ct_Code := code, ct_CodeHash := h, ct_CodeAddr := Some a\<rparr>"
  have run: "run_spec (run_panics be env evm [] gas s8) be gas s8 (ee_Run env evm ?k [] False ?s9)"
    using run_spec_trans [OF o9] interp_run_spec [OF ok ops_to_in_tx [OF o9 i8], where c = ?k] by simp
  let ?p = "run_panics be env evm [] gas s" and ?r = "end_create be evm sn a (ee_Run env evm ?k [] False ?s9)"
  have fin: "create_spec ?p be evm ?c gas s ?r"
  proof (cases ?r)
    case None
    then show ?thesis using end_create_spec [OF i7 sn run, of a] run_panics_trans [OF o7] by (simp add: create_spec_def)
  next
    case (Some x)
    then obtain ret left err s' where x: "?r = Some (ret, a, left, err, s')" "ops_to be s7 s'" "left \<le> gas"
      "\<forall>e. err = Some e \<longrightarrow> r_IsHomestead (evm_chainRules evm) \<longrightarrow> same_view be s' s7"
      using end_create_spec [OF i7 sn run, of a] by auto
    then have "\<forall>e. err = Some e \<longrightarrow> r_IsHomestead (evm_chainRules evm) \<longrightarrow> (\<forall>b. fst (GetBalance be b s') = fst (GetBalance be b s) \<and>
        (fst (GetNonce be b s') = fst (GetNonce be b s) \<or> b = ?c \<and> fst (GetNonce be b s') = fst (GetNonce be b s) + 1))"
      using led by (simp add: same_view_def)
    then show ?thesis using x(3) ops_to_trans [OF o7 x(2)] unfolding x(1) create_spec_def by blast
  qed
  have early: "create_spec ?p be evm ?c gas s (Some ([], 0, gas, Some x, t))" if "ops_to be s t" "same_view be t s" for x t
    using that by (simp add: create_spec_def same_view_def)
  have coll: "create_spec ?p be evm ?c gas s (Some ([], 0, 0, Some ErrContractAddressCollision, s7))"
    using o7 led by (simp add: create_spec_def)
  have norec: "create_spec ?p be evm ?c gas s (Some ([], a, gas, None, ?s9))" using o79 by (simp add: create_spec_def)
  show ?thesis
    unfolding evm_create_def m t n cl sn prod.case Let_def
    using fin early [of s] early [OF o1] early [OF os(1,3)] early [OF os(2,4)] coll norec by simp
qed

lemma Create_spec:
  assumes "interp_ok be env evm" "in_tx be s" "create_reads be evm"
  shows "create_spec (run_panics be env evm [] gas s) be evm (ref_Address caller) gas s (evm_Create be env evm caller code gas v s)"
proof -
  obtain n s1 where n: "GetNonce be (ref_Address caller) s = (n, s1)" by fastforce
  have o1: "ops_to be s s1" "same_view be s1 s"
    using load_ops_to [OF assms(2), of "ref_Address caller"] getter_states(2) [of be "ref_Address caller" s] n by simp_all
  have r: "evm_Create be env evm caller code gas v s =
      evm_create be env evm caller code 0 gas v (CreateAddress be (ref_Address caller) n) s1" by (simp add: evm_Create_def n)
  have "fst (GetBalance be b s1) = fst (GetBalance be b s) \<and> fst (GetNonce be b s1) = fst (GetNonce be b s)" for b
    using o1(2) by (simp add: same_view_def)
  then show ?thesis
    using create_spec_ok [OF assms(1) ops_to_in_tx [OF o1(1) assms(2)] assms(3), where caller = caller and gas = gas and code = code and h = 0 and v = v and a = "CreateAddress be (ref_Address caller) n"]
      run_panics_trans [OF o1(1)] ops_to_trans [OF o1(1)] unfolding r create_spec_def by simp
qed

text \<open>C35. \<^verbatim>\<open>Create\<close> and \<^verbatim>\<open>Create2\<close> return unless the interpreter panics in the constructor, never with more gas than
  given; when they fail (after Homestead) no balance has changed and no nonce but the creator's, which has grown by
  at most one.  They are sequences of state operations as the calls are.\<close>

theorem create_frames:
  assumes "interp_ok be env evm" "in_tx be s" "create_reads be evm"
    and "r \<in> {evm_Create be env evm caller code gas v s, evm_Create2 be env evm caller code gas v salt s}"
  shows "(r = None \<longrightarrow> run_panics be env evm [] gas s) \<and>
    (\<forall>ret addr left err s'. r = Some (ret, addr, left, err, s') \<longrightarrow> ops_to be s s' \<and> left \<le> gas \<and>
      (\<forall>e. err = Some e \<longrightarrow> r_IsHomestead (evm_chainRules evm) \<longrightarrow>
        (\<forall>b. fst (GetBalance be b s') = fst (GetBalance be b s) \<and>
          (fst (GetNonce be b s') = fst (GetNonce be b s) \<or>
           b = ref_Address caller \<and> fst (GetNonce be b s') = fst (GetNonce be b s) + 1))))"
  using assms(4) Create_spec [OF assms(1-3)] create_spec_ok [OF assms(1-3)]
  unfolding create_spec_def [symmetric] by (auto simp: evm_Create2_def Let_def)

theorem create_frames_witness:
  "\<exists>ret addr left err s'. evm_Create demo_be demo_env demo_evm (AccountRef 7) [1] 100 0 (state_New None) =
      Some (ret, addr, left, err, s') \<and> left \<le> 100"
proof -
  have "create_reads demo_be demo_evm" by (simp add: create_reads_def may_create_def demo_evm_def NewEVM_def)
  from create_frames [OF demo_interp_ok demo_in_tx this, of "evm_Create demo_be demo_env demo_evm (AccountRef 7) [1] 100 0 (state_New None)"
      "AccountRef 7" "[1]" 100 0] demo_no_panic show ?thesis
    by (cases "evm_Create demo_be demo_env demo_evm (AccountRef 7) [1] 100 0 (state_New None)") auto
qed

end
