(* ===== verification/State_Transition.thy ===== *)
theory State_Transition
  imports Evm_Frames
begin

text \<open>
  Execution of one message: \<^verbatim>\<open>core/state_transition.go\<close>, the gas pool \<^verbatim>\<open>core/gaspool.go\<close> and the meta
  transactions of \<^verbatim>\<open>core/types/meta_transaction.go\<close>, whose fee is shared between the sender and an account that
  signed for it.

  The RLP decoder of the meta data and the signature recovery are the fields of \<open>meta_env\<close>.  A message always has a
  fee cap and a tip cap.  The result of an operation comes with the transition as the operation left it, errors
  included.
\<close>

subsection \<open>Gas pool\<close>

datatype st_error =
  ErrNonceTooLow | ErrNonceTooHigh | ErrNonceMax | ErrSenderNoEOA | ErrFeeCapVeryHigh | ErrTipVeryHigh
| ErrTipAboveFeeCap | ErrFeeCapTooLow | ErrInsufficientFunds | ErrGasLimitReached | ErrIntrinsicGas u64 u64
| ErrInsufficientFundsForTransfer | core_ErrUnauthorizedDeveloper | core_ErrGasUintOverflow
| ErrInvalidMetaDataLen | ErrInvalidMetaSig | MetaError string | StPanic

definition gp_AddGas :: "u64 \<Rightarrow> u64 \<Rightarrow> u64 option" where
  "gp_AddGas amount gp = (if gp > MaxUint64 - amount then None else Some (gp + amount))"

definition gp_SubGas :: "u64 \<Rightarrow> u64 \<Rightarrow> (st_error, u64) result" where
  "gp_SubGas amount gp = (if gp < amount then Inl ErrGasLimitReached else Inr (gp - amount))"

subsection \<open>Intrinsic gas\<close>

definition TxGas :: u64 where "TxGas = 21000"
definition TxGasContractCreation :: u64 where "TxGasContractCreation = 53000"
definition TxDataZeroGas :: u64 where "TxDataZeroGas = 4"
definition TxDataNonZeroGasFrontier :: u64 where "TxDataNonZeroGasFrontier = 68"
definition TxDataNonZeroGasEIP2028 :: u64 where "TxDataNonZeroGasEIP2028 = 16"
definition TxAccessListAddressGas :: u64 where "TxAccessListAddressGas = 2400"
definition TxAccessListStorageKeyGas :: u64 where "TxAccessListStorageKeyGas = 1900"
definition RefundQuotient :: u64 where "RefundQuotient = 2"
definition RefundQuotientEIP3529 :: u64 where "RefundQuotientEIP3529 = 5"

lemmas gas_consts = TxGas_def TxGasContractCreation_def TxDataZeroGas_def TxDataNonZeroGasFrontier_def
  TxDataNonZeroGasEIP2028_def TxAccessListAddressGas_def TxAccessListStorageKeyGas_def

definition StorageKeys :: "(address \<times> hash list) list \<Rightarrow> nat" where
  "StorageKeys al = sum_list (map (\<lambda>t. length (snd t)) al)"

definition add_data_gas :: "bytes \<Rightarrow> bool \<Rightarrow> u64 \<Rightarrow> (st_error, u64) result" where
  "add_data_gas data isEIP2028 gas =
    (if data = [] then Inr gas
     else
       (let nz = of_nat (length (filter (\<lambda>b. b \<noteq> 0) data));
            nonZeroGas = (if isEIP2028 then TxDataNonZeroGasEIP2028 else TxDataNonZeroGasFrontier)
        in if (MaxUint64 - gas) div nonZeroGas < nz then Inl core_ErrGasUintOverflow
           else
             (let gas1 = gas + nz * nonZeroGas; z = of_nat (length data) - nz
              in if (MaxUint64 - gas1) div TxDataZeroGas < z then Inl core_ErrGasUintOverflow
                 else Inr (gas1 + z * TxDataZeroGas))))"

definition IntrinsicGas ::
  "bytes \<Rightarrow> (address \<times> hash list) list \<Rightarrow> bool \<Rightarrow> bool \<Rightarrow> bool \<Rightarrow> (st_error, u64) result" where
  "IntrinsicGas data accessList isContractCreation isHomestead isEIP2028 =
    (case add_data_gas data isEIP2028 (if isContractCreation \<and> isHomestead then TxGasContractCreation else TxGas) of
       Inl e \<Rightarrow> Inl e
     | Inr gas \<Rightarrow> Inr (gas + of_nat (length accessList) * TxAccessListAddressGas
                       + of_nat (StorageKeys accessList) * TxAccessListStorageKeyGas))"

subsection \<open>Meta transactions\<close>

record MetaData =
  md_BlockNumLimit :: u64
  md_FeePercent :: u64
  md_V :: int
  md_R :: int
  md_S :: int
  md_Payload :: bytes

definition MetaPrefix :: bytes where
  "MetaPrefix = [0x23, 0x4d, 0x65, 0x74, 0x61, 0x54, 0x72, 0x61, 0x6e, 0x73, 0x61, 0x63, 0x74, 0x69, 0x6f, 0x6e, 0x23]"

definition MetaPrefixBytesLen :: nat where "MetaPrefixBytesLen = 17"
definition BIG10000 :: int where "BIG10000 = 10000"

record meta_env =
  me_decode :: "bytes \<Rightarrow> (string, MetaData) result"
  me_recover :: "hash \<Rightarrow> int \<Rightarrow> int \<Rightarrow> int \<Rightarrow> address option"

definition IsMetaTransaction :: "bytes \<Rightarrow> bool" where
  "IsMetaTransaction data \<longleftrightarrow> length data \<ge> MetaPrefixBytesLen \<and> take MetaPrefixBytesLen data = MetaPrefix"

definition DecodeMetaData :: "meta_env \<Rightarrow> bytes \<Rightarrow> int \<Rightarrow> (st_error, MetaData) result" where
  "DecodeMetaData me encodedData blockNumber =
    (if length encodedData \<le> MetaPrefixBytesLen then Inl ErrInvalidMetaDataLen
     else
       (case me_decode me (drop MetaPrefixBytesLen encodedData) of
          Inl e \<Rightarrow> Inl (MetaError e)
        | Inr metaData \<Rightarrow>
            if md_FeePercent metaData > big_Uint64 BIG10000 then Inl (MetaError ''invalid meta transaction FeePercent'')
            else if md_BlockNumLimit metaData < big_Uint64 blockNumber then Inl (MetaError ''expired meta transaction'')
            else Inr metaData))"

text \<open>\<^verbatim>\<open>rlpHash\<close> ignores an encoding error and then hashes nothing; a nil chain id panics.\<close>

definition meta_hash ::
  "backend \<Rightarrow> MetaData \<Rightarrow> u64 \<Rightarrow> int \<Rightarrow> u64 \<Rightarrow> address option \<Rightarrow> int \<Rightarrow> bytes \<Rightarrow> address \<Rightarrow> int \<Rightarrow> hash" where
  "meta_hash be metadata nonce gasPrice gas to amount payload from chainID =
    (case EncodeToBytes (VSlice
       [VUint nonce, VBig (Some gasPrice), VUint gas,
        (case to of None \<Rightarrow> VNilPtr False | Some a \<Rightarrow> VByteArray (address_bytes a)),
        VBig (Some amount), VBytes payload, VByteArray (address_bytes from),
        VUint (md_FeePercent metadata), VUint (md_BlockNumLimit metadata), VBig (Some chainID)]) of
       Inl e \<Rightarrow> be_keccak be []
     | Inr bs \<Rightarrow> be_keccak be bs)"

definition ParseMetaData ::
  "backend \<Rightarrow> meta_env \<Rightarrow> MetaData \<Rightarrow> u64 \<Rightarrow> int \<Rightarrow> u64 \<Rightarrow> address option \<Rightarrow> int \<Rightarrow> bytes \<Rightarrow> address \<Rightarrow> bigint \<Rightarrow>
   (st_error, address) result" where
  "ParseMetaData be me metadata nonce gasPrice gas to amount payload from chainID =
    (case chainID of
       None \<Rightarrow> Inl StPanic
     | Some chid \<Rightarrow>
         (case me_recover me (meta_hash be metadata nonce gasPrice gas to amount payload from chid)
                 (md_R metadata) (md_S metadata) (md_V metadata - chid * 2 - 8) of
            None \<Rightarrow> Inl ErrInvalidMetaSig
          | Some a \<Rightarrow> Inr a))"

subsection \<open>The state transition\<close>

record StateTransition =
  st_gp :: u64
  st_msg :: Message
  st_gas :: u64
  st_gasPrice :: int
  st_gasFeeCap :: int
  st_gasTipCap :: int
  st_initialGas :: u64
  st_value :: int
  st_data :: bytes
  st_state :: StateDB
  st_isMeta :: bool
  st_feeAddress :: address
  st_feePercent :: u64
  st_realPayload :: bytes

definition NewStateTransition :: "StateDB \<Rightarrow> Message \<Rightarrow> u64 \<Rightarrow> StateTransition" where
  "NewStateTransition s msg gp =
    \<lparr>st_gp = gp, st_msg = msg, st_gas = 0, st_gasPrice = msg_gasPrice msg, st_gasFeeCap = msg_gasFeeCap msg,
     st_gasTipCap = msg_gasTipCap msg, st_initialGas = 0, st_value = msg_amount msg, st_data = msg_data msg,
     st_state = s, st_isMeta = False, st_feeAddress = 0, st_feePercent = 0, st_realPayload = []\<rparr>"

definition st_to :: "StateTransition \<Rightarrow> address" where
  "st_to st = (case msg_to (st_msg st) of None \<Rightarrow> 0 | Some a \<Rightarrow> a)"

definition gasUsed :: "StateTransition \<Rightarrow> u64" where
  "gasUsed st = st_initialGas st - st_gas st"

definition buyGas :: "backend \<Rightarrow> StateTransition \<Rightarrow> (st_error, unit) result \<times> StateTransition" where
  "buyGas be st =
    (let gas = msg_gasLimit (st_msg st); from = msg_from (st_msg st);
         mgval = uint gas * st_gasPrice st; balanceCheck = uint gas * st_gasFeeCap st + st_value st;
         (have', s1) = GetBalance be from (st_state st)
     in if have' < balanceCheck then (Inl ErrInsufficientFunds, st\<lparr>st_state := s1\<rparr>)
        else
          (case gp_SubGas gas (st_gp st) of
             Inl e \<Rightarrow> (Inl e, st\<lparr>st_state := s1\<rparr>)
           | Inr gp \<Rightarrow>
               (Inr (), st\<lparr>st_gp := gp, st_gas := st_gas st + gas, st_initialGas := gas,
                  st_state := SubBalance be from mgval s1\<rparr>)))"

text \<open>The share of the fee address and the share of the sender.\<close>

definition fee_share :: "u64 \<Rightarrow> int \<Rightarrow> int" where
  "fee_share feePercent amount = amount * uint feePercent div BIG10000"

definition self_share :: "u64 \<Rightarrow> int \<Rightarrow> int" where
  "self_share feePercent amount = amount * uint (big_Uint64 BIG10000 - feePercent) div BIG10000"

definition buyGasMeta :: "backend \<Rightarrow> StateTransition \<Rightarrow> (st_error, unit) result \<times> StateTransition" where
  "buyGasMeta be st =
    (let gas = msg_gasLimit (st_msg st); from = msg_from (st_msg st); mgval = uint gas * st_gasPrice st;
         mgFeeAddrVal = fee_share (st_feePercent st) mgval; mgSelfVal = self_share (st_feePercent st) mgval;
         (feeBal, s1) = GetBalance be (st_feeAddress st) (st_state st)
     in if feeBal < mgFeeAddrVal then (Inl ErrInsufficientFunds, st\<lparr>st_state := s1\<rparr>)
        else
          (let (selfBal, s2) = GetBalance be from s1
           in if selfBal < mgSelfVal then (Inl ErrInsufficientFunds, st\<lparr>st_state := s2\<rparr>)
              else
                (case gp_SubGas gas (st_gp st) of
                   Inl e \<Rightarrow> (Inl e, st\<lparr>st_state := s2\<rparr>)
                 | Inr gp \<Rightarrow>
                     (Inr (), st\<lparr>st_gp := gp, st_gas := st_gas st + gas, st_initialGas := gas,
                        st_state := SubBalance be from mgSelfVal (SubBalance be (st_feeAddress st) mgFeeAddrVal s2)\<rparr>))))"

definition metaTransactionCheck ::
  "backend \<Rightarrow> meta_env \<Rightarrow> EVM \<Rightarrow> StateTransition \<Rightarrow> (st_error, unit) result \<times> StateTransition" where
  "metaTransactionCheck be me evm st =
    (if IsMetaTransaction (st_data st) then
       (case DecodeMetaData me (st_data st) (bc_BlockNumber (evm_Context evm)) of
          Inl e \<Rightarrow> (Inl e, st)
        | Inr metaData \<Rightarrow>
            (let msg = st_msg st
             in case ParseMetaData be me metaData (msg_nonce msg) (msg_gasPrice msg) (msg_gasLimit msg) (msg_to msg)
                       (msg_amount msg) (md_Payload metaData) (msg_from msg) (ChainID (evm_chainConfig evm)) of
                  Inl e \<Rightarrow> (Inl e, st)
                | Inr a \<Rightarrow>
                    (Inr (), st\<lparr>st_isMeta := True, st_feeAddress := a, st_realPayload := st_data st,
                       st_data := md_Payload metaData, st_feePercent := md_FeePercent metaData\<rparr>)))
     else (Inr (), st))"

definition check_sender :: "backend \<Rightarrow> StateTransition \<Rightarrow> (st_error, unit) result \<times> StateTransition" where
  "check_sender be st =
    (let msg = st_msg st; (stNonce, s1) = GetNonce be (msg_from msg) (st_state st)
     in if stNonce < msg_nonce msg then (Inl ErrNonceTooHigh, st\<lparr>st_state := s1\<rparr>)
        else if stNonce > msg_nonce msg then (Inl ErrNonceTooLow, st\<lparr>st_state := s1\<rparr>)
        else if stNonce + 1 < stNonce then (Inl ErrNonceMax, st\<lparr>st_state := s1\<rparr>)
        else
          (let (codeHash, s2) = GetCodeHash be (msg_from msg) s1
           in (if codeHash \<noteq> be_keccak be [] \<and> codeHash \<noteq> 0 then Inl ErrSenderNoEOA else Inr (),
               st\<lparr>st_state := s2\<rparr>)))"

text \<open>The fee rules after London; a missing base fee panics.\<close>

definition check_fees :: "EVM \<Rightarrow> StateTransition \<Rightarrow> (st_error, unit) result" where
  "check_fees evm st =
    (if IsLondon (evm_chainConfig evm) (Some (bc_BlockNumber (evm_Context evm))) \<and>
        (\<not> evm_NoBaseFee evm \<or> big_BitLen (st_gasFeeCap st) > 0 \<or> big_BitLen (st_gasTipCap st) > 0) then
       if big_BitLen (st_gasFeeCap st) > 256 then Inl ErrFeeCapVeryHigh
       else if big_BitLen (st_gasTipCap st) > 256 then Inl ErrTipVeryHigh
       else if st_gasFeeCap st < st_gasTipCap st then Inl ErrTipAboveFeeCap
       else (case bc_BaseFee (evm_Context evm) of
               None \<Rightarrow> Inl StPanic
             | Some baseFee \<Rightarrow> if st_gasFeeCap st < baseFee then Inl ErrFeeCapTooLow else Inr ())
     else Inr ())"

definition preCheck ::
  "backend \<Rightarrow> meta_env \<Rightarrow> EVM \<Rightarrow> StateTransition \<Rightarrow> (st_error, unit) result \<times> StateTransition" where
  "preCheck be me evm st =
    (case (if msg_isFake (st_msg st) then (Inr (), st) else check_sender be st) of
       (Inl e, st1) \<Rightarrow> (Inl e, st1)
     | (Inr _, st1) \<Rightarrow>
         (case check_fees evm st1 of
            Inl e \<Rightarrow> (Inl e, st1)
          | Inr _ \<Rightarrow>
              (case metaTransactionCheck be me evm st1 of
                 (Inl e, st2) \<Rightarrow> (Inl e, st2)
               | (Inr _, st2) \<Rightarrow> if st_isMeta st2 then buyGasMeta be st2 else buyGas be st2)))"

definition FeeRecoder :: address where "FeeRecoder = - 1"

definition refundGas :: "backend \<Rightarrow> u64 \<Rightarrow> StateTransition \<Rightarrow> StateTransition option" where
  "refundGas be refundQuotient st =
    (let refund0 = gasUsed st div refundQuotient;
         refund = (if refund0 > sdb_refund (st_state st) then sdb_refund (st_state st) else refund0);
         gas = st_gas st + refund; remaining = uint gas * st_gasPrice st; from = msg_from (st_msg st);
         s1 = (if st_isMeta st then
                 AddBalance be from (self_share (st_feePercent st) remaining)
                   (AddBalance be (st_feeAddress st) (fee_share (st_feePercent st) remaining) (st_state st))
               else AddBalance be from remaining (st_state st))
     in case gp_AddGas gas (st_gp st) of
          None \<Rightarrow> None
        | Some gp \<Rightarrow> Some (st\<lparr>st_gas := gas, st_state := s1, st_gp := gp\<rparr>))"

record ExecutionResult =
  er_UsedGas :: u64
  er_Err :: "vm_error option"
  er_ReturnData :: bytes

definition effectiveTip :: "EVM \<Rightarrow> StateTransition \<Rightarrow> int option" where
  "effectiveTip evm st =
    (if IsLondon (evm_chainConfig evm) (Some (bc_BlockNumber (evm_Context evm))) then
       (case bc_BaseFee (evm_Context evm) of
          None \<Rightarrow> None
        | Some baseFee \<Rightarrow> Some (min (st_gasTipCap st) (st_gasFeeCap st - baseFee)))
     else Some (st_gasPrice st))"

text \<open>The call or creation at the top, after the checks.\<close>

definition run_message :: "backend \<Rightarrow> evm_env \<Rightarrow> EVM \<Rightarrow> StateTransition \<Rightarrow> call_result option" where
  "run_message be env evm st =
    (let from = msg_from (st_msg st)
     in case msg_to (st_msg st) of
          None \<Rightarrow>
            (case evm_Create be env evm (AccountRef from) (st_data st) (st_gas st) (st_value st) (st_state st) of
               None \<Rightarrow> None
             | Some (ret, contractAddr, gas, vmerr, s') \<Rightarrow> Some (ret, gas, vmerr, s'))
        | Some to \<Rightarrow>
            (let (nonce, s1) = GetNonce be from (st_state st); s2 = SetNonce be from (nonce + 1) s1
             in evm_Call be env evm (AccountRef from) (st_to st) (st_data st) (st_gas st) (st_value st) s2))"

text \<open>The refund, the tip and the result.\<close>

definition settle ::
  "backend \<Rightarrow> EVM \<Rightarrow> bytes \<Rightarrow> vm_error option \<Rightarrow> StateTransition \<Rightarrow> (st_error, ExecutionResult) result \<times> StateTransition" where
  "settle be evm ret vmerr st =
    (let london = IsLondon (evm_chainConfig evm) (Some (bc_BlockNumber (evm_Context evm)))
     in case refundGas be (if london then RefundQuotientEIP3529 else RefundQuotient) st of
          None \<Rightarrow> (Inl StPanic, st)
        | Some st1 \<Rightarrow>
            (case effectiveTip evm st1 of
               None \<Rightarrow> (Inl StPanic, st1)
             | Some tipPrice \<Rightarrow>
                 (let tip = uint (gasUsed st1) * tipPrice;
                      payee = (if Congress (evm_chainConfig evm) \<noteq> None then FeeRecoder else bc_Coinbase (evm_Context evm));
                      st2 = st1\<lparr>st_state := AddBalance be payee tip (st_state st1)\<rparr>
                  in (Inr \<lparr>er_UsedGas = gasUsed st2, er_Err = vmerr, er_ReturnData = ret\<rparr>, st2))))"

definition TransitionDb ::
  "backend \<Rightarrow> meta_env \<Rightarrow> evm_env \<Rightarrow> EVM \<Rightarrow> StateTransition \<Rightarrow> (st_error, ExecutionResult) result \<times> StateTransition" where
  "TransitionDb be me env evm st0 =
    (case preCheck be me evm st0 of
       (Inl e, st) \<Rightarrow> (Inl e, st)
     | (Inr _, st) \<Rightarrow>
         (let msg = st_msg st; num = Some (bc_BlockNumber (evm_Context evm)); config = evm_chainConfig evm;
              contractCreation = (msg_to msg = None);
              gasCalcData = (if st_isMeta st then st_realPayload st else st_data st)
          in case IntrinsicGas gasCalcData (msg_accessList msg) contractCreation (IsHomestead config num) (IsIstanbul config num) of
               Inl e \<Rightarrow> (Inl e, st)
             | Inr gas \<Rightarrow>
                 if st_gas st < gas then (Inl (ErrIntrinsicGas (st_gas st) gas), st)
                 else
                   (let st1 = st\<lparr>st_gas := st_gas st - gas\<rparr>;
                        (can, s1) = (if msg_amount msg > 0 then CanTransfer be (msg_from msg) (msg_amount msg) (st_state st1)
                                     else (True, st_state st1));
                        st2 = st1\<lparr>st_state := s1\<rparr>
                    in if \<not> can then (Inl ErrInsufficientFundsForTransfer, st2)
                       else
                         (let rules = config_Rules config num
                          in case (if r_IsBerlin rules
                                   then PrepareAccessList (msg_from msg) (msg_to msg) (ActivePrecompiles env rules) (msg_accessList msg) s1
                                   else Some s1) of
                               None \<Rightarrow> (Inl StPanic, st2)
                             | Some s2 \<Rightarrow>
                                 (let (allowed, s3) = (if contractCreation then may_create evm (msg_from msg) s2 else (True, s2));
                                      st3 = st2\<lparr>st_state := s3\<rparr>
                                  in if \<not> allowed then (Inl core_ErrUnauthorizedDeveloper, st3)
                                     else
                                       (case run_message be env evm st3 of
                                          None \<Rightarrow> (Inl StPanic, st3)
                                        | Some (ret, gasLeft, vmerr, s4) \<Rightarrow>
                                            settle be evm ret vmerr (st3\<lparr>st_gas := gasLeft, st_state := s4\<rparr>)))))))"

definition ApplyMessage ::
  "backend \<Rightarrow> meta_env \<Rightarrow> evm_env \<Rightarrow> EVM \<Rightarrow> Message \<Rightarrow> u64 \<Rightarrow> StateDB \<Rightarrow> (st_error, ExecutionResult) result \<times> StateTransition" where
  "ApplyMessage be me env evm msg gp s = TransitionDb be me env evm (NewStateTransition s msg gp)"


section \<open>Properties\<close>

subsection \<open>Access list\<close>

lemma AddSlot_ops_to:
  assumes "in_tx be s" "AddSlotToAccessList a k s = Some s'"
  shows "ops_to be s s'"
  using step_ops_to [OF assms(1), of "OpAddSlot a k"] assms(2) by (simp add: is_step_def)

text \<open>Relations between states that every access list operation keeps.\<close>

definition quiet_to :: "backend \<Rightarrow> StateDB \<Rightarrow> StateDB \<Rightarrow> bool" where
  "quiet_to be s s' \<longleftrightarrow> ops_to be s s' \<and> (\<forall>b. ledger be s' b = ledger be s b)"

lemma quiet_refl [simp]: "quiet_to be s s"
  by (simp add: quiet_to_def)

lemma quiet_trans: "quiet_to be s t \<Longrightarrow> quiet_to be t u \<Longrightarrow> quiet_to be s u"
  unfolding quiet_to_def using ops_to_trans by metis

lemma quiet_in_tx: "quiet_to be s t \<Longrightarrow> in_tx be s \<Longrightarrow> in_tx be t"
  using ops_to_in_tx by (auto simp: quiet_to_def)

lemma quiet_view: "ops_to be s t \<Longrightarrow> same_view be t s \<Longrightarrow> quiet_to be s t"
  using view_ledger by (auto simp: quiet_to_def)

lemma quiet_load:
  assumes "in_tx be s"
  shows "quiet_to be s (snd (GetBalance be a s))" "quiet_to be s (snd (GetNonce be a s))"
    "quiet_to be s (snd (GetCodeHash be a s))" "quiet_to be s (snd (CanTransfer be a x s))"
  unfolding getter_states using quiet_view load_ops_to [OF assms] by simp_all

lemma AddAddress_quiet: "in_tx be s \<Longrightarrow> quiet_to be s (AddAddressToAccessList a s)"
  using frame_steps(7) AddAddress_ledger in_tx_inv(1) by (simp add: quiet_to_def)

lemma AddSlot_quiet: "in_tx be s \<Longrightarrow> AddSlotToAccessList a k s = Some s' \<Longrightarrow> quiet_to be s s'"
  using AddSlot_ops_to AddSlot_ledger in_tx_inv(1) by (simp add: quiet_to_def)

lemma add_slots_quiet: "in_tx be s \<Longrightarrow> add_slots a ks s = Some s' \<Longrightarrow> quiet_to be s s'"
proof (induction ks arbitrary: s)
  case (Cons k ks)
  then obtain t where t: "AddSlotToAccessList a k s = Some t" "add_slots a ks t = Some s'" by (auto split: option.splits)
  note q = AddSlot_quiet [OF Cons.prems(1) t(1)]
  show ?case using quiet_trans [OF q Cons.IH [OF quiet_in_tx [OF q Cons.prems(1)] t(2)]] .
qed simp

lemma add_tuples_quiet: "in_tx be s \<Longrightarrow> add_tuples els s = Some s' \<Longrightarrow> quiet_to be s s'"
proof (induction els arbitrary: s)
  case (Cons e els)
  obtain a ks where e: "e = (a, ks)" by (cases e)
  obtain t where t: "add_slots a ks (AddAddressToAccessList a s) = Some t" "add_tuples els t = Some s'"
    using Cons.prems(2) e by (auto split: option.splits)
  note q1 = AddAddress_quiet [OF Cons.prems(1), of a]
  note i1 = quiet_in_tx [OF q1 Cons.prems(1)]
  note q2 = add_slots_quiet [OF i1 t(1)]
  show ?case using quiet_trans [OF quiet_trans [OF q1 q2] Cons.IH [OF quiet_in_tx [OF q2 i1] t(2)]] .
qed simp

lemma fold_quiet: "in_tx be s \<Longrightarrow> quiet_to be s (fold AddAddressToAccessList as s)"
proof (induction "as" arbitrary: s)
  case (Cons a "as")
  note q = AddAddress_quiet [OF Cons.prems, of a]
  show ?case using quiet_trans [OF q Cons.IH [OF quiet_in_tx [OF q Cons.prems]]] by simp
qed simp

lemma PrepareAccessList_quiet:
  assumes "in_tx be s" "PrepareAccessList sender dst pcs al s = Some s'"
  shows "quiet_to be s s'"
proof -
  let ?s1 = "AddAddressToAccessList sender s"
  let ?s2 = "case dst of None \<Rightarrow> ?s1 | Some d \<Rightarrow> AddAddressToAccessList d ?s1"
  let ?s3 = "fold AddAddressToAccessList pcs ?s2"
  note q1 = AddAddress_quiet [OF assms(1), of sender]
  note i1 = quiet_in_tx [OF q1 assms(1)]
  have q2: "quiet_to be ?s1 ?s2" using AddAddress_quiet [OF i1] by (simp split: option.split)
  note i2 = quiet_in_tx [OF q2 i1]
  note q3 = fold_quiet [OF i2, of pcs]
  have "add_tuples al ?s3 = Some s'" using assms(2) by (simp add: PrepareAccessList_def Let_def)
  from add_tuples_quiet [OF quiet_in_tx [OF q3 i2] this] show ?thesis
    using quiet_trans [OF quiet_trans [OF quiet_trans [OF q1 q2] q3]] by blast
qed

subsection \<open>Buying gas\<close>

lemma check_sender_quiet:
  assumes "in_tx be (st_state st)" "check_sender be st = (r, st')"
  shows "\<exists>s'. st' = st\<lparr>st_state := s'\<rparr> \<and> quiet_to be (st_state st) s'"
proof -
  let ?f = "msg_from (st_msg st)"
  let ?s1 = "snd (GetNonce be ?f (st_state st))"
  let ?s2 = "snd (GetCodeHash be ?f ?s1)"
  note q1 = quiet_load(2) [OF assms(1), of ?f]
  note q2 = quiet_load(3) [OF quiet_in_tx [OF q1 assms(1)], of ?f]
  have "st' = st\<lparr>st_state := ?s1\<rparr> \<or> st' = st\<lparr>st_state := ?s2\<rparr>"
    using assms(2) by (auto simp: check_sender_def Let_def case_prod_beta split: if_splits)
  then show ?thesis using q1 quiet_trans [OF q1 q2] by blast
qed

text \<open>What buying the gas leaves behind, for a message that is not a meta transaction.\<close>

definition bought :: "backend \<Rightarrow> Message \<Rightarrow> u64 \<Rightarrow> StateDB \<Rightarrow> StateTransition \<Rightarrow> bool" where
  "bought be msg gp s st \<longleftrightarrow>
    st_msg st = msg \<and> msg_gasLimit msg \<le> gp \<and> st_gp st = gp - msg_gasLimit msg \<and> st_gas st = msg_gasLimit msg \<and>
    st_initialGas st = msg_gasLimit msg \<and> st_gasPrice st = msg_gasPrice msg \<and> st_gasFeeCap st = msg_gasFeeCap msg \<and>
    st_gasTipCap st = msg_gasTipCap msg \<and> st_value st = msg_amount msg \<and> st_data st = msg_data msg \<and>
    \<not> st_isMeta st \<and> in_tx be (st_state st) \<and>
    (\<forall>b. ledger be (st_state st) b =
      (fst (ledger be s b), snd (ledger be s b) - (if b = msg_from msg then uint (msg_gasLimit msg) * msg_gasPrice msg else 0)))"

lemma SubBalance_in_tx: "in_tx be s \<Longrightarrow> in_tx be (SubBalance be a x s)"
  using ops_to_in_tx frame_steps(2) by blast

lemma buyGas_bought:
  assumes "in_tx be t" "quiet_to be s t" "buyGas be (NewStateTransition t msg gp) = (Inr (), st)"
  shows "bought be msg gp s st"
proof -
  let ?t = "snd (GetBalance be (msg_from msg) t)"
  note q = quiet_load(1) [OF assms(1), of "msg_from msg"]
  have it: "in_tx be ?t" using quiet_in_tx [OF q assms(1)] .
  have l: "ledger be ?t b = ledger be s b" for b using quiet_trans [OF assms(2) q] by (simp add: quiet_to_def)
  have st: "msg_gasLimit msg \<le> gp"
    "st = (NewStateTransition t msg gp)\<lparr>st_gp := gp - msg_gasLimit msg, st_gas := msg_gasLimit msg,
       st_initialGas := msg_gasLimit msg, st_state := SubBalance be (msg_from msg) (uint (msg_gasLimit msg) * msg_gasPrice msg) ?t\<rparr>"
    using assms(3) by (auto simp: buyGas_def NewStateTransition_def gp_SubGas_def Let_def case_prod_beta split: if_splits)
  show ?thesis
    using st(1) SubBalance_in_tx [OF it] SubBalance_ledger [OF in_tx_inv(1) [OF it]]
    unfolding st(2) bought_def by (simp add: l NewStateTransition_def)
qed

lemma NewStateTransition_state: "(NewStateTransition s msg gp)\<lparr>st_state := t\<rparr> = NewStateTransition t msg gp"
  by (simp add: NewStateTransition_def)

lemma preCheck_bought:
  assumes "in_tx be s" "\<not> IsMetaTransaction (msg_data msg)"
    and "preCheck be me evm (NewStateTransition s msg gp) = (Inr (), st)"
  shows "bought be msg gp s st"
proof -
  let ?n = "NewStateTransition s msg gp"
  obtain r st1 where c: "(if msg_isFake msg then (Inr (), ?n) else check_sender be ?n) = (r, st1)" by fastforce
  have "\<exists>t. st1 = ?n\<lparr>st_state := t\<rparr> \<and> quiet_to be s t"
    using check_sender_quiet [of be ?n r st1] c assms(1)
    by (auto simp: NewStateTransition_def split: if_splits intro: exI [of _ s])
  then obtain t where t: "st1 = NewStateTransition t msg gp" "quiet_to be s t" by (auto simp: NewStateTransition_state)
  have m: "metaTransactionCheck be me evm st1 = (Inr (), st1)" "\<not> st_isMeta st1"
    using assms(2) by (simp_all add: t(1) metaTransactionCheck_def NewStateTransition_def)
  have "buyGas be st1 = (Inr (), st)"
    using assms(3) c m unfolding preCheck_def by (auto simp: NewStateTransition_def split: sum.splits)
  then show ?thesis using buyGas_bought [OF quiet_in_tx [OF t(2) assms(1)] t(2)] t(1) by simp
qed

subsection \<open>Running the message\<close>

lemma run_message_spec:
  assumes ok: "interp_ok be env evm" and cr: "create_reads be evm" and i: "in_tx be (st_state st)"
    and run: "run_message be env evm st = Some (ret, left, err, s')"
  shows "ops_to be (st_state st) s' \<and> left \<le> st_gas st \<and>
    (err \<noteq> None \<and> r_IsHomestead (evm_chainRules evm) \<longrightarrow>
      (\<forall>b. snd (ledger be s' b) = snd (ledger be (st_state st) b)) \<and>
      (msg_to (st_msg st) \<noteq> None \<longrightarrow> fst (ledger be s' (msg_from (st_msg st))) = fst (ledger be (st_state st) (msg_from (st_msg st))) + 1))"
proof -
  let ?f = "msg_from (st_msg st)"
  show ?thesis
  proof (cases "msg_to (st_msg st)")
    case None
    obtain a where r: "evm_Create be env evm (AccountRef ?f) (st_data st) (st_gas st) (st_value st) (st_state st) = Some (ret, a, left, err, s')"
      using run None by (auto simp: run_message_def split: option.splits)
    then have "ops_to be (st_state st) s' \<and> left \<le> st_gas st \<and>
      (\<forall>e. err = Some e \<longrightarrow> r_IsHomestead (evm_chainRules evm) \<longrightarrow> (\<forall>b. fst (GetBalance be b s') = fst (GetBalance be b (st_state st))))"
      using Create_spec [OF ok i cr, where caller = "AccountRef ?f"] unfolding create_spec_def by blast
    then show ?thesis using None by (auto simp: ledger_def)
  next
    case (Some to)
    let ?s1 = "snd (GetNonce be ?f (st_state st))"
    let ?n = "fst (GetNonce be ?f (st_state st))"
    let ?s2 = "SetNonce be ?f (?n + 1) ?s1"
    note q1 = quiet_load(2) [OF i, of ?f]
    note i1 = quiet_in_tx [OF q1 i]
    have o2: "ops_to be ?s1 ?s2" using frame_steps(3) [OF i1] .
    have l2: "ledger be ?s2 b = (if b = ?f then (?n + 1, snd (ledger be (st_state st) b)) else ledger be (st_state st) b)" for b
      using SetNonce_ledger [OF in_tx_inv(1) [OF i1], of ?f "?n + 1" b] q1 by (simp add: quiet_to_def)
    have e: "run_message be env evm st = evm_Call be env evm (AccountRef ?f) (st_to st) (st_data st) (st_gas st) (st_value st) ?s2"
      using Some by (simp add: run_message_def Let_def case_prod_beta)
    have r: "ops_to be ?s2 s'" "left \<le> st_gas st" "err \<noteq> None \<longrightarrow> same_view be s' ?s2"
      using Call_spec [OF ok ops_to_in_tx [OF o2 i1], where caller = "AccountRef ?f"] run unfolding e frame_spec_def by blast+
    have "ops_to be (st_state st) s'" using ops_to_trans [OF ops_to_trans [OF _ o2] r(1)] q1 by (simp add: quiet_to_def)
    moreover have "ledger be s' b = (if b = ?f then (?n + 1, snd (ledger be (st_state st) b)) else ledger be (st_state st) b)"
      if "err \<noteq> None" for b using r(3) that view_ledger [of be s' ?s2 b] l2 by simp
    moreover have "?n = fst (ledger be (st_state st) ?f)" by (simp add: ledger_def)
    ultimately show ?thesis using r(2) by auto
  qed
qed

subsection \<open>Refund and tip\<close>

lemma refund_gas:
  fixes left lim :: u64
  assumes "left \<le> lim" "refund \<le> (lim - left) div q"
  shows "left + refund \<le> lim" "left \<le> left + refund"
proof -
  have "refund \<le> lim - left"
    using assms(2) by (simp add: word_le_nat_alt unat_div) (meson div_le_dividend le_trans)
  then show "left + refund \<le> lim" "left \<le> left + refund" using assms(1) by unat_arith+
qed

lemma pool_refund:
  fixes gp lim g :: u64
  assumes "lim \<le> gp" "g \<le> lim"
  shows "gp_AddGas g (gp - lim) = Some (gp - (lim - g))"
proof -
  have "unat (MaxUint64 - g) = 18446744073709551615 - unat g"
  proof -
    have "unat (- 1 :: u64) = 18446744073709551615" by (simp add: unsigned_minus_1_eq_mask mask_eq_exp_minus_1)
    then show ?thesis using unat_sub [of g MaxUint64] by (simp add: MaxUint64_def)
  qed
  moreover have "unat (gp - lim) = unat gp - unat lim" using assms(1) by (simp add: unat_sub word_le_nat_alt)
  moreover have "unat gp \<le> 18446744073709551615" using unat_u64_bound [of gp] by linarith
  ultimately have "gp - lim \<le> MaxUint64 - g" using assms by (simp add: word_le_nat_alt)
  then show ?thesis by (simp add: gp_AddGas_def not_less)
qed

lemma gas_split:
  fixes g lim :: u64
  assumes "g \<le> lim"
  shows "uint g = uint lim - uint (lim - g)"
  using assms by (simp add: uint_sub_lem word_le_def uint_minus_simple_iff)

definition refund_quotient :: "EVM \<Rightarrow> u64" where
  "refund_quotient evm =
    (if IsLondon (evm_chainConfig evm) (Some (bc_BlockNumber (evm_Context evm))) then RefundQuotientEIP3529 else RefundQuotient)"

definition payee :: "EVM \<Rightarrow> address" where
  "payee evm = (if Congress (evm_chainConfig evm) \<noteq> None then FeeRecoder else bc_Coinbase (evm_Context evm))"

lemma settle_spec:
  assumes i: "in_tx be (st_state st)" and m: "\<not> st_isMeta st" and g: "st_gas st \<le> st_initialGas st"
    and gp: "st_initialGas st \<le> gp" "st_gp st = gp - st_initialGas st"
    and r: "settle be evm ret vmerr st = (Inr res, st')"
  shows "er_Err res = vmerr \<and> er_UsedGas res \<le> st_initialGas st \<and> st_gp st' = gp - er_UsedGas res \<and>
    er_UsedGas res = st_initialGas st -
      (st_gas st + min ((st_initialGas st - st_gas st) div refund_quotient evm) (sdb_refund (st_state st))) \<and>
    (\<exists>tip. effectiveTip evm st = Some tip \<and>
      (\<forall>b. ledger be (st_state st') b = (fst (ledger be (st_state st) b), snd (ledger be (st_state st) b)
        + (if b = msg_from (st_msg st) then (uint (st_initialGas st) - uint (er_UsedGas res)) * st_gasPrice st else 0)
        + (if b = payee evm then uint (er_UsedGas res) * tip else 0))))"
proof -
  let ?q = "if IsLondon (evm_chainConfig evm) (Some (bc_BlockNumber (evm_Context evm))) then RefundQuotientEIP3529 else RefundQuotient"
  define refund where "refund = (if gasUsed st div ?q > sdb_refund (st_state st) then sdb_refund (st_state st) else gasUsed st div ?q)"
  let ?g = "st_gas st + refund"
  have "refund \<le> (st_initialGas st - st_gas st) div ?q" by (auto simp: refund_def gasUsed_def less_imp_le)
  note w = refund_gas [OF g this]
  let ?s1 = "AddBalance be (msg_from (st_msg st)) (uint ?g * st_gasPrice st) (st_state st)"
  let ?st1 = "st\<lparr>st_gas := ?g, st_state := ?s1, st_gp := gp - (st_initialGas st - ?g)\<rparr>"
  have ref: "refundGas be ?q st = Some ?st1"
    using m pool_refund [OF gp(1) w(1)] unfolding refundGas_def Let_def refund_def gp(2) by simp
  obtain tip where tip: "effectiveTip evm st = Some tip"
    using r ref by (cases "effectiveTip evm st") (auto simp: settle_def effectiveTip_def Let_def split: if_splits option.splits)
  then have tip1: "effectiveTip evm ?st1 = Some tip" by (simp add: effectiveTip_def cong: option.case_cong split: if_splits)
  have u: "gasUsed ?st1 = st_initialGas st - ?g" by (simp add: gasUsed_def)
  have res: "st' = ?st1\<lparr>st_state := AddBalance be (payee evm) (uint (st_initialGas st - ?g) * tip) ?s1\<rparr>"
    "er_UsedGas res = st_initialGas st - ?g" "er_Err res = vmerr"
    using r ref tip1 by (auto simp: settle_def Let_def u payee_def) (simp_all add: gasUsed_def)
  have i1: "state_inv be ?s1" using AddBalance_steps [OF in_tx_inv(1) [OF i]] by (simp add: steps_def)
  have rf: "refund = min ((st_initialGas st - st_gas st) div refund_quotient evm) (sdb_refund (st_state st))"
    by (auto simp: refund_def refund_quotient_def gasUsed_def min_def not_less)
  have le: "er_UsedGas res \<le> st_initialGas st" using w(1) by (simp add: res(2) word_sub_le)
  have ug: "uint ?g = uint (st_initialGas st) - uint (er_UsedGas res)" using gas_split [OF w(1)] by (simp add: res(2))
  show ?thesis
    using le tip res(3) AddBalance_ledger [OF i1] AddBalance_ledger [OF in_tx_inv(1) [OF i]] ug
    unfolding res(1) rf [symmetric] by (auto simp: res(2))
qed


subsection \<open>Accounting\<close>

lemma effectiveTip_cong:
  "st_gasTipCap st = st_gasTipCap st' \<Longrightarrow> st_gasFeeCap st = st_gasFeeCap st' \<Longrightarrow> st_gasPrice st = st_gasPrice st' \<Longrightarrow>
   effectiveTip evm st = effectiveTip evm st'"
  by (simp add: effectiveTip_def cong: option.case_cong)

text \<open>The intrinsic gas of a message that is not a meta transaction.\<close>

definition message_gas :: "EVM \<Rightarrow> Message \<Rightarrow> (st_error, u64) result" where
  "message_gas evm msg =
    (let num = Some (bc_BlockNumber (evm_Context evm)); config = evm_chainConfig evm
     in IntrinsicGas (msg_data msg) (msg_accessList msg) (msg_to msg = None) (IsHomestead config num) (IsIstanbul config num))"

text \<open>The state in which the message runs, and what the run is given.\<close>

lemma TransitionDb_run:
  assumes b: "bought be msg gp s st" and cr: "create_reads be evm"
    and pre: "preCheck be me evm st0 = (Inr (), st)" and r: "TransitionDb be me env evm st0 = (Inr res, st')"
  shows "\<exists>st1 ret left err s2. run_message be env evm st1 = Some (ret, left, err, s2) \<and>
    settle be evm ret err (st1\<lparr>st_gas := left, st_state := s2\<rparr>) = (Inr res, st') \<and>
    (\<exists>g t. st1 = st\<lparr>st_gas := g, st_state := t\<rparr> \<and> g \<le> st_gas st \<and> quiet_to be (st_state st) t \<and>
      (\<exists>gas. message_gas evm msg = Inr gas \<and> gas \<le> st_gas st \<and> g = st_gas st - gas))"
proof -
  let ?msg = "st_msg st" and ?num = "Some (bc_BlockNumber (evm_Context evm))"
  have i: "in_tx be (st_state st)" using b by (simp add: bought_def)
  obtain gas where gas: "IntrinsicGas (if st_isMeta st then st_realPayload st else st_data st) (msg_accessList ?msg)
      (msg_to ?msg = None) (IsHomestead (evm_chainConfig evm) ?num) (IsIstanbul (evm_chainConfig evm) ?num) = Inr gas"
      "\<not> st_gas st < gas"
    using r pre by (auto simp: TransitionDb_def Let_def split: sum.splits if_splits)
  obtain can s1 where can: "(if msg_amount ?msg > 0 then CanTransfer be (msg_from ?msg) (msg_amount ?msg) (st_state st)
      else (True, st_state st)) = (can, s1)" by fastforce
  have q1: "quiet_to be (st_state st) s1"
    using can quiet_load(4) [OF i, of "msg_from ?msg" "msg_amount ?msg"] by (auto split: if_splits)
  note i1 = quiet_in_tx [OF q1 i]
  let ?pal = "if r_IsBerlin (config_Rules (evm_chainConfig evm) ?num)
      then PrepareAccessList (msg_from ?msg) (msg_to ?msg) (ActivePrecompiles env (config_Rules (evm_chainConfig evm) ?num))
        (msg_accessList ?msg) s1 else Some s1"
  have step1: "can \<and> ?pal \<noteq> None"
    using r pre gas can by (auto simp: TransitionDb_def Let_def split: option.splits if_splits)
  then obtain s2 where pal: "?pal = Some s2" by blast
  have q2: "quiet_to be s1 s2" using pal PrepareAccessList_quiet [OF i1] by (auto split: if_splits)
  note i2 = quiet_in_tx [OF q2 i1]
  obtain al s3 where al: "(if msg_to ?msg = None then may_create evm (msg_from ?msg) s2 else (True, s2)) = (al, s3)" by fastforce
  have q3: "quiet_to be s2 s3"
    using al cr i2 quiet_view unfolding create_reads_def by (metis (mono_tags, lifting) quiet_refl snd_conv)
  let ?st1 = "st\<lparr>st_gas := st_gas st - gas, st_state := s3\<rparr>"
  have e: "TransitionDb be me env evm st0 =
      (if \<not> al then (Inl core_ErrUnauthorizedDeveloper, ?st1)
       else (case run_message be env evm ?st1 of
               None \<Rightarrow> (Inl StPanic, ?st1)
             | Some (ret, gasLeft, vmerr, s4) \<Rightarrow> settle be evm ret vmerr (?st1\<lparr>st_gas := gasLeft, st_state := s4\<rparr>)))"
  proof -
    have c: "can" using step1 by blast
    have s: "st_state (st\<lparr>st_gas := x\<rparr>) = st_state st" for x by simp
    show ?thesis
      unfolding TransitionDb_def pre prod.case sum.case Let_def gas(1) if_not_P [OF gas(2)] s can pal option.case al
      by (simp add: c cong: option.case_cong)
  qed
  have "message_gas evm msg = Inr gas" "gas \<le> st_gas st"
    using gas b by (simp_all add: message_gas_def bought_def Let_def not_less)
  moreover have "st_gas st - gas \<le> st_gas st" using gas(2) by (simp add: not_less word_sub_le)
  moreover have "quiet_to be (st_state st) s3" using quiet_trans [OF quiet_trans [OF q1 q2] q3] .
  moreover have "\<exists>ret left err s4. run_message be env evm ?st1 = Some (ret, left, err, s4) \<and>
      settle be evm ret err (?st1\<lparr>st_gas := left, st_state := s4\<rparr>) = (Inr res, st')"
    using r unfolding e by (auto split: if_splits option.splits)
  ultimately show ?thesis by blast
qed

text \<open>C16. A message that is not a meta transaction and that is executed pays for exactly the gas it used.  It runs
  once, with the message's data and value and with the gas limit less the intrinsic gas, on a state whose nonces
  and balances are those before the message, with the whole gas limit at the gas price taken from the sender.  The
  used gas is the limit less what the run left and less the refund, which is the smaller of the collected refund and
  of the used share that the fork allows; it is at most the gas limit and is what the block's gas pool loses.  For
  every account the balance changes by what this run changed it, minus the used gas at the gas price for the sender,
  plus the used gas at the effective tip for the recipient of fees (the Congress fee account).  If the run fails
  under the Homestead rules, no other balance changes, and the nonce of a sender that made a call has grown by one.
  The state is one within a transaction, and the interpreter and the check of developers keep their contracts.\<close>

theorem ApplyMessage_accounting:
  assumes "interp_ok be env evm" "create_reads be evm" "in_tx be s" "\<not> IsMetaTransaction (msg_data msg)"
    and "ApplyMessage be me env evm msg gp s = (Inr res, st')"
  shows "er_UsedGas res \<le> msg_gasLimit msg \<and> msg_gasLimit msg \<le> gp \<and> st_gp st' = gp - er_UsedGas res \<and>
    (\<exists>tip gas st1 ret left s2. effectiveTip evm (NewStateTransition s msg gp) = Some tip \<and>
      message_gas evm msg = Inr gas \<and> gas \<le> msg_gasLimit msg \<and>
      st_msg st1 = msg \<and> st_data st1 = msg_data msg \<and> st_value st1 = msg_amount msg \<and> st_gas st1 = msg_gasLimit msg - gas \<and>
      (\<forall>a. fst (GetNonce be a (st_state st1)) = fst (GetNonce be a s) \<and>
        fst (GetBalance be a (st_state st1)) = fst (GetBalance be a s)
          - (if a = msg_from msg then uint (msg_gasLimit msg) * msg_gasPrice msg else 0)) \<and>
      run_message be env evm st1 = Some (ret, left, er_Err res, s2) \<and> left \<le> st_gas st1 \<and>
      er_UsedGas res = msg_gasLimit msg -
        (left + min ((msg_gasLimit msg - left) div refund_quotient evm) (sdb_refund s2)) \<and>
      (\<forall>a. fst (GetBalance be a (st_state st')) = fst (GetBalance be a s)
        + (fst (GetBalance be a s2) - fst (GetBalance be a (st_state st1)))
        - (if a = msg_from msg then uint (er_UsedGas res) * msg_gasPrice msg else 0)
        + (if a = payee evm then uint (er_UsedGas res) * tip else 0)) \<and>
      (er_Err res \<noteq> None \<and> r_IsHomestead (evm_chainRules evm) \<longrightarrow>
        (\<forall>a. fst (GetBalance be a s2) = fst (GetBalance be a (st_state st1))) \<and>
        (msg_to msg \<noteq> None \<longrightarrow>
          fst (GetNonce be (msg_from msg) (st_state st')) = fst (GetNonce be (msg_from msg) s) + 1)))"
proof -
  let ?n = "NewStateTransition s msg gp"
  have t: "TransitionDb be me env evm ?n = (Inr res, st')" using assms(5) by (simp add: ApplyMessage_def)
  obtain st where pre: "preCheck be me evm ?n = (Inr (), st)"
    using t by (auto simp: TransitionDb_def split: prod.splits sum.splits)
  note b = preCheck_bought [OF assms(3,4) pre]
  then have B: "st_msg st = msg" "msg_gasLimit msg \<le> gp" "st_gp st = gp - msg_gasLimit msg" "st_gas st = msg_gasLimit msg"
    "st_initialGas st = msg_gasLimit msg" "st_gasPrice st = msg_gasPrice msg" "\<not> st_isMeta st" "in_tx be (st_state st)"
    "st_data st = msg_data msg" "st_value st = msg_amount msg"
    by (simp_all add: bought_def)
  have led: "ledger be (st_state st) a = (fst (ledger be s a),
      snd (ledger be s a) - (if a = msg_from msg then uint (msg_gasLimit msg) * msg_gasPrice msg else 0))" for a
    using b by (simp add: bought_def)
  obtain st1 ret left err s2 g u gas where x: "run_message be env evm st1 = Some (ret, left, err, s2)"
    "settle be evm ret err (st1\<lparr>st_gas := left, st_state := s2\<rparr>) = (Inr res, st')"
    "st1 = st\<lparr>st_gas := g, st_state := u\<rparr>" "g \<le> st_gas st" "quiet_to be (st_state st) u"
    and gas: "message_gas evm msg = Inr gas" "gas \<le> st_gas st" "g = st_gas st - gas"
    using TransitionDb_run [OF b assms(2) pre t] by blast
  have i1: "in_tx be (st_state st1)" using quiet_in_tx [OF x(5) B(8)] by (simp add: x(3))
  have l1: "ledger be (st_state st1) a = ledger be (st_state st) a" for a using x(3,5) by (simp add: quiet_to_def)
  have y: "ops_to be (st_state st1) s2" "left \<le> g"
    "err \<noteq> None \<and> r_IsHomestead (evm_chainRules evm) \<Longrightarrow> snd (ledger be s2 a) = snd (ledger be (st_state st1) a)"
    "err \<noteq> None \<and> r_IsHomestead (evm_chainRules evm) \<Longrightarrow> msg_to msg \<noteq> None \<Longrightarrow>
      fst (ledger be s2 (msg_from msg)) = fst (ledger be (st_state st1) (msg_from msg)) + 1" for a
    using run_message_spec [OF assms(1,2) i1 x(1)] B(1) by (auto simp: x(3))
  let ?st = "st1\<lparr>st_gas := left, st_state := s2\<rparr>"
  have eqs: "st_msg ?st = msg" "st_initialGas ?st = msg_gasLimit msg" "st_gasPrice ?st = msg_gasPrice msg" "st_state ?st = s2"
    by (simp_all add: x(3) B)
  have f: "in_tx be (st_state ?st)" "\<not> st_isMeta ?st" "st_gas ?st \<le> st_initialGas ?st" "st_initialGas ?st \<le> gp"
    "st_gp ?st = gp - st_initialGas ?st" "st_gas ?st = left"
    using ops_to_in_tx [OF y(1) i1] B y(2) x(4) by (auto simp: x(3))
  have z: "er_Err res = err" "er_UsedGas res \<le> msg_gasLimit msg" "st_gp st' = gp - er_UsedGas res"
    "er_UsedGas res = msg_gasLimit msg - (left + min ((msg_gasLimit msg - left) div refund_quotient evm) (sdb_refund s2))"
    "\<exists>tip. effectiveTip evm ?st = Some tip \<and> (\<forall>a. ledger be (st_state st') a = (fst (ledger be s2 a), snd (ledger be s2 a)
        + (if a = msg_from msg then (uint (msg_gasLimit msg) - uint (er_UsedGas res)) * msg_gasPrice msg else 0)
        + (if a = payee evm then uint (er_UsedGas res) * tip else 0)))"
    using settle_spec [OF f(1-5) x(2)] unfolding eqs f(6) by blast+
  then obtain tip where tip: "effectiveTip evm ?st = Some tip" "\<And>a. ledger be (st_state st') a = (fst (ledger be s2 a), snd (ledger be s2 a)
        + (if a = msg_from msg then (uint (msg_gasLimit msg) - uint (er_UsedGas res)) * msg_gasPrice msg else 0)
        + (if a = payee evm then uint (er_UsedGas res) * tip else 0))" by blast
  have tip0: "effectiveTip evm ?n = Some tip"
    using tip(1) effectiveTip_cong [of ?n ?st evm] b by (simp add: x(3) bought_def NewStateTransition_def)
  have bals: "fst (GetBalance be a t) = snd (ledger be t a)" "fst (GetNonce be a t) = fst (ledger be t a)" for a t
    by (simp_all add: ledger_def)
  have net: "fst (GetBalance be a (st_state st')) = fst (GetBalance be a s)
        + (fst (GetBalance be a s2) - fst (GetBalance be a (st_state st1)))
        - (if a = msg_from msg then uint (er_UsedGas res) * msg_gasPrice msg else 0)
        + (if a = payee evm then uint (er_UsedGas res) * tip else 0)" for a
    unfolding bals tip(2) l1 led by (simp add: algebra_simps)
  have fail: "er_Err res \<noteq> None \<and> r_IsHomestead (evm_chainRules evm) \<longrightarrow>
        (\<forall>a. fst (GetBalance be a s2) = fst (GetBalance be a (st_state st1))) \<and>
        (msg_to msg \<noteq> None \<longrightarrow> fst (GetNonce be (msg_from msg) (st_state st')) = fst (GetNonce be (msg_from msg) s) + 1)"
    unfolding bals tip(2) using y(3,4) z(1) by (simp add: l1 led)
  have start: "st_msg st1 = msg" "st_data st1 = msg_data msg" "st_value st1 = msg_amount msg"
    "st_gas st1 = msg_gasLimit msg - gas" "gas \<le> msg_gasLimit msg" "left \<le> st_gas st1"
    using gas(2,3) y(2) by (simp_all add: x(3) B)
  have led1: "fst (GetNonce be a (st_state st1)) = fst (GetNonce be a s) \<and>
      fst (GetBalance be a (st_state st1)) = fst (GetBalance be a s)
        - (if a = msg_from msg then uint (msg_gasLimit msg) * msg_gasPrice msg else 0)" for a
    unfolding bals l1 led by simp
  have run: "run_message be env evm st1 = Some (ret, left, er_Err res, s2)" using x(1) z(1) by simp
  show ?thesis using z(2,3) B(2) by (intro conjI exI [of _ tip] exI [of _ gas] exI [of _ st1] exI [of _ ret] exI [of _ left]
      exI [of _ s2] allI tip0 gas(1) start led1 run z(4) net fail)
    simp_all
qed


definition demo_message :: "bytes \<Rightarrow> Message" where
  "demo_message data = NewMessage 9 (Some 7) 0 5 30000 2 2 1 data [] False"

definition demo_meta :: meta_env where
  "demo_meta = \<lparr>me_decode = (\<lambda>_. Inl ''rlp''), me_recover = (\<lambda>_ _ _ _. None)\<rparr>"

abbreviation demo_rich :: StateDB where
  "demo_rich \<equiv> AddBalance demo_be 9 1000000 (state_New None)"

theorem ApplyMessage_accounting_witness:
  "\<exists>res st'. ApplyMessage demo_be demo_meta demo_env demo_evm (demo_message [1]) 100000 demo_rich = (Inr res, st') \<and>
    er_UsedGas res = 21016 \<and> er_Err res = Some ErrExecutionReverted \<and> st_gp st' = 78984 \<and>
    fst (GetBalance demo_be 9 (st_state st')) = 957968 \<and> fst (GetBalance demo_be FeeRecoder (st_state st')) = 21016"
proof -
  let ?r = "ApplyMessage demo_be demo_meta demo_env demo_evm (demo_message [1]) 100000 demo_rich"
  have "case fst ?r of Inl e \<Rightarrow> False | Inr res \<Rightarrow> er_UsedGas res = 21016 \<and> er_Err res = Some ErrExecutionReverted"
    by code_simp
  then obtain res st' where r: "?r = (Inr res, st')" "er_UsedGas res = 21016" "er_Err res = Some ErrExecutionReverted"
    by (cases ?r) (auto split: sum.splits)
  have e: "effectiveTip demo_evm (NewStateTransition demo_rich (demo_message [1]) 100000) = Some 1" "payee demo_evm = FeeRecoder"
    "r_IsHomestead (evm_chainRules demo_evm)" "fst (GetBalance demo_be 9 demo_rich) = 1000000" "FeeRecoder \<noteq> 9"
    "fst (GetBalance demo_be FeeRecoder demo_rich) = 0" "\<not> IsMetaTransaction (msg_data (demo_message [1]))" by code_simp+
  have i: "in_tx demo_be demo_rich" using ops_to_in_tx [OF frame_steps(1) [OF demo_in_tx] demo_in_tx] .
  have c: "create_reads demo_be demo_evm" by (simp add: create_reads_def may_create_def demo_evm_def NewEVM_def)
  have m: "msg_from (demo_message [1]) = 9" "msg_gasPrice (demo_message [1]) = 2" by (simp_all add: demo_message_def NewMessage_def)
  show ?thesis
    using ApplyMessage_accounting [OF demo_interp_ok c i e(7) r(1)] r e unfolding m by auto
qed

subsection \<open>Intrinsic gas\<close>

lemma u64_max_sub: "uint (MaxUint64 - g) = 2 ^ 64 - 1 - uint g"
proof -
  have "uint (- 1 :: u64) = 2 ^ 64 - 1" by (simp add: unsigned_minus_1_eq_mask mask_eq_exp_minus_1)
  then show ?thesis using uint_sub_lem [of g "- 1 :: u64"] uint_lt2p [of g] by (simp add: MaxUint64_def)
qed

lemma int_div_less:
  fixes a c n :: int
  assumes "0 < c"
  shows "a div c < n \<longleftrightarrow> a < n * c"
proof
  assume "a div c < n"
  then have "(a div c + 1) * c \<le> n * c" using assms by (intro mult_right_mono) simp_all
  moreover have "(a div c + 1) * c = a - a mod c + c" by (simp add: algebra_simps minus_mod_eq_mult_div)
  ultimately show "a < n * c" using pos_mod_bound [OF assms, of a] by linarith
next
  assume l: "a < n * c"
  show "a div c < n"
  proof (rule ccontr)
    assume "\<not> a div c < n"
    then have "n * c \<le> (a div c) * c" using assms by (intro mult_right_mono) simp_all
    moreover have "(a div c) * c \<le> a" using pos_mod_sign [OF assms, of a] by (metis add.commute div_mult_mod_eq le_add_same_cancel2)
    ultimately show False using l by linarith
  qed
qed

text \<open>A multiplication guarded as the source does it.\<close>

lemma guarded_mult:
  fixes g c n :: u64
  assumes "0 < uint c"
  shows "(MaxUint64 - g) div c < n \<longleftrightarrow> uint g + uint n * uint c \<ge> 2 ^ 64"
    "\<not> (MaxUint64 - g) div c < n \<Longrightarrow> uint (g + n * c) = uint g + uint n * uint c"
proof -
  have "(MaxUint64 - g) div c < n \<longleftrightarrow> (2 ^ 64 - 1 - uint g) div uint c < uint n"
    by (simp add: word_less_def uint_div u64_max_sub)
  also have "\<dots> \<longleftrightarrow> 2 ^ 64 - 1 - uint g < uint n * uint c"
    by (rule int_div_less [OF assms])
  finally show e: "(MaxUint64 - g) div c < n \<longleftrightarrow> uint g + uint n * uint c \<ge> 2 ^ 64" by linarith
  assume "\<not> (MaxUint64 - g) div c < n"
  then have b: "uint g + uint n * uint c < 2 ^ 64" using e by simp
  show "uint (g + n * c) = uint g + uint n * uint c"
    using b by (simp add: uint_word_ariths mod_simps)
qed

lemma uint_of_nat_small: "n < 2 ^ 64 \<Longrightarrow> uint (of_nat n :: u64) = int n"
  by (simp add: uint_nat unat_of_nat)

text \<open>C38. \<^verbatim>\<open>IntrinsicGas\<close> is the sum that the protocol prescribes.  With the base cost, 68 or 16 per non-zero byte and 4
  per zero byte it either reports an overflow, exactly when that sum does not fit into 64 bits, or returns the sum
  plus the cost of the access list, which is added without a check and wraps.\<close>

theorem IntrinsicGas_exact:
  assumes "length data < 2 ^ 64"
  shows "IntrinsicGas data accessList isContractCreation isHomestead isEIP2028 =
    (let base = (if isContractCreation \<and> isHomestead then 53000 else 21000); nz = length (filter (\<lambda>b. b \<noteq> 0) data);
         sum = base + nz * (if isEIP2028 then 16 else 68) + (length data - nz) * 4
     in if sum \<ge> 2 ^ 64 then Inl core_ErrGasUintOverflow
        else Inr (of_nat (sum + length accessList * 2400 + StorageKeys accessList * 1900)))"
proof -
  define nz where "nz = length (filter (\<lambda>b. b \<noteq> 0) data)"
  define c where "c = (if isEIP2028 then TxDataNonZeroGasEIP2028 else TxDataNonZeroGasFrontier)"
  define b where "b = (if isContractCreation \<and> isHomestead then TxGasContractCreation else TxGas)"
  have nzl: "nz \<le> length data" by (simp add: nz_def)
  have c: "0 < uint c" "uint c = (if isEIP2028 then 16 else 68)" by (simp_all add: c_def gas_consts)
  have ub: "uint b = (if isContractCreation \<and> isHomestead then 53000 else 21000)" by (simp add: b_def gas_consts)
  have un: "uint (of_nat nz :: u64) = int nz" using nzl assms by (intro uint_of_nat_small) simp
  have uz: "uint (of_nat (length data) - of_nat nz :: u64) = int (length data - nz)"
  proof -
    have "of_nat (length data) - of_nat nz = (of_nat (length data - nz) :: u64)" using of_nat_diff [OF nzl] by metis
    moreover have "length data - nz < 2 ^ 64" using assms by linarith
    ultimately show ?thesis using uint_of_nat_small by metis
  qed
  have four: "uint TxDataZeroGas = 4" by (simp add: gas_consts)
  let ?sum = "uint b + int nz * uint c + int (length data - nz) * 4"
  have add: "add_data_gas data isEIP2028 b = (if ?sum \<ge> 2 ^ 64 then Inl core_ErrGasUintOverflow else Inr (word_of_int ?sum))"
  proof (cases "data = []")
    case True
    then show ?thesis using uint_lt2p [of b] by (simp add: add_data_gas_def nz_def)
  next
    case False
    let ?g1 = "b + of_nat nz * c" and ?z = "of_nat (length data) - of_nat nz :: u64"
    have e: "add_data_gas data isEIP2028 b =
        (if (MaxUint64 - b) div c < of_nat nz then Inl core_ErrGasUintOverflow
         else if (MaxUint64 - ?g1) div TxDataZeroGas < ?z then Inl core_ErrGasUintOverflow
         else Inr (?g1 + ?z * TxDataZeroGas))"
      using False by (simp add: add_data_gas_def Let_def nz_def c_def)
    show ?thesis
    proof (cases "(MaxUint64 - b) div c < of_nat nz")
      case True
      then show ?thesis using guarded_mult(1) [OF c(1), of b "of_nat nz"] by (simp add: e un)
    next
      case False
      note g1 = guarded_mult(2) [OF c(1) False, unfolded un]
      have z: "(MaxUint64 - ?g1) div TxDataZeroGas < ?z \<longleftrightarrow> ?sum \<ge> 2 ^ 64"
        using guarded_mult(1) [of TxDataZeroGas ?g1 ?z] by (simp add: four g1 uz)
      show ?thesis
      proof (cases "(MaxUint64 - ?g1) div TxDataZeroGas < ?z")
        case True
        then show ?thesis using z False by (simp add: e)
      next
        case zf: False
        then have "uint (?g1 + ?z * TxDataZeroGas) = ?sum"
          using guarded_mult(2) [of TxDataZeroGas ?g1 ?z] by (simp add: four g1 uz)
        then have "?g1 + ?z * TxDataZeroGas = word_of_int ?sum" by (metis word_of_int_uint)
        then show ?thesis using z False zf by (simp add: e)
      qed
    qed
  qed
  define n where "n = (if isContractCreation \<and> isHomestead then 53000 else 21000) + nz * (if isEIP2028 then 16 else 68) + (length data - nz) * 4"
  have sum: "?sum = int n" unfolding n_def ub c(2) by simp
  have "IntrinsicGas data accessList isContractCreation isHomestead isEIP2028 =
      (if n \<ge> 2 ^ 64 then Inl core_ErrGasUintOverflow
       else Inr (of_nat (n + length accessList * 2400 + StorageKeys accessList * 1900)))"
    unfolding IntrinsicGas_def b_def [symmetric] add sum by (simp add: gas_consts)
  then show ?thesis by (simp add: Let_def n_def nz_def)
qed

theorem IntrinsicGas_exact_witness:
  "IntrinsicGas [0, 1, 2] [(7, [1, 2])] False True True = Inr 27236"
  using IntrinsicGas_exact [of "[0, 1, 2]" "[(7, [1, 2])]" False True True] by (simp add: StorageKeys_def)

subsection \<open>Meta transactions\<close>

lemma u64_10000: "big_Uint64 BIG10000 = 10000"
  by (simp add: BIG10000_def big_Uint64_def)

lemma self_share_sub:
  assumes "feePercent \<le> 10000"
  shows "self_share feePercent x = x + - (x * uint feePercent) div 10000"
proof -
  have "uint (10000 - feePercent) = 10000 - uint feePercent"
    using assms uint_sub_lem [of feePercent 10000] by (simp add: word_le_def)
  then have "x * uint (10000 - feePercent) = - (x * uint feePercent) + 10000 * x" by (simp add: right_diff_distrib)
  then have "x * uint (10000 - feePercent) div 10000 = - (x * uint feePercent) div 10000 + x" by simp
  then show ?thesis unfolding self_share_def u64_10000 by (simp add: BIG10000_def)
qed

text \<open>The shares of the fee address and of the sender in a meta transaction are not negative and add up to the
  fee or to one unit less.  So a meta transaction that uses all its gas can credit one unit more than it charged.\<close>

theorem meta_shares:
  assumes "feePercent \<le> 10000" "0 \<le> amount"
  shows "0 \<le> fee_share feePercent amount \<and> 0 \<le> self_share feePercent amount \<and>
    fee_share feePercent amount + self_share feePercent amount =
      amount - (if amount * uint feePercent mod 10000 = 0 then 0 else 1)"
proof -
  have "uint feePercent \<le> 10000" using assms(1) by (simp add: word_le_def)
  then have "0 \<le> fee_share feePercent amount" "0 \<le> self_share feePercent amount"
    using assms(2) by (simp_all add: fee_share_def self_share_def BIG10000_def pos_imp_zdiv_nonneg_iff)
  then show ?thesis
    by (simp add: self_share_sub [OF assms(1)] fee_share_def BIG10000_def zdiv_zminus1_eq_if)
qed

theorem meta_shares_witness: "fee_share 5000 21001 + self_share 5000 21001 = 21000"
  using meta_shares [of 5000 21001] by simp

text \<open>C39. When the fee address of a meta transaction is its sender, each share of the fee is compared with the whole
  balance.  If the block has the gas left, then, whatever the percentage, the purchase of gas succeeds exactly if the
  balance is at least the share of the fee address and at least the share of the sender, each taken alone, and it
  takes both shares: the sender ends with a negative balance exactly if the balance is less than the sum of the two
  shares.  With 50 percent and an even fee, a balance of half the fee is enough and ends at minus half the fee.\<close>

theorem meta_overdraft:
  assumes "in_tx be (st_state st)" "st_feeAddress st = msg_from (st_msg st)" "msg_gasLimit (st_msg st) \<le> st_gp st"
    and "fee = uint (msg_gasLimit (st_msg st)) * st_gasPrice st"
    and "fst (GetBalance be (msg_from (st_msg st)) (st_state st)) = b"
  shows "(fst (buyGasMeta be st) = Inr () \<longleftrightarrow>
      fee_share (st_feePercent st) fee \<le> b \<and> self_share (st_feePercent st) fee \<le> b) \<and>
    (\<forall>st'. buyGasMeta be st = (Inr (), st') \<longrightarrow>
      fst (GetBalance be (msg_from (st_msg st)) (st_state st')) =
        b - fee_share (st_feePercent st) fee - self_share (st_feePercent st) fee \<and>
      (fst (GetBalance be (msg_from (st_msg st)) (st_state st')) < 0 \<longleftrightarrow>
        b < fee_share (st_feePercent st) fee + self_share (st_feePercent st) fee)) \<and>
    (st_feePercent st = 5000 \<and> 0 < b \<and> fee = 2 * b \<longrightarrow>
      (\<exists>st'. buyGasMeta be st = (Inr (), st') \<and> fst (GetBalance be (msg_from (st_msg st)) (st_state st')) = - b))"
proof -
  let ?f = "msg_from (st_msg st)" and ?x = "fee_share (st_feePercent st) fee" and ?y = "self_share (st_feePercent st) fee"
  let ?s1 = "snd (GetBalance be ?f (st_state st))"
  let ?s2 = "snd (GetBalance be ?f ?s1)"
  note q1 = quiet_load(1) [OF assms(1), of ?f]
  note q2 = quiet_load(1) [OF quiet_in_tx [OF q1 assms(1)], of ?f]
  note i2 = quiet_in_tx [OF q2 quiet_in_tx [OF q1 assms(1)]]
  have bal: "fst (GetBalance be ?f ?s1) = b" "snd (ledger be ?s2 ?f) = b"
    using q1 quiet_trans [OF q1 q2] assms(5) by (simp_all add: quiet_to_def ledger_def)
  let ?s3 = "SubBalance be ?f ?y (SubBalance be ?f ?x ?s2)"
  define st3 where "st3 = st\<lparr>st_gp := st_gp st - msg_gasLimit (st_msg st),
      st_gas := st_gas st + msg_gasLimit (st_msg st), st_initialGas := msg_gasLimit (st_msg st), st_state := ?s3\<rparr>"
  have e: "buyGasMeta be st = (Inr (), st3)" if "?x \<le> b" "?y \<le> b"
    using assms(2,3,5) bal that
    by (simp add: st3_def buyGasMeta_def flip: assms(4)) (simp add: gp_SubGas_def Let_def case_prod_beta)
  have no: "fst (buyGasMeta be st) \<noteq> Inr ()" if "\<not> (?x \<le> b \<and> ?y \<le> b)"
    using assms(2,5) bal that by (auto simp: buyGasMeta_def Let_def case_prod_beta simp flip: assms(4))
  have "snd (ledger be ?s3 ?f) = b - ?x - ?y"
    using SubBalance_ledger [OF in_tx_inv(1) [OF i2]] SubBalance_ledger [OF in_tx_inv(1) [OF SubBalance_in_tx [OF i2]]] bal(2) by simp
  then have l3: "fst (GetBalance be ?f (st_state st3)) = b - ?x - ?y" by (simp add: st3_def ledger_def)
  have half: "?x = b \<and> ?y = b" if "st_feePercent st = 5000" "fee = 2 * b"
    by (simp add: fee_share_def self_share_def u64_10000 that) (simp add: BIG10000_def)
  show ?thesis using e no l3 half by (cases "?x \<le> b \<and> ?y \<le> b") auto
qed

theorem meta_overdraft_witness:
  "\<exists>st'. buyGasMeta demo_be ((NewStateTransition demo_rich (NewMessage 9 (Some 7) 0 0 40000 50 50 1 [] [] False) 100000)
      \<lparr>st_isMeta := True, st_feeAddress := 9, st_feePercent := 5000\<rparr>) = (Inr (), st') \<and>
    fst (GetBalance demo_be 9 (st_state st')) = - 1000000"
proof -
  let ?st = "(NewStateTransition demo_rich (NewMessage 9 (Some 7) 0 0 40000 50 50 1 [] [] False) 100000)
    \<lparr>st_isMeta := True, st_feeAddress := 9, st_feePercent := 5000\<rparr>"
  have f: "st_state ?st = demo_rich" "st_feeAddress ?st = msg_from (st_msg ?st)" "st_feePercent ?st = 5000" "msg_from (st_msg ?st) = 9"
    "msg_gasLimit (st_msg ?st) \<le> st_gp ?st" "2 * 1000000 = uint (msg_gasLimit (st_msg ?st)) * st_gasPrice ?st"
    by (simp_all add: NewStateTransition_def NewMessage_def)
  have b: "fst (GetBalance demo_be 9 demo_rich) = 1000000" by code_simp
  have i: "in_tx demo_be demo_rich" using ops_to_in_tx [OF frame_steps(1) [OF demo_in_tx] demo_in_tx] .
  show ?thesis using meta_overdraft [of demo_be ?st "2 * 1000000" 1000000] i b f by simp
qed

end
