(* ===== verification/Receipts.thy ===== *)
theory Receipts
  imports Header State_DB
begin

text \<open>
  Receipts and their consensus encoding (\<^verbatim>\<open>core/types/receipt.go\<close>, \<^verbatim>\<open>log.go\<close>), the log bloom
  (\<^verbatim>\<open>core/types/bloom9.go\<close>) and the roots of lists (\<^verbatim>\<open>core/types/hashing.go\<close>).  The bloom has no false negatives;
  the keys given to the trie hasher ascend, as a stack trie requires, and cover every index once.
\<close>

subsection \<open>Receipts\<close>

definition LegacyTxType :: u8 where "LegacyTxType = 0"
definition AccessListTxType :: u8 where "AccessListTxType = 1"
definition DynamicFeeTxType :: u8 where "DynamicFeeTxType = 2"

definition ReceiptStatusFailed :: u64 where "ReceiptStatusFailed = 0"
definition ReceiptStatusSuccessful :: u64 where "ReceiptStatusSuccessful = 1"

record Receipt =
  rc_Type :: u8
  rc_PostState :: bytes
  rc_Status :: u64
  rc_CumulativeGasUsed :: u64
  rc_Bloom :: bloom
  rc_Logs :: "Log list"
  rc_TxHash :: hash
  rc_ContractAddress :: address
  rc_GasUsed :: u64
  rc_BlockHash :: hash
  rc_BlockNumber :: bigint
  rc_TransactionIndex :: u64

text \<open>The zero value \<^verbatim>\<open>Receipt{}\<close>.\<close>

definition receipt0 :: Receipt where
  "receipt0 = \<lparr>rc_Type = 0, rc_PostState = [], rc_Status = 0, rc_CumulativeGasUsed = 0, rc_Bloom = 0, rc_Logs = [],
     rc_TxHash = 0, rc_ContractAddress = 0, rc_GasUsed = 0, rc_BlockHash = 0, rc_BlockNumber = None,
     rc_TransactionIndex = 0\<rparr>"

definition statusEncoding :: "Receipt \<Rightarrow> bytes" where
  "statusEncoding r =
    (if length (rc_PostState r) = 0 then (if rc_Status r = ReceiptStatusFailed then [] else [0x01])
     else rc_PostState r)"

definition setStatus :: "bytes \<Rightarrow> Receipt \<Rightarrow> Receipt option" where
  "setStatus postStateOrStatus r =
    (if postStateOrStatus = [0x01] then Some (r\<lparr>rc_Status := ReceiptStatusSuccessful\<rparr>)
     else if postStateOrStatus = [] then Some (r\<lparr>rc_Status := ReceiptStatusFailed\<rparr>)
     else if length postStateOrStatus = 32 then Some (r\<lparr>rc_PostState := postStateOrStatus\<rparr>)
     else None)"

definition log_rval :: "Log \<Rightarrow> rval" where
  "log_rval l = VStruct [VByteArray (address_bytes (lg_Address l)),
     VSlice (map (\<lambda>t. VByteArray (hash_bytes t)) (lg_Topics l)), VBytes (lg_Data l)] []"

definition receipt_rval :: "Receipt \<Rightarrow> rval" where
  "receipt_rval r = VStruct [VBytes (statusEncoding r), VUint (rc_CumulativeGasUsed r),
     VByteArray (bloom_bytes (rc_Bloom r)), VSlice (map log_rval (rc_Logs r))] []"

text \<open>\<^verbatim>\<open>rlp.Encode\<close> into a buffer: an error leaves the buffer as it is.\<close>

definition rlp_out :: "rval \<Rightarrow> bytes" where
  "rlp_out v = (case EncodeToBytes v of Inl _ \<Rightarrow> [] | Inr bs \<Rightarrow> bs)"

definition receipt_EncodeIndex :: "Receipt \<Rightarrow> bytes" where
  "receipt_EncodeIndex r =
    (if rc_Type r = LegacyTxType then rlp_out (receipt_rval r)
     else if rc_Type r = AccessListTxType then AccessListTxType # rlp_out (receipt_rval r)
     else if rc_Type r = DynamicFeeTxType then DynamicFeeTxType # rlp_out (receipt_rval r)
     else [])"

definition receipt_MarshalBinary :: "Receipt \<Rightarrow> (rlp_error, bytes) result" where
  "receipt_MarshalBinary r =
    rbind (EncodeToBytes (receipt_rval r)) (\<lambda>bs. Inr (if rc_Type r = LegacyTxType then bs else rc_Type r # bs))"

subsection \<open>The log bloom\<close>

definition BloomByteLength :: nat where "BloomByteLength = 256"

definition BytesToBloom :: "bytes \<Rightarrow> bloom option" where
  "BytesToBloom d = (if BloomByteLength < length d then None else Some (of_nat (be_nat d)))"

definition bloom_index :: "byte \<Rightarrow> byte \<Rightarrow> nat" where
  "bloom_index hi lo = BloomByteLength - ((unat hi * 256 + unat lo) mod 2 ^ 11) div 8 - 1"

definition bloomValues :: "keccak \<Rightarrow> bytes \<Rightarrow> (nat \<times> byte) list" where
  "bloomValues kec d =
    (let hashbuf = take 6 (hash_bytes (kec d))
     in [(bloom_index (hashbuf ! 0) (hashbuf ! 1), push_bit (unat (hashbuf ! 1 AND 7)) 1),
         (bloom_index (hashbuf ! 2) (hashbuf ! 3), push_bit (unat (hashbuf ! 3 AND 7)) 1),
         (bloom_index (hashbuf ! 4) (hashbuf ! 5), push_bit (unat (hashbuf ! 5 AND 7)) 1)])"

definition bloom_add :: "keccak \<Rightarrow> bytes \<Rightarrow> bytes \<Rightarrow> bytes" where
  "bloom_add kec d b = fold (\<lambda>(i, v) b. b[i := b ! i OR v]) (bloomValues kec d) b"

definition bloom_Test :: "keccak \<Rightarrow> bytes \<Rightarrow> bytes \<Rightarrow> bool" where
  "bloom_Test kec topic b \<longleftrightarrow> (\<forall>(i, v) \<in> set (bloomValues kec topic). v = v AND b ! i)"

definition bloom_log :: "keccak \<Rightarrow> Log \<Rightarrow> bytes \<Rightarrow> bytes" where
  "bloom_log kec l bin =
    fold (\<lambda>t. bloom_add kec (hash_bytes t)) (lg_Topics l) (bloom_add kec (address_bytes (lg_Address l)) bin)"

definition LogsBloom :: "keccak \<Rightarrow> Log list \<Rightarrow> bytes" where
  "LogsBloom kec logs = fold (bloom_log kec) logs (replicate BloomByteLength 0)"

definition CreateBloom :: "keccak \<Rightarrow> Receipt list \<Rightarrow> bytes" where
  "CreateBloom kec receipts = fold (\<lambda>r. fold (bloom_log kec) (rc_Logs r)) receipts (replicate BloomByteLength 0)"

definition BloomLookup :: "keccak \<Rightarrow> bloom \<Rightarrow> bytes \<Rightarrow> bool" where
  "BloomLookup kec bin topic = bloom_Test kec topic (bloom_bytes bin)"

subsection \<open>Roots of lists\<close>

text \<open>The trie hasher is a parameter: it maps the updates, in the order they are made, to a hash.\<close>

type_synonym trie_hasher = "(bytes \<times> bytes) list \<Rightarrow> hash"

definition derive_order :: "nat \<Rightarrow> nat list" where
  "derive_order n = [1..<min n 0x80] @ (if n > 0 then [0] else []) @ [0x80..<n]"

definition derive_updates :: "bytes list \<Rightarrow> (bytes \<times> bytes) list" where
  "derive_updates encs = map (\<lambda>i. (AppendUint64 [] (of_nat i), encs ! i)) (derive_order (length encs))"

definition DeriveSha :: "trie_hasher \<Rightarrow> bytes list \<Rightarrow> hash" where
  "DeriveSha hasher encs = hasher (derive_updates encs)"


subsection \<open>A bloom contains what was added\<close>

definition bloom_le :: "bytes \<Rightarrow> bytes \<Rightarrow> bool" where
  "bloom_le b c \<longleftrightarrow> length b = length c \<and> (\<forall>i < length b. b ! i AND c ! i = b ! i)"

lemma and_below_trans: "x AND y = x \<Longrightarrow> y AND z = y \<Longrightarrow> x AND z = (x :: byte)"
  by (metis and.assoc)

lemma and_or_below: "x AND (x OR y) = x" "y AND (x OR y) = (y :: byte)"
  by (auto intro!: bit_word_eqI simp: bit_and_iff bit_or_iff)

lemma bloom_le_refl [simp]: "bloom_le b b"
  by (simp add: bloom_le_def)

lemma bloom_le_trans [trans]: "bloom_le a b \<Longrightarrow> bloom_le b c \<Longrightarrow> bloom_le a c"
  unfolding bloom_le_def by (auto simp: and_below_trans)

lemma bloom_le_or: "bloom_le b (b[i := b ! i OR v])"
proof -
  have "b ! j AND b[i := b ! i OR v] ! j = b ! j" if "j < length b" for j
    using that by (cases "j = i") (simp_all add: and_or_below)
  then show ?thesis by (simp add: bloom_le_def)
qed

lemma bloom_index_less [simp]: "bloom_index hi lo < BloomByteLength"
  by (simp add: bloom_index_def BloomByteLength_def)

lemma bloomValues_index: "(i, v) \<in> set (bloomValues kec d) \<Longrightarrow> i < BloomByteLength"
  by (auto simp: bloomValues_def Let_def)

lemma set_bits_le: "bloom_le b (fold (\<lambda>(i, v) b. b[i := b ! i OR v]) xs b)"
proof (induction xs arbitrary: b)
  case (Cons x xs)
  then show ?case
    using bloom_le_trans [OF bloom_le_or [of b "fst x" "snd x"]] by (simp add: case_prod_beta)
qed simp

lemma set_bits_has:
  assumes "(i, v) \<in> set xs" "i < length (b :: bytes)"
  shows "v AND fold (\<lambda>(i, v) b. b[i := b ! i OR v]) xs b ! i = v"
  using assms
proof (induction xs arbitrary: b)
  case (Cons x xs)
  obtain j w where x: "x = (j, w)" by (cases x)
  let ?b = "b[j := b ! j OR w]"
  show ?case
  proof (cases "(i, v) \<in> set xs")
    case True
    with Cons.IH [of ?b] Cons.prems show ?thesis by (simp add: x)
  next
    case False
    with Cons.prems x have j: "j = i" "w = v" by auto
    have le: "?b ! i AND fold (\<lambda>(i, v) b. b[i := b ! i OR v]) xs ?b ! i = ?b ! i"
      using set_bits_le [of ?b xs] Cons.prems(2) unfolding bloom_le_def by simp
    have "v AND ?b ! i = v"
      using Cons.prems(2) j by (simp add: and_or_below)
    with le show ?thesis
      unfolding x by (simp add: j and_below_trans)
  qed
qed simp

lemma bloom_add_le: "bloom_le b (bloom_add kec d b)"
  unfolding bloom_add_def by (rule set_bits_le)

lemma bloom_Test_mono: "bloom_Test kec d b \<Longrightarrow> bloom_le b c \<Longrightarrow> length b = BloomByteLength \<Longrightarrow> bloom_Test kec d c"
  unfolding bloom_Test_def bloom_le_def
  by (auto dest!: bspec dest: bloomValues_index) (metis and_below_trans bloomValues_index)

lemma bloom_Test_add: "length b = BloomByteLength \<Longrightarrow> bloom_Test kec d (bloom_add kec d b)"
  unfolding bloom_Test_def bloom_add_def using bloomValues_index set_bits_has by fastforce

lemma fold_bloom_le: "(\<And>x b. bloom_le b (f x b)) \<Longrightarrow> bloom_le b (fold f xs b)"
  by (induction xs arbitrary: b) (auto intro: bloom_le_trans)

lemma bloom_log_le: "bloom_le b (bloom_log kec l b)"
  unfolding bloom_log_def by (rule bloom_le_trans [OF bloom_add_le fold_bloom_le]) (rule bloom_add_le)

lemma bloom_logs_le: "bloom_le b (fold (bloom_log kec) ls b)"
  by (rule fold_bloom_le) (rule bloom_log_le)

lemma bloom_le_length: "bloom_le b c \<Longrightarrow> length c = length b"
  by (simp add: bloom_le_def)

lemma fold_Test:
  assumes "x \<in> set xs" "length b = BloomByteLength" "\<And>x b. bloom_le b (f x b)"
    and "\<And>b. length b = BloomByteLength \<Longrightarrow> bloom_Test kec d (f x b)"
  shows "bloom_Test kec d (fold f xs b)"
proof -
  obtain ys zs where xs: "xs = ys @ x # zs" using assms(1) split_list by metis
  have len: "length (fold f ys b) = BloomByteLength"
    using bloom_le_length [OF fold_bloom_le [of f b ys]] assms(2,3) by simp
  have "bloom_Test kec d (f x (fold f ys b))" by (rule assms(4) [OF len])
  moreover have "length (f x (fold f ys b)) = BloomByteLength"
    using bloom_le_length [OF assms(3)] len by metis
  ultimately show ?thesis
    unfolding xs by (simp add: bloom_Test_mono [OF _ fold_bloom_le [of f, OF assms(3)]])
qed

definition log_items :: "Log \<Rightarrow> bytes set" where
  "log_items l = insert (address_bytes (lg_Address l)) (hash_bytes ` set (lg_Topics l))"

lemma bloom_log_Test:
  assumes "d \<in> log_items l" "length b = BloomByteLength"
  shows "bloom_Test kec d (bloom_log kec l b)"
proof (cases "d = address_bytes (lg_Address l)")
  case True
  let ?b = "bloom_add kec (address_bytes (lg_Address l)) b"
  have "bloom_Test kec d ?b" "length ?b = BloomByteLength"
    using bloom_Test_add [OF assms(2)] True bloom_le_length [OF bloom_add_le] assms(2) by auto
  then show ?thesis
    unfolding bloom_log_def by (rule bloom_Test_mono [OF _ fold_bloom_le [OF bloom_add_le]])
next
  case False
  with assms(1) obtain t where t: "t \<in> set (lg_Topics l)" "d = hash_bytes t" by (auto simp: log_items_def)
  have "length (bloom_add kec (address_bytes (lg_Address l)) b) = BloomByteLength"
    using bloom_le_length [OF bloom_add_le] assms(2) by auto
  then show ?thesis
    unfolding bloom_log_def
    by (rule fold_Test [OF t(1), where f = "\<lambda>t. bloom_add kec (hash_bytes t)", OF _ bloom_add_le])
       (simp add: bloom_Test_add t(2))
qed

lemma CreateBloom_Test:
  assumes "r \<in> set rs" "l \<in> set (rc_Logs r)" "d \<in> log_items l"
  shows "bloom_Test kec d (CreateBloom kec rs)"
  unfolding CreateBloom_def
proof (rule fold_Test [OF assms(1)])
  show "bloom_Test kec d (fold (bloom_log kec) (rc_Logs r) b)" if "length b = BloomByteLength" for b
    by (rule fold_Test [OF assms(2) that bloom_log_le]) (rule bloom_log_Test [OF assms(3)])
qed (auto intro: bloom_logs_le)

lemma length_CreateBloom [simp]: "length (CreateBloom kec rs) = 256"
  unfolding CreateBloom_def
  using bloom_le_length [OF fold_bloom_le [where f = "\<lambda>r. fold (bloom_log kec) (rc_Logs r)" and xs = rs, OF bloom_logs_le]]
  by (simp add: BloomByteLength_def)

lemma bloom_bytes_of: "length b = 256 \<Longrightarrow> bloom_bytes (of_nat (be_nat b)) = b"
proof -
  assume l: "length b = 256"
  have "be_nat b < 256 ^ 256" using be_nat_bound [of b] l by simp
  also have "(256::nat) ^ 256 = 2 ^ 2048" by (simp flip: power_mult add: power_mult [of 2 8 256, simplified])
  finally have "unat (of_nat (be_nat b) :: bloom) = be_nat b" by (simp add: unat_of_nat take_bit_nat_eq_self)
  then show ?thesis using be_bytes_be_nat [of b] l by (simp add: bloom_bytes_def)
qed

text \<open>C37. The log bloom has no false negatives: the bloom that \<^verbatim>\<open>CreateBloom\<close> computes for the receipts of a block,
  stored as 256 bytes in the header, answers every lookup of an address or of a topic of one of the logs with
  true, for every hash function.\<close>

theorem CreateBloom_complete:
  assumes "r \<in> set rs" "l \<in> set (rc_Logs r)" "d = address_bytes (lg_Address l) \<or> d \<in> hash_bytes ` set (lg_Topics l)"
  shows "\<exists>bloom. BytesToBloom (CreateBloom kec rs) = Some bloom \<and> BloomLookup kec bloom d"
proof -
  have "d \<in> log_items l" using assms(3) by (auto simp: log_items_def)
  then show ?thesis
    using CreateBloom_Test [OF assms(1,2)]
    by (simp add: BytesToBloom_def BloomByteLength_def BloomLookup_def bloom_bytes_of)
qed


subsection \<open>The order of the trie updates\<close>

lemma be_bytes_Cons: "be_bytes (Suc k) n = of_nat (n div 256 ^ k mod 256) # be_bytes k n"
proof (induction k arbitrary: n)
  case (Suc k)
  have "be_bytes (Suc (Suc k)) n = be_bytes (Suc k) (n div 256) @ [of_nat (n mod 256)]" by simp
  also have "\<dots> = of_nat (n div 256 div 256 ^ k mod 256) # be_bytes k (n div 256) @ [of_nat (n mod 256)]"
    unfolding Suc.IH by simp
  finally show ?case by (simp add: div_mult2_eq)
qed simp

lemma be_bytes_mod: "be_bytes k (n mod 256 ^ k) = be_bytes k n"
proof (induction k arbitrary: n)
  case (Suc k)
  have "n mod 256 ^ Suc k div 256 = n div 256 mod 256 ^ k"
    by (simp add: mod_mult2_eq)
  moreover have "n mod 256 ^ Suc k mod 256 = n mod 256" by (simp add: mod_mult2_eq)
  ultimately show ?case using Suc.IH [of "n div 256"] by (simp only: be_bytes.simps)
qed simp

lemma of_nat_byte_less: "m < n \<Longrightarrow> n < 256 \<Longrightarrow> (of_nat m :: byte) < of_nat n"
  by (simp add: word_less_nat_alt unat_of_nat)

lemma be_bytes_less: "m < n \<Longrightarrow> n < 256 ^ k \<Longrightarrow> ord_class.lexordp (be_bytes k m) (be_bytes k n)"
proof (induction k arbitrary: m n)
  case (Suc k)
  let ?q = "\<lambda>x::nat. x div 256 ^ k"
  have small: "?q m < 256" "?q n < 256"
    using Suc.prems by (auto simp: less_mult_imp_div_less mult.commute)
  show ?case
  proof (cases "?q m = ?q n")
    case True
    have "m mod 256 ^ k < n mod 256 ^ k"
      using Suc.prems(1) True by (metis div_mult_mod_eq nat_add_left_cancel_less)
    then have "ord_class.lexordp (be_bytes k (m mod 256 ^ k)) (be_bytes k (n mod 256 ^ k))"
      by (rule Suc.IH) simp
    then show ?thesis unfolding be_bytes_Cons be_bytes_mod using True by simp
  next
    case False
    then have "?q m < ?q n" using Suc.prems(1) by (meson div_le_mono le_neq_implies_less less_imp_le)
    then show ?thesis using small unfolding be_bytes_Cons by (simp add: of_nat_byte_less)
  qed
qed simp

lemma power_size: "0 < n \<Longrightarrow> n < 256 ^ K \<Longrightarrow> \<exists>k<K. 256 ^ k \<le> n \<and> n < 256 ^ Suc k" for n :: nat
proof (induction K)
  case (Suc K)
  then show ?case by (cases "n < 256 ^ K") (auto intro: less_SucI)
qed simp

definition index_key :: "nat \<Rightarrow> bytes" where
  "index_key i = AppendUint64 [] (of_nat i)"

lemma index_key_0: "index_key 0 = [0x80]"
  by (simp add: index_key_def AppendUint64_def)

lemma index_key_small:
  assumes "0 < i" "i < 128"
  shows "index_key i = [of_nat i]"
proof -
  have "unat (of_nat i :: u64) = i" using assms by (simp add: unat_of_nat)
  moreover have "(of_nat i :: byte) \<le> 0x7F" using assms by (simp add: word_le_nat_alt unat_of_nat)
  ultimately show ?thesis using assms
    by (simp add: index_key_def AppendUint64_str min_be_small rlp_str_def)
qed

lemma index_key_large:
  assumes "128 \<le> i" "i < 2 ^ 64"
  obtains k where "k < 8" "256 ^ k \<le> i" "i < 256 ^ Suc k" "index_key i = of_nat (129 + k) # be_bytes (Suc k) i"
proof -
  have "i < 256 ^ 8" using assms(2) by simp
  then obtain k where k: "k < 8" "256 ^ k \<le> i" "i < 256 ^ Suc k" using power_size [of i 8] assms(1) by auto
  have m: "min_be i = be_bytes (Suc k) i" by (rule min_be_be_bytes [OF k(2,3)])
  have u: "unat (of_nat i :: u64) = i" using assms(2) by (simp add: unat_of_nat)
  have "\<not> (length (min_be i) = 1 \<and> min_be i ! 0 \<le> 0x7F)"
  proof
    assume a: "length (min_be i) = 1 \<and> min_be i ! 0 \<le> 0x7F"
    then have "k = 0" using m by simp
    then have "i < 256" "min_be i = [of_nat i]" using k(3) m by auto
    then show False using a assms(1) by (simp add: word_le_nat_alt unat_of_nat)
  qed
  then have "index_key i = rlp_head 0x80 0xB7 (Suc k) @ be_bytes (Suc k) i"
    unfolding index_key_def AppendUint64_str u rlp_str_def using m by (simp only: if_False append_Nil length_be_bytes)
  then have "index_key i = of_nat (129 + k) # be_bytes (Suc k) i" using k(1) by (simp add: rlp_head_def)
  with k that show ?thesis by blast
qed

lemma index_key_large_less:
  assumes "128 \<le> i" "i < j" "j < 2 ^ 64"
  shows "ord_class.lexordp (index_key i) (index_key j)"
proof -
  have "i < 2 ^ 64" "128 \<le> j" using assms by auto
  obtain k where k: "k < 8" "256 ^ k \<le> i" "i < 256 ^ Suc k" "index_key i = of_nat (129 + k) # be_bytes (Suc k) i"
    using index_key_large [OF assms(1) \<open>i < 2 ^ 64\<close>] .
  obtain l where l: "l < 8" "256 ^ l \<le> j" "j < 256 ^ Suc l" "index_key j = of_nat (129 + l) # be_bytes (Suc l) j"
    using index_key_large [OF \<open>128 \<le> j\<close> assms(3)] .
  have "(256::nat) ^ k < 256 ^ Suc l" using k(2) l(3) assms(2) by linarith
  then have "k \<le> l" using power_less_imp_less_exp [of "256::nat" k "Suc l"] by simp
  show ?thesis
  proof (cases "k = l")
    case True
    then show ?thesis using be_bytes_less [OF assms(2) l(3)] k(4) l(4) by simp
  next
    case False
    then have "(of_nat (129 + k) :: byte) < of_nat (129 + l)"
      using \<open>k \<le> l\<close> l(1) by (intro of_nat_byte_less) auto
    then show ?thesis using k(4) l(4) by simp
  qed
qed

lemma index_key_0_large: "128 \<le> j \<Longrightarrow> j < 2 ^ 64 \<Longrightarrow> ord_class.lexordp (index_key 0) (index_key j)"
proof -
  assume j: "128 \<le> j" "j < 2 ^ 64"
  obtain l where l: "l < 8" "index_key j = of_nat (129 + l) # be_bytes (Suc l) j"
    using index_key_large [OF j] by metis
  have "(of_nat 128 :: byte) < of_nat (129 + l)" using l(1) by (intro of_nat_byte_less) auto
  then show ?thesis using l(2) by (simp add: index_key_0)
qed

lemma index_key_small_less:
  assumes "0 < i" "i < 128" "j = 0 \<or> i < j" "j < 2 ^ 64"
  shows "ord_class.lexordp (index_key i) (index_key j)"
proof -
  consider "j = 0" | "0 < j" "j < 128" "i < j" | "128 \<le> j" using assms(3) by linarith
  then show ?thesis
  proof cases
    case 1
    have "(of_nat i :: byte) < of_nat 128" using assms by (intro of_nat_byte_less) auto
    then show ?thesis using 1 assms by (simp add: index_key_0 index_key_small)
  next
    case 2
    then show ?thesis using assms of_nat_byte_less [of i j] by (simp add: index_key_small)
  next
    case 3
    obtain l where l: "l < 8" "index_key j = of_nat (129 + l) # be_bytes (Suc l) j"
      using index_key_large [OF 3 assms(4)] by metis
    have "(of_nat i :: byte) < of_nat (129 + l)" using l(1) assms(2) by (intro of_nat_byte_less) auto
    then show ?thesis using l(2) assms by (simp add: index_key_small)
  qed
qed

lemma upt_sorted_wrt:
  assumes "\<And>i j. a \<le> i \<Longrightarrow> i < j \<Longrightarrow> j < b \<Longrightarrow> R i j"
  shows "sorted_wrt R [a..<b]"
  by (rule sorted_wrt_mono_rel [OF _ sorted_wrt_upt [of a b]]) (auto intro: assms)

lemma derive_order_sorted:
  assumes "n < 2 ^ 64"
  shows "sorted_wrt (\<lambda>i j. ord_class.lexordp (index_key i) (index_key j)) (derive_order n)"
proof -
  let ?R = "\<lambda>i j. ord_class.lexordp (index_key i) (index_key j)"
  have "sorted_wrt ?R [1..<min n 0x80]"
    by (rule upt_sorted_wrt) (use assms in \<open>auto intro!: index_key_small_less\<close>)
  moreover have "sorted_wrt ?R [0x80..<n]"
    by (rule upt_sorted_wrt) (use assms in \<open>auto intro!: index_key_large_less\<close>)
  moreover have "?R i j" if "i \<in> set [1..<min n 0x80]" "j = 0 \<or> j \<in> set [0x80..<n]" for i j
    by (rule index_key_small_less) (use that assms in auto)
  moreover have "?R 0 j" if "j \<in> set [0x80..<n]" for j
    by (rule index_key_0_large) (use that assms in auto)
  ultimately show ?thesis unfolding derive_order_def sorted_wrt_append by auto
qed

lemma set_derive_order: "set (derive_order n) = {..<n}" "distinct (derive_order n)"
  by (auto simp: derive_order_def)


lemma map_fst_updates: "map fst (derive_updates encs) = map index_key (derive_order (length encs))"
  by (simp add: derive_updates_def index_key_def)

text \<open>\<^verbatim>\<open>DeriveSha\<close> gives the trie hasher its keys in strictly ascending order, which a stack trie requires, and
  gives it exactly the pairs of an index and the encoding at that index: every list of less than \<open>2 ^ 64\<close>
  elements, the boundaries at 0, 127 and 128 included.\<close>

theorem DeriveSha_order:
  assumes "length encs < 2 ^ 64"
  shows "DeriveSha hasher encs = hasher (derive_updates encs) \<and>
    sorted_wrt ord_class.lexordp (map fst (derive_updates encs)) \<and>
    set (derive_updates encs) = {(rlp_str (min_be i), encs ! i) | i. i < length encs}"
proof (intro conjI)
  show "sorted_wrt ord_class.lexordp (map fst (derive_updates encs))"
    unfolding map_fst_updates sorted_wrt_map by (rule derive_order_sorted [OF assms])
  have "AppendUint64 [] (of_nat i) = rlp_str (min_be i)" if "i < length encs" for i
    using that assms by (simp add: AppendUint64_str unat_of_nat)
  then show "set (derive_updates encs) = {(rlp_str (min_be i), encs ! i) | i. i < length encs}"
    unfolding derive_updates_def set_map set_derive_order by auto
qed (simp add: DeriveSha_def)

theorem DeriveSha_order_witness:
  "sorted_wrt ord_class.lexordp (map fst (derive_updates [[7], [8], [9]])) \<and>
   DeriveSha (\<lambda>us. of_nat (length us)) [[7], [8], [9]] = 3"
  using DeriveSha_order [of "[[7], [8], [9]]" "\<lambda>us. of_nat (length us)"]
  by (simp add: derive_updates_def derive_order_def upt_rec)

subsection \<open>What the receipts root depends on\<close>

definition located :: "hash \<Rightarrow> Receipt \<Rightarrow> Receipt" where
  "located h r = r\<lparr>rc_BlockHash := h, rc_Logs := map (\<lambda>l. l\<lparr>lg_BlockHash := h\<rparr>) (rc_Logs r)\<rparr>"

lemma log_rval_hash [simp]: "log_rval (l\<lparr>lg_BlockHash := h\<rparr>) = log_rval l"
  by (simp add: log_rval_def)

lemma located_encoding [simp]: "receipt_EncodeIndex (located h r) = receipt_EncodeIndex r"
  by (simp add: receipt_EncodeIndex_def receipt_rval_def located_def statusEncoding_def comp_def)

lemma bloom_log_hash [simp]: "bloom_log kec (l\<lparr>lg_BlockHash := h\<rparr>) = bloom_log kec l"
  by (simp add: bloom_log_def fun_eq_iff)

lemma located_bloom [simp]: "CreateBloom kec (map (located h) rs) = CreateBloom kec rs"
  by (simp add: CreateBloom_def fold_map located_def comp_def)

lemma setStatus_statusEncoding:
  "rc_PostState r = [] \<Longrightarrow> rc_Status r \<in> {ReceiptStatusFailed, ReceiptStatusSuccessful} \<Longrightarrow>
   setStatus (statusEncoding r) (receipt0) = Some (receipt0\<lparr>rc_Status := rc_Status r\<rparr>)"
  by (auto simp: setStatus_def statusEncoding_def ReceiptStatusFailed_def ReceiptStatusSuccessful_def)


definition demo_log :: Log where
  "demo_log = \<lparr>lg_Address = 5, lg_Topics = [7], lg_Data = [], lg_BlockNumber = 1, lg_TxHash = 0, lg_TxIndex = 0,
     lg_BlockHash = 0, lg_Index = 0, lg_Removed = False\<rparr>"

theorem CreateBloom_complete_witness:
  "\<exists>bloom. BytesToBloom (CreateBloom BytesToHash [receipt0\<lparr>rc_Logs := [demo_log]\<rparr>]) = Some bloom \<and>
     BloomLookup BytesToHash bloom (address_bytes 5)"
  by (rule CreateBloom_complete [of "receipt0\<lparr>rc_Logs := [demo_log]\<rparr>" _ demo_log])
     (simp_all add: demo_log_def receipt0_def)

end
