(* ===== verification/Transactions.thy ===== *)
theory Transactions
  imports Congress_Base State_Transition Receipts
begin

text \<open>
  Transactions (\<^verbatim>\<open>core/types/transaction.go\<close>, \<^verbatim>\<open>legacy_tx.go\<close>, \<^verbatim>\<open>access_list_tx.go\<close>, \<^verbatim>\<open>dynamic_fee_tx.go\<close>,
  \<^verbatim>\<open>x402_tx.go\<close>): the four kinds of data, their encoding and hash, and the signers of \<^verbatim>\<open>core/types/transaction_signing.go\<close> that derive
  the sender.  Signing and recovering round trip under every signer that supports the transaction; a signer never
  accepts a protected transaction of another chain.

  Every constructor and the decoder leave the big integers non-nil, so they are integers here.  The caches of the
  hash and of the sender hold what the functions return and are left out.
\<close>

subsection \<open>Transaction data\<close>

type_synonym AccessList = "(address \<times> hash list) list"

record LegacyTx =
  lt_Nonce :: u64
  lt_GasPrice :: int
  lt_Gas :: u64
  lt_To :: "address option"
  lt_Value :: int
  lt_Data :: bytes
  lt_V :: int
  lt_R :: int
  lt_S :: int

record AccessListTx =
  al_ChainID :: int
  al_Nonce :: u64
  al_GasPrice :: int
  al_Gas :: u64
  al_To :: "address option"
  al_Value :: int
  al_Data :: bytes
  al_AccessList :: AccessList
  al_V :: int
  al_R :: int
  al_S :: int

record DynamicFeeTx =
  df_ChainID :: int
  df_Nonce :: u64
  df_GasTipCap :: int
  df_GasFeeCap :: int
  df_Gas :: u64
  df_To :: "address option"
  df_Value :: int
  df_Data :: bytes
  df_AccessList :: AccessList
  df_V :: int
  df_R :: int
  df_S :: int

record X402Tx =
  xt_ChainID :: int
  xt_Nonce :: u64
  xt_To :: "address option"
  xt_Value :: int
  xt_Gas :: u64
  xt_GasPrice :: int
  xt_GasFeeCap :: int
  xt_GasTipCap :: int
  xt_Input :: bytes
  xt_V :: int
  xt_R :: int
  xt_S :: int

datatype TxData = TxLegacy LegacyTx | TxAccessList AccessListTx | TxDynamicFee DynamicFeeTx | TxX402 X402Tx

definition X402TxType :: u8 where
  "X402TxType = 0x50"

record Transaction =
  tx_inner :: TxData
  tx_time :: int

datatype tx_error =
  ErrInvalidSig | ErrUnexpectedProtection | ErrTxTypeNotSupported | ErrInvalidChainId | ErrGasFeeCapTooLow
| EcrecoverFailed | InvalidPublicKey | TxPanic

definition tx_Type :: "Transaction \<Rightarrow> u8" where
  "tx_Type tx = (case tx_inner tx of TxLegacy _ \<Rightarrow> LegacyTxType | TxAccessList _ \<Rightarrow> AccessListTxType | TxDynamicFee _ \<Rightarrow> DynamicFeeTxType
     | TxX402 _ \<Rightarrow> X402TxType)"

definition deriveChainId :: "int \<Rightarrow> int" where
  "deriveChainId v =
    (if big_BitLen v \<le> 64 then
       (let w = big_Uint64 v in if w = 27 \<or> w = 28 then 0 else uint ((w - 35) div 2))
     else (v - 35) div 2)"

definition tx_ChainId :: "Transaction \<Rightarrow> int" where
  "tx_ChainId tx = (case tx_inner tx of TxLegacy t \<Rightarrow> deriveChainId (lt_V t) | TxAccessList t \<Rightarrow> al_ChainID t | TxDynamicFee t \<Rightarrow> df_ChainID t
     | TxX402 t \<Rightarrow> xt_ChainID t)"

definition tx_AccessList :: "Transaction \<Rightarrow> AccessList" where
  "tx_AccessList tx = (case tx_inner tx of TxLegacy t \<Rightarrow> [] | TxAccessList t \<Rightarrow> al_AccessList t | TxDynamicFee t \<Rightarrow> df_AccessList t
     | TxX402 t \<Rightarrow> [])"

definition tx_Data :: "Transaction \<Rightarrow> bytes" where
  "tx_Data tx = (case tx_inner tx of TxLegacy t \<Rightarrow> lt_Data t | TxAccessList t \<Rightarrow> al_Data t | TxDynamicFee t \<Rightarrow> df_Data t
     | TxX402 t \<Rightarrow> xt_Input t)"

definition tx_Gas :: "Transaction \<Rightarrow> u64" where
  "tx_Gas tx = (case tx_inner tx of TxLegacy t \<Rightarrow> lt_Gas t | TxAccessList t \<Rightarrow> al_Gas t | TxDynamicFee t \<Rightarrow> df_Gas t
     | TxX402 t \<Rightarrow> xt_Gas t)"

definition tx_GasPrice :: "Transaction \<Rightarrow> int" where
  "tx_GasPrice tx = (case tx_inner tx of TxLegacy t \<Rightarrow> lt_GasPrice t | TxAccessList t \<Rightarrow> al_GasPrice t | TxDynamicFee t \<Rightarrow> df_GasFeeCap t
     | TxX402 t \<Rightarrow> xt_GasPrice t)"

definition tx_GasTipCap :: "Transaction \<Rightarrow> int" where
  "tx_GasTipCap tx = (case tx_inner tx of TxLegacy t \<Rightarrow> lt_GasPrice t | TxAccessList t \<Rightarrow> al_GasPrice t | TxDynamicFee t \<Rightarrow> df_GasTipCap t
     | TxX402 t \<Rightarrow> xt_GasTipCap t)"

definition tx_GasFeeCap :: "Transaction \<Rightarrow> int" where
  "tx_GasFeeCap tx = (case tx_inner tx of TxLegacy t \<Rightarrow> lt_GasPrice t | TxAccessList t \<Rightarrow> al_GasPrice t | TxDynamicFee t \<Rightarrow> df_GasFeeCap t
     | TxX402 t \<Rightarrow> xt_GasFeeCap t)"

definition tx_Value :: "Transaction \<Rightarrow> int" where
  "tx_Value tx = (case tx_inner tx of TxLegacy t \<Rightarrow> lt_Value t | TxAccessList t \<Rightarrow> al_Value t | TxDynamicFee t \<Rightarrow> df_Value t
     | TxX402 t \<Rightarrow> xt_Value t)"

definition tx_Nonce :: "Transaction \<Rightarrow> u64" where
  "tx_Nonce tx = (case tx_inner tx of TxLegacy t \<Rightarrow> lt_Nonce t | TxAccessList t \<Rightarrow> al_Nonce t | TxDynamicFee t \<Rightarrow> df_Nonce t
     | TxX402 t \<Rightarrow> xt_Nonce t)"

definition tx_To :: "Transaction \<Rightarrow> address option" where
  "tx_To tx = (case tx_inner tx of TxLegacy t \<Rightarrow> lt_To t | TxAccessList t \<Rightarrow> al_To t | TxDynamicFee t \<Rightarrow> df_To t
     | TxX402 t \<Rightarrow> xt_To t)"

definition RawSignatureValues :: "Transaction \<Rightarrow> int \<times> int \<times> int" where
  "RawSignatureValues tx = (case tx_inner tx of TxLegacy t \<Rightarrow> (lt_V t, lt_R t, lt_S t)
     | TxAccessList t \<Rightarrow> (al_V t, al_R t, al_S t) | TxDynamicFee t \<Rightarrow> (df_V t, df_R t, df_S t)
     | TxX402 t \<Rightarrow> (xt_V t, xt_R t, xt_S t))"

fun setSignatureValues :: "bigint \<Rightarrow> int \<Rightarrow> int \<Rightarrow> int \<Rightarrow> TxData \<Rightarrow> TxData option" where
  "setSignatureValues chainID v r s (TxLegacy t) = Some (TxLegacy (t\<lparr>lt_V := v, lt_R := r, lt_S := s\<rparr>))"
| "setSignatureValues chainID v r s (TxAccessList t) =
     map_option (\<lambda>c. TxAccessList (t\<lparr>al_ChainID := c, al_V := v, al_R := r, al_S := s\<rparr>)) chainID"
| "setSignatureValues chainID v r s (TxDynamicFee t) =
     map_option (\<lambda>c. TxDynamicFee (t\<lparr>df_ChainID := c, df_V := v, df_R := r, df_S := s\<rparr>)) chainID"
| "setSignatureValues chainID v r s (TxX402 t) =
     Some (TxX402 (t\<lparr>xt_ChainID := (case chainID of None \<Rightarrow> xt_ChainID t | Some c \<Rightarrow> c), xt_V := v, xt_R := r, xt_S := s\<rparr>))"

definition NewTransaction :: "u64 \<Rightarrow> address \<Rightarrow> int \<Rightarrow> u64 \<Rightarrow> int \<Rightarrow> bytes \<Rightarrow> int \<Rightarrow> Transaction" where
  "NewTransaction nonce to amount gasLimit gasPrice data now =
    \<lparr>tx_inner = TxLegacy \<lparr>lt_Nonce = nonce, lt_GasPrice = gasPrice, lt_Gas = gasLimit, lt_To = Some to, lt_Value = amount,
       lt_Data = data, lt_V = 0, lt_R = 0, lt_S = 0\<rparr>, tx_time = now\<rparr>"

definition NewContractCreation :: "u64 \<Rightarrow> int \<Rightarrow> u64 \<Rightarrow> int \<Rightarrow> bytes \<Rightarrow> int \<Rightarrow> Transaction" where
  "NewContractCreation nonce amount gasLimit gasPrice data now =
    \<lparr>tx_inner = TxLegacy \<lparr>lt_Nonce = nonce, lt_GasPrice = gasPrice, lt_Gas = gasLimit, lt_To = None, lt_Value = amount,
       lt_Data = data, lt_V = 0, lt_R = 0, lt_S = 0\<rparr>, tx_time = now\<rparr>"

definition tx_Cost :: "Transaction \<Rightarrow> int" where
  "tx_Cost tx = tx_GasPrice tx * uint (tx_Gas tx) + tx_Value tx"

definition EffectiveGasTip :: "Transaction \<Rightarrow> bigint \<Rightarrow> int \<times> tx_error option" where
  "EffectiveGasTip tx baseFee =
    (case baseFee of
       None \<Rightarrow> (tx_GasTipCap tx, None)
     | Some b \<Rightarrow> (min (tx_GasTipCap tx) (tx_GasFeeCap tx - b), if tx_GasFeeCap tx < b then Some ErrGasFeeCapTooLow else None))"

subsection \<open>Encoding and hashes\<close>

definition to_rval :: "address option \<Rightarrow> rval" where
  "to_rval to = (case to of None \<Rightarrow> VNilPtr False | Some a \<Rightarrow> VByteArray (address_bytes a))"

definition access_rval :: "AccessList \<Rightarrow> rval" where
  "access_rval al = VSlice (map (\<lambda>(a, ks). VStruct [VByteArray (address_bytes a), VSlice (map (\<lambda>k. VByteArray (hash_bytes k)) ks)] []) al)"

definition tx_rval :: "TxData \<Rightarrow> rval" where
  "tx_rval d =
    (case d of
       TxLegacy t \<Rightarrow> VStruct [VUint (lt_Nonce t), VBig (Some (lt_GasPrice t)), VUint (lt_Gas t), to_rval (lt_To t),
         VBig (Some (lt_Value t)), VBytes (lt_Data t), VBig (Some (lt_V t)), VBig (Some (lt_R t)), VBig (Some (lt_S t))] []
     | TxAccessList t \<Rightarrow> VStruct [VBig (Some (al_ChainID t)), VUint (al_Nonce t), VBig (Some (al_GasPrice t)), VUint (al_Gas t),
         to_rval (al_To t), VBig (Some (al_Value t)), VBytes (al_Data t), access_rval (al_AccessList t),
         VBig (Some (al_V t)), VBig (Some (al_R t)), VBig (Some (al_S t))] []
     | TxDynamicFee t \<Rightarrow> VStruct [VBig (Some (df_ChainID t)), VUint (df_Nonce t), VBig (Some (df_GasTipCap t)),
         VBig (Some (df_GasFeeCap t)), VUint (df_Gas t), to_rval (df_To t), VBig (Some (df_Value t)), VBytes (df_Data t),
         access_rval (df_AccessList t), VBig (Some (df_V t)), VBig (Some (df_R t)), VBig (Some (df_S t))] []
     | TxX402 t \<Rightarrow> VStruct [VBig (Some (xt_ChainID t)), VUint (xt_Nonce t), to_rval (xt_To t), VBig (Some (xt_Value t)),
         VUint (xt_Gas t), VBig (Some (xt_GasPrice t)), VBig (Some (xt_GasFeeCap t)), VBig (Some (xt_GasTipCap t)),
         VBytes (xt_Input t), VBig (Some (xt_V t)), VBig (Some (xt_R t)), VBig (Some (xt_S t))] [])"

definition tx_MarshalBinary :: "Transaction \<Rightarrow> (rlp_error, bytes) result" where
  "tx_MarshalBinary tx =
    rbind (EncodeToBytes (tx_rval (tx_inner tx))) (\<lambda>bs. Inr (if tx_Type tx = LegacyTxType then bs else tx_Type tx # bs))"

definition tx_EncodeIndex :: "Transaction \<Rightarrow> bytes" where
  "tx_EncodeIndex tx =
    (if tx_Type tx = LegacyTxType then rlp_out (tx_rval (tx_inner tx)) else tx_Type tx # rlp_out (tx_rval (tx_inner tx)))"

definition prefixedRlpHash :: "keccak \<Rightarrow> byte \<Rightarrow> rval \<Rightarrow> hash" where
  "prefixedRlpHash kec prefix v = kec (prefix # rlp_out v)"

definition tx_Hash :: "keccak \<Rightarrow> Transaction \<Rightarrow> hash" where
  "tx_Hash kec tx =
    (if tx_Type tx = LegacyTxType then rlpHash kec (tx_rval (tx_inner tx))
     else prefixedRlpHash kec (tx_Type tx) (tx_rval (tx_inner tx)))"

subsection \<open>Signatures\<close>

definition secp256k1N :: int where
  "secp256k1N = 0xfffffffffffffffffffffffffffffffebaaedce6af48a03bbfd25e8cd0364141"

definition secp256k1halfN :: int where
  "secp256k1halfN = secp256k1N div 2"

definition ValidateSignatureValues :: "byte \<Rightarrow> int \<Rightarrow> int \<Rightarrow> bool \<Rightarrow> bool" where
  "ValidateSignatureValues v r s homestead =
    (if r < 1 \<or> s < 1 then False
     else if homestead \<and> s > secp256k1halfN then False
     else r < secp256k1N \<and> s < secp256k1N \<and> (v = 0 \<or> v = 1))"

definition isProtectedV :: "int \<Rightarrow> bool" where
  "isProtectedV V =
    (if big_BitLen V \<le> 8 then (let v = big_Uint64 V in v \<noteq> 27 \<and> v \<noteq> 28 \<and> v \<noteq> 1 \<and> v \<noteq> 0) else True)"

definition Protected :: "Transaction \<Rightarrow> bool" where
  "Protected tx = (case tx_inner tx of TxLegacy t \<Rightarrow> isProtectedV (lt_V t) | _ \<Rightarrow> True)"

definition sanityCheckSignature :: "int \<Rightarrow> int \<Rightarrow> int \<Rightarrow> bool \<Rightarrow> (tx_error, unit) result" where
  "sanityCheckSignature v r s maybeProtected =
    (if isProtectedV v \<and> \<not> maybeProtected then Inl ErrUnexpectedProtection
     else
       (let plainV = (if isProtectedV v then ucast (big_Uint64 v - 35 - 2 * big_Uint64 (deriveChainId v))
                      else if maybeProtected then ucast (big_Uint64 v - 27)
                      else ucast (big_Uint64 v))
        in if ValidateSignatureValues plainV r s False then Inr () else Inl ErrInvalidSig))"

definition recoverPlain :: "crypto \<Rightarrow> hash \<Rightarrow> int \<Rightarrow> int \<Rightarrow> int \<Rightarrow> bool \<Rightarrow> (tx_error, address) result" where
  "recoverPlain cr sighash R S Vb homestead =
    (if big_BitLen Vb > 8 then Inl ErrInvalidSig
     else
       (let V = ucast (big_Uint64 Vb - 27)
        in if \<not> ValidateSignatureValues V R S homestead then Inl ErrInvalidSig
           else
             (case c_Ecrecover cr (hash_bytes sighash) (be_bytes 32 (nat R) @ be_bytes 32 (nat S) @ [V]) of
                None \<Rightarrow> Inl EcrecoverFailed
              | Some pub \<Rightarrow>
                  if pub = [] \<or> hd pub \<noteq> 4 then Inl InvalidPublicKey
                  else Inr (BytesToAddress (drop 12 (hash_bytes (c_keccak cr (drop 1 pub))))))))"

definition decodeSignature :: "bytes \<Rightarrow> (int \<times> int \<times> int) option" where
  "decodeSignature sig =
    (if length sig \<noteq> 65 then None
     else Some (int (be_nat (take 32 sig)), int (be_nat (take 32 (drop 32 sig))), uint (sig ! 64 + 27)))"

text \<open>The five signers; the embedded signers of Go are called by name.  \<^verbatim>\<open>NewEIP155Signer\<close> turns a nil chain id into 0.\<close>

datatype Signer = FrontierSigner | HomesteadSigner | EIP155Signer int | EIP2930Signer int | LondonSigner int

definition chain_or_0 :: "bigint \<Rightarrow> int" where
  "chain_or_0 c = (case c of None \<Rightarrow> 0 | Some i \<Rightarrow> i)"

definition MakeSigner :: "ChainConfig \<Rightarrow> bigint \<Rightarrow> Signer" where
  "MakeSigner config blockNumber =
    (if IsLondon config blockNumber then LondonSigner (chain_or_0 (ChainID config))
     else if IsBerlin config blockNumber then EIP2930Signer (chain_or_0 (ChainID config))
     else if IsEIP155 config blockNumber then EIP155Signer (chain_or_0 (ChainID config))
     else if IsHomestead config blockNumber then HomesteadSigner
     else FrontierSigner)"

definition LatestSigner :: "ChainConfig \<Rightarrow> Signer" where
  "LatestSigner config =
    (case ChainID config of
       None \<Rightarrow> HomesteadSigner
     | Some i \<Rightarrow>
         if LondonBlock config \<noteq> None then LondonSigner i
         else if BerlinBlock config \<noteq> None then EIP2930Signer i
         else if EIP155Block config \<noteq> None then EIP155Signer i
         else HomesteadSigner)"

definition LatestSignerForChainID :: "bigint \<Rightarrow> Signer" where
  "LatestSignerForChainID c = (case c of None \<Rightarrow> HomesteadSigner | Some i \<Rightarrow> LondonSigner i)"

fun signer_ChainID :: "Signer \<Rightarrow> bigint" where
  "signer_ChainID FrontierSigner = None"
| "signer_ChainID HomesteadSigner = None"
| "signer_ChainID (EIP155Signer c) = Some c"
| "signer_ChainID (EIP2930Signer c) = Some c"
| "signer_ChainID (LondonSigner c) = Some c"

definition plain_fields :: "Transaction \<Rightarrow> bytes \<Rightarrow> rval list" where
  "plain_fields tx data = [VUint (tx_Nonce tx), VBig (Some (tx_GasPrice tx)), VUint (tx_Gas tx), to_rval (tx_To tx),
     VBig (Some (tx_Value tx)), VBytes data]"

definition frontier_Hash :: "keccak \<Rightarrow> Transaction \<Rightarrow> hash" where
  "frontier_Hash kec tx = rlpHash kec (VSlice (plain_fields tx (tx_Data tx)))"

definition eip155_Hash :: "keccak \<Rightarrow> meta_env \<Rightarrow> int \<Rightarrow> Transaction \<Rightarrow> hash" where
  "eip155_Hash kec me chainId tx =
    (let data = (if IsMetaTransaction (tx_Data tx) then
                   (case DecodeMetaData me (tx_Data tx) 0 of Inr metaData \<Rightarrow> md_Payload metaData | Inl _ \<Rightarrow> tx_Data tx)
                 else tx_Data tx)
     in rlpHash kec (VSlice (plain_fields tx data @ [VBig (Some chainId), VUint 0, VUint 0])))"

definition eip2930_Hash :: "keccak \<Rightarrow> int \<Rightarrow> Transaction \<Rightarrow> hash" where
  "eip2930_Hash kec chainId tx =
    (if tx_Type tx = LegacyTxType then
       rlpHash kec (VSlice (plain_fields tx (tx_Data tx) @ [VBig (Some chainId), VUint 0, VUint 0]))
     else if tx_Type tx = AccessListTxType then
       prefixedRlpHash kec (tx_Type tx)
         (VSlice (VBig (Some chainId) # plain_fields tx (tx_Data tx) @ [access_rval (tx_AccessList tx)]))
     else 0)"

definition london_Hash :: "keccak \<Rightarrow> int \<Rightarrow> Transaction \<Rightarrow> hash" where
  "london_Hash kec chainId tx =
    (if tx_Type tx \<noteq> DynamicFeeTxType then eip2930_Hash kec chainId tx
     else prefixedRlpHash kec (tx_Type tx)
       (VSlice [VBig (Some chainId), VUint (tx_Nonce tx), VBig (Some (tx_GasTipCap tx)), VBig (Some (tx_GasFeeCap tx)),
          VUint (tx_Gas tx), to_rval (tx_To tx), VBig (Some (tx_Value tx)), VBytes (tx_Data tx), access_rval (tx_AccessList tx)]))"

fun signer_Hash :: "keccak \<Rightarrow> meta_env \<Rightarrow> Signer \<Rightarrow> Transaction \<Rightarrow> hash" where
  "signer_Hash kec me FrontierSigner tx = frontier_Hash kec tx"
| "signer_Hash kec me HomesteadSigner tx = frontier_Hash kec tx"
| "signer_Hash kec me (EIP155Signer c) tx = eip155_Hash kec me c tx"
| "signer_Hash kec me (EIP2930Signer c) tx = eip2930_Hash kec c tx"
| "signer_Hash kec me (LondonSigner c) tx = london_Hash kec c tx"

definition plain_Sender :: "crypto \<Rightarrow> bool \<Rightarrow> Transaction \<Rightarrow> (tx_error, address) result" where
  "plain_Sender cr homestead tx =
    (if tx_Type tx \<noteq> LegacyTxType then Inl ErrTxTypeNotSupported
     else (let (v, r, s) = RawSignatureValues tx in recoverPlain cr (frontier_Hash (c_keccak cr) tx) r s v homestead))"

definition eip155_Sender :: "crypto \<Rightarrow> meta_env \<Rightarrow> int \<Rightarrow> Transaction \<Rightarrow> (tx_error, address) result" where
  "eip155_Sender cr me chainId tx =
    (if tx_Type tx \<noteq> LegacyTxType then Inl ErrTxTypeNotSupported
     else if \<not> Protected tx then plain_Sender cr True tx
     else if tx_ChainId tx \<noteq> chainId then Inl ErrInvalidChainId
     else (let (v, r, s) = RawSignatureValues tx
           in recoverPlain cr (eip155_Hash (c_keccak cr) me chainId tx) r s (v - chainId * 2 - 8) True))"

definition eip2930_Sender :: "crypto \<Rightarrow> int \<Rightarrow> Transaction \<Rightarrow> (tx_error, address) result" where
  "eip2930_Sender cr chainId tx =
    (let (v, r, s) = RawSignatureValues tx
     in if tx_Type tx = LegacyTxType \<and> \<not> Protected tx then plain_Sender cr True tx
        else if tx_Type tx \<noteq> LegacyTxType \<and> tx_Type tx \<noteq> AccessListTxType then Inl ErrTxTypeNotSupported
        else if tx_ChainId tx \<noteq> chainId then Inl ErrInvalidChainId
        else recoverPlain cr (eip2930_Hash (c_keccak cr) chainId tx) r s
               (if tx_Type tx = LegacyTxType then v - chainId * 2 - 8 else v + 27) True)"

definition london_Sender :: "crypto \<Rightarrow> int \<Rightarrow> Transaction \<Rightarrow> (tx_error, address) result" where
  "london_Sender cr chainId tx =
    (if tx_Type tx \<noteq> DynamicFeeTxType then eip2930_Sender cr chainId tx
     else
       (let (v, r, s) = RawSignatureValues tx
        in if tx_ChainId tx \<noteq> chainId then Inl ErrInvalidChainId
           else recoverPlain cr (london_Hash (c_keccak cr) chainId tx) r s (v + 27) True))"

fun signer_Sender :: "crypto \<Rightarrow> meta_env \<Rightarrow> Signer \<Rightarrow> Transaction \<Rightarrow> (tx_error, address) result" where
  "signer_Sender cr me FrontierSigner tx = plain_Sender cr False tx"
| "signer_Sender cr me HomesteadSigner tx = plain_Sender cr True tx"
| "signer_Sender cr me (EIP155Signer c) tx = eip155_Sender cr me c tx"
| "signer_Sender cr me (EIP2930Signer c) tx = eip2930_Sender cr c tx"
| "signer_Sender cr me (LondonSigner c) tx = london_Sender cr c tx"

definition plain_SignatureValues :: "Transaction \<Rightarrow> bytes \<Rightarrow> (tx_error, int \<times> int \<times> int) result" where
  "plain_SignatureValues tx sig =
    (if tx_Type tx \<noteq> LegacyTxType then Inl ErrTxTypeNotSupported
     else (case decodeSignature sig of None \<Rightarrow> Inl TxPanic | Some rsv \<Rightarrow> Inr rsv))"

definition eip155_SignatureValues :: "int \<Rightarrow> Transaction \<Rightarrow> bytes \<Rightarrow> (tx_error, int \<times> int \<times> int) result" where
  "eip155_SignatureValues chainId tx sig =
    rbind (plain_SignatureValues tx sig) (\<lambda>(r, s, v). Inr (r, s, if chainId \<noteq> 0 then uint (sig ! 64 + 35) + chainId * 2 else v))"

definition typed_SignatureValues :: "int \<Rightarrow> Transaction \<Rightarrow> bytes \<Rightarrow> (tx_error, int \<times> int \<times> int) result" where
  "typed_SignatureValues chainId tx sig =
    (if tx_ChainId tx \<noteq> 0 \<and> tx_ChainId tx \<noteq> chainId then Inl ErrInvalidChainId
     else (case decodeSignature sig of None \<Rightarrow> Inl TxPanic | Some (r, s, v) \<Rightarrow> Inr (r, s, uint (sig ! 64))))"

definition eip2930_SignatureValues :: "int \<Rightarrow> Transaction \<Rightarrow> bytes \<Rightarrow> (tx_error, int \<times> int \<times> int) result" where
  "eip2930_SignatureValues chainId tx sig =
    (if tx_Type tx = LegacyTxType then eip155_SignatureValues chainId tx sig
     else if tx_Type tx = AccessListTxType then typed_SignatureValues chainId tx sig
     else Inl ErrTxTypeNotSupported)"

fun SignatureValues :: "Signer \<Rightarrow> Transaction \<Rightarrow> bytes \<Rightarrow> (tx_error, int \<times> int \<times> int) result" where
  "SignatureValues FrontierSigner tx sig = plain_SignatureValues tx sig"
| "SignatureValues HomesteadSigner tx sig = plain_SignatureValues tx sig"
| "SignatureValues (EIP155Signer c) tx sig = eip155_SignatureValues c tx sig"
| "SignatureValues (EIP2930Signer c) tx sig = eip2930_SignatureValues c tx sig"
| "SignatureValues (LondonSigner c) tx sig =
     (if tx_Type tx = DynamicFeeTxType then typed_SignatureValues c tx sig else eip2930_SignatureValues c tx sig)"

definition WithSignature :: "Signer \<Rightarrow> bytes \<Rightarrow> Transaction \<Rightarrow> (tx_error, Transaction) result" where
  "WithSignature signer sig tx =
    rbind (SignatureValues signer tx sig) (\<lambda>(r, s, v).
      case setSignatureValues (signer_ChainID signer) v r s (tx_inner tx) of
        None \<Rightarrow> Inl TxPanic
      | Some d \<Rightarrow> Inr (tx\<lparr>tx_inner := d\<rparr>))"

text \<open>\<open>sign\<close> is \<^verbatim>\<open>crypto.Sign\<close> with the private key.\<close>

definition SignTx :: "keccak \<Rightarrow> meta_env \<Rightarrow> (hash \<Rightarrow> bytes option) \<Rightarrow> Signer \<Rightarrow> Transaction \<Rightarrow> (tx_error, Transaction) result" where
  "SignTx kec me sign s tx =
    (case sign (signer_Hash kec me s tx) of None \<Rightarrow> Inl EcrecoverFailed | Some sig \<Rightarrow> WithSignature s sig tx)"

definition AsMessage :: "crypto \<Rightarrow> meta_env \<Rightarrow> Signer \<Rightarrow> bigint \<Rightarrow> Transaction \<Rightarrow> (tx_error, Message) result" where
  "AsMessage cr me s baseFee tx =
    rbind (signer_Sender cr me s tx) (\<lambda>from. Inr
      (NewMessage from (tx_To tx) (tx_Nonce tx) (tx_Value tx) (tx_Gas tx)
        (case baseFee of None \<Rightarrow> tx_GasPrice tx | Some b \<Rightarrow> min (tx_GasTipCap tx + b) (tx_GasFeeCap tx))
        (tx_GasFeeCap tx) (tx_GasTipCap tx) (tx_Data tx) (tx_AccessList tx) False))"

definition TxDifference :: "keccak \<Rightarrow> Transaction list \<Rightarrow> Transaction list \<Rightarrow> Transaction list" where
  "TxDifference kec a b =
    (let remove = fold (\<lambda>tx m. gm_set m (tx_Hash kec tx) ()) b [] in filter (\<lambda>tx. gm_get remove (tx_Hash kec tx) = None) a)"


subsection \<open>Recovering what was signed\<close>

lemmas tx_fields = tx_Type_def tx_Data_def tx_Gas_def tx_GasPrice_def tx_GasTipCap_def tx_GasFeeCap_def tx_Value_def
  tx_Nonce_def tx_To_def tx_AccessList_def

lemmas tx_types = LegacyTxType_def AccessListTxType_def DynamicFeeTxType_def X402TxType_def

lemma big_BitLen_le: "big_BitLen i \<le> k \<longleftrightarrow> \<bar>i\<bar> < 2 ^ k"
proof -
  have "big_BitLen i \<le> k \<longleftrightarrow> nat \<bar>i\<bar> < 2 ^ k" by (simp add: big_BitLen_def nat_BitLen_le)
  also have "\<dots> \<longleftrightarrow> \<bar>i\<bar> < 2 ^ k" by (simp add: nat_less_iff)
  finally show ?thesis .
qed

lemma big_Uint64_small: "0 \<le> i \<Longrightarrow> i < 2 ^ 64 \<Longrightarrow> uint (big_Uint64 i) = i"
  by (simp add: big_Uint64_def uint_word_of_int)

lemma deriveChainId_v:
  assumes "0 < c" "b = 35 \<or> b = 36"
  shows "deriveChainId (b + c * 2) = c"
proof (cases "b + c * 2 < 2 ^ 64")
  case True
  let ?w = "big_Uint64 (b + c * 2)"
  have w: "uint ?w = b + c * 2" using True assms by (intro big_Uint64_small) auto
  then have n: "?w \<noteq> 27" "?w \<noteq> 28" using assms by (auto simp: word_uint_eq_iff)
  have "35 \<le> ?w" using w assms by (auto simp: word_le_def)
  then have "uint (?w - 35) = b + c * 2 - 35" using w by (simp add: uint_minus_simple_alt [THEN iffD1] word_le_def)
  then have "uint ((?w - 35) div 2) = (b + c * 2 - 35) div 2" by (simp add: uint_div)
  also have "\<dots> = c" using assms by auto
  finally show ?thesis using n True assms
    by (auto simp: deriveChainId_def big_BitLen_le Let_def)
next
  case False
  then show ?thesis using assms by (auto simp: deriveChainId_def big_BitLen_le)
qed

lemma isProtectedV_v: "0 < c \<Longrightarrow> b = 35 \<or> b = 36 \<Longrightarrow> isProtectedV (b + c * 2)"
proof -
  assume c: "0 < c" "b = 35 \<or> b = 36"
  have "big_Uint64 (b + c * 2) \<noteq> k" if "b + c * 2 < 2 ^ 8" "uint k < 37" for k
    using big_Uint64_small [of "b + c * 2"] that c by auto
  then show ?thesis using c by (auto simp: isProtectedV_def big_BitLen_le Let_def)
qed


lemma recoverPlain_sig:
  assumes "length sig = 65" "sig ! 64 = 0 \<or> sig ! 64 = 1"
    and "0 < be_nat (take 32 sig)" "int (be_nat (take 32 sig)) < secp256k1N"
    and "0 < be_nat (take 32 (drop 32 sig))" "int (be_nat (take 32 (drop 32 sig))) \<le> secp256k1halfN"
    and "c_Ecrecover cr (hash_bytes h) sig = Some (4 # pub)" "Vb = 27 + uint (sig ! 64)"
  shows "recoverPlain cr h (int (be_nat (take 32 sig))) (int (be_nat (take 32 (drop 32 sig)))) Vb homestead =
    Inr (BytesToAddress (drop 12 (hash_bytes (c_keccak cr pub))))"
proof -
  have len: "length (take 32 sig) = 32" "length (take 32 (drop 32 sig)) = 32" using assms(1) by auto
  have parts: "sig = take 32 sig @ take 32 (drop 32 sig) @ [sig ! 64]"
  proof -
    have "drop 64 sig = [sig ! 64]"
      using assms(1) Cons_nth_drop_Suc [of 64 sig] by simp
    then show ?thesis by (metis add_numeral_left append_take_drop_id drop_drop numeral_Bit0)
  qed
  have bytes: "be_bytes 32 (nat (int (be_nat (take 32 sig)))) = take 32 sig"
    "be_bytes 32 (nat (int (be_nat (take 32 (drop 32 sig))))) = take 32 (drop 32 sig)"
    using be_bytes_be_nat [of "take 32 sig"] be_bytes_be_nat [of "take 32 (drop 32 sig)"] len by simp_all
  have v: "(ucast (big_Uint64 Vb - 27) :: byte) = sig ! 64" "big_BitLen Vb \<le> 8"
    using assms(2,8) by (auto simp: big_BitLen_le big_Uint64_def)
  have "int (be_nat (take 32 (drop 32 sig))) < secp256k1N"
    using assms(6) by (simp add: secp256k1halfN_def secp256k1N_def)
  then have valid: "ValidateSignatureValues (sig ! 64) (int (be_nat (take 32 sig))) (int (be_nat (take 32 (drop 32 sig)))) homestead"
    using assms(2-6) by (auto simp: ValidateSignatureValues_def)
  show ?thesis
    unfolding recoverPlain_def Let_def v(1) bytes
    using v(2) valid assms(7) parts by simp
qed

text \<open>The transactions a signer can sign: the kinds it knows, for its own chain.  A protected signature needs a
  chain id above 0.\<close>

fun supports :: "Signer \<Rightarrow> Transaction \<Rightarrow> bool" where
  "supports FrontierSigner tx \<longleftrightarrow> tx_Type tx = LegacyTxType"
| "supports HomesteadSigner tx \<longleftrightarrow> tx_Type tx = LegacyTxType"
| "supports (EIP155Signer c) tx \<longleftrightarrow> tx_Type tx = LegacyTxType \<and> 0 < c"
| "supports (EIP2930Signer c) tx \<longleftrightarrow> (tx_Type tx = LegacyTxType \<and> 0 < c) \<or>
     (tx_Type tx = AccessListTxType \<and> (tx_ChainId tx = 0 \<or> tx_ChainId tx = c))"
| "supports (LondonSigner c) tx \<longleftrightarrow> (tx_Type tx = LegacyTxType \<and> 0 < c) \<or>
     (tx_Type tx \<in> {AccessListTxType, DynamicFeeTxType} \<and> (tx_ChainId tx = 0 \<or> tx_ChainId tx = c))"

text \<open>A signature as the signing library makes it: \<open>r\<close>, \<open>s\<close> in the lower half, and the recovery id 0 or 1.\<close>

definition good_sig :: "bytes \<Rightarrow> bool" where
  "good_sig sig \<longleftrightarrow> length sig = 65 \<and> (sig ! 64 = 0 \<or> sig ! 64 = 1) \<and>
     0 < be_nat (take 32 sig) \<and> int (be_nat (take 32 sig)) < secp256k1N \<and>
     0 < be_nat (take 32 (drop 32 sig)) \<and> int (be_nat (take 32 (drop 32 sig))) \<le> secp256k1halfN"

lemma recoverPlain_good:
  "good_sig sig \<Longrightarrow> c_Ecrecover cr (hash_bytes h) sig = Some (4 # pub) \<Longrightarrow> Vb = 27 + uint (sig ! 64) \<Longrightarrow>
   recoverPlain cr h (int (be_nat (take 32 sig))) (int (be_nat (take 32 (drop 32 sig)))) Vb homestead =
     Inr (BytesToAddress (drop 12 (hash_bytes (c_keccak cr pub))))"
  unfolding good_sig_def by (intro recoverPlain_sig) auto

lemma good_v:
  assumes "good_sig sig"
  shows "uint (sig ! 64 + 27) = 27 + uint (sig ! 64)" "uint (sig ! 64 + 35) = 35 + uint (sig ! 64)" "uint (sig ! 64) = 0 \<or> uint (sig ! 64) = 1"
  using assms unfolding good_sig_def by auto

lemma good_decode:
  "good_sig sig \<Longrightarrow> decodeSignature sig =
    Some (int (be_nat (take 32 sig)), int (be_nat (take 32 (drop 32 sig))), 27 + uint (sig ! 64))"
  using good_v by (simp add: decodeSignature_def good_sig_def)

text \<open>The signed fields.\<close>

definition same_content :: "Transaction \<Rightarrow> Transaction \<Rightarrow> bool" where
  "same_content tx tx' \<longleftrightarrow> tx_Type tx' = tx_Type tx \<and> tx_Nonce tx' = tx_Nonce tx \<and> tx_GasPrice tx' = tx_GasPrice tx \<and>
     tx_GasTipCap tx' = tx_GasTipCap tx \<and> tx_GasFeeCap tx' = tx_GasFeeCap tx \<and> tx_Gas tx' = tx_Gas tx \<and>
     tx_To tx' = tx_To tx \<and> tx_Value tx' = tx_Value tx \<and> tx_Data tx' = tx_Data tx \<and> tx_AccessList tx' = tx_AccessList tx"

lemma same_content_hash: "same_content tx tx' \<Longrightarrow> signer_Hash kec me s tx' = signer_Hash kec me s tx"
  by (cases s) (simp_all add: same_content_def frontier_Hash_def eip155_Hash_def eip2930_Hash_def london_Hash_def plain_fields_def
      cong: sum.case_cong)

lemma set_content: "setSignatureValues c v r s (tx_inner tx) = Some d \<Longrightarrow> same_content tx (tx\<lparr>tx_inner := d\<rparr>)"
  by (cases "tx_inner tx") (auto simp: same_content_def tx_fields)


lemma WithSignature_ok:
  assumes "good_sig sig" "supports signer tx"
  shows "\<exists>tx'. WithSignature signer sig tx = Inr tx' \<and> same_content tx tx' \<and>
    (\<exists>v. RawSignatureValues tx' = (v, int (be_nat (take 32 sig)), int (be_nat (take 32 (drop 32 sig)))) \<and>
      (case signer_ChainID signer of
         None \<Rightarrow> v = 27 + uint (sig ! 64)
       | Some c \<Rightarrow> tx_ChainId tx' = c \<and>
           (if tx_Type tx = LegacyTxType then v = 35 + uint (sig ! 64) + c * 2 \<and> Protected tx' else v = uint (sig ! 64))))"
proof -
  note v = good_v [OF assms(1)]
  have d: "deriveChainId (35 + uint (sig ! 64) + c * 2) = c" "isProtectedV (35 + uint (sig ! 64) + c * 2)" if "0 < c" for c
    using deriveChainId_v [of c "35 + uint (sig ! 64)"] isProtectedV_v [of c "35 + uint (sig ! 64)"] that v(3) by auto
  show ?thesis
    using assms(2) good_decode [OF assms(1)] d
    by (cases signer; cases "tx_inner tx")
       (auto simp: WithSignature_def plain_SignatureValues_def eip155_SignatureValues_def eip2930_SignatureValues_def
         typed_SignatureValues_def v tx_types tx_fields same_content_def RawSignatureValues_def tx_ChainId_def Protected_def)
qed


text \<open>C28. Signing and recovering are inverse.  Whatever signer the chain uses, a transaction it supports that is signed
  with a well-formed signature keeps all its content, and the sender derived from the signed transaction is the
  address of the key that signed: for legacy, access list and dynamic fee transactions and every chain id, also
  one that does not fit 64 bits.\<close>

theorem SignTx_Sender:
  assumes "supports signer tx" "sign (signer_Hash (c_keccak cr) me signer tx) = Some sig" "good_sig sig"
    and "c_Ecrecover cr (hash_bytes (signer_Hash (c_keccak cr) me signer tx)) sig = Some (4 # pub)"
  shows "\<exists>tx'. SignTx (c_keccak cr) me sign signer tx = Inr tx' \<and> same_content tx tx' \<and>
    signer_Sender cr me signer tx' = Inr (BytesToAddress (drop 12 (hash_bytes (c_keccak cr pub))))"
proof -
  obtain tx' v where tx': "WithSignature signer sig tx = Inr tx'" "same_content tx tx'"
    "RawSignatureValues tx' = (v, int (be_nat (take 32 sig)), int (be_nat (take 32 (drop 32 sig))))"
    "case signer_ChainID signer of None \<Rightarrow> v = 27 + uint (sig ! 64)
      | Some c \<Rightarrow> tx_ChainId tx' = c \<and>
          (if tx_Type tx = LegacyTxType then v = 35 + uint (sig ! 64) + c * 2 \<and> Protected tx' else v = uint (sig ! 64))"
    using WithSignature_ok [OF assms(3,1)] by blast
  have ty: "tx_Type tx' = tx_Type tx" using tx'(2) by (simp add: same_content_def)
  have h: "c_Ecrecover cr (hash_bytes (signer_Hash (c_keccak cr) me signer tx')) sig = Some (4 # pub)"
    using assms(4) same_content_hash [OF tx'(2)] by simp
  have rec: "recoverPlain cr (signer_Hash (c_keccak cr) me signer tx') (int (be_nat (take 32 sig)))
      (int (be_nat (take 32 (drop 32 sig)))) Vb b = Inr (BytesToAddress (drop 12 (hash_bytes (c_keccak cr pub))))"
    if "Vb = 27 + uint (sig ! 64)" for Vb b
    by (rule recoverPlain_good [OF assms(3) h that])
  have rec' [simp]: "uint (sig ! 64) + 27 = 27 + uint (sig ! 64)" by simp
  have "signer_Sender cr me signer tx' = Inr (BytesToAddress (drop 12 (hash_bytes (c_keccak cr pub))))"
  proof (cases signer)
    case (LondonSigner c)
    show ?thesis
    proof (cases "tx_Type tx = DynamicFeeTxType")
      case True
      then show ?thesis using LondonSigner tx'(3,4) ty rec by (simp add: london_Sender_def tx_types)
    next
      case False
      then have ty2: "tx_Type tx = LegacyTxType \<or> tx_Type tx = AccessListTxType"
        using assms(1) LondonSigner by auto
      have h2: "london_Hash (c_keccak cr) c tx' = eip2930_Hash (c_keccak cr) c tx'"
        using False ty by (simp add: london_Hash_def)
      show ?thesis
        using LondonSigner tx'(3,4) ty ty2 False rec h2
        by (auto simp: london_Sender_def eip2930_Sender_def tx_types split: if_splits)
    qed
  qed (use assms(1) tx'(3,4) ty rec in
       \<open>auto simp: plain_Sender_def eip155_Sender_def eip2930_Sender_def tx_types split: if_splits\<close>)
  with tx'(1,2) assms(2) show ?thesis by (simp add: SignTx_def)
qed

definition demo_transfer :: Transaction where
  "demo_transfer = NewTransaction 3 7 100 21000 5 [] 0"

definition demo_signature :: bytes where
  "demo_signature = replicate 31 0 @ [1] @ replicate 31 0 @ [2, 1]"

definition demo_meta :: meta_env where
  "demo_meta = \<lparr>me_decode = (\<lambda>bs. Inr \<lparr>md_BlockNumLimit = 100, md_FeePercent = of_nat (length bs), md_V = 0, md_R = 0,
     md_S = 0, md_Payload = []\<rparr>), me_recover = (\<lambda>_ _ _ _. None)\<rparr>"

lemma demo_good_sig: "good_sig demo_signature"
  by code_simp

theorem SignTx_Sender_witness:
  "\<exists>tx'. SignTx (c_keccak demo_crypto) demo_meta (\<lambda>_. Some demo_signature) (LondonSigner 2691) demo_transfer = Inr tx' \<and>
    same_content demo_transfer tx' \<and>
    signer_Sender demo_crypto demo_meta (LondonSigner 2691) tx' =
      Inr (BytesToAddress (drop 12 (hash_bytes (c_keccak demo_crypto demo_signature))))"
  by (rule SignTx_Sender)
     (simp_all add: demo_good_sig demo_crypto_def demo_transfer_def NewTransaction_def tx_Type_def)

subsection \<open>What a signer accepts\<close>

lemma recoverPlain_accepts:
  "recoverPlain cr h R S Vb homestead = Inr a \<Longrightarrow>
    0 < R \<and> R < secp256k1N \<and> 0 < S \<and> S < secp256k1N \<and> (homestead \<longrightarrow> S \<le> secp256k1halfN)"
  by (auto simp: recoverPlain_def ValidateSignatureValues_def Let_def split: if_splits)

text \<open>C29. What an accepted signature guarantees.  If a signer derives a sender, then \<open>r\<close> and \<open>s\<close> are in the range of the
  curve's order, every signer but the oldest requires \<open>s\<close> in the lower half, so that a third party cannot turn a
  signature into a second valid one, and a protected transaction is of the signer's own chain.\<close>

theorem Sender_accepts:
  assumes "signer_Sender cr me signer tx = Inr a" "RawSignatureValues tx = (v, r, s)"
  shows "0 < r \<and> r < secp256k1N \<and> 0 < s \<and> s < secp256k1N \<and>
    (signer \<noteq> FrontierSigner \<longrightarrow> s \<le> secp256k1halfN) \<and>
    (\<forall>c. signer_ChainID signer = Some c \<longrightarrow> Protected tx \<longrightarrow> tx_ChainId tx = c)"
  using assms
  by (cases signer)
     (auto simp: plain_Sender_def eip155_Sender_def eip2930_Sender_def london_Sender_def Let_def
       dest: recoverPlain_accepts split: if_splits)


theorem Sender_accepts_witness:
  "\<exists>tx'. signer_Sender demo_crypto demo_meta HomesteadSigner tx' \<noteq> Inl ErrInvalidSig \<and>
    (let (v, r, s) = RawSignatureValues tx' in 0 < r \<and> s \<le> secp256k1halfN)"
proof -
  let ?r = "int (be_nat (take 32 demo_signature))" and ?s = "int (be_nat (take 32 (drop 32 demo_signature)))"
  let ?tx = "demo_transfer\<lparr>tx_inner := TxLegacy \<lparr>lt_Nonce = 3, lt_GasPrice = 5, lt_Gas = 21000, lt_To = Some 7, lt_Value = 100,
       lt_Data = [], lt_V = 28, lt_R = ?r, lt_S = ?s\<rparr>\<rparr>"
  have "(28::int) = 27 + uint (demo_signature ! 64)" by code_simp
  then have "signer_Sender demo_crypto demo_meta HomesteadSigner ?tx =
    Inr (BytesToAddress (drop 12 (hash_bytes (c_keccak demo_crypto demo_signature))))"
    using recoverPlain_good [OF demo_good_sig, of demo_crypto _ demo_signature]
    by (simp add: plain_Sender_def tx_Type_def RawSignatureValues_def demo_crypto_def)
  then show ?thesis
    using Sender_accepts [of demo_crypto demo_meta HomesteadSigner ?tx _ 28 ?r ?s]
    by (intro exI [of _ ?tx]) (auto simp: RawSignatureValues_def)
qed

text \<open>C36. A signature made for one chain is rejected on every other: the transaction signed for a chain id above 0 has no
  sender under a signer with a different chain id.\<close>

theorem replay_protected:
  assumes "SignTx kec me sign signer tx = Inr tx'" "supports signer tx" "\<forall>h sig. sign h = Some sig \<longrightarrow> good_sig sig"
    and "signer_ChainID signer = Some c" "signer_ChainID other = Some c'" "c \<noteq> c'"
  shows "signer_Sender cr me' other tx' \<in> {Inl ErrInvalidChainId, Inl ErrTxTypeNotSupported}"
proof -
  obtain sig where sig: "good_sig sig" "WithSignature signer sig tx = Inr tx'"
    using assms(1,3) by (auto simp: SignTx_def split: option.splits)
  have p: "tx_ChainId tx' = c" "Protected tx'"
    using WithSignature_ok [OF sig(1) assms(2)] sig(2) assms(4)
    by (auto simp: same_content_def Protected_def tx_Type_def tx_types split: TxData.splits if_splits)
  show ?thesis
    using p assms(5,6)
    by (cases other) (auto simp: eip155_Sender_def eip2930_Sender_def london_Sender_def Let_def split: prod.splits)
qed

theorem replay_protected_witness:
  "\<exists>tx'. SignTx BytesToHash demo_meta (\<lambda>_. Some demo_signature) (EIP155Signer 2691) demo_transfer = Inr tx' \<and>
    signer_Sender demo_crypto demo_meta (LondonSigner 1) tx' \<in> {Inl ErrInvalidChainId, Inl ErrTxTypeNotSupported}"
proof -
  have sup: "supports (EIP155Signer 2691) demo_transfer"
    by (simp add: demo_transfer_def NewTransaction_def tx_Type_def)
  obtain tx' where tx': "SignTx BytesToHash demo_meta (\<lambda>_. Some demo_signature) (EIP155Signer 2691) demo_transfer = Inr tx'"
    using WithSignature_ok [OF demo_good_sig sup] by (auto simp: SignTx_def)
  then show ?thesis using replay_protected [OF tx' sup, of 2691 "LondonSigner 1" 1] demo_good_sig by auto
qed

subsection \<open>What a meta transaction signs\<close>

text \<open>Under the EIP-155 signer the sender of a meta transaction signs the payload and not the fee terms: two legacy
  transactions that differ only in their meta data, with the same payload, have the same signing hash, while the
  signers after Berlin hash the data as it stands.\<close>

theorem meta_terms_unsigned:
  assumes "tx_inner tx = TxLegacy t" "IsMetaTransaction (lt_Data t)" "IsMetaTransaction data'"
    and "DecodeMetaData me (lt_Data t) 0 = Inr m" "DecodeMetaData me data' 0 = Inr m'" "md_Payload m' = md_Payload m"
  shows "signer_Hash kec me (EIP155Signer c) (tx\<lparr>tx_inner := TxLegacy (t\<lparr>lt_Data := data'\<rparr>)\<rparr>) =
      signer_Hash kec me (EIP155Signer c) tx \<and>
    signer_Hash kec me (LondonSigner c) tx =
      rlpHash kec (VSlice (plain_fields tx (lt_Data t) @ [VBig (Some c), VUint 0, VUint 0]))"
  using assms by (simp add: eip155_Hash_def london_Hash_def eip2930_Hash_def plain_fields_def tx_fields tx_types)

theorem meta_terms_unsigned_witness:
  "signer_Hash BytesToHash demo_meta (EIP155Signer 1) (NewTransaction 3 7 100 21000 5 (MetaPrefix @ [1]) 0) =
   signer_Hash BytesToHash demo_meta (EIP155Signer 1) (NewTransaction 3 7 100 21000 5 (MetaPrefix @ [1, 2]) 0)"
proof -
  let ?t = "\<lambda>d. \<lparr>lt_Nonce = 3, lt_GasPrice = 5, lt_Gas = 21000, lt_To = Some 7, lt_Value = 100, lt_Data = d,
     lt_V = 0, lt_R = 0, lt_S = 0\<rparr> :: LegacyTx"
  let ?m = "\<lambda>n. \<lparr>md_BlockNumLimit = 100, md_FeePercent = n, md_V = 0, md_R = 0, md_S = 0, md_Payload = []\<rparr> :: MetaData"
  have "IsMetaTransaction (MetaPrefix @ d)" for d
    by (simp add: IsMetaTransaction_def MetaPrefix_def MetaPrefixBytesLen_def)
  moreover have "DecodeMetaData demo_meta (MetaPrefix @ [1, 2]) 0 = Inr (?m 2)" "DecodeMetaData demo_meta (MetaPrefix @ [1]) 0 = Inr (?m 1)"
    by (simp_all add: DecodeMetaData_def demo_meta_def MetaPrefix_def MetaPrefixBytesLen_def BIG10000_def big_Uint64_def)
  ultimately show ?thesis
    using meta_terms_unsigned [of "NewTransaction 3 7 100 21000 5 (MetaPrefix @ [1, 2]) 0" "?t (MetaPrefix @ [1, 2])"
        "MetaPrefix @ [1]" demo_meta "?m 2" "?m 1" BytesToHash 1]
    by (simp add: NewTransaction_def del: signer_Hash.simps)
qed

end
