(* ===== verification/Access_Control.thy ===== *)
theory Access_Control
  imports Congress_Engine Transactions
begin

text \<open>
  Calls to system contracts (\<^verbatim>\<open>consensus/congress/vmcaller\<close>) and what Congress enforces with them: who may create
  contracts, which addresses are denied by the blacklist, and which event logs are denied by the event rules
  (\<^verbatim>\<open>consensus/congress/congress.go\<close> and \<^verbatim>\<open>blacklist_validator.go\<close>).

  The EVM and the ABI encoder are the parameter \<open>vm\<close>: a call maps a message, a header and a state to a result
  and a state.  The blacklist and rule caches are maps; an entry evicted from an LRU cache is an entry the map
  does not have.
\<close>

subsection \<open>System contracts\<close>

definition ValidatorsContractAddr :: address where "ValidatorsContractAddr = 0xf000"
definition PunishContractAddr :: address where "PunishContractAddr = 0xf001"
definition ProposalAddr :: address where "ProposalAddr = 0xf002"
definition SysGovContractAddr :: address where "SysGovContractAddr = 0xf003"
definition AddressListContractAddr :: address where "AddressListContractAddr = 0xf004"
definition ValidatorsV1ContractAddr :: address where "ValidatorsV1ContractAddr = 0xf005"
definition PunishV1ContractAddr :: address where "PunishV1ContractAddr = 0xf006"
definition SysGovToAddr :: address where "SysGovToAddr = 0xffff"

definition DevMappingPosition :: nat where "DevMappingPosition = 2"
definition BlackLastUpdatedNumberPosition :: hash where "BlackLastUpdatedNumberPosition = BytesToHash [7]"
definition RulesLastUpdatedNumberPosition :: hash where "RulesLastUpdatedNumberPosition = BytesToHash [8]"

definition GetValidatorAddr :: "bigint \<Rightarrow> ChainConfig \<Rightarrow> address" where
  "GetValidatorAddr blockNum config =
    (if IsRedCoast config blockNum then ValidatorsV1ContractAddr else ValidatorsContractAddr)"

definition GetPunishAddr :: "bigint \<Rightarrow> ChainConfig \<Rightarrow> address" where
  "GetPunishAddr blockNum config =
    (if IsRedCoast config blockNum then PunishV1ContractAddr else PunishContractAddr)"

subsection \<open>Developer verification\<close>

text \<open>Byte 30 of the slot is the flag; \<^verbatim>\<open>compactValue.Bytes()[HashLength-2]\<close>.\<close>

definition isDeveloperVerificationEnabled :: "backend \<Rightarrow> StateDB \<Rightarrow> bool \<times> StateDB" where
  "isDeveloperVerificationEnabled be s =
    (let (compactValue, s') = GetState be AddressListContractAddr 0 s
     in (hash_bytes compactValue ! (32 - 2) = 1, s'))"

definition calcSlotOfDevMappingKey :: "backend \<Rightarrow> address \<Rightarrow> hash" where
  "calcSlotOfDevMappingKey be a =
    be_keccak be (hash_bytes (ucast a) @ replicate 30 0 @ be_bytes 2 DevMappingPosition)"

definition CanCreate :: "congress \<Rightarrow> backend \<Rightarrow> address \<Rightarrow> bigint \<Rightarrow> StateDB \<Rightarrow> bool \<times> StateDB" where
  "CanCreate c be a height s =
    (if IsRedCoast (cg_chainConfig c) height \<and> EnableDevVerification (cg_config c) then
       (let (enabled, s1) = isDeveloperVerificationEnabled be s
        in if enabled then
             (let (valueHash, s2) = GetState be AddressListContractAddr (calcSlotOfDevMappingKey be a) s1
              in (valueHash \<noteq> 0, s2))
           else (True, s1))
     else (True, s))"

subsection \<open>Calling a contract\<close>

text \<open>The values that the ABI packs and unpacks.\<close>

datatype abi_value =
  AbiAddresses "address list" | AbiAddress address | AbiUints "u64 list" | AbiUint32 u32 | AbiUint8 u8
| AbiBig int | AbiBytes32 hash | AbiBytes bytes

record vm_env =
  vm_evm :: evm_env
  vm_Pack :: "string \<Rightarrow> string \<Rightarrow> abi_value list \<Rightarrow> bytes option"
  vm_Unpack :: "string \<Rightarrow> string \<Rightarrow> bytes \<Rightarrow> abi_value list option"

definition NewLegacyMessage ::
  "address \<Rightarrow> address option \<Rightarrow> u64 \<Rightarrow> int \<Rightarrow> u64 \<Rightarrow> int \<Rightarrow> bytes \<Rightarrow> bool \<Rightarrow> Message" where
  "NewLegacyMessage from to nonce amount gasLimit gasPrice data checkNonce =
    NewMessage from to nonce amount gasLimit gasPrice gasPrice gasPrice data [] checkNonce"

text \<open>The text of the errors of \<^verbatim>\<open>core/vm/errors.go\<close>; the three wrapped errors are cut before their numbers.\<close>

fun vm_error_text :: "vm_error \<Rightarrow> string" where
  "vm_error_text ErrOutOfGas = ''out of gas''"
| "vm_error_text ErrCodeStoreOutOfGas = ''contract creation code storage out of gas''"
| "vm_error_text ErrDepth = ''max call depth exceeded''"
| "vm_error_text ErrInsufficientBalance = ''insufficient balance for transfer''"
| "vm_error_text ErrContractAddressCollision = ''contract address collision''"
| "vm_error_text ErrExecutionReverted = ''execution reverted''"
| "vm_error_text ErrMaxCodeSizeExceeded = ''max code size exceeded''"
| "vm_error_text ErrInvalidJump = ''invalid jump destination''"
| "vm_error_text ErrWriteProtection = ''write protection''"
| "vm_error_text ErrReturnDataOutOfBounds = ''return data out of bounds''"
| "vm_error_text ErrGasUintOverflow = ''gas uint64 overflow''"
| "vm_error_text ErrInvalidCode = ''invalid code: must not begin with 0xef''"
| "vm_error_text ErrUnauthorizedDeveloper = ''unauthorized developer''"
| "vm_error_text ErrNonceUintOverflow = ''nonce uint64 overflow''"
| "vm_error_text ErrAddressDenied = ''address denied''"
| "vm_error_text (ErrStackUnderflow l r) = ''stack underflow''"
| "vm_error_text (ErrStackOverflow l r) = ''stack limit reached''"
| "vm_error_text (ErrInvalidOpCode op) = ''invalid opcode''"
| "vm_error_text (PrecompileError e) = e"

text \<open>The chain context gives the EVM the engine's developer check and the headers of the chain; \<^verbatim>\<open>Author\<close> of a
  header is its coinbase.  A message without a recipient panics.\<close>

definition ExecuteMsg ::
  "congress \<Rightarrow> vm_env \<Rightarrow> backend \<Rightarrow> chain \<Rightarrow> Message \<Rightarrow> Header \<Rightarrow> StateDB \<Rightarrow> (congress_error, bytes) result \<times> StateDB" where
  "ExecuteMsg c vm be ch msg header s =
    (case (NewEVMBlockContext ch (Some (CanCreate c be)) header (h_Coinbase header), msg_to msg) of
       (Some blockContext, Some to) \<Rightarrow>
         (case evm_Call be (vm_evm vm)
                 (NewEVM blockContext (msg_from msg) (msg_gasPrice msg) (cg_chainConfig c) False False)
                 (AccountRef (msg_from msg)) to (msg_data msg) (msg_gasLimit msg) (msg_amount msg) s of
            None \<Rightarrow> (Inl Panic, s)
          | Some (ret, leftOverGas, err, s') \<Rightarrow>
              (case err of None \<Rightarrow> Inr ret | Some e \<Rightarrow> Inl (OtherError (vm_error_text e)), Finalise be True s'))
     | _ \<Rightarrow> (Inl Panic, s))"

definition newMinimalChainContext :: "chain \<Rightarrow> chain" where
  "newMinimalChainContext ch = ch\<lparr>ch_GetHeader := (\<lambda>_ _. None)\<rparr>"

definition commonCallContract ::
  "congress \<Rightarrow> vm_env \<Rightarrow> backend \<Rightarrow> chain \<Rightarrow> Header \<Rightarrow> string \<Rightarrow> address \<Rightarrow> string \<Rightarrow> nat \<Rightarrow> abi_value list \<Rightarrow> StateDB \<Rightarrow>
   (congress_error, abi_value list) result \<times> StateDB" where
  "commonCallContract c vm be ch header contractABI a method expectResultLen args s =
    (case vm_Pack vm contractABI method args of
       None \<Rightarrow> (Inl (OtherError ''pack''), s)
     | Some data \<Rightarrow>
         (let (r, s') = ExecuteMsg c vm be (newMinimalChainContext ch)
              (NewLegacyMessage (h_Coinbase header) (Some a) 0 0 MaxUint64 0 data False) header s
          in case r of
               Inl e \<Rightarrow> (Inl e, s')
             | Inr result \<Rightarrow>
                 (case vm_Unpack vm contractABI method result of
                    None \<Rightarrow> (Inl (OtherError ''unpack''), s')
                  | Some ret \<Rightarrow>
                      if length ret \<noteq> expectResultLen then (Inl (OtherError ''invalid result length''), s')
                      else (Inr ret, s'))))"

subsection \<open>The blacklist\<close>

datatype blacklistDirection = DirectionFrom | DirectionTo | DirectionBoth

type_synonym blacklist = "(address, blacklistDirection) gomap"

record EventCheckRule =
  ecr_EventSig :: hash
  ecr_Checks :: "(int, int) gomap"

record access_caches =
  ac_blacklists :: "(hash, blacklist) gomap"
  ac_eventCheckRules :: "(hash, (hash, EventCheckRule) gomap) gomap"

definition lastBlacklistUpdatedNumber :: "backend \<Rightarrow> StateDB \<Rightarrow> u64 \<times> StateDB" where
  "lastBlacklistUpdatedNumber be s =
    (let (v, s') = GetState be AddressListContractAddr BlackLastUpdatedNumberPosition s in (ucast v, s'))"

definition lastRulesUpdatedNumber :: "backend \<Rightarrow> StateDB \<Rightarrow> u64 \<times> StateDB" where
  "lastRulesUpdatedNumber be s =
    (let (v, s') = GetState be AddressListContractAddr RulesLastUpdatedNumberPosition s in (ucast v, s'))"

text \<open>The closure \<^verbatim>\<open>get\<close> of \<^verbatim>\<open>getBlacklist\<close>.\<close>

definition get_blacks ::
  "congress \<Rightarrow> vm_env \<Rightarrow> backend \<Rightarrow> chain \<Rightarrow> Header \<Rightarrow> string \<Rightarrow> StateDB \<Rightarrow> (congress_error, address list) result \<times> StateDB" where
  "get_blacks c vm be ch header method s =
    (let (r, s') = commonCallContract c vm be ch header ''address_list'' AddressListContractAddr method 1 [] s
     in case r of
          Inl e \<Rightarrow> (Inl e, s')
        | Inr ret \<Rightarrow>
            (case ret of
               [AbiAddresses blacks] \<Rightarrow> (Inr blacks, s')
             | _ \<Rightarrow> (Inl (OtherError ''invalid blacklist format''), s')))"

definition make_blacklist :: "address list \<Rightarrow> address list \<Rightarrow> blacklist" where
  "make_blacklist froms tos =
    fold (\<lambda>t m. gm_set m t (if gm_get m t \<noteq> None then DirectionBoth else DirectionTo)) tos
      (fold (\<lambda>f m. gm_set m f DirectionFrom) froms [])"

text \<open>The lookup of the grandparent's list when the contract has not changed since.  \<open>None\<close> means that the
  contract has to be asked.\<close>

definition inherited_blacklist ::
  "congress \<Rightarrow> backend \<Rightarrow> chain \<Rightarrow> access_caches \<Rightarrow> Header \<Rightarrow> int \<Rightarrow> StateDB \<Rightarrow> blacklist option \<times> StateDB" where
  "inherited_blacklist c be ch ac header hnum s =
    (case SophonBlock (cg_chainConfig c) of
       None \<Rightarrow> (None, s)
     | Some sophon \<Rightarrow>
         if hnum > sophon then
           (let num = big_Uint64 hnum; (lastUpdated, s') = lastBlacklistUpdatedNumber be s
            in if num \<ge> 2 \<and> num > lastUpdated + 1 then
                 (case ch_GetHeader ch (h_ParentHash header) (num - 1) of
                    None \<Rightarrow> (None, s')
                  | Some parent \<Rightarrow> (gm_get (ac_blacklists ac) (h_ParentHash parent), s'))
               else (None, s'))
         else (None, s))"

definition getBlacklist ::
  "congress \<Rightarrow> vm_env \<Rightarrow> backend \<Rightarrow> chain \<Rightarrow> Header \<Rightarrow> access_caches \<Rightarrow> StateDB \<Rightarrow>
   (congress_error, blacklist) result \<times> access_caches \<times> StateDB" where
  "getBlacklist c vm be ch header ac s =
    (case gm_get (ac_blacklists ac) (h_ParentHash header) of
       Some m \<Rightarrow> (Inr m, ac, s)
     | None \<Rightarrow>
         (case h_Number header of
            None \<Rightarrow> (Inl Panic, ac, s)
          | Some hnum \<Rightarrow>
              (case inherited_blacklist c be ch ac header hnum s of
                 (Some m, s1) \<Rightarrow>
                   (Inr m, ac\<lparr>ac_blacklists := gm_set (ac_blacklists ac) (h_ParentHash header) m\<rparr>, s1)
               | (None, s1) \<Rightarrow>
                   (case get_blacks c vm be ch header ''getBlacksFrom'' s1 of
                      (Inl e, s2) \<Rightarrow> (Inl e, ac, s2)
                    | (Inr froms, s2) \<Rightarrow>
                        (case get_blacks c vm be ch header ''getBlacksTo'' s2 of
                           (Inl e, s3) \<Rightarrow> (Inl e, ac, s3)
                         | (Inr tos, s3) \<Rightarrow>
                             (let m = make_blacklist froms tos
                              in (Inr m, ac\<lparr>ac_blacklists := gm_set (ac_blacklists ac) (h_ParentHash header) m\<rparr>, s3)))))))"

definition blacklist_denies :: "blacklist \<Rightarrow> address \<Rightarrow> address option \<Rightarrow> bool" where
  "blacklist_denies m sender to \<longleftrightarrow>
    (case gm_get m sender of Some d \<Rightarrow> d \<noteq> DirectionTo | None \<Rightarrow> False) \<or>
    (case to of None \<Rightarrow> False | Some t \<Rightarrow> (case gm_get m t of Some d \<Rightarrow> d \<noteq> DirectionFrom | None \<Rightarrow> False))"

text \<open>The test \<^verbatim>\<open>RedCoastBlock.Cmp(header.Number) < 0\<close> panics on a header without a number.\<close>

definition ValidateTx ::
  "congress \<Rightarrow> vm_env \<Rightarrow> backend \<Rightarrow> chain \<Rightarrow> address \<Rightarrow> Transaction \<Rightarrow> Header \<Rightarrow> access_caches \<Rightarrow> StateDB \<Rightarrow>
   (congress_error, unit) result \<times> access_caches \<times> StateDB" where
  "ValidateTx c vm be ch sender tx header ac parentState =
    (case RedCoastBlock (cg_chainConfig c) of
       None \<Rightarrow> (Inr (), ac, parentState)
     | Some red \<Rightarrow>
         (case h_Number header of
            None \<Rightarrow> (Inl Panic, ac, parentState)
          | Some hnum \<Rightarrow>
              if red < hnum then
                (case getBlacklist c vm be ch header ac parentState of
                   (Inl e, ac', s') \<Rightarrow> (Inl e, ac', s')
                 | (Inr m, ac', s') \<Rightarrow>
                     (if blacklist_denies m sender (tx_To tx) then Inl (OtherError (vm_error_text ErrAddressDenied)) else Inr (), ac', s'))
              else (Inr (), ac, parentState)))"

definition IsSysTransaction :: "address \<Rightarrow> Transaction \<Rightarrow> Header \<Rightarrow> bool" where
  "IsSysTransaction sender tx header =
    (case tx_To tx of
       None \<Rightarrow> False
     | Some to \<Rightarrow>
         (sender = h_Coinbase header \<and> to = SysGovToAddr \<and> tx_GasPrice tx = 0) \<or>
         (sender = h_Coinbase header \<and> to = SysGovContractAddr))"

subsection \<open>Event rules\<close>

record blacklistValidator =
  bv_blacks :: blacklist
  bv_rules :: "(hash, EventCheckRule) gomap"

definition IsAddressDenied :: "blacklistValidator \<Rightarrow> address \<Rightarrow> int \<Rightarrow> bool" where
  "IsAddressDenied b a cType =
    (case gm_get (bv_blacks b) a of
       None \<Rightarrow> False
     | Some d \<Rightarrow>
         if cType = CheckFrom then d \<noteq> DirectionTo
         else if cType = CheckTo then d \<noteq> DirectionFrom
         else if cType = CheckBothInAny then True
         else False)"

text \<open>The loop over the checks of a rule; a negative index panics.\<close>

fun checks_loop :: "blacklistValidator \<Rightarrow> hash list \<Rightarrow> (int, int) gomap \<Rightarrow> bool option" where
  "checks_loop b topics [] = Some False"
| "checks_loop b topics ((idx, checkType) # checks) =
     (if idx \<ge> int (length topics) then checks_loop b topics checks
      else if idx < 0 then None
      else if IsAddressDenied b (BytesToAddress (hash_bytes (topics ! nat idx))) checkType then Some True
      else checks_loop b topics checks)"

definition IsLogDenied :: "blacklistValidator \<Rightarrow> Log option \<Rightarrow> bool option" where
  "IsLogDenied b evLog =
    (case evLog of
       None \<Rightarrow> Some False
     | Some l \<Rightarrow>
         if length (lg_Topics l) \<le> 1 then Some False
         else (case gm_get (bv_rules b) (lg_Topics l ! 0) of
                 None \<Rightarrow> Some False
               | Some rule \<Rightarrow> checks_loop b (lg_Topics l) (ecr_Checks rule)))"

definition getEventCheckRulesLen ::
  "congress \<Rightarrow> vm_env \<Rightarrow> backend \<Rightarrow> chain \<Rightarrow> Header \<Rightarrow> StateDB \<Rightarrow> (congress_error, nat) result \<times> StateDB" where
  "getEventCheckRulesLen c vm be ch header s =
    (let (r, s') = commonCallContract c vm be ch header ''address_list'' AddressListContractAddr ''rulesLen'' 1 [] s
     in case r of
          Inl e \<Rightarrow> (Inl e, s')
        | Inr ret \<Rightarrow>
            (case ret of [AbiUint32 ln] \<Rightarrow> (Inr (unat ln), s') | _ \<Rightarrow> (Inl (OtherError ''unexpected output type''), s')))"

text \<open>The closure \<^verbatim>\<open>get\<close>.  The type assertions panic on other types; the index is converted through
  \<^verbatim>\<open>uint64\<close> to a signed \<^verbatim>\<open>int\<close>.\<close>

definition get_rule ::
  "congress \<Rightarrow> vm_env \<Rightarrow> backend \<Rightarrow> chain \<Rightarrow> Header \<Rightarrow> u32 \<Rightarrow> StateDB \<Rightarrow> (congress_error, hash \<times> int \<times> int) result \<times> StateDB" where
  "get_rule c vm be ch header i s =
    (let (r, s') = commonCallContract c vm be ch header ''address_list'' AddressListContractAddr ''getRuleByIndex'' 3 [AbiUint32 i] s
     in case r of
          Inl e \<Rightarrow> (Inl e, s')
        | Inr ret \<Rightarrow>
            (case ret of
               [AbiBytes32 sig, AbiBig idx, AbiUint8 ct] \<Rightarrow> (Inr (sig, sint (big_Uint64 idx), uint ct), s')
             | _ \<Rightarrow> (Inl Panic, s')))"

definition add_rule :: "hash \<Rightarrow> int \<Rightarrow> int \<Rightarrow> (hash, EventCheckRule) gomap \<Rightarrow> (hash, EventCheckRule) gomap" where
  "add_rule sig idx ct rules =
    (let rule = (case gm_get rules sig of Some r \<Rightarrow> r | None \<Rightarrow> \<lparr>ecr_EventSig = sig, ecr_Checks = []\<rparr>)
     in gm_set rules sig (rule\<lparr>ecr_Checks := gm_set (ecr_Checks rule) idx ct\<rparr>))"

fun rules_loop ::
  "congress \<Rightarrow> vm_env \<Rightarrow> backend \<Rightarrow> chain \<Rightarrow> Header \<Rightarrow> nat list \<Rightarrow> (hash, EventCheckRule) gomap \<Rightarrow> StateDB \<Rightarrow>
   (congress_error, (hash, EventCheckRule) gomap) result \<times> StateDB" where
  "rules_loop c vm be ch header [] rules s = (Inr rules, s)"
| "rules_loop c vm be ch header (i # is) rules s =
     (case get_rule c vm be ch header (of_nat i) s of
        (Inl e, s') \<Rightarrow> (Inl e, s')
      | (Inr (sig, idx, ct), s') \<Rightarrow> rules_loop c vm be ch header is (add_rule sig idx ct rules) s')"

definition inherited_rules ::
  "backend \<Rightarrow> chain \<Rightarrow> access_caches \<Rightarrow> Header \<Rightarrow> u64 \<Rightarrow> StateDB \<Rightarrow> (hash, EventCheckRule) gomap option \<times> StateDB" where
  "inherited_rules be ch ac header num s =
    (let (lastUpdated, s') = lastRulesUpdatedNumber be s
     in if num \<ge> 2 \<and> num > lastUpdated + 1 then
          (case ch_GetHeader ch (h_ParentHash header) (num - 1) of
             None \<Rightarrow> (None, s')
           | Some parent \<Rightarrow> (gm_get (ac_eventCheckRules ac) (h_ParentHash parent), s'))
        else (None, s'))"

definition getEventCheckRules ::
  "congress \<Rightarrow> vm_env \<Rightarrow> backend \<Rightarrow> chain \<Rightarrow> Header \<Rightarrow> access_caches \<Rightarrow> StateDB \<Rightarrow>
   (congress_error, (hash, EventCheckRule) gomap) result \<times> access_caches \<times> StateDB" where
  "getEventCheckRules c vm be ch header ac s =
    (case gm_get (ac_eventCheckRules ac) (h_ParentHash header) of
       Some m \<Rightarrow> (Inr m, ac, s)
     | None \<Rightarrow>
         (case h_Number header of
            None \<Rightarrow> (Inl Panic, ac, s)
          | Some hnum \<Rightarrow>
              (case inherited_rules be ch ac header (big_Uint64 hnum) s of
                 (Some m, s1) \<Rightarrow>
                   (Inr m, ac\<lparr>ac_eventCheckRules := gm_set (ac_eventCheckRules ac) (h_ParentHash header) m\<rparr>, s1)
               | (None, s1) \<Rightarrow>
                   (case getEventCheckRulesLen c vm be ch header s1 of
                      (Inl e, s2) \<Rightarrow> (Inl e, ac, s2)
                    | (Inr cnt, s2) \<Rightarrow>
                        (case rules_loop c vm be ch header [0..<cnt] [] s2 of
                           (Inl e, s3) \<Rightarrow> (Inl e, ac, s3)
                         | (Inr rules, s3) \<Rightarrow>
                             (Inr rules, ac\<lparr>ac_eventCheckRules := gm_set (ac_eventCheckRules ac) (h_ParentHash header) rules\<rparr>,
                              s3))))))"

text \<open>A nil validator means that the EVM checks nothing.  A panic is \<open>Inl Panic\<close>.\<close>

definition CreateEvmExtraValidator ::
  "congress \<Rightarrow> vm_env \<Rightarrow> backend \<Rightarrow> chain \<Rightarrow> Header \<Rightarrow> access_caches \<Rightarrow> StateDB \<Rightarrow>
   (congress_error, blacklistValidator option) result \<times> access_caches \<times> StateDB" where
  "CreateEvmExtraValidator c vm be ch header ac s =
    (case SophonBlock (cg_chainConfig c) of
       None \<Rightarrow> (Inr None, ac, s)
     | Some sophon \<Rightarrow>
         (case h_Number header of
            None \<Rightarrow> (Inl Panic, ac, s)
          | Some hnum \<Rightarrow>
              if sophon < hnum then
                (case getBlacklist c vm be ch header ac s of
                   (Inl e, ac1, s1) \<Rightarrow> (if e = Panic then Inl Panic else Inr None, ac1, s1)
                 | (Inr blacks, ac1, s1) \<Rightarrow>
                     (case getEventCheckRules c vm be ch header ac1 s1 of
                        (Inl e, ac2, s2) \<Rightarrow> (if e = Panic then Inl Panic else Inr None, ac2, s2)
                      | (Inr rules, ac2, s2) \<Rightarrow> (Inr (Some \<lparr>bv_blacks = blacks, bv_rules = rules\<rparr>), ac2, s2)))
              else (Inr None, ac, s)))"


section \<open>Properties\<close>

text \<open>The developer check reads the state only, as the frames of the EVM require.\<close>

lemma CanCreate_reads:
  assumes "in_tx be s"
  shows "ops_to be s (snd (CanCreate c be a h s))" "same_view be (snd (CanCreate c be a h s)) s"
proof -
  let ?s1 = "snd (GetState be AddressListContractAddr 0 s)"
  let ?s2 = "snd (GetState be AddressListContractAddr (calcSlotOfDevMappingKey be a) ?s1)"
  note r1 = GetState_reads [OF assms, of AddressListContractAddr 0]
  note r2 = GetState_reads [OF ops_to_in_tx [OF r1(1) assms], of AddressListContractAddr "calcSlotOfDevMappingKey be a"]
  have "snd (CanCreate c be a h s) \<in> {s, ?s1, ?s2}"
    by (simp add: CanCreate_def isDeveloperVerificationEnabled_def Let_def case_prod_beta)
  then show "ops_to be s (snd (CanCreate c be a h s))" "same_view be (snd (CanCreate c be a h s)) s"
    using r1 r2 ops_to_trans [OF r1(1) r2(1)] same_view_trans [OF r2(2) r1(2)] by auto
qed

lemma engine_create_reads:
  "create_reads be (NewEVM (ctx\<lparr>bc_CanCreate := Some (CanCreate c be)\<rparr>) origin gasPrice cfg noRecursion noBaseFee)"
  unfolding create_reads_def may_create_def NewEVM_def using CanCreate_reads by simp

subsection \<open>The caches\<close>

text \<open>Both caches hold, per block hash, a value that the contract had in the state of that block.  A cache is
  coherent with a function \<open>truth\<close> from block hashes to such values when every entry is the value of its key.\<close>

locale block_memo =
  fixes look :: "'c \<Rightarrow> hash \<Rightarrow> 'v option" and put :: "'c \<Rightarrow> hash \<Rightarrow> 'v \<Rightarrow> 'c"
  assumes look_put: "look (put c h v) k = (if k = h then Some v else look c k)"
begin

lemma memo_put:
  "\<forall>h v. look c h = Some v \<longrightarrow> v = truth h \<Longrightarrow>
   \<forall>h v. look (put c k (truth k)) h = Some v \<longrightarrow> v = truth h"
  by (simp add: look_put)

lemma memo_put_hit:
  "\<forall>h v. look c h = Some v \<longrightarrow> v = truth h \<Longrightarrow> look (put c k (truth k)) k = Some (truth k)"
  by (simp add: look_put)

end

interpretation bl: block_memo "\<lambda>ac. gm_get (ac_blacklists ac)"
  "\<lambda>ac h m. ac\<lparr>ac_blacklists := gm_set (ac_blacklists ac) h m\<rparr>"
  by unfold_locales simp

interpretation er: block_memo "\<lambda>ac. gm_get (ac_eventCheckRules ac)"
  "\<lambda>ac h m. ac\<lparr>ac_eventCheckRules := gm_set (ac_eventCheckRules ac) h m\<rparr>"
  by unfold_locales simp

subsection \<open>The blacklist\<close>

lemma fold_froms:
  "gm_get (fold (\<lambda>f m. gm_set m f DirectionFrom) froms m) a =
    (if a \<in> set froms then Some DirectionFrom else gm_get m a)"
  by (induction froms arbitrary: m) auto

lemma fold_tos:
  assumes "distinct tos"
  shows "gm_get (fold (\<lambda>t m. gm_set m t (if gm_get m t \<noteq> None then DirectionBoth else DirectionTo)) tos m) a =
    (if a \<in> set tos then Some (if gm_get m a \<noteq> None then DirectionBoth else DirectionTo) else gm_get m a)"
  using assms by (induction tos arbitrary: m) auto

lemma gm_get_make_blacklist:
  assumes "distinct tos"
  shows "gm_get (make_blacklist froms tos) a =
    (if a \<in> set froms then Some (if a \<in> set tos then DirectionBoth else DirectionFrom)
     else if a \<in> set tos then Some DirectionTo else None)"
  unfolding make_blacklist_def fold_tos [OF assms] fold_froms by simp

lemma blacklist_denies_make:
  assumes "distinct tos"
  shows "blacklist_denies (make_blacklist froms tos) sender to \<longleftrightarrow>
    sender \<in> set froms \<or> (\<exists>t. to = Some t \<and> t \<in> set tos)"
  by (auto simp: blacklist_denies_def gm_get_make_blacklist [OF assms] split: option.splits)

lemma IsAddressDenied_make:
  assumes "distinct tos" and "bv_blacks b = make_blacklist froms tos"
  shows "IsAddressDenied b a ct \<longleftrightarrow>
    ct = CheckFrom \<and> a \<in> set froms \<or> ct = CheckTo \<and> a \<in> set tos \<or>
    ct = CheckBothInAny \<and> (a \<in> set froms \<or> a \<in> set tos)"
  by (auto simp: IsAddressDenied_def assms(2) gm_get_make_blacklist [OF assms(1)] check_consts)

text \<open>What the engine relies on in the AddressList contract, for the states \<open>Q\<close> of the parent block: reading a
  slot or calling a getter stays in \<open>Q\<close>, the getters return the lists \<open>froms\<close> and \<open>tos\<close>, and the slot with
  the number of the last update is at least the parent's number when the lists differ from the grandparent's.\<close>

definition lists_served ::
  "congress \<Rightarrow> vm_env \<Rightarrow> backend \<Rightarrow> chain \<Rightarrow> Header \<Rightarrow> (hash \<Rightarrow> address list) \<Rightarrow> (hash \<Rightarrow> address list) \<Rightarrow> (StateDB \<Rightarrow> bool) \<Rightarrow> bool" where
  "lists_served c vm be ch header froms tos Q \<longleftrightarrow>
    (\<forall>s. Q s \<longrightarrow> Q (snd (lastBlacklistUpdatedNumber be s)) \<and>
       (\<exists>s'. Q s' \<and> get_blacks c vm be ch header ''getBlacksFrom'' s = (Inr (froms (h_ParentHash header)), s')) \<and>
       (\<exists>s'. Q s' \<and> get_blacks c vm be ch header ''getBlacksTo'' s = (Inr (tos (h_ParentHash header)), s')))"

definition update_recorded ::
  "backend \<Rightarrow> chain \<Rightarrow> Header \<Rightarrow> u64 \<Rightarrow> (hash \<Rightarrow> address list) \<Rightarrow> (hash \<Rightarrow> address list) \<Rightarrow> (StateDB \<Rightarrow> bool) \<Rightarrow> bool" where
  "update_recorded be ch header num froms tos Q \<longleftrightarrow>
    (\<forall>s parent. Q s \<longrightarrow> ch_GetHeader ch (h_ParentHash header) (num - 1) = Some parent \<longrightarrow>
       froms (h_ParentHash parent) \<noteq> froms (h_ParentHash header) \<or>
       tos (h_ParentHash parent) \<noteq> tos (h_ParentHash header) \<longrightarrow>
       num - 1 \<le> fst (lastBlacklistUpdatedNumber be s) \<and> fst (lastBlacklistUpdatedNumber be s) < MaxUint64)"

definition blacks_coherent :: "(hash \<Rightarrow> address list) \<Rightarrow> (hash \<Rightarrow> address list) \<Rightarrow> access_caches \<Rightarrow> bool" where
  "blacks_coherent froms tos ac \<longleftrightarrow>
    (\<forall>h m. gm_get (ac_blacklists ac) h = Some m \<longrightarrow> m = make_blacklist (froms h) (tos h))"

lemma blacks_coherent_put:
  "blacks_coherent froms tos ac \<Longrightarrow>
   blacks_coherent froms tos (ac\<lparr>ac_blacklists := gm_set (ac_blacklists ac) h (make_blacklist (froms h) (tos h))\<rparr>)"
  unfolding blacks_coherent_def by (rule bl.memo_put)

lemma not_recorded: "(n::u64) > l + 1 \<Longrightarrow> l < MaxUint64 \<Longrightarrow> \<not> n - 1 \<le> l"
  unfolding MaxUint64_def by unat_arith

lemma inherited_blacklist_sound:
  assumes co: "blacks_coherent froms tos ac" and Q: "Q s" "lists_served c vm be ch header froms tos Q"
    and up: "update_recorded be ch header (big_Uint64 hnum) froms tos Q"
    and r: "inherited_blacklist c be ch ac header hnum s = (r, s')"
  shows "Q s' \<and> (r = None \<or> r = Some (make_blacklist (froms (h_ParentHash header)) (tos (h_ParentHash header))))"
proof (cases r)
  case None
  have "s' = s \<or> s' = snd (lastBlacklistUpdatedNumber be s)" using r
    by (auto simp: inherited_blacklist_def Let_def split: option.splits if_splits prod.splits)
  then show ?thesis using None Q by (auto simp: lists_served_def)
next
  case (Some m)
  let ?n = "big_Uint64 hnum" and ?l = "lastBlacklistUpdatedNumber be s"
  from r Some obtain parent where p: "?n \<ge> 2" "?n > fst ?l + 1" "s' = snd ?l"
    "ch_GetHeader ch (h_ParentHash header) (?n - 1) = Some parent"
    "gm_get (ac_blacklists ac) (h_ParentHash parent) = Some m"
    by (auto simp: inherited_blacklist_def Let_def split: option.splits if_splits prod.splits)
  have "\<not> (?n - 1 \<le> fst ?l \<and> fst ?l < MaxUint64)"
    using not_recorded [OF p(2)] by blast
  with up Q(1) p(4) have "froms (h_ParentHash parent) = froms (h_ParentHash header)"
    "tos (h_ParentHash parent) = tos (h_ParentHash header)" unfolding update_recorded_def by blast+
  with co p(5) have "m = make_blacklist (froms (h_ParentHash header)) (tos (h_ParentHash header))"
    by (metis blacks_coherent_def)
  with Some p(3) Q show ?thesis by (simp add: lists_served_def)
qed

lemma getBlacklist_served:
  assumes co: "blacks_coherent froms tos ac" and Q: "Q s" and served: "lists_served c vm be ch header froms tos Q"
    and n: "h_Number header = Some hnum" and up: "update_recorded be ch header (big_Uint64 hnum) froms tos Q"
  shows "\<exists>ac' s'. getBlacklist c vm be ch header ac s =
      (Inr (make_blacklist (froms (h_ParentHash header)) (tos (h_ParentHash header))), ac', s') \<and>
    blacks_coherent froms tos ac' \<and> ac_eventCheckRules ac' = ac_eventCheckRules ac \<and> Q s'"
proof (cases "gm_get (ac_blacklists ac) (h_ParentHash header)")
  case (Some m)
  then show ?thesis using co Q by (auto simp: getBlacklist_def blacks_coherent_def)
next
  case None
  obtain r s1 where r: "inherited_blacklist c be ch ac header hnum s = (r, s1)" by fastforce
  note i = inherited_blacklist_sound [OF co Q served up r]
  show ?thesis
  proof (cases r)
    case (Some m)
    then show ?thesis using i blacks_coherent_put [OF co] by (simp add: getBlacklist_def None n r)
  next
    case none: None
    from i served obtain s2 where s2: "Q s2"
      "get_blacks c vm be ch header ''getBlacksFrom'' s1 = (Inr (froms (h_ParentHash header)), s2)"
      by (auto simp: lists_served_def)
    from s2(1) served obtain s3 where s3: "Q s3"
      "get_blacks c vm be ch header ''getBlacksTo'' s2 = (Inr (tos (h_ParentHash header)), s3)"
      by (auto simp: lists_served_def)
    show ?thesis using none s2(2) s3 blacks_coherent_put [OF co]
      by (simp add: getBlacklist_def None n r Let_def)
  qed
qed

text \<open>C31. Once the RedCoast fork is past, \<^verbatim>\<open>ValidateTx\<close> denies a transaction exactly when the contract lists
  its sender among the denied senders or its recipient among the denied recipients, in the state of the parent
  block.  This holds whether the list comes from the cache, from the grandparent's entry or from the contract, and
  the cache stays coherent.  The contract is a hypothesis: it serves the lists of the parent block, without a
  recipient twice, and records the block of their last change.\<close>

theorem ValidateTx_exact:
  assumes "blacks_coherent froms tos ac" "Q parentState" "lists_served c vm be ch header froms tos Q"
    "h_Number header = Some hnum" "update_recorded be ch header (big_Uint64 hnum) froms tos Q"
    "RedCoastBlock (cg_chainConfig c) = Some red" "red < hnum" "distinct (tos (h_ParentHash header))"
  shows "\<exists>ac' s'. ValidateTx c vm be ch sender tx header ac parentState =
      (if sender \<in> set (froms (h_ParentHash header)) \<or>
          (\<exists>t. tx_To tx = Some t \<and> t \<in> set (tos (h_ParentHash header)))
       then Inl (OtherError (vm_error_text ErrAddressDenied)) else Inr (), ac', s') \<and>
    blacks_coherent froms tos ac' \<and> Q s'"
proof -
  from getBlacklist_served [OF assms(1-5)] obtain ac' s' where
    "getBlacklist c vm be ch header ac parentState =
      (Inr (make_blacklist (froms (h_ParentHash header)) (tos (h_ParentHash header))), ac', s')"
    "blacks_coherent froms tos ac'" "Q s'" by blast
  then show ?thesis using assms(4,6,7) by (simp add: ValidateTx_def blacklist_denies_make [OF assms(8)])
qed

text \<open>A contract that always serves the lists \<open>[7]\<close> and \<open>[8]\<close>.\<close>

definition quiet_env :: evm_env where
  "quiet_env = \<lparr>ee_Run = (\<lambda>evm c input readOnly s. Some ([], None, ct_Gas c, s)),
    ee_Homestead = [], ee_Byzantium = [], ee_Istanbul = [], ee_Berlin = []\<rparr>"

definition demo_vm :: vm_env where
  "demo_vm =
    \<lparr>vm_evm = quiet_env, vm_Pack = (\<lambda>abi method args. Some []),
     vm_Unpack = (\<lambda>abi method bs.
       Some (if method = ''getBlacksFrom'' then [AbiAddresses [7]] else if method = ''getBlacksTo'' then [AbiAddresses [8]]
             else if method = ''rulesLen'' then [AbiUint32 1] else [AbiBytes32 5, AbiBig 1, AbiUint8 1]))\<rparr>"

lemma quiet_call:
  assumes "evm_depth evm = 0"
  shows "\<exists>left s'. evm_Call be quiet_env evm caller a input gas 0 s = Some ([], left, None, s')"
proof -
  have p: "precompile quiet_env evm a = None" by (simp add: precompile_def active_table_def quiet_env_def)
  have r: "ee_Run quiet_env = (\<lambda>evm c input readOnly s. Some ([], None, ct_Gas c, s))" by (simp add: quiet_env_def)
  show ?thesis
    using assms by (auto simp: evm_Call_def p r end_frame_def CallCreateDepth_def Let_def split: prod.split)
qed

lemma demo_block_context: "NewEVMBlockContext ch f (demo_block n v d t) coinbase \<noteq> None"
  by (simp add: NewEVMBlockContext_def demo_block_def)

lemma demo_execute:
  assumes "vm_evm vm = quiet_env" "msg_to msg \<noteq> None" "msg_amount msg = 0"
  shows "\<exists>s'. ExecuteMsg c vm be ch msg (demo_block n v d t) s = (Inr [], s')"
proof -
  obtain ctx where ctx: "NewEVMBlockContext ch (Some (CanCreate c be)) (demo_block n v d t) (h_Coinbase (demo_block n v d t)) = Some ctx"
    using demo_block_context by fastforce
  obtain left s' where "evm_Call be quiet_env (NewEVM ctx (msg_from msg) (msg_gasPrice msg) (cg_chainConfig c) False False)
      (AccountRef (msg_from msg)) (the (msg_to msg)) (msg_data msg) (msg_gasLimit msg) 0 s = Some ([], left, None, s')"
    using quiet_call [of "NewEVM ctx (msg_from msg) (msg_gasPrice msg) (cg_chainConfig c) False False"]
    by (metis NewEVM_def EVM.select_convs(4))
  then show ?thesis using assms ctx by (auto simp: ExecuteMsg_def)
qed

lemma demo_common_call:
  assumes "vm_evm vm = quiet_env" "vm_Pack vm contractABI method args = Some data"
    "vm_Unpack vm contractABI method [] = Some ret" "length ret = len"
  shows "\<exists>s'. commonCallContract c vm be ch (demo_block n v d t) contractABI a method len args s = (Inr ret, s')"
proof -
  let ?msg = "NewLegacyMessage (h_Coinbase (demo_block n v d t)) (Some a) 0 0 MaxUint64 0 data False"
  have "msg_to ?msg \<noteq> None" "msg_amount ?msg = 0" by (simp_all add: NewLegacyMessage_def NewMessage_def)
  from demo_execute [OF assms(1) this] obtain s' where
    "ExecuteMsg c vm be (newMinimalChainContext ch) ?msg (demo_block n v d t) s = (Inr [], s')" by blast
  then show ?thesis using assms(2-4) by (simp add: commonCallContract_def)
qed

lemma demo_vm_call:
  "\<exists>s'. commonCallContract c demo_vm be ch (demo_block n v d t) contractABI a ''getBlacksFrom'' 1 [] s = (Inr [AbiAddresses [7]], s')"
  "\<exists>s'. commonCallContract c demo_vm be ch (demo_block n v d t) contractABI a ''getBlacksTo'' 1 [] s = (Inr [AbiAddresses [8]], s')"
  "\<exists>s'. commonCallContract c demo_vm be ch (demo_block n v d t) contractABI a ''rulesLen'' 1 [] s = (Inr [AbiUint32 1], s')"
  "\<exists>s'. commonCallContract c demo_vm be ch (demo_block n v d t) contractABI a ''getRuleByIndex'' 3 args s =
    (Inr [AbiBytes32 5, AbiBig 1, AbiUint8 1], s')"
  by (rule demo_common_call [where data = "[]"]; simp add: demo_vm_def)+

definition demo_list_engine :: congress where
  "demo_list_engine =
    demo_engine\<lparr>cg_chainConfig := MainnetChainConfig\<lparr>RedCoastBlock := Some 0, SophonBlock := Some 0\<rparr>\<rparr>"

abbreviation demo_chain :: chain where
  "demo_chain \<equiv> hc_chain MainnetChainConfig (genesis_db demo_kec demo_genesis)"

abbreviation demo_tx :: "address \<Rightarrow> Transaction" where
  "demo_tx t \<equiv> NewTransaction 0 t 0 21000 1 [] 0"

lemma demo_lists_served: "lists_served c demo_vm be ch (demo_block n v d t) (\<lambda>_. [7]) (\<lambda>_. [8]) (\<lambda>_. True)"
proof -
  have "\<exists>s'. get_blacks c demo_vm be ch (demo_block n v d t) ''getBlacksFrom'' s = (Inr [7], s')"
    "\<exists>s'. get_blacks c demo_vm be ch (demo_block n v d t) ''getBlacksTo'' s = (Inr [8], s')" for s
    using demo_vm_call(1,2) [of c be ch n v d t "''address_list''" AddressListContractAddr s] by (auto simp: get_blacks_def)
  then show ?thesis by (simp add: lists_served_def)
qed

theorem ValidateTx_exact_witness:
  "(\<exists>ac' s'. ValidateTx demo_list_engine demo_vm demo_be demo_chain 7 (demo_tx 1) (demo_block 8 1 1 5)
     \<lparr>ac_blacklists = [], ac_eventCheckRules = []\<rparr> (state_New None) = (Inl (OtherError (vm_error_text ErrAddressDenied)), ac', s')) \<and>
   (\<exists>ac' s'. ValidateTx demo_list_engine demo_vm demo_be demo_chain 8 (demo_tx 7) (demo_block 8 1 1 5)
     \<lparr>ac_blacklists = [], ac_eventCheckRules = []\<rparr> (state_New None) = (Inr (), ac', s'))"
proof -
  have a: "blacks_coherent (\<lambda>_. [7]) (\<lambda>_. [8]) \<lparr>ac_blacklists = [], ac_eventCheckRules = []\<rparr>"
    "update_recorded demo_be demo_chain (demo_block 8 1 1 5) (big_Uint64 8) (\<lambda>_. [7]) (\<lambda>_. [8]) (\<lambda>_. True)"
    "h_Number (demo_block 8 1 1 5) = Some 8" "RedCoastBlock (cg_chainConfig demo_list_engine) = Some 0"
    by (simp_all add: blacks_coherent_def update_recorded_def demo_block_def demo_list_engine_def)
  note v = ValidateTx_exact [where Q = "\<lambda>_. True" and parentState = "state_New None", OF a(1) TrueI demo_lists_served a(3) a(2) a(4)]
  show ?thesis
    using v [of 7 "demo_tx 1"] v [of 8 "demo_tx 7"] by (auto simp: NewTransaction_def tx_To_def)
qed

subsection \<open>Event rules\<close>

lemma checks_loop_ex:
  assumes "\<forall>(i, ct) \<in> set checks. 0 \<le> i"
  shows "checks_loop b topics checks = Some (\<exists>(i, ct) \<in> set checks. i < int (length topics) \<and>
    IsAddressDenied b (BytesToAddress (hash_bytes (topics ! nat i))) ct)"
  using assms by (induction b topics checks rule: checks_loop.induct) auto

definition rule_checks :: "(hash, EventCheckRule) gomap \<Rightarrow> hash \<Rightarrow> (int, int) gomap" where
  "rule_checks rules sig = (case gm_get rules sig of None \<Rightarrow> [] | Some r \<Rightarrow> ecr_Checks r)"

text \<open>The check type that the rules of the contract give to an index of an event: the last one wins.\<close>

definition last_rule :: "(hash \<times> int \<times> int) list \<Rightarrow> hash \<Rightarrow> int \<Rightarrow> int option" where
  "last_rule rs sig idx = map_of (rev (map (\<lambda>(sg, i, ct). ((sg, i), ct)) rs)) (sig, idx)"

definition collect_rules :: "(hash \<times> int \<times> int) list \<Rightarrow> (hash, EventCheckRule) gomap \<Rightarrow> (hash, EventCheckRule) gomap" where
  "collect_rules rs = fold (\<lambda>(sig, idx, ct). add_rule sig idx ct) rs"

lemma rule_checks_add:
  "rule_checks (add_rule sg i ct rules) sig = (if sig = sg then gm_set (rule_checks rules sg) i ct else rule_checks rules sig)"
  by (simp add: rule_checks_def add_rule_def Let_def split: option.split)

lemma collect_rules_ok:
  "\<forall>sig. gm_ok (rule_checks rules sig) \<Longrightarrow> gm_ok (rule_checks (collect_rules rs rules) sig)"
  by (induction rs arbitrary: rules) (auto simp: collect_rules_def rule_checks_add)

lemma collect_rules_get:
  "gm_get (rule_checks (collect_rules rs rules) sig) idx =
    (case last_rule rs sig idx of Some ct \<Rightarrow> Some ct | None \<Rightarrow> gm_get (rule_checks rules sig) idx)"
proof (induction rs arbitrary: rules)
  case Nil
  then show ?case by (simp add: collect_rules_def last_rule_def)
next
  case (Cons r rs)
  obtain sg i ct where r: "r = (sg, i, ct)" by (cases r)
  have c: "collect_rules (r # rs) rules = collect_rules rs (add_rule sg i ct rules)"
    by (simp add: r collect_rules_def)
  have l: "last_rule (r # rs) sig idx =
      (case last_rule rs sig idx of Some ct \<Rightarrow> Some ct | None \<Rightarrow> if sig = sg \<and> idx = i then Some ct else None)"
    by (simp add: r last_rule_def map_add_def split: option.split)
  show ?case unfolding c l Cons.IH by (simp add: rule_checks_add split: option.split)
qed

lemma collected_checks:
  "(idx, ct) \<in> set (rule_checks (collect_rules rs []) sig) \<longleftrightarrow> last_rule rs sig idx = Some ct"
proof -
  have "gm_ok (rule_checks (collect_rules rs []) sig)"
    by (rule collect_rules_ok) (simp add: rule_checks_def)
  then have "(idx, ct) \<in> set (rule_checks (collect_rules rs []) sig) \<longleftrightarrow>
      gm_get (rule_checks (collect_rules rs []) sig) idx = Some ct" by (rule gm_get_set_iff [symmetric])
  also have "\<dots> \<longleftrightarrow> last_rule rs sig idx = Some ct"
    unfolding collect_rules_get by (simp add: rule_checks_def split: option.split)
  finally show ?thesis .
qed

lemma last_rule_in: "last_rule rs sig idx = Some ct \<Longrightarrow> (sig, idx, ct) \<in> set rs"
  by (auto simp: last_rule_def dest!: map_of_SomeD)

lemma IsLogDenied_collected:
  assumes pos: "\<forall>(sig, i, ct) \<in> set rs. 0 \<le> i" and b: "bv_rules b = collect_rules rs []"
  shows "IsLogDenied b (Some l) = Some (1 < length (lg_Topics l) \<and>
    (\<exists>i < length (lg_Topics l). \<exists>ct. last_rule rs (lg_Topics l ! 0) (int i) = Some ct \<and>
       IsAddressDenied b (BytesToAddress (hash_bytes (lg_Topics l ! i))) ct))"
proof (cases "1 < length (lg_Topics l)")
  case False
  then show ?thesis by (simp add: IsLogDenied_def)
next
  case True
  let ?c = "rule_checks (bv_rules b) (lg_Topics l ! 0)" and ?t = "lg_Topics l"
  have d: "IsLogDenied b (Some l) = checks_loop b ?t ?c"
    using True by (simp add: IsLogDenied_def rule_checks_def split: option.split)
  have m: "(i, ct) \<in> set ?c \<longleftrightarrow> last_rule rs (?t ! 0) i = Some ct" for i ct
    unfolding b by (rule collected_checks)
  have p: "0 \<le> i" if "last_rule rs sig i = Some ct" for sig i ct
    using last_rule_in [OF that] pos by fastforce
  have "checks_loop b ?t ?c = Some (\<exists>(i, ct) \<in> set ?c. i < int (length ?t) \<and>
      IsAddressDenied b (BytesToAddress (hash_bytes (?t ! nat i))) ct)"
    by (rule checks_loop_ex) (auto simp: m p)
  also have "(\<exists>(i, ct) \<in> set ?c. i < int (length ?t) \<and> IsAddressDenied b (BytesToAddress (hash_bytes (?t ! nat i))) ct) \<longleftrightarrow>
      (\<exists>i < length ?t. \<exists>ct. last_rule rs (?t ! 0) (int i) = Some ct \<and>
        IsAddressDenied b (BytesToAddress (hash_bytes (?t ! i))) ct)" (is "?l \<longleftrightarrow> ?r")
  proof
    assume ?l
    then obtain i ct where i: "last_rule rs (?t ! 0) i = Some ct" "i < int (length ?t)"
      "IsAddressDenied b (BytesToAddress (hash_bytes (?t ! nat i))) ct" by (auto simp: m)
    with p [OF i(1)] show ?r by (intro exI [of _ "nat i"]) auto
  next
    assume ?r
    then obtain i ct where "i < length ?t" "(int i, ct) \<in> set ?c"
      "IsAddressDenied b (BytesToAddress (hash_bytes (?t ! i))) ct" by (auto simp: m)
    then show ?l by (intro bexI [of _ "(int i, ct)"]) auto
  qed
  finally show ?thesis using True d by simp
qed

text \<open>What the engine relies on in the contract for the rules, as for the lists.\<close>

definition rules_served ::
  "congress \<Rightarrow> vm_env \<Rightarrow> backend \<Rightarrow> chain \<Rightarrow> Header \<Rightarrow> (hash \<Rightarrow> (hash \<times> int \<times> int) list) \<Rightarrow> (StateDB \<Rightarrow> bool) \<Rightarrow> bool" where
  "rules_served c vm be ch header rs Q \<longleftrightarrow>
    (\<forall>s. Q s \<longrightarrow> Q (snd (lastRulesUpdatedNumber be s)) \<and>
       (\<exists>s'. Q s' \<and> getEventCheckRulesLen c vm be ch header s = (Inr (length (rs (h_ParentHash header))), s')) \<and>
       (\<forall>i < length (rs (h_ParentHash header)).
          \<exists>s'. Q s' \<and> get_rule c vm be ch header (of_nat i) s = (Inr (rs (h_ParentHash header) ! i), s')))"

definition rules_recorded ::
  "backend \<Rightarrow> chain \<Rightarrow> Header \<Rightarrow> u64 \<Rightarrow> (hash \<Rightarrow> (hash \<times> int \<times> int) list) \<Rightarrow> (StateDB \<Rightarrow> bool) \<Rightarrow> bool" where
  "rules_recorded be ch header num rs Q \<longleftrightarrow>
    (\<forall>s parent. Q s \<longrightarrow> ch_GetHeader ch (h_ParentHash header) (num - 1) = Some parent \<longrightarrow>
       rs (h_ParentHash parent) \<noteq> rs (h_ParentHash header) \<longrightarrow>
       num - 1 \<le> fst (lastRulesUpdatedNumber be s) \<and> fst (lastRulesUpdatedNumber be s) < MaxUint64)"

definition rules_coherent :: "(hash \<Rightarrow> (hash \<times> int \<times> int) list) \<Rightarrow> access_caches \<Rightarrow> bool" where
  "rules_coherent rs ac \<longleftrightarrow> (\<forall>h m. gm_get (ac_eventCheckRules ac) h = Some m \<longrightarrow> m = collect_rules (rs h) [])"

lemma rules_coherent_put:
  "rules_coherent rs ac \<Longrightarrow>
   rules_coherent rs (ac\<lparr>ac_eventCheckRules := gm_set (ac_eventCheckRules ac) h (collect_rules (rs h) [])\<rparr>)"
  unfolding rules_coherent_def by (rule er.memo_put)

lemma coherent_other_cache [simp]:
  "blacks_coherent froms tos (ac\<lparr>ac_eventCheckRules := x\<rparr>) = blacks_coherent froms tos ac"
  by (simp add: blacks_coherent_def)

lemma inherited_rules_sound:
  assumes co: "rules_coherent rs ac" and Q: "Q s" "rules_served c vm be ch header rs Q"
    and up: "rules_recorded be ch header num rs Q" and r: "inherited_rules be ch ac header num s = (r, s')"
  shows "Q s' \<and> (r = None \<or> r = Some (collect_rules (rs (h_ParentHash header)) []))"
proof -
  let ?l = "lastRulesUpdatedNumber be s"
  have s': "s' = snd ?l" using r
    by (auto simp: inherited_rules_def Let_def split: option.splits if_splits prod.splits)
  have "m = collect_rules (rs (h_ParentHash header)) []" if "r = Some m" for m
  proof -
    from r that obtain parent where p: "num > fst ?l + 1"
      "ch_GetHeader ch (h_ParentHash header) (num - 1) = Some parent"
      "gm_get (ac_eventCheckRules ac) (h_ParentHash parent) = Some m"
      by (auto simp: inherited_rules_def Let_def split: option.splits if_splits prod.splits)
    have "rs (h_ParentHash parent) = rs (h_ParentHash header)"
      using not_recorded [OF p(1)] up Q(1) p(2) unfolding rules_recorded_def by blast
    then show ?thesis using co p(3) by (metis rules_coherent_def)
  qed
  then show ?thesis using Q s' by (cases r) (simp_all add: rules_served_def)
qed

lemma rules_loop_served:
  assumes "\<And>s i. Q s \<Longrightarrow> i \<in> set is \<Longrightarrow> \<exists>s'. Q s' \<and> get_rule c vm be ch header (of_nat i) s = (Inr (f i), s')" and "Q s"
  shows "\<exists>s'. Q s' \<and> rules_loop c vm be ch header is rules s = (Inr (collect_rules (map f is) rules), s')"
  using assms
proof (induction "is" arbitrary: rules s)
  case Nil
  then show ?case by (simp add: collect_rules_def)
next
  case (Cons i "is")
  then obtain s' where s': "Q s'" "get_rule c vm be ch header (of_nat i) s = (Inr (f i), s')" by fastforce
  obtain sig idx ct where f: "f i = (sig, idx, ct)" by (cases "f i")
  from Cons.IH [OF Cons.prems(1) s'(1)] show ?case
    by (simp add: s'(2) f collect_rules_def)
qed

lemma getEventCheckRules_served:
  assumes co: "rules_coherent rs ac" and Q: "Q s" and served: "rules_served c vm be ch header rs Q"
    and n: "h_Number header = Some hnum" and up: "rules_recorded be ch header (big_Uint64 hnum) rs Q"
  shows "\<exists>ac' s'. getEventCheckRules c vm be ch header ac s =
      (Inr (collect_rules (rs (h_ParentHash header)) []), ac', s') \<and>
    rules_coherent rs ac' \<and> ac_blacklists ac' = ac_blacklists ac \<and> Q s'"
proof (cases "gm_get (ac_eventCheckRules ac) (h_ParentHash header)")
  case (Some m)
  then show ?thesis using co Q by (auto simp: getEventCheckRules_def rules_coherent_def)
next
  case None
  let ?rs = "rs (h_ParentHash header)"
  obtain r s1 where r: "inherited_rules be ch ac header (big_Uint64 hnum) s = (r, s1)" by fastforce
  note i = inherited_rules_sound [OF co Q served up r]
  show ?thesis
  proof (cases r)
    case (Some m)
    then show ?thesis using i rules_coherent_put [OF co] by (simp add: getEventCheckRules_def None n r)
  next
    case none: None
    from i served obtain s2 where s2: "Q s2" "getEventCheckRulesLen c vm be ch header s1 = (Inr (length ?rs), s2)"
      by (auto simp: rules_served_def)
    obtain s3 where s3: "Q s3"
      "rules_loop c vm be ch header [0..<length ?rs] [] s2 = (Inr (collect_rules (map ((!) ?rs) [0..<length ?rs]) []), s3)"
      using rules_loop_served [of Q "[0..<length ?rs]" c vm be ch header "(!) ?rs" s2 "[]"] served s2(1)
      by (auto simp: rules_served_def)
    show ?thesis using none s2(2) s3 rules_coherent_put [OF co]
      by (simp add: getEventCheckRules_def None n r map_nth)
  qed
qed

text \<open>C32. After the Sophon fork the validator that Congress hands to the EVM denies an event log exactly when the
  log has an indexed topic, the last rule that the contract has for the event and the position of a topic asks for
  a check, and the address in that topic is on the list that the check names.  The order of the rules in the Go
  map does not matter, and neither does the source of the list and the rules (cache, grandparent or contract).
  This holds under these conditions: in every state that the run passes through, the contract answers the queries
  for the two lists and for the rules, and if the lists or the rules differ from those at the grandparent, its
  number of the last update is at least the parent's (and not the largest 64-bit number, to which one is added);
  the caches hold only lists and rules that the contract had at the cached block; no address is listed twice among the recipients (a repeated recipient would be denied as a sender too); and the topic indices of the
  rules are below \<open>2 ^ 63\<close>, so that \<^verbatim>\<open>int(idx)\<close> is not negative (a greater index makes \<^verbatim>\<open>IsLogDenied\<close> panic).\<close>

theorem CreateEvmExtraValidator_exact:
  assumes "blacks_coherent froms tos ac" "rules_coherent rs ac" "Q parentState"
    "lists_served c vm be ch header froms tos Q" "rules_served c vm be ch header rs Q" "h_Number header = Some hnum"
    "update_recorded be ch header (big_Uint64 hnum) froms tos Q" "rules_recorded be ch header (big_Uint64 hnum) rs Q"
    "SophonBlock (cg_chainConfig c) = Some sophon" "sophon < hnum"
    "distinct (tos (h_ParentHash header))" "\<forall>(sig, i, ct) \<in> set (rs (h_ParentHash header)). 0 \<le> i"
  shows "\<exists>v ac' s'. CreateEvmExtraValidator c vm be ch header ac parentState = (Inr (Some v), ac', s') \<and>
    blacks_coherent froms tos ac' \<and> rules_coherent rs ac' \<and> Q s' \<and>
    (\<forall>l. IsLogDenied v (Some l) = Some (1 < length (lg_Topics l) \<and>
      (\<exists>i < length (lg_Topics l). \<exists>ct. last_rule (rs (h_ParentHash header)) (lg_Topics l ! 0) (int i) = Some ct \<and>
        (let a = BytesToAddress (hash_bytes (lg_Topics l ! i));
             sender = a \<in> set (froms (h_ParentHash header)); receiver = a \<in> set (tos (h_ParentHash header))
         in ct = CheckFrom \<and> sender \<or> ct = CheckTo \<and> receiver \<or> ct = CheckBothInAny \<and> (sender \<or> receiver)))))"
proof -
  let ?f = "froms (h_ParentHash header)" and ?t = "tos (h_ParentHash header)" and ?r = "rs (h_ParentHash header)"
  obtain ac1 s1 where b: "getBlacklist c vm be ch header ac parentState = (Inr (make_blacklist ?f ?t), ac1, s1)"
    "blacks_coherent froms tos ac1" "ac_eventCheckRules ac1 = ac_eventCheckRules ac" "Q s1"
    using getBlacklist_served [OF assms(1,3,4,6,7)] by blast
  have "rules_coherent rs ac1" using assms(2) b(3) by (simp add: rules_coherent_def)
  from getEventCheckRules_served [OF this b(4) assms(5,6,8)] obtain ac2 s2 where
    r: "getEventCheckRules c vm be ch header ac1 s1 = (Inr (collect_rules ?r []), ac2, s2)"
    "rules_coherent rs ac2" "ac_blacklists ac2 = ac_blacklists ac1" "Q s2" by blast
  let ?v = "\<lparr>bv_blacks = make_blacklist ?f ?t, bv_rules = collect_rules ?r []\<rparr>"
  have "CreateEvmExtraValidator c vm be ch header ac parentState = (Inr (Some ?v), ac2, s2)"
    using assms(6,9,10) b(1) r(1) by (simp add: CreateEvmExtraValidator_def)
  moreover have "blacks_coherent froms tos ac2" using b(2) r(3) by (simp add: blacks_coherent_def)
  ultimately show ?thesis using r(2,4)
    by (simp add: IsLogDenied_collected [OF assms(12)] IsAddressDenied_make [OF assms(11)] Let_def)
qed

lemma demo_rules_served: "rules_served c demo_vm be ch (demo_block n v d t) (\<lambda>_. [(5, 1, 1)]) (\<lambda>_. True)"
proof -
  have "\<exists>s'. getEventCheckRulesLen c demo_vm be ch (demo_block n v d t) s = (Inr 1, s')"
    "\<exists>s'. get_rule c demo_vm be ch (demo_block n v d t) i s = (Inr (5, 1, 1), s')" for s i
    using demo_vm_call(3) [of c be ch n v d t "''address_list''" AddressListContractAddr s]
      demo_vm_call(4) [of c be ch n v d t "''address_list''" AddressListContractAddr "[AbiUint32 i]" s]
    by (auto simp: getEventCheckRulesLen_def get_rule_def big_Uint64_def)
  then show ?thesis by (simp add: rules_served_def)
qed

definition demo_log :: "hash list \<Rightarrow> Log" where
  "demo_log topics = \<lparr>lg_Address = 1, lg_Topics = topics, lg_Data = [], lg_BlockNumber = 8, lg_TxHash = 0, lg_TxIndex = 0,
     lg_BlockHash = 0, lg_Index = 0, lg_Removed = False\<rparr>"

theorem CreateEvmExtraValidator_exact_witness:
  "\<exists>v ac' s'. CreateEvmExtraValidator demo_list_engine demo_vm demo_be demo_chain (demo_block 8 1 1 5)
      \<lparr>ac_blacklists = [], ac_eventCheckRules = []\<rparr> (state_New None) = (Inr (Some v), ac', s') \<and>
    IsLogDenied v (Some (demo_log [5, 7])) = Some True \<and> IsLogDenied v (Some (demo_log [5, 8])) = Some False"
proof -
  have a: "blacks_coherent (\<lambda>_. [7]) (\<lambda>_. [8]) \<lparr>ac_blacklists = [], ac_eventCheckRules = []\<rparr>"
    "rules_coherent (\<lambda>_. [(5, 1, 1)]) \<lparr>ac_blacklists = [], ac_eventCheckRules = []\<rparr>"
    "update_recorded demo_be demo_chain (demo_block 8 1 1 5) (big_Uint64 8) (\<lambda>_. [7]) (\<lambda>_. [8]) (\<lambda>_. True)"
    "rules_recorded demo_be demo_chain (demo_block 8 1 1 5) (big_Uint64 8) (\<lambda>_. [(5, 1, 1)]) (\<lambda>_. True)"
    "h_Number (demo_block 8 1 1 5) = Some 8" "SophonBlock (cg_chainConfig demo_list_engine) = Some 0"
    by (simp_all add: blacks_coherent_def rules_coherent_def update_recorded_def rules_recorded_def demo_block_def
        demo_list_engine_def)
  have b: "BytesToAddress (hash_bytes 7) = 7" "BytesToAddress (hash_bytes 8) = 8" "BytesToAddress (hash_bytes 5) = 5"
    by code_simp+
  show ?thesis
    using CreateEvmExtraValidator_exact [where Q = "\<lambda>_. True" and parentState = "state_New None",
        OF a(1,2) TrueI demo_lists_served demo_rules_served a(5,3,4,6)]
    by (fastforce simp: demo_log_def last_rule_def check_consts b less_Suc_eq)
qed

text \<open>A rule whose topic index is at least $2^{63}$ becomes a negative \<^verbatim>\<open>int\<close> in the engine, passes the
  test \<^verbatim>\<open>idx >= len(evLog.Topics)\<close>, and makes \<^verbatim>\<open>IsLogDenied\<close> panic on every log of that event with an indexed
  topic.\<close>

theorem huge_rule_index_panics:
  assumes "commonCallContract c vm be ch header ''address_list'' AddressListContractAddr ''getRuleByIndex'' 3 [AbiUint32 i] s =
      (Inr [AbiBytes32 sig, AbiBig idx, AbiUint8 ct], s')"
    and "2 ^ 63 \<le> idx" "idx < 2 ^ 64" "1 < length (lg_Topics l)" "lg_Topics l ! 0 = sig"
  shows "\<exists>r. get_rule c vm be ch header i s = (Inr r, s') \<and>
    IsLogDenied \<lparr>bv_blacks = m, bv_rules = collect_rules [r] []\<rparr> (Some l) = None"
proof -
  have "(idx + 2 ^ 63) mod 2 ^ 64 = idx - 2 ^ 63"
    using assms(2,3) mod_pos_pos_trivial [of "idx - 2 ^ 63" "2 ^ 64"] mod_add_self2 [of "idx - 2 ^ 63" "2 ^ 64"]
    by (simp add: add.commute)
  then have "sint (big_Uint64 idx) = idx - 2 ^ 64"
    using assms(2) by (simp add: big_Uint64_def sint_uint uint_word_of_int signed_take_bit_eq_take_bit_shift take_bit_eq_mod mod_simps)
  then show ?thesis using assms
    by (simp add: get_rule_def IsLogDenied_def collect_rules_def add_rule_def Let_def gm_set_def)
qed

theorem huge_rule_index_panics_witness:
  "\<exists>r s'. get_rule demo_list_engine (demo_vm\<lparr>vm_Unpack := \<lambda>_ _ _. Some [AbiBytes32 5, AbiBig (2 ^ 63), AbiUint8 1]\<rparr>) demo_be
      demo_chain (demo_block 8 1 1 5) 0 (state_New None) = (Inr r, s') \<and>
    IsLogDenied \<lparr>bv_blacks = [], bv_rules = collect_rules [r] []\<rparr> (Some (demo_log [5, 7])) = None"
proof -
  let ?vm = "demo_vm\<lparr>vm_Unpack := \<lambda>_ _ _. Some [AbiBytes32 5, AbiBig (2 ^ 63), AbiUint8 1]\<rparr>"
  obtain s' where "commonCallContract demo_list_engine ?vm demo_be demo_chain (demo_block 8 1 1 5) ''address_list''
      AddressListContractAddr ''getRuleByIndex'' 3 [AbiUint32 0] (state_New None) =
      (Inr [AbiBytes32 5, AbiBig (2 ^ 63), AbiUint8 1], s')"
    using demo_common_call [of ?vm "''address_list''" "''getRuleByIndex''" "[AbiUint32 0]" "[]"
        "[AbiBytes32 5, AbiBig (2 ^ 63), AbiUint8 1]" 3 demo_list_engine demo_be demo_chain 8 1 1 5 AddressListContractAddr
        "state_New None"] by (auto simp: demo_vm_def)
  from huge_rule_index_panics [OF this, of "demo_log [5, 7]" "[]"] show ?thesis by (auto simp: demo_log_def)
qed

end
