(* ===== verification/Reward_Scaling.thy ===== *)
theory Reward_Scaling
  imports Complex_Main Transactions
begin

text \<open>
  The amounts that Congress reports to the validators contract with the block reward
  (\<^verbatim>\<open>consensus/congress/congress.go\<close>, in \<^verbatim>\<open>Finalize\<close> and \<^verbatim>\<open>FinalizeAndAssemble\<close>): the gas limit times the gas price
  of every transaction, scaled down with \<^verbatim>\<open>float64\<close> arithmetic when their sum exceeds the collected fee.  The
  arithmetic is that of IEEE 754 binary64, rounding to nearest, ties to even; the values that occur are
  non-negative and neither subnormal nor infinite.
\<close>

subsection \<open>Binary64 arithmetic\<close>

lemma big_BitLen_code [code]: "big_BitLen i = (if i = 0 then 0 else Suc (big_BitLen (\<bar>i\<bar> div 2)))"
proof -
  have "nat \<bar>i\<bar> div 2 = nat \<bar>\<bar>i\<bar> div 2\<bar>" by (simp add: nat_div_distrib)
  then show ?thesis by (simp add: big_BitLen_def nat_BitLen.simps [of "nat \<bar>i\<bar>"])
qed

text \<open>A non-negative float is a pair of an integer \<open>m\<close> and an exponent \<open>e\<close>, with value \<open>m * 2 ^ e\<close>.  \<open>scale n d e\<close> is
  the fraction \<open>n / d\<close> divided by \<open>2 ^ e\<close>; \<open>round64\<close> rounds a fraction to 53 bits, ties to even.\<close>

type_synonym float = "int \<times> int"

definition scale :: "int \<Rightarrow> int \<Rightarrow> int \<Rightarrow> int \<times> int" where
  "scale n d e = (if 0 \<le> e then (n, d * 2 ^ nat e) else (n * 2 ^ nat (- e), d))"

definition div_even :: "int \<Rightarrow> int \<Rightarrow> int" where
  "div_even n d =
    (let q = n div d; r = n mod d in if 2 * r < d then q else if 2 * r > d then q + 1 else if even q then q else q + 1)"

definition frac_exponent :: "int \<Rightarrow> int \<Rightarrow> int" where
  "frac_exponent n d =
    (let k = int (big_BitLen n) - int (big_BitLen d); (n1, d1) = scale n d k in if n1 \<ge> d1 then k else k - 1)"

definition round64 :: "int \<Rightarrow> int \<Rightarrow> float" where
  "round64 n d =
    (if n = 0 then (0, 0) else (let e = frac_exponent n d - 52; (n1, d1) = scale n d e in (div_even n1 d1, e)))"

definition float64 :: "u64 \<Rightarrow> float" where
  "float64 x = round64 (uint x) 1"

definition float_mul :: "float \<Rightarrow> float \<Rightarrow> float" where
  "float_mul x y = (let (n, d) = scale (fst x * fst y) 1 (- (snd x + snd y)) in round64 n d)"

definition float_div :: "float \<Rightarrow> float \<Rightarrow> float" where
  "float_div x y = (let (n, d) = scale (fst x) (fst y) (snd y - snd x) in round64 n d)"

text \<open>The conversion of a value out of range is implementation-defined in Go: the parameter \<open>ov\<close>.\<close>

definition float_uint64 :: "u64 \<Rightarrow> float \<Rightarrow> u64" where
  "float_uint64 ov x =
    (let (n, d) = scale (fst x) 1 (- snd x); i = n div d in if i < 2 ^ 64 then word_of_int i else ov)"

subsection \<open>The fees of the transactions\<close>

definition reward_addrs :: "Transaction list \<Rightarrow> address list" where
  "reward_addrs txs = map (\<lambda>tx. case tx_To tx of None \<Rightarrow> 0 | Some a \<Rightarrow> a) txs"

definition reward_gass :: "Transaction list \<Rightarrow> u64 list" where
  "reward_gass txs = map (\<lambda>tx. tx_Gas tx * big_Uint64 (tx_GasPrice tx)) txs"

definition decreaseAmount :: "u64 \<Rightarrow> u64 \<Rightarrow> u64 \<Rightarrow> u64 \<Rightarrow> u64" where
  "decreaseAmount ov totalGasSum feeUint64 gas =
    (let percentDifference = float_mul (float_div (float64 (totalGasSum - feeUint64)) (float64 totalGasSum)) (100, 0)
     in float_uint64 ov (float_mul (float64 gas) (float_div percentDifference (100, 0))))"

definition scale_gass :: "u64 \<Rightarrow> int \<Rightarrow> u64 list \<Rightarrow> u64 list" where
  "scale_gass ov fee gass =
    (let totalGasSum = sum_list gass; feeUint64 = big_Uint64 fee
     in if totalGasSum > feeUint64 then map (\<lambda>g. g - decreaseAmount ov totalGasSum feeUint64 g) gass else gass)"


subsection \<open>Rounding errors\<close>

definition fval :: "float \<Rightarrow> real" where
  "fval x = of_int (fst x) * 2 powi snd x"

lemma scale_frac:
  assumes "scale n d e = (n1, d1)" "0 < d" "0 \<le> n"
  shows "0 < d1" "0 \<le> n1" "real_of_int n1 / of_int d1 = of_int n / of_int d / 2 powi e" "0 < n \<Longrightarrow> 0 < n1"
  using assms by (auto simp: scale_def power_int_def divide_simps split: if_splits)

lemma div_even_error:
  assumes "0 < d"
  shows "\<bar>of_int (div_even n d) - real_of_int n / of_int d\<bar> \<le> 1 / 2"
proof -
  let ?q = "n div d" and ?r = "n mod d"
  have n: "real_of_int n = of_int ?q * of_int d + of_int ?r"
    by (metis div_mult_mod_eq of_int_add of_int_mult)
  have f: "real_of_int n / of_int d = of_int ?q + of_int ?r / of_int d"
    using assms by (simp add: n field_simps)
  have r: "0 \<le> ?r" "?r < d" using assms by auto
  define x where "x = real_of_int ?r / of_int d"
  have "0 \<le> x" using r assms by (simp add: x_def)
  moreover have "x \<le> 1 / 2" if "2 * ?r \<le> d"
    using that assms by (simp add: x_def divide_simps)
  moreover have "1 / 2 \<le> x" "x < 1" if "2 * ?r \<ge> d"
    using that assms r(2) by (simp_all add: x_def divide_simps)
  moreover have "\<bar>of_int (div_even n d) - (of_int ?q + x)\<bar> = \<bar>(if div_even n d = ?q then 0 else 1) - x\<bar>"
    by (auto simp: div_even_def Let_def)
  moreover have "div_even n d = ?q \<and> 2 * ?r \<le> d \<or> div_even n d \<noteq> ?q \<and> d \<le> 2 * ?r"
    by (auto simp: div_even_def Let_def)
  ultimately show ?thesis unfolding f x_def [symmetric] by auto
qed

lemma BitLen_bounds: "0 < n \<Longrightarrow> 2 ^ big_BitLen n \<le> 2 * real_of_int n \<and> real_of_int n < 2 ^ big_BitLen n"
proof -
  assume n: "0 < n"
  let ?L = "big_BitLen n"
  have b: "2 ^ (?L - 1) \<le> nat n" "nat n < 2 ^ ?L"
    using nat_BitLen_bounds [of "nat n"] n by (simp_all add: big_BitLen_def)
  have "?L \<noteq> 0" using b(2) n by (auto intro: ccontr)
  then obtain k where k: "?L = Suc k" by (cases ?L) auto
  have "real (2 ^ k) \<le> real (nat n)" using b(1) k by (simp only: of_nat_le_iff) simp
  moreover have "real (nat n) < real (2 ^ ?L)" using b(2) by (simp only: of_nat_less_iff)
  ultimately show ?thesis using n k by simp
qed

lemma frac_exponent_bounds:
  assumes "0 < n" "0 < d"
  shows "2 powi frac_exponent n d \<le> real_of_int n / of_int d" "real_of_int n / of_int d < 2 * 2 powi frac_exponent n d"
proof -
  let ?a = "big_BitLen n" and ?b = "big_BitLen d" and ?q = "real_of_int n / of_int d"
  let ?k = "int ?a - int ?b"
  obtain n1 d1 where s: "scale n d ?k = (n1, d1)" by fastforce
  have d1: "0 < d1" and q1: "real_of_int n1 / of_int d1 = ?q / 2 powi ?k"
    using scale_frac [OF s] assms by auto
  have p: "(2::real) powi ?k = 2 ^ ?a / 2 ^ ?b" by (simp add: power_int_diff)
  have nb: "2 ^ ?a \<le> 2 * real_of_int n" "real_of_int n < 2 ^ ?a"
    and db: "2 ^ ?b \<le> 2 * real_of_int d" "real_of_int d < 2 ^ ?b"
    using BitLen_bounds assms by auto
  have "real_of_int n * 2 ^ ?b < 2 ^ ?a * (2 * of_int d)"
    using nb db assms by (intro mult_less_le_imp_less) auto
  then have hi: "?q < 2 * 2 powi ?k" using assms by (simp add: p field_simps)
  have "2 ^ ?a * real_of_int d \<le> 2 * real_of_int n * 2 ^ ?b"
    using nb db assms by (intro mult_mono) auto
  then have lo: "2 powi ?k \<le> 2 * ?q" using assms by (simp add: p field_simps)
  have test: "d1 \<le> n1 \<longleftrightarrow> 2 powi ?k \<le> ?q"
  proof -
    have "d1 \<le> n1 \<longleftrightarrow> 1 \<le> real_of_int n1 / of_int d1" using d1 by (simp add: le_divide_eq)
    also have "\<dots> \<longleftrightarrow> 2 powi ?k \<le> ?q" unfolding q1 by (subst le_divide_eq_1_pos) auto
    finally show ?thesis .
  qed
  have half: "(2::real) powi (?k - 1) = 2 powi ?k / 2" by (simp add: power_int_diff)
  show "2 powi frac_exponent n d \<le> ?q" "?q < 2 * 2 powi frac_exponent n d"
    using hi lo test half by (auto simp: frac_exponent_def s Let_def)
qed

lemma round64_error:
  assumes "0 \<le> n" "0 < d"
  shows "\<bar>fval (round64 n d) - real_of_int n / of_int d\<bar> \<le> real_of_int n / of_int d / 2 ^ 53" "0 \<le> fst (round64 n d)"
proof -
  have "\<bar>fval (round64 n d) - real_of_int n / of_int d\<bar> \<le> real_of_int n / of_int d / 2 ^ 53 \<and> 0 \<le> fst (round64 n d)"
  proof (cases "n = 0")
    case False
    then have n: "0 < n" using assms by simp
    let ?E = "frac_exponent n d" and ?q = "real_of_int n / of_int d"
    let ?e = "?E - 52"
    obtain n1 d1 where s: "scale n d ?e = (n1, d1)" by fastforce
    have d1: "0 < d1" "0 \<le> n1" and q1: "real_of_int n1 / of_int d1 = ?q / 2 powi ?e" using scale_frac [OF s] assms n by auto
    have r: "round64 n d = (div_even n1 d1, ?e)" using False s by (simp add: round64_def)
    have "\<bar>of_int (div_even n1 d1) - ?q / 2 powi ?e\<bar> \<le> 1 / 2"
      using div_even_error [OF d1(1), of n1] by (simp add: q1)
    then have "\<bar>of_int (div_even n1 d1) - ?q / 2 powi ?e\<bar> * 2 powi ?e \<le> 1 / 2 * 2 powi ?e"
      by (intro mult_right_mono) auto
    then have "\<bar>(of_int (div_even n1 d1) - ?q / 2 powi ?e) * 2 powi ?e\<bar> \<le> 2 powi ?e / 2"
      by (simp add: abs_mult)
    then have err: "\<bar>fval (round64 n d) - ?q\<bar> \<le> 2 powi ?e / 2"
      by (simp add: fval_def r left_diff_distrib)
    have "(2::real) powi ?e = 2 powi ?E / 2 ^ 52" by (simp add: power_int_diff)
    then have "2 powi ?e / 2 \<le> ?q / 2 ^ 53" using frac_exponent_bounds(1) [OF n assms(2)] by simp
    moreover have "0 \<le> div_even n1 d1" using d1 by (auto simp: div_even_def Let_def pos_imp_zdiv_nonneg_iff add_nonneg_nonneg)
    ultimately show ?thesis using err r by simp
  qed (simp add: round64_def fval_def)
  then show "\<bar>fval (round64 n d) - real_of_int n / of_int d\<bar> \<le> real_of_int n / of_int d / 2 ^ 53" "0 \<le> fst (round64 n d)" by auto
qed


definition eps :: real where
  "eps = 1 / 2 ^ 53"

lemma eps_bounds: "0 < eps" "eps < 1"
  by (simp_all add: eps_def)

text \<open>A value within the rounding error of an exact result.\<close>

definition near :: "real \<Rightarrow> real \<Rightarrow> bool" where
  "near a x \<longleftrightarrow> x * (1 - eps) \<le> a \<and> a \<le> x * (1 + eps)"

lemma round64_near: "0 \<le> n \<Longrightarrow> 0 < d \<Longrightarrow> near (fval (round64 n d)) (real_of_int n / of_int d)"
  using round64_error(1) [of n d] unfolding near_def abs_le_iff eps_def by (simp add: algebra_simps)

lemma near_pos: "near a x \<Longrightarrow> 0 < x \<Longrightarrow> 0 < a"
  unfolding near_def using eps_bounds by (intro less_le_trans [of 0 "x * (1 - eps)" a]) auto

lemma zero_less_mult_pos2_iff: "0 < b \<Longrightarrow> 0 < a * b \<longleftrightarrow> 0 < a" for a b :: real
  by (simp add: zero_less_mult_iff)

lemma fval_pos: "0 < fval x \<longleftrightarrow> 0 < fst x"
  unfolding fval_def by (subst zero_less_mult_pos2_iff) simp_all

lemma float64_near: "near (fval (float64 x)) (real_of_int (uint x))" "0 \<le> fst (float64 x)"
  using round64_near [of "uint x" 1] round64_error(2) [of "uint x" 1] by (simp_all add: float64_def)

lemma float_mul_near:
  assumes "0 \<le> fst x" "0 \<le> fst y"
  shows "near (fval (float_mul x y)) (fval x * fval y)" "0 \<le> fst (float_mul x y)"
proof -
  obtain n d where s: "scale (fst x * fst y) 1 (- (snd x + snd y)) = (n, d)" by fastforce
  note sc = scale_frac [OF s]
  have "real_of_int n / of_int d = fval x * fval y"
  proof -
    have "(2::real) powi (- (snd x + snd y)) = 1 / (2 powi snd x * 2 powi snd y)"
      by (simp only: power_int_minus power_int_add [of "2::real"]) (simp add: inverse_eq_divide power_int_add)
    then show ?thesis using sc(3) assms by (simp add: fval_def)
  qed
  then show "near (fval (float_mul x y)) (fval x * fval y)" "0 \<le> fst (float_mul x y)"
    using round64_near [of n d] round64_error(2) [of n d] sc assms unfolding float_mul_def s by simp_all
qed

lemma float_div_near:
  assumes "0 \<le> fst x" "0 < fst y"
  shows "near (fval (float_div x y)) (fval x / fval y)" "0 \<le> fst (float_div x y)"
proof -
  obtain n d where s: "scale (fst x) (fst y) (snd y - snd x) = (n, d)" by fastforce
  note sc = scale_frac [OF s]
  have "real_of_int n / of_int d = fval x / fval y"
    using sc(3) assms by (simp add: fval_def power_int_diff divide_simps)
  then show "near (fval (float_div x y)) (fval x / fval y)" "0 \<le> fst (float_div x y)"
    using round64_near [of n d] round64_error(2) [of n d] sc assms by (simp_all add: float_div_def s)
qed

text \<open>Bounds \<open>L * x \<le> a \<le> H * x\<close> compose.\<close>

definition in_band :: "real \<Rightarrow> real \<Rightarrow> real \<Rightarrow> real \<Rightarrow> bool" where
  "in_band l h a x \<longleftrightarrow> x * l \<le> a \<and> a \<le> x * h"

lemma in_band_near: "in_band l h a x \<Longrightarrow> near b a \<Longrightarrow> 0 \<le> x \<Longrightarrow> in_band (l * (1 - eps)) (h * (1 + eps)) b x"
proof -
  assume a: "in_band l h a x" "near b a" "0 \<le> x"
  have "x * l * (1 - eps) \<le> a * (1 - eps)" "a * (1 + eps) \<le> x * h * (1 + eps)"
    using a(1) eps_bounds unfolding in_band_def by (intro mult_right_mono; simp)+
  then show ?thesis using a(2) unfolding in_band_def near_def by (simp add: mult.assoc)
qed

lemma in_band_mult:
  assumes "in_band l h a x" "in_band l' h' b y" "0 \<le> x" "0 \<le> y" "0 \<le> l" "0 \<le> l'" "0 \<le> h" "0 \<le> h'"
  shows "in_band (l * l') (h * h') (a * b) (x * y)"
proof -
  have a: "0 \<le> x * l" "x * l \<le> a" "a \<le> x * h" and b: "0 \<le> y * l'" "y * l' \<le> b" "b \<le> y * h'"
    using assms by (auto simp: in_band_def)
  have "(x * l) * (y * l') \<le> a * b" using a b by (intro mult_mono) auto
  moreover have "a * b \<le> (x * h) * (y * h')"
    using a b assms order_trans [OF b(1,2)] by (intro mult_mono) auto
  ultimately show ?thesis by (simp add: in_band_def ac_simps)
qed

lemma in_band_divide:
  assumes "in_band l h a x" "in_band l' h' b y" "0 \<le> x" "0 < y" "0 \<le> l" "0 < l'" "0 \<le> h" "0 < h'"
  shows "in_band (l / h') (h / l') (a / b) (x / y)"
proof -
  have a: "0 \<le> x * l" "x * l \<le> a" "a \<le> x * h" and b: "0 < y * l'" "y * l' \<le> b" "b \<le> y * h'"
    using assms by (auto simp: in_band_def)
  have "(x * l) / (y * h') \<le> a / b" using a b by (intro frac_le) auto
  moreover have "a / b \<le> (x * h) / (y * l')" using a b by (intro frac_le) auto
  ultimately show ?thesis by (simp add: in_band_def)
qed

lemma near_in_band: "near a x \<longleftrightarrow> in_band (1 - eps) (1 + eps) a x"
  by (simp add: near_def in_band_def)


declare of_int_uint [simp del]

lemma uint_sub_le: "F \<le> T \<Longrightarrow> uint (T - F :: u64) = uint T - uint F"
  using uint_minus_simple_alt [of F T] by simp

lemma near_near: "in_band l h a x \<Longrightarrow> near b (a * k) \<Longrightarrow> 0 \<le> x \<Longrightarrow> 0 < k \<Longrightarrow>
  in_band (l * (1 - eps)) (h * (1 + eps)) (b / k) x"
proof -
  assume a: "in_band l h a x" "near b (a * k)" "0 \<le> x" "0 < k"
  have "near (b / k) a" using a(2,4) by (simp add: near_def field_simps)
  then show ?thesis using in_band_near [OF a(1) _ a(3)] by simp
qed

lemma eps_powers:
  "1 - 8 * eps \<le> (1 - eps) * ((1 - eps) / (1 + eps) * (1 - eps) * (1 - eps) * (1 - eps)) * (1 - eps)"
  "(1 + eps) * ((1 + eps) / (1 - eps) * (1 + eps) * (1 + eps) * (1 + eps)) * (1 + eps) \<le> 1 + 8 * eps"
  by (simp_all add: eps_def)

definition decrease_float :: "u64 \<Rightarrow> u64 \<Rightarrow> u64 \<Rightarrow> float" where
  "decrease_float totalGasSum feeUint64 gas = float_mul (float64 gas)
     (float_div (float_mul (float_div (float64 (totalGasSum - feeUint64)) (float64 totalGasSum)) (100, 0)) (100, 0))"

lemma decrease_band:
  assumes "F < T"
  shows "in_band (1 - 8 * eps) (1 + 8 * eps) (fval (decrease_float T F g)) (of_int (uint g) * (of_int (uint (T - F)) / of_int (uint T)))"
    and "0 \<le> fst (decrease_float T F g)"
proof -
  have T0: "0 < uint T" using assms by (metis leD uint_ge_0 uint_nonnegative word_less_def word_gt_0 le_less_trans less_le)
  let ?D = "float64 (T - F)" and ?T = "float64 T" and ?h = "(100, 0) :: float"
  let ?x = "real_of_int (uint (T - F)) / of_int (uint T)"
  have h: "fval ?h = 100" "0 < fst ?h" by (simp_all add: fval_def)
  have Tpos: "0 < fst ?T" using near_pos [OF float64_near(1) [of T]] T0 fval_pos [of ?T] by (simp only: of_int_0_less_iff)
  have x0: "0 \<le> ?x" by simp
  have q: "in_band ((1 - eps) / (1 + eps)) ((1 + eps) / (1 - eps)) (fval ?D / fval ?T) ?x"
    using float64_near(1) T0 eps_bounds unfolding near_in_band by (intro in_band_divide) auto
  let ?Q = "float_div ?D ?T"
  have Q: "in_band ((1 - eps) / (1 + eps) * (1 - eps)) ((1 + eps) / (1 - eps) * (1 + eps)) (fval ?Q) ?x" "0 \<le> fst ?Q"
    using in_band_near [OF q float_div_near(1)] float_div_near(2) float64_near(2) Tpos x0 by auto
  let ?P = "float_mul ?Q ?h"
  have P: "in_band ((1 - eps) / (1 + eps) * (1 - eps) * (1 - eps)) ((1 + eps) / (1 - eps) * (1 + eps) * (1 + eps)) (fval ?P / 100) ?x"
    "0 \<le> fst ?P"
    using near_near [OF Q(1), of "fval ?P" 100] float_mul_near [OF Q(2), of ?h] x0 h by auto
  let ?R = "float_div ?P ?h"
  have R: "in_band ((1 - eps) / (1 + eps) * (1 - eps) * (1 - eps) * (1 - eps)) ((1 + eps) / (1 - eps) * (1 + eps) * (1 + eps) * (1 + eps)) (fval ?R) ?x"
    "0 \<le> fst ?R"
    using in_band_near [OF P(1), of "fval ?R"] float_div_near [OF P(2), of ?h] x0 h by auto
  have g: "in_band (1 - eps) (1 + eps) (fval (float64 g)) (of_int (uint g))"
    using float64_near(1) unfolding near_in_band by simp
  have m: "in_band ((1 - eps) * ((1 - eps) / (1 + eps) * (1 - eps) * (1 - eps) * (1 - eps)))
      ((1 + eps) * ((1 + eps) / (1 - eps) * (1 + eps) * (1 + eps) * (1 + eps))) (fval (float64 g) * fval ?R) (of_int (uint g) * ?x)"
    using eps_bounds x0 by (intro in_band_mult [OF g R(1)]) auto
  have "in_band ((1 - eps) * ((1 - eps) / (1 + eps) * (1 - eps) * (1 - eps) * (1 - eps)) * (1 - eps))
      ((1 + eps) * ((1 + eps) / (1 - eps) * (1 + eps) * (1 + eps) * (1 + eps)) * (1 + eps))
      (fval (decrease_float T F g)) (of_int (uint g) * ?x)"
    unfolding decrease_float_def using in_band_near [OF m float_mul_near(1)] float64_near(2) R(2) x0 by simp
  moreover have "0 \<le> real_of_int (uint g) * ?x" by simp
  ultimately show "in_band (1 - 8 * eps) (1 + 8 * eps) (fval (decrease_float T F g)) (of_int (uint g) * ?x)"
    unfolding in_band_def using mult_left_mono [OF eps_powers(1)] mult_left_mono [OF eps_powers(2)] order_trans by blast
  show "0 \<le> fst (decrease_float T F g)"
    unfolding decrease_float_def using float_mul_near(2) float64_near(2) R(2) by blast
qed

lemma float_uint64_floor:
  assumes "0 \<le> fst x" "fval x < 2 ^ 64"
  shows "uint (float_uint64 ov x) = \<lfloor>fval x\<rfloor>"
proof -
  obtain n d where s: "scale (fst x) 1 (- snd x) = (n, d)" by fastforce
  have q: "0 < d" "0 \<le> n" "real_of_int n / of_int d = fval x"
    using scale_frac [OF s] assms by (simp_all add: fval_def power_int_minus divide_inverse)
  have i: "n div d = \<lfloor>fval x\<rfloor>" using q(3) by (metis floor_divide_of_int_eq)
  have "\<lfloor>fval x\<rfloor> < 2 ^ 64" using assms(2) by (simp add: floor_less_iff)
  moreover have "0 \<le> \<lfloor>fval x\<rfloor>" using q(1,2) by (simp add: i [symmetric] pos_imp_zdiv_nonneg_iff)
  ultimately show ?thesis by (simp add: float_uint64_def s i uint_word_of_int)
qed

lemma decreaseAmount_float: "decreaseAmount ov T F g = float_uint64 ov (decrease_float T F g)"
  by (simp add: decreaseAmount_def decrease_float_def Let_def)


text \<open>From a fee of \<open>2 ^ 14\<close> on, the decrease is at most the amount.\<close>

lemma ratio_bound:
  fixes F T :: real
  assumes "2 ^ 14 \<le> F" "F \<le> T" "T < 2 ^ 64"
  shows "(T - F) / T * (1 + 8 * eps) \<le> 1" "(T - F) * (8 * eps) \<le> 2 ^ 14"
proof -
  have "(T - F) * (8 * eps) \<le> 2 ^ 64 * (8 * eps)" using assms eps_bounds by (intro mult_right_mono) auto
  then show l: "(T - F) * (8 * eps) \<le> 2 ^ 14" by (simp add: eps_def)
  have "(T - F) * (1 + 8 * eps) = (T - F) + (T - F) * (8 * eps)" by (simp add: algebra_simps)
  also have "\<dots> \<le> T" using l assms(1) by linarith
  finally show "(T - F) / T * (1 + 8 * eps) \<le> 1" using assms by (simp add: divide_simps)
qed

lemma decrease_bounds:
  fixes g :: u64
  assumes "2 ^ 14 \<le> F" "F < T"
  defines "x \<equiv> real_of_int (uint g) * (of_int (uint (T - F)) / of_int (uint T))"
  shows "uint (decreaseAmount ov T F g) \<le> uint g"
    and "x * (1 - 8 * eps) - 1 \<le> of_int (uint (decreaseAmount ov T F g))"
    and "of_int (uint (decreaseAmount ov T F g)) \<le> x * (1 + 8 * eps)"
proof -
  let ?y = "fval (decrease_float T F g)" and ?T = "real_of_int (uint T)" and ?F = "real_of_int (uint F)"
  have D: "uint (T - F) = uint T - uint F" using assms(2) by (simp add: uint_sub_le)
  have "(2::int) ^ 14 \<le> uint F" using assms(1) by (simp add: word_le_def)
  then have F: "2 ^ 14 \<le> ?F" by simp
  have T: "?F \<le> ?T" "?T < 2 ^ 64" using assms(2) uint_lt2p [of T] by (auto simp: word_less_def)
  note b = decrease_band [OF assms(2), of g, folded x_def, unfolded in_band_def]
  have "x * (1 + 8 * eps) = of_int (uint g) * ((?T - ?F) / ?T * (1 + 8 * eps))" by (simp add: x_def D)
  also have "\<dots> \<le> of_int (uint g) * 1" using ratio_bound(1) [OF F T] by (intro mult_left_mono) auto
  finally have y: "?y \<le> of_int (uint g)" using b(1) by linarith
  moreover have "real_of_int (uint g) < real_of_int (2 ^ 64)" unfolding of_int_less_iff using uint_lt2p [of g] by simp
  ultimately have "?y < 2 ^ 64" by simp
  then have dec: "uint (decreaseAmount ov T F g) = \<lfloor>?y\<rfloor>"
    unfolding decreaseAmount_float by (rule float_uint64_floor [OF b(2)])
  show "uint (decreaseAmount ov T F g) \<le> uint g" using y dec by (simp add: floor_le_iff)
  show "x * (1 - 8 * eps) - 1 \<le> of_int (uint (decreaseAmount ov T F g))"
    using b(1) dec real_of_int_floor_gt_diff_one [of ?y] by linarith
  show "of_int (uint (decreaseAmount ov T F g)) \<le> x * (1 + 8 * eps)" using b(1) dec of_int_floor_le [of ?y] by linarith
qed

lemma sum_words: "sum_list (map uint xs) < 2 ^ 64 \<Longrightarrow> uint (sum_list (xs :: u64 list)) = sum_list (map uint xs)"
proof (induction xs)
  case (Cons a xs)
  have "0 \<le> uint a" by simp
  moreover have "uint a + sum_list (map uint xs) < 2 ^ 64" using Cons.prems by simp
  ultimately have "sum_list (map uint xs) < 2 ^ 64" by linarith
  then have IH: "uint (sum_list xs) = sum_list (map uint xs)" by (rule Cons.IH)
  then have "0 \<le> sum_list (map uint xs)" by (metis uint_ge_0)
  then show ?case using IH Cons.prems by (simp add: uint_word_ariths)
qed simp

lemma sum_list_real: "real_of_int (sum_list xs) = sum_list (map real_of_int xs)"
  by (induction xs) auto

lemma scaled_sum:
  fixes gs :: "u64 list" and ov :: u64
  assumes "2 ^ 14 \<le> F" "F < T"
  defines "r \<equiv> real_of_int (uint (T - F)) / of_int (uint T)" and "G \<equiv> real_of_int (sum_list (map uint gs))"
    and "S \<equiv> real_of_int (sum_list (map (\<lambda>g. uint (g - decreaseAmount ov T F g)) gs))"
  shows "G - G * r * (1 + 8 * eps) \<le> S \<and> S \<le> G - G * r * (1 - 8 * eps) + length gs"
  unfolding G_def S_def
proof (induction gs)
  case (Cons g gs)
  let ?d = "decreaseAmount ov T F g"
  note b = decrease_bounds [OF assms(1,2), where ov = ov and g = g, folded r_def]
  have "uint (g - ?d) = uint g - uint ?d" using b(1) by (intro uint_sub_le) (simp add: word_le_def)
  then show ?case using Cons b(2,3) by (simp add: algebra_simps)
qed simp


text \<open>C22. The scaled amounts are sound.  When the fee, as 64 bits, is at least \<open>2 ^ 14\<close> wei, which one transaction with a gas
  price pays, every scaled amount is at most the amount it replaces, whatever the conversion of an out-of-range
  float would give; and if the amounts were added without wrap-around, their scaled sum differs from the fee by at
  most one wei per transaction and the rounding error of the 64-bit floats, \<open>2 ^ 14\<close> wei.\<close>

theorem reward_scaling:
  assumes "2 ^ 14 \<le> big_Uint64 fee"
  shows "list_all2 (\<le>) (scale_gass ov fee gass) gass \<and>
    (sum_list (map uint gass) < 2 ^ 64 \<and> uint (big_Uint64 fee) < sum_list (map uint gass) \<longrightarrow>
      \<bar>sum_list (map uint (scale_gass ov fee gass)) - uint (big_Uint64 fee)\<bar> \<le> int (length gass) + 2 ^ 14)"
proof (intro conjI impI)
  let ?F = "big_Uint64 fee" and ?T = "sum_list gass"
  show "list_all2 (\<le>) (scale_gass ov fee gass) gass"
  proof (cases "?F < ?T")
    case True
    have "g - decreaseAmount ov ?T ?F g \<le> g" for g
      using decrease_bounds(1) [OF assms True, where ov = ov and g = g] uint_sub_le [of "decreaseAmount ov ?T ?F g" g]
      by (simp add: word_le_def)
    then show ?thesis using True by (simp add: scale_gass_def Let_def list_all2_map1 list_all2_same)
  qed (simp add: scale_gass_def Let_def list_all2_same)
  assume a: "sum_list (map uint gass) < 2 ^ 64 \<and> uint ?F < sum_list (map uint gass)"
  then have T: "uint ?T = sum_list (map uint gass)" using sum_words by blast
  with a have lt: "?F < ?T" by (simp add: word_less_def)
  let ?t = "real_of_int (uint ?T)" and ?f = "real_of_int (uint ?F)"
    and ?S = "sum_list (map (\<lambda>g. uint (g - decreaseAmount ov ?T ?F g)) gass)"
  have D: "uint (?T - ?F) = uint ?T - uint ?F" using lt by (simp add: uint_sub_le)
  have t: "0 < ?t" "?f \<le> ?t" "?t < 2 ^ 64" 
  proof -
    have "0 \<le> uint ?F" by simp
    then show "0 < ?t" using a T by (simp only: of_int_0_less_iff) linarith
  qed (use lt uint_lt2p [of ?T] a T in \<open>auto simp: word_less_def\<close>)
  have "(2::int) ^ 14 \<le> uint ?F" using assms by (simp add: word_le_def)
  then have f: "2 ^ 14 \<le> ?f" by simp
  have r: "?t * (of_int (uint (?T - ?F)) / ?t) = ?t - ?f" using t by (simp add: D)
  have "?t - (?t - ?f) * (1 + 8 * eps) \<le> of_int ?S \<and> of_int ?S \<le> ?t - (?t - ?f) * (1 - 8 * eps) + length gass"
    using scaled_sum [OF assms lt, of gass ov] unfolding T [symmetric] r by simp
  then have "of_int ?S - ?f \<le> (?t - ?f) * (8 * eps) + length gass" "?f - of_int ?S \<le> (?t - ?f) * (8 * eps)"
    by (simp_all add: algebra_simps)
  then have "of_int ?S - ?f \<le> 2 ^ 14 + real (length gass)" "?f - of_int ?S \<le> 2 ^ 14"
    using ratio_bound(2) [OF f t(2,3)] by linarith+
  then have "real_of_int (?S - uint ?F) \<le> real_of_int (2 ^ 14 + int (length gass))" "real_of_int (uint ?F - ?S) \<le> real_of_int (2 ^ 14)"
    by simp_all
  then have "?S - uint ?F \<le> 2 ^ 14 + int (length gass)" "uint ?F - ?S \<le> 2 ^ 14" by (simp_all only: of_int_le_iff)
  moreover have "map uint (scale_gass ov fee gass) = map (\<lambda>g. uint (g - decreaseAmount ov ?T ?F g)) gass"
    using lt by (simp add: scale_gass_def Let_def)
  ultimately show "\<bar>sum_list (map uint (scale_gass ov fee gass)) - uint ?F\<bar> \<le> int (length gass) + 2 ^ 14" by simp
qed

theorem reward_scaling_witness:
  "list_all2 (\<le>) (scale_gass 0 21000 [42000, 42000, 42000]) [42000, 42000, 42000] \<and>
   \<bar>sum_list (map uint (scale_gass 0 21000 [42000, 42000, 42000])) - 21000\<bar> \<le> 16387"
  using reward_scaling [of 21000 0 "[42000, 42000, 42000]"] by (simp add: big_Uint64_def)

text \<open>The scaled amounts can exceed the fee that is sent with them, and a small fee makes an amount wrap around: for
  amounts 42000 and 21000 and a fee of 21000 the contract is told to distribute 21002, and for one amount of
  \<open>2 ^ 60 + 200\<close> and a fee of 1 the amount becomes \<open>2 ^ 64 - 56\<close>.\<close>

theorem reward_scaling_flaws:
  "scale_gass ov 21000 [42000, 21000] = [14001, 7001] \<and> scale_gass ov 1 [2 ^ 60 + 200] = [- 56]"
  by (intro conjI; code_simp)

declare of_int_uint [simp]

end
