(* ===== verification/Congress_Finalize.thy ===== *)
theory Congress_Finalize
  imports Access_Control Reward_Scaling
begin

text \<open>
  The end of a block: \<^verbatim>\<open>Finalize\<close>, \<^verbatim>\<open>FinalizeAndAssemble\<close> and what they call in \<^verbatim>\<open>consensus/congress/congress.go\<close> and
  \<^verbatim>\<open>congress_govern.go\<close>: the initialisation of the system contracts, the punishment of a missed turn, the block
  reward, the epoch's validator update and the governance proposals.

  The record \<open>engine_env\<close> collects what these functions call outside of Congress: the EVM and the ABI encoder, the
  chain, the tries behind \<^verbatim>\<open>StateDB.IntermediateRoot\<close>, the trie hasher, the wallet that signs and the conversion of
  an out-of-range float.  An error of a call comes with the state the call left.
\<close>

subsection \<open>Blocks\<close>

record Block =
  blk_header :: Header
  blk_transactions :: "Transaction list"
  blk_uncles :: "Header list"

definition NewBlock :: "keccak \<Rightarrow> trie_hasher \<Rightarrow> Header \<Rightarrow> Transaction list \<Rightarrow> Header list \<Rightarrow> Receipt list \<Rightarrow> Block" where
  "NewBlock kec hasher header txs uncles receipts =
    (let h0 = CopyHeader header;
         h1 = h0\<lparr>h_TxHash := (if txs = [] then EmptyRootHash else DeriveSha hasher (map tx_EncodeIndex txs))\<rparr>;
         h2 = (if receipts = [] then h1\<lparr>h_ReceiptHash := EmptyRootHash\<rparr>
               else h1\<lparr>h_ReceiptHash := DeriveSha hasher (map receipt_EncodeIndex receipts),
                       h_Bloom := of_nat (be_nat (CreateBloom kec receipts))\<rparr>);
         h3 = h2\<lparr>h_UncleHash := (if uncles = [] then EmptyUncleHash kec else CalcUncleHash kec uncles)\<rparr>
     in \<lparr>blk_header = h3, blk_transactions = txs, blk_uncles = map CopyHeader uncles\<rparr>)"

definition WithSeal :: "Header \<Rightarrow> Block \<Rightarrow> Block" where
  "WithSeal header b = b\<lparr>blk_header := header\<rparr>"

subsection \<open>The environment\<close>

record Proposal =
  pr_Id :: int
  pr_Action :: int
  pr_From :: address
  pr_To :: address
  pr_Value :: int
  pr_Data :: bytes

record engine_env =
  en_vm :: vm_env
  en_be :: backend
  en_ch :: chain
  en_cr :: crypto
  en_me :: meta_env
  en_stateFn :: "hash \<Rightarrow> (backend \<times> StateDB) option"
  en_root :: "StateDB \<Rightarrow> hash \<times> StateDB"
  en_hasher :: trie_hasher
  en_overflow :: u64
  en_signTx :: "(address \<Rightarrow> Transaction \<Rightarrow> bigint \<Rightarrow> Transaction option) option"
  en_unpackProposal :: "bytes \<Rightarrow> Proposal option"
  en_now :: int

definition IntermediateRoot :: "engine_env \<Rightarrow> bool \<Rightarrow> StateDB \<Rightarrow> hash \<times> StateDB" where
  "IntermediateRoot env deleteEmptyObjects s = en_root env (Finalise (en_be env) deleteEmptyObjects s)"

subsection \<open>Calls to system contracts\<close>

definition execute ::
  "engine_env \<Rightarrow> congress \<Rightarrow> Header \<Rightarrow> Message \<Rightarrow> StateDB \<Rightarrow> (congress_error, bytes) result \<times> StateDB" where
  "execute env c header msg s = ExecuteMsg c (en_vm env) (en_be env) (en_ch env) msg header s"

definition system_call ::
  "engine_env \<Rightarrow> congress \<Rightarrow> Header \<Rightarrow> string \<Rightarrow> string \<Rightarrow> abi_value list \<Rightarrow> address \<Rightarrow> int \<Rightarrow> StateDB \<Rightarrow>
   (congress_error, unit) result \<times> StateDB" where
  "system_call env c header contract method args a amount s =
    (case vm_Pack (en_vm env) contract method args of
       None \<Rightarrow> (Inl (OtherError ''pack''), s)
     | Some data \<Rightarrow>
         (let (nonce, s1) = GetNonce (en_be env) (h_Coinbase header) s;
              (r, s2) = execute env c header
                (NewLegacyMessage (h_Coinbase header) (Some a) nonce amount MaxUint64 0 data True) s1
          in (rbind r (\<lambda>_. Inr ()), s2)))"

definition punishValidator ::
  "engine_env \<Rightarrow> congress \<Rightarrow> address \<Rightarrow> Header \<Rightarrow> StateDB \<Rightarrow> (congress_error, unit) result \<times> StateDB" where
  "punishValidator env c val header s =
    system_call env c header ''punish'' ''punish'' [AbiAddress val] (GetPunishAddr (h_Number header) (cg_chainConfig c)) 0 s"

definition decreaseMissedBlocksCounter ::
  "engine_env \<Rightarrow> congress \<Rightarrow> Header \<Rightarrow> StateDB \<Rightarrow> (congress_error, unit) result \<times> StateDB" where
  "decreaseMissedBlocksCounter env c header s =
    system_call env c header ''punish'' ''decreaseMissedBlocksCounter'' [AbiBig (uint (Epoch (cg_config c)))]
      (GetPunishAddr (h_Number header) (cg_chainConfig c)) 0 s"

definition updateValidators ::
  "engine_env \<Rightarrow> congress \<Rightarrow> address list \<Rightarrow> Header \<Rightarrow> StateDB \<Rightarrow> (congress_error, unit) result \<times> StateDB" where
  "updateValidators env c vals header s =
    system_call env c header ''validators'' ''updateActiveValidatorSet'' [AbiAddresses vals, AbiBig (uint (Epoch (cg_config c)))]
      (GetValidatorAddr (h_Number header) (cg_chainConfig c)) 0 s"

text \<open>The call of \<^verbatim>\<open>getTopValidators\<close> on the state of the parent, which is thrown away afterwards.\<close>

definition top_validators ::
  "engine_env \<Rightarrow> congress \<Rightarrow> Header \<Rightarrow> Header \<Rightarrow> (congress_error, address list) result" where
  "top_validators env c parent header =
    (case en_stateFn env (h_Root parent) of
       None \<Rightarrow> Inl (OtherError ''state'')
     | Some (be, statedb) \<Rightarrow>
         (case vm_Pack (en_vm env) ''validators'' ''getTopValidators'' [] of
            None \<Rightarrow> Inl (OtherError ''pack'')
          | Some data \<Rightarrow>
              rbind (fst (ExecuteMsg c (en_vm env) be (en_ch env)
                  (NewLegacyMessage (h_Coinbase header) (Some (GetValidatorAddr (h_Number parent) (cg_chainConfig c))) 0 0 MaxUint64 0 data False)
                  parent statedb))
                (\<lambda>result. case vm_Unpack (en_vm env) ''validators'' ''getTopValidators'' result of
                   None \<Rightarrow> Inl (OtherError ''unpack'')
                 | Some ret \<Rightarrow>
                     if length ret \<noteq> 1 then Inl (OtherError ''Invalid params length'')
                     else (case ret of
                         [AbiAddresses vs] \<Rightarrow> Inr vs
                       | _ \<Rightarrow> Inl (OtherError ''Invalid validators format'')))))"

definition doSomethingAtEpoch ::
  "engine_env \<Rightarrow> congress \<Rightarrow> Header \<Rightarrow> StateDB \<Rightarrow> (congress_error, address list) result \<times> StateDB" where
  "doSomethingAtEpoch env c header s =
    (case getTopValidators (en_ch env) (top_validators env c) header of
       Inl e \<Rightarrow> (Inl e, s)
     | Inr newSortedValidators \<Rightarrow>
         (case updateValidators env c newSortedValidators header s of
            (Inl e, s1) \<Rightarrow> (Inl e, s1)
          | (Inr _, s1) \<Rightarrow>
              (case decreaseMissedBlocksCounter env c header s1 of
                 (Inl e, s2) \<Rightarrow> (Inl e, s2)
               | (Inr _, s2) \<Rightarrow> (Inr newSortedValidators, s2))))"

fun initialize_contracts ::
  "engine_env \<Rightarrow> congress \<Rightarrow> Header \<Rightarrow> (address \<times> string \<times> abi_value list) list \<Rightarrow> StateDB \<Rightarrow> (congress_error, unit) result \<times> StateDB" where
  "initialize_contracts env c header [] s = (Inr (), s)"
| "initialize_contracts env c header ((a, contract, args) # cs) s =
     (case system_call env c header contract ''initialize'' args a 0 s of
        (Inl e, s1) \<Rightarrow> (Inl e, s1)
      | (Inr _, s1) \<Rightarrow> initialize_contracts env c header cs s1)"

definition initializeSystemContracts ::
  "engine_env \<Rightarrow> congress \<Rightarrow> Header \<Rightarrow> StateDB \<Rightarrow> StateDB engine_result" where
  "initializeSystemContracts env c header s =
    (case congress_snapshot c (en_ch env) (en_cr env) 0 (h_ParentHash header) [] of
       None \<Rightarrow> None
     | Some (Inl e, c') \<Rightarrow> Some (Inl e, c')
     | Some (Inr snap, c') \<Rightarrow>
         (let genesisValidators = validators snap
          in if length genesisValidators = 0 \<or> length genesisValidators > maxValidators
             then Some (Inl errInvalidValidatorsLength, c')
             else
               (case initialize_contracts env c header
                       [(ValidatorsContractAddr, ''validators'', [AbiAddresses genesisValidators]),
                        (PunishContractAddr, ''punish'', []),
                        (ProposalAddr, ''proposal'', [AbiAddresses genesisValidators])] s of
                  (Inl e, s') \<Rightarrow> Some (Inl e, c')
                | (Inr _, s') \<Rightarrow> Some (Inr s', c'))))"

subsection \<open>The block reward\<close>

definition trySendBlockReward ::
  "engine_env \<Rightarrow> congress \<Rightarrow> Header \<Rightarrow> address list \<Rightarrow> u64 list \<Rightarrow> StateDB \<Rightarrow> (congress_error, unit) result \<times> StateDB" where
  "trySendBlockReward env c header addr gass s =
    (let (fee, s1) = GetBalance (en_be env) FeeRecoder s
     in if fee \<le> 0 then (Inr (), s1)
        else
          (let s2 = AddBalance (en_be env) (h_Coinbase header) fee s1; s3 = SetBalance (en_be env) FeeRecoder 0 s2
           in system_call env c header ''validators'' ''distributeBlockReward'' [AbiAddresses addr, AbiUints gass]
                (GetValidatorAddr (h_Number header) (cg_chainConfig c)) fee s3))"

text \<open>The reward part of \<^verbatim>\<open>Finalize\<close> and \<^verbatim>\<open>FinalizeAndAssemble\<close>: an error is logged, a panic is not caught.\<close>

definition reward_block ::
  "engine_env \<Rightarrow> congress \<Rightarrow> Header \<Rightarrow> Transaction list \<Rightarrow> StateDB \<Rightarrow> (congress_error, unit) result \<times> StateDB" where
  "reward_block env c header txs s =
    (if txs = [] then (Inr (), s)
     else
       (let (fee, s1) = GetBalance (en_be env) FeeRecoder s;
            (r, s2) = trySendBlockReward env c header (reward_addrs txs) (scale_gass (en_overflow env) fee (reward_gass txs)) s1
        in (if r = Inl Panic then Inl Panic else Inr (), s2)))"

subsection \<open>Governance (\<^verbatim>\<open>congress_govern.go\<close>)\<close>

definition governance_call ::
  "engine_env \<Rightarrow> congress \<Rightarrow> Header \<Rightarrow> string \<Rightarrow> abi_value list \<Rightarrow> StateDB \<Rightarrow> (congress_error, bytes) result \<times> StateDB" where
  "governance_call env c header method args s =
    (case vm_Pack (en_vm env) ''governance'' method args of
       None \<Rightarrow> (Inl (OtherError ''pack''), s)
     | Some data \<Rightarrow>
         execute env c header (NewLegacyMessage (h_Coinbase header) (Some SysGovContractAddr) 0 0 MaxUint64 0 data False) s)"

definition getPassedProposalCount ::
  "engine_env \<Rightarrow> congress \<Rightarrow> Header \<Rightarrow> StateDB \<Rightarrow> (congress_error, u32) result \<times> StateDB" where
  "getPassedProposalCount env c header s =
    (let (r, s1) = governance_call env c header ''getPassedProposalCount'' [] s
     in (rbind r (\<lambda>result. case vm_Unpack (en_vm env) ''governance'' ''getPassedProposalCount'' result of
           None \<Rightarrow> Inl (OtherError ''unpack'')
         | Some ret \<Rightarrow>
             if length ret \<noteq> 1 then Inl (OtherError ''invalid output length'')
             else (case ret of [AbiUint32 count] \<Rightarrow> Inr count | _ \<Rightarrow> Inl (OtherError ''invalid count format''))), s1))"

definition getPassedProposalByIndex ::
  "engine_env \<Rightarrow> congress \<Rightarrow> Header \<Rightarrow> u32 \<Rightarrow> StateDB \<Rightarrow> (congress_error, Proposal) result \<times> StateDB" where
  "getPassedProposalByIndex env c header idx s =
    (let (r, s1) = governance_call env c header ''getPassedProposalByIndex'' [AbiUint32 idx] s
     in (rbind r (\<lambda>result. case en_unpackProposal env result of
           None \<Rightarrow> Inl (OtherError ''unpack'') | Some prop \<Rightarrow> Inr prop), s1))"

text \<open>\<^verbatim>\<open>finishProposalById\<close> packs first and prepares the state only before the call.\<close>

definition finishProposalById ::
  "engine_env \<Rightarrow> congress \<Rightarrow> Header \<Rightarrow> int \<Rightarrow> StateDB \<Rightarrow> (congress_error, unit) result \<times> StateDB" where
  "finishProposalById env c header pid s =
    (case vm_Pack (en_vm env) ''governance'' ''finishProposalById'' [AbiBig pid] of
       None \<Rightarrow> (Inl (OtherError ''pack''), s)
     | Some data \<Rightarrow>
         (let (r, s1) = execute env c header
                (NewLegacyMessage (h_Coinbase header) (Some SysGovContractAddr) 0 0 MaxUint64 0 data False) (state_Prepare 0 0 s)
          in (rbind r (\<lambda>_. Inr ()), s1)))"

definition proposal_rval :: "Proposal \<Rightarrow> rval" where
  "proposal_rval p = VStruct [VBig (Some (pr_Id p)), VBig (Some (pr_Action p)), VByteArray (address_bytes (pr_From p)),
     VByteArray (address_bytes (pr_To p)), VBig (Some (pr_Value p)), VBytes (pr_Data p)] []"

definition gov_receipt :: "Header \<Rightarrow> u64 \<Rightarrow> Receipt" where
  "gov_receipt header status = receipt0\<lparr>rc_Type := LegacyTxType, rc_PostState := [], rc_Status := status,
     rc_CumulativeGasUsed := h_GasUsed header\<rparr>"

definition executeEvmCallProposal ::
  "engine_env \<Rightarrow> congress \<Rightarrow> Header \<Rightarrow> Proposal \<Rightarrow> nat \<Rightarrow> hash \<Rightarrow> hash \<Rightarrow> StateDB \<Rightarrow> (congress_error, Receipt) result \<times> StateDB" where
  "executeEvmCallProposal env c header prop totalTxIndex txHash bHash s =
    (let msg = NewLegacyMessage (pr_From prop) (Some (pr_To prop)) 0 (pr_Value prop) (h_GasLimit header) 0 (pr_Data prop) False;
         (r, s1) = execute env c header msg (state_Prepare txHash (int totalTxIndex) s);
         (logs, s2) = GetLogs txHash bHash s1;
         receipt = (gov_receipt header (case r of Inl _ \<Rightarrow> ReceiptStatusFailed | Inr _ \<Rightarrow> ReceiptStatusSuccessful))\<lparr>rc_Logs := logs\<rparr>
     in if r = Inl Panic then (Inl Panic, s1)
        else (Inr (receipt\<lparr>rc_Bloom := of_nat (be_nat (CreateBloom (c_keccak (en_cr env)) [receipt]))\<rparr>), s2))"

definition executeProposalMsg ::
  "engine_env \<Rightarrow> congress \<Rightarrow> Header \<Rightarrow> Proposal \<Rightarrow> nat \<Rightarrow> hash \<Rightarrow> hash \<Rightarrow> StateDB \<Rightarrow> (congress_error, Receipt) result \<times> StateDB" where
  "executeProposalMsg env c header prop totalTxIndex txHash bHash s =
    (let action = big_Uint64 (pr_Action prop);
         (r, s1) =
           (if action = 0 then executeEvmCallProposal env c header prop totalTxIndex txHash bHash s
            else if action = 1 then
              (let (ok, s') = Erase (en_be env) (pr_To prop) s
               in (Inr (gov_receipt header (if ok then ReceiptStatusSuccessful else ReceiptStatusFailed)), s'))
            else (Inr (gov_receipt header ReceiptStatusFailed), s))
     in (rbind r (\<lambda>receipt. Inr (receipt\<lparr>rc_TxHash := txHash, rc_BlockHash := bHash, rc_BlockNumber := h_Number header,
            rc_TransactionIndex := word_of_int (sdb_txIndex s1)\<rparr>)), s1))"

definition executeProposal ::
  "engine_env \<Rightarrow> congress \<Rightarrow> Header \<Rightarrow> Proposal \<Rightarrow> nat \<Rightarrow> StateDB \<Rightarrow> (congress_error, Transaction \<times> Receipt) result \<times> StateDB" where
  "executeProposal env c header prop totalTxIndex s =
    (case en_signTx env of
       None \<Rightarrow> (Inl (OtherError ''signTxFn not set''), s)
     | Some signTx \<Rightarrow>
         (case EncodeToBytes (proposal_rval prop) of
            Inl _ \<Rightarrow> (Inl (OtherError ''rlp''), s)
          | Inr propRLP \<Rightarrow>
              (let (nonce, s1) = GetNonce (en_be env) (cg_validator c) s;
                   amout = (if IsSophon (cg_chainConfig c) (h_Number header) then 0 else pr_Value prop)
               in case signTx (cg_validator c) (NewTransaction nonce SysGovToAddr amout (h_GasLimit header) 0 propRLP (en_now env))
                         (ChainID (ch_Config (en_ch env))) of
                    None \<Rightarrow> (Inl (OtherError ''sign''), s1)
                  | Some tx \<Rightarrow>
                      (let s2 = SetNonce (en_be env) (cg_validator c) (nonce + 1) s1;
                           (r, s3) = executeProposalMsg env c header prop totalTxIndex (tx_Hash (c_keccak (en_cr env)) tx) 0 s2
                       in (rbind r (\<lambda>receipt. Inr (tx, receipt)), s3)))))"

definition gov_signer :: "congress \<Rightarrow> Signer" where
  "gov_signer c = LatestSignerForChainID (ChainID (cg_chainConfig c))"

definition replayProposal ::
  "engine_env \<Rightarrow> congress \<Rightarrow> Header \<Rightarrow> Proposal \<Rightarrow> nat \<Rightarrow> Transaction \<Rightarrow> StateDB \<Rightarrow> (congress_error, Receipt) result \<times> StateDB" where
  "replayProposal env c header prop totalTxIndex tx s =
    (case signer_Sender (en_cr env) (en_me env) (gov_signer c) tx of
       Inl _ \<Rightarrow> (Inl (OtherError ''sender''), s)
     | Inr sender \<Rightarrow>
         if sender \<noteq> h_Coinbase header then (Inl (OtherError ''invalid sender for system governance transaction''), s)
         else
           (case EncodeToBytes (proposal_rval prop) of
              Inl _ \<Rightarrow> (Inl (OtherError ''rlp''), s)
            | Inr propRLP \<Rightarrow>
                if propRLP \<noteq> tx_Data tx then (Inl (OtherError ''data missmatch''), s)
                else
                  (let (nonce, s1) = GetNonce (en_be env) sender s;
                       s2 = SetNonce (en_be env) sender (nonce + 1) s1
                   in executeProposalMsg env c header prop totalTxIndex (tx_Hash (c_keccak (en_cr env)) tx)
                        (header_Hash (c_keccak (en_cr env)) header) s2)))"

fun execute_proposals ::
  "engine_env \<Rightarrow> congress \<Rightarrow> Header \<Rightarrow> nat \<Rightarrow> nat \<Rightarrow> Transaction list \<Rightarrow> Receipt list \<Rightarrow> int list \<Rightarrow> StateDB \<Rightarrow>
   (congress_error, Transaction list \<times> Receipt list \<times> int list) result \<times> StateDB" where
  "execute_proposals env c header i 0 txs receipts pIds s = (Inr (txs, receipts, pIds), s)"
| "execute_proposals env c header i (Suc n) txs receipts pIds s =
     (case getPassedProposalByIndex env c header (of_nat i) s of
        (Inl e, s1) \<Rightarrow> (Inl e, s1)
      | (Inr prop, s1) \<Rightarrow>
          (case executeProposal env c header prop (length txs) s1 of
             (Inl e, s2) \<Rightarrow> (Inl e, s2)
           | (Inr (tx, receipt), s2) \<Rightarrow>
               execute_proposals env c header (Suc i) n (txs @ [tx]) (receipts @ [receipt]) (pIds @ [pr_Id prop]) s2))"

fun replay_proposals ::
  "engine_env \<Rightarrow> congress \<Rightarrow> Header \<Rightarrow> nat \<Rightarrow> Transaction list \<Rightarrow> Transaction list \<Rightarrow> Receipt list \<Rightarrow> int list \<Rightarrow> StateDB \<Rightarrow>
   (congress_error, Transaction list \<times> Receipt list \<times> int list) result \<times> StateDB" where
  "replay_proposals env c header i [] txs receipts pIds s = (Inr (txs, receipts, pIds), s)"
| "replay_proposals env c header i (tx # systemTxs) txs receipts pIds s =
     (case getPassedProposalByIndex env c header (of_nat i) s of
        (Inl e, s1) \<Rightarrow> (Inl e, s1)
      | (Inr prop, s1) \<Rightarrow>
          (case replayProposal env c header prop (length txs) tx s1 of
             (Inl e, s2) \<Rightarrow> (Inl e, s2)
           | (Inr receipt, s2) \<Rightarrow>
               replay_proposals env c header (Suc i) systemTxs (txs @ [tx]) (receipts @ [receipt]) (pIds @ [pr_Id prop]) s2))"

fun finish_proposals ::
  "engine_env \<Rightarrow> congress \<Rightarrow> Header \<Rightarrow> int list \<Rightarrow> StateDB \<Rightarrow> (congress_error, unit) result \<times> StateDB" where
  "finish_proposals env c header [] s = (Inr (), s)"
| "finish_proposals env c header (pid # pIds) s =
     (case finishProposalById env c header pid s of
        (Inl e, s1) \<Rightarrow> (Inl e, s1)
      | (Inr _, s1) \<Rightarrow> finish_proposals env c header pIds s1)"

subsection \<open>Finalizing a block\<close>

text \<open>The common start: the system contracts at block 1, the punishment when the block is out of turn.\<close>

definition finalize_start :: "engine_env \<Rightarrow> congress \<Rightarrow> Header \<Rightarrow> StateDB \<Rightarrow> StateDB engine_result" where
  "finalize_start env c header s =
    (case (h_Number header, h_Difficulty header) of
       (Some number, Some difficulty) \<Rightarrow>
         (case (if number = 1 then initializeSystemContracts env c header s else Some (Inr s, c)) of
            None \<Rightarrow> None
          | Some (Inl e, c1) \<Rightarrow> Some (Inl e, c1)
          | Some (Inr s1, c1) \<Rightarrow>
              (if difficulty \<noteq> diffInTurn then
                 tryPunishValidator c1 (en_ch env) (en_cr env)
                   (\<lambda>val st. case punishValidator env c1 val header st of (Inl e, _) \<Rightarrow> Inl e | (Inr _, st') \<Rightarrow> Inr st') header s1
               else Some (Inr s1, c1)))
     | _ \<Rightarrow> Some (Inl Panic, c))"

definition at_epoch :: "congress \<Rightarrow> Header \<Rightarrow> bool option" where
  "at_epoch c header =
    (case header_number header of
       None \<Rightarrow> None
     | Some n \<Rightarrow> if Epoch (cg_config c) = 0 then None else Some (n mod Epoch (cg_config c) = 0))"

text \<open>The epoch step of \<^verbatim>\<open>Finalize\<close>, which compares the validators with the extra-data, and that of
  \<^verbatim>\<open>FinalizeAndAssemble\<close>, which only logs an error.\<close>

definition epoch_verify :: "engine_env \<Rightarrow> congress \<Rightarrow> Header \<Rightarrow> StateDB \<Rightarrow> (congress_error, unit) result \<times> StateDB" where
  "epoch_verify env c header s =
    (case at_epoch c header of
       None \<Rightarrow> (Inl Panic, s)
     | Some False \<Rightarrow> (Inr (), s)
     | Some True \<Rightarrow>
         (case doSomethingAtEpoch env c header s of
            (Inl e, s1) \<Rightarrow> (Inl e, s1)
          | (Inr newValidators, s1) \<Rightarrow>
              (let extra = h_Extra header
               in if length extra < extraVanity + extraSeal then (Inl Panic, s1)
                  else if drop extraVanity (take (length extra - extraSeal) extra) \<noteq> concat (map address_bytes newValidators)
                  then (Inl errInvalidExtraValidators, s1)
                  else (Inr (), s1))))"

definition epoch_assemble :: "engine_env \<Rightarrow> congress \<Rightarrow> Header \<Rightarrow> StateDB \<Rightarrow> (congress_error, unit) result \<times> StateDB" where
  "epoch_assemble env c header s =
    (case at_epoch c header of
       None \<Rightarrow> (Inl Panic, s)
     | Some False \<Rightarrow> (Inr (), s)
     | Some True \<Rightarrow>
         (let (r, s1) = doSomethingAtEpoch env c header s in (if r = Inl Panic then Inl Panic else Inr (), s1)))"

definition governance_verify ::
  "engine_env \<Rightarrow> congress \<Rightarrow> Header \<Rightarrow> Transaction list \<Rightarrow> Receipt list \<Rightarrow> Transaction list \<Rightarrow> StateDB \<Rightarrow>
   (congress_error, Transaction list \<times> Receipt list) result \<times> StateDB" where
  "governance_verify env c header txs receipts systemTxs s =
    (if \<not> IsRedCoast (ch_Config (en_ch env)) (h_Number header) then (Inr (txs, receipts), s)
     else
       (case getPassedProposalCount env c header s of
          (Inl e, s1) \<Rightarrow> (Inl e, s1)
        | (Inr proposalCount, s1) \<Rightarrow>
            if proposalCount \<noteq> of_nat (length systemTxs) then (Inl errInvalidSysGovCount, s1)
            else
              (case replay_proposals env c header 0 (take (unat proposalCount) systemTxs) txs receipts [] s1 of
                 (Inl e, s2) \<Rightarrow> (Inl e, s2)
               | (Inr (txs', receipts', pIds), s2) \<Rightarrow>
                   (case finish_proposals env c header pIds s2 of
                      (Inl e, s3) \<Rightarrow> (Inl e, s3)
                    | (Inr _, s3) \<Rightarrow> (Inr (txs', receipts'), s3)))))"

definition governance_assemble ::
  "engine_env \<Rightarrow> congress \<Rightarrow> Header \<Rightarrow> Transaction list \<Rightarrow> Receipt list \<Rightarrow> StateDB \<Rightarrow>
   (congress_error, Transaction list \<times> Receipt list) result \<times> StateDB" where
  "governance_assemble env c header txs receipts s =
    (if en_signTx env = None \<or> \<not> IsRedCoast (ch_Config (en_ch env)) (h_Number header) then (Inr (txs, receipts), s)
     else
       (case getPassedProposalCount env c header s of
          (Inl e, s1) \<Rightarrow> (Inl e, s1)
        | (Inr proposalCount, s1) \<Rightarrow>
            (case execute_proposals env c header 0 (unat proposalCount) txs receipts [] s1 of
               (Inl e, s2) \<Rightarrow> (Inl e, s2)
             | (Inr (txs', receipts', pIds), s2) \<Rightarrow>
                 (case finish_proposals env c header pIds s2 of
                    (Inl e, s3) \<Rightarrow> (Inl e, s3)
                  | (Inr _, s3) \<Rightarrow> (Inr (txs', receipts'), s3)))))"

definition finalize_root :: "engine_env \<Rightarrow> Header \<Rightarrow> StateDB \<Rightarrow> Header \<times> StateDB" where
  "finalize_root env header s =
    (let (root, s') = IntermediateRoot env (IsEIP158 (ch_Config (en_ch env)) (h_Number header)) s
     in (header\<lparr>h_Root := root, h_UncleHash := CalcUncleHash (c_keccak (en_cr env)) []\<rparr>, s'))"

definition Finalize ::
  "engine_env \<Rightarrow> congress \<Rightarrow> Header \<Rightarrow> StateDB \<Rightarrow> Transaction list \<Rightarrow> Receipt list \<Rightarrow> Transaction list \<Rightarrow>
   (Header \<times> Transaction list \<times> Receipt list \<times> StateDB) engine_result" where
  "Finalize env c header s txs receipts systemTxs =
    (case finalize_start env c header s of
       None \<Rightarrow> None
     | Some (Inl e, c1) \<Rightarrow> Some (Inl e, c1)
     | Some (Inr s1, c1) \<Rightarrow>
         (case reward_block env c1 header txs s1 of
            (Inl e, s2) \<Rightarrow> Some (Inl e, c1)
          | (Inr _, s2) \<Rightarrow>
              (case epoch_verify env c1 header s2 of
                 (Inl e, s3) \<Rightarrow> Some (Inl e, c1)
               | (Inr _, s3) \<Rightarrow>
                   (case governance_verify env c1 header txs receipts systemTxs s3 of
                      (Inl e, s4) \<Rightarrow> Some (Inl e, c1)
                    | (Inr (txs', receipts'), s4) \<Rightarrow>
                        (let (header', s5) = finalize_root env header s4 in Some (Inr (header', txs', receipts', s5), c1))))))"

definition FinalizeAndAssemble ::
  "engine_env \<Rightarrow> congress \<Rightarrow> Header \<Rightarrow> StateDB \<Rightarrow> Transaction list \<Rightarrow> Receipt list \<Rightarrow>
   (Block \<times> Receipt list \<times> StateDB) engine_result" where
  "FinalizeAndAssemble env c header s txs receipts =
    (case finalize_start env c header s of
       None \<Rightarrow> None
     | Some (Inl e, c1) \<Rightarrow> Some (Inl Panic, c1)
     | Some (Inr s1, c1) \<Rightarrow>
         (case reward_block env c1 header txs s1 of
            (Inl e, s2) \<Rightarrow> Some (Inl e, c1)
          | (Inr _, s2) \<Rightarrow>
              (case epoch_assemble env c1 header s2 of
                 (Inl e, s3) \<Rightarrow> Some (Inl e, c1)
               | (Inr _, s3) \<Rightarrow>
                   (case governance_assemble env c1 header txs receipts s3 of
                      (Inl e, s4) \<Rightarrow> Some (Inl e, c1)
                    | (Inr (txs', receipts'), s4) \<Rightarrow>
                        (let (header', s5) = finalize_root env header s4
                         in Some (Inr (NewBlock (c_keccak (en_cr env)) (en_hasher env) header' txs' [] receipts', receipts', s5), c1))))))"

text \<open>\<^verbatim>\<open>ApplySysTx\<close>, the replay of a governance transaction for a tracer.  \<open>decode\<close> is \<^verbatim>\<open>rlp.DecodeBytes\<close>.\<close>

definition ApplySysTx ::
  "engine_env \<Rightarrow> (bytes \<Rightarrow> Proposal option) \<Rightarrow> EVM \<Rightarrow> nat \<Rightarrow> address \<Rightarrow> Transaction \<Rightarrow> StateDB \<Rightarrow>
   ((congress_error, bytes \<times> vm_error option) result \<times> StateDB) option" where
  "ApplySysTx env decode evm txIndex sender tx s =
    (case decode (tx_Data tx) of
       None \<Rightarrow> Some (Inl (OtherError ''rlp''), s)
     | Some prop \<Rightarrow>
         (let evm1 = evm\<lparr>evm_Context := (evm_Context evm)\<lparr>bc_ExtraValidator := None\<rparr>\<rparr>;
              (nonce, s1) = GetNonce (en_be env) sender s;
              s2 = SetNonce (en_be env) sender (nonce + 1) s1;
              action = big_Uint64 (pr_Action prop)
          in if action = 0 then
               (case evm_Call (en_be env) (vm_evm (en_vm env)) (evm1\<lparr>evm_Origin := pr_From prop, evm_GasPrice := 0\<rparr>)
                       (AccountRef (pr_From prop)) (pr_To prop) (pr_Data prop) (tx_Gas tx) (pr_Value prop)
                       (state_Prepare (tx_Hash (c_keccak (en_cr env)) tx) (int txIndex) s2) of
                  None \<Rightarrow> None
                | Some (ret, leftOverGas, vmerr, s3) \<Rightarrow> Some (Inr (ret, vmerr), Finalise (en_be env) True s3))
             else if action = 1 then Some (Inr ([], None), snd (Erase (en_be env) (pr_To prop) s2))
             else Some (Inr ([], Some (PrecompileError ''unsupported action'')), s2)))"


subsection \<open>What the end of a block depends on\<close>

definition same_config :: "congress \<Rightarrow> congress \<Rightarrow> bool" where
  "same_config c c' \<longleftrightarrow> cg_chainConfig c' = cg_chainConfig c \<and> cg_config c' = cg_config c \<and> cg_validator c' = cg_validator c"

lemma same_config_refl [simp]: "same_config c c"
  by (simp add: same_config_def)

lemma same_config_trans: "same_config a b \<Longrightarrow> same_config b c \<Longrightarrow> same_config a c"
  by (simp add: same_config_def)

lemma same_config_cache [simp]:
  "same_config c (c'\<lparr>cg_recents := r\<rparr>) = same_config c c'" "same_config c (c'\<lparr>cg_db := d\<rparr>) = same_config c c'"
  "same_config (c\<lparr>cg_recents := r\<rparr>) c' = same_config c c'" "same_config (c\<lparr>cg_db := d\<rparr>) c' = same_config c c'"
  by (simp_all add: same_config_def)

lemma snap_store_config: "snap_store c s = Inr c' \<Longrightarrow> same_config c c'"
  by (auto simp: snap_store_def split: if_splits)

lemma checkpoint_config: "checkpoint_snapshot c ch cr n x = Some (r, c') \<Longrightarrow> same_config c c'"
  by (auto simp: checkpoint_snapshot_def Let_def split: if_splits option.splits sum.splits dest: snap_store_config)

lemma snapshot_loop_config: "snapshot_loop c ch cr n x ps hs = Some y \<Longrightarrow> same_config c (snd y)"
  by (rule snapshot_loop.raw_induct [of "\<lambda>c ch cr n x ps hs y. same_config c (snd y)", rotated])
     (auto split: option.splits sum.splits prod.splits if_splits dest: checkpoint_config)

lemma snapshot_config: "congress_snapshot c ch cr n x ps = Some (r, c') \<Longrightarrow> same_config c c'"
  by (auto simp: congress_snapshot_def Let_def split: option.splits sum.splits prod.splits if_splits
      dest!: snapshot_loop_config snap_store_config intro: same_config_trans)

lemma config_sel:
  assumes "same_config c c'"
  shows "cg_chainConfig c' = cg_chainConfig c" "cg_config c' = cg_config c" "cg_validator c' = cg_validator c"
  using assms by (simp_all add: same_config_def)

text \<open>The fields of a header that the execution of a message reads.\<close>

definition same_frame :: "Header \<Rightarrow> Header \<Rightarrow> bool" where
  "same_frame h h' \<longleftrightarrow> h_ParentHash h' = h_ParentHash h \<and> h_Coinbase h' = h_Coinbase h \<and> h_Number h' = h_Number h \<and>
     h_Difficulty h' = h_Difficulty h \<and> h_Time h' = h_Time h \<and> h_GasLimit h' = h_GasLimit h \<and> h_BaseFee h' = h_BaseFee h"

lemma ExecuteMsg_frame:
  assumes "same_frame h h'" "same_config c c'"
  shows "ExecuteMsg c' vm be ch msg h' s = ExecuteMsg c vm be ch msg h s"
proof -
  have "CanCreate c' be = CanCreate c be" using assms(2) by (simp add: CanCreate_def same_config_def fun_eq_iff)
  moreover have "GetHashFn ch h' = GetHashFn ch h" using assms(1) by (simp add: GetHashFn_def same_frame_def fun_eq_iff)
  ultimately have ctx: "NewEVMBlockContext ch (Some (CanCreate c' be)) h' (h_Coinbase h') =
      NewEVMBlockContext ch (Some (CanCreate c be)) h (h_Coinbase h)"
    using assms(1) unfolding NewEVMBlockContext_def same_frame_def by metis
  show ?thesis unfolding ExecuteMsg_def ctx config_sel [OF assms(2)] ..
qed

lemma frame_sel:
  assumes "same_frame h h'"
  shows "h_Number h' = h_Number h" "h_Coinbase h' = h_Coinbase h" "header_number h' = header_number h"
    "h_ParentHash h' = h_ParentHash h" "h_Difficulty h' = h_Difficulty h"
  using assms by (simp_all add: same_frame_def header_number_def)

lemma execute_frame:
  assumes "same_frame h h'" "same_config c c'"
  shows "execute env c' h' msg s = execute env c h msg s"
  by (simp add: execute_def ExecuteMsg_frame [OF assms])

lemma system_call_frame:
  assumes "same_frame h h'" "same_config c c'"
  shows "system_call env c' h' ct m args a v s = system_call env c h ct m args a v s"
  unfolding system_call_def execute_frame [OF assms] frame_sel [OF assms(1)] ..

lemma governance_frame:
  assumes "same_frame h h'" "same_config c c'"
  shows "getPassedProposalCount env c' h' s = getPassedProposalCount env c h s"
  unfolding getPassedProposalCount_def governance_call_def execute_frame [OF assms] frame_sel [OF assms(1)] ..

lemma top_validators_frame:
  assumes "same_config c c'" "h_Coinbase h' = h_Coinbase h"
  shows "top_validators env c' p h' = top_validators env c p h"
proof -
  have p: "same_frame p p" by (simp add: same_frame_def)
  show ?thesis
    unfolding top_validators_def ExecuteMsg_frame [OF p assms(1)] config_sel [OF assms(1)] assms(2) ..
qed

lemma getTopValidators_frame:
  assumes "same_config c c'" "h_Coinbase h' = h_Coinbase h" "h_ParentHash h' = h_ParentHash h" "h_Number h' = h_Number h"
  shows "getTopValidators ch (top_validators env c') h' = getTopValidators ch (top_validators env c) h"
  unfolding getTopValidators_def header_number_def assms(3,4) top_validators_frame [OF assms(1,2)] ..

lemma epoch_frame:
  assumes "same_frame h h'" "same_config c c'"
  shows "doSomethingAtEpoch env c' h' s = doSomethingAtEpoch env c h s"
proof -
  have g: "getTopValidators (en_ch env) (top_validators env c') h' = getTopValidators (en_ch env) (top_validators env c) h"
    using assms by (intro getTopValidators_frame) (simp_all add: same_frame_def)
  show ?thesis
    unfolding doSomethingAtEpoch_def g updateValidators_def decreaseMissedBlocksCounter_def
      system_call_frame [OF assms] frame_sel [OF assms(1)] config_sel [OF assms(2)] ..
qed

lemma initialize_contracts_frame:
  assumes "same_frame h h'" "same_config c c'"
  shows "initialize_contracts env c' h' cs s = initialize_contracts env c h cs s"
proof (induction cs arbitrary: s)
  case (Cons x cs)
  obtain a ct args where x: "x = (a, ct, args)" by (cases x)
  show ?case unfolding x initialize_contracts.simps system_call_frame [OF assms] Cons.IH ..
qed simp


lemma reward_frame:
  assumes "same_frame h h'" "same_config c c'"
  shows "reward_block env c' h' txs s = reward_block env c h txs s"
  unfolding reward_block_def trySendBlockReward_def system_call_frame [OF assms] frame_sel [OF assms(1)] config_sel [OF assms(2)] ..

lemma initialize_frame:
  assumes "same_frame h h'"
  shows "initializeSystemContracts env c h' s = initializeSystemContracts env c h s"
  unfolding initializeSystemContracts_def initialize_contracts_frame [OF assms same_config_refl] frame_sel [OF assms] ..

lemma punish_frame:
  assumes "same_frame h h'"
  shows "punishValidator env c v h' s = punishValidator env c v h s"
    and "tryPunishValidator c ch cr vp h' s = tryPunishValidator c ch cr vp h s"
  unfolding punishValidator_def system_call_frame [OF assms same_config_refl] frame_sel [OF assms] tryPunishValidator_def
  by (rule refl)+

lemma finalize_start_frame:
  assumes "same_frame h h'"
  shows "finalize_start env c h' s = finalize_start env c h s"
  unfolding finalize_start_def initialize_frame [OF assms] punish_frame [OF assms] frame_sel [OF assms] ..

lemma finalize_start_config: "finalize_start env c h s = Some (r, c') \<Longrightarrow> same_config c c'"
  by (auto simp: finalize_start_def initializeSystemContracts_def tryPunishValidator_def Let_def
      split: option.splits sum.splits prod.splits if_splits dest!: snapshot_config intro: same_config_trans)

lemma at_epoch_frame:
  assumes "same_frame h h'" "same_config c c'"
  shows "at_epoch c' h' = at_epoch c h"
  unfolding at_epoch_def frame_sel [OF assms(1)] config_sel [OF assms(2)] ..

subsection \<open>The prepared extra-data\<close>

lemma put_seal_extra:
  "extraVanity + extraSeal \<le> length e \<Longrightarrow>
   length (put_seal e sig) = length e \<and> take (length e - extraSeal) (put_seal e sig) = take (length e - extraSeal) e"
  by (simp add: put_seal_def Let_def congress_consts)

text \<open>At an epoch block the extra-data names the validators of the contract.\<close>

definition names_validators :: "engine_env \<Rightarrow> congress \<Rightarrow> Header \<Rightarrow> bool" where
  "names_validators env c h \<longleftrightarrow> extraVanity + extraSeal \<le> length (h_Extra h) \<and>
    (at_epoch c h = Some True \<longrightarrow>
      (\<exists>vs. getTopValidators (en_ch env) (top_validators env c) h = Inr vs \<and>
         drop extraVanity (take (length (h_Extra h) - extraSeal) (h_Extra h)) = concat (map address_bytes vs)))"

lemma Prepare_names:
  assumes "Prepare c (en_ch env) cr now (top_validators env c) h0 = Some (Inr h, c')"
  shows "names_validators env c h"
proof -
  let ?h = "h0\<lparr>h_Coinbase := cg_validator c, h_Nonce := 0\<rparr>"
  obtain n s where n: "header_number ?h = Some n" "prepare_header c (en_ch env) now (top_validators env c) s ?h n = Inr h"
    using assms unfolding Prepare_def Let_def by (auto split: option.splits sum.splits)
  obtain d e and p :: Header where d: "prepare_extra c (en_ch env) (top_validators env c) (?h\<lparr>h_Difficulty := Some d\<rparr>) n = Inr e"
    "h = ?h\<lparr>h_Difficulty := Some d, h_Extra := e @ replicate extraSeal 0, h_MixDigest := 0,
       h_Time := max (h_Time p + Period (cg_config c)) now\<rparr>"
    using n(2) by (elim prepare_header_Inr) blast
  have g: "getTopValidators (en_ch env) (top_validators env c) h =
      getTopValidators (en_ch env) (top_validators env c) (?h\<lparr>h_Difficulty := Some d, h_Extra := pad_vanity (h_Extra h0)\<rparr>)"
    by (rule getTopValidators_frame) (simp_all add: d(2))
  have hn: "header_number h = Some n" using n(1) by (simp add: d(2) header_number_def)
  have x: "h_Extra h = e @ replicate extraSeal 0" by (simp add: d(2))
  show ?thesis
    using d(1) unfolding names_validators_def at_epoch_def hn x g
    by (auto simp: prepare_extra_def Let_def rbind_Inr_iff split: if_splits)
qed

lemma names_validators_frame:
  assumes "same_frame h h'" "same_config c c'" "h_Extra h' = put_seal (h_Extra h) sig" "names_validators env c h"
  shows "names_validators env c' h'"
proof -
  have e: "extraVanity + extraSeal \<le> length (h_Extra h)" using assms(4) by (simp add: names_validators_def)
  have g: "getTopValidators (en_ch env) (top_validators env c') h' = getTopValidators (en_ch env) (top_validators env c) h"
    using assms by (intro getTopValidators_frame) (simp_all add: same_frame_def)
  show ?thesis
    using assms(4) put_seal_extra [OF e, of sig] unfolding names_validators_def at_epoch_frame [OF assms(1,2)] g assms(3) by simp
qed


subsection \<open>Assembled blocks verify\<close>

lemma execute_proposals_length:
  "execute_proposals env c h i n txs rs ids s = (Inr (txs', rs', ids'), s') \<Longrightarrow> length txs' = length txs + n"
  by (induction env c h i n txs rs ids s rule: execute_proposals.induct) (auto split: prod.splits sum.splits)

lemma governance_agree:
  assumes "same_frame h h'" "governance_assemble env c h txs rs s = (Inr (txs, rs'), s')" "en_signTx env \<noteq> None"
  shows "governance_verify env c h' txs rs [] s = (Inr (txs, rs'), s') \<and> rs' = rs"
proof (cases "IsRedCoast (ch_Config (en_ch env)) (h_Number h)")
  case True
  obtain r s1 where r: "getPassedProposalCount env c h s = (r, s1)" by fastforce
  with assms(2,3) True obtain n where n: "r = Inr n" unfolding governance_assemble_def by (cases r) auto
  obtain x s2 where x: "execute_proposals env c h 0 (unat n) txs rs [] s1 = (x, s2)" by fastforce
  obtain txs' rs'' ids where y: "x = Inr (txs', rs'', ids)"
    using assms(2,3) True r n x unfolding governance_assemble_def by (cases x) auto
  have "txs' = txs" using assms(2,3) True r n x y unfolding governance_assemble_def by (auto split: prod.splits sum.splits)
  then have "unat n = 0" using execute_proposals_length x y by fastforce
  then have n0: "n = 0" by (simp add: unat_eq_0)
  have "(txs', rs'', ids) = (txs, rs, [])" "s2 = s1" using x y n0 by auto
  then show ?thesis
    using assms(2,3) True r n n0 x y
    unfolding governance_verify_def governance_assemble_def governance_frame [OF assms(1) same_config_refl] frame_sel [OF assms(1)]
    by simp
next
  case False
  then show ?thesis using assms(2) unfolding governance_verify_def governance_assemble_def frame_sel [OF assms(1)] by simp
qed

lemma epoch_agree:
  assumes "same_frame h h'" "names_validators env c h'" "epoch_assemble env c h s = (Inr u, s')"
  shows "epoch_verify env c h' s = (Inr (), s') \<or>
    (\<exists>e. at_epoch c h' = Some True \<and> doSomethingAtEpoch env c h' s = (Inl e, s') \<and> epoch_verify env c h' s = (Inl e, s'))"
proof (cases "at_epoch c h")
  case (Some b)
  show ?thesis
  proof (cases b)
    case True
    obtain r s1 where r: "doSomethingAtEpoch env c h' s = (r, s1)" by fastforce
    have s1: "s1 = s'"
      using assms(3) Some True r unfolding epoch_assemble_def epoch_frame [OF assms(1) same_config_refl, symmetric]
      by (simp split: if_splits)
    have ae: "at_epoch c h' = Some True" using Some True at_epoch_frame [OF assms(1) same_config_refl] by simp
    show ?thesis
    proof (cases r)
      case (Inl e)
      then show ?thesis using r s1 ae by (simp add: epoch_verify_def)
    next
      case (Inr vs)
      have "getTopValidators (en_ch env) (top_validators env c) h' = Inr vs"
        using r Inr unfolding doSomethingAtEpoch_def by (auto split: sum.splits prod.splits)
      then show ?thesis using r s1 ae Inr assms(2) unfolding names_validators_def epoch_verify_def by (simp add: Let_def)
    qed
  next
    case False
    then show ?thesis
      using assms(3) Some unfolding epoch_assemble_def epoch_verify_def at_epoch_frame [OF assms(1) same_config_refl] by simp
  qed
qed (use assms(3) in \<open>simp add: epoch_assemble_def\<close>)


lemma CopyHeader_id: "h_Number h = Some n \<Longrightarrow> h_Difficulty h = Some d \<Longrightarrow> CopyHeader h = h"
  by (simp add: CopyHeader_def big_or_0_def)

lemma finalize_start_header: "finalize_start env c h s = Some (Inr s1, c1) \<Longrightarrow> \<exists>n d. h_Number h = Some n \<and> h_Difficulty h = Some d"
  by (auto simp: finalize_start_def split: option.splits)

text \<open>The header of an assembled block before it is sealed.\<close>

lemma NewBlock_header:
  assumes "h_Number h = Some n" "h_Difficulty h = Some d"
  shows "\<exists>th rh b. blk_header (NewBlock kec hasher h txs [] rs) =
      h\<lparr>h_TxHash := th, h_ReceiptHash := rh, h_Bloom := b, h_UncleHash := EmptyUncleHash kec\<rparr>"
    and "blk_transactions (NewBlock kec hasher h txs [] rs) = txs"
proof -
  let ?b = "NewBlock kec hasher h txs [] rs"
  have "blk_header ?b = h\<lparr>h_TxHash := h_TxHash (blk_header ?b), h_ReceiptHash := h_ReceiptHash (blk_header ?b),
      h_Bloom := h_Bloom (blk_header ?b), h_UncleHash := EmptyUncleHash kec\<rparr>"
    unfolding NewBlock_def Let_def CopyHeader_id [OF assms] by (cases "rs = []") simp_all
  then show "\<exists>th rh b. blk_header ?b = h\<lparr>h_TxHash := th, h_ReceiptHash := rh, h_Bloom := b, h_UncleHash := EmptyUncleHash kec\<rparr>"
    by blast
qed (simp add: NewBlock_def Let_def)

text \<open>C9. A block that an honest validator assembles is accepted by \<^verbatim>\<open>Finalize\<close>.  Take a header from \<^verbatim>\<open>Prepare\<close>, any gas used,
  any transactions and state; if \<^verbatim>\<open>FinalizeAndAssemble\<close> builds a block, with no governance proposal to execute, and
  the block is sealed by any signature, then \<^verbatim>\<open>Finalize\<close> on the sealed header and the same transactions and state
  recomputes exactly that header, in particular its state root, and ends in the same state.  The only exception is
  an epoch block whose contract calls fail: the proposer logs the error and every verifier rejects the block.\<close>

theorem assembled_block_verifies:
  assumes "Prepare c (en_ch env) cr now (top_validators env c) h0 = Some (Inr h, c0)" "en_signTx env \<noteq> None"
    and "FinalizeAndAssemble env c (h\<lparr>h_GasUsed := g\<rparr>) s txs rs = Some (Inr (block, rs', s'), c1)"
    and "blk_transactions block = txs" "seal_header signFn val (blk_header block) = Inr hs"
  shows "Finalize env c hs s txs rs [] = Some (Inr (hs, txs, rs, s'), c1) \<or>
    (\<exists>t e. at_epoch c hs = Some True \<and> fst (doSomethingAtEpoch env c hs t) = Inl e \<and>
       Finalize env c hs s txs rs [] = Some (Inl e, c1))"
proof -
  let ?h = "h\<lparr>h_GasUsed := g\<rparr>" and ?kec = "c_keccak (en_cr env)"
  obtain s1 c' where a: "finalize_start env c ?h s = Some (Inr s1, c')"
    using assms(3) unfolding FinalizeAndAssemble_def by (auto split: option.splits sum.splits)
  obtain u s2 where b: "reward_block env c' ?h txs s1 = (Inr u, s2)"
    using assms(3) a unfolding FinalizeAndAssemble_def by (cases "reward_block env c' ?h txs s1") (auto split: sum.splits)
  obtain v s3 where d: "epoch_assemble env c' ?h s2 = (Inr v, s3)"
    using assms(3) a b unfolding FinalizeAndAssemble_def by (cases "epoch_assemble env c' ?h s2") (auto split: sum.splits)
  obtain txs' rs'' s4 where e: "governance_assemble env c' ?h txs rs s3 = (Inr (txs', rs''), s4)"
    using assms(3) a b d unfolding FinalizeAndAssemble_def
    by (cases "governance_assemble env c' ?h txs rs s3") (auto split: sum.splits)
  obtain hr s5 where f: "finalize_root env ?h s4 = (hr, s5)" by fastforce
  have blk: "block = NewBlock ?kec (en_hasher env) hr txs' [] rs''" "rs' = rs''" "s' = s5" "c1 = c'"
    using assms(3) a b d e f unfolding FinalizeAndAssemble_def by auto
  have hr: "same_frame ?h hr" "h_Extra hr = h_Extra ?h"
    using f by (auto simp: finalize_root_def same_frame_def split: prod.splits)
  obtain n df where nd: "h_Number ?h = Some n" "h_Difficulty ?h = Some df" using finalize_start_header [OF a] by blast
  then have "h_Number hr = Some n" "h_Difficulty hr = Some df" using frame_sel [OF hr(1)] by simp_all
  then obtain th rh bl where bh: "blk_header block =
      hr\<lparr>h_TxHash := th, h_ReceiptHash := rh, h_Bloom := bl, h_UncleHash := EmptyUncleHash ?kec\<rparr>" "txs' = txs"
    using NewBlock_header [of hr n df ?kec "en_hasher env" txs' rs''] assms(4) blk(1) by metis
  obtain sig where hs: "hs = (blk_header block)\<lparr>h_Extra := put_seal (h_Extra (blk_header block)) sig\<rparr>"
    using assms(5) by (auto simp: seal_header_def rbind_Inr_iff split: option.splits)
  have fr: "same_frame ?h hs" using hr(1) unfolding hs bh(1) by (simp add: same_frame_def)
  have ex: "h_Extra hs = put_seal (h_Extra ?h) sig" unfolding hs bh(1) using hr(2) by simp
  have cfg: "same_config c c'" by (rule finalize_start_config [OF a])
  have "names_validators env c ?h"
    using Prepare_names [OF assms(1)] getTopValidators_frame [of c c h ?h "en_ch env" env]
    by (simp add: names_validators_def at_epoch_def header_number_def)
  then have nv: "names_validators env c' hs" by (rule names_validators_frame [OF fr cfg ex])
  have gov: "governance_verify env c' hs txs rs [] s3 = (Inr (txs, rs), s4)"
    using governance_agree [OF fr _ assms(2)] e bh(2) by blast
  have root: "finalize_root env hs s4 = (hs, s5)"
  proof -
    have "IntermediateRoot env (IsEIP158 (ch_Config (en_ch env)) (h_Number ?h)) s4 = (h_Root hr, s5)"
      using f by (auto simp: finalize_root_def split: prod.splits)
    moreover have "h_Root hs = h_Root hr" "h_UncleHash hs = EmptyUncleHash ?kec" unfolding hs bh(1) by simp_all
    ultimately show ?thesis
      unfolding finalize_root_def frame_sel(1) [OF fr] by (simp add: CalcUncleHash_def)
  qed
  note ver = finalize_start_frame [OF fr] reward_frame [OF fr same_config_refl]
  from epoch_agree [OF fr nv d] show ?thesis
  proof
    assume "epoch_verify env c' hs s2 = (Inr (), s3)"
    then show ?thesis using a b gov root blk unfolding Finalize_def ver by simp
  next
    assume "\<exists>e. at_epoch c' hs = Some True \<and> doSomethingAtEpoch env c' hs s2 = (Inl e, s3) \<and> epoch_verify env c' hs s2 = (Inl e, s3)"
    then obtain er where er: "at_epoch c' hs = Some True" "doSomethingAtEpoch env c' hs s2 = (Inl er, s3)" "epoch_verify env c' hs s2 = (Inl er, s3)"
      by blast
    have "Finalize env c hs s txs rs [] = Some (Inl er, c1)" using a b er blk unfolding Finalize_def ver by simp
    moreover have "same_frame hs hs" by (simp add: same_frame_def)
    then have "at_epoch c hs = Some True" "doSomethingAtEpoch env c hs s2 = (Inl er, s3)"
      using er(1,2) at_epoch_frame [OF _ cfg] epoch_frame [OF _ cfg] by metis+
    ultimately show ?thesis by (metis fst_conv)
  qed
qed


definition demo_engine_env :: engine_env where
  "demo_engine_env =
    \<lparr>en_vm = demo_vm, en_be = demo_be,
     en_ch = \<lparr>ch_Config = MainnetChainConfig, ch_GetHeader = (\<lambda>_ _. Some demo_genesis), ch_GetHeaderByNumber = (\<lambda>_. None)\<rparr>,
     en_cr = demo_crypto, en_me = demo_meta, en_stateFn = (\<lambda>_. Some (demo_be, state_New None)), en_root = (\<lambda>s. (77, s)),
     en_hasher = (\<lambda>us. of_nat (length us)), en_overflow = 0, en_signTx = Some (\<lambda>_ tx _. Some tx),
     en_unpackProposal = (\<lambda>_. None), en_now = 0\<rparr>"

definition demo_sealer :: congress where
  "demo_sealer = demo_engine\<lparr>cg_recents := [(5, demo_snapshot)], cg_validator := 3\<rparr>"

definition demo_start :: Header where
  "demo_start = header0\<lparr>h_Number := Some 8, h_ParentHash := 5\<rparr>"

lemma demo_sealer_snapshot:
  "\<exists>c'. congress_snapshot demo_sealer ch cr n 5 ps = Some (Inr demo_snapshot, c')"
  by (simp add: congress_snapshot_def snapshot_loop.simps demo_sealer_def snap_apply_def Let_def)

lemma demo_inturn: "inturn demo_snapshot 8 3 = Some True" "snap_Number demo_snapshot = 7"
  by code_simp+

lemma demo_prepared:
  "\<exists>h c'. Prepare demo_sealer (en_ch demo_engine_env) cr 9 vt demo_start = Some (Inr h, c') \<and>
     h_Number h = Some 8 \<and> h_Difficulty h = Some 2 \<and> length (h_Extra h) = 97 \<and> h_BaseFee h = None"
proof -
  obtain c' where c': "congress_snapshot demo_sealer (en_ch demo_engine_env) cr 7 5 [] = Some (Inr demo_snapshot, c')"
    using demo_sealer_snapshot by blast
  let ?h = "demo_start\<lparr>h_Coinbase := 3, h_Nonce := 0\<rparr>"
  have "\<exists>h. prepare_header demo_sealer (en_ch demo_engine_env) 9 vt demo_snapshot ?h 8 = Inr h \<and>
      h_Number h = Some 8 \<and> h_Difficulty h = Some 2 \<and> length (h_Extra h) = 97 \<and> h_BaseFee h = None"
    by (simp add: prepare_header_def calcDifficulty_def demo_inturn demo_sealer_def demo_engine_def demo_config_def
        prepare_extra_def demo_engine_env_def demo_start_def header0_def congress_consts Let_def)
  moreover have "header_number (demo_start\<lparr>h_Coinbase := v, h_Nonce := 0\<rparr>) = Some 8" "h_ParentHash demo_start = 5" for v
    by (simp_all add: header_number_def demo_start_def big_Uint64_def)
  ultimately show ?thesis using c' by (auto simp: Prepare_def Let_def demo_sealer_def)
qed

theorem assembled_block_verifies_witness:
  "\<exists>h block s' c1 hs. FinalizeAndAssemble demo_engine_env demo_sealer h (state_New None) [] [] = Some (Inr (block, [], s'), c1) \<and>
     seal_header (\<lambda>_ _. Some [1]) 3 (blk_header block) = Inr hs \<and>
     Finalize demo_engine_env demo_sealer hs (state_New None) [] [] [] = Some (Inr (hs, [], [], s'), c1)"
proof -
  let ?env = demo_engine_env and ?c = demo_sealer and ?s = "state_New None"
  obtain h c0 where p: "Prepare ?c (en_ch ?env) demo_crypto 9 (top_validators ?env ?c) demo_start = Some (Inr h, c0)"
    and h: "h_Number h = Some 8" "h_Difficulty h = Some 2" "length (h_Extra h) = 97" "h_BaseFee h = None"
    using demo_prepared by blast
  let ?h = "h\<lparr>h_GasUsed := 0\<rparr>"
  have ep: "at_epoch ?c g = Some False" if "h_Number g = Some 8" for g
    using that by (simp add: at_epoch_def header_number_def demo_sealer_def demo_engine_def demo_config_def big_Uint64_def)
  have st: "finalize_start ?env ?c ?h ?s = Some (Inr ?s, ?c)"
    using h by (simp add: finalize_start_def diffInTurn_def)
  have rc: "\<not> IsRedCoast (ch_Config (en_ch ?env)) (h_Number h)"
    by (simp add: IsRedCoast_def isForked_def h demo_engine_env_def MainnetChainConfig_def)
  obtain hr s5 where f: "finalize_root ?env ?h ?s = (hr, s5)" by fastforce
  let ?b = "NewBlock (c_keccak (en_cr ?env)) (en_hasher ?env) hr [] [] []"
  have fa: "FinalizeAndAssemble ?env ?c ?h ?s [] [] = Some (Inr (?b, [], s5), ?c)"
    using st ep [of ?h] h rc f by (simp add: FinalizeAndAssemble_def reward_block_def epoch_assemble_def governance_assemble_def)
  have hr: "h_Number hr = Some 8" "h_Difficulty hr = Some 2" "h_Extra hr = h_Extra h" "h_BaseFee hr = None"
    using f h by (auto simp: finalize_root_def split: prod.splits)
  obtain th rh bl where bh: "blk_header ?b =
      hr\<lparr>h_TxHash := th, h_ReceiptHash := rh, h_Bloom := bl, h_UncleHash := EmptyUncleHash (c_keccak (en_cr ?env))\<rparr>" "blk_transactions ?b = []"
    using NewBlock_header [OF hr(1,2)] by metis
  have "CongressRLP (blk_header ?b) \<noteq> Inl e" for e
    using hr h(3) unfolding bh(1) CongressRLP_def
    by (subst encodeSigHeader_eq)
       (simp_all add: SanityCheck_def header_nonneg_def big_nonneg_def big_IsUint64_def big_BitLen_def nat_BitLen.simps extraSeal_def)
  then obtain hs where hs: "seal_header (\<lambda>_ _. Some [1]) 3 (blk_header ?b) = Inr hs" "h_Number hs = Some 8"
    using bh(1) hr by (cases "CongressRLP (blk_header ?b)") (auto simp: seal_header_def)
  have "en_signTx ?env \<noteq> None" by (simp add: demo_engine_env_def)
  then have "Finalize ?env ?c hs ?s [] [] [] = Some (Inr (hs, [], [], s5), ?c)"
    using assembled_block_verifies [OF p _ fa bh(2) hs(1)] ep [OF hs(2)] by auto
  with fa hs(1) show ?thesis by blast
qed

end
