(* ===== verification/Vm_Machine.thy ===== *)
theory Vm_Machine
  imports Evm "HOL-Library.Signed_Division"
begin

text \<open>
  The machine of the EVM interpreter: sizes and gas helpers (\<^verbatim>\<open>core/vm/common.go\<close>, \<^verbatim>\<open>gas.go\<close>,
  \<^verbatim>\<open>common/math/integer.go\<close>), the stack, the memory (\<^verbatim>\<open>stack.go\<close>, \<^verbatim>\<open>memory.go\<close>, \<^verbatim>\<open>memory_table.go\<close>) and the
  analysis of jump destinations (\<^verbatim>\<open>analysis.go\<close>, \<^verbatim>\<open>contract.go\<close>).

  A \<^verbatim>\<open>uint256.Int\<close> is a 256-bit word.  The stack is a list with its top first.  A Go slice is shorter than
  $2^{63}$, so its length as an integer is \<open>go_len\<close>.  \<open>None\<close> is a panic: an index or slice out of range.
\<close>

unbundle bit_operations_syntax

subsection \<open>Sizes\<close>

definition go_len :: "'a list \<Rightarrow> u64" where
  "go_len xs = of_nat (min (length xs) (2 ^ 63 - 1))"

definition SafeAdd :: "u64 \<Rightarrow> u64 \<Rightarrow> u64 \<times> bool" where
  "SafeAdd x y = (x + y, unat x + unat y \<ge> 2 ^ 64)"

definition SafeMul :: "u64 \<Rightarrow> u64 \<Rightarrow> u64 \<times> bool" where
  "SafeMul x y = (x * y, unat x * unat y \<ge> 2 ^ 64)"

definition IsUint64 :: "hash \<Rightarrow> bool" where
  "IsUint64 x \<longleftrightarrow> unat x < 2 ^ 64"

definition Uint64 :: "hash \<Rightarrow> u64" where
  "Uint64 x = ucast x"

definition Bytes20 :: "hash \<Rightarrow> address" where
  "Bytes20 x = ucast x"

definition calcMemSize64WithUint :: "hash \<Rightarrow> u64 \<Rightarrow> u64 \<times> bool" where
  "calcMemSize64WithUint off length64 =
    (if length64 = 0 then (0, False)
     else if \<not> IsUint64 off then (0, True)
     else (let val = Uint64 off + length64 in (val, val < Uint64 off)))"

definition calcMemSize64 :: "hash \<Rightarrow> hash \<Rightarrow> u64 \<times> bool" where
  "calcMemSize64 off l = (if \<not> IsUint64 l then (0, True) else calcMemSize64WithUint off (Uint64 l))"

definition RightPadBytes :: "bytes \<Rightarrow> int \<Rightarrow> bytes" where
  "RightPadBytes bs l = (if l \<le> int (length bs) then bs else bs @ replicate (nat l - length bs) 0)"

definition go_slice :: "bytes \<Rightarrow> nat \<Rightarrow> nat \<Rightarrow> bytes option" where
  "go_slice bs i j = (if i \<le> j \<and> j \<le> length bs then Some (take (j - i) (drop i bs)) else None)"

definition getData :: "bytes \<Rightarrow> u64 \<Rightarrow> u64 \<Rightarrow> bytes option" where
  "getData data start sz =
    (let len = go_len data; start' = (if start > len then len else start); end0 = start' + sz;
         end' = (if end0 > len then len else end0)
     in map_option (\<lambda>sl. RightPadBytes sl (sint sz)) (go_slice data (unat start') (unat end')))"

definition toWordSize :: "u64 \<Rightarrow> u64" where
  "toWordSize sz = (if sz > MaxUint64 - 31 then MaxUint64 div 32 + 1 else (sz + 31) div 32)"

definition callGas :: "bool \<Rightarrow> u64 \<Rightarrow> u64 \<Rightarrow> hash \<Rightarrow> (vm_error, u64) result" where
  "callGas isEip150 availableGas base callCost =
    (let available = availableGas - base; gas = available - available div 64
     in if isEip150 \<and> (\<not> IsUint64 callCost \<or> gas < Uint64 callCost) then Inr gas
        else if \<not> IsUint64 callCost then Inl ErrGasUintOverflow
        else Inr (Uint64 callCost))"

subsection \<open>Stack\<close>

type_synonym Stack = "hash list"

definition stack_Back :: "nat \<Rightarrow> Stack \<Rightarrow> hash option" where
  "stack_Back n st = (if n < length st then Some (st ! n) else None)"

definition stack_swap :: "nat \<Rightarrow> Stack \<Rightarrow> Stack option" where
  "stack_swap n st = (if 0 < n \<and> n \<le> length st then Some (st[0 := st ! (n - 1), n - 1 := st ! 0]) else None)"

definition stack_dup :: "nat \<Rightarrow> Stack \<Rightarrow> Stack option" where
  "stack_dup n st = (if 0 < n \<and> n \<le> length st then Some (st ! (n - 1) # st) else None)"

definition StackLimit :: int where "StackLimit = 1024"

definition minStack :: "int \<Rightarrow> int \<Rightarrow> int" where
  "minStack pops push = pops"

definition maxStack :: "int \<Rightarrow> int \<Rightarrow> int" where
  "maxStack pop push = StackLimit + pop - push"

definition minSwapStack :: "int \<Rightarrow> int" where "minSwapStack n = minStack n n"
definition maxSwapStack :: "int \<Rightarrow> int" where "maxSwapStack n = maxStack n n"
definition minDupStack :: "int \<Rightarrow> int" where "minDupStack n = minStack n (n + 1)"
definition maxDupStack :: "int \<Rightarrow> int" where "maxDupStack n = maxStack n (n + 1)"

lemmas stack_bounds = minStack_def maxStack_def minSwapStack_def maxSwapStack_def minDupStack_def maxDupStack_def StackLimit_def

subsection \<open>Memory\<close>

record Memory =
  mem_store :: bytes
  mem_lastGasCost :: u64

definition NewMemory :: Memory where
  "NewMemory = \<lparr>mem_store = [], mem_lastGasCost = 0\<rparr>"

definition mem_Len :: "Memory \<Rightarrow> u64" where
  "mem_Len m = go_len (mem_store m)"

text \<open>The built-in \<^verbatim>\<open>copy(dst[i:j], src)\<close>.\<close>

definition copy_into :: "bytes \<Rightarrow> nat \<Rightarrow> nat \<Rightarrow> bytes \<Rightarrow> bytes option" where
  "copy_into dst i j src =
    (if i \<le> j \<and> j \<le> length dst then
       (let v = take (j - i) src in Some (take i dst @ v @ drop (i + length v) dst))
     else None)"

definition mem_Set :: "u64 \<Rightarrow> u64 \<Rightarrow> bytes \<Rightarrow> Memory \<Rightarrow> Memory option" where
  "mem_Set offset sz v m =
    (if sz > 0 then
       if offset + sz > mem_Len m then None
       else map_option (\<lambda>st. m\<lparr>mem_store := st\<rparr>) (copy_into (mem_store m) (unat offset) (unat (offset + sz)) v)
     else Some m)"

definition mem_Set32 :: "u64 \<Rightarrow> hash \<Rightarrow> Memory \<Rightarrow> Memory option" where
  "mem_Set32 offset val m =
    (if offset + 32 > mem_Len m then None
     else map_option (\<lambda>st. m\<lparr>mem_store := st\<rparr>) (copy_into (mem_store m) (unat offset) (length (mem_store m)) (hash_bytes val)))"

definition mem_Resize :: "u64 \<Rightarrow> Memory \<Rightarrow> Memory" where
  "mem_Resize sz m =
    (if mem_Len m < sz then m\<lparr>mem_store := mem_store m @ replicate (unat (sz - mem_Len m)) 0\<rparr> else m)"

text \<open>\<^verbatim>\<open>GetCopy\<close> and \<^verbatim>\<open>GetPtr\<close> read the same bytes; offset and size are signed here.  A slice that ends beyond
  the length fails in the model, while Go fails only beyond the capacity of the memory: the model panics in more
  cases, and \<open>Vm_Runs\<close> shows that no instruction reaches one of them.\<close>

definition mem_Get :: "int \<Rightarrow> int \<Rightarrow> Memory \<Rightarrow> bytes option" where
  "mem_Get offset sz m =
    (if sz = 0 then Some []
     else if int (length (mem_store m)) > offset then
       if offset < 0 \<or> sz < 0 then None else go_slice (mem_store m) (nat offset) (nat (offset + sz))
     else Some [])"

definition mem_read :: "hash \<Rightarrow> hash \<Rightarrow> Memory \<Rightarrow> bytes option" where
  "mem_read offset sz m = mem_Get (sint (Uint64 offset)) (sint (Uint64 sz)) m"

subsection \<open>Memory sizes (\<^verbatim>\<open>memory_table.go\<close>)\<close>

type_synonym memorySizeFunc = "Stack \<Rightarrow> (u64 \<times> bool) option"

definition memory_at :: "nat \<Rightarrow> nat \<Rightarrow> memorySizeFunc" where
  "memory_at i j st = (if max i j < length st then Some (calcMemSize64 (st ! i) (st ! j)) else None)"

definition memory_word :: "u64 \<Rightarrow> memorySizeFunc" where
  "memory_word l st = (case st of [] \<Rightarrow> None | off # _ \<Rightarrow> Some (calcMemSize64WithUint off l))"

text \<open>The larger of two regions.\<close>

definition memory_regions :: "nat \<Rightarrow> nat \<Rightarrow> nat \<Rightarrow> nat \<Rightarrow> memorySizeFunc" where
  "memory_regions i j k l st =
    (case (memory_at i j st, memory_at k l st) of
       (Some (x, ox), Some (y, oy)) \<Rightarrow> Some (if ox \<or> oy then (0, True) else (if x > y then x else y, False))
     | _ \<Rightarrow> None)"

definition memorySha3 :: memorySizeFunc where "memorySha3 = memory_at 0 1"
definition memoryCallDataCopy :: memorySizeFunc where "memoryCallDataCopy = memory_at 0 2"
definition memoryReturnDataCopy :: memorySizeFunc where "memoryReturnDataCopy = memory_at 0 2"
definition memoryCodeCopy :: memorySizeFunc where "memoryCodeCopy = memory_at 0 2"
definition memoryExtCodeCopy :: memorySizeFunc where "memoryExtCodeCopy = memory_at 1 3"
definition memoryMLoad :: memorySizeFunc where "memoryMLoad = memory_word 32"
definition memoryMStore8 :: memorySizeFunc where "memoryMStore8 = memory_word 1"
definition memoryMStore :: memorySizeFunc where "memoryMStore = memory_word 32"
definition memoryCreate :: memorySizeFunc where "memoryCreate = memory_at 1 2"
definition memoryCreate2 :: memorySizeFunc where "memoryCreate2 = memory_at 1 2"
definition memoryCall :: memorySizeFunc where "memoryCall = memory_regions 5 6 3 4"
definition memoryDelegateCall :: memorySizeFunc where "memoryDelegateCall = memory_regions 4 5 2 3"
definition memoryStaticCall :: memorySizeFunc where "memoryStaticCall = memory_regions 4 5 2 3"
definition memoryReturn :: memorySizeFunc where "memoryReturn = memory_at 0 1"
definition memoryRevert :: memorySizeFunc where "memoryRevert = memory_at 0 1"
definition memoryLog :: memorySizeFunc where "memoryLog = memory_at 0 1"

lemmas memory_sizes = memorySha3_def memoryCallDataCopy_def memoryReturnDataCopy_def memoryCodeCopy_def memoryExtCodeCopy_def
  memoryMLoad_def memoryMStore8_def memoryMStore_def memoryCreate_def memoryCreate2_def memoryCall_def memoryDelegateCall_def
  memoryStaticCall_def memoryReturn_def memoryRevert_def memoryLog_def

subsection \<open>Jump destinations (\<^verbatim>\<open>analysis.go\<close>)\<close>

text \<open>A bit vector with one bit per byte of the code, the most significant bit of a byte first; a set bit is data.\<close>

type_synonym bitvec = bytes

definition bv_or :: "nat \<Rightarrow> byte \<Rightarrow> bitvec \<Rightarrow> bitvec option" where
  "bv_or i b bits = (if i < length bits then Some (bits[i := bits ! i OR b]) else None)"

definition bv_put :: "nat \<Rightarrow> byte \<Rightarrow> bitvec \<Rightarrow> bitvec option" where
  "bv_put i b bits = (if i < length bits then Some (bits[i := b]) else None)"

definition bv_set1 :: "nat \<Rightarrow> bitvec \<Rightarrow> bitvec option" where
  "bv_set1 pos bits = bv_or (pos div 8) (drop_bit (pos mod 8) 0x80) bits"

definition bv_setN :: "16 word \<Rightarrow> nat \<Rightarrow> bitvec \<Rightarrow> bitvec option" where
  "bv_setN flag pos bits =
    (let a = drop_bit (pos mod 8) flag; b = ucast a :: byte
     in Option.bind (bv_or (pos div 8) (ucast (drop_bit 8 a)) bits)
          (\<lambda>bits1. if b \<noteq> 0 then bv_put (pos div 8 + 1) b bits1 else Some bits1))"

definition bv_set8 :: "nat \<Rightarrow> bitvec \<Rightarrow> bitvec option" where
  "bv_set8 pos bits =
    (let a = drop_bit (pos mod 8) (0xFF :: byte)
     in Option.bind (bv_or (pos div 8) a bits) (bv_put (pos div 8 + 1) (NOT a)))"

definition bv_set16 :: "nat \<Rightarrow> bitvec \<Rightarrow> bitvec option" where
  "bv_set16 pos bits =
    (let a = drop_bit (pos mod 8) (0xFF :: byte)
     in Option.bind (Option.bind (bv_or (pos div 8) a bits) (bv_put (pos div 8 + 1) 0xFF)) (bv_put (pos div 8 + 2) (NOT a)))"

definition codeSegment :: "bitvec \<Rightarrow> nat \<Rightarrow> bool option" where
  "codeSegment bits pos =
    (if pos div 8 < length bits then Some ((bits ! (pos div 8)) AND drop_bit (pos mod 8) 0x80 = 0) else None)"

definition PUSH1 :: byte where "PUSH1 = 0x60"
definition PUSH32 :: byte where "PUSH32 = 0x7f"
definition JUMPDEST :: byte where "JUMPDEST = 0x5b"

fun mark16 :: "nat \<Rightarrow> nat \<Rightarrow> bitvec \<Rightarrow> (nat \<times> nat \<times> bitvec) option" where
  "mark16 numbits pc bits =
    (if numbits \<ge> 16 then Option.bind (bv_set16 pc bits) (mark16 (numbits - 16) (pc + 16)) else Some (numbits, pc, bits))"

fun mark8 :: "nat \<Rightarrow> nat \<Rightarrow> bitvec \<Rightarrow> (nat \<times> nat \<times> bitvec) option" where
  "mark8 numbits pc bits =
    (if numbits \<ge> 8 then Option.bind (bv_set8 pc bits) (mark8 (numbits - 8) (pc + 8)) else Some (numbits, pc, bits))"

definition setBitsMask :: "nat \<Rightarrow> 16 word" where
  "setBitsMask n = (if n = 2 then 0xC000 else if n = 3 then 0xE000 else if n = 4 then 0xF000 else if n = 5 then 0xF800
     else if n = 6 then 0xFC00 else 0xFE00)"

definition mark_rest :: "nat \<Rightarrow> nat \<Rightarrow> bitvec \<Rightarrow> bitvec option" where
  "mark_rest numbits pc bits =
    (if numbits = 0 then Some bits
     else if numbits = 1 then bv_set1 pc bits
     else bv_setN (setBitsMask numbits) pc bits)"

definition mark_data :: "nat \<Rightarrow> nat \<Rightarrow> bitvec \<Rightarrow> bitvec option" where
  "mark_data numbits pc bits =
    Option.bind (mark16 numbits pc bits) (\<lambda>(n1, pc1, bits1).
      Option.bind (mark8 n1 pc1 bits1) (\<lambda>(n2, pc2, bits2). mark_rest n2 pc2 bits2))"

text \<open>The number of bytes that the instruction at a position pushes.\<close>

definition push_size :: "byte \<Rightarrow> nat" where
  "push_size op = (if op < PUSH1 \<or> op > PUSH32 then 0 else unat (op - PUSH1) + 1)"

function codeBitmapInternal :: "bytes \<Rightarrow> nat \<Rightarrow> bitvec \<Rightarrow> bitvec option" where
  "codeBitmapInternal code pc bits =
    (if pc < length code then
       (let numbits = push_size (code ! pc)
        in Option.bind (mark_data numbits (pc + 1) bits) (codeBitmapInternal code (pc + 1 + numbits)))
     else Some bits)"
  by pat_completeness auto
termination by (relation "measure (\<lambda>(code, pc, bits). length code - pc)") auto

definition codeBitmap :: "bytes \<Rightarrow> bitvec option" where
  "codeBitmap code = codeBitmapInternal code 0 (replicate (length code div 8 + 1 + 4) 0)"

definition isCode :: "bytes \<Rightarrow> nat \<Rightarrow> bool option" where
  "isCode code udest = Option.bind (codeBitmap code) (\<lambda>analysis. codeSegment analysis udest)"

definition validJumpdest :: "bytes \<Rightarrow> hash \<Rightarrow> bool option" where
  "validJumpdest code dest =
    (if \<not> IsUint64 dest \<or> Uint64 dest \<ge> go_len code then Some False
     else if code ! unat (Uint64 dest) \<noteq> JUMPDEST then Some False
     else isCode code (unat (Uint64 dest)))"

definition GetOp :: "bytes \<Rightarrow> u64 \<Rightarrow> byte" where
  "GetOp code n = (if n < go_len code then code ! unat n else 0)"


subsection \<open>The analysis of jump destinations is right\<close>

definition data_bit :: "bitvec \<Rightarrow> nat \<Rightarrow> bool" where
  "data_bit bits p \<longleftrightarrow> p div 8 < length bits \<and> bit (bits ! (p div 8)) (7 - p mod 8)"

lemma codeSegment_bit: "p div 8 < length bits \<Longrightarrow> codeSegment bits p = Some (\<not> data_bit bits p)"
proof -
  have "drop_bit (p mod 8) (0x80 :: byte) = 2 ^ (7 - p mod 8)"
  proof -
    have "p mod 8 < 8" by simp
    then have "p mod 8 \<in> {0,1,2,3,4,5,6,7}" by auto
    then show ?thesis by (elim insertE) (simp_all add: drop_bit_eq_div)
  qed
  then show "p div 8 < length bits \<Longrightarrow> codeSegment bits p = Some (\<not> data_bit bits p)"
    by (simp add: codeSegment_def data_bit_def and_exp_eq_0_iff_not_bit)
qed

lemma bv_or_bit:
  "bv_or i b bits = Some bits' \<Longrightarrow> length bits' = length bits \<and> (\<forall>p. data_bit bits' p \<longleftrightarrow> data_bit bits p \<or> p div 8 = i \<and> bit b (7 - p mod 8))"
  by (auto simp: bv_or_def data_bit_def bit_or_iff nth_list_update split: if_splits)

lemma bv_put_bit:
  "bv_put i b bits = Some bits' \<Longrightarrow> length bits' = length bits \<and> (\<forall>p. data_bit bits' p \<longleftrightarrow> (if p div 8 = i then bit b (7 - p mod 8) else data_bit bits p))"
  by (auto simp: bv_put_def data_bit_def nth_list_update split: if_splits)

lemma byte_bits:
  "bit (drop_bit r (0x80 :: byte)) n \<longleftrightarrow> n + r = 7" "bit (drop_bit r (0xFF :: byte)) n \<longleftrightarrow> n + r < 8"
  "bit (NOT (drop_bit r (0xFF :: byte))) n \<longleftrightarrow> n < 8 \<and> 8 \<le> n + r" "bit (0xFF :: byte) n \<longleftrightarrow> n < 8"
proof -
  have m: "(0xFF :: byte) = mask 8" "(0x80 :: byte) = 2 ^ 7" by (simp_all add: mask_eq_exp_minus_1)
  show a: "bit (drop_bit r (0xFF :: byte)) n \<longleftrightarrow> n + r < 8" for r n
    unfolding m(1) bit_drop_bit_eq comp_apply bit_mask_iff by (auto simp: add.commute)
  show "bit (drop_bit r (0x80 :: byte)) n \<longleftrightarrow> n + r = 7"
    unfolding m(2) bit_drop_bit_eq comp_apply bit_exp_iff by (auto simp: add.commute)
  show "bit (NOT (drop_bit r (0xFF :: byte))) n \<longleftrightarrow> n < 8 \<and> 8 \<le> n + r"
    unfolding bit_not_iff a by auto
  show "bit (0xFF :: byte) n \<longleftrightarrow> n < 8" using a [of 0 n] by simp
qed

text \<open>Marking \<open>n\<close> positions from \<open>pos\<close> on, when no later position is marked yet.\<close>

definition marks :: "nat \<Rightarrow> nat \<Rightarrow> bitvec \<Rightarrow> bitvec \<Rightarrow> bool" where
  "marks n pos bits bits' \<longleftrightarrow> length bits' = length bits \<and> (\<forall>p. data_bit bits' p \<longleftrightarrow> data_bit bits p \<or> pos \<le> p \<and> p < pos + n)"

definition clean :: "nat \<Rightarrow> bitvec \<Rightarrow> bool" where
  "clean pos bits \<longleftrightarrow> (\<forall>p \<ge> pos. \<not> data_bit bits p)"

lemma marks_0: "marks 0 pos b b"
proof -
  have "\<not> (pos \<le> p \<and> p < pos + 0)" for p by linarith
  then show ?thesis unfolding marks_def by blast
qed

lemma marks_trans:
  assumes "marks n pos a b" "marks m (pos + n) b c"
  shows "marks (n + m) pos a c"
proof -
  have "pos \<le> p \<and> p < pos + n \<or> pos + n \<le> p \<and> p < pos + n + m \<longleftrightarrow> pos \<le> p \<and> p < pos + (n + m)" for p by linarith
  then show ?thesis using assms unfolding marks_def by metis
qed

lemma marks_clean: "clean pos a \<Longrightarrow> marks n pos a b \<Longrightarrow> clean (pos + n) b"
  by (auto simp: marks_def clean_def)

lemma window_parts:
  fixes q r q' r' :: nat
  assumes "r < 8" "r' < 8"
  shows "q = q' \<and> 7 - r + r' = 7 \<longleftrightarrow> 8 * q' + r' \<le> 8 * q + r \<and> 8 * q + r < 8 * q' + r' + 1"
    and "(if q = q' + 1 then 7 - r < 8 \<and> 8 \<le> 7 - r + r' else q = q' \<and> 7 - r + r' < 8) \<longleftrightarrow>
      8 * q' + r' \<le> 8 * q + r \<and> 8 * q + r < 8 * q' + r' + 8"
    and "(if q = q' + 2 then 7 - r < 8 \<and> 8 \<le> 7 - r + r' else if q = q' + 1 then 7 - r < 8 else q = q' \<and> 7 - r + r' < 8) \<longleftrightarrow>
      8 * q' + r' \<le> 8 * q + r \<and> 8 * q + r < 8 * q' + r' + 16"
proof -
  consider "q < q'" | "q = q'" | "q = q' + 1" | "q = q' + 2" | "q \<ge> q' + 3" by linarith
  note cs = this
  show "q = q' \<and> 7 - r + r' = 7 \<longleftrightarrow> 8 * q' + r' \<le> 8 * q + r \<and> 8 * q + r < 8 * q' + r' + 1"
    by (rule cs) (use assms in auto)
  show "(if q = q' + 1 then 7 - r < 8 \<and> 8 \<le> 7 - r + r' else q = q' \<and> 7 - r + r' < 8) \<longleftrightarrow>
      8 * q' + r' \<le> 8 * q + r \<and> 8 * q + r < 8 * q' + r' + 8"
    by (rule cs) (use assms in auto)
  show "(if q = q' + 2 then 7 - r < 8 \<and> 8 \<le> 7 - r + r' else if q = q' + 1 then 7 - r < 8 else q = q' \<and> 7 - r + r' < 8) \<longleftrightarrow>
      8 * q' + r' \<le> 8 * q + r \<and> 8 * q + r < 8 * q' + r' + 16"
    by (rule cs) (use assms in auto)
qed

lemma mod8_less: "p mod 8 < (8 :: nat)"
  by simp

lemmas window = window_parts [of "p mod 8" "pos mod 8" "p div 8" "pos div 8" for p pos, OF mod8_less mod8_less, unfolded mult_div_mod_eq]

lemma clean_later: "clean pos bits \<Longrightarrow> p div 8 > pos div 8 \<Longrightarrow> \<not> data_bit bits p"
  unfolding clean_def by (metis div_le_mono leI linorder_not_le nle_le)

lemma set1_marks:
  assumes "pos div 8 < length bits"
  shows "\<exists>bits'. bv_set1 pos bits = Some bits' \<and> marks 1 pos bits bits'"
proof -
  obtain b where b: "bv_set1 pos bits = Some b" using assms by (simp add: bv_set1_def bv_or_def)
  then show ?thesis using bv_or_bit [OF b [unfolded bv_set1_def], unfolded byte_bits window(1)] by (simp add: marks_def)
qed

lemma set8_marks:
  assumes "pos div 8 + 1 < length bits" "clean pos bits"
  shows "\<exists>bits'. bv_set8 pos bits = Some bits' \<and> marks 8 pos bits bits'"
proof -
  let ?a = "drop_bit (pos mod 8) (0xFF :: byte)"
  obtain b where b: "bv_or (pos div 8) ?a bits = Some b" using assms by (simp add: bv_or_def)
  note x = bv_or_bit [OF b, unfolded byte_bits]
  obtain c where c: "bv_put (pos div 8 + 1) (NOT ?a) b = Some c" using assms x by (simp add: bv_put_def)
  note y = bv_put_bit [OF c, unfolded byte_bits]
  have "data_bit c p \<longleftrightarrow> data_bit bits p \<or> pos \<le> p \<and> p < pos + 8" for p
    
    using x [THEN conjunct2, rule_format, of p] y [THEN conjunct2, rule_format, of p] clean_later [OF assms(2), of p] window(2) [of p pos]
    by (metis less_add_one)
  then show ?thesis using b c x y by (simp add: marks_def bv_set8_def Let_def)
qed

lemma set16_marks:
  assumes "pos div 8 + 2 < length bits" "clean pos bits"
  shows "\<exists>bits'. bv_set16 pos bits = Some bits' \<and> marks 16 pos bits bits'"
proof -
  let ?a = "drop_bit (pos mod 8) (0xFF :: byte)"
  obtain b where b: "bv_or (pos div 8) ?a bits = Some b" using assms by (simp add: bv_or_def)
  note x = bv_or_bit [OF b, unfolded byte_bits]
  obtain c where c: "bv_put (pos div 8 + 1) 0xFF b = Some c" using assms x by (simp add: bv_put_def)
  note y = bv_put_bit [OF c, unfolded byte_bits]
  obtain d where d: "bv_put (pos div 8 + 2) (NOT ?a) c = Some d" using assms x y by (simp add: bv_put_def)
  note z = bv_put_bit [OF d, unfolded byte_bits]
  have "data_bit d p \<longleftrightarrow> data_bit bits p \<or> pos \<le> p \<and> p < pos + 16" for p
    using x [THEN conjunct2, rule_format, of p] y [THEN conjunct2, rule_format, of p] z [THEN conjunct2, rule_format, of p]
      clean_later [OF assms(2), of p] window(3) [of p pos]
    by (metis less_add_one less_add_same_cancel1 zero_less_numeral)
  then show ?thesis using b c d x y z by (simp add: marks_def bv_set16_def Let_def)
qed

lemma mask_bits:
  assumes "2 \<le> n" "n \<le> 7"
  shows "bit (setBitsMask n) m \<longleftrightarrow> 16 - n \<le> m \<and> m < 16"
proof -
  have "n \<in> {2,3,4,5,6,7}" using assms by auto
  then have "setBitsMask n = push_bit (16 - n) (mask n)"
    by (elim insertE) (simp_all add: setBitsMask_def push_bit_eq_mult mask_eq_exp_minus_1)
  then show ?thesis using assms by (auto simp: bit_push_bit_iff bit_mask_iff)
qed

lemma windowN_parts:
  fixes q r q' r' n :: nat
  assumes "r < 8" "r' < 8" "2 \<le> n" "n \<le> 7"
  shows "(q = q' + 1 \<and> 7 - r < 8 \<and> 16 - n \<le> 7 - r + r') \<or> (q = q' \<and> 16 - n \<le> 7 - r + 8 + r' \<and> 7 - r + 8 + r' < 16) \<longleftrightarrow>
      8 * q' + r' \<le> 8 * q + r \<and> 8 * q + r < 8 * q' + r' + n"
proof -
  consider "q < q'" | "q = q'" | "q = q' + 1" | "q \<ge> q' + 2" by linarith
  then show ?thesis by cases (use assms in auto)
qed

lemmas windowN = windowN_parts [of "p mod 8" "pos mod 8" n "p div 8" "pos div 8" for p pos n, OF mod8_less mod8_less, unfolded mult_div_mod_eq]

lemma setN_marks:
  assumes n: "2 \<le> n" "n \<le> 7" and l: "pos div 8 + 1 < length bits" and cl: "clean pos bits"
  shows "\<exists>bits'. bv_setN (setBitsMask n) pos bits = Some bits' \<and> marks n pos bits bits'"
proof -
  let ?a = "drop_bit (pos mod 8) (setBitsMask n)"
  let ?hi = "ucast (drop_bit 8 ?a) :: byte" and ?lo = "ucast ?a :: byte"
  have hi: "bit ?hi m \<longleftrightarrow> m < 8 \<and> 16 - n \<le> m + 8 + pos mod 8 \<and> m + 8 + pos mod 8 < 16" for m
    unfolding bit_ucast_iff bit_drop_bit_eq comp_apply mask_bits [OF n] by (auto simp: ac_simps)
  have lo: "bit ?lo m \<longleftrightarrow> m < 8 \<and> 16 - n \<le> m + pos mod 8 \<and> m + pos mod 8 < 16" for m
    unfolding bit_ucast_iff bit_drop_bit_eq comp_apply mask_bits [OF n] by (auto simp: ac_simps)
  obtain b where b: "bv_or (pos div 8) ?hi bits = Some b" using l by (simp add: bv_or_def)
  note x = bv_or_bit [OF b, unfolded hi]
  obtain c where c: "bv_put (pos div 8 + 1) ?lo b = Some c" using l x by (simp add: bv_put_def)
  note y = bv_put_bit [OF c, unfolded lo]
  let ?r = "if ?lo \<noteq> 0 then c else b"
  have res: "bv_setN (setBitsMask n) pos bits = Some ?r" using b c by (simp add: bv_setN_def Let_def)
  have lob: "data_bit ?r p \<longleftrightarrow> (if p div 8 = pos div 8 + 1 then bit ?lo (7 - p mod 8) else data_bit b p)" for p
  proof (cases "?lo = 0")
    case True
    have "\<not> data_bit b p" if "p div 8 = pos div 8 + 1"
      using x that clean_later [OF cl, of p] by simp
    then show ?thesis using True by simp
  qed (use y lo in simp)
  have "data_bit ?r p \<longleftrightarrow> data_bit bits p \<or> pos \<le> p \<and> p < pos + n" for p
  proof -
    have "\<not> data_bit bits p" if "p div 8 = pos div 8 + 1" using that clean_later [OF cl, of p] by simp
    moreover have "7 - p mod 8 < 8" "7 - p mod 8 + pos mod 8 < 16" using mod8_less [of pos] by linarith+
    ultimately show ?thesis
      using lob [of p, unfolded lo] x [THEN conjunct2, rule_format, of p] windowN [OF n, of p pos] by (metis n_not_Suc_n Suc_eq_plus1)
  qed
  then show ?thesis using res x y by (simp add: marks_def)
qed

lemma mark_rest_marks:
  assumes "n < 8" "pos div 8 + 1 < length bits" "clean pos bits"
  shows "\<exists>bits'. mark_rest n pos bits = Some bits' \<and> marks n pos bits bits'"
proof -
  consider "n = 0" | "n = 1" | "2 \<le> n" "n \<le> 7" using assms(1) by linarith
  then show ?thesis
  proof cases
    case 1
    then show ?thesis by (simp add: mark_rest_def marks_0)
  next
    case 2
    then show ?thesis using set1_marks [of pos bits] assms(2) by (simp add: mark_rest_def)
  next
    case 3
    then show ?thesis using setN_marks [OF 3 assms(2,3)] by (simp add: mark_rest_def)
  qed
qed

declare mark16.simps [simp del] mark8.simps [simp del]

lemma mark8_marks:
  assumes "n < 16" "(pos + 8) div 8 + 1 < length bits" "clean pos bits"
  shows "\<exists>m bits'. mark8 n pos bits = Some (n - m, pos + m, bits') \<and> n - m < 8 \<and> m \<le> n \<and> m \<le> 8 \<and> marks m pos bits bits'"
proof (cases "n \<ge> 8")
  case True
  obtain b where b: "bv_set8 pos bits = Some b" "marks 8 pos bits b" using set8_marks [of pos bits] assms(2,3) div_le_mono [of pos "pos + 8" 8] by fastforce
  have "mark8 n pos bits = Some (n - 8, pos + 8, b)"
  proof -
    have "\<not> 8 \<le> n - 8" using assms(1) by simp
    then show ?thesis using True b(1) by (subst mark8.simps) (simp add: mark8.simps [of "n - 8"])
  qed
  then show ?thesis using True assms(1) b(2) by (intro exI [of _ 8]) auto
next
  case False
  then show ?thesis by (intro exI [of _ 0]) (simp add: mark8.simps marks_0)
qed

lemma mark16_marks:
  assumes "n \<le> 32" "(pos + 16) div 8 + 2 < length bits" "clean pos bits"
  shows "\<exists>m bits'. mark16 n pos bits = Some (n - m, pos + m, bits') \<and> n - m < 16 \<and> m \<le> n \<and> m \<in> {0, 16, 32} \<and> marks m pos bits bits'"
proof -
  have one: "\<exists>b. bv_set16 p x = Some b \<and> marks 16 p x b \<and> clean (p + 16) b" if "p \<le> pos + 16" "length x = length bits" "clean p x" for p x
  proof -
    have "p div 8 + 2 < length x" using that(1,2) assms(2) div_le_mono [OF that(1), of 8] by linarith
    then show ?thesis using set16_marks [OF _ that(3)] marks_clean [OF that(3)] by blast
  qed
  consider "n < 16" | "16 \<le> n" "n < 32" | "n = 32" using assms(1) by linarith
  then show ?thesis
  proof cases
    case 1
    then show ?thesis by (intro exI [of _ 0]) (simp add: mark16.simps marks_0)
  next
    case 2
    obtain b where b: "bv_set16 pos bits = Some b" "marks 16 pos bits b" using one [of pos bits] assms by auto
    have "mark16 n pos bits = Some (n - 16, pos + 16, b)"
    proof -
      have "\<not> 16 \<le> n - 16" using 2 by simp
      then show ?thesis using 2 b(1) by (subst mark16.simps) (simp add: mark16.simps [of "n - 16"])
    qed
    then show ?thesis using 2 b(2) by (intro exI [of _ 16]) auto
  next
    case 3
    obtain b where b: "bv_set16 pos bits = Some b" "marks 16 pos bits b" "clean (pos + 16) b" using one [of pos bits] assms by auto
    obtain d where d: "bv_set16 (pos + 16) b = Some d" "marks 16 (pos + 16) b d"
      using one [of "pos + 16" b] b by (auto simp: marks_def)
    have "mark16 n pos bits = Some (0, pos + 32, d)"
      using 3 b(1) d(1) by (subst mark16.simps) (simp add: mark16.simps [of 16] mark16.simps [of 0])
    then show ?thesis using 3 marks_trans [OF b(2) d(2)] by (intro exI [of _ 32]) auto
  qed
qed

lemma mark_data_marks:
  assumes "n \<le> 32" "pos \<le> N" "length bits = N div 8 + 1 + 4" "clean pos bits"
  shows "\<exists>bits'. mark_data n pos bits = Some bits' \<and> marks n pos bits bits'"
proof -
  have pos: "(pos + k) div 8 \<le> (N + k) div 8" for k using assms(2) by (simp add: div_le_mono)
  have "(N + 16) div 8 = N div 8 + 2" by simp
  then have N16: "(pos + 16) div 8 + 2 < N div 8 + 1 + 4" using pos [of 16] by linarith
  obtain m b where b: "mark16 n pos bits = Some (n - m, pos + m, b)" "n - m < 16" "m \<le> n" "m \<in> {0, 16, 32}" "marks m pos bits b"
    using mark16_marks [OF assms(1) N16 [folded assms(3)] assms(4)] by blast
  have cb: "clean (pos + m) b" by (rule marks_clean [OF assms(4) b(5)])
  have lb: "length b = N div 8 + 1 + 4" using b(5) assms(3) by (simp add: marks_def)
  show ?thesis
  proof (cases "m = 32")
    case True
    then have "n - m = 0" using assms(1) by simp
    then show ?thesis using b True by (simp add: mark_data_def mark8.simps mark_rest_def)
  next
    case False
    then have m16: "m \<le> 16" using b(4) by auto
    have "(pos + m + 8) div 8 \<le> (N + 24) div 8" using assms(2) m16 by (intro div_le_mono) simp
    then have "(pos + m + 8) div 8 + 1 < length b" using lb by simp
    from mark8_marks [OF b(2) this cb] obtain k d where d: "mark8 (n - m) (pos + m) b = Some (n - m - k, pos + m + k, d)"
      "n - m - k < 8" "k \<le> n - m" "k \<le> 8" "marks k (pos + m) b d" by blast
    have "(pos + m + k) div 8 \<le> (N + 24) div 8" using assms(2) m16 d(4) by (intro div_le_mono) simp
    then have "(pos + m + k) div 8 + 1 < length d" using lb d(5) by (simp add: marks_def)
    from mark_rest_marks [OF d(2) this marks_clean [OF cb d(5)]] obtain e where
      e: "mark_rest (n - m - k) (pos + m + k) d = Some e" "marks (n - m - k) (pos + m + k) d e" by blast
    have "marks (m + k + (n - m - k)) pos bits e"
      using marks_trans [OF marks_trans [OF b(5) d(5)], of "n - m - k" e] e(2) by (simp add: add.assoc)
    then show ?thesis using b d e by (simp add: mark_data_def)
  qed
qed


text \<open>The reference: instructions follow each other from position 0, each with the bytes it pushes.\<close>

primrec instr_at :: "bytes \<Rightarrow> nat \<Rightarrow> nat" where
  "instr_at code 0 = 0"
| "instr_at code (Suc k) =
     (let p = instr_at code k in p + 1 + (if p < length code then push_size (code ! p) else 0))"

definition is_instr :: "bytes \<Rightarrow> nat \<Rightarrow> bool" where
  "is_instr code p \<longleftrightarrow> (\<exists>k. instr_at code k = p)"

lemma instr_at_mono: "j < k \<Longrightarrow> instr_at code j < instr_at code k"
proof (induction k)
  case (Suc k)
  have "instr_at code k < instr_at code (Suc k)" by (simp add: Let_def)
  then show ?case using Suc by (cases "j = k") auto
qed simp

lemma instr_gap:
  assumes "is_instr code p" "is_instr code q" "p < q" "p < length code"
  shows "p + 1 + push_size (code ! p) \<le> q"
proof -
  obtain j k where jk: "instr_at code j = p" "instr_at code k = q" using assms(1,2) by (auto simp: is_instr_def)
  then have "j < k" using assms(3) instr_at_mono [of k j code] by (metis less_asym linorder_neqE_nat nat_neq_iff)
  then have "instr_at code (Suc j) \<le> q" using instr_at_mono [of "Suc j" k code] jk(2) by (cases "Suc j = k") auto
  then show ?thesis using jk(1) assms(4) by (simp add: Let_def)
qed

lemma instr_next: "is_instr code p \<Longrightarrow> p < length code \<Longrightarrow> is_instr code (p + 1 + push_size (code ! p))"
proof -
  assume "is_instr code p" "p < length code"
  moreover then obtain k where "instr_at code k = p" by (auto simp: is_instr_def)
  ultimately have "instr_at code (Suc k) = p + 1 + push_size (code ! p)" by (simp add: Let_def)
  then show "is_instr code (p + 1 + push_size (code ! p))" unfolding is_instr_def by blast
qed

lemma push_size_le: "push_size op \<le> 32"
proof -
  have "unat op \<le> 127 \<Longrightarrow> 96 \<le> unat op \<Longrightarrow> unat (op - PUSH1) \<le> 31"
    by (simp add: PUSH1_def unat_sub word_le_nat_alt)
  then show ?thesis by (auto simp: push_size_def PUSH1_def PUSH32_def not_less word_le_nat_alt)
qed

declare codeBitmapInternal.simps [simp del]

lemma codeBitmapInternal_right:
  assumes "length bits = length code div 8 + 1 + 4" "is_instr code pc" "clean pc bits" "\<forall>p < pc. data_bit bits p \<longleftrightarrow> \<not> is_instr code p"
  shows "\<exists>bits'. codeBitmapInternal code pc bits = Some bits' \<and> length bits' = length bits \<and>
    (\<forall>p < length code. data_bit bits' p \<longleftrightarrow> \<not> is_instr code p)"
  using assms
proof (induction code pc bits rule: codeBitmapInternal.induct)
  case (1 code pc bits)
  show ?case
  proof (cases "pc < length code")
    case False
    then show ?thesis using 1 by (auto simp: codeBitmapInternal.simps [of code pc bits])
  next
    case True
    let ?n = "push_size (code ! pc)"
    have c1: "clean (pc + 1) bits" using "1.prems"(3) by (auto simp: clean_def)
    obtain b where b: "mark_data ?n (pc + 1) bits = Some b" "marks ?n (pc + 1) bits b"
      using mark_data_marks [OF push_size_le, of "pc + 1" "length code" bits "code ! pc"] True "1.prems"(1) c1 by auto
    have nxt: "is_instr code (pc + 1 + ?n)" by (rule instr_next [OF "1.prems"(2) True])
    have "data_bit b p \<longleftrightarrow> \<not> is_instr code p" if "p < pc + 1 + ?n" for p
    proof (cases "p < pc")
      case True
      then show ?thesis using "1.prems"(4) b(2) by (simp add: marks_def)
    next
      case False
      have "\<not> data_bit bits p" using "1.prems"(3) False by (simp add: clean_def)
      moreover have "p = pc \<or> \<not> is_instr code p"
        using instr_gap [OF "1.prems"(2) _ _ True, of p] False that by fastforce
      moreover have "data_bit b p \<longleftrightarrow> data_bit bits p \<or> pc + 1 \<le> p \<and> p < pc + 1 + ?n" using b(2) by (simp add: marks_def)
      ultimately show ?thesis using "1.prems"(2) False that by (cases "p = pc") auto
    qed
    then have "\<exists>bits'. codeBitmapInternal code (pc + 1 + ?n) b = Some bits' \<and> length bits' = length b \<and>
        (\<forall>p < length code. data_bit bits' p \<longleftrightarrow> \<not> is_instr code p)"
      using "1.IH" [OF True refl, of b] b "1.prems"(1) nxt marks_clean [OF c1 b(2)] by (auto simp: marks_def)
    then show ?thesis
      using True b by (subst codeBitmapInternal.simps) (auto simp: marks_def Let_def)
  qed
qed

lemma isCode_right:
  assumes "p < length code"
  shows "isCode code p = Some (is_instr code p)"
proof -
  let ?b = "replicate (length code div 8 + 1 + 4) 0 :: bitvec"
  have "clean 0 ?b" by (simp add: clean_def data_bit_def del: replicate.simps)
  moreover have "is_instr code 0" unfolding is_instr_def by (rule exI [of _ 0]) simp
  ultimately obtain b where b: "codeBitmapInternal code 0 ?b = Some b" "length b = length ?b"
    "\<forall>p < length code. data_bit b p \<longleftrightarrow> \<not> is_instr code p"
    using codeBitmapInternal_right [of ?b code 0] by auto
  have "p div 8 \<le> length code div 8" using assms by (simp add: div_le_mono)
  then have "p div 8 < length b" using b(2) by simp
  then show ?thesis using b assms by (simp add: isCode_def codeBitmap_def codeSegment_bit del: replicate.simps)
qed

text \<open>C14. The analysis of jump destinations is exact.  For every code and every position in it the bit map, which the code
  fills in blocks of 16, 8 and up to 7 bits with plain assignments to fresh bytes, is built without an index out
  of range, and it marks a position as code exactly when the position is reached by walking through the
  instructions from the start; so a jump is allowed exactly to a \<^verbatim>\<open>JUMPDEST\<close> byte that is an instruction and not
  the data of a \<^verbatim>\<open>PUSH\<close>.\<close>

theorem jump_destinations_exact:
  assumes "length code < 2 ^ 63"
  shows "validJumpdest code dest =
    Some (unat dest < length code \<and> code ! unat dest = JUMPDEST \<and> is_instr code (unat dest))"
proof -
  have len: "unat (go_len code) = length code"
    using assms by (simp add: go_len_def unat_of_nat take_bit_nat_eq_self)
  show ?thesis
  proof (cases "IsUint64 dest")
    case True
    then have "unat (Uint64 dest) = unat dest" by (simp add: IsUint64_def Uint64_def unsigned_ucast_eq take_bit_nat_eq_self)
    then show ?thesis using True len isCode_right [of "unat dest" code]
      by (auto simp: validJumpdest_def word_le_nat_alt not_le)
  next
    case False
    then show ?thesis using assms by (simp add: validJumpdest_def IsUint64_def)
  qed
qed

theorem jump_destinations_exact_witness:
  "validJumpdest [0x60, 0x5b, 0x5b] 2 = Some True \<and> validJumpdest [0x60, 0x5b, 0x5b] 1 = Some False"
proof -
  let ?c = "[0x60, 0x5b, 0x5b] :: bytes"
  have p: "push_size 0x60 = 1" by (simp add: push_size_def PUSH1_def PUSH32_def)
  have i1: "instr_at ?c 1 = 2" by (simp add: Let_def p)
  then have "is_instr ?c 2" unfolding is_instr_def by blast
  moreover have "\<not> is_instr ?c 1"
  proof
    assume "is_instr ?c 1"
    then obtain k where k: "instr_at ?c k = 1" by (auto simp: is_instr_def)
    then show False using i1 instr_at_mono [of 1 k ?c] by (cases "k = 0"; cases "k = 1") auto
  qed
  ultimately show ?thesis
    using jump_destinations_exact [of ?c 2] jump_destinations_exact [of ?c 1] by (simp add: JUMPDEST_def)
qed

end
