(* ===== verification/Vm_Gas.thy ===== *)
theory Vm_Gas
  imports Vm_Machine
begin

text \<open>
  The gas of the instructions: \<^verbatim>\<open>core/vm/gas_table.go\<close> and \<^verbatim>\<open>core/vm/operations_acl.go\<close>.

  A frame is the scope of one run: program counter, memory, stack, contract, return data and the state.  A gas
  function returns the dynamic cost or an error, and the frame with its changes to the memory's last cost, to
  \<^verbatim>\<open>callGasTemp\<close>, to the contract's gas and to the state.  \<open>vm_panic\<close> lists the ways in which the Go code can
  panic.
\<close>

subsection \<open>Frames\<close>

record frame =
  fr_pc :: u64
  fr_mem :: Memory
  fr_stack :: Stack
  fr_contract :: Contract
  fr_input :: bytes
  fr_returnData :: bytes
  fr_callGasTemp :: u64
  fr_state :: StateDB

text \<open>The operations of the package \<^verbatim>\<open>uint256\<close> that are not those of 256-bit words are parameters.\<close>

record uint256_lib =
  ul_Div :: "hash \<Rightarrow> hash \<Rightarrow> hash"
  ul_SDiv :: "hash \<Rightarrow> hash \<Rightarrow> hash"
  ul_Mod :: "hash \<Rightarrow> hash \<Rightarrow> hash"
  ul_SMod :: "hash \<Rightarrow> hash \<Rightarrow> hash"
  ul_Exp :: "hash \<Rightarrow> hash \<Rightarrow> hash"
  ul_ExtendSign :: "hash \<Rightarrow> hash \<Rightarrow> hash"
  ul_Byte :: "hash \<Rightarrow> hash \<Rightarrow> hash"
  ul_AddMod :: "hash \<Rightarrow> hash \<Rightarrow> hash \<Rightarrow> hash"
  ul_MulMod :: "hash \<Rightarrow> hash \<Rightarrow> hash \<Rightarrow> hash"
  ul_SRsh :: "hash \<Rightarrow> nat \<Rightarrow> hash"

record interp =
  in_be :: backend
  in_u256 :: uint256_lib
  in_evm :: EVM
  in_env :: evm_env
  in_readOnly :: bool
  in_preimages :: bool

datatype vm_panic = StackFault | MemoryFault | AccessListFault | FuelFault | RefundFault | ColdSstore | NilFault | LogFault | CalleePanic

type_synonym 'a outcome = "(vm_panic, 'a) result"
type_synonym gasFunc = "interp \<Rightarrow> u64 \<Rightarrow> frame \<Rightarrow> ((vm_error, u64) result \<times> frame) outcome"

definition or_panic :: "vm_panic \<Rightarrow> 'a option \<Rightarrow> 'a outcome" where
  "or_panic p x = (case x of None \<Rightarrow> Inl p | Some y \<Rightarrow> Inr y)"

definition fr_Back :: "nat \<Rightarrow> frame \<Rightarrow> hash outcome" where
  "fr_Back n f = or_panic StackFault (stack_Back n (fr_stack f))"

abbreviation fr_gas :: "frame \<Rightarrow> u64" where
  "fr_gas f \<equiv> ct_Gas (fr_contract f)"

abbreviation fr_self :: "frame \<Rightarrow> address" where
  "fr_self f \<equiv> ct_self (fr_contract f)"

abbreviation in_rules :: "interp \<Rightarrow> Rules" where
  "in_rules i \<equiv> evm_chainRules (in_evm i)"

definition put_gas :: "u64 \<Rightarrow> frame \<Rightarrow> frame" where
  "put_gas g f = f\<lparr>fr_contract := (fr_contract f)\<lparr>ct_Gas := g\<rparr>\<rparr>"

definition fr_UseGas :: "u64 \<Rightarrow> frame \<Rightarrow> bool \<times> frame" where
  "fr_UseGas g f = (let (ok, c) = UseGas g (fr_contract f) in (ok, f\<lparr>fr_contract := c\<rparr>))"

text \<open>A getter of the state, applied to the state of the frame.\<close>

definition on_state :: "(StateDB \<Rightarrow> 'a \<times> StateDB) \<Rightarrow> frame \<Rightarrow> 'a \<times> frame" where
  "on_state g f = (let (x, s) = g (fr_state f) in (x, f\<lparr>fr_state := s\<rparr>))"

definition add_gas :: "u64 \<Rightarrow> u64 \<Rightarrow> (vm_error, u64) result" where
  "add_gas x y = (let (s, overflow) = SafeAdd x y in if overflow then Inl ErrGasUintOverflow else Inr s)"

definition mul_gas :: "u64 \<Rightarrow> u64 \<Rightarrow> (vm_error, u64) result" where
  "mul_gas x y = (let (s, overflow) = SafeMul x y in if overflow then Inl ErrGasUintOverflow else Inr s)"

definition to_uint64 :: "hash \<Rightarrow> (vm_error, u64) result" where
  "to_uint64 x = (if IsUint64 x then Inr (Uint64 x) else Inl ErrGasUintOverflow)"

subsection \<open>Constants (\<^verbatim>\<open>params/protocol_params.go\<close>)\<close>

definition MemoryGas :: u64 where "MemoryGas = 3"
definition QuadCoeffDiv :: u64 where "QuadCoeffDiv = 512"
definition CopyGas :: u64 where "CopyGas = 3"
definition LogGas :: u64 where "LogGas = 375"
definition LogTopicGas :: u64 where "LogTopicGas = 375"
definition LogDataGas :: u64 where "LogDataGas = 8"
definition Sha3WordGas :: u64 where "Sha3WordGas = 6"
definition ExpGas :: u64 where "ExpGas = 10"
definition ExpByteFrontier :: u64 where "ExpByteFrontier = 10"
definition ExpByteEIP158 :: u64 where "ExpByteEIP158 = 50"
definition CallNewAccountGas :: u64 where "CallNewAccountGas = 25000"
definition CallValueTransferGas :: u64 where "CallValueTransferGas = 9000"
definition SelfdestructGasEIP150 :: u64 where "SelfdestructGasEIP150 = 5000"
definition CreateBySelfdestructGas :: u64 where "CreateBySelfdestructGas = 25000"
definition SelfdestructRefundGas :: u64 where "SelfdestructRefundGas = 24000"
definition SstoreSetGas :: u64 where "SstoreSetGas = 20000"
definition SstoreResetGas :: u64 where "SstoreResetGas = 5000"
definition SstoreClearGas :: u64 where "SstoreClearGas = 5000"
definition SstoreRefundGas :: u64 where "SstoreRefundGas = 15000"
definition SstoreSentryGasEIP2200 :: u64 where "SstoreSentryGasEIP2200 = 2300"
definition SstoreSetGasEIP2200 :: u64 where "SstoreSetGasEIP2200 = 20000"
definition SstoreResetGasEIP2200 :: u64 where "SstoreResetGasEIP2200 = 5000"
definition SloadGasEIP2200 :: u64 where "SloadGasEIP2200 = 800"
definition SstoreClearsScheduleRefundEIP2200 :: u64 where "SstoreClearsScheduleRefundEIP2200 = 15000"
definition ColdAccountAccessCostEIP2929 :: u64 where "ColdAccountAccessCostEIP2929 = 2600"
definition ColdSloadCostEIP2929 :: u64 where "ColdSloadCostEIP2929 = 2100"
definition WarmStorageReadCostEIP2929 :: u64 where "WarmStorageReadCostEIP2929 = 100"
definition SstoreClearsScheduleRefundEIP3529 :: u64 where
  "SstoreClearsScheduleRefundEIP3529 = SstoreResetGasEIP2200 - ColdSloadCostEIP2929 + 1900"

lemmas gas_consts = MemoryGas_def QuadCoeffDiv_def CopyGas_def LogGas_def LogTopicGas_def LogDataGas_def Sha3WordGas_def
  ExpGas_def ExpByteFrontier_def ExpByteEIP158_def CallNewAccountGas_def CallValueTransferGas_def SelfdestructGasEIP150_def
  CreateBySelfdestructGas_def SelfdestructRefundGas_def SstoreSetGas_def SstoreResetGas_def SstoreClearGas_def SstoreRefundGas_def
  SstoreSentryGasEIP2200_def SstoreSetGasEIP2200_def SstoreResetGasEIP2200_def SloadGasEIP2200_def
  SstoreClearsScheduleRefundEIP2200_def ColdAccountAccessCostEIP2929_def ColdSloadCostEIP2929_def WarmStorageReadCostEIP2929_def
  SstoreClearsScheduleRefundEIP3529_def

subsection \<open>Memory\<close>

definition memoryGasCost :: "u64 \<Rightarrow> Memory \<Rightarrow> (vm_error, u64) result \<times> Memory" where
  "memoryGasCost newMemSize mem =
    (if newMemSize = 0 then (Inr 0, mem)
     else if newMemSize > 0x1FFFFFFFE0 then (Inl ErrGasUintOverflow, mem)
     else
       (let newMemSizeWords = toWordSize newMemSize; newMemSize' = newMemSizeWords * 32
        in if newMemSize' > mem_Len mem then
             (let square = newMemSizeWords * newMemSizeWords; linCoef = newMemSizeWords * MemoryGas;
                  quadCoef = square div QuadCoeffDiv; newTotalFee = linCoef + quadCoef
              in (Inr (newTotalFee - mem_lastGasCost mem), mem\<lparr>mem_lastGasCost := newTotalFee\<rparr>))
           else (Inr 0, mem)))"

definition memory_fee :: "u64 \<Rightarrow> frame \<Rightarrow> (vm_error, u64) result \<times> frame" where
  "memory_fee memorySize f = (let (r, m) = memoryGasCost memorySize (fr_mem f) in (r, f\<lparr>fr_mem := m\<rparr>))"

definition pureMemoryGascost :: gasFunc where
  "pureMemoryGascost i memorySize f = Inr (memory_fee memorySize f)"

definition memoryCopierGas :: "nat \<Rightarrow> gasFunc" where
  "memoryCopierGas stackpos i memorySize f =
    rbind (fr_Back stackpos f) (\<lambda>w.
      let (r, f1) = memory_fee memorySize f
      in Inr (rbind r (\<lambda>gas. rbind (to_uint64 w) (\<lambda>len. rbind (mul_gas (toWordSize len) CopyGas) (\<lambda>words. add_gas gas words))), f1))"

definition makeGasLog :: "u64 \<Rightarrow> gasFunc" where
  "makeGasLog n i memorySize f =
    rbind (fr_Back 1 f) (\<lambda>w.
      case to_uint64 w of
        Inl e \<Rightarrow> Inr (Inl e, f)
      | Inr requestedSize \<Rightarrow>
          (let (r, f1) = memory_fee memorySize f
           in Inr (rbind r (\<lambda>gas. rbind (add_gas gas LogGas) (\<lambda>g1. rbind (add_gas g1 (n * LogTopicGas)) (\<lambda>g2.
                rbind (mul_gas requestedSize LogDataGas) (\<lambda>d. add_gas g2 d)))), f1)))"

text \<open>\<^verbatim>\<open>gasSha3\<close> and \<^verbatim>\<open>gasCreate2\<close> hash the bytes whose length is at a stack position.\<close>

definition gas_hash_words :: "nat \<Rightarrow> gasFunc" where
  "gas_hash_words stackpos i memorySize f =
    rbind (fr_Back stackpos f) (\<lambda>w.
      let (r, f1) = memory_fee memorySize f
      in Inr (rbind r (\<lambda>gas. rbind (to_uint64 w) (\<lambda>len. rbind (mul_gas (toWordSize len) Sha3WordGas) (\<lambda>g. add_gas gas g))), f1))"

definition gasSha3 :: gasFunc where "gasSha3 = gas_hash_words 1"
definition gasCreate2 :: gasFunc where "gasCreate2 = gas_hash_words 2"

definition gas_exp :: "u64 \<Rightarrow> gasFunc" where
  "gas_exp expByte i memorySize f =
    rbind (fr_Back 1 f) (\<lambda>e.
      let expByteLen = of_nat ((nat_BitLen (unat e) + 7) div 8) in Inr (add_gas (expByteLen * expByte) ExpGas, f))"

definition gasExpFrontier :: gasFunc where "gasExpFrontier = gas_exp ExpByteFrontier"
definition gasExpEIP158 :: gasFunc where "gasExpEIP158 = gas_exp ExpByteEIP158"

text \<open>The names of \<^verbatim>\<open>gas_table.go\<close> for the two shared functions.\<close>

definition gasCallDataCopy :: gasFunc where "gasCallDataCopy = memoryCopierGas 2"
definition gasCodeCopy :: gasFunc where "gasCodeCopy = memoryCopierGas 2"
definition gasExtCodeCopy :: gasFunc where "gasExtCodeCopy = memoryCopierGas 3"
definition gasReturnDataCopy :: gasFunc where "gasReturnDataCopy = memoryCopierGas 2"
definition gasReturn :: gasFunc where "gasReturn = pureMemoryGascost"
definition gasRevert :: gasFunc where "gasRevert = pureMemoryGascost"
definition gasMLoad :: gasFunc where "gasMLoad = pureMemoryGascost"
definition gasMStore8 :: gasFunc where "gasMStore8 = pureMemoryGascost"
definition gasMStore :: gasFunc where "gasMStore = pureMemoryGascost"
definition gasCreate :: gasFunc where "gasCreate = pureMemoryGascost"

lemmas gas_names = gasCallDataCopy_def gasCodeCopy_def gasExtCodeCopy_def gasReturnDataCopy_def gasReturn_def gasRevert_def
  gasMLoad_def gasMStore8_def gasMStore_def gasCreate_def

subsection \<open>Storage\<close>

text \<open>Net gas metering: \<^verbatim>\<open>gasSStore\<close> since EIP-1283, \<^verbatim>\<open>gasSStoreEIP2200\<close> and \<^verbatim>\<open>makeGasSStoreFunc\<close> share the case
  distinction and differ in the costs and refunds.\<close>

record sstore_costs =
  sc_noop :: u64
  sc_init :: u64
  sc_clean :: u64
  sc_dirty :: u64
  sc_clear :: u64
  sc_reset_zero :: u64
  sc_reset :: u64

definition net_sstore ::
  "sstore_costs \<Rightarrow> backend \<Rightarrow> address \<Rightarrow> hash \<Rightarrow> hash \<Rightarrow> hash \<Rightarrow> StateDB \<Rightarrow> (u64 \<times> StateDB) outcome" where
  "net_sstore sc be a slot current val s =
    (if current = val then Inr (sc_noop sc, s)
     else
       (let (original, s1) = GetCommittedState be a slot s
        in if original = current then
             Inr (if original = 0 then (sc_init sc, s1)
                  else (sc_clean sc, if val = 0 then AddRefund (sc_clear sc) s1 else s1))
           else
             rbind
               (if original \<noteq> 0 then
                  if current = 0 then or_panic RefundFault (SubRefund (sc_clear sc) s1)
                  else Inr (if val = 0 then AddRefund (sc_clear sc) s1 else s1)
                else Inr s1)
               (\<lambda>s2. Inr (sc_dirty sc,
                  if original = val then AddRefund (if original = 0 then sc_reset_zero sc else sc_reset sc) s2 else s2))))"

definition costs1283 :: sstore_costs where
  "costs1283 = \<lparr>sc_noop = 200, sc_init = 20000, sc_clean = 5000, sc_dirty = 200, sc_clear = 15000, sc_reset_zero = 19800, sc_reset = 4800\<rparr>"

definition costs2200 :: sstore_costs where
  "costs2200 = \<lparr>sc_noop = SloadGasEIP2200, sc_init = SstoreSetGasEIP2200, sc_clean = SstoreResetGasEIP2200,
     sc_dirty = SloadGasEIP2200, sc_clear = SstoreClearsScheduleRefundEIP2200,
     sc_reset_zero = SstoreSetGasEIP2200 - SloadGasEIP2200, sc_reset = SstoreResetGasEIP2200 - SloadGasEIP2200\<rparr>"

definition costs2929 :: "u64 \<Rightarrow> sstore_costs" where
  "costs2929 clearingRefund = \<lparr>sc_noop = WarmStorageReadCostEIP2929, sc_init = SstoreSetGasEIP2200,
     sc_clean = SstoreResetGasEIP2200 - ColdSloadCostEIP2929, sc_dirty = WarmStorageReadCostEIP2929, sc_clear = clearingRefund,
     sc_reset_zero = SstoreSetGasEIP2200 - WarmStorageReadCostEIP2929,
     sc_reset = (SstoreResetGasEIP2200 - ColdSloadCostEIP2929) - WarmStorageReadCostEIP2929\<rparr>"

definition sstore_net :: "sstore_costs \<Rightarrow> u64 \<Rightarrow> interp \<Rightarrow> hash \<Rightarrow> hash \<Rightarrow> hash \<Rightarrow> frame \<Rightarrow> ((vm_error, u64) result \<times> frame) outcome" where
  "sstore_net sc cost i slot current val f =
    rbind (net_sstore sc (in_be i) (fr_self f) slot current val (fr_state f))
      (\<lambda>(g, s). Inr (Inr (cost + g), f\<lparr>fr_state := s\<rparr>))"

definition gasSStore :: gasFunc where
  "gasSStore i memorySize f =
    rbind (fr_Back 1 f) (\<lambda>y. rbind (fr_Back 0 f) (\<lambda>x.
      let (current, f1) = on_state (GetState (in_be i) (fr_self f) x) f
      in if r_IsPetersburg (in_rules i) \<or> \<not> r_IsConstantinople (in_rules i) then
           Inr (if current = 0 \<and> y \<noteq> 0 then (Inr SstoreSetGas, f1)
                else if current \<noteq> 0 \<and> y = 0 then (Inr SstoreClearGas, f1\<lparr>fr_state := AddRefund SstoreRefundGas (fr_state f1)\<rparr>)
                else (Inr SstoreResetGas, f1))
         else sstore_net costs1283 0 i x current y f1))"

definition sentry_error :: vm_error where
  "sentry_error = PrecompileError ''not enough gas for reentrancy sentry''"

definition gasSStoreEIP2200 :: gasFunc where
  "gasSStoreEIP2200 i memorySize f =
    (if fr_gas f \<le> SstoreSentryGasEIP2200 then Inr (Inl sentry_error, f)
     else rbind (fr_Back 1 f) (\<lambda>y. rbind (fr_Back 0 f) (\<lambda>x.
       let (current, f1) = on_state (GetState (in_be i) (fr_self f) x) f
       in sstore_net costs2200 0 i x current y f1)))"

definition makeGasSStoreFunc :: "u64 \<Rightarrow> gasFunc" where
  "makeGasSStoreFunc clearingRefund i memorySize f =
    (if fr_gas f \<le> SstoreSentryGasEIP2200 then Inr (Inl sentry_error, f)
     else rbind (fr_Back 1 f) (\<lambda>y. rbind (fr_Back 0 f) (\<lambda>x.
       let (current, f1) = on_state (GetState (in_be i) (fr_self f) x) f
       in rbind (or_panic AccessListFault (SlotInAccessList (fr_self f) x (fr_state f1))) (\<lambda>(addrPresent, slotPresent).
            if slotPresent then sstore_net (costs2929 clearingRefund) 0 i x current y f1
            else rbind (or_panic AccessListFault (AddSlotToAccessList (fr_self f) x (fr_state f1))) (\<lambda>s2.
              if \<not> addrPresent then Inl ColdSstore
              else sstore_net (costs2929 clearingRefund) ColdSloadCostEIP2929 i x current y (f1\<lparr>fr_state := s2\<rparr>))))))"

definition gasSStoreEIP2929 :: gasFunc where "gasSStoreEIP2929 = makeGasSStoreFunc SstoreClearsScheduleRefundEIP2200"
definition gasSStoreEIP3529 :: gasFunc where "gasSStoreEIP3529 = makeGasSStoreFunc SstoreClearsScheduleRefundEIP3529"

definition gasSLoadEIP2929 :: gasFunc where
  "gasSLoadEIP2929 i memorySize f =
    rbind (fr_Back 0 f) (\<lambda>slot.
      rbind (or_panic AccessListFault (SlotInAccessList (fr_self f) slot (fr_state f))) (\<lambda>(_, slotPresent).
        if slotPresent then Inr (Inr WarmStorageReadCostEIP2929, f)
        else rbind (or_panic AccessListFault (AddSlotToAccessList (fr_self f) slot (fr_state f)))
          (\<lambda>s. Inr (Inr ColdSloadCostEIP2929, f\<lparr>fr_state := s\<rparr>))))"

subsection \<open>Accounts\<close>

definition gasEip2929AccountCheck :: gasFunc where
  "gasEip2929AccountCheck i memorySize f =
    rbind (fr_Back 0 f) (\<lambda>x.
      if \<not> AddressInAccessList (Bytes20 x) (fr_state f) then
        Inr (Inr (ColdAccountAccessCostEIP2929 - WarmStorageReadCostEIP2929),
             f\<lparr>fr_state := AddAddressToAccessList (Bytes20 x) (fr_state f)\<rparr>)
      else Inr (Inr 0, f))"

definition gasExtCodeCopyEIP2929 :: gasFunc where
  "gasExtCodeCopyEIP2929 i memorySize f =
    rbind (memoryCopierGas 3 i memorySize f) (\<lambda>(r, f1).
      case r of
        Inl e \<Rightarrow> Inr (Inl e, f1)
      | Inr gas \<Rightarrow>
          rbind (fr_Back 0 f1) (\<lambda>x.
            if \<not> AddressInAccessList (Bytes20 x) (fr_state f1) then
              Inr (add_gas gas (ColdAccountAccessCostEIP2929 - WarmStorageReadCostEIP2929),
                   f1\<lparr>fr_state := AddAddressToAccessList (Bytes20 x) (fr_state f1)\<rparr>)
            else Inr (Inr gas, f1)))"

text \<open>The end of the four call functions: the gas for the callee by the 63/64 rule, added to the cost.\<close>

definition call_cost :: "interp \<Rightarrow> u64 \<Rightarrow> frame \<Rightarrow> ((vm_error, u64) result \<times> frame) outcome" where
  "call_cost i gas f =
    rbind (fr_Back 0 f) (\<lambda>g.
      case callGas (r_IsEIP150 (in_rules i)) (fr_gas f) gas g of
        Inl e \<Rightarrow> Inr (Inl e, f\<lparr>fr_callGasTemp := 0\<rparr>)
      | Inr temp \<Rightarrow> Inr (add_gas gas temp, f\<lparr>fr_callGasTemp := temp\<rparr>))"

definition with_memory :: "u64 \<Rightarrow> interp \<Rightarrow> u64 \<Rightarrow> frame \<Rightarrow> ((vm_error, u64) result \<times> frame) outcome" where
  "with_memory gas i memorySize f =
    (let (r, f1) = memory_fee memorySize f
     in case rbind r (\<lambda>memoryGas. add_gas gas memoryGas) of
          Inl e \<Rightarrow> Inr (Inl e, f1)
        | Inr g \<Rightarrow> call_cost i g f1)"

definition gasCall :: gasFunc where
  "gasCall i memorySize f =
    rbind (fr_Back 2 f) (\<lambda>val. rbind (fr_Back 1 f) (\<lambda>x.
      let transfersValue = (val \<noteq> 0); a = Bytes20 x;
          (new, f1) =
            (if r_IsEIP158 (in_rules i) then (if transfersValue then on_state (Empty (in_be i) a) f else (False, f))
             else (let (ex, f') = on_state (Exist (in_be i) a) f in (\<not> ex, f')));
          gas = (if new then CallNewAccountGas else 0) + (if transfersValue then CallValueTransferGas else 0)
      in with_memory gas i memorySize f1))"

definition gasCallCode :: gasFunc where
  "gasCallCode i memorySize f =
    rbind (fr_Back 2 f) (\<lambda>val. with_memory (if val \<noteq> 0 then CallValueTransferGas else 0) i memorySize f)"

definition gasDelegateCall :: gasFunc where
  "gasDelegateCall i memorySize f =
    (let (r, f1) = memory_fee memorySize f in case r of Inl e \<Rightarrow> Inr (Inl e, f1) | Inr gas \<Rightarrow> call_cost i gas f1)"

definition gasStaticCall :: gasFunc where
  "gasStaticCall i memorySize f =
    (let (r, f1) = memory_fee memorySize f in case r of Inl e \<Rightarrow> Inr (Inl e, f1) | Inr gas \<Rightarrow> call_cost i gas f1)"

definition makeCallVariantGasCallEIP2929 :: "gasFunc \<Rightarrow> gasFunc" where
  "makeCallVariantGasCallEIP2929 oldCalculator i memorySize f =
    rbind (fr_Back 1 f) (\<lambda>x.
      let a = Bytes20 x; coldCost = ColdAccountAccessCostEIP2929 - WarmStorageReadCostEIP2929
      in if AddressInAccessList a (fr_state f) then oldCalculator i memorySize f
         else
           (let (ok, f2) = fr_UseGas coldCost (f\<lparr>fr_state := AddAddressToAccessList a (fr_state f)\<rparr>)
            in if \<not> ok then Inr (Inl ErrOutOfGas, f2)
               else rbind (oldCalculator i memorySize f2) (\<lambda>(r, f3).
                 case r of
                   Inl e \<Rightarrow> Inr (Inl e, f3)
                 | Inr gas \<Rightarrow> Inr (Inr (gas + coldCost), put_gas (fr_gas f3 + coldCost) f3))))"

definition gasCallEIP2929 :: gasFunc where "gasCallEIP2929 = makeCallVariantGasCallEIP2929 gasCall"
definition gasDelegateCallEIP2929 :: gasFunc where "gasDelegateCallEIP2929 = makeCallVariantGasCallEIP2929 gasDelegateCall"
definition gasStaticCallEIP2929 :: gasFunc where "gasStaticCallEIP2929 = makeCallVariantGasCallEIP2929 gasStaticCall"
definition gasCallCodeEIP2929 :: gasFunc where "gasCallCodeEIP2929 = makeCallVariantGasCallEIP2929 gasCallCode"

text \<open>Whether a self-destruct gives the contract's balance to an account that is empty.\<close>

definition funds_empty :: "backend \<Rightarrow> address \<Rightarrow> frame \<Rightarrow> bool \<times> frame" where
  "funds_empty be a f =
    (let (em, f1) = on_state (Empty be a) f
     in if em then (let (b, f2) = on_state (GetBalance be (fr_self f)) f1 in (b \<noteq> 0, f2)) else (False, f1))"

definition suicide_refund :: "backend \<Rightarrow> frame \<Rightarrow> frame" where
  "suicide_refund be f =
    (let (dead, f1) = on_state (HasSuicided be (fr_self f)) f
     in if \<not> dead then f1\<lparr>fr_state := AddRefund SelfdestructRefundGas (fr_state f1)\<rparr> else f1)"

definition gasSelfdestruct :: gasFunc where
  "gasSelfdestruct i memorySize f =
    rbind (fr_Back 0 f) (\<lambda>x.
      let be = in_be i; a = Bytes20 x;
          (gas, f1) =
            (if r_IsEIP150 (in_rules i) then
               (let (new, f') =
                  (if r_IsEIP158 (in_rules i) then funds_empty be a f
                   else (let (ex, f') = on_state (Exist be a) f in (\<not> ex, f')))
                in (SelfdestructGasEIP150 + (if new then CreateBySelfdestructGas else 0), f'))
             else (0, f))
      in Inr (Inr gas, suicide_refund be f1))"

definition makeSelfdestructGasFn :: "bool \<Rightarrow> gasFunc" where
  "makeSelfdestructGasFn refundsEnabled i memorySize f =
    rbind (fr_Back 0 f) (\<lambda>x.
      let be = in_be i; a = Bytes20 x; cold = (\<not> AddressInAccessList a (fr_state f));
          f1 = (if cold then f\<lparr>fr_state := AddAddressToAccessList a (fr_state f)\<rparr> else f);
          (new, f2) = funds_empty be a f1;
          gas = (if cold then ColdAccountAccessCostEIP2929 else 0) + (if new then CreateBySelfdestructGas else 0)
      in Inr (Inr gas, if refundsEnabled then suicide_refund be f2 else f2))"

definition gasSelfdestructEIP2929 :: gasFunc where "gasSelfdestructEIP2929 = makeSelfdestructGasFn True"
definition gasSelfdestructEIP3529 :: gasFunc where "gasSelfdestructEIP3529 = makeSelfdestructGasFn False"

end
