(* ===== verification/Vm_Instructions.thy ===== *)
theory Vm_Instructions
  imports Vm_Gas
begin

text \<open>
  The instructions: \<^verbatim>\<open>core/vm/instructions.go\<close> and the opcodes of \<^verbatim>\<open>eips.go\<close>.

  An instruction maps a frame to the bytes it returns, an error and the new frame, or panics.  A
  \<^verbatim>\<open>uint256.Int\<close> is a 256-bit word; sums, products, comparisons, bitwise operations and logical shifts are those of
  words, the other operations of its package are parameters (\<open>uint256_lib\<close>).
\<close>

unbundle bit_operations_syntax

subsection \<open>256-bit values\<close>

definition of_bool256 :: "bool \<Rightarrow> hash" where
  "of_bool256 b = (if b then 1 else 0)"

text \<open>\<^verbatim>\<open>SetBytes\<close> takes the last 32 bytes.\<close>

definition SetBytes :: "bytes \<Rightarrow> hash" where
  "SetBytes bs = of_nat (be_nat bs)"

subsection \<open>Instructions\<close>

type_synonym executionFunc = "interp \<Rightarrow> frame \<Rightarrow> (bytes \<times> vm_error option \<times> frame) outcome"

definition op_done :: "frame \<Rightarrow> (bytes \<times> vm_error option \<times> frame) outcome" where
  "op_done f = Inr ([], None, f)"

definition op_fail :: "vm_error \<Rightarrow> frame \<Rightarrow> (bytes \<times> vm_error option \<times> frame) outcome" where
  "op_fail e f = Inr ([], Some e, f)"

definition put_stack :: "Stack \<Rightarrow> frame \<Rightarrow> (bytes \<times> vm_error option \<times> frame) outcome" where
  "put_stack st f = op_done (f\<lparr>fr_stack := st\<rparr>)"

definition op_unary :: "(hash \<Rightarrow> hash) \<Rightarrow> executionFunc" where
  "op_unary g i f = (case fr_stack f of x # st \<Rightarrow> put_stack (g x # st) f | _ \<Rightarrow> Inl StackFault)"

definition op_binary :: "(hash \<Rightarrow> hash \<Rightarrow> hash) \<Rightarrow> executionFunc" where
  "op_binary g i f = (case fr_stack f of x # y # st \<Rightarrow> put_stack (g x y # st) f | _ \<Rightarrow> Inl StackFault)"

definition op_ternary :: "(hash \<Rightarrow> hash \<Rightarrow> hash \<Rightarrow> hash) \<Rightarrow> executionFunc" where
  "op_ternary g i f = (case fr_stack f of x # y # z # st \<Rightarrow> put_stack (g x y z # st) f | _ \<Rightarrow> Inl StackFault)"

definition op_push :: "(interp \<Rightarrow> frame \<Rightarrow> hash) \<Rightarrow> executionFunc" where
  "op_push g i f = put_stack (g i f # fr_stack f) f"

text \<open>\<^verbatim>\<open>uint256.FromBig\<close> of a value that may be nil.\<close>

definition op_push_big :: "(interp \<Rightarrow> frame \<Rightarrow> bigint) \<Rightarrow> executionFunc" where
  "op_push_big g i f = (case g i f of None \<Rightarrow> Inl NilFault | Some b \<Rightarrow> put_stack (word_of_int b # fr_stack f) f)"

definition opAdd :: executionFunc where "opAdd = op_binary (+)"
definition opSub :: executionFunc where "opSub = op_binary (-)"
definition opMul :: executionFunc where "opMul = op_binary (*)"
definition opDiv :: executionFunc where "opDiv i = op_binary (ul_Div (in_u256 i)) i"
definition opSdiv :: executionFunc where "opSdiv i = op_binary (ul_SDiv (in_u256 i)) i"
definition opMod :: executionFunc where "opMod i = op_binary (ul_Mod (in_u256 i)) i"
definition opSmod :: executionFunc where "opSmod i = op_binary (ul_SMod (in_u256 i)) i"
definition opExp :: executionFunc where "opExp i = op_binary (ul_Exp (in_u256 i)) i"
definition opSignExtend :: executionFunc where "opSignExtend i = op_binary (\<lambda>b num. ul_ExtendSign (in_u256 i) num b) i"
definition opNot :: executionFunc where "opNot = op_unary (\<lambda>x. NOT x)"
definition opLt :: executionFunc where "opLt = op_binary (\<lambda>x y. of_bool256 (x < y))"
definition opGt :: executionFunc where "opGt = op_binary (\<lambda>x y. of_bool256 (x > y))"
definition opSlt :: executionFunc where "opSlt = op_binary (\<lambda>x y. of_bool256 (sint x < sint y))"
definition opSgt :: executionFunc where "opSgt = op_binary (\<lambda>x y. of_bool256 (sint x > sint y))"
definition opEq :: executionFunc where "opEq = op_binary (\<lambda>x y. of_bool256 (x = y))"
definition opIszero :: executionFunc where "opIszero = op_unary (\<lambda>x. of_bool256 (x = 0))"
definition opAnd :: executionFunc where "opAnd = op_binary (\<lambda>x y. x AND y)"
definition opOr :: executionFunc where "opOr = op_binary (\<lambda>x y. x OR y)"
definition opXor :: executionFunc where "opXor = op_binary (\<lambda>x y. x XOR y)"
definition opByte :: executionFunc where "opByte i = op_binary (\<lambda>th val. ul_Byte (in_u256 i) val th) i"
definition opAddmod :: executionFunc where
  "opAddmod i = op_ternary (\<lambda>x y z. if z = 0 then 0 else ul_AddMod (in_u256 i) x y z) i"
definition opMulmod :: executionFunc where "opMulmod i = op_ternary (ul_MulMod (in_u256 i)) i"
definition opSHL :: executionFunc where "opSHL = op_binary (\<lambda>shift x. if shift < 256 then push_bit (unat shift) x else 0)"
definition opSHR :: executionFunc where "opSHR = op_binary (\<lambda>shift x. if shift < 256 then drop_bit (unat shift) x else 0)"

definition opSAR :: executionFunc where
  "opSAR i = op_binary (\<lambda>shift x. if shift > 256 then (if sint x \<ge> 0 then 0 else - 1) else ul_SRsh (in_u256 i) x (unat shift)) i"

definition opSha3 :: executionFunc where
  "opSha3 i f =
    (case fr_stack f of
       offset # sz # st \<Rightarrow>
         rbind (or_panic MemoryFault (mem_read offset sz (fr_mem f))) (\<lambda>data.
           let h = be_keccak (in_be i) data;
               f1 = (if in_preimages i then f\<lparr>fr_state := AddPreimage h data (fr_state f)\<rparr> else f)
           in put_stack (h # st) f1)
     | _ \<Rightarrow> Inl StackFault)"

definition opAddress :: executionFunc where "opAddress = op_push (\<lambda>i f. ucast (fr_self f))"
definition opOrigin :: executionFunc where "opOrigin = op_push (\<lambda>i f. ucast (evm_Origin (in_evm i)))"
definition opCaller :: executionFunc where "opCaller = op_push (\<lambda>i f. ucast (ct_CallerAddress (fr_contract f)))"
definition opCallValue :: executionFunc where "opCallValue = op_push_big (\<lambda>i f. ct_value (fr_contract f))"
definition opCallDataSize :: executionFunc where "opCallDataSize = op_push (\<lambda>i f. ucast (go_len (fr_input f)))"
definition opReturnDataSize :: executionFunc where "opReturnDataSize = op_push (\<lambda>i f. ucast (go_len (fr_returnData f)))"
definition opCodeSize :: executionFunc where "opCodeSize = op_push (\<lambda>i f. ucast (go_len (ct_Code (fr_contract f))))"
definition opGasprice :: executionFunc where "opGasprice = op_push (\<lambda>i f. word_of_int (evm_GasPrice (in_evm i)))"
definition opCoinbase :: executionFunc where "opCoinbase = op_push (\<lambda>i f. ucast (bc_Coinbase (evm_Context (in_evm i))))"
definition opTimestamp :: executionFunc where "opTimestamp = op_push (\<lambda>i f. word_of_int (bc_Time (evm_Context (in_evm i))))"
definition opNumber :: executionFunc where "opNumber = op_push (\<lambda>i f. word_of_int (bc_BlockNumber (evm_Context (in_evm i))))"
definition opDifficulty :: executionFunc where "opDifficulty = op_push (\<lambda>i f. word_of_int (bc_Difficulty (evm_Context (in_evm i))))"
definition opGasLimit :: executionFunc where "opGasLimit = op_push (\<lambda>i f. ucast (bc_GasLimit (evm_Context (in_evm i))))"
definition opPc :: executionFunc where "opPc = op_push (\<lambda>i f. ucast (fr_pc f))"
definition opMsize :: executionFunc where "opMsize = op_push (\<lambda>i f. ucast (mem_Len (fr_mem f)))"
definition opGas :: executionFunc where "opGas = op_push (\<lambda>i f. ucast (fr_gas f))"
definition opChainID :: executionFunc where "opChainID = op_push_big (\<lambda>i f. ChainID (evm_chainConfig (in_evm i)))"
definition opBaseFee :: executionFunc where "opBaseFee = op_push_big (\<lambda>i f. bc_BaseFee (evm_Context (in_evm i)))"
definition opJumpdest :: executionFunc where "opJumpdest i f = op_done f"
definition opStop :: executionFunc where "opStop i f = op_done f"

text \<open>Instructions that read an account.\<close>

definition op_account :: "(backend \<Rightarrow> address \<Rightarrow> StateDB \<Rightarrow> hash \<times> StateDB) \<Rightarrow> executionFunc" where
  "op_account g i f =
    (case fr_stack f of
       x # st \<Rightarrow> (let (v, f1) = on_state (g (in_be i) (Bytes20 x)) f in put_stack (v # st) f1)
     | _ \<Rightarrow> Inl StackFault)"

definition so_CodeSize :: "backend \<Rightarrow> stateObject \<Rightarrow> nat \<times> state_error option" where
  "so_CodeSize be ob =
    (case so_code ob of
       Some c \<Rightarrow> (length c, None)
     | None \<Rightarrow>
         if sa_CodeHash (so_data ob) = emptyCodeHash be then (0, None)
         else (let h = BytesToHash (sa_CodeHash (so_data ob))
               in case be_ContractCode be (so_addrHash be ob) h of None \<Rightarrow> (0, Some (ErrCode h)) | Some c \<Rightarrow> (length c, None)))"

definition GetCodeSize :: "backend \<Rightarrow> address \<Rightarrow> StateDB \<Rightarrow> nat \<times> StateDB" where
  "GetCodeSize be a s =
    (case getStateObject be a s of
       (None, s') \<Rightarrow> (0, s')
     | (Some ob, s') \<Rightarrow>
         (case so_CodeSize be ob of
            (n, None) \<Rightarrow> (n, s')
          | (n, Some e) \<Rightarrow> (n, setStateObject (so_setError e ob) s')))"

definition opBalance :: executionFunc where
  "opBalance = op_account (\<lambda>be a s. let (b, s') = GetBalance be a s in (word_of_int b, s'))"

definition opExtCodeSize :: executionFunc where
  "opExtCodeSize = op_account (\<lambda>be a s. let (n, s') = GetCodeSize be a s in (of_nat n, s'))"

definition opExtCodeHash :: executionFunc where
  "opExtCodeHash = op_account (\<lambda>be a s.
     let (em, s1) = Empty be a s in if em then (0, s1) else GetCodeHash be a s1)"

definition opSelfBalance :: executionFunc where
  "opSelfBalance i f =
    (let (b, f1) = on_state (GetBalance (in_be i) (fr_self f)) f in put_stack (word_of_int b # fr_stack f) f1)"

subsection \<open>Data and memory\<close>

definition opCallDataLoad :: executionFunc where
  "opCallDataLoad i f =
    (case fr_stack f of
       x # st \<Rightarrow>
         if IsUint64 x then
           rbind (or_panic MemoryFault (getData (fr_input f) (Uint64 x) 32)) (\<lambda>data. put_stack (SetBytes data # st) f)
         else put_stack (0 # st) f
     | _ \<Rightarrow> Inl StackFault)"

definition clamp64 :: "hash \<Rightarrow> u64" where
  "clamp64 x = (if IsUint64 x then Uint64 x else 0xffffffffffffffff)"

definition mem_write :: "hash \<Rightarrow> hash \<Rightarrow> bytes \<Rightarrow> frame \<Rightarrow> frame outcome" where
  "mem_write offset sz bs f =
    rbind (or_panic MemoryFault (mem_Set (Uint64 offset) (Uint64 sz) bs (fr_mem f))) (\<lambda>m. Inr (f\<lparr>fr_mem := m\<rparr>))"

text \<open>The common part of \<^verbatim>\<open>CALLDATACOPY\<close> and \<^verbatim>\<open>CODECOPY\<close>.\<close>

definition op_copy :: "(frame \<Rightarrow> bytes) \<Rightarrow> executionFunc" where
  "op_copy src i f =
    (case fr_stack f of
       memOffset # dataOffset # len # st \<Rightarrow>
         rbind (or_panic MemoryFault (getData (src f) (clamp64 dataOffset) (Uint64 len))) (\<lambda>data.
           rbind (mem_write memOffset len data f) (put_stack st))
     | _ \<Rightarrow> Inl StackFault)"

definition opCallDataCopy :: executionFunc where "opCallDataCopy = op_copy fr_input"
definition opCodeCopy :: executionFunc where "opCodeCopy = op_copy (\<lambda>f. ct_Code (fr_contract f))"

definition opReturnDataCopy :: executionFunc where
  "opReturnDataCopy i f =
    (case fr_stack f of
       memOffset # dataOffset # len # st \<Rightarrow>
         (let f1 = f\<lparr>fr_stack := st\<rparr>; end' = dataOffset + len
          in if \<not> IsUint64 dataOffset then op_fail ErrReturnDataOutOfBounds f1
             else if \<not> IsUint64 end' \<or> go_len (fr_returnData f) < Uint64 end' then op_fail ErrReturnDataOutOfBounds f1
             else rbind (or_panic MemoryFault (go_slice (fr_returnData f) (unat (Uint64 dataOffset)) (unat (Uint64 end')))) (\<lambda>data.
               rbind (mem_write memOffset len data f1) op_done))
     | _ \<Rightarrow> Inl StackFault)"

definition opExtCodeCopy :: executionFunc where
  "opExtCodeCopy i f =
    (case fr_stack f of
       a # memOffset # codeOffset # len # st \<Rightarrow>
         (let (code, f1) = on_state (GetCode (in_be i) (Bytes20 a)) f
          in rbind (or_panic MemoryFault (getData (code_bytes code) (clamp64 codeOffset) (Uint64 len))) (\<lambda>data.
               rbind (mem_write memOffset len data f1) (put_stack st)))
     | _ \<Rightarrow> Inl StackFault)"

definition opBlockhash :: executionFunc where
  "opBlockhash i f =
    (case fr_stack f of
       num # st \<Rightarrow>
         if \<not> IsUint64 num then put_stack (0 # st) f
         else
           (let num64 = Uint64 num; upper = big_Uint64 (bc_BlockNumber (evm_Context (in_evm i)));
                lower = (if upper < 257 then 0 else upper - 256)
            in if num64 \<ge> lower \<and> num64 < upper then
                 rbind (or_panic NilFault (bc_GetHash (evm_Context (in_evm i)) num64)) (\<lambda>h. put_stack (h # st) f)
               else put_stack (0 # st) f)
     | _ \<Rightarrow> Inl StackFault)"

definition opPop :: executionFunc where
  "opPop i f = (case fr_stack f of x # st \<Rightarrow> put_stack st f | _ \<Rightarrow> Inl StackFault)"

definition opMload :: executionFunc where
  "opMload i f =
    (case fr_stack f of
       v # st \<Rightarrow> rbind (or_panic MemoryFault (mem_Get (sint (Uint64 v)) 32 (fr_mem f))) (\<lambda>bs. put_stack (SetBytes bs # st) f)
     | _ \<Rightarrow> Inl StackFault)"

definition opMstore :: executionFunc where
  "opMstore i f =
    (case fr_stack f of
       mStart # val # st \<Rightarrow>
         rbind (or_panic MemoryFault (mem_Set32 (Uint64 mStart) val (fr_mem f))) (\<lambda>m. put_stack st (f\<lparr>fr_mem := m\<rparr>))
     | _ \<Rightarrow> Inl StackFault)"

definition opMstore8 :: executionFunc where
  "opMstore8 i f =
    (case fr_stack f of
       off # val # st \<Rightarrow>
         (let n = unat (Uint64 off); store = mem_store (fr_mem f)
          in if n < length store then put_stack st (f\<lparr>fr_mem := (fr_mem f)\<lparr>mem_store := store[n := ucast val]\<rparr>\<rparr>)
             else Inl MemoryFault)
     | _ \<Rightarrow> Inl StackFault)"

subsection \<open>Storage and jumps\<close>

definition opSload :: executionFunc where
  "opSload i f =
    (case fr_stack f of
       loc # st \<Rightarrow> (let (v, f1) = on_state (GetState (in_be i) (fr_self f) loc) f in put_stack (v # st) f1)
     | _ \<Rightarrow> Inl StackFault)"

definition opSstore :: executionFunc where
  "opSstore i f =
    (case fr_stack f of
       loc # val # st \<Rightarrow> put_stack st (f\<lparr>fr_state := SetState (in_be i) (fr_self f) loc val (fr_state f)\<rparr>)
     | _ \<Rightarrow> Inl StackFault)"

definition jump_to :: "hash \<Rightarrow> frame \<Rightarrow> (bytes \<times> vm_error option \<times> frame) outcome" where
  "jump_to pos f =
    rbind (or_panic MemoryFault (validJumpdest (ct_Code (fr_contract f)) pos)) (\<lambda>ok.
      if ok then op_done (f\<lparr>fr_pc := Uint64 pos\<rparr>) else op_fail ErrInvalidJump f)"

definition opJump :: executionFunc where
  "opJump i f = (case fr_stack f of pos # st \<Rightarrow> jump_to pos (f\<lparr>fr_stack := st\<rparr>) | _ \<Rightarrow> Inl StackFault)"

definition opJumpi :: executionFunc where
  "opJumpi i f =
    (case fr_stack f of
       pos # cond # st \<Rightarrow>
         (let f1 = f\<lparr>fr_stack := st\<rparr>
          in if cond \<noteq> 0 then jump_to pos f1 else op_done (f1\<lparr>fr_pc := fr_pc f1 + 1\<rparr>))
     | _ \<Rightarrow> Inl StackFault)"

subsection \<open>Pushes, duplicates and swaps\<close>

definition opPush1 :: executionFunc where
  "opPush1 i f =
    (let pc = fr_pc f + 1; code = ct_Code (fr_contract f)
     in put_stack ((if pc < go_len code then ucast (code ! unat pc) else 0) # fr_stack f) (f\<lparr>fr_pc := pc\<rparr>))"

definition makePush :: "u64 \<Rightarrow> nat \<Rightarrow> executionFunc" where
  "makePush sz pushByteSize i f =
    (let code = ct_Code (fr_contract f); codeLen = int (unat (go_len code)); p1 = sint (fr_pc f + 1);
         startMin = (if p1 < codeLen then p1 else codeLen);
         endMin = (if startMin + int pushByteSize < codeLen then startMin + int pushByteSize else codeLen)
     in if startMin < 0 then Inl MemoryFault
        else rbind (or_panic MemoryFault (go_slice code (nat startMin) (nat endMin))) (\<lambda>bs.
          put_stack (SetBytes (RightPadBytes bs (int pushByteSize)) # fr_stack f) (f\<lparr>fr_pc := fr_pc f + sz\<rparr>)))"

definition makeDup :: "nat \<Rightarrow> executionFunc" where
  "makeDup sz i f = rbind (or_panic StackFault (stack_dup sz (fr_stack f))) (\<lambda>st. put_stack st f)"

definition makeSwap :: "nat \<Rightarrow> executionFunc" where
  "makeSwap sz i f = rbind (or_panic StackFault (stack_swap (sz + 1) (fr_stack f))) (\<lambda>st. put_stack st f)"

definition makeLog :: "nat \<Rightarrow> executionFunc" where
  "makeLog sz i f =
    (case fr_stack f of
       mStart # mSize # st \<Rightarrow>
         if length st < sz then Inl StackFault
         else
           rbind (or_panic MemoryFault (mem_read mStart mSize (fr_mem f))) (\<lambda>d.
             let evLog = \<lparr>lg_Address = fr_self f, lg_Topics = take sz st, lg_Data = d,
                    lg_BlockNumber = big_Uint64 (bc_BlockNumber (evm_Context (in_evm i))), lg_TxHash = 0, lg_TxIndex = 0,
                    lg_BlockHash = 0, lg_Index = 0, lg_Removed = False\<rparr>;
                 f1 = f\<lparr>fr_stack := drop sz st\<rparr>
             in rbind (case bc_ExtraValidator (evm_Context (in_evm i)) of
                         None \<Rightarrow> Inr False
                       | Some v \<Rightarrow> or_panic LogFault (ev_IsLogDenied v (Some evLog)))
                  (\<lambda>denied. if denied then op_fail ErrAddressDenied f1
                           else op_done (f1\<lparr>fr_state := AddLog evLog (fr_state f1)\<rparr>)))
     | _ \<Rightarrow> Inl StackFault)"

subsection \<open>Calls and creations\<close>

definition CallStipend :: u64 where "CallStipend = 2300"

text \<open>The part after a call: the flag on the stack, the output in the memory, the gas that came back.\<close>

definition after_call :: "hash \<Rightarrow> hash \<Rightarrow> Stack \<Rightarrow> frame \<Rightarrow> call_result option \<Rightarrow> (bytes \<times> vm_error option \<times> frame) outcome" where
  "after_call retOffset retSize st f r =
    rbind (or_panic CalleePanic r) (\<lambda>(ret, returnGas, err, s).
      let f1 = f\<lparr>fr_stack := of_bool256 (err = None) # st, fr_state := s\<rparr>
      in rbind (if err = None \<or> err = Some ErrExecutionReverted then mem_write retOffset retSize ret f1 else Inr f1)
           (\<lambda>f2. Inr (ret, None, put_gas (fr_gas f2 + returnGas) f2)))"

definition opCall :: executionFunc where
  "opCall i f =
    (case fr_stack f of
       temp # a # val # inOffset # inSize # retOffset # retSize # st \<Rightarrow>
         rbind (or_panic MemoryFault (mem_read inOffset inSize (fr_mem f))) (\<lambda>args.
           let gas = fr_callGasTemp f + (if val \<noteq> 0 then CallStipend else 0)
           in after_call retOffset retSize st f
                (evm_Call (in_be i) (in_env i) (in_evm i) (ContractCaller (fr_contract f)) (Bytes20 a) args gas (uint val) (fr_state f)))
     | _ \<Rightarrow> Inl StackFault)"

definition opCallCode :: executionFunc where
  "opCallCode i f =
    (case fr_stack f of
       temp # a # val # inOffset # inSize # retOffset # retSize # st \<Rightarrow>
         rbind (or_panic MemoryFault (mem_read inOffset inSize (fr_mem f))) (\<lambda>args.
           let gas = fr_callGasTemp f + (if val \<noteq> 0 then CallStipend else 0)
           in after_call retOffset retSize st f
                (evm_CallCode (in_be i) (in_env i) (in_evm i) (ContractCaller (fr_contract f)) (Bytes20 a) args gas (uint val) (fr_state f)))
     | _ \<Rightarrow> Inl StackFault)"

definition opDelegateCall :: executionFunc where
  "opDelegateCall i f =
    (case fr_stack f of
       temp # a # inOffset # inSize # retOffset # retSize # st \<Rightarrow>
         rbind (or_panic MemoryFault (mem_read inOffset inSize (fr_mem f))) (\<lambda>args.
           after_call retOffset retSize st f
             (evm_DelegateCall (in_be i) (in_env i) (in_evm i) (ContractCaller (fr_contract f)) (Bytes20 a) args (fr_callGasTemp f) (fr_state f)))
     | _ \<Rightarrow> Inl StackFault)"

definition opStaticCall :: executionFunc where
  "opStaticCall i f =
    (case fr_stack f of
       temp # a # inOffset # inSize # retOffset # retSize # st \<Rightarrow>
         rbind (or_panic MemoryFault (mem_read inOffset inSize (fr_mem f))) (\<lambda>args.
           after_call retOffset retSize st f
             (evm_StaticCall (in_be i) (in_env i) (in_evm i) (ContractCaller (fr_contract f)) (Bytes20 a) args (fr_callGasTemp f) (fr_state f)))
     | _ \<Rightarrow> Inl StackFault)"

definition after_create ::
  "(vm_error \<Rightarrow> bool) \<Rightarrow> Stack \<Rightarrow> frame \<Rightarrow> (bytes \<times> address \<times> u64 \<times> vm_error option \<times> StateDB) option \<Rightarrow>
   (bytes \<times> vm_error option \<times> frame) outcome" where
  "after_create failed st f r =
    rbind (or_panic CalleePanic r) (\<lambda>(res, a, returnGas, suberr, s).
      let v = (case suberr of Some e \<Rightarrow> if failed e then 0 else ucast a | None \<Rightarrow> ucast a)
      in Inr (if suberr = Some ErrExecutionReverted then res else [], None,
              put_gas (fr_gas f + returnGas) (f\<lparr>fr_stack := v # st, fr_state := s\<rparr>)))"

definition opCreate :: executionFunc where
  "opCreate i f =
    (case fr_stack f of
       val # offset # sz # st \<Rightarrow>
         rbind (or_panic MemoryFault (mem_read offset sz (fr_mem f))) (\<lambda>input.
           let gas = (if r_IsEIP150 (in_rules i) then fr_gas f - fr_gas f div 64 else fr_gas f); (_, f1) = fr_UseGas gas f
           in after_create (\<lambda>e. r_IsHomestead (in_rules i) \<or> e \<noteq> ErrCodeStoreOutOfGas) st f1
                (evm_Create (in_be i) (in_env i) (in_evm i) (ContractCaller (fr_contract f1)) input gas (uint val) (fr_state f1)))
     | _ \<Rightarrow> Inl StackFault)"

definition opCreate2 :: executionFunc where
  "opCreate2 i f =
    (case fr_stack f of
       endowment # offset # sz # salt # st \<Rightarrow>
         rbind (or_panic MemoryFault (mem_read offset sz (fr_mem f))) (\<lambda>input.
           let gas = fr_gas f - fr_gas f div 64; (_, f1) = fr_UseGas gas f
           in after_create (\<lambda>e. True) st f1
                (evm_Create2 (in_be i) (in_env i) (in_evm i) (ContractCaller (fr_contract f1)) input gas (uint endowment)
                   (hash_bytes salt) (fr_state f1)))
     | _ \<Rightarrow> Inl StackFault)"

subsection \<open>Ends\<close>

definition opReturn :: executionFunc where
  "opReturn i f =
    (case fr_stack f of
       offset # sz # st \<Rightarrow>
         rbind (or_panic MemoryFault (mem_read offset sz (fr_mem f))) (\<lambda>ret. Inr (ret, None, f\<lparr>fr_stack := st\<rparr>))
     | _ \<Rightarrow> Inl StackFault)"

definition opRevert :: executionFunc where
  "opRevert i f =
    (case fr_stack f of
       offset # sz # st \<Rightarrow>
         rbind (or_panic MemoryFault (mem_read offset sz (fr_mem f))) (\<lambda>ret. Inr (ret, None, f\<lparr>fr_stack := st\<rparr>))
     | _ \<Rightarrow> Inl StackFault)"

definition opSuicide :: executionFunc where
  "opSuicide i f =
    (case fr_stack f of
       beneficiary # st \<Rightarrow>
         (let (balance, f1) = on_state (GetBalance (in_be i) (fr_self f)) f;
              s2 = AddBalance (in_be i) (Bytes20 beneficiary) balance (fr_state f1);
              (_, s3) = Suicide (in_be i) (fr_self f) s2
          in put_stack st (f1\<lparr>fr_state := s3\<rparr>))
     | _ \<Rightarrow> Inl StackFault)"

end
