(* ===== verification/Vm_Interpreter.thy ===== *)
theory Vm_Interpreter
  imports Vm_Instructions
begin

text \<open>
  The interpreter: the jump tables of the forks (\<^verbatim>\<open>core/vm/jump_table.go\<close>, \<^verbatim>\<open>eips.go\<close>), the choice of a table
  and the loop \<^verbatim>\<open>EVMInterpreter.Run\<close> (\<^verbatim>\<open>interpreter.go\<close>).

  A jump table maps opcodes to operations; an opcode without entry is a nil pointer.  One iteration of the loop is
  \<open>interp_step\<close>.  The loop has fuel: one unit for each unit of gas and one more (\<open>Vm_Runs\<close> proves that this is
  enough).  A nested run is the same function with one level of call depth less, which is what \<open>ee_Run\<close> of the
  environment of the instructions is.  The tracer and \<^verbatim>\<open>ExtraEips\<close> are left out; the abort flag is a predicate of
  the frame that is read every thousand steps.
\<close>

subsection \<open>Operations\<close>

record operation =
  op_execute :: executionFunc
  op_constantGas :: u64
  op_dynamicGas :: "gasFunc option"
  op_minStack :: int
  op_maxStack :: int
  op_memorySize :: "memorySizeFunc option"
  op_halts :: bool
  op_jumps :: bool
  op_writes :: bool
  op_reverts :: bool
  op_returns :: bool

type_synonym JumpTable = "(byte, operation) gomap"

text \<open>The literal \<^verbatim>\<open>&operation{...}\<close> with the four fields that most entries set; the others keep their zero value.\<close>

definition instr :: "executionFunc \<Rightarrow> u64 \<Rightarrow> int \<Rightarrow> int \<Rightarrow> operation" where
  "instr execute gas pops push =
    \<lparr>op_execute = execute, op_constantGas = gas, op_dynamicGas = None, op_minStack = minStack pops push,
     op_maxStack = maxStack pops push, op_memorySize = None, op_halts = False, op_jumps = False, op_writes = False,
     op_reverts = False, op_returns = False\<rparr>"

text \<open>The assignment \<^verbatim>\<open>jt[op].field = v\<close>.\<close>

definition jt_modify :: "byte \<Rightarrow> (operation \<Rightarrow> operation) \<Rightarrow> JumpTable \<Rightarrow> JumpTable" where
  "jt_modify code g jt = (case gm_get jt code of None \<Rightarrow> jt | Some oper \<Rightarrow> gm_set jt code (g oper))"

definition set_constantGas :: "u64 \<Rightarrow> operation \<Rightarrow> operation" where
  "set_constantGas g oper = oper\<lparr>op_constantGas := g\<rparr>"

definition set_dynamicGas :: "gasFunc \<Rightarrow> operation \<Rightarrow> operation" where
  "set_dynamicGas g oper = oper\<lparr>op_dynamicGas := Some g\<rparr>"

subsection \<open>Opcodes and gas steps\<close>

abbreviation OP_STOP :: byte where "OP_STOP \<equiv> 0x00"
abbreviation OP_ADD :: byte where "OP_ADD \<equiv> 0x01"
abbreviation OP_MUL :: byte where "OP_MUL \<equiv> 0x02"
abbreviation OP_SUB :: byte where "OP_SUB \<equiv> 0x03"
abbreviation OP_DIV :: byte where "OP_DIV \<equiv> 0x04"
abbreviation OP_SDIV :: byte where "OP_SDIV \<equiv> 0x05"
abbreviation OP_MOD :: byte where "OP_MOD \<equiv> 0x06"
abbreviation OP_SMOD :: byte where "OP_SMOD \<equiv> 0x07"
abbreviation OP_ADDMOD :: byte where "OP_ADDMOD \<equiv> 0x08"
abbreviation OP_MULMOD :: byte where "OP_MULMOD \<equiv> 0x09"
abbreviation OP_EXP :: byte where "OP_EXP \<equiv> 0x0a"
abbreviation OP_SIGNEXTEND :: byte where "OP_SIGNEXTEND \<equiv> 0x0b"
abbreviation OP_LT :: byte where "OP_LT \<equiv> 0x10"
abbreviation OP_GT :: byte where "OP_GT \<equiv> 0x11"
abbreviation OP_SLT :: byte where "OP_SLT \<equiv> 0x12"
abbreviation OP_SGT :: byte where "OP_SGT \<equiv> 0x13"
abbreviation OP_EQ :: byte where "OP_EQ \<equiv> 0x14"
abbreviation OP_ISZERO :: byte where "OP_ISZERO \<equiv> 0x15"
abbreviation OP_AND :: byte where "OP_AND \<equiv> 0x16"
abbreviation OP_OR :: byte where "OP_OR \<equiv> 0x17"
abbreviation OP_XOR :: byte where "OP_XOR \<equiv> 0x18"
abbreviation OP_NOT :: byte where "OP_NOT \<equiv> 0x19"
abbreviation OP_BYTE :: byte where "OP_BYTE \<equiv> 0x1a"
abbreviation OP_SHL :: byte where "OP_SHL \<equiv> 0x1b"
abbreviation OP_SHR :: byte where "OP_SHR \<equiv> 0x1c"
abbreviation OP_SAR :: byte where "OP_SAR \<equiv> 0x1d"
abbreviation OP_SHA3 :: byte where "OP_SHA3 \<equiv> 0x20"
abbreviation OP_ADDRESS :: byte where "OP_ADDRESS \<equiv> 0x30"
abbreviation OP_BALANCE :: byte where "OP_BALANCE \<equiv> 0x31"
abbreviation OP_ORIGIN :: byte where "OP_ORIGIN \<equiv> 0x32"
abbreviation OP_CALLER :: byte where "OP_CALLER \<equiv> 0x33"
abbreviation OP_CALLVALUE :: byte where "OP_CALLVALUE \<equiv> 0x34"
abbreviation OP_CALLDATALOAD :: byte where "OP_CALLDATALOAD \<equiv> 0x35"
abbreviation OP_CALLDATASIZE :: byte where "OP_CALLDATASIZE \<equiv> 0x36"
abbreviation OP_CALLDATACOPY :: byte where "OP_CALLDATACOPY \<equiv> 0x37"
abbreviation OP_CODESIZE :: byte where "OP_CODESIZE \<equiv> 0x38"
abbreviation OP_CODECOPY :: byte where "OP_CODECOPY \<equiv> 0x39"
abbreviation OP_GASPRICE :: byte where "OP_GASPRICE \<equiv> 0x3a"
abbreviation OP_EXTCODESIZE :: byte where "OP_EXTCODESIZE \<equiv> 0x3b"
abbreviation OP_EXTCODECOPY :: byte where "OP_EXTCODECOPY \<equiv> 0x3c"
abbreviation OP_RETURNDATASIZE :: byte where "OP_RETURNDATASIZE \<equiv> 0x3d"
abbreviation OP_RETURNDATACOPY :: byte where "OP_RETURNDATACOPY \<equiv> 0x3e"
abbreviation OP_EXTCODEHASH :: byte where "OP_EXTCODEHASH \<equiv> 0x3f"
abbreviation OP_BLOCKHASH :: byte where "OP_BLOCKHASH \<equiv> 0x40"
abbreviation OP_COINBASE :: byte where "OP_COINBASE \<equiv> 0x41"
abbreviation OP_TIMESTAMP :: byte where "OP_TIMESTAMP \<equiv> 0x42"
abbreviation OP_NUMBER :: byte where "OP_NUMBER \<equiv> 0x43"
abbreviation OP_DIFFICULTY :: byte where "OP_DIFFICULTY \<equiv> 0x44"
abbreviation OP_GASLIMIT :: byte where "OP_GASLIMIT \<equiv> 0x45"
abbreviation OP_CHAINID :: byte where "OP_CHAINID \<equiv> 0x46"
abbreviation OP_SELFBALANCE :: byte where "OP_SELFBALANCE \<equiv> 0x47"
abbreviation OP_BASEFEE :: byte where "OP_BASEFEE \<equiv> 0x48"
abbreviation OP_POP :: byte where "OP_POP \<equiv> 0x50"
abbreviation OP_MLOAD :: byte where "OP_MLOAD \<equiv> 0x51"
abbreviation OP_MSTORE :: byte where "OP_MSTORE \<equiv> 0x52"
abbreviation OP_MSTORE8 :: byte where "OP_MSTORE8 \<equiv> 0x53"
abbreviation OP_SLOAD :: byte where "OP_SLOAD \<equiv> 0x54"
abbreviation OP_SSTORE :: byte where "OP_SSTORE \<equiv> 0x55"
abbreviation OP_JUMP :: byte where "OP_JUMP \<equiv> 0x56"
abbreviation OP_JUMPI :: byte where "OP_JUMPI \<equiv> 0x57"
abbreviation OP_PC :: byte where "OP_PC \<equiv> 0x58"
abbreviation OP_MSIZE :: byte where "OP_MSIZE \<equiv> 0x59"
abbreviation OP_GAS :: byte where "OP_GAS \<equiv> 0x5a"
abbreviation OP_CREATE :: byte where "OP_CREATE \<equiv> 0xf0"
abbreviation OP_CALL :: byte where "OP_CALL \<equiv> 0xf1"
abbreviation OP_CALLCODE :: byte where "OP_CALLCODE \<equiv> 0xf2"
abbreviation OP_RETURN :: byte where "OP_RETURN \<equiv> 0xf3"
abbreviation OP_DELEGATECALL :: byte where "OP_DELEGATECALL \<equiv> 0xf4"
abbreviation OP_CREATE2 :: byte where "OP_CREATE2 \<equiv> 0xf5"
abbreviation OP_STATICCALL :: byte where "OP_STATICCALL \<equiv> 0xfa"
abbreviation OP_REVERT :: byte where "OP_REVERT \<equiv> 0xfd"
abbreviation OP_SELFDESTRUCT :: byte where "OP_SELFDESTRUCT \<equiv> 0xff"

definition GasQuickStep :: u64 where "GasQuickStep = 2"
definition GasFastestStep :: u64 where "GasFastestStep = 3"
definition GasFastStep :: u64 where "GasFastStep = 5"
definition GasMidStep :: u64 where "GasMidStep = 8"
definition GasSlowStep :: u64 where "GasSlowStep = 10"
definition GasExtStep :: u64 where "GasExtStep = 20"
definition Sha3Gas :: u64 where "Sha3Gas = 30"
definition JumpdestGas :: u64 where "JumpdestGas = 1"
definition CreateGas :: u64 where "CreateGas = 32000"
definition Create2Gas :: u64 where "Create2Gas = 32000"
definition CallGasFrontier :: u64 where "CallGasFrontier = 40"
definition CallGasEIP150 :: u64 where "CallGasEIP150 = 700"
definition BalanceGasFrontier :: u64 where "BalanceGasFrontier = 20"
definition BalanceGasEIP150 :: u64 where "BalanceGasEIP150 = 400"
definition BalanceGasEIP1884 :: u64 where "BalanceGasEIP1884 = 700"
definition ExtcodeSizeGasFrontier :: u64 where "ExtcodeSizeGasFrontier = 20"
definition ExtcodeSizeGasEIP150 :: u64 where "ExtcodeSizeGasEIP150 = 700"
definition SloadGasFrontier :: u64 where "SloadGasFrontier = 50"
definition SloadGasEIP150 :: u64 where "SloadGasEIP150 = 200"
definition SloadGasEIP1884 :: u64 where "SloadGasEIP1884 = 800"
definition ExtcodeHashGasConstantinople :: u64 where "ExtcodeHashGasConstantinople = 400"
definition ExtcodeHashGasEIP1884 :: u64 where "ExtcodeHashGasEIP1884 = 700"
definition ExtcodeCopyBaseFrontier :: u64 where "ExtcodeCopyBaseFrontier = 20"
definition ExtcodeCopyBaseEIP150 :: u64 where "ExtcodeCopyBaseEIP150 = 700"

lemmas step_consts = GasQuickStep_def GasFastestStep_def GasFastStep_def GasMidStep_def GasSlowStep_def GasExtStep_def Sha3Gas_def JumpdestGas_def CreateGas_def Create2Gas_def CallGasFrontier_def CallGasEIP150_def BalanceGasFrontier_def BalanceGasEIP150_def BalanceGasEIP1884_def ExtcodeSizeGasFrontier_def ExtcodeSizeGasEIP150_def SloadGasFrontier_def SloadGasEIP150_def SloadGasEIP1884_def ExtcodeHashGasConstantinople_def ExtcodeHashGasEIP1884_def ExtcodeCopyBaseFrontier_def ExtcodeCopyBaseEIP150_def

subsection \<open>Jump tables\<close>

definition arith_operations :: JumpTable where
  "arith_operations =
    [(OP_STOP, (instr opStop 0 0 0)\<lparr>op_halts := True\<rparr>),
     (OP_ADD, instr opAdd GasFastestStep 2 1),
     (OP_MUL, instr opMul GasFastStep 2 1),
     (OP_SUB, instr opSub GasFastestStep 2 1),
     (OP_DIV, instr opDiv GasFastStep 2 1),
     (OP_SDIV, instr opSdiv GasFastStep 2 1),
     (OP_MOD, instr opMod GasFastStep 2 1),
     (OP_SMOD, instr opSmod GasFastStep 2 1),
     (OP_ADDMOD, instr opAddmod GasMidStep 3 1),
     (OP_MULMOD, instr opMulmod GasMidStep 3 1),
     (OP_EXP, (instr opExp 0 2 1)\<lparr>op_dynamicGas := Some gasExpFrontier\<rparr>),
     (OP_SIGNEXTEND, instr opSignExtend GasFastStep 2 1),
     (OP_LT, instr opLt GasFastestStep 2 1),
     (OP_GT, instr opGt GasFastestStep 2 1),
     (OP_SLT, instr opSlt GasFastestStep 2 1),
     (OP_SGT, instr opSgt GasFastestStep 2 1),
     (OP_EQ, instr opEq GasFastestStep 2 1),
     (OP_ISZERO, instr opIszero GasFastestStep 1 1),
     (OP_AND, instr opAnd GasFastestStep 2 1),
     (OP_XOR, instr opXor GasFastestStep 2 1),
     (OP_OR, instr opOr GasFastestStep 2 1),
     (OP_NOT, instr opNot GasFastestStep 1 1),
     (OP_BYTE, instr opByte GasFastestStep 2 1)]"

definition context_operations :: JumpTable where
  "context_operations =
    [(OP_SHA3, (instr opSha3 Sha3Gas 2 1)\<lparr>op_dynamicGas := Some gasSha3, op_memorySize := Some memorySha3\<rparr>),
     (OP_ADDRESS, instr opAddress GasQuickStep 0 1),
     (OP_BALANCE, instr opBalance BalanceGasFrontier 1 1),
     (OP_ORIGIN, instr opOrigin GasQuickStep 0 1),
     (OP_CALLER, instr opCaller GasQuickStep 0 1),
     (OP_CALLVALUE, instr opCallValue GasQuickStep 0 1),
     (OP_CALLDATALOAD, instr opCallDataLoad GasFastestStep 1 1),
     (OP_CALLDATASIZE, instr opCallDataSize GasQuickStep 0 1),
     (OP_CALLDATACOPY, (instr opCallDataCopy GasFastestStep 3 0)\<lparr>op_dynamicGas := Some gasCallDataCopy, op_memorySize := Some memoryCallDataCopy\<rparr>),
     (OP_CODESIZE, instr opCodeSize GasQuickStep 0 1),
     (OP_CODECOPY, (instr opCodeCopy GasFastestStep 3 0)\<lparr>op_dynamicGas := Some gasCodeCopy, op_memorySize := Some memoryCodeCopy\<rparr>),
     (OP_GASPRICE, instr opGasprice GasQuickStep 0 1),
     (OP_EXTCODESIZE, instr opExtCodeSize ExtcodeSizeGasFrontier 1 1),
     (OP_EXTCODECOPY, (instr opExtCodeCopy ExtcodeCopyBaseFrontier 4 0)\<lparr>op_dynamicGas := Some gasExtCodeCopy, op_memorySize := Some memoryExtCodeCopy\<rparr>),
     (OP_BLOCKHASH, instr opBlockhash GasExtStep 1 1),
     (OP_COINBASE, instr opCoinbase GasQuickStep 0 1),
     (OP_TIMESTAMP, instr opTimestamp GasQuickStep 0 1),
     (OP_NUMBER, instr opNumber GasQuickStep 0 1),
     (OP_DIFFICULTY, instr opDifficulty GasQuickStep 0 1),
     (OP_GASLIMIT, instr opGasLimit GasQuickStep 0 1)]"

definition machine_operations :: JumpTable where
  "machine_operations =
    [(OP_POP, instr opPop GasQuickStep 1 0),
     (OP_MLOAD, (instr opMload GasFastestStep 1 1)\<lparr>op_dynamicGas := Some gasMLoad, op_memorySize := Some memoryMLoad\<rparr>),
     (OP_MSTORE, (instr opMstore GasFastestStep 2 0)\<lparr>op_dynamicGas := Some gasMStore, op_memorySize := Some memoryMStore\<rparr>),
     (OP_MSTORE8, (instr opMstore8 GasFastestStep 2 0)\<lparr>op_dynamicGas := Some gasMStore8, op_memorySize := Some memoryMStore8\<rparr>),
     (OP_SLOAD, instr opSload SloadGasFrontier 1 1),
     (OP_SSTORE, (instr opSstore 0 2 0)\<lparr>op_dynamicGas := Some gasSStore, op_writes := True\<rparr>),
     (OP_JUMP, (instr opJump GasMidStep 1 0)\<lparr>op_jumps := True\<rparr>),
     (OP_JUMPI, (instr opJumpi GasSlowStep 2 0)\<lparr>op_jumps := True\<rparr>),
     (OP_PC, instr opPc GasQuickStep 0 1),
     (OP_MSIZE, instr opMsize GasQuickStep 0 1),
     (OP_GAS, instr opGas GasQuickStep 0 1),
     (JUMPDEST, instr opJumpdest JumpdestGas 0 0)]"

definition push_operations :: JumpTable where
  "push_operations =
    (PUSH1, instr opPush1 GasFastestStep 0 1) #
    map (\<lambda>n. (0x60 + of_nat (n - 1), instr (makePush (of_nat n) n) GasFastestStep 0 1)) [2..<33]"

definition dup_operations :: JumpTable where
  "dup_operations =
    map (\<lambda>n. (0x80 + of_nat (n - 1),
      (instr (makeDup n) GasFastestStep 0 0)\<lparr>op_minStack := minDupStack (int n), op_maxStack := maxDupStack (int n)\<rparr>)) [1..<17]"

definition swap_operations :: JumpTable where
  "swap_operations =
    map (\<lambda>n. (0x90 + of_nat (n - 1),
      (instr (makeSwap n) GasFastestStep 0 0)
        \<lparr>op_minStack := minSwapStack (int n + 1), op_maxStack := maxSwapStack (int n + 1)\<rparr>)) [1..<17]"

definition log_operations :: JumpTable where
  "log_operations =
    map (\<lambda>n. (0xa0 + of_nat n,
      (instr (makeLog n) 0 (int n + 2) 0)
        \<lparr>op_dynamicGas := Some (makeGasLog (of_nat n)), op_memorySize := Some memoryLog, op_writes := True\<rparr>)) [0..<5]"

definition system_operations :: JumpTable where
  "system_operations =
    [(OP_CREATE, (instr opCreate CreateGas 3 1)\<lparr>op_dynamicGas := Some gasCreate, op_memorySize := Some memoryCreate, op_writes := True, op_returns := True\<rparr>),
     (OP_CALL, (instr opCall CallGasFrontier 7 1)\<lparr>op_dynamicGas := Some gasCall, op_memorySize := Some memoryCall, op_returns := True\<rparr>),
     (OP_CALLCODE, (instr opCallCode CallGasFrontier 7 1)\<lparr>op_dynamicGas := Some gasCallCode, op_memorySize := Some memoryCall, op_returns := True\<rparr>),
     (OP_RETURN, (instr opReturn 0 2 0)\<lparr>op_dynamicGas := Some gasReturn, op_memorySize := Some memoryReturn, op_halts := True\<rparr>),
     (OP_SELFDESTRUCT, (instr opSuicide 0 1 0)\<lparr>op_dynamicGas := Some gasSelfdestruct, op_halts := True, op_writes := True\<rparr>)]"

definition newFrontierInstructionSet :: JumpTable where
  "newFrontierInstructionSet =
    arith_operations @ context_operations @ machine_operations @ push_operations @ dup_operations @ swap_operations @
    log_operations @ system_operations"

definition newHomesteadInstructionSet :: JumpTable where
  "newHomesteadInstructionSet =
    gm_set newFrontierInstructionSet OP_DELEGATECALL
      ((instr opDelegateCall CallGasFrontier 6 1)
        \<lparr>op_dynamicGas := Some gasDelegateCall, op_memorySize := Some memoryDelegateCall, op_returns := True\<rparr>)"

definition newTangerineWhistleInstructionSet :: JumpTable where
  "newTangerineWhistleInstructionSet =
    fold (\<lambda>(code, gas). jt_modify code (set_constantGas gas))
      [(OP_BALANCE, BalanceGasEIP150), (OP_EXTCODESIZE, ExtcodeSizeGasEIP150), (OP_SLOAD, SloadGasEIP150),
       (OP_EXTCODECOPY, ExtcodeCopyBaseEIP150), (OP_CALL, CallGasEIP150), (OP_CALLCODE, CallGasEIP150),
       (OP_DELEGATECALL, CallGasEIP150)] newHomesteadInstructionSet"

definition newSpuriousDragonInstructionSet :: JumpTable where
  "newSpuriousDragonInstructionSet = jt_modify OP_EXP (set_dynamicGas gasExpEIP158) newTangerineWhistleInstructionSet"

definition byzantium_operations :: JumpTable where
  "byzantium_operations =
    [(OP_STATICCALL, (instr opStaticCall CallGasEIP150 6 1)
       \<lparr>op_dynamicGas := Some gasStaticCall, op_memorySize := Some memoryStaticCall, op_returns := True\<rparr>),
     (OP_RETURNDATASIZE, instr opReturnDataSize GasQuickStep 0 1),
     (OP_RETURNDATACOPY, (instr opReturnDataCopy GasFastestStep 3 0)
       \<lparr>op_dynamicGas := Some gasReturnDataCopy, op_memorySize := Some memoryReturnDataCopy\<rparr>),
     (OP_REVERT, (instr opRevert 0 2 0)
       \<lparr>op_dynamicGas := Some gasRevert, op_memorySize := Some memoryRevert, op_reverts := True, op_returns := True\<rparr>)]"

definition newByzantiumInstructionSet :: JumpTable where
  "newByzantiumInstructionSet = fold (\<lambda>(code, oper) jt. gm_set jt code oper) byzantium_operations newSpuriousDragonInstructionSet"

definition constantinople_operations :: JumpTable where
  "constantinople_operations =
    [(OP_SHL, instr opSHL GasFastestStep 2 1), (OP_SHR, instr opSHR GasFastestStep 2 1),
     (OP_SAR, instr opSAR GasFastestStep 2 1), (OP_EXTCODEHASH, instr opExtCodeHash ExtcodeHashGasConstantinople 1 1),
     (OP_CREATE2, (instr opCreate2 Create2Gas 4 1)
       \<lparr>op_dynamicGas := Some gasCreate2, op_memorySize := Some memoryCreate2, op_writes := True, op_returns := True\<rparr>)]"

definition newConstantinopleInstructionSet :: JumpTable where
  "newConstantinopleInstructionSet =
    fold (\<lambda>(code, oper) jt. gm_set jt code oper) constantinople_operations newByzantiumInstructionSet"

definition enable1344 :: "JumpTable \<Rightarrow> JumpTable" where
  "enable1344 jt = gm_set jt OP_CHAINID (instr opChainID GasQuickStep 0 1)"

definition enable1884 :: "JumpTable \<Rightarrow> JumpTable" where
  "enable1884 jt =
    gm_set (fold (\<lambda>(code, gas). jt_modify code (set_constantGas gas))
        [(OP_SLOAD, SloadGasEIP1884), (OP_BALANCE, BalanceGasEIP1884), (OP_EXTCODEHASH, ExtcodeHashGasEIP1884)] jt)
      OP_SELFBALANCE (instr opSelfBalance GasFastStep 0 1)"

definition enable2200 :: "JumpTable \<Rightarrow> JumpTable" where
  "enable2200 jt =
    jt_modify OP_SSTORE (set_dynamicGas gasSStoreEIP2200) (jt_modify OP_SLOAD (set_constantGas SloadGasEIP2200) jt)"

definition enable2929 :: "JumpTable \<Rightarrow> JumpTable" where
  "enable2929 jt =
    fold (\<lambda>(code, gas, dyn). jt_modify code (set_dynamicGas dyn \<circ> set_constantGas gas))
      [(OP_SLOAD, 0, gasSLoadEIP2929), (OP_EXTCODECOPY, WarmStorageReadCostEIP2929, gasExtCodeCopyEIP2929),
       (OP_EXTCODESIZE, WarmStorageReadCostEIP2929, gasEip2929AccountCheck),
       (OP_EXTCODEHASH, WarmStorageReadCostEIP2929, gasEip2929AccountCheck),
       (OP_BALANCE, WarmStorageReadCostEIP2929, gasEip2929AccountCheck),
       (OP_CALL, WarmStorageReadCostEIP2929, gasCallEIP2929), (OP_CALLCODE, WarmStorageReadCostEIP2929, gasCallCodeEIP2929),
       (OP_STATICCALL, WarmStorageReadCostEIP2929, gasStaticCallEIP2929),
       (OP_DELEGATECALL, WarmStorageReadCostEIP2929, gasDelegateCallEIP2929),
       (OP_SELFDESTRUCT, SelfdestructGasEIP150, gasSelfdestructEIP2929)]
      (jt_modify OP_SSTORE (set_dynamicGas gasSStoreEIP2929) jt)"

definition enable3529 :: "JumpTable \<Rightarrow> JumpTable" where
  "enable3529 jt =
    jt_modify OP_SELFDESTRUCT (set_dynamicGas gasSelfdestructEIP3529) (jt_modify OP_SSTORE (set_dynamicGas gasSStoreEIP3529) jt)"

definition enable3198 :: "JumpTable \<Rightarrow> JumpTable" where
  "enable3198 jt = gm_set jt OP_BASEFEE (instr opBaseFee GasQuickStep 0 1)"

definition newIstanbulInstructionSet :: JumpTable where
  "newIstanbulInstructionSet = enable2200 (enable1884 (enable1344 newConstantinopleInstructionSet))"

definition newBerlinInstructionSet :: JumpTable where
  "newBerlinInstructionSet = enable2929 newIstanbulInstructionSet"

definition newLondonInstructionSet :: JumpTable where
  "newLondonInstructionSet = enable3198 (enable3529 newBerlinInstructionSet)"

text \<open>The choice of \<^verbatim>\<open>NewEVMInterpreter\<close>.\<close>

definition instruction_set :: "Rules \<Rightarrow> JumpTable" where
  "instruction_set rules =
    (if r_IsLondon rules then newLondonInstructionSet
     else if r_IsBerlin rules then newBerlinInstructionSet
     else if r_IsIstanbul rules then newIstanbulInstructionSet
     else if r_IsConstantinople rules then newConstantinopleInstructionSet
     else if r_IsByzantium rules then newByzantiumInstructionSet
     else if r_IsEIP158 rules then newSpuriousDragonInstructionSet
     else if r_IsEIP150 rules then newTangerineWhistleInstructionSet
     else if r_IsHomestead rules then newHomesteadInstructionSet
     else newFrontierInstructionSet)"

subsection \<open>The loop\<close>

datatype step_result = Continue frame | Finish bytes "vm_error option" frame

text \<open>The size to which an operation expands the memory.\<close>

definition required_memory :: "operation \<Rightarrow> Stack \<Rightarrow> (vm_error, u64) result outcome" where
  "required_memory oper st =
    (case op_memorySize oper of
       None \<Rightarrow> Inr (Inr 0)
     | Some memorySize \<Rightarrow>
         rbind (or_panic StackFault (memorySize st)) (\<lambda>(memSize, overflow).
           Inr (if overflow then Inl ErrGasUintOverflow
                else (let (sz, over) = SafeMul (toWordSize memSize) 32 in if over then Inl ErrGasUintOverflow else Inr sz))))"

definition charge_dynamic :: "operation \<Rightarrow> interp \<Rightarrow> u64 \<Rightarrow> frame \<Rightarrow> (bool \<times> frame) outcome" where
  "charge_dynamic oper i memorySize f =
    (case op_dynamicGas oper of
       None \<Rightarrow> Inr (True, f)
     | Some dynamicGas \<Rightarrow>
         rbind (dynamicGas i memorySize f) (\<lambda>(r, f1). Inr (case r of Inl e \<Rightarrow> (False, f1) | Inr cost \<Rightarrow> fr_UseGas cost f1)))"

definition finish_step :: "operation \<Rightarrow> bytes \<times> vm_error option \<times> frame \<Rightarrow> step_result" where
  "finish_step oper = (\<lambda>(res, err, f).
    let f1 = (if op_returns oper then f\<lparr>fr_returnData := res\<rparr> else f)
    in case err of
         Some e \<Rightarrow> Finish [] (Some e) f1
       | None \<Rightarrow>
           if op_reverts oper then Finish res (Some ErrExecutionReverted) f1
           else if op_halts oper then Finish res None f1
           else if \<not> op_jumps oper then Continue (f1\<lparr>fr_pc := fr_pc f1 + 1\<rparr>)
           else Continue f1)"

text \<open>An operation after the stack and write checks.\<close>

definition run_operation :: "operation \<Rightarrow> interp \<Rightarrow> frame \<Rightarrow> step_result outcome" where
  "run_operation oper i f =
    (let (ok, f1) = fr_UseGas (op_constantGas oper) f
     in if \<not> ok then Inr (Finish [] (Some ErrOutOfGas) f1)
        else rbind (required_memory oper (fr_stack f1)) (\<lambda>r.
          case r of
            Inl e \<Rightarrow> Inr (Finish [] (Some e) f1)
          | Inr memorySize \<Rightarrow>
              rbind (charge_dynamic oper i memorySize f1) (\<lambda>(ok2, f2).
                if \<not> ok2 then Inr (Finish [] (Some ErrOutOfGas) f2)
                else
                  (let f3 = (if memorySize > 0 then f2\<lparr>fr_mem := mem_Resize memorySize (fr_mem f2)\<rparr> else f2)
                   in rbind (op_execute oper i f3) (\<lambda>x. Inr (finish_step oper x))))))"

definition interp_step :: "JumpTable \<Rightarrow> interp \<Rightarrow> frame \<Rightarrow> step_result outcome" where
  "interp_step jt i f =
    (let op = GetOp (ct_Code (fr_contract f)) (fr_pc f); sLen = int (length (fr_stack f))
     in case gm_get jt op of
          None \<Rightarrow> Inr (Finish [] (Some (ErrInvalidOpCode op)) f)
        | Some oper \<Rightarrow>
            if sLen < op_minStack oper then Inr (Finish [] (Some (ErrStackUnderflow sLen (op_minStack oper))) f)
            else if sLen > op_maxStack oper then Inr (Finish [] (Some (ErrStackOverflow sLen (op_maxStack oper))) f)
            else
              rbind (if in_readOnly i \<and> r_IsByzantium (in_rules i) then
                       if op_writes oper then Inr True
                       else if op = OP_CALL then rbind (fr_Back 2 f) (\<lambda>v. Inr (v \<noteq> 0)) else Inr False
                     else Inr False)
                (\<lambda>protected.
                  if protected then Inr (Finish [] (Some ErrWriteProtection) f) else run_operation oper i f))"

fun interp_loop :: "nat \<Rightarrow> nat \<Rightarrow> (frame \<Rightarrow> bool) \<Rightarrow> JumpTable \<Rightarrow> interp \<Rightarrow> frame \<Rightarrow> (bytes \<times> vm_error option \<times> frame) outcome" where
  "interp_loop 0 nsteps abort jt i f = Inl FuelFault"
| "interp_loop (Suc fuel) nsteps abort jt i f =
    (if Suc nsteps mod 1000 = 0 \<and> abort f then Inr ([], None, f)
     else rbind (interp_step jt i f) (\<lambda>r.
       case r of
         Continue f' \<Rightarrow> interp_loop fuel (Suc nsteps) abort jt i f'
       | Finish ret err f' \<Rightarrow> Inr (ret, err, f')))"

definition new_frame :: "Contract \<Rightarrow> bytes \<Rightarrow> StateDB \<Rightarrow> frame" where
  "new_frame contract input s =
    \<lparr>fr_pc = 0, fr_mem = NewMemory, fr_stack = [], fr_contract = contract, fr_input = input, fr_returnData = [],
     fr_callGasTemp = 0, fr_state = s\<rparr>"

text \<open>What all runs of one EVM share: the backend of the state, the \<^verbatim>\<open>uint256\<close> package, the precompiled contracts, the flag
  \<^verbatim>\<open>EnablePreimageRecording\<close> and the abort flag.\<close>

record vm_config =
  vc_be :: backend
  vc_u256 :: uint256_lib
  vc_env :: evm_env
  vc_preimages :: bool
  vc_abort :: "frame \<Rightarrow> bool"

text \<open>One run, with the nested runs as an argument that takes the read-only flag of the interpreter.\<close>

definition run_frame ::
  "vm_config \<Rightarrow> (bool \<Rightarrow> EVM \<Rightarrow> Contract \<Rightarrow> bytes \<Rightarrow> bool \<Rightarrow> StateDB \<Rightarrow> run_result option) \<Rightarrow> bool \<Rightarrow> EVM \<Rightarrow> Contract \<Rightarrow> bytes \<Rightarrow> bool \<Rightarrow>
   StateDB \<Rightarrow> run_result outcome" where
  "run_frame vc nested inReadOnly evm contract input readOnly s =
    (let evm' = evm\<lparr>evm_depth := evm_depth evm + 1\<rparr>; ro = (inReadOnly \<or> readOnly);
         i = \<lparr>in_be = vc_be vc, in_u256 = vc_u256 vc, in_evm = evm', in_env = (vc_env vc)\<lparr>ee_Run := nested ro\<rparr>, in_readOnly = ro,
              in_preimages = vc_preimages vc\<rparr>
     in if ct_Code contract = [] then Inr ([], None, ct_Gas contract, s)
        else rbind (interp_loop (Suc (unat (ct_Gas contract))) 0 (vc_abort vc) (instruction_set (evm_chainRules evm)) i
                      (new_frame contract input s))
               (\<lambda>(ret, err, f). Inr (ret, err, fr_gas f, fr_state f)))"

fun Run_at :: "nat \<Rightarrow> vm_config \<Rightarrow> bool \<Rightarrow> EVM \<Rightarrow> Contract \<Rightarrow> bytes \<Rightarrow> bool \<Rightarrow> StateDB \<Rightarrow> run_result option" where
  "Run_at 0 vc inReadOnly evm contract input readOnly s = None"
| "Run_at (Suc d) vc inReadOnly evm contract input readOnly s =
    (case run_frame vc (Run_at d vc) inReadOnly evm contract input readOnly s of Inl p \<Rightarrow> None | Inr r \<Rightarrow> Some r)"

text \<open>A run is started at depth 0 to \<^verbatim>\<open>CallCreateDepth\<close>; the deepest one cannot start another.\<close>

definition interpreter_env :: "vm_config \<Rightarrow> evm_env" where
  "interpreter_env vc = (vc_env vc)\<lparr>ee_Run := Run_at (Suc CallCreateDepth) vc False\<rparr>"

end
