(* ===== verification/Vm_Safety.thy ===== *)
theory Vm_Safety
  imports Vm_Interpreter Evm_Frames
begin

text \<open>
  Safety of the interpreter: memory and its quadratic fee, and for every entry of every jump table that it stays
  within the stack and the memory, that it pays for what it uses and that the loop ends.
\<close>


subsection \<open>Memory\<close>

definition mem_fee :: "nat \<Rightarrow> nat" where
  "mem_fee w = 3 * w + w * w div 512"

definition mem_words :: "Memory \<Rightarrow> nat" where
  "mem_words m = length (mem_store m) div 32"

definition max_words :: nat where
  "max_words = 0xFFFFFFFF"

definition mem_sized :: "Memory \<Rightarrow> bool" where
  "mem_sized m \<longleftrightarrow> length (mem_store m) = 32 * mem_words m \<and> mem_words m \<le> max_words"

definition charged :: "nat \<Rightarrow> Memory \<Rightarrow> bool" where
  "charged sz m \<longleftrightarrow> mem_sized m \<and> sz \<le> 32 * max_words \<and>
     unat (mem_lastGasCost m) = mem_fee (max (mem_words m) ((sz + 31) div 32))"

abbreviation mem_ok :: "Memory \<Rightarrow> bool" where
  "mem_ok m \<equiv> charged 0 m"

lemma mem_fee_mono: "v \<le> w \<Longrightarrow> mem_fee v \<le> mem_fee w"
  unfolding mem_fee_def by (intro add_mono mult_mono div_le_mono) simp_all

lemma mem_fee_small: "w \<le> max_words \<Longrightarrow> mem_fee w < 2 ^ 56"
proof -
  assume "w \<le> max_words"
  then have "mem_fee w \<le> mem_fee max_words" by (rule mem_fee_mono)
  also have "mem_fee max_words < 2 ^ 56" by (simp add: mem_fee_def max_words_def)
  finally show ?thesis .
qed

lemma unat_go_len: "unat (go_len xs) = min (length xs) (2 ^ 63 - 1)"
proof -
  have "min (length xs) (2 ^ 63 - 1) < 2 ^ 64" by (rule le_less_trans [OF min.cobounded2]) simp
  then show ?thesis unfolding go_len_def by (simp add: unat_of_nat)
qed

lemma mem_sizedD: "mem_sized m \<Longrightarrow> length (mem_store m) \<le> 32 * max_words" "mem_sized m \<Longrightarrow> unat (mem_Len m) = length (mem_store m)"
proof -
  assume m: "mem_sized m"
  then show "length (mem_store m) \<le> 32 * max_words" by (simp add: mem_sized_def)
  then show "unat (mem_Len m) = length (mem_store m)" by (simp add: mem_Len_def unat_go_len max_words_def)
qed

lemma unat_small_add: "unat (x :: u64) + unat y < 2 ^ 64 \<Longrightarrow> unat (x + y) = unat x + unat y"
  by (simp add: unat_add_lem [THEN iffD1])

lemma unat_small_mult: "unat (x :: u64) * unat y < 2 ^ 64 \<Longrightarrow> unat (x * y) = unat x * unat y"
  by (simp add: unat_mult_lem [THEN iffD1])

lemma toWordSize_nat: "unat n \<le> 2 ^ 64 - 32 \<Longrightarrow> unat (toWordSize n) = (unat n + 31) div 32"
proof -
  assume n: "unat n \<le> 2 ^ 64 - 32"
  have "unat (MaxUint64 - 31) = 2 ^ 64 - 32" by (simp add: MaxUint64_def)
  then have "\<not> n > MaxUint64 - 31" using n by (simp add: word_less_nat_alt)
  moreover have "unat (n + 31) = unat n + 31" using n by (simp add: unat_small_add)
  ultimately show ?thesis by (simp add: toWordSize_def unat_div)
qed

lemma words_le: "n \<le> 32 * w \<Longrightarrow> (n + 31) div 32 \<le> (w :: nat)"
  by linarith

lemma charged_cong: "mem_store m' = mem_store m \<Longrightarrow> mem_sized m' = mem_sized m" "mem_store m' = mem_store m \<Longrightarrow> mem_words m' = mem_words m"
  by (simp_all add: mem_sized_def mem_words_def)

lemma memoryGasCost_new:
  assumes ok: "mem_ok m" and n: "unat n \<le> 32 * max_words" "32 * ((unat n + 31) div 32) > length (mem_store m)"
  shows "\<exists>c m'. memoryGasCost n m = (Inr c, m') \<and> m' = m\<lparr>mem_lastGasCost := mem_lastGasCost m'\<rparr> \<and>
    unat (mem_lastGasCost m') = mem_fee ((unat n + 31) div 32) \<and>
    unat c = mem_fee ((unat n + 31) div 32) - mem_fee (mem_words m)"
proof -
  let ?W = "(unat n + 31) div 32"
  have sz: "mem_sized m" "unat (mem_lastGasCost m) = mem_fee (mem_words m)" using ok by (auto simp: charged_def)
  note len = mem_sizedD [OF sz(1)]
  have W: "?W \<le> max_words" by (rule words_le [OF n(1)])
  have w: "unat (toWordSize n) = ?W" using n(1) by (intro toWordSize_nat) (simp add: max_words_def)
  have m32: "unat (toWordSize n * 32) = ?W * 32" using w W by (subst unat_small_mult) (simp_all add: max_words_def)
  have "?W * ?W \<le> max_words * max_words" using W by (simp add: mult_le_mono)
  then have sq: "unat (toWordSize n * toWordSize n) = ?W * ?W" using w by (subst unat_small_mult) (simp_all add: max_words_def)
  have lin: "unat (toWordSize n * MemoryGas) = 3 * ?W"
    using w W by (subst unat_small_mult) (simp_all add: max_words_def MemoryGas_def)
  have quad: "unat (toWordSize n * toWordSize n div QuadCoeffDiv) = ?W * ?W div 512" by (simp add: unat_div sq QuadCoeffDiv_def)
  define fee where "fee = toWordSize n * MemoryGas + toWordSize n * toWordSize n div QuadCoeffDiv"
  have fee: "unat fee = mem_fee ?W"
    unfolding fee_def using lin quad mem_fee_small [OF W] by (subst unat_small_add) (simp_all add: mem_fee_def)
  have le: "mem_words m \<le> ?W" using n(2) sz(1) by (simp add: mem_sized_def)
  have "unat (fee - mem_lastGasCost m) = mem_fee ?W - mem_fee (mem_words m)"
    using fee sz(2) mem_fee_mono [OF le] by (simp add: unat_sub word_le_nat_alt)
  moreover have "n \<noteq> 0" using n(2) by auto
  moreover have "\<not> n > 0x1FFFFFFFE0" using n(1) by (simp add: word_less_nat_alt max_words_def)
  moreover have "toWordSize n * 32 > mem_Len m" using n(2) m32 len(2) by (simp add: word_less_nat_alt mult.commute)
  ultimately show ?thesis
    using fee by (simp add: memoryGasCost_def Let_def fee_def [symmetric])
qed

lemma memoryGasCost_spec:
  assumes ok: "mem_ok m" and r: "memoryGasCost n m = (r, m')"
  shows "m' = m\<lparr>mem_lastGasCost := mem_lastGasCost m'\<rparr>"
    and "r = Inr c \<Longrightarrow> charged (unat n) m' \<and> unat c = mem_fee (max (mem_words m) ((unat n + 31) div 32)) - mem_fee (mem_words m)"
    and "r = Inl e \<Longrightarrow> unat n > 32 * max_words"
proof -
  let ?W = "(unat n + 31) div 32"
  have sz: "mem_sized m" "unat (mem_lastGasCost m) = mem_fee (mem_words m)" using ok by (auto simp: charged_def)
  note len = mem_sizedD [OF sz(1)]
  consider (big) "unat n > 32 * max_words" | (new) "unat n \<le> 32 * max_words" "32 * ?W > length (mem_store m)"
    | (old) "unat n \<le> 32 * max_words" "32 * ?W \<le> length (mem_store m)" by linarith
  then have "m' = m\<lparr>mem_lastGasCost := mem_lastGasCost m'\<rparr> \<and>
    (\<forall>c. r = Inr c \<longrightarrow> charged (unat n) m' \<and> unat c = mem_fee (max (mem_words m) ?W) - mem_fee (mem_words m)) \<and>
    (\<forall>e. r = Inl e \<longrightarrow> unat n > 32 * max_words)"
  proof cases
    case big
    then have "n > 0x1FFFFFFFE0" "n \<noteq> 0" by (auto simp: word_less_nat_alt max_words_def)
    then show ?thesis using r big by (auto simp: memoryGasCost_def)
  next
    case new
    have "mem_words m \<le> ?W" using new(2) sz(1) by (simp add: mem_sized_def)
    moreover obtain c where c: "r = Inr c" "m' = m\<lparr>mem_lastGasCost := mem_lastGasCost m'\<rparr>"
        "unat (mem_lastGasCost m') = mem_fee ?W" "unat c = mem_fee ?W - mem_fee (mem_words m)"
      using memoryGasCost_new [OF ok new] r by auto
    moreover have "mem_store m' = mem_store m" using arg_cong [OF c(2), of mem_store] by simp
    ultimately show ?thesis using sz(1) new(1) charged_cong [of m' m] by (simp add: charged_def max_absorb2)
  next
    case old
    have "?W \<le> mem_words m" using old(2) sz(1) by (simp add: mem_sized_def)
    moreover have "n > 0x1FFFFFFFE0 \<longleftrightarrow> False" using old(1) by (simp add: word_less_nat_alt max_words_def)
    moreover have "toWordSize n * 32 > mem_Len m \<longleftrightarrow> False"
    proof -
      have W: "?W \<le> max_words" using words_le [OF old(1)] .
      have w: "unat (toWordSize n) = ?W" using old(1) by (intro toWordSize_nat) (simp add: max_words_def)
      have "unat (toWordSize n * 32) = ?W * 32" using w W by (subst unat_small_mult) (simp_all add: max_words_def)
      then show ?thesis using old(2) len(2) by (simp add: word_less_nat_alt mult.commute)
    qed
    ultimately show ?thesis using r sz old(1)
      by (auto simp: memoryGasCost_def charged_def Let_def max_absorb1 split: if_splits)
  qed
  then show "m' = m\<lparr>mem_lastGasCost := mem_lastGasCost m'\<rparr>"
    "r = Inr c \<Longrightarrow> charged (unat n) m' \<and> unat c = mem_fee (max (mem_words m) ((unat n + 31) div 32)) - mem_fee (mem_words m)"
    "r = Inl e \<Longrightarrow> unat n > 32 * max_words" by blast+
qed

text \<open>C15. The memory fee is exact.  For a memory of whole words whose last cost is the fee of its size, \<^verbatim>\<open>memoryGasCost\<close>
  fails exactly for sizes above \<^verbatim>\<open>0x1FFFFFFFE0\<close>; otherwise it charges, without overflow, the difference between the
  quadratic fee \<open>3 w + w\<^sup>2 / 512\<close> of the words that the new size needs and the fee already paid, nothing when the memory is
  large enough, and records the new fee.\<close>

theorem memory_fee_exact:
  assumes "mem_ok m"
  shows "((\<exists>m'. memoryGasCost n m = (Inl ErrGasUintOverflow, m')) \<longleftrightarrow> unat n > 32 * max_words) \<and>
    (\<forall>c m'. memoryGasCost n m = (Inr c, m') \<longrightarrow>
      unat c = mem_fee (max (mem_words m) ((unat n + 31) div 32)) - mem_fee (mem_words m) \<and> charged (unat n) m')"
proof -
  obtain r m1 where r: "memoryGasCost n m = (r, m1)" by fastforce
  have big: "unat n > 32 * max_words \<longleftrightarrow> n > 0x1FFFFFFFE0" by (simp add: word_less_nat_alt max_words_def)
  have "r = Inl ErrGasUintOverflow \<longleftrightarrow> unat n > 32 * max_words"
  proof
    assume "unat n > 32 * max_words"
    then have "n > 0x1FFFFFFFE0" "n \<noteq> 0" using big by auto
    then show "r = Inl ErrGasUintOverflow" using r by (simp add: memoryGasCost_def)
  qed (use memoryGasCost_spec(3) [OF assms r] in blast)
  then show ?thesis using r memoryGasCost_spec(2) [OF assms r] by auto
qed

theorem memory_fee_exact_witness: "\<exists>c m'. memoryGasCost 1024 NewMemory = (Inr c, m') \<and> unat c = 98"
proof -
  have ok: "mem_ok NewMemory" by (simp add: NewMemory_def charged_def mem_sized_def mem_words_def mem_fee_def)
  have "\<exists>c m'. memoryGasCost 1024 NewMemory = (Inr c, m')" by (simp add: memoryGasCost_def Let_def NewMemory_def)
  then obtain c m' where c: "memoryGasCost 1024 NewMemory = (Inr c, m')" by blast
  from memory_fee_exact [OF ok, of 1024] c show ?thesis by (auto simp: mem_fee_def mem_words_def NewMemory_def)
qed

lemma mem_Resize_ok:
  assumes "charged (unat n) m" "32 dvd unat n"
  shows "mem_ok (if n > 0 then mem_Resize n m else m)"
    "unat n \<le> length (mem_store (if n > 0 then mem_Resize n m else m))"
proof -
  have sz: "mem_sized m" "unat n \<le> 32 * max_words"
    "unat (mem_lastGasCost m) = mem_fee (max (mem_words m) ((unat n + 31) div 32))" using assms(1) by (auto simp: charged_def)
  note len = mem_sizedD [OF sz(1)]
  obtain k where k: "unat n = 32 * k" using assms(2) by (auto elim: dvdE)
  have W: "(unat n + 31) div 32 = k" "k \<le> max_words" using k sz(2) by simp_all
  let ?m = "if n > 0 then mem_Resize n m else m"
  have l: "length (mem_store ?m) = max (length (mem_store m)) (unat n)"
    using len by (auto simp: mem_Resize_def word_less_nat_alt unat_sub word_le_nat_alt word_neq_0_conv)
  have g: "mem_lastGasCost ?m = mem_lastGasCost m" by (simp add: mem_Resize_def)
  have w: "mem_words ?m = max (mem_words m) k"
    unfolding mem_words_def l using sz(1) k by (auto simp: mem_sized_def max_def)
  show "mem_ok ?m" using sz(1,3) l g w k W by (auto simp: charged_def mem_sized_def max_def split: if_splits)
  show "unat n \<le> length (mem_store ?m)" using l by simp
qed


subsection \<open>What gas functions and instructions keep\<close>

text \<open>The panics that the checks of the interpreter do not exclude: a refund counter that would go below zero, a
  storage write of a contract whose address is not in the access list, a nil value of the block context, the log
  filter, and a panic of a nested run.  A stack or memory access out of range, an inconsistent access list and the
  end of the fuel are not among them.\<close>

definition soft_panics :: "vm_panic set" where
  "soft_panics = {RefundFault, ColdSstore, NilFault, LogFault, CalleePanic}"

definition frame_ok :: "interp \<Rightarrow> frame \<Rightarrow> bool" where
  "frame_ok i f \<longleftrightarrow> in_tx (in_be i) (fr_state f) \<and> mem_ok (fr_mem f)"

definition gas_kept :: "frame \<Rightarrow> frame \<Rightarrow> bool" where
  "gas_kept f f1 \<longleftrightarrow> fr_pc f1 = fr_pc f \<and> fr_stack f1 = fr_stack f \<and> fr_input f1 = fr_input f \<and>
     fr_returnData f1 = fr_returnData f \<and> mem_store (fr_mem f1) = mem_store (fr_mem f) \<and>
     fr_contract f1 = (fr_contract f)\<lparr>ct_Gas := fr_gas f1\<rparr> \<and> unat (fr_gas f1) \<le> unat (fr_gas f)"

definition gas_spec :: "bool \<Rightarrow> interp \<Rightarrow> (frame \<Rightarrow> nat) \<Rightarrow> u64 \<Rightarrow> frame \<Rightarrow> ((vm_error, u64) result \<times> frame) outcome \<Rightarrow> bool" where
  "gas_spec mem i ext ms f x \<longleftrightarrow>
    (\<forall>p. x = Inl p \<longrightarrow> p \<in> soft_panics) \<and>
    (\<forall>r f1. x = Inr (r, f1) \<longrightarrow> ops_to (in_be i) (fr_state f) (fr_state f1) \<and> gas_kept f f1 \<and>
      (\<forall>c. r = Inr c \<longrightarrow> fr_contract f1 = fr_contract f \<and>
        (if mem then charged (unat ms) (fr_mem f1) else fr_mem f1 = fr_mem f) \<and> ext f1 \<le> unat c))"

definition gas_ok :: "bool \<Rightarrow> bool \<Rightarrow> (frame \<Rightarrow> nat) \<Rightarrow> nat \<Rightarrow> gasFunc \<Rightarrow> bool" where
  "gas_ok eip150 mem ext n g \<longleftrightarrow>
    (\<forall>i ms f. frame_ok i f \<longrightarrow> (eip150 \<longrightarrow> r_IsEIP150 (in_rules i)) \<longrightarrow> n \<le> length (fr_stack f) \<longrightarrow> gas_spec mem i ext ms f (g i ms f))"

lemma gas_okI: "(\<And>i ms f. frame_ok i f \<Longrightarrow> n \<le> length (fr_stack f) \<Longrightarrow> gas_spec mem i ext ms f (g i ms f)) \<Longrightarrow> gas_ok eip mem ext n g"
  by (simp add: gas_ok_def)

lemma gas_spec_mono: "gas_spec mem i ext ms f x \<Longrightarrow> (\<And>f. ext' f \<le> ext f) \<Longrightarrow> gas_spec mem i ext' ms f x"
  unfolding gas_spec_def by (auto split del: if_split) (meson order_trans)

lemma gas_ok_mono: "gas_ok eip mem ext n g \<Longrightarrow> n \<le> m \<Longrightarrow> eip \<le> eip' \<Longrightarrow> (\<And>f. ext' f \<le> ext f) \<Longrightarrow> gas_ok eip' mem ext' m g"
  unfolding gas_ok_def by (metis gas_spec_mono le_bool_def order_trans)

lemma gas_kept_refl [simp]: "gas_kept f f"
  by (simp add: gas_kept_def)

lemma fr_Back_ok [simp]: "n < length (fr_stack f) \<Longrightarrow> fr_Back n f = Inr (fr_stack f ! n)"
  by (simp add: fr_Back_def stack_Back_def or_panic_def)

lemma add_gas_Inr: "add_gas x y = Inr c \<Longrightarrow> unat c = unat x + unat y"
  by (auto simp: add_gas_def SafeAdd_def Let_def intro: unat_small_add split: if_splits)

lemma gas_spec_error: "ops_to (in_be i) (fr_state f) (fr_state f1) \<Longrightarrow> gas_kept f f1 \<Longrightarrow> gas_spec mem i ext ms f (Inr (Inl e, f1))"
  by (simp add: gas_spec_def)

lemma memory_fee_spec:
  assumes "frame_ok i f" "memory_fee ms f = (r, f1)"
  shows "f1 = f\<lparr>fr_mem := fr_mem f1\<rparr>" "mem_store (fr_mem f1) = mem_store (fr_mem f)" "gas_kept f f1" "fr_state f1 = fr_state f"
    "r = Inr c \<Longrightarrow> charged (unat ms) (fr_mem f1) \<and> unat c < 2 ^ 56"
proof -
  obtain m where m: "memoryGasCost ms (fr_mem f) = (r, m)" "f1 = f\<lparr>fr_mem := m\<rparr>"
    using assms(2) by (auto simp: memory_fee_def split: prod.splits)
  have ok: "mem_ok (fr_mem f)" using assms(1) by (simp add: frame_ok_def)
  note s = memoryGasCost_spec [OF ok m(1)]
  show e: "f1 = f\<lparr>fr_mem := fr_mem f1\<rparr>" by (simp add: m(2))
  show st: "mem_store (fr_mem f1) = mem_store (fr_mem f)" using arg_cong [OF s(1), of mem_store] by (simp add: m(2))
  show "gas_kept f f1" using st by (simp add: gas_kept_def m(2))
  show "fr_state f1 = fr_state f" by (simp add: m(2))
  assume r: "r = Inr c"
  have "max (mem_words (fr_mem f)) ((unat ms + 31) div 32) \<le> max_words"
    using ok s(2) [OF r] words_le [of "unat ms" max_words] by (auto simp: charged_def mem_sized_def)
  then have "mem_fee (max (mem_words (fr_mem f)) ((unat ms + 31) div 32)) < 2 ^ 56" by (rule mem_fee_small)
  then have "unat c < 2 ^ 56" using s(2) [OF r] by linarith
  then show "charged (unat ms) (fr_mem f1) \<and> unat c < 2 ^ 56" using s(2) [OF r] by (simp add: m(2))
qed

lemma gas_spec_fee:
  assumes "frame_ok i f" "memory_fee ms f = (r, f1)" "\<And>g c. r = Inr g \<Longrightarrow> h g = Inr c \<Longrightarrow> ext f1 \<le> unat c"
  shows "gas_spec True i ext ms f (Inr (rbind r h, f1))"
proof -
  note s = memory_fee_spec [OF assms(1,2)]
  have "fr_contract f1 = fr_contract f" using arg_cong [OF s(1), of fr_contract] by simp
  then show ?thesis using s(3,4) s(5) assms(3) by (cases r) (auto simp: gas_spec_def)
qed

lemma pureMemoryGascost_ok: "gas_ok eip True (\<lambda>_. 0) n pureMemoryGascost"
proof (rule gas_okI)
  fix i ms f
  assume a: "frame_ok i f"
  obtain r f1 where m: "memory_fee ms f = (r, f1)" by fastforce
  show "gas_spec True i (\<lambda>_. 0) ms f (pureMemoryGascost i ms f)"
    using gas_spec_fee [OF a m, of Inr "\<lambda>_. 0"] by (cases r) (simp_all add: pureMemoryGascost_def m)
qed

lemma memoryCopierGas_ok: "gas_ok eip True (\<lambda>_. 0) (Suc k) (memoryCopierGas k)"
proof (rule gas_okI)
  fix i ms f
  assume a: "frame_ok i f" "Suc k \<le> length (fr_stack f)"
  obtain r f1 where m: "memory_fee ms f = (r, f1)" by fastforce
  show "gas_spec True i (\<lambda>_. 0) ms f (memoryCopierGas k i ms f)"
    using a(2) by (simp add: memoryCopierGas_def m gas_spec_fee [OF a(1) m])
qed

lemma gas_hash_words_ok: "gas_ok eip True (\<lambda>_. 0) (Suc k) (gas_hash_words k)"
proof (rule gas_okI)
  fix i ms f
  assume a: "frame_ok i f" "Suc k \<le> length (fr_stack f)"
  obtain r f1 where m: "memory_fee ms f = (r, f1)" by fastforce
  show "gas_spec True i (\<lambda>_. 0) ms f (gas_hash_words k i ms f)"
    using a(2) by (simp add: gas_hash_words_def m gas_spec_fee [OF a(1) m])
qed

lemma makeGasLog_ok: "gas_ok eip True (\<lambda>_. 1) 2 (makeGasLog n)"
proof (rule gas_okI)
  fix i ms f
  assume a: "frame_ok i f" "2 \<le> length (fr_stack f)"
  obtain r f1 where m: "memory_fee ms f = (r, f1)" by fastforce
  show "gas_spec True i (\<lambda>_. 1) ms f (makeGasLog n i ms f)"
  proof (cases "to_uint64 (fr_stack f ! 1)")
    case (Inl e)
    then show ?thesis using a(2) by (simp add: makeGasLog_def gas_spec_def)
  next
    case (Inr sz)
    let ?h = "\<lambda>gas. rbind (add_gas gas LogGas) (\<lambda>g1. rbind (add_gas g1 (n * LogTopicGas)) (\<lambda>g2. rbind (mul_gas sz LogDataGas) (add_gas g2)))"
    have "1 \<le> unat c" if h: "?h g = Inr c" for g c
    proof -
      obtain g1 g2 d where "add_gas g LogGas = Inr g1" "add_gas g1 (n * LogTopicGas) = Inr g2" "add_gas g2 d = Inr c"
        using h unfolding rbind_Inr_iff by blast
      then show ?thesis by (auto dest!: add_gas_Inr simp: LogGas_def)
    qed
    then show ?thesis using a(2) Inr gas_spec_fee [OF a(1) m, of ?h "\<lambda>_. 1"] by (simp add: makeGasLog_def m)
  qed
qed

lemma gas_exp_ok: "gas_ok eip False (\<lambda>_. 1) 2 (gas_exp b)"
proof (rule gas_okI)
  fix i ms f
  assume a: "frame_ok i f" "2 \<le> length (fr_stack f)"
  have "1 \<le> unat c" if "add_gas x ExpGas = Inr c" for x c using add_gas_Inr [OF that] by (simp add: ExpGas_def)
  then show "gas_spec False i (\<lambda>_. 1) ms f (gas_exp b i ms f)" using a(2) by (simp add: gas_exp_def gas_spec_def Let_def)
qed


subsection \<open>State accesses as operations\<close>

lemma more_getter_states:
  "snd (Empty be a s) = snd (getStateObject be a s)" "snd (HasSuicided be a s) = snd (getStateObject be a s)"
  by (auto simp: Empty_def HasSuicided_def split: prod.split)

lemma GetCodeSize_state:
  "snd (GetCodeSize be a s) \<in> {snd (getStateObject be a s), snd (GetCode be a s)}"
proof -
  obtain r s' where g: "getStateObject be a s = (r, s')" by fastforce
  show ?thesis
  proof (cases r)
    case None
    then show ?thesis by (simp add: GetCodeSize_def g)
  next
    case (Some ob)
    then show ?thesis
      by (auto simp: GetCodeSize_def GetCode_def so_CodeSize_def so_Code_def g Let_def split: option.split)
  qed
qed

lemma state_reads:
  assumes "in_tx be s"
  shows "ops_to be s (snd (GetBalance be a s))" "ops_to be s (snd (GetNonce be a s))" "ops_to be s (snd (GetCodeHash be a s))"
    "ops_to be s (snd (Exist be a s))" "ops_to be s (snd (Empty be a s))" "ops_to be s (snd (HasSuicided be a s))"
    "ops_to be s (snd (GetState be a k s))" "ops_to be s (snd (GetCommittedState be a k s))"
    "ops_to be s (snd (GetCode be a s))" "ops_to be s (snd (GetCodeSize be a s))"
  using load_ops_to(1) [OF assms, of a] getter_states(1-4) [of be a s] more_getter_states [of be a s]
    GetState_reads(1) [OF assms, of a k] frame_steps(5) [OF assms, of a] GetCodeSize_state [of be a s]
    step_ops_to [OF assms, of "OpGetCommittedState a k"]
  by (auto simp: is_step_def)

lemma state_writes:
  assumes "in_tx be s"
  shows "ops_to be s (AddRefund g s)" "SubRefund g s = Some s1 \<Longrightarrow> ops_to be s s1"
    "ops_to be s (SetState be a k v s)" "ops_to be s (snd (Suicide be a s))" "ops_to be s (AddLog l s)" "ops_to be s (AddPreimage h p s)"
    "AddSlotToAccessList a k s = Some s1 \<Longrightarrow> ops_to be s s1"
  using step_ops_to [OF assms, of "OpAddRefund g"] step_ops_to [OF assms, of "OpSubRefund g"]
    step_ops_to [OF assms, of "OpSetState a k v"] step_ops_to [OF assms, of "OpSuicide a"] step_ops_to [OF assms, of "OpAddLog l"]
    step_ops_to [OF assms, of "OpAddPreimage h p"] step_ops_to [OF assms, of "OpAddSlot a k"]
  by (auto simp: is_step_def)

lemma slot_lookups:
  assumes "in_tx be s"
  shows "SlotInAccessList a k s \<noteq> None" "AddSlotToAccessList a k s \<noteq> None"
  using al_Contains_warm [of "sdb_accessList s" a k] AddSlot_steps [OF in_tx_inv(1) [OF assms], of a k] in_tx_inv(1) [OF assms]
  by (auto simp: SlotInAccessList_def state_inv_def)

lemma on_state_frame:
  assumes "on_state g f = (x, f1)"
  shows "f1 = f\<lparr>fr_state := snd (g (fr_state f))\<rparr>" "x = fst (g (fr_state f))"
  using assms by (auto simp: on_state_def Let_def split: prod.splits)

text \<open>A gas function that charges no memory and only acts on the state.\<close>

lemma gas_spec_state:
  assumes "ops_to (in_be i) (fr_state f) s" "\<And>c. r = Inr c \<Longrightarrow> ext (f\<lparr>fr_state := s\<rparr>) \<le> unat c"
  shows "gas_spec False i ext ms f (Inr (r, f\<lparr>fr_state := s\<rparr>))"
  using assms by (auto simp: gas_spec_def gas_kept_def)

lemma net_sstore_ops:
  assumes "in_tx be s" "net_sstore sc be a slot current val s = Inr (g, s')"
  shows "ops_to be s s'" "g \<in> {sc_noop sc, sc_init sc, sc_clean sc, sc_dirty sc}"
proof -
  let ?s1 = "snd (GetCommittedState be a slot s)" and ?o = "fst (GetCommittedState be a slot s)"
  have o1: "ops_to be s ?s1" using state_reads(8) [OF assms(1)] .
  note i1 = ops_to_in_tx [OF o1 assms(1)]
  have add: "ops_to be s (AddRefund x t)" if "ops_to be s t" for x t
    using ops_to_trans [OF that state_writes(1) [OF ops_to_in_tx [OF that assms(1)]]] .
  have sub: "ops_to be s t" if "SubRefund x ?s1 = Some t" for x t using ops_to_trans [OF o1 state_writes(2) [OF i1 that]] .
  show "ops_to be s s'" using assms(2) o1 add sub
    by (auto simp: net_sstore_def Let_def case_prod_beta rbind_Inr_iff or_panic_def split: if_splits option.splits)
  show "g \<in> {sc_noop sc, sc_init sc, sc_clean sc, sc_dirty sc}" using assms(2)
    by (auto simp: net_sstore_def Let_def case_prod_beta rbind_Inr_iff or_panic_def split: if_splits option.splits)
qed

lemma net_sstore_panic: "net_sstore sc be a slot current val s = Inl p \<Longrightarrow> p = RefundFault"
  by (auto simp: net_sstore_def Let_def case_prod_beta rbind_def or_panic_def split: if_splits option.splits)

definition costs_ok :: "sstore_costs \<Rightarrow> bool" where
  "costs_ok sc \<longleftrightarrow> (\<forall>g \<in> {sc_noop sc, sc_init sc, sc_clean sc, sc_dirty sc}. 1 \<le> unat g \<and> unat g \<le> 20000)"

lemma sstore_net_spec:
  assumes "in_tx (in_be i) (fr_state f1)" "f1 = f\<lparr>fr_state := s1\<rparr>" "ops_to (in_be i) (fr_state f) s1" "costs_ok sc" "unat cost \<le> 2100"
  shows "gas_spec False i (\<lambda>_. 1) ms f (sstore_net sc cost i slot current val f1)"
proof (cases "net_sstore sc (in_be i) (fr_self f1) slot current val (fr_state f1)")
  case (Inl p)
  then show ?thesis using net_sstore_panic by (auto simp: sstore_net_def gas_spec_def soft_panics_def)
next
  case (Inr r)
  obtain g s where r: "r = (g, s)" by fastforce
  note n = net_sstore_ops [OF assms(1) Inr [unfolded r]]
  have g: "1 \<le> unat g" "unat g \<le> 20000" using n(2) assms(4) unfolding costs_ok_def by blast+
  have "unat (cost + g) = unat cost + unat g" using g assms(5) by (intro unat_small_add) simp
  then have "1 \<le> unat (cost + g)" using g by simp
  moreover have "ops_to (in_be i) (fr_state f) s" using ops_to_trans [OF assms(3)] n(1) assms(2) by simp
  ultimately show ?thesis
    using gas_spec_state [of i f s "Inr (cost + g)" "\<lambda>_. 1" ms] Inr by (simp add: sstore_net_def r assms(2))
qed

lemma costs_good: "costs_ok costs1283" "costs_ok costs2200" "costs_ok (costs2929 r)"
  by (simp_all add: costs_ok_def costs1283_def costs2200_def costs2929_def gas_consts)


subsection \<open>Storage and accounts\<close>

lemma gasSStore_ok: "gas_ok eip False (\<lambda>_. 1) 2 gasSStore"
proof (rule gas_okI)
  fix i ms f
  assume a: "frame_ok i f" "2 \<le> length (fr_stack f)"
  have b: "0 < length (fr_stack f)" "1 < length (fr_stack f)" using a(2) by linarith+
  let ?x = "fr_stack f ! 0" and ?y = "fr_stack f ! 1"
  let ?g = "GetState (in_be i) (fr_self f) ?x (fr_state f)"
  have i0: "in_tx (in_be i) (fr_state f)" using a(1) by (simp add: frame_ok_def)
  have o1: "ops_to (in_be i) (fr_state f) (snd ?g)" using state_reads(7) [OF i0] .
  note i1 = ops_to_in_tx [OF o1 i0]
  obtain cur f1 where s: "on_state (GetState (in_be i) (fr_self f) ?x) f = (cur, f1)" by fastforce
  note f1 = on_state_frame [OF s]
  have n: "gas_spec False i (\<lambda>_. 1) ms f (sstore_net costs1283 0 i ?x cur ?y f1)"
    by (rule sstore_net_spec [OF _ f1(1) o1 costs_good(1)]) (simp_all add: f1 i1)
  have "ops_to (in_be i) (fr_state f) (AddRefund SstoreRefundGas (snd ?g))" using ops_to_trans [OF o1 state_writes(1) [OF i1]] .
  then show "gas_spec False i (\<lambda>_. 1) ms f (gasSStore i ms f)"
    using n o1 b by (auto simp: gasSStore_def s Let_def f1(1) gas_consts intro!: gas_spec_state)
qed

lemma gasSStoreEIP2200_ok: "gas_ok eip False (\<lambda>_. 1) 2 gasSStoreEIP2200"
proof (rule gas_okI)
  fix i ms f
  assume a: "frame_ok i f" "2 \<le> length (fr_stack f)"
  have b: "0 < length (fr_stack f)" "1 < length (fr_stack f)" using a(2) by linarith+
  let ?x = "fr_stack f ! 0" and ?y = "fr_stack f ! 1"
  have i0: "in_tx (in_be i) (fr_state f)" using a(1) by (simp add: frame_ok_def)
  have o1: "ops_to (in_be i) (fr_state f) (snd (GetState (in_be i) (fr_self f) ?x (fr_state f)))" using state_reads(7) [OF i0] .
  note i1 = ops_to_in_tx [OF o1 i0]
  obtain cur f1 where s: "on_state (GetState (in_be i) (fr_self f) ?x) f = (cur, f1)" by fastforce
  note f1 = on_state_frame [OF s]
  have "gas_spec False i (\<lambda>_. 1) ms f (sstore_net costs2200 0 i ?x cur ?y f1)"
    by (rule sstore_net_spec [OF _ f1(1) o1 costs_good(2)]) (simp_all add: f1 i1)
  then show "gas_spec False i (\<lambda>_. 1) ms f (gasSStoreEIP2200 i ms f)"
    using b by (simp add: gasSStoreEIP2200_def s Let_def gas_spec_error)
qed

lemma makeGasSStoreFunc_ok: "gas_ok eip False (\<lambda>_. 1) 2 (makeGasSStoreFunc r)"
proof (rule gas_okI)
  fix i ms f
  assume a: "frame_ok i f" "2 \<le> length (fr_stack f)"
  have b: "0 < length (fr_stack f)" "1 < length (fr_stack f)" using a(2) by linarith+
  let ?x = "fr_stack f ! 0" and ?y = "fr_stack f ! 1"
  have i0: "in_tx (in_be i) (fr_state f)" using a(1) by (simp add: frame_ok_def)
  have o1: "ops_to (in_be i) (fr_state f) (snd (GetState (in_be i) (fr_self f) ?x (fr_state f)))" using state_reads(7) [OF i0] .
  note i1 = ops_to_in_tx [OF o1 i0]
  obtain cur f1 where s: "on_state (GetState (in_be i) (fr_self f) ?x) f = (cur, f1)" by fastforce
  note f1 = on_state_frame [OF s]
  obtain ap sp where q: "SlotInAccessList (fr_self f) ?x (fr_state f1) = Some (ap, sp)"
    using slot_lookups(1) [OF i1] by (fastforce simp: f1(1))
  obtain s2 where t: "AddSlotToAccessList (fr_self f) ?x (fr_state f1) = Some s2"
    using slot_lookups(2) [OF i1] by (fastforce simp: f1(1))
  have o2: "ops_to (in_be i) (fr_state f) s2" using ops_to_trans [OF o1 state_writes(7) [OF i1]] t by (simp add: f1(1))
  have warm: "gas_spec False i (\<lambda>_. 1) ms f (sstore_net (costs2929 r) 0 i ?x cur ?y f1)"
    by (rule sstore_net_spec [OF _ f1(1) o1 costs_good(3)]) (simp_all add: f1 i1)
  have cold: "gas_spec False i (\<lambda>_. 1) ms f (sstore_net (costs2929 r) ColdSloadCostEIP2929 i ?x cur ?y (f1\<lparr>fr_state := s2\<rparr>))"
    by (rule sstore_net_spec [OF _ _ o2 costs_good(3)]) (use ops_to_in_tx [OF o2 i0] in \<open>simp_all add: f1 gas_consts\<close>)
  show "gas_spec False i (\<lambda>_. 1) ms f (makeGasSStoreFunc r i ms f)"
    using b warm cold by (auto simp: makeGasSStoreFunc_def s q t Let_def or_panic_def gas_spec_error)
      (simp add: gas_spec_def soft_panics_def)
qed

lemma gasSLoadEIP2929_ok: "gas_ok eip False (\<lambda>_. 1) 1 gasSLoadEIP2929"
proof (rule gas_okI)
  fix i ms f
  assume a: "frame_ok i f" "1 \<le> length (fr_stack f)"
  have b: "0 < length (fr_stack f)" using a(2) by linarith
  let ?x = "fr_stack f ! 0"
  have i0: "in_tx (in_be i) (fr_state f)" using a(1) by (simp add: frame_ok_def)
  obtain ap sp where q: "SlotInAccessList (fr_self f) ?x (fr_state f) = Some (ap, sp)" using slot_lookups(1) [OF i0] by fastforce
  obtain s2 where t: "AddSlotToAccessList (fr_self f) ?x (fr_state f) = Some s2" using slot_lookups(2) [OF i0] by fastforce
  show "gas_spec False i (\<lambda>_. 1) ms f (gasSLoadEIP2929 i ms f)"
    using b gas_spec_state [OF ops_to_refl, where r = "Inr WarmStorageReadCostEIP2929" and ext = "\<lambda>_. 1" and f = f]
      gas_spec_state [OF state_writes(7) [OF i0 t], where r = "Inr ColdSloadCostEIP2929" and ext = "\<lambda>_. 1"]
    by (simp add: gasSLoadEIP2929_def q t or_panic_def gas_consts)
qed

lemma add_address_ops:
  "in_tx be s \<Longrightarrow> ops_to be s (AddAddressToAccessList a s)"
  using frame_steps(7) .

lemma gasEip2929AccountCheck_ok: "gas_ok eip False (\<lambda>_. 0) 1 gasEip2929AccountCheck"
proof (rule gas_okI)
  fix i ms f
  assume a: "frame_ok i f" "1 \<le> length (fr_stack f)"
  have b: "0 < length (fr_stack f)" using a(2) by linarith
  have i0: "in_tx (in_be i) (fr_state f)" using a(1) by (simp add: frame_ok_def)
  show "gas_spec False i (\<lambda>_. 0) ms f (gasEip2929AccountCheck i ms f)"
    using b add_address_ops [OF i0] gas_spec_state [OF ops_to_refl, where r = "Inr 0" and ext = "\<lambda>_. 0" and f = f]
    by (auto simp: gasEip2929AccountCheck_def intro: gas_spec_state)
qed

text \<open>Acting on the state after the memory fee.\<close>

lemma gas_spec_then:
  assumes "gas_spec True i (\<lambda>_. 0) ms f x"
    and "\<And>r f1. x = Inr (r, f1) \<Longrightarrow> \<exists>r' s. y = Inr (r', f1\<lparr>fr_state := s\<rparr>) \<and> ops_to (in_be i) (fr_state f1) s \<and> (\<forall>e. r = Inl e \<longrightarrow> (\<exists>e'. r' = Inl e'))"
    and "\<And>p. x = Inl p \<Longrightarrow> y = Inl p"
  shows "gas_spec True i (\<lambda>_. 0) ms f y"
proof (cases x)
  case (Inl p)
  then show ?thesis using assms(1,3) by (auto simp: gas_spec_def)
next
  case (Inr z)
  obtain r f1 where z: "x = Inr (r, f1)" using Inr by (cases z) auto
  from assms(2) [OF z] obtain r' s where y: "y = Inr (r', f1\<lparr>fr_state := s\<rparr>)" "ops_to (in_be i) (fr_state f1) s"
    "\<forall>e. r = Inl e \<longrightarrow> (\<exists>e'. r' = Inl e')" by blast
  have k: "ops_to (in_be i) (fr_state f) (fr_state f1)" "gas_kept f f1"
    "\<And>c. r = Inr c \<Longrightarrow> fr_contract f1 = fr_contract f \<and> charged (unat ms) (fr_mem f1)"
    using assms(1) z by (auto simp: gas_spec_def)
  have "\<And>c. r' = Inr c \<Longrightarrow> fr_contract f1 = fr_contract f \<and> charged (unat ms) (fr_mem f1)"
    using y(3) k(3) by (cases r) auto
  then show ?thesis using k(1,2) y(1) ops_to_trans [OF k(1) y(2)] by (auto simp: gas_spec_def gas_kept_def)
qed

lemma gasExtCodeCopyEIP2929_ok: "gas_ok eip True (\<lambda>_. 0) 4 gasExtCodeCopyEIP2929"
proof (rule gas_okI)
  fix i ms f
  assume a: "frame_ok i f" "4 \<le> length (fr_stack f)"
  have i0: "in_tx (in_be i) (fr_state f)" using a(1) by (simp add: frame_ok_def)
  have m: "gas_spec True i (\<lambda>_. 0) ms f (memoryCopierGas 3 i ms f)"
    using memoryCopierGas_ok [of False 3] a by (simp add: gas_ok_def)
  show "gas_spec True i (\<lambda>_. 0) ms f (gasExtCodeCopyEIP2929 i ms f)"
  proof (rule gas_spec_then [OF m])
    fix p
    assume "memoryCopierGas 3 i ms f = Inl p"
    then show "gasExtCodeCopyEIP2929 i ms f = Inl p" by (simp add: gasExtCodeCopyEIP2929_def)
  next
    fix r f1
    assume x: "memoryCopierGas 3 i ms f = Inr (r, f1)"
    have o1: "ops_to (in_be i) (fr_state f) (fr_state f1)" "fr_stack f1 = fr_stack f"
      using m x by (auto simp: gas_spec_def gas_kept_def)
    have b: "0 < length (fr_stack f1)" unfolding o1(2) using a(2) by linarith
    note o2 = add_address_ops [OF ops_to_in_tx [OF o1(1) i0], of "Bytes20 (fr_stack f1 ! 0)"]
    let ?P = "\<lambda>r' s. gasExtCodeCopyEIP2929 i ms f = Inr (r', f1\<lparr>fr_state := s\<rparr>) \<and>
        ops_to (in_be i) (fr_state f1) s \<and> (\<forall>e. r = Inl e \<longrightarrow> (\<exists>e'. r' = Inl e'))"
    show "\<exists>r' s. ?P r' s"
    proof (cases r)
      case (Inl e)
      then have "?P (Inl e) (fr_state f1)" using x by (simp add: gasExtCodeCopyEIP2929_def)
      then show ?thesis by blast
    next
      case (Inr g)
      then have "?P (add_gas g (ColdAccountAccessCostEIP2929 - WarmStorageReadCostEIP2929))
            (AddAddressToAccessList (Bytes20 (fr_stack f1 ! 0)) (fr_state f1)) \<or> ?P (Inr g) (fr_state f1)"
        using x b o2 by (auto simp: gasExtCodeCopyEIP2929_def)
      then show ?thesis by blast
    qed
  qed
qed


lemma funds_empty_frame:
  assumes "funds_empty be a f = (b, f1)" "in_tx be (fr_state f)"
  shows "\<exists>s. f1 = f\<lparr>fr_state := s\<rparr> \<and> ops_to be (fr_state f) s"
proof -
  let ?s1 = "snd (Empty be a (fr_state f))"
  have o1: "ops_to be (fr_state f) ?s1" using state_reads(5) [OF assms(2)] .
  have o2: "ops_to be (fr_state f) (snd (GetBalance be (fr_self f) ?s1))"
    using ops_to_trans [OF o1 state_reads(1) [OF ops_to_in_tx [OF o1 assms(2)]]] .
  have "f1 = f\<lparr>fr_state := ?s1\<rparr> \<or> f1 = f\<lparr>fr_state := snd (GetBalance be (fr_self f) ?s1)\<rparr>"
    using assms(1) by (auto simp: funds_empty_def on_state_def Let_def case_prod_beta split: if_splits)
  then show ?thesis using o1 o2 by blast
qed

lemma suicide_refund_frame:
  assumes "in_tx be (fr_state f)"
  shows "\<exists>s. suicide_refund be f = f\<lparr>fr_state := s\<rparr> \<and> ops_to be (fr_state f) s"
proof -
  let ?s1 = "snd (HasSuicided be (fr_self f) (fr_state f))"
  have o1: "ops_to be (fr_state f) ?s1" using state_reads(6) [OF assms] .
  have o2: "ops_to be (fr_state f) (AddRefund SelfdestructRefundGas ?s1)"
    using ops_to_trans [OF o1 state_writes(1) [OF ops_to_in_tx [OF o1 assms]]] .
  have "suicide_refund be f = f\<lparr>fr_state := ?s1\<rparr> \<or> suicide_refund be f = f\<lparr>fr_state := AddRefund SelfdestructRefundGas ?s1\<rparr>"
    by (simp add: suicide_refund_def on_state_def Let_def case_prod_beta)
  then show ?thesis using o1 o2 by blast
qed

text \<open>A chain of changes of the state of a frame.\<close>

lemma state_chain:
  assumes "in_tx be (fr_state f)" "\<exists>s. f1 = f\<lparr>fr_state := s\<rparr> \<and> ops_to be (fr_state f) s"
    and "\<And>s. f1 = f\<lparr>fr_state := s\<rparr> \<Longrightarrow> in_tx be (fr_state f1) \<Longrightarrow> \<exists>s'. f2 = f1\<lparr>fr_state := s'\<rparr> \<and> ops_to be (fr_state f1) s'"
  shows "\<exists>s. f2 = f\<lparr>fr_state := s\<rparr> \<and> ops_to be (fr_state f) s"
proof -
  obtain s where s: "f1 = f\<lparr>fr_state := s\<rparr>" "ops_to be (fr_state f) s" using assms(2) by blast
  obtain s' where "f2 = f1\<lparr>fr_state := s'\<rparr>" "ops_to be s s'"
    using assms(3) [OF s(1)] ops_to_in_tx [OF s(2) assms(1)] s(1) by auto
  then show ?thesis using s ops_to_trans [OF s(2)] by auto
qed

lemma gas_spec_state0:
  assumes "\<exists>s. f1 = f\<lparr>fr_state := s\<rparr> \<and> ops_to (in_be i) (fr_state f) s"
  shows "gas_spec False i (\<lambda>_. 0) ms f (Inr (r, f1))"
  using assms gas_spec_state [where ext = "\<lambda>_. 0"] by fastforce

lemma makeSelfdestructGasFn_ok: "gas_ok eip False (\<lambda>_. 0) 1 (makeSelfdestructGasFn b)"
proof (rule gas_okI)
  fix i ms f
  assume a: "frame_ok i f" "1 \<le> length (fr_stack f)"
  have b: "0 < length (fr_stack f)" using a(2) by linarith
  let ?a = "Bytes20 (fr_stack f ! 0)"
  have i0: "in_tx (in_be i) (fr_state f)" using a(1) by (simp add: frame_ok_def)
  define f1 where "f1 = (if \<not> AddressInAccessList ?a (fr_state f) then f\<lparr>fr_state := AddAddressToAccessList ?a (fr_state f)\<rparr> else f)"
  have "f1 = f\<lparr>fr_state := AddAddressToAccessList ?a (fr_state f)\<rparr> \<or> f1 = f\<lparr>fr_state := fr_state f\<rparr>" by (simp add: f1_def)
  then have e1: "\<exists>s. f1 = f\<lparr>fr_state := s\<rparr> \<and> ops_to (in_be i) (fr_state f) s"
    using add_address_ops [OF i0, of ?a] ops_to_refl by blast
  obtain new f2 where f2: "funds_empty (in_be i) ?a f1 = (new, f2)" by fastforce
  have e2: "\<exists>s. f2 = f\<lparr>fr_state := s\<rparr> \<and> ops_to (in_be i) (fr_state f) s"
    by (rule state_chain [OF i0 e1]) (rule funds_empty_frame [OF f2])
  have e3: "\<exists>s. suicide_refund (in_be i) f2 = f\<lparr>fr_state := s\<rparr> \<and> ops_to (in_be i) (fr_state f) s"
    by (rule state_chain [OF i0 e2]) (rule suicide_refund_frame)
  show "gas_spec False i (\<lambda>_. 0) ms f (makeSelfdestructGasFn b i ms f)"
    using b gas_spec_state0 [OF e2] gas_spec_state0 [OF e3]
    by (auto simp: makeSelfdestructGasFn_def f1_def [symmetric] f2 Let_def simp del: not_None_eq)
qed

lemma gasSelfdestruct_ok: "gas_ok eip False (\<lambda>_. 0) 1 gasSelfdestruct"
proof (rule gas_okI)
  fix i ms f
  assume a: "frame_ok i f" "1 \<le> length (fr_stack f)"
  have b: "0 < length (fr_stack f)" using a(2) by linarith
  let ?a = "Bytes20 (fr_stack f ! 0)"
  have i0: "in_tx (in_be i) (fr_state f)" using a(1) by (simp add: frame_ok_def)
  define new where "new = (if r_IsEIP158 (in_rules i) then funds_empty (in_be i) ?a f
      else (let (ex, f') = on_state (Exist (in_be i) ?a) f in (\<not> ex, f')))"
  have e1: "\<exists>s. snd new = f\<lparr>fr_state := s\<rparr> \<and> ops_to (in_be i) (fr_state f) s"
  proof (cases "r_IsEIP158 (in_rules i)")
    case True
    then show ?thesis using funds_empty_frame [OF prod.collapse [symmetric] i0] by (simp add: new_def)
  next
    case False
    then have "snd new = f\<lparr>fr_state := snd (Exist (in_be i) ?a (fr_state f))\<rparr>"
      by (simp add: new_def on_state_def Let_def case_prod_beta)
    then show ?thesis using state_reads(4) [OF i0] by blast
  qed
  have e2: "\<exists>s. suicide_refund (in_be i) (snd new) = f\<lparr>fr_state := s\<rparr> \<and> ops_to (in_be i) (fr_state f) s"
    by (rule state_chain [OF i0 e1]) (rule suicide_refund_frame)
  show "gas_spec False i (\<lambda>_. 0) ms f (gasSelfdestruct i ms f)"
    using b gas_spec_state0 [OF e2] gas_spec_state0 [OF suicide_refund_frame [OF i0]]
    by (simp add: gasSelfdestruct_def new_def [symmetric] Let_def case_prod_beta)
qed


subsection \<open>Calls\<close>

text \<open>What the callee gets: the gas of the 63/64 rule and, for a call with value, the stipend.\<close>

definition callee_gas :: "bool \<Rightarrow> frame \<Rightarrow> nat" where
  "callee_gas valued f = unat (fr_callGasTemp f) + (if valued \<and> fr_stack f ! 2 \<noteq> 0 then 2300 else 0)"

lemma sixty_three: 
  fixes x :: u64
  shows "unat (x - x div 64) \<le> 2 ^ 64 - 2 ^ 58"
proof -
  have "x div 64 \<le> x" by (simp add: word_le_nat_alt unat_div)
  then have e: "unat (x - x div 64) = unat x - unat x div 64" by (simp add: unat_sub unat_div)
  have "unat x < 2 ^ 64" using unsigned_less [of x] by simp
  then have "unat x div 64 < 2 ^ 58" by (simp add: less_mult_imp_div_less)
  then have "63 * (unat x div 64) + unat x mod 64 \<le> 63 * 2 ^ 58" using mod_less_divisor [of 64 "unat x"] by simp
  moreover have "unat x - unat x div 64 = 63 * (unat x div 64) + unat x mod 64" using mult_div_mod_eq [of 64 "unat x"] by linarith
  ultimately show ?thesis using e by simp
qed

lemma callGas_spec:
  assumes "callGas eip avail base cost = Inr temp"
  shows "eip \<Longrightarrow> unat temp \<le> 2 ^ 64 - 2 ^ 58"
  using assms sixty_three [of "avail - base"] by (auto simp: callGas_def Let_def word_less_nat_alt split: if_splits)

lemma call_cost_spec:
  assumes "0 < length (fr_stack f)" "unat gas < 2 ^ 57"
  shows "\<exists>r t. call_cost i gas f = Inr (r, f\<lparr>fr_callGasTemp := t\<rparr>) \<and>
    (\<forall>c. r = Inr c \<longrightarrow> unat c = unat gas + unat t \<and> (r_IsEIP150 (in_rules i) \<longrightarrow> unat c < 2 ^ 64 - 2 ^ 56))"
proof (cases "callGas (r_IsEIP150 (in_rules i)) (fr_gas f) gas (fr_stack f ! 0)")
  case (Inl e)
  then show ?thesis using assms(1) by (auto simp: call_cost_def)
next
  case (Inr t)
  have "unat c = unat gas + unat t \<and> (r_IsEIP150 (in_rules i) \<longrightarrow> unat c < 2 ^ 64 - 2 ^ 56)" if "add_gas gas t = Inr c" for c
    using add_gas_Inr [OF that] callGas_spec [OF Inr] assms(2) by auto
  then show ?thesis using assms(1) Inr by (auto simp: call_cost_def)
qed

text \<open>The cost of a call: what goes to the callee is paid, and under EIP-150 it is far from the largest integer.\<close>

definition call_spec :: "bool \<Rightarrow> interp \<Rightarrow> u64 \<Rightarrow> frame \<Rightarrow> ((vm_error, u64) result \<times> frame) outcome \<Rightarrow> bool" where
  "call_spec valued i ms f x \<longleftrightarrow> gas_spec True i (callee_gas valued) ms f x \<and>
    (\<forall>c f1. x = Inr (Inr c, f1) \<longrightarrow> r_IsEIP150 (in_rules i) \<longrightarrow> unat c < 2 ^ 64 - 2 ^ 56)"

lemma charged_call:
  assumes f1: "f1 = f\<lparr>fr_state := s\<rparr>" "ops_to (in_be i) (fr_state f) s"
    and m: "frame_ok i f1" "memory_fee ms f1 = (r, f2)"
    and st: "0 < length (fr_stack f)" and g: "\<And>g. rbind r h = Inr g \<Longrightarrow> unat g < 2 ^ 57 \<and> (valued \<longrightarrow> fr_stack f ! 2 \<noteq> 0 \<longrightarrow> 2300 \<le> unat g)"
    and x: "x = (case rbind r h of Inl e \<Rightarrow> Inr (Inl e, f2) | Inr g \<Rightarrow> call_cost i g f2)"
  shows "call_spec valued i ms f x"
proof -
  note mf = memory_fee_spec [OF m]
  have f2: "ops_to (in_be i) (fr_state f) (fr_state f2)" "gas_kept f f2" "fr_contract f2 = fr_contract f" "fr_stack f2 = fr_stack f"
    using mf(2,3,4) f1 arg_cong [OF mf(1), of fr_contract] arg_cong [OF mf(1), of fr_stack] by (auto simp: gas_kept_def)
  show ?thesis
  proof (cases "rbind r h")
    case (Inl e)
    then show ?thesis using f2 by (simp add: x call_spec_def gas_spec_error)
  next
    case (Inr g)
    have gb: "unat g < 2 ^ 57" "valued \<longrightarrow> fr_stack f ! 2 \<noteq> 0 \<longrightarrow> 2300 \<le> unat g" using assms(6) [OF Inr] by blast+
    have "charged (unat ms) (fr_mem f2)" using mf(5) Inr by (auto simp: rbind_Inr_iff)
    moreover obtain rr t where c: "call_cost i g f2 = Inr (rr, f2\<lparr>fr_callGasTemp := t\<rparr>)"
      "\<forall>c. rr = Inr c \<longrightarrow> unat c = unat g + unat t \<and> (r_IsEIP150 (in_rules i) \<longrightarrow> unat c < 2 ^ 64 - 2 ^ 56)"
      using call_cost_spec [of f2 g i] st gb(1) by (auto simp: f2(4))
    ultimately show ?thesis
      using f2 gb(2) Inr by (auto simp: x call_spec_def gas_spec_def gas_kept_def callee_gas_def)
  qed
qed

lemma with_memory_call:
  assumes f1: "f1 = f\<lparr>fr_state := s\<rparr>" "ops_to (in_be i) (fr_state f) s" and ok: "frame_ok i f"
    and st: "0 < length (fr_stack f)" and g: "unat gas \<le> 50000" "valued \<longrightarrow> fr_stack f ! 2 \<noteq> 0 \<longrightarrow> 2300 \<le> unat gas"
  shows "call_spec valued i ms f (with_memory gas i ms f1)"
proof -
  obtain r f2 where m: "memory_fee ms f1 = (r, f2)" by fastforce
  have ok1: "frame_ok i f1" using ok ops_to_in_tx [OF f1(2)] by (simp add: frame_ok_def f1(1))
  have b: "unat c = unat gas + unat g0 \<and> unat c < 2 ^ 57" if "r = Inr g0" "add_gas gas g0 = Inr c" for g0 c
    using add_gas_Inr [OF that(2)] memory_fee_spec(5) [OF ok1 m that(1)] g(1) by auto
  have "unat c < 2 ^ 57 \<and> (valued \<longrightarrow> fr_stack f ! 2 \<noteq> 0 \<longrightarrow> 2300 \<le> unat c)" if h: "rbind r (add_gas gas) = Inr c" for c
  proof -
    obtain g0 where "r = Inr g0" "add_gas gas g0 = Inr c" using h by (auto simp: rbind_Inr_iff)
    then show ?thesis using b [of g0 c] g(2) by auto
  qed
  then show ?thesis
    by (rule charged_call [OF f1 ok1 m st, where h = "add_gas gas"]) (simp_all add: with_memory_def m)
qed

lemma gasDelegateCall_call: "frame_ok i f \<Longrightarrow> 0 < length (fr_stack f) \<Longrightarrow> call_spec False i ms f (gasDelegateCall i ms f)"
proof -
  assume a: "frame_ok i f" "0 < length (fr_stack f)"
  obtain r f2 where m: "memory_fee ms f = (r, f2)" by fastforce
  have "unat g0 < 2 ^ 57" if "r = Inr g0" for g0 using memory_fee_spec(5) [OF a(1) m that] by simp
  then show ?thesis
    by (intro charged_call [OF _ ops_to_refl a(1) m a(2), where h = Inr])
      (auto simp: gasDelegateCall_def m rbind_Inr_iff split: sum.splits)
qed

lemma gasStaticCall_call: "frame_ok i f \<Longrightarrow> 0 < length (fr_stack f) \<Longrightarrow> call_spec False i ms f (gasStaticCall i ms f)"
  using gasDelegateCall_call by (simp add: gasStaticCall_def gasDelegateCall_def)

lemma gasCallCode_call: "frame_ok i f \<Longrightarrow> 7 \<le> length (fr_stack f) \<Longrightarrow> call_spec True i ms f (gasCallCode i ms f)"
proof -
  assume a: "frame_ok i f" "7 \<le> length (fr_stack f)"
  have b: "0 < length (fr_stack f)" "2 < length (fr_stack f)" using a(2) by linarith+
  have "call_spec True i ms f (with_memory (if fr_stack f ! 2 \<noteq> 0 then CallValueTransferGas else 0) i ms f)"
    by (rule with_memory_call [OF _ ops_to_refl a(1) b(1)]) (simp_all add: CallValueTransferGas_def)
  then show ?thesis using b by (simp add: gasCallCode_def)
qed

lemma gasCall_call: "frame_ok i f \<Longrightarrow> 7 \<le> length (fr_stack f) \<Longrightarrow> call_spec True i ms f (gasCall i ms f)"
proof -
  assume a: "frame_ok i f" "7 \<le> length (fr_stack f)"
  have b: "0 < length (fr_stack f)" "1 < length (fr_stack f)" "2 < length (fr_stack f)" using a(2) by linarith+
  let ?a = "Bytes20 (fr_stack f ! 1)" and ?v = "fr_stack f ! 2 \<noteq> 0"
  have i0: "in_tx (in_be i) (fr_state f)" using a(1) by (simp add: frame_ok_def)
  define n where "n = (if r_IsEIP158 (in_rules i) then (if ?v then on_state (Empty (in_be i) ?a) f else (False, f))
             else (let (ex, f') = on_state (Exist (in_be i) ?a) f in (\<not> ex, f')))"
  obtain new f1 where nn: "n = (new, f1)" by fastforce
  have "snd n = f\<lparr>fr_state := snd (Empty (in_be i) ?a (fr_state f))\<rparr> \<or> snd n = f\<lparr>fr_state := fr_state f\<rparr> \<or>
      snd n = f\<lparr>fr_state := snd (Exist (in_be i) ?a (fr_state f))\<rparr>"
    by (simp add: n_def on_state_def Let_def case_prod_beta)
  then obtain s where s: "snd n = f\<lparr>fr_state := s\<rparr>" "ops_to (in_be i) (fr_state f) s"
    using state_reads(4,5) [OF i0, of ?a] ops_to_refl [of "in_be i" "fr_state f"] by blast
  have "call_spec True i ms f (with_memory ((if fst n then CallNewAccountGas else 0) + (if ?v then CallValueTransferGas else 0)) i ms (snd n))"
    by (rule with_memory_call [OF s a(1) b(1)]) (simp_all add: gas_consts)
  then have "call_spec True i ms f (let (new, f1) = n; gas = (if new then CallNewAccountGas else 0) + (if ?v then CallValueTransferGas else 0)
      in with_memory gas i ms f1)" by (simp add: nn Let_def)
  then show ?thesis unfolding gasCall_def fr_Back_ok [OF b(2)] fr_Back_ok [OF b(3)] rbind_simps n_def Let_def .
qed


lemma call_specD: "call_spec v i ms f x \<Longrightarrow> gas_spec True i (callee_gas v) ms f x"
  by (simp add: call_spec_def)

lemma fr_UseGas_frame:
  assumes "fr_UseGas g f = (ok, f1)"
  shows "f1 = (if g \<le> fr_gas f then put_gas (fr_gas f - g) f else f)" "ok = (g \<le> fr_gas f)"
  using assms by (auto simp: fr_UseGas_def UseGas_def put_gas_def Let_def not_le split: if_splits)

lemma gas_kept_trans: "gas_kept f g \<Longrightarrow> gas_kept g h \<Longrightarrow> gas_kept f h"
proof -
  assume a: "gas_kept f g" "gas_kept g h"
  have "fr_contract h = (fr_contract g)\<lparr>ct_Gas := fr_gas h\<rparr>" using a(2) by (simp add: gas_kept_def)
  also have "fr_contract g = (fr_contract f)\<lparr>ct_Gas := fr_gas g\<rparr>" using a(1) by (simp add: gas_kept_def)
  finally have "fr_contract h = (fr_contract f)\<lparr>ct_Gas := fr_gas h\<rparr>" by simp
  then show ?thesis using a unfolding gas_kept_def by simp
qed

lemma call_variant:
  assumes old: "\<And>i ms f. frame_ok i f \<Longrightarrow> n \<le> length (fr_stack f) \<Longrightarrow> call_spec v i ms f (g i ms f)" and n: "2 \<le> n"
  shows "gas_ok True True (callee_gas v) n (makeCallVariantGasCallEIP2929 g)"
  unfolding gas_ok_def
proof (intro allI impI)
  fix i ms f
  assume a: "frame_ok i f" "True \<longrightarrow> r_IsEIP150 (in_rules i)" "n \<le> length (fr_stack f)"
  have b: "1 < length (fr_stack f)" using a(3) n by linarith
  let ?a = "Bytes20 (fr_stack f ! 1)"
  have i0: "in_tx (in_be i) (fr_state f)" using a(1) by (simp add: frame_ok_def)
  note o1 = add_address_ops [OF i0, of ?a]
  let ?f1 = "f\<lparr>fr_state := AddAddressToAccessList ?a (fr_state f)\<rparr>"
  define cold where "cold = ColdAccountAccessCostEIP2929 - WarmStorageReadCostEIP2929"
  have cold: "unat cold = 2500" by (simp add: cold_def gas_consts)
  obtain ok f2 where u: "fr_UseGas cold ?f1 = (ok, f2)" by fastforce
  note uf = fr_UseGas_frame [OF u]
  consider (warm) "AddressInAccessList ?a (fr_state f)" | (out) "\<not> AddressInAccessList ?a (fr_state f)" "\<not> ok"
    | (paid) "\<not> AddressInAccessList ?a (fr_state f)" ok by blast
  then show "gas_spec True i (callee_gas v) ms f (makeCallVariantGasCallEIP2929 g i ms f)"
  proof cases
    case warm
    then show ?thesis using call_specD [OF old [OF a(1,3)]] b by (simp add: makeCallVariantGasCallEIP2929_def)
  next
    case out
    then have "gas_spec True i (callee_gas v) ms f (Inr (Inl ErrOutOfGas, f2))"
      using uf o1 by (intro gas_spec_error) (auto simp: gas_kept_def)
    then show ?thesis using out b u by (simp add: makeCallVariantGasCallEIP2929_def Let_def cold_def)
  next
    case paid
    have f2: "f2 = put_gas (fr_gas f - cold) ?f1" "cold \<le> fr_gas f" using paid uf by (auto simp: put_gas_def)
    have g2: "unat (fr_gas f2) = unat (fr_gas f) - 2500" "2500 \<le> unat (fr_gas f)"
      using f2 cold by (simp_all add: put_gas_def unat_sub word_le_nat_alt)
    have k2: "fr_state f2 = AddAddressToAccessList ?a (fr_state f)" "fr_stack f2 = fr_stack f" "fr_mem f2 = fr_mem f" "gas_kept f f2"
      using f2(1) g2(1) by (auto simp: put_gas_def gas_kept_def)
    have "frame_ok i f2" using a(1) k2 ops_to_in_tx [OF o1 i0] by (simp add: frame_ok_def)
    then have s: "call_spec v i ms f2 (g i ms f2)" using old a(3) k2(2) by simp
    have e: "makeCallVariantGasCallEIP2929 g i ms f = rbind (g i ms f2) (\<lambda>(r, f3).
        case r of Inl e \<Rightarrow> Inr (Inl e, f3) | Inr gas \<Rightarrow> Inr (Inr (gas + cold), put_gas (fr_gas f3 + cold) f3))"
      using paid b u unfolding cold_def by (simp add: makeCallVariantGasCallEIP2929_def Let_def)
    show ?thesis
    proof (cases "g i ms f2")
      case (Inl p)
      then show ?thesis using s by (simp add: e call_spec_def gas_spec_def)
    next
      case (Inr x)
      obtain r f3 where x: "x = (r, f3)" by fastforce
      have k3: "ops_to (in_be i) (fr_state f) (fr_state f3)" "gas_kept f f3"
        using s Inr x gas_kept_trans [OF k2(4)] ops_to_trans [OF o1] by (auto simp: call_spec_def gas_spec_def k2(1))
      show ?thesis
      proof (cases r)
        case (Inl er)
        then show ?thesis using Inr x k3 by (simp add: e gas_spec_error)
      next
        case (Inr c)
        have c: "unat c < 2 ^ 64 - 2 ^ 56" "callee_gas v f3 \<le> unat c" "fr_contract f3 = fr_contract f2" "charged (unat ms) (fr_mem f3)"
          using s \<open>g i ms f2 = Inr x\<close> x Inr a(2) by (auto simp: call_spec_def gas_spec_def)
        have "unat (c + cold) = unat c + 2500" using c(1) cold by (subst unat_small_add) simp_all
        then have "callee_gas v f3 \<le> unat (c + cold)" using c(2) by simp
        moreover have "fr_gas f3 + cold = fr_gas f" using c(3) f2(1) by (simp add: put_gas_def)
        then have "fr_contract (put_gas (fr_gas f3 + cold) f3) = fr_contract f"
          using c(3) f2(1) by (simp add: put_gas_def)
        moreover have "callee_gas v (put_gas y f3) = callee_gas v f3" "fr_mem (put_gas y f3) = fr_mem f3"
          "fr_state (put_gas y f3) = fr_state f3" for y by (simp_all add: callee_gas_def put_gas_def)
        moreover have "gas_kept f (put_gas (fr_gas f3 + cold) f3)"
          using k3(2) calculation(2) by (simp add: gas_kept_def put_gas_def)
        ultimately have "gas_spec True i (callee_gas v) ms f (Inr (Inr (c + cold), put_gas (fr_gas f3 + cold) f3))"
          using k3(1) c(4) by (simp add: gas_spec_def)
        then show ?thesis using \<open>g i ms f2 = Inr x\<close> x Inr by (simp add: e)
      qed
    qed
  qed
qed

lemma call_gas_ok:
  "gas_ok eip True (callee_gas True) 7 gasCall" "gas_ok eip True (callee_gas True) 7 gasCallCode"
  "gas_ok eip True (callee_gas False) 6 gasDelegateCall" "gas_ok eip True (callee_gas False) 6 gasStaticCall"
  by (auto intro!: gas_okI call_specD gasCall_call gasCallCode_call gasDelegateCall_call gasStaticCall_call)

lemma call2929_gas_ok:
  "gas_ok True True (callee_gas True) 7 gasCallEIP2929" "gas_ok True True (callee_gas True) 7 gasCallCodeEIP2929"
  "gas_ok True True (callee_gas False) 6 gasDelegateCallEIP2929" "gas_ok True True (callee_gas False) 6 gasStaticCallEIP2929"
  unfolding gasCallEIP2929_def gasCallCodeEIP2929_def gasDelegateCallEIP2929_def gasStaticCallEIP2929_def
  by (intro call_variant; (rule gasCall_call gasCallCode_call | rule gasDelegateCall_call gasStaticCall_call, assumption, linarith | simp); assumption)+

end
