(* ===== verification/Vm_Steps.thy ===== *)
theory Vm_Steps
  imports Vm_Safety
begin

text \<open>
  Safety of the instructions: an instruction whose stack items are there and whose memory is paid for and allocated
  stays within stack, memory and code, acts on the state through its operations, and adds to the gas no more than
  what went to a callee.
\<close>


subsection \<open>Contracts of instructions\<close>

definition calls_ok :: "interp \<Rightarrow> bool" where
  "calls_ok i \<longleftrightarrow> interp_ok (in_be i) (in_env i) (in_evm i) \<and> create_reads (in_be i) (in_evm i)"

definition covered :: "memorySizeFunc option \<Rightarrow> frame \<Rightarrow> bool" where
  "covered msf f \<longleftrightarrow>
    (\<forall>m. msf = Some m \<longrightarrow> (\<exists>sz. m (fr_stack f) = Some (sz, False) \<and> unat sz \<le> length (mem_store (fr_mem f))))"

definition exec_spec :: "interp \<Rightarrow> frame \<Rightarrow> nat \<Rightarrow> nat \<Rightarrow> nat \<Rightarrow> (bytes \<times> vm_error option \<times> frame) outcome \<Rightarrow> bool" where
  "exec_spec i f ext pops push x \<longleftrightarrow>
    (\<forall>p. x = Inl p \<longrightarrow> p \<in> soft_panics) \<and>
    (\<forall>ret err f'. x = Inr (ret, err, f') \<longrightarrow> ops_to (in_be i) (fr_state f) (fr_state f') \<and> mem_ok (fr_mem f') \<and>
      fr_contract f' = (fr_contract f)\<lparr>ct_Gas := fr_gas f'\<rparr> \<and> unat (fr_gas f') \<le> unat (fr_gas f) + ext \<and>
      (err = None \<longrightarrow> length (fr_stack f') + pops = length (fr_stack f) + push))"

definition exec_ok :: "byte \<Rightarrow> (frame \<Rightarrow> nat) \<Rightarrow> memorySizeFunc option \<Rightarrow> nat \<Rightarrow> nat \<Rightarrow> executionFunc \<Rightarrow> bool" where
  "exec_ok c ext msf pops push x \<longleftrightarrow>
    (\<forall>i f. frame_ok i f \<longrightarrow> calls_ok i \<longrightarrow> pops \<le> length (fr_stack f) \<longrightarrow> GetOp (ct_Code (fr_contract f)) (fr_pc f) = c \<longrightarrow>
      covered msf f \<longrightarrow> unat (fr_gas f) + ext f < 2 ^ 64 \<longrightarrow> exec_spec i f (ext f) pops push (x i f))"

lemma exec_okI:
  "(\<And>i f. frame_ok i f \<Longrightarrow> calls_ok i \<Longrightarrow> pops \<le> length (fr_stack f) \<Longrightarrow> GetOp (ct_Code (fr_contract f)) (fr_pc f) = c \<Longrightarrow>
     covered msf f \<Longrightarrow> unat (fr_gas f) + ext f < 2 ^ 64 \<Longrightarrow> exec_spec i f (ext f) pops push (x i f)) \<Longrightarrow> exec_ok c ext msf pops push x"
  by (simp add: exec_ok_def)

abbreviation no_ext :: "frame \<Rightarrow> nat" where
  "no_ext \<equiv> \<lambda>_. 0"

text \<open>An instruction that leaves the gas alone.\<close>

lemma exec_spec_quiet:
  assumes "ops_to (in_be i) (fr_state f) (fr_state f')" "mem_ok (fr_mem f')" "fr_contract f' = fr_contract f"
    "err = None \<Longrightarrow> length (fr_stack f') + pops = length (fr_stack f) + push"
  shows "exec_spec i f e pops push (Inr (ret, err, f'))"
  using assms by (simp add: exec_spec_def)

lemma exec_spec_put:
  assumes "ops_to (in_be i) (fr_state f) (fr_state f')" "mem_ok (fr_mem f')" "fr_contract f' = fr_contract f"
    "length st + pops = length (fr_stack f) + push"
  shows "exec_spec i f e pops push (put_stack st f')"
  using assms by (simp add: put_stack_def op_done_def exec_spec_quiet)

lemma frame_okD: "frame_ok i f \<Longrightarrow> in_tx (in_be i) (fr_state f)" "frame_ok i f \<Longrightarrow> mem_ok (fr_mem f)"
  by (simp_all add: frame_ok_def)

lemma pop_cases:
  "Suc 0 \<le> length st \<Longrightarrow> \<exists>x r. st = x # r" "2 \<le> length st \<Longrightarrow> \<exists>x y r. st = x # y # r"
  "3 \<le> length st \<Longrightarrow> \<exists>x y z r. st = x # y # z # r" "4 \<le> length st \<Longrightarrow> \<exists>x y z w r. st = x # y # z # w # r"
  by (auto simp: numeral_eq_Suc Suc_le_length_iff)

lemma stack_ops_ok:
  "exec_ok c no_ext msf 1 1 (op_unary g1)" "exec_ok c no_ext msf 2 1 (op_binary g2)" "exec_ok c no_ext msf 3 1 (op_ternary g3)"
  "exec_ok c no_ext msf 0 1 (op_push g)" "exec_ok c no_ext msf 0 1 (op_push_big gb)" "exec_ok c no_ext msf 1 0 opPop"
  "exec_ok c no_ext msf 0 0 opStop" "exec_ok c no_ext msf 0 0 opJumpdest"
proof -
  show "exec_ok c no_ext msf 1 1 (op_unary g1)" "exec_ok c no_ext msf 2 1 (op_binary g2)" "exec_ok c no_ext msf 3 1 (op_ternary g3)"
    "exec_ok c no_ext msf 1 0 opPop"
    by (auto dest: frame_okD dest!: pop_cases intro!: exec_okI exec_spec_put
        simp: op_unary_def op_binary_def op_ternary_def opPop_def)
  show "exec_ok c no_ext msf 0 1 (op_push g)" "exec_ok c no_ext msf 0 0 opStop" "exec_ok c no_ext msf 0 0 opJumpdest"
    by (auto dest: frame_okD intro!: exec_okI exec_spec_put exec_spec_quiet
        simp: op_push_def opStop_def opJumpdest_def op_done_def)
  show "exec_ok c no_ext msf 0 1 (op_push_big gb)"
  proof (rule exec_okI)
    fix i f
    assume a: "frame_ok i f"
    show "exec_spec i f 0 0 1 (op_push_big gb i f)"
    proof (cases "gb i f")
      case None
      then show ?thesis by (simp add: op_push_big_def exec_spec_def soft_panics_def)
    next
      case (Some b)
      then show ?thesis using frame_okD [OF a] by (simp add: op_push_big_def exec_spec_put)
    qed
  qed
qed


subsection \<open>Memory regions\<close>

definition region :: "hash \<Rightarrow> hash \<Rightarrow> Memory \<Rightarrow> bool" where
  "region off l m \<longleftrightarrow> IsUint64 l \<and> (unat l = 0 \<or> IsUint64 off \<and> unat off + unat l \<le> length (mem_store m))"

lemma unat_Uint64: "IsUint64 x \<Longrightarrow> unat (Uint64 x) = unat x"
  by (simp add: IsUint64_def Uint64_def unsigned_ucast_eq take_bit_nat_eq_self)

lemma sint_small: "unat (x :: u64) < 2 ^ 63 \<Longrightarrow> sint x = int (unat x)"
proof -
  assume "unat x < 2 ^ 63"
  then have "uint x < 2 ^ 63" by (simp add: uint_nat del: of_nat_unat)
  then have "signed_take_bit 63 (uint x) = uint x" by (intro signed_take_bit_int_eq_self) (use uint_ge_0 [of x] in linarith)+
  then show ?thesis by (simp add: sint_uint)
qed

lemma no_wrap: "\<not> (x :: u64) + y < x \<Longrightarrow> unat (x + y) = unat x + unat y"
  using unat_plus_simple [of x y] by (simp add: not_less)

lemma calcMemSize64WithUint_region:
  assumes "calcMemSize64WithUint off l = (v, False)" "l \<noteq> 0"
  shows "IsUint64 off" "unat v = unat off + unat l"
proof -
  show i: "IsUint64 off" using assms by (auto simp: calcMemSize64WithUint_def split: if_splits)
  have "v = Uint64 off + l" "\<not> Uint64 off + l < Uint64 off"
    using assms i by (auto simp: calcMemSize64WithUint_def Let_def)
  then show "unat v = unat off + unat l" using no_wrap [of "Uint64 off" l] unat_Uint64 [OF i] by simp
qed

lemma calcMemSize64_region:
  assumes "calcMemSize64 off l = (v, False)" "unat v \<le> length (mem_store m)"
  shows "region off l m"
proof -
  have l: "IsUint64 l" "calcMemSize64WithUint off (Uint64 l) = (v, False)" using assms(1) by (auto simp: calcMemSize64_def split: if_splits)
  show ?thesis
  proof (cases "Uint64 l = 0")
    case True
    then have "unat l = 0" using unat_Uint64 [OF l(1)] by simp
    then show ?thesis using l(1) by (simp add: region_def)
  next
    case False
    then show ?thesis
      using calcMemSize64WithUint_region [OF l(2)] assms(2) unat_Uint64 [OF l(1)] l(1) by (simp add: region_def)
  qed
qed

lemma covered_at:
  assumes "covered (Some (memory_at i j)) f"
  shows "region (fr_stack f ! i) (fr_stack f ! j) (fr_mem f)"
proof -
  obtain sz where "memory_at i j (fr_stack f) = Some (sz, False)" "unat sz \<le> length (mem_store (fr_mem f))"
    using assms by (auto simp: covered_def)
  then show ?thesis using calcMemSize64_region by (auto simp: memory_at_def split: if_splits)
qed

lemma covered_regions:
  assumes "covered (Some (memory_regions i j k l)) f"
  shows "region (fr_stack f ! i) (fr_stack f ! j) (fr_mem f)" "region (fr_stack f ! k) (fr_stack f ! l) (fr_mem f)"
proof -
  obtain sz where "memory_regions i j k l (fr_stack f) = Some (sz, False)" "unat sz \<le> length (mem_store (fr_mem f))"
    using assms by (auto simp: covered_def)
  then obtain x y where "memory_at i j (fr_stack f) = Some (x, False)" "memory_at k l (fr_stack f) = Some (y, False)"
    "unat x \<le> length (mem_store (fr_mem f))" "unat y \<le> length (mem_store (fr_mem f))"
    by (auto simp: memory_regions_def word_less_nat_alt split: option.splits if_splits)
  then show "region (fr_stack f ! i) (fr_stack f ! j) (fr_mem f)" "region (fr_stack f ! k) (fr_stack f ! l) (fr_mem f)"
    using covered_at [of i j f] covered_at [of k l f] by (simp_all add: covered_def)
qed

lemma covered_word:
  assumes "covered (Some (memory_word w)) f" "fr_stack f = off # st" "w \<noteq> 0"
  shows "IsUint64 off" "unat off + unat w \<le> length (mem_store (fr_mem f))"
proof -
  obtain sz where s: "calcMemSize64WithUint off w = (sz, False)" "unat sz \<le> length (mem_store (fr_mem f))"
    using assms(1,2) by (auto simp: covered_def memory_word_def)
  show "IsUint64 off" "unat off + unat w \<le> length (mem_store (fr_mem f))"
    using calcMemSize64WithUint_region [OF s(1) assms(3)] s(2) by simp_all
qed

lemma mem_okD: "mem_ok m \<Longrightarrow> length (mem_store m) \<le> 32 * max_words" "mem_ok m \<Longrightarrow> unat (mem_Len m) = length (mem_store m)"
  using mem_sizedD by (simp_all add: charged_def)

lemma mem_read_region:
  assumes "region off l m" "mem_ok m"
  shows "\<exists>bs. mem_read off l m = Some bs"
proof (cases "unat l = 0")
  case True
  then have "Uint64 l = 0" using assms(1) unat_Uint64 [of l] by (simp add: region_def unat_eq_0)
  then show ?thesis by (simp add: mem_read_def mem_Get_def)
next
  case False
  then have r: "IsUint64 l" "IsUint64 off" "unat off + unat l \<le> length (mem_store m)" using assms(1) by (auto simp: region_def)
  have b: "length (mem_store m) < 2 ^ 62" using mem_okD(1) [OF assms(2)] by (simp add: max_words_def)
  have "sint (Uint64 off) = int (unat off)" "sint (Uint64 l) = int (unat l)"
    using r b unat_Uint64 [OF r(1)] unat_Uint64 [OF r(2)] sint_small [of "Uint64 off"] sint_small [of "Uint64 l"] by simp_all
  moreover have "nat (int (unat off) + int (unat l)) = unat off + unat l" by (simp del: of_nat_unat flip: of_nat_add)
  ultimately show ?thesis
    using r False unfolding mem_read_def mem_Get_def go_slice_def by (simp del: of_nat_unat)
qed

lemma copy_into_some:
  "i \<le> j \<Longrightarrow> j \<le> length dst \<Longrightarrow> \<exists>st. copy_into dst i j src = Some st \<and> length st = length dst"
  by (simp add: copy_into_def Let_def)

lemma charged_store: "length (mem_store m') = length (mem_store m) \<Longrightarrow> mem_lastGasCost m' = mem_lastGasCost m \<Longrightarrow> charged n m' = charged n m"
  by (simp add: charged_def mem_sized_def mem_words_def)

lemma mem_Set_region:
  assumes "region off l m" "mem_ok m"
  shows "\<exists>m'. mem_Set (Uint64 off) (Uint64 l) v m = Some m' \<and> mem_ok m'"
proof (cases "unat l = 0")
  case True
  then have "Uint64 l = 0" using assms(1) unat_Uint64 [of l] by (simp add: region_def unat_eq_0)
  then show ?thesis using assms(2) by (simp add: mem_Set_def)
next
  case False
  then have r: "IsUint64 l" "IsUint64 off" "unat off + unat l \<le> length (mem_store m)" using assms(1) by (auto simp: region_def)
  have b: "length (mem_store m) < 2 ^ 62" using mem_okD(1) [OF assms(2)] by (simp add: max_words_def)
  note u = unat_Uint64 [OF r(1)] unat_Uint64 [OF r(2)]
  have s: "unat (Uint64 off + Uint64 l) = unat off + unat l" using unat_small_add [of "Uint64 off" "Uint64 l"] u r(3) b by simp
  obtain st where st: "copy_into (mem_store m) (unat (Uint64 off)) (unat (Uint64 off + Uint64 l)) v = Some st"
    "length st = length (mem_store m)" using copy_into_some [of "unat off" "unat off + unat l" "mem_store m" v] r(3) s u by auto
  have "Uint64 l > 0" using False u by (simp add: word_less_nat_alt)
  moreover have "\<not> Uint64 off + Uint64 l > mem_Len m" using s r(3) mem_okD(2) [OF assms(2)] by (simp add: word_less_nat_alt)
  moreover have "mem_ok (m\<lparr>mem_store := st\<rparr>)" using assms(2) st(2) charged_store [of "m\<lparr>mem_store := st\<rparr>" m 0] by simp
  ultimately show ?thesis using st(1) by (simp add: mem_Set_def)
qed

lemma mem_write_region:
  assumes "region off l (fr_mem f)" "mem_ok (fr_mem f)"
  shows "\<exists>m. mem_write off l bs f = Inr (f\<lparr>fr_mem := m\<rparr>) \<and> mem_ok m"
  using mem_Set_region [OF assms, of bs] by (auto simp: mem_write_def or_panic_def)

lemma getData_some:
  assumes "unat sz < 2 ^ 62"
  shows "\<exists>bs. getData data start sz = Some bs"
proof -
  let ?len = "go_len data"
  define st where "st = (if start > ?len then ?len else start)"
  have s: "unat st \<le> unat ?len" by (simp add: st_def word_less_nat_alt not_less)
  have l: "unat ?len < 2 ^ 63" "unat ?len \<le> length data" by (simp_all add: unat_go_len)
  have "unat st + unat sz < 2 ^ 64" using s l(1) assms by simp
  then have e: "unat (st + sz) = unat st + unat sz" by (rule unat_small_add)
  define en where "en = (if st + sz > ?len then ?len else st + sz)"
  have "unat st \<le> unat en" "unat en \<le> length data" using s e l by (auto simp: en_def word_less_nat_alt not_less)
  then show ?thesis unfolding getData_def Let_def st_def [symmetric] en_def [symmetric] by (simp add: go_slice_def)
qed


subsection \<open>Data, memory and storage\<close>

lemma on_state_simp: "on_state g f = (fst (g (fr_state f)), f\<lparr>fr_state := snd (g (fr_state f))\<rparr>)"
  by (simp add: on_state_def Let_def case_prod_beta)

lemma op_account_ok:
  assumes "\<And>be a s. in_tx be s \<Longrightarrow> ops_to be s (snd (g be a s))"
  shows "exec_ok c no_ext msf 1 1 (op_account g)"
  using assms frame_okD
  by (fastforce intro!: exec_okI exec_spec_put dest!: pop_cases simp: op_account_def on_state_simp Let_def)

lemma account_ops_ok:
  "exec_ok c no_ext msf 1 1 opBalance" "exec_ok c no_ext msf 1 1 opExtCodeSize" "exec_ok c no_ext msf 1 1 opExtCodeHash"
  unfolding opBalance_def opExtCodeSize_def opExtCodeHash_def
proof (rule_tac [!] op_account_ok)
  fix be a s
  assume i: "in_tx be s"
  show "ops_to be s (snd (let (b, s') = GetBalance be a s in (word_of_int b, s')))"
    "ops_to be s (snd (let (n, s') = GetCodeSize be a s in (of_nat n, s')))"
    using state_reads(1,10) [OF i, of a] by (simp_all add: Let_def case_prod_beta)
  note o1 = state_reads(5) [OF i, of a]
  show "ops_to be s (snd (let (em, s1) = Empty be a s in if em then (0, s1) else GetCodeHash be a s1))"
    using o1 ops_to_trans [OF o1 state_reads(3) [OF ops_to_in_tx [OF o1 i], of a]] by (simp add: Let_def case_prod_beta)
qed

lemma opSelfBalance_ok: "exec_ok c no_ext msf 0 1 opSelfBalance"
  using frame_okD state_reads(1) by (fastforce intro!: exec_okI exec_spec_put simp: opSelfBalance_def on_state_simp Let_def)

lemma opSload_ok: "exec_ok c no_ext msf 1 1 opSload"
  using frame_okD state_reads(7)
  by (fastforce intro!: exec_okI exec_spec_put dest!: pop_cases simp: opSload_def on_state_simp Let_def)

lemma opSstore_ok: "exec_ok c no_ext msf 2 0 opSstore"
  using frame_okD state_writes(3)
  by (fastforce intro!: exec_okI exec_spec_put dest!: pop_cases simp: opSstore_def)

lemma opSuicide_ok: "exec_ok c no_ext msf 1 0 opSuicide"
proof (rule exec_okI)
  fix i f
  assume a: "frame_ok i f" "1 \<le> length (fr_stack f)"
  obtain x st where st: "fr_stack f = x # st" using a(2) pop_cases(1) by fastforce
  let ?b = "GetBalance (in_be i) (fr_self f) (fr_state f)"
  let ?s2 = "AddBalance (in_be i) (Bytes20 x) (fst ?b) (snd ?b)"
  note i0 = frame_okD(1) [OF a(1)]
  note o1 = state_reads(1) [OF i0, of "fr_self f"]
  note o2 = frame_steps(1) [OF ops_to_in_tx [OF o1 i0], of "Bytes20 x" "fst ?b"]
  note o12 = ops_to_trans [OF o1 o2]
  note o3 = ops_to_trans [OF o12 state_writes(4) [OF ops_to_in_tx [OF o12 i0], of "fr_self f"]]
  show "exec_spec i f 0 1 0 (opSuicide i f)"
    using o3 frame_okD(2) [OF a(1)] st by (auto simp: opSuicide_def on_state_simp Let_def case_prod_beta intro!: exec_spec_put)
qed

lemma opSha3_ok: "exec_ok c no_ext (Some memorySha3) 2 1 opSha3"
proof (rule exec_okI)
  fix i f
  assume a: "frame_ok i f" "2 \<le> length (fr_stack f)" "covered (Some memorySha3) f"
  obtain x y st where st: "fr_stack f = x # y # st" using a(2) pop_cases(2) by blast
  obtain data where d: "mem_read x y (fr_mem f) = Some data"
    using mem_read_region [OF covered_at [OF a(3) [unfolded memorySha3_def]] frame_okD(2) [OF a(1)]] by (auto simp: st)
  show "exec_spec i f 0 2 1 (opSha3 i f)"
    using frame_okD [OF a(1)] state_writes(6) [OF frame_okD(1) [OF a(1)]] st d
    by (auto simp: opSha3_def or_panic_def Let_def intro!: exec_spec_put)
qed

lemma opCallDataLoad_ok: "exec_ok c no_ext msf 1 1 opCallDataLoad"
proof (rule exec_okI)
  fix i f
  assume a: "frame_ok i f" "1 \<le> length (fr_stack f)"
  obtain x st where st: "fr_stack f = x # st" using a(2) pop_cases(1) by fastforce
  obtain data where d: "getData (fr_input f) (Uint64 x) 32 = Some data" using getData_some [of 32] by auto
  show "exec_spec i f 0 1 1 (opCallDataLoad i f)"
    using frame_okD [OF a(1)] st d by (auto simp: opCallDataLoad_def or_panic_def intro!: exec_spec_put)
qed

lemma region_len: "region off l m \<Longrightarrow> mem_ok m \<Longrightarrow> unat (Uint64 l) < 2 ^ 62"
  using mem_okD(1) [of m] unat_Uint64 [of l] by (auto simp: region_def max_words_def)

lemma op_copy_ok: "exec_ok c no_ext (Some (memory_at 0 2)) 3 0 (op_copy src)"
proof (rule exec_okI)
  fix i f
  assume a: "frame_ok i f" "3 \<le> length (fr_stack f)" "covered (Some (memory_at 0 2)) f"
  obtain x y z st where st: "fr_stack f = x # y # z # st" using a(2) pop_cases(3) by blast
  have r: "region x z (fr_mem f)" using covered_at [OF a(3)] by (simp add: st)
  note m = frame_okD(2) [OF a(1)]
  obtain data where d: "getData (src f) (clamp64 y) (Uint64 z) = Some data" using getData_some [OF region_len [OF r m]] by blast
  obtain m' where w: "mem_write x z data f = Inr (f\<lparr>fr_mem := m'\<rparr>)" "mem_ok m'" using mem_write_region [OF r m] by blast
  show "exec_spec i f 0 3 0 (op_copy src i f)"
    using frame_okD(1) [OF a(1)] st d w by (auto simp: op_copy_def or_panic_def intro!: exec_spec_put)
qed

lemma opExtCodeCopy_ok: "exec_ok c no_ext (Some memoryExtCodeCopy) 4 0 opExtCodeCopy"
proof (rule exec_okI)
  fix i f
  assume a: "frame_ok i f" "4 \<le> length (fr_stack f)" "covered (Some memoryExtCodeCopy) f"
  obtain x y z w st where st: "fr_stack f = x # y # z # w # st" using a(2) pop_cases(4) by blast
  have r: "region y w (fr_mem f)" using covered_at [OF a(3) [unfolded memoryExtCodeCopy_def]] by (simp add: st)
  note m = frame_okD(2) [OF a(1)]
  let ?c = "GetCode (in_be i) (Bytes20 x) (fr_state f)"
  let ?f = "f\<lparr>fr_state := snd ?c\<rparr>"
  obtain data where d: "getData (code_bytes (fst ?c)) (clamp64 z) (Uint64 w) = Some data" using getData_some [OF region_len [OF r m]] by blast
  obtain m' where wr: "mem_write y w data ?f = Inr (?f\<lparr>fr_mem := m'\<rparr>)" "mem_ok m'" using mem_write_region [of y w ?f data] r m by auto
  show "exec_spec i f 0 4 0 (opExtCodeCopy i f)"
    using state_reads(9) [OF frame_okD(1) [OF a(1)]] st d wr
    by (auto simp: opExtCodeCopy_def on_state_simp or_panic_def Let_def intro!: exec_spec_put)
qed

lemma exec_spec_fail:
  "frame_ok i f \<Longrightarrow> fr_mem f' = fr_mem f \<Longrightarrow> fr_state f' = fr_state f \<Longrightarrow> fr_contract f' = fr_contract f \<Longrightarrow>
   exec_spec i f e pops push (op_fail er f')"
  using frame_okD by (auto simp: op_fail_def intro!: exec_spec_quiet)

lemma opReturnDataCopy_ok: "exec_ok c no_ext (Some memoryReturnDataCopy) 3 0 opReturnDataCopy"
proof (rule exec_okI)
  fix i f
  assume a: "frame_ok i f" "3 \<le> length (fr_stack f)" "covered (Some memoryReturnDataCopy) f"
  obtain x y z st where st: "fr_stack f = x # y # z # st" using a(2) pop_cases(3) by blast
  let ?f = "f\<lparr>fr_stack := st\<rparr>" and ?e = "y + z"
  have r: "region x z (fr_mem f)" using covered_at [OF a(3) [unfolded memoryReturnDataCopy_def]] by (simp add: st)
  note m = frame_okD(2) [OF a(1)]
  have fail: "exec_spec i f 0 3 0 (op_fail ErrReturnDataOutOfBounds ?f)" using exec_spec_fail [OF a(1)] by simp
  show "exec_spec i f 0 3 0 (opReturnDataCopy i f)"
  proof (cases "\<not> IsUint64 y \<or> \<not> IsUint64 ?e \<or> go_len (fr_returnData f) < Uint64 ?e")
    case True
    then show ?thesis using fail st by (auto simp: opReturnDataCopy_def Let_def)
  next
    case False
    have z: "IsUint64 z" using r by (simp add: region_def)
    have s: "unat ?e = unat y + unat z" using False z by (intro unat_add_lem [THEN iffD1]) (simp add: IsUint64_def)
    have le: "unat (Uint64 y) \<le> unat (Uint64 ?e)" "unat (Uint64 ?e) \<le> length (fr_returnData f)"
      using False s unat_Uint64 [of y] unat_Uint64 [of ?e] unat_go_len [of "fr_returnData f"] by (auto simp: word_less_nat_alt not_less)
    then obtain data where d: "go_slice (fr_returnData f) (unat (Uint64 y)) (unat (Uint64 ?e)) = Some data" by (simp add: go_slice_def)
    obtain m' where w: "mem_write x z data ?f = Inr (?f\<lparr>fr_mem := m'\<rparr>)" "mem_ok m'" using mem_write_region [of x z ?f data] r m by auto
    have "opReturnDataCopy i f = op_done (?f\<lparr>fr_mem := m'\<rparr>)" using False st d w(1) by (simp add: opReturnDataCopy_def Let_def or_panic_def)
    then show ?thesis using frame_okD(1) [OF a(1)] w(2) st by (auto simp: op_done_def intro!: exec_spec_quiet)
  qed
qed

lemma opBlockhash_ok: "exec_ok c no_ext msf 1 1 opBlockhash"
proof (rule exec_okI)
  fix i f
  assume a: "frame_ok i f" "1 \<le> length (fr_stack f)"
  obtain x st where st: "fr_stack f = x # st" using a(2) pop_cases(1) by fastforce
  have p: "exec_spec i f 0 1 1 (put_stack (h # st) f)" for h using frame_okD [OF a(1)] st by (intro exec_spec_put) simp_all
  show "exec_spec i f 0 1 1 (opBlockhash i f)"
  proof (cases "bc_GetHash (evm_Context (in_evm i)) (Uint64 x)")
    case None
    have "exec_spec i f 0 1 1 (Inl NilFault)" by (simp add: exec_spec_def soft_panics_def)
    then show ?thesis using p st None by (auto simp: opBlockhash_def Let_def or_panic_def)
  next
    case (Some h)
    then show ?thesis using p st by (auto simp: opBlockhash_def Let_def or_panic_def)
  qed
qed


subsection \<open>Memory words, jumps, pushes and logs\<close>

lemma opMload_ok: "exec_ok c no_ext (Some memoryMLoad) 1 1 opMload"
proof (rule exec_okI)
  fix i f
  assume a: "frame_ok i f" "1 \<le> length (fr_stack f)" "covered (Some memoryMLoad) f"
  obtain x st where st: "fr_stack f = x # st" using a(2) pop_cases(1) by fastforce
  note w = covered_word [OF a(3) [unfolded memoryMLoad_def] st]
  have "length (mem_store (fr_mem f)) < 2 ^ 62" using mem_okD(1) [OF frame_okD(2) [OF a(1)]] by (simp add: max_words_def)
  then have u: "sint (Uint64 x) = int (unat x)" using w sint_small [of "Uint64 x"] unat_Uint64 [of x] by simp
  have "nat (int (unat x) + 32) = unat x + 32" by (simp add: nat_add_distrib)
  then have "\<exists>bs. mem_Get (sint (Uint64 x)) 32 (fr_mem f) = Some bs"
    using w u unfolding mem_Get_def go_slice_def by (simp del: of_nat_unat)
  then obtain bs where "mem_Get (sint (Uint64 x)) 32 (fr_mem f) = Some bs" by blast
  then show "exec_spec i f 0 1 1 (opMload i f)"
    using frame_okD [OF a(1)] st by (auto simp: opMload_def or_panic_def intro!: exec_spec_put)
qed

lemma opMstore_ok: "exec_ok c no_ext (Some memoryMStore) 2 0 opMstore"
proof (rule exec_okI)
  fix i f
  assume a: "frame_ok i f" "2 \<le> length (fr_stack f)" "covered (Some memoryMStore) f"
  obtain x y st where st: "fr_stack f = x # y # st" using a(2) pop_cases(2) by blast
  let ?m = "fr_mem f"
  note w = covered_word [OF a(3) [unfolded memoryMStore_def] st]
  note m = frame_okD(2) [OF a(1)]
  have b: "length (mem_store ?m) < 2 ^ 62" using mem_okD(1) [OF m] by (simp add: max_words_def)
  have u: "unat (Uint64 x) = unat x" "unat (Uint64 x + 32) = unat x + 32"
    using w b unat_Uint64 [of x] unat_small_add [of "Uint64 x" 32] by simp_all
  have ok: "\<not> Uint64 x + 32 > mem_Len ?m" using w(2) u(2) mem_okD(2) [OF m] by (simp add: word_less_nat_alt)
  obtain s where s: "copy_into (mem_store ?m) (unat (Uint64 x)) (length (mem_store ?m)) (hash_bytes y) = Some s"
    "length s = length (mem_store ?m)" using copy_into_some [of "unat x" "length (mem_store ?m)"] w(2) u(1) by auto
  have "mem_Set32 (Uint64 x) y ?m = Some (?m\<lparr>mem_store := s\<rparr>)" "mem_ok (?m\<lparr>mem_store := s\<rparr>)"
    using ok s m charged_store [of "?m\<lparr>mem_store := s\<rparr>" ?m 0] by (simp_all add: mem_Set32_def)
  then show "exec_spec i f 0 2 0 (opMstore i f)"
    using frame_okD [OF a(1)] st by (auto simp: opMstore_def or_panic_def intro!: exec_spec_put)
qed

lemma opMstore8_ok: "exec_ok c no_ext (Some memoryMStore8) 2 0 opMstore8"
proof (rule exec_okI)
  fix i f
  assume a: "frame_ok i f" "2 \<le> length (fr_stack f)" "covered (Some memoryMStore8) f"
  obtain x y st where st: "fr_stack f = x # y # st" using a(2) pop_cases(2) by blast
  let ?m = "fr_mem f"
  have w: "IsUint64 x" "unat x < length (mem_store ?m)" using covered_word [OF a(3) [unfolded memoryMStore8_def] st] by simp_all
  have "mem_ok (?m\<lparr>mem_store := (mem_store ?m)[k := v]\<rparr>)" for k v
    using frame_okD(2) [OF a(1)] charged_store [of "?m\<lparr>mem_store := (mem_store ?m)[k := v]\<rparr>" ?m 0] by simp
  then show "exec_spec i f 0 2 0 (opMstore8 i f)"
    using frame_okD(1) [OF a(1)] st w unat_Uint64 [OF w(1)] by (auto simp: opMstore8_def Let_def intro!: exec_spec_put)
qed

lemma validJumpdest_some: "\<exists>b. validJumpdest code dest = Some b"
proof (cases "Uint64 dest < go_len code")
  case True
  then have "unat (Uint64 dest) < length code" using unat_go_len [of code] by (simp add: word_less_nat_alt)
  then show ?thesis using isCode_right by (auto simp: validJumpdest_def)
qed (auto simp: validJumpdest_def not_less)

lemma jump_to_spec:
  assumes "frame_ok i f" "fr_mem f' = fr_mem f" "fr_state f' = fr_state f" "fr_contract f' = fr_contract f"
    "length (fr_stack f') + pops = length (fr_stack f) + push"
  shows "exec_spec i f e pops push (jump_to pos f')"
  using validJumpdest_some [of "ct_Code (fr_contract f')" pos] frame_okD [OF assms(1)] assms(2-) exec_spec_fail [OF assms(1-4)]
  by (auto simp: jump_to_def or_panic_def op_done_def intro!: exec_spec_quiet)

lemma jumps_ok: "exec_ok c no_ext msf 1 0 opJump" "exec_ok c no_ext msf 2 0 opJumpi"
  using frame_okD by (auto intro!: exec_okI jump_to_spec exec_spec_quiet dest!: pop_cases simp: opJump_def opJumpi_def Let_def op_done_def)

lemma opPush1_ok: "exec_ok c no_ext msf 0 1 opPush1"
  using frame_okD by (fastforce intro!: exec_okI exec_spec_put simp: opPush1_def Let_def)

lemma makePush_ok:
  assumes "c \<noteq> 0"
  shows "exec_ok c no_ext msf 0 1 (makePush k n)"
proof (rule exec_okI)
  fix i f
  assume a: "frame_ok i f" "GetOp (ct_Code (fr_contract f)) (fr_pc f) = c"
  let ?code = "ct_Code (fr_contract f)"
  have lt: "unat (fr_pc f) < unat (go_len ?code)" using a(2) assms by (simp add: GetOp_def word_less_nat_alt split: if_splits)
  have b: "unat (go_len ?code) \<le> 2 ^ 63 - 1" "unat (go_len ?code) \<le> length ?code" by (simp_all add: unat_go_len)
  have p: "unat (fr_pc f + 1) = unat (fr_pc f) + 1" using lt b by (subst unat_small_add) simp_all
  have s: "sint (fr_pc f + 1) = int (unat (fr_pc f) + 1)" using sint_small [of "fr_pc f + 1"] lt b p by simp
  define l where "l = int (unat (go_len ?code))"
  define st where "st = (if sint (fr_pc f + 1) < l then sint (fr_pc f + 1) else l)"
  define en where "en = (if st + int n < l then st + int n else l)"
  have st: "\<not> st < 0" "st \<le> l" "l \<le> int (length ?code)" unfolding st_def s l_def using b(2) by (auto simp del: of_nat_unat)
  have "nat st \<le> nat en" "nat en \<le> length ?code" using st by (auto simp: en_def)
  then obtain bs where "go_slice ?code (nat st) (nat en) = Some bs" by (simp add: go_slice_def)
  then have "makePush k n i f = put_stack (SetBytes (RightPadBytes bs (int n)) # fr_stack f) (f\<lparr>fr_pc := fr_pc f + k\<rparr>)"
    unfolding makePush_def Let_def l_def [symmetric] st_def [symmetric] en_def [symmetric] using st(1) by (simp add: or_panic_def)
  then show "exec_spec i f 0 0 1 (makePush k n i f)" using frame_okD [OF a(1)] by (auto intro!: exec_spec_put)
qed

lemma makeDup_ok: "0 < n \<Longrightarrow> exec_ok c no_ext msf n (Suc n) (makeDup n)"
  using frame_okD by (fastforce intro!: exec_okI exec_spec_put simp: makeDup_def or_panic_def stack_dup_def)

lemma makeSwap_ok: "exec_ok c no_ext msf (Suc n) (Suc n) (makeSwap n)"
  using frame_okD by (fastforce intro!: exec_okI exec_spec_put simp: makeSwap_def or_panic_def stack_swap_def)

lemma makeLog_ok: "exec_ok c no_ext (Some memoryLog) (n + 2) 0 (makeLog n)"
proof (rule exec_okI)
  fix i f
  assume a: "frame_ok i f" "n + 2 \<le> length (fr_stack f)" "covered (Some memoryLog) f"
  obtain x y st where st: "fr_stack f = x # y # st" using a(2) pop_cases(2) [of "fr_stack f"] by auto
  have n: "\<not> length st < n" using a(2) st by simp
  note r = mem_read_region [OF covered_at [OF a(3) [unfolded memoryLog_def]] frame_okD(2) [OF a(1)]]
  then obtain d where d: "mem_read x y (fr_mem f) = Some d" by (auto simp: st)
  let ?l = "\<lparr>lg_Address = fr_self f, lg_Topics = take n st, lg_Data = d,
      lg_BlockNumber = big_Uint64 (bc_BlockNumber (evm_Context (in_evm i))), lg_TxHash = 0, lg_TxIndex = 0,
      lg_BlockHash = 0, lg_Index = 0, lg_Removed = False\<rparr>"
  let ?f = "f\<lparr>fr_stack := drop n st\<rparr>"
  have ok: "exec_spec i f 0 (n + 2) 0 (op_done (?f\<lparr>fr_state := AddLog ?l (fr_state f)\<rparr>))"
    using state_writes(5) [OF frame_okD(1) [OF a(1)]] frame_okD(2) [OF a(1)] n st by (auto simp: op_done_def intro!: exec_spec_quiet)
  have den: "exec_spec i f 0 (n + 2) 0 (op_fail ErrAddressDenied ?f)" by (rule exec_spec_fail [OF a(1)]) simp_all
  have pan: "exec_spec i f 0 (n + 2) 0 (Inl LogFault)" by (simp add: exec_spec_def soft_panics_def)
  show "exec_spec i f 0 (n + 2) 0 (makeLog n i f)"
    using ok den pan n d
    by (simp add: makeLog_def st or_panic_def Let_def split: option.split)
qed

lemma ends_ok: "exec_ok c no_ext (Some memoryReturn) 2 0 opReturn" "exec_ok c no_ext (Some memoryRevert) 2 0 opRevert"
proof -
  have "exec_ok c no_ext (Some (memory_at 0 1)) 2 0 opReturn"
  proof (rule exec_okI)
    fix i f
    assume a: "frame_ok i f" "2 \<le> length (fr_stack f)" "covered (Some (memory_at 0 1)) f"
    obtain x y st where st: "fr_stack f = x # y # st" using a(2) pop_cases(2) by blast
    obtain d where d: "mem_read x y (fr_mem f) = Some d"
      using mem_read_region [OF covered_at [OF a(3)] frame_okD(2) [OF a(1)]] by (auto simp: st)
    show "exec_spec i f 0 2 0 (opReturn i f)"
      using frame_okD [OF a(1)] st d by (auto simp: opReturn_def or_panic_def intro!: exec_spec_quiet)
  qed
  moreover have "opRevert = opReturn" by (simp add: fun_eq_iff opRevert_def opReturn_def)
  ultimately show "exec_ok c no_ext (Some memoryReturn) 2 0 opReturn" "exec_ok c no_ext (Some memoryRevert) 2 0 opRevert"
    by (simp_all add: memoryReturn_def memoryRevert_def)
qed


subsection \<open>Calls and creations\<close>

lemma after_call_spec:
  assumes f: "frame_ok i f" and fs: "frame_spec p (in_be i) gas (fr_state f) r" and reg: "region ro rs (fr_mem f)"
    and g: "unat gas \<le> ext" "unat (fr_gas f) + ext < 2 ^ 64" and st: "length st + pops = length (fr_stack f)"
  shows "exec_spec i f ext pops 1 (after_call ro rs st f r)"
proof (cases r)
  case None
  then show ?thesis by (simp add: after_call_def or_panic_def exec_spec_def soft_panics_def)
next
  case (Some x)
  then obtain ret left err s where x: "r = Some (ret, left, err, s)" by (cases x) auto
  have o: "ops_to (in_be i) (fr_state f) s" "left \<le> gas" using fs x by (auto simp: frame_spec_def)
  let ?f1 = "f\<lparr>fr_stack := of_bool256 (err = None) # st, fr_state := s\<rparr>"
  define w where "w = (if err = None \<or> err = Some ErrExecutionReverted then mem_write ro rs ret ?f1 else Inr ?f1)"
  obtain m where w: "w = Inr (?f1\<lparr>fr_mem := m\<rparr>)" "mem_ok m"
  proof (cases "err = None \<or> err = Some ErrExecutionReverted")
    case True
    then show ?thesis using that mem_write_region [of ro rs ?f1 ret] reg frame_okD(2) [OF f] by (auto simp: w_def)
  next
    case False
    then show ?thesis using that [of "fr_mem f"] frame_okD(2) [OF f] by (auto simp: w_def)
  qed
  let ?f2 = "?f1\<lparr>fr_mem := m\<rparr>"
  have lg: "unat left \<le> ext" using o(2) g(1) by (simp add: word_le_nat_alt)
  have gas: "unat (fr_gas f + left) \<le> unat (fr_gas f) + ext"
    using lg g(2) by (subst unat_small_add) simp_all
  have "after_call ro rs st f r = Inr (ret, None, put_gas (fr_gas f + left) ?f2)"
    using x w(1) unfolding w_def by (simp add: after_call_def or_panic_def Let_def)
  then show ?thesis using gas o(1) w(2) st by (simp add: exec_spec_def put_gas_def)
qed

lemma callee_gas_word:
  assumes "unat (fr_gas f) + callee_gas True f < 2 ^ 64" "2 < length (fr_stack f)"
  shows "unat (fr_callGasTemp f + (if fr_stack f ! 2 \<noteq> 0 then CallStipend else 0)) \<le> callee_gas True f"
proof -
  let ?x = "if fr_stack f ! 2 \<noteq> 0 then CallStipend else 0"
  have x: "unat ?x = (if fr_stack f ! 2 \<noteq> 0 then 2300 else 0)" by (simp add: CallStipend_def)
  have "unat (fr_callGasTemp f + ?x) = unat (fr_callGasTemp f) + unat ?x"
    using assms(1) x by (intro unat_small_add) (simp add: callee_gas_def)
  then show ?thesis using x by (simp add: callee_gas_def)
qed

lemma pop_calls:
  "7 \<le> length st \<Longrightarrow> \<exists>a b c d e g h r. st = a # b # c # d # e # g # h # r"
  "6 \<le> length st \<Longrightarrow> \<exists>a b c d e g r. st = a # b # c # d # e # g # r"
  by (auto simp: numeral_eq_Suc Suc_le_length_iff)

lemma opCall_ok: "exec_ok c (callee_gas True) (Some memoryCall) 7 1 opCall"
  and opCallCode_ok: "exec_ok c (callee_gas True) (Some memoryCall) 7 1 opCallCode"
proof -
  have "exec_spec i f (callee_gas True f) 7 1 (opCall i f) \<and> exec_spec i f (callee_gas True f) 7 1 (opCallCode i f)"
    if a: "frame_ok i f" "calls_ok i" "7 \<le> length (fr_stack f)" "covered (Some memoryCall) f"
      "unat (fr_gas f) + callee_gas True f < 2 ^ 64" for i f
  proof -
    obtain x a' v ino ins ro rs st where st: "fr_stack f = x # a' # v # ino # ins # ro # rs # st" using a(3) pop_calls(1) by blast
    note reg = covered_regions [OF a(4) [unfolded memoryCall_def]]
    have r: "region ro rs (fr_mem f)" "region ino ins (fr_mem f)" using reg by (simp_all add: st)
    obtain args where args: "mem_read ino ins (fr_mem f) = Some args" using mem_read_region [OF r(2) frame_okD(2) [OF a(1)]] by blast
    define gas where "gas = fr_callGasTemp f + (if v \<noteq> 0 then CallStipend else 0)"
    have g: "unat gas \<le> callee_gas True f" using callee_gas_word [OF a(5)] by (simp add: gas_def st)
    have io: "interp_ok (in_be i) (in_env i) (in_evm i)" using a(2) by (simp add: calls_ok_def)
    note sp = Call_spec [OF io frame_okD(1) [OF a(1)]] CallCode_spec [OF io frame_okD(1) [OF a(1)]]
    show ?thesis
      using after_call_spec [OF a(1) sp(1) r(1) g a(5), of st 7] after_call_spec [OF a(1) sp(2) r(1) g a(5), of st 7]
      by (simp add: opCall_def opCallCode_def st args or_panic_def Let_def gas_def [symmetric])
  qed
  then show "exec_ok c (callee_gas True) (Some memoryCall) 7 1 opCall" "exec_ok c (callee_gas True) (Some memoryCall) 7 1 opCallCode"
    by (auto intro!: exec_okI)
qed

lemma opDelegateCall_ok: "exec_ok c (callee_gas False) (Some memoryDelegateCall) 6 1 opDelegateCall"
  and opStaticCall_ok: "exec_ok c (callee_gas False) (Some memoryStaticCall) 6 1 opStaticCall"
proof -
  have "exec_spec i f (callee_gas False f) 6 1 (opDelegateCall i f) \<and> exec_spec i f (callee_gas False f) 6 1 (opStaticCall i f)"
    if a: "frame_ok i f" "calls_ok i" "6 \<le> length (fr_stack f)" "covered (Some (memory_regions 4 5 2 3)) f"
      "unat (fr_gas f) + callee_gas False f < 2 ^ 64" for i f
  proof -
    obtain x a' ino ins ro rs st where st: "fr_stack f = x # a' # ino # ins # ro # rs # st" using a(3) pop_calls(2) by blast
    have r: "region ro rs (fr_mem f)" "region ino ins (fr_mem f)" using covered_regions [OF a(4)] by (simp_all add: st)
    obtain args where args: "mem_read ino ins (fr_mem f) = Some args" using mem_read_region [OF r(2) frame_okD(2) [OF a(1)]] by blast
    have g: "unat (fr_callGasTemp f) \<le> callee_gas False f" by (simp add: callee_gas_def)
    have io: "interp_ok (in_be i) (in_env i) (in_evm i)" using a(2) by (simp add: calls_ok_def)
    note sp = DelegateCall_spec [OF io frame_okD(1) [OF a(1)]] StaticCall_spec [OF io frame_okD(1) [OF a(1)]]
    show ?thesis
      using after_call_spec [OF a(1) sp(1) r(1) g a(5), of st 6] after_call_spec [OF a(1) sp(2) r(1) g a(5), of st 6]
      by (simp add: opDelegateCall_def opStaticCall_def st args or_panic_def)
  qed
  then show "exec_ok c (callee_gas False) (Some memoryDelegateCall) 6 1 opDelegateCall"
    "exec_ok c (callee_gas False) (Some memoryStaticCall) 6 1 opStaticCall"
    by (auto intro!: exec_okI simp: memoryDelegateCall_def memoryStaticCall_def)
qed

lemma after_create_spec:
  assumes f: "frame_ok i f" and g: "g \<le> fr_gas f" and cs: "create_spec p (in_be i) evm a g (fr_state f) r"
    and st: "length st + pops = length (fr_stack f)"
  shows "exec_spec i f 0 pops 1 (after_create failed st (put_gas (fr_gas f - g) f) r)"
proof (cases r)
  case None
  then show ?thesis by (simp add: after_create_def or_panic_def exec_spec_def soft_panics_def)
next
  case (Some x)
  then obtain ret ad left err s where x: "r = Some (ret, ad, left, err, s)" by (cases x) auto
  have o: "ops_to (in_be i) (fr_state f) s" "left \<le> g" using cs x by (auto simp: create_spec_def)
  have "unat (fr_gas f - g) = unat (fr_gas f) - unat g" "unat left \<le> unat g" "unat g \<le> unat (fr_gas f)"
    using g o(2) by (simp_all add: unat_sub word_le_nat_alt)
  then have "unat (fr_gas f - g) + unat left \<le> unat (fr_gas f)" by linarith
  moreover have "unat (fr_gas f) < 2 ^ 64" using unsigned_less [of "fr_gas f"] by (simp only: len_of_numeral_defs) simp
  ultimately have "unat (fr_gas f - g + left) \<le> unat (fr_gas f)"
    using unat_small_add [of "fr_gas f - g" left] by linarith
  then show ?thesis
    using o(1) frame_okD(2) [OF f] st
    by (simp add: x after_create_def or_panic_def Let_def exec_spec_def put_gas_def)
qed

lemma creates_ok: "exec_ok c no_ext (Some memoryCreate) 3 1 opCreate" "exec_ok c no_ext (Some memoryCreate2) 4 1 opCreate2"
proof -
  have sub: "x - x div 64 \<le> x" for x :: u64 by (simp add: word_le_nat_alt unat_sub_if' unat_div)
  have use: "snd (fr_UseGas g f) = put_gas (fr_gas f - g) f" if "g \<le> fr_gas f" for g f
    using fr_UseGas_frame [of g f "fst (fr_UseGas g f)" "snd (fr_UseGas g f)"] that by simp
  show "exec_ok c no_ext (Some memoryCreate) 3 1 opCreate"
  proof (rule exec_okI)
    fix i f
    assume a: "frame_ok i f" "calls_ok i" "3 \<le> length (fr_stack f)" "covered (Some memoryCreate) f"
    obtain v off sz st where st: "fr_stack f = v # off # sz # st" using a(3) pop_cases(3) by blast
    obtain input where inp: "mem_read off sz (fr_mem f) = Some input"
      using mem_read_region [OF covered_at [OF a(4) [unfolded memoryCreate_def]] frame_okD(2) [OF a(1)]] by (auto simp: st)
    have io: "interp_ok (in_be i) (in_env i) (in_evm i)" "create_reads (in_be i) (in_evm i)" using a(2) by (simp_all add: calls_ok_def)
    define g where "g = (if r_IsEIP150 (in_rules i) then fr_gas f - fr_gas f div 64 else fr_gas f)"
    have g: "g \<le> fr_gas f" using sub by (simp add: g_def)
    have s: "fr_state (put_gas y f) = fr_state f" for y by (simp add: put_gas_def)
    show "exec_spec i f 0 3 1 (opCreate i f)"
      using after_create_spec [OF a(1) g Create_spec [OF io(1) frame_okD(1) [OF a(1)] io(2)], of st 3] use [OF g]
      by (simp add: opCreate_def st inp or_panic_def Let_def g_def [symmetric] case_prod_beta s)
  qed
  show "exec_ok c no_ext (Some memoryCreate2) 4 1 opCreate2"
  proof (rule exec_okI)
    fix i f
    assume a: "frame_ok i f" "calls_ok i" "4 \<le> length (fr_stack f)" "covered (Some memoryCreate2) f"
    obtain v off sz salt st where st: "fr_stack f = v # off # sz # salt # st" using a(3) pop_cases(4) by blast
    obtain input where inp: "mem_read off sz (fr_mem f) = Some input"
      using mem_read_region [OF covered_at [OF a(4) [unfolded memoryCreate2_def]] frame_okD(2) [OF a(1)]] by (auto simp: st)
    have io: "interp_ok (in_be i) (in_env i) (in_evm i)" "create_reads (in_be i) (in_evm i)" using a(2) by (simp_all add: calls_ok_def)
    have s: "fr_state (put_gas y f) = fr_state f" for y by (simp add: put_gas_def)
    show "exec_spec i f 0 4 1 (opCreate2 i f)"
      using after_create_spec [OF a(1) sub [of "fr_gas f"] create_spec_ok [OF io(1) frame_okD(1) [OF a(1)] io(2)], of st 4] use [OF sub [of "fr_gas f"]]
      by (simp add: opCreate2_def st inp or_panic_def Let_def case_prod_beta s evm_Create2_def)
  qed
qed

end
