(* ===== verification/Vm_Runs.thy ===== *)
theory Vm_Runs
  imports Vm_Steps
begin

text \<open>
  Safety of the interpreter as a whole: every entry of every jump table keeps its contract, so a run of the loop
  never leaves the stack or the memory, pays for every step, ends within its fuel and is what the call frames rely
  on in the interpreter.
\<close>


subsection \<open>Contracts of jump table entries\<close>

definition ext_of :: "byte \<Rightarrow> frame \<Rightarrow> nat" where
  "ext_of c = (if c = OP_CALL \<or> c = OP_CALLCODE then callee_gas True
     else if c = OP_DELEGATECALL \<or> c = OP_STATICCALL then callee_gas False else no_ext)"

text \<open>The stack items and the use of memory of the opcodes whose entries later forks change.\<close>

definition code_shape :: "byte \<Rightarrow> (nat \<times> bool) option" where
  "code_shape c =
    (if c = OP_CALL \<or> c = OP_CALLCODE then Some (7, True)
     else if c = OP_DELEGATECALL \<or> c = OP_STATICCALL then Some (6, True)
     else if c = OP_EXTCODECOPY then Some (4, True)
     else if c = OP_EXP \<or> c = OP_SSTORE then Some (2, False)
     else if c = OP_BALANCE \<or> c = OP_EXTCODESIZE \<or> c = OP_EXTCODEHASH \<or> c = OP_SLOAD \<or> c = OP_SELFDESTRUCT then Some (1, False)
     else None)"

definition size_total :: "nat \<Rightarrow> memorySizeFunc \<Rightarrow> bool" where
  "size_total n m \<longleftrightarrow> (\<forall>st. n \<le> length st \<longrightarrow> m st \<noteq> None)"

definition op_safe :: "bool \<Rightarrow> byte \<Rightarrow> operation \<Rightarrow> bool" where
  "op_safe eip c oper \<longleftrightarrow>
    (let pops = nat (op_minStack oper); push = nat (1024 + op_minStack oper - op_maxStack oper); mem = (op_memorySize oper \<noteq> None)
     in 0 \<le> op_minStack oper \<and> op_maxStack oper \<le> 1024 + op_minStack oper \<and>
        exec_ok c (ext_of c) (op_memorySize oper) pops push (op_execute oper) \<and>
        (case op_dynamicGas oper of None \<Rightarrow> \<not> mem \<and> ext_of c = no_ext | Some g \<Rightarrow> gas_ok eip mem (ext_of c) pops g) \<and>
        (\<forall>m. op_memorySize oper = Some m \<longrightarrow> size_total pops m) \<and>
        (op_halts oper \<or> op_reverts oper \<or> op_constantGas oper \<noteq> 0 \<or>
          (\<exists>g. op_dynamicGas oper = Some g \<and> gas_ok eip mem (\<lambda>f. Suc (ext_of c f)) pops g)) \<and>
        (\<forall>n b. code_shape c = Some (n, b) \<longrightarrow> n \<le> pops \<and> mem = b) \<and> (c = OP_SELFDESTRUCT \<longrightarrow> op_halts oper))"

definition jt_safe :: "bool \<Rightarrow> JumpTable \<Rightarrow> bool" where
  "jt_safe eip jt \<longleftrightarrow> (\<forall>(c, oper) \<in> set jt. op_safe eip c oper)"

lemma jt_safe_simps: "jt_safe eip []" "jt_safe eip ((c, oper) # jt) \<longleftrightarrow> op_safe eip c oper \<and> jt_safe eip jt"
  "jt_safe eip (jt @ jt') \<longleftrightarrow> jt_safe eip jt \<and> jt_safe eip jt'"
  by (auto simp: jt_safe_def)

lemma sizes_total:
  "2 \<le> n \<Longrightarrow> size_total n (memory_at 0 1)" "3 \<le> n \<Longrightarrow> size_total n (memory_at 0 2)" "3 \<le> n \<Longrightarrow> size_total n (memory_at 1 2)"
  "4 \<le> n \<Longrightarrow> size_total n (memory_at 1 3)" "1 \<le> n \<Longrightarrow> size_total n (memory_word w)"
  "7 \<le> n \<Longrightarrow> size_total n (memory_regions 5 6 3 4)" "6 \<le> n \<Longrightarrow> size_total n (memory_regions 4 5 2 3)"
  by (auto simp: size_total_def memory_at_def memory_word_def memory_regions_def split: list.split prod.split)

lemma gas_facts:
  "gas_ok eip True no_ext n pureMemoryGascost" "k < n \<Longrightarrow> gas_ok eip True no_ext n (memoryCopierGas k)"
  "k < n \<Longrightarrow> gas_ok eip True no_ext n (gas_hash_words k)"
  "2 \<le> n \<Longrightarrow> gas_ok eip True no_ext n (makeGasLog kk)" "2 \<le> n \<Longrightarrow> gas_ok eip True (\<lambda>_. Suc 0) n (makeGasLog kk)"
  "gas_ok eip False no_ext 2 (gas_exp b)" "gas_ok eip False (\<lambda>_. Suc 0) 2 (gas_exp b)"
  "gas_ok eip False no_ext 2 gasSStore" "gas_ok eip False (\<lambda>_. Suc 0) 2 gasSStore"
  "gas_ok eip False no_ext 2 gasSStoreEIP2200" "gas_ok eip False (\<lambda>_. Suc 0) 2 gasSStoreEIP2200"
  "gas_ok eip False no_ext 2 (makeGasSStoreFunc r)" "gas_ok eip False (\<lambda>_. Suc 0) 2 (makeGasSStoreFunc r)"
  "gas_ok eip False no_ext 1 gasSLoadEIP2929" "gas_ok eip False (\<lambda>_. Suc 0) 1 gasSLoadEIP2929"
  using gas_ok_mono [OF memoryCopierGas_ok [of eip k], of n eip no_ext] gas_ok_mono [OF gas_hash_words_ok [of eip k], of n eip no_ext]
    gas_ok_mono [OF makeGasLog_ok [of eip kk], of n eip] gas_ok_mono [OF gas_exp_ok [of eip b], of 2 eip]
    gas_ok_mono [OF gasSStore_ok [of eip], of 2 eip] gas_ok_mono [OF gasSStoreEIP2200_ok [of eip], of 2 eip]
    gas_ok_mono [OF makeGasSStoreFunc_ok [of eip r], of 2 eip] gas_ok_mono [OF gasSLoadEIP2929_ok [of eip], of 1 eip]
  by (simp_all add: pureMemoryGascost_ok)

lemma lib_ops_ok:
  "exec_ok c no_ext msf 2 1 opDiv" "exec_ok c no_ext msf 2 1 opSdiv" "exec_ok c no_ext msf 2 1 opMod" "exec_ok c no_ext msf 2 1 opSmod"
  "exec_ok c no_ext msf 2 1 opExp" "exec_ok c no_ext msf 2 1 opSignExtend" "exec_ok c no_ext msf 2 1 opByte"
  "exec_ok c no_ext msf 3 1 opAddmod" "exec_ok c no_ext msf 3 1 opMulmod" "exec_ok c no_ext msf 2 1 opSAR"
  using stack_ops_ok(2,3) [of c msf]
  by (simp_all add: exec_ok_def opDiv_def opSdiv_def opMod_def opSmod_def opExp_def opSignExtend_def opByte_def opAddmod_def opMulmod_def opSAR_def)

lemmas exec_facts = stack_ops_ok lib_ops_ok account_ops_ok opSelfBalance_ok opSload_ok opSstore_ok opSuicide_ok opSha3_ok opCallDataLoad_ok
  op_copy_ok opExtCodeCopy_ok opReturnDataCopy_ok opBlockhash_ok opMload_ok opMstore_ok opMstore8_ok jumps_ok opPush1_ok makePush_ok
  makeDup_ok makeSwap_ok makeLog_ok ends_ok opCall_ok opCallCode_ok opDelegateCall_ok opStaticCall_ok creates_ok


lemmas stack_op_names = opAdd_def opSub_def opMul_def opNot_def
  opLt_def opGt_def opSlt_def opSgt_def opEq_def opIszero_def opAnd_def opOr_def opXor_def opSHL_def opSHR_def
  opAddress_def opOrigin_def opCaller_def opCallValue_def opCallDataSize_def opReturnDataSize_def
  opCodeSize_def opGasprice_def opCoinbase_def opTimestamp_def opNumber_def opDifficulty_def opGasLimit_def opPc_def opMsize_def
  opGas_def opChainID_def opBaseFee_def opCallDataCopy_def opCodeCopy_def

lemmas entry_facts = exec_facts [unfolded memory_sizes One_nat_def] sizes_total [unfolded One_nat_def] gas_facts [unfolded One_nat_def]
  gasSelfdestruct_ok [unfolded One_nat_def] call_gas_ok

lemmas entry_defs = op_safe_def instr_def stack_bounds ext_of_def code_shape_def Let_def step_consts stack_op_names gas_names
  memory_sizes gasSha3_def gasCreate2_def gasExpFrontier_def

lemma arith_safe: "jt_safe eip arith_operations"
  unfolding arith_operations_def by (simp add: jt_safe_simps entry_defs entry_facts)

lemma context_safe: "jt_safe eip context_operations"
  unfolding context_operations_def by (simp add: jt_safe_simps entry_defs entry_facts)

lemma machine_safe: "jt_safe eip machine_operations"
  unfolding machine_operations_def by (simp add: jt_safe_simps entry_defs entry_facts JUMPDEST_def)

lemma system_safe: "jt_safe eip system_operations"
  unfolding system_operations_def by (simp add: jt_safe_simps entry_defs entry_facts)


lemma counted_ok:
  "0 < n \<Longrightarrow> p = n \<Longrightarrow> q = Suc n \<Longrightarrow> exec_ok c no_ext msf p q (makeDup n)"
  "p = Suc n \<Longrightarrow> q = Suc n \<Longrightarrow> exec_ok c no_ext msf p q (makeSwap n)"
  "p = n + 2 \<Longrightarrow> exec_ok c no_ext (Some (memory_at 0 (Suc 0))) p 0 (makeLog n)"
  using makeDup_ok makeSwap_ok makeLog_ok by (simp_all add: memoryLog_def)

lemma push_safe: "jt_safe eip push_operations"
  unfolding push_operations_def by (simp add: upt_rec jt_safe_simps entry_defs entry_facts PUSH1_def)

lemma dup_safe: "jt_safe eip dup_operations"
  unfolding dup_operations_def by (simp add: upt_rec jt_safe_simps entry_defs counted_ok)

lemma swap_safe: "jt_safe eip swap_operations"
  unfolding swap_operations_def by (simp add: upt_rec jt_safe_simps entry_defs counted_ok)

lemma log_safe: "jt_safe eip log_operations"
  unfolding log_operations_def by (simp add: upt_rec jt_safe_simps entry_defs entry_facts counted_ok)


subsection \<open>The tables of the forks\<close>

lemma jt_safe_set: "jt_safe eip jt \<Longrightarrow> op_safe eip c oper \<Longrightarrow> jt_safe eip (gm_set jt c oper)"
  using set_gm_set [of jt c oper] by (auto simp: jt_safe_def)

lemma jt_safe_modify:
  assumes "jt_safe eip jt" "\<And>oper. op_safe eip c oper \<Longrightarrow> op_safe eip c (g oper)"
  shows "jt_safe eip (jt_modify c g jt)"
proof (cases "gm_get jt c")
  case (Some oper)
  then have "op_safe eip c oper" using gm_get_in [OF Some] assms(1) by (auto simp: jt_safe_def)
  then show ?thesis using Some assms by (simp add: jt_modify_def jt_safe_set)
qed (use assms(1) in \<open>simp add: jt_modify_def\<close>)

lemma op_safe_constant: "op_safe eip c oper \<Longrightarrow> g \<noteq> 0 \<Longrightarrow> op_safe eip c (set_constantGas g oper)"
  by (auto simp: op_safe_def set_constantGas_def Let_def)

lemma op_safe_dynamic:
  assumes "op_safe eip c oper" "code_shape c = Some (n, b)" "gas_ok eip b (ext_of c) n d"
    and "gas_ok eip b (\<lambda>f. Suc (ext_of c f)) n d \<or> c = OP_SELFDESTRUCT"
  shows "op_safe eip c (set_dynamicGas d oper)"
proof -
  have n: "n \<le> nat (op_minStack oper)" "(op_memorySize oper \<noteq> None) = b" "c = OP_SELFDESTRUCT \<longrightarrow> op_halts oper"
    using assms(1,2) by (auto simp: op_safe_def Let_def)
  have "gas_ok eip b (ext_of c) (nat (op_minStack oper)) d"
    "gas_ok eip b (\<lambda>f. Suc (ext_of c f)) (nat (op_minStack oper)) d \<or> op_halts oper"
    using gas_ok_mono [OF assms(3) n(1)] gas_ok_mono [OF _ n(1), of eip b "\<lambda>f. Suc (ext_of c f)" d] assms(4) n(3) by auto
  then show ?thesis using assms(1) n(2) by (auto simp: op_safe_def set_dynamicGas_def Let_def)
qed

lemma op_safe_both:
  assumes "op_safe eip c oper" "code_shape c = Some (n, b)" "gas_ok eip b (ext_of c) n d"
    and "g \<noteq> 0 \<or> gas_ok eip b (\<lambda>f. Suc (ext_of c f)) n d"
  shows "op_safe eip c ((set_dynamicGas d \<circ> set_constantGas g) oper)"
proof -
  have n: "n \<le> nat (op_minStack oper)" "(op_memorySize oper \<noteq> None) = b" using assms(1,2) by (auto simp: op_safe_def Let_def)
  have "gas_ok eip b (ext_of c) (nat (op_minStack oper)) d"
    "g \<noteq> 0 \<or> gas_ok eip b (\<lambda>f. Suc (ext_of c f)) (nat (op_minStack oper)) d"
    using gas_ok_mono [OF assms(3) n(1)] gas_ok_mono [OF _ n(1), of eip b "\<lambda>f. Suc (ext_of c f)" d] assms(4) by auto
  then show ?thesis using assms(1) n(2) by (auto simp: op_safe_def set_dynamicGas_def set_constantGas_def Let_def)
qed

lemma frontier_safe: "jt_safe eip newFrontierInstructionSet"
  by (simp add: newFrontierInstructionSet_def jt_safe_simps arith_safe context_safe machine_safe push_safe dup_safe swap_safe log_safe system_safe)

lemma homestead_safe: "jt_safe eip newHomesteadInstructionSet"
  unfolding newHomesteadInstructionSet_def
  by (rule jt_safe_set [OF frontier_safe]) (simp add: entry_defs entry_facts)

lemma fold_constants: "jt_safe eip jt \<Longrightarrow> (\<And>c g. (c, g) \<in> set xs \<Longrightarrow> g \<noteq> 0) \<Longrightarrow>
  jt_safe eip (fold (\<lambda>(code, gas). jt_modify code (set_constantGas gas)) xs jt)"
proof (induction xs arbitrary: jt)
  case (Cons x xs)
  obtain c g where x: "x = (c, g)" by fastforce
  have "jt_safe eip (jt_modify c (set_constantGas g) jt)"
    using Cons.prems by (intro jt_safe_modify op_safe_constant) (auto simp: x)
  then show ?case using Cons.IH Cons.prems(2) by (auto simp: x)
qed simp

lemma fold_operations: "jt_safe eip jt \<Longrightarrow> jt_safe eip xs \<Longrightarrow> jt_safe eip (fold (\<lambda>(code, oper) jt. gm_set jt code oper) xs jt)"
proof (induction xs arbitrary: jt)
  case (Cons x xs)
  obtain c oper where x: "x = (c, oper)" by fastforce
  then have "op_safe eip c oper" "jt_safe eip xs" using Cons.prems(2) by (simp_all add: jt_safe_simps)
  then show ?case using Cons.IH [OF jt_safe_set [OF Cons.prems(1)]] by (simp add: x)
qed simp

lemma tangerine_safe: "jt_safe eip newTangerineWhistleInstructionSet"
  unfolding newTangerineWhistleInstructionSet_def by (rule fold_constants [OF homestead_safe]) (auto simp: step_consts)

lemma dragon_safe: "jt_safe eip newSpuriousDragonInstructionSet"
  unfolding newSpuriousDragonInstructionSet_def
  by (intro jt_safe_modify [OF tangerine_safe] op_safe_dynamic [where n = 2 and b = False])
    (simp_all add: code_shape_def ext_of_def gasExpEIP158_def gas_facts)

lemma byzantium_safe: "jt_safe eip newByzantiumInstructionSet"
proof -
  have "jt_safe eip byzantium_operations"
    unfolding byzantium_operations_def by (simp add: jt_safe_simps entry_defs entry_facts)
  then show ?thesis unfolding newByzantiumInstructionSet_def by (rule fold_operations [OF dragon_safe])
qed

lemma constantinople_safe: "jt_safe eip newConstantinopleInstructionSet"
proof -
  have "jt_safe eip constantinople_operations"
    unfolding constantinople_operations_def by (simp add: jt_safe_simps entry_defs entry_facts)
  then show ?thesis unfolding newConstantinopleInstructionSet_def by (rule fold_operations [OF byzantium_safe])
qed

lemma istanbul_safe: "jt_safe eip newIstanbulInstructionSet"
proof -
  have "jt_safe eip (enable1344 newConstantinopleInstructionSet)"
    unfolding enable1344_def by (rule jt_safe_set [OF constantinople_safe]) (simp add: entry_defs entry_facts)
  then have "jt_safe eip (enable1884 (enable1344 newConstantinopleInstructionSet))"
    unfolding enable1884_def by (intro jt_safe_set fold_constants) (auto simp: entry_defs entry_facts)
  then show ?thesis
    unfolding newIstanbulInstructionSet_def enable2200_def [of "enable1884 jt" for jt]
    by (intro jt_safe_modify op_safe_constant op_safe_dynamic [where n = 2 and b = False])
      (simp_all add: code_shape_def ext_of_def gas_facts gas_consts)
qed


lemma fold_both:
  assumes "jt_safe eip jt"
    and "\<And>c g d oper. (c, g, d) \<in> set xs \<Longrightarrow> op_safe eip c oper \<Longrightarrow> op_safe eip c ((set_dynamicGas d \<circ> set_constantGas g) oper)"
  shows "jt_safe eip (fold (\<lambda>(code, gas, dyn). jt_modify code (set_dynamicGas dyn \<circ> set_constantGas gas)) xs jt)"
  using assms
proof (induction xs arbitrary: jt)
  case (Cons x xs)
  obtain c g d where x: "x = (c, g, d)" by (cases x)
  have "jt_safe eip (jt_modify c (set_dynamicGas d \<circ> set_constantGas g) jt)"
    using Cons.prems by (intro jt_safe_modify) (auto simp: x)
  then have "jt_safe eip (fold (\<lambda>(code, gas, dyn). jt_modify code (set_dynamicGas dyn \<circ> set_constantGas gas)) xs
      (jt_modify c (set_dynamicGas d \<circ> set_constantGas g) jt))"
    by (rule Cons.IH) (use Cons.prems(2) in \<open>auto simp: x\<close>)
  then show ?case by (simp add: x comp_def)
qed simp

lemma berlin_safe: "jt_safe True newBerlinInstructionSet"
  unfolding newBerlinInstructionSet_def enable2929_def
proof (rule fold_both)
  show "jt_safe True (jt_modify OP_SSTORE (set_dynamicGas gasSStoreEIP2929) newIstanbulInstructionSet)"
    by (intro jt_safe_modify [OF istanbul_safe] op_safe_dynamic [where n = 2 and b = False])
      (simp_all add: code_shape_def ext_of_def gasSStoreEIP2929_def gas_facts)
  fix c :: byte and g :: u64 and d oper
  assume "(c, g, d) \<in> set [(OP_SLOAD, 0, gasSLoadEIP2929), (OP_EXTCODECOPY, WarmStorageReadCostEIP2929, gasExtCodeCopyEIP2929),
       (OP_EXTCODESIZE, WarmStorageReadCostEIP2929, gasEip2929AccountCheck),
       (OP_EXTCODEHASH, WarmStorageReadCostEIP2929, gasEip2929AccountCheck),
       (OP_BALANCE, WarmStorageReadCostEIP2929, gasEip2929AccountCheck),
       (OP_CALL, WarmStorageReadCostEIP2929, gasCallEIP2929), (OP_CALLCODE, WarmStorageReadCostEIP2929, gasCallCodeEIP2929),
       (OP_STATICCALL, WarmStorageReadCostEIP2929, gasStaticCallEIP2929),
       (OP_DELEGATECALL, WarmStorageReadCostEIP2929, gasDelegateCallEIP2929),
       (OP_SELFDESTRUCT, SelfdestructGasEIP150, gasSelfdestructEIP2929)]"
  then have "\<exists>n b. code_shape c = Some (n, b) \<and> gas_ok True b (ext_of c) n d \<and> (g \<noteq> 0 \<or> gas_ok True b (\<lambda>f. Suc (ext_of c f)) n d)"
    using makeSelfdestructGasFn_ok [of True] call2929_gas_ok gasExtCodeCopyEIP2929_ok gasEip2929AccountCheck_ok
    by (auto simp: code_shape_def ext_of_def gas_facts [unfolded One_nat_def] gasSelfdestructEIP2929_def gas_consts)
  then show "op_safe True c oper \<Longrightarrow> op_safe True c ((set_dynamicGas d \<circ> set_constantGas g) oper)"
    using op_safe_both by blast
qed

lemma london_safe: "jt_safe True newLondonInstructionSet"
proof -
  have "jt_safe True (enable3529 newBerlinInstructionSet)"
    unfolding enable3529_def
    by (intro jt_safe_modify [OF jt_safe_modify [OF berlin_safe]] op_safe_dynamic [where n = 2 and b = False]
        op_safe_dynamic [where n = 1 and b = False])
      (simp_all add: code_shape_def ext_of_def gasSStoreEIP3529_def gasSelfdestructEIP3529_def gas_facts
        makeSelfdestructGasFn_ok [unfolded One_nat_def])
  then show ?thesis
    unfolding newLondonInstructionSet_def enable3198_def by (rule jt_safe_set) (simp add: entry_defs entry_facts)
qed

lemma instruction_set_safe: "jt_safe (r_IsBerlin rules \<or> r_IsLondon rules) (instruction_set rules)"
  by (auto simp: instruction_set_def london_safe berlin_safe istanbul_safe constantinople_safe byzantium_safe dragon_safe
      tangerine_safe homestead_safe frontier_safe)

subsection \<open>One step\<close>

text \<open>What a step guarantees: it acts on the state through its operations and does not add gas; a step after which
  the loop goes on has used gas and leaves a frame as good as before, with at most 1024 stack items.\<close>

definition step_spec :: "interp \<Rightarrow> frame \<Rightarrow> step_result outcome \<Rightarrow> bool" where
  "step_spec i f x \<longleftrightarrow>
    (\<forall>p. x = Inl p \<longrightarrow> p \<in> soft_panics) \<and>
    (\<forall>ret err f'. x = Inr (Finish ret err f') \<longrightarrow> ops_to (in_be i) (fr_state f) (fr_state f') \<and> unat (fr_gas f') \<le> unat (fr_gas f)) \<and>
    (\<forall>f'. x = Inr (Continue f') \<longrightarrow> ops_to (in_be i) (fr_state f) (fr_state f') \<and> unat (fr_gas f') < unat (fr_gas f) \<and>
      frame_ok i f' \<and> length (fr_stack f') \<le> 1024)"

lemma step_spec_stop: "ops_to (in_be i) (fr_state f) (fr_state f') \<Longrightarrow> unat (fr_gas f') \<le> unat (fr_gas f) \<Longrightarrow> step_spec i f (Inr (Finish ret err f'))"
  by (simp add: step_spec_def)

lemma finish_step_spec:
  assumes s: "exec_spec i f2 ext pops push x" and le: "ops_to (in_be i) (fr_state f) (fr_state f2)" "in_tx (in_be i) (fr_state f)"
    and gas: "unat (fr_gas f2) + ext \<le> unat (fr_gas f)"
    and pos: "op_halts oper \<or> op_reverts oper \<or> unat (fr_gas f2) + ext < unat (fr_gas f)"
    and len: "length (fr_stack f2) + push \<le> 1024 + pops"
  shows "step_spec i f (rbind x (\<lambda>x. Inr (finish_step oper x)))"
proof (cases x)
  case (Inl p)
  then show ?thesis using s by (simp add: exec_spec_def step_spec_def)
next
  case (Inr y)
  then obtain ret err f' where x: "x = Inr (ret, err, f')" by (cases y) auto
  have e: "ops_to (in_be i) (fr_state f2) (fr_state f')" "mem_ok (fr_mem f')" "unat (fr_gas f') \<le> unat (fr_gas f2) + ext"
    "err = None \<longrightarrow> length (fr_stack f') + pops = length (fr_stack f2) + push" using s x by (auto simp: exec_spec_def)
  note o = ops_to_trans [OF le(1) e(1)]
  then show ?thesis
    using e gas pos len ops_to_in_tx [OF o le(2)]
    by (auto simp: x step_spec_def finish_step_def frame_ok_def Let_def split: option.splits if_splits)
qed


lemma toWordSize_covers:
  assumes "SafeMul (toWordSize n) 32 = (sz, False)"
  shows "unat n \<le> unat sz" "32 dvd unat sz"
proof -
  have m: "unat (toWordSize n) * 32 < 2 ^ 64" "sz = toWordSize n * 32" using assms by (auto simp: SafeMul_def not_le)
  have sz: "unat sz = unat (toWordSize n) * 32" using m unat_small_mult [of "toWordSize n" 32] by simp
  then show "32 dvd unat sz" by simp
  show "unat n \<le> unat sz"
  proof (cases "n > MaxUint64 - 31")
    case True
    have "unat (MaxUint64 div 32 + 1 :: u64) = 2 ^ 59" by (simp add: MaxUint64_def)
    then show ?thesis using m(1) True by (simp add: toWordSize_def)
  next
    case False
    have "unat (MaxUint64 - 31 :: u64) = 2 ^ 64 - 32" by (simp add: MaxUint64_def)
    then have "unat n \<le> 2 ^ 64 - 32" using False by (simp add: word_less_nat_alt not_less)
    then have "unat sz = (unat n + 31) div 32 * 32" using toWordSize_nat sz by simp
    moreover have "unat n + 31 = (unat n + 31) div 32 * 32 + (unat n + 31) mod 32" "(unat n + 31) mod 32 < 32" by simp_all
    ultimately show ?thesis by linarith
  qed
qed

lemma required_memory_spec:
  assumes "op_safe eip c oper" "op_minStack oper \<le> int (length st)"
  shows "\<exists>r. required_memory oper st = Inr r \<and> (\<forall>sz. r = Inr sz \<longrightarrow> 32 dvd unat sz \<and>
    (\<forall>m. op_memorySize oper = Some m \<longrightarrow> (\<exists>n. m st = Some (n, False) \<and> unat n \<le> unat sz)) \<and> (op_memorySize oper = None \<longrightarrow> sz = 0))"
proof (cases "op_memorySize oper")
  case None
  then show ?thesis by (simp add: required_memory_def)
next
  case (Some m)
  have "size_total (nat (op_minStack oper)) m" using assms(1) Some by (simp add: op_safe_def Let_def)
  then obtain n ov where n: "m st = Some (n, ov)" using assms(2) by (auto simp: size_total_def nat_le_iff)
  obtain sz over where sz: "SafeMul (toWordSize n) 32 = (sz, over)" by fastforce
  show ?thesis using Some n sz toWordSize_covers [of n sz] by (cases ov; cases over) (auto simp: required_memory_def or_panic_def Let_def)
qed

lemma ext_of_put_gas: "ext_of c (put_gas g f) = ext_of c f"
  by (simp add: ext_of_def callee_gas_def put_gas_def)

lemma charge_dynamic_spec:
  assumes safe: "op_safe eip c oper" and f: "frame_ok i f" "eip \<longrightarrow> r_IsEIP150 (in_rules i)" "op_minStack oper \<le> int (length (fr_stack f))"
    and sz: "op_memorySize oper = None \<longrightarrow> sz = 0"
  shows "(\<forall>p. charge_dynamic oper i sz f = Inl p \<longrightarrow> p \<in> soft_panics) \<and>
    (\<forall>ok f2. charge_dynamic oper i sz f = Inr (ok, f2) \<longrightarrow> ops_to (in_be i) (fr_state f) (fr_state f2) \<and> gas_kept f f2 \<and>
      (ok \<longrightarrow> charged (unat sz) (fr_mem f2) \<and> unat (fr_gas f2) + ext_of c f2 \<le> unat (fr_gas f) \<and>
        (op_halts oper \<or> op_reverts oper \<or> op_constantGas oper \<noteq> 0 \<or> unat (fr_gas f2) + ext_of c f2 < unat (fr_gas f))))"
proof (cases "op_dynamicGas oper")
  case None
  then have "op_memorySize oper = None" "ext_of c = no_ext" "op_halts oper \<or> op_reverts oper \<or> op_constantGas oper \<noteq> 0"
    using safe by (auto simp: op_safe_def Let_def)
  then show ?thesis using None f(1) sz by (auto simp: charge_dynamic_def frame_ok_def)
next
  case (Some g)
  let ?mem = "op_memorySize oper \<noteq> None"
  have n: "nat (op_minStack oper) \<le> length (fr_stack f)" using f(3) by simp
  have ok: "gas_ok eip ?mem (ext_of c) (nat (op_minStack oper)) g" and
    pos: "op_halts oper \<or> op_reverts oper \<or> op_constantGas oper \<noteq> 0 \<or> gas_ok eip ?mem (\<lambda>f. Suc (ext_of c f)) (nat (op_minStack oper)) g"
    using safe Some by (auto simp: op_safe_def Let_def)
  have s: "gas_spec ?mem i (ext_of c) sz f (g i sz f)" using ok f n by (simp add: gas_ok_def)
  have s1: "op_halts oper \<or> op_reverts oper \<or> op_constantGas oper \<noteq> 0 \<or> gas_spec ?mem i (\<lambda>f. Suc (ext_of c f)) sz f (g i sz f)"
    using pos f n by (auto simp: gas_ok_def)
  show ?thesis
  proof (cases "g i sz f")
    case (Inl p)
    then show ?thesis using s Some by (simp add: charge_dynamic_def gas_spec_def)
  next
    case (Inr x)
    obtain r f1 where x: "g i sz f = Inr (r, f1)" using Inr by (cases x) auto
    have k: "ops_to (in_be i) (fr_state f) (fr_state f1)" "gas_kept f f1" using s x by (auto simp: gas_spec_def)
    show ?thesis
    proof (cases r)
      case (Inl e)
      then show ?thesis using Some x k by (simp add: charge_dynamic_def)
    next
      case (Inr cost)
      have c: "fr_contract f1 = fr_contract f" "if ?mem then charged (unat sz) (fr_mem f1) else fr_mem f1 = fr_mem f"
        "ext_of c f1 \<le> unat cost" using s x Inr by (auto simp: gas_spec_def)
      have c1: "op_halts oper \<or> op_reverts oper \<or> op_constantGas oper \<noteq> 0 \<or> Suc (ext_of c f1) \<le> unat cost"
        using s1 x Inr by (auto simp: gas_spec_def)
      have ch: "charged (unat sz) (fr_mem f1)" using c(2) sz f(1) by (auto simp: frame_ok_def split: if_splits)
      obtain ok f2 where u: "fr_UseGas cost f1 = (ok, f2)" by fastforce
      note uf = fr_UseGas_frame [OF u]
      have k2: "gas_kept f1 f2" "fr_state f2 = fr_state f1" "fr_mem f2 = fr_mem f1" "ext_of c f2 = ext_of c f1"
        using uf(1) ext_of_put_gas by (auto simp: gas_kept_def put_gas_def unat_sub)
      have g2: "ok \<Longrightarrow> unat (fr_gas f2) + unat cost = unat (fr_gas f)"
        using uf c(1) by (auto simp: put_gas_def unat_sub word_le_nat_alt)
      have e: "charge_dynamic oper i sz f = Inr (ok, f2)" using Some x Inr u by (simp add: charge_dynamic_def)
      have "ok \<longrightarrow> charged (unat sz) (fr_mem f2) \<and> unat (fr_gas f2) + ext_of c f2 \<le> unat (fr_gas f) \<and>
          (op_halts oper \<or> op_reverts oper \<or> op_constantGas oper \<noteq> 0 \<or> unat (fr_gas f2) + ext_of c f2 < unat (fr_gas f))"
      proof
        assume ok
        from g2 [OF this] show "charged (unat sz) (fr_mem f2) \<and> unat (fr_gas f2) + ext_of c f2 \<le> unat (fr_gas f) \<and>
          (op_halts oper \<or> op_reverts oper \<or> op_constantGas oper \<noteq> 0 \<or> unat (fr_gas f2) + ext_of c f2 < unat (fr_gas f))"
          unfolding k2 using ch c(3) c1 by auto
      qed
      then show ?thesis using e k(1) k2(2) gas_kept_trans [OF k(2) k2(1)] by simp
    qed
  qed
qed


lemma exec_okD:
  "exec_ok c ext msf pops push x \<Longrightarrow> frame_ok i f \<Longrightarrow> calls_ok i \<Longrightarrow> pops \<le> length (fr_stack f) \<Longrightarrow>
   GetOp (ct_Code (fr_contract f)) (fr_pc f) = c \<Longrightarrow> covered msf f \<Longrightarrow> unat (fr_gas f) + ext f < 2 ^ 64 \<Longrightarrow>
   exec_spec i f (ext f) pops push (x i f)"
  by (simp add: exec_ok_def)

lemma run_operation_spec:
  assumes safe: "op_safe eip c oper" and f: "frame_ok i f" "calls_ok i" "eip \<longrightarrow> r_IsEIP150 (in_rules i)"
    and len: "op_minStack oper \<le> int (length (fr_stack f))" "int (length (fr_stack f)) \<le> op_maxStack oper"
    and code: "GetOp (ct_Code (fr_contract f)) (fr_pc f) = c"
  shows "step_spec i f (run_operation oper i f)"
proof -
  obtain ok f1 where u: "fr_UseGas (op_constantGas oper) f = (ok, f1)" by fastforce
  note uf = fr_UseGas_frame [OF u]
  have k1: "gas_kept f f1" "fr_state f1 = fr_state f" "fr_mem f1 = fr_mem f" "fr_stack f1 = fr_stack f"
    using uf(1) by (auto simp: gas_kept_def put_gas_def unat_sub)
  have f1: "frame_ok i f1" using f(1) k1 by (simp add: frame_ok_def)
  have g1: "unat (fr_gas f1) \<le> unat (fr_gas f)" "ok \<Longrightarrow> op_constantGas oper \<noteq> 0 \<Longrightarrow> unat (fr_gas f1) < unat (fr_gas f)"
    using k1(1) uf by (auto simp: gas_kept_def put_gas_def unat_sub word_le_nat_alt unat_eq_0 [symmetric])
  note i0 = frame_okD(1) [OF f(1)]
  have stop: "step_spec i f (Inr (Finish ret err g))" if "ops_to (in_be i) (fr_state f) (fr_state g)" "gas_kept f g" for ret err g
    using that by (intro step_spec_stop) (simp_all add: gas_kept_def)
  obtain r where r: "required_memory oper (fr_stack f1) = Inr r" "\<And>sz. r = Inr sz \<Longrightarrow> 32 dvd unat sz \<and>
      (\<forall>m. op_memorySize oper = Some m \<longrightarrow> (\<exists>n. m (fr_stack f) = Some (n, False) \<and> unat n \<le> unat sz)) \<and> (op_memorySize oper = None \<longrightarrow> sz = 0)"
    using required_memory_spec [OF safe, of "fr_stack f1"] len(1) k1(4) by auto
  show ?thesis
  proof (cases "ok \<and> (\<exists>sz. r = Inr sz)")
    case False
    have "step_spec i f (Inr (Finish [] (Some e) f1))" for e using stop [of f1] k1 by simp
    then show ?thesis using False u r(1) by (cases r) (auto simp: run_operation_def Let_def)
  next
    case True
    then obtain sz where sz: ok "r = Inr sz" by blast
    note R = r(2) [OF sz(2)]
    note D = charge_dynamic_spec [OF safe f1 f(3), of sz] 
    have l1: "op_minStack oper \<le> int (length (fr_stack f1))" using len(1) k1(4) by simp
    show ?thesis
    proof (cases "charge_dynamic oper i sz f1")
      case (Inl p)
      then show ?thesis using D l1 R sz u r(1) by (simp add: run_operation_def Let_def step_spec_def)
    next
      case (Inr x)
      obtain ok2 f2 where x: "charge_dynamic oper i sz f1 = Inr (ok2, f2)" using Inr by (cases x) auto
      have D2: "ops_to (in_be i) (fr_state f) (fr_state f2)" "gas_kept f1 f2" using D l1 R x k1(2) by auto
      have D3: "ok2 \<Longrightarrow> charged (unat sz) (fr_mem f2) \<and> unat (fr_gas f2) + ext_of c f2 \<le> unat (fr_gas f1) \<and>
        (op_halts oper \<or> op_reverts oper \<or> op_constantGas oper \<noteq> 0 \<or> unat (fr_gas f2) + ext_of c f2 < unat (fr_gas f1))"
        using D l1 R x by auto
      note k2 = gas_kept_trans [OF k1(1) D2(2)]
      show ?thesis
      proof (cases ok2)
        case False
        then show ?thesis using stop [OF D2(1) k2] x sz u r(1) by (simp add: run_operation_def Let_def)
      next
        case True
        define f3 where "f3 = (if sz > 0 then f2\<lparr>fr_mem := mem_Resize sz (fr_mem f2)\<rparr> else f2)"
        have m3: "fr_mem f3 = (if sz > 0 then mem_Resize sz (fr_mem f2) else fr_mem f2)" by (simp add: f3_def)
        have k3: "fr_state f3 = fr_state f2" "fr_stack f3 = fr_stack f" "fr_contract f3 = fr_contract f2" "fr_pc f3 = fr_pc f"
          "ext_of c f3 = ext_of c f2" using k2 by (auto simp: f3_def gas_kept_def ext_of_def callee_gas_def)
        have "mem_ok (fr_mem f3)" "unat sz \<le> length (mem_store (fr_mem f3))"
          unfolding m3 using mem_Resize_ok [OF conjunct1 [OF D3 [OF True]] conjunct1 [OF R]] by simp_all
        then have f3: "frame_ok i f3" "covered (op_memorySize oper) f3"
          using ops_to_in_tx [OF D2(1) i0] R k3 by (auto simp: frame_ok_def covered_def dest: order_trans)
        have gas: "unat (fr_gas f3) + ext_of c f3 \<le> unat (fr_gas f)" unfolding k3(3,5) using D3 [OF True] g1(1) by linarith
        have pos: "op_halts oper \<or> op_reverts oper \<or> unat (fr_gas f3) + ext_of c f3 < unat (fr_gas f)"
          unfolding k3(3,5) using D3 [OF True] g1 sz(1) by (metis le_less_trans less_le_trans)
        have "ct_Code (fr_contract f3) = ct_Code (fr_contract f)"
        proof -
          have "fr_contract f3 = (fr_contract f)\<lparr>ct_Gas := fr_gas f2\<rparr>" using k2 k3(3) by (simp add: gas_kept_def)
          from arg_cong [OF this, of ct_Code] show ?thesis by simp
        qed
        then have code3: "GetOp (ct_Code (fr_contract f3)) (fr_pc f3) = c" using code k3(4) by simp
        have "unat (fr_gas f) < 2 ^ 64" using unsigned_less [of "fr_gas f"] by (simp only: len_of_numeral_defs) simp
        then have lt: "unat (fr_gas f3) + ext_of c f3 < 2 ^ 64" using gas by linarith
        have "exec_ok c (ext_of c) (op_memorySize oper) (nat (op_minStack oper))
            (nat (1024 + op_minStack oper - op_maxStack oper)) (op_execute oper)"
          using safe by (simp add: op_safe_def Let_def)
        note ex = exec_okD [OF this f3(1) f(2) _ code3 f3(2) lt]
        have l3: "nat (op_minStack oper) \<le> length (fr_stack f3)" using len(1) k3(2) by simp
        have "0 \<le> op_minStack oper" "op_maxStack oper \<le> 1024 + op_minStack oper" using safe by (simp_all add: op_safe_def Let_def)
        then have "length (fr_stack f3) + nat (1024 + op_minStack oper - op_maxStack oper) \<le> 1024 + nat (op_minStack oper)"
          unfolding k3(2) using len(2) by linarith
        from finish_step_spec [OF ex [OF l3] _ i0 gas pos this] D2(1) k3(1) show ?thesis
          using True x sz u r(1) by (simp add: run_operation_def Let_def f3_def [symmetric])
      qed
    qed
  qed
qed

lemma interp_step_spec:
  assumes safe: "jt_safe eip jt" and f: "frame_ok i f" "calls_ok i" "eip \<longrightarrow> r_IsEIP150 (in_rules i)"
  shows "step_spec i f (interp_step jt i f)"
proof -
  let ?c = "GetOp (ct_Code (fr_contract f)) (fr_pc f)" and ?l = "int (length (fr_stack f))"
  have stop: "step_spec i f (Inr (Finish ret err f))" for ret err by (simp add: step_spec_stop)
  show ?thesis
  proof (cases "gm_get jt ?c")
    case None
    then show ?thesis using stop by (simp add: interp_step_def Let_def)
  next
    case (Some oper)
    have s: "op_safe eip ?c oper" using gm_get_in [OF Some] safe by (auto simp: jt_safe_def)
    show ?thesis
    proof (cases "?l < op_minStack oper \<or> ?l > op_maxStack oper")
      case True
      then show ?thesis using Some stop by (auto simp: interp_step_def Let_def)
    next
      case False
      then have run: "step_spec i f (run_operation oper i f)" using run_operation_spec [OF s f] by auto
      have "2 < length (fr_stack f)" if "?c = OP_CALL"
      proof -
        have "code_shape ?c = Some (7, True)" using that by (simp add: code_shape_def)
        then have "7 \<le> nat (op_minStack oper)" using s unfolding op_safe_def Let_def by blast
        then show ?thesis using False by linarith
      qed
      then show ?thesis using Some False run stop by (auto simp: interp_step_def Let_def)
    qed
  qed
qed


text \<open>The rules of a chain whose forks are in order.\<close>

definition vm_rules :: "EVM \<Rightarrow> bool" where
  "vm_rules evm \<longleftrightarrow> (r_IsBerlin (evm_chainRules evm) \<or> r_IsLondon (evm_chainRules evm) \<longrightarrow> r_IsEIP150 (evm_chainRules evm))"

lemma NewMemory_ok: "mem_ok NewMemory"
  by (simp add: NewMemory_def charged_def mem_sized_def mem_words_def mem_fee_def)

definition demo_u256 :: uint256_lib where
  "demo_u256 = \<lparr>ul_Div = (div), ul_SDiv = (div), ul_Mod = (\<lambda>x y. if y = 0 then 0 else x mod y), ul_SMod = (\<lambda>x y. 0),
     ul_Exp = (\<lambda>x y. x ^ unat y), ul_ExtendSign = (\<lambda>x b. x), ul_Byte = (\<lambda>x n. 0), ul_AddMod = (\<lambda>x y m. 0),
     ul_MulMod = (\<lambda>x y m. 0), ul_SRsh = (\<lambda>x n. drop_bit n x)\<rparr>"

definition demo_vc :: vm_config where
  "demo_vc = \<lparr>vc_be = demo_be, vc_u256 = demo_u256, vc_env = demo_env, vc_preimages = False, vc_abort = (\<lambda>_. False)\<rparr>"

lemma demo_vm_rules: "vm_rules demo_evm"
  unfolding vm_rules_def by code_simp

lemma demo_create_reads: "create_reads demo_be demo_evm"
  by (simp add: create_reads_def may_create_def demo_evm_def NewEVM_def)

definition demo_interp :: interp where
  "demo_interp = \<lparr>in_be = demo_be, in_u256 = demo_u256, in_evm = demo_evm, in_env = demo_env, in_readOnly = False, in_preimages = False\<rparr>"

text \<open>C13. Every step keeps the frame well formed.  Under the table of any fork, a step from a frame with a memory of paid
  whole words, a state that can be reverted and well-behaved nested runs ends the run or leads to such a frame again,
  with at most 1024 stack items and strictly less gas; it never goes out of the range of stack, memory or code.\<close>

theorem step_keeps_frame:
  assumes "frame_ok i f" "calls_ok i" "vm_rules (in_evm i)"
    and "interp_step (instruction_set (in_rules i)) i f = r"
  shows "case r of
      Inl p \<Rightarrow> p \<notin> {StackFault, MemoryFault, AccessListFault, FuelFault}
    | Inr (Finish ret err f') \<Rightarrow> unat (fr_gas f') \<le> unat (fr_gas f)
    | Inr (Continue f') \<Rightarrow> frame_ok i f' \<and> length (fr_stack f') \<le> 1024 \<and> unat (fr_gas f') < unat (fr_gas f)"
proof -
  have "r_IsBerlin (in_rules i) \<or> r_IsLondon (in_rules i) \<longrightarrow> r_IsEIP150 (in_rules i)" using assms(3) by (simp add: vm_rules_def)
  from interp_step_spec [OF instruction_set_safe assms(1,2) this] show ?thesis
    using assms(4) by (auto simp: step_spec_def soft_panics_def split: sum.split step_result.split)
qed

theorem step_keeps_frame_witness:
  "let i = demo_interp; f = new_frame ((NewContract (AccountRef 8) 7 (Some 0) 90000)\<lparr>ct_Code := [0x50]\<rparr>) [] (state_New None)
   in interp_step (instruction_set (in_rules i)) i f \<noteq> Inl StackFault"
proof -
  let ?f = "new_frame ((NewContract (AccountRef 8) 7 (Some 0) 90000)\<lparr>ct_Code := [0x50]\<rparr>) [] (state_New None)"
  have d: "in_be demo_interp = demo_be" "in_env demo_interp = demo_env" "in_evm demo_interp = demo_evm" by (simp_all add: demo_interp_def)
  have "frame_ok demo_interp ?f" using demo_in_tx NewMemory_ok by (simp add: frame_ok_def new_frame_def d)
  moreover have "calls_ok demo_interp" by (simp add: calls_ok_def d demo_interp_ok demo_create_reads)
  moreover have "vm_rules (in_evm demo_interp)" by (simp add: d demo_vm_rules)
  ultimately show ?thesis using step_keeps_frame [of demo_interp ?f] by (auto simp: Let_def)
qed

subsection \<open>The loop\<close>

lemma interp_loop_spec:
  assumes "jt_safe eip jt" "calls_ok i" "eip \<longrightarrow> r_IsEIP150 (in_rules i)" "frame_ok i f" "unat (fr_gas f) < fuel"
  shows "(\<forall>p. interp_loop fuel n abort jt i f = Inl p \<longrightarrow> p \<in> soft_panics) \<and>
    (\<forall>ret err f'. interp_loop fuel n abort jt i f = Inr (ret, err, f') \<longrightarrow>
      ops_to (in_be i) (fr_state f) (fr_state f') \<and> unat (fr_gas f') \<le> unat (fr_gas f))"
  using assms(4,5)
proof (induction fuel arbitrary: n f)
  case (Suc fuel)
  note s = interp_step_spec [OF assms(1) Suc.prems(1) assms(2,3)]
  show ?case
  proof (cases "interp_step jt i f")
    case (Inl p)
    then show ?thesis using s by (simp add: step_spec_def)
  next
    case (Inr r)
    show ?thesis
    proof (cases r)
      case (Continue f')
      have c: "ops_to (in_be i) (fr_state f) (fr_state f')" "unat (fr_gas f') < unat (fr_gas f)" "frame_ok i f'"
        using s Inr Continue by (auto simp: step_spec_def)
      have "unat (fr_gas f') < fuel" using c(2) Suc.prems(2) by simp
      note ih = Suc.IH [OF c(3) this, of "Suc n"]
      show ?thesis using ih c(2) Inr Continue ops_to_trans [OF c(1)] by auto
    next
      case (Finish ret err f')
      then show ?thesis using s Inr by (auto simp: step_spec_def)
    qed
  qed
qed simp

lemma depth_irrelevant:
  "interp_ok be env (evm\<lparr>evm_depth := n\<rparr>) = interp_ok be env evm" "create_reads be (evm\<lparr>evm_depth := n\<rparr>) = create_reads be evm"
  "vm_rules (evm\<lparr>evm_depth := n\<rparr>) = vm_rules evm"
proof -
  have "may_create (evm\<lparr>evm_depth := n\<rparr>) = may_create evm" by (auto simp: may_create_def fun_eq_iff split: option.split)
  then show "create_reads be (evm\<lparr>evm_depth := n\<rparr>) = create_reads be evm" by (simp add: create_reads_def)
qed (simp_all add: interp_ok_def vm_rules_def)

lemma run_frame_spec:
  assumes "in_tx (vc_be vc) s" "create_reads (vc_be vc) evm" "vm_rules evm"
    and nested: "\<And>ro. interp_ok (vc_be vc) ((vc_env vc)\<lparr>ee_Run := nested ro\<rparr>) evm"
  shows "(\<forall>p. run_frame vc nested ro evm c input readOnly s = Inl p \<longrightarrow> p \<in> soft_panics) \<and>
    (\<forall>ret err gas s'. run_frame vc nested ro evm c input readOnly s = Inr (ret, err, gas, s') \<longrightarrow> ops_to (vc_be vc) s s' \<and> gas \<le> ct_Gas c)"
proof (cases "ct_Code c = []")
  case True
  then show ?thesis by (simp add: run_frame_def Let_def)
next
  case False
  let ?i = "\<lparr>in_be = vc_be vc, in_u256 = vc_u256 vc, in_evm = evm\<lparr>evm_depth := evm_depth evm + 1\<rparr>, in_env = (vc_env vc)\<lparr>ee_Run := nested (ro \<or> readOnly)\<rparr>,
    in_readOnly = ro \<or> readOnly, in_preimages = vc_preimages vc\<rparr>"
  let ?f = "new_frame c input s"
  have f: "frame_ok ?i ?f" using assms(1) NewMemory_ok by (simp add: frame_ok_def new_frame_def)
  have i: "calls_ok ?i" using nested assms(2) by (simp add: calls_ok_def depth_irrelevant)
  have r: "r_IsBerlin (evm_chainRules evm) \<or> r_IsLondon (evm_chainRules evm) \<longrightarrow> r_IsEIP150 (in_rules ?i)"
    using assms(3) by (simp add: vm_rules_def)
  have g: "fr_gas ?f = ct_Gas c" "fr_state ?f = s" by (simp_all add: new_frame_def)
  let ?l = "interp_loop (Suc (unat (ct_Gas c))) 0 (vc_abort vc) (instruction_set (evm_chainRules evm)) ?i ?f"
  have "run_frame vc nested ro evm c input readOnly s = rbind ?l (\<lambda>(ret, err, f). Inr (ret, err, fr_gas f, fr_state f))"
    using False by (simp add: run_frame_def Let_def del: interp_loop.simps)
  then show ?thesis
    using interp_loop_spec [OF instruction_set_safe i r f, of "Suc (unat (ct_Gas c))" 0 "vc_abort vc"] g
    by (cases ?l) (auto simp del: interp_loop.simps simp: word_le_nat_alt split: prod.splits)
qed

lemma Run_at_ok:
  assumes "create_reads (vc_be vc) evm" "vm_rules evm"
  shows "interp_ok (vc_be vc) ((vc_env vc)\<lparr>ee_Run := Run_at d vc ro\<rparr>) evm"
proof (induction d arbitrary: ro)
  case 0
  then show ?case by (simp add: interp_ok_def)
next
  case (Suc d)
  have "ops_to (vc_be vc) s s' \<and> gas \<le> ct_Gas c"
    if "in_tx (vc_be vc) s" "Run_at (Suc d) vc ro (evm\<lparr>evm_depth := n\<rparr>) c input readOnly s = Some (ret, err, gas, s')"
    for n c input readOnly s ret err gas s'
    using run_frame_spec [OF that(1), of "evm\<lparr>evm_depth := n\<rparr>" "Run_at d vc" ro c input readOnly] Suc.IH assms that(2)
    by (auto simp: depth_irrelevant split: sum.splits)
  then show ?case by (simp add: interp_ok_def del: Run_at.simps)
qed

text \<open>C11. A run of the interpreter is safe.  For every code, input, gas and depth, and under the rules of any chain whose
  forks are in order, the loop ends within one step per unit of gas (its fuel), never pops an empty stack, never
  accesses memory, call data or code out of range and never finds the access list inconsistent; when it returns, it
  has acted on the state through its operations only and has not gained gas.  The panics that remain are those of
  \<open>soft_panics\<close>.\<close>

theorem interpreter_safe:
  assumes "in_tx (vc_be vc) s" "create_reads (vc_be vc) evm" "vm_rules evm"
    and "r = run_frame vc (Run_at d vc) inReadOnly evm contract input readOnly s"
  shows "(\<exists>p. r = Inl p \<and> p \<notin> {StackFault, MemoryFault, AccessListFault, FuelFault}) \<or>
    (\<exists>ret err gas s'. r = Inr (ret, err, gas, s') \<and> ops_to (vc_be vc) s s' \<and> gas \<le> ct_Gas contract)"
proof (cases r)
  case (Inl p)
  then have "p \<in> soft_panics" using run_frame_spec [OF assms(1-3), of "Run_at d vc" inReadOnly contract input readOnly, OF Run_at_ok [OF assms(2,3)]] assms(4) by simp
  then show ?thesis using Inl by (auto simp: soft_panics_def)
next
  case (Inr x)
  obtain ret err gas s' where "r = Inr (ret, err, gas, s')" using Inr by (cases x) auto
  then show ?thesis using run_frame_spec [OF assms(1-3), of "Run_at d vc" inReadOnly contract input readOnly, OF Run_at_ok [OF assms(2,3)]] assms(4) by simp
qed

theorem interpreter_safe_witness:
  "let r = run_frame demo_vc (Run_at 1024 demo_vc) False demo_evm
      ((NewContract (AccountRef 8) 7 (Some 0) 90000)\<lparr>ct_Code := [0x5b, 0x60, 0, 0x56]\<rparr>) [] False (state_New None)
   in r \<noteq> Inl FuelFault \<and> r \<noteq> Inl StackFault"
proof -
  have d: "vc_be demo_vc = demo_be" by (simp add: demo_vc_def)
  have "in_tx (vc_be demo_vc) (state_New None)" "create_reads (vc_be demo_vc) demo_evm"
    by (simp_all add: d demo_in_tx demo_create_reads)
  from interpreter_safe [OF this demo_vm_rules refl, of 1024 False "(NewContract (AccountRef 8) 7 (Some 0) 90000)\<lparr>ct_Code := [0x5b, 0x60, 0, 0x56]\<rparr>" "[]" False]
  show ?thesis unfolding Let_def by auto
qed

end
