(* ===== verification/Text_Format.thy ===== *)
theory Text_Format
  imports Congress_Base
begin

text \<open>
  The text forms that signed messages are made of: hexadecimal and decimal numbers, addresses with the checksum of
  EIP-55 (\<^verbatim>\<open>common/types.go\<close>), quantities (\<^verbatim>\<open>common/hexutil/hexutil.go\<close>) and the prefix of signed messages
  (\<^verbatim>\<open>accounts/accounts.go\<close>).  A Go string is its bytes.  Every form is injective and free of the separator \<^verbatim>\<open>:\<close>, so
  a list of fields can be read back from the text that joins them.
\<close>

subsection \<open>Numbers as text\<close>

definition ascii :: "string \<Rightarrow> bytes" where
  "ascii = map of_char"

text \<open>The digits of \<^verbatim>\<open>encoding/hex\<close>, \<^verbatim>\<open>big.Int.Text\<close> and the verb \<^verbatim>\<open>%d\<close> of \<^verbatim>\<open>fmt\<close>.\<close>

definition hexdigit :: "nat \<Rightarrow> byte" where
  "hexdigit d = (if d < 10 then of_nat (48 + d) else of_nat (87 + d))"

definition hex_Encode :: "bytes \<Rightarrow> bytes" where
  "hex_Encode bs = concat (map (\<lambda>b. [hexdigit (unat b div 16), hexdigit (unat b mod 16)]) bs)"

fun text_digits :: "nat \<Rightarrow> nat \<Rightarrow> bytes" where
  "text_digits base n =
    (if n < base \<or> base < 2 then [hexdigit n] else text_digits base (n div base) @ [hexdigit (n mod base)])"

declare text_digits.simps [simp del]

definition big_Text :: "nat \<Rightarrow> int \<Rightarrow> bytes" where
  "big_Text base i = (if i < 0 then 45 # text_digits base (nat (- i)) else text_digits base (nat i))"

definition uint64_text :: "u64 \<Rightarrow> bytes" where
  "uint64_text x = text_digits 10 (unat x)"

definition hexutil_Encode :: "bytes \<Rightarrow> bytes" where
  "hexutil_Encode b = ascii ''0x'' @ hex_Encode b"

text \<open>\<open>None\<close> is the panic on a nil pointer.\<close>

definition EncodeBig :: "bigint \<Rightarrow> bytes option" where
  "EncodeBig b =
    (case b of
       None \<Rightarrow> None
     | Some i \<Rightarrow>
         if i = 0 then Some (ascii ''0x0'')
         else if i > 0 then Some (ascii ''0x'' @ big_Text 16 i)
         else Some (ascii ''-0x'' @ drop 1 (big_Text 16 i)))"

subsection \<open>Addresses and hashes as text\<close>

definition hash_Hex :: "hash \<Rightarrow> bytes" where
  "hash_Hex h = hexutil_Encode (hash_bytes h)"

definition address_hex :: "address \<Rightarrow> bytes" where
  "address_hex a = ascii ''0x'' @ hex_Encode (address_bytes a)"

definition checksum_byte :: "bytes \<Rightarrow> nat \<Rightarrow> byte \<Rightarrow> byte" where
  "checksum_byte h i b =
    (let hashByte = h ! ((i - 2) div 2);
         hashByte = (if i mod 2 = 0 then drop_bit 4 hashByte else hashByte AND 15)
     in if b > 57 \<and> hashByte > 7 then b - 32 else b)"

definition checksumHex :: "keccak \<Rightarrow> address \<Rightarrow> bytes" where
  "checksumHex kec a =
    (let buf = address_hex a; h = hash_bytes (kec (drop 2 buf))
     in take 2 buf @ map (\<lambda>i. checksum_byte h i (buf ! i)) [2..<length buf])"

definition address_Hex :: "keccak \<Rightarrow> address \<Rightarrow> bytes" where
  "address_Hex kec a = checksumHex kec a"

definition strings_ToLower :: "bytes \<Rightarrow> bytes" where
  "strings_ToLower = map (\<lambda>b. if 65 \<le> b \<and> b \<le> 90 then b + 32 else b)"

text \<open>The hash of a text with the prefix for signed messages; \<^verbatim>\<open>TextAndHash\<close> returns the text too.\<close>

definition TextAndHash :: "keccak \<Rightarrow> bytes \<Rightarrow> hash \<times> bytes" where
  "TextAndHash kec data =
    (let msg = 25 # ascii ''Ethereum Signed Message:'' @ [10] @ text_digits 10 (length data) @ data in (kec msg, msg))"

definition TextHash :: "keccak \<Rightarrow> bytes \<Rightarrow> hash" where
  "TextHash kec data = fst (TextAndHash kec data)"

subsection \<open>Reading the texts back\<close>

lemma ascii_simps [simp]: "ascii [] = []" "ascii (c # s) = of_char c # ascii s"
  by (simp_all add: ascii_def)

text \<open>The value of a digit, and the characters that occur in numbers.\<close>

definition digit_val :: "byte \<Rightarrow> nat" where
  "digit_val b = (if b < 58 then unat b - 48 else unat b - 87)"

definition text_byte :: "byte \<Rightarrow> bool" where
  "text_byte b \<longleftrightarrow> b = 45 \<or> 48 \<le> b \<and> b \<le> 57 \<or> 65 \<le> b \<and> b \<le> 70 \<or> 97 \<le> b \<and> b \<le> 102 \<or> b = 120"

lemma hexdigit_cases: "(d :: nat) < 16 \<Longrightarrow> d \<in> {0,1,2,3,4,5,6,7,8,9,10,11,12,13,14,15}"
  by simp presburger

lemma hexdigit_vals:
  "hexdigit 0 = 48" "hexdigit (Suc 0) = 49" "hexdigit 2 = 50" "hexdigit 3 = 51" "hexdigit 4 = 52" "hexdigit 5 = 53" "hexdigit 6 = 54" "hexdigit 7 = 55"
  "hexdigit 8 = 56" "hexdigit 9 = 57" "hexdigit 10 = 97" "hexdigit 11 = 98" "hexdigit 12 = 99" "hexdigit 13 = 100" "hexdigit 14 = 101" "hexdigit 15 = 102"
  by (simp_all add: hexdigit_def)

lemma text_byte_vals [simp]: "text_byte 45" "text_byte 48" "text_byte 120"
  by (simp_all add: text_byte_def)

lemma digit_val_hexdigit [simp]: "d < 16 \<Longrightarrow> digit_val (hexdigit d) = d"
  by (drule hexdigit_cases) (elim insertE emptyE; simp add: digit_val_def hexdigit_vals)

lemma text_byte_hexdigit: "d < 16 \<Longrightarrow> text_byte (hexdigit d)"
  by (drule hexdigit_cases) (elim insertE emptyE; simp add: text_byte_def hexdigit_vals)

lemma hexdigit_lower: "d < 16 \<Longrightarrow> \<not> (65 \<le> hexdigit d \<and> hexdigit d \<le> 90) \<and> hexdigit d \<noteq> 45 \<and> hexdigit d \<noteq> 120"
  by (drule hexdigit_cases) (elim insertE emptyE; simp add: hexdigit_vals)

definition digits_val :: "nat \<Rightarrow> bytes \<Rightarrow> nat" where
  "digits_val base bs = foldl (\<lambda>n b. n * base + digit_val b) 0 bs"

lemma digits_val_text: "2 \<le> base \<Longrightarrow> base \<le> 16 \<Longrightarrow> digits_val base (text_digits base n) = n"
proof (induction base n rule: text_digits.induct)
  case (1 base n)
  have "n mod base < 16" using 1(2,3) mod_less_divisor [of base n] by linarith
  then show ?case using 1 by (subst text_digits.simps) (auto simp: digits_val_def)
qed

lemma text_digits_inj: "2 \<le> base \<Longrightarrow> base \<le> 16 \<Longrightarrow> text_digits base m = text_digits base n \<longleftrightarrow> m = n"
  by (metis digits_val_text)

lemma text_digits_bytes: "base \<le> 16 \<Longrightarrow> 2 \<le> base \<Longrightarrow> b \<in> set (text_digits base n) \<Longrightarrow> text_byte b \<and> b \<noteq> 45"
proof (induction base n rule: text_digits.induct)
  case (1 base n)
  show ?case
  proof (cases "n < base")
    case True
    then show ?thesis using 1(2-4) text_byte_hexdigit [of n] hexdigit_lower [of n]
      by (auto simp: text_digits.simps [of base n])
  next
    case False
    have "n mod base < 16" using 1(2,3) mod_less_divisor [of base n] by linarith
    then show ?thesis using 1 False text_byte_hexdigit [of "n mod base"] hexdigit_lower [of "n mod base"]
      by (auto simp: text_digits.simps [of base n])
  qed
qed

lemma hex_Encode_simps [simp]:
  "hex_Encode [] = []" "hex_Encode (b # bs) = hexdigit (unat b div 16) # hexdigit (unat b mod 16) # hex_Encode bs"
  by (simp_all add: hex_Encode_def)

lemma byte_nibbles: "unat (b :: byte) div 16 < 16" "unat (b :: byte) mod 16 < 16"
proof -
  have "unat b < 256" using unat_lt2p [of b] by simp
  then show "unat b div 16 < 16" "unat b mod 16 < 16" by (simp_all add: less_mult_imp_div_less)
qed

lemma hexdigit_inj: "d < 16 \<Longrightarrow> e < 16 \<Longrightarrow> hexdigit d = hexdigit e \<longleftrightarrow> d = e"
  by (metis digit_val_hexdigit)

lemma hex_Encode_inj: "hex_Encode xs = hex_Encode ys \<longleftrightarrow> xs = ys"
proof (induction xs arbitrary: ys)
  case (Cons x xs)
  have "hexdigit (unat x div 16) = hexdigit (unat y div 16) \<and> hexdigit (unat x mod 16) = hexdigit (unat y mod 16) \<longleftrightarrow> x = y" for y
    using byte_nibbles [of x] byte_nibbles [of y] hexdigit_inj by (metis div_mult_mod_eq unsigned_word_eqI)
  then show ?case by (cases ys) (auto simp: Cons.IH)
qed (case_tac ys; simp)

lemma length_hex_Encode [simp]: "length (hex_Encode bs) = 2 * length bs"
  by (induction bs) auto

lemma hex_Encode_bytes: "b \<in> set (hex_Encode bs) \<Longrightarrow> \<exists>d<16. b = hexdigit d"
  by (induction bs) (auto intro: byte_nibbles)

lemma hash_Hex_bytes: "b \<in> set (hash_Hex h) \<Longrightarrow> text_byte b"
  by (auto simp: hash_Hex_def hexutil_Encode_def dest!: hex_Encode_bytes intro: text_byte_hexdigit)

lemma hash_Hex_inj: "hash_Hex h = hash_Hex h' \<longleftrightarrow> h = h'"
  using hash_bytes_inj by (simp add: hash_Hex_def hexutil_Encode_def hex_Encode_inj)

text \<open>The checksum changes the case of letters only, so the lower case of an address is its plain form.\<close>

lemma ToLower_append [simp]: "strings_ToLower (xs @ ys) = strings_ToLower xs @ strings_ToLower ys"
  by (simp add: strings_ToLower_def)

lemma checksum_byte_cases: "checksum_byte h i b = b \<or> 57 < b \<and> checksum_byte h i b = b - 32"
  by (simp add: checksum_byte_def Let_def)

lemma lower_hexdigit:
  assumes "d < 16" "b = hexdigit d \<or> 57 < hexdigit d \<and> b = hexdigit d - 32"
  shows "(if 65 \<le> b \<and> b \<le> 90 then b + 32 else b) = hexdigit d" "text_byte b"
  using assms(2) hexdigit_cases [OF assms(1)] by (elim disjE conjE insertE emptyE; simp add: hexdigit_vals text_byte_def)+

lemma lower_checksum_byte:
  assumes "d < 16"
  shows "(if 65 \<le> checksum_byte h i (hexdigit d) \<and> checksum_byte h i (hexdigit d) \<le> 90
      then checksum_byte h i (hexdigit d) + 32 else checksum_byte h i (hexdigit d)) = hexdigit d"
    "text_byte (checksum_byte h i (hexdigit d))"
  using lower_hexdigit [OF assms checksum_byte_cases] by blast+

lemma address_hex_nth: "i < 40 \<Longrightarrow> \<exists>d<16. address_hex a ! (i + 2) = hexdigit d"
  using hex_Encode_bytes [of _ "address_bytes a"] by (simp add: address_hex_def numeral_2_eq_2 nth_mem)

lemma length_address_hex [simp]: "length (address_hex a) = 42"
  by (simp add: address_hex_def)

lemma address_Hex_nth:
  "i < 42 \<Longrightarrow> address_Hex kec a ! i =
    (if i < 2 then address_hex a ! i else checksum_byte (hash_bytes (kec (drop 2 (address_hex a)))) i (address_hex a ! i))"
  using nth_upt [of 2 "i - 2" 42] by (auto simp: address_Hex_def checksumHex_def Let_def nth_append min_def Suc_diff_Suc numeral_2_eq_2 simp del: upt_rec_numeral nth_upt)

lemma length_address_Hex [simp]: "length (address_Hex kec a) = 42"
  by (simp add: address_Hex_def checksumHex_def Let_def min_def del: upt_rec_numeral)

lemma address_hex_byte:
  assumes "i < 42" "\<not> i < 2"
  obtains d where "d < 16" "address_hex a ! i = hexdigit d"
proof -
  have "i - 2 < 40" "i - 2 + 2 = i" using assms by auto
  then show ?thesis using address_hex_nth [of "i - 2" a] that by metis
qed

lemma address_hex_prefix: "i < 2 \<Longrightarrow> address_hex a ! i = (if i = 0 then 48 else 120)"
  by (auto simp: address_hex_def less_2_cases_iff)

lemma ToLower_address_Hex: "strings_ToLower (address_Hex kec a) = address_hex a"
proof (rule nth_equalityI)
  show "length (strings_ToLower (address_Hex kec a)) = length (address_hex a)" by (simp add: strings_ToLower_def)
  fix i assume "i < length (strings_ToLower (address_Hex kec a))"
  then have i: "i < 42" by (simp add: strings_ToLower_def)
  show "strings_ToLower (address_Hex kec a) ! i = address_hex a ! i"
  proof (cases "i < 2")
    case True
    then show ?thesis using i by (simp add: strings_ToLower_def address_Hex_nth address_hex_prefix)
  next
    case False
    obtain d where d: "d < 16" "address_hex a ! i = hexdigit d" using address_hex_byte [OF i False] .
    then show ?thesis using lower_checksum_byte(1) [OF d(1), of "hash_bytes (kec (drop 2 (address_hex a)))" i] False i by (simp add: strings_ToLower_def address_Hex_nth split: if_split_asm)
  qed
qed

lemma address_hex_inj: "address_hex a = address_hex b \<longleftrightarrow> a = b"
  using address_bytes_inj by (simp add: address_hex_def hex_Encode_inj)

lemma address_Hex_inj: "address_Hex kec a = address_Hex kec b \<longleftrightarrow> a = b"
  by (metis ToLower_address_Hex address_hex_inj)

lemma address_hex_bytes: "b \<in> set (address_hex a) \<Longrightarrow> text_byte b"
  by (auto simp: address_hex_def dest!: hex_Encode_bytes intro: text_byte_hexdigit)

lemma address_Hex_bytes:
  assumes "b \<in> set (address_Hex kec a)"
  shows "text_byte b"
proof -
  obtain i where i: "i < 42" "b = address_Hex kec a ! i" using assms by (auto simp: in_set_conv_nth)
  show ?thesis
  proof (cases "i < 2")
    case True
    then show ?thesis using i by (simp add: address_Hex_nth address_hex_prefix)
  next
    case False
    obtain d where "d < 16" "address_hex a ! i = hexdigit d" using address_hex_byte [OF i(1) False] .
    then show ?thesis using i False lower_checksum_byte(2) by (simp add: address_Hex_nth)
  qed
qed

lemma uint64_text_bytes: "b \<in> set (uint64_text x) \<Longrightarrow> text_byte b"
  using text_digits_bytes [of 10] by (simp add: uint64_text_def)

lemma uint64_text_inj: "uint64_text x = uint64_text y \<longleftrightarrow> x = y"
  by (simp add: uint64_text_def text_digits_inj word_unat_eq_iff)

lemma EncodeBig_bytes: "EncodeBig v = Some t \<Longrightarrow> b \<in> set t \<Longrightarrow> text_byte b"
  using text_digits_bytes [of 16] by (auto simp: EncodeBig_def big_Text_def split: option.splits if_splits)

lemma text_digits_not0: "2 \<le> base \<Longrightarrow> base \<le> 16 \<Longrightarrow> 0 < n \<Longrightarrow> text_digits base n \<noteq> [48]"
  using digits_val_text [of base n] by (auto simp: digits_val_def digit_val_def)

lemma EncodeBig_inj:
  assumes "EncodeBig v = Some t" "EncodeBig v' = Some t"
  shows "v = v'"
proof -
  obtain i j where ij: "v = Some i" "v' = Some j" using assms by (auto simp: EncodeBig_def split: option.splits)
  have n: "text_digits 16 (nat k) \<noteq> [48]" if "0 < k" for k using text_digits_not0 [of 16 "nat k"] that by simp
  have "i = j"
  proof (cases "0 < i"; cases "0 < j")
    assume "0 < i" "0 < j"
    then have "text_digits 16 (nat i) = text_digits 16 (nat j)" using assms ij by (simp add: EncodeBig_def big_Text_def) (metis list.inject)
    then show ?thesis using \<open>0 < i\<close> \<open>0 < j\<close> text_digits_inj [of 16 "nat i" "nat j"] by simp
  next
    assume "0 < i" "\<not> 0 < j"
    then show ?thesis using assms ij n [of i] by (auto simp: EncodeBig_def big_Text_def split: if_splits)
  next
    assume "\<not> 0 < i" "0 < j"
    then show ?thesis using assms ij n [of j] by (auto simp: EncodeBig_def big_Text_def split: if_splits)
  next
    assume n: "\<not> 0 < i" "\<not> 0 < j"
    show ?thesis
    proof (cases "i = 0 \<or> j = 0")
      case True
      then show ?thesis
      proof
        assume "i = 0"
        then have "t = ascii ''0x0''" using assms(1) ij by (simp add: EncodeBig_def)
        then show ?thesis using assms(2) ij n \<open>i = 0\<close> by (cases "j = 0") (simp_all add: EncodeBig_def)
      next
        assume "j = 0"
        then have "t = ascii ''0x0''" using assms(2) ij by (simp add: EncodeBig_def)
        then show ?thesis using assms(1) ij n \<open>j = 0\<close> by (cases "i = 0") (simp_all add: EncodeBig_def)
      qed
    next
      case False
      then have "text_digits 16 (nat (- i)) = text_digits 16 (nat (- j))" using assms ij n by (simp add: EncodeBig_def big_Text_def) (metis list.inject)
      then show ?thesis using n text_digits_inj [of 16 "nat (- i)" "nat (- j)"] by simp
    qed
  qed
  then show ?thesis using ij by simp
qed

text \<open>Fields that are joined by a separator which none of them contains can be read back.\<close>

definition joined :: "byte \<Rightarrow> bytes list \<Rightarrow> bytes" where
  "joined sep fs = concat (map (\<lambda>f. sep # f) fs)"

lemma joined_inj:
  "\<forall>f\<in>set fs. sep \<notin> set f \<Longrightarrow> \<forall>f\<in>set gs. sep \<notin> set f \<Longrightarrow> joined sep fs = joined sep gs \<Longrightarrow> fs = gs"
proof (induction fs arbitrary: gs)
  case Nil
  then show ?case by (cases gs) (auto simp: joined_def)
next
  case (Cons f fs)
  then obtain g gs' where gs: "gs = g # gs'" by (cases gs) (auto simp: joined_def)
  have hd: "joined sep hs = [] \<or> (\<exists>r. joined sep hs = sep # r)" for hs by (cases hs) (auto simp: joined_def)
  have tw: "takeWhile (\<lambda>b. b \<noteq> sep) (h @ joined sep hs) = h \<and> dropWhile (\<lambda>b. b \<noteq> sep) (h @ joined sep hs) = joined sep hs"
    if "sep \<notin> set h" for h hs
  proof -
    have "\<forall>b\<in>set h. b \<noteq> sep" using that by auto
    then have "takeWhile (\<lambda>b. b \<noteq> sep) (h @ joined sep hs) = h @ takeWhile (\<lambda>b. b \<noteq> sep) (joined sep hs)"
      "dropWhile (\<lambda>b. b \<noteq> sep) (h @ joined sep hs) = dropWhile (\<lambda>b. b \<noteq> sep) (joined sep hs)"
      by (simp_all add: takeWhile_append2 dropWhile_append2)
    then show ?thesis using hd [of hs] by auto
  qed
  have eq: "f @ joined sep fs = g @ joined sep gs'" using Cons.prems(3) gs by (simp add: joined_def)
  have "sep \<notin> set f" "sep \<notin> set g" using Cons.prems(1,2) gs by auto
  then have "f = g" "joined sep fs = joined sep gs'" using tw [of f fs, unfolded eq] tw [of g gs'] by metis+
  moreover have "fs = gs'" using Cons.IH [of gs'] Cons.prems(1,2) gs calculation(2) by simp
  ultimately show ?case using gs by simp
qed

end
