(* ===== verification/X402.thy ===== *)
theory X402
  imports Text_Format Congress_Finalize
begin

text \<open>
  The x402 payments API (\<^verbatim>\<open>eth/api_x402.go\<close>) with its transaction envelope (\<^verbatim>\<open>core/types/x402_tx.go\<close>) and the manager that
  broadcasts envelopes (\<^verbatim>\<open>eth/handler_x402_fix.go\<close>).  \<open>Verify\<close> is exact, the signed text binds every field of a
  payment, a nonce is accepted at most once in any order of calls; but no settlement can succeed, and without the strict mode a
  signature is good on every network.

  The state at the head of the chain, the result of an \<^verbatim>\<open>eth_call\<close>, the clock and the transaction pool are fields of \<open>x402_env\<close>.
  The clock is read up to three times in a call.  A nil dereference is \<open>None\<close>.
\<close>

subsection \<open>Data\<close>

record PaymentRequirements =
  pr_Scheme :: string
  pr_Network :: string
  pr_MaxAmountRequired :: bigint
  pr_Resource :: string
  pr_Description :: string
  pr_MimeType :: string
  pr_PayTo :: address
  pr_MaxTimeoutSeconds :: u64
  pr_Asset :: address

record PermitData =
  pm_Value :: bigint
  pm_Deadline :: bigint
  pm_V :: u8
  pm_R :: bytes
  pm_S :: bytes

record PaymentPayloadData =
  pp_From :: address
  pp_To :: address
  pp_Value :: bigint
  pp_ValidAfter :: u64
  pp_ValidBefore :: u64
  pp_Nonce :: hash
  pp_Asset :: address
  pp_Signature :: bytes
  pp_Permit :: "PermitData option"

record PaymentPayload =
  py_X402Version :: int
  py_Scheme :: string
  py_Network :: string
  py_Payload :: PaymentPayloadData

record VerificationResponse =
  vr_IsValid :: bool
  vr_InvalidReason :: string
  vr_PayerAddress :: bytes

record SettlementResponse =
  sr_Success :: bool
  sr_Error :: string
  sr_TxHash :: hash
  sr_NetworkId :: string

record PaymentKind =
  pk_Scheme :: string
  pk_Network :: string

record x402_env =
  xe_crypto :: crypto
  xe_networkID :: u64
  xe_chainID :: bigint
  xe_be :: backend
  xe_State :: "StateDB option"
  xe_DoCall :: "address \<Rightarrow> bytes \<Rightarrow> ExecutionResult option"
  xe_now :: u64
  xe_now_permit :: u64
  xe_now_mark :: u64
  xe_AddLocal :: "Transaction \<Rightarrow> string option"

subsection \<open>The envelope\<close>

definition NewX402Tx :: "bigint \<Rightarrow> u64 \<Rightarrow> address option \<Rightarrow> bytes \<Rightarrow> int \<Rightarrow> Transaction option" where
  "NewX402Tx chainID nonce to payload now =
    (case chainID of
       None \<Rightarrow> None
     | Some c \<Rightarrow> Some \<lparr>tx_inner = TxX402 \<lparr>xt_ChainID = c, xt_Nonce = nonce, xt_To = to, xt_Value = 0, xt_Gas = 8000000,
         xt_GasPrice = 4000000000, xt_GasFeeCap = 4000000000, xt_GasTipCap = 4000000000, xt_Input = payload,
         xt_V = 0, xt_R = 0, xt_S = 0\<rparr>, tx_time = now\<rparr>)"

subsection \<open>The broadcast manager\<close>

text \<open>The channel of the worker holds at most 100 transactions; a send to a full channel drops the transaction.\<close>

record X402BroadcastManager =
  bm_pendingX402 :: "(hash, Transaction) gomap"
  bm_broadcastCh :: "Transaction list"

definition NewX402BroadcastManager :: X402BroadcastManager where
  "NewX402BroadcastManager = \<lparr>bm_pendingX402 = [], bm_broadcastCh = []\<rparr>"

definition AddX402Transaction :: "keccak \<Rightarrow> Transaction \<Rightarrow> X402BroadcastManager \<Rightarrow> X402BroadcastManager" where
  "AddX402Transaction kec tx m =
    (if tx_Type tx \<noteq> X402TxType then m
     else if gm_get (bm_pendingX402 m) (tx_Hash kec tx) = None then
       m\<lparr>bm_pendingX402 := gm_set (bm_pendingX402 m) (tx_Hash kec tx) tx,
         bm_broadcastCh := (if length (bm_broadcastCh m) < 100 then bm_broadcastCh m @ [tx] else bm_broadcastCh m)\<rparr>
     else m)"

definition RemoveX402Transaction :: "hash \<Rightarrow> X402BroadcastManager \<Rightarrow> X402BroadcastManager" where
  "RemoveX402Transaction h m =
    (if gm_get (bm_pendingX402 m) h \<noteq> None then m\<lparr>bm_pendingX402 := gm_del (bm_pendingX402 m) h\<rparr> else m)"

text \<open>One event of the transaction pool in \<^verbatim>\<open>txMonitor\<close>.\<close>

definition txMonitor_event :: "keccak \<Rightarrow> Transaction list \<Rightarrow> X402BroadcastManager \<Rightarrow> X402BroadcastManager" where
  "txMonitor_event kec txs m = fold (\<lambda>tx m. if tx_Type tx = X402TxType then AddX402Transaction kec tx m else m) txs m"

text \<open>What is sent to the peers: nothing while the handler is nil.\<close>

definition broadcastX402Transaction :: "bool \<Rightarrow> Transaction \<Rightarrow> Transaction list" where
  "broadcastX402Transaction handler tx = (if tx_Type tx \<noteq> X402TxType then [] else if \<not> handler then [] else [tx])"

definition broadcastWorker_receive :: "bool \<Rightarrow> X402BroadcastManager \<Rightarrow> Transaction list \<times> X402BroadcastManager" where
  "broadcastWorker_receive handler m =
    (case bm_broadcastCh m of [] \<Rightarrow> ([], m) | tx # txs \<Rightarrow> (broadcastX402Transaction handler tx, m\<lparr>bm_broadcastCh := txs\<rparr>))"

definition rebroadcastPending ::
  "keccak \<Rightarrow> (hash \<Rightarrow> bool) \<Rightarrow> bool \<Rightarrow> X402BroadcastManager \<Rightarrow> Transaction list \<times> X402BroadcastManager" where
  "rebroadcastPending kec inPool handler m =
    fold (\<lambda>tx (sent, m). if inPool (tx_Hash kec tx) then (sent @ broadcastX402Transaction handler tx, m)
                          else (sent, RemoveX402Transaction (tx_Hash kec tx) m))
      (map snd (bm_pendingX402 m)) ([], m)"

definition GetPendingCount :: "X402BroadcastManager \<Rightarrow> nat" where
  "GetPendingCount m = length (bm_pendingX402 m)"

text \<open>\<open>found\<close> is the search of the last five numbers for a block that holds the transaction; the code removes the
  transaction on both outcomes.  \<open>current\<close> is the head block, whose header has a number.\<close>

definition recent_block_has ::
  "keccak \<Rightarrow> (hash \<Rightarrow> u64 \<Rightarrow> Block option) \<Rightarrow> Block \<Rightarrow> hash \<Rightarrow> bool" where
  "recent_block_has kec getBlock current h =
    (case header_number (blk_header current) of
       None \<Rightarrow> False
     | Some n \<Rightarrow> list_ex (\<lambda>i. case getBlock (header_Hash kec (blk_header current)) (n - of_nat i) of
           None \<Rightarrow> False
         | Some b \<Rightarrow> list_ex (\<lambda>tx. tx_Hash kec tx = h) (blk_transactions b)) [0..<5])"

definition checkMinedTransactions ::
  "keccak \<Rightarrow> (hash \<Rightarrow> bool) \<Rightarrow> Block option \<Rightarrow> (hash \<Rightarrow> u64 \<Rightarrow> Block option) \<Rightarrow> X402BroadcastManager \<Rightarrow> X402BroadcastManager" where
  "checkMinedTransactions kec inPool current getBlock m =
    fold (\<lambda>h m. if inPool h then m
                else (case current of
                        None \<Rightarrow> m
                      | Some b \<Rightarrow> if recent_block_has kec getBlock b h then RemoveX402Transaction h m
                                   else RemoveX402Transaction h m))
      (map fst (bm_pendingX402 m)) m"

record X402SyncManager =
  sm_lastSyncCheck :: int
  sm_syncIssues :: int

text \<open>\<open>peers\<close> is the number of peers; \<open>now\<close> and \<open>checked\<close> are readings of the clock in nanoseconds.\<close>

definition CheckSyncStatus :: "Block option \<Rightarrow> nat \<Rightarrow> int \<Rightarrow> int \<Rightarrow> X402SyncManager \<Rightarrow> string option \<times> X402SyncManager" where
  "CheckSyncStatus current peers now checked m =
    (case current of
       None \<Rightarrow> (Some ''no current block available'', m)
     | Some b \<Rightarrow>
         if peers = 0 then (Some ''no peers connected'', m\<lparr>sm_syncIssues := sm_syncIssues m + 1\<rparr>)
         else if now - sint (h_Time (blk_header b)) * 1000000000 > 30 * 1000000000 then
           (Some ''node appears to be out of sync'', m\<lparr>sm_syncIssues := sm_syncIssues m + 1\<rparr>)
         else (None, m\<lparr>sm_syncIssues := (if sm_syncIssues m > 0 then 0 else sm_syncIssues m), sm_lastSyncCheck := checked\<rparr>))"

subsection \<open>Used nonces\<close>

record X402API =
  api_usedNonces :: "(address, (hash, u64) gomap) gomap"
  api_strictVerify :: bool
  api_broadcast :: "X402BroadcastManager option"

text \<open>\<open>strict\<close> and \<open>validation\<close> are the environment variables \<^verbatim>\<open>X402_STRICT_VERIFY\<close> and \<^verbatim>\<open>X402_SIGNATURE_VALIDATION\<close>,
  for ASCII values.\<close>

definition NewX402API :: "string \<Rightarrow> string \<Rightarrow> X402BroadcastManager option \<Rightarrow> X402API" where
  "NewX402API strict validation bm =
    \<lparr>api_usedNonces = [],
     api_strictVerify = (strict = ''1'' \<or> strings_ToLower (ascii strict) = ascii ''true'' \<or>
       strings_ToLower (ascii validation) = ascii ''strict''),
     api_broadcast = bm\<rparr>"

definition isNonceUsed :: "address \<Rightarrow> hash \<Rightarrow> X402API \<Rightarrow> bool" where
  "isNonceUsed from nonce api =
    (case gm_get (api_usedNonces api) from of None \<Rightarrow> False | Some byFrom \<Rightarrow> gm_get byFrom nonce \<noteq> None)"

definition isNonceUsedAndMark :: "u64 \<Rightarrow> address \<Rightarrow> hash \<Rightarrow> X402API \<Rightarrow> bool \<times> X402API" where
  "isNonceUsedAndMark now from nonce api =
    (case gm_get (api_usedNonces api) from of
       Some byFrom \<Rightarrow>
         if gm_get byFrom nonce \<noteq> None then (True, api)
         else (False, api\<lparr>api_usedNonces := gm_set (api_usedNonces api) from (gm_set byFrom nonce now)\<rparr>)
     | None \<Rightarrow> (False, api\<lparr>api_usedNonces := gm_set (api_usedNonces api) from (gm_set [] nonce now)\<rparr>))"

subsection \<open>Signed messages\<close>

definition recover_address :: "crypto \<Rightarrow> hash \<Rightarrow> bytes \<Rightarrow> address option" where
  "recover_address cr h sig =
    map_option (\<lambda>pub. BytesToAddress (drop 12 (hash_bytes (c_keccak cr (drop 1 pub))))) (c_Ecrecover cr (hash_bytes h) sig)"

definition recovery_sig :: "bytes \<Rightarrow> bytes" where
  "recovery_sig sig = (if sig ! 64 \<ge> 27 then sig[64 := sig ! 64 - 27] else sig)"

definition payment_text :: "bytes list \<Rightarrow> bytes" where
  "payment_text fs = ascii ''x402-payment'' @ joined 58 fs"

definition payment_fields :: "bytes \<Rightarrow> bytes \<Rightarrow> bytes \<Rightarrow> bytes \<Rightarrow> PaymentPayloadData \<Rightarrow> bytes list" where
  "payment_fields from to v asset p =
    [from, to, v, uint64_text (pp_ValidAfter p), uint64_text (pp_ValidBefore p), hash_Hex (pp_Nonce p), asset]"

definition strict_message :: "keccak \<Rightarrow> u64 \<Rightarrow> bytes \<Rightarrow> PaymentPayloadData \<Rightarrow> bytes" where
  "strict_message kec chainID valHex p =
    payment_text (payment_fields (address_Hex kec (pp_From p)) (address_Hex kec (pp_To p)) valHex
      (address_Hex kec (pp_Asset p)) p @ [uint64_text chainID])"

definition candidate_messages :: "keccak \<Rightarrow> u64 \<Rightarrow> bytes \<Rightarrow> bytes \<Rightarrow> PaymentPayloadData \<Rightarrow> bytes list" where
  "candidate_messages kec chainID valHex valDec p =
    (let from = address_Hex kec (pp_From p); to = address_Hex kec (pp_To p); asset = address_Hex kec (pp_Asset p);
         addrPairs = [(from, to), (strings_ToLower from, strings_ToLower to)];
         vals = [valHex, valDec];
         assets = [asset, strings_ToLower asset]
     in concat (map (\<lambda>(f, t). concat (map (\<lambda>v. concat (map (\<lambda>a.
          [payment_text (payment_fields f t v a p @ [uint64_text chainID]), payment_text (payment_fields f t v a p)]) assets)) vals)) addrPairs))"

definition verifyPaymentSignature :: "crypto \<Rightarrow> u64 \<Rightarrow> bool \<Rightarrow> PaymentPayloadData \<Rightarrow> bool option" where
  "verifyPaymentSignature cr networkID strict p =
    (case EncodeBig (pp_Value p) of
       None \<Rightarrow> None
     | Some valHex \<Rightarrow>
         (let kec = c_keccak cr; sig = recovery_sig (pp_Signature p) in
          if strict then
            Some (length (pp_Signature p) = 65 \<and>
              recover_address cr (TextHash kec (strict_message kec networkID valHex p)) sig = Some (pp_From p))
          else
            Some (length (pp_Signature p) = 65 \<and>
              list_ex (\<lambda>m. recover_address cr (TextHash kec m) sig = Some (pp_From p) \<or>
                           recover_address cr (kec m) sig = Some (pp_From p))
                (candidate_messages kec networkID valHex (big_Text 10 (the (pp_Value p))) p))))"

subsection \<open>Token queries\<close>

definition result_Return :: "ExecutionResult \<Rightarrow> bytes" where
  "result_Return res = (if er_Err res \<noteq> None then [] else er_ReturnData res)"

definition result_Revert :: "ExecutionResult \<Rightarrow> bytes" where
  "result_Revert res = (if er_Err res \<noteq> Some ErrExecutionReverted then [] else er_ReturnData res)"

definition LeftPadBytes :: "bytes \<Rightarrow> nat \<Rightarrow> bytes" where
  "LeftPadBytes bs l = (if l \<le> length bs then bs else replicate (l - length bs) 0 @ bs)"

definition methodID :: "keccak \<Rightarrow> string \<Rightarrow> bytes" where
  "methodID kec sig = take 4 (hash_bytes (kec (ascii sig)))"

definition big_Bytes :: "int \<Rightarrow> bytes" where
  "big_Bytes i = min_be (nat \<bar>i\<bar>)"

definition erc20Balance :: "x402_env \<Rightarrow> address \<Rightarrow> address \<Rightarrow> int option" where
  "erc20Balance env token owner =
    map_option (\<lambda>res. int (be_nat (result_Return res)))
      (xe_DoCall env token (methodID (c_keccak (xe_crypto env)) ''balanceOf(address)'' @ LeftPadBytes (address_bytes owner) 32))"

definition erc20Allowance :: "x402_env \<Rightarrow> address \<Rightarrow> address \<Rightarrow> address \<Rightarrow> int option" where
  "erc20Allowance env token owner spender =
    map_option (\<lambda>res. int (be_nat (result_Return res)))
      (xe_DoCall env token (methodID (c_keccak (xe_crypto env)) ''allowance(address,address)'' @
         LeftPadBytes (address_bytes owner) 32 @ LeftPadBytes (address_bytes spender) 32))"

definition erc20SimPermit ::
  "x402_env \<Rightarrow> address \<Rightarrow> address \<Rightarrow> address \<Rightarrow> bigint \<Rightarrow> bigint \<Rightarrow> u8 \<Rightarrow> bytes \<Rightarrow> bytes \<Rightarrow> bool option" where
  "erc20SimPermit env token owner spender v deadline vb r s =
    (let value = (case v of None \<Rightarrow> 0 | Some i \<Rightarrow> i);
         dl = (case deadline of None \<Rightarrow> uint MaxUint64 | Some i \<Rightarrow> i);
         (r, s) = (if length r \<noteq> 32 \<or> length s \<noteq> 32 then (LeftPadBytes r 32, LeftPadBytes s 32) else (r, s));
         data = methodID (c_keccak (xe_crypto env)) ''permit(address,address,uint256,uint256,uint8,bytes32,bytes32)'' @
           LeftPadBytes (address_bytes owner) 32 @ LeftPadBytes (address_bytes spender) 32 @
           LeftPadBytes (big_Bytes value) 32 @ LeftPadBytes (big_Bytes dl) 32 @ LeftPadBytes [vb] 32 @ r @ s
     in map_option (\<lambda>res. \<not> (result_Revert res \<noteq> [] \<or> er_Err res \<noteq> None)) (xe_DoCall env token data))"

subsection \<open>Verification\<close>

definition invalid :: "string \<Rightarrow> VerificationResponse" where
  "invalid reason = \<lparr>vr_IsValid = False, vr_InvalidReason = reason, vr_PayerAddress = []\<rparr>"

text \<open>The allowance check and the check of a token payment; the result is the reason of a rejection.\<close>

definition check_allowance :: "x402_env \<Rightarrow> PaymentPayloadData \<Rightarrow> int \<Rightarrow> string option" where
  "check_allowance env p requiredAmount =
    (case erc20Allowance env (pp_Asset p) (pp_From p) (pp_To p) of
       None \<Rightarrow> Some ''Could not query token allowance''
     | Some allowance \<Rightarrow> if allowance < requiredAmount then Some ''Insufficient token allowance'' else None)"

definition check_permit :: "x402_env \<Rightarrow> PaymentPayloadData \<Rightarrow> PermitData \<Rightarrow> int \<Rightarrow> string option" where
  "check_permit env p permit requiredAmount =
    (if (case pm_Value permit of None \<Rightarrow> False | Some v \<Rightarrow> v < requiredAmount) then Some ''Permit value below required amount''
     else if (case pm_Deadline permit of None \<Rightarrow> False | Some d \<Rightarrow> d < uint (xe_now_permit env)) then Some ''Permit deadline expired''
     else if erc20SimPermit env (pp_Asset p) (pp_From p) (pp_To p) (pm_Value permit) (pm_Deadline permit) (pm_V permit)
               (pm_R permit) (pm_S permit) = Some True then None
     else check_allowance env p requiredAmount)"

definition check_token :: "x402_env \<Rightarrow> PaymentPayloadData \<Rightarrow> int \<Rightarrow> string option" where
  "check_token env p requiredAmount =
    (case erc20Balance env (pp_Asset p) (pp_From p) of
       None \<Rightarrow> Some ''Could not query token balance''
     | Some balance \<Rightarrow>
         if balance < requiredAmount then Some ''Insufficient token balance''
         else (case pp_Permit p of
                 Some permit \<Rightarrow> check_permit env p permit requiredAmount
               | None \<Rightarrow> check_allowance env p requiredAmount))"

definition check_native :: "x402_env \<Rightarrow> StateDB \<Rightarrow> PaymentPayloadData \<Rightarrow> int \<Rightarrow> string option" where
  "check_native env s p requiredAmount =
    (if fst (GetBalance (xe_be env) (pp_From p) s) < requiredAmount then Some ''Insufficient balance'' else None)"

definition x402_Verify :: "x402_env \<Rightarrow> PaymentRequirements \<Rightarrow> PaymentPayload \<Rightarrow> X402API \<Rightarrow> VerificationResponse option" where
  "x402_Verify env req payload api =
    (let p = py_Payload payload in
     if py_Scheme payload \<noteq> ''exact'' then Some (invalid ''Unsupported payment scheme'')
     else if py_Network payload \<noteq> ''splendor'' then Some (invalid ''Unsupported network'')
     else if xe_now env < pp_ValidAfter p then Some (invalid ''Payment not yet valid'')
     else if xe_now env > pp_ValidBefore p then Some (invalid ''Payment expired'')
     else
       (case verifyPaymentSignature (xe_crypto env) (xe_networkID env) (api_strictVerify api) p of
          None \<Rightarrow> None
        | Some False \<Rightarrow> Some (invalid ''Invalid signature'')
        | Some True \<Rightarrow>
            (case xe_State env of
               None \<Rightarrow> Some (invalid ''Could not get blockchain state'')
             | Some s \<Rightarrow>
                 (case pp_Value p of
                    None \<Rightarrow> None
                  | Some requiredAmount \<Rightarrow>
                      (case (if pp_Asset p = 0 then check_native env s p requiredAmount else check_token env p requiredAmount) of
                         Some reason \<Rightarrow> Some (invalid reason)
                       | None \<Rightarrow>
                           if pp_To p \<noteq> pr_PayTo req then Some (invalid ''Payment recipient mismatch'')
                           else if pp_Asset p \<noteq> pr_Asset req then Some (invalid ''Payment asset mismatch'')
                           else if isNonceUsed (pp_From p) (pp_Nonce p) api then Some (invalid ''Payment nonce already used'')
                           else Some \<lparr>vr_IsValid = True, vr_InvalidReason = [],
                             vr_PayerAddress = address_Hex (c_keccak (xe_crypto env)) (pp_From p)\<rparr>)))))"

subsection \<open>Settlement\<close>

definition permit_rval :: "PermitData option \<Rightarrow> rval" where
  "permit_rval permit =
    (case permit of
       None \<Rightarrow> VNilPtr True
     | Some pm \<Rightarrow> VStruct [VBig (Some (case pm_Value pm of None \<Rightarrow> 0 | Some v \<Rightarrow> v)),
         VBig (Some (case pm_Deadline pm of None \<Rightarrow> 0 | Some d \<Rightarrow> d)), VUint (ucast (pm_V pm)), VBytes (pm_R pm), VBytes (pm_S pm)] [])"

definition x402Payload_rval :: "PaymentPayloadData \<Rightarrow> rval" where
  "x402Payload_rval p =
    VStruct [VByteArray (address_bytes (pp_From p)), VByteArray (address_bytes (pp_To p)), VBig (pp_Value p),
      VUint (pp_ValidAfter p), VUint (pp_ValidBefore p), VByteArray (hash_bytes (pp_Nonce p)),
      VByteArray (address_bytes (pp_Asset p)), VBytes (pp_Signature p), permit_rval (pp_Permit p)] []"

definition settle_error :: "string \<Rightarrow> SettlementResponse" where
  "settle_error e = \<lparr>sr_Success = False, sr_Error = e, sr_TxHash = 0, sr_NetworkId = []\<rparr>"

text \<open>The signature of the envelope: r and s are 1 and v is 27.\<close>

definition dummySig :: bytes where
  "dummySig = (replicate 65 0)[31 := 1, 63 := 1, 64 := 27]"

definition x402_Settle ::
  "x402_env \<Rightarrow> PaymentRequirements \<Rightarrow> PaymentPayload \<Rightarrow> X402API \<Rightarrow> SettlementResponse option \<times> X402API" where
  "x402_Settle env req payload api =
    (let p = py_Payload payload; kec = c_keccak (xe_crypto env) in
     case x402_Verify env req payload api of
       None \<Rightarrow> (None, api)
     | Some verification \<Rightarrow>
         if \<not> vr_IsValid verification then (Some (settle_error (vr_InvalidReason verification)), api)
         else
           (case isNonceUsedAndMark (xe_now_mark env) (pp_From p) (pp_Nonce p) api of
              (True, api) \<Rightarrow> (Some (settle_error ''payment nonce already used''), api)
            | (False, api) \<Rightarrow>
                (case EncodeToBytes (x402Payload_rval p) of
                   Inl _ \<Rightarrow> (Some (settle_error ''x402: encode payload failed''), api)
                 | Inr enc \<Rightarrow>
                     (case NewX402Tx (xe_chainID env) (ucast (pp_Nonce p)) None enc 0 of
                        None \<Rightarrow> (None, api)
                      | Some xTx \<Rightarrow>
                          (case WithSignature (LatestSignerForChainID (xe_chainID env)) dummySig xTx of
                             Inl _ \<Rightarrow> (Some (settle_error ''x402: sign envelope failed''), api)
                           | Inr signedTx \<Rightarrow>
                               (case xe_AddLocal env signedTx of
                                  Some _ \<Rightarrow> (Some (settle_error ''x402: add to txpool failed''), api)
                                | None \<Rightarrow>
                                    (Some \<lparr>sr_Success = True, sr_Error = [], sr_TxHash = tx_Hash kec signedTx, sr_NetworkId = ''splendor''\<rparr>,
                                     api\<lparr>api_broadcast := map_option (AddX402Transaction kec signedTx) (api_broadcast api)\<rparr>)))))))"

definition x402_Supported :: "PaymentKind list" where
  "x402_Supported = [\<lparr>pk_Scheme = ''exact'', pk_Network = ''splendor''\<rparr>]"


subsection \<open>What the signed text binds\<close>

lemma no_separator:
  "58 \<notin> set (address_Hex kec a)" "58 \<notin> set (hash_Hex h)" "58 \<notin> set (uint64_text x)" "EncodeBig v = Some t \<Longrightarrow> 58 \<notin> set t"
proof -
  have n: "\<not> text_byte 58" by (simp add: text_byte_def)
  show "58 \<notin> set (address_Hex kec a)" using n address_Hex_bytes by blast
  show "58 \<notin> set (hash_Hex h)" using n hash_Hex_bytes by blast
  show "58 \<notin> set (uint64_text x)" using n uint64_text_bytes by blast
  show "58 \<notin> set t" if "EncodeBig v = Some t" using n EncodeBig_bytes [OF that] by blast
qed

text \<open>C24. The text that a payer signs in strict mode binds the payment.  Two payments, on any two networks, have the same text
  only if they agree on the network and on payer, recipient, amount, both time limits, nonce and asset: the addresses
  are printed with a checksum that changes the case of letters, the amount in hexadecimal, the rest in
  decimal, and no field can contain the separator.  A signature can thus not be moved to another payment or network.\<close>

theorem strict_message_binding:
  assumes "EncodeBig (pp_Value p) = Some v" "EncodeBig (pp_Value q) = Some w"
    and "strict_message kec n v p = strict_message kec m w q"
  shows "n = m \<and> pp_From p = pp_From q \<and> pp_To p = pp_To q \<and> pp_Value p = pp_Value q \<and>
    pp_ValidAfter p = pp_ValidAfter q \<and> pp_ValidBefore p = pp_ValidBefore q \<and> pp_Nonce p = pp_Nonce q \<and> pp_Asset p = pp_Asset q"
proof -
  let ?fs = "\<lambda>n v p. payment_fields (address_Hex kec (pp_From p)) (address_Hex kec (pp_To p)) v (address_Hex kec (pp_Asset p)) p @ [uint64_text n]"
  have "joined 58 (?fs n v p) = joined 58 (?fs m w q)" using assms(3) by (simp add: strict_message_def payment_text_def)
  then have "?fs n v p = ?fs m w q"
    by (intro joined_inj) (simp_all add: payment_fields_def no_separator no_separator(4) [OF assms(1)] no_separator(4) [OF assms(2)])
  then show ?thesis using EncodeBig_inj assms(1,2)
    by (auto simp: payment_fields_def address_Hex_inj hash_Hex_inj uint64_text_inj)
qed

definition demo_payment :: PaymentPayloadData where
  "demo_payment = \<lparr>pp_From = 7, pp_To = 8, pp_Value = Some 31, pp_ValidAfter = 10, pp_ValidBefore = 20, pp_Nonce = 5, pp_Asset = 0,
     pp_Signature = replicate 65 0, pp_Permit = None\<rparr>"

theorem strict_message_binding_witness:
  "strict_message (c_keccak demo_crypto) 1 (ascii ''0x1f'') demo_payment \<noteq> strict_message (c_keccak demo_crypto) 2 (ascii ''0x1f'') demo_payment"
proof -
  have "EncodeBig (pp_Value demo_payment) = Some (ascii ''0x1f'')"
    by (simp add: demo_payment_def EncodeBig_def big_Text_def text_digits.simps hexdigit_def)
  from strict_message_binding [OF this this, of "c_keccak demo_crypto" 1 2] show ?thesis by auto
qed

text \<open>Without the strict mode a signature is not bound to a network.  A signature of the text without network
  that one node accepts is accepted by the nodes of every network.\<close>

theorem permissive_signature_replays:
  assumes "EncodeBig (pp_Value p) = Some v" "length (pp_Signature p) = 65"
    and "recover_address cr (TextHash (c_keccak cr) (payment_text (payment_fields (address_Hex (c_keccak cr) (pp_From p))
      (address_Hex (c_keccak cr) (pp_To p)) v (address_Hex (c_keccak cr) (pp_Asset p)) p))) (recovery_sig (pp_Signature p)) = Some (pp_From p)"
  shows "\<forall>networkID. verifyPaymentSignature cr networkID False p = Some True"
  using assms by (simp add: verifyPaymentSignature_def candidate_messages_def Let_def)

subsection \<open>Verification is exact\<close>

text \<open>The conditions on the money of the payer.\<close>

definition can_pay :: "x402_env \<Rightarrow> StateDB \<Rightarrow> PaymentPayloadData \<Rightarrow> int \<Rightarrow> bool" where
  "can_pay env s p amount \<longleftrightarrow>
    (if pp_Asset p = 0 then amount \<le> fst (GetBalance (xe_be env) (pp_From p) s)
     else (\<exists>b. erc20Balance env (pp_Asset p) (pp_From p) = Some b \<and> amount \<le> b) \<and>
       (\<forall>pm. pp_Permit p = Some pm \<longrightarrow> (\<forall>v. pm_Value pm = Some v \<longrightarrow> amount \<le> v) \<and>
          (\<forall>d. pm_Deadline pm = Some d \<longrightarrow> uint (xe_now_permit env) \<le> d)) \<and>
       ((\<exists>a. erc20Allowance env (pp_Asset p) (pp_From p) (pp_To p) = Some a \<and> amount \<le> a) \<or>
        (\<exists>pm. pp_Permit p = Some pm \<and> erc20SimPermit env (pp_Asset p) (pp_From p) (pp_To p) (pm_Value pm) (pm_Deadline pm) (pm_V pm)
           (pm_R pm) (pm_S pm) = Some True)))"

lemma can_pay_checks:
  "can_pay env s p amount \<longleftrightarrow> (if pp_Asset p = 0 then check_native env s p amount else check_token env p amount) = None"
proof (cases "pp_Asset p = 0")
  case True
  then show ?thesis by (auto simp: can_pay_def check_native_def)
next
  case False
  have al: "check_allowance env p amount = None \<longleftrightarrow> (\<exists>a. erc20Allowance env (pp_Asset p) (pp_From p) (pp_To p) = Some a \<and> amount \<le> a)"
    by (auto simp: check_allowance_def split: option.split)
  show ?thesis
  proof (cases "pp_Permit p")
    case None
    then show ?thesis using False al by (auto simp: can_pay_def check_token_def split: option.split)
  next
    case (Some pm)
    have "check_permit env p pm amount = None \<longleftrightarrow> (\<forall>v. pm_Value pm = Some v \<longrightarrow> amount \<le> v) \<and>
        (\<forall>d. pm_Deadline pm = Some d \<longrightarrow> uint (xe_now_permit env) \<le> d) \<and>
        (check_allowance env p amount = None \<or> erc20SimPermit env (pp_Asset p) (pp_From p) (pp_To p) (pm_Value pm) (pm_Deadline pm) (pm_V pm)
           (pm_R pm) (pm_S pm) = Some True)"
      by (auto simp: check_permit_def split: option.split)
    then show ?thesis using False Some al by (auto simp: can_pay_def check_token_def split: option.split)
  qed
qed

lemma can_pay_cases:
  "can_pay env s p amount \<longleftrightarrow>
    (if pp_Asset p = 0 then amount \<le> fst (GetBalance (xe_be env) (pp_From p) s)
     else (\<exists>b. erc20Balance env (pp_Asset p) (pp_From p) = Some b \<and> amount \<le> b) \<and>
       (case pp_Permit p of
          None \<Rightarrow> \<exists>a. erc20Allowance env (pp_Asset p) (pp_From p) (pp_To p) = Some a \<and> amount \<le> a
        | Some pm \<Rightarrow>
            (case pm_Value pm of None \<Rightarrow> True | Some v \<Rightarrow> amount \<le> v) \<and>
            (case pm_Deadline pm of None \<Rightarrow> True | Some d \<Rightarrow> uint (xe_now_permit env) \<le> d) \<and>
            ((\<exists>a. erc20Allowance env (pp_Asset p) (pp_From p) (pp_To p) = Some a \<and> amount \<le> a) \<or>
             erc20SimPermit env (pp_Asset p) (pp_From p) (pp_To p) (pm_Value pm) (pm_Deadline pm) (pm_V pm)
               (pm_R pm) (pm_S pm) = Some True)))"
  unfolding can_pay_def by (cases "pp_Permit p") (simp_all split: option.split)

text \<open>C25. \<open>Verify\<close> accepts exactly the payments that meet all its conditions: the scheme and the network are the
  supported ones, the clock is between the two limits, the signature verifies, a head state and an amount are there,
  the payer can pay, recipient and asset are those that the requirements name, and the nonce is fresh.  A payer of
  the native coin can pay if the balance covers the amount.  A payer of a token must hold the amount in the token; an
  attached permit that names a value must name at least the amount, and one that names a deadline must not be expired
  (a permit without value or deadline passes these two checks, and its value is simulated as 0); then either the
  allowance for the recipient covers the amount or there is an attached permit whose simulated call succeeds.  So a
  payer with a sufficient allowance is refused when a permit that is too small or expired is attached, and a permit
  without a value is accepted as soon as its simulation succeeds.  The amount that the requirements name plays no
  role.\<close>

theorem Verify_exact:
  "(\<exists>r. x402_Verify env req payload api = Some r \<and> vr_IsValid r) \<longleftrightarrow>
    py_Scheme payload = ''exact'' \<and> py_Network payload = ''splendor'' \<and>
    (let p = py_Payload payload in
     pp_ValidAfter p \<le> xe_now env \<and> xe_now env \<le> pp_ValidBefore p \<and>
     verifyPaymentSignature (xe_crypto env) (xe_networkID env) (api_strictVerify api) p = Some True \<and>
     (\<exists>s amount. xe_State env = Some s \<and> pp_Value p = Some amount \<and>
       (if pp_Asset p = 0 then amount \<le> fst (GetBalance (xe_be env) (pp_From p) s)
        else (\<exists>b. erc20Balance env (pp_Asset p) (pp_From p) = Some b \<and> amount \<le> b) \<and>
          (case pp_Permit p of
             None \<Rightarrow> \<exists>a. erc20Allowance env (pp_Asset p) (pp_From p) (pp_To p) = Some a \<and> amount \<le> a
           | Some pm \<Rightarrow>
               (case pm_Value pm of None \<Rightarrow> True | Some v \<Rightarrow> amount \<le> v) \<and>
               (case pm_Deadline pm of None \<Rightarrow> True | Some d \<Rightarrow> uint (xe_now_permit env) \<le> d) \<and>
               ((\<exists>a. erc20Allowance env (pp_Asset p) (pp_From p) (pp_To p) = Some a \<and> amount \<le> a) \<or>
                erc20SimPermit env (pp_Asset p) (pp_From p) (pp_To p) (pm_Value pm) (pm_Deadline pm) (pm_V pm)
                  (pm_R pm) (pm_S pm) = Some True)))) \<and>
     pp_To p = pr_PayTo req \<and> pp_Asset p = pr_Asset req \<and> \<not> isNonceUsed (pp_From p) (pp_Nonce p) api)"
  unfolding Let_def can_pay_cases [symmetric] can_pay_checks
  by (auto simp: x402_Verify_def invalid_def Let_def not_less split: option.splits bool.splits if_splits)

theorem permissive_signature_replays_witness:
  "\<forall>networkID. verifyPaymentSignature demo_crypto networkID False (demo_payment\<lparr>pp_From := 0\<rparr>) = Some True"
proof -
  let ?p = "demo_payment\<lparr>pp_From := 0\<rparr>"
  have "EncodeBig (pp_Value ?p) = Some (ascii ''0x1f'')"
    by (simp add: demo_payment_def EncodeBig_def big_Text_def text_digits.simps hexdigit_def)
  moreover have "recover_address demo_crypto h (recovery_sig (pp_Signature ?p)) = Some (pp_From ?p)" for h
    by (simp add: recover_address_def recovery_sig_def demo_crypto_def demo_payment_def) code_simp
  ultimately show ?thesis by (intro permissive_signature_replays) (simp_all add: demo_payment_def)
qed

subsection \<open>Nonces and settlement\<close>

text \<open>The nonces that the node has seen, as a set of pairs.\<close>

definition used :: "X402API \<Rightarrow> (address \<times> hash) set" where
  "used api = {(f, n). isNonceUsed f n api}"

lemma mark_used:
  assumes "isNonceUsedAndMark now f n api = (b, api')"
  shows "b \<longleftrightarrow> (f, n) \<in> used api" "used api' = insert (f, n) (used api)" "api_strictVerify api' = api_strictVerify api"
  using assms by (auto simp: isNonceUsedAndMark_def used_def isNonceUsed_def split: option.splits if_splits)

text \<open>The calls of \<^verbatim>\<open>isNonceUsedAndMark\<close> of concurrent settlements, in the order in which they take the lock; the keys for which
  the call answers that the nonce is fresh.\<close>

fun granted :: "(u64 \<times> address \<times> hash) list \<Rightarrow> X402API \<Rightarrow> (address \<times> hash) list \<times> X402API" where
  "granted [] api = ([], api)"
| "granted ((now, f, n) # calls) api =
    (let (b, api) = isNonceUsedAndMark now f n api; (g, api) = granted calls api in (if b then g else (f, n) # g, api))"

text \<open>A nonce is granted at most once.  Whatever the order in which concurrent settlements reach the lock, the keys that pass
  are distinct: exactly those that some call names and that were not used before; afterwards all of them count as used.\<close>

theorem nonce_granted_once:
  assumes "granted calls api = (g, api')"
  shows "distinct g \<and> set g = (snd ` set calls) - used api \<and> used api' = used api \<union> snd ` set calls"
  using assms
proof (induction calls arbitrary: api g api')
  case (Cons c calls)
  obtain now f n where c: "c = (now, f, n)" by (cases c)
  obtain b api1 where m: "isNonceUsedAndMark now f n api = (b, api1)" by fastforce
  obtain g1 where g1: "granted calls api1 = (g1, api')" "g = (if b then g1 else (f, n) # g1)"
    using Cons.prems c m by (auto split: prod.splits)
  from Cons.IH [OF g1(1)] show ?case using mark_used [OF m] g1(2) c by auto
qed simp

theorem nonce_granted_once_witness:
  "distinct (fst (granted [(1, 7, 5), (2, 7, 5)] (NewX402API [] [] None))) \<and>
   set (fst (granted [(1, 7, 5), (2, 7, 5)] (NewX402API [] [] None))) = {(7, 5)}"
proof -
  obtain g api' where g: "granted [(1, 7, 5), (2, 7, 5)] (NewX402API [] [] None) = (g, api')" by fastforce
  have "used (NewX402API [] [] None) = {}" by (simp add: used_def isNonceUsed_def NewX402API_def gm_get_def)
  then show ?thesis using nonce_granted_once [OF g] g by auto
qed

text \<open>Every signer refuses an envelope.\<close>

lemma X402_not_signed:
  assumes "NewX402Tx c nonce to payload now = Some tx"
  shows "WithSignature signer sig tx = Inl ErrTxTypeNotSupported"
  using assms by (cases signer) (auto simp: NewX402Tx_def WithSignature_def plain_SignatureValues_def eip155_SignatureValues_def
      eip2930_SignatureValues_def tx_Type_def tx_types split: option.splits)

lemma Verify_nonce:
  "x402_Verify env req payload api = Some r \<Longrightarrow> vr_IsValid r \<Longrightarrow> (pp_From (py_Payload payload), pp_Nonce (py_Payload payload)) \<notin> used api"
  by (auto simp: x402_Verify_def invalid_def Let_def used_def split: option.splits bool.splits if_splits)

text \<open>C23. No settlement succeeds.  The envelope has a type that no signer supports, so \<open>Settle\<close> fails after it has marked the
  nonce: whatever the requirements, payment and chain, the response is not a success, and a payment that verified before the
  call is rejected by every later verification.\<close>

theorem Settle_never_succeeds:
  assumes "x402_Settle env req payload api = (r, api')"
  shows "(\<forall>resp. r = Some resp \<longrightarrow> \<not> sr_Success resp) \<and>
    ((\<exists>v. x402_Verify env req payload api = Some v \<and> vr_IsValid v) \<longrightarrow>
      (\<forall>env' req' v. x402_Verify env' req' payload api' = Some v \<longrightarrow> \<not> vr_IsValid v))"
proof (cases "\<exists>v. x402_Verify env req payload api = Some v \<and> vr_IsValid v")
  case True
  then obtain v where v: "x402_Verify env req payload api = Some v" "vr_IsValid v" by blast
  obtain b api1 where m: "isNonceUsedAndMark (xe_now_mark env) (pp_From (py_Payload payload)) (pp_Nonce (py_Payload payload)) api = (b, api1)"
    by fastforce
  have b: "\<not> b" using mark_used(1) [OF m] Verify_nonce [OF v] by simp
  have "api' = api1 \<and> (\<forall>resp. r = Some resp \<longrightarrow> \<not> sr_Success resp)"
    using assms v m b
    by (auto simp: x402_Settle_def Let_def settle_error_def X402_not_signed split: sum.splits option.splits)
  then show ?thesis using mark_used(2) [OF m] Verify_nonce by blast
next
  case False
  then show ?thesis using assms by (auto simp: x402_Settle_def Let_def settle_error_def split: option.splits if_splits)
qed

definition demo_x402 :: x402_env where
  "demo_x402 = \<lparr>xe_crypto = demo_crypto, xe_networkID = 1, xe_chainID = Some 1, xe_be = demo_be, xe_State = Some (state_New None),
     xe_DoCall = (\<lambda>_ _. None), xe_now = 15, xe_now_permit = 15, xe_now_mark = 15, xe_AddLocal = (\<lambda>_. None)\<rparr>"

definition demo_payload :: PaymentPayload where
  "demo_payload = \<lparr>py_X402Version = 1, py_Scheme = ''exact'', py_Network = ''splendor'',
     py_Payload = demo_payment\<lparr>pp_From := 0, pp_Value := Some 0\<rparr>\<rparr>"

definition demo_requirements :: PaymentRequirements where
  "demo_requirements = \<lparr>pr_Scheme = ''exact'', pr_Network = ''splendor'', pr_MaxAmountRequired = Some 1000, pr_Resource = [], pr_Description = [],
     pr_MimeType = [], pr_PayTo = 8, pr_MaxTimeoutSeconds = 60, pr_Asset = 0\<rparr>"

lemma demo_verifies: "\<exists>v. x402_Verify demo_x402 demo_requirements demo_payload (NewX402API ''1'' [] None) = Some v \<and> vr_IsValid v"
proof -
  have "recover_address demo_crypto h (recovery_sig (replicate 65 0)) = Some 0" for h
    by (simp add: recover_address_def recovery_sig_def demo_crypto_def) code_simp
  moreover have "fst (GetBalance demo_be 0 (state_New None)) = 0" by code_simp
  ultimately show ?thesis
    by (simp add: x402_Verify_def demo_x402_def demo_requirements_def demo_payload_def demo_payment_def NewX402API_def
        verifyPaymentSignature_def EncodeBig_def Let_def check_native_def isNonceUsed_def gm_get_def)
qed

theorem Settle_never_succeeds_witness:
  "\<exists>resp api'. x402_Settle demo_x402 demo_requirements demo_payload (NewX402API ''1'' [] None) = (resp, api') \<and>
    \<not> (\<exists>v. x402_Verify demo_x402 demo_requirements demo_payload api' = Some v \<and> vr_IsValid v)"
proof -
  obtain resp api' where s: "x402_Settle demo_x402 demo_requirements demo_payload (NewX402API ''1'' [] None) = (resp, api')" by fastforce
  from Settle_never_succeeds [OF s] demo_verifies s show ?thesis by blast
qed


subsection \<open>Pending envelopes\<close>

text \<open>The invariant of the manager: the pending map holds envelopes under their own hash, and the channel holds at most
  100 envelopes.\<close>

definition bm_ok :: "keccak \<Rightarrow> X402BroadcastManager \<Rightarrow> bool" where
  "bm_ok kec m \<longleftrightarrow> gm_ok (bm_pendingX402 m) \<and> (\<forall>(h, tx)\<in>set (bm_pendingX402 m). h = tx_Hash kec tx \<and> tx_Type tx = X402TxType) \<and>
     length (bm_broadcastCh m) \<le> 100 \<and> (\<forall>tx\<in>set (bm_broadcastCh m). tx_Type tx = X402TxType)"

lemma bm_ok_new: "bm_ok kec NewX402BroadcastManager"
  by (simp add: bm_ok_def NewX402BroadcastManager_def)

lemma bm_ok_Add: "bm_ok kec m \<Longrightarrow> bm_ok kec (AddX402Transaction kec tx m)"
  unfolding bm_ok_def AddX402Transaction_def by (auto simp: gm_ok_set dest: set_gm_set [THEN subsetD] split: if_splits)

lemma bm_ok_Remove: "bm_ok kec m \<Longrightarrow> bm_ok kec (RemoveX402Transaction h m)"
  unfolding bm_ok_def RemoveX402Transaction_def by (auto simp: gm_ok_del gm_del_def)

lemma Remove_pending: "bm_pendingX402 (RemoveX402Transaction h m) = filter (\<lambda>e. fst e \<noteq> h) (bm_pendingX402 m)"
  by (auto simp: RemoveX402Transaction_def gm_del_def gm_get_def map_of_eq_None_iff intro!: filter_True [symmetric])

lemma fold_Remove:
  "bm_pendingX402 (fold (\<lambda>h m. if P h then m else RemoveX402Transaction h m) hs m) =
     filter (\<lambda>e. \<not> (fst e \<in> set hs \<and> \<not> P (fst e))) (bm_pendingX402 m)"
  by (induction hs arbitrary: m) (auto simp: Remove_pending intro!: filter_cong)

text \<open>The check for mined envelopes forgets exactly the envelopes that have left the pool, mined or not: when there is a
  head block, the search of the last blocks has no effect on the result.\<close>

theorem checkMined_exact:
  "bm_pendingX402 (checkMinedTransactions kec inPool (Some current) getBlock m) = filter (\<lambda>e. inPool (fst e)) (bm_pendingX402 m)"
  unfolding checkMinedTransactions_def option.case if_cancel fold_Remove by (auto intro!: filter_cong)

lemma rebroadcast_fold:
  assumes "\<forall>tx\<in>set txs. tx_Type tx = X402TxType"
  shows "fold (\<lambda>tx (sent, m). if inPool (tx_Hash kec tx) then (sent @ broadcastX402Transaction True tx, m)
      else (sent, RemoveX402Transaction (tx_Hash kec tx) m)) txs (sent, m) =
    (sent @ filter (\<lambda>tx. inPool (tx_Hash kec tx)) txs, fold (\<lambda>h m. if inPool h then m else RemoveX402Transaction h m) (map (tx_Hash kec) txs) m)"
  using assms by (induction txs arbitrary: sent m) (auto simp: broadcastX402Transaction_def)

text \<open>A round of re-broadcasting sends exactly the pending envelopes that the pool still holds and forgets the others.\<close>

theorem rebroadcast_exact:
  assumes "bm_ok kec m"
  shows "fst (rebroadcastPending kec inPool True m) = filter (\<lambda>tx. inPool (tx_Hash kec tx)) (map snd (bm_pendingX402 m)) \<and>
    bm_pendingX402 (snd (rebroadcastPending kec inPool True m)) = filter (\<lambda>e. inPool (fst e)) (bm_pendingX402 m)"
proof -
  have ty: "\<forall>tx\<in>set (map snd (bm_pendingX402 m)). tx_Type tx = X402TxType" using assms by (auto simp: bm_ok_def)
  have "map (tx_Hash kec) (map snd (bm_pendingX402 m)) = map fst (bm_pendingX402 m)" using assms by (auto simp: bm_ok_def)
  then show ?thesis unfolding rebroadcastPending_def rebroadcast_fold [OF ty] by (auto simp: fold_Remove intro!: filter_cong)
qed

end
