(* ===== verification/X402_Rewards.thy ===== *)
theory X402_Rewards
  imports Reward_Scaling "HOL-Library.Multiset"
begin

text \<open>
  Revenue sharing of x402 payments (\<^verbatim>\<open>eth/api_x402_validator_rewards.go\<close>): the fee of a payment, the shares of the validators,
  their performance scores and the ranking.  The revenue of a distribution cycle is the sum of the shares; the ranking
  is sorted and complete; but every score is 1, and a distribution pays nobody.

  Clock readings are arguments: \<open>now\<close> in nanoseconds since the epoch.  The fee share can be any \<^verbatim>\<open>float64\<close>, a
  NaN and the infinities included; the scores are non-negative floats as in \<open>Reward_Scaling\<close>.
\<close>

subsection \<open>Floats\<close>

definition float_cmp_args :: "float \<Rightarrow> float \<Rightarrow> int \<times> int" where
  "float_cmp_args x y = (let e = min (snd x) (snd y) in (fst x * 2 ^ nat (snd x - e), fst y * 2 ^ nat (snd y - e)))"

definition float_less :: "float \<Rightarrow> float \<Rightarrow> bool" where
  "float_less x y = (let (m, n) = float_cmp_args x y in m < n)"

definition float_add :: "float \<Rightarrow> float \<Rightarrow> float" where
  "float_add x y =
    (let (m, n) = float_cmp_args x y; (p, q) = scale (m + n) 1 (- min (snd x) (snd y)) in round64 p q)"

definition float_trunc :: "float \<Rightarrow> int" where
  "float_trunc x = (let (n, d) = scale (fst x) 1 (- snd x) in n div d)"

text \<open>A \<^verbatim>\<open>float64\<close> with its special values; \<open>Inf True\<close> is the negative infinity.  Every comparison with a NaN is
  false.\<close>

datatype float64 = Fin float | Inf bool | NaN

fun f64_less :: "float64 \<Rightarrow> float64 \<Rightarrow> bool" where
  "f64_less (Fin x) (Fin y) = float_less x y"
| "f64_less (Fin x) (Inf neg) = (\<not> neg)"
| "f64_less (Inf neg) (Fin y) = neg"
| "f64_less (Inf neg) (Inf neg') = (neg \<and> \<not> neg')"
| "f64_less x y = False"

text \<open>The conversion to \<^verbatim>\<open>int64\<close> cuts off; the result is implementation-defined for a value that does not fit, and for
  a NaN: there it is \<open>undef\<close>, which is \<open>- 2 ^ 63\<close> on amd64.\<close>

definition f64_int64 :: "int \<Rightarrow> float64 \<Rightarrow> int" where
  "f64_int64 undef x =
    (case x of
       Fin f \<Rightarrow> if - (2 ^ 63) \<le> float_trunc f \<and> float_trunc f < 2 ^ 63 then float_trunc f else undef
     | _ \<Rightarrow> undef)"

text \<open>A constant of the source is the float nearest to it.\<close>

definition f_one :: float where "f_one = round64 1 1"
definition f_half :: float where "f_half = round64 1 2"
definition f_fifth :: float where "f_fifth = round64 1 5"
definition f_tenth :: float where "f_tenth = round64 1 10"
definition f_fifty :: float where "f_fifty = round64 50 1"
definition f_hundred :: float where "f_hundred = round64 100 1"

definition f64_times_hundred :: "float64 \<Rightarrow> float64" where
  "f64_times_hundred x = (case x of Fin f \<Rightarrow> Fin (float_mul f f_hundred) | Inf neg \<Rightarrow> Inf neg | NaN \<Rightarrow> NaN)"

subsection \<open>State\<close>

record X402Payment =
  xp_TxHash :: hash
  xp_From :: address
  xp_To :: address
  xp_Amount :: int
  xp_Fee :: int
  xp_Validator :: address
  xp_Timestamp :: u64
  xp_Resource :: string
  xp_BlockNumber :: u64

record ValidatorPerformance =
  vp_TotalX402Processed :: u64
  vp_TotalRevenue :: int
  vp_AvgProcessingTime :: float
  vp_SuccessRate :: float
  vp_LastActive :: int
  vp_AIScore :: float

record X402ValidatorRewards =
  rw_totalX402Revenue :: int
  rw_validatorShares :: "(address, int) gomap"
  rw_paymentHistory :: "X402Payment list"
  rw_validatorFeeShare :: float64
  rw_distributionMode :: string
  rw_validatorPerformance :: "(address, ValidatorPerformance) gomap"

record X402RevenueStats =
  st_TotalRevenue :: int
  st_ValidatorCount :: nat
  st_TotalPayments :: u64
  st_AveragePayment :: int
  st_TopValidator :: address
  st_TopValidatorRevenue :: int
  st_RevenueToday :: int
  st_PaymentsToday :: u64

record ValidatorRanking =
  vk_Rank :: int
  vk_Validator :: address
  vk_AIScore :: float
  vk_Revenue :: int

definition NewX402ValidatorRewards :: X402ValidatorRewards where
  "NewX402ValidatorRewards =
    \<lparr>rw_totalX402Revenue = 0, rw_validatorShares = [], rw_paymentHistory = [], rw_validatorFeeShare = Fin (round64 5 100),
     rw_distributionMode = ''performance'', rw_validatorPerformance = []\<rparr>"

subsection \<open>Operations\<close>

definition calculateAIScore :: "int \<Rightarrow> ValidatorPerformance \<Rightarrow> float" where
  "calculateAIScore now perf =
    (let score = vp_SuccessRate perf;
         score = (if vp_TotalX402Processed perf > 1000 then float_add score f_fifth
                  else if vp_TotalX402Processed perf > 100 then float_add score f_tenth else score);
         score = (if now - vp_LastActive perf < 3600 * 1000000000 then float_add score f_tenth else score);
         score = (if float_less (vp_AvgProcessingTime perf) f_fifty then float_add score f_fifth else score)
     in if float_less f_one score then f_one else score)"

text \<open>The clock is read once for the time of activity and once more for the score.\<close>

definition new_performance :: ValidatorPerformance where
  "new_performance = \<lparr>vp_TotalX402Processed = 0, vp_TotalRevenue = 0, vp_AvgProcessingTime = (0, 0), vp_SuccessRate = f_one,
     vp_LastActive = - 62135596800 * 1000000000, vp_AIScore = f_half\<rparr>"

definition bump_performance :: "int \<Rightarrow> int \<Rightarrow> int \<Rightarrow> ValidatorPerformance \<Rightarrow> ValidatorPerformance" where
  "bump_performance now now' fee perf =
    (let perf = perf\<lparr>vp_TotalX402Processed := vp_TotalX402Processed perf + 1, vp_TotalRevenue := vp_TotalRevenue perf + fee,
           vp_LastActive := now\<rparr>
     in perf\<lparr>vp_AIScore := calculateAIScore now' perf\<rparr>)"

definition updateValidatorPerformance ::
  "int \<Rightarrow> int \<Rightarrow> address \<Rightarrow> int \<Rightarrow> X402ValidatorRewards \<Rightarrow> X402ValidatorRewards" where
  "updateValidatorPerformance now now' validator fee r =
    (let perf = (case gm_get (rw_validatorPerformance r) validator of Some perf \<Rightarrow> perf | None \<Rightarrow> new_performance)
     in r\<lparr>rw_validatorPerformance := gm_set (rw_validatorPerformance r) validator (bump_performance now now' fee perf)\<rparr>)"

definition distributeToValidator :: "address \<Rightarrow> int \<Rightarrow> X402ValidatorRewards \<Rightarrow> X402ValidatorRewards" where
  "distributeToValidator validator amount r =
    (let share = (case gm_get (rw_validatorShares r) validator of None \<Rightarrow> 0 | Some s \<Rightarrow> s)
     in r\<lparr>rw_validatorShares := gm_set (rw_validatorShares r) validator (share + amount)\<rparr>)"

definition validatorFee :: "int \<Rightarrow> float64 \<Rightarrow> int \<Rightarrow> int" where
  "validatorFee undef feeShare amount = amount * f64_int64 undef (f64_times_hundred feeShare) div 100"

definition ProcessX402Payment ::
  "int \<Rightarrow> u64 \<Rightarrow> int \<Rightarrow> int \<Rightarrow> X402Payment \<Rightarrow> X402ValidatorRewards \<Rightarrow> X402ValidatorRewards" where
  "ProcessX402Payment undef timestamp now now' payment r =
    (let fee = validatorFee undef (rw_validatorFeeShare r) (xp_Amount payment);
         r = r\<lparr>rw_totalX402Revenue := rw_totalX402Revenue r + fee\<rparr>;
         history = rw_paymentHistory r @ [payment\<lparr>xp_Fee := fee, xp_Timestamp := timestamp\<rparr>];
         r = r\<lparr>rw_paymentHistory := (if length history > 10000 then drop 1 history else history)\<rparr>
     in distributeToValidator (xp_Validator payment) fee (updateValidatorPerformance now now' (xp_Validator payment) fee r))"

definition GetValidatorX402Revenue :: "address \<Rightarrow> X402ValidatorRewards \<Rightarrow> int" where
  "GetValidatorX402Revenue validator r = (case gm_get (rw_validatorShares r) validator of Some s \<Rightarrow> s | None \<Rightarrow> 0)"

definition top_validator :: "(address, int) gomap \<Rightarrow> address \<times> int" where
  "top_validator shares = fold (\<lambda>(v, rev) (top, best). if rev > best then (v, rev) else (top, best)) shares (0, 0)"

definition GetX402RevenueStats :: "int \<Rightarrow> X402ValidatorRewards \<Rightarrow> X402RevenueStats" where
  "GetX402RevenueStats now r =
    (let (topValidator, topRevenue) = top_validator (rw_validatorShares r);
         today = now - now mod (24 * 3600 * 1000000000);
         recent = filter (\<lambda>p. sint (xp_Timestamp p) * 1000000000 > today) (rw_paymentHistory r)
     in \<lparr>st_TotalRevenue = rw_totalX402Revenue r, st_ValidatorCount = length (rw_validatorShares r),
         st_TotalPayments = of_nat (length (rw_paymentHistory r)),
         st_AveragePayment = (if rw_paymentHistory r \<noteq> [] then rw_totalX402Revenue r div int (length (rw_paymentHistory r)) else 0),
         st_TopValidator = topValidator, st_TopValidatorRevenue = topRevenue,
         st_RevenueToday = sum_list (map xp_Fee recent), st_PaymentsToday = of_nat (length recent)\<rparr>)"

definition GetValidatorPerformance :: "address \<Rightarrow> X402ValidatorRewards \<Rightarrow> ValidatorPerformance" where
  "GetValidatorPerformance validator r =
    (case gm_get (rw_validatorPerformance r) validator of
       Some perf \<Rightarrow> perf
     | None \<Rightarrow> \<lparr>vp_TotalX402Processed = 0, vp_TotalRevenue = 0, vp_AvgProcessingTime = (0, 0), vp_SuccessRate = (0, 0),
         vp_LastActive = - 62135596800 * 1000000000, vp_AIScore = (0, 0)\<rparr>)"

text \<open>The two loops that sort by exchanging.\<close>

definition exchange :: "nat \<Rightarrow> nat \<Rightarrow> (address \<times> float \<times> int) list \<Rightarrow> (address \<times> float \<times> int) list" where
  "exchange i j xs = (if float_less (fst (snd (xs ! i))) (fst (snd (xs ! j))) then xs[i := xs ! j, j := xs ! i] else xs)"

definition sort_scores :: "(address \<times> float \<times> int) list \<Rightarrow> (address \<times> float \<times> int) list" where
  "sort_scores xs =
    fold (\<lambda>i xs. fold (exchange i) [Suc i..<length xs] xs) [0..<length xs - 1] xs"

definition GetTopPerformingValidators :: "int \<Rightarrow> X402ValidatorRewards \<Rightarrow> ValidatorRanking list" where
  "GetTopPerformingValidators limit r =
    (let scores = sort_scores (map (\<lambda>(v, perf). (v, vp_AIScore perf, vp_TotalRevenue perf)) (rw_validatorPerformance r));
         maxResults = (if limit > int (length scores) then int (length scores) else limit)
     in map (\<lambda>i. \<lparr>vk_Rank = int i + 1, vk_Validator = fst (scores ! i), vk_AIScore = fst (snd (scores ! i)),
                   vk_Revenue = snd (snd (scores ! i))\<rparr>) [0..<nat maxResults])"

definition DistributeX402Rewards :: "X402ValidatorRewards \<Rightarrow> X402ValidatorRewards" where
  "DistributeX402Rewards r =
    (if rw_totalX402Revenue r \<le> 0 then r else r\<lparr>rw_totalX402Revenue := 0, rw_validatorShares := []\<rparr>)"

text \<open>A percentage below 0 or above 1 is rejected.  Both comparisons are false for a NaN, which is thus accepted.\<close>

definition SetValidatorFeeShare :: "float64 \<Rightarrow> X402ValidatorRewards \<Rightarrow> bool \<times> X402ValidatorRewards" where
  "SetValidatorFeeShare percentage r =
    (if f64_less percentage (Fin (0, 0)) \<or> f64_less (Fin f_one) percentage then (False, r) else (True, r\<lparr>rw_validatorFeeShare := percentage\<rparr>))"

definition SetDistributionMode :: "string \<Rightarrow> X402ValidatorRewards \<Rightarrow> bool \<times> X402ValidatorRewards" where
  "SetDistributionMode mode r =
    (if mode \<in> {''proportional'', ''equal'', ''performance''} then (True, r\<lparr>rw_distributionMode := mode\<rparr>) else (False, r))"


subsection \<open>Revenue\<close>

text \<open>The states of a node: every operation that changes the rewards, in any order and with any clock.\<close>

inductive rewards_step :: "X402ValidatorRewards \<Rightarrow> X402ValidatorRewards \<Rightarrow> bool" where
  Process: "rewards_step r (ProcessX402Payment undef timestamp now now' payment r)"
| Distribute: "rewards_step r (DistributeX402Rewards r)"
| SetShare: "rewards_step r (snd (SetValidatorFeeShare percentage r))"
| SetMode: "rewards_step r (snd (SetDistributionMode mode r))"

inductive rewards_reachable :: "X402ValidatorRewards \<Rightarrow> bool" where
  New: "rewards_reachable NewX402ValidatorRewards"
| Step: "rewards_reachable r \<Longrightarrow> rewards_step r r' \<Longrightarrow> rewards_reachable r'"

text \<open>The shares that \<^verbatim>\<open>SetValidatorFeeShare\<close> lets through.\<close>

definition share_ok :: "float64 \<Rightarrow> bool" where
  "share_ok share \<longleftrightarrow> (case share of Fin f \<Rightarrow> 0 \<le> fst f \<and> \<not> float_less f_one f | Inf neg \<Rightarrow> False | NaN \<Rightarrow> True)"

lemma share_ok_iff: "share_ok share \<longleftrightarrow> \<not> (f64_less share (Fin (0, 0)) \<or> f64_less (Fin f_one) share)"
proof (cases share)
  case (Fin f)
  have "float_less f (0, 0) \<longleftrightarrow> fst f < 0" by (simp add: float_less_def float_cmp_args_def Let_def mult_less_0_iff)
  then show ?thesis using Fin by (auto simp: share_ok_def)
qed (auto simp: share_ok_def)

definition perf_ok :: "ValidatorPerformance \<Rightarrow> bool" where
  "perf_ok perf \<longleftrightarrow> vp_SuccessRate perf = f_one \<and> vp_AvgProcessingTime perf = (0, 0) \<and> vp_AIScore perf = f_one"

definition rewards_ok :: "X402ValidatorRewards \<Rightarrow> bool" where
  "rewards_ok r \<longleftrightarrow> rw_totalX402Revenue r = sum_list (map snd (rw_validatorShares r)) \<and>
     length (rw_paymentHistory r) \<le> 10000 \<and> (\<forall>perf\<in>snd ` set (rw_validatorPerformance r). perf_ok perf) \<and>
     share_ok (rw_validatorFeeShare r)"

lemma gm_set_sum:
  "sum_list (map snd (gm_set m k ((case gm_get m k of None \<Rightarrow> 0 | Some x \<Rightarrow> x) + a))) = sum_list (map snd m) + (a :: int)"
  by (induction m) (auto simp: gm_set_def gm_get_def)

lemma score_cases:
  assumes "t \<in> {f_one, float_add f_one f_tenth, float_add f_one f_fifth}" "u \<in> {t, float_add t f_tenth}"
  shows "float_less f_one (float_add u f_fifth)"
proof -
  have "float_less f_one (float_add f_one f_fifth)" "float_less f_one (float_add (float_add f_one f_tenth) f_fifth)"
    "float_less f_one (float_add (float_add f_one f_fifth) f_fifth)" "float_less f_one (float_add (float_add (float_add f_one f_tenth) f_tenth) f_fifth)"
    "float_less f_one (float_add (float_add (float_add f_one f_fifth) f_tenth) f_fifth)" by code_simp+
  then show ?thesis using assms by auto
qed

lemma AIScore_one:
  assumes "vp_SuccessRate perf = f_one" "vp_AvgProcessingTime perf = (0, 0)"
  shows "calculateAIScore now perf = f_one"
proof -
  have fast: "float_less (0, 0) f_fifty" by code_simp
  let ?t = "if vp_TotalX402Processed perf > 1000 then float_add f_one f_fifth
    else if vp_TotalX402Processed perf > 100 then float_add f_one f_tenth else f_one"
  let ?u = "if now - vp_LastActive perf < 3600 * 1000000000 then float_add ?t f_tenth else ?t"
  have "float_less f_one (float_add ?u f_fifth)" by (rule score_cases [of ?t]) auto
  then show ?thesis using fast unfolding calculateAIScore_def Let_def assms by simp
qed

lemma gm_set_all: "\<forall>e\<in>snd ` set m. P e \<Longrightarrow> P v \<Longrightarrow> \<forall>e\<in>snd ` set (gm_set m k v). P e"
  by (auto dest!: set_gm_set [THEN subsetD])

lemma perf_ok_update:
  assumes "\<forall>perf\<in>snd ` set (rw_validatorPerformance r). perf_ok perf"
  shows "\<forall>perf\<in>snd ` set (rw_validatorPerformance (updateValidatorPerformance now now' v fee r)). perf_ok perf"
proof -
  let ?p = "case gm_get (rw_validatorPerformance r) v of Some perf \<Rightarrow> perf | None \<Rightarrow> new_performance"
  have "vp_SuccessRate ?p = f_one" "vp_AvgProcessingTime ?p = (0, 0)"
    using assms gm_get_in [of "rw_validatorPerformance r" v] by (force simp: perf_ok_def new_performance_def split: option.split)+
  then have "perf_ok (bump_performance now now' fee ?p)" by (simp add: bump_performance_def Let_def perf_ok_def AIScore_one)
  from gm_set_all [OF assms this] show ?thesis by (simp add: updateValidatorPerformance_def Let_def)
qed

lemma update_sel [simp]:
  "rw_totalX402Revenue (updateValidatorPerformance now now' v fee r) = rw_totalX402Revenue r"
  "rw_validatorShares (updateValidatorPerformance now now' v fee r) = rw_validatorShares r"
  "rw_paymentHistory (updateValidatorPerformance now now' v fee r) = rw_paymentHistory r"
  "rw_validatorFeeShare (updateValidatorPerformance now now' v fee r) = rw_validatorFeeShare r"
  by (simp_all add: updateValidatorPerformance_def Let_def)

lemma rewards_ok_process:
  assumes "rewards_ok r"
  shows "rewards_ok (ProcessX402Payment undef timestamp now now' payment r)"
proof -
  have perf: "\<forall>perf\<in>snd ` set (rw_validatorPerformance (updateValidatorPerformance now now' v fee
      (r\<lparr>rw_totalX402Revenue := t, rw_paymentHistory := h\<rparr>))). perf_ok perf" for v fee t h
    by (rule perf_ok_update) (use assms in \<open>simp add: rewards_ok_def\<close>)
  have len: "length (rw_paymentHistory r) \<le> 10000" using assms by (simp add: rewards_ok_def)
  show ?thesis using assms perf gm_set_sum [of "rw_validatorShares r"] len
    by (simp add: rewards_ok_def ProcessX402Payment_def distributeToValidator_def Let_def) linarith
qed

lemma rewards_ok_step: "rewards_step r r' \<Longrightarrow> rewards_ok r \<Longrightarrow> rewards_ok r'"
proof (induction rule: rewards_step.induct)
  case (Process r undef timestamp now now' payment)
  then show ?case by (rule rewards_ok_process)
qed (auto simp: rewards_ok_def DistributeX402Rewards_def SetValidatorFeeShare_def SetDistributionMode_def share_ok_iff)

lemma rewards_ok_reachable: "rewards_reachable r \<Longrightarrow> rewards_ok r"
proof (induction rule: rewards_reachable.induct)
  case New
  have "0 \<le> fst (round64 5 100) \<and> \<not> float_less f_one (round64 5 100)" by code_simp
  then show ?case by (simp add: rewards_ok_def share_ok_def NewX402ValidatorRewards_def)
qed (rule rewards_ok_step)

text \<open>A fee is part of the payment: a share of at most 1 takes at most the amount, also after rounding.\<close>

lemma float_cmp_fval:
  "float_cmp_args x y = (m, n) \<Longrightarrow> real_of_int m = fval x * 2 powi (- min (snd x) (snd y)) \<and> real_of_int n = fval y * 2 powi (- min (snd x) (snd y))"
  by (auto simp: float_cmp_args_def Let_def fval_def power_int_def min_def power_int_minus divide_simps simp flip: power_add)

lemma float_less_fval: "float_less x y \<longleftrightarrow> fval x < fval y"
proof -
  obtain m n where mn: "float_cmp_args x y = (m, n)" by fastforce
  have "m < n \<longleftrightarrow> real_of_int m < real_of_int n" by simp
  also have "\<dots> \<longleftrightarrow> fval x < fval y" using float_cmp_fval [OF mn] by simp
  finally show ?thesis using mn by (simp add: float_less_def)
qed

lemma float_trunc_floor:
  assumes "0 \<le> fst x"
  shows "float_trunc x = \<lfloor>fval x\<rfloor>"
proof -
  obtain n d where s: "scale (fst x) 1 (- snd x) = (n, d)" by fastforce
  have "real_of_int n / of_int d = fval x"
    using scale_frac [OF s] assms by (simp add: fval_def power_int_minus divide_inverse)
  then show ?thesis by (metis floor_divide_of_int_eq float_trunc_def s case_prod_conv)
qed

lemma fval_constants: "fval f_one = 1" "fval f_hundred = 100"
proof -
  have c: "f_one = (4503599627370496, - 52)" "f_hundred = (7036874417766400, - 46)" by code_simp+
  show "fval f_one = 1" "fval f_hundred = 100" unfolding c by (simp_all add: fval_def power_int_def power_divide)
qed

lemma fee_percent:
  assumes "0 \<le> fst share" "\<not> float_less f_one share"
  shows "0 \<le> float_trunc (float_mul share f_hundred) \<and> float_trunc (float_mul share f_hundred) \<le> 100"
proof -
  have h: "0 \<le> fst f_hundred" by code_simp
  note mul = float_mul_near [OF assms(1) h]
  have s: "0 \<le> fval share" "fval share \<le> 1"
    using assms by (simp_all add: fval_def float_less_fval not_less flip: fval_constants(1))
  have "fval (float_mul share f_hundred) \<le> fval share * 100 * (1 + eps)" using mul(1) by (simp add: near_def fval_constants)
  also have "\<dots> \<le> 100 * (1 + eps)" using s(2) eps_bounds by (intro mult_right_mono) auto
  also have "\<dots> < 101" by (simp add: eps_def)
  finally have "\<lfloor>fval (float_mul share f_hundred)\<rfloor> \<le> 100" by linarith
  moreover have "0 \<le> fval (float_mul share f_hundred)" using mul(2) by (simp add: fval_def)
  ultimately show ?thesis using mul(2) by (simp add: float_trunc_floor)
qed

lemma fee_bounds:
  assumes "share_ok share" "share \<noteq> NaN" "0 \<le> amount"
  shows "0 \<le> validatorFee undef share amount \<and> validatorFee undef share amount \<le> amount"
proof -
  obtain f where f: "share = Fin f" "0 \<le> fst f" "\<not> float_less f_one f"
    using assms(1,2) by (auto simp: share_ok_def split: float64.splits)
  let ?t = "float_trunc (float_mul f f_hundred)"
  note t = fee_percent [OF f(2,3)]
  then have e: "validatorFee undef share amount = amount * ?t div 100"
    by (simp add: validatorFee_def f(1) f64_times_hundred_def f64_int64_def)
  have "amount * ?t \<le> amount * 100" using t assms(3) by (intro mult_left_mono) auto
  then have "amount * ?t div 100 \<le> amount * 100 div 100" by (intro zdiv_mono1) auto
  then show ?thesis using t assms(3) by (simp add: e pos_imp_zdiv_nonneg_iff)
qed

text \<open>A NaN passes the guard of \<^verbatim>\<open>SetValidatorFeeShare\<close>; from then on, where the conversion of a NaN yields the
  smallest \<^verbatim>\<open>int64\<close>, the fee of every positive amount is negative.\<close>

theorem NaN_share_accepted:
  "SetValidatorFeeShare NaN r = (True, r\<lparr>rw_validatorFeeShare := NaN\<rparr>)"
  "0 < amount \<Longrightarrow> validatorFee (- (2 ^ 63)) NaN amount < 0"
  by (simp_all add: SetValidatorFeeShare_def validatorFee_def f64_times_hundred_def f64_int64_def neg_imp_zdiv_neg_iff)

text \<open>C26. The revenue of a cycle is conserved.  In every state that payments, distributions and changes of the settings lead to,
  the total revenue is the sum of the validators' shares and the history holds at most 10000 payments.  Unless the fee
  share has been set to a NaN, which the guard of the setter accepts and which makes fees implementation-defined and
  possibly negative, the fee of a payment of a non-negative amount is between nothing and the amount; no other share
  outside 0 to 1 gets past the guard.\<close>

theorem x402_revenue_conserved:
  assumes "rewards_reachable r"
  shows "rw_totalX402Revenue r = sum_list (map snd (rw_validatorShares r)) \<and> length (rw_paymentHistory r) \<le> 10000 \<and>
    (rw_validatorFeeShare r \<noteq> NaN \<longrightarrow>
      \<not> f64_less (rw_validatorFeeShare r) (Fin (0, 0)) \<and> \<not> f64_less (Fin f_one) (rw_validatorFeeShare r) \<and>
      (\<forall>amount\<ge>0. 0 \<le> validatorFee undef (rw_validatorFeeShare r) amount \<and>
         validatorFee undef (rw_validatorFeeShare r) amount \<le> amount))"
  using rewards_ok_reachable [OF assms] fee_bounds share_ok_iff by (simp add: rewards_ok_def)

theorem x402_revenue_conserved_witness:
  "let r = ProcessX402Payment (- (2 ^ 63)) 5 0 0 \<lparr>xp_TxHash = 1, xp_From = 2, xp_To = 3, xp_Amount = 200, xp_Fee = 0, xp_Validator = 9, xp_Timestamp = 0,
       xp_Resource = [], xp_BlockNumber = 1\<rparr> NewX402ValidatorRewards
   in rw_totalX402Revenue r = 10 \<and> sum_list (map snd (rw_validatorShares r)) = 10"
proof -
  let ?r = "ProcessX402Payment (- (2 ^ 63)) 5 0 0 \<lparr>xp_TxHash = 1, xp_From = 2, xp_To = 3, xp_Amount = 200, xp_Fee = 0, xp_Validator = 9, xp_Timestamp = 0,
       xp_Resource = [], xp_BlockNumber = 1\<rparr> NewX402ValidatorRewards"
  have "rewards_reachable ?r" by (rule rewards_reachable.Step [OF rewards_reachable.New rewards_step.Process])
  from x402_revenue_conserved [OF this] have "rw_totalX402Revenue ?r = sum_list (map snd (rw_validatorShares ?r))" by blast
  moreover have "rw_totalX402Revenue ?r = 10" by code_simp
  ultimately show ?thesis by (simp add: Let_def)
qed

text \<open>The score does not tell validators apart: whatever was processed and when, every tracked validator has the score 1.
  The bonus for fast processing applies to every validator, since the processing time is never recorded, and the sum
  is cut off at 1.\<close>

theorem AIScore_constant:
  assumes "rewards_reachable r" "(v, perf) \<in> set (rw_validatorPerformance r)"
  shows "vp_AIScore perf = f_one"
  using rewards_ok_reachable [OF assms(1)] assms(2) by (force simp: rewards_ok_def perf_ok_def)

text \<open>The percentage is cut off to a whole number after a rounded multiplication: a share of 0.29 takes 28 percent.\<close>

theorem fee_share_truncated: "validatorFee undef (Fin (round64 29 100)) 100 = 28 \<and>
  validatorFee undef (rw_validatorFeeShare NewX402ValidatorRewards) 100 = 5"
  by code_simp


subsection \<open>The ranking\<close>

abbreviation score_of :: "address \<times> float \<times> int \<Rightarrow> real" where
  "score_of x \<equiv> fval (fst (snd x))"

lemma exchange_props:
  assumes "i < length xs" "j < length xs"
  shows "length (exchange i j xs) = length xs" "mset (exchange i j xs) = mset xs"
    "a \<noteq> i \<Longrightarrow> a \<noteq> j \<Longrightarrow> exchange i j xs ! a = xs ! a"
    "i \<noteq> j \<Longrightarrow> score_of (exchange i j xs ! i) = max (score_of (xs ! i)) (score_of (xs ! j))"
    "i \<noteq> j \<Longrightarrow> score_of (exchange i j xs ! j) = min (score_of (xs ! i)) (score_of (xs ! j))"
    "exchange i j xs ! j = xs ! i \<or> exchange i j xs ! j = xs ! j" "exchange i j xs ! i = xs ! i \<or> exchange i j xs ! i = xs ! j"
  using assms mset_swap [OF assms] by (auto simp: exchange_def float_less_fval nth_list_update mset_swap)

text \<open>The inner loop brings a greatest score of the rest to position \<open>i\<close> and permutes the rest.\<close>

lemma inner_loop:
  assumes "i < length xs" "k \<le> length xs" "Suc i \<le> k"
  shows "let ys = fold (exchange i) [Suc i..<k] xs in
    length ys = length xs \<and> mset ys = mset xs \<and> (\<forall>a<i. ys ! a = xs ! a) \<and>
    (\<forall>j. i < j \<and> j < k \<longrightarrow> score_of (ys ! j) \<le> score_of (ys ! i)) \<and>
    (\<forall>b. i \<le> b \<and> b < length xs \<longrightarrow> (\<exists>c. i \<le> c \<and> c < length xs \<and> ys ! b = xs ! c))"
  using assms(3,2)
proof (induction k rule: dec_induct)
  case base
  then show ?case by auto
next
  case (step k)
  define ys where "ys = fold (exchange i) [Suc i..<k] xs"
  from step have IH: "length ys = length xs" "mset ys = mset xs" "\<And>a. a < i \<Longrightarrow> ys ! a = xs ! a"
    "\<And>j. i < j \<Longrightarrow> j < k \<Longrightarrow> score_of (ys ! j) \<le> score_of (ys ! i)"
    "\<And>b. i \<le> b \<Longrightarrow> b < length xs \<Longrightarrow> \<exists>c. i \<le> c \<and> c < length xs \<and> ys ! b = xs ! c"
    by (simp_all add: ys_def Let_def)
  have ik: "i < length ys" "k < length ys" "i \<noteq> k" "i < k" using assms(1) step IH(1) by auto
  note ex = exchange_props [OF ik(1,2)]
  have fold: "fold (exchange i) [Suc i..<Suc k] xs = exchange i k ys" using step by (simp add: ys_def)
  have "score_of (exchange i k ys ! j) \<le> score_of (exchange i k ys ! i)" if "i < j" "j < Suc k" for j
    using that ex(3) [of j] ex(4,5) [OF ik(3)] IH(4) [of j] ik by (cases "j = k") (auto simp: le_max_iff_disj)
  moreover have "\<exists>c. i \<le> c \<and> c < length xs \<and> exchange i k ys ! b = xs ! c" if "i \<le> b" "b < length xs" for b
    using that ex(3) [of b] ex(6,7) IH(5) [of b] IH(5) [of i] IH(5) [of k] ik IH(1) by (cases "b = k"; cases "b = i") auto
  moreover have "exchange i k ys ! a = xs ! a" if "a < i" for a using that ex(3) [of a] IH(3) ik by auto
  ultimately show ?case unfolding fold Let_def using ex(1,2) IH(1,2) by auto
qed

lemma outer_loop:
  assumes "k \<le> length xs - 1"
  shows "let ys = fold (\<lambda>i xs. fold (exchange i) [Suc i..<length xs] xs) [0..<k] xs in
    length ys = length xs \<and> mset ys = mset xs \<and> (\<forall>a b. a < k \<and> a < b \<and> b < length xs \<longrightarrow> score_of (ys ! b) \<le> score_of (ys ! a))"
  using assms
proof (induction k)
  case (Suc k)
  define ys where "ys = fold (\<lambda>i xs. fold (exchange i) [Suc i..<length xs] xs) [0..<k] xs"
  define zs where "zs = fold (exchange k) [Suc k..<length ys] ys"
  have IH: "length ys = length xs" "mset ys = mset xs" "\<And>a b. a < k \<Longrightarrow> a < b \<Longrightarrow> b < length xs \<Longrightarrow> score_of (ys ! b) \<le> score_of (ys ! a)"
    using Suc by (simp_all add: ys_def Let_def)
  have kl: "k < length ys" "Suc k \<le> length ys" using Suc.prems IH(1) by auto
  have I: "length zs = length ys" "mset zs = mset ys" "\<And>a. a < k \<Longrightarrow> zs ! a = ys ! a"
    "\<And>j. k < j \<Longrightarrow> j < length ys \<Longrightarrow> score_of (zs ! j) \<le> score_of (zs ! k)"
    "\<And>b. k \<le> b \<Longrightarrow> b < length ys \<Longrightarrow> \<exists>c. k \<le> c \<and> c < length ys \<and> zs ! b = ys ! c"
    using inner_loop [OF kl(1) le_refl kl(2)] by (simp_all add: zs_def Let_def)
  have "score_of (zs ! b) \<le> score_of (zs ! a)" if ab: "a < Suc k" "a < b" "b < length xs" for a b
  proof (cases "a = k")
    case True
    then show ?thesis using ab I(4) IH(1) by simp
  next
    case False
    then have a: "a < k" using ab by simp
    show ?thesis
    proof (cases "b < k")
      case True
      then show ?thesis using I(3) [OF True] I(3) [OF a] IH(3) [OF a ab(2,3)] by simp
    next
      case False
      then obtain c where c: "k \<le> c" "c < length ys" "zs ! b = ys ! c" using I(5) [of b] ab(3) IH(1) by auto
      then show ?thesis using IH(3) [of a c] a I(3) [OF a] IH(1) by simp
    qed
  qed
  moreover have "fold (\<lambda>i xs. fold (exchange i) [Suc i..<length xs] xs) [0..<Suc k] xs = zs" by (simp add: zs_def ys_def)
  ultimately show ?case using I(1,2) IH(1,2) by (simp add: Let_def)
qed simp

lemma sort_scores_props:
  "mset (sort_scores xs) = mset xs" "length (sort_scores xs) = length xs"
  "a < b \<Longrightarrow> b < length xs \<Longrightarrow> score_of (sort_scores xs ! b) \<le> score_of (sort_scores xs ! a)"
  using outer_loop [of "length xs - 1" xs] by (simp_all add: sort_scores_def Let_def)

lemma ranking_props:
  assumes "scores = sort_scores (map (\<lambda>(v, perf). (v, vp_AIScore perf, vp_TotalRevenue perf)) (rw_validatorPerformance r))"
    and "ranking = GetTopPerformingValidators limit r"
  shows "mset scores = mset (map (\<lambda>(v, perf). (v, vp_AIScore perf, vp_TotalRevenue perf)) (rw_validatorPerformance r)) \<and>
    sorted_wrt (\<lambda>x y. \<not> float_less (fst (snd x)) (fst (snd y))) scores \<and>
    map (\<lambda>k. (vk_Validator k, vk_AIScore k, vk_Revenue k)) ranking = take (nat limit) scores \<and>
    map vk_Rank ranking = map int [1..<Suc (min (nat limit) (length scores))]"
proof -
  let ?n = "nat (if limit > int (length scores) then int (length scores) else limit)"
  have n: "?n = min (nat limit) (length scores)" by auto
  have r: "ranking = map (\<lambda>i. \<lparr>vk_Rank = int i + 1, vk_Validator = fst (scores ! i), vk_AIScore = fst (snd (scores ! i)),
      vk_Revenue = snd (snd (scores ! i))\<rparr>) [0..<?n]"
    by (simp add: assms GetTopPerformingValidators_def Let_def)
  have "map (\<lambda>k. (vk_Validator k, vk_AIScore k, vk_Revenue k)) ranking = map (\<lambda>i. scores ! i) [0..<?n]" by (simp add: r o_def)
  also have "\<dots> = take (nat limit) scores" unfolding n by (rule nth_equalityI) auto
  finally have t: "map (\<lambda>k. (vk_Validator k, vk_AIScore k, vk_Revenue k)) ranking = take (nat limit) scores" .
  have "map vk_Rank ranking = map int [1..<Suc ?n]" by (rule nth_equalityI) (auto simp: r nth_upt simp del: upt_Suc)
  moreover have "sorted_wrt (\<lambda>x y. \<not> float_less (fst (snd x)) (fst (snd y))) scores"
    using sort_scores_props(2,3) by (simp add: sorted_wrt_iff_nth_less assms(1) float_less_fval not_less)
  ultimately show ?thesis using t sort_scores_props(1) n assms(1) by simp
qed
text \<open>C27. The ranking is right.  The two exchange loops return a permutation of the tracked validators in which no score is
  followed by a greater one, and a ranking of at most \<open>limit\<close> entries lists its first validators under the ranks 1, 2 and
  so on, with their scores and revenues.\<close>

theorem ranking_sorted:
  "let tracked = map (\<lambda>(v, perf). (v, vp_AIScore perf, vp_TotalRevenue perf)) (rw_validatorPerformance r);
       scores = sort_scores tracked; ranking = GetTopPerformingValidators limit r
   in mset scores = mset tracked \<and>
    sorted_wrt (\<lambda>x y. \<not> float_less (fst (snd x)) (fst (snd y))) scores \<and>
    map (\<lambda>k. (vk_Validator k, vk_AIScore k, vk_Revenue k)) ranking = take (nat limit) scores \<and>
    map vk_Rank ranking = map int [1..<Suc (min (nat limit) (length scores))]"
  unfolding Let_def by (rule ranking_props [OF refl refl])

theorem AIScore_constant_witness:
  "\<exists>(r :: X402ValidatorRewards) v perf. (v, perf) \<in> set (rw_validatorPerformance r) \<and> vp_TotalX402Processed perf = 1 \<and> vp_AIScore perf = f_one"
proof -
  let ?r = "ProcessX402Payment (- (2 ^ 63)) 5 0 0 \<lparr>xp_TxHash = 1, xp_From = 2, xp_To = 3, xp_Amount = 200, xp_Fee = 0, xp_Validator = 9, xp_Timestamp = 0,
       xp_Resource = [], xp_BlockNumber = 1\<rparr> NewX402ValidatorRewards"
  have reach: "rewards_reachable ?r" by (rule rewards_reachable.Step [OF rewards_reachable.New rewards_step.Process])
  have "map fst (rw_validatorPerformance ?r) = [9] \<and> vp_TotalX402Processed (snd (hd (rw_validatorPerformance ?r))) = 1" by code_simp
  then obtain perf where perf: "(9, perf) \<in> set (rw_validatorPerformance ?r)" "vp_TotalX402Processed perf = 1"
    by (cases "rw_validatorPerformance ?r") auto
  from AIScore_constant [OF reach perf(1)] perf show ?thesis by blast
qed

end
