(* ===== verification/System_Upgrade.thy ===== *)
theory System_Upgrade
  imports Congress_Finalize
begin

text \<open>
  Upgrades of the system contracts at the two hard forks (\<^verbatim>\<open>consensus/congress/systemcontract\<close>, \<^verbatim>\<open>Congress.PreHandle\<close>).
  Each action writes the new code of a contract and calls its initialiser.  The byte codes, long constants of the
  package, are the fields of \<open>upgrade_codes\<close>; the ABI encoder is the one of \<open>vm_env\<close>.
\<close>

subsection \<open>Constants\<close>

record upgrade_codes =
  uc_gov :: bytes
  uc_addressList :: bytes
  uc_validatorV1 :: bytes
  uc_punishV1 :: bytes
  uc_addressListV2 :: bytes
  uc_validatorsV2 :: bytes

definition devAdmin :: address where "devAdmin = 0x6a0e7ae8eded108a4ec0e88d355d9279fad93fce"
definition devAdminTestnet :: address where "devAdminTestnet = 0x0dA5ac74D30D5b3c5ca9167A8666Ca98Fd58d9fb"
definition govAdmin :: address where "govAdmin = 0x2F7ef2ab933E5057c3aFc6be6e4867f320E4E6a3"
definition govAdminTestnet :: address where "govAdminTestnet = 0x0dA5ac74D30D5b3c5ca9167A8666Ca98Fd58d9fb"
definition validatorV1Admin :: address where "validatorV1Admin = 0xD849fa4D5475276568eC21f6deBf1C8A889Aa81B"
definition validatorV1AdminTestnet :: address where "validatorV1AdminTestnet = 0x0dA5ac74D30D5b3c5ca9167A8666Ca98Fd58d9fb"

text \<open>\<^verbatim>\<open>getAdminByChainId\<close> of the three contracts; a nil chain id is a nil dereference.\<close>

definition admin_by_chain :: "address \<Rightarrow> address \<Rightarrow> bigint \<Rightarrow> address option" where
  "admin_by_chain mainnet testnet chainId =
    map_option (\<lambda>c. if Some c = ChainID MainnetChainConfig then mainnet else testnet) chainId"

definition addressList_admin :: "bigint \<Rightarrow> address option" where
  "addressList_admin = admin_by_chain devAdmin devAdminTestnet"

definition sysGov_admin :: "bigint \<Rightarrow> address option" where
  "sysGov_admin = admin_by_chain govAdmin govAdminTestnet"

definition validatorsV1_admin :: "bigint \<Rightarrow> address option" where
  "validatorsV1_admin = admin_by_chain validatorV1Admin validatorV1AdminTestnet"

subsection \<open>Calls\<close>

text \<open>The call that all actions end with: pack the arguments and execute the message of the block's coinbase.\<close>

definition upgrade_call ::
  "engine_env \<Rightarrow> congress \<Rightarrow> Header \<Rightarrow> string \<Rightarrow> string \<Rightarrow> abi_value list \<Rightarrow> address \<Rightarrow> StateDB \<Rightarrow> (congress_error, bytes) result \<times> StateDB" where
  "upgrade_call env c header contract method args a s =
    (case vm_Pack (en_vm env) contract method args of
       None \<Rightarrow> (Inl (OtherError ''pack''), s)
     | Some data \<Rightarrow> execute env c header (NewLegacyMessage (h_Coinbase header) (Some a) 0 0 MaxUint64 0 data False) s)"

definition GetTopValidators ::
  "engine_env \<Rightarrow> congress \<Rightarrow> Header \<Rightarrow> StateDB \<Rightarrow> (congress_error, address list) result \<times> StateDB" where
  "GetTopValidators env c header s =
    (case upgrade_call env c header ''validators'' ''getTopValidators'' [] ValidatorsContractAddr s of
       (Inl e, s1) \<Rightarrow> (Inl e, s1)
     | (Inr result, s1) \<Rightarrow>
         (case vm_Unpack (en_vm env) ''validators'' ''getTopValidators'' result of
            None \<Rightarrow> (Inl (OtherError ''unpack''), s1)
          | Some ret \<Rightarrow>
              if length ret \<noteq> 1 then (Inl (OtherError ''invalid params length''), s1)
              else (case ret of
                      [AbiAddresses vs] \<Rightarrow> (Inr (foldr insert_asc vs []), s1)
                    | _ \<Rightarrow> (Inl (OtherError ''invalid validators format''), s1))))"

definition GetValidatorFeeAddr ::
  "engine_env \<Rightarrow> congress \<Rightarrow> Header \<Rightarrow> address \<Rightarrow> StateDB \<Rightarrow> (congress_error, address) result \<times> StateDB" where
  "GetValidatorFeeAddr env c header val s =
    (case upgrade_call env c header ''validators'' ''getValidatorInfo'' [AbiAddress val] ValidatorsContractAddr s of
       (Inl e, s1) \<Rightarrow> (Inl e, s1)
     | (Inr result, s1) \<Rightarrow>
         (case vm_Unpack (en_vm env) ''validators'' ''getValidatorInfo'' result of
            None \<Rightarrow> (Inl (OtherError ''unpack''), s1)
          | Some [] \<Rightarrow> (Inl Panic, s1)
          | Some (AbiAddress feeAddr # _) \<Rightarrow> (Inr feeAddr, s1)
          | Some _ \<Rightarrow> (Inl (OtherError ''invalid output''), s1)))"

fun fee_addresses ::
  "engine_env \<Rightarrow> congress \<Rightarrow> Header \<Rightarrow> address list \<Rightarrow> StateDB \<Rightarrow> (congress_error, address list) result \<times> StateDB" where
  "fee_addresses env c header [] s = (Inr [], s)"
| "fee_addresses env c header (val # vals) s =
     (case GetValidatorFeeAddr env c header val s of
        (Inl e, s1) \<Rightarrow> (Inl e, s1)
      | (Inr feeAddr, s1) \<Rightarrow>
          (case fee_addresses env c header vals s1 of
             (Inl e, s2) \<Rightarrow> (Inl e, s2)
           | (Inr managers, s2) \<Rightarrow> (Inr (feeAddr # managers), s2)))"

subsection \<open>Actions\<close>

datatype upgrade_action = hardForkSysGov | hardForkAddressList | hardForkValidatorsV1 | hardForkPunishV1
  | hardForkAddressListV2 | hardForkValidatorsV2

definition sysGov_Update :: "upgrade_codes \<Rightarrow> backend \<Rightarrow> StateDB \<Rightarrow> StateDB" where
  "sysGov_Update uc be s = SetCode be SysGovContractAddr (Some (uc_gov uc)) s"

definition addressList_Update :: "upgrade_codes \<Rightarrow> backend \<Rightarrow> StateDB \<Rightarrow> StateDB" where
  "addressList_Update uc be s = SetCode be AddressListContractAddr (Some (uc_addressList uc)) s"

definition validatorsV1_Update :: "upgrade_codes \<Rightarrow> backend \<Rightarrow> StateDB \<Rightarrow> StateDB" where
  "validatorsV1_Update uc be s = SetCode be ValidatorsV1ContractAddr (Some (uc_validatorV1 uc)) s"

definition punishV1_Update :: "upgrade_codes \<Rightarrow> backend \<Rightarrow> StateDB \<Rightarrow> StateDB" where
  "punishV1_Update uc be s = SetCode be PunishV1ContractAddr (Some (uc_punishV1 uc)) s"

definition addressListV2_Update :: "upgrade_codes \<Rightarrow> backend \<Rightarrow> StateDB \<Rightarrow> StateDB" where
  "addressListV2_Update uc be s = SetCode be AddressListContractAddr (Some (uc_addressListV2 uc)) s"

definition validatorsV2_Update :: "upgrade_codes \<Rightarrow> backend \<Rightarrow> StateDB \<Rightarrow> StateDB" where
  "validatorsV2_Update uc be s = SetCode be ValidatorsV1ContractAddr (Some (uc_validatorsV2 uc)) s"

text \<open>The method calls through the interface \<^verbatim>\<open>IUpgradeAction\<close>.\<close>

fun upgrade_Update :: "engine_env \<Rightarrow> upgrade_codes \<Rightarrow> upgrade_action \<Rightarrow> StateDB \<Rightarrow> StateDB" where
  "upgrade_Update env uc hardForkSysGov s = sysGov_Update uc (en_be env) s"
| "upgrade_Update env uc hardForkAddressList s = addressList_Update uc (en_be env) s"
| "upgrade_Update env uc hardForkValidatorsV1 s = validatorsV1_Update uc (en_be env) s"
| "upgrade_Update env uc hardForkPunishV1 s = punishV1_Update uc (en_be env) s"
| "upgrade_Update env uc hardForkAddressListV2 s = addressListV2_Update uc (en_be env) s"
| "upgrade_Update env uc hardForkValidatorsV2 s = validatorsV2_Update uc (en_be env) s"

definition init_result :: "(congress_error, bytes) result \<times> StateDB \<Rightarrow> (congress_error, unit) result \<times> StateDB" where
  "init_result r = (case r of (Inl e, s) \<Rightarrow> (Inl e, s) | (Inr _, s) \<Rightarrow> (Inr (), s))"

definition validatorsV1_Execute :: "engine_env \<Rightarrow> congress \<Rightarrow> Header \<Rightarrow> StateDB \<Rightarrow> (congress_error, unit) result \<times> StateDB" where
  "validatorsV1_Execute env c header s =
    (case GetTopValidators env c header s of
       (Inl e, s1) \<Rightarrow> (Inl e, s1)
     | (Inr topVals, s1) \<Rightarrow>
         (case fee_addresses env c header topVals s1 of
            (Inl e, s2) \<Rightarrow> (Inl e, s2)
          | (Inr managers, s2) \<Rightarrow>
              (case validatorsV1_admin (ChainID (cg_chainConfig c)) of
                 None \<Rightarrow> (Inl Panic, s2)
               | Some admin \<Rightarrow>
                   init_result (upgrade_call env c header ''validators_v1'' ''initialize''
                     [AbiAddresses topVals, AbiAddresses managers, AbiAddress admin] ValidatorsV1ContractAddr s2))))"

definition sysGov_Execute :: "engine_env \<Rightarrow> congress \<Rightarrow> Header \<Rightarrow> StateDB \<Rightarrow> (congress_error, unit) result \<times> StateDB" where
  "sysGov_Execute env c header s =
    (case sysGov_admin (ChainID (cg_chainConfig c)) of
       None \<Rightarrow> (Inl Panic, s)
     | Some admin \<Rightarrow> init_result (upgrade_call env c header ''governance'' ''initialize'' [AbiAddress admin] SysGovContractAddr s))"

definition addressList_Execute :: "engine_env \<Rightarrow> congress \<Rightarrow> Header \<Rightarrow> StateDB \<Rightarrow> (congress_error, unit) result \<times> StateDB" where
  "addressList_Execute env c header s =
    (case addressList_admin (ChainID (cg_chainConfig c)) of
       None \<Rightarrow> (Inl Panic, s)
     | Some admin \<Rightarrow> init_result (upgrade_call env c header ''address_list'' ''initialize'' [AbiAddress admin] AddressListContractAddr s))"

definition punishV1_Execute :: "engine_env \<Rightarrow> congress \<Rightarrow> Header \<Rightarrow> StateDB \<Rightarrow> (congress_error, unit) result \<times> StateDB" where
  "punishV1_Execute env c header s = init_result (upgrade_call env c header ''punish_v1'' ''initialize'' [] PunishV1ContractAddr s)"

definition addressListV2_Execute :: "engine_env \<Rightarrow> congress \<Rightarrow> Header \<Rightarrow> StateDB \<Rightarrow> (congress_error, unit) result \<times> StateDB" where
  "addressListV2_Execute env c header s =
    init_result (upgrade_call env c header ''address_list'' ''initializeV2'' [] AddressListContractAddr s)"

definition validatorsV2_Execute :: "engine_env \<Rightarrow> congress \<Rightarrow> Header \<Rightarrow> StateDB \<Rightarrow> (congress_error, unit) result \<times> StateDB" where
  "validatorsV2_Execute env c header s = (Inr (), s)"

fun upgrade_Execute :: "engine_env \<Rightarrow> congress \<Rightarrow> Header \<Rightarrow> upgrade_action \<Rightarrow> StateDB \<Rightarrow> (congress_error, unit) result \<times> StateDB" where
  "upgrade_Execute env c header hardForkSysGov s = sysGov_Execute env c header s"
| "upgrade_Execute env c header hardForkAddressList s = addressList_Execute env c header s"
| "upgrade_Execute env c header hardForkValidatorsV1 s = validatorsV1_Execute env c header s"
| "upgrade_Execute env c header hardForkPunishV1 s = punishV1_Execute env c header s"
| "upgrade_Execute env c header hardForkAddressListV2 s = addressListV2_Execute env c header s"
| "upgrade_Execute env c header hardForkValidatorsV2 s = validatorsV2_Execute env c header s"

fun upgrade_all ::
  "engine_env \<Rightarrow> upgrade_codes \<Rightarrow> congress \<Rightarrow> Header \<Rightarrow> upgrade_action list \<Rightarrow> StateDB \<Rightarrow> (congress_error, unit) result \<times> StateDB" where
  "upgrade_all env uc c header [] s = (Inr (), s)"
| "upgrade_all env uc c header (a # as) s =
     (case upgrade_Execute env c header a (upgrade_Update env uc a s) of
        (Inl e, s1) \<Rightarrow> (Inl e, s1)
      | (Inr _, s1) \<Rightarrow> upgrade_all env uc c header as s1)"

datatype SysContractVersion = SysContractV1 | SysContractV2

fun upgrade_actions :: "SysContractVersion \<Rightarrow> upgrade_action list" where
  "upgrade_actions SysContractV1 = [hardForkSysGov, hardForkAddressList, hardForkValidatorsV1, hardForkPunishV1]"
| "upgrade_actions SysContractV2 = [hardForkAddressListV2, hardForkValidatorsV2]"

definition ApplySystemContractUpgrade ::
  "engine_env \<Rightarrow> upgrade_codes \<Rightarrow> congress \<Rightarrow> SysContractVersion \<Rightarrow> Header \<Rightarrow> StateDB \<Rightarrow> (congress_error, unit) result \<times> StateDB" where
  "ApplySystemContractUpgrade env uc c version header s = upgrade_all env uc c header (upgrade_actions version) s"

text \<open>A header without number is a nil dereference in the comparison.\<close>

definition fork_here :: "bigint \<Rightarrow> Header \<Rightarrow> bool option" where
  "fork_here block header = (case block of None \<Rightarrow> Some False | Some b \<Rightarrow> map_option (\<lambda>n. b = n) (h_Number header))"

definition PreHandle ::
  "engine_env \<Rightarrow> upgrade_codes \<Rightarrow> congress \<Rightarrow> Header \<Rightarrow> StateDB \<Rightarrow> (congress_error, unit) result \<times> StateDB" where
  "PreHandle env uc c header s =
    (case fork_here (RedCoastBlock (cg_chainConfig c)) header of
       None \<Rightarrow> (Inl Panic, s)
     | Some True \<Rightarrow> ApplySystemContractUpgrade env uc c SysContractV1 header s
     | Some False \<Rightarrow>
         (case fork_here (SophonBlock (cg_chainConfig c)) header of
            None \<Rightarrow> (Inl Panic, s)
          | Some True \<Rightarrow> ApplySystemContractUpgrade env uc c SysContractV2 header s
          | Some False \<Rightarrow> (Inr (), s)))"

end
