(* ===== verification/State_Processor.thy ===== *)
theory State_Processor
  imports System_Upgrade
begin

text \<open>
  Execution and validation of a block (\<^verbatim>\<open>core/state_processor.go\<close>, \<^verbatim>\<open>core/block_validator.go\<close>,
  \<^verbatim>\<open>StateDB.PreloadAccounts\<close>), for the Congress engine.  The gas limit that a miner chooses is accepted and converges to its
  target; that the gas of a block adds up is shown in \<open>Block_Accounting\<close>.
\<close>

subsection \<open>Preloading\<close>

definition preloadAccountFromSnap :: "backend \<Rightarrow> address \<Rightarrow> StateDB \<Rightarrow> stateObject option" where
  "preloadAccountFromSnap be a s =
    (case sdb_snap s of
       None \<Rightarrow> None
     | Some sn \<Rightarrow>
         (case sn_Account sn (be_keccak be (address_bytes a)) of
            Some (Some acc) \<Rightarrow>
              (let d = slim_data be acc in Some (newObject be a (sa_Nonce d) (Some (sa_Balance d)) (sa_Root d) (Some (sa_CodeHash d))))
          | _ \<Rightarrow> None))"

text \<open>The addresses of the transactions up to the first whose sender cannot be derived.  The objects are made in parallel
  from the snapshot alone, so their order does not matter.\<close>

fun preload_addresses :: "crypto \<Rightarrow> meta_env \<Rightarrow> Signer \<Rightarrow> Transaction list \<Rightarrow> (address, unit) gomap \<Rightarrow> (address, unit) gomap" where
  "preload_addresses cr me signer [] m = m"
| "preload_addresses cr me signer (tx # txs) m =
     (case signer_Sender cr me signer tx of
        Inl _ \<Rightarrow> m
      | Inr from \<Rightarrow>
          preload_addresses cr me signer txs
            (case tx_To tx of None \<Rightarrow> gm_set m from () | Some to \<Rightarrow> gm_set (gm_set m from ()) to ()))"

definition PreloadAccounts :: "backend \<Rightarrow> crypto \<Rightarrow> meta_env \<Rightarrow> Signer \<Rightarrow> Transaction list \<Rightarrow> StateDB \<Rightarrow> StateDB" where
  "PreloadAccounts be cr me signer txs s =
    (if sdb_snap s = None then s
     else fold (\<lambda>a st. case preloadAccountFromSnap be a s of
                          Some obj \<Rightarrow> if gm_get (sdb_stateObjects st) (so_address obj) = None then setStateObject obj st else st
                        | None \<Rightarrow> st)
            (gm_keys (preload_addresses cr me signer txs [])) s)"

subsection \<open>Transactions\<close>

datatype proc_error = EngineError congress_error | TxError tx_error | MessageError st_error | ProcPanic

text \<open>\<^verbatim>\<open>applyTransaction\<close>.  The two counters are the gas pool and the gas used so far; the bloom, which \<^verbatim>\<open>Process\<close> computes in
  another goroutine and waits for, is computed at once.\<close>

definition tx_receipt ::
  "engine_env \<Rightarrow> Message \<Rightarrow> EVM \<Rightarrow> bigint \<Rightarrow> hash \<Rightarrow> Transaction \<Rightarrow> bytes \<Rightarrow> u64 \<Rightarrow> ExecutionResult \<Rightarrow> StateDB \<Rightarrow> Receipt \<times> StateDB" where
  "tx_receipt env msg evm blockNumber blockHash tx postState usedGas result s =
    (let kec = c_keccak (en_cr env);
         (logs, s') = GetLogs (tx_Hash kec tx) blockHash s;
         receipt = receipt0\<lparr>rc_Type := tx_Type tx, rc_PostState := postState, rc_CumulativeGasUsed := usedGas,
           rc_Status := (if er_Err result \<noteq> None then ReceiptStatusFailed else ReceiptStatusSuccessful),
           rc_TxHash := tx_Hash kec tx, rc_GasUsed := er_UsedGas result,
           rc_ContractAddress := (if msg_to msg = None then CreateAddress (en_be env) (evm_Origin evm) (tx_Nonce tx) else 0),
           rc_Logs := logs, rc_BlockHash := blockHash, rc_BlockNumber := blockNumber,
           rc_TransactionIndex := word_of_int (sdb_txIndex s)\<rparr>
     in (receipt\<lparr>rc_Bloom := of_nat (be_nat (CreateBloom kec [receipt]))\<rparr>, s'))"

definition applyTransaction ::
  "engine_env \<Rightarrow> ChainConfig \<Rightarrow> Message \<Rightarrow> EVM \<Rightarrow> bigint \<Rightarrow> hash \<Rightarrow> Transaction \<Rightarrow> u64 \<Rightarrow> u64 \<Rightarrow> StateDB \<Rightarrow>
   (proc_error, Receipt \<times> u64 \<times> u64) result \<times> StateDB" where
  "applyTransaction env config msg evm blockNumber blockHash tx gp usedGas s =
    (let evm1 = evm\<lparr>evm_Origin := msg_from msg, evm_GasPrice := msg_gasPrice msg\<rparr> in
     case ApplyMessage (en_be env) (en_me env) (vm_evm (en_vm env)) evm1 msg gp s of
       (Inl e, st) \<Rightarrow> (Inl (MessageError e), st_state st)
     | (Inr result, st) \<Rightarrow>
         (let (root, s1) = (if IsByzantium config blockNumber then ([], Finalise (en_be env) True (st_state st))
                            else (let (r, s1) = IntermediateRoot env (IsEIP158 config blockNumber) (st_state st) in (hash_bytes r, s1)));
              usedGas1 = usedGas + er_UsedGas result;
              (receipt, s2) = tx_receipt env msg evm1 blockNumber blockHash tx root usedGas1 result s1
          in (Inr (receipt, st_gp st, usedGas1), s2)))"

text \<open>\<^verbatim>\<open>ApplyTransaction\<close>, which the miner uses.\<close>

definition ApplyTransaction ::
  "engine_env \<Rightarrow> congress \<Rightarrow> ChainConfig \<Rightarrow> address \<Rightarrow> EvmExtraValidator option \<Rightarrow> Header \<Rightarrow> Transaction \<Rightarrow> u64 \<Rightarrow> u64 \<Rightarrow> StateDB \<Rightarrow>
   (proc_error, Receipt \<times> u64 \<times> u64) result \<times> StateDB" where
  "ApplyTransaction env c config author extraValidator header tx gp usedGas s =
    (case AsMessage (en_cr env) (en_me env) (MakeSigner config (h_Number header)) (h_BaseFee header) tx of
       Inl e \<Rightarrow> (Inl (TxError e), s)
     | Inr msg \<Rightarrow>
         (case NewEVMBlockContext (en_ch env) (Some (CanCreate c (en_be env))) header author of
            None \<Rightarrow> (Inl ProcPanic, s)
          | Some blockContext \<Rightarrow>
              applyTransaction env config msg (NewEVM (blockContext\<lparr>bc_ExtraValidator := extraValidator\<rparr>) 0 0 config False False)
                (h_Number header) (header_Hash (c_keccak (en_cr env)) header) tx gp usedGas s))"

subsection \<open>Blocks\<close>

record process_state =
  ps_receipts :: "Receipt list"
  ps_logs :: "Log list"
  ps_usedGas :: u64
  ps_gp :: u64
  ps_common :: "Transaction list"
  ps_system :: "Transaction list"
  ps_caches :: access_caches
  ps_state :: StateDB

text \<open>The loop over the transactions of a block, for the Congress engine; \<open>i\<close> is the index of the transaction.\<close>

fun process_txs ::
  "engine_env \<Rightarrow> congress \<Rightarrow> ChainConfig \<Rightarrow> Signer \<Rightarrow> EVM \<Rightarrow> Header \<Rightarrow> hash \<Rightarrow> nat \<Rightarrow> Transaction list \<Rightarrow> process_state \<Rightarrow>
   (proc_error, process_state) result" where
  "process_txs env c config signer evm header blockHash i [] ps = Inr ps"
| "process_txs env c config signer evm header blockHash i (tx # txs) ps =
     (case signer_Sender (en_cr env) (en_me env) signer tx of
        Inl e \<Rightarrow> Inl (TxError e)
      | Inr sender \<Rightarrow>
          if IsSysTransaction sender tx header then
            process_txs env c config signer evm header blockHash (Suc i) txs (ps\<lparr>ps_system := ps_system ps @ [tx]\<rparr>)
          else
            (case ValidateTx c (en_vm env) (en_be env) (en_ch env) sender tx header (ps_caches ps) (ps_state ps) of
               (Inl e, _, _) \<Rightarrow> Inl (EngineError e)
             | (Inr _, ac, s) \<Rightarrow>
                 (case AsMessage (en_cr env) (en_me env) signer (h_BaseFee header) tx of
                    Inl e \<Rightarrow> Inl (TxError e)
                  | Inr msg \<Rightarrow>
                      (case applyTransaction env config msg evm (h_Number header) blockHash tx (ps_gp ps) (ps_usedGas ps)
                              (state_Prepare (tx_Hash (c_keccak (en_cr env)) tx) (int i) s) of
                         (Inl e, _) \<Rightarrow> Inl e
                       | (Inr (receipt, gp, usedGas), s') \<Rightarrow>
                           process_txs env c config signer evm header blockHash (Suc i) txs
                             (ps\<lparr>ps_receipts := ps_receipts ps @ [receipt], ps_logs := ps_logs ps @ rc_Logs receipt, ps_usedGas := usedGas,
                                ps_gp := gp, ps_common := ps_common ps @ [tx], ps_caches := ac, ps_state := s'\<rparr>)))))"

text \<open>The validator of the engine as the interface that the EVM calls.\<close>

definition extra_validator :: "blacklistValidator \<Rightarrow> EvmExtraValidator" where
  "extra_validator b = \<lparr>ev_IsAddressDenied = IsAddressDenied b, ev_IsLogDenied = IsLogDenied b\<rparr>"

definition process_start ::
  "engine_env \<Rightarrow> upgrade_codes \<Rightarrow> congress \<Rightarrow> ChainConfig \<Rightarrow> Block \<Rightarrow> access_caches \<Rightarrow> StateDB \<Rightarrow> (proc_error, EVM \<times> process_state) result" where
  "process_start env uc c config block ac s =
    (let header = blk_header block in
     case NewEVMBlockContext (en_ch env) (Some (CanCreate c (en_be env))) header (h_Coinbase header) of
       None \<Rightarrow> Inl ProcPanic
     | Some blockContext \<Rightarrow>
         (case PreHandle env uc c header s of
            (Inl e, _) \<Rightarrow> Inl (EngineError e)
          | (Inr _, s1) \<Rightarrow>
              (case CreateEvmExtraValidator c (en_vm env) (en_be env) (en_ch env) header ac s1 of
                 (Inl e, _, _) \<Rightarrow> Inl (EngineError e)
               | (Inr v, ac1, s2) \<Rightarrow>
                   Inr (NewEVM (blockContext\<lparr>bc_ExtraValidator := map_option extra_validator v\<rparr>) 0 0 config False False,
                     \<lparr>ps_receipts = [], ps_logs = [], ps_usedGas = 0, ps_gp = h_GasLimit header, ps_common = [], ps_system = [],
                      ps_caches = ac1,
                      ps_state = PreloadAccounts (en_be env) (en_cr env) (en_me env) (MakeSigner config (h_Number header))
                        (blk_transactions block) s2\<rparr>))))"

text \<open>\<open>None\<close> is a search for a snapshot in \<^verbatim>\<open>Finalize\<close> that does not end, as in \<open>Congress_Finalize\<close>.\<close>

definition Process ::
  "engine_env \<Rightarrow> upgrade_codes \<Rightarrow> congress \<Rightarrow> ChainConfig \<Rightarrow> Block \<Rightarrow> access_caches \<Rightarrow> StateDB \<Rightarrow>
   (proc_error, Receipt list \<times> Log list \<times> u64 \<times> StateDB) result option" where
  "Process env uc c config block ac s =
    (let header = blk_header block; signer = MakeSigner config (h_Number header) in
     case process_start env uc c config block ac s of
       Inl e \<Rightarrow> Some (Inl e)
     | Inr (evm, ps0) \<Rightarrow>
         (case process_txs env c config signer evm header (header_Hash (c_keccak (en_cr env)) header) 0 (blk_transactions block) ps0 of
            Inl e \<Rightarrow> Some (Inl e)
          | Inr ps \<Rightarrow>
              (case Finalize env c header (ps_state ps) (ps_common ps) (ps_receipts ps) (ps_system ps) of
                 None \<Rightarrow> None
               | Some (Inl e, _) \<Rightarrow> Some (Inl (EngineError e))
               | Some (Inr (_, _, receipts, s'), _) \<Rightarrow> Some (Inr (receipts, ps_logs ps, ps_usedGas ps, s')))))"

subsection \<open>Validation\<close>

datatype validation_error = ErrKnownBlock | UnclesError congress_error | UncleHashMismatch | TxHashMismatch | ErrUnknownAncestor
  | ErrPrunedAncestor | GasUsedMismatch | BloomMismatch | ReceiptHashMismatch | RootMismatch

text \<open>\<open>hasBlock\<close> and \<open>hasBlockAndState\<close> are the lookups of the chain.\<close>

definition ValidateBody ::
  "keccak \<Rightarrow> trie_hasher \<Rightarrow> (hash \<Rightarrow> u64 \<Rightarrow> bool) \<Rightarrow> (hash \<Rightarrow> u64 \<Rightarrow> bool) \<Rightarrow> Block \<Rightarrow> (validation_error, unit) result" where
  "ValidateBody kec hasher hasBlock hasBlockAndState block =
    (let header = blk_header block; n = (case header_number header of None \<Rightarrow> 0 | Some n \<Rightarrow> n) in
     if hasBlockAndState (header_Hash kec header) n then Inl ErrKnownBlock
     else
       (case VerifyUncles (blk_uncles block) of
          Inl e \<Rightarrow> Inl (UnclesError e)
        | Inr _ \<Rightarrow>
            if CalcUncleHash kec (blk_uncles block) \<noteq> h_UncleHash header then Inl UncleHashMismatch
            else if DeriveSha hasher (map tx_EncodeIndex (blk_transactions block)) \<noteq> h_TxHash header then Inl TxHashMismatch
            else if \<not> hasBlockAndState (h_ParentHash header) (n - 1) then
              Inl (if \<not> hasBlock (h_ParentHash header) (n - 1) then ErrUnknownAncestor else ErrPrunedAncestor)
            else Inr ()))"

text \<open>The deferred comparison of the blooms replaces an error of the later checks.\<close>

definition ValidateState ::
  "engine_env \<Rightarrow> ChainConfig \<Rightarrow> Block \<Rightarrow> StateDB \<Rightarrow> Receipt list \<Rightarrow> u64 \<Rightarrow> (validation_error, unit) result \<times> StateDB" where
  "ValidateState env config block s receipts usedGas =
    (let header = blk_header block; kec = c_keccak (en_cr env) in
     if h_GasUsed header \<noteq> usedGas then (Inl GasUsedMismatch, s)
     else
       (let rbloom = of_nat (be_nat (CreateBloom kec receipts));
            (r, s') = (if DeriveSha (en_hasher env) (map receipt_EncodeIndex receipts) \<noteq> h_ReceiptHash header then (Inl ReceiptHashMismatch, s)
                       else (let (root, s') = IntermediateRoot env (IsEIP158 config (h_Number header)) s
                             in (if h_Root header \<noteq> root then Inl RootMismatch else Inr (), s')))
        in (if rbloom \<noteq> h_Bloom header then Inl BloomMismatch else r, s')))"

definition CalcGasLimit :: "u64 \<Rightarrow> u64 \<Rightarrow> u64" where
  "CalcGasLimit parentGasLimit desired =
    (let delta = parentGasLimit div GasLimitBoundDivisor - 1;
         desiredLimit = (if desired < MinGasLimit then MinGasLimit else desired)
     in if parentGasLimit < desiredLimit then min (parentGasLimit + delta) desiredLimit
        else if parentGasLimit > desiredLimit then max (parentGasLimit - delta) desiredLimit
        else parentGasLimit)"


subsection \<open>The gas limit of a miner\<close>

text \<open>The limit over the natural numbers: one step of at most \<open>p div 1024 - 1\<close> towards the desired limit.\<close>

definition next_limit :: "nat \<Rightarrow> nat \<Rightarrow> nat" where
  "next_limit d p = (if p < d then min (p + (p div 1024 - 1)) d else max (p - (p div 1024 - 1)) d)"

lemma CalcGasLimit_nat:
  assumes "5000 \<le> unat p" "unat p < 2 ^ 63" "unat desired < 2 ^ 63"
  shows "unat (CalcGasLimit p desired) = next_limit (max 5000 (unat desired)) (unat p)"
proof -
  have d: "unat (p div GasLimitBoundDivisor - 1) = unat p div 1024 - 1"
  proof -
    have q: "unat (p div GasLimitBoundDivisor) = unat p div 1024" by (simp add: unat_div GasLimitBoundDivisor_def)
    moreover have "1 \<le> unat p div 1024" using assms(1) by (simp add: div_le_mono [of 1024 _ 1024, simplified])
    ultimately have "1 \<le> p div GasLimitBoundDivisor" by (simp add: word_le_nat_alt)
    then show ?thesis using q by (simp add: unat_sub)
  qed
  let ?l = "if desired < MinGasLimit then MinGasLimit else desired"
  have l: "unat ?l = max 5000 (unat desired)" by (simp add: MinGasLimit_def word_less_nat_alt max_def)
  have plus: "unat (p + (p div GasLimitBoundDivisor - 1)) = unat p + (unat p div 1024 - 1)"
  proof -
    have "unat p + (unat p div 1024 - 1) < 2 ^ 64" using assms(2) by simp
    then show ?thesis using unat_add_no_overflow d by (simp add: unat_word_ariths)
  qed
  have minus: "unat (p - (p div GasLimitBoundDivisor - 1)) = unat p - (unat p div 1024 - 1)"
  proof -
    have "unat p div 1024 - 1 \<le> unat p" using div_le_dividend [of "unat p" 1024] by linarith
    then have "p div GasLimitBoundDivisor - 1 \<le> p" using d by (simp add: word_le_nat_alt)
    then show ?thesis using d by (simp add: unat_sub)
  qed
  have c: "p < ?l \<longleftrightarrow> unat p < max 5000 (unat desired)" "p > ?l \<longleftrightarrow> unat p > max 5000 (unat desired)"
    using l by (simp_all add: word_less_nat_alt)
  have mm: "unat (min x y) = min (unat x) (unat y)" "unat (max x y) = max (unat x) (unat y)" for x y :: u64
    by (simp_all add: min_def max_def word_le_nat_alt)
  consider (below) "unat p < max 5000 (unat desired)" | (above) "max 5000 (unat desired) < unat p" | (at) "unat p = max 5000 (unat desired)"
    by linarith
  then show ?thesis
  proof cases
    case below
    then show ?thesis unfolding CalcGasLimit_def Let_def c next_limit_def by (simp only: if_True mm plus l)
  next
    case above
    then have "\<not> unat p < max 5000 (unat desired)" by linarith
    with above show ?thesis unfolding CalcGasLimit_def Let_def c next_limit_def by (simp only: if_True if_False mm minus l)
  next
    case at
    then have "\<not> unat p < max 5000 (unat desired)" "\<not> max 5000 (unat desired) < unat p" "max (unat p - (unat p div 1024 - 1)) (max 5000 (unat desired)) = unat p"
      by linarith+
    then show ?thesis unfolding CalcGasLimit_def Let_def c next_limit_def by (simp only: if_False)
  qed
qed

text \<open>One step is accepted by the gas limit rule and does not leave the range.\<close>

lemma next_limit_step:
  assumes "5000 \<le> p" "5000 \<le> d"
  shows "\<bar>int p - int (next_limit d p)\<bar> < int (p div 1024)" "5000 \<le> next_limit d p" "next_limit d p \<le> max p d"
    "p \<noteq> d \<Longrightarrow> \<bar>int d - int (next_limit d p)\<bar> < \<bar>int d - int p\<bar>"
proof -
  have q: "4 \<le> p div 1024" using assms(1) div_le_mono [of 5000 p 1024] by simp
  then show "\<bar>int p - int (next_limit d p)\<bar> < int (p div 1024)" "5000 \<le> next_limit d p" "next_limit d p \<le> max p d"
    "p \<noteq> d \<Longrightarrow> \<bar>int d - int (next_limit d p)\<bar> < \<bar>int d - int p\<bar>"
    using assms unfolding next_limit_def by (auto simp: min_def max_def)
qed

text \<open>A miner's gas limit is always accepted.  The limit that \<^verbatim>\<open>CalcGasLimit\<close> computes for a new block passes
  \<^verbatim>\<open>VerifyGaslimit\<close> against its parent, whatever the miner's target.\<close>

theorem CalcGasLimit_accepted:
  assumes "5000 \<le> unat p" "unat p < 2 ^ 63" "unat desired < 2 ^ 63"
  shows "VerifyGaslimit p (CalcGasLimit p desired) = Inr ()"
proof -
  let ?d = "max 5000 (unat desired)"
  note s = next_limit_step [OF assms(1), of ?d]
  have "next_limit ?d (unat p) \<le> max (unat p) ?d" using s(3) by simp
  also have "\<dots> < 2 ^ 63" using assms by simp
  finally have "unat (CalcGasLimit p desired) < 2 ^ 63" by (simp add: CalcGasLimit_nat [OF assms])
  then show ?thesis using VerifyGaslimit_iff [OF assms(2)] s(1,2) by (simp add: CalcGasLimit_nat [OF assms] del: of_nat_unat)
qed

theorem CalcGasLimit_accepted_witness: "VerifyGaslimit 30000000 (CalcGasLimit 30000000 40000000) = Inr ()"
  by (rule CalcGasLimit_accepted) simp_all

text \<open>C18. The gas limit reaches the target.  Blocks whose miners share one target below \<open>2 ^ 63\<close> arrive exactly there after
  finitely many blocks and stay, from any starting limit of at least 5000, the minimum of the protocol, and below
  \<open>2 ^ 63\<close>; a target below 5000 counts as 5000.\<close>

theorem CalcGasLimit_converges:
  assumes "5000 \<le> unat p" "unat p < 2 ^ 63" "unat desired < 2 ^ 63"
  shows "\<exists>k. \<forall>n\<ge>k. unat (((\<lambda>q. CalcGasLimit q desired) ^^ n) p) = max 5000 (unat desired)"
proof -
  let ?d = "max 5000 (unat desired)" and ?f = "\<lambda>q. CalcGasLimit q desired"
  have step: "5000 \<le> unat (?f q) \<and> unat (?f q) < 2 ^ 63" if "5000 \<le> unat q" "unat q < 2 ^ 63" for q
  proof -
    have "max (unat q) ?d < 2 ^ 63" using that assms(3) by simp
    then show ?thesis using next_limit_step(2,3) [OF that(1), of ?d] CalcGasLimit_nat [OF that assms(3)] by linarith
  qed
  have stay: "unat ((?f ^^ n) q) = ?d" if "unat q = ?d" for n q
  proof (induction n)
    case (Suc n)
    then have q: "5000 \<le> unat ((?f ^^ n) q)" "unat ((?f ^^ n) q) < 2 ^ 63" using assms(3) by (simp_all add: max_def)
    then show ?case using Suc CalcGasLimit_nat [OF q assms(3)] by (simp add: next_limit_def)
  qed (use that in simp)
  have "\<exists>k. unat ((?f ^^ k) p) = ?d" using assms(1,2)
  proof (induction "nat \<bar>int ?d - int (unat p)\<bar>" arbitrary: p rule: less_induct)
    case less
    show ?case
    proof (cases "unat p = ?d")
      case True
      then show ?thesis by (intro exI [of _ 0]) simp
    next
      case False
      have "nat \<bar>int ?d - int (unat (?f p))\<bar> < nat \<bar>int ?d - int (unat p)\<bar>"
        using next_limit_step(4) [OF less.prems(1), of ?d] False CalcGasLimit_nat [OF less.prems assms(3)] by simp
      from less.hyps [OF this] step [OF less.prems] obtain k where "unat ((?f ^^ k) (?f p)) = ?d" by blast
      then show ?thesis by (intro exI [of _ "Suc k"]) (simp only: funpow_Suc_right comp_apply)
    qed
  qed
  then obtain k where k: "unat ((?f ^^ k) p) = ?d" by blast
  have "unat ((?f ^^ n) p) = ?d" if "k \<le> n" for n
  proof -
    have "(?f ^^ n) p = (?f ^^ (n - k)) ((?f ^^ k) p)" using that by (simp flip: funpow_add comp_apply [of "?f ^^ (n - k)"])
    then show ?thesis using stay [OF k] by simp
  qed
  then show ?thesis by blast
qed

theorem CalcGasLimit_converges_witness: "\<exists>k. unat (((\<lambda>q. CalcGasLimit q 6000) ^^ k) 5000) = 6000"
  using CalcGasLimit_converges [of 5000 6000] by auto

end
