(* ===== verification/Block_Accounting.thy ===== *)
theory Block_Accounting
  imports State_Processor Vm_Runs
begin

text \<open>
  The gas of a block.  Every transaction leaves the state without open revisions, so the accounting of messages applies
  to each transaction of a block in turn; the messages run on the interpreter of \<open>Vm_Interpreter\<close>.
\<close>

subsection \<open>States between transactions\<close>

text \<open>Between transactions no revision is open.\<close>

definition between :: "backend \<Rightarrow> StateDB \<Rightarrow> bool" where
  "between be s \<longleftrightarrow> state_inv be s \<and> sdb_validRevisions s = []"

lemma between_in_tx: "between be s \<Longrightarrow> in_tx be s"
  by (auto simp: between_def in_tx_def history_def revs_ok_def)

lemma between_steps: "between be s \<Longrightarrow> steps be s s' \<Longrightarrow> between be s'"
  by (simp add: between_def steps_def)

lemma finalise_fold_inv: "state_inv be s \<Longrightarrow> state_inv be (fold (finalise_one be de) ks s)"
  by (induction ks arbitrary: s) (auto intro: finalise_one_inv)

lemma clear_between: "state_inv be s \<Longrightarrow> between be (clearJournalAndRefund s)"
  by (simp add: between_def clearJournalAndRefund_def state_inv_def load_account_def Let_def)

lemma Finalise_between: "in_tx be s \<Longrightarrow> between be (Finalise be de s)"
  unfolding Finalise_def by (intro clear_between finalise_fold_inv in_tx_inv(1))

lemma Prepare_between: "between be s \<Longrightarrow> between be (state_Prepare h i s)"
  by (simp add: between_def state_Prepare_def state_inv_def load_account_def newAccessList_def al_ok_def)

lemma GetLogs_between: "between be s \<Longrightarrow> between be (snd (GetLogs h b s))"
  by (auto simp: GetLogs_def between_def state_inv_def load_account_def Let_def split: option.split)

subsection \<open>Calls of the engine\<close>

text \<open>The interpreter keeps its contract in every frame that runs under the rules of the block.\<close>

definition block_runs :: "backend \<Rightarrow> evm_env \<Rightarrow> ChainConfig \<Rightarrow> Header \<Rightarrow> bool" where
  "block_runs be env config header \<longleftrightarrow>
    (\<forall>evm. create_reads be evm \<longrightarrow> evm_chainRules evm = config_Rules config (h_Number header) \<longrightarrow> interp_ok be env evm)"

lemma node_block_runs:
  assumes "env = interpreter_env vc" "be = vc_be vc"
    and "r_IsBerlin (config_Rules config (h_Number header)) \<or> r_IsLondon (config_Rules config (h_Number header)) \<longrightarrow>
      r_IsEIP150 (config_Rules config (h_Number header))"
  shows "block_runs be env config header"
  unfolding block_runs_def assms(1,2) interpreter_env_def using Run_at_ok assms(3) by (simp add: vm_rules_def)

lemma context_rules:
  assumes "NewEVMBlockContext ch cc header b = Some ctx"
  shows "evm_chainRules (NewEVM (ctx\<lparr>bc_ExtraValidator := v\<rparr>) o1 g config x y) = config_Rules config (h_Number header)"
    "evm_chainRules (NewEVM ctx o1 g config x y) = config_Rules config (h_Number header)"
    "ctx = ctx\<lparr>bc_CanCreate := cc\<rparr>"
  using assms by (auto simp: NewEVMBlockContext_def NewEVM_def split: option.splits)

lemma ExecuteMsg_between:
  assumes "block_runs be (vm_evm vm) (cg_chainConfig c) header" "between be s"
  shows "between be (snd (ExecuteMsg c vm be ch msg header s))"
proof (cases "NewEVMBlockContext ch (Some (CanCreate c be)) header (h_Coinbase header)")
  case (Some ctx)
  show ?thesis
  proof (cases "msg_to msg")
    case (Some to)
    let ?evm = "NewEVM ctx (msg_from msg) (msg_gasPrice msg) (cg_chainConfig c) False False"
    have "create_reads be ?evm" using engine_create_reads context_rules(3) [OF \<open>_ = Some ctx\<close>] by metis
    then have "interp_ok be (vm_evm vm) ?evm" using assms(1) context_rules(2) [OF \<open>_ = Some ctx\<close>] unfolding block_runs_def by blast
    note call = Call_spec [OF this between_in_tx [OF assms(2)]]
    have "between be (Finalise be True s')"
      if "evm_Call be (vm_evm vm) ?evm (AccountRef (msg_from msg)) to (msg_data msg) (msg_gasLimit msg) (msg_amount msg) s = Some (ret, left, err, s')"
      for ret left err s'
      using call [of "msg_data msg" "msg_gasLimit msg" "AccountRef (msg_from msg)" to "msg_amount msg"] that
        Finalise_between ops_to_in_tx between_in_tx [OF assms(2)] unfolding frame_spec_def by blast
    then show ?thesis using Some \<open>_ = Some ctx\<close> assms(2)
      by (auto simp: ExecuteMsg_def split: option.split)
  qed (use assms(2) \<open>_ = Some ctx\<close> in \<open>simp add: ExecuteMsg_def\<close>)
qed (use assms(2) in \<open>simp add: ExecuteMsg_def\<close>)

lemma commonCall_between:
  assumes "block_runs be (vm_evm vm) (cg_chainConfig c) header" "between be s"
  shows "between be (snd (commonCallContract c vm be ch header abi a method n args s))"
  using ExecuteMsg_between [OF assms] assms(2)
  by (auto simp: commonCallContract_def Let_def case_prod_beta split: option.split sum.split)

lemma GetState_between: "between be s \<Longrightarrow> between be (snd (GetState be a k s))"
  by (rule between_steps, assumption, rule GetState_steps) (simp add: between_def)

lemma get_blacks_between:
  assumes "block_runs be (vm_evm vm) (cg_chainConfig c) header" "between be s"
  shows "between be (snd (get_blacks c vm be ch header method s))"
  using commonCall_between [OF assms]
  by (auto simp: get_blacks_def Let_def case_prod_beta split: sum.split list.split abi_value.split)

lemma inherited_between:
  assumes "between be s"
  shows "between be (snd (inherited_blacklist c be ch ac header n s))"
  using GetState_between [OF assms] assms
  by (auto simp: inherited_blacklist_def lastBlacklistUpdatedNumber_def Let_def case_prod_beta split: option.split)

lemma getBlacklist_between:
  assumes r: "block_runs be (vm_evm vm) (cg_chainConfig c) header" and b: "between be s"
  shows "between be (snd (snd (getBlacklist c vm be ch header ac s)))"
proof -
  have x: "between be s'" if "get_blacks c vm be ch header fn t = (r, s')" "between be t" for fn t r s'
    using get_blacks_between [OF r that(2), of ch fn] that(1) by simp
  have y: "between be s'" if "inherited_blacklist c be ch ac header n s = (r, s')" for n r s'
    using inherited_between [OF b, of c ch ac header n] that by simp
  show ?thesis using b unfolding getBlacklist_def
    by (auto simp: Let_def split: option.split prod.split sum.split dest: x y)
qed

lemma ValidateTx_between:
  assumes "block_runs be (vm_evm vm) (cg_chainConfig c) header" "between be s"
  shows "between be (snd (snd (ValidateTx c vm be ch sender tx header ac s)))"
  using getBlacklist_between [OF assms] assms(2)
  by (auto simp: ValidateTx_def case_prod_beta split: option.split sum.split)


lemma event_rules_between:
  assumes r: "block_runs be (vm_evm vm) (cg_chainConfig c) header" and b: "between be s"
  shows "between be (snd (rules_loop c vm be ch header is rules s))"
  using b
proof (induction "is" arbitrary: rules s)
  case (Cons i "is")
  have "between be (snd (get_rule c vm be ch header (of_nat i) s))"
    using commonCall_between [OF r Cons.prems]
    by (auto simp: get_rule_def Let_def case_prod_beta split: sum.split list.split abi_value.split)
  then show ?case using Cons.IH by (auto split: prod.split sum.split)
qed simp

lemma inherited_rules_between: "between be s \<Longrightarrow> between be (snd (inherited_rules be ch ac header n s))"
  using GetState_between by (auto simp: inherited_rules_def lastRulesUpdatedNumber_def Let_def case_prod_beta split: option.split)

lemma rules_len_between:
  assumes "block_runs be (vm_evm vm) (cg_chainConfig c) header" "between be s"
  shows "between be (snd (getEventCheckRulesLen c vm be ch header s))"
  using commonCall_between [OF assms]
  by (auto simp: getEventCheckRulesLen_def Let_def case_prod_beta split: sum.split list.split abi_value.split)

lemma getEventCheckRules_between:
  assumes r: "block_runs be (vm_evm vm) (cg_chainConfig c) header" and b: "between be s"
  shows "between be (snd (snd (getEventCheckRules c vm be ch header ac s)))"
proof -
  have x: "between be s'" if "rules_loop c vm be ch header is rules t = (q, s')" "between be t" for "is" rules t q s'
    using event_rules_between [OF r that(2), of ch "is" rules] that(1) by simp
  have y: "between be s'" if "inherited_rules be ch ac header n s = (q, s')" for n q s'
    using inherited_rules_between [OF b, of ch ac header n] that by simp
  have z: "between be s'" if "getEventCheckRulesLen c vm be ch header t = (q, s')" "between be t" for t q s'
    using rules_len_between [OF r that(2), of ch] that(1) by simp
  show ?thesis using b unfolding getEventCheckRules_def
    by (auto split: option.split prod.split sum.split dest!: y dest: x z)
qed

lemma ExtraValidator_between:
  assumes r: "block_runs be (vm_evm vm) (cg_chainConfig c) header" and b: "between be s"
  shows "between be (snd (snd (CreateEvmExtraValidator c vm be ch header ac s)))"
proof -
  have x: "between be s'" if "getBlacklist c vm be ch header ac s = (q, ac', s')" for q ac' s'
    using getBlacklist_between [OF r b, of ch ac] that by simp
  have y: "between be s'" if "getEventCheckRules c vm be ch header ac1 t = (q, ac', s')" "between be t" for ac1 t q ac' s'
    using getEventCheckRules_between [OF r that(2), of ch ac1] that(1) by simp
  show ?thesis using b unfolding CreateEvmExtraValidator_def
    by (auto split: option.split prod.split sum.split dest!: x dest: y)
qed

subsection \<open>Upgrades and preloading\<close>

lemma upgrade_call_between:
  assumes "block_runs (en_be env) (vm_evm (en_vm env)) (cg_chainConfig c) header" "between (en_be env) s"
  shows "between (en_be env) (snd (upgrade_call env c header contract method args a s))"
  using ExecuteMsg_between [OF assms] assms(2) by (auto simp: upgrade_call_def execute_def split: option.split)

lemma init_result_snd [simp]: "snd (init_result r) = snd r"
  by (auto simp: init_result_def split: prod.split sum.split)

lemma Execute_between:
  assumes r: "block_runs (en_be env) (vm_evm (en_vm env)) (cg_chainConfig c) header" and b: "between (en_be env) s"
  shows "between (en_be env) (snd (upgrade_Execute env c header action s))"
proof -
  note u = upgrade_call_between [OF r]
  have f: "between (en_be env) (snd (GetValidatorFeeAddr env c header v t))" if "between (en_be env) t" for v t
    using u [OF that] by (auto simp: GetValidatorFeeAddr_def split: prod.split sum.split option.split list.split abi_value.split)
      (metis snd_conv)+
  have fs: "between (en_be env) (snd (fee_addresses env c header vs t))" if "between (en_be env) t" for vs t
    using that
  proof (induction vs arbitrary: t)
    case (Cons v vs)
    have "between (en_be env) t'" if "GetValidatorFeeAddr env c header v t = (q, t')" for q t'
      using f [OF Cons.prems, of v] that by simp
    then show ?case using Cons.IH by (auto split: prod.split sum.split) (metis snd_conv)+
  qed simp
  have t: "between (en_be env) (snd (GetTopValidators env c header s))"
    using u [OF b] by (auto simp: GetTopValidators_def split: prod.split sum.split option.split list.split abi_value.split) (metis snd_conv)+
  have "between (en_be env) (snd (validatorsV1_Execute env c header s))"
  proof -
    obtain q s1 where q: "GetTopValidators env c header s = (q, s1)" by fastforce
    then have b1: "between (en_be env) s1" using t by simp
    show ?thesis
    proof (cases q)
      case (Inr vs)
      obtain q2 s2 where q2: "fee_addresses env c header vs s1 = (q2, s2)" by fastforce
      then have "between (en_be env) s2" using fs [OF b1, of vs] by simp
      then show ?thesis using q q2 Inr u by (auto simp: validatorsV1_Execute_def split: sum.split option.split)
    qed (use q b1 in \<open>simp add: validatorsV1_Execute_def\<close>)
  qed
  then show ?thesis using u [OF b] b
    by (cases action) (auto simp: sysGov_Execute_def addressList_Execute_def punishV1_Execute_def addressListV2_Execute_def
        validatorsV2_Execute_def split: option.split)
qed

lemma Update_between: "between (en_be env) s \<Longrightarrow> between (en_be env) (upgrade_Update env uc action s)"
  using between_steps [OF _ SetCode_steps]
  by (cases action) (auto simp: sysGov_Update_def addressList_Update_def validatorsV1_Update_def punishV1_Update_def
      addressListV2_Update_def validatorsV2_Update_def between_def)

lemma PreHandle_between:
  assumes r: "block_runs (en_be env) (vm_evm (en_vm env)) (cg_chainConfig c) header" and b: "between (en_be env) s"
  shows "between (en_be env) (snd (PreHandle env uc c header s))"
proof -
  have "between (en_be env) (snd (upgrade_all env uc c header as t))" if "between (en_be env) t" for "as" t
    using that
  proof (induction "as" arbitrary: t)
    case (Cons a "as")
    have "between (en_be env) t'" if "upgrade_Execute env c header a (upgrade_Update env uc a t) = (q, t')" for q t'
      using Execute_between [OF r Update_between [OF Cons.prems, of uc a], of a] that by simp
    then show ?case using Cons.IH by (auto split: prod.split sum.split)
  qed simp
  then show ?thesis using b
    by (auto simp: PreHandle_def ApplySystemContractUpgrade_def simp del: upgrade_all.simps upgrade_actions.simps
        split: option.split bool.split)
qed

lemma Preload_between:
  assumes "between be s"
  shows "between be (PreloadAccounts be cr me signer txs s)"
proof -
  let ?f = "\<lambda>a st. case preloadAccountFromSnap be a s of
      Some obj \<Rightarrow> if gm_get (sdb_stateObjects st) (so_address obj) = None then setStateObject obj st else st | None \<Rightarrow> st"
  have step: "between be (?f a st) \<and> sdb_snap (?f a st) = sdb_snap s" if "between be st" "sdb_snap st = sdb_snap s" for a st
  proof (cases "preloadAccountFromSnap be a s")
    case (Some obj)
    have o: "so_address obj = a" using Some by (auto simp: preloadAccountFromSnap_def Let_def newObject_sel split: option.splits)
    show ?thesis
    proof (cases "gm_get (sdb_stateObjects st) a")
      case None
      have "getDeletedStateObject be a st = (Some obj, setStateObject obj st)"
        using Some None that(2) by (auto simp: getDeletedStateObject_def load_account_def preloadAccountFromSnap_def Let_def split: option.splits)
      then have "steps be st (setStateObject obj st)" using getDeleted_steps that(1) unfolding between_def by blast
      then show ?thesis using Some None o between_steps [OF that(1)] that(2) by (simp add: setStateObject_fields)
    qed (use Some o that in simp)
  qed (use that in simp)
  have "between be (fold ?f ks st) \<and> sdb_snap (fold ?f ks st) = sdb_snap s" if "between be st" "sdb_snap st = sdb_snap s" for ks st
    using that by (induction ks arbitrary: st) (use step in force)+
  then show ?thesis using assms by (simp add: PreloadAccounts_def)
qed


subsection \<open>Messages\<close>

lemma AddBalance_in_tx: "in_tx be s \<Longrightarrow> in_tx be (AddBalance be a x s)"
  using ops_to_in_tx frame_steps(1) by blast

lemma settle_in_tx:
  assumes "in_tx be (st_state st)" "settle be evm ret vmerr st = (Inr res, st')"
  shows "in_tx be (st_state st')"
  using assms AddBalance_in_tx by (auto simp: settle_def refundGas_def Let_def split: option.splits)

text \<open>The gas of a message that is not a meta transaction.\<close>

lemma ApplyMessage_gas:
  assumes "interp_ok be env evm" "create_reads be evm" "in_tx be s" "\<not> IsMetaTransaction (msg_data msg)"
    and r: "ApplyMessage be me env evm msg gp s = (Inr res, st')"
  shows "er_UsedGas res \<le> msg_gasLimit msg \<and> msg_gasLimit msg \<le> gp \<and> st_gp st' = gp - er_UsedGas res \<and> in_tx be (st_state st')"
proof -
  let ?n = "NewStateTransition s msg gp"
  have t: "TransitionDb be me env evm ?n = (Inr res, st')" using r by (simp add: ApplyMessage_def)
  obtain st where pre: "preCheck be me evm ?n = (Inr (), st)"
    using t by (auto simp: TransitionDb_def split: prod.splits sum.splits)
  note b = preCheck_bought [OF assms(3,4) pre]
  then have B: "msg_gasLimit msg \<le> gp" "st_gp st = gp - msg_gasLimit msg" "st_gas st = msg_gasLimit msg"
    "st_initialGas st = msg_gasLimit msg" "\<not> st_isMeta st" "in_tx be (st_state st)"
    by (simp_all add: bought_def)
  obtain st1 ret left err s2 g u where x: "run_message be env evm st1 = Some (ret, left, err, s2)"
    "settle be evm ret err (st1\<lparr>st_gas := left, st_state := s2\<rparr>) = (Inr res, st')"
    "st1 = st\<lparr>st_gas := g, st_state := u\<rparr>" "g \<le> st_gas st" "quiet_to be (st_state st) u"
    using TransitionDb_run [OF b assms(2) pre t] by blast
  have i1: "in_tx be (st_state st1)" using quiet_in_tx [OF x(5) B(6)] by (simp add: x(3))
  have y: "ops_to be (st_state st1) s2" "left \<le> g"
    using run_message_spec [OF assms(1,2) i1 x(1)] by (auto simp: x(3))
  let ?st = "st1\<lparr>st_gas := left, st_state := s2\<rparr>"
  have f: "in_tx be (st_state ?st)" "\<not> st_isMeta ?st" "st_gas ?st \<le> st_initialGas ?st" "st_initialGas ?st \<le> gp"
    "st_gp ?st = gp - st_initialGas ?st"
    using ops_to_in_tx [OF y(1) i1] B y(2) x(4) by (auto simp: x(3))
  have "st_initialGas ?st = msg_gasLimit msg" using B(4) by (simp add: x(3))
  moreover have "er_UsedGas res \<le> st_initialGas ?st" "st_gp st' = gp - er_UsedGas res"
    using settle_spec [OF f(1-5) x(2)] by blast+
  ultimately show ?thesis using settle_in_tx [OF f(1) x(2)] B(1) by simp
qed

text \<open>An EVM of the block: its rules and its check of developers are those of the engine.\<close>

definition block_evm :: "backend \<Rightarrow> ChainConfig \<Rightarrow> Header \<Rightarrow> EVM \<Rightarrow> bool" where
  "block_evm be config header evm \<longleftrightarrow> create_reads be evm \<and> evm_chainRules evm = config_Rules config (h_Number header)"

lemma block_evm_origin: "block_evm be config header evm \<Longrightarrow> block_evm be config header (evm\<lparr>evm_Origin := x, evm_GasPrice := y\<rparr>)"
  by (simp add: block_evm_def create_reads_def may_create_def cong: option.case_cong)

lemma applyTransaction_gas:
  assumes "block_runs (en_be env) (vm_evm (en_vm env)) config header" "block_evm (en_be env) config header evm" "between (en_be env) s"
    and "\<not> IsMetaTransaction (msg_data msg)" "IsByzantium config (h_Number header)"
    and r: "applyTransaction env config msg evm (h_Number header) blockHash tx gp usedGas s = (Inr (receipt, gp', usedGas'), s')"
  shows "rc_GasUsed receipt \<le> msg_gasLimit msg \<and> msg_gasLimit msg \<le> gp \<and> gp' = gp - rc_GasUsed receipt \<and>
    usedGas' = usedGas + rc_GasUsed receipt \<and> rc_CumulativeGasUsed receipt = usedGas' \<and>
    rc_TxHash receipt = tx_Hash (c_keccak (en_cr env)) tx \<and> between (en_be env) s'"
proof -
  let ?evm = "evm\<lparr>evm_Origin := msg_from msg, evm_GasPrice := msg_gasPrice msg\<rparr>" and ?be = "en_be env"
  have e: "block_evm ?be config header ?evm" using block_evm_origin [OF assms(2)] .
  then have ok: "interp_ok ?be (vm_evm (en_vm env)) ?evm" "create_reads ?be ?evm"
    using assms(1) unfolding block_runs_def block_evm_def by blast+
  obtain res st where m: "ApplyMessage ?be (en_me env) (vm_evm (en_vm env)) ?evm msg gp s = (Inr res, st)"
    using r by (auto simp: applyTransaction_def Let_def split: prod.splits sum.splits)
  note g = ApplyMessage_gas [OF ok between_in_tx [OF assms(3)] assms(4) m]
  then have "between ?be (Finalise ?be True (st_state st))" using Finalise_between by blast
  note fin = GetLogs_between [OF this]
  show ?thesis using r m g assms(5) fin
    by (auto simp: applyTransaction_def tx_receipt_def Let_def case_prod_beta)
qed

subsection \<open>The loop over the transactions\<close>

definition is_system :: "engine_env \<Rightarrow> Signer \<Rightarrow> Header \<Rightarrow> Transaction \<Rightarrow> bool" where
  "is_system env signer header tx =
    (case signer_Sender (en_cr env) (en_me env) signer tx of Inl _ \<Rightarrow> False | Inr sender \<Rightarrow> IsSysTransaction sender tx header)"

definition gas_sum :: "Receipt list \<Rightarrow> int" where
  "gas_sum rs = (\<Sum>r\<leftarrow>rs. uint (rc_GasUsed r))"

lemma gas_sum_snoc [simp]: "gas_sum [] = 0" "gas_sum (rs @ [r]) = gas_sum rs + uint (rc_GasUsed r)"
  by (simp_all add: gas_sum_def)

text \<open>A receipt of a transaction, with what it knows of the gas.\<close>

definition receipt_for :: "keccak \<Rightarrow> Receipt \<Rightarrow> Transaction \<Rightarrow> bool" where
  "receipt_for kec r tx \<longleftrightarrow> rc_TxHash r = tx_Hash kec tx \<and> rc_GasUsed r \<le> tx_Gas tx"

text \<open>The counters of the loop after the transactions in \<open>ps_common\<close>, for a block with gas limit \<open>limit\<close>.\<close>

definition counters_ok :: "engine_env \<Rightarrow> u64 \<Rightarrow> process_state \<Rightarrow> bool" where
  "counters_ok env limit ps \<longleftrightarrow>
    between (en_be env) (ps_state ps) \<and> list_all2 (receipt_for (c_keccak (en_cr env))) (ps_receipts ps) (ps_common ps) \<and>
    (\<forall>k < length (ps_receipts ps). uint (rc_CumulativeGasUsed (ps_receipts ps ! k)) = gas_sum (take (Suc k) (ps_receipts ps))) \<and>
    uint (ps_usedGas ps) = gas_sum (ps_receipts ps) \<and> uint (ps_gp ps) = uint limit - uint (ps_usedGas ps)"

lemma counters_start: "between (en_be env) s \<Longrightarrow> ps_receipts ps = [] \<Longrightarrow> ps_common ps = [] \<Longrightarrow> ps_usedGas ps = 0 \<Longrightarrow>
    ps_gp ps = limit \<Longrightarrow> ps_state ps = s \<Longrightarrow> counters_ok env limit ps"
  by (simp add: counters_ok_def)

lemma counters_step:
  assumes "counters_ok env limit ps" "rc_GasUsed r \<le> ps_gp ps" "receipt_for (c_keccak (en_cr env)) r tx"
    and "rc_CumulativeGasUsed r = ps_usedGas ps + rc_GasUsed r" "between (en_be env) s"
    and "ps_receipts ps' = ps_receipts ps @ [r]" "ps_common ps' = ps_common ps @ [tx]" "ps_usedGas ps' = ps_usedGas ps + rc_GasUsed r"
    and "ps_gp ps' = ps_gp ps - rc_GasUsed r" "ps_state ps' = s"
  shows "counters_ok env limit ps'"
proof -
  have g: "uint (ps_gp ps - rc_GasUsed r) = uint (ps_gp ps) - uint (rc_GasUsed r)" using assms(2) by (simp add: uint_sub_lem word_le_def)
  have "uint (ps_usedGas ps) + uint (rc_GasUsed r) \<le> uint limit"
    using assms(1,2) by (simp add: counters_ok_def word_le_def)
  also have "\<dots> < 2 ^ 64" using uint_lt2p [of limit] by simp
  finally have u: "uint (ps_usedGas ps + rc_GasUsed r) = uint (ps_usedGas ps) + uint (rc_GasUsed r)"
    by (simp add: uint_word_ariths)
  have "uint (rc_CumulativeGasUsed (ps_receipts ps' ! k)) = gas_sum (take (Suc k) (ps_receipts ps'))"
    if "k < Suc (length (ps_receipts ps))" for k
    using assms(1,4) u that by (cases "k = length (ps_receipts ps)") (simp_all add: assms(6) counters_ok_def nth_append)
  then show ?thesis using assms(1,3,5) g u
    unfolding counters_ok_def assms(6-10) by (simp add: list_all2_appendI)
qed

lemma process_txs_counters:
  assumes r: "block_runs (en_be env) (vm_evm (en_vm env)) config header" and e: "block_evm (en_be env) config header evm"
    and c: "cg_chainConfig c = config" and b: "IsByzantium config (h_Number header)"
    and m: "\<forall>tx\<in>set txs. \<not> IsMetaTransaction (tx_Data tx)" and i: "counters_ok env limit ps"
    and p: "process_txs env c config signer evm header blockHash i txs ps = Inr ps'"
  shows "counters_ok env limit ps' \<and> ps_common ps' = ps_common ps @ filter (\<lambda>tx. \<not> is_system env signer header tx) txs \<and>
    ps_system ps' = ps_system ps @ filter (is_system env signer header) txs"
  using m i p
proof (induction txs arbitrary: i ps)
  case (Cons tx txs)
  obtain sender where s: "signer_Sender (en_cr env) (en_me env) signer tx = Inr sender"
    using Cons.prems(3) by (auto split: sum.splits)
  show ?case
  proof (cases "IsSysTransaction sender tx header")
    case True
    have "counters_ok env limit (ps\<lparr>ps_system := ps_system ps @ [tx]\<rparr>)" using Cons.prems(2) by (simp add: counters_ok_def)
    then show ?thesis using True Cons.IH [of "ps\<lparr>ps_system := ps_system ps @ [tx]\<rparr>" "Suc i"] Cons.prems(1,3) s
      by (simp add: is_system_def)
  next
    case False
    obtain ac t where v: "ValidateTx c (en_vm env) (en_be env) (en_ch env) sender tx header (ps_caches ps) (ps_state ps) = (Inr (), ac, t)"
      using Cons.prems(3) s False by (auto split: prod.splits sum.splits)
    obtain msg where a: "AsMessage (en_cr env) (en_me env) signer (h_BaseFee header) tx = Inr msg"
      using Cons.prems(3) s False v by (auto split: sum.splits)
    have msg: "msg_data msg = tx_Data tx" "msg_gasLimit msg = tx_Gas tx" using a s by (auto simp: AsMessage_def NewMessage_def)
    let ?t = "state_Prepare (tx_Hash (c_keccak (en_cr env)) tx) (int i) t"
    obtain receipt gp usedGas s' where t: "applyTransaction env config msg evm (h_Number header) blockHash tx (ps_gp ps) (ps_usedGas ps) ?t
        = (Inr (receipt, gp, usedGas), s')"
      using Cons.prems(3) s False v a by (auto split: prod.splits sum.splits)
    have "between (en_be env) t"
      using ValidateTx_between [of "en_be env" "en_vm env" c header "ps_state ps" "en_ch env" sender tx "ps_caches ps"] r c v Cons.prems(2)
      by (simp add: counters_ok_def)
    then have g: "rc_GasUsed receipt \<le> tx_Gas tx" "tx_Gas tx \<le> ps_gp ps" "gp = ps_gp ps - rc_GasUsed receipt"
      "usedGas = ps_usedGas ps + rc_GasUsed receipt" "rc_CumulativeGasUsed receipt = usedGas"
      "rc_TxHash receipt = tx_Hash (c_keccak (en_cr env)) tx" "between (en_be env) s'"
      using applyTransaction_gas [OF r e Prepare_between _ b t] Cons.prems(1) by (simp_all add: msg)
    let ?ps = "ps\<lparr>ps_receipts := ps_receipts ps @ [receipt], ps_logs := ps_logs ps @ rc_Logs receipt, ps_usedGas := usedGas,
                ps_gp := gp, ps_common := ps_common ps @ [tx], ps_caches := ac, ps_state := s'\<rparr>"
    have "counters_ok env limit ?ps"
      using counters_step [OF Cons.prems(2), of receipt tx s' ?ps] g by (simp add: receipt_for_def)
    moreover have "process_txs env c config signer evm header blockHash (Suc i) txs ?ps = Inr ps'"
      using Cons.prems(3) s False v a t by simp
    ultimately show ?thesis using Cons.IH [of ?ps "Suc i"] Cons.prems(1) s False by (simp add: is_system_def)
  qed
qed simp


text \<open>C17. The gas of a block adds up.  Take a block without meta transactions, processed with the node's interpreter from a
  state between transactions, under a chain configuration in which Byzantium is active at the block (so that the
  state root of an intermediate state, which \<^verbatim>\<open>applyTransaction\<close> puts into older receipts, plays no role) and in which
  EIP-150 is active if Berlin or London is.  If the preparation of the block and the processing of its transactions succeed, the transactions are split in order into common and system transactions; there is one receipt per common transaction, in order, with its
  hash, at most its gas limit as used gas, and the sum of the gas used so far as cumulative gas; the total never exceeds the
  gas limit of the block (so that no sum wraps), and the gas pool has lost exactly the total.\<close>

theorem block_gas_adds_up:
  assumes "vm_evm (en_vm env) = interpreter_env vc" "en_be env = vc_be vc"
    and "cg_chainConfig c = config" "IsByzantium config (h_Number header)"
    and "let r = config_Rules config (h_Number header) in r_IsBerlin r \<or> r_IsLondon r \<longrightarrow> r_IsEIP150 r"
    and "\<forall>tx\<in>set (blk_transactions block). \<not> IsMetaTransaction (tx_Data tx)"
    and "blk_header block = header" "signer = MakeSigner config (h_Number header)" "between (en_be env) s"
    and "process_start env uc c config block ac s = Inr (evm, ps0)"
    and "process_txs env c config signer evm header blockHash 0 (blk_transactions block) ps0 = Inr ps"
  shows "ps_common ps = filter (\<lambda>tx. \<not> is_system env signer header tx) (blk_transactions block) \<and>
    ps_system ps = filter (is_system env signer header) (blk_transactions block) \<and>
    length (ps_receipts ps) = length (ps_common ps) \<and>
    (\<forall>k < length (ps_receipts ps). rc_TxHash (ps_receipts ps ! k) = tx_Hash (c_keccak (en_cr env)) (ps_common ps ! k) \<and>
      rc_GasUsed (ps_receipts ps ! k) \<le> tx_Gas (ps_common ps ! k) \<and>
      uint (rc_CumulativeGasUsed (ps_receipts ps ! k)) = (\<Sum>r\<leftarrow>take (Suc k) (ps_receipts ps). uint (rc_GasUsed r))) \<and>
    uint (ps_usedGas ps) = (\<Sum>r\<leftarrow>ps_receipts ps. uint (rc_GasUsed r)) \<and>
    ps_usedGas ps \<le> h_GasLimit header \<and> ps_gp ps = h_GasLimit header - ps_usedGas ps"
proof -
  let ?be = "en_be env"
  have r: "block_runs ?be (vm_evm (en_vm env)) config header"
    using node_block_runs [OF assms(1,2)] assms(5) unfolding Let_def by blast
  obtain ctx r1 s1 v ac1 s2 where st: "NewEVMBlockContext (en_ch env) (Some (CanCreate c ?be)) header (h_Coinbase header) = Some ctx"
    "PreHandle env uc c header s = (Inr r1, s1)"
    "CreateEvmExtraValidator c (en_vm env) ?be (en_ch env) header ac s1 = (Inr v, ac1, s2)"
    "evm = NewEVM (ctx\<lparr>bc_ExtraValidator := map_option extra_validator v\<rparr>) 0 0 config False False"
    "ps_receipts ps0 = []" "ps_usedGas ps0 = 0" "ps_gp ps0 = h_GasLimit header" "ps_common ps0 = []" "ps_system ps0 = []"
    "ps_state ps0 = PreloadAccounts ?be (en_cr env) (en_me env) signer (blk_transactions block) s2"
    using assms(7,8,10) by (auto simp: process_start_def Let_def split: option.splits prod.splits sum.splits)
  have "between ?be s2"
    using ExtraValidator_between [of ?be "en_vm env" c header s1 "en_ch env" ac] PreHandle_between [of env c header s uc] r assms(3,9) st(2,3)
    by simp
  then have b: "between ?be (ps_state ps0)" unfolding st(10) by (rule Preload_between)
  let ?ctx = "ctx\<lparr>bc_ExtraValidator := map_option extra_validator v\<rparr>"
  have "?ctx = ?ctx\<lparr>bc_CanCreate := Some (CanCreate c ?be)\<rparr>"
    using st(1) by (auto simp: NewEVMBlockContext_def split: option.splits)
  then have "create_reads ?be evm" unfolding st(4) using engine_create_reads by metis
  then have e: "block_evm ?be config header evm" unfolding block_evm_def st(4) using context_rules(1) [OF st(1)] by simp
  note q = process_txs_counters [OF r e assms(3,4,6) counters_start [OF b st(5,8,6,7) refl] assms(11)]
  then have i: "counters_ok env (h_GasLimit header) ps" by blast
  have "uint (ps_usedGas ps) \<le> uint (h_GasLimit header)" using i uint_ge_0 [of "ps_gp ps"] unfolding counters_ok_def by linarith
  then have "ps_usedGas ps \<le> h_GasLimit header" by (simp add: word_le_def)
  moreover from this have "uint (ps_gp ps) = uint (h_GasLimit header - ps_usedGas ps)"
    using i by (simp add: counters_ok_def uint_sub_lem word_le_def)
  then have "ps_gp ps = h_GasLimit header - ps_usedGas ps" by (simp only: word_uint_eq_iff)
  ultimately show ?thesis using q i st(8,9)
    by (simp add: counters_ok_def list_all2_conv_all_nth receipt_for_def gas_sum_def)
qed


definition demo_processor :: "(EVM \<Rightarrow> Contract \<Rightarrow> bytes \<Rightarrow> bool \<Rightarrow> StateDB \<Rightarrow> run_result option) \<Rightarrow> engine_env" where
  "demo_processor run = demo_engine_env\<lparr>en_vm := demo_vm\<lparr>vm_evm := demo_env\<lparr>ee_Run := run\<rparr>\<rparr>,
     en_cr := demo_crypto\<lparr>c_keccak := (\<lambda>bs. word_of_nat (length bs))\<rparr>\<rparr>"

definition demo_paid :: "u64 \<Rightarrow> Transaction" where
  "demo_paid n = \<lparr>tx_inner = TxLegacy \<lparr>lt_Nonce = n, lt_GasPrice = 1, lt_Gas = 30000, lt_To = Some 8, lt_Value = 3, lt_Data = [],
     lt_V = 27, lt_R = 1, lt_S = 2\<rparr>, tx_time = 0\<rparr>"

definition demo_body :: Block where
  "demo_body = \<lparr>blk_header = header0\<lparr>h_Number := Some 8, h_Difficulty := Some 2, h_GasLimit := 100000\<rparr>,
     blk_transactions = [demo_paid 0], blk_uncles = []\<rparr>"

definition demo_payer :: address where
  "demo_payer = 65"

definition demo_uc :: upgrade_codes where
  "demo_uc = \<lparr>uc_gov = [], uc_addressList = [], uc_validatorV1 = [], uc_punishV1 = [], uc_addressListV2 = [], uc_validatorsV2 = []\<rparr>"

abbreviation demo_started where
  "demo_started run \<equiv> process_start (demo_processor run) demo_uc demo_engine MainnetChainConfig demo_body
     \<lparr>ac_blacklists = [], ac_eventCheckRules = []\<rparr> (AddBalance demo_be demo_payer 1000000 (state_New None))"

abbreviation demo_loop where
  "demo_loop run evm ps0 \<equiv> process_txs (demo_processor run) demo_engine MainnetChainConfig
     (MakeSigner MainnetChainConfig (h_Number (blk_header demo_body))) evm (blk_header demo_body) 5 0 (blk_transactions demo_body) ps0"

text \<open>The receiver has no code, so the run is the same for every interpreter.\<close>

lemma demo_processed:
  "(case demo_started run of
      Inl e \<Rightarrow> None
    | Inr (evm, ps0) \<Rightarrow>
        (case demo_loop run evm ps0 of
           Inl e \<Rightarrow> None
         | Inr ps \<Rightarrow> Some (map rc_GasUsed (ps_receipts ps), ps_usedGas ps))) = Some ([21000], 21000)"
  by code_simp

theorem block_gas_adds_up_witness:
  "let run = Run_at 1025 demo_vc False
   in \<exists>evm ps0 ps. demo_started run = Inr (evm, ps0) \<and> demo_loop run evm ps0 = Inr ps \<and>
        ps_common ps = [demo_paid 0] \<and> map rc_GasUsed (ps_receipts ps) = [21000] \<and> ps_usedGas ps = 21000 \<and> ps_gp ps = 79000"
proof -
  let ?run = "Run_at 1025 demo_vc False"
  obtain evm ps0 ps where p: "demo_started ?run = Inr (evm, ps0)" "demo_loop ?run evm ps0 = Inr ps"
    "map rc_GasUsed (ps_receipts ps) = [21000]" "ps_usedGas ps = 21000"
    using demo_processed [of ?run] by (auto split: sum.splits)
  let ?e = "demo_processor ?run" and ?h = "blk_header demo_body"
  have e: "vm_evm (en_vm ?e) = interpreter_env demo_vc" "en_be ?e = vc_be demo_vc" "en_be ?e = demo_be"
    by (simp_all add: demo_processor_def interpreter_env_def demo_vc_def demo_engine_env_def CallCreateDepth_def)
  have h: "cg_chainConfig demo_engine = MainnetChainConfig" "IsByzantium MainnetChainConfig (h_Number ?h)" "h_GasLimit ?h = 100000"
    "let r = config_Rules MainnetChainConfig (h_Number ?h) in r_IsBerlin r \<or> r_IsLondon r \<longrightarrow> r_IsEIP150 r"
    "\<forall>tx\<in>set (blk_transactions demo_body). \<not> IsMetaTransaction (tx_Data tx)"
    by code_simp+
  have b: "between (en_be ?e) (AddBalance demo_be demo_payer 1000000 (state_New None))"
    unfolding e(3) by (rule between_steps [OF _ AddBalance_steps]) (use demo_in_tx in_tx_inv(1) in \<open>auto simp: between_def state_New_def\<close>)
  have "blk_transactions demo_body = [demo_paid 0]" by (simp add: demo_body_def)
  moreover have "length (ps_receipts ps) = 1" using p(3) by (metis length_map length_Cons list.size(3) One_nat_def)
  moreover note block_gas_adds_up [OF e(1,2) h(1,2,4,5) refl refl b p(1,2)]
  ultimately have "ps_common ps = [demo_paid 0]" "ps_gp ps = 79000" using p(4) h(3) by (auto split: if_splits)
  then show ?thesis using p by auto
qed

end
