(* ===== verification/Merkle_Trie.thy ===== *)
theory Merkle_Trie
  imports Header
begin

text \<open>
  The Merkle Patricia trie (\<^verbatim>\<open>trie/encoding.go\<close>, \<^verbatim>\<open>trie/trie.go\<close>): the key encodings, the nodes and the operations on
  a trie whose nodes are loaded from the database on demand.  A node represents a map from the rest of a key to values,
  in a minimal form; reading, inserting and deleting return without error and are the operations on that map.
\<close>

unbundle bit_operations_syntax

subsection \<open>Key encodings\<close>

definition hasTerm :: "bytes \<Rightarrow> bool" where
  "hasTerm s = (length s > 0 \<and> s ! (length s - 1) = 16)"

text \<open>\<^verbatim>\<open>decodeNibbles\<close> panics when the number of nibbles is odd; the callers pass an even number.\<close>

fun decodeNibbles :: "bytes \<Rightarrow> bytes" where
  "decodeNibbles (a # b # ns) = (push_bit 4 a OR b) # decodeNibbles ns"
| "decodeNibbles _ = []"

definition hexToCompact :: "bytes \<Rightarrow> bytes" where
  "hexToCompact hex =
    (let terminator = (if hasTerm hex then 1 else 0); hex1 = (if hasTerm hex then butlast hex else hex); buf0 = push_bit 5 terminator
     in if odd (length hex1) then (buf0 OR push_bit 4 1 OR hex1 ! 0) # decodeNibbles (tl hex1)
        else buf0 # decodeNibbles hex1)"

text \<open>The loop of \<^verbatim>\<open>hexToCompactInPlace\<close>, which overwrites the buffer that it reads.\<close>

function compact_loop :: "nat \<Rightarrow> nat \<Rightarrow> nat \<Rightarrow> bytes \<Rightarrow> bytes" where
  "compact_loop hexLen bi ni hex =
    (if ni < hexLen then compact_loop hexLen (bi + 1) (ni + 2) (hex[bi := push_bit 4 (hex ! ni) OR hex ! (ni + 1)]) else hex)"
  by auto
termination by (relation "measure (\<lambda>(n, _, i, _). n - i)") auto

definition hexToCompactInPlace :: "bytes \<Rightarrow> (nat \<times> bytes) option" where
  "hexToCompactInPlace hex =
    (if hex = [] then None
     else let term = (length hex > 0 \<and> hex ! (length hex - 1) = 16); hexLen = (if term then length hex - 1 else length hex);
         first = (if term then push_bit 5 1 else 0); isOdd = odd hexLen;
         firstByte = (if isOdd then first OR push_bit 4 1 OR hex ! 0 else first);
         hex1 = compact_loop hexLen 1 (if isOdd then 1 else 0) hex
     in Some (hexLen div 2 + 1, hex1[0 := firstByte]))"

definition keybytesToHex :: "bytes \<Rightarrow> bytes" where
  "keybytesToHex str = concat (map (\<lambda>b. [b div 16, b mod 16]) str) @ [16]"

definition compactToHex :: "bytes \<Rightarrow> bytes" where
  "compactToHex compact =
    (if length compact = 0 then compact
     else (let base = keybytesToHex compact; base1 = (if base ! 0 < 2 then butlast base else base); chop = 2 - (base1 ! 0 AND 1)
           in drop (unat chop) base1))"

definition hexToKeybytes :: "bytes \<Rightarrow> bytes option" where
  "hexToKeybytes hex =
    (let hex1 = (if hasTerm hex then butlast hex else hex)
     in if odd (length hex1) then None else Some (decodeNibbles hex1))"

fun prefixLen :: "bytes \<Rightarrow> bytes \<Rightarrow> nat" where
  "prefixLen (a # as) (b # bs) = (if a \<noteq> b then 0 else Suc (prefixLen as bs))"
| "prefixLen _ _ = 0"

subsection \<open>Nodes\<close>

record nodeFlag =
  nf_hash :: "bytes option"
  nf_dirty :: bool

text \<open>\<^verbatim>\<open>nil\<close> is a node, the children of a full node are its 17 slots.\<close>

datatype node =
  NilNode
| ValueNode bytes
| ShortNode (sn_Key: bytes) (sn_Val: node) (sn_flags: nodeFlag)
| FullNode (fn_Children: "node list") (fn_flags: nodeFlag)
| HashNode bytes

definition newFlag :: nodeFlag where
  "newFlag = \<lparr>nf_hash = None, nf_dirty = True\<rparr>"

datatype trie_error = MissingNodeError hash bytes | TriePanic

text \<open>\<open>db\<close> is \<^verbatim>\<open>Database.node\<close>: the node that is stored under a hash.\<close>

type_synonym node_db = "hash \<Rightarrow> node option"

record Trie =
  tr_root :: node
  tr_unhashed :: int

definition resolveHash :: "node_db \<Rightarrow> bytes \<Rightarrow> bytes \<Rightarrow> (trie_error, node) result" where
  "resolveHash db n prefix =
    (let hash = BytesToHash n in case db hash of Some node \<Rightarrow> Inr node | None \<Rightarrow> Inl (MissingNodeError hash prefix))"

definition resolve :: "node_db \<Rightarrow> node \<Rightarrow> bytes \<Rightarrow> (trie_error, node) result" where
  "resolve db n prefix = (case n of HashNode h \<Rightarrow> resolveHash db h prefix | _ \<Rightarrow> Inr n)"

subsection \<open>Reading\<close>

text \<open>\<open>None\<close> is a search that does not end, which a database with a cycle would cause.  The result is the value or the
  error, the new node and whether a node was resolved.\<close>

type_synonym get_result = "(trie_error, bytes option) result \<times> node \<times> bool"

definition get_below :: "(node \<Rightarrow> node) \<Rightarrow> node \<Rightarrow> get_result \<Rightarrow> get_result" where
  "get_below rebuild n r =
    (case r of (Inr v, newnode, True) \<Rightarrow> (Inr v, rebuild newnode, True) | (e, newnode, did) \<Rightarrow> (e, n, did))"

partial_function (option) tryGet :: "node_db \<Rightarrow> node \<Rightarrow> bytes \<Rightarrow> nat \<Rightarrow> get_result option" where
  "tryGet db origNode key pos =
    (case origNode of
       NilNode \<Rightarrow> Some (Inr None, NilNode, False)
     | ValueNode v \<Rightarrow> Some (Inr (Some v), ValueNode v, False)
     | ShortNode k v f \<Rightarrow>
         if length key < pos + length k \<or> k \<noteq> take (length k) (drop pos key) then Some (Inr None, origNode, False)
         else Option.bind (tryGet db v key (pos + length k)) (\<lambda>r. Some (get_below (\<lambda>nn. ShortNode k nn f) origNode r))
     | FullNode cs f \<Rightarrow>
         if \<not> pos < length key \<or> \<not> unat (key ! pos) < length cs then Some (Inl TriePanic, origNode, False)
         else Option.bind (tryGet db (cs ! unat (key ! pos)) key (pos + 1))
                (\<lambda>r. Some (get_below (\<lambda>nn. FullNode (cs[unat (key ! pos) := nn]) f) origNode r))
     | HashNode h \<Rightarrow>
         (case resolveHash db h (take pos key) of
            Inl e \<Rightarrow> Some (Inl e, origNode, True)
          | Inr child \<Rightarrow> Option.bind (tryGet db child key pos) (\<lambda>(v, newnode, _). Some (v, newnode, True))))"

definition TryGet :: "node_db \<Rightarrow> Trie \<Rightarrow> bytes \<Rightarrow> ((trie_error, bytes option) result \<times> Trie) option" where
  "TryGet db t key =
    Option.bind (tryGet db (tr_root t) (keybytesToHex key) 0) (\<lambda>(v, newroot, didResolve).
      Some (v, if \<not> isl v \<and> didResolve then t\<lparr>tr_root := newroot\<rparr> else t))"

subsection \<open>Writing\<close>

type_synonym put_result = "(trie_error, bool \<times> node) result"

definition changed :: "node \<Rightarrow> (node \<Rightarrow> node) \<Rightarrow> put_result \<Rightarrow> put_result" where
  "changed n rebuild r =
    (case r of Inl e \<Rightarrow> Inl e | Inr (dirty, nn) \<Rightarrow> if dirty then Inr (True, rebuild nn) else Inr (False, n))"

definition branch_at :: "byte \<Rightarrow> node \<Rightarrow> byte \<Rightarrow> node \<Rightarrow> node" where
  "branch_at i c j d = FullNode ((replicate 17 NilNode)[unat i := c, unat j := d]) newFlag"

partial_function (option) trie_insert :: "node_db \<Rightarrow> node \<Rightarrow> bytes \<Rightarrow> bytes \<Rightarrow> node \<Rightarrow> put_result option" where
  "trie_insert db n prefix key value =
    (if key = [] then
       Some (case n of
               ValueNode v \<Rightarrow> (case value of ValueNode w \<Rightarrow> Inr (v \<noteq> w, value) | _ \<Rightarrow> Inl TriePanic)
             | _ \<Rightarrow> Inr (True, value))
     else
       (case n of
          ShortNode k c f \<Rightarrow>
            (let matchlen = prefixLen key k
             in if matchlen = length k then
                  Option.bind (trie_insert db c (prefix @ take matchlen key) (drop matchlen key) value)
                    (\<lambda>r. Some (changed n (\<lambda>nn. ShortNode k nn newFlag) r))
                else if \<not> unat (k ! matchlen) < 17 then Some (Inl TriePanic)
                else
                  Option.bind (trie_insert db NilNode (prefix @ take (matchlen + 1) k) (drop (matchlen + 1) k) c)
                    (\<lambda>r1. case r1 of
                       Inl e \<Rightarrow> Some (Inl e)
                     | Inr (_, c1) \<Rightarrow>
                         if \<not> matchlen < length key \<or> \<not> unat (key ! matchlen) < 17 then Some (Inl TriePanic)
                         else
                           Option.bind (trie_insert db NilNode (prefix @ take (matchlen + 1) key) (drop (matchlen + 1) key) value)
                             (\<lambda>r2. Some (case r2 of
                                Inl e \<Rightarrow> Inl e
                              | Inr (_, c2) \<Rightarrow>
                                  Inr (True, if matchlen = 0 then branch_at (k ! matchlen) c1 (key ! matchlen) c2
                                             else ShortNode (take matchlen key) (branch_at (k ! matchlen) c1 (key ! matchlen) c2) newFlag)))))
        | FullNode cs f \<Rightarrow>
            if \<not> unat (key ! 0) < length cs then Some (Inl TriePanic)
            else
              Option.bind (trie_insert db (cs ! unat (key ! 0)) (prefix @ [key ! 0]) (drop 1 key) value)
                (\<lambda>r. Some (changed n (\<lambda>nn. FullNode (cs[unat (key ! 0) := nn]) newFlag) r))
        | NilNode \<Rightarrow> Some (Inr (True, ShortNode key value newFlag))
        | HashNode h \<Rightarrow>
            (case resolveHash db h prefix of
               Inl e \<Rightarrow> Some (Inl e)
             | Inr rn \<Rightarrow> Option.bind (trie_insert db rn prefix key value) (\<lambda>r. Some (changed rn (\<lambda>nn. nn) r)))
        | ValueNode v \<Rightarrow> Some (Inl TriePanic)))"

text \<open>The search for the only child: its index, \<open>-1\<close> if there is none, \<open>-2\<close> if there are several.\<close>

fun child_pos :: "nat \<Rightarrow> int \<Rightarrow> node list \<Rightarrow> int" where
  "child_pos i pos [] = pos"
| "child_pos i pos (c # cs) =
     (if c \<noteq> NilNode then (if pos = - 1 then child_pos (i + 1) (int i) cs else - 2) else child_pos (i + 1) pos cs)"

text \<open>A full node that has lost a child.\<close>

definition reduce_full :: "node_db \<Rightarrow> bytes \<Rightarrow> node list \<Rightarrow> put_result" where
  "reduce_full db prefix cs =
    (let pos = child_pos 0 (- 1) cs; i = nat pos; b = word_of_nat i
     in if pos \<ge> 0 then
          if pos \<noteq> 16 then
            (case resolve db (cs ! i) prefix of
               Inl e \<Rightarrow> Inl e
             | Inr (ShortNode k v f) \<Rightarrow> Inr (True, ShortNode (b # k) v newFlag)
             | Inr _ \<Rightarrow> Inr (True, ShortNode [b] (cs ! i) newFlag))
          else Inr (True, ShortNode [b] (cs ! i) newFlag)
        else Inr (True, FullNode cs newFlag))"

partial_function (option) trie_delete :: "node_db \<Rightarrow> node \<Rightarrow> bytes \<Rightarrow> bytes \<Rightarrow> put_result option" where
  "trie_delete db n prefix key =
    (case n of
       ShortNode k c f \<Rightarrow>
         (let matchlen = prefixLen key k
          in if matchlen < length k then Some (Inr (False, n))
             else if matchlen = length key then Some (Inr (True, NilNode))
             else
               Option.bind (trie_delete db c (prefix @ take (length k) key) (drop (length k) key))
                 (\<lambda>r. Some (changed n (\<lambda>child. case child of
                              ShortNode k' v f' \<Rightarrow> ShortNode (k @ k') v newFlag
                            | _ \<Rightarrow> ShortNode k child newFlag) r)))
     | FullNode cs f \<Rightarrow>
         if key = [] \<or> \<not> unat (key ! 0) < length cs then Some (Inl TriePanic)
         else
           Option.bind (trie_delete db (cs ! unat (key ! 0)) (prefix @ [key ! 0]) (drop 1 key))
             (\<lambda>r. Some (case r of
                Inl e \<Rightarrow> Inl e
              | Inr (dirty, nn) \<Rightarrow>
                  (let cs1 = cs[unat (key ! 0) := nn]
                   in if \<not> dirty then Inr (False, n)
                      else if nn \<noteq> NilNode then Inr (True, FullNode cs1 newFlag)
                      else reduce_full db prefix cs1)))
     | ValueNode v \<Rightarrow> Some (Inr (True, NilNode))
     | NilNode \<Rightarrow> Some (Inr (False, NilNode))
     | HashNode h \<Rightarrow>
         (case resolveHash db h prefix of
            Inl e \<Rightarrow> Some (Inl e)
          | Inr rn \<Rightarrow> Option.bind (trie_delete db rn prefix key) (\<lambda>r. Some (changed rn (\<lambda>nn. nn) r))))"

definition set_root :: "Trie \<Rightarrow> put_result option \<Rightarrow> ((trie_error, unit) result \<times> Trie) option" where
  "set_root t r =
    Option.bind r (\<lambda>r. Some (case r of Inl e \<Rightarrow> (Inl e, t) | Inr (_, n) \<Rightarrow> (Inr (), t\<lparr>tr_root := n\<rparr>)))"

definition TryUpdate :: "node_db \<Rightarrow> Trie \<Rightarrow> bytes \<Rightarrow> bytes \<Rightarrow> ((trie_error, unit) result \<times> Trie) option" where
  "TryUpdate db t key value =
    (let t1 = t\<lparr>tr_unhashed := tr_unhashed t + 1\<rparr>; k = keybytesToHex key
     in if length value \<noteq> 0 then set_root t1 (trie_insert db (tr_root t1) [] k (ValueNode value))
        else set_root t1 (trie_delete db (tr_root t1) [] k))"

definition TryDelete :: "node_db \<Rightarrow> Trie \<Rightarrow> bytes \<Rightarrow> ((trie_error, unit) result \<times> Trie) option" where
  "TryDelete db t key =
    (let t1 = t\<lparr>tr_unhashed := tr_unhashed t + 1\<rparr> in set_root t1 (trie_delete db (tr_root t1) [] (keybytesToHex key)))"

definition emptyRoot :: hash where
  "emptyRoot = 0x56e81f171bcc55a6ff8345e692c0f86e5b48e01b996cadc001622fb5e363b421"

definition trie_New :: "node_db \<Rightarrow> hash \<Rightarrow> (trie_error, Trie) result" where
  "trie_New db root =
    (if root \<noteq> 0 \<and> root \<noteq> emptyRoot then
       (case resolveHash db (hash_bytes root) [] of Inl e \<Rightarrow> Inl e | Inr n \<Rightarrow> Inr \<lparr>tr_root = n, tr_unhashed = 0\<rparr>)
     else Inr \<lparr>tr_root = NilNode, tr_unhashed = 0\<rparr>)"

definition trie_Reset :: "Trie \<Rightarrow> Trie" where
  "trie_Reset t = t\<lparr>tr_root := NilNode, tr_unhashed := 0\<rparr>"

section \<open>What a trie represents\<close>

text \<open>A nibble is less than 16; a full key has nibbles and the terminator 16 at its end.\<close>

definition nibbles :: "bytes \<Rightarrow> bool" where
  "nibbles ns \<longleftrightarrow> (\<forall>x\<in>set ns. unat x < 16)"

fun vkey :: "bytes \<Rightarrow> bool" where
  "vkey [] = False"
| "vkey (x # xs) = (if xs = [] then unat x = 16 else unat x < 16 \<and> vkey xs)"

lemma nibbles_simps [simp]: "nibbles []" "nibbles (x # xs) \<longleftrightarrow> unat x < 16 \<and> nibbles xs" "nibbles (xs @ ys) \<longleftrightarrow> nibbles xs \<and> nibbles ys"
  by (auto simp: nibbles_def)

lemma vkey_append [simp]: "nibbles ns \<Longrightarrow> vkey (ns @ k) = vkey k"
  by (induction ns) auto

lemma vkey_no_nibbles: "vkey k \<Longrightarrow> \<not> nibbles k"
  by (induction k) (auto split: if_splits)

lemma vkey_prefix_free: "vkey (k @ r) \<Longrightarrow> vkey k \<Longrightarrow> r = []"
  by (induction k) (auto split: if_splits)

lemma vkey_split: "vkey (p @ x # r) \<Longrightarrow> nibbles p \<and> unat x < 17 \<and> (if r = [] then unat x = 16 else unat x < 16 \<and> vkey r)"
  by (induction p) (auto split: if_splits)

datatype shape = SNil | SValue | SShort | SFull

definition link :: "bytes \<Rightarrow> shape \<Rightarrow> bool" where
  "link k sh \<longleftrightarrow> (sh = SValue \<and> vkey k) \<or> (sh = SFull \<and> nibbles k \<and> k \<noteq> [])"

definition slot :: "nat \<Rightarrow> shape \<Rightarrow> bool" where
  "slot i sh \<longleftrightarrow> (i < 16 \<and> sh \<noteq> SValue) \<or> (i = 16 \<and> sh \<in> {SNil, SValue})"

definition shift :: "bytes \<Rightarrow> (bytes \<rightharpoonup> bytes) \<Rightarrow> (bytes \<rightharpoonup> bytes)" where
  "shift k m = (\<lambda>key. if take (length k) key = k then m (drop (length k) key) else None)"

definition children :: "(nat \<Rightarrow> (bytes \<rightharpoonup> bytes)) \<Rightarrow> (bytes \<rightharpoonup> bytes)" where
  "children ms = (\<lambda>key. case key of [] \<Rightarrow> None | x # ks \<Rightarrow> if unat x < 17 then ms (unat x) ks else None)"

text \<open>A node represents a map from the rest of a key to values, given the nodes of the database.  Leaves hold non-empty
  values, an extension leads to a full node, and a full node has at least two children: the form is minimal.\<close>

inductive rep :: "node_db \<Rightarrow> node \<Rightarrow> shape \<Rightarrow> (bytes \<rightharpoonup> bytes) \<Rightarrow> bool" for db where
  rep_nil: "rep db NilNode SNil (\<lambda>_. None)"
| rep_value: "v \<noteq> [] \<Longrightarrow> rep db (ValueNode v) SValue [[] \<mapsto> v]"
| rep_short: "link k sh \<Longrightarrow> rep db c sh m \<Longrightarrow> rep db (ShortNode k c f) SShort (shift k m)"
| rep_full: "length cs = 17 \<Longrightarrow> (\<And>i. i < 17 \<Longrightarrow> rep db (cs ! i) (sh i) (ms i)) \<Longrightarrow> (\<And>i. i < 17 \<Longrightarrow> slot i (sh i)) \<Longrightarrow>
    i < 17 \<Longrightarrow> j < 17 \<Longrightarrow> i \<noteq> j \<Longrightarrow> sh i \<noteq> SNil \<Longrightarrow> sh j \<noteq> SNil \<Longrightarrow> rep db (FullNode cs f) SFull (children ms)"
| rep_hash: "db (BytesToHash h) = Some n \<Longrightarrow> (\<And>g. n \<noteq> HashNode g) \<Longrightarrow> sh = SShort \<or> sh = SFull \<Longrightarrow> rep db n sh m \<Longrightarrow> rep db (HashNode h) sh m"

inductive_cases rep_ShortE: "rep db (ShortNode k c f) sh m"
inductive_cases rep_FullE: "rep db (FullNode cs f) sh m"
inductive_cases rep_ValueE: "rep db (ValueNode v) sh m"
inductive_cases rep_NilE: "rep db NilNode sh m"
inductive_cases rep_HashE: "rep db (HashNode h) sh m"
inductive_cases rep_SNilE: "rep db n SNil m"
inductive_cases rep_SValueE: "rep db n SValue m"

lemma rep_SNil_iff: "rep db n SNil m \<longleftrightarrow> n = NilNode \<and> m = (\<lambda>_. None)"
  by (auto intro: rep_nil elim: rep_SNilE)

definition fits :: "shape \<Rightarrow> bytes \<Rightarrow> bool" where
  "fits sh key \<longleftrightarrow> (case sh of SNil \<Rightarrow> key = [] \<or> vkey key | SValue \<Rightarrow> key = [] | _ \<Rightarrow> vkey key)"

subsection \<open>Maps of nodes\<close>

lemma nil_map: "(\<lambda>a :: bytes. if a = [] then Some w else None) = [[] \<mapsto> w]"
  by auto

lemma shift_Nil [simp]: "shift [] m = m"
  by (simp add: shift_def)

lemma shift_append: "shift (k @ k') m = shift k (shift k' m)"
proof
  fix x
  have "take (length k) x = k" if "take (length k + length k') x = k @ k'"
    using arg_cong [OF that, of "take (length k)"] by (simp add: min_absorb1)
  then show "shift (k @ k') m x = shift k (shift k' m) x"
    by (auto simp: shift_def take_add add.commute)
qed

lemma shift_key [simp]: "shift k m (k @ r) = m r"
  by (simp add: shift_def)

lemma shift_upd: "shift k (m(r := x)) = (shift k m)(k @ r := x)"
proof
  fix y
  show "shift k (m(r := x)) y = ((shift k m)(k @ r := x)) y"
    by (cases "take (length k) y = k") (auto simp: shift_def, metis append_take_drop_id)
qed

lemma shift_empty [simp]: "shift k (\<lambda>_. None) = (\<lambda>_. None)"
  by (simp add: shift_def)

lemma children_key [simp]: "unat x < 17 \<Longrightarrow> children ms (x # r) = ms (unat x) r"
  by (simp add: children_def)

lemma children_upd: "unat x < 17 \<Longrightarrow> children (ms(unat x := (ms (unat x))(r := v))) = (children ms)(x # r := v)"
  by (rule ext) (auto simp: children_def simp flip: word_unat_eq_iff split: list.split)

lemma children_single: "unat x < 17 \<Longrightarrow> children (\<lambda>i. if i = unat x then m else (\<lambda>_. None)) = shift [x] m"
  by (rule ext) (auto simp: children_def shift_def simp flip: word_unat_eq_iff split: list.split)

lemma shift_branch:
  assumes "x \<noteq> y" "unat x < 17" "unat y < 17"
  shows "shift p (children (\<lambda>i. if i = unat y then [r \<mapsto> v] else if i = unat x then shift k m else (\<lambda>_. None))) =
    (shift (p @ x # k) m)(p @ y # r \<mapsto> v)"
proof -
  have "children (\<lambda>i. if i = unat y then [r \<mapsto> v] else if i = unat x then shift k m else (\<lambda>_. None)) = (shift (x # k) m)(y # r \<mapsto> v)"
    using assms by (intro ext) (auto simp: children_def shift_def simp flip: word_unat_eq_iff split: list.split)
  then show ?thesis by (simp add: shift_upd shift_append)
qed

lemma prefixLen_split:
  "\<exists>p a' b'. a = p @ a' \<and> b = p @ b' \<and> prefixLen a b = length p \<and> (a' = [] \<or> b' = [] \<or> hd a' \<noteq> hd b')"
proof (induction a b rule: prefixLen.induct)
  case (1 a as b bs)
  show ?case
  proof (cases "a = b")
    case True
    then obtain p a' b' where "as = p @ a'" "bs = p @ b'" "prefixLen as bs = length p" "a' = [] \<or> b' = [] \<or> hd a' \<noteq> hd b'"
      using 1 by auto
    then show ?thesis using True by (intro exI [of _ "a # p"] exI [of _ a'] exI [of _ b']) simp
  qed (auto intro: exI [of _ "[]"])
qed (auto intro: exI [of _ "[]"])

lemma link_Cons: "link (x # r) sh \<Longrightarrow> unat x < 17 \<and> (if r = [] then slot (unat x) sh else unat x < 16 \<and> link r sh)"
  by (auto simp: link_def slot_def split: if_splits)

lemma link_fits: "link k sh \<Longrightarrow> vkey (k @ r) \<Longrightarrow> fits sh r"
  by (auto simp: link_def fits_def dest: vkey_prefix_free)

lemma slot_fits: "slot (unat x) sh \<Longrightarrow> vkey (x # r) \<Longrightarrow> fits sh r"
  by (auto simp: slot_def fits_def split: if_splits shape.splits)

subsection \<open>Reading\<close>

lemma tryGet_spec:
  assumes "rep db n sh m" "fits sh (drop pos key)" "pos \<le> length key"
  shows "\<exists>n' did. tryGet db n key pos = Some (Inr (m (drop pos key)), n', did) \<and> rep db n' sh m"
  using assms
proof (induction arbitrary: pos rule: rep.induct)
  case rep_nil
  then show ?case by (auto simp: tryGet.simps intro: rep.rep_nil)
next
  case (rep_value v)
  then show ?case using rep.rep_value [OF rep_value.hyps, of db] by (auto simp: tryGet.simps fits_def nil_map)
next
  case (rep_short k sh c m f)
  show ?case
  proof (cases "length key < pos + length k \<or> k \<noteq> take (length k) (drop pos key)")
    case True
    then have "take (length k) (drop pos key) \<noteq> k" by (metis length_drop length_take less_diff_conv2 min.absorb2 not_less rep_short.prems(2) add.commute min_less_iff_conj less_irrefl)
    then have "shift k m (drop pos key) = None" by (simp add: shift_def)
    then show ?thesis using True rep.rep_short [OF rep_short.hyps] by (auto simp: tryGet.simps)
  next
    case False
    then have d: "drop pos key = k @ drop (pos + length k) key" by (metis append_take_drop_id drop_drop add.commute)
    then have "vkey (k @ drop (pos + length k) key)" using rep_short.prems(1) by (simp add: fits_def)
    then have "fits sh (drop (pos + length k) key)" using link_fits [OF rep_short.hyps(1)] by blast
    from rep_short.IH [OF this] False obtain n' did where "tryGet db c key (pos + length k) = Some (Inr (m (drop (pos + length k) key)), n', did)"
      "rep db n' sh m" by auto
    then show ?thesis using False d by (cases did) (auto simp: tryGet.simps [of _ "ShortNode _ _ _"] get_below_def intro: rep.rep_short rep_short.hyps)
  qed
next
  case (rep_full cs sh ms i j f)
  have "vkey (drop pos key)" using rep_full.prems(1) by (simp add: fits_def)
  then obtain x r where x: "drop pos key = x # r" by (cases "drop pos key") auto
  then have k: "pos < length key" "key ! pos = x" "drop (pos + 1) key = r" by (metis drop_all list.distinct(1) not_less)
      (metis x nth_via_drop, metis x drop_Suc tl_drop list.sel(3) Suc_eq_plus1)
  have u: "unat x < 17" using vkey_split [of "[]" x r] \<open>vkey _\<close> x by simp
  have "fits (sh (unat x)) r" using slot_fits rep_full.hyps(3) [OF u] \<open>vkey _\<close> x by simp
  with rep_full.IH [OF u, of "pos + 1"] k obtain n' did where g: "tryGet db (cs ! unat x) key (pos + 1) = Some (Inr (ms (unat x) r), n', did)"
      "rep db n' (sh (unat x)) (ms (unat x))" by auto
  have "rep db (FullNode (cs[unat x := n']) f) SFull (children ms)" "rep db (FullNode cs f) SFull (children ms)"
    using g(2) u rep_full.hyps by (intro rep.rep_full [where sh = sh and i = i and j = j]; auto simp: nth_list_update)+
  then show ?case using g k u rep_full.hyps(1) by (cases did) (auto simp: tryGet.simps [of _ "FullNode _ _"] get_below_def x)
next
  case (rep_hash h n sh m)
  then obtain n' did where "tryGet db n key pos = Some (Inr (m (drop pos key)), n', did)" "rep db n' sh m" by blast
  then show ?case using rep_hash.hyps by (auto simp: tryGet.simps [of _ "HashNode _"] resolveHash_def)
qed

subsection \<open>Inserting\<close>

text \<open>A child put behind the rest of a split key, and the branch of two such children.\<close>

lemma insert_nil:
  "trie_insert db NilNode prefix r c = Some (Inr (True, if r = [] then c else ShortNode r c newFlag))"
  by (simp add: trie_insert.simps)

lemma rep_behind:
  assumes "link (x # r) sh" "rep db c sh m"
  shows "\<exists>sh'. rep db (if r = [] then c else ShortNode r c newFlag) sh' (shift r m) \<and> slot (unat x) sh' \<and> sh' \<noteq> SNil"
proof (cases "r = []")
  case True
  then show ?thesis using assms link_Cons [OF assms(1)] by (auto simp: link_def)
next
  case False
  then show ?thesis using link_Cons [OF assms(1)] rep_short [of r sh db c m newFlag] assms(2) by (auto simp: slot_def)
qed

lemma rep_branch:
  assumes "x \<noteq> y" "unat x < 17" "unat y < 17" "rep db c1 s1 m1" "slot (unat x) s1" "s1 \<noteq> SNil"
    and "rep db c2 s2 m2" "slot (unat y) s2" "s2 \<noteq> SNil"
  shows "rep db (branch_at x c1 y c2) SFull
    (children (\<lambda>i. if i = unat y then m2 else if i = unat x then m1 else (\<lambda>_. None)))"
  unfolding branch_at_def
proof (rule rep_full [where i = "unat x" and j = "unat y" and sh = "\<lambda>i. if i = unat y then s2 else if i = unat x then s1 else SNil"])
  have n: "unat x \<noteq> unat y" using assms(1) by (simp flip: word_unat_eq_iff)
  fix i :: nat
  assume i: "i < 17"
  show "rep db ((replicate 17 NilNode)[unat x := c1, unat y := c2] ! i) (if i = unat y then s2 else if i = unat x then s1 else SNil)
      (if i = unat y then m2 else if i = unat x then m1 else (\<lambda>_. None))"
    using assms i n rep_nil [of db] by (auto simp: nth_list_update)
  show "slot i (if i = unat y then s2 else if i = unat x then s1 else SNil)"
    using assms i by (auto simp: slot_def)
qed (use assms in \<open>auto simp flip: word_unat_eq_iff\<close>)

lemma insert_split:
  assumes "link (p @ x # k1) sh" "rep db c sh m" "vkey (p @ y # r)" "x \<noteq> y" "v \<noteq> []"
  shows "\<exists>n' sh'. trie_insert db (ShortNode (p @ x # k1) c f) prefix (p @ y # r) (ValueNode v) = Some (Inr (True, n')) \<and>
    rep db n' sh' ((shift (p @ x # k1) m)(p @ y # r \<mapsto> v)) \<and> sh' \<in> {SShort, SFull}"
proof -
  have l: "prefixLen (p @ y # r) (p @ x # k1) = length p" using assms(4) by (induction p) auto
  have lx: "link (x # k1) sh" using assms(1,3) vkey_split [OF assms(3)] by (auto simp: link_def)
  have y: "unat y < 17" "nibbles p" "link (y # r) SValue" using vkey_split [OF assms(3)] assms(3) by (auto simp: link_def split: if_splits)
  have x: "unat x < 17" using link_Cons [OF lx] by simp
  let ?c1 = "if k1 = [] then c else ShortNode k1 c newFlag" and ?c2 = "if r = [] then ValueNode v else ShortNode r (ValueNode v) newFlag"
  obtain s1 where s1: "rep db ?c1 s1 (shift k1 m)" "slot (unat x) s1" "s1 \<noteq> SNil" using rep_behind [OF lx assms(2)] by blast
  obtain s2 where s2: "rep db ?c2 s2 (shift r [[] \<mapsto> v])" "slot (unat y) s2" "s2 \<noteq> SNil"
    using rep_behind [OF y(3) rep_value [OF assms(5)]] by blast
  have sr: "shift r [[] \<mapsto> v] = [r \<mapsto> v]" using shift_upd [of r "\<lambda>_. None" "[]" "Some v"] by simp
  let ?b = "branch_at x ?c1 y ?c2" and ?n = "if p = [] then branch_at x ?c1 y ?c2 else ShortNode p (branch_at x ?c1 y ?c2) newFlag"
  have b: "rep db ?b SFull (children (\<lambda>i. if i = unat y then [r \<mapsto> v] else if i = unat x then shift k1 m else (\<lambda>_. None)))"
    using rep_branch [OF assms(4) x y(1) s1 s2] unfolding sr .
  have "rep db ?n (if p = [] then SFull else SShort) ((shift (p @ x # k1) m)(p @ y # r \<mapsto> v))"
    unfolding shift_branch [OF assms(4) x y(1), symmetric]
    using b rep_short [OF _ b, of p newFlag] y(2) by (auto simp: link_def)
  moreover have "trie_insert db (ShortNode (p @ x # k1) c f) prefix (p @ y # r) (ValueNode v) = Some (Inr (True, ?n))"
    using x y(1) by (simp add: trie_insert.simps [of _ "ShortNode _ _ _"] l insert_nil Let_def)
  ultimately show ?thesis by (intro exI conjI) (assumption, assumption, simp)
qed

definition insert_result :: "node_db \<Rightarrow> shape \<Rightarrow> (bytes \<rightharpoonup> bytes) \<Rightarrow> bytes \<Rightarrow> bytes \<Rightarrow> put_result option \<Rightarrow> bool" where
  "insert_result db sh m key v r \<longleftrightarrow> (\<exists>d n' sh'. r = Some (Inr (d, n')) \<and> rep db n' sh' (m(key \<mapsto> v)) \<and> (\<not> d \<longrightarrow> m key = Some v) \<and>
    (key = [] \<longrightarrow> sh' = SValue) \<and> (key \<noteq> [] \<longrightarrow> sh' = SShort \<or> sh' = SFull) \<and> (sh = SFull \<longrightarrow> sh' = SFull))"

lemma insert_spec:
  assumes "rep db n sh m" "fits sh key" "v \<noteq> []"
  shows "insert_result db sh m key v (trie_insert db n prefix key (ValueNode v))"
  using assms
proof (induction arbitrary: key prefix rule: rep.induct)
  case rep_nil
  show ?case
  proof (cases "key = []")
    case True
    then show ?thesis using rep_nil.prems rep.rep_value [of v db] by (auto simp: insert_result_def insert_nil)
  next
    case False
    then have "link key SValue" using rep_nil.prems by (simp add: fits_def link_def)
    from rep.rep_short [OF this rep.rep_value [OF rep_nil.prems(2)], where f = newFlag]
    have "rep db (ShortNode key (ValueNode v) newFlag) SShort [key \<mapsto> v]"
      using shift_upd [of key "\<lambda>_. None" "[]" "Some v"] by simp
    then show ?thesis using False by (auto simp: insert_result_def insert_nil)
  qed
next
  case (rep_value w)
  then show ?case using rep.rep_value [of v db] by (auto simp: insert_result_def trie_insert.simps fits_def nil_map)
next
  case (rep_short k sh c m f)
  have vk: "vkey key" using rep_short.prems(1) by (simp add: fits_def)
  obtain p a' b' where p: "key = p @ a'" "k = p @ b'" "prefixLen key k = length p" "a' = [] \<or> b' = [] \<or> hd a' \<noteq> hd b'"
    using prefixLen_split by blast
  show ?case
  proof (cases "b' = []")
    case True
    then have "fits sh a'" using link_fits [OF rep_short.hyps(1), of a'] vk p by simp
    from rep_short.IH [OF this rep_short.prems(2), of "prefix @ p"] obtain d n' sh' where
      i: "trie_insert db c (prefix @ p) a' (ValueNode v) = Some (Inr (d, n'))" "rep db n' sh' (m(a' \<mapsto> v))" "\<not> d \<longrightarrow> m a' = Some v"
        "a' = [] \<longrightarrow> sh' = SValue" "sh = SFull \<longrightarrow> sh' = SFull" by (auto simp: insert_result_def)
    have "sh' = sh" using i(4,5) rep_short.hyps(1) \<open>fits sh a'\<close> by (auto simp: link_def fits_def)
    then have "rep db (ShortNode k n' newFlag) SShort ((shift k m)(key \<mapsto> v))"
      using rep.rep_short [OF rep_short.hyps(1), of db n' "m(a' \<mapsto> v)" newFlag] i(2) p True by (simp add: shift_upd)
    moreover have "\<not> d \<Longrightarrow> (shift k m)(key \<mapsto> v) = shift k m" using i(3) p True by (intro fun_upd_idem) simp
    moreover have "vkey key \<Longrightarrow> key \<noteq> []" by auto
    ultimately show ?thesis using i(1,3) p True vk rep.rep_short [OF rep_short.hyps, of f]
      by (cases d) (auto simp: insert_result_def trie_insert.simps [of _ "ShortNode _ _ _"] changed_def)
  next
    case False
    then obtain x k1 where k1: "b' = x # k1" by (cases b') auto
    have "a' \<noteq> []"
      using vk rep_short.hyps(1) p False vkey_prefix_free [of p b'] by (auto simp: link_def dest: vkey_no_nibbles)
    then obtain y r where r: "a' = y # r" by (cases a') auto
    have "x \<noteq> y" using p(4) k1 r by auto
    from insert_split [OF _ rep_short.hyps(2) _ this rep_short.prems(2), of p k1 r f prefix] rep_short.hyps(1) vk
    show ?thesis unfolding p(1,2) k1 r insert_result_def by auto
  qed
next
  case (rep_full cs sh ms i j f)
  then obtain x r where x: "key = x # r" by (cases key) (auto simp: fits_def)
  have vk: "vkey (x # r)" using rep_full.prems(1) x by (simp add: fits_def)
  have u: "unat x < 17" using vkey_split [of "[]" x r] vk by simp
  note sl = rep_full.hyps(3) [OF u]
  from rep_full.IH [OF u slot_fits [OF sl vk] rep_full.prems(2), of "prefix @ [x]"] obtain d n' sh' where
    g: "trie_insert db (cs ! unat x) (prefix @ [x]) r (ValueNode v) = Some (Inr (d, n'))" "rep db n' sh' ((ms (unat x))(r \<mapsto> v))"
      "\<not> d \<longrightarrow> ms (unat x) r = Some v" "r = [] \<longrightarrow> sh' = SValue" "r \<noteq> [] \<longrightarrow> sh' = SShort \<or> sh' = SFull"
    by (auto simp: insert_result_def)
  have s': "slot (unat x) sh'" "sh' \<noteq> SNil" using g(4,5) vk by (auto simp: slot_def split: if_splits)
  have "rep db (FullNode (cs[unat x := n']) newFlag) SFull (children (ms(unat x := (ms (unat x))(r \<mapsto> v))))"
    using rep_full.hyps s' g(2)
    by (intro rep.rep_full [where i = i and j = j and sh = "sh(unat x := sh')"]) (auto simp: nth_list_update)
  then have "rep db (FullNode (cs[unat x := n']) newFlag) SFull ((children ms)(key \<mapsto> v))" using children_upd [OF u] x by metis
  moreover have "\<not> d \<Longrightarrow> (children ms)(key \<mapsto> v) = children ms" using g(3) x u by (intro fun_upd_idem) simp
  moreover have "rep db (FullNode cs f) SFull (children ms)" using rep_full.hyps by (intro rep.rep_full)
  ultimately show ?case using g(1,3) x u rep_full.hyps(1)
    by (cases d) (auto simp: insert_result_def trie_insert.simps [of _ "FullNode _ _"] changed_def)
next
  case (rep_hash h n sh m)
  from rep_hash.IH [OF rep_hash.prems, of prefix] obtain d n' sh' where
    g: "trie_insert db n prefix key (ValueNode v) = Some (Inr (d, n'))" "rep db n' sh' (m(key \<mapsto> v))"
      "\<not> d \<longrightarrow> m key = Some v" "key \<noteq> [] \<longrightarrow> sh' = SShort \<or> sh' = SFull" "sh = SFull \<longrightarrow> sh' = SFull"
    by (auto simp: insert_result_def)
  have k: "key \<noteq> []" using rep_hash.prems(1) rep_hash.hyps(3) by (auto simp: fits_def)
  have "\<not> d \<Longrightarrow> m(key \<mapsto> v) = m" using g(3) by (intro fun_upd_idem) simp
  then show ?case using g k rep_hash.hyps
    by (cases d) (auto simp: insert_result_def trie_insert.simps [of _ "HashNode _"] resolveHash_def changed_def)
qed

subsection \<open>Deleting\<close>

lemma child_pos_later:
  "child_pos i (int p) cs = (if \<forall>c\<in>set cs. c = NilNode then int p else - 2)"
  by (induction cs arbitrary: i) auto

lemma child_pos_cases:
  "(child_pos i (- 1) cs = - 1 \<and> (\<forall>l<length cs. cs ! l = NilNode)) \<or>
   (\<exists>j<length cs. child_pos i (- 1) cs = int (i + j) \<and> cs ! j \<noteq> NilNode \<and> (\<forall>l<length cs. l \<noteq> j \<longrightarrow> cs ! l = NilNode)) \<or>
   (child_pos i (- 1) cs = - 2 \<and> (\<exists>j<length cs. \<exists>l<length cs. j \<noteq> l \<and> cs ! j \<noteq> NilNode \<and> cs ! l \<noteq> NilNode))"
proof (induction cs arbitrary: i)
  case (Cons c cs)
  show ?case
  proof (cases "c = NilNode")
    case True
    consider "child_pos (i + 1) (- 1) cs = - 1" "\<forall>l<length cs. cs ! l = NilNode"
      | j where "j < length cs" "child_pos (i + 1) (- 1) cs = int (i + 1 + j)" "cs ! j \<noteq> NilNode" "\<forall>l<length cs. l \<noteq> j \<longrightarrow> cs ! l = NilNode"
      | j l where "child_pos (i + 1) (- 1) cs = - 2" "j < length cs" "l < length cs" "j \<noteq> l" "cs ! j \<noteq> NilNode" "cs ! l \<noteq> NilNode"
      using Cons.IH [of "i + 1"] by blast
    then show ?thesis
    proof cases
      case 1
      then show ?thesis using True by (simp add: nth_Cons')
    next
      case (2 j)
      then have "\<exists>j<length (c # cs). child_pos i (- 1) (c # cs) = int (i + j) \<and> (c # cs) ! j \<noteq> NilNode \<and>
          (\<forall>l<length (c # cs). l \<noteq> j \<longrightarrow> (c # cs) ! l = NilNode)"
        using True by (intro exI [of _ "Suc j"]) (simp add: nth_Cons')
      then show ?thesis by blast
    next
      case (3 j l)
      then have "\<exists>j<length (c # cs). \<exists>l<length (c # cs). j \<noteq> l \<and> (c # cs) ! j \<noteq> NilNode \<and> (c # cs) ! l \<noteq> NilNode"
        by (intro exI [of _ "Suc j"] exI [of _ "Suc l"] conjI) simp_all
      then show ?thesis using True 3(1) by simp
    qed
  next
    case False
    then show ?thesis
    proof (cases "\<forall>c\<in>set cs. c = NilNode")
      case True
      then have "\<exists>j<length (c # cs). child_pos i (- 1) (c # cs) = int (i + j) \<and> (c # cs) ! j \<noteq> NilNode \<and>
          (\<forall>l<length (c # cs). l \<noteq> j \<longrightarrow> (c # cs) ! l = NilNode)"
        using False by (intro exI [of _ 0]) (simp add: child_pos_later nth_Cons')
      then show ?thesis by blast
    next
      case f: False
      then obtain l where "l < length cs" "cs ! l \<noteq> NilNode" by (auto simp: in_set_conv_nth)
      then have "\<exists>j<length (c # cs). \<exists>l<length (c # cs). j \<noteq> l \<and> (c # cs) ! j \<noteq> NilNode \<and> (c # cs) ! l \<noteq> NilNode"
        using False by (intro exI [of _ 0] exI [of _ "Suc l"] conjI) auto
      then show ?thesis using False f by (simp add: child_pos_later)
    qed
  qed
qed simp

definition is_short :: "node \<Rightarrow> bool" where
  "is_short n = (case n of ShortNode k c f \<Rightarrow> True | _ \<Rightarrow> False)"

lemma is_short_shape: "rep db n sh m \<Longrightarrow> is_short n \<Longrightarrow> sh = SShort"
  by (auto simp: is_short_def split: node.splits elim: rep_ShortE)

lemma resolve_rep:
  "rep db n sh m \<Longrightarrow> \<exists>n'. resolve db n prefix = Inr n' \<and> rep db n' sh m \<and> (\<forall>g. n' \<noteq> HashNode g)"
  by (cases n) (auto simp: resolve_def resolveHash_def elim: rep_HashE)

lemma reduce_spec:
  assumes "length cs = 17" "\<And>i. i < 17 \<Longrightarrow> rep db (cs ! i) (sh i) (ms i)" "\<And>i. i < 17 \<Longrightarrow> slot i (sh i)" "i < 17" "sh i \<noteq> SNil"
  shows "\<exists>n' sh'. reduce_full db prefix cs = Inr (True, n') \<and> rep db n' sh' (children ms) \<and>
    (sh' = SFull \<or> sh' = SShort \<and> is_short n')"
proof -
  have nil: "cs ! l = NilNode \<longleftrightarrow> sh l = SNil" if "l < 17" for l
    using assms(2) [OF that] by (auto simp: rep_SNil_iff elim: rep_NilE)
  consider j where "j < 17" "child_pos 0 (- 1) cs = int j" "cs ! j \<noteq> NilNode" "\<forall>l<17. l \<noteq> j \<longrightarrow> cs ! l = NilNode"
    | j l where "child_pos 0 (- 1) cs = - 2" "j < 17" "l < 17" "j \<noteq> l" "cs ! j \<noteq> NilNode" "cs ! l \<noteq> NilNode"
    using child_pos_cases [of 0 cs] assms(1,4,5) nil [OF assms(4)] by (auto simp: in_set_conv_nth)
  then show ?thesis
  proof cases
    case (1 j)
    let ?b = "word_of_nat j :: byte"
    have b: "unat ?b = j" using 1(1) by (simp add: unat_of_nat)
    have "ms l = (\<lambda>_. None)" if "l < 17" "l \<noteq> j" for l using assms(2) [OF that(1)] 1(4) that by (auto elim: rep_NilE)
    then have "children ms = children (\<lambda>l. if l = j then ms j else (\<lambda>_. None))" by (intro ext) (auto simp: children_def split: list.split)
    then have m: "children ms = shift [?b] (ms j)" using children_single [of ?b "ms j"] b 1(1) by simp
    note r = assms(2,3) [OF 1(1)]
    have nn: "sh j \<noteq> SNil" using nil [OF 1(1)] 1(3) by simp
    show ?thesis
    proof (cases "sh j = SShort")
      case True
      obtain n where n: "resolve db (cs ! j) prefix = Inr n" "rep db n (sh j) (ms j)" "\<And>g. n \<noteq> HashNode g"
        using resolve_rep [OF r(1)] by blast
      then obtain k c f sc mc where s: "n = ShortNode k c f" "link k sc" "rep db c sc mc" "ms j = shift k mc" "j \<noteq> 16"
        using r(2) True by (cases n) (auto simp: slot_def elim: rep_ShortE rep_FullE rep_ValueE rep_NilE)
      have "link (?b # k) sc" using s(2,5) 1(1) b by (auto simp: link_def split: if_splits)
      from rep_short [OF this s(3), of newFlag] have "rep db (ShortNode (?b # k) c newFlag) SShort (children ms)"
        unfolding m s(4) using shift_append [of "[?b]" k mc] by simp
      then show ?thesis using 1(2) n(1) s(1,5) by (auto simp: reduce_full_def is_short_def)
    next
      case False
      have "link [?b] (sh j)" using r(2) nn False b by (cases "sh j") (auto simp: link_def slot_def)
      from rep_short [OF this r(1), of newFlag] have "rep db (ShortNode [?b] (cs ! j) newFlag) SShort (children ms)" unfolding m .
      moreover obtain c where "resolve db (cs ! j) prefix = Inr c" "\<not> is_short c"
        using resolve_rep [OF r(1), of prefix] False is_short_shape by blast
      then have "reduce_full db prefix cs = Inr (True, ShortNode [?b] (cs ! j) newFlag)"
        using 1(2) by (auto simp: reduce_full_def Let_def is_short_def split: node.splits)
      ultimately show ?thesis by (auto simp: is_short_def)
    qed
  next
    case (2 j l)
    then have "rep db (FullNode cs newFlag) SFull (children ms)"
      using assms(1-3) nil by (intro rep_full [where i = j and j = l and sh = sh]) auto
    then show ?thesis using 2(1) by (auto simp: reduce_full_def)
  qed
qed

definition delete_result :: "node_db \<Rightarrow> shape \<Rightarrow> (bytes \<rightharpoonup> bytes) \<Rightarrow> bytes \<Rightarrow> put_result option \<Rightarrow> bool" where
  "delete_result db sh m key r \<longleftrightarrow> (\<exists>d n' sh'. r = Some (Inr (d, n')) \<and> rep db n' sh' (m(key := None)) \<and> (\<not> d \<longrightarrow> m key = None) \<and>
    sh' \<noteq> SValue \<and> (sh = SNil \<or> sh = SValue \<longrightarrow> sh' = SNil) \<and> (sh = SShort \<longrightarrow> sh' = SNil \<or> sh' = SShort) \<and>
    (sh = SFull \<longrightarrow> sh' = SFull \<or> sh' = SShort \<and> d) \<and> (d \<and> sh' = SShort \<longrightarrow> is_short n'))"

lemma delete_spec:
  assumes "rep db n sh m" "fits sh key"
  shows "delete_result db sh m key (trie_delete db n prefix key)"
  using assms
proof (induction arbitrary: key prefix rule: rep.induct)
  case rep_nil
  then show ?case using rep.rep_nil [of db] by (auto simp: delete_result_def trie_delete.simps fun_upd_idem)
next
  case (rep_value w)
  then show ?case using rep.rep_nil [of db] by (auto simp: delete_result_def trie_delete.simps fits_def nil_map)
next
  case (rep_short k sh c m f)
  have vk: "vkey key" using rep_short.prems(1) by (simp add: fits_def)
  note n = rep.rep_short [OF rep_short.hyps, of f]
  obtain p a' b' where p: "key = p @ a'" "k = p @ b'" "prefixLen key k = length p" "a' = [] \<or> b' = [] \<or> hd a' \<noteq> hd b'"
    using prefixLen_split by blast
  show ?case
  proof (cases "b' = []")
    case False
    have "a' \<noteq> [] \<or> b' = []"
      using vk rep_short.hyps(1) p vkey_prefix_free [of p b'] by (auto simp: link_def dest: vkey_no_nibbles)
    then have "shift k m key = None" using p False by (cases a'; cases b') (auto simp: shift_def)
    then have "(shift k m)(key := None) = shift k m" by (rule fun_upd_idem)
    then show ?thesis using n p False \<open>shift k m key = None\<close> by (auto simp: delete_result_def trie_delete.simps [of _ "ShortNode _ _ _"])
  next
    case True
    show ?thesis
    proof (cases "a' = []")
      case t: True
      then have "sh = SValue" using rep_short.hyps(1) vk p True by (auto simp: link_def dest: vkey_no_nibbles)
      then obtain w where "m = [[] \<mapsto> w]" using rep_short.hyps(2) by (auto elim: rep_SValueE)
      then have "(shift k m)(key := None) = (\<lambda>_. None)" using p True t shift_upd [of k m "[]" None] by simp
      then show ?thesis using p True t rep.rep_nil [of db] by (auto simp: delete_result_def trie_delete.simps [of _ "ShortNode _ _ _"])
    next
      case f: False
      then have sf: "sh = SFull" "nibbles k" "k \<noteq> []"
        using rep_short.hyps(1) vk p True vkey_prefix_free [of p a'] by (auto simp: link_def)
      have "fits sh a'" using link_fits [OF rep_short.hyps(1), of a'] vk p True by simp
      from rep_short.IH [OF this, of "prefix @ p"] sf(1) obtain d n' sh' where
        i: "trie_delete db c (prefix @ p) a' = Some (Inr (d, n'))" "rep db n' sh' (m(a' := None))" "\<not> d \<longrightarrow> m a' = None"
          "sh' = SFull \<or> sh' = SShort \<and> d" "d \<and> sh' = SShort \<longrightarrow> is_short n'" by (auto simp: delete_result_def)
      have m: "(shift k m)(key := None) = shift k (m(a' := None))" using p True by (simp add: shift_upd)
      have same: "\<not> d \<Longrightarrow> (shift k m)(key := None) = shift k m" using i(3) m by (simp add: fun_upd_idem)
      let ?r = "case n' of ShortNode k' v f' \<Rightarrow> ShortNode (k @ k') v newFlag | _ \<Rightarrow> ShortNode k n' newFlag"
      have "rep db ?r SShort (shift k (m(a' := None))) \<and> is_short ?r" if dirty: d
      proof (cases "sh' = SShort")
        case True
        then obtain k' v f' where s: "n' = ShortNode k' v f'" using i(5) dirty by (auto simp: is_short_def split: node.splits)
        with i(2) obtain sv mv where "link k' sv" "rep db v sv mv" "m(a' := None) = shift k' mv" by (auto elim: rep_ShortE)
        moreover from this have "link (k @ k') sv" using sf(2,3) by (auto simp: link_def)
        ultimately show ?thesis using s rep.rep_short [of "k @ k'" sv db v mv newFlag] by (simp add: shift_append is_short_def)
      next
        case False
        then have "sh' = SFull" using i(4) by simp
        moreover from this have "\<not> is_short n'" using i(2) is_short_shape by blast
        ultimately show ?thesis using rep.rep_short [of k SFull db n' "m(a' := None)" newFlag] i(2) sf
          by (auto simp: link_def is_short_def split: node.splits)
      qed
      then show ?thesis using i(1,3) p True f n same m
        by (cases d) (auto simp: delete_result_def trie_delete.simps [of _ "ShortNode _ _ _"] changed_def)
    qed
  qed
next
  case (rep_full cs sh ms i j f)
  then obtain x r where x: "key = x # r" by (cases key) (auto simp: fits_def)
  have vk: "vkey (x # r)" using rep_full.prems(1) x by (simp add: fits_def)
  have u: "unat x < 17" using vkey_split [of "[]" x r] vk by simp
  note sl = rep_full.hyps(3) [OF u]
  from rep_full.IH [OF u slot_fits [OF sl vk], of "prefix @ [x]"] obtain d n' sh' where
    g: "trie_delete db (cs ! unat x) (prefix @ [x]) r = Some (Inr (d, n'))" "rep db n' sh' ((ms (unat x))(r := None))"
      "\<not> d \<longrightarrow> ms (unat x) r = None" "sh' \<noteq> SValue" "sh (unat x) = SNil \<or> sh (unat x) = SValue \<longrightarrow> sh' = SNil"
    by (auto simp: delete_result_def)
  let ?cs = "cs[unat x := n']" and ?sh = "sh(unat x := sh')" and ?ms = "ms(unat x := (ms (unat x))(r := None))"
  have s': "slot (unat x) sh'" using g(4,5) sl by (auto simp: slot_def)
  have cs: "length ?cs = 17" "\<And>i. i < 17 \<Longrightarrow> rep db (?cs ! i) (?sh i) (?ms i)" "\<And>i. i < 17 \<Longrightarrow> slot i (?sh i)"
    using rep_full.hyps s' g(2) u by (auto simp: nth_list_update)
  have m: "children ?ms = (children ms)(key := None)" using children_upd [OF u] x by metis
  have same: "\<not> d \<Longrightarrow> (children ms)(key := None) = children ms" using g(3) x u by (intro fun_upd_idem) simp
  have full: "rep db (FullNode cs f) SFull (children ms)" using rep_full.hyps by (intro rep.rep_full)
  have nil: "n' = NilNode \<longleftrightarrow> sh' = SNil" using g(2) by (auto simp: rep_SNil_iff elim: rep_NilE)
  consider "\<not> d" | "d" "sh' \<noteq> SNil" | "d" "sh' = SNil" by blast
  then show ?case
  proof cases
    case 1
    then show ?thesis using g x u rep_full.hyps(1) full same by (auto simp: delete_result_def trie_delete.simps [of _ "FullNode _ _"])
  next
    case 2
    then have "rep db (FullNode ?cs newFlag) SFull ((children ms)(key := None))"
      unfolding m [symmetric] using rep_full.hyps cs by (intro rep.rep_full [where i = i and j = j and sh = ?sh]) auto
    then show ?thesis using 2 nil g x u rep_full.hyps(1) by (auto simp: delete_result_def trie_delete.simps [of _ "FullNode _ _"] Let_def)
  next
    case 3
    obtain l where "l < 17" "?sh l \<noteq> SNil" using rep_full.hyps(4-8) by (cases "i = unat x") auto
    from reduce_spec [OF cs this, of prefix] obtain n1 sh1 where "reduce_full db prefix ?cs = Inr (True, n1)" "rep db n1 sh1 ((children ms)(key := None))"
      "sh1 = SFull \<or> sh1 = SShort \<and> is_short n1" unfolding m by blast
    then show ?thesis using 3 nil g(1) x u rep_full.hyps(1) by (auto simp: delete_result_def trie_delete.simps [of _ "FullNode _ _"] Let_def)
  qed
next
  case (rep_hash h n sh m)
  from rep_hash.IH [OF rep_hash.prems, of prefix] obtain d n' sh' where
    g: "trie_delete db n prefix key = Some (Inr (d, n'))" "rep db n' sh' (m(key := None))"
      "\<not> d \<longrightarrow> m key = None" "sh' \<noteq> SValue" "sh = SShort \<longrightarrow> sh' = SNil \<or> sh' = SShort" "sh = SFull \<longrightarrow> sh' = SFull \<or> sh' = SShort \<and> d"
      "d \<and> sh' = SShort \<longrightarrow> is_short n'" by (auto simp: delete_result_def)
  have "\<not> d \<Longrightarrow> m(key := None) = m" using g(3) by (intro fun_upd_idem) simp
  then show ?case using g rep_hash.hyps
    by (cases d) (auto simp: delete_result_def trie_delete.simps [of _ "HashNode _"] resolveHash_def changed_def)
qed

end
