(* ===== verification/Trie_Map.thy ===== *)
theory Trie_Map
  imports Merkle_Trie
begin

text \<open>
  The trie as a map from keys to values (\<^verbatim>\<open>trie/trie.go\<close>).  The locale \<open>key_value\<close> is the interface that the state
  database uses; the trie implements it, and the map alone determines the tree of nodes.
\<close>

subsection \<open>Keys\<close>

lemma unat_byte_div: "unat (b div 16 :: byte) = unat b div 16" "unat (b mod 16 :: byte) = unat b mod 16"
  by (simp_all add: unat_div unat_mod)

lemma keybytesToHex_simps: "keybytesToHex [] = [16]" "keybytesToHex (b # bs) = b div 16 # b mod 16 # keybytesToHex bs"
  by (simp_all add: keybytesToHex_def)

lemma keybytesToHex_vkey [simp]: "vkey (keybytesToHex key)"
proof (induction key)
  case (Cons b bs)
  have "unat (b div 16) < 16" "unat (b mod 16) < 16" using unat_byte_less [of b] by (auto simp: unat_byte_div simp del: unat_byte_less)
  moreover have "keybytesToHex bs \<noteq> []" by (simp add: keybytesToHex_def)
  ultimately show ?case using Cons by (simp add: keybytesToHex_simps)
qed (simp add: keybytesToHex_simps)

lemma byte_of_nibbles: "push_bit 4 (b div 16) OR b mod 16 = (b :: byte)"
proof (rule bit_word_eqI)
  fix n :: nat
  assume "n < LENGTH(8)"
  have "b div 16 = drop_bit 4 b" "b mod 16 = take_bit 4 b" by (simp_all add: drop_bit_eq_div take_bit_eq_mod)
  then show "bit (push_bit 4 (b div 16) OR b mod 16) n = bit b n"
    using \<open>n < LENGTH(8)\<close> by (auto simp: bit_simps)
qed

lemma decode_keybytes: "decodeNibbles (concat (map (\<lambda>b. [b div 16, b mod 16]) key)) = key"
  by (induction key) (simp_all add: byte_of_nibbles)

lemma nibble_bytes_length: "length (concat (map (\<lambda>b. [b div 16, b mod 16]) key)) = 2 * length key"
  by (induction key) simp_all

lemma hex_keybytes: "hexToKeybytes (keybytesToHex key) = Some key"
  by (simp add: hexToKeybytes_def keybytesToHex_def hasTerm_def nth_append decode_keybytes nibble_bytes_length)

lemma keybytesToHex_inject [simp]: "keybytesToHex a = keybytesToHex b \<longleftrightarrow> a = b"
  using hex_keybytes by (metis option.inject)

subsection \<open>The trie as a map\<close>

text \<open>A trie holds the map \<open>m\<close> from keys to non-empty values.\<close>

definition trie_holds :: "node_db \<Rightarrow> Trie \<Rightarrow> (bytes \<rightharpoonup> bytes) \<Rightarrow> bool" where
  "trie_holds db t m \<longleftrightarrow> (\<exists>sh m'. rep db (tr_root t) sh m' \<and> sh \<noteq> SValue \<and> (\<forall>key. m' (keybytesToHex key) = m key) \<and>
    (\<forall>k. m' k \<noteq> None \<longrightarrow> (\<exists>key. k = keybytesToHex key)))"

lemma fits_key: "sh \<noteq> SValue \<Longrightarrow> fits sh (keybytesToHex key)"
  by (cases sh) (simp_all add: fits_def)

lemma trie_holds_upd:
  assumes "rep db n' sh' (m'(keybytesToHex key := x))" "sh' \<noteq> SValue" "\<forall>key. m' (keybytesToHex key) = m key"
    and "\<forall>k. m' k \<noteq> None \<longrightarrow> (\<exists>key. k = keybytesToHex key)" "tr_root t = n'"
  shows "trie_holds db t (m(key := x))"
  unfolding trie_holds_def using assms by (intro exI [of _ sh'] exI [of _ "m'(keybytesToHex key := x)"]) auto

lemma TryGet_holds:
  assumes "trie_holds db t m"
  shows "\<exists>t'. TryGet db t key = Some (Inr (m key), t') \<and> trie_holds db t' m"
proof -
  obtain sh m' where r: "rep db (tr_root t) sh m'" "sh \<noteq> SValue" "\<forall>key. m' (keybytesToHex key) = m key"
    "\<forall>k. m' k \<noteq> None \<longrightarrow> (\<exists>key. k = keybytesToHex key)" using assms unfolding trie_holds_def by blast
  obtain n' did where g: "tryGet db (tr_root t) (keybytesToHex key) 0 = Some (Inr (m key), n', did)" "rep db n' sh m'"
    using tryGet_spec [OF r(1), of 0 "keybytesToHex key"] fits_key [OF r(2)] r(3) by auto
  then have "trie_holds db (t\<lparr>tr_root := n'\<rparr>) m" unfolding trie_holds_def using r(2-4) by auto
  then show ?thesis using g assms by (auto simp: TryGet_def)
qed

lemma set_root_holds:
  assumes "rep db n' sh' (m'(keybytesToHex key := x))" "sh' \<noteq> SValue" "\<forall>key. m' (keybytesToHex key) = m key"
    and "\<forall>k. m' k \<noteq> None \<longrightarrow> (\<exists>key. k = keybytesToHex key)" "r = Some (Inr (d, n'))"
  shows "\<exists>t'. set_root t r = Some (Inr (), t') \<and> trie_holds db t' (m(key := x))"
  using trie_holds_upd [OF assms(1-4), of "t\<lparr>tr_root := n'\<rparr>"] assms(5) by (simp add: set_root_def)

lemma trie_delete_holds:
  assumes "trie_holds db t m"
  shows "\<exists>t'. set_root t1 (trie_delete db (tr_root t) [] (keybytesToHex key)) = Some (Inr (), t') \<and> trie_holds db t' (m(key := None))"
proof -
  obtain sh m' where r: "rep db (tr_root t) sh m'" "sh \<noteq> SValue" "\<forall>key. m' (keybytesToHex key) = m key"
    "\<forall>k. m' k \<noteq> None \<longrightarrow> (\<exists>key. k = keybytesToHex key)" using assms unfolding trie_holds_def by blast
  obtain d n' sh' where "trie_delete db (tr_root t) [] (keybytesToHex key) = Some (Inr (d, n'))"
    "rep db n' sh' (m'(keybytesToHex key := None))" "sh' \<noteq> SValue"
    using delete_spec [OF r(1) fits_key [OF r(2)], where key1 = key and prefix = "[]"] by (auto simp: delete_result_def)
  then show ?thesis using set_root_holds r(3,4) by blast
qed

lemma TryDelete_holds:
  "trie_holds db t m \<Longrightarrow> \<exists>t'. TryDelete db t key = Some (Inr (), t') \<and> trie_holds db t' (m(key := None))"
  using trie_delete_holds [of db t m] by (simp add: TryDelete_def)

lemma TryUpdate_holds:
  assumes "trie_holds db t m"
  shows "\<exists>t'. TryUpdate db t key value = Some (Inr (), t') \<and> trie_holds db t' (m(key := if value = [] then None else Some value))"
proof (cases "value = []")
  case True
  then show ?thesis using trie_delete_holds [OF assms] by (simp add: TryUpdate_def)
next
  case False
  obtain sh m' where r: "rep db (tr_root t) sh m'" "sh \<noteq> SValue" "\<forall>key. m' (keybytesToHex key) = m key"
    "\<forall>k. m' k \<noteq> None \<longrightarrow> (\<exists>key. k = keybytesToHex key)" using assms unfolding trie_holds_def by blast
  have "keybytesToHex key \<noteq> []" by (simp add: keybytesToHex_def)
  then obtain d n' sh' where "trie_insert db (tr_root t) [] (keybytesToHex key) (ValueNode value) = Some (Inr (d, n'))"
    "rep db n' sh' (m'(keybytesToHex key := Some value))" "sh' \<noteq> SValue"
    using insert_spec [OF r(1) fits_key [OF r(2)] False, where key1 = key and prefix = "[]"] by (auto simp: insert_result_def)
  then show ?thesis using set_root_holds [of db n' sh' m' key "Some value" m] r(3,4) False by (simp add: TryUpdate_def)
qed

lemma empty_holds: "tr_root t = NilNode \<Longrightarrow> trie_holds db t (\<lambda>_. None)"
  unfolding trie_holds_def by (intro exI [of _ SNil] exI [of _ "\<lambda>_. None"]) (simp add: rep_nil)

subsection \<open>Sequences of operations\<close>

text \<open>The interface \<^verbatim>\<open>state.Trie\<close> that the state database uses: a store of values under keys, whose operations may fail
  and may reorganise the store.  An empty value erases the key.\<close>

datatype ('k, 'v) kv_op = KvGet 'k | KvUpdate 'k 'v | KvDelete 'k

text \<open>Running operations, with the values that the reads return; and the same on a map.\<close>

fun kv_run ::
  "('t \<Rightarrow> 'k \<Rightarrow> (('e, 'v option) result \<times> 't) option) \<Rightarrow> ('t \<Rightarrow> 'k \<Rightarrow> 'v \<Rightarrow> (('e, unit) result \<times> 't) option) \<Rightarrow>
   ('t \<Rightarrow> 'k \<Rightarrow> (('e, unit) result \<times> 't) option) \<Rightarrow> ('k, 'v) kv_op list \<Rightarrow> 't \<Rightarrow> ('v option list \<times> 't) option" where
  "kv_run get update delete [] t = Some ([], t)"
| "kv_run get update delete (KvGet k # ops) t =
     (case get t k of
        Some (Inr v, t1) \<Rightarrow> (case kv_run get update delete ops t1 of Some (vs, t2) \<Rightarrow> Some (v # vs, t2) | None \<Rightarrow> None)
      | _ \<Rightarrow> None)"
| "kv_run get update delete (KvUpdate k v # ops) t =
     (case update t k v of Some (Inr _, t1) \<Rightarrow> kv_run get update delete ops t1 | _ \<Rightarrow> None)"
| "kv_run get update delete (KvDelete k # ops) t =
     (case delete t k of Some (Inr _, t1) \<Rightarrow> kv_run get update delete ops t1 | _ \<Rightarrow> None)"

fun kv_run_map :: "('v \<Rightarrow> bool) \<Rightarrow> ('k, 'v) kv_op list \<Rightarrow> ('k \<rightharpoonup> 'v) \<Rightarrow> 'v option list \<times> ('k \<rightharpoonup> 'v)" where
  "kv_run_map erases [] m = ([], m)"
| "kv_run_map erases (KvGet k # ops) m = (m k # fst (kv_run_map erases ops m), snd (kv_run_map erases ops m))"
| "kv_run_map erases (KvUpdate k v # ops) m = kv_run_map erases ops (m(k := if erases v then None else Some v))"
| "kv_run_map erases (KvDelete k # ops) m = kv_run_map erases ops (m(k := None))"

locale key_value =
  fixes holds :: "'t \<Rightarrow> ('k \<rightharpoonup> 'v) \<Rightarrow> bool" and get :: "'t \<Rightarrow> 'k \<Rightarrow> (('e, 'v option) result \<times> 't) option"
    and update :: "'t \<Rightarrow> 'k \<Rightarrow> 'v \<Rightarrow> (('e, unit) result \<times> 't) option" and delete :: "'t \<Rightarrow> 'k \<Rightarrow> (('e, unit) result \<times> 't) option"
    and erases :: "'v \<Rightarrow> bool"
  assumes get_law: "holds t m \<Longrightarrow> \<exists>t'. get t k = Some (Inr (m k), t') \<and> holds t' m"
    and update_law: "holds t m \<Longrightarrow> \<exists>t'. update t k v = Some (Inr (), t') \<and> holds t' (m(k := if erases v then None else Some v))"
    and delete_law: "holds t m \<Longrightarrow> \<exists>t'. delete t k = Some (Inr (), t') \<and> holds t' (m(k := None))"
begin

lemma run_refines:
  "holds t m \<Longrightarrow> \<exists>t'. kv_run get update delete ops t = Some (fst (kv_run_map erases ops m), t') \<and>
     holds t' (snd (kv_run_map erases ops m))"
proof (induction ops arbitrary: t m)
  case (Cons op ops)
  show ?case
  proof (cases op)
    case (KvGet k)
    then show ?thesis using get_law [OF Cons.prems, of k] Cons.IH by fastforce
  next
    case (KvUpdate k v)
    then show ?thesis using update_law [OF Cons.prems, of k v] Cons.IH by fastforce
  next
    case (KvDelete k)
    then show ?thesis using delete_law [OF Cons.prems, of k] Cons.IH by fastforce
  qed
qed simp

end

interpretation tr: key_value "trie_holds db" "TryGet db" "TryUpdate db" "TryDelete db" "\<lambda>v. v = []" for db
  by unfold_locales (rule TryGet_holds TryUpdate_holds TryDelete_holds; assumption)+

abbreviation trie_run :: "node_db \<Rightarrow> (bytes, bytes) kv_op list \<Rightarrow> Trie \<Rightarrow> (bytes option list \<times> Trie) option" where
  "trie_run db \<equiv> kv_run (TryGet db) (TryUpdate db) (TryDelete db)"

abbreviation map_run :: "(bytes, bytes) kv_op list \<Rightarrow> (bytes \<rightharpoonup> bytes) \<Rightarrow> bytes option list \<times> (bytes \<rightharpoonup> bytes)" where
  "map_run \<equiv> kv_run_map (\<lambda>v. v = [])"

subsection \<open>The form is determined by the content\<close>

text \<open>A trie with every node loaded; the flags are irrelevant.\<close>

inductive expands :: "node_db \<Rightarrow> node \<Rightarrow> node \<Rightarrow> bool" for db where
  "expands db NilNode NilNode"
| "expands db (ValueNode v) (ValueNode v)"
| "expands db c e \<Longrightarrow> expands db (ShortNode k c f) (ShortNode k e newFlag)"
| "length es = length cs \<Longrightarrow> (\<And>i. i < length cs \<Longrightarrow> expands db (cs ! i) (es ! i)) \<Longrightarrow> expands db (FullNode cs f) (FullNode es newFlag)"
| "db (BytesToHash h) = Some n \<Longrightarrow> expands db n e \<Longrightarrow> expands db (HashNode h) e"

text \<open>What a loaded trie represents; the database plays no role.\<close>

inductive loaded :: "node \<Rightarrow> shape \<Rightarrow> (bytes \<rightharpoonup> bytes) \<Rightarrow> bool" where
  loaded_nil: "loaded NilNode SNil (\<lambda>_. None)"
| loaded_value: "v \<noteq> [] \<Longrightarrow> loaded (ValueNode v) SValue [[] \<mapsto> v]"
| loaded_short: "link k sh \<Longrightarrow> loaded c sh m \<Longrightarrow> loaded (ShortNode k c newFlag) SShort (shift k m)"
| loaded_full: "length cs = 17 \<Longrightarrow> (\<And>i. i < 17 \<Longrightarrow> loaded (cs ! i) (sh i) (ms i)) \<Longrightarrow> (\<And>i. i < 17 \<Longrightarrow> slot i (sh i)) \<Longrightarrow>
    i < 17 \<Longrightarrow> j < 17 \<Longrightarrow> i \<noteq> j \<Longrightarrow> sh i \<noteq> SNil \<Longrightarrow> sh j \<noteq> SNil \<Longrightarrow> loaded (FullNode cs newFlag) SFull (children ms)"

inductive_cases expands_NilE: "expands db NilNode e"
inductive_cases expands_ValueE: "expands db (ValueNode v) e"
inductive_cases expands_ShortE: "expands db (ShortNode k c f) e"
inductive_cases expands_FullE: "expands db (FullNode cs f) e"
inductive_cases expands_HashE: "expands db (HashNode h) e"

inductive_cases loaded_SFullE: "loaded e SFull m"

lemma rep_loaded: "rep db n sh m \<Longrightarrow> expands db n e \<Longrightarrow> loaded e sh m"
proof (induction arbitrary: e rule: rep.induct)
  case (rep_full cs sh ms i j f)
  obtain es where es: "e = FullNode es newFlag" "length es = length cs" "\<And>i. i < length cs \<Longrightarrow> expands db (cs ! i) (es ! i)"
    using rep_full.prems by (auto elim: expands_FullE)
  show ?case unfolding es(1) using rep_full es(2,3) by (intro loaded_full [where sh = sh and i = i and j = j]) auto
next
  case (rep_value v)
  then show ?case using loaded_value by (auto simp: nil_map elim!: expands_ValueE)
qed (auto elim!: expands_NilE expands_ShortE expands_HashE intro: loaded_nil loaded_short)

lemma rep_expands: "rep db n sh m \<Longrightarrow> \<exists>e. expands db n e"
proof (induction rule: rep.induct)
  case (rep_full cs sh ms i j f)
  then have "\<forall>i<17. \<exists>e. expands db (cs ! i) e" by blast
  then obtain g where "\<forall>i<17. expands db (cs ! i) (g i)" by metis
  then have "expands db (FullNode cs f) (FullNode (map g [0..<17]) newFlag)"
    using rep_full.hyps(1) by (intro expands.intros) (auto simp del: upt_rec_numeral)
  then show ?case by blast
qed (auto intro: expands.intros)

lemma loaded_nonempty: "loaded e sh m \<Longrightarrow> sh \<noteq> SNil \<Longrightarrow> \<exists>k. m k \<noteq> None"
proof (induction rule: loaded.induct)
  case (loaded_short k sh c m)
  then obtain r where "m r \<noteq> None" by (auto simp: link_def)
  then show ?case by (intro exI [of _ "k @ r"]) simp
next
  case (loaded_full cs sh ms i j)
  then obtain r where "ms i r \<noteq> None" by blast
  then show ?case using loaded_full.hyps(4) by (intro exI [of _ "word_of_nat i # r"]) (simp add: children_def unat_of_nat)
qed auto

text \<open>Keys of a map of a given shape.\<close>

lemma loaded_root_key: "loaded e sh m \<Longrightarrow> m [] \<noteq> None \<longleftrightarrow> sh = SValue"
  by (induction rule: loaded.induct) (auto simp: shift_def children_def link_def)

lemma loaded_full_keys:
  assumes "loaded e SFull m"
  shows "\<exists>x y r s. x \<noteq> y \<and> m (x # r) \<noteq> None \<and> m (y # s) \<noteq> None"
  using assms
proof (cases rule: loaded.cases)
  case (loaded_full cs sh ms i j)
  obtain r s where "ms i r \<noteq> None" "ms j s \<noteq> None" using loaded_nonempty loaded_full(4,6,7,9,10) by meson
  moreover have "(word_of_nat i :: byte) \<noteq> word_of_nat j"
    using loaded_full(6-8) by (simp add: word_unat_eq_iff unat_of_nat)
  ultimately show ?thesis unfolding loaded_full(2) using loaded_full(6,7)
    by (intro exI [of _ "word_of_nat i"] exI [of _ "word_of_nat j"] exI [of _ r] exI [of _ s]) (simp add: children_def unat_of_nat)
qed

lemma shift_full_first:
  assumes "loaded e sh (shift (x # r) m)" "sh = SFull \<or> sh = SValue"
  shows False
  using assms(2)
proof
  assume "sh = SFull"
  then show False using loaded_full_keys [of e "shift (x # r) m"] assms(1) by (auto simp: shift_def split: if_splits)
next
  assume "sh = SValue"
  then show False using loaded_root_key [OF assms(1)] by (simp add: shift_def)
qed

lemma shift_inject: "shift k m = shift k m' \<Longrightarrow> m = m'"
  by (rule ext) (metis shift_key)

lemma link_unique:
  assumes "shift k m = shift k' m'" "link k s" "link k' s'" "loaded c s m" "loaded c' s' m'"
  shows "k = k'"
proof -
  have s: "s = SFull \<or> s = SValue" "s' = SFull \<or> s' = SValue" using assms(2,3) by (auto simp: link_def)
  obtain r where "m r \<noteq> None" using loaded_nonempty [OF assms(4)] s(1) by auto
  then have "shift k' m' (k @ r) \<noteq> None" using shift_key [of k m r] unfolding assms(1) by simp
  then have "take (length k') (k @ r) = k'" unfolding shift_def by (meson option.distinct(1))
  then have "k @ r = k' @ drop (length k') (k @ r)" by (metis append_take_drop_id)
  then obtain us where "k = k' @ us \<or> k' = k @ us" unfolding append_eq_append_conv2 by blast
  then consider "k = k'" | x t where "k = k' @ x # t" | x t where "k' = k @ x # t" by (cases us) auto
  then show ?thesis
  proof cases
    case (2 x t)
    then have "m' = shift (x # t) m" using assms(1) shift_append [of k' "x # t" m] shift_inject [of k' m'] by metis
    then show ?thesis using shift_full_first [of c' s' x t m] assms(5) s(2) by simp
  next
    case (3 x t)
    then have "m = shift (x # t) m'" using assms(1) shift_append [of k "x # t" m'] shift_inject [of k m] by metis
    then show ?thesis using shift_full_first [of c s x t m'] assms(4) s(1) by simp
  qed
qed

lemma children_inject: "children ms = children ms' \<Longrightarrow> i < 17 \<Longrightarrow> ms i = ms' i"
proof
  fix r
  assume "children ms = children ms'" "i < 17"
  then have "children ms (word_of_nat i # r) = children ms' (word_of_nat i # r)" "unat (word_of_nat i :: byte) = i"
    by (simp_all add: unat_of_nat)
  then show "ms i r = ms' i r" using \<open>i < 17\<close> by simp
qed

lemma shape_of_map:
  assumes "loaded e sh m" "loaded e' sh' m"
  shows "sh = sh'"
proof -
  have n: "s = SNil \<longleftrightarrow> (\<forall>k. m k = None)" if "loaded d s m" for d s
    using loaded_nonempty [OF that] that by (auto elim: loaded.cases)
  have f: "s = SFull \<longleftrightarrow> (\<exists>x y r q. x \<noteq> y \<and> m (x # r) \<noteq> None \<and> m (y # q) \<noteq> None)" if "loaded d s m" for d s
  proof
    show "s = SFull" if "\<exists>x y r q. x \<noteq> y \<and> m (x # r) \<noteq> None \<and> m (y # q) \<noteq> None"
    proof (cases s)
      case SShort
      then obtain k c s1 m1 where k: "link k s1" "m = shift k m1" using \<open>loaded d s m\<close> by (auto elim: loaded.cases)
      then obtain z t where "k = z # t" by (cases k) (auto simp: link_def)
      then show ?thesis using that k(2) by (auto simp: shift_def split: if_splits)
    qed (use that \<open>loaded d s m\<close> in \<open>auto elim: loaded.cases split: if_splits\<close>)
  qed (use loaded_full_keys that in blast)
  show ?thesis using n [OF assms(1)] n [OF assms(2)] f [OF assms(1)] f [OF assms(2)] loaded_root_key [OF assms(1)] loaded_root_key [OF assms(2)]
    by (cases sh; cases sh') auto
qed

lemma loaded_unique: "loaded e sh m \<Longrightarrow> loaded e' sh' m \<Longrightarrow> e = e'"
proof (induction arbitrary: e' sh' rule: loaded.induct)
  case loaded_nil
  then have "sh' = SNil" using shape_of_map loaded.loaded_nil by blast
  then show ?case using loaded_nil by (auto elim: loaded.cases)
next
  case (loaded_value v)
  have "loaded (ValueNode v) SValue [[] \<mapsto> v]" using loaded.loaded_value [OF loaded_value.hyps] .
  then have "sh' = SValue" using shape_of_map loaded_value.prems by blast
  then have "loaded e' SValue [[] \<mapsto> v]" using loaded_value.prems by (simp add: nil_map)
  then show ?case by (cases rule: loaded.cases) (auto dest: fun_cong [of _ _ "[]"])
next
  case (loaded_short k sh c m)
  have "sh' = SShort" using shape_of_map [OF loaded.loaded_short [OF loaded_short.hyps] loaded_short.prems] by simp
  with loaded_short.prems obtain k' s' c' m' where e: "e' = ShortNode k' c' newFlag" "link k' s'" "loaded c' s' m'" "shift k m = shift k' m'"
    by (auto elim: loaded.cases)
  then have "k = k'" using link_unique loaded_short.hyps by blast
  then show ?case using e loaded_short.IH shift_inject by blast
next
  case (loaded_full cs sh ms i j)
  have "loaded (FullNode cs newFlag) SFull (children ms)" using loaded_full.hyps by (intro loaded.loaded_full)
  then have "sh' = SFull" using shape_of_map loaded_full.prems by blast
  then have "loaded e' SFull (children ms)" using loaded_full.prems by simp
  then obtain cs' s' ms' where e: "e' = FullNode cs' newFlag" "length cs' = 17" "\<And>i. i < 17 \<Longrightarrow> loaded (cs' ! i) (s' i) (ms' i)"
    "children ms = children ms'" by (elim loaded_SFullE) blast
  have "cs ! i = cs' ! i" if "i < 17" for i
    using loaded_full.IH [OF that] e(3) [OF that] children_inject [OF e(4) that] by simp
  then show ?case using e(1,2) loaded_full.hyps(1) by (simp add: nth_equalityI)
qed

section \<open>Properties\<close>

text \<open>C19. The trie is a map.  Starting from a trie that holds a map, every sequence of reads, updates and deletions returns
  without error or missing node, every read returns what the map has at that point, and the trie ends up holding the map
  that the same operations lead to; an update with an empty value is a deletion.\<close>

theorem trie_is_a_map:
  assumes "trie_holds db t m"
  shows "\<exists>t'. trie_run db ops t = Some (fst (map_run ops m), t') \<and> trie_holds db t' (snd (map_run ops m))"
  using assms by (rule tr.run_refines)

theorem trie_is_a_map_witness:
  "\<exists>t'. trie_run (\<lambda>_. None)
     [KvUpdate [0x12, 0x34] [1], KvUpdate [0x12, 0x35] [2], KvUpdate [0x12] [3], KvGet [0x12, 0x34], KvDelete [0x12, 0x35], KvGet [0x12, 0x35],
      KvUpdate [0x12, 0x34] [], KvGet [0x12, 0x34], KvGet [0x12]] \<lparr>tr_root = NilNode, tr_unhashed = 0\<rparr>
    = Some ([Some [1], None, None, Some [3]], t')"
  using trie_is_a_map [OF empty_holds [of "\<lparr>tr_root = NilNode, tr_unhashed = 0\<rparr>" "\<lambda>_. None"], where
      ops = "[KvUpdate [0x12, 0x34] [1], KvUpdate [0x12, 0x35] [2], KvUpdate [0x12] [3], KvGet [0x12, 0x34], KvDelete [0x12, 0x35],
      KvGet [0x12, 0x35], KvUpdate [0x12, 0x34] [], KvGet [0x12, 0x34], KvGet [0x12]]"] by auto

lemma holds_canonical:
  assumes "trie_holds db t m" "trie_holds db' t' m"
  shows "\<exists>e. \<forall>n. (expands db (tr_root t) n \<longleftrightarrow> n = e) \<and> (expands db' (tr_root t') n \<longleftrightarrow> n = e)"
proof -
  obtain sh m1 where r: "rep db (tr_root t) sh m1" "\<forall>key. m1 (keybytesToHex key) = m key"
    "\<forall>k. m1 k \<noteq> None \<longrightarrow> (\<exists>key. k = keybytesToHex key)" using assms(1) unfolding trie_holds_def by blast
  obtain sh' m2 where r': "rep db' (tr_root t') sh' m2" "\<forall>key. m2 (keybytesToHex key) = m key"
    "\<forall>k. m2 k \<noteq> None \<longrightarrow> (\<exists>key. k = keybytesToHex key)" using assms(2) unfolding trie_holds_def by blast
  have "m1 k = m2 k" for k
  proof (cases "\<exists>key. k = keybytesToHex key")
    case False
    then show ?thesis using r(3) r'(3) by (metis (no_types))
  qed (use r(2) r'(2) in auto)
  then have "m1 = m2" ..
  then show ?thesis
    using rep_expands [OF r(1)] rep_expands [OF r'(1)] rep_loaded [OF r(1)] rep_loaded [OF r'(1)] loaded_unique by metis
qed

text \<open>C20. The content determines the trie.  Two sequences of operations on two tries, on whatever databases, that lead to the
  same map lead to the same tree of nodes once every node is loaded.  So the order of updates and deleted keys leave no trace.\<close>

theorem trie_canonical:
  assumes "trie_holds db t m" "trie_holds db' t' m'" "snd (map_run ops m) = snd (map_run ops' m')"
  shows "\<exists>vs t1 vs' t2 e. trie_run db ops t = Some (vs, t1) \<and> trie_run db' ops' t' = Some (vs', t2) \<and>
    (\<forall>n. (expands db (tr_root t1) n \<longleftrightarrow> n = e) \<and> (expands db' (tr_root t2) n \<longleftrightarrow> n = e))"
proof -
  obtain t1 t2 where r: "trie_run db ops t = Some (fst (map_run ops m), t1)" "trie_holds db t1 (snd (map_run ops m))"
    "trie_run db' ops' t' = Some (fst (map_run ops' m'), t2)" "trie_holds db' t2 (snd (map_run ops m))"
    using tr.run_refines [OF assms(1), of ops] tr.run_refines [OF assms(2), of ops'] unfolding assms(3) by blast
  then show ?thesis using holds_canonical [OF r(2,4)] by blast
qed

theorem trie_canonical_witness:
  "\<exists>t t' e. trie_run (\<lambda>_. None) [KvUpdate [1] [7], KvUpdate [2] [8]] \<lparr>tr_root = NilNode, tr_unhashed = 0\<rparr> = Some ([], t) \<and>
     trie_run (\<lambda>_. None) [KvUpdate [2] [8], KvUpdate [3] [9], KvUpdate [1] [7], KvDelete [3]] \<lparr>tr_root = NilNode, tr_unhashed = 0\<rparr> = Some ([], t') \<and>
     expands (\<lambda>_. None) (tr_root t) e \<and> expands (\<lambda>_. None) (tr_root t') e"
proof -
  let ?t = "\<lparr>tr_root = NilNode, tr_unhashed = 0\<rparr>" and ?ops = "[KvUpdate [1] [7], KvUpdate [2] [8]]"
    and ?ops' = "[KvUpdate [2] [8], KvUpdate [3] [9], KvUpdate [1] [7], KvDelete [3]] :: (bytes, bytes) kv_op list"
  have e: "trie_holds (\<lambda>_. None) ?t (\<lambda>_. None)" by (simp add: empty_holds)
  have "snd (map_run ?ops (\<lambda>_. None)) = snd (map_run ?ops' (\<lambda>_. None))" by (rule ext) simp
  from trie_canonical [OF e e this] obtain vs t1 vs' t2 e where r: "trie_run (\<lambda>_. None) ?ops ?t = Some (vs, t1)"
    "trie_run (\<lambda>_. None) ?ops' ?t = Some (vs', t2)" "expands (\<lambda>_. None) (tr_root t1) e" "expands (\<lambda>_. None) (tr_root t2) e" by blast
  have "vs = []" "vs' = []" using r(1,2) by (auto split: option.splits prod.splits sum.splits)
  then show ?thesis using r by blast
qed

lemma nibble_join: "unat a < 16 \<Longrightarrow> unat b < 16 \<Longrightarrow> (push_bit 4 a OR b) div 16 = (a :: byte) \<and> (push_bit 4 a OR b) mod 16 = b"
proof -
  assume a: "unat a < 16" and b: "unat b < 16"
  have "take_bit 4 a = a" "take_bit 4 b = b" using a b by (simp_all add: take_bit_eq_mod word_unat_eq_iff unat_mod)
  moreover have "(push_bit 4 a OR b) div 16 = drop_bit 4 (push_bit 4 a OR b)" "(push_bit 4 a OR b) mod 16 = take_bit 4 (push_bit 4 a OR b)"
    by (simp_all add: drop_bit_eq_div take_bit_eq_mod)
  moreover have lt: "n < 4" if "bit a n \<or> bit b n" for n using that calculation(1,2) by (metis bit_take_bit_iff)
  ultimately show ?thesis by (auto intro!: bit_word_eqI simp: bit_simps dest: lt [OF disjI2])
qed

lemma keybytes_decode: "even (length ns) \<Longrightarrow> nibbles ns \<Longrightarrow> concat (map (\<lambda>b. [b div 16, b mod 16]) (decodeNibbles ns)) = ns"
  by (induction ns rule: decodeNibbles.induct) (simp_all add: nibble_join)


lemma nibbles_no_term: "nibbles ns \<Longrightarrow> \<not> hasTerm ns"
  by (cases ns rule: rev_cases) (auto simp: hasTerm_def nth_append)

definition term_of :: "bool \<Rightarrow> bytes" where
  "term_of t = (if t then [16] else [])"

text \<open>The compact form: the flag nibble, the first nibble or zero, and the pairs of the others.\<close>

lemma compact_shape:
  assumes "nibbles ns"
  shows "hexToCompact (ns @ term_of t) =
    (if odd (length ns) then (push_bit 4 (if t then 3 else 1) OR hd ns) # decodeNibbles (tl ns)
     else (push_bit 4 (if t then 2 else 0) OR 0) # decodeNibbles ns)"
proof -
  have "hasTerm (ns @ term_of t) = t" using nibbles_no_term [OF assms] by (auto simp: term_of_def hasTerm_def)
  then show ?thesis
    by (cases ns) (auto simp: hexToCompact_def Let_def term_of_def simp flip: or.assoc)
qed

lemma compactToHex_pair:
  assumes "unat f < 4" "unat x < 16"
  shows "compactToHex ((push_bit 4 f OR x) # bs) =
    (if odd (unat f) then [x] else []) @ concat (map (\<lambda>b. [b div 16, b mod 16]) bs) @ (if unat f < 2 then [] else [16])"
proof -
  have p: "(push_bit 4 f OR x) div 16 = f" "(push_bit 4 f OR x) mod 16 = x" using nibble_join [of f x] assms by simp_all
  have "f AND 1 = of_nat (unat f mod 2)" by (simp add: and_one_eq word_unat_eq_iff unat_mod unat_of_nat)
  then have "unat (2 - (f AND 1)) = (if odd (unat f) then 1 else 2)" by (auto simp: odd_iff_mod_2_eq_one even_iff_mod_2_eq_zero)
  moreover have "f < 2 \<longleftrightarrow> unat f < 2" by (simp add: word_less_nat_alt)
  ultimately show ?thesis by (auto simp: compactToHex_def keybytesToHex_def p Let_def butlast_append)
qed

lemma compact_hex:
  assumes "nibbles ns"
  shows "compactToHex (hexToCompact (ns @ term_of t)) = ns @ term_of t"
proof (cases "odd (length ns)")
  case True
  then obtain x r where ns: "ns = x # r" by (cases ns) auto
  have "compactToHex (hexToCompact (ns @ term_of t)) = compactToHex ((push_bit 4 (if t then 3 else 1) OR x) # decodeNibbles r)"
    using compact_shape [OF assms] True by (simp add: ns)
  then show ?thesis using True assms compactToHex_pair [of "if t then 3 else 1" x "decodeNibbles r"]
    by (cases t) (simp_all add: keybytes_decode ns term_of_def)
next
  case False
  then have "compactToHex (hexToCompact (ns @ term_of t)) = compactToHex ((push_bit 4 (if t then 2 else 0) OR 0) # decodeNibbles ns)"
    using compact_shape [OF assms] by simp
  then show ?thesis using False assms compactToHex_pair [of "if t then 2 else 0" 0 "decodeNibbles ns"]
    by (cases t) (simp_all add: keybytes_decode term_of_def)
qed

declare compact_loop.simps [simp del]

lemma compact_loop_spec:
  assumes "bi \<le> ni + 1" "hexLen \<le> length hex" "even (hexLen - ni)" "ni \<le> hexLen"
  shows "compact_loop hexLen bi ni hex =
    take bi hex @ decodeNibbles (take (hexLen - ni) (drop ni hex)) @ drop (bi + (hexLen - ni) div 2) hex"
  using assms
proof (induction hexLen bi ni hex rule: compact_loop.induct)
  case (1 hexLen bi ni hex)
  show ?case
  proof (cases "ni < hexLen")
    case True
    then have l: "ni + 1 < hexLen" using 1(4) by presburger
    let ?v = "push_bit 4 (hex ! ni) OR hex ! (ni + 1)" and ?d = "(hexLen - (ni + 2)) div 2"
    have e: "even (hexLen - (ni + 2))" "(hexLen - ni) div 2 = Suc ?d" using 1(4) l by presburger+
    have dn: "drop ni hex = hex ! ni # hex ! (ni + 1) # drop (ni + 2) hex"
      using l 1(3) Cons_nth_drop_Suc [of ni hex] Cons_nth_drop_Suc [of "ni + 1" hex] by simp
    have "take (hexLen - ni) (drop ni hex) = hex ! ni # hex ! (ni + 1) # take (hexLen - (ni + 2)) (drop (ni + 2) hex)"
      unfolding dn using l by (simp add: take_Cons' Suc_diff_Suc)
    then have dec: "decodeNibbles (take (hexLen - ni) (drop ni hex)) = ?v # decodeNibbles (take (hexLen - (ni + 2)) (drop (ni + 2) hex))" by simp
    have "compact_loop hexLen (bi + 1) (ni + 2) (hex[bi := ?v]) =
        take (bi + 1) (hex[bi := ?v]) @ decodeNibbles (take (hexLen - (ni + 2)) (drop (ni + 2) (hex[bi := ?v]))) @ drop (bi + 1 + ?d) (hex[bi := ?v])"
      using 1(1) [OF True] 1(2,3) l e(1) by simp
    moreover have "take (bi + 1) (hex[bi := ?v]) = take bi hex @ [?v]" using 1(2,3) l by (simp add: take_Suc_conv_app_nth)
    moreover have "drop (ni + 2) (hex[bi := ?v]) = drop (ni + 2) hex" "drop (bi + 1 + ?d) (hex[bi := ?v]) = drop (bi + 1 + ?d) hex"
      using 1(2) by simp_all
    ultimately show ?thesis using True dec e(2) by (simp add: compact_loop.simps [of hexLen bi])
  qed (use 1(5) in \<open>simp add: compact_loop.simps\<close>)
qed

lemma in_place:
  assumes "hex \<noteq> []"
  shows "\<exists>buf. hexToCompactInPlace hex = Some (length (hexToCompact hex), buf) \<and> length buf = length hex \<and>
    take (length (hexToCompact hex)) buf = hexToCompact hex"
proof -
  define hexLen where "hexLen = (if hasTerm hex then length hex - 1 else length hex)"
  define f :: byte where "f = (if hasTerm hex then push_bit 5 1 else 0)"
  define ni :: nat where "ni = (if odd hexLen then 1 else 0)"
  define b0 where "b0 = (if odd hexLen then f OR push_bit 4 1 OR hex ! 0 else f)"
  have l: "hexLen \<le> length hex" "ni \<le> hexLen" "even (hexLen - ni)" using odd_pos [of hexLen] by (auto simp: hexLen_def ni_def Suc_le_eq)
  let ?d = "decodeNibbles (take (hexLen - ni) (drop ni hex))" and ?rest = "drop (1 + (hexLen - ni) div 2) hex"
  let ?hex = "compact_loop hexLen 1 ni hex"
  have loop: "?hex = take 1 hex @ ?d @ ?rest" using compact_loop_spec [of 1 ni hexLen hex] l by simp
  then have upd: "?hex[0 := b0] = b0 # ?d @ ?rest" using assms by (cases hex) auto
  have "hexToCompactInPlace hex = Some (hexLen div 2 + 1, ?hex[0 := b0])"
    using assms by (simp add: hexToCompactInPlace_def hasTerm_def hexLen_def f_def b0_def ni_def Let_def)
  moreover have c: "hexToCompact hex = b0 # ?d"
  proof -
    have "(if hasTerm hex then butlast hex else hex) = take hexLen hex" by (simp add: hexLen_def butlast_conv_take)
    then show ?thesis using assms l
      by (auto simp: hexToCompact_def Let_def b0_def f_def ni_def hexLen_def tl_take drop_Suc simp flip: butlast_conv_take)
  qed
  moreover have "length (decodeNibbles ns) = length ns div 2" for ns by (induction ns rule: decodeNibbles.induct) auto
  then have d: "length ?d = (hexLen - ni) div 2" "(hexLen - ni) div 2 = hexLen div 2" using l by (auto simp: ni_def elim: oddE)
  moreover have "hexLen div 2 < length hex" using l(1) assms by (cases hex) auto
  then have "length (?hex[0 := b0]) = length hex" unfolding upd using d by simp
  ultimately show ?thesis unfolding upd by simp
qed

text \<open>C21. The key encodings are inverse.  Keys survive the hex form; the compact form, which is stored on disk, gives back every
  hex key with or without terminator, odd or even; and the conversion in place computes the same compact form.\<close>

theorem key_encodings_inverse:
  "hexToKeybytes (keybytesToHex key) = Some key \<and>
   (nibbles ns \<longrightarrow> compactToHex (hexToCompact (ns @ (if t then [16] else []))) = ns @ (if t then [16] else [])) \<and>
   (hex \<noteq> [] \<longrightarrow> (\<exists>buf. hexToCompactInPlace hex = Some (length (hexToCompact hex), buf) \<and> length buf = length hex \<and>
      take (length (hexToCompact hex)) buf = hexToCompact hex))"
  using hex_keybytes [of key] compact_hex [of ns t] in_place [of hex] by (simp add: term_of_def)

theorem key_encodings_inverse_witness:
  "hexToKeybytes (keybytesToHex [0x12, 0xab]) = Some [0x12, 0xab] \<and>
   compactToHex (hexToCompact [1, 2, 3, 16]) = [1, 2, 3, 16] \<and>
   (\<exists>buf. hexToCompactInPlace [1, 2, 3, 16] = Some (length (hexToCompact [1, 2, 3, 16]), buf) \<and>
      take (length (hexToCompact [1, 2, 3, 16])) buf = hexToCompact [1, 2, 3, 16])"
  using key_encodings_inverse [of "[0x12, 0xab]" "[1, 2, 3]" True "[1, 2, 3, 16]"] by auto

end
