(* ===== verification/Trie_Store.thy ===== *)
theory Trie_Store
  imports Trie_Map
begin

text \<open>
  The nodes in the trie database (\<^verbatim>\<open>trie/database.go\<close>, the decoder of \<^verbatim>\<open>trie/node.go\<close>): the collapsed form in which
  nodes wait in memory, their encoding, the decoder, and \<^verbatim>\<open>Database.node\<close>, which looks a node up in the clean cache, in the
  nodes of the last flush, in the dirty nodes and on disk.  A collapsed node and its encoding expand to the same node,
  so the layers agree; \<^verbatim>\<open>Database.Node\<close> returns the encoding, except for a node of the last flush, where it does not.

  The key-value store below is a parameter, and the clean cache is a map: an entry that it drops is a missing entry.
\<close>

subsection \<open>Collapsed nodes\<close>

text \<open>The collapsed nodes of the memory database (\<^verbatim>\<open>rawShortNode\<close>, \<^verbatim>\<open>rawFullNode\<close>, values and hashes); \<open>RawNil\<close> is \<^verbatim>\<open>nil\<close>.\<close>

datatype raw_node = RawNil | RawValue bytes | RawHash bytes | RawShort bytes raw_node | RawFull "raw_node list"

text \<open>\<open>None\<close> is the panic on a node of an unknown type, here \<^verbatim>\<open>nil\<close>.\<close>

fun simplifyNode :: "node \<Rightarrow> raw_node option" where
  "simplifyNode (ShortNode k v f) = map_option (RawShort k) (simplifyNode v)"
| "simplifyNode (FullNode cs f) =
     map_option RawFull (those (map (\<lambda>c. if c \<noteq> NilNode then simplifyNode c else Some RawNil) cs))"
| "simplifyNode (ValueNode v) = Some (RawValue v)"
| "simplifyNode (HashNode h) = Some (RawHash h)"
| "simplifyNode NilNode = None"

fun expandNode :: "bytes option \<Rightarrow> raw_node \<Rightarrow> node option" where
  "expandNode hash (RawShort k v) =
     map_option (\<lambda>n. ShortNode (compactToHex k) n \<lparr>nf_hash = hash, nf_dirty = False\<rparr>) (expandNode None v)"
| "expandNode hash (RawFull cs) =
     map_option (\<lambda>ns. FullNode ns \<lparr>nf_hash = hash, nf_dirty = False\<rparr>)
       (those (map (\<lambda>c. if c \<noteq> RawNil then expandNode None c else Some NilNode) cs))"
| "expandNode hash (RawValue v) = Some (ValueNode v)"
| "expandNode hash (RawHash h) = Some (HashNode h)"
| "expandNode hash RawNil = None"

text \<open>The hash that a node caches.\<close>

fun cached_hash :: "node \<Rightarrow> bytes option" where
  "cached_hash (ShortNode k v f) = nf_hash f"
| "cached_hash (FullNode cs f) = nf_hash f"
| "cached_hash _ = None"

fun createNode :: "node \<Rightarrow> node option" where
  "createNode (ShortNode k v f) =
     map_option (\<lambda>n. ShortNode k n \<lparr>nf_hash = nf_hash f, nf_dirty = False\<rparr>) (createNode v)"
| "createNode (FullNode cs f) =
     map_option (\<lambda>ns. FullNode ns \<lparr>nf_hash = nf_hash f, nf_dirty = False\<rparr>)
       (those (map (\<lambda>c. if c = NilNode then Some NilNode
                         else (case cached_hash c of
                                 Some h \<Rightarrow> if length h = 32 then Some (HashNode h) else createNode c
                               | None \<Rightarrow> createNode c)) cs))"
| "createNode (ValueNode v) = Some (ValueNode v)"
| "createNode (HashNode h) = Some (HashNode h)"
| "createNode NilNode = None"

text \<open>The value that the encoder sees: a missing child of a full node is an empty string, a nil interface elsewhere an empty list.\<close>

fun raw_rval :: "raw_node \<Rightarrow> rval" where
  "raw_rval (RawShort k v) = VStruct [VBytes k, raw_rval v] []"
| "raw_rval (RawFull cs) = VSlice (map (\<lambda>c. if c \<noteq> RawNil then raw_rval c else VBytes []) cs)"
| "raw_rval (RawValue v) = VBytes v"
| "raw_rval (RawHash h) = VBytes h"
| "raw_rval RawNil = VNilPtr True"

subsection \<open>Decoding\<close>

text \<open>The errors of the decoder without the path that \<^verbatim>\<open>wrapError\<close> adds to their text.\<close>

datatype decode_error = DecodeEOF | DecodeRlp rlp_error | InvalidCount nat | OversizedEmbedded nat | InvalidStringSize nat | DecodeFuel

definition from_rlp :: "(rlp_error, 'a) result \<Rightarrow> (decode_error, 'a) result" where
  "from_rlp r = (case r of Inl e \<Rightarrow> Inl (DecodeRlp e) | Inr x \<Rightarrow> Inr x)"

definition decodeRef :: "(bytes \<Rightarrow> (decode_error, node) result) \<Rightarrow> bytes \<Rightarrow> (decode_error, node \<times> bytes) result" where
  "decodeRef dec buf =
    rbind (from_rlp (Split buf)) (\<lambda>(kind, val, rest).
      if kind = KList then
        (let size = length buf - length rest
         in if size > 32 then Inl (OversizedEmbedded size) else rbind (dec buf) (\<lambda>n. Inr (n, rest)))
      else if kind = KString \<and> length val = 0 then Inr (NilNode, rest)
      else if kind = KString \<and> length val = 32 then Inr (HashNode val, rest)
      else Inl (InvalidStringSize (length val)))"

definition decodeShort :: "(bytes \<Rightarrow> (decode_error, node) result) \<Rightarrow> bytes option \<Rightarrow> bytes \<Rightarrow> (decode_error, node) result" where
  "decodeShort dec hash elems =
    rbind (from_rlp (SplitString elems)) (\<lambda>(kbuf, rest).
      let flag = \<lparr>nf_hash = hash, nf_dirty = False\<rparr>; key = compactToHex kbuf
      in if hasTerm key then rbind (from_rlp (SplitString rest)) (\<lambda>(val, _). Inr (ShortNode key (ValueNode val) flag))
         else rbind (decodeRef dec rest) (\<lambda>(r, _). Inr (ShortNode key r flag)))"

fun decode_children :: "(bytes \<Rightarrow> (decode_error, node) result) \<Rightarrow> nat \<Rightarrow> bytes \<Rightarrow> (decode_error, node list \<times> bytes) result" where
  "decode_children dec 0 elems = Inr ([], elems)"
| "decode_children dec (Suc i) elems =
     rbind (decodeRef dec elems) (\<lambda>(cld, rest). rbind (decode_children dec i rest) (\<lambda>(cs, r). Inr (cld # cs, r)))"

definition decodeFull :: "(bytes \<Rightarrow> (decode_error, node) result) \<Rightarrow> bytes option \<Rightarrow> bytes \<Rightarrow> (decode_error, node) result" where
  "decodeFull dec hash elems =
    rbind (decode_children dec 16 elems) (\<lambda>(cs, rest).
      rbind (from_rlp (SplitString rest)) (\<lambda>(val, _).
        Inr (FullNode (cs @ [if length val > 0 then ValueNode val else NilNode]) \<lparr>nf_hash = hash, nf_dirty = False\<rparr>)))"

text \<open>An embedded node lies inside the elements of its list, so the length of the buffer bounds the nesting.\<close>

fun decode_node :: "nat \<Rightarrow> bytes option \<Rightarrow> bytes \<Rightarrow> (decode_error, node) result" where
  "decode_node 0 hash buf = Inl DecodeFuel"
| "decode_node (Suc fuel) hash buf =
     (if length buf = 0 then Inl DecodeEOF
      else
        rbind (from_rlp (SplitList buf)) (\<lambda>(elems, _).
          let c = (case CountValues elems of Some (Inr c) \<Rightarrow> c | _ \<Rightarrow> 0)
          in if c = 2 then decodeShort (decode_node fuel None) hash elems
             else if c = 17 then decodeFull (decode_node fuel None) hash elems
             else Inl (InvalidCount c)))"

definition decodeNode :: "bytes option \<Rightarrow> bytes \<Rightarrow> (decode_error, node) result" where
  "decodeNode hash buf = decode_node (Suc (length buf)) hash buf"

definition mustDecodeNode :: "bytes option \<Rightarrow> bytes \<Rightarrow> node option" where
  "mustDecodeNode hash buf = (case decodeNode hash buf of Inl _ \<Rightarrow> None | Inr n \<Rightarrow> Some n)"

subsection \<open>The database\<close>

text \<open>A cached node is collapsed or an encoded blob.\<close>

datatype cachedNode = CachedRaw raw_node | CachedBlob bytes

definition cachedNode_rlp :: "cachedNode \<Rightarrow> bytes option" where
  "cachedNode_rlp n =
    (case n of
       CachedBlob blob \<Rightarrow> Some blob
     | CachedRaw r \<Rightarrow> (case EncodeToBytes (raw_rval r) of Inl _ \<Rightarrow> None | Inr blob \<Rightarrow> Some blob))"

definition cachedNode_obj :: "hash \<Rightarrow> cachedNode \<Rightarrow> node option" where
  "cachedNode_obj hash n =
    (case n of CachedBlob blob \<Rightarrow> mustDecodeNode (Some (hash_bytes hash)) blob | CachedRaw r \<Rightarrow> expandNode (Some (hash_bytes hash)) r)"

record Database =
  td_cleans :: "(hash, bytes) gomap option"
  td_flushedHashCache :: "(hash, node) gomap option"
  td_dirties :: "(hash, cachedNode) gomap"
  td_diskdb :: "hash \<Rightarrow> bytes option"

definition cleans_Get :: "Database \<Rightarrow> hash \<Rightarrow> bytes option" where
  "cleans_Get db hash = Option.bind (td_cleans db) (\<lambda>m. gm_get m hash)"

definition cleans_Set :: "hash \<Rightarrow> bytes \<Rightarrow> Database \<Rightarrow> Database" where
  "cleans_Set hash enc db = db\<lparr>td_cleans := map_option (\<lambda>m. gm_set m hash enc) (td_cleans db)\<rparr>"

definition flushed_Get :: "Database \<Rightarrow> hash \<Rightarrow> node option" where
  "flushed_Get db hash = Option.bind (td_flushedHashCache db) (\<lambda>m. gm_get m hash)"

text \<open>The new entry of the dirty nodes in \<^verbatim>\<open>insert\<close>; the reference counts and the order of the flush list are left out.\<close>

definition database_insert :: "hash \<Rightarrow> node \<Rightarrow> Database \<Rightarrow> Database option" where
  "database_insert hash node db =
    (if gm_get (td_dirties db) hash \<noteq> None then Some db
     else map_option (\<lambda>r. db\<lparr>td_dirties := gm_set (td_dirties db) hash (CachedRaw r)\<rparr>) (simplifyNode node))"

text \<open>\<^verbatim>\<open>Database.node\<close>: \<open>None\<close> is a panic, \<open>NilNode\<close> a missing node.\<close>

definition database_node :: "hash \<Rightarrow> Database \<Rightarrow> node option \<times> Database" where
  "database_node hash db =
    (case cleans_Get db hash of
       Some enc \<Rightarrow> (mustDecodeNode (Some (hash_bytes hash)) enc, db)
     | None \<Rightarrow>
         (case flushed_Get db hash of
            Some n \<Rightarrow> (createNode n, db)
          | None \<Rightarrow>
              (case gm_get (td_dirties db) hash of
                 Some dirty \<Rightarrow> (cachedNode_obj hash dirty, db)
               | None \<Rightarrow>
                   (case td_diskdb db hash of
                      None \<Rightarrow> (Some NilNode, db)
                    | Some enc \<Rightarrow> (mustDecodeNode (Some (hash_bytes hash)) enc, cleans_Set hash enc db)))))"

text \<open>\<^verbatim>\<open>Database.Node\<close>: \<open>Inl False\<close> is a panic, \<open>Inl True\<close> the error that nothing was found.\<close>

definition or_panic :: "bytes option \<Rightarrow> (bool, bytes) result" where
  "or_panic r = (case r of None \<Rightarrow> Inl False | Some b \<Rightarrow> Inr b)"

definition database_Node :: "hash \<Rightarrow> Database \<Rightarrow> (bool, bytes) result \<times> Database" where
  "database_Node hash db =
    (if hash = 0 then (Inl True, db)
     else
       (case cleans_Get db hash of
          Some enc \<Rightarrow> (Inr enc, db)
        | None \<Rightarrow>
            (case flushed_Get db hash of
               Some n \<Rightarrow> (or_panic (Option.bind (simplifyNode n) (\<lambda>r. cachedNode_rlp (CachedRaw r))), db)
             | None \<Rightarrow>
                 (case gm_get (td_dirties db) hash of
                    Some dirty \<Rightarrow> (or_panic (cachedNode_rlp dirty), db)
                  | None \<Rightarrow>
                      (case td_diskdb db hash of
                         Some enc \<Rightarrow> if length enc \<noteq> 0 then (Inr enc, cleans_Set hash enc db) else (Inl True, db)
                       | None \<Rightarrow> (Inl True, db))))))"

subsection \<open>Decoding is expansion\<close>

text \<open>The nodes that the committer stores: compact keys, values behind keys with a terminator, references of 32 bytes, and
  embedded nodes whose encoding is shorter than a hash.\<close>

definition ref_size :: "raw_node \<Rightarrow> nat" where
  "ref_size n = (case rlp_ref (raw_rval n) of Inr b \<Rightarrow> length b | Inl _ \<Rightarrow> 0)"

inductive raw_ok :: "raw_node \<Rightarrow> bool" and raw_ref_ok :: "raw_node \<Rightarrow> bool" where
  raw_leaf: "nibbles ns \<Longrightarrow> raw_ok (RawShort (hexToCompact (ns @ [16])) (RawValue w))"
| raw_ext: "nibbles ns \<Longrightarrow> raw_ref_ok v \<Longrightarrow> v \<noteq> RawNil \<Longrightarrow> raw_ok (RawShort (hexToCompact ns) v)"
| raw_full: "length cs = 16 \<Longrightarrow> (\<And>c. c \<in> set cs \<Longrightarrow> raw_ref_ok c) \<Longrightarrow> l = RawNil \<or> (\<exists>w. w \<noteq> [] \<and> l = RawValue w) \<Longrightarrow>
    raw_ok (RawFull (cs @ [l]))"
| raw_nil: "raw_ref_ok RawNil"
| raw_hash: "length h = 32 \<Longrightarrow> raw_ref_ok (RawHash h)"
| raw_embed: "raw_ok n \<Longrightarrow> ref_size n < 32 \<Longrightarrow> raw_ref_ok n"

text \<open>The expansion of such a node.\<close>

fun expanded :: "bytes option \<Rightarrow> raw_node \<Rightarrow> node" where
  "expanded hash (RawShort k v) = ShortNode (compactToHex k) (expanded None v) \<lparr>nf_hash = hash, nf_dirty = False\<rparr>"
| "expanded hash (RawFull cs) = FullNode (map (\<lambda>c. if c \<noteq> RawNil then expanded None c else NilNode) cs) \<lparr>nf_hash = hash, nf_dirty = False\<rparr>"
| "expanded hash (RawValue v) = ValueNode v"
| "expanded hash (RawHash h) = HashNode h"
| "expanded hash RawNil = NilNode"

definition child_rval :: "raw_node \<Rightarrow> rval" where
  "child_rval c = (if c \<noteq> RawNil then raw_rval c else VBytes [])"

lemma rlp_ref_all_concat: "rlp_ref_all vs = Inr bs \<Longrightarrow> \<exists>xs. list_all2 (\<lambda>v x. rlp_ref v = Inr x) vs xs \<and> bs = concat xs"
proof (induction vs arbitrary: bs)
  case (Cons v vs)
  then obtain x y where "rlp_ref v = Inr x" "rlp_ref_all vs = Inr y" "bs = x @ y" by (auto simp: rbind_Inr_iff)
  moreover from this obtain xs where "list_all2 (\<lambda>v x. rlp_ref v = Inr x) vs xs" "y = concat xs" using Cons.IH by blast
  ultimately show ?case by (intro exI [of _ "x # xs"]) simp
qed simp

lemma rlp_lst_longer: "length c < length (rlp_lst c)" "length (rlp_str c) \<ge> length c"
  by (auto simp: rlp_lst_def rlp_str_def rlp_head_def)

lemma SplitString_str: "length (rlp_str b @ r) < 2 ^ 63 \<Longrightarrow> SplitString (rlp_str b @ r) = Inr (b, r)"
  using Split_str [of b r] rlp_lst_longer(2) [of b] by (auto simp: SplitString_def str_kind_def)

lemma SplitList_lst: "length (rlp_lst c @ r) < 2 ^ 63 \<Longrightarrow> SplitList (rlp_lst c @ r) = Inr (c, r)"
  using Split_lst [of c r] rlp_lst_longer(1) [of c] by (simp add: SplitList_def)

lemma decode_children_all:
  assumes "list_all2 (\<lambda>c x. \<forall>r. length (x @ r) < 2 ^ 63 \<longrightarrow> decodeRef dec (x @ r) = Inr (e c, r)) cs xs" "length (concat xs @ rest) < 2 ^ 63"
  shows "decode_children dec (length cs) (concat xs @ rest) = Inr (map e cs, rest)"
  using assms by (induction cs xs rule: list_all2_induct) simp_all

text \<open>What decoding a node, or a reference to one, returns.\<close>

definition decodes :: "raw_node \<Rightarrow> bool" where
  "decodes n \<longleftrightarrow> (\<forall>bs r hash fuel. rlp_ref (raw_rval n) = Inr bs \<longrightarrow> length (bs @ r) < 2 ^ 63 \<longrightarrow> length bs < fuel \<longrightarrow>
    decode_node fuel hash (bs @ r) = Inr (expanded hash n))"

definition decodes_ref :: "raw_node \<Rightarrow> bool" where
  "decodes_ref n \<longleftrightarrow> (\<forall>bs r fuel. rlp_ref (child_rval n) = Inr bs \<longrightarrow> length (bs @ r) < 2 ^ 63 \<longrightarrow> length bs < fuel \<longrightarrow>
    decodeRef (decode_node fuel None) (bs @ r) = Inr (expanded None n, r))"

lemma decode_node_list:
  assumes "rlp_ref_all vs = Inr c" "length (rlp_lst c @ r) < 2 ^ 63"
  shows "decode_node (Suc fuel) hash (rlp_lst c @ r) =
    (if length vs = 2 then decodeShort (decode_node fuel None) hash c
     else if length vs = 17 then decodeFull (decode_node fuel None) hash c else Inl (InvalidCount (length vs)))"
proof -
  have l: "length c < 2 ^ 63" using assms(2) rlp_lst_longer(1) [of c] by simp
  have "CountValues c = Some (Inr (length vs))"
    using CountValues_loop_encode [OF assms(1) l, of "length c" 0] by (simp add: CountValues_def)
  moreover have "rlp_lst c \<noteq> []" using rlp_lst_longer(1) [of c] by auto
  ultimately show ?thesis using SplitList_lst [OF assms(2)] by (simp add: from_rlp_def Let_def)
qed

lemma raw_decodes:
  "raw_ok n \<Longrightarrow> decodes n" "raw_ref_ok n \<Longrightarrow> decodes_ref n"
proof (induction rule: raw_ok_raw_ref_ok.inducts)
  case (raw_leaf ns w)
  let ?k = "hexToCompact (ns @ [16])"
  have k: "compactToHex ?k = ns @ [16]" "hasTerm (ns @ [16])"
    using compact_hex [OF raw_leaf, of True] by (simp_all add: term_of_def hasTerm_def)
  show ?case unfolding decodes_def
  proof (intro allI impI)
    fix bs r hash fuel
    assume bs: "rlp_ref (raw_rval (RawShort ?k (RawValue w))) = Inr bs" "length (bs @ r) < 2 ^ 63" "length bs < fuel"
    let ?c = "rlp_str ?k @ rlp_str w"
    have b: "bs = rlp_lst ?c" "rlp_ref_all [VBytes ?k, VBytes w] = Inr ?c" using bs(1) by (auto simp: drop_zero_tail_def)
    obtain f where f: "fuel = Suc f" using bs(3) by (cases fuel) auto
    have "length ?c < 2 ^ 63" using bs(2) rlp_lst_longer(1) [of ?c] unfolding b(1) by simp
    then have "SplitString ?c = Inr (?k, rlp_str w)" "SplitString (rlp_str w) = Inr (w, [])"
      using SplitString_str [of ?k "rlp_str w"] SplitString_str [of w "[]"] by simp_all
    then show "decode_node fuel hash (bs @ r) = Inr (expanded hash (RawShort ?k (RawValue w)))"
      using decode_node_list [OF b(2) bs(2) [unfolded b(1)], of f hash] k
      unfolding f b(1) by (simp del: decode_node.simps add: decodeShort_def from_rlp_def Let_def)
  qed
next
  case (raw_ext ns v)
  let ?k = "hexToCompact ns"
  have k: "compactToHex ?k = ns" "\<not> hasTerm ns"
    using compact_hex [OF raw_ext(1), of False] nibbles_no_term [OF raw_ext(1)] by (simp_all add: term_of_def)
  show ?case unfolding decodes_def
  proof (intro allI impI)
    fix bs r hash fuel
    assume bs: "rlp_ref (raw_rval (RawShort ?k v)) = Inr bs" "length (bs @ r) < 2 ^ 63" "length bs < fuel"
    obtain x where x: "rlp_ref (raw_rval v) = Inr x" "bs = rlp_lst (rlp_str ?k @ x)"
      using bs(1) by (auto simp: drop_zero_tail_def rbind_Inr_iff)
    let ?c = "rlp_str ?k @ x"
    have all: "rlp_ref_all [VBytes ?k, raw_rval v] = Inr ?c" using x(1) by simp
    obtain f where f: "fuel = Suc f" using bs(3) by (cases fuel) auto
    have l: "length ?c < 2 ^ 63" "length ?c < f" using bs(2,3) rlp_lst_longer(1) [of ?c] unfolding x(2) f by simp_all
    then have "decodeRef (decode_node f None) (x @ []) = Inr (expanded None v, [])"
      using raw_ext.IH [unfolded decodes_ref_def, rule_format, of x "[]" f] raw_ext.hyps x(1) by (simp add: child_rval_def)
    then show "decode_node fuel hash (bs @ r) = Inr (expanded hash (RawShort ?k v))"
      using decode_node_list [OF all bs(2) [unfolded x(2)], of f hash] SplitString_str [of ?k x] k l
      unfolding f x(2) by (simp add: decodeShort_def from_rlp_def Let_def)
  qed
next
  case (raw_full cs l)
  show ?case unfolding decodes_def
  proof (intro allI impI)
    fix bs r hash fuel
    assume bs: "rlp_ref (raw_rval (RawFull (cs @ [l]))) = Inr bs" "length (bs @ r) < 2 ^ 63" "length bs < fuel"
    let ?vs = "map child_rval (cs @ [l])"
    obtain c where c: "rlp_ref_all ?vs = Inr c" "bs = rlp_lst c" using bs(1) by (auto simp: rbind_Inr_iff child_rval_def [abs_def])
    then obtain xs where xs: "list_all2 (\<lambda>v x. rlp_ref v = Inr x) ?vs xs" "c = concat xs" using rlp_ref_all_concat by blast
    obtain ys y where y: "xs = ys @ [y]" "list_all2 (\<lambda>v x. rlp_ref v = Inr x) (map child_rval cs) ys" "rlp_ref (child_rval l) = Inr y"
      using xs(1) by (auto simp: list_all2_append1 list_all2_Cons1)
    obtain w where w: "y = rlp_str w" "expanded None l = (if length w > 0 then ValueNode w else NilNode)"
      using raw_full.hyps(3) y(3) by (auto simp: child_rval_def)
    obtain f where f: "fuel = Suc f" using bs(3) by (cases fuel) auto
    have len: "length (concat ys @ y) < 2 ^ 63" "length (concat ys @ y) < f"
      using bs(2,3) rlp_lst_longer(1) [of c] xs(2) y(1) unfolding c(2) f by simp_all
    have "decode_children (decode_node f None) (length cs) (concat ys @ y) = Inr (map (expanded None) cs, y)"
    proof (rule decode_children_all [OF _ len(1)], rule list_all2_all_nthI)
      show lc: "length cs = length ys" using y(2) by (auto dest: list_all2_lengthD)
      fix i
      assume i: "i < length cs"
      have "rlp_ref (child_rval (cs ! i)) = Inr (ys ! i)" using y(2) i by (auto simp: list_all2_conv_all_nth)
      moreover have "length (ys ! i) < f"
        using len(2) i lc elem_le_sum_list [of i "map length ys"] by (simp add: length_concat)
      ultimately show "\<forall>r. length (ys ! i @ r) < 2 ^ 63 \<longrightarrow> decodeRef (decode_node f None) (ys ! i @ r) = Inr (expanded None (cs ! i), r)"
        using raw_full.IH [OF nth_mem [OF i]] unfolding decodes_ref_def by blast
    qed
    moreover have "SplitString y = Inr (w, [])" using SplitString_str [of w "[]"] len(1) w(1) by simp
    moreover have "map (\<lambda>c. if c \<noteq> RawNil then expanded None c else NilNode) cs = map (expanded None) cs"
      "(if l \<noteq> RawNil then expanded None l else NilNode) = expanded None l" by auto
    ultimately show "decode_node fuel hash (bs @ r) = Inr (expanded hash (RawFull (cs @ [l])))"
      using decode_node_list [OF c(1) bs(2) [unfolded c(2)], of f hash] raw_full.hyps(1) w xs(2) y(1)
      unfolding f c(2) by (simp add: decodeFull_def from_rlp_def)
  qed
next
  case raw_nil
  show ?case unfolding decodes_ref_def child_rval_def
  proof (intro allI impI)
    fix bs r :: bytes and fuel :: nat
    assume bs: "rlp_ref (if RawNil \<noteq> RawNil then raw_rval RawNil else VBytes []) = Inr bs" "length (bs @ r) < 2 ^ 63"
    then have "bs = rlp_str []" by simp
    then show "decodeRef (decode_node fuel None) (bs @ r) = Inr (expanded None RawNil, r)"
      using Split_str [of "[]" r] bs(2) by (simp add: decodeRef_def from_rlp_def str_kind_def)
  qed
next
  case (raw_hash h)
  show ?case unfolding decodes_ref_def child_rval_def
  proof (intro allI impI)
    fix bs r :: bytes and fuel :: nat
    assume bs: "rlp_ref (if RawHash h \<noteq> RawNil then raw_rval (RawHash h) else VBytes []) = Inr bs" "length (bs @ r) < 2 ^ 63"
    then have "bs = rlp_str h" by simp
    then show "decodeRef (decode_node fuel None) (bs @ r) = Inr (expanded None (RawHash h), r)"
      using Split_str [of h r] bs(2) raw_hash rlp_lst_longer(2) [of h] by (auto simp: decodeRef_def from_rlp_def str_kind_def)
  qed
next
  case (raw_embed n)
  have n: "n \<noteq> RawNil" using raw_embed(1) by (auto elim: raw_ok.cases)
  show ?case unfolding decodes_ref_def
  proof (intro allI impI)
    fix bs r :: bytes and fuel :: nat
    assume "rlp_ref (child_rval n) = Inr bs" and bs: "length (bs @ r) < 2 ^ 63" "length bs < fuel"
    then have b: "rlp_ref (raw_rval n) = Inr bs" using n by (simp add: child_rval_def)
    then have "length bs < 32" using raw_embed.hyps(2) by (simp add: ref_size_def)
    moreover obtain c where c: "bs = rlp_lst c" using raw_embed(1) b by (cases rule: raw_ok.cases) (auto simp: rbind_Inr_iff)
    ultimately show "decodeRef (decode_node fuel None) (bs @ r) = Inr (expanded None n, r)"
      using Split_lst [of c r] bs raw_embed.IH b rlp_lst_longer(1) [of c] by (simp add: decodeRef_def from_rlp_def Let_def decodes_def)
  qed
qed

subsection \<open>The nesting of nodes is bounded by the buffer\<close>

lemma Split_lengths:
  assumes "Split buf = Inr (k, c, r)" "length buf < 2 ^ 63"
  shows "length r < length buf" "k = KList \<Longrightarrow> length c < length buf"
proof -
  note e = Split_canonical_raw [OF assms]
  have "rlp_lst x \<noteq> []" "rlp_str x \<noteq> []" for x by (auto simp: rlp_lst_def rlp_str_def rlp_head_def)
  then show "length r < length buf" using arg_cong [OF e, of length] by (auto split: if_splits)
  show "length c < length buf" if "k = KList" using arg_cong [OF e, of length] that rlp_lst_longer(1) [of c] by simp
qed

lemma rbind_Inl_iff: "rbind r f = Inl e \<longleftrightarrow> r = Inl e \<or> (\<exists>x. r = Inr x \<and> f x = Inl e)"
  by (cases r) auto

lemma from_rlp_simps [simp]: "from_rlp r \<noteq> Inl DecodeFuel" "from_rlp r = Inr x \<longleftrightarrow> r = Inr x"
  by (auto simp: from_rlp_def split: sum.splits)

lemma SplitString_length: "SplitString b = Inr (k, rest) \<Longrightarrow> length b < 2 ^ 63 \<Longrightarrow> length rest < length b"
  using Split_lengths(1) by (auto simp: SplitString_def rbind_Inr_iff split: if_splits)

lemma SplitList_length: "SplitList b = Inr (elems, rest) \<Longrightarrow> length b < 2 ^ 63 \<Longrightarrow> length elems < length b"
  using Split_lengths(2) by (auto simp: SplitList_def rbind_Inr_iff split: if_splits)

lemma decodeRef_fuel:
  assumes "decodeRef dec buf = Inl DecodeFuel"
  shows "dec buf = Inl DecodeFuel"
  using assms by (auto simp: decodeRef_def rbind_Inl_iff Let_def split: if_splits)

lemma decodeRef_length: "decodeRef dec buf = Inr (n, r) \<Longrightarrow> length buf < 2 ^ 63 \<Longrightarrow> length r < length buf"
  using Split_lengths(1) by (auto simp: decodeRef_def rbind_Inr_iff Let_def split: if_splits)

lemma decode_children_fuel:
  "decode_children dec i elems = Inl DecodeFuel \<Longrightarrow> length elems < 2 ^ 63 \<Longrightarrow>
   \<exists>b. length b \<le> length elems \<and> dec b = Inl DecodeFuel"
proof (induction i arbitrary: elems)
  case (Suc i)
  then consider "decodeRef dec elems = Inl DecodeFuel" |
    n r where "decodeRef dec elems = Inr (n, r)" "decode_children dec i r = Inl DecodeFuel"
    by (auto simp: rbind_Inl_iff)
  then show ?case
  proof cases
    case 1
    then show ?thesis using decodeRef_fuel by blast
  next
    case (2 n r)
    note l = decodeRef_length [OF 2(1) Suc.prems(2)]
    have "length r < 2 ^ 63" using l Suc.prems(2) by linarith
    from Suc.IH [OF 2(2) this] l show ?thesis by (meson less_imp_le order_trans)
  qed
qed simp

text \<open>The fuel is enough: decoding ends on every buffer.\<close>

lemma decode_enough: "length buf < fuel \<Longrightarrow> length buf < 2 ^ 63 \<Longrightarrow> decode_node fuel hash buf \<noteq> Inl DecodeFuel"
proof (induction fuel arbitrary: hash buf)
  case (Suc fuel)
  show ?case
  proof
    assume "decode_node (Suc fuel) hash buf = Inl DecodeFuel"
    then obtain elems rest where e: "SplitList buf = Inr (elems, rest)"
      "decodeShort (decode_node fuel None) hash elems = Inl DecodeFuel \<or> decodeFull (decode_node fuel None) hash elems = Inl DecodeFuel"
      by (auto simp: rbind_Inl_iff Let_def split: if_splits)
    have l: "length elems < length buf" "length elems < 2 ^ 63" using SplitList_length [OF e(1)] Suc.prems by auto
    from e(2) have "\<exists>b. length b \<le> length elems \<and> decode_node fuel None b = Inl DecodeFuel"
    proof
      assume "decodeShort (decode_node fuel None) hash elems = Inl DecodeFuel"
      then obtain k r where r: "SplitString elems = Inr (k, r)" "decodeRef (decode_node fuel None) r = Inl DecodeFuel"
        by (auto simp: decodeShort_def rbind_Inl_iff Let_def split: if_splits)
      then show ?thesis using decodeRef_fuel [OF r(2)] SplitString_length [OF r(1) l(2)] by (intro exI [of _ r]) simp
    next
      assume "decodeFull (decode_node fuel None) hash elems = Inl DecodeFuel"
      then have "decode_children (decode_node fuel None) 16 elems = Inl DecodeFuel"
        by (auto simp: decodeFull_def rbind_Inl_iff)
      then show ?thesis using decode_children_fuel l(2) by blast
    qed
    then obtain b where b: "length b \<le> length elems" "decode_node fuel None b = Inl DecodeFuel" by blast
    have "length b < fuel" "length b < 2 ^ 63" using b(1) l Suc.prems by linarith+
    then show False using Suc.IH [of b None] b(2) by blast
  qed
qed simp

subsection \<open>Expansion\<close>

lemma those_all: "(\<And>x. x \<in> set xs \<Longrightarrow> f x = Some (g x)) \<Longrightarrow> those (map f xs) = Some (map g xs)"
  by (induction xs) auto

lemma expandNode_total:
  "raw_ok n \<Longrightarrow> \<forall>hash. expandNode hash n = Some (expanded hash n)"
  "raw_ref_ok n \<Longrightarrow> n \<noteq> RawNil \<longrightarrow> (\<forall>hash. expandNode hash n = Some (expanded hash n))"
proof (induction rule: raw_ok_raw_ref_ok.inducts)
  case (raw_full cs l)
  have "those (map (\<lambda>c. if c \<noteq> RawNil then expandNode None c else Some NilNode) (cs @ [l])) =
      Some (map (\<lambda>c. if c \<noteq> RawNil then expanded None c else NilNode) (cs @ [l]))"
    using raw_full.IH raw_full.hyps by (intro those_all) auto
  then show ?case by (simp only: expandNode.simps expanded.simps option.map) simp
next
  case (raw_embed n)
  then show ?case by blast
qed simp_all

lemma rlp_ref_raw: "\<exists>bs. rlp_ref (raw_rval n) = Inr bs"
proof (induction n)
  case (RawFull cs)
  have "\<exists>bs. rlp_ref_all (map (\<lambda>c. if c \<noteq> RawNil then raw_rval c else VBytes []) cs) = Inr bs"
    if "\<And>c. c \<in> set cs \<Longrightarrow> \<exists>bs. rlp_ref (raw_rval c) = Inr bs" for cs
    using that
  proof (induction cs)
    case (Cons c cs)
    have "\<exists>x. rlp_ref (if c \<noteq> RawNil then raw_rval c else VBytes []) = Inr x" using Cons.prems by simp
    moreover have "\<exists>y. rlp_ref_all (map (\<lambda>c. if c \<noteq> RawNil then raw_rval c else VBytes []) cs) = Inr y"
      using Cons by simp
    ultimately show ?case by (auto simp: rbind_Inr_iff)
  qed simp
  then show ?case using RawFull by (fastforce simp: rbind_Inr_iff)
qed (auto simp: drop_zero_tail_def rbind_Inr_iff)

text \<open>A node as the committer stores it, whose encoding fits the address space.\<close>

definition stored :: "raw_node \<Rightarrow> bool" where
  "stored n \<longleftrightarrow> raw_ok n \<and> (\<forall>bs. rlp_ref (raw_rval n) = Inr bs \<longrightarrow> length bs < 2 ^ 63)"

lemma stored_decodes:
  assumes "stored n"
  obtains blob where "cachedNode_rlp (CachedRaw n) = Some blob" "blob \<noteq> []" "mustDecodeNode hash blob = expandNode hash n"
    "expandNode hash n \<noteq> None"
proof -
  obtain blob where b: "rlp_ref (raw_rval n) = Inr blob" using rlp_ref_raw by blast
  then have l: "length blob < 2 ^ 63" using assms by (simp add: stored_def)
  then have e: "cachedNode_rlp (CachedRaw n) = Some blob" using EncodeToBytes_ok [OF b] by (simp add: cachedNode_rlp_def)
  have ok: "raw_ok n" using assms by (simp add: stored_def)
  have "decodes n" using raw_decodes(1) [OF ok] .
  then have "decodeNode hash blob = Inr (expanded hash n)"
    using b l unfolding decodes_def decodeNode_def by (metis append_Nil2 lessI)
  then have d: "mustDecodeNode hash blob = Some (expanded hash n)" by (simp add: mustDecodeNode_def)
  have x: "expandNode hash n = Some (expanded hash n)" using expandNode_total(1) [OF ok] by blast
  have "blob \<noteq> []" using d by (auto simp: mustDecodeNode_def decodeNode_def)
  then show ?thesis using that [OF e] d x by simp
qed

subsection \<open>The layers agree\<close>

text \<open>\<open>content\<close> gives the node that belongs to a hash; what a layer holds under the hash is this node, collapsed or encoded.\<close>

definition encoded :: "(hash \<Rightarrow> raw_node option) \<Rightarrow> hash \<Rightarrow> bytes \<Rightarrow> bool" where
  "encoded content h enc \<longleftrightarrow> (\<exists>n. content h = Some n \<and> stored n \<and> cachedNode_rlp (CachedRaw n) = Some enc)"

definition layers_ok :: "(hash \<Rightarrow> raw_node option) \<Rightarrow> Database \<Rightarrow> bool" where
  "layers_ok content db \<longleftrightarrow>
    (\<forall>h enc. cleans_Get db h = Some enc \<longrightarrow> encoded content h enc) \<and>
    (\<forall>h enc. td_diskdb db h = Some enc \<longrightarrow> encoded content h enc) \<and>
    (\<forall>h d. gm_get (td_dirties db) h = Some d \<longrightarrow>
       (case d of CachedBlob blob \<Rightarrow> encoded content h blob | CachedRaw n \<Rightarrow> content h = Some n \<and> stored n))"

definition holds :: "Database \<Rightarrow> hash \<Rightarrow> bool" where
  "holds db h \<longleftrightarrow> cleans_Get db h \<noteq> None \<or> gm_get (td_dirties db) h \<noteq> None \<or> td_diskdb db h \<noteq> None"

lemma encoded_reads:
  assumes "encoded content h enc"
  shows "\<exists>n m. content h = Some n \<and> stored n \<and> cachedNode_rlp (CachedRaw n) = Some enc \<and> enc \<noteq> [] \<and>
    mustDecodeNode hash enc = Some m \<and> expandNode hash n = Some m"
proof -
  obtain n where n: "content h = Some n" "stored n" "cachedNode_rlp (CachedRaw n) = Some enc"
    using assms by (auto simp: encoded_def)
  show ?thesis by (rule stored_decodes [OF n(2), of hash]) (use n in auto)
qed

lemma cleans_Get_Set: "cleans_Get (cleans_Set h enc db) h' =
    (if h' = h \<and> td_cleans db \<noteq> None then Some enc else cleans_Get db h')"
  by (cases "td_cleans db") (auto simp: cleans_Get_def cleans_Set_def gm_get_set)

lemma cleans_Set_sel [simp]:
  "td_dirties (cleans_Set h enc db) = td_dirties db" "td_diskdb (cleans_Set h enc db) = td_diskdb db"
  "td_flushedHashCache (cleans_Set h enc db) = td_flushedHashCache db"
  by (simp_all add: cleans_Set_def)

lemma layers_ok_Set: "layers_ok content db \<Longrightarrow> encoded content h enc \<Longrightarrow> layers_ok content (cleans_Set h enc db)"
  by (auto simp: layers_ok_def cleans_Get_Set split: if_splits)

lemma holds_Set: "holds db h \<Longrightarrow> holds (cleans_Set h enc db) h' \<longleftrightarrow> holds db h'"
  by (cases "h' = h") (simp_all add: holds_def cleans_Get_Set)

lemma layers_ok_insert:
  assumes "layers_ok content db" "simplifyNode n = Some r" "stored r" "content h = Some r"
  shows "\<exists>db'. database_insert h n db = Some db' \<and> layers_ok content db' \<and> holds db' h"
  using assms by (auto simp: database_insert_def layers_ok_def holds_def gm_get_set cleans_Get_def)

lemma layer_cases:
  assumes "layers_ok content db" "flushed_Get db h = None" "holds db h"
  shows "\<exists>n m blob db'. content h = Some n \<and> stored n \<and> expandNode (Some (hash_bytes h)) n = Some m \<and>
    cachedNode_rlp (CachedRaw n) = Some blob \<and> database_node h db = (Some m, db') \<and>
    (h \<noteq> 0 \<longrightarrow> database_Node h db = (Inr blob, db')) \<and> (db' = db \<or> db' = cleans_Set h blob db)"
proof (cases "cleans_Get db h")
  case (Some enc)
  then have "encoded content h enc" using assms(1) by (simp add: layers_ok_def)
  from encoded_reads [OF this, of "Some (hash_bytes h)"] show ?thesis
    using Some by (auto simp: database_node_def database_Node_def)
next
  case clean: None
  show ?thesis
  proof (cases "gm_get (td_dirties db) h")
    case (Some d)
    then have d: "case d of CachedBlob blob \<Rightarrow> encoded content h blob | CachedRaw n \<Rightarrow> content h = Some n \<and> stored n"
      using assms(1) by (simp add: layers_ok_def)
    show ?thesis
    proof (cases d)
      case (CachedRaw n)
      with d have n: "content h = Some n" "stored n" by simp_all
      show ?thesis by (rule stored_decodes [OF n(2), of "Some (hash_bytes h)"])
        (use n Some clean CachedRaw assms(2) in \<open>auto simp: database_node_def database_Node_def cachedNode_obj_def or_panic_def\<close>)
    next
      case (CachedBlob blob)
      with d have "encoded content h blob" by simp
      from encoded_reads [OF this, of "Some (hash_bytes h)"] show ?thesis using Some clean CachedBlob assms(2)
        by (auto simp: database_node_def database_Node_def cachedNode_obj_def cachedNode_rlp_def or_panic_def)
    qed
  next
    case None
    then obtain enc where enc: "td_diskdb db h = Some enc" using assms(3) clean by (auto simp: holds_def)
    then have "encoded content h enc" using assms(1) by (simp add: layers_ok_def)
    from encoded_reads [OF this, of "Some (hash_bytes h)"] show ?thesis
      using enc clean None assms(2) by (auto simp: database_node_def database_Node_def)
  qed
qed


text \<open>A leaf on disk, for the examples.\<close>

definition demo_leaf :: raw_node where
  "demo_leaf = RawShort (hexToCompact [1, 16]) (RawValue [7])"

definition demo_database :: Database where
  "demo_database = \<lparr>td_cleans = Some [], td_flushedHashCache = Some [(6, ShortNode [1, 16] (ValueNode [7]) newFlag)], td_dirties = [],
     td_diskdb = (\<lambda>h. if h = 5 then Some [0xC2, 0x31, 7] else None)\<rparr>"

lemma demo_leaf_rlp: "cachedNode_rlp (CachedRaw demo_leaf) = Some [0xC2, 0x31, 7]"
  by code_simp

lemma demo_layers: "layers_ok (\<lambda>h. if h = 5 then Some demo_leaf else None) demo_database"
proof -
  have "raw_ok demo_leaf" using raw_ok_raw_ref_ok.raw_leaf [of "[1]" "[7]"] by (simp add: demo_leaf_def nibbles_def)
  moreover have "rlp_ref (raw_rval demo_leaf) = Inr [0xC2, 0x31, 7]" by code_simp
  ultimately have "stored demo_leaf" by (simp add: stored_def)
  then show ?thesis
    using demo_leaf_rlp by (auto simp: layers_ok_def encoded_def demo_database_def cleans_Get_def gm_get_def)
qed


text \<open>A node of the last flush has its key in hexadecimal form.  \<^verbatim>\<open>Database.Node\<close> encodes it as it is, so the blob that it
  returns for the leaf is not the encoding of the leaf, whose hash was asked for.\<close>

theorem flushed_Node_encoding:
  "fst (database_node 6 demo_database) = Some (ShortNode [1, 16] (ValueNode [7]) \<lparr>nf_hash = None, nf_dirty = False\<rparr>) \<and>
    fst (database_Node 6 demo_database) = Inr [0xC4, 0x82, 1, 16, 7] \<and> cachedNode_rlp (CachedRaw demo_leaf) = Some [0xC2, 0x31, 7]"
  by code_simp

end
