(* ===== verification/Spec2Isabelle.thy ===== *)
theory Spec2Isabelle
  imports Prelude Rlp Params Header Fee_Market Congress_Base Snapshot
    Header_Chain Congress_Engine Access_List State_DB State_Journal State_Effects Evm
    Evm_Frames Access_Control State_Transition Receipts Transactions Reward_Scaling Congress_Finalize
    Vm_Machine Vm_Gas Vm_Instructions Vm_Interpreter Vm_Safety Vm_Steps Vm_Runs Text_Format X402 X402_Rewards
    System_Upgrade State_Processor Block_Accounting Merkle_Trie Trie_Map Trie_Store
begin

text \<open>
  Verification of the core of the Splendor node (\<^verbatim>\<open>Core-Blockchain/node_src\<close>, a go-ethereum fork with the
  Congress proof-of-authority engine).  File names below are relative to that directory.

  \<^bold>\<open>The program.\<close>  A validator prepares a header (\<^verbatim>\<open>Congress.Prepare\<close>), executes transactions on a
  \<^verbatim>\<open>StateDB\<close>, finalises the block and seals it (\<^verbatim>\<open>Congress.Seal\<close>).  Every node verifies headers
  (\<^verbatim>\<open>Congress.VerifyHeader\<close>) against the validator snapshot of the parent block, which it finds in a cache, in
  the database, or by applying headers read through the header chain to an older snapshot.  Headers are
  hashed and signed through their RLP encoding; gas limit and base fee follow rules that depend on the
  chain configuration.

  \<^bold>\<open>Theories.\<close>
  \<^item> \<open>Prelude\<close>: fixed-width types, Go maps as association lists (locale \<open>go_map\<close>), results, byte strings.
  \<^item> \<open>Rlp\<close>: \<^verbatim>\<open>rlp/encode.go\<close> and \<^verbatim>\<open>rlp/raw.go\<close>.  The buffered encoder refines a recursive reference
    encoding; the splitter accepts canonical encodings only and inverts the encoder.
  \<^item> \<open>Params\<close>: \<^verbatim>\<open>params/config.go\<close>.  Fork predicates, fork order, compatibility of configurations.
  \<^item> \<open>Header\<close>: \<^verbatim>\<open>core/types/block.go\<close>.  Headers, their encoding (injective on sane headers) and hash.
  \<^item> \<open>Fee_Market\<close>: \<^verbatim>\<open>consensus/misc\<close>.  Gas limit and base fee rules.
  \<^item> \<open>Congress_Base\<close>, \<open>Snapshot\<close>, \<open>Congress_Engine\<close>: \<^verbatim>\<open>consensus/congress\<close>.  The signed encoding, the snapshot
    state machine with its invariants and liveness, and the engine's handlers.
  \<^item> \<open>Header_Chain\<close>: \<^verbatim>\<open>core/headerchain.go\<close> and the header accessors of \<^verbatim>\<open>core/rawdb\<close>.  Its locale
    \<open>header_reader\<close> is the interface through which the engine reads the chain.
  \<^item> \<open>Access_List\<close>, \<open>State_DB\<close>, \<open>State_Journal\<close>, \<open>State_Effects\<close>: \<^verbatim>\<open>core/state\<close>.  Account state with its
    journal; a revert restores everything observable; transfers and the end of a transaction.
  \<^item> \<open>Evm\<close>, \<open>Evm_Frames\<close>: \<^verbatim>\<open>core/vm/evm.go\<close>, \<^verbatim>\<open>contract.go\<close>, \<^verbatim>\<open>core/evm.go\<close>.  The six kinds of call frame: they
    return, never gain gas, and a failing frame leaves the state as it was.
  \<^item> \<open>Vm_Machine\<close>, \<open>Vm_Gas\<close>, \<open>Vm_Instructions\<close>, \<open>Vm_Interpreter\<close>: \<^verbatim>\<open>core/vm\<close>.  Stack, memory and jump analysis, every gas
    function, every instruction, the jump tables of all forks and the run loop.  \<open>Vm_Safety\<close>, \<open>Vm_Steps\<close> and \<open>Vm_Runs\<close> state
    what gas functions, instructions and steps keep, and prove the contract that the call frames rely on.
  \<^item> \<open>State_Transition\<close>: \<^verbatim>\<open>core/state_transition.go\<close>, \<^verbatim>\<open>gaspool.go\<close>.  A message pays for exactly the gas it used;
    intrinsic gas; the fee split of meta transactions.
  \<^item> \<open>Receipts\<close>, \<open>Transactions\<close>: \<^verbatim>\<open>core/types\<close>.  Receipts and log blooms, list hashes, the transaction types and
    the five signers: signing and recovery are inverse, and signatures are bound to their chain.
  \<^item> \<open>Access_Control\<close>: blacklist, event rules and developer verification of Congress, exact against the contracts.
  \<^item> \<open>Reward_Scaling\<close>, \<open>Congress_Finalize\<close>: the end of a block (\<^verbatim>\<open>Finalize\<close>, \<^verbatim>\<open>FinalizeAndAssemble\<close>,
    \<^verbatim>\<open>congress_govern.go\<close>).  The float scaling of rewards with its error bound; an assembled block is accepted.
  \<^item> \<open>Text_Format\<close>, \<open>X402\<close>, \<open>X402_Rewards\<close>: the x402 payments (\<^verbatim>\<open>eth/api_x402.go\<close>, \<^verbatim>\<open>handler_x402_fix.go\<close>,
    \<^verbatim>\<open>api_x402_validator_rewards.go\<close>, \<^verbatim>\<open>core/types/x402_tx.go\<close>).  What the signed text binds, when a payment verifies,
    why no settlement succeeds, nonces, pending envelopes, revenue and ranking.
  \<^item> \<open>System_Upgrade\<close>, \<open>State_Processor\<close>, \<open>Block_Accounting\<close>: \<^verbatim>\<open>consensus/congress/systemcontract\<close>,
    \<^verbatim>\<open>core/state_processor.go\<close>, \<^verbatim>\<open>block_validator.go\<close>.  The upgrades of the system contracts, the execution and validation
    of a block; the gas of a block adds up, and the miner's gas limit is valid and reaches its target.
  \<^item> \<open>Merkle_Trie\<close>, \<open>Trie_Map\<close>: \<^verbatim>\<open>trie/encoding.go\<close>, \<^verbatim>\<open>trie/trie.go\<close>.  The key encodings are inverse; the trie, with
    nodes loaded on demand, is a map, and the map alone determines its tree of nodes.
  \<^item> \<open>Trie_Store\<close>: \<^verbatim>\<open>trie/node.go\<close>, \<^verbatim>\<open>trie/database.go\<close>.  Collapsed nodes, their encoding and decoder, and the
    layers of the trie database, which agree on every node.

  \<^bold>\<open>Conventions.\<close>  A Go error is \<open>Inl\<close>, a panic \<open>Inl Panic\<close> or \<open>None\<close>; \<^verbatim>\<open>uint64\<close> is \<open>64 word\<close> with
  wrap-around; \<^verbatim>\<open>*big.Int\<close> is an integer, optional where nil occurs.  Map iteration order is the order of
  the list that stands for the map, and the theorems hold for every such list.  Loops that are not
  structural have a termination proof; the search for a snapshot is a \<open>partial_function\<close> whose
  termination on the header chain is a theorem.  The run loop of the interpreter has one unit of fuel per unit
  of gas and one more, which is enough since every step that continues costs gas; nested runs are bounded by the
  call depth of 1024.

  \<^bold>\<open>Parameters.\<close>  Keccak, signing and signature recovery, the wall clock, the precompiled contracts, the
  division, exponentiation and shift operations of the \<^verbatim>\<open>uint256\<close> package, the ABI encoder, the RLP decoder of meta
  data, the byte codes of the system contracts, the storage interfaces (\<^verbatim>\<open>state.Trie\<close>, \<^verbatim>\<open>state.Database\<close>, the flat
  snapshot), the lookups of the chain, the tries behind a state root, the trie hasher, the calls and the pool behind
  the x402 API, and the conversion of an out-of-range float, which Go leaves open, are arguments of the definitions.

  \<^bold>\<open>Not modelled.\<close>  The tracer, the extra EIPs of the interpreter's configuration and its caches, the hashing, commit,
  iteration and proofs of tries, the transaction pool, the import of blocks and reorganisations, the streaming RLP decoder, networking, RPC,
  the command line and key storage.
\<close>

end
